(* ===== verification/Nios_Prelude.thy ===== *)
theory Nios_Prelude
  imports Main "HOL-Library.Word" "HOL-Library.Monad_Syntax"
begin

unbundle bit_operations_syntax

text \<open>
  The prelude of the development: the machine types, the C idioms that several components
  share (files written at an offset, \<^verbatim>\<open>printf\<close> conversions, C strings, plain \<^verbatim>\<open>char\<close>
  arithmetic) and the generic lemmas about lists and words their proofs use.

  Conventions. A fixed-width unsigned integer of the source is a word of that width; a C
  \<^verbatim>\<open>int\<close> whose value cannot leave its range is \<open>int\<close> (or \<open>nat\<close> for a counter) and
  is converted explicitly where the source mixes it with an unsigned operand. Text is
  \<open>string\<close>; raw data is a list of bytes.
\<close>

type_synonym u8 = "8 word"
type_synonym u16 = "16 word"
type_synonym u32 = "32 word"
type_synonym bytes = "8 word list"

named_theorems hex_simps "conversion of numbers to and from hexadecimal digits"
named_theorems file_simps "writing to a file or an array at an offset"

subsection \<open>Characters\<close>

abbreviation ascii :: "char \<Rightarrow> nat" where
  "ascii c \<equiv> of_char c"

abbreviation NUL :: char where
  "NUL \<equiv> CHR 0x00"

abbreviation newline :: char where
  "newline \<equiv> CHR 0x0A"

definition isdigit :: "char \<Rightarrow> bool" where
  "isdigit c \<longleftrightarrow> 48 \<le> ascii c \<and> ascii c \<le> 57"

subsection \<open>Hexadecimal output\<close>

text \<open>\<open>fmt_X w n\<close> is what \<^verbatim>\<open>printf("%0wX", n)\<close> prints.\<close>

definition hexdigit :: "nat \<Rightarrow> char" where
  "hexdigit n = ''0123456789ABCDEF'' ! n"

fun hexstr :: "nat \<Rightarrow> string" where
  "hexstr n = (if n < 16 then [hexdigit n] else hexstr (n div 16) @ [hexdigit (n mod 16)])"

declare hexstr.simps [simp del]

definition fmt_X :: "nat \<Rightarrow> nat \<Rightarrow> string" where
  "fmt_X w n = replicate (w - length (hexstr n)) (CHR ''0'') @ hexstr n"

lemma fmt_X_byte [hex_simps]:
  assumes "n < 256"
  shows "fmt_X 2 n = [hexdigit (n div 16), hexdigit (n mod 16)]"
proof (cases "n < 16")
  case True
  then show ?thesis by (simp add: fmt_X_def hexstr.simps [of n] hexdigit_def)
next
  case False
  with assms have "n div 16 < 16" by simp
  with False show ?thesis
    by (simp add: fmt_X_def hexstr.simps [of n] hexstr.simps [of "n div 16"])
qed

lemma less_16_iff:
  "(n::nat) < 16 \<longleftrightarrow> n \<in> {0, 1, 2, 3, 4, 5, 6, 7, 8, 9, 10, 11, 12, 13, 14, 15}"
  unfolding insert_iff empty_iff by presburger

lemma hexdigit_not_newline [hex_simps]: "n < 16 \<Longrightarrow> hexdigit n \<noteq> newline"
  by (auto simp: hexdigit_def less_16_iff)

lemma hexstr_not_newline: "newline \<notin> set (hexstr n)"
proof (induction n rule: hexstr.induct)
  case (1 n)
  then show ?case
    by (subst hexstr.simps) (auto simp: hexdigit_not_newline dest: sym)
qed

lemma fmt_X_not_newline [hex_simps]: "newline \<notin> set (fmt_X w n)"
  using hexstr_not_newline by (auto simp: fmt_X_def)

lemma hexstr_length_le:
  assumes "n < 16 ^ k" "0 < k"
  shows "length (hexstr n) \<le> k"
  using assms
proof (induction n arbitrary: k rule: hexstr.induct)
  case (1 n)
  show ?case
  proof (cases "n < 16")
    case True
    with "1.prems" show ?thesis by (simp add: hexstr.simps [of n])
  next
    case False
    obtain j where k: "k = Suc j" using "1.prems"(2) by (cases k) auto
    with False "1.prems"(1) have "0 < j" by (cases j) auto
    moreover have "n div 16 < 16 ^ j"
      using "1.prems"(1) by (simp add: k less_mult_imp_div_less mult.commute)
    ultimately have "length (hexstr (n div 16)) \<le> j"
      using "1.IH" False by blast
    with False k show ?thesis by (simp add: hexstr.simps [of n])
  qed
qed

subsection \<open>Writing a run of elements at an offset\<close>

text \<open>
  \<open>write_at d pos bs xs\<close> is the contents of a file (or array) \<open>xs\<close> after
  \<^verbatim>\<open>fseek(f, pos, SEEK_SET); fwrite(bs)\<close>: a gap beyond the old end reads back as \<open>d\<close>
  (zero in a file).
\<close>

definition write_at :: "'a \<Rightarrow> nat \<Rightarrow> 'a list \<Rightarrow> 'a list \<Rightarrow> 'a list" where
  "write_at d pos bs xs =
     (if bs = [] then xs
      else take pos xs @ replicate (pos - length xs) d @ bs @ drop (pos + length bs) xs)"

lemma length_write_at [file_simps]:
  "length (write_at d pos bs xs) =
     (if bs = [] then length xs else max (length xs) (pos + length bs))"
  by (auto simp: write_at_def)

lemma write_at_within [file_simps]:
  "pos + length bs \<le> length xs \<Longrightarrow>
   write_at d pos bs xs = take pos xs @ bs @ drop (pos + length bs) xs"
  by (auto simp: write_at_def)

lemma write_at_write_at_same [file_simps]:
  "write_at d pos bs (write_at d pos bs xs) = write_at d pos bs xs"
  by (auto simp: write_at_def)

lemma write_at_append [file_simps]:
  "length as = pos \<Longrightarrow> length bs \<le> length xs \<Longrightarrow>
   write_at d pos bs (as @ xs) = as @ bs @ drop (length bs) xs"
  by (auto simp: write_at_def)

subsection \<open>Bytes of words\<close>

lemma unat_u8_less [simp]: "unat (b::u8) < 256"
  using unsigned_less [of b] by simp

lemma unat_u32_less: "unat (a::u32) < 4294967296"
  using unsigned_less [of a] by simp

lemma unat_of_nat_u8: "n < 256 \<Longrightarrow> unat (of_nat n :: u8) = n"
  by (simp add: unat_of_nat take_bit_nat_eq_self)

lemma unat_of_nat_u32: "n < 2 ^ 32 \<Longrightarrow> unat (of_nat n :: u32) = n"
  by (simp add: unat_of_nat take_bit_nat_eq_self)

lemma and_255: "x AND 255 = take_bit 8 (x::'a::len word)"
  by (simp add: take_bit_eq_mask mask_eq_exp_minus_1)

lemma unat_byte_of:
  "unat (take_bit 8 (drop_bit (8 * n) (a::'a::len word))) = unat a div 256 ^ n mod 256"
  by (simp only: unsigned_take_bit_eq unsigned_drop_bit_eq)
     (simp add: drop_bit_eq_div take_bit_eq_mod power_mult)

lemma ucast_u8_u32: "(ucast (ucast (x::u32) :: u8) :: u32) = take_bit 8 x"
  by (rule bit_word_eqI) (auto simp add: bit_ucast_iff bit_take_bit_iff)

lemma ucast_u32_u8 [simp]: "(ucast (ucast (b::u8) :: u32) :: u8) = b"
  by (rule bit_word_eqI) (simp add: bit_ucast_iff)

subsection \<open>Computations that end\<close>

text \<open>
  \<open>ends m Q\<close>: the computation \<open>m\<close>, which is \<open>None\<close> where it does not end, ends with a
  result that satisfies \<open>Q\<close>.
\<close>

definition ends :: "'a option \<Rightarrow> ('a \<Rightarrow> bool) \<Rightarrow> bool" where
  "ends m Q \<longleftrightarrow> (\<exists>x. m = Some x \<and> Q x)"

lemma ends_Some [simp]: "ends (Some x) Q = Q x"
  by (simp add: ends_def)

lemma ends_None [simp]: "\<not> ends None Q"
  by (simp add: ends_def)

lemma ends_weaken: "ends m R \<Longrightarrow> (\<And>x. R x \<Longrightarrow> Q x) \<Longrightarrow> ends m Q"
  by (auto simp: ends_def)

lemma ends_case:
  "ends m R \<Longrightarrow> (\<And>x. m = Some x \<Longrightarrow> R x \<Longrightarrow> ends (f x) Q) \<Longrightarrow>
   ends (case m of None \<Rightarrow> None | Some x \<Rightarrow> f x) Q"
  by (auto simp: ends_def)

lemma endsD: "ends m Q \<Longrightarrow> m = Some x \<Longrightarrow> Q x"
  by (simp add: ends_def)

subsection \<open>Lists\<close>

lemma take_append_prefix: "length xs = n \<Longrightarrow> take n (xs @ ys) = xs"
  by simp

lemma nth_append_prefix: "i < length xs \<Longrightarrow> (xs @ ys) ! i = xs ! i"
  by (simp add: nth_append)

lemma foldl_map_append:
  "foldl f a (map g xs @ ys) = foldl f (foldl (\<lambda>b x. f b (g x)) a xs) ys"
  by (induction xs arbitrary: a) auto

subsection \<open>Memory\<close>

text \<open>Storing a sequence of bytes (or other cells) into a memory.\<close>

definition store_bytes :: "nat \<Rightarrow> 'a list \<Rightarrow> (nat \<Rightarrow> 'a) \<Rightarrow> nat \<Rightarrow> 'a" where
  "store_bytes addr bs m = (\<lambda>a. if addr \<le> a \<and> a < addr + length bs then bs ! (a - addr) else m a)"

lemma store_bytes_Nil [simp]: "store_bytes addr [] m = m"
  by (auto simp: store_bytes_def fun_eq_iff)

lemma store_bytes_append:
  "store_bytes (addr + length bs) cs (store_bytes addr bs m) = store_bytes addr (bs @ cs) m"
  by (auto simp: store_bytes_def fun_eq_iff nth_append)

end
