(* ===== verification/Srec_Common.thy ===== *)
theory Srec_Common
  imports Nios_Prelude
begin

text \<open>
  \<^verbatim>\<open>bootloader/bin2srec/common.c\<close>: the conversions both S-record tools use, and what they
  use of the C library (a file system to open files in, \<^verbatim>\<open>sscanf("%d")\<close>).
\<close>

subsection \<open>Definitions\<close>

definition char_to_uint :: "char \<Rightarrow> u32" where
  "char_to_uint c =
     (let n = ascii c in
      if 48 \<le> n \<and> n \<le> 57 then of_nat (n - 48)
      else if 65 \<le> n \<and> n \<le> 70 then of_nat (n - 65 + 10)
      else if 97 \<le> n \<and> n \<le> 102 then of_nat (n - 97 + 10)
      else 0)"

text \<open>The loop of \<^verbatim>\<open>str_to_uint32\<close>: at most eight characters, up to the terminating NUL.\<close>

fun str_to_uint32_loop :: "nat \<Rightarrow> string \<Rightarrow> u32 \<Rightarrow> u32" where
  "str_to_uint32_loop 0 s res = res"
| "str_to_uint32_loop (Suc n) [] res = res"
| "str_to_uint32_loop (Suc n) (c # s) res =
     (if c = NUL then res else str_to_uint32_loop n s (push_bit 4 res + char_to_uint c))"

definition str_to_uint32 :: "string \<Rightarrow> u32" where
  "str_to_uint32 s = str_to_uint32_loop 8 s 0"

definition file_size :: "bytes \<Rightarrow> u32" where
  "file_size contents = of_nat (length contents)"

text \<open>A file system: the names that \<^verbatim>\<open>fopen(name, "rb")\<close> succeeds on, with the contents.\<close>

type_synonym filesystem = "string \<Rightarrow> bytes option"

text \<open>\<^verbatim>\<open>sscanf(s, "%d", &v)\<close>: \<open>None\<close> where nothing is converted and \<^verbatim>\<open>v\<close> is kept.\<close>

definition isspace :: "char \<Rightarrow> bool" where
  "isspace c \<longleftrightarrow> ascii c = 32 \<or> (9 \<le> ascii c \<and> ascii c \<le> 13)"

definition decimal :: "string \<Rightarrow> int" where
  "decimal ds = foldl (\<lambda>n c. 10 * n + (int (ascii c) - 48)) 0 ds"

definition scan_d :: "string \<Rightarrow> int option" where
  "scan_d s =
     (let t = dropWhile isspace s;
          (sgn, u) = (case t of [] \<Rightarrow> (1, [])
                      | c # cs \<Rightarrow> if c = CHR ''-'' then (-1, cs)
                                  else if c = CHR ''+'' then (1, cs) else (1, t));
          ds = takeWhile isdigit u
      in if ds = [] then None else Some (sgn * decimal ds))"

text \<open>How a tool ends: by \<^verbatim>\<open>return\<close> from \<^verbatim>\<open>main\<close> with a status, or by a memory fault.\<close>

datatype 'a exit = Exit int 'a | Segv

subsection \<open>Hexadecimal digits read back\<close>

lemma char_to_uint_hexdigit [hex_simps]: "n < 16 \<Longrightarrow> char_to_uint (hexdigit n) = of_nat n"
  by (auto simp: char_to_uint_def hexdigit_def less_16_iff Let_def)

text \<open>Two hexadecimal digits read back as the byte they were printed from.\<close>

lemma hex_pair_word [hex_simps]:
  assumes "n < 256"
  shows "push_bit 4 (char_to_uint (hexdigit (n div 16))) + char_to_uint (hexdigit (n mod 16)) =
         of_nat n"
proof -
  have "n div 16 < 16" using assms by simp
  moreover have "n mod 16 < 16" by simp
  moreover have "16 * of_nat (n div 16) + of_nat (n mod 16) = (of_nat n :: u32)"
    by (metis mult_div_mod_eq of_nat_add of_nat_mult of_nat_numeral)
  ultimately show ?thesis
    by (simp add: char_to_uint_hexdigit push_bit_eq_mult mult.commute)
qed

lemmas hex_pair_mult [hex_simps] = hex_pair_word [unfolded push_bit_eq_mult]

end
