(* ===== verification/Bin2Srec.thy ===== *)
theory Bin2Srec
  imports Srec_Common
begin

text \<open>
  \<^verbatim>\<open>bootloader/bin2srec/bin2srec.c\<close>: the converter from a binary file to Motorola
  S-records. The globals are a record; \<^verbatim>\<open>process\<close> is the conversion and \<^verbatim>\<open>main\<close> the
  command line. What goes to \<^verbatim>\<open>stderr\<close> (progress, help, messages) is not modelled; what is
  printed on \<^verbatim>\<open>stdout\<close> is the result.

  The record loop compares 32-bit addresses that wrap around, so it need not end; it takes a
  fuel argument and \<open>None\<close> means that the fuel did not suffice. \<open>process_loop_records\<close>
  of \<open>Srec_Roundtrip\<close> says how much is enough where no address wraps.
\<close>

subsection \<open>Globals\<close>

record bin2srec_vars =
  addr_offset :: u32
  begin_addr :: u32
  end_addr :: u32
  addr_bytes :: int
  do_headers :: bool
  verbose :: bool
  line_length :: int

definition bin2srec_init :: bin2srec_vars where
  "bin2srec_init =
     \<lparr>addr_offset = 0, begin_addr = 0, end_addr = 0, addr_bytes = 2,
      do_headers = True, verbose = True, line_length = 32\<rparr>"

subsection \<open>Records\<close>

text \<open>
  The two inner loops of \<^verbatim>\<open>process\<close>: print each byte as two digits and add it to the
  running 8-bit checksum.
\<close>

fun emit_bytes :: "u8 \<Rightarrow> bytes \<Rightarrow> string \<times> u8" where
  "emit_bytes checksum [] = ([], checksum)"
| "emit_bytes checksum (b # bs) =
     (let (s, k) = emit_bytes (checksum + b) bs in (fmt_X 2 (unat b) @ s, k))"

text \<open>The address bytes, most significant first: \<^verbatim>\<open>for (i = addr_bytes - 1; i >= 0; i--)\<close>.\<close>

definition addr_field :: "int \<Rightarrow> u32 \<Rightarrow> bytes" where
  "addr_field n address =
     map (\<lambda>i. ucast (drop_bit (8 * i) address AND 0xFF)) (rev [0..<nat n])"

definition data_record :: "int \<Rightarrow> u32 \<Rightarrow> bytes \<Rightarrow> string" where
  "data_record ab address buf =
     (let byte_count = ab + int (length buf) + 1;
          (s1, c1) = emit_bytes (word_of_int byte_count) (addr_field ab address);
          (s2, c2) = emit_bytes c1 buf
      in CHR ''S'' # fmt_X 1 (nat (ab - 1)) @ fmt_X 2 (nat byte_count) @ s1 @ s2 @
         fmt_X 2 (255 - unat c2) @ [newline])"

definition header_record :: string where
  "header_record = ''S00600004844521B'' @ [newline]"

definition count_record :: "nat \<Rightarrow> string" where
  "count_record record_count =
     (let checksum = (of_nat (3 + record_count mod 256 + (record_count div 256) mod 256) :: u8)
      in ''S503'' @ fmt_X 4 record_count @ fmt_X 2 (255 - unat checksum) @ [newline])"

definition end_record :: "int \<Rightarrow> u32 \<Rightarrow> string" where
  "end_record ab offset =
     (let byte_count = ab + 1;
          (s1, c1) = emit_bytes (word_of_int byte_count) (addr_field ab offset)
      in CHR ''S'' # fmt_X 1 (nat (11 - ab)) @ fmt_X 2 (nat byte_count) @ s1 @
         fmt_X 2 (255 - unat c1) @ [newline])"

subsection \<open>The conversion\<close>

text \<open>
  \<^verbatim>\<open>fread(buf, 1, n, infile)\<close>: a short read leaves the tail of the 32-byte buffer as it was.
\<close>

definition fread_buf :: "nat \<Rightarrow> bytes \<Rightarrow> bytes \<Rightarrow> bytes \<times> bytes" where
  "fread_buf n infile buf =
     (let got = take n infile in (got @ drop (length got) buf, drop n infile))"

definition this_line :: "int \<Rightarrow> u32 \<Rightarrow> u32 \<Rightarrow> nat" where
  "this_line ll max_addr address =
     (let rest = 1 + max_addr - address
      in unat (if word_of_int ll < rest then word_of_int ll else rest))"

text \<open>The record loop; it returns the text printed and the number of records.\<close>

fun process_loop ::
  "nat \<Rightarrow> int \<Rightarrow> int \<Rightarrow> u32 \<Rightarrow> u32 \<Rightarrow> bytes \<Rightarrow> bytes \<Rightarrow> nat \<Rightarrow> (string \<times> nat) option" where
  "process_loop 0 ab ll max_addr address infile buf record_count = None"
| "process_loop (Suc fuel) ab ll max_addr address infile buf record_count =
     (if address \<le> max_addr then
        (let n = this_line ll max_addr address;
             (buf', infile') = fread_buf n infile buf
         in case process_loop fuel ab ll max_addr (address + word_of_int ll)
                   infile' buf' (record_count + 1) of
              None \<Rightarrow> None
            | Some (s, k) \<Rightarrow> Some (data_record ab address (take n buf') @ s, k))
      else Some ([], record_count))"

definition effective_addr_bytes :: "u32 \<Rightarrow> int \<Rightarrow> int" where
  "effective_addr_bytes max_addr ab =
     (let ab1 = (if max_addr > 0xFFFF \<and> ab < 3 then 3 else ab)
      in if max_addr > 0xFFFFFF \<and> ab1 < 4 then 4 else ab1)"

definition bin2srec_process :: "nat \<Rightarrow> bin2srec_vars \<Rightarrow> bytes \<Rightarrow> bytes \<Rightarrow> string option" where
  "bin2srec_process fuel v contents buf =
     (let max_addr = addr_offset v + (end_addr v - begin_addr v);
          infile = drop (unat (begin_addr v)) contents;
          ab = effective_addr_bytes max_addr (addr_bytes v)
      in case process_loop fuel ab (line_length v) max_addr (addr_offset v) infile buf 0 of
           None \<Rightarrow> None
         | Some (s, record_count) \<Rightarrow>
             Some ((if do_headers v then header_record else []) @ s @
                   (if do_headers v
                    then count_record record_count @ end_record ab (addr_offset v)
                    else [])))"

subsection \<open>The command line\<close>

text \<open>
  \<^verbatim>\<open>argv[++i]\<close> after the last argument is the null pointer, which \<^verbatim>\<open>str_to_uint32\<close> and
  \<^verbatim>\<open>sscanf\<close> dereference.
\<close>

record bin2srec_args =
  vars :: bin2srec_vars
  offset_specified :: bool
  end_specified :: bool
  filename :: "string option"

datatype 'a parse_result = Args 'a | Help | Fault

definition clamp :: "int \<Rightarrow> int \<Rightarrow> int \<Rightarrow> int" where
  "clamp lo hi x = (let y = (if lo > x then lo else x) in if hi < y then hi else y)"

fun bin2srec_parse :: "string list \<Rightarrow> bin2srec_args \<Rightarrow> bin2srec_args parse_result" where
  "bin2srec_parse [] a = Args a"
| "bin2srec_parse (x # xs) a =
     (if x = ''-o'' then
        (case xs of [] \<Rightarrow> Fault
         | v # ys \<Rightarrow> bin2srec_parse ys
             (a\<lparr>vars := (vars a)\<lparr>addr_offset := str_to_uint32 v\<rparr>, offset_specified := True\<rparr>))
      else if x = ''-b'' then
        (case xs of [] \<Rightarrow> Fault
         | v # ys \<Rightarrow> bin2srec_parse ys (a\<lparr>vars := (vars a)\<lparr>begin_addr := str_to_uint32 v\<rparr>\<rparr>))
      else if x = ''-e'' then
        (case xs of [] \<Rightarrow> Fault
         | v # ys \<Rightarrow> bin2srec_parse ys
             (a\<lparr>vars := (vars a)\<lparr>end_addr := str_to_uint32 v\<rparr>, end_specified := True\<rparr>))
      else if x = ''-a'' then
        (case xs of [] \<Rightarrow> Fault
         | v # ys \<Rightarrow> bin2srec_parse ys
             (a\<lparr>vars := (vars a)\<lparr>addr_bytes :=
                clamp 2 4 (case scan_d v of None \<Rightarrow> addr_bytes (vars a) | Some n \<Rightarrow> n)\<rparr>\<rparr>))
      else if x = ''-l'' then
        (case xs of [] \<Rightarrow> Fault
         | v # ys \<Rightarrow> bin2srec_parse ys
             (a\<lparr>vars := (vars a)\<lparr>line_length :=
                clamp 8 32 (case scan_d v of None \<Rightarrow> line_length (vars a) | Some n \<Rightarrow> n)\<rparr>\<rparr>))
      else if x = ''-s'' then
        bin2srec_parse xs (a\<lparr>vars := (vars a)\<lparr>do_headers := False\<rparr>\<rparr>)
      else if x = ''-q'' then
        bin2srec_parse xs (a\<lparr>vars := (vars a)\<lparr>verbose := False\<rparr>\<rparr>)
      else if take 2 x = ''-h'' then Help
      else bin2srec_parse xs (a\<lparr>filename := Some x\<rparr>))"

definition bin2srec_main ::
  "nat \<Rightarrow> filesystem \<Rightarrow> bytes \<Rightarrow> string list \<Rightarrow> string exit option" where
  "bin2srec_main fuel fs buf argv =
     (case bin2srec_parse argv
             \<lparr>vars = bin2srec_init, offset_specified = False, end_specified = False,
              filename = None\<rparr> of
        Help \<Rightarrow> Some (Exit 0 [])
      | Fault \<Rightarrow> Some Segv
      | Args a \<Rightarrow>
          (case filename a of
             None \<Rightarrow> Some (Exit 1 [])
           | Some f \<Rightarrow>
               (case fs f of
                  None \<Rightarrow> Some (Exit 2 [])
                | Some contents \<Rightarrow>
                    (let size = file_size contents - 1;
                         v = vars a;
                         v1 = v\<lparr>end_addr :=
                           (if end_specified a
                            then (if size < end_addr v then size else end_addr v)
                            else size)\<rparr>
                     in if begin_addr v1 > size then Some (Exit 3 [])
                        else if end_addr v1 < begin_addr v1 then Some (Exit 3 [])
                        else
                          (let v2 = (if offset_specified a then v1
                                     else v1\<lparr>addr_offset := begin_addr v1\<rparr>)
                           in map_option (Exit 0) (bin2srec_process fuel v2 contents buf))))))"

end
