(* ===== verification/Srec2Bin.thy ===== *)
theory Srec2Bin
  imports Srec_Common
begin

text \<open>
  \<^verbatim>\<open>bootloader/bin2srec/srec2bin.c\<close>: the converter from Motorola S-records back to a binary
  file. \<^verbatim>\<open>parse\<close> runs twice over the text, once to find the lowest and the highest address
  and once to write the data into a file of filler bytes.

  The 1024-byte line buffer is kept between lines, so a short line is followed by the rest of
  an older one, as in the source. The two places where the source leaves its 32-byte data
  buffer (more than 32 data bytes in a record, or a byte count too small for its address) are
  values of \<open>srec_fault\<close>.
\<close>

subsection \<open>Reading lines\<close>

abbreviation LINE_LEN :: nat where
  "LINE_LEN \<equiv> 1024"

text \<open>
  What \<^verbatim>\<open>fgets\<close> takes from the stream: at most \<open>n\<close> characters, up to and including a
  newline; the flag is the end-of-file indicator.
\<close>

fun fgets_chars :: "nat \<Rightarrow> string \<Rightarrow> string \<times> string \<times> bool" where
  "fgets_chars 0 s = ([], s, False)"
| "fgets_chars (Suc n) [] = ([], [], True)"
| "fgets_chars (Suc n) (c # s) =
     (if c = newline then ([c], s, False)
      else let (t, r, e) = fgets_chars n s in (c # t, r, e))"

definition fgets :: "string \<Rightarrow> string \<Rightarrow> string \<times> string \<times> bool" where
  "fgets line infile =
     (let (t, r, e) = fgets_chars (LINE_LEN - 1) infile
      in if t = [] then (line, r, e) else (t @ NUL # drop (length t + 1) line, r, e))"

subsection \<open>One line\<close>

record srec_state =
  srec_max :: u32
  srec_min :: u32
  outfile :: bytes

datatype srec_fault = Buffer_overflow | Negative_count

definition hex_number :: "string \<Rightarrow> u32" where
  "hex_number s = foldl (\<lambda>a c. push_bit 4 a + char_to_uint c) 0 s"

definition data_bytes :: "string \<Rightarrow> nat \<Rightarrow> nat \<Rightarrow> bytes" where
  "data_bytes line first n =
     map (\<lambda>j. ucast (push_bit 4 (char_to_uint (line ! (first + 2 * j))) +
                     char_to_uint (line ! (first + 2 * j + 1)))) [0..<n]"

definition parse_line ::
  "bool \<Rightarrow> u32 \<Rightarrow> string \<Rightarrow> srec_state \<Rightarrow> srec_fault + srec_state" where
  "parse_line scan min_addr line st =
     (if line ! 0 = CHR ''S'' then
        (let rec_type = int (ascii (line ! 1)) - 48
         in if 1 \<le> rec_type \<and> rec_type \<le> 3 then
              (let addr_bytes = nat rec_type + 1;
                   address = hex_number (take (addr_bytes * 2) (drop 4 line));
                   byte_count = int (unat (push_bit 4 (char_to_uint (line ! 2)) +
                                           char_to_uint (line ! 3))) - int (addr_bytes + 1)
               in if scan then
                    (let st1 = (if srec_min st > address then st\<lparr>srec_min := address\<rparr> else st)
                     in Inr (if srec_max st1 < address + word_of_int byte_count
                             then st1\<lparr>srec_max := address + word_of_int byte_count\<rparr> else st1))
                  else if byte_count < 0 then Inl Negative_count
                  else if byte_count > 32 then Inl Buffer_overflow
                  else
                    (let buf = data_bytes line (addr_bytes * 2 + 4) (nat byte_count)
                     in Inr (st\<lparr>outfile :=
                               write_at 0 (unat (address - min_addr)) buf (outfile st)\<rparr>)))
            else Inr st)
      else Inr st)"

subsection \<open>The whole text\<close>

lemma fgets_chars_rest_length:
  "fgets_chars (Suc n) s = (t, r, False) \<Longrightarrow> length r < length s"
proof (induction s arbitrary: n t r)
  case Nil
  then show ?case by simp
next
  case (Cons c s)
  then show ?case
    by (cases n) (force split: if_splits prod.splits)+
qed

text \<open>\<^verbatim>\<open>do { fgets; ... } while (!feof(infile))\<close>.\<close>

function parse_loop ::
  "bool \<Rightarrow> u32 \<Rightarrow> string \<Rightarrow> string \<Rightarrow> srec_state \<Rightarrow> srec_fault + srec_state" where
  "parse_loop scan min_addr line infile st =
     (let (line', rest, eof) = fgets line infile
      in case parse_line scan min_addr line' st of
           Inl f \<Rightarrow> Inl f
         | Inr st' \<Rightarrow> if eof then Inr st' else parse_loop scan min_addr line' rest st')"
  by pat_completeness auto
termination
proof (relation "measure (\<lambda>(scan, min_addr, line, infile, st). length infile)", goal_cases)
  case 1
  show ?case by simp
next
  case (2 scan min_addr line infile st x line' y rest eof z)
  then obtain t where "fgets_chars (Suc 1022) infile = (t, rest, False)"
    by (auto simp: fgets_def split: prod.splits if_splits)
  then show ?case using fgets_chars_rest_length by fastforce
qed

declare parse_loop.simps [simp del]

definition srec_parse ::
  "bool \<Rightarrow> u32 \<Rightarrow> string \<Rightarrow> srec_state \<Rightarrow> srec_fault + srec_state" where
  "srec_parse scan min_addr text st =
     (case parse_loop scan min_addr (replicate LINE_LEN NUL) text st of
        Inl f \<Rightarrow> Inl f
      | Inr st' \<Rightarrow> Inr (st'\<lparr>srec_max := srec_max st' - 1\<rparr>))"

subsection \<open>The conversion\<close>

record srec2bin_vars =
  max_addr :: u32
  min_addr :: u32
  filler :: u8

definition srec2bin_init :: srec2bin_vars where
  "srec2bin_init = \<lparr>max_addr = 0, min_addr = 0, filler = 0xFF\<rparr>"

text \<open>
  \<^verbatim>\<open>process\<close>: the contents of the output file, \<open>Inr None\<close> where it cannot be created.
\<close>

definition srec2bin_process ::
  "srec2bin_vars \<Rightarrow> bool \<Rightarrow> string \<Rightarrow> srec_fault + bytes option" where
  "srec2bin_process v can_create text =
     (case srec_parse True (min_addr v) text
             \<lparr>srec_max = 0, srec_min = 0xFFFFFFFF, outfile = []\<rparr> of
        Inl f \<Rightarrow> Inl f
      | Inr st \<Rightarrow>
          (let mn = (if min_addr v < srec_min st then min_addr v else srec_min st);
               mx = (if srec_max st > mn + max_addr v then srec_max st else mn + max_addr v);
               blocks = (mx - mn + 1) div 32;
               remain = (mx - mn + 1) mod 32
           in if can_create then
                (case srec_parse False mn text
                        (st\<lparr>outfile := replicate (unat blocks * 32 + unat remain) (filler v)\<rparr>) of
                   Inl f \<Rightarrow> Inl f
                 | Inr st' \<Rightarrow> Inr (Some (outfile st')))
              else Inr None))"

subsection \<open>The command line\<close>

record srec2bin_args =
  s2b_vars :: srec2bin_vars
  infilename :: "string option"
  outfilename :: "string option"

datatype 'a s2b_parse_result = S2b_args 'a | S2b_help | S2b_fault

fun srec2bin_parse_args :: "string list \<Rightarrow> srec2bin_args \<Rightarrow> srec2bin_args s2b_parse_result" where
  "srec2bin_parse_args [] a = S2b_args a"
| "srec2bin_parse_args (x # xs) a =
     (if x = ''-q'' then srec2bin_parse_args xs a
      else if x = ''-a'' then
        (case xs of [] \<Rightarrow> S2b_fault
         | w # ys \<Rightarrow> srec2bin_parse_args ys
             (a\<lparr>s2b_vars := (s2b_vars a)\<lparr>max_addr := str_to_uint32 w - 1\<rparr>\<rparr>))
      else if x = ''-o'' then
        (case xs of [] \<Rightarrow> S2b_fault
         | w # ys \<Rightarrow> srec2bin_parse_args ys
             (a\<lparr>s2b_vars := (s2b_vars a)\<lparr>min_addr := str_to_uint32 w\<rparr>\<rparr>))
      else if x = ''-f'' then
        (case xs of [] \<Rightarrow> S2b_fault
         | w # ys \<Rightarrow> srec2bin_parse_args ys
             (a\<lparr>s2b_vars := (s2b_vars a)\<lparr>filler := ucast (str_to_uint32 w AND 0xFF)\<rparr>\<rparr>))
      else if take 2 x = ''-h'' then S2b_help
      else
        (case xs of [] \<Rightarrow> S2b_args (a\<lparr>infilename := Some x, outfilename := None\<rparr>)
         | w # ys \<Rightarrow> srec2bin_parse_args ys
             (a\<lparr>infilename := Some x, outfilename := Some w\<rparr>)))"

text \<open>
  \<^verbatim>\<open>main\<close>: the exit status and the name and contents of the file written. The text files are
  given by name; \<open>can_create\<close> says whether the output file can be opened for writing.
\<close>

definition srec2bin_main ::
  "(string \<Rightarrow> string option) \<Rightarrow> bool \<Rightarrow> string list \<Rightarrow> (string \<times> bytes) option exit" where
  "srec2bin_main texts can_create argv =
     (case srec2bin_parse_args argv
             \<lparr>s2b_vars = srec2bin_init, infilename = None, outfilename = None\<rparr> of
        S2b_help \<Rightarrow> Exit 0 None
      | S2b_fault \<Rightarrow> Segv
      | S2b_args a \<Rightarrow>
          (case infilename a of
             None \<Rightarrow> Exit 1 None
           | Some f \<Rightarrow>
               (case outfilename a of
                  None \<Rightarrow> Exit 1 None
                | Some g \<Rightarrow>
                    (case texts f of
                       None \<Rightarrow> Exit 2 None
                     | Some text \<Rightarrow>
                         (case srec2bin_process (s2b_vars a) can_create text of
                            Inl _ \<Rightarrow> Segv
                          | Inr out \<Rightarrow> Exit 0 (map_option (Pair g) out))))))"

end
