(* ===== verification/Srec_Lines.thy ===== *)
theory Srec_Lines
  imports Bin2Srec Srec2Bin
begin

text \<open>
  The records of \<open>Bin2Srec\<close> seen as text that \<open>Srec2Bin\<close> reads: what one data record
  prints, what \<open>parse_line\<close> makes of it, and how \<open>parse_loop\<close> walks over a sequence of
  lines.
\<close>

subsection \<open>Runs of bytes as hexadecimal text\<close>

definition hexbytes :: "bytes \<Rightarrow> string" where
  "hexbytes bs = concat (map (\<lambda>b. fmt_X 2 (unat b)) bs)"

lemma hexbytes_Nil [simp]: "hexbytes [] = []"
  by (simp add: hexbytes_def)

lemma hexbytes_Cons [simp]:
  "hexbytes (b # bs) = hexdigit (unat b div 16) # hexdigit (unat b mod 16) # hexbytes bs"
  by (simp add: hexbytes_def fmt_X_byte)

lemma hexbytes_append [simp]: "hexbytes (as @ bs) = hexbytes as @ hexbytes bs"
  by (simp add: hexbytes_def)

lemma length_hexbytes [simp]: "length (hexbytes bs) = 2 * length bs"
  by (induction bs) auto

lemma newline_notin_hexbytes [simp]: "newline \<notin> set (hexbytes bs)"
  by (simp add: hexbytes_def fmt_X_not_newline)

lemma emit_bytes_eq: "emit_bytes c bs = (hexbytes bs, c + sum_list bs)"
  by (induction bs arbitrary: c) (auto simp: hexbytes_def add.assoc)

lemma hex_number_hexbytes:
  "foldl (\<lambda>a c. push_bit 4 a + char_to_uint c) acc (hexbytes bs) =
   foldl (\<lambda>a b. a * 256 + ucast b) acc bs"
proof (induction bs arbitrary: acc)
  case Nil
  then show ?case by simp
next
  case (Cons b bs)
  have "push_bit 4 (push_bit 4 acc + char_to_uint (hexdigit (unat b div 16))) +
        char_to_uint (hexdigit (unat b mod 16)) =
        push_bit 8 acc + (push_bit 4 (char_to_uint (hexdigit (unat b div 16))) +
        char_to_uint (hexdigit (unat b mod 16)))"
    by (simp add: push_bit_eq_mult algebra_simps)
  also have "\<dots> = acc * 256 + ucast b"
    by (simp add: hex_pair_word) (simp add: push_bit_eq_mult)
  finally show ?case by (simp add: Cons.IH)
qed

lemma data_bytes_hexbytes:
  assumes "length pre = k" and "n = length bs"
  shows "data_bytes (pre @ hexbytes bs @ post) k n = bs"
proof -
  have nth: "(hexbytes bs @ post) ! (2 * j) = hexdigit (unat (bs ! j) div 16)"
            "(hexbytes bs @ post) ! (2 * j + 1) = hexdigit (unat (bs ! j) mod 16)"
    if "j < length bs" for j
    using that by (induction bs arbitrary: j) (auto simp: nth_Cons split: nat.splits)
  show ?thesis
    unfolding data_bytes_def
    using assms nth by (intro nth_equalityI) (auto simp: nth_append hex_pair_word simp del: One_nat_def)
qed

subsection \<open>The address field\<close>

lemma addr_field_Suc:
  "addr_field (int (Suc n)) a = ucast (drop_bit (8 * n) a AND 0xFF) # addr_field (int n) a"
  by (simp add: addr_field_def nat_add_distrib)

lemma foldl_addr_field:
  "foldl (\<lambda>a b. a * 256 + ucast (b::u8)) (acc::u32) (addr_field (int n) address) =
   acc * 256 ^ n + of_nat (unat address mod 256 ^ n)"
proof (induction n arbitrary: acc)
  case 0
  show ?case by (simp add: addr_field_def)
next
  case (Suc n)
  have byte: "(ucast (ucast (drop_bit (8 * n) address AND 0xFF) :: u8) :: u32) =
              of_nat (unat address div 256 ^ n mod 256)"
    by (simp add: and_255 ucast_u8_u32 flip: unat_byte_of)
  have "unat address mod 256 ^ Suc n =
        256 ^ n * (unat address div 256 ^ n mod 256) + unat address mod 256 ^ n"
    by (simp only: power_Suc2 mod_mult2_eq)
  then have "(of_nat (unat address mod 256 ^ Suc n) :: u32) =
        256 ^ n * of_nat (unat address div 256 ^ n mod 256) + of_nat (unat address mod 256 ^ n)"
    by (simp only: of_nat_add of_nat_mult of_nat_power of_nat_numeral)
  then show ?case
    by (simp only: addr_field_Suc foldl.simps Suc.IH byte power_Suc2)
       (simp only: algebra_simps)
qed

lemma length_addr_field [simp]: "length (addr_field n a) = nat n"
  by (simp add: addr_field_def)

lemma hex_number_addr_field:
  assumes "unat address < 256 ^ n"
  shows "hex_number (hexbytes (addr_field (int n) address)) = address"
  using assms by (simp add: hex_number_def hex_number_hexbytes foldl_addr_field)

subsection \<open>A data record as a line\<close>

lemma fmt_X_1: "n < 16 \<Longrightarrow> fmt_X 1 n = [hexdigit n]"
  by (simp add: fmt_X_def hexstr.simps)

definition record_body :: "nat \<Rightarrow> u32 \<Rightarrow> bytes \<Rightarrow> string" where
  "record_body ab address buf =
     (let bc = of_nat (ab + length buf + 1)
      in CHR ''S'' # hexdigit (ab - 1) #
         hexbytes (bc # addr_field (int ab) address @ buf @
                   [255 - (bc + sum_list (addr_field (int ab) address) + sum_list buf)]))"

lemma data_record_body:
  assumes "2 \<le> ab" "ab \<le> 4" "length buf \<le> 32"
  shows "data_record (int ab) address buf = record_body ab address buf @ [newline]"
proof -
  have fmt: "fmt_X (Suc 0) (ab - Suc 0) = [hexdigit (ab - Suc 0)]"
    using fmt_X_1 [of "ab - 1"] assms by simp
  have cnt: "fmt_X 2 (nat (int ab + int (length buf) + 1)) = hexbytes [of_nat (ab + length buf + 1)]"
  proof -
    have "unat (of_nat (ab + length buf + 1) :: u8) = nat (int ab + int (length buf) + 1)"
      using assms by (subst unat_of_nat_u8) auto
    then show ?thesis by (simp only: hexbytes_def list.map concat.simps append_Nil2)
  qed
  have ck: "fmt_X 2 (255 - unat c) = hexbytes [255 - c]" for c :: u8
  proof -
    have "unat c \<le> 255" using unat_u8_less [of c] by linarith
    then have "unat (255 - c) = 255 - unat c"
      by (subst unat_sub) (simp_all add: word_le_nat_alt)
    then show ?thesis by (simp add: hexbytes_def)
  qed
  show ?thesis
    unfolding data_record_def record_body_def
    by (simp add: emit_bytes_eq fmt cnt ck Let_def nat_diff_distrib' del: hexbytes_Cons)
       (simp add: hexbytes_def algebra_simps)
qed


text \<open>The effect of one well-formed record on the state of \<open>srec_parse\<close>.\<close>

fun apply_record :: "bool \<Rightarrow> u32 \<Rightarrow> u32 \<times> bytes \<Rightarrow> srec_state \<Rightarrow> srec_state" where
  "apply_record True mn (address, bs) st =
     st\<lparr>srec_min := min (srec_min st) address,
        srec_max := max (srec_max st) (address + of_nat (length bs))\<rparr>"
| "apply_record False mn (address, bs) st =
     st\<lparr>outfile := write_at 0 (unat (address - mn)) bs (outfile st)\<rparr>"

lemma apply_record_idem: "apply_record scan mn r (apply_record scan mn r st) = apply_record scan mn r st"
  by (cases scan; cases r) (simp_all add: write_at_write_at_same)

lemma ascii_hexdigit: "n < 10 \<Longrightarrow> ascii (hexdigit n) = 48 + n"
  using less_16_iff [of n] by (auto simp: hexdigit_def)

lemma parse_line_record:
  assumes ab: "2 \<le> ab" "ab \<le> 4" and len: "length buf \<le> 32" and addr: "unat a < 256 ^ ab"
  shows "parse_line scan mn (record_body ab a buf @ post) st =
         Inr (apply_record scan mn (a, buf) st)"
proof -
  define bc where "bc = ab + length buf + 1"
  define af where "af = addr_field (int ab) a"
  have bc: "bc < 256" using ab len by (simp add: bc_def)
  obtain tail where line: "record_body ab a buf @ post =
      [CHR ''S'', hexdigit (ab - 1), hexdigit (bc div 16), hexdigit (bc mod 16)] @
      hexbytes af @ hexbytes buf @ tail"
    using bc by (simp add: record_body_def Let_def af_def bc_def unat_of_nat_u8 del: of_nat_add of_nat_Suc)
  have rt: "int (ascii (hexdigit (ab - 1))) - 48 = int ab - 1"
    using ascii_hexdigit [of "ab - 1"] ab by simp
  have laf: "length af = ab" by (simp add: af_def)
  have num: "hex_number (take ((nat (int ab - 1) + 1) * 2) (hexbytes af @ hexbytes buf @ tail)) = a"
  proof -
    have "(nat (int ab - 1) + 1) * 2 = length (hexbytes af)" using ab laf by simp
    then show ?thesis using hex_number_addr_field [OF addr] by (simp add: af_def)
  qed
  have cnt: "int (unat (push_bit 4 (char_to_uint (hexdigit (bc div 16))) +
      char_to_uint (hexdigit (bc mod 16)))) - int (nat (int ab - 1) + 1 + 1) = int (length buf)"
    using bc ab by (simp add: hex_pair_word unat_of_nat_u32) (simp add: bc_def)
  have dat: "data_bytes (record_body ab a buf @ post) ((nat (int ab - 1) + 1) * 2 + 4)
      (length buf) = buf"
  proof -
    have "(nat (int ab - 1) + 1) * 2 + 4 = 2 * ab + 4" using ab by simp
    moreover have "data_bytes (record_body ab a buf @ post) (2 * ab + 4) (length buf) = buf"
      unfolding line append_assoc [symmetric, of _ "hexbytes af"]
      by (rule data_bytes_hexbytes) (simp_all add: laf)
    ultimately show ?thesis by simp
  qed
  define L where "L = record_body ab a buf @ post"
  have L: "L ! 0 = CHR ''S''" "L ! 1 = hexdigit (ab - 1)" "L ! 2 = hexdigit (bc div 16)"
      "L ! 3 = hexdigit (bc mod 16)" "drop 4 L = hexbytes af @ hexbytes buf @ tail"
    by (simp_all add: L_def line)
  have rng: "(1 \<le> int ab - 1 \<and> int ab - 1 \<le> 3) = True"
      "(int (length buf) < 0) = False" "(32 < int (length buf)) = False"
    using ab len by auto
  show ?thesis
    unfolding L_def [symmetric] parse_line_def Let_def L rt num cnt dat [folded L_def] rng nat_int
    by (cases scan) (simp_all add: min_def max_def not_less)
qed


subsection \<open>A text of lines\<close>

lemma fgets_chars_line:
  "newline \<notin> set l \<Longrightarrow> length l < n \<Longrightarrow>
   fgets_chars n (l @ newline # s) = (l @ [newline], s, False)"
proof (induction l arbitrary: n)
  case Nil
  then show ?case by (cases n) auto
next
  case (Cons c l)
  then show ?case by (cases n) auto
qed

lemma parse_loop_line:
  assumes "newline \<notin> set l" "length l < 1023"
  shows "parse_loop scan mn line (l @ newline # s) st =
    (let line' = l @ newline # NUL # drop (length l + 2) line
     in case parse_line scan mn line' st of
          Inl f \<Rightarrow> Inl f | Inr st' \<Rightarrow> parse_loop scan mn line' s st')"
  using assms
  by (subst parse_loop.simps) (simp add: fgets_def fgets_chars_line Let_def split: sum.split)

lemma parse_loop_end: "parse_loop scan mn line [] st = parse_line scan mn line st"
proof -
  have "fgets line [] = (line, [], True)"
    by (simp add: fgets_def numeral_eq_Suc)
  then show ?thesis by (subst parse_loop.simps) (simp split: sum.splits)
qed

text \<open>Every record but a data record is skipped.\<close>

lemma parse_line_skip:
  assumes "line ! 0 = CHR ''S''" "ascii (line ! 1) < 49 \<or> 51 < ascii (line ! 1)"
  shows "parse_line scan mn line st = Inr st"
  using assms by (auto simp: parse_line_def Let_def)

lemma newline_notin_record_body [simp]: "ab \<le> 16 \<Longrightarrow> newline \<notin> set (record_body ab a buf)"
  using hexdigit_not_newline [of "ab - 1"]
  by (cases ab) (auto simp: record_body_def Let_def hexdigit_not_newline newline_notin_hexbytes
      simp del: hexbytes_Cons hexbytes_append dest: sym)

lemma length_record_body [simp]: "length (record_body ab a buf) = 6 + 2 * ab + 2 * length buf"
  by (simp add: record_body_def Let_def)

definition record_ok :: "nat \<Rightarrow> u32 \<times> bytes \<Rightarrow> bool" where
  "record_ok ab r \<longleftrightarrow> length (snd r) \<le> 32 \<and> unat (fst r) < 256 ^ ab"

definition records_text :: "nat \<Rightarrow> (u32 \<times> bytes) list \<Rightarrow> string" where
  "records_text ab rs = concat (map (\<lambda>(a, bs). data_record (int ab) a bs) rs)"

text \<open>
  Walking over data records applies them in order; the line buffer then starts with the last
  of them.
\<close>

lemma parse_loop_records:
  assumes "2 \<le> ab" "ab \<le> 4" "list_all (record_ok ab) rs"
  shows "\<exists>line'. parse_loop scan mn line (records_text ab rs @ tail) st =
      parse_loop scan mn line' tail (fold (apply_record scan mn) rs st) \<and>
      (rs \<noteq> [] \<longrightarrow> (\<exists>post. line' = record_body ab (fst (last rs)) (snd (last rs)) @ post))"
  using assms(3)
proof (induction rs arbitrary: line st)
  case Nil
  then show ?case by (auto simp: records_text_def)
next
  case (Cons r rs)
  obtain a bs where r: "r = (a, bs)" by force
  with Cons.prems have ok: "length bs \<le> 32" "unat a < 256 ^ ab" by (auto simp: record_ok_def)
  let ?line = "record_body ab a bs @ newline # NUL # drop (length (record_body ab a bs) + 2) line"
  have "parse_loop scan mn line (records_text ab (r # rs) @ tail) st =
        parse_loop scan mn ?line (records_text ab rs @ tail) (apply_record scan mn r st)"
    using assms(1,2) ok
    by (simp add: records_text_def r data_record_body parse_loop_line parse_line_record Let_def)
  moreover obtain line' where
    "parse_loop scan mn ?line (records_text ab rs @ tail) (apply_record scan mn r st) =
     parse_loop scan mn line' tail (fold (apply_record scan mn) rs (apply_record scan mn r st))"
    and "rs \<noteq> [] \<Longrightarrow> \<exists>post. line' = record_body ab (fst (last rs)) (snd (last rs)) @ post"
    using Cons.IH [of ?line "apply_record scan mn r st"] Cons.prems by auto
  ultimately show ?case
  proof (cases "rs = []")
    case True
    then show ?thesis
      using \<open>parse_loop scan mn line (records_text ab (r # rs) @ tail) st = _\<close>
      by (intro exI [of _ ?line]) (auto simp: records_text_def r)
  next
    case False
    then show ?thesis
      using \<open>parse_loop scan mn line (records_text ab (r # rs) @ tail) st = _\<close>
        \<open>parse_loop scan mn ?line _ _ = parse_loop scan mn line' tail _\<close>
        \<open>rs \<noteq> [] \<Longrightarrow> _\<close>
      by (intro exI [of _ line']) simp
  qed
qed

end
