(* ===== verification/Srec_Roundtrip.thy ===== *)
theory Srec_Roundtrip
  imports Srec_Lines
begin

text \<open>
  The two S-record tools together: what \<open>bin2srec_process\<close> prints, \<open>srec2bin_process\<close>
  turns back into the same bytes; and where each of them leaves its contract.
\<close>

subsection \<open>The records of a file\<close>

function chunk_records :: "nat \<Rightarrow> u32 \<Rightarrow> bytes \<Rightarrow> (u32 \<times> bytes) list" where
  "chunk_records n a bs =
     (if bs = [] \<or> n = 0 then []
      else (a, take n bs) # chunk_records n (a + of_nat n) (drop n bs))"
  by pat_completeness auto
termination
  by (relation "measure (\<lambda>(n, a, bs). length bs)") auto

declare chunk_records.simps [simp del]

lemma chunk_records_Nil [simp]: "chunk_records n a [] = []"
  by (simp add: chunk_records.simps)

lemma chunk_records_step:
  "bs \<noteq> [] \<Longrightarrow> 0 < n \<Longrightarrow>
   chunk_records n a bs = (a, take n bs) # chunk_records n (a + of_nat n) (drop n bs)"
  by (simp add: chunk_records.simps [of n a bs])

lemma length_chunk_records: "length (chunk_records n a bs) \<le> length bs"
proof (induction n a bs rule: chunk_records.induct)
  case (1 n a bs)
  then show ?case by (subst chunk_records.simps) (cases bs, auto)
qed

lemma unat_add_of_nat:
  "unat (a::u32) + n < 2 ^ 32 \<Longrightarrow> unat (a + of_nat n) = unat a + n"
  by (simp add: unat_word_ariths unat_of_nat take_bit_nat_def)

lemma this_line_eq:
  assumes "unat address + length bs = unat mx + 1" "bs \<noteq> []" "unat mx + n < 2 ^ 32" "0 < n"
  shows "this_line (int n) mx address = min n (length bs)"
proof -
  have "mx = address + of_nat (length bs) - 1"
    using arg_cong [OF assms(1), of "of_nat :: nat \<Rightarrow> u32"] by simp
  then have "1 + mx - address = of_nat (length bs)" by simp
  moreover have "unat (of_nat (length bs) :: u32) = length bs" "unat (of_nat n :: u32) = n"
    using assms by (auto intro!: unat_of_nat_u32)
  ultimately show ?thesis
    by (auto simp: this_line_def Let_def word_less_nat_alt min_def)
qed

lemma process_loop_records:
  assumes n: "0 < n" "n \<le> 32"
  shows "(if bs = [] then mx < address else unat address + length bs = unat mx + 1) \<Longrightarrow>
    unat mx + n < 2 ^ 32 \<Longrightarrow> length bs < fuel \<Longrightarrow>
    process_loop fuel (int ab) (int n) mx address (bs @ rest) buf k =
      Some (records_text ab (chunk_records n address bs),
            k + length (chunk_records n address bs))"
proof (induction fuel arbitrary: address bs buf k rest)
  case 0
  then show ?case by simp
next
  case (Suc fuel)
  show ?case
  proof (cases "bs = []")
    case True
    with Suc.prems(1) have "\<not> address \<le> mx" by simp
    with True show ?thesis by (simp add: records_text_def)
  next
    case False
    then have eq: "unat address + length bs = unat mx + 1" using Suc.prems(1) by simp
    define m where "m = min n (length bs)"
    have line: "this_line (int n) mx address = m"
      using this_line_eq [OF eq False Suc.prems(2)] n by (simp add: m_def)
    have le: "address \<le> mx" "unat address + n < 2 ^ 32"
      using eq False Suc.prems(2) by (cases bs; simp add: word_le_nat_alt)+
    have buf: "fread_buf m (bs @ rest) buf = (take n bs @ drop m buf, drop n bs @ rest)"
      by (cases "n \<le> length bs") (auto simp: fread_buf_def m_def Let_def)
    have next_addr: "unat (address + of_nat n) = unat address + n"
      by (rule unat_add_of_nat) (rule le)
    have "process_loop fuel (int ab) (int n) mx (address + of_nat n) (drop n bs @ rest)
            (take n bs @ drop m buf) (k + 1) =
          Some (records_text ab (chunk_records n (address + of_nat n) (drop n bs)),
            k + 1 + length (chunk_records n (address + of_nat n) (drop n bs)))"
    proof (rule Suc.IH)
      show "length (drop n bs) < fuel" using Suc.prems(3) False n by (cases bs) auto
    qed (use Suc.prems False n eq in \<open>auto simp: word_less_nat_alt next_addr\<close>)
    moreover have "take m bs = take n bs" by (simp add: m_def min_def)
    ultimately show ?thesis
      using False n le line buf
      by (simp add: chunk_records_step Let_def records_text_def m_def)
  qed
qed


subsection \<open>The effect of the records\<close>

lemma fold_scan_records:
  assumes "0 < n"
  shows "bs \<noteq> [] \<Longrightarrow> unat a + length bs < 2 ^ 32 \<Longrightarrow>
    fold (apply_record True mn) (chunk_records n a bs) st =
    st\<lparr>srec_min := min (srec_min st) a,
       srec_max := max (srec_max st) (a + of_nat (length bs))\<rparr>"
proof (induction bs arbitrary: a st rule: length_induct)
  case (1 bs)
  show ?case
  proof (cases "length bs \<le> n")
    case True
    with 1 assms show ?thesis by (simp add: chunk_records_step)
  next
    case False
    let ?a = "a + of_nat n"
    have a': "unat ?a = unat a + n"
      using 1(3) False by (intro unat_add_of_nat) linarith
    have e: "?a + of_nat (length bs - n) = a + of_nat (length bs)"
      using False by (simp add: of_nat_diff)
    have "unat (a + of_nat (length bs)) = unat a + length bs"
      using 1(3) by (rule unat_add_of_nat)
    then have le: "a \<le> ?a" "?a \<le> a + of_nat (length bs)"
      using a' False by (simp_all add: word_le_nat_alt)
    have "fold (apply_record True mn) (chunk_records n ?a (drop n bs)) st' =
          st'\<lparr>srec_min := min (srec_min st') ?a,
             srec_max := max (srec_max st') (a + of_nat (length bs))\<rparr>" for st'
      using 1(1) [rule_format, of "drop n bs" ?a st'] 1(2,3) False assms a' e by simp
    with False 1(2) assms le show ?thesis
      by (simp add: chunk_records_step [of bs n a] min.assoc max.assoc min_absorb1 max_absorb2)
  qed
qed

lemma fold_write_records:
  assumes "0 < n"
  shows "outfile st = pre @ mid @ post \<Longrightarrow> length pre = unat (a - mn) \<Longrightarrow>
    length mid = length bs \<Longrightarrow> unat (a - mn) + length bs < 2 ^ 32 \<Longrightarrow>
    fold (apply_record False mn) (chunk_records n a bs) st = st\<lparr>outfile := pre @ bs @ post\<rparr>"
proof (induction bs arbitrary: a st pre mid rule: length_induct)
  case (1 bs)
  show ?case
  proof (cases "bs = []")
    case True
    with 1 show ?thesis by simp
  next
    case False
    let ?st = "apply_record False mn (a, take n bs) st"
    have out: "outfile ?st = (pre @ take n bs) @ drop (length (take n bs)) mid @ post"
      using 1 by (simp add: write_at_append)
    show ?thesis
    proof (cases "length bs \<le> n")
      case True
      with 1 False out assms show ?thesis by (simp add: chunk_records_step)
    next
      case longer: False
      have a': "unat (a + of_nat n - mn) = unat (a - mn) + n"
        using unat_add_of_nat [of "a - mn" n] 1(5) longer by (simp add: algebra_simps)
      have "fold (apply_record False mn) (chunk_records n (a + of_nat n) (drop n bs)) ?st =
            ?st\<lparr>outfile := (pre @ take n bs) @ drop n bs @ post\<rparr>"
      proof (rule 1(1) [rule_format])
        show "length (drop n bs) < length bs" using False assms by (cases bs) auto
        show "outfile ?st = (pre @ take n bs) @ drop n mid @ post"
          using out longer by simp
      qed (use 1 longer a' in auto)
      with False assms show ?thesis by (simp add: chunk_records_step)
    qed
  qed
qed

lemma chunk_records_ok:
  assumes "0 < n" "n \<le> 32" "m \<le> 2 ^ 32" "m \<le> 256 ^ ab"
  shows "unat a + length bs \<le> m \<Longrightarrow> list_all (record_ok ab) (chunk_records n a bs)"
proof (induction bs arbitrary: a rule: length_induct)
  case (1 bs)
  show ?case
  proof (cases "length bs \<le> n")
    case True
    show ?thesis
      using True 1(2) assms
      by (cases bs) (auto simp: chunk_records_step record_ok_def)
  next
    case False
    then have "unat (a + of_nat n) = unat a + n"
      using 1(2) assms by (intro unat_add_of_nat) linarith
    then have "list_all (record_ok ab) (chunk_records n (a + of_nat n) (drop n bs))"
      using 1 False assms by (cases bs) (auto intro!: 1(1) [rule_format])
    moreover have "record_ok ab (a, take n bs)" "bs \<noteq> []"
      using False 1(2) assms by (auto simp: record_ok_def)
    ultimately show ?thesis
      using assms by (simp add: chunk_records_step [of bs n a])
  qed
qed


subsection \<open>A whole S-record text\<close>

lemma parse_loop_skip_line:
  assumes "l ! 0 = CHR ''S''" "1 < length l" "ascii (l ! 1) < 49 \<or> 51 < ascii (l ! 1)"
    "newline \<notin> set l" "length l < 1023"
  shows "\<exists>post. parse_loop scan mn line (l @ newline # s) st =
    parse_loop scan mn (l @ newline # post) s st"
proof -
  let ?line = "l @ newline # NUL # drop (length l + 2) line"
  have "parse_line scan mn ?line st = Inr st"
    using assms by (intro parse_line_skip) (auto simp: nth_append)
  then show ?thesis
    using assms by (auto simp: parse_loop_line Let_def)
qed

definition count_body :: "nat \<Rightarrow> string" where
  "count_body k = ''S503'' @ fmt_X 4 k @
     fmt_X 2 (255 - unat (of_nat (3 + k mod 256 + (k div 256) mod 256) :: u8))"

definition end_body :: "nat \<Rightarrow> u32 \<Rightarrow> string" where
  "end_body ab a = CHR ''S'' # hexdigit (11 - ab) # fmt_X 2 (ab + 1) @
     hexbytes (addr_field (int ab) a) @
     fmt_X 2 (255 - unat (of_nat (ab + 1) + sum_list (addr_field (int ab) a) :: u8))"

lemma count_record_body: "count_record k = count_body k @ [newline]"
  by (simp add: count_record_def count_body_def Let_def)

lemma end_record_body:
  assumes "2 \<le> ab" "ab \<le> 4"
  shows "end_record (int ab) a = end_body ab a @ [newline]"
proof -
  have "nat (11 - int ab) = 11 - ab" "nat (int ab + 1) = ab + 1"
    using assms by auto
  moreover have "fmt_X 1 (11 - ab) = [hexdigit (11 - ab)]"
    using assms by (intro fmt_X_1) auto
  ultimately show ?thesis
    unfolding end_record_def end_body_def Let_def emit_bytes_eq by (simp add: add.commute)
qed

lemma length_fmt_X: "length (fmt_X w n) = max w (length (hexstr n))"
  by (auto simp: fmt_X_def)

lemma length_fmt_X_le: "n < 16 ^ k \<Longrightarrow> 0 < k \<Longrightarrow> length (fmt_X w n) \<le> max w k"
  using hexstr_length_le [of n k] by (auto simp: length_fmt_X)

lemma length_fmt_X_2_255: "length (fmt_X 2 (255 - m)) = 2"
  by (simp add: fmt_X_byte)

text \<open>The footer, and with \<^verbatim>\<open>-s\<close> the last data record read twice, change nothing.\<close>

lemma parse_loop_text:
  assumes ab: "2 \<le> ab" "ab \<le> 4" and rs: "rs \<noteq> []" "list_all (record_ok ab) rs"
    and k: "k < 2 ^ 32"
  shows "parse_loop scan mn line
      ((if h then header_record else []) @ records_text ab rs @
       (if h then count_record k @ end_record (int ab) a else [])) st =
    Inr (fold (apply_record scan mn) rs st)"
proof (cases h)
  case False
  obtain line' post where *: "parse_loop scan mn line (records_text ab rs @ []) st =
      parse_loop scan mn line' [] (fold (apply_record scan mn) rs st)"
    "line' = record_body ab (fst (last rs)) (snd (last rs)) @ post"
    using parse_loop_records [OF ab rs(2), of scan mn line "[]" st] rs(1) by blast
  have "record_ok ab (last rs)" using rs by (auto simp: list_all_iff)
  then have "parse_line scan mn line' (fold (apply_record scan mn) rs st) =
      Inr (apply_record scan mn (last rs) (fold (apply_record scan mn) rs st))"
    using ab by (simp add: *(2) parse_line_record record_ok_def)
  moreover have "fold (apply_record scan mn) rs st =
      apply_record scan mn (last rs) (fold (apply_record scan mn) (butlast rs) st)"
    using rs(1) by (cases rs rule: rev_cases) simp_all
  ultimately show ?thesis
    using False * by (simp add: parse_loop_end apply_record_idem)
next
  case True
  let ?st = "fold (apply_record scan mn) rs st"
  let ?tail = "count_body k @ newline # end_body ab a @ newline # []"
  obtain l1 where l1: "parse_loop scan mn line (header_record @ records_text ab rs @ ?tail) st =
      parse_loop scan mn l1 (records_text ab rs @ ?tail) st"
    using parse_loop_skip_line [of "''S00600004844521B''" scan mn line "records_text ab rs @ ?tail" st]
    by (auto simp: header_record_def)
  obtain l2 where l2: "parse_loop scan mn l1 (records_text ab rs @ ?tail) st =
      parse_loop scan mn l2 ?tail ?st"
    using parse_loop_records [OF ab rs(2)] by blast
  have "length (fmt_X 4 k) \<le> 8"
    using length_fmt_X_le [of k 8 4] k by simp
  then obtain l3 where l3: "parse_loop scan mn l2 ?tail ?st =
      parse_loop scan mn l3 (end_body ab a @ newline # []) ?st"
    using parse_loop_skip_line [of "count_body k" scan mn l2 "end_body ab a @ newline # []" ?st]
    by (auto simp: count_body_def fmt_X_not_newline length_fmt_X_2_255)
  have e: "ascii (end_body ab a ! 1) > 51" "newline \<notin> set (end_body ab a)"
      "1 < length (end_body ab a)" "length (end_body ab a) < 1023" "end_body ab a ! 0 = CHR ''S''"
    using ab ascii_hexdigit [of "11 - ab"] hexdigit_not_newline [of "11 - ab"]
    by (auto simp: end_body_def fmt_X_not_newline length_fmt_X_2_255 fmt_X_byte hexdigit_not_newline
        dest: sym)
  then obtain post where "parse_loop scan mn l3 (end_body ab a @ newline # []) ?st =
      parse_loop scan mn (end_body ab a @ newline # post) [] ?st"
    using parse_loop_skip_line [of "end_body ab a" scan mn l3 "[]" ?st] by auto
  also have "\<dots> = Inr ?st"
    using e by (simp add: parse_loop_end) (intro parse_line_skip, auto simp: nth_append)
  finally show ?thesis
    using True l1 l2 l3 ab by (simp add: count_record_body end_record_body)
qed


lemma effective_addr_bytes_range:
  assumes "2 \<le> n" "n \<le> 4"
  obtains ab where "effective_addr_bytes mx n = int ab" "2 \<le> ab" "ab \<le> 4" "unat mx < 256 ^ ab"
proof -
  have "unat mx < 4294967296" by (rule unat_u32_less)
  moreover have "effective_addr_bytes mx n = 4 \<or>
      effective_addr_bytes mx n = 3 \<and> unat mx \<le> 0xFFFFFF \<or>
      effective_addr_bytes mx n = 2 \<and> unat mx \<le> 0xFFFF"
    using assms by (auto simp: effective_addr_bytes_def Let_def word_less_nat_alt)
  ultimately consider "effective_addr_bytes mx n = int 4" "unat mx < 256 ^ 4"
    | "effective_addr_bytes mx n = int 3" "unat mx < 256 ^ 3"
    | "effective_addr_bytes mx n = int 2" "unat mx < 256 ^ 2"
    by fastforce
  then show thesis by cases (auto intro: that)
qed

text \<open>The file that \<open>srec2bin_process\<close> writes for a text of consecutive records.\<close>

lemma srec2bin_process_records:
  assumes ab: "2 \<le> ab" "ab \<le> 4" and n: "0 < n" "n \<le> 32"
    and bs: "bs \<noteq> []" "unat base + length bs < 2 ^ 32" "unat base + length bs \<le> 256 ^ ab"
    and k: "k < 2 ^ 32" and w: "min_addr w \<le> base" "max_addr w = 0"
  shows "srec2bin_process w True
      ((if h then header_record else []) @ records_text ab (chunk_records n base bs) @
       (if h then count_record k @ end_record (int ab) a else [])) =
    Inr (Some (replicate (unat (base - min_addr w)) (filler w) @ bs))"
proof -
  let ?text = "(if h then header_record else []) @ records_text ab (chunk_records n base bs) @
       (if h then count_record k @ end_record (int ab) a else [])"
  let ?rs = "chunk_records n base bs"
  let ?mn = "min_addr w"
  let ?st0 = "\<lparr>srec_max = 0, srec_min = 0xFFFFFFFF, outfile = []\<rparr>"
  let ?fill = "replicate (unat (base - ?mn)) (filler w) @ replicate (length bs) (filler w)"
  have ok: "list_all (record_ok ab) ?rs"
    using chunk_records_ok [OF n, of "unat base + length bs" ab base bs] bs by simp
  have ne: "?rs \<noteq> []" using bs n by (simp add: chunk_records_step)
  have end_val: "unat (base + of_nat (length bs)) = unat base + length bs"
    by (rule unat_add_of_nat) (rule bs)
  have scan: "srec_parse True ?mn ?text ?st0 =
      Inr (?st0\<lparr>srec_min := base, srec_max := base + of_nat (length bs) - 1\<rparr>)"
  proof -
    have "min (0xFFFFFFFF::u32) base = base"
      using unat_u32_less [of base] by (simp add: min_def word_le_nat_alt word_unat_eq_iff)
    then show ?thesis
      unfolding srec_parse_def parse_loop_text [OF ab ne ok k]
      using fold_scan_records [OF n(1) bs(1,2), of ?mn ?st0] by simp
  qed
  have gap: "unat (base - ?mn) = unat base - unat ?mn" "unat ?mn \<le> unat base"
    using w(1) by (simp_all add: unat_sub word_le_nat_alt)
  have wr: "srec_parse False ?mn ?text (st\<lparr>outfile := ?fill\<rparr>) =
      Inr (st\<lparr>outfile := replicate (unat (base - ?mn)) (filler w) @ bs, srec_max := srec_max st - 1\<rparr>)"
    for st
    unfolding srec_parse_def parse_loop_text [OF ab ne ok k]
    using fold_write_records [OF n(1), of "st\<lparr>outfile := ?fill\<rparr>"
        "replicate (unat (base - ?mn)) (filler w)" "replicate (length bs) (filler w)" "[]" base ?mn bs]
      bs(2) gap by simp
  have size: "unat (base + of_nat (length bs) - 1 - ?mn + 1) = unat (base - ?mn) + length bs"
  proof -
    have "base + of_nat (length bs) - 1 - ?mn + 1 = (base - ?mn) + of_nat (length bs)"
      by simp
    moreover have "unat ((base - ?mn) + of_nat (length bs)) = unat (base - ?mn) + length bs"
      by (rule unat_add_of_nat) (use bs(2) gap in linarith)
    ultimately show ?thesis by (simp only:)
  qed
  have top: "(if ?mn < base + of_nat (length bs) - 1 then base + of_nat (length bs) - 1 else ?mn) =
      base + of_nat (length bs) - 1"
  proof -
    have "unat (base + of_nat (length bs - 1)) = unat base + (length bs - 1)"
      using bs by (intro unat_add_of_nat) linarith
    moreover have "base + of_nat (length bs - 1) = base + of_nat (length bs) - 1"
      using bs(1) by (cases bs) simp_all
    ultimately have "unat (base + of_nat (length bs) - 1) = unat base + (length bs - 1)"
      by (simp only:)
    then have "?mn \<le> base + of_nat (length bs) - 1"
      using gap unfolding word_le_nat_alt by linarith
    then show ?thesis by auto
  qed
  have mn: "(if ?mn < base then ?mn else base) = ?mn" using w(1) by auto
  let ?x = "base + of_nat (length bs) - 1 - ?mn + 1"
  have fill: "replicate (unat (?x div 32) * 32 + unat (?x mod 32)) (filler w) = ?fill"
  proof -
    have "unat (?x div 32) * 32 + unat (?x mod 32) = unat ?x"
      by (simp add: unat_div unat_mod)
    then show ?thesis by (simp only: size replicate_add)
  qed
  have "srec2bin_process w True T = Inr (Some (replicate (unat (base - ?mn)) (filler w) @ bs))"
    if "srec_parse True ?mn T ?st0 =
      Inr (?st0\<lparr>srec_min := base, srec_max := base + of_nat (length bs) - 1\<rparr>)"
    and "\<And>st. srec_parse False ?mn T (st\<lparr>outfile := ?fill\<rparr>) =
      Inr (st\<lparr>outfile := replicate (unat (base - ?mn)) (filler w) @ bs, srec_max := srec_max st - 1\<rparr>)"
    for T
    unfolding srec2bin_process_def that(1) Let_def
    using that(2) [of "\<lparr>srec_max = base + of_nat (length bs) - 1, srec_min = base, outfile = []\<rparr>"]
    by (simp only: sum.case srec_state.select_convs srec_state.update_convs mn w(2) add_0_right
        top fill if_True)
  then show ?thesis using scan wr by blast
qed

lemma process_roundtrip:
  assumes range: "begin_addr v \<le> end_addr v" "unat (end_addr v) < length contents"
    and opts: "2 \<le> addr_bytes v" "addr_bytes v \<le> 4" "8 \<le> line_length v" "line_length v \<le> 32"
    and fits: "unat (addr_offset v) + (unat (end_addr v) - unat (begin_addr v)) +
                 nat (line_length v) < 2 ^ 32"
    and w: "min_addr w \<le> addr_offset v" "max_addr w = 0"
    and fuel: "length contents < fuel"
  shows "\<exists>text. bin2srec_process fuel v contents buf = Some text \<and>
    srec2bin_process w True text =
      Inr (Some (replicate (unat (addr_offset v - min_addr w)) (filler w) @
        take (unat (end_addr v) - unat (begin_addr v) + 1) (drop (unat (begin_addr v)) contents)))"
proof -
  let ?b = "unat (begin_addr v)" and ?e = "unat (end_addr v)"
  let ?bs = "take (?e - ?b + 1) (drop ?b contents)"
  let ?rest = "drop (?e - ?b + 1) (drop ?b contents)"
  let ?mx = "addr_offset v + (end_addr v - begin_addr v)"
  let ?n = "nat (line_length v)"
  have be: "?b \<le> ?e" using range(1) by (simp add: word_le_nat_alt)
  have len: "length ?bs = ?e - ?b + 1" using be range(2) by simp
  have mx: "unat ?mx = unat (addr_offset v) + (?e - ?b)"
    using fits range(1) unat_add_of_nat [of "addr_offset v" "?e - ?b"]
    by (simp add: unat_sub [symmetric] word_le_nat_alt)
  obtain ab where ab: "effective_addr_bytes ?mx (addr_bytes v) = int ab" "2 \<le> ab" "ab \<le> 4"
      "unat ?mx < 256 ^ ab"
    using effective_addr_bytes_range opts by metis
  have n: "0 < ?n" "?n \<le> 32" "int ?n = line_length v" using opts by auto
  let ?rs = "chunk_records ?n (addr_offset v) ?bs"
  have ne: "?bs \<noteq> []" using len by (metis add_is_0 list.size(3) one_neq_zero)
  have "process_loop fuel (int ab) (int ?n) ?mx (addr_offset v) (?bs @ ?rest) buf 0 =
      Some (records_text ab ?rs, 0 + length ?rs)"
    using ne mx len fuel fits range(2) by (intro process_loop_records n) auto
  then have out: "bin2srec_process fuel v contents buf = Some
      ((if do_headers v then header_record else []) @ records_text ab ?rs @
       (if do_headers v then count_record (length ?rs) @ end_record (int ab) (addr_offset v) else []))"
    unfolding bin2srec_process_def Let_def ab(1) n(3) append_take_drop_id by simp
  have "length ?rs \<le> length ?bs"
    by (rule length_chunk_records)
  then have "length ?rs < 2 ^ 32" using len fits n(1) by linarith
  then have "srec2bin_process w True
      ((if do_headers v then header_record else []) @ records_text ab ?rs @
       (if do_headers v then count_record (length ?rs) @ end_record (int ab) (addr_offset v) else [])) =
      Inr (Some (replicate (unat (addr_offset v - min_addr w)) (filler w) @ ?bs))"
    using ne mx len fits ab(4) n(1) by (intro srec2bin_process_records ab n(1,2) w) linarith+
  then show ?thesis using out by blast
qed


subsection \<open>Properties\<close>

text \<open>
  C2: Whatever part of a file \<^verbatim>\<open>bin2srec\<close> converts, with whatever line length, address size
  and headers it is told to use, \<^verbatim>\<open>srec2bin\<close> turns its output back into exactly those
  bytes, placed at the generated address and preceded by filler bytes from the requested
  start address on. The conversion also terminates. The one restriction is that the last
  address plus one line stays below \<open>2 ^ 32\<close>.
\<close>

theorem srec_roundtrip:
  assumes range: "begin_addr v \<le> end_addr v" "unat (end_addr v) < length contents"
    and opts: "2 \<le> addr_bytes v" "addr_bytes v \<le> 4" "8 \<le> line_length v" "line_length v \<le> 32"
    and fits: "unat (addr_offset v) + (unat (end_addr v) - unat (begin_addr v)) +
                 nat (line_length v) < 2 ^ 32"
    and w: "min_addr w \<le> addr_offset v" "max_addr w = 0"
    and fuel: "length contents < fuel"
  shows "\<exists>text. bin2srec_process fuel v contents buf = Some text \<and>
    srec2bin_process w True text =
      Inr (Some (replicate (unat (addr_offset v - min_addr w)) (filler w) @
        take (unat (end_addr v) - unat (begin_addr v) + 1) (drop (unat (begin_addr v)) contents)))"
  using assms by (rule process_roundtrip)

theorem srec_roundtrip_witness:
  "\<exists>text. bin2srec_process 6 (bin2srec_init\<lparr>begin_addr := 1, end_addr := 3, addr_offset := 0x100\<rparr>)
       [10, 20, 30, 40, 50] [] = Some text \<and>
     srec2bin_process (srec2bin_init\<lparr>min_addr := 0xFE\<rparr>) True text =
       Inr (Some [0xFF, 0xFF, 20, 30, 40])"
  using srec_roundtrip [of "bin2srec_init\<lparr>begin_addr := 1, end_addr := 3, addr_offset := 0x100\<rparr>"
      "[10, 20, 30, 40, 50]" "srec2bin_init\<lparr>min_addr := 0xFE\<rparr>" 6 "[]"]
  by (simp add: bin2srec_init_def srec2bin_init_def) (simp add: numeral_2_eq_2)

text \<open>An argument that neither tool takes for an option.\<close>

definition operand :: "string \<Rightarrow> bool" where
  "operand f \<longleftrightarrow> f \<notin> {''-o'', ''-b'', ''-e'', ''-a'', ''-l'', ''-s'', ''-q'', ''-f''} \<and> take 2 f \<noteq> ''-h''"

text \<open>
  C3: Run with only a file name, \<^verbatim>\<open>bin2srec\<close> converts any non-empty file that leaves 32
  addresses free below \<open>2 ^ 32\<close> with exit status 0, and \<^verbatim>\<open>srec2bin\<close> run on its output
  exits with status 0 and writes a file identical to the original.
\<close>

theorem srec_tools_roundtrip:
  assumes "fs f = Some contents" "contents \<noteq> []" "length contents + 32 \<le> 2 ^ 32"
    and "operand f" "operand g" "length contents < fuel"
  shows "\<exists>text. bin2srec_main fuel fs buf [f] = Some (Exit 0 text) \<and>
    srec2bin_main [g \<mapsto> text] True [g, h] = Exit 0 (Some (h, contents))"
proof -
  let ?size = "file_size contents - 1"
  let ?v = "bin2srec_init\<lparr>end_addr := ?size\<rparr>"
  have size: "unat ?size = length contents - 1"
  proof -
    have "?size = of_nat (length contents - 1)"
      using assms(2) by (cases contents) (simp_all add: file_size_def)
    then show ?thesis using assms(3) by (simp add: unat_of_nat_u32)
  qed
  have len: "0 < length contents" using assms(2) by simp
  obtain t where t: "bin2srec_process fuel ?v contents buf = Some t"
      "srec2bin_process srec2bin_init True t = Inr (Some contents)"
    using process_roundtrip [of ?v contents srec2bin_init fuel buf] size len assms(3,6)
    by (auto simp: bin2srec_init_def srec2bin_init_def)
  have "bin2srec_main fuel fs buf [f] = Some (Exit 0 t)"
    using assms(1,4) t(1)
    by (simp add: bin2srec_main_def operand_def bin2srec_init_def Let_def)
  moreover have "srec2bin_main [g \<mapsto> t] True [g, h] = Exit 0 (Some (h, contents))"
    using assms(5) t(2) by (simp add: srec2bin_main_def operand_def)
  ultimately show ?thesis by blast
qed

theorem srec_tools_roundtrip_witness:
  "\<exists>text. bin2srec_main 4 [''a.bin'' \<mapsto> [1, 2, 3]] [] [''a.bin''] = Some (Exit 0 text) \<and>
    srec2bin_main [''a.srec'' \<mapsto> text] True [''a.srec'', ''b.bin''] =
      Exit 0 (Some (''b.bin'', [1, 2, 3]))"
  by (rule srec_tools_roundtrip) (simp_all add: operand_def)

text \<open>
  On an empty input file \<^verbatim>\<open>bin2srec\<close> never ends: the last address is computed as
  \<open>0 - 1 = 0xFFFFFFFF\<close>, so the loop condition \<^verbatim>\<open>address <= max_addr\<close> always holds and it
  prints records forever, whatever the fuel.
\<close>

theorem bin2srec_empty_file_diverges:
  assumes "fs f = Some []" "operand f"
  shows "bin2srec_main fuel fs buf [f] = None"
proof -
  have "process_loop n ab ll (- 1) a infile b k = None" for n ab ll a infile b k
  proof (induction n arbitrary: a infile b k)
    case 0
    then show ?case by simp
  next
    case (Suc n)
    have "a \<le> - 1" by simp
    with Suc.IH show ?case by (simp add: Let_def split: prod.split)
  qed
  then show ?thesis
    using assms
    by (simp add: bin2srec_main_def operand_def bin2srec_process_def bin2srec_init_def file_size_def
        Let_def)
qed

theorem bin2srec_empty_file_diverges_witness:
  "bin2srec_main 1000 [''empty'' \<mapsto> []] [] [''empty''] = None"
  by (rule bin2srec_empty_file_diverges) (simp_all add: operand_def)

end
