(* ===== verification/Serial_Line.thy ===== *)
theory Serial_Line
  imports Nios_Prelude
begin

text \<open>
  The serial line under the X/Y-modem receiver: the circular buffer of
  \<^verbatim>\<open>bootloader/xyzModem.c\<close> (\<^verbatim>\<open>readpos\<close>, \<^verbatim>\<open>writepos\<close>, \<^verbatim>\<open>buffer\<close>) with
  \<^verbatim>\<open>getCharTimeout\<close> and \<^verbatim>\<open>putChar\<close>.

  The other end of the line is part of the state: \<open>rx\<close> lists what the next calls of
  \<^verbatim>\<open>select\<close>/\<^verbatim>\<open>read\<close> will see (a burst of pending bytes, or silence until the timeout),
  and \<open>tx\<close> collects what was sent. After the last event the line stays silent. A theorem
  for every \<open>rx\<close> is a theorem for every sender whose transmission is finite; the loops of the
  receiver that end only at a timeout (\<^verbatim>\<open>xyzModem_flush\<close>, the search for a header character) do
  not end against a sender that never falls silent (\<open>drain_endless\<close>).

  \<open>byte_source\<close> is the interface the protocol code relies on; \<open>getCharTimeout\<close> is shown
  to provide it, with the buffer contents followed by the events of the line as its queue.
\<close>

subsection \<open>State and operations\<close>

datatype rx_event = Silence | Burst bytes

record uart =
  readpos :: nat
  writepos :: nat
  buffer :: bytes
  rx :: "rx_event list"
  tx :: bytes

definition bufsize :: nat where
  "bufsize = 4096"

definition putChar :: "u8 \<Rightarrow> uart \<Rightarrow> uart" where
  "putChar t u = u\<lparr>tx := tx u @ [t]\<rparr>"

text \<open>
  The refill of \<^verbatim>\<open>getCharTimeout\<close>, reached with \<^verbatim>\<open>readpos == writepos\<close>; \<open>False\<close> where
  the source returns 0.
\<close>

definition refill :: "uart \<Rightarrow> bool \<times> uart" where
  "refill u =
     (case rx u of
        [] \<Rightarrow> (False, u)
      | Silence # evs \<Rightarrow> (False, u\<lparr>rx := evs\<rparr>)
      | Burst bs # evs \<Rightarrow>
          (let remainder = (if writepos u < readpos u then readpos u - writepos u
                            else bufsize - writepos u);
               got = take remainder bs
           in if got = [] then (False, u\<lparr>rx := evs\<rparr>)
              else (True,
                u\<lparr>buffer := take (writepos u) (buffer u) @ got @
                             drop (writepos u + length got) (buffer u),
                  writepos := (writepos u + length got) mod bufsize,
                  rx := (if length bs > remainder then Burst (drop remainder bs) # evs
                         else evs)\<rparr>)))"

definition getCharTimeout :: "uart \<Rightarrow> u8 option \<times> uart" where
  "getCharTimeout u =
     (let (ok, u1) = (if readpos u = writepos u then refill u else (True, u))
      in if ok then (Some (buffer u1 ! readpos u1),
                     u1\<lparr>readpos := (readpos u1 + 1) mod bufsize\<rparr>)
         else (None, u1))"

text \<open>Loops over the character source that the protocol code uses.\<close>

fun get_bytes :: "('s \<Rightarrow> 'b option \<times> 's) \<Rightarrow> nat \<Rightarrow> 's \<Rightarrow> 'b list \<times> bool \<times> 's" where
  "get_bytes getc 0 s = ([], True, s)"
| "get_bytes getc (Suc n) s =
     (case getc s of
        (None, s1) \<Rightarrow> ([], False, s1)
      | (Some c, s1) \<Rightarrow> (let (cs, ok, s2) = get_bytes getc n s1 in (c # cs, ok, s2)))"

partial_function (option) drain :: "('s \<Rightarrow> 'b option \<times> 's) \<Rightarrow> 's \<Rightarrow> 's option" where
  "drain getc s =
     (case getc s of (None, s1) \<Rightarrow> Some s1 | (Some c, s1) \<Rightarrow> drain getc s1)"

text \<open>\<^verbatim>\<open>xyzModem_flush\<close>: read until the line is idle.\<close>

definition xyzModem_flush :: "uart \<Rightarrow> uart option" where
  "xyzModem_flush u = drain getCharTimeout u"

text \<open>Over a source that never times out, this loop does not end.\<close>

lemma drain_endless:
  assumes "\<And>s. P s \<Longrightarrow> \<exists>c s'. getc s = (Some c, s') \<and> P s'" "P s"
  shows "drain getc s = None"
proof (cases "drain getc s")
  case (Some y)
  have "getc = getc \<longrightarrow> \<not> P s"
  proof (rule drain.raw_induct [of "\<lambda>g t y. g = getc \<longrightarrow> \<not> P t", OF _ Some], intro impI notI)
    fix drain' g t y
    assume IH: "\<And>g t y. drain' g t = Some y \<Longrightarrow> g = getc \<longrightarrow> \<not> P t"
      and step: "(case g t of (None, s1) \<Rightarrow> Some s1 | (Some c, s1) \<Rightarrow> drain' g s1) = Some y"
      and g: "g = getc" "P t"
    obtain c t' where "getc t = (Some c, t')" "P t'" using assms(1) [OF g(2)] by blast
    with IH [of g t' y] step g(1) show False by simp
  qed
  with Some assms show ?thesis by blast
qed

subsection \<open>The interface\<close>

locale byte_source =
  fixes getc :: "'s \<Rightarrow> 'b option \<times> 's"
    and pend :: "'s \<Rightarrow> 'b option list"
    and inv :: "'s \<Rightarrow> bool"
  assumes getc_result: "inv s \<Longrightarrow> fst (getc s) = (case pend s of [] \<Rightarrow> None | x # _ \<Rightarrow> x)"
    and getc_pend: "inv s \<Longrightarrow> pend (snd (getc s)) = tl (pend s)"
    and getc_inv: "inv s \<Longrightarrow> inv (snd (getc s))"
begin

lemma getc_Some:
  assumes "inv s" "pend s = Some c # rest"
  obtains s' where "getc s = (Some c, s')" "inv s'" "pend s' = rest"
  using assms getc_result [of s] getc_pend [of s] getc_inv [of s] by (cases "getc s") auto

lemma getc_timeout:
  assumes "inv s" "pend s = [] \<or> (\<exists>rest. pend s = None # rest)"
  obtains s' where "getc s = (None, s')" "inv s'" "pend s' = tl (pend s)"
  using assms getc_result [of s] getc_pend [of s] getc_inv [of s] by (cases "getc s") auto

lemma getc_cases:
  assumes "inv s"
  obtains (byte) c s' where "getc s = (Some c, s')" "inv s'" "pend s = Some c # pend s'"
  | (timeout) s' where "getc s = (None, s')" "inv s'" "pend s' = tl (pend s)"
proof (cases "\<exists>c rest. pend s = Some c # rest")
  case True
  then obtain c rest where "pend s = Some c # rest" by blast
  with assms show ?thesis by (metis byte getc_Some)
next
  case False
  then have "pend s = [] \<or> (\<exists>rest. pend s = None # rest)"
    by (metis list.exhaust not_None_eq)
  with assms show ?thesis by (metis timeout getc_timeout)
qed

lemma get_bytes_all:
  assumes "inv s" "pend s = map Some bs @ rest"
  obtains s' where "get_bytes getc (length bs) s = (bs, True, s')" "inv s'" "pend s' = rest"
  using assms
proof (induction bs arbitrary: s thesis)
  case Nil
  then show ?case by simp
next
  case (Cons b bs)
  obtain s1 where s1: "getc s = (Some b, s1)" "inv s1" "pend s1 = map Some bs @ rest"
    using getc_Some [of s b "map Some bs @ rest"] Cons.prems by auto
  obtain s' where "get_bytes getc (length bs) s1 = (bs, True, s')" "inv s'" "pend s' = rest"
    using Cons.IH s1 by blast
  with s1 show ?case by (intro Cons.prems(1)) simp_all
qed

lemma get_bytes_inv:
  assumes "inv s" "get_bytes getc n s = (bs, ok, s')"
  shows "inv s' \<and> length (pend s') \<le> length (pend s) \<and> (ok \<longrightarrow> length bs = n) \<and> length bs \<le> n"
  using assms
proof (induction n arbitrary: s bs ok s')
  case 0
  then show ?case by simp
next
  case (Suc n)
  from Suc.prems(1) show ?case
  proof (cases rule: getc_cases)
    case (byte c s1)
    obtain cs k s2 where r: "get_bytes getc n s1 = (cs, k, s2)" by (metis prod_cases3)
    with byte Suc.prems(2) have "bs = c # cs" "ok = k" "s' = s2" by auto
    with Suc.IH [OF byte(2) r] byte show ?thesis by auto
  next
    case (timeout s1)
    with Suc.prems(2) show ?thesis by auto
  qed
qed

text \<open>Draining ends, behind the next silence.\<close>

lemma drain_ends:
  assumes "inv s"
  obtains s' where "drain getc s = Some s'" "inv s'" "length (pend s') \<le> length (pend s)"
    "pend s' = tl (dropWhile (\<lambda>x. x \<noteq> None) (pend s))"
  using assms
proof (induction "length (pend s)" arbitrary: s thesis)
  case 0
  obtain s1 where "getc s = (None, s1)" "inv s1" "pend s1 = tl (pend s)"
    using getc_timeout [of s] 0 by auto
  then show ?case using 0 by (intro 0(2) [of s1]) (simp_all add: drain.simps [of getc s])
next
  case (Suc n)
  from Suc.prems(2) show ?case
  proof (cases rule: getc_cases)
    case (byte c s1)
    then obtain s' where "drain getc s1 = Some s'" "inv s'" "length (pend s') \<le> length (pend s1)"
        "pend s' = tl (dropWhile (\<lambda>x. x \<noteq> None) (pend s1))"
      using Suc.hyps by (metis length_Cons add_left_cancel plus_1_eq_Suc)
    with byte show ?thesis
      by (intro Suc.prems(1) [of s']) (simp_all add: drain.simps [of getc s])
  next
    case (timeout s1)
    moreover have "pend s = [] \<or> hd (pend s) = None"
      using getc_result [OF Suc.prems(2)] timeout(1) by (cases "pend s") auto
    ultimately show ?thesis
      by (intro Suc.prems(1) [of s1]) (cases "pend s"; simp add: drain.simps [of getc s])+
  qed
qed

end


subsection \<open>The circular buffer provides it\<close>

definition uart_ok :: "uart \<Rightarrow> bool" where
  "uart_ok u \<longleftrightarrow> readpos u < bufsize \<and> writepos u < bufsize \<and> length (buffer u) = bufsize"

text \<open>The unread bytes of the buffer, oldest first.\<close>

definition ring :: "uart \<Rightarrow> bytes" where
  "ring u = (if readpos u \<le> writepos u then take (writepos u - readpos u) (drop (readpos u) (buffer u))
             else drop (readpos u) (buffer u) @ take (writepos u) (buffer u))"

fun line_items :: "rx_event list \<Rightarrow> u8 option list" where
  "line_items [] = []"
| "line_items (Silence # evs) = None # line_items evs"
| "line_items (Burst bs # evs) =
     (if bs = [] then None # line_items evs else map Some bs @ line_items evs)"

definition pending :: "uart \<Rightarrow> u8 option list" where
  "pending u = map Some (ring u) @ line_items (rx u)"

text \<open>Taking a byte out of a non-empty buffer.\<close>

lemma ring_take:
  assumes "uart_ok u" "readpos u \<noteq> writepos u"
  shows "ring u = buffer u ! readpos u # ring (u\<lparr>readpos := (readpos u + 1) mod bufsize\<rparr>)"
proof -
  have r: "readpos u < length (buffer u)" using assms(1) by (simp add: uart_ok_def)
  then have cons: "drop (readpos u) (buffer u) = buffer u ! readpos u # drop (Suc (readpos u)) (buffer u)"
    by (simp add: Cons_nth_drop_Suc)
  show ?thesis
  proof (cases "readpos u < writepos u")
    case True
    then obtain k where "writepos u - readpos u = Suc k" "writepos u - Suc (readpos u) = k"
      by (metis Suc_diff_Suc)
    with True assms cons show ?thesis by (simp add: ring_def uart_ok_def)
  next
    case False
    then have "writepos u < readpos u" using assms(2) by simp
    then show ?thesis
      using assms r cons
      by (cases "Suc (readpos u) = bufsize") (auto simp: ring_def uart_ok_def)
  qed
qed

lemma ring_after_refill:
  assumes "length pre = w" "length (pre @ (g # gs) @ post) = bufsize"
    and "buffer u = pre @ (g # gs) @ post" "readpos u = (w + 1) mod bufsize"
    and "writepos u = (w + length (g # gs)) mod bufsize"
  shows "ring u = gs"
proof (cases "post = []")
  case True
  show ?thesis
  proof (cases gs)
    case Nil
    with True show ?thesis using assms by (simp add: ring_def)
  next
    case (Cons x xs)
    with True assms(1,2) have "Suc w < bufsize" by auto
    with True show ?thesis using assms by (simp add: ring_def)
  qed
next
  case False
  then have "w + length (g # gs) < bufsize" using assms(1,2) by (cases post) auto
  then show ?thesis
    using assms by (simp add: ring_def)
qed

text \<open>A refill of an empty buffer, followed by taking the first byte.\<close>

lemma ring_refill:
  assumes "uart_ok u" "readpos u = writepos u" "rx u = Burst bs # evs" "bs \<noteq> []"
  obtains u1 where "refill u = (True, u1)" "uart_ok u1" "buffer u1 ! readpos u1 = hd bs"
    "pending (u1\<lparr>readpos := (readpos u1 + 1) mod bufsize\<rparr>) = map Some (tl bs) @ line_items evs"
    "tx u1 = tx u"
proof -
  let ?w = "writepos u" and ?b = "buffer u"
  let ?n = "bufsize - ?w"
  let ?got = "take ?n bs"
  let ?buf = "take ?w ?b @ ?got @ drop (?w + length ?got) ?b"
  let ?u1 = "u\<lparr>buffer := ?buf, writepos := (?w + length ?got) mod bufsize,
      rx := (if length bs > ?n then Burst (drop ?n bs) # evs else evs)\<rparr>"
  have w: "?w < bufsize" "length ?b = bufsize" using assms(1) by (auto simp: uart_ok_def)
  then have got: "?got \<noteq> []" "length ?got \<le> ?n" using assms(4) by auto
  have "refill u = (True, ?u1)"
    using assms got by (simp add: refill_def Let_def)
  moreover have len: "length ?buf = bufsize" using w got(2) by auto
  then have "uart_ok ?u1" using assms(1) by (simp add: uart_ok_def)
  moreover have nth: "?buf ! ?w = hd bs"
    using w got assms(4) by (simp add: nth_append hd_conv_nth)
  moreover have "pending (?u1\<lparr>readpos := (?w + 1) mod bufsize\<rparr>) = map Some (tl bs) @ line_items evs"
  proof -
    obtain g gs where g: "?got = g # gs" using got(1) by (cases ?got) auto
    have "ring (?u1\<lparr>readpos := (?w + 1) mod bufsize\<rparr>) = gs"
      using len w g
      by (intro ring_after_refill [of "take ?w ?b" ?w g gs "drop (?w + length ?got) ?b"]) auto
    moreover have "bs = g # gs @ drop ?n bs" using g by (metis append_Cons append_take_drop_id)
    then have "map Some (tl bs) = map Some gs @ map Some (drop ?n bs)"
      by (metis list.sel(3) map_append)
    ultimately show ?thesis
      by (simp add: pending_def)
  qed
  ultimately show thesis
    using assms(2) by (intro that [of ?u1]) simp_all
qed


lemma getCharTimeout_step:
  assumes "uart_ok u"
  shows "fst (getCharTimeout u) = (case pending u of [] \<Rightarrow> None | x # _ \<Rightarrow> x) \<and>
    pending (snd (getCharTimeout u)) = tl (pending u) \<and> uart_ok (snd (getCharTimeout u)) \<and>
    tx (snd (getCharTimeout u)) = tx u"
proof (cases "readpos u = writepos u")
  case False
  then show ?thesis
    using assms ring_take [OF assms False]
    by (auto simp: getCharTimeout_def pending_def uart_ok_def)
next
  case True
  then have empty: "ring u = []" by (simp add: ring_def)
  show ?thesis
  proof (cases "\<exists>bs evs. rx u = Burst bs # evs \<and> bs \<noteq> []")
    case burst: True
    then obtain bs evs where rx: "rx u = Burst bs # evs" "bs \<noteq> []" by blast
    obtain u1 where u1: "refill u = (True, u1)" "uart_ok u1" "buffer u1 ! readpos u1 = hd bs"
      "pending (u1\<lparr>readpos := (readpos u1 + 1) mod bufsize\<rparr>) = map Some (tl bs) @ line_items evs"
      "tx u1 = tx u"
      using ring_refill [OF assms True rx] by blast
    have "pending u = map Some bs @ line_items evs" using rx empty by (simp add: pending_def)
    with rx(2) True u1 show ?thesis
      by (cases bs) (auto simp: getCharTimeout_def uart_ok_def bufsize_def)
  next
    case False
    then show ?thesis
      using True assms empty
      by (cases "rx u" rule: line_items.cases)
         (auto simp: getCharTimeout_def refill_def pending_def ring_def uart_ok_def Let_def)
  qed
qed

interpretation line: byte_source getCharTimeout pending uart_ok
  by unfold_locales (use getCharTimeout_step in auto)

lemma putChar_ok [simp]: "uart_ok (putChar c u) = uart_ok u" "pending (putChar c u) = pending u"
  "tx (putChar c u) = tx u @ [c]"
  by (simp_all add: putChar_def uart_ok_def pending_def ring_def)


lemma xyzModem_flush_ends:
  "uart_ok u \<Longrightarrow> ends (xyzModem_flush u) (\<lambda>u'. uart_ok u' \<and> length (pending u') \<le> length (pending u))"
  by (rule line.drain_ends [of u]) (simp_all add: xyzModem_flush_def)

subsection \<open>The buffer is a queue\<close>

text \<open>A line before the first character, for concrete runs.\<close>

definition idle_uart :: "rx_event list \<Rightarrow> uart" where
  "idle_uart evs = \<lparr>readpos = 0, writepos = 0, buffer = replicate bufsize 0, rx = evs, tx = []\<rparr>"

lemma idle_uart_simps [simp]:
  "uart_ok (idle_uart evs)" "pending (idle_uart evs) = line_items evs" "tx (idle_uart evs) = []"
  by (simp_all add: idle_uart_def uart_ok_def pending_def ring_def bufsize_def)

lemma getCharTimeout_queue:
  assumes "uart_ok u"
  shows "fst (get_bytes getCharTimeout n u) = map the (takeWhile (\<lambda>x. x \<noteq> None) (take n (pending u)))"
  using assms
proof (induction n arbitrary: u)
  case 0
  then show ?case by simp
next
  case (Suc n)
  from Suc.prems show ?case
  proof (cases rule: line.getc_cases)
    case (byte c u')
    with Suc.IH [of u'] show ?thesis by (auto simp: case_prod_beta)
  next
    case (timeout u')
    then have "pending u = [] \<or> hd (pending u) = None"
      using line.getc_result [OF Suc.prems] by (cases "pending u") auto
    with timeout show ?thesis by (cases "pending u") auto
  qed
qed

text \<open>
  C10: the circular buffer of \<^verbatim>\<open>getCharTimeout\<close> implements a queue. For every state of the
  buffer positions, reading \<open>n\<close> characters yields the unread bytes of the buffer followed by
  what the line delivers, in order and without loss, up to the first timeout, and keeps the
  positions inside the buffer.
\<close>

theorem getCharTimeout_refines_queue:
  assumes "uart_ok u"
  shows "fst (getCharTimeout u) = (case pending u of [] \<Rightarrow> None | x # _ \<Rightarrow> x) \<and>
    pending (snd (getCharTimeout u)) = tl (pending u) \<and>
    uart_ok (snd (getCharTimeout u)) \<and>
    fst (get_bytes getCharTimeout n u) = map the (takeWhile (\<lambda>x. x \<noteq> None) (take n (pending u)))"
  using getCharTimeout_step [OF assms] getCharTimeout_queue [OF assms] by auto

theorem getCharTimeout_refines_queue_witness:
  "fst (get_bytes getCharTimeout 5 (idle_uart [Burst [1, 2], Burst [3], Silence, Burst [4]])) = [1, 2, 3]"
  using getCharTimeout_refines_queue [of "idle_uart [Burst [1, 2], Burst [3], Silence, Burst [4]]" 5]
  by simp

end
