(* ===== verification/XyzModem.thy ===== *)
theory XyzModem
  imports Serial_Line
begin

text \<open>
  The X/Y-modem receiver of \<^verbatim>\<open>bootloader/xyzModem.c\<close>: packet reception
  (\<^verbatim>\<open>xyzModem_get_hdr\<close>), opening a transfer, reading the stream, closing it.

  The static structure \<^verbatim>\<open>xyz\<close> is a record; the circular buffer and the line are its field
  \<open>uart\<close>. The 16-bit CRC \<^verbatim>\<open>cyg_crc16\<close> belongs to eCos and is the parameter \<open>crc16\<close> of
  every operation that checks a packet. Delays and the \<^verbatim>\<open>ZM_DEBUG\<close> output are not
  modelled. Loops whose length depends on the sender are \<open>partial_function (option)\<close>, where
  \<open>None\<close> would mean that the loop never ends; \<open>Xyz_Correct\<close> proves that each of them
  ends. A \<^verbatim>\<open>memcpy\<close> with a negative length is the result \<open>Memcpy_overrun\<close>.
\<close>

subsection \<open>Protocol constants\<close>

abbreviation (input) SOH :: u8 where "SOH \<equiv> 0x01"
abbreviation (input) STX :: u8 where "STX \<equiv> 0x02"
abbreviation (input) EOT :: u8 where "EOT \<equiv> 0x04"
abbreviation (input) ACK :: u8 where "ACK \<equiv> 0x06"
abbreviation (input) BSP :: u8 where "BSP \<equiv> 0x08"
abbreviation (input) NAK :: u8 where "NAK \<equiv> 0x15"
abbreviation (input) CAN :: u8 where "CAN \<equiv> 0x18"
abbreviation (input) CTRL_Z :: u8 where "CTRL_Z \<equiv> 0x1A"
abbreviation (input) char_C :: u8 where "char_C \<equiv> 0x43"

abbreviation (input) xyzModem_xmodem :: int where "xyzModem_xmodem \<equiv> 1"
abbreviation (input) xyzModem_ymodem :: int where "xyzModem_ymodem \<equiv> 2"

abbreviation (input) xyzModem_access :: int where "xyzModem_access \<equiv> - 1"
abbreviation (input) xyzModem_noZmodem :: int where "xyzModem_noZmodem \<equiv> - 2"
abbreviation (input) xyzModem_timeout :: int where "xyzModem_timeout \<equiv> - 3"
abbreviation (input) xyzModem_eof :: int where "xyzModem_eof \<equiv> - 4"
abbreviation (input) xyzModem_cancel :: int where "xyzModem_cancel \<equiv> - 5"
abbreviation (input) xyzModem_frame :: int where "xyzModem_frame \<equiv> - 6"
abbreviation (input) xyzModem_cksum :: int where "xyzModem_cksum \<equiv> - 7"
abbreviation (input) xyzModem_sequence :: int where "xyzModem_sequence \<equiv> - 8"

abbreviation (input) xyzModem_MAX_RETRIES :: nat where "xyzModem_MAX_RETRIES \<equiv> 20"
abbreviation (input) xyzModem_MAX_RETRIES_WITH_CRC :: int where "xyzModem_MAX_RETRIES_WITH_CRC \<equiv> 10"
abbreviation (input) xyzModem_CAN_COUNT :: nat where "xyzModem_CAN_COUNT \<equiv> 3"

subsection \<open>State\<close>

record xyz =
  xyz_chan :: int
  xyz_pkt :: bytes
  xyz_bufp :: nat
  xyz_blk :: u8
  xyz_cblk :: u8
  xyz_crc1 :: u8
  xyz_crc2 :: u8
  xyz_next_blk :: u8
  xyz_len :: int
  xyz_mode :: int
  xyz_total_retries :: nat
  xyz_total_SOH :: nat
  xyz_total_STX :: nat
  xyz_total_CAN :: nat
  xyz_crc_mode :: bool
  xyz_at_eof :: bool
  xyz_tx_ack :: bool
  uart :: uart

definition put :: "u8 \<Rightarrow> xyz \<Rightarrow> xyz" where
  "put c s = s\<lparr>uart := putChar c (uart s)\<rparr>"

text \<open>\<^verbatim>\<open>putChar(xyz.__chan, (xyz.crc_mode ? 'C' : NAK))\<close>, the request for a (re)transmission.\<close>

definition request :: "xyz \<Rightarrow> xyz" where
  "request s = put (if xyz_crc_mode s then char_C else NAK) s"

subsection \<open>Receiving one packet\<close>

datatype hdr_search = Header u8 | Return_stat int

partial_function (option) find_hdr :: "nat \<Rightarrow> nat \<Rightarrow> xyz \<Rightarrow> (hdr_search \<times> xyz) option" where
  "find_hdr can_total hdr_chars s =
     (case getCharTimeout (uart s) of
        (None, u) \<Rightarrow>
          (case xyzModem_flush u of
             None \<Rightarrow> None
           | Some u' \<Rightarrow> Some (Return_stat xyzModem_timeout, s\<lparr>uart := u'\<rparr>))
      | (Some c, u) \<Rightarrow>
          (if c = SOH then
             Some (Header c, s\<lparr>uart := u, xyz_total_SOH := xyz_total_SOH s + 1\<rparr>)
           else if c = STX then
             Some (Header c, s\<lparr>uart := u, xyz_total_STX := xyz_total_STX s + 1\<rparr>)
           else if c = CAN then
             (if can_total + 1 = xyzModem_CAN_COUNT
              then Some (Return_stat xyzModem_cancel,
                         s\<lparr>uart := u, xyz_total_CAN := xyz_total_CAN s + 1\<rparr>)
              else find_hdr (can_total + 1) (hdr_chars + 1)
                     (s\<lparr>uart := u, xyz_total_CAN := xyz_total_CAN s + 1\<rparr>))
           else if c = EOT \<and> hdr_chars + 1 = 1 then
             Some (Return_stat xyzModem_eof, put ACK (s\<lparr>uart := u\<rparr>))
           else find_hdr can_total (hdr_chars + 1) (s\<lparr>uart := u\<rparr>)))"

text \<open>The sum of the packet bytes, as an \<^verbatim>\<open>unsigned short\<close>.\<close>

definition pkt_sum :: "bytes \<Rightarrow> u16" where
  "pkt_sum bs = foldl (\<lambda>cksum b. cksum + ucast b) 0 bs"

text \<open>The validation at the end of \<^verbatim>\<open>xyzModem_get_hdr\<close>, after the packet has been read.\<close>

definition check_packet :: "(bytes \<Rightarrow> u16) \<Rightarrow> xyz \<Rightarrow> (int \<times> xyz) option" where
  "check_packet crc16 s =
     (if xyz_blk s XOR xyz_cblk s \<noteq> 0xFF then
        (case xyzModem_flush (uart s) of
           None \<Rightarrow> None
         | Some u \<Rightarrow> Some (xyzModem_frame, s\<lparr>uart := u\<rparr>))
      else
        (let data = take (nat (xyz_len s)) (xyz_pkt s)
         in if xyz_crc_mode s then
              (if crc16 data \<noteq> (push_bit 8 (ucast (xyz_crc1 s)) OR ucast (xyz_crc2 s))
               then Some (xyzModem_cksum, s) else Some (0, s))
            else
              (if ucast (xyz_crc1 s) \<noteq> pkt_sum data AND 0xFF
               then Some (xyzModem_cksum, s) else Some (0, s))))"

text \<open>
  Header found: block number, its complement, the data (\<open>read_packet\<close>), then one or two check
  bytes (\<open>read_check\<close>). A timeout leaves the fields read so far.
\<close>

definition read_check :: "(bytes \<Rightarrow> u16) \<Rightarrow> xyz \<Rightarrow> (int \<times> xyz) option" where
  "read_check crc16 s =
     (case getCharTimeout (uart s) of
        (None, u) \<Rightarrow> Some (xyzModem_timeout, s\<lparr>uart := u\<rparr>)
      | (Some k1, u1) \<Rightarrow>
          (let s1 = s\<lparr>xyz_crc1 := k1, uart := u1\<rparr>
           in if xyz_crc_mode s1 then
                (case getCharTimeout u1 of
                   (None, u) \<Rightarrow> Some (xyzModem_timeout, s1\<lparr>uart := u\<rparr>)
                 | (Some k2, u2) \<Rightarrow> check_packet crc16 (s1\<lparr>xyz_crc2 := k2, uart := u2\<rparr>))
              else check_packet crc16 s1))"

definition read_packet :: "(bytes \<Rightarrow> u16) \<Rightarrow> u8 \<Rightarrow> xyz \<Rightarrow> (int \<times> xyz) option" where
  "read_packet crc16 c s =
     (case getCharTimeout (uart s) of
        (None, u) \<Rightarrow> Some (xyzModem_timeout, s\<lparr>uart := u\<rparr>)
      | (Some b, u1) \<Rightarrow>
          (let s1 = s\<lparr>xyz_blk := b, uart := u1\<rparr>
           in case getCharTimeout u1 of
                (None, u) \<Rightarrow> Some (xyzModem_timeout, s1\<lparr>uart := u\<rparr>)
              | (Some b', u2) \<Rightarrow>
                  (let n = (if c = SOH then 128 else 1024);
                       (data, ok, u3) = get_bytes getCharTimeout n u2;
                       s2 = s1\<lparr>xyz_cblk := b', xyz_len := int n, xyz_bufp := 0,
                               xyz_pkt := data @ drop (length data) (xyz_pkt s1), uart := u3\<rparr>
                   in if ok then read_check crc16 s2 else Some (xyzModem_timeout, s2))))"

definition send_pending_ack :: "xyz \<Rightarrow> xyz" where
  "send_pending_ack s = (if xyz_tx_ack s then (put ACK s)\<lparr>xyz_tx_ack := False\<rparr> else s)"

definition xyzModem_get_hdr :: "(bytes \<Rightarrow> u16) \<Rightarrow> xyz \<Rightarrow> (int \<times> xyz) option" where
  "xyzModem_get_hdr crc16 s =
     (case find_hdr 0 0 (send_pending_ack s) of
        None \<Rightarrow> None
      | Some (Return_stat st, s') \<Rightarrow> Some (st, s')
      | Some (Header c, s') \<Rightarrow> read_packet crc16 c s')"

subsection \<open>Opening a transfer\<close>

text \<open>
  \<^verbatim>\<open>while (retries-- > 0)\<close>: the result is the return value, \<^verbatim>\<open>stat\<close> and the state.
\<close>

fun open_loop :: "(bytes \<Rightarrow> u16) \<Rightarrow> nat \<Rightarrow> int \<Rightarrow> int \<Rightarrow> xyz \<Rightarrow> (int \<times> int \<times> xyz) option" where
  "open_loop crc16 0 crc_retries stat s = Some (- 1, stat, s)"
| "open_loop crc16 (Suc retries) crc_retries stat0 s =
     (case xyzModem_get_hdr crc16 s of
        None \<Rightarrow> None
      | Some (stat, s1) \<Rightarrow>
          (if stat = 0 then
             Some (0, stat, (if xyz_blk s1 = 0 then s1\<lparr>xyz_tx_ack := True\<rparr> else s1)
                              \<lparr>xyz_next_blk := 1, xyz_len := 0\<rparr>)
           else if stat = xyzModem_timeout then
             (let s2 = (if crc_retries - 1 \<le> 0 then s1\<lparr>xyz_crc_mode := False\<rparr> else s1);
                  s3 = (request s2)\<lparr>xyz_total_retries := xyz_total_retries s2 + 1\<rparr>
              in open_loop crc16 retries (crc_retries - 1) stat s3)
           else if stat = xyzModem_cancel then Some (- 1, stat, s1)
           else open_loop crc16 retries crc_retries stat s1))"

text \<open>
  \<^verbatim>\<open>xyzModem_stream_open\<close>: \<open>chan\<close> is what opening the serial device returns; the result is
  the return value, \<^verbatim>\<open>*err\<close> (given its old value) and the state.
\<close>

definition xyzModem_stream_open ::
  "(bytes \<Rightarrow> u16) \<Rightarrow> int \<Rightarrow> int \<Rightarrow> int \<Rightarrow> xyz \<Rightarrow> (int \<times> int \<times> xyz) option" where
  "xyzModem_stream_open crc16 chan mode err s =
     (let s1 = s\<lparr>xyz_chan := chan\<rparr>
      in if chan < 0 then Some (chan, err, s1)
         else
           (let s2 = s1\<lparr>xyz_len := 0, xyz_crc_mode := True, xyz_at_eof := False,
                        xyz_tx_ack := False, xyz_mode := mode, xyz_total_retries := 0,
                        xyz_total_SOH := 0, xyz_total_STX := 0, xyz_total_CAN := 0\<rparr>;
                s3 = request s2
            in if mode = xyzModem_xmodem then Some (0, err, s3\<lparr>xyz_next_blk := 1\<rparr>)
               else
                 (case open_loop crc16 xyzModem_MAX_RETRIES xyzModem_MAX_RETRIES_WITH_CRC 0 s3 of
                    None \<Rightarrow> None
                  | Some (r, stat, s4) \<Rightarrow> Some (r, (if r = 0 then err else stat), s4))))"

subsection \<open>Reading the stream\<close>

fun strip_len :: "bytes \<Rightarrow> nat \<Rightarrow> nat" where
  "strip_len bs 0 = 0"
| "strip_len bs (Suc n) = (if bs ! n = CTRL_Z then strip_len bs n else Suc n)"

text \<open>Padding is removed only where the packet ends with three \<^verbatim>\<open>^Z\<close>.\<close>

definition strip_padding :: "xyz \<Rightarrow> xyz" where
  "strip_padding s =
     (let bs = drop (xyz_bufp s) (xyz_pkt s); n = nat (xyz_len s)
      in if bs ! (n - 1) = CTRL_Z \<and> bs ! (n - 2) = CTRL_Z \<and> bs ! (n - 3) = CTRL_Z
         then s\<lparr>xyz_len := int (strip_len bs n)\<rparr> else s)"

text \<open>The end of a Y-modem file: ask for the final header and acknowledge it.\<close>

definition read_final_header :: "(bytes \<Rightarrow> u16) \<Rightarrow> int \<Rightarrow> xyz \<Rightarrow> (int \<times> xyz) option" where
  "read_final_header crc16 stat s =
     (if xyz_mode s = xyzModem_ymodem then
        (case xyzModem_get_hdr crc16 ((request s)\<lparr>xyz_total_retries := xyz_total_retries s + 1\<rparr>) of
           None \<Rightarrow> None
         | Some (stat', s') \<Rightarrow> Some (stat', put ACK s'))
      else Some (stat, s))"

text \<open>The inner \<^verbatim>\<open>while (retries-- > 0)\<close> of \<^verbatim>\<open>xyzModem_stream_read\<close>.\<close>

fun next_block :: "(bytes \<Rightarrow> u16) \<Rightarrow> nat \<Rightarrow> int \<Rightarrow> xyz \<Rightarrow> (int \<times> xyz) option" where
  "next_block crc16 0 stat s = Some (stat, s)"
| "next_block crc16 (Suc retries) stat0 s =
     (case xyzModem_get_hdr crc16 s of
        None \<Rightarrow> None
      | Some (stat, s1) \<Rightarrow>
          (if stat = 0 \<and> xyz_blk s1 = xyz_next_blk s1 then
             Some (stat, strip_padding
                           (s1\<lparr>xyz_tx_ack := True, xyz_next_blk := xyz_next_blk s1 + 1\<rparr>))
           else if stat = 0 \<and> xyz_blk s1 = xyz_next_blk s1 - 1 then
             next_block crc16 retries stat (put ACK s1)
           else
             (let stat1 = (if stat = 0 then xyzModem_sequence else stat)
              in if stat1 = xyzModem_cancel then Some (stat1, s1)
                 else if stat1 = xyzModem_eof then
                   (case read_final_header crc16 stat1 (put ACK s1) of
                      None \<Rightarrow> None
                    | Some (stat2, s2) \<Rightarrow> Some (stat2, s2\<lparr>xyz_at_eof := True\<rparr>))
                 else next_block crc16 retries stat1
                        ((request s1)\<lparr>xyz_total_retries := xyz_total_retries s1 + 1\<rparr>))))"

datatype read_result = Read_bytes bytes int | Memcpy_overrun

partial_function (option) read_loop ::
  "(bytes \<Rightarrow> u16) \<Rightarrow> int \<Rightarrow> bytes \<Rightarrow> int \<Rightarrow> xyz \<Rightarrow> (read_result \<times> xyz) option" where
  "read_loop crc16 sz out err s =
     (if \<not> xyz_at_eof s \<and> sz > 0 then
        (case (if xyz_len s = 0 then next_block crc16 xyzModem_MAX_RETRIES xyzModem_cancel s
               else Some (0, s)) of
           None \<Rightarrow> None
         | Some (stat, s1) \<Rightarrow>
             (if stat < 0 then Some (Read_bytes out stat, s1\<lparr>xyz_len := - 1\<rparr>)
              else if \<not> xyz_at_eof s1 then
                (let n = (if sz < xyz_len s1 then sz else xyz_len s1)
                 in if n < 0 then Some (Memcpy_overrun, s1)
                    else read_loop crc16 (sz - n)
                           (out @ take (nat n) (drop (xyz_bufp s1) (xyz_pkt s1))) err
                           (s1\<lparr>xyz_len := xyz_len s1 - n, xyz_bufp := xyz_bufp s1 + nat n\<rparr>))
              else read_loop crc16 sz out err s1))
      else Some (Read_bytes out err, s))"

text \<open>
  \<^verbatim>\<open>xyzModem_stream_read\<close>: the bytes put into the caller's buffer (their number is the
  return value) and \<^verbatim>\<open>*err\<close>.
\<close>

definition xyzModem_stream_read ::
  "(bytes \<Rightarrow> u16) \<Rightarrow> int \<Rightarrow> int \<Rightarrow> xyz \<Rightarrow> (read_result \<times> xyz) option" where
  "xyzModem_stream_read crc16 sz err s = read_loop crc16 sz [] err s"

subsection \<open>Ending a transfer\<close>

definition xyzModem_stream_close :: "xyz \<Rightarrow> xyz" where
  "xyzModem_stream_close s = s"

text \<open>
  \<^verbatim>\<open>xyzModem_stream_terminate\<close>; \<open>getc\<close> is the caller's character source, \<open>None\<close> for a
  negative result.
\<close>

definition xyzModem_stream_terminate ::
  "bool \<Rightarrow> ('e \<Rightarrow> u8 option \<times> 'e) \<Rightarrow> 'e \<Rightarrow> xyz \<Rightarrow> ('e \<times> xyz) option" where
  "xyzModem_stream_terminate abort getc e s =
     (if abort then
        (if xyz_mode s = xyzModem_xmodem \<or> xyz_mode s = xyzModem_ymodem then
           (let s1 = fold put [CAN, CAN, CAN, CAN, BSP, BSP, BSP, BSP] s
            in case xyzModem_flush (uart s1) of
                 None \<Rightarrow> None
               | Some u \<Rightarrow> Some (e, s1\<lparr>uart := u, xyz_at_eof := True\<rparr>))
         else Some (e, s))
      else
        (case drain getc e of None \<Rightarrow> None | Some e' \<Rightarrow> Some (e', s)))"

definition xyzModem_error :: "int \<Rightarrow> string" where
  "xyzModem_error err =
     (if err = xyzModem_access then ''Can't access file''
      else if err = xyzModem_noZmodem then ''Sorry, zModem not available yet''
      else if err = xyzModem_timeout then ''Timed out''
      else if err = xyzModem_eof then ''End of file''
      else if err = xyzModem_cancel then ''Cancelled''
      else if err = xyzModem_frame then ''Invalid framing''
      else if err = xyzModem_cksum then ''CRC/checksum error''
      else if err = xyzModem_sequence then ''Block sequence error''
      else ''Unknown error'')"

end
