(* ===== verification/Xyz_Transfer.thy ===== *)
theory Xyz_Transfer
  imports Xyz_Correct
begin

text \<open>
  The receiver against a sender: what a sender puts on the line for a file, with a bounded
  number of mishaps (silence, damaged packets, repeated packets) before each packet, and the
  proof that the receiver delivers the data of the sender's packets, each stripped of what the
  receiver takes for padding (\<open>strip_block\<close>). \<open>padded_file\<close> says which padding of which
  files the receiver removes exactly: for these the file itself is delivered.

  The abstract side is the list of bytes still to be delivered (\<open>to_deliver\<close>); reading takes a
  prefix of it.
\<close>

unbundle bit_operations_syntax

subsection \<open>Packets\<close>

definition check_bytes :: "(bytes \<Rightarrow> u16) \<Rightarrow> bool \<Rightarrow> bytes \<Rightarrow> bytes" where
  "check_bytes crc16 crc_mode data =
     (if crc_mode then [ucast (drop_bit 8 (crc16 data)), ucast (crc16 data)]
      else [ucast (pkt_sum data)])"

text \<open>The header character decides the length.\<close>

definition packet_data :: "u8 \<Rightarrow> bytes \<Rightarrow> bool" where
  "packet_data h data \<longleftrightarrow> h = SOH \<and> length data = 128 \<or> h = STX \<and> length data = 1024"

definition packet :: "u8 \<Rightarrow> u8 \<Rightarrow> u8 \<Rightarrow> bytes \<Rightarrow> bytes \<Rightarrow> bytes" where
  "packet h blk cblk data chk = h # blk # cblk # data @ chk"

lemma word16_split:
  "(w::u16) = push_bit 8 (ucast (a::u8)) OR ucast (b::u8) \<longleftrightarrow> a = ucast (drop_bit 8 w) \<and> b = ucast w"
proof -
  have w: "bit w n \<Longrightarrow> n < 16" and a: "bit a n \<Longrightarrow> n < 8" and b: "bit b n \<Longrightarrow> n < 8" for n
    using bit_imp_le_length [of w n] bit_imp_le_length [of a n] bit_imp_le_length [of b n] by simp_all
  have e: "push_bit 8 (ucast (ucast (drop_bit 8 w) :: u8)) OR ucast (ucast w :: u8) = w"
    by (auto simp: bit_eq_iff bit_simps dest: w)
  have "a = ucast (drop_bit 8 (push_bit 8 (ucast a) OR ucast b :: u16))"
    "b = ucast (push_bit 8 (ucast a) OR ucast b :: u16)"
    by (auto simp: bit_eq_iff bit_simps dest: a b)
  with e show ?thesis by metis
qed

text \<open>What the receiver holds after a packet has come in.\<close>

definition received :: "xyz \<Rightarrow> u8 \<Rightarrow> u8 \<Rightarrow> bytes \<Rightarrow> u8 option list \<Rightarrow> xyz \<Rightarrow> bool" where
  "received s blk cblk data rest s' \<longleftrightarrow>
     xyz_ok s' \<and> same_session s s' \<and> xyz_tx_ack s' = xyz_tx_ack s \<and> xyz_blk s' = blk \<and>
     xyz_cblk s' = cblk \<and> xyz_len s' = int (length data) \<and> xyz_bufp s' = 0 \<and>
     take (length data) (xyz_pkt s') = data \<and> pending (uart s') = rest"

lemma read_packet_runs:
  assumes "xyz_ok s" "packet_data h data"
    and "pending (uart s) = map Some (blk # cblk # data) @ rest"
  obtains s' where "received s blk cblk data rest s'"
    "read_packet crc16 h s = read_check crc16 s'"
proof -
  have len: "uart_ok (uart s)" "length (xyz_pkt s) = 1024" using assms(1) by (auto simp: xyz_ok_def)
  obtain u1 where u1: "getCharTimeout (uart s) = (Some blk, u1)" "uart_ok u1"
      "pending u1 = map Some (cblk # data) @ rest"
    using assms(3) by (auto intro: line.getc_Some [OF len(1)])
  obtain u2 where u2: "getCharTimeout u1 = (Some cblk, u2)" "uart_ok u2"
      "pending u2 = map Some data @ rest"
    using u1(3) by (auto intro: line.getc_Some [OF u1(2)])
  obtain u3 where u3: "get_bytes getCharTimeout (length data) u2 = (data, True, u3)" "uart_ok u3"
      "pending u3 = rest"
    using line.get_bytes_all [OF u2(2,3)] by blast
  have n: "(if h = SOH then 128 else 1024) = length data" "length data \<le> 1024"
    using assms(2) by (auto simp: packet_data_def)
  show thesis
  proof (rule that)
    let ?s = "s\<lparr>xyz_blk := blk, xyz_cblk := cblk, xyz_len := int (length data), xyz_bufp := 0,
      xyz_pkt := data @ drop (length data) (xyz_pkt s), uart := u3\<rparr>"
    show "received s blk cblk data rest ?s"
      using u3 n len by (simp add: received_def state_defs)
    show "read_packet crc16 h s = read_check crc16 ?s"
      using n by (simp add: read_packet_def u1(1) u2(1) u3(1) Let_def)
  qed
qed

lemma read_check_bytes:
  assumes "received s blk cblk data (map Some chk @ rest) s1"
    and "length chk = (if xyz_crc_mode s then 2 else 1)"
  obtains s' where "received s blk cblk data rest s'" "read_check crc16 s1 = check_packet crc16 s'"
    "if xyz_crc_mode s then chk = [xyz_crc1 s', xyz_crc2 s'] else chk = [xyz_crc1 s']"
proof -
  obtain k1 ks where chk: "chk = k1 # ks" using assms(2) by (cases chk) (auto split: if_splits)
  have ok: "uart_ok (uart s1)" and m: "xyz_crc_mode s1 = xyz_crc_mode s"
    using assms(1) by (simp_all add: received_def state_defs)
  obtain u1 where u1: "getCharTimeout (uart s1) = (Some k1, u1)" "uart_ok u1"
      "pending u1 = map Some ks @ rest"
    using assms(1) chk by (auto simp: received_def intro: line.getc_Some [OF ok])
  show thesis
  proof (cases "xyz_crc_mode s")
    case True
    then obtain k2 where ks: "ks = [k2]" using assms(2) chk by (cases ks) auto
    obtain u2 where u2: "getCharTimeout u1 = (Some k2, u2)" "uart_ok u2" "pending u2 = rest"
      using u1(3) ks by (auto intro: line.getc_Some [OF u1(2)])
    show thesis
      using assms(1) u1 u2 m True chk ks
      by (intro that [of "s1\<lparr>xyz_crc1 := k1, xyz_crc2 := k2, uart := u2\<rparr>"])
         (simp_all add: received_def state_defs read_check_def)
  next
    case False
    then show thesis
      using assms u1 m chk
      by (intro that [of "s1\<lparr>xyz_crc1 := k1, uart := u1\<rparr>"])
         (simp_all add: received_def state_defs read_check_def)
  qed
qed

lemma check_packet_runs:
  assumes "received s blk (NOT blk) data rest s1"
    and "if xyz_crc_mode s then chk = [xyz_crc1 s1, xyz_crc2 s1] else chk = [xyz_crc1 s1]"
  shows "check_packet crc16 s1 =
    Some (if chk = check_bytes crc16 (xyz_crc_mode s) data then 0 else xyzModem_cksum, s1)"
  using assms
  by (auto simp: check_packet_def received_def same_session_def xor_ff_complement check_bytes_def
      word16_split low_byte_eq split: if_splits)

lemma check_packet_misframed:
  assumes "received s blk cblk data (None # rest) s1" "cblk \<noteq> NOT blk"
  obtains s' where "check_packet crc16 s1 = Some (xyzModem_frame, s')"
    "received s blk cblk data rest s'"
proof -
  have ok: "uart_ok (uart s1)" "pending (uart s1) = None # rest"
    using assms(1) by (simp_all add: received_def xyz_ok_def)
  obtain u where "xyzModem_flush (uart s1) = Some u" "uart_ok u" "pending u = rest"
    using line.drain_ends [OF ok(1)] ok(2) by (auto simp: xyzModem_flush_def)
  with assms show thesis
    by (intro that [of "s1\<lparr>uart := u\<rparr>"])
       (auto simp: check_packet_def received_def state_defs xor_ff_complement)
qed

text \<open>The search for the header, on a line that begins with it.\<close>

lemma find_hdr_here:
  assumes "xyz_ok s" "pending (uart s) = Some h # rest" "h = SOH \<or> h = STX"
  obtains s' where "find_hdr 0 0 (send_pending_ack s) = Some (Header h, s')"
    "xyz_ok s'" "same_session s s'" "\<not> xyz_tx_ack s'" "pending (uart s') = rest"
proof -
  let ?s = "send_pending_ack s"
  have ok: "uart_ok (uart ?s)" "xyz_ok ?s" "same_session s ?s" "pending (uart ?s) = Some h # rest"
      "\<not> xyz_tx_ack ?s"
    using assms(1,2) by (auto simp: send_pending_ack_def state_defs put_def)
  obtain u where u: "getCharTimeout (uart ?s) = (Some h, u)" "uart_ok u" "pending u = rest"
    using line.getc_Some [OF ok(1,4)] by blast
  have "find_hdr 0 0 ?s = Some (Header h, if h = SOH
      then ?s\<lparr>uart := u, xyz_total_SOH := xyz_total_SOH ?s + 1\<rparr>
      else ?s\<lparr>uart := u, xyz_total_STX := xyz_total_STX ?s + 1\<rparr>)"
    using assms(3) u(1) by (subst find_hdr.simps) auto
  with ok u show thesis
    by (elim that) (auto simp: state_defs)
qed

text \<open>
  A packet whose block number and complement agree: it is taken off the line exactly, and
  accepted if and only if its check bytes are those of its data.
\<close>

lemma get_hdr_runs:
  assumes "xyz_ok s" "packet_data h data" "length chk = (if xyz_crc_mode s then 2 else 1)"
    and "pending (uart s) = map Some (packet h blk (NOT blk) data chk) @ rest"
  obtains s' where "received (s\<lparr>xyz_tx_ack := False\<rparr>) blk (NOT blk) data rest s'"
    "xyzModem_get_hdr crc16 s =
       Some (if chk = check_bytes crc16 (xyz_crc_mode s) data then 0 else xyzModem_cksum, s')"
proof -
  obtain s1 where s1: "find_hdr 0 0 (send_pending_ack s) = Some (Header h, s1)"
    "xyz_ok s1" "same_session s s1" "\<not> xyz_tx_ack s1"
    "pending (uart s1) = map Some (blk # NOT blk # data @ chk) @ rest"
    using assms by (auto simp: packet_def packet_data_def intro: find_hdr_here)
  obtain s2 where s2: "received s1 blk (NOT blk) data (map Some chk @ rest) s2"
    "read_packet crc16 h s1 = read_check crc16 s2"
    using read_packet_runs [OF s1(2) assms(2), of blk "NOT blk" "map Some chk @ rest"] s1(5) by auto
  obtain s3 where s3: "received s1 blk (NOT blk) data rest s3"
    "read_check crc16 s2 =
       Some (if chk = check_bytes crc16 (xyz_crc_mode s1) data then 0 else xyzModem_cksum, s3)"
  proof (rule read_check_bytes [OF s2(1)])
    show "length chk = (if xyz_crc_mode s1 then 2 else 1)" using assms(3) s1(3) by (simp add: same_session_def)
  qed (simp add: check_packet_runs)
  show thesis
    using s1 s2 s3 by (intro that [of s3]) (auto simp: xyzModem_get_hdr_def received_def same_session_def)
qed

subsection \<open>Mishaps on the line\<close>

text \<open>
  What may come before a packet: the line is silent for two timeouts (the receiver times out,
  then drains the line), a packet has wrong check bytes, a packet's complement is wrong (the
  receiver drains the line, so silence must follow), or an intact packet has another number than
  the expected one \<open>nb\<close> (a repetition of the last packet among them).
\<close>

inductive mishap :: "(bytes \<Rightarrow> u16) \<Rightarrow> bool \<Rightarrow> u8 \<Rightarrow> u8 option list \<Rightarrow> bool"
  for crc16 :: "bytes \<Rightarrow> u16" and m :: bool and nb :: u8 where
  quiet: "mishap crc16 m nb [None, None]"
| damaged: "packet_data h data \<Longrightarrow> length chk = (if m then 2 else 1) \<Longrightarrow> chk \<noteq> check_bytes crc16 m data \<Longrightarrow>
    mishap crc16 m nb (map Some (packet h blk (NOT blk) data chk))"
| misframed: "packet_data h data \<Longrightarrow> length chk = (if m then 2 else 1) \<Longrightarrow> cblk \<noteq> NOT blk \<Longrightarrow>
    mishap crc16 m nb (map Some (packet h blk cblk data chk) @ [None])"
| stray: "packet_data h data \<Longrightarrow> blk \<noteq> nb \<Longrightarrow>
    mishap crc16 m nb (map Some (packet h blk (NOT blk) data (check_bytes crc16 m data)))"

lemma length_check_bytes [simp]: "length (check_bytes crc16 m data) = (if m then 2 else 1)"
  by (simp add: check_bytes_def)

lemma get_hdr_quiet:
  assumes "xyz_ok s" "pending (uart s) = None # None # rest"
  obtains s' where "xyzModem_get_hdr crc16 s = Some (xyzModem_timeout, s')"
    "xyz_ok s'" "same_session s s'" "pending (uart s') = rest"
proof -
  let ?s = "send_pending_ack s"
  have ok: "uart_ok (uart ?s)" "xyz_ok ?s" "same_session s ?s" "pending (uart ?s) = None # None # rest"
    using assms by (auto simp: send_pending_ack_def state_defs put_def)
  obtain u where u: "getCharTimeout (uart ?s) = (None, u)" "uart_ok u" "pending u = None # rest"
    using line.getc_timeout [OF ok(1)] ok(4) by auto
  obtain u' where u': "xyzModem_flush u = Some u'" "uart_ok u'" "pending u' = rest"
    using line.drain_ends [OF u(2)] u(3) by (auto simp: xyzModem_flush_def)
  have "find_hdr 0 0 ?s = Some (Return_stat xyzModem_timeout, ?s\<lparr>uart := u'\<rparr>)"
    using u(1) u'(1) by (subst find_hdr.simps) simp
  with ok u' show thesis
    by (intro that [of "?s\<lparr>uart := u'\<rparr>"]) (auto simp: xyzModem_get_hdr_def state_defs)
qed

lemma get_hdr_misframed:
  assumes "xyz_ok s" "packet_data h data" "length chk = (if xyz_crc_mode s then 2 else 1)" "cblk \<noteq> NOT blk"
    and "pending (uart s) = map Some (packet h blk cblk data chk) @ None # rest"
  obtains s' where "xyzModem_get_hdr crc16 s = Some (xyzModem_frame, s')"
    "xyz_ok s'" "same_session s s'" "pending (uart s') = rest"
proof -
  obtain s1 where s1: "find_hdr 0 0 (send_pending_ack s) = Some (Header h, s1)"
    "xyz_ok s1" "same_session s s1"
    "pending (uart s1) = map Some (blk # cblk # data @ chk) @ None # rest"
    using assms by (auto simp: packet_def packet_data_def intro: find_hdr_here)
  obtain s2 where s2: "received s1 blk cblk data (map Some chk @ None # rest) s2"
    "read_packet crc16 h s1 = read_check crc16 s2"
    using read_packet_runs [OF s1(2) assms(2), of blk cblk "map Some chk @ None # rest"] s1(4) by auto
  obtain s3 where s3: "received s1 blk cblk data (None # rest) s3"
    "read_check crc16 s2 = check_packet crc16 s3"
    using read_check_bytes [OF s2(1), of crc16] assms(3) s1(3) by (auto simp: same_session_def)
  obtain s4 where s4: "check_packet crc16 s3 = Some (xyzModem_frame, s4)"
    "received s1 blk cblk data rest s4"
    using check_packet_misframed [OF s3(1) assms(4)] by blast
  show thesis
    using s1 s2 s3 s4 by (intro that [of s4]) (auto simp: xyzModem_get_hdr_def received_def same_session_def)
qed

text \<open>Each mishap costs one of the retries and is taken off the line.\<close>

lemma next_block_mishap:
  assumes "mishap crc16 (xyz_crc_mode s) (xyz_next_blk s) items"
    and "xyz_ok s" "pending (uart s) = items @ rest"
  obtains stat' s' where "next_block crc16 (Suc n) stat s = next_block crc16 n stat' s'"
    "xyz_ok s'" "same_session s s'" "pending (uart s') = rest"
proof -
  note result = that
  have retry: thesis
    if "xyzModem_get_hdr crc16 s = Some (st, s1)" "st \<noteq> xyzModem_cancel" "st \<noteq> xyzModem_eof"
      "st = 0 \<longrightarrow> xyz_blk s1 \<noteq> xyz_next_blk s1" "xyz_ok s1" "same_session s s1"
      "pending (uart s1) = rest" for st s1
  proof (cases "st = 0 \<and> xyz_blk s1 = xyz_next_blk s1 - 1")
    case True
    with that assms show thesis
      by (intro result [of 0 "put ACK s1"]) (auto simp: same_session_def)
  next
    case False
    with that show thesis
      by (intro result [of "if st = 0 then xyzModem_sequence else st"
            "(request s1)\<lparr>xyz_total_retries := xyz_total_retries s1 + 1\<rparr>"])
         (auto simp: same_session_def Let_def)
  qed
  from assms(1) show thesis
  proof cases
    case quiet
    then obtain s1 where "xyzModem_get_hdr crc16 s = Some (xyzModem_timeout, s1)"
      "xyz_ok s1" "same_session s s1" "pending (uart s1) = rest"
      using get_hdr_quiet [OF assms(2), of rest crc16] assms(3) by auto
    then show thesis by (intro retry [of "xyzModem_timeout" s1]) auto
  next
    case (damaged h data chk blk)
    then obtain s1 where "received (s\<lparr>xyz_tx_ack := False\<rparr>) blk (NOT blk) data rest s1"
      "xyzModem_get_hdr crc16 s = Some (xyzModem_cksum, s1)"
      using get_hdr_runs [OF assms(2), of h data chk blk rest crc16] assms(3) by auto
    then show thesis by (intro retry [of "xyzModem_cksum" s1]) (auto simp: received_def same_session_def)
  next
    case (misframed h data chk cblk blk)
    then obtain s1 where "xyzModem_get_hdr crc16 s = Some (xyzModem_frame, s1)"
      "xyz_ok s1" "same_session s s1" "pending (uart s1) = rest"
      using get_hdr_misframed [OF assms(2), of h data chk cblk blk rest crc16] assms(3) by auto
    then show thesis by (intro retry [of "xyzModem_frame" s1]) auto
  next
    case (stray h data blk)
    then obtain s1 where "received (s\<lparr>xyz_tx_ack := False\<rparr>) blk (NOT blk) data rest s1"
      "xyzModem_get_hdr crc16 s = Some (0, s1)"
      using get_hdr_runs [OF assms(2), of h data "check_bytes crc16 (xyz_crc_mode s) data" blk rest crc16]
        assms(3) by auto
    with stray show thesis by (intro retry [of "0" s1]) (auto simp: received_def same_session_def)
  qed
qed

lemma next_block_mishaps:
  assumes "\<forall>items \<in> set ms. mishap crc16 (xyz_crc_mode s) (xyz_next_blk s) items"
    and "xyz_ok s" "pending (uart s) = concat ms @ rest"
  obtains stat' s' where "next_block crc16 (length ms + n) stat s = next_block crc16 n stat' s'"
    "xyz_ok s'" "same_session s s'" "pending (uart s') = rest"
  using assms
proof (induction ms arbitrary: s stat thesis)
  case Nil
  then show ?case by simp
next
  case (Cons items ms)
  obtain stat1 s1 where s1: "next_block crc16 (Suc (length ms + n)) stat s = next_block crc16 (length ms + n) stat1 s1"
    "xyz_ok s1" "same_session s s1" "pending (uart s1) = concat ms @ rest"
    using next_block_mishap [of crc16 s items "concat ms @ rest" "length ms + n" stat] Cons.prems by auto
  obtain stat' s' where "next_block crc16 (length ms + n) stat1 s1 = next_block crc16 n stat' s'"
    "xyz_ok s'" "same_session s1 s'" "pending (uart s') = rest"
    using Cons.IH [where s = s1 and stat = stat1] Cons.prems(2) s1 by (auto simp: same_session_def)
  then show ?case
    using s1 by (intro Cons.prems(1) [of stat' s']) (auto intro: same_session_trans)
qed

subsection \<open>One block, and the end of the file\<close>

text \<open>
  What a data packet contributes to the file: where it ends with three \<^verbatim>\<open>^Z\<close>, all of the
  trailing \<^verbatim>\<open>^Z\<close> are taken as padding.
\<close>

definition strip_block :: "bytes \<Rightarrow> bytes" where
  "strip_block d =
     (if drop (length d - 3) d = [CTRL_Z, CTRL_Z, CTRL_Z]
      then rev (dropWhile (\<lambda>b. b = CTRL_Z) (rev d)) else d)"

text \<open>
  A file and the data of its packets. The last packet may be filled up with \<^verbatim>\<open>^Z\<close>. The
  receiver cannot tell padding from data: a packet of the file's own bytes must not end with three
  \<^verbatim>\<open>^Z\<close> (they would be cut off), the padding must have at least three bytes (one or two are
  kept), and the byte before the padding must not be \<^verbatim>\<open>^Z\<close>.
\<close>

definition full_block :: "bytes \<Rightarrow> bool" where
  "full_block d \<longleftrightarrow> drop (length d - 3) d \<noteq> [CTRL_Z, CTRL_Z, CTRL_Z]"

inductive padded_file :: "bytes \<Rightarrow> bytes list \<Rightarrow> bool" where
  unpadded: "\<forall>b \<in> set blocks. full_block b \<Longrightarrow> padded_file (concat blocks) blocks"
| padded: "\<forall>b \<in> set full. full_block b \<Longrightarrow> 3 \<le> n \<Longrightarrow> d = [] \<or> last d \<noteq> CTRL_Z \<Longrightarrow>
    padded_file (concat full @ d) (full @ [d @ replicate n CTRL_Z])"

lemma strip_full_block: "full_block b \<Longrightarrow> strip_block b = b"
  by (simp add: strip_block_def full_block_def)

lemma strip_padded_block:
  assumes "3 \<le> n" "d = [] \<or> last d \<noteq> CTRL_Z"
  shows "strip_block (d @ replicate n CTRL_Z) = d"
proof -
  have "dropWhile (\<lambda>b. b = CTRL_Z) (rev d) = rev d"
    using assms(2) by (cases d rule: rev_cases) auto
  then have "dropWhile (\<lambda>b. b = CTRL_Z) (replicate n CTRL_Z @ rev d) = rev d"
    by (induction n) auto
  moreover have "replicate 3 CTRL_Z = [CTRL_Z, CTRL_Z, CTRL_Z]" by (simp add: numeral_3_eq_3)
  ultimately show ?thesis using assms(1) by (simp add: strip_block_def)
qed

lemma padded_file_delivered:
  "padded_file contents blocks \<Longrightarrow> concat (map strip_block blocks) = contents"
proof (induction rule: padded_file.induct)
  case (unpadded blocks)
  then have "map strip_block blocks = blocks" by (simp add: map_idI strip_full_block)
  then show ?case by simp
next
  case (padded full n d)
  then have "map strip_block full = full" by (simp add: map_idI strip_full_block)
  then show ?case using strip_padded_block [OF padded(2,3)] by simp
qed

lemma take_strip_len:
  "n \<le> length bs \<Longrightarrow> take (strip_len bs n) bs = rev (dropWhile (\<lambda>b. b = CTRL_Z) (rev (take n bs)))"
  by (induction n) (auto simp: take_Suc_conv_app_nth)

lemma last_three:
  assumes "3 \<le> length d"
  shows "drop (length d - 3) d = [x, y, z] \<longleftrightarrow>
    d ! (length d - 1) = z \<and> d ! (length d - 2) = y \<and> d ! (length d - 3) = x"
proof -
  obtain n where n: "length d = n + 3" using assms by (metis add.commute le_Suc_ex)
  then have "drop n d = [d ! n, d ! Suc n, d ! Suc (Suc n)]"
    by (simp add: Cons_nth_drop_Suc [symmetric] numeral_3_eq_3)
  with n show ?thesis by (auto simp: numeral_3_eq_3)
qed

lemma strip_padding_block:
  assumes "xyz_bufp s = 0" "xyz_len s = int (length d)" "take (length d) (xyz_pkt s) = d"
    "3 \<le> length d" "length d \<le> length (xyz_pkt s)"
  shows "take (nat (xyz_len (strip_padding s))) (xyz_pkt s) = strip_block d"
proof -
  have nth: "xyz_pkt s ! i = d ! i" if "i < length d" for i
    using that assms(3) by (metis nth_take)
  have "take (strip_len (xyz_pkt s) (length d)) (xyz_pkt s) = rev (dropWhile (\<lambda>b. b = CTRL_Z) (rev d))"
    using take_strip_len [of "length d" "xyz_pkt s"] assms(3,5) by simp
  moreover have "length d - 1 < length d" "length d - 2 < length d" "length d - 3 < length d"
    using assms(4) by auto
  ultimately show ?thesis
    using assms(1,2,3) by (auto simp: strip_padding_def strip_block_def last_three [OF assms(4)] nth Let_def)
qed

lemma next_block_good:
  assumes "xyz_ok s" "packet_data h data"
    and "pending (uart s) = map Some (packet h (xyz_next_blk s) (NOT (xyz_next_blk s)) data
           (check_bytes crc16 (xyz_crc_mode s) data)) @ rest"
  obtains s' where "next_block crc16 (Suc n) stat s = Some (0, s')"
    "xyz_ok s'" "same_session (s\<lparr>xyz_next_blk := xyz_next_blk s + 1\<rparr>) s'" "pending (uart s') = rest"
    "packet_held s'" "take (nat (xyz_len s')) (drop (xyz_bufp s') (xyz_pkt s')) = strip_block data"
proof -
  have len: "3 \<le> length data" "length data \<le> 1024"
    using assms(2) by (auto simp: packet_data_def)
  obtain s1 where s1: "received (s\<lparr>xyz_tx_ack := False\<rparr>) (xyz_next_blk s) (NOT (xyz_next_blk s)) data rest s1"
    "xyzModem_get_hdr crc16 s = Some (0, s1)"
    using get_hdr_runs [OF assms(1,2), of "check_bytes crc16 (xyz_crc_mode s) data" _ rest crc16] assms(3)
    by auto
  let ?s = "s1\<lparr>xyz_tx_ack := True, xyz_next_blk := xyz_next_blk s1 + 1\<rparr>"
  have r: "xyz_ok ?s" "xyz_bufp ?s = 0" "xyz_len ?s = int (length data)"
      "take (length data) (xyz_pkt ?s) = data" "length data \<le> length (xyz_pkt ?s)"
    using s1(1) len by (simp_all add: received_def xyz_ok_def)
  show thesis
  proof (rule that)
    show "next_block crc16 (Suc n) stat s = Some (0, strip_padding ?s)"
      using s1 by (auto simp: received_def same_session_def)
    show "packet_held (strip_padding ?s)"
      using strip_padding_len [of ?s] r len by (simp add: packet_held_def)
    show "take (nat (xyz_len (strip_padding ?s))) (drop (xyz_bufp (strip_padding ?s))
        (xyz_pkt (strip_padding ?s))) = strip_block data"
      using strip_padding_block [OF r(2-4) len(1) r(5)] r by simp
  qed (use s1 r in \<open>auto simp: received_def same_session_def\<close>)
qed

text \<open>The end of the file: \<^verbatim>\<open>EOT\<close>, then a last header packet.\<close>

definition end_of_file :: "(bytes \<Rightarrow> u16) \<Rightarrow> bool \<Rightarrow> u8 \<Rightarrow> u8 \<Rightarrow> bytes \<Rightarrow> u8 option list" where
  "end_of_file crc16 m h blk data =
     map Some (EOT # packet h blk (NOT blk) data (check_bytes crc16 m data))"

lemma get_hdr_eot:
  assumes "xyz_ok s" "pending (uart s) = Some EOT # rest"
  obtains s' where "xyzModem_get_hdr crc16 s = Some (xyzModem_eof, s')"
    "xyz_ok s'" "same_session s s'" "pending (uart s') = rest"
proof -
  let ?s = "send_pending_ack s"
  have ok: "uart_ok (uart ?s)" "xyz_ok ?s" "same_session s ?s" "pending (uart ?s) = Some EOT # rest"
    using assms by (auto simp: send_pending_ack_def state_defs put_def)
  obtain u where u: "getCharTimeout (uart ?s) = (Some EOT, u)" "uart_ok u" "pending u = rest"
    using line.getc_Some [OF ok(1,4)] by blast
  have "find_hdr 0 0 ?s = Some (Return_stat xyzModem_eof, put ACK (?s\<lparr>uart := u\<rparr>))"
    using u(1) by (subst find_hdr.simps) simp
  with ok u show thesis
    by (intro that [of "put ACK (?s\<lparr>uart := u\<rparr>)"]) (auto simp: xyzModem_get_hdr_def state_defs put_def)
qed

lemma next_block_eof:
  assumes "xyz_ok s" "packet_data h data" "xyz_mode s = xyzModem_ymodem"
    and "pending (uart s) = end_of_file crc16 (xyz_crc_mode s) h blk data @ rest"
  obtains s' where "next_block crc16 (Suc n) stat s = Some (0, s')" "xyz_ok s'" "xyz_at_eof s'"
    "xyz_mode s' = xyzModem_ymodem" "pending (uart s') = rest"
proof -
  obtain s1 where s1: "xyzModem_get_hdr crc16 s = Some (xyzModem_eof, s1)" "xyz_ok s1" "same_session s s1"
    "pending (uart s1) = map Some (packet h blk (NOT blk) data (check_bytes crc16 (xyz_crc_mode s) data)) @ rest"
    using get_hdr_eot [OF assms(1)] assms(4) by (auto simp: end_of_file_def)
  let ?s2 = "(request (put ACK s1))\<lparr>xyz_total_retries := xyz_total_retries s1 + 1\<rparr>"
  have s2: "xyz_ok ?s2" "xyz_mode s1 = xyzModem_ymodem" "xyz_crc_mode ?s2 = xyz_crc_mode s"
      "pending (uart ?s2) = pending (uart s1)" "xyz_total_retries (put ACK s1) = xyz_total_retries s1"
    using s1 assms(3) by (auto simp: same_session_def)
  obtain s3 where s3: "received (?s2\<lparr>xyz_tx_ack := False\<rparr>) blk (NOT blk) data rest s3"
    "xyzModem_get_hdr crc16 ?s2 = Some (0, s3)"
    using get_hdr_runs [OF s2(1) assms(2), of "check_bytes crc16 (xyz_crc_mode s) data" blk rest crc16]
      s1(4) s2 by auto
  show thesis
  proof (rule that)
    show "next_block crc16 (Suc n) stat s = Some (0, (put ACK s3)\<lparr>xyz_at_eof := True\<rparr>)"
      using s1(1) s2 s3 by (simp add: read_final_header_def)
  qed (use s2 s3 in \<open>auto simp: received_def same_session_def\<close>)
qed

subsection \<open>A whole transfer\<close>

text \<open>
  \<open>transfer crc16 m nb blocks items\<close>: \<open>items\<close> is what a sender puts on the line for the data
  packets \<open>blocks\<close>, numbered from \<open>nb\<close> (modulo 256), with fewer than
  \<^verbatim>\<open>xyzModem_MAX_RETRIES\<close> mishaps before each packet and before the end of the file.
\<close>

inductive transfer :: "(bytes \<Rightarrow> u16) \<Rightarrow> bool \<Rightarrow> u8 \<Rightarrow> bytes list \<Rightarrow> u8 option list \<Rightarrow> bool"
  for crc16 :: "bytes \<Rightarrow> u16" and m :: bool where
  finish: "length ms < xyzModem_MAX_RETRIES \<Longrightarrow> \<forall>i \<in> set ms. mishap crc16 m nb i \<Longrightarrow> packet_data h data \<Longrightarrow>
    transfer crc16 m nb [] (concat ms @ end_of_file crc16 m h blk data @ rest)"
| block: "length ms < xyzModem_MAX_RETRIES \<Longrightarrow> \<forall>i \<in> set ms. mishap crc16 m nb i \<Longrightarrow> packet_data h data \<Longrightarrow>
    transfer crc16 m (nb + 1) blocks items \<Longrightarrow>
    transfer crc16 m nb (data # blocks)
      (concat ms @ map Some (packet h nb (NOT nb) data (check_bytes crc16 m data)) @ items)"

inductive_cases transfer_NilE: "transfer crc16 m nb [] items"
inductive_cases transfer_ConsE: "transfer crc16 m nb (data # blocks) items"

text \<open>
  The abstraction: the bytes the receiver has still to deliver, from the packet in the buffer
  and from the packets to come.
\<close>

inductive to_deliver :: "(bytes \<Rightarrow> u16) \<Rightarrow> xyz \<Rightarrow> bytes \<Rightarrow> bool" for crc16 :: "bytes \<Rightarrow> u16" where
  at_end: "xyz_ok s \<Longrightarrow> xyz_at_eof s \<Longrightarrow> to_deliver crc16 s []"
| running: "xyz_ok s \<Longrightarrow> \<not> xyz_at_eof s \<Longrightarrow> xyz_mode s = xyzModem_ymodem \<Longrightarrow> packet_held s \<Longrightarrow>
    transfer crc16 (xyz_crc_mode s) (xyz_next_blk s) blocks (pending (uart s)) \<Longrightarrow>
    to_deliver crc16 s (take (nat (xyz_len s)) (drop (xyz_bufp s) (xyz_pkt s)) @
                        concat (map strip_block blocks))"

lemma retries_split: "length ms < xyzModem_MAX_RETRIES \<Longrightarrow> \<exists>n. xyzModem_MAX_RETRIES = length ms + Suc n"
  using less_iff_Suc_add by auto

lemma next_block_transfer_Nil:
  assumes "xyz_ok s" "xyz_mode s = xyzModem_ymodem"
    and "transfer crc16 (xyz_crc_mode s) (xyz_next_blk s) [] (pending (uart s))"
  obtains s' where "next_block crc16 xyzModem_MAX_RETRIES stat s = Some (0, s')" "xyz_ok s'" "xyz_at_eof s'"
proof -
  from assms(3) obtain ms h data blk rest where ms: "length ms < xyzModem_MAX_RETRIES"
    "\<forall>i \<in> set ms. mishap crc16 (xyz_crc_mode s) (xyz_next_blk s) i" "packet_data h data"
    "pending (uart s) = concat ms @ end_of_file crc16 (xyz_crc_mode s) h blk data @ rest"
    by (auto elim: transfer_NilE)
  then obtain n where n: "xyzModem_MAX_RETRIES = length ms + Suc n" using retries_split by blast
  obtain stat1 s1 where s1: "next_block crc16 (length ms + Suc n) stat s = next_block crc16 (Suc n) stat1 s1"
    "xyz_ok s1" "same_session s s1"
    "pending (uart s1) = end_of_file crc16 (xyz_crc_mode s) h blk data @ rest"
    using next_block_mishaps [OF ms(2) assms(1) ms(4), of "Suc n" stat] by blast
  obtain s' where "next_block crc16 (Suc n) stat1 s1 = Some (0, s')" "xyz_ok s'" "xyz_at_eof s'"
    using next_block_eof [OF s1(2) ms(3), of crc16 blk rest n stat1] s1(3,4) assms(2)
    by (auto simp: same_session_def)
  note s' = this
  have "next_block crc16 xyzModem_MAX_RETRIES stat s = Some (0, s')"
    unfolding n s1(1) by (rule s'(1))
  then show thesis using s'(2,3) by (rule that)
qed

lemma next_block_transfer_Cons:
  assumes "xyz_ok s" "xyz_mode s = xyzModem_ymodem"
    and "transfer crc16 (xyz_crc_mode s) (xyz_next_blk s) (data # blocks) (pending (uart s))"
  obtains s' where "next_block crc16 xyzModem_MAX_RETRIES stat s = Some (0, s')"
    "xyz_ok s'" "xyz_at_eof s' = xyz_at_eof s" "xyz_mode s' = xyzModem_ymodem" "packet_held s'"
    "transfer crc16 (xyz_crc_mode s') (xyz_next_blk s') blocks (pending (uart s'))"
    "take (nat (xyz_len s')) (drop (xyz_bufp s') (xyz_pkt s')) = strip_block data"
proof -
  from assms(3) obtain ms h items where ms: "length ms < xyzModem_MAX_RETRIES"
    "\<forall>i \<in> set ms. mishap crc16 (xyz_crc_mode s) (xyz_next_blk s) i" "packet_data h data"
    "pending (uart s) = concat ms @ map Some (packet h (xyz_next_blk s) (NOT (xyz_next_blk s)) data
       (check_bytes crc16 (xyz_crc_mode s) data)) @ items"
    "transfer crc16 (xyz_crc_mode s) (xyz_next_blk s + 1) blocks items"
    by (auto elim: transfer_ConsE)
  then obtain n where n: "xyzModem_MAX_RETRIES = length ms + Suc n" using retries_split by blast
  obtain stat1 s1 where s1: "next_block crc16 (length ms + Suc n) stat s = next_block crc16 (Suc n) stat1 s1"
    "xyz_ok s1" "same_session s s1"
    "pending (uart s1) = map Some (packet h (xyz_next_blk s) (NOT (xyz_next_blk s)) data
       (check_bytes crc16 (xyz_crc_mode s) data)) @ items"
    using next_block_mishaps [OF ms(2) assms(1) ms(4), of "Suc n" stat] by blast
  obtain s' where s': "next_block crc16 (Suc n) stat1 s1 = Some (0, s')"
    "xyz_ok s'" "same_session (s1\<lparr>xyz_next_blk := xyz_next_blk s1 + 1\<rparr>) s'" "pending (uart s') = items"
    "packet_held s'" "take (nat (xyz_len s')) (drop (xyz_bufp s') (xyz_pkt s')) = strip_block data"
    using next_block_good [OF s1(2) ms(3), of crc16 items n stat1] s1(3,4) by (auto simp: same_session_def)
  have "next_block crc16 xyzModem_MAX_RETRIES stat s = Some (0, s')"
    unfolding n s1(1) by (rule s'(1))
  then show thesis
    using s1(3) s'(2-) ms(5) assms(2) by (intro that [of s']) (simp_all add: same_session_def)
qed

text \<open>
  Reading is taking a prefix of what is to be delivered, whatever the size of the caller's
  buffer, and leaves the rest to be delivered.
\<close>

inductive_cases to_deliverE: "to_deliver crc16 s todo"

abbreviation (input) held_bytes :: "xyz \<Rightarrow> bytes" where
  "held_bytes s \<equiv> take (nat (xyz_len s)) (drop (xyz_bufp s) (xyz_pkt s))"

text \<open>The part of one iteration of \<^verbatim>\<open>xyzModem_stream_read\<close> that fetches the next block.\<close>

lemma fetch_block:
  assumes "xyz_ok s" "\<not> xyz_at_eof s" "xyz_mode s = xyzModem_ymodem" "packet_held s"
    and "transfer crc16 (xyz_crc_mode s) (xyz_next_blk s) blocks (pending (uart s))"
  obtains (ended) s1 where "xyz_len s = 0" "blocks = []" "xyz_ok s1" "xyz_at_eof s1"
      "next_block crc16 xyzModem_MAX_RETRIES xyzModem_cancel s = Some (0, s1)"
  | (more) s1 blocks1 where
      "(if xyz_len s = 0 then next_block crc16 xyzModem_MAX_RETRIES xyzModem_cancel s else Some (0, s)) = Some (0, s1)"
      "xyz_ok s1" "\<not> xyz_at_eof s1" "xyz_mode s1 = xyzModem_ymodem" "packet_held s1"
      "transfer crc16 (xyz_crc_mode s1) (xyz_next_blk s1) blocks1 (pending (uart s1))"
      "held_bytes s1 @ concat (map strip_block blocks1) = held_bytes s @ concat (map strip_block blocks)"
      "length blocks1 < length blocks \<or> blocks1 = blocks \<and> xyz_len s1 \<noteq> 0"
proof (cases "xyz_len s = 0")
  case False
  with assms more [of s blocks] show thesis by simp
next
  case True
  show thesis
  proof (cases blocks)
    case Nil
    with assms(5) have "transfer crc16 (xyz_crc_mode s) (xyz_next_blk s) [] (pending (uart s))" by simp
    from next_block_transfer_Nil [OF assms(1,3) this] True Nil show thesis by (metis ended)
  next
    case (Cons data rest)
    with assms(5) have "transfer crc16 (xyz_crc_mode s) (xyz_next_blk s) (data # rest) (pending (uart s))" by simp
    from next_block_transfer_Cons [OF assms(1,3) this, of xyzModem_cancel]
    obtain s1 where "next_block crc16 xyzModem_MAX_RETRIES xyzModem_cancel s = Some (0, s1)"
      "xyz_ok s1" "xyz_at_eof s1 = xyz_at_eof s" "xyz_mode s1 = xyzModem_ymodem" "packet_held s1"
      "transfer crc16 (xyz_crc_mode s1) (xyz_next_blk s1) rest (pending (uart s1))"
      "held_bytes s1 = strip_block data" by metis
    with True Cons assms(2) show thesis by (intro more [of s1 rest]) simp_all
  qed
qed

lemma read_loop_running:
  assumes "xyz_ok s" "\<not> xyz_at_eof s" "xyz_mode s = xyzModem_ymodem" "packet_held s"
    and "transfer crc16 (xyz_crc_mode s) (xyz_next_blk s) blocks (pending (uart s))"
    and "todo = held_bytes s @ concat (map strip_block blocks)"
  shows "ends (read_loop crc16 sz out err s) (\<lambda>(r, s').
    r = Read_bytes (out @ take (nat sz) todo) err \<and> to_deliver crc16 s' (drop (nat sz) todo))"
  using assms
proof (induction "(blocks, sz)" arbitrary: blocks s sz out todo
    rule: wf_induct_rule [OF wf_measures [of "[\<lambda>(bs, sz). length bs, \<lambda>(bs, sz). nat sz]"]])
  case (1 blocks sz)
  show ?case
  proof (cases "sz \<le> 0")
    case True
    with 1(2-) show ?thesis by (subst read_loop.simps) (auto intro: running)
  next
    case False
    from 1(2-6) show ?thesis
    proof (cases rule: fetch_block)
      case (ended s1)
      with False 1(3,7) show ?thesis
        by (subst read_loop.simps) (simp add: read_loop.simps [of crc16 sz out err s1] at_end)
    next
      case (more s1 blocks1)
      define n where "n = (if sz < xyz_len s1 then sz else xyz_len s1)"
      let ?s2 = "s1\<lparr>xyz_len := xyz_len s1 - n, xyz_bufp := xyz_bufp s1 + nat n\<rparr>"
      let ?bs = "take (nat n) (drop (xyz_bufp s1) (xyz_pkt s1))"
      let ?todo = "held_bytes ?s2 @ concat (map strip_block blocks1)"
      have n: "0 \<le> n" "n \<le> sz" "n \<le> xyz_len s1" "n = 0 \<longrightarrow> xyz_len s1 = 0"
        using more(5) False by (auto simp: n_def packet_held_def)
      have step: "read_loop crc16 sz out err s = read_loop crc16 (sz - n) (out @ ?bs) err ?s2"
        using False 1(3) more(1,3) n by (subst read_loop.simps) (simp add: n_def [symmetric] Let_def)
      have "nat (xyz_len s1) = nat n + nat (xyz_len s1 - n)" using n by auto
      then have "held_bytes s1 = ?bs @ held_bytes ?s2" by (simp add: take_add add.commute)
      then have todo: "todo = ?bs @ ?todo" using 1(7) more(7) by simp
      have len: "length ?bs = nat n" using more(2,5) n by (auto simp: packet_held_def xyz_ok_def)
      have "ends (read_loop crc16 (sz - n) (out @ ?bs) err ?s2) (\<lambda>(r, s').
          r = Read_bytes ((out @ ?bs) @ take (nat (sz - n)) ?todo) err \<and>
          to_deliver crc16 s' (drop (nat (sz - n)) ?todo))"
        using more n by (intro 1(1) [of blocks1 "sz - n"]) (auto simp: packet_held_def)
      moreover have "nat (sz - n) = nat sz - nat n" "nat n \<le> nat sz" using n by auto
      ultimately show ?thesis using len by (simp add: step todo)
    qed
  qed
qed

lemma read_loop_delivers:
  assumes "to_deliver crc16 s todo"
  shows "ends (read_loop crc16 sz out err s) (\<lambda>(r, s').
    r = Read_bytes (out @ take (nat sz) todo) err \<and> to_deliver crc16 s' (drop (nat sz) todo))"
  using assms
proof cases
  case at_end
  then show ?thesis using assms by (subst read_loop.simps) simp
next
  case (running blocks)
  then show ?thesis by (intro read_loop_running)
qed

subsection \<open>Opening\<close>

text \<open>
  What may come before the file header packet: silence, a damaged or a misframed packet. (Any
  intact packet is taken for the header.)
\<close>

inductive header_mishap :: "(bytes \<Rightarrow> u16) \<Rightarrow> u8 option list \<Rightarrow> bool" for crc16 :: "bytes \<Rightarrow> u16" where
  quiet_header: "header_mishap crc16 [None, None]"
| damaged_header: "packet_data h data \<Longrightarrow> length chk = 2 \<Longrightarrow> chk \<noteq> check_bytes crc16 True data \<Longrightarrow>
    header_mishap crc16 (map Some (packet h blk (NOT blk) data chk))"
| misframed_header: "packet_data h data \<Longrightarrow> length chk = 2 \<Longrightarrow> cblk \<noteq> NOT blk \<Longrightarrow>
    header_mishap crc16 (map Some (packet h blk cblk data chk) @ [None])"

text \<open>
  The header may come after fewer than \<^verbatim>\<open>xyzModem_MAX_RETRIES\<close> mishaps. Fewer than
  \<^verbatim>\<open>xyzModem_MAX_RETRIES_WITH_CRC\<close> of them may be silence: the tenth timeout makes the
  receiver ask for checksum packets instead.
\<close>

definition before_header :: "(bytes \<Rightarrow> u16) \<Rightarrow> u8 option list list \<Rightarrow> bool" where
  "before_header crc16 ms \<longleftrightarrow> length ms < xyzModem_MAX_RETRIES \<and>
     int (count_list ms [None, None]) < xyzModem_MAX_RETRIES_WITH_CRC \<and>
     (\<forall>i \<in> set ms. header_mishap crc16 i)"

lemma open_loop_mishap:
  assumes "header_mishap crc16 items" "xyz_ok s" "xyz_crc_mode s" "pending (uart s) = items @ rest"
    and "items = [None, None] \<longrightarrow> 1 < k"
  obtains stat' s' where "open_loop crc16 (Suc n) k stat s =
      open_loop crc16 n (if items = [None, None] then k - 1 else k) stat' s'"
    "xyz_ok s'" "same_session s s'" "pending (uart s') = rest"
  using assms(1)
proof cases
  case quiet_header
  then obtain s1 where "xyzModem_get_hdr crc16 s = Some (xyzModem_timeout, s1)"
    "xyz_ok s1" "same_session s s1" "pending (uart s1) = rest"
    using get_hdr_quiet [OF assms(2), of rest crc16] assms(4) by auto
  with quiet_header assms(5) show thesis
    by (intro that [of xyzModem_timeout "(request s1)\<lparr>xyz_total_retries := xyz_total_retries s1 + 1\<rparr>"])
       (auto simp: same_session_def Let_def)
next
  case (damaged_header h data chk blk)
  then obtain s1 where "received (s\<lparr>xyz_tx_ack := False\<rparr>) blk (NOT blk) data rest s1"
    "xyzModem_get_hdr crc16 s = Some (xyzModem_cksum, s1)"
    using get_hdr_runs [OF assms(2), of h data chk blk rest crc16] assms(3,4) by auto
  with damaged_header show thesis
    by (intro that [of xyzModem_cksum s1]) (auto simp: received_def same_session_def packet_def)
next
  case (misframed_header h data chk cblk blk)
  then obtain s1 where "xyzModem_get_hdr crc16 s = Some (xyzModem_frame, s1)"
    "xyz_ok s1" "same_session s s1" "pending (uart s1) = rest"
    using get_hdr_misframed [OF assms(2), of h data chk cblk blk rest crc16] assms(3,4) by auto
  with misframed_header show thesis
    by (intro that [of xyzModem_frame s1]) (auto simp: packet_def)
qed

lemma open_loop_mishaps:
  assumes "\<forall>i \<in> set ms. header_mishap crc16 i" "int (count_list ms [None, None]) < k"
    and "xyz_ok s" "xyz_crc_mode s" "pending (uart s) = concat ms @ rest"
  obtains k' stat' s' where "open_loop crc16 (length ms + n) k stat s = open_loop crc16 n k' stat' s'"
    "xyz_ok s'" "same_session s s'" "pending (uart s') = rest"
  using assms
proof (induction ms arbitrary: s stat k thesis)
  case Nil
  then show ?case by simp
next
  case (Cons items ms)
  define k1 where "k1 = (if items = [None, None] then k - 1 else k)"
  have "items = [None, None] \<longrightarrow> 1 < k" "int (count_list ms [None, None]) < k1"
    using Cons.prems(3) by (auto simp: k1_def split: if_splits)
  note k = this
  have head: "header_mishap crc16 items" "pending (uart s) = items @ concat ms @ rest"
    using Cons.prems(2,6) by simp_all
  obtain stat1 s1 where s1: "open_loop crc16 (Suc (length ms + n)) k stat s =
      open_loop crc16 (length ms + n) k1 stat1 s1"
    "xyz_ok s1" "same_session s s1" "pending (uart s1) = concat ms @ rest"
    unfolding k1_def by (rule open_loop_mishap [OF head(1) Cons.prems(4,5) head(2) k(1)])
  obtain k' stat' s' where "open_loop crc16 (length ms + n) k1 stat1 s1 = open_loop crc16 n k' stat' s'"
    "xyz_ok s'" "same_session s1 s'" "pending (uart s') = rest"
    using Cons.IH [where s = s1 and stat = stat1 and k = k1] Cons.prems(2,5) s1
      k(2) by (auto simp: same_session_def)
  then show ?case
    using s1 by (intro Cons.prems(1) [of k' stat' s'])
      (auto intro: same_session_trans simp del: open_loop.simps)
qed

text \<open>The file header packet, block 0, starts the transfer at block 1.\<close>

lemma open_loop_header:
  assumes "xyz_ok s" "xyz_mode s = xyzModem_ymodem" "\<not> xyz_at_eof s" "packet_data h hdr"
    and "pending (uart s) = map Some (packet h 0 (NOT 0) hdr (check_bytes crc16 (xyz_crc_mode s) hdr)) @ items"
    and "transfer crc16 (xyz_crc_mode s) 1 blocks items"
  shows "ends (open_loop crc16 (Suc n) k stat s) (\<lambda>(r, st, s').
    r = 0 \<and> to_deliver crc16 s' (concat (map strip_block blocks)))"
proof -
  obtain s1 where s1: "received (s\<lparr>xyz_tx_ack := False\<rparr>) 0 (NOT 0) hdr items s1"
    "xyzModem_get_hdr crc16 s = Some (0, s1)"
    using get_hdr_runs [OF assms(1,4), of "check_bytes crc16 (xyz_crc_mode s) hdr" 0 items crc16] assms(5) by auto
  let ?s = "s1\<lparr>xyz_tx_ack := True, xyz_next_blk := 1, xyz_len := 0\<rparr>"
  have "to_deliver crc16 ?s (held_bytes ?s @ concat (map strip_block blocks))"
    using s1(1) assms by (intro running) (auto simp: received_def same_session_def packet_held_def)
  with s1 show ?thesis by (simp add: received_def)
qed

lemma stream_open_header:
  assumes "xyz_ok s" "0 \<le> chan" "before_header crc16 ms" "packet_data h hdr"
    and "pending (uart s) =
           concat ms @ map Some (packet h 0 (NOT 0) hdr (check_bytes crc16 True hdr)) @ items"
    and "transfer crc16 True 1 blocks items"
  shows "ends (xyzModem_stream_open crc16 chan xyzModem_ymodem err s) (\<lambda>(r, e, s').
    r = 0 \<and> e = err \<and> to_deliver crc16 s' (concat (map strip_block blocks)))"
proof -
  let ?s = "request (s\<lparr>xyz_chan := chan, xyz_len := 0, xyz_crc_mode := True, xyz_at_eof := False,
    xyz_tx_ack := False, xyz_mode := xyzModem_ymodem, xyz_total_retries := 0,
    xyz_total_SOH := 0, xyz_total_STX := 0, xyz_total_CAN := 0\<rparr>)"
  let ?p = "map Some (packet h 0 (NOT 0) hdr (check_bytes crc16 True hdr)) @ items"
  have ms: "\<forall>i \<in> set ms. header_mishap crc16 i"
    "int (count_list ms [None, None]) < xyzModem_MAX_RETRIES_WITH_CRC" "length ms < xyzModem_MAX_RETRIES"
    using assms(3) by (simp_all add: before_header_def)
  obtain n where n: "xyzModem_MAX_RETRIES = length ms + Suc n" using retries_split [OF ms(3)] by blast
  have s: "xyz_ok ?s" "xyz_crc_mode ?s" "pending (uart ?s) = concat ms @ ?p"
    using assms(1,5) by (simp_all add: xyz_ok_def)
  obtain k' stat' s' where s': "open_loop crc16 (length ms + Suc n) xyzModem_MAX_RETRIES_WITH_CRC 0 ?s =
      open_loop crc16 (Suc n) k' stat' s'" "xyz_ok s'" "same_session ?s s'" "pending (uart s') = ?p"
    by (rule open_loop_mishaps [OF ms(1,2) s])
  have "ends (open_loop crc16 (Suc n) k' stat' s') (\<lambda>(r, st, s').
    r = 0 \<and> to_deliver crc16 s' (concat (map strip_block blocks)))"
    using assms(4,6) s'(2-) by (intro open_loop_header) (auto simp: same_session_def)
  then have "ends (open_loop crc16 xyzModem_MAX_RETRIES xyzModem_MAX_RETRIES_WITH_CRC 0 ?s) (\<lambda>(r, st, s').
    r = 0 \<and> to_deliver crc16 s' (concat (map strip_block blocks)))"
    unfolding n s'(1) .
  with assms(2) show ?thesis
    by (auto simp: xyzModem_stream_open_def Let_def ends_def simp del: open_loop.simps)
qed

subsection \<open>A dead line\<close>

lemma get_hdr_dead:
  assumes "xyz_ok s" "pending (uart s) = []"
  obtains s' where "xyzModem_get_hdr crc16 s = Some (xyzModem_timeout, s')"
    "xyz_ok s'" "same_session s s'" "pending (uart s') = []" "\<not> xyz_tx_ack s'"
    "tx (uart s') = tx (uart s) @ (if xyz_tx_ack s then [ACK] else [])"
proof -
  let ?s = "send_pending_ack s"
  have ok: "uart_ok (uart ?s)" "xyz_ok ?s" "same_session s ?s" "pending (uart ?s) = []" "\<not> xyz_tx_ack ?s"
      "tx (uart ?s) = tx (uart s) @ (if xyz_tx_ack s then [ACK] else [])"
    using assms by (auto simp: send_pending_ack_def state_defs put_def)
  have quiet: "\<exists>u'. getCharTimeout u = (None, u') \<and> uart_ok u' \<and> pending u' = [] \<and> tx u' = tx u"
    if "uart_ok u" "pending u = []" for u
    using getCharTimeout_step [OF that(1)] that(2) by (cases "getCharTimeout u") auto
  obtain u where u: "getCharTimeout (uart ?s) = (None, u)" "uart_ok u" "pending u = []" "tx u = tx (uart ?s)"
    using quiet [OF ok(1,4)] by blast
  obtain u' where u': "getCharTimeout u = (None, u')" "uart_ok u'" "pending u' = []" "tx u' = tx u"
    using quiet [OF u(2,3)] by blast
  have "xyzModem_flush u = Some u'"
    using u'(1) by (simp add: xyzModem_flush_def drain.simps)
  then have "find_hdr 0 0 ?s = Some (Return_stat xyzModem_timeout, ?s\<lparr>uart := u'\<rparr>)"
    using u(1) by (subst find_hdr.simps) simp
  with ok u u' show thesis
    by (intro that [of "?s\<lparr>uart := u'\<rparr>"]) (auto simp: xyzModem_get_hdr_def state_defs)
qed

lemma next_block_dead:
  assumes "xyz_ok s" "pending (uart s) = []"
  shows "ends (next_block crc16 (Suc n) stat s) (\<lambda>(st, s').
    st = xyzModem_timeout \<and> same_session s s' \<and> xyz_ok s')"
  using assms
proof (induction n arbitrary: s stat)
  case 0
  then obtain s1 where "xyzModem_get_hdr crc16 s = Some (xyzModem_timeout, s1)" "xyz_ok s1" "same_session s s1"
    using get_hdr_dead by blast
  then show ?case by (simp add: same_session_def)
next
  case (Suc n)
  then obtain s1 where s1: "xyzModem_get_hdr crc16 s = Some (xyzModem_timeout, s1)" "xyz_ok s1"
      "same_session s s1" "pending (uart s1) = []"
    using get_hdr_dead by blast
  let ?s2 = "(request s1)\<lparr>xyz_total_retries := xyz_total_retries s1 + 1\<rparr>"
  have "ends (next_block crc16 (Suc n) xyzModem_timeout ?s2) (\<lambda>(st, s').
    st = xyzModem_timeout \<and> same_session ?s2 s' \<and> xyz_ok s')"
    using s1 by (intro Suc.IH) simp_all
  then have "ends (next_block crc16 (Suc n) xyzModem_timeout ?s2) (\<lambda>(st, s').
    st = xyzModem_timeout \<and> same_session s s' \<and> xyz_ok s')"
    using s1(3) by (elim ends_weaken) (auto simp: same_session_def)
  then show ?case
    by (subst next_block.simps) (simp add: s1(1) del: next_block.simps)
qed

lemma read_loop_dead:
  assumes "xyz_ok s" "pending (uart s) = []" "\<not> xyz_at_eof s" "0 < xyz_len s" "xyz_len s < sz"
  shows "ends (read_loop crc16 sz out err s) (\<lambda>(r, s').
    r = Read_bytes (out @ held_bytes s) xyzModem_timeout \<and> xyz_len s' = - 1 \<and> \<not> xyz_at_eof s')"
proof -
  let ?s2 = "s\<lparr>xyz_len := 0, xyz_bufp := xyz_bufp s + nat (xyz_len s)\<rparr>"
  have step: "read_loop crc16 sz out err s = read_loop crc16 (sz - xyz_len s) (out @ held_bytes s) err ?s2"
    using assms by (subst read_loop.simps) (simp add: Let_def)
  have "ends (next_block crc16 (Suc 19) xyzModem_cancel ?s2) (\<lambda>(st, s').
      st = xyzModem_timeout \<and> same_session ?s2 s' \<and> xyz_ok s')"
    using assms by (intro next_block_dead) simp_all
  then obtain s3 where "next_block crc16 xyzModem_MAX_RETRIES xyzModem_cancel ?s2 = Some (xyzModem_timeout, s3)"
      "same_session ?s2 s3"
    by (auto simp: ends_def simp del: next_block.simps)
  with assms show ?thesis
    unfolding step by (subst read_loop.simps) (simp add: same_session_def)
qed

lemma open_loop_dead:
  assumes "xyz_ok s" "pending (uart s) = []" "\<not> xyz_tx_ack s"
    "xyz_crc_mode s = (0 < k)"
  shows "ends (open_loop crc16 n k stat s) (\<lambda>(r, st, s'). r = - 1 \<and> st = (if n = 0 then stat else xyzModem_timeout) \<and>
    tx (uart s') = tx (uart s) @ replicate (min n (nat (k - 1))) char_C @ replicate (n - nat (k - 1)) NAK)"
  using assms
proof (induction n arbitrary: k stat s)
  case 0
  then show ?case by simp
next
  case (Suc n)
  obtain s1 where s1: "xyzModem_get_hdr crc16 s = Some (xyzModem_timeout, s1)" "xyz_ok s1"
      "same_session s s1" "pending (uart s1) = []" "\<not> xyz_tx_ack s1" "tx (uart s1) = tx (uart s)"
    using get_hdr_dead [OF Suc.prems(1,2), of crc16] Suc.prems(3) by auto
  define s2 where "s2 = (if k - 1 \<le> 0 then s1\<lparr>xyz_crc_mode := False\<rparr> else s1)"
  define s3 where "s3 = (request s2)\<lparr>xyz_total_retries := xyz_total_retries s2 + 1\<rparr>"
  have ok: "xyz_ok s3" "pending (uart s3) = []" "\<not> xyz_tx_ack s3"
    using s1 by (auto simp: s3_def s2_def)
  have m: "xyz_crc_mode s3 = (0 < k - 1)" using s1(3) Suc.prems(4) by (auto simp: s3_def s2_def same_session_def)
  have tx: "tx (uart s3) = tx (uart s) @ [if 0 < k - 1 then char_C else NAK]"
    using s1(3,6) Suc.prems(4) by (auto simp: s3_def s2_def request_def put_def same_session_def)
  have "ends (open_loop crc16 n (k - 1) xyzModem_timeout s3) (\<lambda>(r, st, s'). r = - 1 \<and>
    st = xyzModem_timeout \<and> tx (uart s') = tx (uart s3) @
      replicate (min n (nat (k - 1 - 1))) char_C @ replicate (n - nat (k - 1 - 1)) NAK)"
    using Suc.IH [OF ok m, of xyzModem_timeout] by (elim ends_weaken) auto
  moreover have "[if 0 < k - 1 then char_C else NAK] @
      replicate (min n (nat (k - 1 - 1))) char_C @ replicate (n - nat (k - 1 - 1)) NAK =
      replicate (min (Suc n) (nat (k - 1))) char_C @ replicate (Suc n - nat (k - 1)) NAK"
  proof (cases "0 < k - 1")
    case True
    then have "nat (k - 1) = Suc (nat (k - 1 - 1))" by simp
    then show ?thesis using True by simp
  next
    case False
    then show ?thesis by simp
  qed
  ultimately have "ends (open_loop crc16 n (k - 1) xyzModem_timeout s3) (\<lambda>(r, st, s'). r = - 1 \<and>
    st = xyzModem_timeout \<and> tx (uart s') = tx (uart s) @
      replicate (min (Suc n) (nat (k - 1))) char_C @ replicate (Suc n - nat (k - 1)) NAK)"
    by (simp add: tx)
  moreover have "open_loop crc16 (Suc n) k stat s = open_loop crc16 n (k - 1) xyzModem_timeout s3"
    by (simp add: s1(1) s2_def s3_def Let_def)
  ultimately show ?case by (simp only: nat.distinct if_False)
qed

subsection \<open>Repeated packets\<close>

lemma next_block_repeats:
  assumes "xyz_ok s" "packet_data h data" "blk = xyz_next_blk s - 1"
    and "pending (uart s) = concat (replicate n (map Some (packet h blk (NOT blk) data
           (check_bytes crc16 (xyz_crc_mode s) data)))) @ rest"
    and "n = 0 \<longrightarrow> stat = 0 \<and> xyz_bufp s = 0 \<and> xyz_len s = int (length data) \<and>
           take (length data) (xyz_pkt s) = data"
  shows "ends (next_block crc16 n stat s) (\<lambda>(st, s'). st = 0 \<and> same_session s s' \<and> xyz_ok s' \<and>
    xyz_bufp s' = 0 \<and> xyz_len s' = int (length data) \<and> take (length data) (xyz_pkt s') = data \<and>
    pending (uart s') = rest)"
  using assms
proof (induction n arbitrary: s stat)
  case 0
  then show ?case by simp
next
  case (Suc n)
  let ?p = "map Some (packet h blk (NOT blk) data (check_bytes crc16 (xyz_crc_mode s) data))"
  obtain s1 where s1: "received (s\<lparr>xyz_tx_ack := False\<rparr>) blk (NOT blk) data (concat (replicate n ?p) @ rest) s1"
    "xyzModem_get_hdr crc16 s = Some (0, s1)"
    using get_hdr_runs [OF Suc.prems(1,2), of "check_bytes crc16 (xyz_crc_mode s) data" blk
        "concat (replicate n ?p) @ rest" crc16] Suc.prems(4) by auto
  have "blk \<noteq> xyz_next_blk s" using Suc.prems(3) by simp
  with s1 Suc.prems(3) have step: "next_block crc16 (Suc n) stat s = next_block crc16 n 0 (put ACK s1)"
    by (simp add: received_def same_session_def)
  show ?case
    unfolding step
    by (rule ends_weaken, rule Suc.IH [of "put ACK s1"])
       (use s1 Suc.prems in \<open>auto simp: received_def same_session_def\<close>)
qed

subsection \<open>Properties\<close>

text \<open>A receiver before a transfer, for concrete runs.\<close>

definition idle_xyz :: "rx_event list \<Rightarrow> xyz" where
  "idle_xyz evs = \<lparr>xyz_chan = 0, xyz_pkt = replicate 1024 0, xyz_bufp = 0, xyz_blk = 0, xyz_cblk = 0,
     xyz_crc1 = 0, xyz_crc2 = 0, xyz_next_blk = 1, xyz_len = 0, xyz_mode = xyzModem_ymodem,
     xyz_total_retries = 0, xyz_total_SOH = 0, xyz_total_STX = 0, xyz_total_CAN = 0,
     xyz_crc_mode = True, xyz_at_eof = False, xyz_tx_ack = False, uart = idle_uart evs\<rparr>"

lemma idle_xyz_simps [simp]:
  "xyz_ok (idle_xyz evs)" "pending (uart (idle_xyz evs)) = line_items evs" "xyz_len (idle_xyz evs) = 0"
  "packet_held (idle_xyz evs)" "tx (uart (idle_xyz evs)) = []" "\<not> xyz_at_eof (idle_xyz evs)"
  "xyz_bufp (idle_xyz evs) = 0" "xyz_pkt (idle_xyz evs) = replicate 1024 0"
  "xyz_crc_mode (idle_xyz evs)" "xyz_next_blk (idle_xyz evs) = 1" "xyz_mode (idle_xyz evs) = xyzModem_ymodem"
  by (simp_all add: idle_xyz_def xyz_ok_def packet_held_def)

text \<open>
  A short run: header packet, a pause, one data packet, end of file (with a CRC that is always 0).
\<close>

definition demo_packet :: "u8 \<Rightarrow> u8 \<Rightarrow> bytes" where
  "demo_packet blk b = packet SOH blk (NOT blk) (replicate 128 b) [0, 0]"

definition demo_line :: "rx_event list" where
  "demo_line = [Burst (demo_packet 0 0), Silence, Silence, Burst (demo_packet 1 7),
     Burst (EOT # demo_packet 0 0)]"

text \<open>The same run after a pause and a header packet with wrong check bytes.\<close>

definition demo_noise :: "u8 option list list" where
  "demo_noise = [[None, None], map Some (packet SOH 0 (NOT 0) (replicate 128 0) [1, 0])]"

definition demo_noisy_line :: "rx_event list" where
  "demo_noisy_line = Silence # Silence #
     Burst (packet SOH 0 (NOT 0) (replicate 128 0) [1, 0]) # demo_line"

lemma demo_noise_before: "before_header (\<lambda>_. 0) demo_noise"
proof -
  have "header_mishap (\<lambda>_. 0) (map Some (packet SOH 0 (NOT 0) (replicate 128 0) [1, 0]))"
    by (rule damaged_header) (simp_all add: packet_data_def check_bytes_def)
  then show ?thesis by (simp add: before_header_def demo_noise_def quiet_header packet_def)
qed

lemma demo_noisy_items: "line_items demo_noisy_line = concat demo_noise @ line_items demo_line"
  by (simp add: demo_noisy_line_def demo_noise_def packet_def)

lemma demo_line_transfer:
  "line_items demo_line = map Some (packet SOH 0 (NOT 0) (replicate 128 0) (check_bytes (\<lambda>_. 0) True (replicate 128 0))) @
     [None, None] @ map Some (demo_packet 1 7) @ map Some (EOT # demo_packet 0 0)"
  "transfer (\<lambda>_. 0) True 1 [replicate 128 7]
     ([None, None] @ map Some (demo_packet 1 7) @ map Some (EOT # demo_packet 0 0))"
proof -
  have chk: "check_bytes (\<lambda>_. 0) True d = [0, 0]" for d by (simp add: check_bytes_def)
  have p: "packet_data SOH (replicate 128 b)" for b by (simp add: packet_data_def)
  show "line_items demo_line = map Some (packet SOH 0 (NOT 0) (replicate 128 0) (check_bytes (\<lambda>_. 0) True (replicate 128 0))) @
     [None, None] @ map Some (demo_packet 1 7) @ map Some (EOT # demo_packet 0 0)"
    by (simp add: demo_line_def demo_packet_def packet_def chk)
  have "transfer (\<lambda>_. 0) True 2 [] (map Some (EOT # demo_packet 0 0))"
    using finish [where ms = "[]" and rest = "[]", OF _ _ p, of "\<lambda>_. 0" True 2 0 0]
    by (simp add: end_of_file_def demo_packet_def chk)
  then show "transfer (\<lambda>_. 0) True 1 [replicate 128 7]
     ([None, None] @ map Some (demo_packet 1 7) @ map Some (EOT # demo_packet 0 0))"
    using block [where ms = "[[None, None]]", OF _ _ p, of "\<lambda>_. 0" True 1 "[]" _ 7]
    by (simp add: demo_packet_def chk quiet)
qed

lemma demo_strip: "strip_block (replicate 128 7) = replicate 128 7"
proof -
  have "drop 125 (replicate 128 7) = [7, 7, 7 :: u8]" by (simp add: numeral_3_eq_3)
  then show ?thesis by (simp add: strip_block_def)
qed

lemma demo_padded: "padded_file (replicate 128 7) [replicate 128 7]"
proof -
  have "drop 125 (replicate 128 7) = [7, 7, 7 :: u8]" by (simp add: numeral_3_eq_3)
  then show ?thesis using unpadded [of "[replicate 128 7]"] by (simp add: full_block_def)
qed

text \<open>
  C1: a Y-modem transfer. Opening the stream succeeds on a line that carries the file header
  packet after fewer than 20 mishaps (silence, fewer than ten times, or damaged or misframed
  packets), and then the file's data packets: any number, of either length, numbered modulo 256,
  with fewer than 20 mishaps (silence, damaged, misframed or repeated packets) before each of them.
  The first read of \<open>sz\<close> bytes delivers the first \<open>sz\<close> bytes of the packets' data, each
  packet stripped of its trailing \<^verbatim>\<open>^Z\<close> where it ends with at least three of them; the rest
  stays to be delivered. What is delivered in all is the file itself when the padding can be told
  from the data (\<open>padded_file\<close>): no packet of the file's own bytes ends with three \<^verbatim>\<open>^Z\<close>, and
  the padding of the last packet, if there is any, has at least three bytes and follows another byte
  than \<^verbatim>\<open>^Z\<close>.
\<close>

theorem ymodem_transfer_delivers:
  assumes "xyz_ok s" "0 \<le> chan" "before_header crc16 ms" "packet_data h hdr"
    and "pending (uart s) =
           concat ms @ map Some (packet h 0 (NOT 0) hdr (check_bytes crc16 True hdr)) @ items"
    and "transfer crc16 True 1 blocks items"
  shows "\<exists>s1. xyzModem_stream_open crc16 chan xyzModem_ymodem err s = Some (0, err, s1) \<and>
    (\<exists>s2. xyzModem_stream_read crc16 sz err' s1 =
            Some (Read_bytes (take (nat sz) (concat (map strip_block blocks))) err', s2) \<and>
          to_deliver crc16 s2 (drop (nat sz) (concat (map strip_block blocks)))) \<and>
    (padded_file contents blocks \<longrightarrow> concat (map strip_block blocks) = contents)"
proof -
  from stream_open_header [OF assms, of err] obtain s1 where
    s1: "xyzModem_stream_open crc16 chan xyzModem_ymodem err s = Some (0, err, s1)"
    "to_deliver crc16 s1 (concat (map strip_block blocks))" by (auto simp: ends_def)
  from read_loop_delivers [OF s1(2), of sz "[]" err'] s1(1) show ?thesis
    by (auto simp: xyzModem_stream_read_def ends_def padded_file_delivered)
qed

theorem ymodem_transfer_delivers_witness:
  "\<exists>s1. xyzModem_stream_open (\<lambda>_. 0) 3 xyzModem_ymodem 0 (idle_xyz demo_noisy_line) = Some (0, 0, s1) \<and>
    (\<exists>s2. xyzModem_stream_read (\<lambda>_. 0) 1000 0 s1 = Some (Read_bytes (replicate 128 7) 0, s2) \<and>
          to_deliver (\<lambda>_. 0) s2 [])"
proof -
  have "pending (uart (idle_xyz demo_noisy_line)) = concat demo_noise @
      map Some (packet SOH 0 (NOT 0) (replicate 128 0) (check_bytes (\<lambda>_. 0) True (replicate 128 0))) @
      [None, None] @ map Some (demo_packet 1 7) @ map Some (EOT # demo_packet 0 0)"
    using demo_noisy_items demo_line_transfer(1) by simp
  from ymodem_transfer_delivers [OF _ _ demo_noise_before _ this demo_line_transfer(2),
      of 3 0 1000 0 "replicate 128 7"]
  show ?thesis by (auto simp: packet_data_def demo_padded)
qed

text \<open>
  C4: a read continues a transfer: whatever is still to be delivered, a read of \<open>sz\<close> bytes
  returns its first \<open>sz\<close> bytes (all of it if there is less) and leaves exactly the rest.
\<close>

theorem stream_read_takes_prefix:
  assumes "to_deliver crc16 s todo"
  shows "\<exists>s'. xyzModem_stream_read crc16 sz err s = Some (Read_bytes (take (nat sz) todo) err, s') \<and>
    to_deliver crc16 s' (drop (nat sz) todo)"
  using read_loop_delivers [OF assms, of sz "[]" err] by (auto simp: xyzModem_stream_read_def ends_def)

theorem stream_read_takes_prefix_witness:
  "\<exists>s'. xyzModem_stream_read (\<lambda>_. 0) 5 0
      (idle_xyz (tl demo_line)) = Some (Read_bytes (replicate 5 7) 0, s') \<and>
    to_deliver (\<lambda>_. 0) s' (replicate 123 7)"
proof -
  have "line_items (tl demo_line) = [None, None] @ map Some (demo_packet 1 7) @ map Some (EOT # demo_packet 0 0)"
    by (simp add: demo_line_def demo_packet_def packet_def)
  then have "to_deliver (\<lambda>_. 0) (idle_xyz (tl demo_line)) (replicate 128 7)"
    using running [of "idle_xyz (tl demo_line)" "\<lambda>_. 0" "[replicate 128 7]"] demo_line_transfer(2)
    by (simp add: demo_strip)
  from stream_read_takes_prefix [OF this, of 5 0] show ?thesis by simp
qed

text \<open>
  Whatever is on the line, receiving a packet ends, and a packet is accepted (0 is returned)
  only if it is intact: the block number and its complement agree, the length is 128 or 1024 and
  the CRC (or, in checksum mode, the sum of the bytes) matches the data in the packet buffer.
\<close>

theorem get_hdr_total_and_sound:
  assumes "xyz_ok s"
  shows "\<exists>st s'. xyzModem_get_hdr crc16 s = Some (st, s') \<and> xyz_ok s' \<and> st \<le> 0 \<and>
    (st = 0 \<longrightarrow> intact crc16 s' \<and> backlog s' < backlog s)"
  using get_hdr_ends [OF assms, of crc16] by (auto simp: ends_def packet_post_def)

theorem get_hdr_total_and_sound_witness:
  "\<exists>st s'. xyzModem_get_hdr (\<lambda>_. 0) (idle_xyz demo_line) = Some (st, s') \<and> xyz_ok s' \<and> st \<le> 0 \<and>
    (st = 0 \<longrightarrow> intact (\<lambda>_. 0) s' \<and> backlog s' < backlog (idle_xyz demo_line))"
  using get_hdr_total_and_sound [of "idle_xyz demo_line" "\<lambda>_. 0"] by simp

text \<open>
  C11: reading ends whatever a sender sends, as long as it is finite: the line holds any finite
  list of bytes and timeouts, valid packets or not, and is silent afterwards. (Against a sender that
  never falls silent it need not end: \<^verbatim>\<open>xyzModem_flush\<close> does not, \<open>Serial_Line.drain_endless\<close>, and
  the search for a header character has no other bound either.) From a state in which the buffer
  holds a packet (or part of one), a read of \<open>sz\<close> bytes returns at most \<open>sz\<close> bytes, never
  overruns, and leaves either such a state or the negative length that marks an error.
\<close>

theorem stream_read_total:
  assumes "xyz_ok s" "packet_held s"
  shows "\<exists>bs e s'. xyzModem_stream_read crc16 sz err s = Some (Read_bytes bs e, s') \<and>
    length bs \<le> nat sz \<and> xyz_ok s' \<and> (packet_held s' \<or> xyz_len s' < 0)"
proof -
  obtain r s' where r: "read_loop crc16 sz [] err s = Some (r, s')" "read_post sz [] s (r, s')"
    using read_loop_ends [OF assms(1), of crc16 sz "[]" err] assms(2) by (auto simp: ends_def)
  then show ?thesis
    using assms(2) by (cases r) (auto simp: xyzModem_stream_read_def read_post_def packet_held_def)
qed

theorem stream_read_total_witness:
  "\<exists>bs e s'. xyzModem_stream_read (\<lambda>_. 0) 64 0 (idle_xyz demo_line) = Some (Read_bytes bs e, s') \<and>
    length bs \<le> 64 \<and> xyz_ok s' \<and> (packet_held s' \<or> xyz_len s' < 0)"
  using stream_read_total [of "idle_xyz demo_line" "\<lambda>_. 0" 64 0] by simp

text \<open>
  On a dead line, opening a Y-modem transfer gives up: it returns -1 with a timeout after
  asking ten times for CRC mode and then eleven times for checksum mode.
\<close>

theorem stream_open_dead_line:
  assumes "xyz_ok s" "pending (uart s) = []" "0 \<le> chan"
  shows "\<exists>s'. xyzModem_stream_open crc16 chan xyzModem_ymodem err s = Some (- 1, xyzModem_timeout, s') \<and>
    tx (uart s') = tx (uart s) @ replicate 10 char_C @ replicate 11 NAK"
proof -
  let ?s = "request (s\<lparr>xyz_chan := chan, xyz_len := 0, xyz_crc_mode := True, xyz_at_eof := False,
    xyz_tx_ack := False, xyz_mode := xyzModem_ymodem, xyz_total_retries := 0,
    xyz_total_SOH := 0, xyz_total_STX := 0, xyz_total_CAN := 0\<rparr>)"
  have "xyz_ok ?s" using assms(1) by (simp add: xyz_ok_def)
  then have "ends (open_loop crc16 xyzModem_MAX_RETRIES xyzModem_MAX_RETRIES_WITH_CRC 0 ?s) (\<lambda>(r, st, s').
    r = - 1 \<and> st = xyzModem_timeout \<and>
    tx (uart s') = tx (uart ?s) @ replicate 9 char_C @ replicate 11 NAK)"
    using open_loop_dead [of ?s 10 crc16 20 0] assms(2) by simp
  moreover have "tx (uart ?s) = tx (uart s) @ [char_C]" by (simp add: request_def put_def)
  moreover have "replicate 10 char_C = char_C # replicate 9 char_C" by (simp add: numeral_eq_Suc)
  ultimately show ?thesis
    using assms(3)
    by (auto simp: xyzModem_stream_open_def Let_def ends_def)
qed

theorem stream_open_dead_line_witness:
  "\<exists>s'. xyzModem_stream_open (\<lambda>_. 0) 3 xyzModem_ymodem 0 (idle_xyz []) = Some (- 1, xyzModem_timeout, s') \<and>
    tx (uart s') = replicate 10 char_C @ replicate 11 NAK"
  using stream_open_dead_line [of "idle_xyz []" 3 "\<lambda>_. 0" 0] by simp

text \<open>
  After a failed read the stream is unusable. If the line goes dead in the middle of a
  transfer, a read that still finds bytes in the packet buffer returns them (a positive count)
  and sets \<^verbatim>\<open>xyz.len\<close> to -1; the next read, which a caller that goes on while the count is
  positive makes, then copies with a negative length.
\<close>

theorem read_after_error_overruns:
  assumes "xyz_ok s" "\<not> xyz_at_eof s" "0 < xyz_len s" "xyz_len s < sz"
    and "pending (uart s) = []" "0 < sz'"
  shows "\<exists>s'. xyzModem_stream_read crc16 sz err s =
      Some (Read_bytes (take (nat (xyz_len s)) (drop (xyz_bufp s) (xyz_pkt s))) xyzModem_timeout, s') \<and>
    xyzModem_stream_read crc16 sz' err' s' = Some (Memcpy_overrun, s')"
proof -
  obtain s' where s': "read_loop crc16 sz [] err s = Some (Read_bytes (held_bytes s) xyzModem_timeout, s')"
      "xyz_len s' = - 1" "\<not> xyz_at_eof s'"
    using read_loop_dead [OF assms(1,5,2,3,4), of crc16 "[]" err] by (auto simp: ends_def)
  have "read_loop crc16 sz' [] err' s' = Some (Memcpy_overrun, s')"
    using s'(2,3) assms(6) by (subst read_loop.simps) simp
  with s'(1) show ?thesis by (auto simp: xyzModem_stream_read_def)
qed

theorem read_after_error_overruns_witness:
  "\<exists>s'. xyzModem_stream_read (\<lambda>_. 0) 1024 0 ((idle_xyz [])\<lparr>xyz_len := 2\<rparr>) =
      Some (Read_bytes [0, 0] xyzModem_timeout, s') \<and>
    xyzModem_stream_read (\<lambda>_. 0) 1024 0 s' = Some (Memcpy_overrun, s')"
  using read_after_error_overruns [of "(idle_xyz [])\<lparr>xyz_len := 2\<rparr>" 1024 1024 "\<lambda>_. 0" 0 0]
  by (simp add: numeral_2_eq_2)

text \<open>
  A block that the sender repeats twenty times in a row is delivered a second time. When all
  the retries are used up by repetitions of the last block, \<^verbatim>\<open>stat\<close> is still 0 and the read
  goes on to copy the repeated packet's data.
\<close>

theorem repeated_block_delivered_again:
  assumes "xyz_ok s" "\<not> xyz_at_eof s" "xyz_len s = 0" "packet_data h data"
    and "blk = xyz_next_blk s - 1"
    and "pending (uart s) = concat (replicate xyzModem_MAX_RETRIES (map Some (packet h blk (NOT blk) data
           (check_bytes crc16 (xyz_crc_mode s) data)))) @ rest"
  shows "\<exists>s'. xyzModem_stream_read crc16 (int (length data)) err s = Some (Read_bytes data err, s')"
proof -
  obtain s1 where s1: "next_block crc16 xyzModem_MAX_RETRIES xyzModem_cancel s = Some (0, s1)"
    "\<not> xyz_at_eof s1" "xyz_bufp s1 = 0" "xyz_len s1 = int (length data)" "take (length data) (xyz_pkt s1) = data"
    using next_block_repeats [OF assms(1,4,5,6), of xyzModem_cancel] assms(2)
    by (auto simp: ends_def same_session_def)
  have "length data \<noteq> 0" using assms(4) by (auto simp: packet_data_def)
  then show ?thesis
    using s1 assms(2,3)
    by (auto simp: xyzModem_stream_read_def read_loop.simps [of _ _ "[]"] read_loop.simps [of _ 0])
qed

theorem repeated_block_delivered_again_witness:
  "\<exists>s'. xyzModem_stream_read (\<lambda>_. 0) 128 0 (idle_xyz [Burst (concat (replicate 20 (demo_packet 0 7)))]) =
     Some (Read_bytes (replicate 128 7) 0, s')"
proof -
  have d: "demo_packet 0 7 = packet SOH 0 (NOT 0) (replicate 128 7) (check_bytes (\<lambda>_. 0) True (replicate 128 7))"
    by (simp add: demo_packet_def check_bytes_def)
  have l: "line_items [Burst (concat (replicate 20 (demo_packet 0 7)))] =
      concat (replicate 20 (map Some (demo_packet 0 7)))"
    by (simp add: demo_packet_def packet_def map_concat)
  show ?thesis
    using repeated_block_delivered_again [of "idle_xyz [Burst (concat (replicate 20 (demo_packet 0 7)))]"
        SOH "replicate 128 7" 0 "\<lambda>_. 0" "[]" 0] l [unfolded d] d
    by (simp add: packet_data_def)
qed

end
