(* ===== verification/Nios2_Hal.thy ===== *)
theory Nios2_Hal
  imports Nios_Prelude
begin

text \<open>
  Architecture support of the Nios II HAL: the bit-index routines, the copy of the data section
  and the delay loop of \<^verbatim>\<open>hal_misc.c\<close>, the interrupt tables and masks of \<^verbatim>\<open>hal_intr.h\<close>,
  the saved registers of \<^verbatim>\<open>hal_arch.h\<close>.

  Control registers (\<^verbatim>\<open>status\<close>, \<^verbatim>\<open>ienable\<close>) are fields of the state. Addresses of code
  (handlers, the default ISR) are words.
\<close>

unbundle bit_operations_syntax

subsection \<open>Bit indices\<close>

definition lsbit_tab :: "int list" where
  "lsbit_tab =
    [-1, 0, 1, 12, 2, 6, 0, 13, 3, 0, 7, 0, 0, 0, 0, 14, 10,
     4, 0, 0, 8, 0, 0, 25, 0, 0, 0, 0, 0, 21, 27, 15, 31, 11,
     5, 0, 0, 0, 0, 0, 9, 0, 0, 24, 0, 0, 20, 26, 30, 0, 0, 0,
     0, 23, 0, 19, 29, 0, 22, 18, 28, 17, 16, 0]"

definition hal_lsbit_index :: "u32 \<Rightarrow> u32" where
  "hal_lsbit_index msk =
     (let n = msk;
          n = n AND NOT (n - 1);
          n = push_bit 16 n - n;
          n = push_bit 6 n + n;
          n = push_bit 4 n + n
      in of_int (lsbit_tab ! unat (drop_bit 26 n)))"

definition smear :: "u32 \<Rightarrow> u32" where
  "smear msk =
     (let x = msk;
          x = x OR drop_bit 16 x;
          x = x OR drop_bit 8 x;
          x = x OR drop_bit 4 x;
          x = x OR drop_bit 2 x
      in x OR drop_bit 1 x)"

definition popcount :: "u32 \<Rightarrow> u32" where
  "popcount x =
     (let w = (x AND 0x55555555) + (drop_bit 1 x AND 0x55555555);
          w = (w AND 0x33333333) + (drop_bit 2 w AND 0x33333333);
          w = w + drop_bit 4 w;
          w = (w AND 0x000F000F) + (drop_bit 8 w AND 0x000F000F)
      in (w + drop_bit 16 w) AND 0xFF)"

definition hal_msbit_index :: "u32 \<Rightarrow> u32" where
  "hal_msbit_index msk = popcount (smear msk) - 1"

subsection \<open>Copying the data section\<close>

text \<open>
  \<^verbatim>\<open>while (p != end) *p++ = *q++\<close>, for 32-bit byte addresses. The loop ends since \<open>p\<close> steps
  through all addresses.
\<close>

type_synonym byte_mem = "u32 \<Rightarrow> u8"

function copy_until :: "u32 \<Rightarrow> u32 \<Rightarrow> u32 \<Rightarrow> byte_mem \<Rightarrow> byte_mem" where
  "copy_until p q stop m =
     (if p = stop then m else copy_until (p + 1) (q + 1) stop (m(p := m q)))"
  by auto
termination
proof (relation "measure (\<lambda>(p, q, stop, m). unat (stop - p))")
  show "((p + 1, q + 1, stop, m(p := m q)), p, q, stop, m) \<in> measure (\<lambda>(p, q, stop, m). unat (stop - p))"
    if "p \<noteq> stop" for p q stop :: u32 and m :: byte_mem
  proof -
    have "stop - p \<noteq> 0" using that by simp
    then have "unat (stop - p - 1) < unat (stop - p)"
      by (metis measure_unat)
    moreover have "stop - (p + 1) = stop - p - 1" by simp
    ultimately show ?thesis by (simp only: in_measure split)
  qed
qed simp

declare copy_until.simps [simp del]

record layout =
  ram_data_start :: u32
  ram_data_end :: u32
  rom_data_start :: u32
  ram_exc_start :: u32
  ram_exc_end :: u32
  rom_exc_start :: u32

definition hal_copy_data :: "layout \<Rightarrow> byte_mem \<Rightarrow> byte_mem" where
  "hal_copy_data l m =
     (let m1 = copy_until (ram_data_start l) (rom_data_start l) (ram_data_end l) m;
          p = ram_exc_start l; q = rom_exc_start l
      in if p \<noteq> q then copy_until p q (ram_exc_end l) m1 else m1)"

subsection \<open>The delay loop\<close>

text \<open>
  \<^verbatim>\<open>hal_delay_us\<close>: the number of iterations of each of its assembler loops, in order. Two of
  the loops are \<^verbatim>\<open>addi r,r,-1; bne r,zero\<close> (an operand of 0 wraps around and takes \<open>2^32\<close>
  iterations), the third is \<^verbatim>\<open>addi r,r,-1; bgt r,zero\<close> (at least one iteration). \<open>freq\<close> is
  \<^verbatim>\<open>ALT_CPU_FREQ\<close>, \<open>cpl\<close> is \<^verbatim>\<open>cycles_per_loop\<close>. \<open>None\<close> is the division by zero of a
  clock too slow for one loop per microsecond. Products are those of \<^verbatim>\<open>int\<close>, wrapped to 32 bits.
\<close>

definition bne_loop :: "u32 \<Rightarrow> nat" where
  "bne_loop r = (if r = 0 then 2 ^ 32 else unat r)"

definition bgt_loop :: "u32 \<Rightarrow> nat" where
  "bgt_loop r = nat (max 1 (sint r))"

definition INT_MAX :: int where
  "INT_MAX = 2147483647"

definition hal_delay_us :: "int \<Rightarrow> int \<Rightarrow> int \<Rightarrow> nat list option" where
  "hal_delay_us freq cpl us =
     (let per_us = freq div (cpl * 1000000)
      in if per_us = 0 then None
         else
           (let chunk = INT_MAX div per_us;
                big_loops = (if us < 0 then - (- us div chunk) else us div chunk)
            in Some (if big_loops \<noteq> 0 then
                       replicate (nat big_loops) (bne_loop (of_int INT_MAX)) @
                       [bne_loop (of_int ((us - int (nat big_loops) * chunk) * per_us))]
                     else [bgt_loop (of_int (us * per_us))])))"

subsection \<open>Interrupt tables and masks\<close>

record hal_irq =
  hal_interrupt_handlers :: "u32 list"
  hal_interrupt_data :: "u32 list"
  hal_interrupt_objects :: "u32 list"
  ienable :: u32
  status :: u32

definition HAL_INTERRUPT_IN_USE :: "u32 \<Rightarrow> nat \<Rightarrow> hal_irq \<Rightarrow> bool" where
  "HAL_INTERRUPT_IN_USE default_isr v s \<longleftrightarrow> hal_interrupt_handlers s ! v \<noteq> default_isr"

definition HAL_INTERRUPT_ATTACH :: "u32 \<Rightarrow> nat \<Rightarrow> u32 \<Rightarrow> u32 \<Rightarrow> u32 \<Rightarrow> hal_irq \<Rightarrow> hal_irq" where
  "HAL_INTERRUPT_ATTACH default_isr v isr data object s =
     (if hal_interrupt_handlers s ! v = default_isr then
        s\<lparr>hal_interrupt_handlers := (hal_interrupt_handlers s)[v := isr],
          hal_interrupt_data := (hal_interrupt_data s)[v := data],
          hal_interrupt_objects := (hal_interrupt_objects s)[v := object]\<rparr>
      else s)"

definition HAL_INTERRUPT_DETACH :: "u32 \<Rightarrow> nat \<Rightarrow> u32 \<Rightarrow> hal_irq \<Rightarrow> hal_irq" where
  "HAL_INTERRUPT_DETACH default_isr v isr s =
     (if hal_interrupt_handlers s ! v = isr then
        s\<lparr>hal_interrupt_handlers := (hal_interrupt_handlers s)[v := default_isr],
          hal_interrupt_data := (hal_interrupt_data s)[v := 0],
          hal_interrupt_objects := (hal_interrupt_objects s)[v := 0]\<rparr>
      else s)"

definition HAL_INTERRUPT_MASK :: "nat \<Rightarrow> hal_irq \<Rightarrow> hal_irq" where
  "HAL_INTERRUPT_MASK v s = s\<lparr>ienable := ienable s AND NOT (push_bit v 1)\<rparr>"

definition HAL_INTERRUPT_UNMASK :: "nat \<Rightarrow> hal_irq \<Rightarrow> hal_irq" where
  "HAL_INTERRUPT_UNMASK v s = s\<lparr>ienable := ienable s OR push_bit v 1\<rparr>"

definition HAL_DISABLE_INTERRUPTS :: "hal_irq \<Rightarrow> u32 \<times> hal_irq" where
  "HAL_DISABLE_INTERRUPTS s = (status s, s\<lparr>status := 0\<rparr>)"

definition HAL_ENABLE_INTERRUPTS :: "hal_irq \<Rightarrow> hal_irq" where
  "HAL_ENABLE_INTERRUPTS s = s\<lparr>status := 1\<rparr>"

definition HAL_RESTORE_INTERRUPTS :: "u32 \<Rightarrow> hal_irq \<Rightarrow> hal_irq" where
  "HAL_RESTORE_INTERRUPTS old s = s\<lparr>status := old\<rparr>"

subsection \<open>Saved registers\<close>

record HAL_SavedRegisters =
  sr_pc :: u32
  sr_fp :: u32
  sr_d_high :: "u32 list"
  sr_status :: u32
  sr_reg_arg0 :: u32
  sr_estatus :: u32
  sr_ea :: u32
  sr_et :: u32
  sr_gp :: u32
  sr_d_low :: "u32 list"
  sr_ra :: u32
  sr_sp :: u32
  sr_ipending :: u32
  sr_ienable :: u32

text \<open>Well-formed: the arrays have the lengths of the structure (8 and 15).\<close>

definition sr_ok :: "HAL_SavedRegisters \<Rightarrow> bool" where
  "sr_ok r \<longleftrightarrow> length (sr_d_high r) = 8 \<and> length (sr_d_low r) = 15"

definition sizeof_SavedRegisters :: u32 where
  "sizeof_SavedRegisters = 140"

text \<open>\<^verbatim>\<open>HAL_GET_GDB_REGISTERS\<close>: the array of 38 registers in the order of GDB.\<close>

definition HAL_GET_GDB_REGISTERS :: "HAL_SavedRegisters \<Rightarrow> u32 list" where
  "HAL_GET_GDB_REGISTERS r =
     [0] @ map (\<lambda>i. sr_d_low r ! (i - 1)) [1..<16] @ map (\<lambda>i. sr_d_high r ! (i - 16)) [16..<24] @
     [sr_et r, 0xbad, sr_gp r, sr_sp r, sr_fp r, sr_ea r, 0xbad, sr_ra r, sr_pc r, sr_status r,
      sr_estatus r, 0xbad, sr_ienable r, sr_ipending r]"

definition HAL_SET_GDB_REGISTERS :: "HAL_SavedRegisters \<Rightarrow> u32 list \<Rightarrow> HAL_SavedRegisters" where
  "HAL_SET_GDB_REGISTERS r v =
     r\<lparr>sr_d_low := map (\<lambda>i. v ! (i + 1)) [0..<15], sr_d_high := map (\<lambda>i. v ! (i + 16)) [0..<8],
       sr_gp := v ! 26, sr_sp := v ! 27, sr_fp := v ! 28, sr_ra := v ! 31, sr_pc := v ! 32,
       sr_reg_arg0 := v ! 4\<rparr>"

text \<open>
  \<^verbatim>\<open>HAL_THREAD_INIT_CONTEXT\<close>: the new stack pointer, which is the address of the saved
  registers, and these registers (on top of what the stack held there).
\<close>

definition HAL_THREAD_INIT_CONTEXT ::
  "u32 \<Rightarrow> u32 \<Rightarrow> u32 \<Rightarrow> u32 \<Rightarrow> HAL_SavedRegisters \<Rightarrow> u32 \<times> HAL_SavedRegisters" where
  "HAL_THREAD_INIT_CONTEXT gp sparg thread entry r =
     (let sp = (sparg - 56) AND 0xFFFFFFF0;
          regs = (sp - sizeof_SavedRegisters) AND 0xFFFFFFF0
      in (regs, r\<lparr>sr_d_low := (sr_d_low r)[3 := thread], sr_reg_arg0 := thread, sr_status := 1,
                  sr_gp := gp, sr_fp := sp, sr_sp := sp, sr_pc := entry\<rparr>))"

subsection \<open>The bit indices are right\<close>

lemma lowest_bit:
  assumes "bit (m::u32) k" "\<forall>j < k. \<not> bit m j"
  shows "m AND NOT (m - 1) = push_bit k 1"
proof -
  have k: "k < 32" using assms(1) bit_imp_le_length [of m k] by simp
  let ?h = "m AND NOT (mask (Suc k))"
  have m: "m = ?h OR push_bit k 1"
    by (rule bit_word_eqI) (use assms in \<open>auto simp: bit_simps less_Suc_eq\<close>)
  have disj: "?h AND push_bit k 1 = 0" "?h AND mask k = 0"
    by (rule bit_word_eqI, auto simp: bit_simps)+
  have "m = ?h + push_bit k 1"
    using m disj(1) by (metis disjunctive_add_eq_or)
  then have "m - 1 = ?h + mask k"
    by (metis add_diff_eq mask_eq_exp_minus_1 push_bit_of_1)
  also have "\<dots> = ?h OR mask k"
    using disj(2) by (rule disjunctive_add_eq_or)
  finally have "m - 1 = ?h OR mask k" .
  then show ?thesis
    by (intro bit_word_eqI) (use assms k in \<open>auto simp: bit_simps less_Suc_eq\<close>)
qed

text \<open>Both routines are checked on the 32 words that remain.\<close>

lemma all_below_32:
  "(\<forall>k < 32. P k) \<longleftrightarrow> P 0 \<and> P 1 \<and> P 2 \<and> P 3 \<and> P 4 \<and> P 5 \<and> P 6 \<and> P 7 \<and> P 8 \<and> P 9 \<and> P 10 \<and> P 11 \<and> P 12 \<and>
    P 13 \<and> P 14 \<and> P 15 \<and> P 16 \<and> P 17 \<and> P 18 \<and> P 19 \<and> P 20 \<and> P 21 \<and> P 22 \<and> P 23 \<and> P 24 \<and> P 25 \<and> P 26 \<and>
    P 27 \<and> P 28 \<and> P 29 \<and> P 30 \<and> P (31 :: nat)"
  by (simp add: All_less_Suc2 numeral_eq_Suc)

lemma lsbit_tab_right: "\<forall>k < 32. hal_lsbit_index (push_bit k 1) = of_nat k"
  unfolding all_below_32 by (simp add: hal_lsbit_index_def lsbit_tab_def mask_eq_exp_minus_1)

lemma popcount_mask: "\<forall>k < 32. popcount (mask (Suc k)) = of_nat (Suc k)"
  unfolding all_below_32 by (simp add: popcount_def mask_eq_exp_minus_1)

lemma lowest_bit_exists:
  assumes "(m::u32) \<noteq> 0"
  obtains k where "k < 32" "bit m k" "\<forall>j < k. \<not> bit m j"
proof -
  have "\<exists>k. bit m k" using assms by (auto simp: bit_eq_iff)
  then have l: "bit m (LEAST k. bit m k)" by (rule LeastI_ex)
  moreover have "(LEAST k. bit m k) < 32" using bit_imp_le_length [OF l] by simp
  moreover have "\<forall>j < (LEAST k. bit m k). \<not> bit m j" using not_less_Least by blast
  ultimately show thesis by (intro that)
qed

lemma hal_lsbit_index_lowest:
  assumes "k < 32" "bit m k" "\<forall>j < k. \<not> bit m j"
  shows "hal_lsbit_index m = of_nat k"
proof -
  have "push_bit k (1::u32) AND NOT (push_bit k 1 - 1) = push_bit k 1"
    by (rule lowest_bit) (use assms in \<open>auto simp: bit_simps\<close>)
  then have "hal_lsbit_index m = hal_lsbit_index (push_bit k 1)"
    by (simp only: hal_lsbit_index_def lowest_bit [OF assms(2,3)] Let_def)
  then show ?thesis using lsbit_tab_right assms(1) by simp
qed

lemma smear_bits:
  assumes "\<And>i. bit (x::u32) i \<longleftrightarrow> (\<exists>d \<in> set ds. bit (m::u32) (i + d))"
  shows "bit (x OR drop_bit n x) i \<longleftrightarrow> (\<exists>d \<in> set (ds @ map ((+) n) ds). bit m (i + d))"
  using assms by (auto simp: bit_simps add.assoc add.left_commute)

lemma smear_mask:
  assumes "bit (m::u32) k" "\<forall>j > k. \<not> bit m j"
  shows "smear m = mask (Suc k)"
proof (rule bit_word_eqI)
  fix i :: nat assume "i < LENGTH(32)"
  let ?s = "\<lambda>ds n. ds @ map ((+) n) ds"
  let ?ds = "?s (?s (?s (?s (?s [0] 16) 8) 4) 2) (1::nat)"
  have "set ?ds = set [0..<32]" by code_simp
  then have set: "set ?ds = {0..<32}" by (simp only: set_upt)
  have "bit (smear m) i \<longleftrightarrow> (\<exists>d \<in> set ?ds. bit m (i + d))"
    unfolding smear_def Let_def by (rule smear_bits)+ simp
  then have "bit (smear m) i \<longleftrightarrow> (\<exists>d < 32. bit m (i + d))" by (simp only: set) auto
  also have "\<dots> \<longleftrightarrow> i \<le> k"
  proof
    assume "\<exists>d < 32. bit m (i + d)"
    then show "i \<le> k" using assms(2) by (metis le_add1 not_le order_trans)
  next
    assume "i \<le> k"
    moreover have "k < 32" using assms(1) bit_imp_le_length [of m k] by simp
    ultimately have "k - i < 32" "i + (k - i) = k" by auto
    then show "\<exists>d < 32. bit m (i + d)" using assms(1) by metis
  qed
  finally show "bit (smear m) i \<longleftrightarrow> bit (mask (Suc k) :: u32) i"
    using \<open>i < LENGTH(32)\<close> by (auto simp: bit_simps)
qed

lemma highest_bit_exists:
  assumes "(m::u32) \<noteq> 0"
  obtains k where "k < 32" "bit m k" "\<forall>j > k. \<not> bit m j"
proof -
  let ?S = "{k. bit m k}"
  have fin: "finite ?S" by (rule finite_subset [of _ "{..<32}"]) (auto dest: bit_imp_le_length)
  have "?S \<noteq> {}" using assms by (auto simp: bit_eq_iff)
  with fin have l: "bit m (Max ?S)" using Max_in by blast
  moreover have "Max ?S < 32" using bit_imp_le_length [OF l] by simp
  moreover have "\<forall>j > Max ?S. \<not> bit m j" using Max_ge [OF fin] by (metis mem_Collect_eq not_le)
  ultimately show thesis by (intro that)
qed

lemma hal_msbit_index_highest:
  assumes "k < 32" "bit m k" "\<forall>j > k. \<not> bit m j"
  shows "hal_msbit_index m = of_nat k"
  using popcount_mask assms(1) by (simp add: hal_msbit_index_def smear_mask [OF assms(2,3)])

text \<open>
  C15: the table-driven and bit-counting routines find the lowest and the highest set bit of
  every non-zero mask, and return -1 (as an unsigned word) for the mask 0.
\<close>

theorem bit_index_correct:
  "if m = 0 then hal_lsbit_index m = - 1 \<and> hal_msbit_index m = - 1
   else bit m (unat (hal_lsbit_index m)) \<and> (\<forall>j. bit m j \<longrightarrow> unat (hal_lsbit_index m) \<le> j) \<and>
        bit m (unat (hal_msbit_index m)) \<and> (\<forall>j. bit m j \<longrightarrow> j \<le> unat (hal_msbit_index m))"
proof (cases "m = 0")
  case True
  then show ?thesis
    by (simp add: hal_lsbit_index_def lsbit_tab_def hal_msbit_index_def smear_def popcount_def)
next
  case False
  obtain k where k: "k < 32" "bit m k" "\<forall>j < k. \<not> bit m j" using lowest_bit_exists [OF False] by blast
  obtain l where l: "l < 32" "bit m l" "\<forall>j > l. \<not> bit m j" using highest_bit_exists [OF False] by blast
  have "unat (of_nat n :: u32) = n" if "n < 32" for n using that by (simp add: unat_of_nat_u32)
  with k l False show ?thesis
    by (simp add: hal_lsbit_index_lowest [OF k] hal_msbit_index_highest [OF l]) (meson not_le)
qed

theorem bit_index_correct_witness:
  "unat (hal_lsbit_index 0x1400) \<le> 10 \<and> 12 \<le> unat (hal_msbit_index 0x1400)"
  using bit_index_correct [of "0x1400"] by (auto dest: spec [of _ 10] spec [of _ 12])

subsection \<open>The data section is copied\<close>

lemma copy_until_copies:
  assumes "n < 2 ^ 32" "\<forall>i < n. \<forall>j < n. p + of_nat i \<noteq> q + of_nat j"
  shows "copy_until p q (p + of_nat n) m =
    (\<lambda>a. if unat (a - p) < n then m (q + (a - p)) else m a)"
  using assms
proof (induction n arbitrary: p q m)
  case 0
  then show ?case by (simp add: copy_until.simps)
next
  case (Suc n)
  have "(of_nat (Suc n) :: u32) \<noteq> 0"
    using Suc.prems(1) by (metis Zero_not_Suc unat_0 unat_of_nat_u32)
  then have ne: "p \<noteq> p + of_nat (Suc n)" by (metis add_cancel_right_right)
  have "\<forall>i < n. \<forall>j < n. p + 1 + of_nat i \<noteq> q + 1 + of_nat j"
    using Suc.prems(2) by (auto simp: add.assoc)
  then have IH: "copy_until (p + 1) (q + 1) (p + 1 + of_nat n) (m(p := m q)) =
      (\<lambda>a. if unat (a - (p + 1)) < n then (m(p := m q)) (q + 1 + (a - (p + 1))) else (m(p := m q)) a)"
    using Suc.prems(1) by (intro Suc.IH) simp_all
  have first: "q + (a - p) \<noteq> p" if "unat (a - p) < Suc n" for a
    using Suc.prems(2) [rule_format, of 0 "unat (a - p)"] that by auto
  have step: "unat (a - p) < Suc n \<longleftrightarrow> a = p \<or> unat (a - (p + 1)) < n" for a
  proof (cases "a = p")
    case False
    then have "unat (a - p - 1) = unat (a - p) - 1" "unat (a - p) \<noteq> 0"
      by (auto simp: unat_minus_one unat_eq_0)
    moreover have e: "a - (p + 1) = a - p - 1" by (simp only: diff_diff_eq)
    ultimately show ?thesis using False unfolding e by auto
  qed simp
  have "copy_until p q (p + of_nat (Suc n)) m = copy_until (p + 1) (q + 1) (p + 1 + of_nat n) (m(p := m q))"
    using ne by (subst copy_until.simps) (simp add: add.assoc)
  also have "\<dots> = (\<lambda>a. if unat (a - p) < Suc n then m (q + (a - p)) else m a)"
  proof
    fix a
    have "q + 1 + (a - (p + 1)) = q + (a - p)" by simp
    then show "copy_until (p + 1) (q + 1) (p + 1 + of_nat n) (m(p := m q)) a =
        (if unat (a - p) < Suc n then m (q + (a - p)) else m a)"
      using first [of a] step [of a] unfolding IH by auto
  qed
  finally show ?case .
qed

text \<open>A section that the loader has to copy: its length and the two places do not overlap.\<close>

definition section_ok :: "u32 \<Rightarrow> u32 \<Rightarrow> u32 \<Rightarrow> bool" where
  "section_ok ram rom stop \<longleftrightarrow>
     (\<forall>i < unat (stop - ram). \<forall>j < unat (stop - ram). ram + of_nat i \<noteq> rom + of_nat j)"

lemma copy_until_section:
  assumes "section_ok ram rom stop"
  shows "copy_until ram rom stop m =
    (\<lambda>a. if a - ram < stop - ram then m (rom + (a - ram)) else m a)"
  using copy_until_copies [of "unat (stop - ram)" ram rom m] assms unat_u32_less [of "stop - ram"]
  by (simp add: section_ok_def word_less_nat_alt)

text \<open>
  At ROM startup, the data section and the exception handler are copied exactly: afterwards
  every address of the RAM data section holds the byte of its ROM image, every address of the
  exception area likewise (when it is not in place already), and no other byte has changed.
\<close>

theorem hal_copy_data_copies:
  assumes "section_ok (ram_data_start l) (rom_data_start l) (ram_data_end l)"
    and "ram_exc_start l \<noteq> rom_exc_start l \<longrightarrow>
           section_ok (ram_exc_start l) (rom_exc_start l) (ram_exc_end l)"
  shows "hal_copy_data l m =
    (let data = (\<lambda>a. if a - ram_data_start l < ram_data_end l - ram_data_start l
                     then m (rom_data_start l + (a - ram_data_start l)) else m a)
     in (\<lambda>a. if ram_exc_start l \<noteq> rom_exc_start l \<and> a - ram_exc_start l < ram_exc_end l - ram_exc_start l
             then data (rom_exc_start l + (a - ram_exc_start l)) else data a))"
  using assms copy_until_section
  by (auto simp: hal_copy_data_def Let_def fun_eq_iff)

definition demo_layout :: layout where
  "demo_layout = \<lparr>ram_data_start = 0x100, ram_data_end = 0x103, rom_data_start = 0x210,
     ram_exc_start = 0x20, ram_exc_end = 0x40, rom_exc_start = 0x20\<rparr>"

theorem hal_copy_data_copies_witness:
  "hal_copy_data demo_layout ucast 0x102 = 0x12 \<and> hal_copy_data demo_layout ucast 0x103 = 3"
proof -
  have "unat (0x103 - 0x100 :: u32) = Suc (Suc (Suc 0))" by simp
  then have "section_ok 0x100 0x210 0x103"
    unfolding section_ok_def by (simp only:) (simp add: All_less_Suc2)
  then show ?thesis
    using hal_copy_data_copies [of demo_layout ucast]
    by (simp add: demo_layout_def Let_def)
qed

subsection \<open>The delay loop\<close>

lemma bne_loop_of_int:
  assumes "0 < x" "x < 2 ^ 32"
  shows "bne_loop (of_int x) = nat x"
proof -
  have u: "unat (of_int x :: u32) = nat x"
    using assms by (simp add: unsigned_of_int take_bit_int_eq_self)
  then have "(of_int x :: u32) \<noteq> 0" using assms(1) by auto
  with u show ?thesis by (simp add: bne_loop_def)
qed

lemma bgt_loop_of_int:
  assumes "0 < x" "x < 2 ^ 31"
  shows "bgt_loop (of_int x) = nat x"
  using assms by (simp add: bgt_loop_def signed_of_int signed_take_bit_int_eq_self)

text \<open>
  For a positive time and a clock of at least one loop iteration per microsecond,
  \<^verbatim>\<open>hal_delay_us\<close> runs its loops for exactly the iterations of the requested time, without
  overflow; except that a time of exactly a multiple of the longest single loop makes the last loop
  start at 0 and run \<open>2^32\<close> iterations more.
\<close>

theorem hal_delay_us_iterations:
  assumes "0 < us" "per_us = freq div (cpl * 1000000)" "0 < per_us" "per_us \<le> INT_MAX"
    and "chunk = INT_MAX div per_us"
  shows "hal_delay_us freq cpl us = Some
    (if us < chunk then [nat (us * per_us)]
     else replicate (nat (us div chunk)) (nat INT_MAX) @
          [if us mod chunk = 0 then 2 ^ 32 else nat (us mod chunk * per_us)])"
proof -
  have chunk: "0 < chunk" "chunk * per_us \<le> INT_MAX"
    using assms(3-5) by (simp_all add: pos_imp_zdiv_pos_iff minus_mod_eq_div_mult [symmetric])
  have big: "us div chunk = 0 \<longleftrightarrow> us < chunk" "0 \<le> us div chunk"
    using assms(1) chunk(1) by (auto simp: zdiv_eq_0_iff pos_imp_zdiv_nonneg_iff)
  have rest: "us - us div chunk * chunk = us mod chunk" by (simp add: minus_div_mult_eq_mod)
  have m: "0 \<le> us mod chunk" "us mod chunk < chunk" using chunk(1) by simp_all
  have small: "0 < x * per_us" "x * per_us < 2 ^ 31" if "0 < x" "x < chunk" for x
  proof -
    have "x * per_us \<le> chunk * per_us" using that assms(3) by (intro mult_right_mono) auto
    with chunk(2) show "x * per_us < 2 ^ 31" by (simp add: INT_MAX_def)
    show "0 < x * per_us" using that assms(3) by simp
  qed
  have last: "bne_loop (of_int (us mod chunk * per_us)) =
      (if us mod chunk = 0 then 2 ^ 32 else nat (us mod chunk * per_us))"
    using small [of "us mod chunk"] m
    by (cases "us mod chunk = 0") (simp_all add: bne_loop_of_int bne_loop_def [of 0] del: of_int_mult)
  have full: "bne_loop (of_int INT_MAX) = nat INT_MAX" by (rule bne_loop_of_int) (simp_all add: INT_MAX_def)
  show ?thesis
    using assms(1,3) big small [of us]
    by (simp add: hal_delay_us_def assms(2) [symmetric] assms(5) [symmetric] Let_def rest last full bgt_loop_of_int
        del: of_int_mult)
qed

theorem hal_delay_us_iterations_witness:
  "hal_delay_us 50000000 3 100 = Some [1600] \<and>
   hal_delay_us 50000000 3 134217727 = Some [nat INT_MAX, 2 ^ 32]"
proof -
  have c: "16 \<le> INT_MAX" "134217727 = INT_MAX div 16" by (simp_all add: INT_MAX_def)
  have "hal_delay_us 50000000 3 100 = Some [1600]"
    using hal_delay_us_iterations [OF _ _ _ c, of 100 50000000 3] by simp
  moreover have "hal_delay_us 50000000 3 134217727 = Some [nat INT_MAX, 2 ^ 32]"
    using hal_delay_us_iterations [OF _ _ _ c, of 134217727 50000000 3] by simp
  ultimately show ?thesis by blast
qed

subsection \<open>Registers\<close>

lemma align16: "unat (x AND 0xFFFFFFF0 :: u32) = 16 * (unat x div 16)"
proof -
  have e: "(0xFFFFFFF0 :: u32) = NOT (mask 4)" by (simp add: mask_eq_exp_minus_1)
  have "x AND 0xFFFFFFF0 = push_bit 4 (drop_bit 4 x)"
    unfolding e by (rule bit_word_eqI) (auto simp: bit_simps)
  moreover have "16 * (unat x div 16) < 2 ^ 32" using unat_u32_less [of x] by simp
  then have "unat (push_bit 4 (drop_bit 4 x)) = 16 * (unat x div 16)"
    by (simp only: unsigned_push_bit_eq unsigned_drop_bit_eq)
       (simp add: drop_bit_eq_div push_bit_eq_mult take_bit_nat_eq_self mult.commute)
  ultimately show ?thesis by (simp only:)
qed

text \<open>The registers that the debugger can change.\<close>

definition gdb_writable :: "nat \<Rightarrow> bool" where
  "gdb_writable i \<longleftrightarrow> i \<in> set ([1..<24] @ [26, 27, 28, 31, 32])"

lemma nth_blocks:
  assumes "1 \<le> m" "m \<le> n" "i < n"
  shows "([z] @ map f [1..<m] @ map g [m..<n] @ hs) ! i = (if i = 0 then z else if i < m then f i else g i)"
  using assms by (auto simp: nth_append nth_Cons')

lemma get_gdb_low: "i < 24 \<Longrightarrow> HAL_GET_GDB_REGISTERS r ! i =
    (if i = 0 then 0 else if i < 16 then sr_d_low r ! (i - 1) else sr_d_high r ! (i - 16))"
  unfolding HAL_GET_GDB_REGISTERS_def by (subst nth_blocks) simp_all

lemma get_gdb_high:
  "HAL_GET_GDB_REGISTERS r ! 26 = sr_gp r" "HAL_GET_GDB_REGISTERS r ! 27 = sr_sp r"
  "HAL_GET_GDB_REGISTERS r ! 28 = sr_fp r" "HAL_GET_GDB_REGISTERS r ! 31 = sr_ra r"
  "HAL_GET_GDB_REGISTERS r ! 32 = sr_pc r"
  by (simp_all add: HAL_GET_GDB_REGISTERS_def nth_append)

text \<open>
  The debugger's view of a thread. Writing back the registers as read leaves a context
  unchanged (apart from the argument register's copy, which becomes r4), and what GDB writes into
  the general registers, gp, sp, fp, ra and pc is what it reads back.
\<close>

theorem gdb_registers_roundtrip:
  assumes "sr_ok r"
  shows "HAL_SET_GDB_REGISTERS r (HAL_GET_GDB_REGISTERS r) = r\<lparr>sr_reg_arg0 := sr_d_low r ! 3\<rparr> \<and>
    (\<forall>i. gdb_writable i \<longrightarrow> HAL_GET_GDB_REGISTERS (HAL_SET_GDB_REGISTERS r v) ! i = v ! i)"
proof
  have "map (\<lambda>i. HAL_GET_GDB_REGISTERS r ! (i + 1)) [0..<15] = sr_d_low r"
    "map (\<lambda>i. HAL_GET_GDB_REGISTERS r ! (i + 16)) [0..<8] = sr_d_high r"
    using assms by (auto simp: sr_ok_def get_gdb_low intro: nth_equalityI)
  then show "HAL_SET_GDB_REGISTERS r (HAL_GET_GDB_REGISTERS r) = r\<lparr>sr_reg_arg0 := sr_d_low r ! 3\<rparr>"
    by (simp add: HAL_SET_GDB_REGISTERS_def get_gdb_high get_gdb_low)
  show "\<forall>i. gdb_writable i \<longrightarrow> HAL_GET_GDB_REGISTERS (HAL_SET_GDB_REGISTERS r v) ! i = v ! i"
    by (auto simp: gdb_writable_def get_gdb_low get_gdb_high) (auto simp: HAL_SET_GDB_REGISTERS_def)
qed

definition demo_regs :: HAL_SavedRegisters where
  "demo_regs = \<lparr>sr_pc = 1, sr_fp = 2, sr_d_high = replicate 8 3, sr_status = 1, sr_reg_arg0 = 0,
     sr_estatus = 0, sr_ea = 4, sr_et = 5, sr_gp = 6, sr_d_low = replicate 15 7, sr_ra = 8, sr_sp = 9,
     sr_ipending = 0, sr_ienable = 0\<rparr>"

theorem gdb_registers_roundtrip_witness:
  "HAL_SET_GDB_REGISTERS demo_regs (HAL_GET_GDB_REGISTERS demo_regs) = demo_regs\<lparr>sr_reg_arg0 := 7\<rparr> \<and>
   HAL_GET_GDB_REGISTERS (HAL_SET_GDB_REGISTERS demo_regs (replicate 38 0x55)) ! 32 = 0x55"
  using gdb_registers_roundtrip [of demo_regs "replicate 38 0x55"]
  by (auto simp: sr_ok_def demo_regs_def gdb_writable_def)

text \<open>
  A new thread's context: the saved registers lie below the initial stack pointer without
  overlapping it, both are aligned to 16 bytes, 56 bytes stay free above the stack pointer, and the
  thread starts at its entry point with the thread object as its argument, interrupts enabled.
\<close>

theorem thread_context_placed:
  assumes "HAL_THREAD_INIT_CONTEXT gp sparg thread entry r = (regs, r')"
    and "226 \<le> unat sparg" "sr_ok r"
  shows "unat regs mod 16 = 0 \<and> unat (sr_sp r') mod 16 = 0 \<and>
    unat regs + 140 \<le> unat (sr_sp r') \<and> unat (sr_sp r') + 56 \<le> unat sparg \<and>
    HAL_GET_GDB_REGISTERS r' ! 32 = entry \<and> HAL_GET_GDB_REGISTERS r' ! 4 = thread \<and>
    HAL_GET_GDB_REGISTERS r' ! 27 = sr_sp r' \<and> sr_status r' = 1"
proof -
  let ?sp = "(sparg - 56) AND 0xFFFFFFF0"
  have s56: "unat (sparg - 56) = unat sparg - 56"
    using assms(2) by (subst unat_sub) (simp_all add: word_le_nat_alt)
  have sp: "unat ?sp = 16 * ((unat sparg - 56) div 16)" by (simp only: align16 s56)
  have "140 \<le> unat ?sp" unfolding sp using assms(2) by linarith
  then have "unat (?sp - 140) = unat ?sp - 140" by (subst unat_sub) (simp_all add: word_le_nat_alt)
  then have regs: "unat ((?sp - 140) AND 0xFFFFFFF0) = 16 * ((unat ?sp - 140) div 16)"
    by (simp only: align16)
  have room: "16 * ((16 * ((unat sparg - 56) div 16) - 140) div 16) + 140 \<le> 16 * ((unat sparg - 56) div 16)"
    "16 * ((unat sparg - 56) div 16) + 56 \<le> unat sparg"
    using assms(2) by linarith+
  have r': "regs = (?sp - 140) AND 0xFFFFFFF0" "sr_sp r' = ?sp"
    "r' = r\<lparr>sr_d_low := (sr_d_low r)[3 := thread], sr_reg_arg0 := thread, sr_status := 1,
                  sr_gp := gp, sr_fp := ?sp, sr_sp := ?sp, sr_pc := entry\<rparr>"
    using assms(1) by (auto simp: HAL_THREAD_INIT_CONTEXT_def sizeof_SavedRegisters_def Let_def)
  show ?thesis
    unfolding r'(1,2) regs sp using assms(2,3) r'(3) room
    by (auto simp: get_gdb_high get_gdb_low sr_ok_def)
qed

theorem thread_context_placed_witness:
  "unat (fst (HAL_THREAD_INIT_CONTEXT 0 0x8000 0x1234 0x400 demo_regs)) mod 16 = 0 \<and>
   HAL_GET_GDB_REGISTERS (snd (HAL_THREAD_INIT_CONTEXT 0 0x8000 0x1234 0x400 demo_regs)) ! 4 = 0x1234"
  using thread_context_placed [where gp = 0 and sparg = "0x8000" and thread = "0x1234" and entry = "0x400"
      and r = demo_regs, OF surjective_pairing]
  by (simp add: sr_ok_def demo_regs_def)

subsection \<open>Interrupts\<close>

text \<open>
  Interrupt vectors. Attaching takes a free vector and no other (a vector in use keeps its
  handler); only the owner can detach, and that frees the vector; masking and unmasking change the
  enable bit of their own vector only.
\<close>

theorem interrupt_vectors:
  assumes "v < length (hal_interrupt_handlers s)" "isr \<noteq> def" "v < 32" "w < 32"
  shows "(let s' = HAL_INTERRUPT_ATTACH def v isr data obj s
      in HAL_INTERRUPT_IN_USE def v s' \<and>
         (HAL_INTERRUPT_IN_USE def v s \<longrightarrow> s' = s) \<and>
         (\<not> HAL_INTERRUPT_IN_USE def v s \<longrightarrow> \<not> HAL_INTERRUPT_IN_USE def v (HAL_INTERRUPT_DETACH def v isr s')) \<and>
         (u \<noteq> v \<longrightarrow> HAL_INTERRUPT_IN_USE def u s' = HAL_INTERRUPT_IN_USE def u s) \<and>
         (hal_interrupt_handlers s ! v \<noteq> isr' \<longrightarrow> HAL_INTERRUPT_DETACH def v isr' s = s)) \<and>
    bit (ienable (HAL_INTERRUPT_UNMASK v s)) w = (w = v \<or> bit (ienable s) w) \<and>
    bit (ienable (HAL_INTERRUPT_MASK v s)) w = (w \<noteq> v \<and> bit (ienable s) w)"
proof -
  have "bit (push_bit v 1 :: u32) w \<longleftrightarrow> w = v" using assms(3,4) by (auto simp: bit_simps)
  then show ?thesis
    using assms(1,2,4)
    by (auto simp: HAL_INTERRUPT_ATTACH_def HAL_INTERRUPT_DETACH_def HAL_INTERRUPT_IN_USE_def
        HAL_INTERRUPT_UNMASK_def HAL_INTERRUPT_MASK_def bit_or_iff bit_and_iff bit_not_iff Let_def)
qed

definition demo_irq :: hal_irq where
  "demo_irq = \<lparr>hal_interrupt_handlers = replicate 32 0x100, hal_interrupt_data = replicate 32 0,
     hal_interrupt_objects = replicate 32 0, ienable = 0, status = 1\<rparr>"

theorem interrupt_vectors_witness:
  "HAL_INTERRUPT_IN_USE 0x100 3 (HAL_INTERRUPT_ATTACH 0x100 3 0x2000 7 8 demo_irq) \<and>
   bit (ienable (HAL_INTERRUPT_UNMASK 3 demo_irq)) 3"
  using interrupt_vectors [of 3 demo_irq "0x2000" "0x100" 3 7 8 5 "0x2000"] by (auto simp: demo_irq_def Let_def)

end
