(* ===== verification/Nios2_Stub.thy ===== *)
theory Nios2_Stub
  imports Nios_Prelude
begin

text \<open>
  The GDB stub of the Nios II HAL (\<^verbatim>\<open>nios2-stub.c\<close>, with the opcodes and instruction formats
  of \<^verbatim>\<open>nios2_opcode.h\<close>): breakpoints set by an interrupted program, single-stepping by a
  breakpoint on the next instruction, installing and removing breakpoints.

  Memory maps the address of an instruction to its word; registers are numbered as in
  \<^verbatim>\<open>plf_stub.h\<close>. The breakpoint instruction and the list of GDB breakpoints belong to the
  generic stub of eCos: they are parameters (\<open>break_opcode\<close>, the list state and its two
  operations), as is the address of \<^verbatim>\<open>_breakinst\<close>. Cache synchronisation is not modelled.
  The null pointer is the address 0.
\<close>

unbundle bit_operations_syntax

subsection \<open>Instruction formats\<close>

definition op_of :: "u32 \<Rightarrow> u32" where "op_of w = w AND 0x3f"
definition itype_imm :: "u32 \<Rightarrow> 16 word" where "itype_imm w = ucast (drop_bit 6 w)"
definition field_b :: "u32 \<Rightarrow> nat" where "field_b w = unat (drop_bit 22 w AND 0x1f)"
definition field_a :: "u32 \<Rightarrow> nat" where "field_a w = unat (drop_bit 27 w AND 0x1f)"
definition opx_of :: "u32 \<Rightarrow> u32" where "opx_of w = drop_bit 11 w AND 0x3f"
definition jtype_imm :: "u32 \<Rightarrow> u32" where "jtype_imm w = drop_bit 6 w"

abbreviation (input) OP_BEQ :: u32 where "OP_BEQ \<equiv> 0x26"
abbreviation (input) OP_BGE :: u32 where "OP_BGE \<equiv> 0x0e"
abbreviation (input) OP_BGEU :: u32 where "OP_BGEU \<equiv> 0x2e"
abbreviation (input) OP_BLT :: u32 where "OP_BLT \<equiv> 0x16"
abbreviation (input) OP_BLTU :: u32 where "OP_BLTU \<equiv> 0x36"
abbreviation (input) OP_BNE :: u32 where "OP_BNE \<equiv> 0x1e"
abbreviation (input) OP_BR :: u32 where "OP_BR \<equiv> 0x06"
abbreviation (input) OP_CALL :: u32 where "OP_CALL \<equiv> 0x00"
abbreviation (input) OP_RTYPE :: u32 where "OP_RTYPE \<equiv> 0x3a"
abbreviation (input) OPX_ERET :: u32 where "OPX_ERET \<equiv> 0x01"
abbreviation (input) OPX_RET :: u32 where "OPX_RET \<equiv> 0x05"
abbreviation (input) OPX_JMP :: u32 where "OPX_JMP \<equiv> 0x0d"
abbreviation (input) OPX_CALLR :: u32 where "OPX_CALLR \<equiv> 0x1d"
abbreviation (input) NOP_INSTR :: u32 where "NOP_INSTR \<equiv> 0x0001883a"

abbreviation (input) REG_EA :: nat where "REG_EA \<equiv> 29"
abbreviation (input) REG_RA :: nat where "REG_RA \<equiv> 31"
abbreviation (input) REG_PC :: nat where "REG_PC \<equiv> 32"

abbreviation (input) SIGINT :: int where "SIGINT \<equiv> 2"
abbreviation (input) SIGTRAP :: int where "SIGTRAP \<equiv> 5"

subsection \<open>State\<close>

record 'l stub =
  mem :: "u32 \<Rightarrow> u32"
  regs :: "nat \<Rightarrow> u32"
  async_targetAddr :: u32
  async_savedInstr :: u32
  instr_targetAddr :: u32
  instr_savedInstr :: u32
  bp_list :: 'l

abbreviation (input) NULL :: u32 where "NULL \<equiv> 0"

definition get_register :: "nat \<Rightarrow> 'l stub \<Rightarrow> u32" where
  "get_register i s = regs s i"

definition put_register :: "nat \<Rightarrow> u32 \<Rightarrow> 'l stub \<Rightarrow> 'l stub" where
  "put_register i v s = s\<lparr>regs := (regs s)(i := v)\<rparr>"

definition set_pc :: "u32 \<Rightarrow> 'l stub \<Rightarrow> 'l stub" where
  "set_pc pc s = put_register REG_PC pc s"

subsection \<open>Asynchronous breakpoints\<close>

definition install_async_breakpoint :: "u32 \<Rightarrow> u32 \<Rightarrow> 'l stub \<Rightarrow> 'l stub" where
  "install_async_breakpoint breakinst epc s =
     s\<lparr>async_targetAddr := epc, async_savedInstr := mem s epc,
       mem := (mem s)(epc := mem s breakinst)\<rparr>"

definition computeSignal :: "'l stub \<Rightarrow> int \<times> 'l stub" where
  "computeSignal s =
     (if async_targetAddr s \<noteq> NULL
      then (SIGINT, s\<lparr>mem := (mem s)(async_targetAddr s := async_savedInstr s), async_targetAddr := NULL\<rparr>)
      else (SIGTRAP, s))"

definition get_trap_number :: int where
  "get_trap_number = 0"

subsection \<open>Single-stepping\<close>

definition branch_target :: "u32 \<Rightarrow> 'l stub \<Rightarrow> u32" where
  "branch_target inst s = get_register REG_PC s + scast (itype_imm inst) + 4"

definition single_step :: "'l stub \<Rightarrow> 'l stub" where
  "single_step s =
     (let pc = get_register REG_PC s;
          inst = mem s pc;
          a = get_register (field_a inst) s;
          b = get_register (field_b inst) s;
          branch = (\<lambda>taken. if taken then branch_target inst s else pc + 4);
          target =
            (if op_of inst = OP_BEQ then branch (a = b)
             else if op_of inst = OP_BGE then branch (sint a \<ge> sint b)
             else if op_of inst = OP_BGEU then branch (a \<ge> b)
             else if op_of inst = OP_BLT then branch (sint a < sint b)
             else if op_of inst = OP_BLTU then branch (a < b)
             else if op_of inst = OP_BNE then branch (a \<noteq> b)
             else if op_of inst = OP_BR then branch_target inst s
             else if op_of inst = OP_CALL then (pc AND 0xf0000000) OR (jtype_imm inst * 4)
             else if op_of inst = OP_RTYPE then
               (if opx_of inst = OPX_ERET then get_register REG_EA s
                else if opx_of inst = OPX_RET then get_register REG_RA s
                else if opx_of inst = OPX_JMP \<or> opx_of inst = OPX_CALLR then a
                else pc + 4)
             else pc + 4)
      in s\<lparr>instr_targetAddr := target\<rparr>)"

definition clear_single_step :: "'l stub \<Rightarrow> 'l stub" where
  "clear_single_step s =
     (let s1 = (if instr_targetAddr s \<noteq> NULL
                then s\<lparr>mem := (mem s)(instr_targetAddr s := instr_savedInstr s), instr_targetAddr := NULL\<rparr>
                else s)
      in s1\<lparr>instr_savedInstr := NOP_INSTR\<rparr>)"

subsection \<open>Breakpoints\<close>

text \<open>
  \<open>install_list\<close> and \<open>clear_list\<close> stand for \<^verbatim>\<open>__install_breakpoint_list\<close> and
  \<^verbatim>\<open>__clear_breakpoint_list\<close> of the generic stub, on the list's own state and memory.
\<close>

definition install_breakpoints ::
  "u32 \<Rightarrow> ('l \<Rightarrow> (u32 \<Rightarrow> u32) \<Rightarrow> 'l \<times> (u32 \<Rightarrow> u32)) \<Rightarrow> 'l stub \<Rightarrow> 'l stub" where
  "install_breakpoints break_opcode install_list s =
     (let s1 = (if instr_targetAddr s \<noteq> NULL
                then s\<lparr>instr_savedInstr := mem s (instr_targetAddr s),
                       mem := (mem s)(instr_targetAddr s := break_opcode)\<rparr>
                else s);
          (l, m) = install_list (bp_list s1) (mem s1)
      in s1\<lparr>bp_list := l, mem := m\<rparr>)"

definition clear_breakpoints ::
  "('l \<Rightarrow> (u32 \<Rightarrow> u32) \<Rightarrow> 'l \<times> (u32 \<Rightarrow> u32)) \<Rightarrow> 'l stub \<Rightarrow> 'l stub" where
  "clear_breakpoints clear_list s =
     (let (l, m) = clear_list (bp_list s) (mem s) in s\<lparr>bp_list := l, mem := m\<rparr>)"

definition is_breakpoint_function :: "u32 \<Rightarrow> 'l stub \<Rightarrow> bool" where
  "is_breakpoint_function breakinst s \<longleftrightarrow> get_register REG_PC s = breakinst"

definition skipinst :: "'l stub \<Rightarrow> 'l stub" where
  "skipinst s = put_register REG_PC (get_register REG_PC s + 4) s"

subsection \<open>The next instruction\<close>

text \<open>
  The control transfers of the instruction set, with their encoding, and where each of them goes
  next: branches add the sign-extended displacement to the address of the following instruction,
  \<^verbatim>\<open>call\<close> stays in the 256 MB region of the program counter.
\<close>

datatype cond = EQ | GE | GEU | LT | LTU | NE

datatype control =
    Branch cond nat nat "16 word" | Br "16 word" | Call "26 word"
  | Callr nat | Jmp nat | Ret | Eret

fun cond_op :: "cond \<Rightarrow> u32" where
  "cond_op EQ = 0x26" | "cond_op GE = 0x0e" | "cond_op GEU = 0x2e"
| "cond_op LT = 0x16" | "cond_op LTU = 0x36" | "cond_op NE = 0x1e"

fun cond_holds :: "cond \<Rightarrow> u32 \<Rightarrow> u32 \<Rightarrow> bool" where
  "cond_holds EQ a b = (a = b)" | "cond_holds NE a b = (a \<noteq> b)"
| "cond_holds GE a b = (sint b \<le> sint a)" | "cond_holds LT a b = (sint a < sint b)"
| "cond_holds GEU a b = (unat b \<le> unat a)" | "cond_holds LTU a b = (unat a < unat b)"

definition i_word :: "u32 \<Rightarrow> nat \<Rightarrow> nat \<Rightarrow> 16 word \<Rightarrow> u32" where
  "i_word op a b imm = of_nat a * 2 ^ 27 + of_nat b * 2 ^ 22 + ucast imm * 2 ^ 6 + op"

definition r_word :: "u32 \<Rightarrow> nat \<Rightarrow> u32" where
  "r_word opx a = of_nat a * 2 ^ 27 + opx * 2 ^ 11 + 0x3a"

fun encode :: "control \<Rightarrow> u32" where
  "encode (Branch c a b imm) = i_word (cond_op c) a b imm"
| "encode (Br imm) = i_word 0x06 0 0 imm"
| "encode (Call imm) = ucast imm * 2 ^ 6"
| "encode (Callr a) = r_word 0x1d a"
| "encode (Jmp a) = r_word 0x0d a"
| "encode Ret = r_word 0x05 31"
| "encode Eret = r_word 0x01 29"

fun next_pc :: "control \<Rightarrow> (nat \<Rightarrow> u32) \<Rightarrow> u32 \<Rightarrow> u32" where
  "next_pc (Branch c a b imm) r pc =
     (if cond_holds c (r a) (r b) then of_int (uint pc + 4 + sint imm) else pc + 4)"
| "next_pc (Br imm) r pc = of_int (uint pc + 4 + sint imm)"
| "next_pc (Call imm) r pc = of_nat (unat pc div 2 ^ 28 * 2 ^ 28 + unat imm * 4)"
| "next_pc (Callr a) r pc = r a"
| "next_pc (Jmp a) r pc = r a"
| "next_pc Ret r pc = r 31"
| "next_pc Eret r pc = r 29"

fun fields_ok :: "control \<Rightarrow> bool" where
  "fields_ok (Branch c a b imm) = (a < 32 \<and> b < 32)"
| "fields_ok (Callr a) = (a < 32)"
| "fields_ok (Jmp a) = (a < 32)"
| "fields_ok _ = True"

subsection \<open>Decoding\<close>

lemma mod_horner: "y < k \<Longrightarrow> (x * k + y) mod k = (y :: nat)"
  by simp

lemma unat_and_mask: "unat (w AND mask n :: u32) = unat w mod 2 ^ n"
  by (simp only: take_bit_eq_mask [symmetric] unsigned_take_bit_eq) (simp add: take_bit_eq_mod)

lemma unat_drop_bit: "unat (drop_bit n w :: u32) = unat w div 2 ^ n"
proof -
  have "take_bit 32 (unat w) = unat w" using unat_u32_less [of w] by (intro take_bit_nat_eq_self) simp
  then show ?thesis by (simp only: unsigned_drop_bit_eq) (simp add: drop_bit_eq_div)
qed

lemma masks: "(0x3f :: u32) = mask 6" "(0x1f :: u32) = mask 5"
  by (simp_all add: mask_eq_exp_minus_1)

lemma field_values:
  "unat (op_of w) = unat w mod 2 ^ 6" "field_a w = unat w div 2 ^ 27 mod 2 ^ 5"
  "field_b w = unat w div 2 ^ 22 mod 2 ^ 5" "unat (opx_of w) = unat w div 2 ^ 11 mod 2 ^ 6"
  "unat (jtype_imm w) = unat w div 2 ^ 6" "unat (itype_imm w) = unat w div 2 ^ 6 mod 2 ^ 16"
  unfolding op_of_def field_a_def field_b_def opx_of_def jtype_imm_def itype_imm_def masks
  by (simp_all only: unat_and_mask unat_drop_bit)
     (simp add: unsigned_ucast_eq unat_drop_bit take_bit_eq_mod)

lemma unat_i_word:
  assumes "a < 32" "b < 32" "unat op < 64"
  shows "unat (i_word op a b imm) = a * 2 ^ 27 + b * 2 ^ 22 + unat imm * 2 ^ 6 + unat op"
proof -
  have "unat imm < 2 ^ 16" using unsigned_less [of imm] by simp
  then have "a * 2 ^ 27 + b * 2 ^ 22 + unat imm * 2 ^ 6 + unat op < 2 ^ 32" using assms by auto
  moreover have "i_word op a b imm = of_nat (a * 2 ^ 27 + b * 2 ^ 22 + unat imm * 2 ^ 6 + unat op)"
    by (simp add: i_word_def)
  ultimately show ?thesis using unat_of_nat_u32 by presburger
qed

lemma i_word_fields:
  assumes "a < 32" "b < 32" "unat op < 64"
  shows "op_of (i_word op a b imm) = op" "field_a (i_word op a b imm) = a"
    "field_b (i_word op a b imm) = b" "itype_imm (i_word op a b imm) = imm"
proof -
  have imm: "unat imm < 2 ^ 16" using unsigned_less [of imm] by simp
  have u: "unat (i_word op a b imm) = ((a * 32 + b) * 2 ^ 16 + unat imm) * 2 ^ 6 + unat op"
    using unat_i_word [OF assms] by simp
  have d6: "unat (i_word op a b imm) div 2 ^ 6 = (a * 32 + b) * 2 ^ 16 + unat imm"
    unfolding u using assms(3) by simp
  have "unat (i_word op a b imm) div 2 ^ 22 = unat (i_word op a b imm) div 2 ^ 6 div 2 ^ 16"
    by (simp add: div_mult2_eq [symmetric])
  then have d22: "unat (i_word op a b imm) div 2 ^ 22 = a * 32 + b" unfolding d6 using imm by simp
  have "unat (i_word op a b imm) div 2 ^ 27 = unat (i_word op a b imm) div 2 ^ 22 div 2 ^ 5"
    by (simp add: div_mult2_eq [symmetric])
  then have d27: "unat (i_word op a b imm) div 2 ^ 27 = a" unfolding d22 using assms(2) by simp
  have "unat (op_of (i_word op a b imm)) = unat op"
    unfolding field_values u by (rule mod_horner) (use assms(3) in simp)
  moreover have "unat (itype_imm (i_word op a b imm)) = unat imm"
    unfolding field_values d6 by (rule mod_horner) (rule imm)
  ultimately show "op_of (i_word op a b imm) = op" "itype_imm (i_word op a b imm) = imm"
    by (auto intro: unsigned_word_eqI)
  show "field_a (i_word op a b imm) = a" "field_b (i_word op a b imm) = b"
    unfolding field_values d22 d27 using assms by simp_all
qed

lemma r_word_fields:
  assumes "a < 32" "unat opx < 64"
  shows "op_of (r_word opx a) = 0x3a" "field_a (r_word opx a) = a" "opx_of (r_word opx a) = opx"
proof -
  have "a * 2 ^ 27 + unat opx * 2 ^ 11 + 0x3a < 2 ^ 32" using assms by auto
  moreover have "r_word opx a = of_nat (a * 2 ^ 27 + unat opx * 2 ^ 11 + 0x3a)"
    by (simp add: r_word_def)
  ultimately have u: "unat (r_word opx a) = a * 2 ^ 27 + unat opx * 2 ^ 11 + 0x3a"
    using unat_of_nat_u32 by presburger
  have u': "unat (r_word opx a) = (a * 2 ^ 16 + unat opx) * 2 ^ 11 + 0x3a" using u by simp
  have m: "unat (r_word opx a) = (a * 2 ^ 21 + unat opx * 2 ^ 5) * 2 ^ 6 + 0x3a" using u by simp
  have d11: "unat (r_word opx a) div 2 ^ 11 = a * 2 ^ 16 + unat opx" unfolding u' by simp
  have "unat (r_word opx a) div 2 ^ 27 = unat (r_word opx a) div 2 ^ 11 div 2 ^ 16"
    by (simp add: div_mult2_eq [symmetric])
  then have d27: "unat (r_word opx a) div 2 ^ 27 = a" unfolding d11 using assms(2) by simp
  have "unat (op_of (r_word opx a)) = 0x3a" unfolding field_values m by (rule mod_horner) simp
  moreover have "unat (0x3a :: u32) = 0x3a" by simp
  ultimately show "op_of (r_word opx a) = 0x3a" by (metis unsigned_word_eqI)
  have "(a * 2 ^ 16 + unat opx) mod 2 ^ 6 = unat opx"
    using assms(2) by (simp add: mod_add_left_eq [symmetric])
  then have "unat (opx_of (r_word opx a)) = unat opx" unfolding field_values d11 .
  then show "opx_of (r_word opx a) = opx" by (rule unsigned_word_eqI)
  show "field_a (r_word opx a) = a" unfolding field_values d27 using assms by simp
qed

text \<open>A call stays in the region of the program counter.\<close>

lemma call_target: "(pc AND 0xf0000000) OR (ucast (imm :: 26 word) * 4) =
    (of_nat (unat pc div 2 ^ 28 * 2 ^ 28 + unat imm * 4) :: u32)"
proof -
  have m: "(0xf0000000 :: u32) = push_bit 28 (mask 4)" by (simp add: mask_eq_exp_minus_1)
  have b: "bit imm n \<Longrightarrow> n < 26" for n using bit_imp_le_length [of imm n] by simp
  have i: "ucast imm * 4 = (push_bit 2 (ucast imm) :: u32)" by (simp add: push_bit_eq_mult)
  have "pc AND 0xf0000000 = push_bit 28 (drop_bit 28 pc)"
    unfolding m by (rule bit_word_eqI) (auto simp: bit_simps)
  moreover have "push_bit 28 (drop_bit 28 pc) OR push_bit 2 (ucast imm) =
      push_bit 28 (drop_bit 28 pc) + (push_bit 2 (ucast imm) :: u32)"
    by (rule disjunctive_add_eq_or [symmetric], rule bit_word_eqI) (auto simp: bit_simps dest: b)
  moreover have "push_bit 28 (drop_bit 28 pc) = (of_nat (unat pc div 2 ^ 28 * 2 ^ 28) :: u32)"
  proof -
    have "(of_nat (unat (drop_bit 28 pc)) :: u32) = drop_bit 28 pc" by simp
    then show ?thesis unfolding unat_drop_bit by (simp add: push_bit_eq_mult)
  qed
  ultimately show ?thesis unfolding i by (simp add: push_bit_eq_mult)
qed

lemma call_fields:
  "jtype_imm (ucast (imm :: 26 word) * 2 ^ 6) = ucast imm" "op_of (ucast (imm :: 26 word) * 2 ^ 6) = 0"
proof -
  have b: "bit imm n \<Longrightarrow> n < 26" for n using bit_imp_le_length [of imm n] by simp
  have i: "ucast imm * 2 ^ 6 = (push_bit 6 (ucast imm) :: u32)" by (simp add: push_bit_eq_mult)
  show "jtype_imm (ucast imm * 2 ^ 6) = ucast imm" unfolding i jtype_imm_def
    by (rule bit_word_eqI) (auto simp: bit_simps dest: b)
  show "op_of (ucast imm * 2 ^ 6) = 0" unfolding i op_of_def masks
    by (rule bit_word_eqI) (auto simp: bit_simps)
qed

lemma branch_target_eq: "(pc :: u32) + scast (imm :: 16 word) + 4 = of_int (uint pc + 4 + sint imm)"
  by (simp add: signed_word_eqI)

lemma single_step_next:
  assumes "mem s (regs s 32) = encode c" "fields_ok c"
  shows "instr_targetAddr (single_step s) = next_pc c (regs s) (regs s 32)"
proof (cases c)
  case (Branch k a b imm)
  have "unat (cond_op k) < 64" by (cases k) simp_all
  with Branch assms show ?thesis
    by (cases k) (simp_all add: single_step_def get_register_def i_word_fields branch_target_def
        branch_target_eq word_le_nat_alt word_less_nat_alt)
next
  case (Br imm)
  with assms show ?thesis
    by (simp add: single_step_def get_register_def i_word_fields branch_target_def branch_target_eq)
next
  case (Call imm)
  have "op_of (mem s (regs s 32)) = 0" "jtype_imm (mem s (regs s 32)) = ucast imm"
    unfolding assms(1) Call encode.simps by (rule call_fields)+
  then have "instr_targetAddr (single_step s) = (regs s 32 AND 0xf0000000) OR (ucast imm * 4)"
    by (simp add: single_step_def get_register_def)
  then show ?thesis unfolding Call next_pc.simps by (simp only: call_target)
qed (use assms in \<open>simp_all add: single_step_def r_word_fields get_register_def\<close>)

lemma single_step_other:
  assumes "op_of w \<notin> {0x26, 0x0e, 0x2e, 0x16, 0x36, 0x1e, 0x06, 0x00}"
    and "op_of w = 0x3a \<longrightarrow> opx_of w \<notin> {0x01, 0x05, 0x0d, 0x1d}" "mem s (regs s 32) = w"
  shows "instr_targetAddr (single_step s) = regs s 32 + 4"
  using assms by (auto simp: single_step_def get_register_def Let_def)

subsection \<open>Properties\<close>

text \<open>
  C12: single-stepping puts its breakpoint where the processor goes next. For every control
  transfer of the instruction set (the six conditional branches, \<^verbatim>\<open>br\<close>, \<^verbatim>\<open>call\<close>,
  \<^verbatim>\<open>callr\<close>, \<^verbatim>\<open>jmp\<close>, \<^verbatim>\<open>ret\<close>, \<^verbatim>\<open>eret\<close>) at the program counter, decoded from its
  32-bit encoding, the target is the address the instruction continues at, signed and unsigned
  comparisons, negative displacements and wrap-around included.
\<close>

theorem single_step_follows_control:
  assumes "mem s (regs s REG_PC) = encode c" "fields_ok c"
  shows "instr_targetAddr (single_step s) = next_pc c (regs s) (regs s REG_PC)"
  using assms by (rule single_step_next)

definition demo_stub :: "u32 \<Rightarrow> unit stub" where
  "demo_stub w = \<lparr>mem = (\<lambda>_. 0x0001883a)(0x100 := w), regs = (\<lambda>i. of_nat i)(32 := 0x100, 5 := 0xFFFFFFFF),
     async_targetAddr = 0, async_savedInstr = 0, instr_targetAddr = 0, instr_savedInstr = 0,
     bp_list = ()\<rparr>"

theorem single_step_follows_control_witness:
  "instr_targetAddr (single_step (demo_stub (encode (Branch LT 5 4 0xFFF8)))) = 0xFC \<and>
   instr_targetAddr (single_step (demo_stub (encode (Branch LTU 5 4 0xFFF8)))) = 0x104"
  using single_step_follows_control [of "demo_stub (encode (Branch LT 5 4 0xFFF8))" "Branch LT 5 4 0xFFF8"]
    single_step_follows_control [of "demo_stub (encode (Branch LTU 5 4 0xFFF8))" "Branch LTU 5 4 0xFFF8"]
  by (simp add: demo_stub_def del: encode.simps)

text \<open>
  C13: one single step leaves the program as it was. Setting up the step, installing the
  breakpoints, and, after the stop, removing the breakpoint list and clearing the step restores
  every word of memory (given that the generic stub's list undoes its own changes), leaves no step
  pending, and while the program runs the next instruction is the breakpoint.
\<close>

theorem single_step_cycle_restores:
  assumes "s1 = single_step s" "s2 = install_breakpoints bk il s1"
    and "s3 = clear_single_step (clear_breakpoints cl s2)"
    and "\<And>l m l' m'. il l m = (l', m') \<Longrightarrow> snd (cl l' m') = m"
    and "\<And>l m l' m'. il l m = (l', m') \<Longrightarrow> m (instr_targetAddr s1) = bk \<Longrightarrow> m' (instr_targetAddr s1) = bk"
    and "instr_targetAddr s1 \<noteq> NULL"
  shows "mem s3 = mem s \<and> regs s3 = regs s \<and> instr_targetAddr s3 = NULL \<and>
    mem s2 (instr_targetAddr s1) = bk"
proof -
  let ?t = "instr_targetAddr s1"
  obtain l m where lm: "il (bp_list s1) ((mem s1)(?t := bk)) = (l, m)" by force
  have s2: "s2 = s1\<lparr>instr_savedInstr := mem s1 ?t, bp_list := l, mem := m\<rparr>"
    using assms(2,6) lm by (simp add: install_breakpoints_def)
  have "snd (cl l m) = (mem s1)(?t := bk)" using assms(4) [OF lm] .
  then have "mem s3 = mem s1" "regs s3 = regs s1" "instr_targetAddr s3 = NULL"
    using assms(3,6) by (auto simp: s2 clear_breakpoints_def clear_single_step_def split: prod.splits)
  moreover have "mem s1 = mem s" "regs s1 = regs s" using assms(1) by (simp_all add: single_step_def Let_def)
  moreover have "mem s2 ?t = bk" using assms(5) [OF lm] by (simp add: s2)
  ultimately show ?thesis by simp
qed

theorem single_step_cycle_restores_witness:
  "mem (clear_single_step (clear_breakpoints Pair
      (install_breakpoints 0x003b683a Pair (single_step (demo_stub 0x0001883a))))) = mem (demo_stub 0x0001883a)"
proof -
  have "op_of 0x0001883a = 0x3a" "opx_of 0x0001883a = 0x31" by (simp_all add: op_of_def opx_of_def)
  then have "instr_targetAddr (single_step (demo_stub 0x0001883a)) = 0x104"
    by (subst single_step_other [of "0x0001883a"]) (simp_all add: demo_stub_def)
  then show ?thesis
    using single_step_cycle_restores [OF refl refl refl, of Pair Pair "demo_stub 0x0001883a" "0x003b683a"]
    by simp
qed

text \<open>
  An asynchronous break stops the program with \<^verbatim>\<open>SIGINT\<close> and leaves no trace: the
  instruction at the interrupted address is the breakpoint until the stub is entered, then memory is
  as before, and the next stop is an ordinary \<^verbatim>\<open>SIGTRAP\<close>.
\<close>

theorem async_breakpoint_restored:
  assumes "epc \<noteq> NULL" "s1 = install_async_breakpoint bi epc s" "computeSignal s1 = (sig, s2)"
  shows "mem s1 epc = mem s bi \<and> sig = SIGINT \<and> mem s2 = mem s \<and> fst (computeSignal s2) = SIGTRAP"
  using assms by (auto simp: install_async_breakpoint_def computeSignal_def)

theorem async_breakpoint_restored_witness:
  "fst (computeSignal (install_async_breakpoint 0x400 0x100 (demo_stub 0))) = SIGINT \<and>
   mem (snd (computeSignal (install_async_breakpoint 0x400 0x100 (demo_stub 0)))) = mem (demo_stub 0)"
  using async_breakpoint_restored [of "0x100", OF _ refl surjective_pairing, of "0x400" "demo_stub 0"] by simp

text \<open>
  A second asynchronous break at the same address before the stub has been entered loses the
  instruction: the breakpoint itself is taken for the program's instruction and stays in memory.
\<close>

theorem async_breakpoint_twice_corrupts:
  assumes "epc \<noteq> NULL" "mem s epc \<noteq> mem s bi"
    and "computeSignal (install_async_breakpoint bi epc (install_async_breakpoint bi epc s)) = (sig, s2)"
  shows "mem s2 epc = mem s bi \<and> mem s2 \<noteq> mem s"
proof -
  have "mem s2 epc = mem s bi"
    using assms by (auto simp: install_async_breakpoint_def computeSignal_def)
  with assms(2) show ?thesis by metis
qed

theorem async_breakpoint_twice_corrupts_witness:
  "mem (snd (computeSignal (install_async_breakpoint 0x400 0x100
      (install_async_breakpoint 0x400 0x100 (demo_stub 0))))) 0x100 = 0x0001883a"
  using async_breakpoint_twice_corrupts [of "0x100" "demo_stub 0" "0x400", OF _ _ surjective_pairing]
  by (simp add: demo_stub_def)

end
