(* ===== verification/Lcd.thy ===== *)
theory Lcd
  imports Nios_Prelude
begin

text \<open>
  The driver of the 16x2 character display
  (\<^verbatim>\<open>altera_avalon_lcd_16207.c\<close>): a small terminal with escape sequences, whose lines of up to
  80 characters scroll horizontally.

  The private data of a device is a record; its \<^verbatim>\<open>char\<close> fields are signed (the driver relies
  on \<open>-1\<close> in \<^verbatim>\<open>esccount\<close>), so an assignment to one of them goes through \<open>schar\<close>. The
  registers of the panel appear as the list \<open>io\<close> of the commands and data written; \<open>busy\<close> says
  for each wait how many reads of the status register find the panel busy (0 when the list is used
  up). A store outside an array is \<open>None\<close>. Timer interrupts during a repaint are an argument of
  \<open>putc\<close>: how many of them come in during each repaint.
\<close>

unbundle bit_operations_syntax

subsection \<open>Device\<close>

abbreviation (input) ALT_LCD_HEIGHT :: nat where "ALT_LCD_HEIGHT \<equiv> 2"
abbreviation (input) ALT_LCD_WIDTH :: nat where "ALT_LCD_WIDTH \<equiv> 16"
abbreviation (input) ALT_LCD_VIRTUAL_WIDTH :: nat where "ALT_LCD_VIRTUAL_WIDTH \<equiv> 80"

abbreviation (input) LCD_CMD_WRITE_DATA :: u8 where "LCD_CMD_WRITE_DATA \<equiv> 0x80"
abbreviation (input) LCD_CMD_CLEAR :: u8 where "LCD_CMD_CLEAR \<equiv> 0x01"
abbreviation (input) blank :: u8 where "blank \<equiv> 0x20"

datatype lcd_io = Command u8 | Data u8

record lcd_line =
  visible :: bytes
  ldata :: bytes
  width :: int
  speed :: nat

record lcd =
  broken :: bool
  lcd_x :: int
  lcd_y :: int
  address :: int
  esccount :: int
  scrollpos :: int
  scrollmax :: int
  active :: bool
  escape :: bytes
  line :: "lcd_line list"
  busy :: "nat list"
  io :: "lcd_io list"

definition schar :: "int \<Rightarrow> int" where
  "schar i = signed_take_bit 7 i"

definition colstart :: "nat list" where
  "colstart = [0x00, 0x40, 0x20, 0x60]"

definition lcd_wait_limit :: nat where
  "lcd_wait_limit = 1000000"

text \<open>
  The wait of \<^verbatim>\<open>lcd_write_command\<close> and \<^verbatim>\<open>lcd_write_data\<close>; it gives up after a million reads
  and marks the device broken.
\<close>

definition lcd_wait :: "lcd \<Rightarrow> bool \<times> lcd" where
  "lcd_wait dev =
     (if broken dev then (False, dev)
      else
        (let polls = (case busy dev of [] \<Rightarrow> 0 | n # _ \<Rightarrow> n);
             dev1 = dev\<lparr>busy := tl (busy dev)\<rparr>
         in if polls \<ge> lcd_wait_limit then (False, dev1\<lparr>broken := True\<rparr>) else (True, dev1)))"

definition lcd_write_command :: "u8 \<Rightarrow> lcd \<Rightarrow> lcd" where
  "lcd_write_command command dev =
     (let (ready, dev1) = lcd_wait dev
      in if ready then dev1\<lparr>io := io dev1 @ [Command command]\<rparr> else dev1)"

definition lcd_write_data :: "u8 \<Rightarrow> lcd \<Rightarrow> lcd" where
  "lcd_write_data data dev =
     (let (ready, dev1) = lcd_wait dev
      in if ready then dev1\<lparr>io := io dev1 @ [Data data], address := schar (address dev1 + 1)\<rparr> else dev1)"

subsection \<open>Screen\<close>

definition blank_line :: "lcd_line \<Rightarrow> lcd_line" where
  "blank_line l = l\<lparr>ldata := replicate 81 blank, visible := replicate 16 blank, width := 0\<rparr>"

definition lcd_clear_screen :: "lcd \<Rightarrow> lcd" where
  "lcd_clear_screen dev =
     (lcd_write_command LCD_CMD_CLEAR dev)\<lparr>lcd_x := 0, lcd_y := 0, address := 0,
        line := map blank_line (line dev)\<rparr>"

text \<open>The offset by which a line is scrolled, and what a cell of the panel should show.\<close>

definition scroll_offset :: "lcd \<Rightarrow> nat \<Rightarrow> int" where
  "scroll_offset dev y =
     (let offset = (scrollpos dev * int (speed (line dev ! y))) div 256
      in if offset \<ge> width (line dev ! y) then 0 else offset)"

definition cell :: "lcd \<Rightarrow> nat \<Rightarrow> nat \<Rightarrow> u8" where
  "cell dev y x =
     ldata (line dev ! y) ! nat ((int x + scroll_offset dev y) mod width (line dev ! y))"

definition set_visible :: "nat \<Rightarrow> nat \<Rightarrow> u8 \<Rightarrow> lcd \<Rightarrow> lcd" where
  "set_visible y x c dev =
     dev\<lparr>line := (line dev)[y := (line dev ! y)\<lparr>visible := (visible (line dev ! y))[x := c]\<rparr>]\<rparr>"

definition paint_cell :: "nat \<times> nat \<Rightarrow> lcd \<Rightarrow> lcd" where
  "paint_cell = (\<lambda>(y, x) dev.
     (let c = cell dev y x
      in if visible (line dev ! y) ! x \<noteq> c then
           (let a = x + colstart ! y;
                dev1 = (if int a \<noteq> address dev
                        then (lcd_write_command (LCD_CMD_WRITE_DATA OR of_nat a) dev)\<lparr>address := schar (int a)\<rparr>
                        else dev)
            in set_visible y x c (lcd_write_data c dev1))
         else dev))"

definition lcd_repaint_screen :: "lcd \<Rightarrow> lcd" where
  "lcd_repaint_screen dev = fold paint_cell [(y, x). y \<leftarrow> [0..<2], x \<leftarrow> [0..<16]] dev"

definition lcd_scroll_up :: "lcd \<Rightarrow> lcd" where
  "lcd_scroll_up dev =
     (let l0 = line dev ! 0; l1 = line dev ! 1
      in dev\<lparr>line := [l0\<lparr>ldata := take 80 (ldata l1) @ drop 80 (ldata l0)\<rparr>,
                      l1\<lparr>ldata := replicate 80 blank @ drop 80 (ldata l1)\<rparr>],
             lcd_y := schar (lcd_y dev - 1)\<rparr>)"

subsection \<open>Escape sequences\<close>

fun parse_parm :: "int \<Rightarrow> bytes \<Rightarrow> int \<times> bytes" where
  "parse_parm parm [] = (parm, [])"
| "parse_parm parm (c # cs) =
     (if 0x30 \<le> c \<and> c \<le> 0x39 then parse_parm (parm * 10 + (uint c - 0x30)) cs else (parm, c # cs))"

definition escape_parms :: "bytes \<Rightarrow> int \<times> int" where
  "escape_parms esc =
     (if esc ! 0 = 0x5B then
        (let (parm1, rest) = parse_parm 0 (drop 1 esc)
         in case rest of c # cs \<Rightarrow> (parm1, if c = 0x3B then fst (parse_parm 0 cs) else 0) | [] \<Rightarrow> (parm1, 0))
      else (- 1, 0))"

text \<open>\<^verbatim>\<open>while (dev->y > ALT_LCD_HEIGHT)\<close>; a \<^verbatim>\<open>char\<close> is at most 127.\<close>

function scroll_down_to :: "lcd \<Rightarrow> lcd" where
  "scroll_down_to dev = (if lcd_y dev > 2 \<and> lcd_y dev \<le> 127 then scroll_down_to (lcd_scroll_up dev) else dev)"
  by auto
termination
  by (relation "measure (\<lambda>dev. nat (lcd_y dev))")
     (auto simp: lcd_scroll_up_def Let_def schar_def signed_take_bit_int_eq_self)

declare scroll_down_to.simps [simp del]

definition lcd_handle_escape :: "u8 \<Rightarrow> lcd \<Rightarrow> lcd option" where
  "lcd_handle_escape c dev =
     (let (parm1, parm2) = escape_parms (escape dev)
      in if c = 0x48 \<or> c = 0x66 then
           (let dev1 = (if parm2 > 0 then dev\<lparr>lcd_x := schar (parm2 - 1)\<rparr> else dev)
            in if parm1 > 0 then
                 (let y = schar (parm1 - 1);
                      dev2 = dev1\<lparr>lcd_y := (if y > 4 then 4 else y)\<rparr>
                  in Some (scroll_down_to dev2))
               else Some dev1)
         else if c = 0x4A then
           Some (if parm1 = 2 then lcd_clear_screen dev else dev)
         else if c = 0x4B then
           (if parm1 < 1 then
              (if lcd_x dev < 80 then
                 (if 0 \<le> lcd_x dev \<and> 0 \<le> lcd_y dev \<and> lcd_y dev < 2 then
                    (let y = nat (lcd_y dev); x = nat (lcd_x dev); l = line dev ! y
                     in Some (dev\<lparr>line := (line dev)[y := l\<lparr>ldata :=
                          take x (ldata l) @ replicate (80 - x) blank @ drop 80 (ldata l)\<rparr>]\<rparr>))
                  else None)
               else Some dev)
            else Some dev)
         else Some dev)"

subsection \<open>Writing a character\<close>

definition isprint :: "u8 \<Rightarrow> bool" where
  "isprint c \<longleftrightarrow> 0x20 \<le> c \<and> c \<le> 0x7E"

definition is_digit :: "u8 \<Rightarrow> bool" where
  "is_digit c \<longleftrightarrow> 0x30 \<le> c \<and> c \<le> 0x39"

definition store_char :: "u8 \<Rightarrow> lcd \<Rightarrow> lcd option" where
  "store_char c dev =
     (let dev1 = (if lcd_y dev \<ge> 2 then lcd_scroll_up dev else dev);
          y = lcd_y dev1; x = lcd_x dev1
      in if x < 80 then
           (if 0 \<le> y \<and> y < 2 \<and> 0 \<le> x then
              (let l = line dev1 ! nat y
               in Some (dev1\<lparr>line := (line dev1)[nat y := l\<lparr>ldata := (ldata l)[nat x := c]\<rparr>],
                             lcd_x := schar (x + 1)\<rparr>))
            else None)
         else Some (dev1\<lparr>lcd_x := schar (x + 1)\<rparr>))"

text \<open>The part of \<^verbatim>\<open>putc\<close> before the scrolling parameters are recalculated.\<close>

definition handle_char :: "u8 \<Rightarrow> lcd \<Rightarrow> lcd option" where
  "handle_char c dev =
     (if esccount dev \<ge> 0 then
        (if (esccount dev = 0 \<and> c \<noteq> 0x5B) \<or> (esccount dev > 0 \<and> \<not> is_digit c \<and> c \<noteq> 0x3B) then
           map_option (\<lambda>d. d\<lparr>esccount := - 1\<rparr>)
             (lcd_handle_escape c (dev\<lparr>escape := (escape dev)[nat (esccount dev) := 0]\<rparr>))
         else if esccount dev < 7 then
           Some (dev\<lparr>escape := (escape dev)[nat (esccount dev) := c], esccount := esccount dev + 1\<rparr>)
         else Some dev)
      else if c = 27 then Some (dev\<lparr>esccount := 0\<rparr>)
      else if c = 13 then Some (dev\<lparr>lcd_x := 0\<rparr>)
      else if c = 10 then
        (let dev1 = dev\<lparr>lcd_x := 0, lcd_y := schar (lcd_y dev + 1)\<rparr>
         in Some (if lcd_y dev1 > 2 then lcd_scroll_up dev1 else dev1))
      else if c = 8 then Some (if lcd_x dev > 0 then dev\<lparr>lcd_x := lcd_x dev - 1\<rparr> else dev)
      else if isprint c then store_char c dev
      else Some dev)"

fun used_width :: "bytes \<Rightarrow> nat \<Rightarrow> nat" where
  "used_width d 0 = 0"
| "used_width d (Suc n) = (if d ! n \<noteq> blank then Suc n else used_width d n)"

definition line_width :: "bytes \<Rightarrow> int" where
  "line_width d = (let w = int (used_width d 80) in if w \<le> 16 then 16 else w + 1)"

text \<open>Recalculating the scrolling parameters.\<close>

definition rescroll :: "lcd \<Rightarrow> lcd" where
  "rescroll dev =
     (let widthmax = foldl (\<lambda>m l. max m (line_width (ldata l))) 16 (line dev);
          lines1 = map (\<lambda>l. l\<lparr>width := schar (line_width (ldata l)), speed := 0\<rparr>) (line dev)
      in if widthmax \<le> 16 then dev\<lparr>line := lines1, scrollmax := 0\<rparr>
         else
           (let widthmax2 = widthmax * 2
            in dev\<lparr>scrollmax := schar widthmax2,
                   line := map (\<lambda>l. if width l > 16
                                    then l\<lparr>speed := nat (256 * width l div widthmax2) mod 256\<rparr> else l) lines1\<rparr>))"

definition alt_lcd_16207_timeout :: "lcd \<Rightarrow> lcd" where
  "alt_lcd_16207_timeout dev =
     (let dev1 = dev\<lparr>scrollpos := (if scrollpos dev + 1 \<ge> scrollmax dev then 0 else scrollpos dev + 1)\<rparr>
      in if scrollmax dev1 > 0 \<and> \<not> active dev1 then lcd_repaint_screen dev1 else dev1)"

text \<open>
  The final loop of \<^verbatim>\<open>putc\<close>. \<open>ticks\<close> gives the number of timer interrupts during each
  repaint; there are none once it is used up.
\<close>

fun repaint_loop :: "nat list \<Rightarrow> lcd \<Rightarrow> lcd" where
  "repaint_loop [] dev = (lcd_repaint_screen dev)\<lparr>active := False\<rparr>"
| "repaint_loop (n # ticks) dev =
     (let dev1 = ((alt_lcd_16207_timeout ^^ n) (lcd_repaint_screen dev))\<lparr>active := False\<rparr>
      in if scrollpos dev1 = scrollpos dev then dev1
         else repaint_loop ticks (dev1\<lparr>active := True\<rparr>))"

definition alt_lcd_16207_putc :: "nat list \<Rightarrow> u8 \<Rightarrow> lcd \<Rightarrow> lcd option" where
  "alt_lcd_16207_putc ticks c dev =
     (case handle_char c (dev\<lparr>active := True\<rparr>) of
        None \<Rightarrow> None
      | Some dev1 \<Rightarrow> Some (repaint_loop ticks (rescroll dev1)))"

definition alt_lcd_16207_getc :: "lcd \<Rightarrow> u8" where
  "alt_lcd_16207_getc dev = 0"

definition alt_lcd_16207_set_config :: "lcd \<Rightarrow> int" where
  "alt_lcd_16207_set_config dev = - 22"

definition alt_lcd_16207_init :: "lcd \<Rightarrow> lcd" where
  "alt_lcd_16207_init dev =
     (let dev1 = dev\<lparr>broken := False, io := io dev @ [Command 0x30, Command 0x30, Command 0x30]\<rparr>;
          dev2 = lcd_write_command 0x08 (lcd_write_command 0x38 dev1);
          dev3 = lcd_clear_screen dev2;
          dev4 = lcd_write_command 0x0C (lcd_write_command 0x06 dev3)
      in dev4\<lparr>esccount := - 1, escape := replicate 8 0, scrollpos := 0, scrollmax := 0, active := False\<rparr>)"

text \<open>The period of the alarm in clock ticks, from the resolution of the real-time clock.\<close>

definition lcd_alarm_period :: "u32 \<Rightarrow> u32 \<Rightarrow> u32" where
  "lcd_alarm_period dividend divisor =
     (if dividend \<ge> 1000000000 then divisor div (dividend div 100000000)
      else (100000000 * divisor) div dividend)"

text \<open>A device as the static initialiser leaves it: everything zero.\<close>

definition fresh_lcd :: "nat list \<Rightarrow> lcd" where
  "fresh_lcd b = \<lparr>broken = False, lcd_x = 0, lcd_y = 0, address = 0, esccount = 0, scrollpos = 0,
     scrollmax = 0, active = False, escape = replicate 8 0,
     line = replicate 2 \<lparr>visible = replicate 16 0, ldata = replicate 81 0, width = 0, speed = 0\<rparr>,
     busy = b, io = []\<rparr>"

fun lcd_write :: "bytes \<Rightarrow> lcd \<Rightarrow> lcd option" where
  "lcd_write [] dev = Some dev"
| "lcd_write (c # cs) dev = (case alt_lcd_16207_putc [] c dev of None \<Rightarrow> None | Some d \<Rightarrow> lcd_write cs d)"

end
