(* ===== verification/Lcd_Correct.thy ===== *)
theory Lcd_Correct
  imports Lcd
begin

text \<open>
  Correctness of the display driver: the panel always shows what the driver believes it shows, which
  after every character is the window of the text that the scrolling position selects; ordinary text
  never leaves the buffers.
\<close>

unbundle bit_operations_syntax

subsection \<open>Well-formed devices\<close>

definition line_wf :: "lcd_line \<Rightarrow> bool" where
  "line_wf l \<longleftrightarrow> length (visible l) = 16 \<and> length (ldata l) = 81"

definition lcd_wf :: "lcd \<Rightarrow> bool" where
  "lcd_wf d \<longleftrightarrow> length (line d) = 2 \<and> (\<forall>l \<in> set (line d). line_wf l) \<and> length (escape d) = 8 \<and>
     - 1 \<le> esccount d \<and> esccount d \<le> 7"

lemma lcd_wf_line: "lcd_wf d \<Longrightarrow> y < 2 \<Longrightarrow> line_wf (line d ! y)"
  by (simp add: lcd_wf_def)

text \<open>A device without what writing to the panel changes.\<close>

definition text_of :: "lcd \<Rightarrow> lcd" where
  "text_of d = d\<lparr>broken := False, busy := [], io := [], address := 0\<rparr>"

lemma text_of_simps [simp]:
  "line (text_of d) = line d" "scrollpos (text_of d) = scrollpos d" "scrollmax (text_of d) = scrollmax d"
  "lcd_x (text_of d) = lcd_x d" "lcd_y (text_of d) = lcd_y d" "esccount (text_of d) = esccount d"
  "escape (text_of d) = escape d" "active (text_of d) = active d"
  by (simp_all add: text_of_def)

lemma text_of_eqD:
  assumes "text_of d' = text_of d"
  shows "line d' = line d" "scrollpos d' = scrollpos d" "scrollmax d' = scrollmax d" "lcd_x d' = lcd_x d"
    "lcd_y d' = lcd_y d" "esccount d' = esccount d" "escape d' = escape d" "active d' = active d"
  using assms by (metis text_of_simps)+

lemma lcd_wait_cases:
  obtains b k where "lcd_wait d = (\<not> b, d\<lparr>broken := b, busy := k\<rparr>)" "broken d \<longrightarrow> b"
proof (cases "broken d")
  case True
  then show thesis by (intro that [of True "busy d"]) (simp_all add: lcd_wait_def)
next
  case False
  then show thesis
    by (intro that [of "lcd_wait_limit \<le> (case busy d of [] \<Rightarrow> 0 | n # _ \<Rightarrow> n)" "tl (busy d)"])
       (auto simp: lcd_wait_def Let_def)
qed

lemma lcd_write_command_cases:
  obtains b k where "lcd_write_command c d =
    d\<lparr>broken := b, busy := k, io := io d @ (if b then [] else [Command c])\<rparr>" "broken d \<longrightarrow> b"
proof -
  obtain b k where "lcd_wait d = (\<not> b, d\<lparr>broken := b, busy := k\<rparr>)" "broken d \<longrightarrow> b"
    using lcd_wait_cases by blast
  then show thesis by (intro that [of b k]) (simp_all add: lcd_write_command_def)
qed

lemma lcd_write_data_cases:
  obtains b k where "lcd_write_data c d =
    d\<lparr>broken := b, busy := k, io := io d @ (if b then [] else [Data c]),
      address := (if b then address d else schar (address d + 1))\<rparr>" "broken d \<longrightarrow> b"
proof -
  obtain b k where "lcd_wait d = (\<not> b, d\<lparr>broken := b, busy := k\<rparr>)" "broken d \<longrightarrow> b"
    using lcd_wait_cases by blast
  then show thesis by (intro that [of b k]) (simp_all add: lcd_write_data_def)
qed

subsection \<open>The panel\<close>

text \<open>
  What the panel does with a command or a data byte: a command from \<^verbatim>\<open>0x80\<close> sets the address of
  the character memory, 1 clears it, a data byte is stored and advances the address.
\<close>

fun panel_step :: "lcd_io \<Rightarrow> (nat \<Rightarrow> u8) \<times> nat \<Rightarrow> (nat \<Rightarrow> u8) \<times> nat" where
  "panel_step (Command c) (ram, cur) =
     (if 0x80 \<le> c then (ram, unat c - 0x80) else if c = 1 then (\<lambda>_. blank, 0) else (ram, cur))"
| "panel_step (Data c) (ram, cur) = (ram(cur := c), cur + 1)"

definition panel :: "lcd \<Rightarrow> (nat \<Rightarrow> u8) \<times> nat" where
  "panel d = fold panel_step (io d) (\<lambda>_. 0, 0)"

definition in_sync :: "lcd \<Rightarrow> bool" where
  "in_sync d \<longleftrightarrow> \<not> broken d \<longrightarrow>
     int (snd (panel d)) = address d \<and>
     (\<forall>y < 2. \<forall>x < 16. fst (panel d) (x + colstart ! y) = visible (line d ! y) ! x)"

lemma colstart_simps [simp]: "colstart ! 0 = 0" "colstart ! Suc 0 = 0x40"
  by (simp_all add: colstart_def)

lemma less_two: "y < (2::nat) \<longleftrightarrow> y = 0 \<or> y = 1"
  by auto

lemma cell_address_inj:
  "y < 2 \<Longrightarrow> y' < 2 \<Longrightarrow> x < 16 \<Longrightarrow> x' < 16 \<Longrightarrow> x + colstart ! y = x' + colstart ! y' \<longleftrightarrow> x = x' \<and> y = y'"
  by (auto simp: less_two)

lemma cell_address_bound: "y < 2 \<Longrightarrow> x < 16 \<Longrightarrow> x + colstart ! y < 0x50"
  by (auto simp: less_two)

lemma schar_small: "0 \<le> i \<Longrightarrow> i < 128 \<Longrightarrow> schar i = i"
  by (simp add: schar_def signed_take_bit_int_eq_self)

lemma address_command:
  assumes "a < 0x50"
  shows "0x80 \<le> (0x80 OR of_nat a :: u8)" "unat (0x80 OR of_nat a :: u8) - 0x80 = a"
proof -
  have u: "unat (of_nat a :: u8) = a" using assms by (simp add: unat_of_nat_u8)
  have "(0x80 :: u8) AND of_nat a = 0"
  proof (rule bit_word_eqI)
    fix n assume "n < LENGTH(8)"
    have "\<not> bit a 7" using assms by (simp add: bit_iff_odd)
    moreover have "7 \<le> n \<longleftrightarrow> n = 7" using \<open>n < LENGTH(8)\<close> by auto
    moreover have e: "(0x80 :: u8) = push_bit 7 1" by simp
    ultimately show "bit ((0x80 :: u8) AND of_nat a) n \<longleftrightarrow> bit (0 :: u8) n"
      unfolding e bit_and_iff bit_push_bit_iff bit_1_iff using \<open>n < LENGTH(8)\<close> by (auto simp: bit_of_nat_iff)
  qed
  then have "(0x80 OR of_nat a :: u8) = 0x80 + of_nat a" by (simp add: disjunctive_add_eq_or)
  moreover have "unat (0x80 + of_nat a :: u8) = 0x80 + a"
    using assms u by (subst unat_add_lem [THEN iffD1]) simp_all
  ultimately show "0x80 \<le> (0x80 OR of_nat a :: u8)" "unat (0x80 OR of_nat a :: u8) - 0x80 = a"
    by (simp_all add: word_le_nat_alt)
qed

subsection \<open>Repainting\<close>

text \<open>Painting a cell changes this cell and the registers of the panel only.\<close>

lemma text_of_writes [simp]:
  "text_of (lcd_write_command c d) = text_of d" "text_of (lcd_write_data c d) = text_of d"
  "text_of (d\<lparr>address := a\<rparr>) = text_of d"
proof -
  show "text_of (lcd_write_command c d) = text_of d"
    by (rule lcd_write_command_cases [of c d]) (simp add: text_of_def)
  show "text_of (lcd_write_data c d) = text_of d"
    by (rule lcd_write_data_cases [of c d]) (simp add: text_of_def)
qed (simp add: text_of_def)

lemma text_of_set_visible: "text_of (set_visible y x c d) = set_visible y x c (text_of d)"
  by (simp add: set_visible_def text_of_def)

lemma paint_cell_effect:
  assumes "lcd_wf d" "y < 2" "x < 16"
  shows "text_of (paint_cell (y, x) d) = text_of (set_visible y x (cell d y x) d)"
proof (cases "visible (line d ! y) ! x = cell d y x")
  case True
  then have "set_visible y x (cell d y x) d = d"
    using assms(1,2) by (simp add: set_visible_def lcd_wf_def True [symmetric])
  with True show ?thesis by (simp add: paint_cell_def)
next
  case False
  then show ?thesis by (simp add: paint_cell_def Let_def text_of_set_visible)
qed

lemma set_visible_simps [simp]:
  "scrollpos (set_visible y x c d) = scrollpos d" "scrollmax (set_visible y x c d) = scrollmax d"
  "lcd_x (set_visible y x c d) = lcd_x d" "lcd_y (set_visible y x c d) = lcd_y d"
  "esccount (set_visible y x c d) = esccount d" "escape (set_visible y x c d) = escape d"
  "active (set_visible y x c d) = active d" "length (line (set_visible y x c d)) = length (line d)"
  by (simp_all add: set_visible_def)

lemma set_visible_line:
  assumes "y < length (line d)" "y' < length (line d)"
  shows "line (set_visible y x c d) ! y' =
    (line d ! y')\<lparr>visible := (if y' = y then (visible (line d ! y))[x := c] else visible (line d ! y'))\<rparr>"
  using assms by (simp add: set_visible_def nth_list_update)

text \<open>\<open>painted S d d'\<close>: from \<open>d\<close>, exactly the cells in \<open>S\<close> have been brought up to date.\<close>

definition same_lines :: "lcd \<Rightarrow> lcd \<Rightarrow> bool" where
  "same_lines d d' \<longleftrightarrow> length (line d') = length (line d) \<and>
     (\<forall>y < 2. ldata (line d' ! y) = ldata (line d ! y) \<and> width (line d' ! y) = width (line d ! y) \<and>
              speed (line d' ! y) = speed (line d ! y) \<and>
              length (visible (line d' ! y)) = length (visible (line d ! y))) \<and>
     scrollpos d' = scrollpos d \<and> scrollmax d' = scrollmax d \<and> lcd_x d' = lcd_x d \<and> lcd_y d' = lcd_y d \<and>
     esccount d' = esccount d \<and> escape d' = escape d \<and> active d' = active d"

lemma same_lines_trans: "same_lines a b \<Longrightarrow> same_lines b c \<Longrightarrow> same_lines a c"
  by (simp add: same_lines_def)

lemma same_lines_refl [simp]: "same_lines d d"
  by (simp add: same_lines_def)

lemma same_lines_cell: "same_lines d d' \<Longrightarrow> y < 2 \<Longrightarrow> cell d' y x = cell d y x"
  by (simp add: same_lines_def cell_def scroll_offset_def)

lemma lcd_wf_iff: "lcd_wf d \<longleftrightarrow> length (line d) = 2 \<and> line_wf (line d ! 0) \<and> line_wf (line d ! 1) \<and>
    length (escape d) = 8 \<and> - 1 \<le> esccount d \<and> esccount d \<le> 7"
  by (auto simp: lcd_wf_def all_set_conv_all_nth less_two)

lemma same_lines_wf: "same_lines d d' \<Longrightarrow> lcd_wf d \<Longrightarrow> lcd_wf d'"
  by (simp add: same_lines_def lcd_wf_iff line_wf_def)

lemma paint_cell_lines:
  assumes "lcd_wf d" "y < 2" "x < 16"
  shows "same_lines d (paint_cell (y, x) d)"
    and "y' < 2 \<Longrightarrow> visible (line (paint_cell (y, x) d) ! y') =
      (if y' = y then (visible (line d ! y))[x := cell d y x] else visible (line d ! y'))"
proof -
  note e = text_of_eqD [OF paint_cell_effect [OF assms]]
  have l: "length (line d) = 2" using assms(1) by (simp add: lcd_wf_def)
  show "same_lines d (paint_cell (y, x) d)"
    using l assms(2) unfolding same_lines_def e by (auto simp: set_visible_line)
  show "y' < 2 \<Longrightarrow> visible (line (paint_cell (y, x) d) ! y') =
      (if y' = y then (visible (line d ! y))[x := cell d y x] else visible (line d ! y'))"
    using l assms(2) unfolding e(1) by (simp add: set_visible_line)
qed

lemma fold_paint:
  assumes "lcd_wf d" "\<forall>(y, x) \<in> set cs. y < 2 \<and> x < 16"
  shows "same_lines d (fold paint_cell cs d) \<and>
    (\<forall>y < 2. \<forall>x < 16. visible (line (fold paint_cell cs d) ! y) ! x =
      (if (y, x) \<in> set cs then cell d y x else visible (line d ! y) ! x))"
  using assms
proof (induction cs arbitrary: d)
  case Nil
  then show ?case by simp
next
  case (Cons c cs)
  obtain y0 x0 where c: "c = (y0, x0)" "y0 < 2" "x0 < 16" using Cons.prems(2) by (cases c) auto
  let ?d1 = "paint_cell (y0, x0) d"
  note p = paint_cell_lines [OF Cons.prems(1) c(2,3)]
  have wf1: "lcd_wf ?d1" using same_lines_wf [OF p(1) Cons.prems(1)] .
  have IH: "same_lines ?d1 (fold paint_cell cs ?d1)"
    "\<forall>y < 2. \<forall>x < 16. visible (line (fold paint_cell cs ?d1) ! y) ! x =
      (if (y, x) \<in> set cs then cell ?d1 y x else visible (line ?d1 ! y) ! x)"
    using Cons.IH [OF wf1] Cons.prems(2) by auto
  have len: "length (visible (line d ! y)) = 16" if "y < 2" for y
    using lcd_wf_line [OF Cons.prems(1) that] by (simp add: line_wf_def)
  show ?case
    using same_lines_trans [OF p(1) IH(1)] IH(2) c len
    by (auto simp: p(2) nth_list_update same_lines_cell [OF p(1)])
qed

lemma repaint_shows:
  assumes "lcd_wf d"
  shows "same_lines d (lcd_repaint_screen d)"
    and "y < 2 \<Longrightarrow> x < 16 \<Longrightarrow> visible (line (lcd_repaint_screen d) ! y) ! x = cell d y x"
proof -
  let ?cs = "[(y, x). y \<leftarrow> [0..<2], x \<leftarrow> [0..<16]]"
  have mem: "(y, x) \<in> set ?cs \<longleftrightarrow> y < 2 \<and> x < 16" for y x by (force simp: image_iff)
  have "\<forall>(y, x) \<in> set ?cs. y < 2 \<and> x < 16" using mem by blast
  note f = fold_paint [OF assms this, unfolded lcd_repaint_screen_def [symmetric]]
  show "same_lines d (lcd_repaint_screen d)" using f by blast
  show "y < 2 \<Longrightarrow> x < 16 \<Longrightarrow> visible (line (lcd_repaint_screen d) ! y) ! x = cell d y x"
    using f mem by simp
qed

subsection \<open>The panel stays in step\<close>

lemma panel_append [simp]: "io d' = io d @ is \<Longrightarrow> panel d' = fold panel_step is (panel d)"
  by (simp add: panel_def)

lemma paint_cell_in_sync:
  assumes "lcd_wf d" "in_sync d" "y < 2" "x < 16"
  shows "in_sync (paint_cell (y, x) d)"
proof (cases "visible (line d ! y) ! x = cell d y x")
  case True
  then show ?thesis using assms(2) by (simp add: paint_cell_def)
next
  case False
  define a where "a = x + colstart ! y"
  let ?c = "cell d y x"
  have a: "a < 0x50" using cell_address_bound assms(3,4) by (simp add: a_def)
  define d1 where "d1 = (if int a \<noteq> address d
    then (lcd_write_command (0x80 OR of_nat a) d)\<lparr>address := schar (int a)\<rparr> else d)"
  have d1: "line d1 = line d" "\<not> broken d1 \<longrightarrow> \<not> broken d \<and> fst (panel d1) = fst (panel d) \<and> snd (panel d1) = a"
    "address d1 = int a"
  proof -
    obtain b k where w: "lcd_write_command (0x80 OR of_nat a) d =
      d\<lparr>broken := b, busy := k, io := io d @ (if b then [] else [Command (0x80 OR of_nat a)])\<rparr>"
      "broken d \<longrightarrow> b" using lcd_write_command_cases by blast
    show "line d1 = line d" "address d1 = int a" using a by (auto simp: d1_def w(1) schar_small)
    show "\<not> broken d1 \<longrightarrow> \<not> broken d \<and> fst (panel d1) = fst (panel d) \<and> snd (panel d1) = a"
      using assms(2) w(2) address_command [OF a]
      by (cases "panel d") (auto simp: d1_def w(1) in_sync_def)
  qed
  obtain b k where w: "lcd_write_data ?c d1 =
      d1\<lparr>broken := b, busy := k, io := io d1 @ (if b then [] else [Data ?c]),
          address := (if b then address d1 else schar (address d1 + 1))\<rparr>" "broken d1 \<longrightarrow> b"
    using lcd_write_data_cases by blast
  let ?d2 = "lcd_write_data ?c d1"
  have p2: "panel ?d2 = ((fst (panel d))(a := ?c), a + 1)" "address ?d2 = int (a + 1)" if "\<not> b"
    using that w d1 a by (cases "panel d1"; auto simp: schar_small)+
  have "paint_cell (y, x) d = set_visible y x ?c ?d2"
    using False by (simp add: paint_cell_def Let_def d1_def a_def)
  moreover have "in_sync (set_visible y x ?c ?d2)"
  proof (cases b)
    case True
    then show ?thesis by (simp add: in_sync_def set_visible_def w(1))
  next
    case False
    have len: "length (line d) = 2" "length (visible (line d ! y)) = 16"
      using assms(1,3) lcd_wf_line [OF assms(1,3)] by (simp_all add: lcd_wf_def line_wf_def)
    have l2: "line ?d2 = line d" using d1(1) by (simp add: w(1))
    have pan: "panel (set_visible y x ?c ?d2) = panel ?d2" "address (set_visible y x ?c ?d2) = address ?d2"
      by (simp_all add: panel_def set_visible_def)
    show ?thesis
      unfolding in_sync_def pan p2 [OF False]
      using assms d1(2) w(2) False len cell_address_inj [OF _ assms(3) _ assms(4), folded a_def]
      by (auto simp: in_sync_def set_visible_line l2 nth_list_update)
  qed
  ultimately show ?thesis by simp
qed

lemma repaint_in_sync:
  assumes "lcd_wf d" "in_sync d"
  shows "in_sync (lcd_repaint_screen d)"
proof -
  have all: "in_sync (fold paint_cell cs d)" if "\<forall>(y, x) \<in> set cs. y < 2 \<and> x < 16" for cs
    using that assms
  proof (induction cs arbitrary: d)
    case (Cons c cs)
    then obtain y x where "c = (y, x)" "y < 2" "x < 16" by (cases c) auto
    with Cons show ?case
      using paint_cell_in_sync same_lines_wf [OF paint_cell_lines(1)] by auto
  qed simp
  show ?thesis unfolding lcd_repaint_screen_def by (rule all) auto
qed

subsection \<open>Every operation keeps the invariant\<close>

definition lcd_inv :: "lcd \<Rightarrow> bool" where
  "lcd_inv d \<longleftrightarrow> lcd_wf d \<and> in_sync d"

text \<open>Operations that leave the panel alone.\<close>

definition same_panel :: "lcd \<Rightarrow> lcd \<Rightarrow> bool" where
  "same_panel d d' \<longleftrightarrow> io d' = io d \<and> address d' = address d \<and> broken d' = broken d \<and>
     map visible (line d') = map visible (line d)"

lemma same_panel_refl [simp]: "same_panel d d"
  by (simp add: same_panel_def)

lemma same_panel_trans: "same_panel a b \<Longrightarrow> same_panel b c \<Longrightarrow> same_panel a c"
  by (simp add: same_panel_def)

lemma same_panel_sync:
  assumes "same_panel d d'" "lcd_wf d" "in_sync d"
  shows "in_sync d'"
proof -
  have m: "map visible (line d') = map visible (line d)" using assms(1) by (simp add: same_panel_def)
  have len: "length (line d) = 2" using assms(2) by (simp add: lcd_wf_def)
  then have "length (line d') = 2" using arg_cong [OF m, of length] by simp
  then have "visible (line d' ! y) = visible (line d ! y)" if "y < 2" for y
    using arg_cong [OF m, of "\<lambda>l. l ! y"] that len by simp
  with assms(1,3) show ?thesis by (simp add: in_sync_def panel_def same_panel_def)
qed

lemma two_lines: "length ls = 2 \<longleftrightarrow> (\<exists>a b. ls = [a, b])"
  by (auto simp: numeral_2_eq_2 length_Suc_conv)

lemma scroll_up_keeps:
  "lcd_wf d \<Longrightarrow> lcd_wf (lcd_scroll_up d) \<and> same_panel d (lcd_scroll_up d)"
  by (auto simp: lcd_wf_def lcd_scroll_up_def Let_def line_wf_def same_panel_def two_lines)

lemma scroll_down_to_keeps:
  "lcd_wf d \<Longrightarrow> lcd_wf (scroll_down_to d) \<and> same_panel d (scroll_down_to d)"
proof (induction d rule: scroll_down_to.induct)
  case (1 d)
  then show ?case
    using scroll_up_keeps [OF 1(2)] by (auto simp: scroll_down_to.simps [of d] intro: same_panel_trans)
qed

lemma clear_screen_inv:
  assumes "lcd_wf d"
  shows "lcd_wf (lcd_clear_screen d) \<and> in_sync (lcd_clear_screen d)"
proof -
  obtain b k where w: "lcd_write_command 1 d =
      d\<lparr>broken := b, busy := k, io := io d @ (if b then [] else [Command 1])\<rparr>"
    using lcd_write_command_cases by blast
  have "\<not> 0x80 \<le> (1 :: u8)" by (simp add: word_le_nat_alt)
  with assms show ?thesis
    by (cases "panel d")
       (auto simp: lcd_clear_screen_def w lcd_wf_def line_wf_def blank_line_def in_sync_def less_two two_lines)
qed

lemma line_update_keeps:
  assumes "lcd_wf d" "y < 2" "length D = 81"
  shows "lcd_wf (d\<lparr>line := (line d)[y := (line d ! y)\<lparr>ldata := D\<rparr>]\<rparr>) \<and>
    same_panel d (d\<lparr>line := (line d)[y := (line d ! y)\<lparr>ldata := D\<rparr>]\<rparr>)"
  using assms by (auto simp: lcd_wf_def line_wf_def same_panel_def two_lines less_two)

text \<open>\<^verbatim>\<open>ESC [ K\<close> and the printable characters store into a line.\<close>

lemma store_char_inv:
  assumes "lcd_wf d" "store_char c d = Some d'"
  shows "lcd_wf d' \<and> same_panel d d'"
proof -
  define d1 where "d1 = (if lcd_y d \<ge> 2 then lcd_scroll_up d else d)"
  have d1: "lcd_wf d1" "same_panel d d1"
    using assms(1) scroll_up_keeps by (auto simp: d1_def)
  show ?thesis
  proof (cases "lcd_x d1 < 80")
    case True
    with assms(2) have y: "0 \<le> lcd_y d1" "nat (lcd_y d1) < 2" "0 \<le> lcd_x d1"
      and d': "d' = (d1\<lparr>line := (line d1)[nat (lcd_y d1) := (line d1 ! nat (lcd_y d1))\<lparr>ldata :=
        (ldata (line d1 ! nat (lcd_y d1)))[nat (lcd_x d1) := c]\<rparr>]\<rparr>)\<lparr>lcd_x := schar (lcd_x d1 + 1)\<rparr>"
      by (auto simp: store_char_def d1_def [symmetric] Let_def split: if_splits)
    have "length (ldata (line d1 ! nat (lcd_y d1))) = 81"
      using lcd_wf_line [OF d1(1) y(2)] by (simp add: line_wf_def)
    then show ?thesis
      using line_update_keeps [OF d1(1) y(2), of "(ldata (line d1 ! nat (lcd_y d1)))[nat (lcd_x d1) := c]"] d1(2)
      by (auto simp: d' lcd_wf_def same_panel_def)
  next
    case False
    with assms(2) d1 show ?thesis
      by (auto simp: store_char_def d1_def [symmetric] Let_def lcd_wf_def same_panel_def)
  qed
qed

lemma erase_line_inv:
  assumes "lcd_wf d" "y < 2" "x < 80"
  shows "length (take x (ldata (line d ! y)) @ replicate (80 - x) blank @ drop 80 (ldata (line d ! y))) = 81"
  using lcd_wf_line [OF assms(1,2)] assms(3) by (simp add: line_wf_def)

lemma lcd_invI: "lcd_inv d \<Longrightarrow> lcd_wf d' \<and> same_panel d d' \<Longrightarrow> lcd_inv d'"
  by (auto simp: lcd_inv_def intro: same_panel_sync)

lemma field_keeps:
  assumes "lcd_wf d"
  shows "lcd_wf (d\<lparr>lcd_x := x\<rparr>) \<and> same_panel d (d\<lparr>lcd_x := x\<rparr>)"
    "lcd_wf (d\<lparr>lcd_y := y\<rparr>) \<and> same_panel d (d\<lparr>lcd_y := y\<rparr>)"
    "lcd_wf (d\<lparr>lcd_x := x, lcd_y := y\<rparr>) \<and> same_panel d (d\<lparr>lcd_x := x, lcd_y := y\<rparr>)"
    "lcd_wf (d\<lparr>active := a\<rparr>) \<and> same_panel d (d\<lparr>active := a\<rparr>)"
    "lcd_wf (d\<lparr>scrollpos := p\<rparr>) \<and> same_panel d (d\<lparr>scrollpos := p\<rparr>)"
    "- 1 \<le> e \<Longrightarrow> e \<le> 7 \<Longrightarrow> lcd_wf (d\<lparr>esccount := e\<rparr>) \<and> same_panel d (d\<lparr>esccount := e\<rparr>)"
    "lcd_wf (d\<lparr>escape := (escape d)[n := c]\<rparr>) \<and> same_panel d (d\<lparr>escape := (escape d)[n := c]\<rparr>)"
    "- 1 \<le> e \<Longrightarrow> e \<le> 7 \<Longrightarrow> lcd_wf (d\<lparr>escape := (escape d)[n := c], esccount := e\<rparr>) \<and>
      same_panel d (d\<lparr>escape := (escape d)[n := c], esccount := e\<rparr>)"
  using assms by (simp_all add: lcd_wf_def same_panel_def)

lemma handle_escape_inv:
  assumes "lcd_inv d" "lcd_handle_escape c d = Some d'"
  shows "lcd_inv d'"
proof -
  have wf: "lcd_wf d" using assms(1) by (simp add: lcd_inv_def)
  obtain p1 p2 where p: "escape_parms (escape d) = (p1, p2)" by force
  consider "c = 0x48 \<or> c = 0x66" | "c = 0x4A" "c \<noteq> 0x48" "c \<noteq> 0x66"
    | "c = 0x4B" "c \<noteq> 0x4A" "c \<noteq> 0x48" "c \<noteq> 0x66" | "d' = d"
    using assms(2) by (auto simp: lcd_handle_escape_def p split: if_splits)
  then show ?thesis
  proof cases
    case 1
    define d1 where "d1 = (if p2 > 0 then d\<lparr>lcd_x := schar (p2 - 1)\<rparr> else d)"
    have d1: "lcd_wf d1" "same_panel d d1" using field_keeps(1) [OF wf] wf by (auto simp: d1_def)
    have "d' = (if p1 > 0 then scroll_down_to (d1\<lparr>lcd_y := (if schar (p1 - 1) > 4 then 4 else schar (p1 - 1))\<rparr>) else d1)"
      using assms(2) 1 by (simp add: lcd_handle_escape_def p d1_def Let_def split: if_splits)
    moreover have "lcd_wf (scroll_down_to (d1\<lparr>lcd_y := y\<rparr>)) \<and> same_panel d (scroll_down_to (d1\<lparr>lcd_y := y\<rparr>))" for y
      using d1(2) field_keeps(2) [OF d1(1), of y] scroll_down_to_keeps [of "d1\<lparr>lcd_y := y\<rparr>"]
      by (blast intro: same_panel_trans)
    ultimately have "lcd_wf d' \<and> same_panel d d'" using d1 by auto
    then show ?thesis by (rule lcd_invI [OF assms(1)])
  next
    case 2
    then show ?thesis
      using assms clear_screen_inv [OF wf] by (auto simp: lcd_handle_escape_def p lcd_inv_def split: if_splits)
  next
    case 3
    show ?thesis
    proof (cases "p1 < 1 \<and> lcd_x d < 80")
      case True
      let ?y = "nat (lcd_y d)" and ?x = "nat (lcd_x d)"
      have y: "?y < 2" "?x < 80"
        and d': "d' = d\<lparr>line := (line d)[?y := (line d ! ?y)\<lparr>ldata := take ?x (ldata (line d ! ?y)) @
          replicate (80 - ?x) blank @ drop 80 (ldata (line d ! ?y))\<rparr>]\<rparr>"
        using assms(2) 3 True by (auto simp: lcd_handle_escape_def p Let_def split: if_splits)
      have "lcd_wf d' \<and> same_panel d d'"
        unfolding d' by (rule line_update_keeps [OF wf y(1) erase_line_inv [OF wf y]])
      then show ?thesis by (rule lcd_invI [OF assms(1)])
    next
      case False
      then have "d' = d" using assms(2) 3 by (auto simp: lcd_handle_escape_def p split: if_splits)
      with assms(1) show ?thesis by simp
    qed
  qed (use assms(1) in simp)
qed

lemma handle_char_inv:
  assumes "lcd_inv d" "handle_char c d = Some d'"
  shows "lcd_inv d'"
proof -
  have wf: "lcd_wf d" using assms(1) by (simp add: lcd_inv_def)
  note keep = lcd_invI [OF assms(1)] and fields = field_keeps [OF wf]
  consider (seq) "esccount d \<ge> 0" | (esc) "esccount d < 0" "c = 27" | (cr) "esccount d < 0" "c = 13"
    | (nl) "esccount d < 0" "c = 10" | (bs) "esccount d < 0" "c = 8"
    | (chr) "esccount d < 0" "c \<noteq> 27" "c \<noteq> 13" "c \<noteq> 10" "c \<noteq> 8"
    by fastforce
  then show ?thesis
  proof cases
    case seq
    let ?e = "d\<lparr>escape := (escape d)[nat (esccount d) := 0]\<rparr>"
    consider d1 where "lcd_handle_escape c ?e = Some d1" "d' = d1\<lparr>esccount := - 1\<rparr>"
      | "d' = d\<lparr>escape := (escape d)[nat (esccount d) := c], esccount := esccount d + 1\<rparr>" "esccount d < 7"
      | "d' = d"
      using assms(2) seq by (auto simp: handle_char_def split: if_splits)
    then show ?thesis
    proof cases
      case 1
      have "lcd_inv ?e" using keep [OF fields(7)] .
      then have "lcd_inv d1" using handle_escape_inv 1(1) by blast
      then show ?thesis
        unfolding 1(2) by (intro lcd_invI [OF _ field_keeps(6)]) (auto simp: lcd_inv_def)
    next
      case 2
      then show ?thesis using wf seq by (auto simp: lcd_wf_def intro!: keep fields(8))
    qed (use assms(1) in simp)
  next
    case esc
    then have "d' = d\<lparr>esccount := 0\<rparr>" using assms(2) by (simp add: handle_char_def)
    then show ?thesis using keep [OF fields(6)] by simp
  next
    case cr
    then have "d' = d\<lparr>lcd_x := 0\<rparr>" using assms(2) by (simp add: handle_char_def)
    then show ?thesis using keep [OF fields(1)] by simp
  next
    case nl
    let ?d1 = "d\<lparr>lcd_x := 0, lcd_y := schar (lcd_y d + 1)\<rparr>"
    have "d' = ?d1 \<or> d' = lcd_scroll_up ?d1"
      using nl assms(2) by (auto simp: handle_char_def Let_def split: if_splits)
    then show ?thesis
      using keep [OF fields(3)] lcd_invI [OF keep [OF fields(3)] scroll_up_keeps] fields(3) by blast
  next
    case bs
    then have "d' = d \<or> d' = d\<lparr>lcd_x := lcd_x d - 1\<rparr>"
      using assms(2) by (auto simp: handle_char_def split: if_splits)
    then show ?thesis using assms(1) keep [OF fields(1)] by auto
  next
    case chr
    then have "store_char c d = Some d' \<or> d' = d"
      using assms(2) by (auto simp: handle_char_def split: if_splits)
    then show ?thesis using assms(1) keep [OF store_char_inv [OF wf]] by auto
  qed
qed

lemma rescroll_keeps: "lcd_wf d \<Longrightarrow> lcd_wf (rescroll d) \<and> same_panel d (rescroll d)"
  by (auto simp: rescroll_def Let_def lcd_wf_def line_wf_def same_panel_def)

lemma rescroll_inv: "lcd_inv d \<Longrightarrow> lcd_inv (rescroll d)"
  using rescroll_keeps lcd_invI lcd_inv_def by blast

lemma repaint_inv: "lcd_inv d \<Longrightarrow> lcd_inv (lcd_repaint_screen d)"
  using repaint_in_sync repaint_shows(1) same_lines_wf by (auto simp: lcd_inv_def)

lemma timeout_inv:
  assumes "lcd_inv d"
  shows "lcd_inv (alt_lcd_16207_timeout d)"
proof -
  have "lcd_inv (d\<lparr>scrollpos := p\<rparr>)" for p
    using lcd_invI [OF assms field_keeps(5)] assms by (simp add: lcd_inv_def)
  then show ?thesis by (auto simp: alt_lcd_16207_timeout_def Let_def intro: repaint_inv)
qed

lemma active_inv: "lcd_inv d \<Longrightarrow> lcd_inv (d\<lparr>active := a\<rparr>)"
  using lcd_invI [OF _ field_keeps(4)] by (simp add: lcd_inv_def)

lemma repaint_loop_inv: "lcd_inv d \<Longrightarrow> lcd_inv (repaint_loop ticks d)"
proof (induction ticks arbitrary: d)
  case Nil
  then show ?case by (simp add: active_inv repaint_inv)
next
  case (Cons n ticks)
  have "lcd_inv ((alt_lcd_16207_timeout ^^ k) (lcd_repaint_screen d))" for k
    by (induction k) (simp_all add: repaint_inv Cons.prems timeout_inv)
  then show ?case by (simp add: Let_def Cons.IH active_inv)
qed

lemma putc_inv:
  assumes "lcd_inv d" "alt_lcd_16207_putc ticks c d = Some d'"
  shows "lcd_inv d'"
proof -
  obtain d1 where "handle_char c (d\<lparr>active := True\<rparr>) = Some d1" "d' = repaint_loop ticks (rescroll d1)"
    using assms(2) by (auto simp: alt_lcd_16207_putc_def split: option.splits)
  then show ?thesis
    using handle_char_inv active_inv [OF assms(1)] rescroll_inv repaint_loop_inv by metis
qed

subsection \<open>What is shown\<close>

definition displayed :: "lcd \<Rightarrow> bool" where
  "displayed d \<longleftrightarrow> (\<forall>y < 2. \<forall>x < 16. visible (line d ! y) ! x = cell d y x)"

lemma timeout_active: "active d \<Longrightarrow> \<exists>p. alt_lcd_16207_timeout d = d\<lparr>scrollpos := p\<rparr>"
  by (simp add: alt_lcd_16207_timeout_def Let_def) blast

lemma timeouts_active: "active d \<Longrightarrow> \<exists>p. (alt_lcd_16207_timeout ^^ n) d = d\<lparr>scrollpos := p\<rparr>"
proof (induction n)
  case 0
  then show ?case by (intro exI [of _ "scrollpos d"]) simp
next
  case (Suc n)
  then obtain p where "(alt_lcd_16207_timeout ^^ n) d = d\<lparr>scrollpos := p\<rparr>" by blast
  with Suc.prems timeout_active [of "d\<lparr>scrollpos := p\<rparr>"] show ?case by auto
qed

text \<open>A device whose lines differ from \<open>d\<close>'s in what is visible only, the position apart.\<close>

definition same_layout :: "lcd \<Rightarrow> lcd \<Rightarrow> bool" where
  "same_layout d d' \<longleftrightarrow> (\<forall>y < 2. ldata (line d' ! y) = ldata (line d ! y) \<and>
     width (line d' ! y) = width (line d ! y) \<and> speed (line d' ! y) = speed (line d ! y)) \<and>
     scrollmax d' = scrollmax d \<and> lcd_x d' = lcd_x d \<and> lcd_y d' = lcd_y d \<and> esccount d' = esccount d"

lemma same_lines_layout: "same_lines d d' \<Longrightarrow> same_layout d d'"
  by (simp add: same_lines_def same_layout_def)

lemma repaint_displayed: "lcd_wf d \<Longrightarrow> displayed (lcd_repaint_screen d)"
  by (simp add: displayed_def repaint_shows(2) same_lines_cell [OF repaint_shows(1)])

lemma repaint_loop_shows:
  assumes "lcd_wf d" "active d"
  shows "displayed (repaint_loop ticks d) \<and> same_layout d (repaint_loop ticks d)"
  using assms
proof (induction ticks arbitrary: d)
  case Nil
  then show ?case
    using repaint_displayed [of d] same_lines_layout [OF repaint_shows(1)]
    by (simp add: displayed_def cell_def scroll_offset_def same_layout_def)
next
  case (Cons n ticks)
  let ?r = "lcd_repaint_screen d"
  have r1: "same_lines d ?r" using repaint_shows(1) [OF Cons.prems(1)] .
  then have r: "same_lines d ?r" "displayed ?r" "lcd_wf ?r" "active ?r"
    using repaint_displayed same_lines_wf [OF r1] Cons.prems by (auto simp: same_lines_def [of d ?r])
  obtain p where p: "(alt_lcd_16207_timeout ^^ n) ?r = ?r\<lparr>scrollpos := p\<rparr>"
    using timeouts_active [OF r(4)] by blast
  show ?case
  proof (cases "p = scrollpos d")
    case True
    then have "?r\<lparr>scrollpos := p\<rparr> = ?r" using r(1) by (simp add: same_lines_def)
    then show ?thesis
      using True r same_lines_layout [OF r(1)]
      by (simp add: p Let_def displayed_def cell_def scroll_offset_def same_layout_def same_lines_def)
  next
    case False
    let ?d2 = "?r\<lparr>scrollpos := p, active := True\<rparr>"
    have "lcd_wf ?d2" using r(3) by (simp add: lcd_wf_def)
    then have "displayed (repaint_loop ticks ?d2) \<and> same_layout ?d2 (repaint_loop ticks ?d2)"
      by (intro Cons.IH) simp_all
    then show ?thesis
      using False same_lines_layout [OF r(1)] by (simp add: p Let_def same_layout_def)
  qed
qed

lemma line_width_short: "used_width D 80 \<le> 16 \<Longrightarrow> line_width D = 16"
  by (simp add: line_width_def)

lemma rescroll_line:
  assumes "length (line d) = 2" "y < 2"
  shows "ldata (line (rescroll d) ! y) = ldata (line d ! y)"
    "width (line (rescroll d) ! y) = schar (line_width (ldata (line d ! y)))"
    "used_width (ldata (line d ! y)) 80 \<le> 16 \<Longrightarrow> speed (line (rescroll d) ! y) = 0"
  using assms by (simp_all add: rescroll_def Let_def line_width_short schar_small)

lemma short_line_cell:
  assumes "width (line d ! y) = 16" "speed (line d ! y) = 0" "x < 16"
  shows "cell d y x = ldata (line d ! y) ! x"
  using assms by (simp add: cell_def scroll_offset_def)

lemma active_simps [simp]:
  "active (lcd_scroll_up d) = active d" "active (rescroll d) = active d"
  "active (lcd_clear_screen d) = active d"
proof -
  have "active (lcd_write_command c d) = active d" for c
    using text_of_eqD(8) [OF text_of_writes(1)] .
  then show "active (lcd_clear_screen d) = active d" by (simp add: lcd_clear_screen_def)
qed (simp_all add: lcd_scroll_up_def rescroll_def Let_def)

lemma scroll_down_to_active [simp]: "active (scroll_down_to d) = active d"
  by (induction d rule: scroll_down_to.induct) (simp add: scroll_down_to.simps)

lemma handle_escape_active: "lcd_handle_escape c d = Some d' \<Longrightarrow> active d' = active d"
  by (auto simp: lcd_handle_escape_def Let_def split: if_splits prod.splits)

lemma handle_char_active: "handle_char c d = Some d' \<Longrightarrow> active d' = active d"
  by (auto simp: handle_char_def store_char_def Let_def dest!: handle_escape_active split: if_splits)

lemma putc_parts:
  assumes "alt_lcd_16207_putc ticks c d = Some d'" "lcd_inv d"
  obtains d1 where "handle_char c (d\<lparr>active := True\<rparr>) = Some d1" "lcd_inv (rescroll d1)" "lcd_inv d1"
    "lcd_inv d'" "displayed d'" "same_layout (rescroll d1) d'"
proof -
  obtain d1 where d1: "handle_char c (d\<lparr>active := True\<rparr>) = Some d1" "d' = repaint_loop ticks (rescroll d1)"
    using assms(1) by (auto simp: alt_lcd_16207_putc_def split: option.splits)
  have inv: "lcd_inv d1" using handle_char_inv [OF active_inv [OF assms(2)] d1(1)] .
  have "active (rescroll d1)" using handle_char_active [OF d1(1)] by simp
  then have "displayed d' \<and> same_layout (rescroll d1) d'"
    using repaint_loop_shows rescroll_inv [OF inv] by (simp add: d1(2) lcd_inv_def)
  then show thesis using d1 inv rescroll_inv putc_inv [OF assms(2,1)] by (intro that) auto
qed

text \<open>
  C14: what is on the panel. After a character has been written, whatever timer interrupts came in
  meanwhile, every cell of the panel (as determined by the commands and data sent to it since the
  start, unless it stopped answering) holds the character of its line that the scrolling position
  selects; a line of at most 16 characters is shown as it is.
\<close>

theorem putc_displays:
  assumes "lcd_inv d" "alt_lcd_16207_putc ticks c d = Some d'"
  shows "lcd_inv d' \<and>
    (\<forall>y < 2. \<forall>x < 16. (\<not> broken d' \<longrightarrow> fst (panel d') (x + colstart ! y) = cell d' y x) \<and>
      (used_width (ldata (line d' ! y)) 80 \<le> 16 \<longrightarrow> cell d' y x = ldata (line d' ! y) ! x))"
proof -
  obtain d1 where d1: "lcd_inv d1" "lcd_inv d'" "displayed d'" "same_layout (rescroll d1) d'"
    using putc_parts [OF assms(2,1)] by blast
  have len: "length (line d1) = 2" using d1(1) by (simp add: lcd_inv_def lcd_wf_def)
  have short: "cell d' y x = ldata (line d' ! y) ! x"
    if "y < 2" "x < 16" "used_width (ldata (line d' ! y)) 80 \<le> 16" for y x
  proof (rule short_line_cell)
    have "ldata (line d' ! y) = ldata (line d1 ! y)"
      using d1(4) that(1) rescroll_line(1) [OF len] by (simp add: same_layout_def)
    then show "width (line d' ! y) = 16" "speed (line d' ! y) = 0"
      using d1(4) that rescroll_line [OF len that(1)] by (simp_all add: same_layout_def line_width_short schar_small)
  qed (rule that(2))
  show ?thesis
    using d1(2,3) short by (auto simp: lcd_inv_def in_sync_def displayed_def)
qed

lemma write_command_inv:
  assumes "lcd_inv d" "\<not> 0x80 \<le> c" "c \<noteq> 1"
  shows "lcd_inv (lcd_write_command c d)"
proof -
  obtain b k where w: "lcd_write_command c d =
      d\<lparr>broken := b, busy := k, io := io d @ (if b then [] else [Command c])\<rparr>" "broken d \<longrightarrow> b"
    using lcd_write_command_cases by blast
  show ?thesis
    using assms w(2) by (cases "panel d") (auto simp: w(1) lcd_inv_def lcd_wf_def in_sync_def)
qed

lemma write_command_wf: "lcd_wf d \<Longrightarrow> lcd_wf (lcd_write_command c d)"
  by (rule lcd_write_command_cases [of c d]) (simp add: lcd_wf_def)

lemma init_inv: "lcd_inv (alt_lcd_16207_init (fresh_lcd b))"
proof -
  define d2 where "d2 = lcd_write_command 0x08 (lcd_write_command 0x38
    ((fresh_lcd b)\<lparr>broken := False, io := io (fresh_lcd b) @ [Command 0x30, Command 0x30, Command 0x30]\<rparr>))"
  have "lcd_wf ((fresh_lcd b)\<lparr>broken := False, io := io (fresh_lcd b) @ [Command 0x30, Command 0x30, Command 0x30]\<rparr>)"
    by (simp add: fresh_lcd_def lcd_wf_def line_wf_def)
  then have "lcd_wf d2" by (simp add: d2_def write_command_wf)
  then have "lcd_inv (lcd_clear_screen d2)" using clear_screen_inv by (simp add: lcd_inv_def)
  then have "lcd_inv (lcd_write_command 0x0C (lcd_write_command 0x06 (lcd_clear_screen d2)))"
    by (intro write_command_inv) (simp_all add: word_le_nat_alt)
  then show ?thesis
    by (simp add: alt_lcd_16207_init_def Let_def d2_def [symmetric] lcd_inv_def in_sync_def panel_def lcd_wf_def)
qed

text \<open>Text without escape sequences whose lines have at most 127 characters.\<close>

fun short_lines :: "nat \<Rightarrow> bytes \<Rightarrow> bool" where
  "short_lines n [] = True"
| "short_lines n (c # cs) =
     (if c = 10 \<or> c = 13 then short_lines 0 cs else n < 127 \<and> short_lines (Suc n) cs)"

definition cursor_ok :: "nat \<Rightarrow> lcd \<Rightarrow> bool" where
  "cursor_ok n d \<longleftrightarrow> esccount d = - 1 \<and> 0 \<le> lcd_x d \<and> lcd_x d \<le> int n \<and> 0 \<le> lcd_y d \<and> lcd_y d \<le> 2"

lemma handle_char_cursor:
  assumes "cursor_ok n d" "c = 10 \<or> c = 13 \<or> n < 127" "c \<noteq> 27"
  shows "\<exists>d'. handle_char c d = Some d' \<and> cursor_ok (if c = 10 \<or> c = 13 then 0 else Suc n) d'"
proof -
  have x: "schar (lcd_x d + 1) = lcd_x d + 1" if "n < 127"
    using assms(1) that by (simp add: cursor_ok_def schar_small)
  have y: "schar (lcd_y d + 1) = lcd_y d + 1" "2 \<le> lcd_y d \<longrightarrow> schar (lcd_y d - 1) = 1"
    using assms(1) by (auto simp: cursor_ok_def schar_small)
  have up: "lcd_y (lcd_scroll_up e) = schar (lcd_y e - 1)" "lcd_x (lcd_scroll_up e) = lcd_x e"
    "esccount (lcd_scroll_up e) = esccount e" for e
    by (simp_all add: lcd_scroll_up_def Let_def)
  consider "c = 10" | "c = 13" | "c = 8" | "c \<notin> {8, 10, 13, 27}" using assms(3) by auto
  then show ?thesis
  proof cases
    case 1
    then show ?thesis using assms(1) y by (auto simp: handle_char_def cursor_ok_def up Let_def schar_small)
  next
    case 4
    then have "n < 127" using assms(2) by auto
    with 4 show ?thesis
      using assms(1) x y by (auto simp: handle_char_def cursor_ok_def store_char_def up Let_def)
  qed (use assms(1) in \<open>auto simp: handle_char_def cursor_ok_def\<close>)
qed

lemma same_layout_cursor: "same_layout d d' \<Longrightarrow> cursor_ok n d' = cursor_ok n d"
  by (simp add: same_layout_def cursor_ok_def)

lemma rescroll_cursor: "cursor_ok n (rescroll d) = cursor_ok n d"
  by (simp add: rescroll_def cursor_ok_def Let_def)

lemma lcd_write_short:
  assumes "lcd_inv d" "cursor_ok n d" "short_lines n cs" "27 \<notin> set cs"
  shows "\<exists>d'. lcd_write cs d = Some d' \<and> lcd_inv d'"
  using assms
proof (induction cs arbitrary: d n)
  case Nil
  then show ?case by simp
next
  case (Cons c cs)
  let ?n = "if c = 10 \<or> c = 13 then 0 else Suc n"
  have "cursor_ok n (d\<lparr>active := True\<rparr>)" using Cons.prems(2) by (simp add: cursor_ok_def)
  then obtain d1 where d1: "handle_char c (d\<lparr>active := True\<rparr>) = Some d1" "cursor_ok ?n d1"
    using handle_char_cursor [of n "d\<lparr>active := True\<rparr>" c] Cons.prems(3,4)
    by (cases "c = 10 \<or> c = 13") auto
  then obtain d' where d': "alt_lcd_16207_putc [] c d = Some d'"
    by (simp add: alt_lcd_16207_putc_def)
  from d' Cons.prems(1) obtain "lcd_inv d'" "same_layout (rescroll d1) d'"
    by (rule putc_parts) (use d1(1) in auto)
  then have "cursor_ok ?n d'" using d1(2) by (simp only: same_layout_cursor rescroll_cursor)
  with d' \<open>lcd_inv d'\<close> show ?case
    using Cons.IH [of d' ?n] Cons.prems(3,4) by (cases "c = 10 \<or> c = 13") auto
qed

lemma init_cursor: "cursor_ok 0 (alt_lcd_16207_init (fresh_lcd b))"
proof -
  have "lcd_x (lcd_write_command c d) = lcd_x d" "lcd_y (lcd_write_command c d) = lcd_y d" for c d
    using text_of_eqD(4,5) [OF text_of_writes(1)] by auto
  then show ?thesis by (simp add: cursor_ok_def alt_lcd_16207_init_def Let_def lcd_clear_screen_def)
qed

theorem putc_displays_witness:
  "\<exists>d'. alt_lcd_16207_putc [2, 0] 72 (alt_lcd_16207_init (fresh_lcd [])) = Some d' \<and> lcd_inv d' \<and>
    (\<forall>y < 2. \<forall>x < 16. (\<not> broken d' \<longrightarrow> fst (panel d') (x + colstart ! y) = cell d' y x) \<and>
      (used_width (ldata (line d' ! y)) 80 \<le> 16 \<longrightarrow> cell d' y x = ldata (line d' ! y) ! x))"
proof -
  have "cursor_ok 0 ((alt_lcd_16207_init (fresh_lcd []))\<lparr>active := True\<rparr>)"
    using init_cursor [of "[]"] by (simp add: cursor_ok_def)
  then obtain d1 where "handle_char 72 ((alt_lcd_16207_init (fresh_lcd []))\<lparr>active := True\<rparr>) = Some d1"
    using handle_char_cursor [of 0 _ 72] by auto
  then obtain d' where "alt_lcd_16207_putc [2, 0] 72 (alt_lcd_16207_init (fresh_lcd [])) = Some d'"
    by (simp add: alt_lcd_16207_putc_def)
  with putc_displays [OF init_inv this] show ?thesis by blast
qed

text \<open>
  Ordinary text is safe. From the initialised device, any text without escape sequences whose
  lines have at most 127 characters is written without a store outside the line buffers, and the
  panel stays in step with the driver.
\<close>

theorem lcd_text_safe:
  assumes "short_lines 0 cs" "27 \<notin> set cs"
  shows "\<exists>d. lcd_write cs (alt_lcd_16207_init (fresh_lcd b)) = Some d \<and> lcd_wf d \<and> in_sync d"
  using lcd_write_short [OF init_inv init_cursor assms] by (auto simp: lcd_inv_def)

theorem lcd_text_safe_witness:
  "\<exists>d. lcd_write [72, 105, 10, 33] (alt_lcd_16207_init (fresh_lcd [])) = Some d \<and> lcd_wf d \<and> in_sync d"
  using lcd_text_safe [of "[72, 105, 10, 33]" "[]"] by simp

text \<open>
  Escape sequences and long lines can store outside the buffers: erasing to the end of the line
  with the cursor on the line below the screen (where a line feed may leave it), a character after the
  cursor was sent to row 200 (which becomes row -57), and the second of two characters after column 127.
\<close>

theorem lcd_stores_outside:
  "(lcd_y d = 2 \<and> 0 \<le> lcd_x d \<and> lcd_x d < 80 \<and> escape d ! 0 \<noteq> 0x5B \<longrightarrow>
      lcd_handle_escape 0x4B d = None) \<and>
   (escape d = [0x5B, 0x32, 0x30, 0x30, 0, 0, 0, 0] \<and> lcd_x d < 80 \<longrightarrow>
      (\<exists>d1. lcd_handle_escape 0x48 d = Some d1 \<and> lcd_y d1 = - 57 \<and> store_char 0x41 d1 = None)) \<and>
   (lcd_x d = 127 \<and> 0 \<le> lcd_y d \<and> lcd_y d < 2 \<longrightarrow>
      (\<exists>d1. store_char 0x41 d = Some d1 \<and> store_char 0x41 d1 = None))"
proof (intro conjI impI)
  assume "lcd_y d = 2 \<and> 0 \<le> lcd_x d \<and> lcd_x d < 80 \<and> escape d ! 0 \<noteq> 0x5B"
  then show "lcd_handle_escape 0x4B d = None"
    by (simp add: lcd_handle_escape_def escape_parms_def)
next
  assume e: "escape d = [0x5B, 0x32, 0x30, 0x30, 0, 0, 0, 0] \<and> lcd_x d < 80"
  then have "escape_parms (escape d) = (200, 0)"
    by (simp add: escape_parms_def word_le_nat_alt uint_numeral)
  moreover have "schar 199 = - 57" by (simp add: schar_def)
  ultimately show "\<exists>d1. lcd_handle_escape 0x48 d = Some d1 \<and> lcd_y d1 = - 57 \<and> store_char 0x41 d1 = None"
    using e by (simp add: lcd_handle_escape_def scroll_down_to.simps store_char_def Let_def)
next
  assume "lcd_x d = 127 \<and> 0 \<le> lcd_y d \<and> lcd_y d < 2"
  moreover have "schar 128 = - 128" by (simp add: schar_def)
  ultimately show "\<exists>d1. store_char 0x41 d = Some d1 \<and> store_char 0x41 d1 = None"
    by (simp add: store_char_def Let_def)
qed

theorem lcd_stores_outside_witness:
  "lcd_handle_escape 0x4B ((fresh_lcd [])\<lparr>lcd_y := 2\<rparr>) = None"
  using lcd_stores_outside [of "(fresh_lcd [])\<lparr>lcd_y := 2\<rparr>"] by (simp add: fresh_lcd_def)

lemma used_width_le: "used_width D n \<le> n"
  by (induction n) auto

lemma schar_high: "128 \<le> i \<Longrightarrow> i < 256 \<Longrightarrow> schar i = i - 256"
proof -
  assume a: "128 \<le> i" "i < 256"
  have "schar i = signed_take_bit 7 (i - 256)"
    unfolding schar_def by (rule signed_take_bit_eq_iff_take_bit_eq [THEN iffD2]) (simp add: take_bit_eq_mod mod_eq_dvd_iff)
  then show ?thesis using a by (simp add: signed_take_bit_int_eq_self)
qed

lemma rescroll_scrollmax:
  assumes "length (line d) = 2" "y < 2" "63 \<le> used_width (ldata (line d ! y)) 80"
  shows "scrollmax (rescroll d) < 0"
proof -
  obtain a b where l: "line d = [a, b]" using assms(1) two_lines [of "line d"] by blast
  let ?w = "\<lambda>l. line_width (ldata l)"
  have le: "?w l \<le> 81" for l using used_width_le [of "ldata l" 80] by (simp add: line_width_def Let_def)
  have "64 \<le> ?w (line d ! y)" using assms(3) by (simp add: line_width_def Let_def)
  then have "64 \<le> max (max 16 (?w a)) (?w b)" using assms(2) l by (auto simp: less_two)
  moreover have "max (max 16 (?w a)) (?w b) \<le> 81" using le [of a] le [of b] by simp
  ultimately have "scrollmax (rescroll d) = schar (max (max 16 (?w a)) (?w b) * 2)"
    "schar (max (max 16 (?w a)) (?w b) * 2) < 0"
    by (auto simp: rescroll_def l Let_def schar_high)
  then show ?thesis by (simp only:)
qed

text \<open>
  A line with 63 characters or more does not scroll: the limit of the scrolling position, twice
  the line's width, does not fit into a signed \<^verbatim>\<open>char\<close>, so that the timer keeps the position at 0
  and characters beyond the 16th are never shown.
\<close>

theorem long_line_never_scrolls:
  assumes "length (line d) = 2" "y < 2" "63 \<le> used_width (ldata (line d ! y)) 80" "0 \<le> scrollpos d"
  shows "scrollmax (rescroll d) < 0 \<and> scrollpos ((alt_lcd_16207_timeout ^^ Suc n) (rescroll d)) = 0"
proof -
  let ?t = "\<lambda>n. (alt_lcd_16207_timeout ^^ n) (rescroll d)"
  have max: "scrollmax (rescroll d) < 0" using rescroll_scrollmax assms by blast
  have pos: "scrollpos (rescroll d) = scrollpos d" by (simp add: rescroll_def Let_def)
  have "scrollmax (?t n) = scrollmax (rescroll d) \<and> 0 \<le> scrollpos (?t n)" for n
    by (induction n) (use max pos assms(4) in \<open>auto simp: alt_lcd_16207_timeout_def Let_def\<close>)
  from this [of n] max have "scrollpos (?t (Suc n)) = 0"
    by (simp add: alt_lcd_16207_timeout_def Let_def)
  with max show ?thesis by blast
qed

theorem long_line_never_scrolls_witness:
  "scrollmax (rescroll ((fresh_lcd [])\<lparr>line := replicate 2
     \<lparr>visible = replicate 16 0x20, ldata = replicate 81 0x41, width = 0, speed = 0\<rparr>\<rparr>)) < 0"
proof -
  have "used_width (replicate 81 0x41) (Suc 79) = Suc 79" unfolding used_width.simps by simp
  then have "used_width (replicate 81 0x41) 80 = 80" by simp
  then show ?thesis
    using long_line_never_scrolls [of "(fresh_lcd [])\<lparr>line := replicate 2
      \<lparr>visible = replicate 16 0x20, ldata = replicate 81 0x41, width = 0, speed = 0\<rparr>\<rparr>" 0 0]
    by (simp add: fresh_lcd_def)
qed

end
