(* ===== verification/Firmware.thy ===== *)
theory Firmware
  imports Nios_Prelude
begin

text \<open>
  Firmware images: the upgrade of \<^verbatim>\<open>services/firmwareutil/firmwareutil.c\<close> (check the header,
  decompress to a temporary file, erase and program the flash) and the loader
  \<^verbatim>\<open>bootloader/deflator/deflator.c\<close> (decompress the application into RAM and start it).

  zlib's \<^verbatim>\<open>inflate\<close> and the flash driver are parameters. \<open>inflate z inp n\<close> is a call with
  stream state \<open>z\<close>, the bytes \<open>inp\<close> available and room for \<open>n\<close> bytes; its result is the
  status, the number of bytes consumed, the bytes produced and the new state. \<open>inflater_ok\<close>
  states what the programs rely on. Progress messages are not modelled, nor are failures to open the temporary file or to read
  a file that exists; the firmware file is another than the temporary file, which opening it for output empties.
\<close>

type_synonym 'z inflate = "'z \<Rightarrow> bytes \<Rightarrow> nat \<Rightarrow> int \<times> nat \<times> bytes \<times> 'z"

abbreviation (input) Z_OK :: int where "Z_OK \<equiv> 0"
abbreviation (input) Z_STREAM_END :: int where "Z_STREAM_END \<equiv> 1"
abbreviation (input) Z_MEM_ERROR :: int where "Z_MEM_ERROR \<equiv> - 4"

subsection \<open>The upgrade\<close>

record cyg_upgrade_info =
  flash_base :: nat
  upg_file :: string
  upg_name :: string
  start_address :: int
  upg_length :: nat
  upg_header :: bytes

text \<open>
  Files by name, and the room there is for the temporary file. \<^verbatim>\<open>read\<close> returns as much as is
  asked for and there is.
\<close>

record files =
  contents :: "string \<rightharpoonup> bytes"
  tmp_room :: nat

definition tmp_file :: string where
  "tmp_file = ''/ram/tmp''"

text \<open>\<^verbatim>\<open>expect\<close>: the rest of the file behind the header, or failure.\<close>

fun expect :: "bytes \<Rightarrow> bytes \<Rightarrow> bytes option" where
  "expect [] inp = Some inp"
| "expect (h # hs) [] = None"
| "expect (h # hs) (t # inp) = (if t \<noteq> h then None else expect hs inp)"

text \<open>
  The loop of \<^verbatim>\<open>gunzip_firmware\<close>: \<open>buf\<close> is the unused part of \<^verbatim>\<open>inputBuffer\<close>, \<open>inp\<close> the
  part of the file not read yet, \<open>out\<close> the temporary file. \<open>None\<close> means that the loop does not
  end; otherwise the result is whether all went well, and the temporary file.
\<close>

partial_function (option) gunzip_loop ::
  "'z inflate \<Rightarrow> nat \<Rightarrow> 'z \<Rightarrow> bytes \<Rightarrow> bytes \<Rightarrow> bytes \<Rightarrow> (bool \<times> bytes) option" where
  "gunzip_loop inflate room z buf inp out =
     (let k = 8192 - length buf;
          buf1 = buf @ take k inp;
          (err, used, bs, z1) = inflate z buf1 8192
      in if err \<noteq> Z_STREAM_END \<and> err \<noteq> Z_OK then Some (False, out)
         else if length out + length bs > room then Some (False, take room (out @ bs))
         else if err = Z_STREAM_END then Some (True, out @ bs)
         else gunzip_loop inflate room z1 (drop used buf1) (drop k inp) (out @ bs))"

definition gunzip_firmware ::
  "'z inflate \<Rightarrow> int \<times> 'z \<Rightarrow> cyg_upgrade_info \<Rightarrow> files \<Rightarrow> (int option \<times> files) option" where
  "gunzip_firmware inflate init info fs =
     (case contents fs (upg_file info) of
        None \<Rightarrow> Some (None, fs)
      | Some bs \<Rightarrow>
          (let fs1 = fs\<lparr>contents := (contents fs)(tmp_file \<mapsto> [])\<rparr>
           in case expect (upg_header info) bs of
                None \<Rightarrow> Some (None, fs1)
              | Some inp \<Rightarrow>
                  (if fst init = Z_MEM_ERROR then Some (None, fs1)
                   else
                     (case gunzip_loop inflate (tmp_room fs) (snd init) [] inp [] of
                        None \<Rightarrow> None
                      | Some (ok, out) \<Rightarrow>
                          Some (if ok then Some (int (length out)) else None,
                                fs\<lparr>contents := (contents fs)(tmp_file \<mapsto> out)\<rparr>)))))"

text \<open>
  The flash driver: \<open>erase f addr len\<close> and \<open>program f addr data\<close> return a status (0 for
  success) and the flash. The programming loop reads the temporary file in pieces of 64 KB.
\<close>

type_synonym 'f eraser = "'f \<Rightarrow> nat \<Rightarrow> nat \<Rightarrow> int \<times> 'f"
type_synonym 'f programmer = "'f \<Rightarrow> nat \<Rightarrow> bytes \<Rightarrow> int \<times> 'f"

definition flash_chunk :: nat where
  "flash_chunk = 65536"

definition padded :: "bytes \<Rightarrow> bytes" where
  "padded bs = take ((length bs + 3) div 4 * 4) (bs @ replicate (flash_chunk - length bs) 0xff)"

function program_loop :: "'f programmer \<Rightarrow> nat \<Rightarrow> bytes \<Rightarrow> 'f \<Rightarrow> bool \<times> 'f" where
  "program_loop program addr inp f =
     (let bs = take flash_chunk inp
      in if bs = [] then (True, f)
         else
           (let (stat, f1) = program f addr (padded bs)
            in if stat \<noteq> 0 then (False, f1)
               else program_loop program (addr + length bs) (drop flash_chunk inp) f1))"
  by auto
termination
  by (relation "measure (\<lambda>(p, a, inp, f). length inp)") (auto simp: flash_chunk_def)

declare program_loop.simps [simp del]

definition cyg_firmware_upgrade ::
  "'z inflate \<Rightarrow> int \<times> 'z \<Rightarrow> 'f eraser \<Rightarrow> 'f programmer \<Rightarrow> cyg_upgrade_info \<Rightarrow> files \<Rightarrow> 'f \<Rightarrow>
   (bool \<times> files \<times> 'f) option" where
  "cyg_firmware_upgrade inflate init erase program info fs f =
     (case gunzip_firmware inflate init info fs of
        None \<Rightarrow> None
      | Some (None, fs1) \<Rightarrow> Some (False, fs1, f)
      | Some (Some actuallength, fs1) \<Rightarrow>
          (case contents fs1 tmp_file of
             None \<Rightarrow> Some (False, fs1, f)
           | Some inp \<Rightarrow>
               (let addr = nat (int (flash_base info) + start_address info);
                    (stat, f1) = erase f addr (nat actuallength)
                in if stat \<noteq> 0 then Some (False, fs1, f1)
                   else
                     (let (ok, f2) = program_loop program addr inp f1
                      in if ok then
                           Some (True, fs1\<lparr>contents := (contents fs1)(upg_file info := None)\<rparr>, f2)
                         else Some (False, fs1, f2)))))"

subsection \<open>The loader\<close>

datatype deflator_result = Launch nat | Reset | Return_from_main

text \<open>
  \<open>inp\<close> are the bytes from the application's place in ROM, \<open>ram\<close> is the memory from its place in RAM on.
\<close>

partial_function (option) deflator_loop ::
  "'z inflate \<Rightarrow> 'z \<Rightarrow> bytes \<Rightarrow> nat \<Rightarrow> (nat \<Rightarrow> u8) \<Rightarrow> (deflator_result \<times> (nat \<Rightarrow> u8)) option" where
  "deflator_loop inflate z inp offset ram =
     (let (err, used, bs, z1) = inflate z inp 8192;
          ram1 = store_bytes offset bs ram
      in if err = Z_STREAM_END then Some (Launch (offset + length bs), ram1)
         else if err \<noteq> Z_OK then Some (Return_from_main, ram1)
         else deflator_loop inflate z1 (drop used inp) (offset + length bs) ram1)"

definition deflator_main ::
  "'z inflate \<Rightarrow> int \<times> 'z \<Rightarrow> bytes \<Rightarrow> (nat \<Rightarrow> u8) \<Rightarrow> (deflator_result \<times> (nat \<Rightarrow> u8)) option" where
  "deflator_main inflate init rom ram =
     (if fst init = Z_MEM_ERROR then Some (Reset, ram)
      else deflator_loop inflate (snd init) (take 0x1000000 rom) 0 ram)"

subsection \<open>What the programs rely on\<close>

text \<open>
  \<open>R z cs ps\<close>: the stream state \<open>z\<close> expects the compressed bytes \<open>cs\<close> and will produce the bytes
  \<open>ps\<close>. A call with some of the expected input (with anything behind it) consumes and produces a
  prefix, makes progress, and reports the end of the stream exactly when all has been consumed and
  produced.
\<close>

definition inflate_step :: "('z \<Rightarrow> bytes \<Rightarrow> bytes \<Rightarrow> bool) \<Rightarrow> bytes \<Rightarrow> bytes \<Rightarrow> nat \<Rightarrow> bytes \<Rightarrow>
    int \<times> nat \<times> bytes \<times> 'z \<Rightarrow> bool" where
  "inflate_step R cs ps n b = (\<lambda>(err, used, out, z').
     used \<le> length b \<and> used \<le> length cs \<and> length out \<le> n \<and> out = take (length out) ps \<and>
     (if used = length cs \<and> out = ps then err = Z_STREAM_END
      else err = Z_OK \<and> (0 < used \<or> out \<noteq> []) \<and> R z' (drop used cs) (drop (length out) ps)))"

definition inflater_ok :: "'z inflate \<Rightarrow> ('z \<Rightarrow> bytes \<Rightarrow> bytes \<Rightarrow> bool) \<Rightarrow> bool" where
  "inflater_ok inflate R \<longleftrightarrow>
     (\<forall>z cs ps b n. R z cs ps \<and> 0 < n \<and> (b = [] \<longrightarrow> cs = []) \<and> take (length cs) b = take (length b) cs \<longrightarrow>
        inflate_step R cs ps n b (inflate z b n))"

text \<open>
  On any data, valid or not: a call consumes no more than there is, and one that returns
  \<^verbatim>\<open>Z_OK\<close> has consumed or produced something (zlib reports \<^verbatim>\<open>Z_BUF_ERROR\<close> otherwise).
\<close>

definition inflate_moves :: "'z inflate \<Rightarrow> bool" where
  "inflate_moves inflate \<longleftrightarrow>
     (\<forall>z b n. case inflate z b n of (err, used, out, z') \<Rightarrow>
        used \<le> length b \<and> (err = Z_OK \<longrightarrow> 0 < used \<or> out \<noteq> []))"

lemma gunzip_loop_stops:
  assumes "inflate_moves inflate" "length buf \<le> 8192" "length out \<le> room"
  shows "\<exists>r. gunzip_loop inflate room z buf inp out = Some r"
  using assms(2,3)
proof (induction "length buf + length inp + (room - length out)" arbitrary: z buf inp out rule: less_induct)
  case less
  define b where "b = buf @ take (8192 - length buf) inp"
  obtain err used bs z1 where i: "inflate z b 8192 = (err, used, bs, z1)" by (metis prod_cases4)
  have m: "used \<le> length b" "err = Z_OK \<longrightarrow> 0 < used + length bs"
    using assms(1) i unfolding inflate_moves_def by (force dest: spec [of _ z] spec [of _ b] spec [of _ 8192])+
  have unfold: "gunzip_loop inflate room z buf inp out =
      (if err \<noteq> Z_STREAM_END \<and> err \<noteq> Z_OK then Some (False, out)
       else if length out + length bs > room then Some (False, take room (out @ bs))
       else if err = Z_STREAM_END then Some (True, out @ bs)
       else gunzip_loop inflate room z1 (drop used b) (drop (8192 - length buf) inp) (out @ bs))"
    by (subst gunzip_loop.simps) (simp add: b_def [symmetric] i)
  have b: "length b + length (drop (8192 - length buf) inp) = length buf + length inp" "length b \<le> 8192"
    using less.prems(1) by (auto simp: b_def)
  show ?case
  proof (cases "err = Z_OK \<and> length out + length bs \<le> room")
    case True
    have "length (drop used b) + length (drop (8192 - length buf) inp) + (room - length (out @ bs)) <
        length buf + length inp + (room - length out)"
      using m b(1) True unfolding length_drop length_append by linarith
    then have "\<exists>r. gunzip_loop inflate room z1 (drop used b) (drop (8192 - length buf) inp) (out @ bs) = Some r"
      using b(2) True by (intro less.hyps) auto
    with True show ?thesis by (simp add: unfold)
  next
    case False
    then show ?thesis by (auto simp: unfold)
  qed
qed

lemma firmware_upgrade_ends:
  assumes "inflate_moves inflate"
  shows "\<exists>r. cyg_firmware_upgrade inflate init erase program info fs f = Some r"
proof -
  have "gunzip_loop inflate (tmp_room fs) (snd init) [] inp [] \<noteq> None" for inp
    using gunzip_loop_stops [OF assms, of "[]" "[]" "tmp_room fs" "snd init" inp] by auto
  then have "\<exists>r. gunzip_firmware inflate init info fs = Some r"
    by (simp add: gunzip_firmware_def Let_def split: option.splits) (metis option.distinct(1))
  then show ?thesis
    by (auto simp: cyg_firmware_upgrade_def Let_def split: option.splits prod.splits)
qed

text \<open>The input offered is the expected one: a part of it, or all of it and more.\<close>

lemma inflater_okD:
  assumes "inflater_ok inflate R" "R z cs ps" "0 < n" "0 < k"
  shows "inflate_step R cs ps n (take k (cs @ junk)) (inflate z (take k (cs @ junk)) n)"
proof -
  have "take k (cs @ junk) = [] \<longrightarrow> cs = []" using assms(4) by auto
  moreover have "take (length cs) (take k (cs @ junk)) = take (length (take k (cs @ junk))) cs"
    by (cases "k \<le> length cs") (auto simp: min_def)
  ultimately show ?thesis using assms(1-3) unfolding inflater_ok_def by blast
qed

lemma drop_within: "n \<le> length xs \<Longrightarrow> drop n xs @ ys = drop n (xs @ ys)"
  by simp

text \<open>
  The decompression loop ends and writes exactly what the compressed data stands for, whatever
  comes behind it in the file.
\<close>

lemma gunzip_loop_ends:
  assumes "inflater_ok inflate R" "R z cs ps" "buf @ inp = cs @ junk" "length buf \<le> 8192"
    and "length out + length ps \<le> room"
  shows "gunzip_loop inflate room z buf inp out = Some (True, out @ ps)"
  using assms
proof (induction "length cs + length ps" arbitrary: z cs ps buf inp out rule: less_induct)
  case less
  define b where "b = buf @ take (8192 - length buf) inp"
  have b: "b = take 8192 (cs @ junk)" using less.prems(3,4) by (metis b_def take_append take_all_iff)
  obtain err used bs z1 where i: "inflate z b 8192 = (err, used, bs, z1)" by (metis prod_cases4)
  have st: "inflate_step R cs ps 8192 b (err, used, bs, z1)"
    using inflater_okD [OF less.prems(1,2), of 8192 8192 junk] by (simp add: b i [symmetric])
  have room: "\<not> length out + length bs > room"
  proof -
    have "length bs \<le> length ps" using st by (auto simp: inflate_step_def) (metis length_take min.cobounded1)
    with less.prems(5) show ?thesis by simp
  qed
  have unfold: "gunzip_loop inflate room z buf inp out =
      (if err \<noteq> Z_STREAM_END \<and> err \<noteq> Z_OK then Some (False, out)
       else if err = Z_STREAM_END then Some (True, out @ bs)
       else gunzip_loop inflate room z1 (drop used b) (drop (8192 - length buf) inp) (out @ bs))"
    by (subst gunzip_loop.simps) (simp add: b_def [symmetric] i room)
  show ?case
  proof (cases "used = length cs \<and> bs = ps")
    case True
    then show ?thesis using st by (simp add: unfold inflate_step_def)
  next
    case False
    then have s: "err = Z_OK" "0 < used \<or> bs \<noteq> []" "R z1 (drop used cs) (drop (length bs) ps)"
      "used \<le> length b" "used \<le> length cs" "bs = take (length bs) ps"
      using st by (auto simp: inflate_step_def)
    have "length bs \<le> length ps" using s(6) by (metis length_take min.cobounded1)
    moreover have "drop used b @ drop (8192 - length buf) inp = drop used cs @ junk"
    proof -
      have "b @ drop (8192 - length buf) inp = cs @ junk" using less.prems(3) by (simp add: b_def)
      then show ?thesis using s(4,5) by (metis drop_within)
    qed
    moreover have "length b \<le> 8192" using less.prems(4) by (simp add: b_def)
    moreover have "length (drop used cs) + length (drop (length bs) ps) < length cs + length ps"
    proof -
      have "0 < used + length bs" using s(2) by auto
      then show ?thesis using s(5) \<open>length bs \<le> length ps\<close> unfolding length_drop by linarith
    qed
    ultimately have "gunzip_loop inflate room z1 (drop used b) (drop (8192 - length buf) inp) (out @ bs) =
        Some (True, (out @ bs) @ drop (length bs) ps)"
      using s(3,4,5) less.prems(1,5) by (intro less.hyps [of "drop used cs" "drop (length bs) ps"]) simp_all
    then show ?thesis using s(1,6) by (simp add: unfold) (metis append_take_drop_id)
  qed
qed

lemma expect_append [simp]: "expect hs (hs @ inp) = Some inp"
  by (induction hs) auto

lemma gunzip_firmware_decodes:
  assumes "inflater_ok inflate R" "R (snd init) cs ps" "fst init \<noteq> Z_MEM_ERROR"
    and "contents fs (upg_file info) = Some (upg_header info @ cs @ junk)" "length ps \<le> tmp_room fs"
  shows "gunzip_firmware inflate init info fs =
    Some (Some (int (length ps)), fs\<lparr>contents := (contents fs)(tmp_file \<mapsto> ps)\<rparr>)"
  using gunzip_loop_ends [OF assms(1,2), of "[]" "cs @ junk" junk "[]" "tmp_room fs"] assms(3-5)
  by (simp add: gunzip_firmware_def)

text \<open>
  What the upgrade relies on of the flash driver, seen through \<open>peek\<close>: erasing a range makes it
  0xff; programming stores a byte where the flash is erased, leaves a byte alone where 0xff is
  programmed, and changes nothing outside its range.
\<close>

definition flash_ok :: "('f \<Rightarrow> nat \<Rightarrow> u8) \<Rightarrow> 'f eraser \<Rightarrow> 'f programmer \<Rightarrow> bool" where
  "flash_ok peek erase program \<longleftrightarrow>
     (\<forall>f a n. fst (erase f a n) = 0 \<longrightarrow> (\<forall>i < n. peek (snd (erase f a n)) (a + i) = 0xff)) \<and>
     (\<forall>f a bs x. fst (program f a bs) = 0 \<longrightarrow>
        (if a \<le> x \<and> x < a + length bs
         then (peek f x = 0xff \<longrightarrow> peek (snd (program f a bs)) x = bs ! (x - a)) \<and>
              (bs ! (x - a) = 0xff \<longrightarrow> peek (snd (program f a bs)) x = peek f x)
         else peek (snd (program f a bs)) x = peek f x))"

lemma padded_prefix:
  assumes "length bs \<le> flash_chunk"
  shows "\<exists>k. padded bs = bs @ replicate k 0xff \<and> k < 4"
proof -
  let ?n = "(length bs + 3) div 4 * 4"
  have n: "length bs \<le> ?n" "?n < length bs + 4" "?n \<le> flash_chunk"
    using assms by (auto simp: flash_chunk_def)
  have "padded bs = bs @ take (?n - length bs) (replicate (flash_chunk - length bs) 0xff)"
    using n(1) by (simp add: padded_def)
  also have "\<dots> = bs @ replicate (?n - length bs) 0xff" using n by simp
  finally show ?thesis using n(2) by (intro exI [of _ "?n - length bs"]) auto
qed

text \<open>Programming one piece of the image.\<close>

lemma program_piece:
  assumes "flash_ok peek erase program" "program f a (padded bs) = (0, f1)" "length bs \<le> flash_chunk"
  shows "peek f1 x = (if a \<le> x \<and> x < a + length bs \<and> peek f x = 0xff then bs ! (x - a) else peek f1 x)"
    and "x < a \<or> a + length bs \<le> x \<Longrightarrow> peek f1 x = peek f x"
proof -
  obtain k where k: "padded bs = bs @ replicate k 0xff" using padded_prefix [OF assms(3)] by blast
  have "if a \<le> x \<and> x < a + length (padded bs)
    then (peek f x = 0xff \<longrightarrow> peek f1 x = padded bs ! (x - a)) \<and> (padded bs ! (x - a) = 0xff \<longrightarrow> peek f1 x = peek f x)
    else peek f1 x = peek f x"
    using assms(1,2) unfolding flash_ok_def by (metis fst_conv snd_conv)
  then show "peek f1 x = (if a \<le> x \<and> x < a + length bs \<and> peek f x = 0xff then bs ! (x - a) else peek f1 x)"
    "x < a \<or> a + length bs \<le> x \<Longrightarrow> peek f1 x = peek f x"
    by (auto simp: k nth_append split: if_splits)
qed

lemma program_loop_stores:
  assumes "flash_ok peek erase program" "program_loop program a inp f = (True, f')"
    and "\<forall>i < length inp. peek f (a + i) = 0xff"
  shows "peek f' = store_bytes a inp (peek f)"
  using assms(2,3)
proof (induction "length inp" arbitrary: a inp f rule: less_induct)
  case less
  let ?bs = "take flash_chunk inp" and ?rest = "drop flash_chunk inp"
  show ?case
  proof (cases "inp = []")
    case True
    then show ?thesis using less.prems(1) by (simp add: program_loop.simps)
  next
    case False
    then have ne: "?bs \<noteq> []" by (simp add: flash_chunk_def)
    obtain f1 where f1: "program f a (padded ?bs) = (0, f1)"
      "program_loop program (a + length ?bs) ?rest f1 = (True, f')"
      using less.prems(1) ne by (auto simp: program_loop.simps [of _ _ inp] Let_def split: prod.splits if_splits)
    have len: "length ?bs \<le> flash_chunk" by simp
    note piece = program_piece [OF assms(1) f1(1) len]
    have p1: "peek f1 = store_bytes a ?bs (peek f)"
    proof
      fix x
      show "peek f1 x = store_bytes a ?bs (peek f) x"
      proof (cases "a \<le> x \<and> x < a + length ?bs")
        case True
        then have "peek f x = 0xff" using less.prems(2) [rule_format, of "x - a"] by auto
        then show ?thesis using piece(1) [of x] True by (simp add: store_bytes_def)
      next
        case False
        then show ?thesis using piece(2) [of x] by (auto simp: store_bytes_def)
      qed
    qed
    have "length ?rest < length inp" using False by (simp add: flash_chunk_def)
    moreover have "\<forall>i < length ?rest. peek f1 (a + length ?bs + i) = 0xff"
    proof (intro allI impI)
      fix i assume "i < length ?rest"
      then have "length ?bs + i < length inp" by simp
      then show "peek f1 (a + length ?bs + i) = 0xff"
        using less.prems(2) [rule_format, of "length ?bs + i"] unfolding p1 store_bytes_def by (simp add: add.assoc)
    qed
    ultimately have "peek f' = store_bytes (a + length ?bs) ?rest (peek f1)"
      using less.hyps f1(2) by blast
    also have "\<dots> = store_bytes a inp (peek f)"
      unfolding p1 store_bytes_append by (simp only: append_take_drop_id)
    finally show ?thesis .
  qed
qed

lemma program_loop_succeeds:
  assumes "\<forall>f a bs. fst (program f a bs) = 0"
  shows "fst (program_loop program a inp f)"
proof (induction "length inp" arbitrary: a inp f rule: less_induct)
  case less
  show ?case
  proof (cases "inp = []")
    case False
    obtain f1 where "program f a (padded (take flash_chunk inp)) = (0, f1)"
      using assms by (metis prod.collapse)
    with False less.hyps [of "drop flash_chunk inp"] show ?thesis
      by (subst program_loop.simps) (simp add: flash_chunk_def)
  qed (simp add: program_loop.simps)
qed

subsection \<open>Properties\<close>

text \<open>
  C16: a firmware upgrade programs the image. For an image file made of the expected header,
  compressed data and anything behind it, the upgrade ends, and returns \<^verbatim>\<open>true\<close> if the flash
  driver reports no error; if it returns \<^verbatim>\<open>true\<close>, the flash from the start address on holds exactly
  the decompressed firmware, nothing outside it has changed since the erase, and the file is removed.
\<close>

theorem firmware_upgrade_programs_image:
  assumes "inflater_ok inflate R" "R (snd init) cs ps" "fst init \<noteq> Z_MEM_ERROR"
    and "flash_ok peek erase program"
    and "contents fs (upg_file info) = Some (upg_header info @ cs @ junk)" "length ps \<le> tmp_room fs"
    and "addr = nat (int (flash_base info) + start_address info)"
  shows "\<exists>ok fs' f'. cyg_firmware_upgrade inflate init erase program info fs f = Some (ok, fs', f') \<and>
    (fst (erase f addr (length ps)) = 0 \<and> (\<forall>f a bs. fst (program f a bs) = 0) \<longrightarrow> ok) \<and>
    (ok \<longrightarrow> peek f' = store_bytes addr ps (peek (snd (erase f addr (length ps)))) \<and>
            contents fs' (upg_file info) = None)"
proof -
  let ?fs1 = "fs\<lparr>contents := (contents fs)(tmp_file \<mapsto> ps)\<rparr>"
  have g: "gunzip_firmware inflate init info fs = Some (Some (int (length ps)), ?fs1)"
    using gunzip_firmware_decodes [OF assms(1-3,5,6)] .
  obtain stat f1 where e: "erase f addr (length ps) = (stat, f1)" by force
  obtain ok f2 where p: "program_loop program addr ps f1 = (ok, f2)" by force
  have erased: "\<forall>i < length ps. peek f1 (addr + i) = 0xff" if "stat = 0"
    using assms(4) that e unfolding flash_ok_def by (metis fst_conv snd_conv)
  have "peek f2 = store_bytes addr ps (peek f1)" if "stat = 0" "ok"
    using program_loop_stores [OF assms(4) _ erased [OF that(1)]] p that(2) by simp
  moreover have "ok" if "\<forall>f a bs. fst (program f a bs) = 0"
    using program_loop_succeeds [OF that, of addr ps f1] p by simp
  ultimately show ?thesis
    using e p by (auto simp: cyg_firmware_upgrade_def g assms(7) [symmetric] Let_def)
qed

text \<open>A stored (uncompressed) stream and a plain memory, for concrete runs.\<close>

definition stored_inflate :: "bytes inflate" where
  "stored_inflate z b n =
     (let out = take n (take (length z) b); k = length out
      in (if k = length z then Z_STREAM_END else Z_OK, k, out, drop k z))"

definition stored_rel :: "bytes \<Rightarrow> bytes \<Rightarrow> bytes \<Rightarrow> bool" where
  "stored_rel z cs ps \<longleftrightarrow> z = cs \<and> cs = ps \<and> z \<noteq> []"

lemma stored_inflater_ok: "inflater_ok stored_inflate stored_rel"
proof -
  have "inflate_step stored_rel z z n b (stored_inflate z b n)"
    if "z \<noteq> []" "0 < n" "b \<noteq> []" "take (length z) b = take (length b) z" for z b :: bytes and n :: nat
  proof -
    let ?out = "take n (take (length b) z)"
    have "?out = take (length ?out) z" "0 < length ?out" "length ?out \<le> n" "length ?out \<le> length b"
      "length ?out \<le> length z"
      using that by (auto simp: min_def)
    then show ?thesis
      using that(4)
      by (auto simp: inflate_step_def stored_inflate_def stored_rel_def Let_def split: if_splits)
  qed
  then show ?thesis by (auto simp: inflater_ok_def stored_rel_def)
qed

definition ram_erase :: "(nat \<Rightarrow> u8) eraser" where
  "ram_erase f a n = (0, store_bytes a (replicate n 0xff) f)"

definition ram_program :: "(nat \<Rightarrow> u8) programmer" where
  "ram_program f a bs = (0, \<lambda>x. if a \<le> x \<and> x < a + length bs \<and> bs ! (x - a) \<noteq> 0xff then bs ! (x - a) else f x)"

lemma ram_flash_ok: "flash_ok (\<lambda>f. f) ram_erase ram_program"
  by (auto simp: flash_ok_def ram_erase_def ram_program_def store_bytes_def)

definition demo_info :: cyg_upgrade_info where
  "demo_info = \<lparr>flash_base = 0x1000, upg_file = ''f'', upg_name = ''n'', start_address = 0x20,
     upg_length = 100, upg_header = [1, 2]\<rparr>"

definition demo_files :: files where
  "demo_files = \<lparr>contents = [''f'' \<mapsto> [1, 2, 7, 8, 9, 0]], tmp_room = 10\<rparr>"

theorem firmware_upgrade_programs_image_witness:
  "\<exists>fs' f'. cyg_firmware_upgrade stored_inflate (0, [7, 8, 9]) ram_erase ram_program demo_info demo_files (\<lambda>_. 5) =
      Some (True, fs', f') \<and> f' 0x1020 = 7 \<and> f' 0x1022 = 9 \<and> f' 0x1023 = 5 \<and> contents fs' ''f'' = None"
proof -
  have "contents demo_files (upg_file demo_info) = Some (upg_header demo_info @ [7, 8, 9] @ [0])"
    "length [7, 8, 9 :: u8] \<le> tmp_room demo_files"
    "0x1020 = nat (int (flash_base demo_info) + start_address demo_info)" "upg_file demo_info = ''f''"
    by (simp_all add: demo_files_def demo_info_def)
  then show ?thesis
    using firmware_upgrade_programs_image [OF stored_inflater_ok _ _ ram_flash_ok, of "(0, [7, 8, 9])" "[7, 8, 9]" "[7, 8, 9]"
        demo_files demo_info "[0]" "0x1020" "\<lambda>_. 5"]
    by (auto simp: stored_rel_def ram_erase_def ram_program_def store_bytes_def)
qed

text \<open>The loader's loop.\<close>

lemma deflator_loop_launches:
  assumes "inflater_ok inflate R" "R z cs ps"
  shows "deflator_loop inflate z (cs @ junk) off ram = Some (Launch (off + length ps), store_bytes off ps ram)"
  using assms(2)
proof (induction "length cs + length ps" arbitrary: z cs ps off ram rule: less_induct)
  case less
  obtain err used bs z1 where i: "inflate z (cs @ junk) 8192 = (err, used, bs, z1)" by (metis prod_cases4)
  have st: "inflate_step R cs ps 8192 (cs @ junk) (err, used, bs, z1)"
    using inflater_okD [OF assms(1) less.prems, of 8192 "Suc (length (cs @ junk))" junk] by (simp add: i [symmetric])
  show ?case
  proof (cases "used = length cs \<and> bs = ps")
    case True
    then show ?thesis using st i by (subst deflator_loop.simps) (simp add: inflate_step_def)
  next
    case False
    then have s: "err = Z_OK" "0 < used + length bs" "R z1 (drop used cs) (drop (length bs) ps)"
      "used \<le> length cs" "bs = take (length bs) ps"
      using st by (auto simp: inflate_step_def)
    have le: "length bs \<le> length ps" using s(5) by (metis length_take min.cobounded1)
    have "length (drop used cs) + length (drop (length bs) ps) < length cs + length ps"
      using s(2,4) le unfolding length_drop by linarith
    then have "deflator_loop inflate z1 (drop used cs @ junk) (off + length bs) (store_bytes off bs ram) =
        Some (Launch (off + length bs + length (drop (length bs) ps)),
              store_bytes (off + length bs) (drop (length bs) ps) (store_bytes off bs ram))"
      using s(3) by (intro less.hyps)
    moreover have "bs @ drop (length bs) ps = ps" using s(5) by (metis append_take_drop_id)
    ultimately show ?thesis
      using i s(1,4) le by (subst deflator_loop.simps) (simp add: store_bytes_append)
  qed
qed

text \<open>
  \<open>inflate_fails inflate z inp n\<close>: after \<open>n\<close> calls that return \<^verbatim>\<open>Z_OK\<close>, each on what the
  ones before left of the input, the next call reports an error.
\<close>

fun inflate_fails :: "'z inflate \<Rightarrow> 'z \<Rightarrow> bytes \<Rightarrow> nat \<Rightarrow> bool" where
  "inflate_fails inflate z inp n =
     (case inflate z inp 8192 of (err, used, bs, z') \<Rightarrow>
        (case n of 0 \<Rightarrow> err \<noteq> Z_OK \<and> err \<noteq> Z_STREAM_END
         | Suc m \<Rightarrow> err = Z_OK \<and> inflate_fails inflate z' (drop used inp) m))"

declare inflate_fails.simps [simp del]

lemma deflator_loop_fails:
  "inflate_fails inflate z inp n \<Longrightarrow> \<exists>ram'. deflator_loop inflate z inp off ram = Some (Return_from_main, ram')"
proof (induction n arbitrary: z inp off ram)
  case 0
  then show ?case
    by (subst deflator_loop.simps) (auto simp: inflate_fails.simps [of _ _ _ 0] split: prod.splits)
next
  case (Suc n)
  obtain err used bs z1 where i: "inflate z inp 8192 = (err, used, bs, z1)" by (metis prod_cases4)
  with Suc.prems have "err = Z_OK" "inflate_fails inflate z1 (drop used inp) n"
    by (simp_all add: inflate_fails.simps [of _ _ _ "Suc n"])
  with Suc.IH [of z1 "drop used inp"] i show ?case by (subst deflator_loop.simps) simp
qed

text \<open>
  C19: the loader starts the application it was given: for a compressed image (of at most 16 MB) in
  ROM, it decompresses exactly the application into RAM and launches it. But if a call of
  \<^verbatim>\<open>inflate\<close>, the first or any later one, reports an error, it returns from \<^verbatim>\<open>main\<close> instead of
  resetting the board.
\<close>

theorem deflator_launches_application:
  assumes "fst init \<noteq> Z_MEM_ERROR"
  shows "(inflater_ok inflate R \<and> R (snd init) cs ps \<and> length (cs @ junk) \<le> 0x1000000 \<longrightarrow>
      deflator_main inflate init (cs @ junk) ram = Some (Launch (length ps), store_bytes 0 ps ram)) \<and>
    (inflate_fails inflate (snd init) (take 0x1000000 rom) n \<longrightarrow>
      (\<exists>ram'. deflator_main inflate init rom ram = Some (Return_from_main, ram')))"
  using deflator_loop_launches [of inflate R "snd init" cs ps junk 0 ram]
    deflator_loop_fails [of inflate "snd init" "take 0x1000000 rom" n 0 ram] assms
  by (auto simp: deflator_main_def)

text \<open>An inflater that produces a byte from every byte but fails on a zero, for a concrete run.\<close>

definition picky_inflate :: "unit inflate" where
  "picky_inflate z b n = (case b of [] \<Rightarrow> (- 5, 0, [], z) | c # _ \<Rightarrow> if c = 0 then (- 3, 0, [], z) else (Z_OK, 1, [c], z))"

theorem deflator_launches_application_witness:
  "deflator_main stored_inflate (0, [7, 8, 9]) [7, 8, 9, 1, 1] (\<lambda>_. 0) =
     Some (Launch 3, store_bytes 0 [7, 8, 9] (\<lambda>_. 0)) \<and>
   (\<exists>ram'. deflator_main picky_inflate (0, ()) [7, 8, 0] (\<lambda>_. 0) = Some (Return_from_main, ram'))"
proof
  show "deflator_main stored_inflate (0, [7, 8, 9]) [7, 8, 9, 1, 1] (\<lambda>_. 0) =
      Some (Launch 3, store_bytes 0 [7, 8, 9] (\<lambda>_. 0))"
    using deflator_launches_application [of "(0, [7, 8, 9])" stored_inflate stored_rel "[7, 8, 9]" "[7, 8, 9]" "[1, 1]"]
      stored_inflater_ok by (simp add: stored_rel_def)
  have "inflate_fails picky_inflate () [7, 8, 0] 2"
    unfolding numeral_2_eq_2 by (simp add: inflate_fails.simps [of picky_inflate] picky_inflate_def)
  then show "\<exists>ram'. deflator_main picky_inflate (0, ()) [7, 8, 0] (\<lambda>_. 0) = Some (Return_from_main, ram')"
    using deflator_launches_application [of "(0, ())" picky_inflate "\<lambda>_ _ _. False" "[]" "[]" "[]" "\<lambda>_. 0" "[7, 8, 0]" 2]
    by simp
qed

end
