(* ===== verification/Bootloader.thy ===== *)
theory Bootloader
  imports Xyz_Transfer Firmware
begin

text \<open>
  The bootloader (\<^verbatim>\<open>bootloader/bootloader/bootloader.c\<close>): the serial menu, reading lines, the
  MAC address in flash, Y-modem uploads to files, upgrades, formatting, and starting the application
  by reconfiguring the FPGA.

  Each operation takes the state and returns an outcome and the new state. \<open>Stop\<close> ends the
  program: \<^verbatim>\<open>reset()\<close> reconfigures the FPGA and does not come back, a wait without a timeout may
  last forever, an uploaded program runs. The user is a list of events: a key, silence until a
  timeout, or a read that fails although input was signalled. The hardware, the flash driver, zlib,
  the CRC and the parts of eCos that are called are the record \<open>platform\<close>.

  Messages are not modelled, except where they show data: the MAC address and a parameter.
\<close>

unbundle bit_operations_syntax

subsection \<open>Platform and state\<close>

record ('z, 'f) platform =
  p_crc16 :: "bytes \<Rightarrow> u16"
  p_inflate :: "'z inflate"
  p_inflateInit :: "int \<times> 'z"
  p_flash_init :: "'f \<Rightarrow> int"
  p_erase :: "'f eraser"
  p_program :: "'f programmer"
  p_peek :: "'f \<Rightarrow> nat \<Rightarrow> u8"
  p_flash_base :: nat
  p_flash_span :: nat
  p_open_uart :: int
  p_creat :: "string \<Rightarrow> bool"
  p_room :: "string \<Rightarrow> nat"
  p_malloc :: "nat \<Rightarrow> bool"
  p_set_baud :: bool
  p_remote_status :: u32

datatype key_event = Key u8 | Quiet | Glitch

datatype stop = Reset_board | Wait_forever | Run_program bytes | Jump_to nat | Memory_fault

datatype 'a outcome = Val 'a | Stop stop

record 'f boot =
  b_keys :: "key_event list"
  b_flash :: 'f
  b_files :: files
  b_xyz :: xyz
  b_baud :: nat
  b_iowr :: "(nat \<times> u32) list"
  b_shown :: string

text \<open>Sequencing: the rest is skipped once the program has stopped.\<close>

definition andthen :: "'a outcome \<times> 's \<Rightarrow> ('a \<Rightarrow> 's \<Rightarrow> 'b outcome \<times> 's) \<Rightarrow> 'b outcome \<times> 's" where
  "andthen m k = (case m of (Val a, s) \<Rightarrow> k a s | (Stop r, s) \<Rightarrow> (Stop r, s))"

definition IOWR :: "nat \<Rightarrow> u32 \<Rightarrow> 'f boot \<Rightarrow> 'f boot" where
  "IOWR reg v s = s\<lparr>b_iowr := b_iowr s @ [(reg, v)]\<rparr>"

definition reset :: "'f boot \<Rightarrow> 'a outcome \<times> 'f boot" where
  "reset s = (Stop Reset_board, IOWR 0x20 1 s)"

definition str_of :: "bytes \<Rightarrow> string" where
  "str_of bs = map (\<lambda>b. char_of (unat b)) bs"

text \<open>The flash map of \<^verbatim>\<open>addresses.h\<close>.\<close>

definition FACTORY_FPGA_OFFSET :: nat where "FACTORY_FPGA_OFFSET = 0x20000"
definition APPLICATION_FPGA_OFFSET :: nat where "APPLICATION_FPGA_OFFSET = 0x300000"
definition APPLICATION_OFFSET :: nat where "APPLICATION_OFFSET = 0x420000"
definition JFFS2_LENGTH :: nat where "JFFS2_LENGTH = 0x100000"

definition JFFS2_OFFSET :: "('z, 'f) platform \<Rightarrow> nat" where
  "JFFS2_OFFSET P = p_flash_span P - JFFS2_LENGTH"

definition ascii_bytes :: "string \<Rightarrow> bytes" where
  "ascii_bytes s = map (\<lambda>c. of_nat (of_char c)) s"

definition bootloader_info :: "('z, 'f) platform \<Rightarrow> cyg_upgrade_info" where
  "bootloader_info P = \<lparr>flash_base = p_flash_base P, upg_file = ''/ram/bootloader.phi'',
     upg_name = ''Bootloader'', start_address = int FACTORY_FPGA_OFFSET,
     upg_length = APPLICATION_FPGA_OFFSET - FACTORY_FPGA_OFFSET,
     upg_header = ascii_bytes (''ZylinNiosBootloader'' @ [newline])\<rparr>"

definition firmware_info :: "('z, 'f) platform \<Rightarrow> cyg_upgrade_info" where
  "firmware_info P = \<lparr>flash_base = p_flash_base P, upg_file = ''/ram/firmware.phi'',
     upg_name = ''Firmware'', start_address = int APPLICATION_FPGA_OFFSET,
     upg_length = JFFS2_OFFSET P - APPLICATION_FPGA_OFFSET,
     upg_header = ascii_bytes (''ZylinNiosFirmware'' @ [newline])\<rparr>"

text \<open>\<^verbatim>\<open>report_info\<close>: a line feed is sent as carriage return and line feed; 1023 characters fit.\<close>

definition crlf :: "string \<Rightarrow> string" where
  "crlf msg = concat (map (\<lambda>c. if c = newline then [CHR 0x0D, c] else [c]) (take 1023 msg))"

subsection \<open>Keys and lines\<close>

fun getChar :: "key_event list \<Rightarrow> (u8 option \<times> key_event list) option" where
  "getChar [] = None"
| "getChar (Quiet # ks) = getChar ks"
| "getChar (Key k # ks) = Some (Some k, ks)"
| "getChar (Glitch # ks) = Some (None, ks)"

definition waitChar :: "int \<Rightarrow> 'f boot \<Rightarrow> u8 option outcome \<times> 'f boot" where
  "waitChar seconds s =
     (if seconds > 0 then
        (case b_keys s of
           Key k # ks \<Rightarrow> (Val (Some k), s\<lparr>b_keys := ks\<rparr>)
         | _ \<Rightarrow> (Val None, s\<lparr>b_keys := tl (b_keys s)\<rparr>))
      else
        (case getChar (b_keys s) of
           None \<Rightarrow> (Stop Wait_forever, s\<lparr>b_keys := []\<rparr>)
         | Some (k, ks) \<Rightarrow> (Val k, s\<lparr>b_keys := ks\<rparr>)))"

text \<open>
  \<^verbatim>\<open>readLine\<close>: \<open>buf\<close> are the \<^verbatim>\<open>index\<close> characters stored so far; a failed read leaves
  \<^verbatim>\<open>c\<close> at 0. The result is what was stored before the final \<^verbatim>\<open>\0\<close>.
\<close>

fun read_line :: "nat \<Rightarrow> bytes \<Rightarrow> key_event list \<Rightarrow> bytes outcome \<times> key_event list" where
  "read_line maxLen buf [] = (Stop Wait_forever, [])"
| "read_line maxLen buf (Quiet # ks) = read_line maxLen buf ks"
| "read_line maxLen buf (ev # ks) =
     (let c = (case ev of Key k \<Rightarrow> k | _ \<Rightarrow> 0)
      in if c = 3 then (Stop Reset_board, ks)
         else if c = 10 \<or> c = 13 then
           (if buf = [] then (Stop Reset_board, ks) else (Val buf, ks))
         else if c = 8 then read_line maxLen (butlast buf) ks
         else if length buf \<ge> maxLen - 1 then (Stop Reset_board, ks)
         else read_line maxLen (buf @ [c]) ks)"

definition readLine :: "nat \<Rightarrow> 'f boot \<Rightarrow> bytes outcome \<times> 'f boot" where
  "readLine maxLen s =
     (let (r, ks) = read_line maxLen [] (b_keys s); s1 = s\<lparr>b_keys := ks\<rparr>
      in case r of Val buf \<Rightarrow> (Val (takeWhile (\<lambda>b. b \<noteq> 0) buf), s1)
         | Stop Reset_board \<Rightarrow> reset s1
         | Stop r' \<Rightarrow> (Stop r', s1))"

subsection \<open>Parameters\<close>

definition set_file :: "string \<Rightarrow> bytes option \<Rightarrow> 'f boot \<Rightarrow> 'f boot" where
  "set_file name bs s = s\<lparr>b_files := (b_files s)\<lparr>contents := (contents (b_files s))(name := bs)\<rparr>\<rparr>"

definition get_file :: "string \<Rightarrow> 'f boot \<Rightarrow> bytes option" where
  "get_file name s = contents (b_files s) name"

text \<open>\<^verbatim>\<open>writeFile\<close> does not look at how much was written; \<open>p_room\<close> bytes fit.\<close>

definition writeFile :: "('z, 'f) platform \<Rightarrow> string \<Rightarrow> bytes \<Rightarrow> 'f boot \<Rightarrow> 'f boot" where
  "writeFile P name bs s =
     (if bs = [] then set_file name None s
      else if p_creat P name then set_file name (Some (take (p_room P name) bs)) s
      else s)"

definition enterParameter :: "('z, 'f) platform \<Rightarrow> 'f boot \<Rightarrow> unit outcome \<times> 'f boot" where
  "enterParameter P s =
     andthen (readLine 81 s) (\<lambda>name s1.
     andthen (readLine 128 s1) (\<lambda>param s2.
       (Val (), writeFile P (str_of name) param s2)))"

definition showParameter :: "'f boot \<Rightarrow> unit outcome \<times> 'f boot" where
  "showParameter s =
     andthen (readLine 81 s) (\<lambda>name s1.
       (case get_file (str_of name) s1 of
          None \<Rightarrow> (Val (), s1)
        | Some bs \<Rightarrow> (Val (), s1\<lparr>b_shown := b_shown s1 @ str_of (take 1024 bs)\<rparr>)))"

definition changeIP :: "('z, 'f) platform \<Rightarrow> 'f boot \<Rightarrow> unit outcome \<times> 'f boot" where
  "changeIP P s =
     andthen (readLine 81 s) (\<lambda>ip s1. reset (writeFile P ''/config/ip'' ip s1))"

subsection \<open>The MAC address\<close>

definition toupper :: "u8 \<Rightarrow> u8" where
  "toupper c = (if 0x61 \<le> c \<and> c \<le> 0x7A then c - 32 else c)"

definition mac_digit :: "u8 \<Rightarrow> u8 option" where
  "mac_digit c =
     (let c = toupper c
      in if 0x30 \<le> c \<and> c \<le> 0x39 then Some (c - 0x30)
         else if 0x41 \<le> c \<and> c \<le> 0x46 then Some (c - 0x41 + 10)
         else None)"

text \<open>The loop of \<^verbatim>\<open>transformMacAddress\<close> from index \<open>i\<close> on; \<open>None\<close> is \<^verbatim>\<open>wrongMAC\<close>.\<close>

fun mac_loop :: "nat \<Rightarrow> bytes \<Rightarrow> bytes \<Rightarrow> bytes option" where
  "mac_loop i [] mac = Some mac"
| "mac_loop i (c # cs) mac =
     (case mac_digit c of
        None \<Rightarrow> None
      | Some v \<Rightarrow> mac_loop (Suc i) cs
          (mac[i div 2 := mac ! (i div 2) + push_bit (4 * ((i + 1) mod 2)) v]))"

definition transformMacAddress :: "bytes \<Rightarrow> bytes option" where
  "transformMacAddress str =
     (if length str \<noteq> 12 then None else mac_loop 0 str (replicate 6 0))"

definition macAddr :: "('z, 'f) platform \<Rightarrow> nat" where
  "macAddr P = p_flash_base P + FACTORY_FPGA_OFFSET - 6"

definition mac_bytes :: "('z, 'f) platform \<Rightarrow> 'f boot \<Rightarrow> bytes" where
  "mac_bytes P s = map (\<lambda>i. p_peek P (b_flash s) (macAddr P + i)) [0..<6]"

definition hasMacAddress :: "('z, 'f) platform \<Rightarrow> 'f boot \<Rightarrow> bool" where
  "hasMacAddress P s \<longleftrightarrow> foldl (AND) 0xFF (mac_bytes P s) \<noteq> 0xFF"

definition lower_hex :: "nat \<Rightarrow> char" where
  "lower_hex d = ''0123456789abcdef'' ! d"

text \<open>The text of \<^verbatim>\<open>%02x:%02x:%02x:%02x:%02x:%02x\<close>.\<close>

definition mac_text :: "bytes \<Rightarrow> string" where
  "mac_text mac = tl (concat (map (\<lambda>b. [CHR '':'', lower_hex (unat b div 16), lower_hex (unat b mod 16)]) mac))"

definition printMACAddress :: "('z, 'f) platform \<Rightarrow> 'f boot \<Rightarrow> 'f boot" where
  "printMACAddress P s =
     (if hasMacAddress P s then s\<lparr>b_shown := b_shown s @ mac_text (mac_bytes P s)\<rparr> else s)"

definition changeMac :: "('z, 'f) platform \<Rightarrow> 'f boot \<Rightarrow> unit outcome \<times> 'f boot" where
  "changeMac P s =
     andthen (readLine 13 s) (\<lambda>text s1.
       (case transformMacAddress text of
          None \<Rightarrow> reset s1
        | Some ui_mac \<Rightarrow>
            (let s2 = s1\<lparr>b_shown := b_shown s1 @ mac_text ui_mac\<rparr>;
                 (stat, f1) = p_erase P (b_flash s2) (macAddr P) 6; s3 = s2\<lparr>b_flash := f1\<rparr>
             in if stat \<noteq> 0 then reset s3
                else
                  (let (stat, f2) = p_program P f1 (macAddr P) ui_mac; s4 = s3\<lparr>b_flash := f2\<rparr>
                   in if stat \<noteq> 0 then reset s4 else (Val (), s4)))))"

subsection \<open>Flash\<close>

definition flash_erase_range ::
  "('z, 'f) platform \<Rightarrow> nat \<Rightarrow> nat \<Rightarrow> 'f boot \<Rightarrow> unit outcome \<times> 'f boot" where
  "flash_erase_range P addr len s =
     (if p_flash_init P (b_flash s) \<noteq> 0 then reset s
      else
        (let (stat, f1) = p_erase P (b_flash s) addr len; s1 = s\<lparr>b_flash := f1\<rparr>
         in if stat \<noteq> 0 then reset s1 else (Val (), s1)))"

definition format :: "('z, 'f) platform \<Rightarrow> 'f boot \<Rightarrow> unit outcome \<times> 'f boot" where
  "format P s =
     andthen (flash_erase_range P (p_flash_base P + JFFS2_OFFSET P) JFFS2_LENGTH s) (\<lambda>_ s1. reset s1)"

definition upgrade ::
  "('z, 'f) platform \<Rightarrow> cyg_upgrade_info \<Rightarrow> 'f boot \<Rightarrow> (bool outcome \<times> 'f boot) option" where
  "upgrade P info s =
     (case cyg_firmware_upgrade (p_inflate P) (p_inflateInit P) (p_erase P) (p_program P) info
             (b_files s) (b_flash s) of
        None \<Rightarrow> None
      | Some (ok, fs, f) \<Rightarrow> Some (Val ok, s\<lparr>b_files := fs, b_flash := f\<rparr>))"

subsection \<open>Running and uploading files\<close>

definition runfile :: "('z, 'f) platform \<Rightarrow> string \<Rightarrow> 'f boot \<Rightarrow> unit outcome \<times> 'f boot" where
  "runfile P name s =
     (case get_file name s of
        None \<Rightarrow> reset s
      | Some bs \<Rightarrow> if \<not> p_malloc P (length bs) then reset s else (Stop (Run_program bs), s))"

datatype upload = Upload_end bytes int | Upload_write_failed bytes | Upload_fault

text \<open>
  The loop of \<^verbatim>\<open>ymodemUpload\<close>: \<open>buf\<close> are the \<^verbatim>\<open>pos\<close> bytes of \<^verbatim>\<open>WRITE_BUF\<close>, \<open>out\<close> the
  file so far. The result is the file and \<^verbatim>\<open>err\<close>.
\<close>

partial_function (option) upload_loop ::
  "(bytes \<Rightarrow> u16) \<Rightarrow> nat \<Rightarrow> bytes \<Rightarrow> bytes \<Rightarrow> xyz \<Rightarrow> (upload \<times> xyz) option" where
  "upload_loop crc16 room buf out x =
     (case xyzModem_stream_read crc16 (4096 - int (length buf)) 0 x of
        None \<Rightarrow> None
      | Some (Memcpy_overrun, x1) \<Rightarrow> Some (Upload_fault, x1)
      | Some (Read_bytes bs err, x1) \<Rightarrow>
          (let buf1 = buf @ bs;
               flush = (bs = [] \<and> buf1 \<noteq> []) \<or> length buf1 > 4096 - 0x100
           in if flush \<and> length out + length buf1 > room then Some (Upload_write_failed out, x1)
              else
                (let out1 = (if flush then out @ buf1 else out);
                     buf2 = (if flush then [] else buf1)
                 in if bs = [] then Some (Upload_end out1 err, x1)
                    else upload_loop crc16 room buf2 out1 x1)))"

definition ymodemUpload ::
  "('z, 'f) platform \<Rightarrow> string \<Rightarrow> 'f boot \<Rightarrow> (unit outcome \<times> 'f boot) option" where
  "ymodemUpload P name s =
     (case xyzModem_stream_open (p_crc16 P) (p_open_uart P) xyzModem_ymodem 0 (b_xyz s) of
        None \<Rightarrow> None
      | Some (r, err, x) \<Rightarrow>
          (let s1 = s\<lparr>b_xyz := x\<rparr>
           in if r \<noteq> 0 then Some (reset s1)
              else if \<not> p_creat P name then Some (reset (s1\<lparr>b_xyz := xyzModem_stream_close x\<rparr>))
              else
                (case upload_loop (p_crc16 P) (tmp_room (b_files s1)) [] [] x of
                   None \<Rightarrow> None
                 | Some (Upload_fault, x1) \<Rightarrow> Some (Stop Memory_fault, s1\<lparr>b_xyz := x1\<rparr>)
                 | Some (Upload_write_failed out, x1) \<Rightarrow>
                     Some (Val (), set_file name None (s1\<lparr>b_xyz := xyzModem_stream_close x1\<rparr>))
                 | Some (Upload_end out err, x1) \<Rightarrow>
                     (let s2 = s1\<lparr>b_xyz := xyzModem_stream_close x1\<rparr>
                      in if err = 0 then Some (Val (), set_file name (Some out) s2)
                         else Some (reset (set_file name None s2))))))"

definition set115200 :: "('z, 'f) platform \<Rightarrow> 'f boot \<Rightarrow> 'f boot" where
  "set115200 P s = (if p_set_baud P then s\<lparr>b_baud := 115200\<rparr> else s)"

subsection \<open>The menu\<close>

text \<open>
  \<^verbatim>\<open>menu\<close> from \<^verbatim>\<open>waitMoreChar\<close> on; \<^verbatim>\<open>goto start_menu\<close> is the same with 5 seconds.
  \<open>None\<close> means that the menu does not end; every round uses up a key, and
  \<open>Bootloader_Correct.menu_loop_ends\<close> shows that it ends.
\<close>

definition leave_menu :: "('z, 'f) platform \<Rightarrow> 'f boot \<Rightarrow> unit outcome \<times> 'f boot" where
  "leave_menu P s = (if hasMacAddress P s then (Val (), s) else reset s)"

definition after_key :: "('z, 'f) platform \<Rightarrow> u8 \<Rightarrow> 'f boot \<Rightarrow> unit outcome \<times> 'f boot" where
  "after_key P k s =
     andthen (if \<not> hasMacAddress P s \<and> (k = 0x4D \<or> k = 0x6D) then changeMac P s else (Val (), s))
       (\<lambda>_ s1. leave_menu P s1)"

definition upload_and_upgrade ::
  "('z, 'f) platform \<Rightarrow> cyg_upgrade_info \<Rightarrow> 'f boot \<Rightarrow> (unit outcome \<times> 'f boot) option" where
  "upload_and_upgrade P info s =
     (case ymodemUpload P (upg_file info) s of
        None \<Rightarrow> None
      | Some (Stop r, s1) \<Rightarrow> Some (Stop r, s1)
      | Some (Val _, s1) \<Rightarrow>
          (case upgrade P info s1 of None \<Rightarrow> None | Some (_, s2) \<Rightarrow> Some (reset s2)))"

text \<open>
  Where the \<^verbatim>\<open>switch\<close> of the menu goes: \<^verbatim>\<open>goto start_menu\<close> (unless the program has stopped),
  \<^verbatim>\<open>goto waitMoreChar\<close> with a waiting time, or out of the menu.
\<close>

datatype 'f menu_goto = Start_menu "unit outcome \<times> 'f boot" | Wait_more int "'f boot" | Leave "unit outcome \<times> 'f boot"

definition upload_named :: "('z, 'f) platform \<Rightarrow> 'f boot \<Rightarrow> (unit outcome \<times> 'f boot) option" where
  "upload_named P s =
     (case readLine 256 s of
        (Stop r, s1) \<Rightarrow> Some (Stop r, s1)
      | (Val name, s1) \<Rightarrow> ymodemUpload P (str_of name) s1)"

definition upload_and_run :: "('z, 'f) platform \<Rightarrow> 'f boot \<Rightarrow> (unit outcome \<times> 'f boot) option" where
  "upload_and_run P s =
     (case ymodemUpload P ''/ram/run'' s of
        None \<Rightarrow> None
      | Some (Stop r, s1) \<Rightarrow> Some (Stop r, s1)
      | Some (Val _, s1) \<Rightarrow> Some (runfile P ''/ram/run'' s1))"

definition menu_key :: "('z, 'f) platform \<Rightarrow> int \<Rightarrow> u8 \<Rightarrow> 'f boot \<Rightarrow> 'f menu_goto option" where
  "menu_key P waiting k s =
     (if k = 0x46 then Some (Leave (format P s))
      else if k = 0x69 \<or> k = 0x49 then Some (Leave (changeIP P s))
      else if k = 0x50 then Some (Start_menu (enterParameter P s))
      else if k = 0x44 then Some (Start_menu (showParameter s))
      else if k = 0x42 then Some (Wait_more waiting (set115200 P s))
      else if k = 0x58 then Some (Start_menu (flash_erase_range P (macAddr P) 6 s))
      else if k = 0x55 then map_option Start_menu (upload_named P s)
      else if k = 13 then map_option Leave (upload_and_upgrade P (firmware_info P) s)
      else if k = 0x59 then map_option Leave (upload_and_upgrade P (bootloader_info P) s)
      else if k = 0x45 then map_option Leave (upload_and_run P s)
      else if k = 0x52 then Some (Leave (reset s))
      else if k = 0x20 then Some (Wait_more 0 s)
      else Some (Leave (after_key P k s)))"

partial_function (option) menu_loop ::
  "('z, 'f) platform \<Rightarrow> int \<Rightarrow> 'f boot \<Rightarrow> (unit outcome \<times> 'f boot) option" where
  "menu_loop P waiting s =
     (case waitChar waiting s of
        (Stop r, s1) \<Rightarrow> Some (Stop r, s1)
      | (Val None, s1) \<Rightarrow> Some (leave_menu P s1)
      | (Val (Some k), s1) \<Rightarrow>
          (case menu_key P waiting k s1 of
             None \<Rightarrow> None
           | Some (Leave m) \<Rightarrow> Some m
           | Some (Wait_more n s2) \<Rightarrow> menu_loop P n s2
           | Some (Start_menu (Val _, s2)) \<Rightarrow> menu_loop P 5 s2
           | Some (Start_menu (Stop r, s2)) \<Rightarrow> Some (Stop r, s2)))"

definition menu :: "('z, 'f) platform \<Rightarrow> 'f boot \<Rightarrow> (unit outcome \<times> 'f boot) option" where
  "menu P s = menu_loop P 5 (printMACAddress P s)"

subsection \<open>Starting the application\<close>

definition CycloneIIIReconfig :: "int \<Rightarrow> int \<Rightarrow> int \<Rightarrow> 'f boot \<Rightarrow> 'f boot" where
  "CycloneIIIReconfig reconfig_offset watchdog_timeout width_of_flash s =
     (let watchdog_timeout = drop_bit 17 watchdog_timeout;
          s1 = (if watchdog_timeout > 0 then IOWR 2 (of_int watchdog_timeout) s else IOWR 3 0 s);
          offset_shift = nat (width_of_flash div 8 + 1);
          s2 = IOWR 4 (of_int (drop_bit offset_shift reconfig_offset)) s1
      in IOWR 0x20 1 s2)"

definition needReset :: "('z, 'f) platform \<Rightarrow> bool" where
  "needReset P \<longleftrightarrow> p_remote_status P = 0"

text \<open>
  \<^verbatim>\<open>main\<close>. The reconfiguration does not come back; otherwise the application is entered.
\<close>

definition boot_main :: "('z, 'f) platform \<Rightarrow> 'f boot \<Rightarrow> (unit outcome \<times> 'f boot) option" where
  "boot_main P s =
     (if p_open_uart P < 0 then Some (reset s)
      else if needReset P then
        (case menu P s of
           None \<Rightarrow> None
         | Some (Stop r, s1) \<Rightarrow> Some (Stop r, s1)
         | Some (Val _, s1) \<Rightarrow>
             Some (Stop Reset_board, CycloneIIIReconfig (int APPLICATION_FPGA_OFFSET) 0 16 s1))
      else Some (Stop (Jump_to (p_flash_base P + APPLICATION_OFFSET)), s))"

end
