(* ===== verification/Bootloader_Correct.thy ===== *)
theory Bootloader_Correct
  imports Bootloader
begin

text \<open>
  What the bootloader does with what the user types and sends: lines are edited and never overrun
  their buffer, a MAC address that is typed in is the one that ends up in flash, an uploaded file is
  the file that was sent (as far as the receiver can tell its padding), the menu ends, and the
  application's FPGA image is never selected without a MAC address.
\<close>

unbundle bit_operations_syntax

subsection \<open>Sequencing\<close>

lemma andthen_simps [simp]:
  "andthen (Val a, s) k = k a s" "andthen (Stop r, s) k = (Stop r, s)"
  by (simp_all add: andthen_def)

lemma andthen_Val_iff: "andthen m k = (Val b, s') \<longleftrightarrow> (\<exists>a s. m = (Val a, s) \<and> k a s = (Val b, s'))"
  by (auto simp: andthen_def split: prod.splits outcome.splits)

lemma reset_not_Val [simp]: "reset s \<noteq> (Val a, s')"
  by (simp add: reset_def)

subsection \<open>Lines\<close>

text \<open>What a line editor makes of the keys: a backspace deletes the last character.\<close>

definition edit_key :: "bytes \<Rightarrow> u8 \<Rightarrow> bytes" where
  "edit_key buf k = (if k = 8 then butlast buf else buf @ [k])"

definition edited :: "bytes \<Rightarrow> bytes" where
  "edited ks = foldl edit_key [] ks"

definition plain_key :: "u8 \<Rightarrow> bool" where
  "plain_key k \<longleftrightarrow> k \<notin> {0, 3, 10, 13}"

lemma edit_nonzero: "\<forall>k \<in> set ks. plain_key k \<Longrightarrow> 0 \<notin> set buf \<Longrightarrow> 0 \<notin> set (foldl edit_key buf ks)"
  by (induction ks arbitrary: buf) (auto simp: plain_key_def edit_key_def dest: in_set_butlastD)

lemma read_line_bounded:
  "read_line maxLen buf ks = (Val out, ks') \<Longrightarrow> length buf < maxLen \<Longrightarrow>
   out \<noteq> [] \<and> length out < maxLen \<and> length ks' < length ks"
proof (induction ks arbitrary: buf)
  case (Cons ev ks)
  then show ?case by (cases ev) (auto simp: Let_def intro: less_SucI split: if_splits)
qed simp

lemma read_line_edits:
  assumes "\<forall>k \<in> set ks. plain_key k" "ret = 10 \<or> ret = 13"
    and "\<forall>n \<le> length ks. length (foldl edit_key buf (take n ks)) < maxLen" "foldl edit_key buf ks \<noteq> []"
  shows "read_line maxLen buf (map Key ks @ Key ret # rest) = (Val (foldl edit_key buf ks), rest)"
  using assms
proof (induction ks arbitrary: buf)
  case Nil
  then show ?case by auto
next
  case (Cons k ks)
  have "length (edit_key buf k) < maxLen" using Cons.prems(3) [rule_format, of 1] by simp
  moreover have "\<forall>n \<le> length ks. length (foldl edit_key (edit_key buf k) (take n ks)) < maxLen"
  proof (intro allI impI)
    fix n assume "n \<le> length ks"
    then show "length (foldl edit_key (edit_key buf k) (take n ks)) < maxLen"
      using Cons.prems(3) [rule_format, of "Suc n"] by simp
  qed
  ultimately have run: "read_line maxLen (edit_key buf k) (map Key ks @ Key ret # rest) =
      (Val (foldl edit_key buf (k # ks)), rest)"
    using Cons.IH [of "edit_key buf k"] Cons.prems(1,2,4) by simp
  have "k = 8 \<or> \<not> length buf \<ge> maxLen - 1"
    using \<open>length (edit_key buf k) < maxLen\<close> by (auto simp: edit_key_def)
  then have "read_line maxLen buf (Key k # map Key ks @ Key ret # rest) =
      read_line maxLen (edit_key buf k) (map Key ks @ Key ret # rest)"
    using Cons.prems(1) by (auto simp: plain_key_def edit_key_def Let_def)
  with run show ?case by simp
qed

lemma readLine_edits:
  assumes "b_keys s = map Key ks @ Key ret # rest" "\<forall>k \<in> set ks. plain_key k" "ret = 10 \<or> ret = 13"
    and "\<forall>n \<le> length ks. length (edited (take n ks)) < maxLen" "edited ks \<noteq> []"
  shows "readLine maxLen s = (Val (edited ks), s\<lparr>b_keys := rest\<rparr>)"
proof -
  have "0 \<notin> set (edited ks)" using edit_nonzero [OF assms(2), of "[]"] by (simp add: edited_def)
  then have "takeWhile (\<lambda>b. b \<noteq> 0) (edited ks) = edited ks" by (auto simp: takeWhile_eq_all_conv)
  then show ?thesis
    using read_line_edits [OF assms(2,3), of "[]" maxLen rest] assms(1,4,5)
    by (simp add: readLine_def edited_def)
qed

lemma readLine_bounded:
  assumes "readLine maxLen s = (Val out, s')" "0 < maxLen"
  shows "length out < maxLen \<and> 0 \<notin> set out \<and> length (b_keys s') < length (b_keys s) \<and>
    s' = s\<lparr>b_keys := b_keys s'\<rparr>"
proof -
  obtain buf ks where r: "read_line maxLen [] (b_keys s) = (Val buf, ks)"
      "out = takeWhile (\<lambda>b. b \<noteq> 0) buf" "s' = s\<lparr>b_keys := ks\<rparr>"
    using assms(1) by (auto simp: readLine_def Let_def split: prod.splits outcome.splits stop.splits)
  have "length out \<le> length buf" "0 \<notin> set out" using r(2) by (auto simp: length_takeWhile_le dest: set_takeWhileD)
  with read_line_bounded [OF r(1)] assms(2) r(3) show ?thesis by auto
qed

subsection \<open>The MAC address\<close>

text \<open>A MAC address as it is typed: its hexadecimal digits, as \<open>mac_text\<close> shows them, without colons.\<close>

definition typed_mac :: "bytes \<Rightarrow> bytes" where
  "typed_mac mac = ascii_bytes (filter (\<lambda>c. c \<noteq> CHR '':'') (mac_text mac))"

lemma lower_hex_digit:
  assumes "d < 16"
  shows "mac_digit (of_nat (of_char (lower_hex d))) = Some (of_nat d)"
    "lower_hex d \<noteq> CHR '':''" "plain_key (of_nat (of_char (lower_hex d)))"
    "(of_nat (of_char (lower_hex d)) :: u8) \<noteq> 8"
proof -
  have d: "d \<in> {0, 1, 2, 3, 4, 5, 6, 7, 8, 9, 10, 11, 12, 13, 14, 15}"
    using assms unfolding insert_iff empty_iff by arith
  show "mac_digit (of_nat (of_char (lower_hex d))) = Some (of_nat d)"
    using d by (auto simp: mac_digit_def toupper_def lower_hex_def)
  show "lower_hex d \<noteq> CHR '':''" using d by (auto simp: lower_hex_def)
  show "plain_key (of_nat (of_char (lower_hex d)))" using d by (auto simp: lower_hex_def plain_key_def)
  show "(of_nat (of_char (lower_hex d)) :: u8) \<noteq> 8" using d by (auto simp: lower_hex_def)
qed

lemma byte_from_digits: "push_bit 4 (of_nat (unat (b :: u8) div 16)) + of_nat (unat b mod 16) = b"
proof -
  have "push_bit 4 (of_nat (unat b div 16) :: u8) = of_nat (unat b div 16 * 16)"
    by (simp add: push_bit_eq_mult)
  then have "push_bit 4 (of_nat (unat b div 16)) + of_nat (unat b mod 16) = (of_nat (unat b div 16 * 16 + unat b mod 16) :: u8)"
    by (simp only: of_nat_add)
  also have "\<dots> = b" by (simp only: div_mult_mod_eq) simp
  finally show ?thesis .
qed

lemma unat_u8_digit: "unat (b :: u8) div 16 < 16"
proof -
  have "unat b < 256" using unsigned_less [of b] by simp
  then show ?thesis by linarith
qed

lemma length_six: "length mac = 6 \<Longrightarrow> \<exists>a b c d e f. mac = [a, b, c, d, e, f]"
  by (auto simp: length_Suc_conv numeral_eq_Suc)

lemma typed_mac_six:
  "typed_mac mac = concat (map (\<lambda>b. [of_nat (of_char (lower_hex (unat b div 16))),
     of_nat (of_char (lower_hex (unat b mod 16)))]) mac)" if "length mac = 6"
  using length_six [OF that] by (auto simp: typed_mac_def mac_text_def ascii_bytes_def lower_hex_digit unat_u8_digit)

lemma mac_loop_bytes:
  "mac_loop (2 * length xs) (concat (map (\<lambda>b. [of_nat (of_char (lower_hex (unat b div 16))),
     of_nat (of_char (lower_hex (unat b mod 16)))]) bs)) (xs @ replicate (length bs) 0) = Some (xs @ bs)"
proof (induction bs arbitrary: xs)
  case (Cons b bs)
  then show ?case
    using Cons.IH [of "xs @ [b]"]
    by (simp add: lower_hex_digit unat_u8_digit byte_from_digits list_update_append nth_append)
qed simp

lemma transform_typed_mac:
  assumes "length mac = 6"
  shows "transformMacAddress (typed_mac mac) = Some mac"
proof -
  have "length (typed_mac mac) = 12"
    using length_six [OF assms] by (auto simp: typed_mac_six)
  then show ?thesis
    using mac_loop_bytes [of "[]" mac] assms by (simp add: transformMacAddress_def typed_mac_six)
qed

lemma typed_mac_plain:
  "length mac = 6 \<Longrightarrow> k \<in> set (typed_mac mac) \<Longrightarrow> plain_key k \<and> k \<noteq> 8"
  using length_six [of mac] by (auto simp: typed_mac_six lower_hex_digit unat_u8_digit)

lemma edited_no_backspace: "8 \<notin> set ks \<Longrightarrow> edited ks = ks"
proof -
  have "8 \<notin> set ks \<Longrightarrow> foldl edit_key buf ks = buf @ ks" for buf
    by (induction ks arbitrary: buf) (auto simp: edit_key_def)
  then show "8 \<notin> set ks \<Longrightarrow> edited ks = ks" by (simp add: edited_def)
qed

lemma readLine_typed_mac:
  assumes "length mac = 6" "b_keys s = map Key (typed_mac mac) @ Key 13 # rest"
  shows "readLine 13 s = (Val (typed_mac mac), s\<lparr>b_keys := rest\<rparr>)"
proof -
  have len: "length (typed_mac mac) = 12" using length_six [OF assms(1)] by (auto simp: typed_mac_six)
  have plain: "\<forall>k \<in> set (typed_mac mac). plain_key k" and no8: "8 \<notin> set (typed_mac mac)"
    using typed_mac_plain [OF assms(1)] by auto
  have "edited (take n (typed_mac mac)) = take n (typed_mac mac)" for n
    using no8 by (intro edited_no_backspace) (auto dest: in_set_takeD)
  moreover have "edited (typed_mac mac) = typed_mac mac" using no8 by (rule edited_no_backspace)
  moreover have "typed_mac mac \<noteq> []" using len by auto
  ultimately show ?thesis using readLine_edits [OF assms(2) plain, of 13] len by simp
qed

subsection \<open>A platform for concrete runs\<close>

definition demo_platform :: "(bytes, nat \<Rightarrow> u8) platform" where
  "demo_platform = \<lparr>p_crc16 = (\<lambda>_. 0), p_inflate = stored_inflate, p_inflateInit = (0, [7, 8, 9]),
     p_flash_init = (\<lambda>_. 0), p_erase = ram_erase, p_program = ram_program, p_peek = (\<lambda>f. f),
     p_flash_base = 0x80000000, p_flash_span = 0x800000, p_open_uart = 3, p_creat = (\<lambda>_. True),
     p_room = (\<lambda>_. 0x1000), p_malloc = (\<lambda>n. n < 0x100000), p_set_baud = True, p_remote_status = 0\<rparr>"

definition demo_boot :: "key_event list \<Rightarrow> rx_event list \<Rightarrow> (nat \<Rightarrow> u8) boot" where
  "demo_boot ks evs = \<lparr>b_keys = ks, b_flash = (\<lambda>_. 0xff), b_files = \<lparr>contents = Map.empty, tmp_room = 0x10000\<rparr>,
     b_xyz = idle_xyz evs, b_baud = 9600, b_iowr = [], b_shown = []\<rparr>"

subsection \<open>Changing the MAC address\<close>

lemma and_fold_ones: "foldl (AND) (x :: u8) bs = - 1 \<longleftrightarrow> x = - 1 \<and> (\<forall>b \<in> set bs. b = - 1)"
  by (induction bs arbitrary: x) (auto simp: and_eq_minus_1_iff)

lemma hasMacAddress_iff: "hasMacAddress P s \<longleftrightarrow> mac_bytes P s \<noteq> replicate 6 0xFF"
proof -
  have ones: "(0xFF :: u8) = - 1" by simp
  have "length (mac_bytes P s) = 6" by (simp add: mac_bytes_def)
  then have "(\<forall>b \<in> set (mac_bytes P s). b = - 1) \<longleftrightarrow> mac_bytes P s = replicate 6 (- 1)"
    using replicate_eqI [of "mac_bytes P s" 6 "- 1"] by auto
  then show ?thesis unfolding hasMacAddress_def ones and_fold_ones by simp
qed

lemma mac_bytes_stored:
  assumes "p_peek P (b_flash s) = store_bytes (macAddr P) mac m" "length mac = 6"
  shows "mac_bytes P s = mac"
  unfolding mac_bytes_def assms(1) using assms(2) by (intro nth_equalityI) (simp_all add: store_bytes_def)

lemma flash_program_erased:
  assumes "flash_ok peek erase program" "erase f a (length bs) = (0, f1)" "program f1 a bs = (0, f2)"
  shows "peek f2 = store_bytes a bs (peek f1)"
proof
  fix x
  have "peek f1 x = 0xff" if "a \<le> x" "x < a + length bs"
    using assms(1,2) that unfolding flash_ok_def
    by (metis add_diff_inverse_nat fst_conv less_diff_conv2 add.commute not_less snd_conv)
  moreover have "if a \<le> x \<and> x < a + length bs then peek f1 x = 0xff \<longrightarrow> peek f2 x = bs ! (x - a)
      else peek f2 x = peek f1 x"
    using assms(1,3) unfolding flash_ok_def by (metis fst_conv snd_conv)
  ultimately show "peek f2 x = store_bytes a bs (peek f1) x"
    by (auto simp: store_bytes_def split: if_splits)
qed

text \<open>
  A MAC address that is typed in ends up in flash. Its twelve hexadecimal digits (as
  \<^verbatim>\<open>printMACAddress\<close> shows them) and return, with a flash driver that reports no error, leave the
  address in the six bytes from which \<^verbatim>\<open>hasMacAddress\<close> and the application read it; nothing else
  has changed since the erase. A driver error resets the board.
\<close>

theorem typed_mac_is_stored:
  assumes "length mac = 6" "b_keys s = map Key (typed_mac mac) @ Key 13 # rest"
    and "flash_ok (p_peek P) (p_erase P) (p_program P)"
    and "p_erase P (b_flash s) (macAddr P) 6 = (e, f1)" "p_program P f1 (macAddr P) mac = (e2, f2)"
  shows "if e = 0 \<and> e2 = 0 then
      \<exists>s'. changeMac P s = (Val (), s') \<and> mac_bytes P s' = mac \<and> b_keys s' = rest \<and>
        p_peek P (b_flash s') = store_bytes (macAddr P) mac (p_peek P f1) \<and>
        (hasMacAddress P s' \<longleftrightarrow> mac \<noteq> replicate 6 0xFF)
    else fst (changeMac P s) = Stop Reset_board"
proof -
  let ?s1 = "s\<lparr>b_keys := rest\<rparr>"
  let ?s2 = "?s1\<lparr>b_shown := b_shown s @ mac_text mac\<rparr>"
  have line: "readLine 13 s = (Val (typed_mac mac), ?s1)" using assms(1,2) by (rule readLine_typed_mac)
  show ?thesis
  proof (cases "e = 0 \<and> e2 = 0")
    case True
    let ?s4 = "?s2\<lparr>b_flash := f2\<rparr>"
    have "changeMac P s = (Val (), ?s4)"
      using True assms(4,5) transform_typed_mac [OF assms(1)] by (simp add: changeMac_def line)
    moreover have flash: "p_peek P (b_flash ?s4) = store_bytes (macAddr P) mac (p_peek P f1)"
      using flash_program_erased [OF assms(3)] True assms(1,4,5) by simp
    moreover have "mac_bytes P ?s4 = mac" using flash assms(1) by (rule mac_bytes_stored)
    ultimately show ?thesis using True by (simp add: hasMacAddress_iff)
  next
    case False
    then show ?thesis
      using assms(4,5) transform_typed_mac [OF assms(1)]
      by (auto simp: changeMac_def line reset_def Let_def)
  qed
qed

theorem typed_mac_is_stored_witness:
  "\<exists>s'. changeMac demo_platform (demo_boot (map Key (ascii_bytes ''00a0b0c0d0ef'') @ [Key 13, Quiet]) []) = (Val (), s') \<and>
     mac_bytes demo_platform s' = [0, 0xa0, 0xb0, 0xc0, 0xd0, 0xef] \<and> b_keys s' = [Quiet] \<and>
     hasMacAddress demo_platform s'"
proof -
  let ?s = "demo_boot (map Key (ascii_bytes ''00a0b0c0d0ef'') @ [Key 13, Quiet]) []"
  let ?mac = "[0, 0xa0, 0xb0, 0xc0, 0xd0, 0xef] :: bytes"
  have typed: "typed_mac ?mac = ascii_bytes ''00a0b0c0d0ef''"
    by (simp add: typed_mac_six lower_hex_def ascii_bytes_def)
  have ok: "flash_ok (p_peek demo_platform) (p_erase demo_platform) (p_program demo_platform)"
    using ram_flash_ok by (simp add: demo_platform_def)
  obtain f1 where e: "p_erase demo_platform (b_flash ?s) (macAddr demo_platform) 6 = (0, f1)"
    by (simp add: demo_platform_def ram_erase_def)
  obtain f2 where p: "p_program demo_platform f1 (macAddr demo_platform) ?mac = (0, f2)"
    by (simp add: demo_platform_def ram_program_def)
  have "b_keys ?s = map Key (typed_mac ?mac) @ Key 13 # [Quiet]" unfolding typed by (simp add: demo_boot_def)
  moreover have "hd ?mac \<noteq> hd (replicate 6 0xff)" by simp
  then have "?mac \<noteq> replicate 6 0xff" by metis
  ultimately show ?thesis using typed_mac_is_stored [OF _ _ ok e p] by auto
qed

subsection \<open>Entering a line\<close>

text \<open>
  Entering a line. Whatever is typed, a line that is accepted fits into its buffer with the final
  zero; and keys without control characters and a return, that never make the line too long and do not
  leave it empty, give the text as edited with the backspaces and use up exactly these keys.
\<close>

theorem readLine_fits_and_edits:
  assumes "0 < maxLen"
  shows "(readLine maxLen t = (Val out, t') \<longrightarrow> length out < maxLen \<and> 0 \<notin> set out) \<and>
    (b_keys s = map Key ks @ Key 13 # rest \<and> (\<forall>k \<in> set ks. plain_key k) \<and>
     (\<forall>n \<le> length ks. length (edited (take n ks)) < maxLen) \<and> edited ks \<noteq> [] \<longrightarrow>
     readLine maxLen s = (Val (edited ks), s\<lparr>b_keys := rest\<rparr>))"
  using readLine_bounded [of maxLen t out t'] readLine_edits [of s ks 13 rest maxLen] assms by auto

theorem readLine_fits_and_edits_witness:
  "readLine 4 (demo_boot (map Key [0x41, 0x42, 8, 0x43] @ Key 13 # [Quiet]) []) =
     (Val [0x41, 0x43], demo_boot [Quiet] [])"
proof -
  let ?ks = "[0x41, 0x42, 8, 0x43] :: bytes"
  have "length (edited (take n ?ks)) < 4" if "n \<le> length ?ks" for n
  proof -
    have "n \<in> {0, 1, 2, 3, 4}" using that by auto
    then show ?thesis by (auto simp: edited_def edit_key_def)
  qed
  then show ?thesis
    using readLine_fits_and_edits [of 4 "demo_boot [] []" "[]" "demo_boot [] []" "demo_boot (map Key ?ks @ Key 13 # [Quiet]) []" ?ks "[Quiet]"]
    by (simp add: plain_key_def edited_def edit_key_def demo_boot_def)
qed

subsection \<open>Uploads\<close>

text \<open>
  While the sender has bytes to deliver, the loop of \<^verbatim>\<open>ymodemUpload\<close> writes them to the file in
  pieces and ends with all of them, unless the file system is full.
\<close>

lemma upload_loop_delivers:
  assumes "to_deliver crc16 x todo" "length buf \<le> 4096 - 0x100" "length out + length buf + length todo \<le> room"
  shows "ends (upload_loop crc16 room buf out x) (\<lambda>(r, x').
    r = Upload_end (out @ buf @ todo) 0 \<and> to_deliver crc16 x' [])"
  using assms
proof (induction "length todo" arbitrary: buf out x todo rule: less_induct)
  case less
  let ?n = "nat (4096 - int (length buf))"
  let ?bs = "take ?n todo"
  have n: "0 < ?n" "?n = 4096 - length buf" using less.prems(2) by auto
  have "ends (read_loop crc16 (4096 - int (length buf)) [] 0 x) (\<lambda>(r, s').
      r = Read_bytes ([] @ ?bs) 0 \<and> to_deliver crc16 s' (drop ?n todo))"
    using less.prems(1) by (rule read_loop_delivers)
  then obtain x1 where x1: "xyzModem_stream_read crc16 (4096 - int (length buf)) 0 x = Some (Read_bytes ?bs 0, x1)"
      "to_deliver crc16 x1 (drop ?n todo)"
    by (auto simp: ends_def xyzModem_stream_read_def)
  show ?case
  proof (cases "todo = []")
    case True
    with x1 less.prems show ?thesis by (subst upload_loop.simps) auto
  next
    case False
    define new where "new = ?bs"
    define rest where "rest = drop ?n todo"
    have todo: "todo = new @ rest" by (simp add: new_def rest_def)
    have ne: "new \<noteq> []" using False n by (simp add: new_def)
    let ?flush = "length (buf @ new) > 4096 - 0x100"
    note x1 = x1 [folded new_def rest_def]
    show ?thesis
    proof (cases ?flush)
      case True
      have "ends (upload_loop crc16 room [] (out @ buf @ new) x1) (\<lambda>(r, x').
          r = Upload_end ((out @ buf @ new) @ [] @ rest) 0 \<and> to_deliver crc16 x' [])"
        using x1(2) ne todo less.prems(3) by (intro less.hyps) auto
      moreover have "upload_loop crc16 room buf out x = upload_loop crc16 room [] (out @ buf @ new) x1"
        using x1(1) ne todo True less.prems(3) by (subst upload_loop.simps) (simp add: Let_def)
      ultimately show ?thesis by (simp add: todo)
    next
      case False
      have "ends (upload_loop crc16 room (buf @ new) out x1) (\<lambda>(r, x').
          r = Upload_end (out @ (buf @ new) @ rest) 0 \<and> to_deliver crc16 x' [])"
        using x1(2) ne todo False less.prems(3) by (intro less.hyps) auto
      moreover have "upload_loop crc16 room buf out x = upload_loop crc16 room (buf @ new) out x1"
        using x1(1) ne todo False less.prems(3) by (subst upload_loop.simps) (simp add: Let_def)
      ultimately show ?thesis by (simp add: todo)
    qed
  qed
qed

text \<open>
  C17: an upload stores what was sent. On a line that carries the header packet and then the data
  packets of a file (with the mishaps of the X/Y-modem transfer before each of them), and with room
  for it, the upload ends and the named file holds the data of the packets, each stripped of its
  trailing \<^verbatim>\<open>^Z\<close> where it ends with at least three of them; other files, the flash and the keys
  typed are untouched. That is exactly the file that was sent if the receiver can tell its padding
  (\<open>padded_file\<close>: no packet of the file's own bytes ends with three \<^verbatim>\<open>^Z\<close>, and the padding of the
  last packet has at least three bytes, or none, and follows another byte than \<^verbatim>\<open>^Z\<close>).
\<close>

theorem upload_stores_sent_file:
  assumes "xyz_ok (b_xyz s)" "0 \<le> p_open_uart P" "before_header (p_crc16 P) ms" "packet_data h hdr"
    and "pending (uart (b_xyz s)) =
           concat ms @ map Some (packet h 0 (NOT 0) hdr (check_bytes (p_crc16 P) True hdr)) @ items"
    and "transfer (p_crc16 P) True 1 blocks items" "data = concat (map strip_block blocks)"
    and "p_creat P name" "length data \<le> tmp_room (b_files s)"
  shows "(\<exists>x. ymodemUpload P name s = Some (Val (), set_file name (Some data) (s\<lparr>b_xyz := x\<rparr>))) \<and>
    (padded_file sent blocks \<longrightarrow> data = sent)"
proof -
  obtain x where x: "xyzModem_stream_open (p_crc16 P) (p_open_uart P) xyzModem_ymodem 0 (b_xyz s) = Some (0, 0, x)"
      "to_deliver (p_crc16 P) x data"
    using stream_open_header [OF assms(1-6), of 0] assms(7) by (auto simp: ends_def)
  obtain x1 where "upload_loop (p_crc16 P) (tmp_room (b_files s)) [] [] x = Some (Upload_end data 0, x1)"
    using upload_loop_delivers [OF x(2), of "[]" "[]"] assms(9) by (auto simp: ends_def)
  with x(1) assms(7,8) show ?thesis by (auto simp: ymodemUpload_def Let_def padded_file_delivered)
qed

theorem upload_stores_sent_file_witness:
  "\<exists>x. ymodemUpload demo_platform ''/ram/f'' (demo_boot [] demo_noisy_line) =
     Some (Val (), set_file ''/ram/f'' (Some (replicate 128 7)) ((demo_boot [] demo_noisy_line)\<lparr>b_xyz := x\<rparr>))"
proof -
  have b: "b_xyz (demo_boot [] demo_noisy_line) = idle_xyz demo_noisy_line" by (simp add: demo_boot_def)
  have p: "p_crc16 demo_platform = (\<lambda>_. 0)" by (simp add: demo_platform_def)
  have "pending (uart (idle_xyz demo_noisy_line)) = concat demo_noise @
      map Some (packet SOH 0 (NOT 0) (replicate 128 0) (check_bytes (\<lambda>_. 0) True (replicate 128 0))) @
      [None, None] @ map Some (demo_packet 1 7) @ map Some (EOT # demo_packet 0 0)"
    using demo_noisy_items demo_line_transfer(1) by simp
  moreover have "length (replicate 128 (7::u8)) \<le> tmp_room (b_files (demo_boot [] demo_noisy_line))"
    "0 \<le> p_open_uart demo_platform" "p_creat demo_platform ''/ram/f''"
    by (simp_all add: demo_boot_def demo_platform_def)
  ultimately show ?thesis
    using upload_stores_sent_file [of "demo_boot [] demo_noisy_line" demo_platform demo_noise SOH "replicate 128 0"
        "[None, None] @ map Some (demo_packet 1 7) @ map Some (EOT # demo_packet 0 0)" "[replicate 128 7]" "replicate 128 7"
        "''/ram/f''" "replicate 128 7"] demo_line_transfer(2) demo_noise_before
    unfolding b p by (simp add: packet_data_def demo_strip)
qed

text \<open>Whatever is sent, an upload ends.\<close>

lemma upload_loop_eof:
  assumes "xyz_at_eof x" "xyz_ok x"
  shows "ends (upload_loop crc16 room buf out x) (\<lambda>(r, x'). xyz_ok x')"
proof -
  have "read_loop crc16 sz [] 0 x = Some (Read_bytes [] 0, x)" for sz
    using assms(1) by (subst read_loop.simps) simp
  with assms(2) show ?thesis by (subst upload_loop.simps) (simp add: xyzModem_stream_read_def Let_def)
qed

lemma upload_loop_ends:
  assumes "xyz_ok x" "packet_held x \<or> xyz_len x < 0"
  shows "ends (upload_loop crc16 room buf out x) (\<lambda>(r, x'). xyz_ok x')"
  using assms
proof (induction x arbitrary: buf out
    rule: wf_induct_rule [OF wf_measures [of "[backlog, \<lambda>x. nat (xyz_len x)]"]])
  case (1 x)
  obtain r x1 where r: "xyzModem_stream_read crc16 (4096 - int (length buf)) 0 x = Some (r, x1)"
      "read_post (4096 - int (length buf)) [] x (r, x1)"
    using read_loop_ends [OF 1(2,3), of crc16 "4096 - int (length buf)" "[]" 0]
    by (auto simp: ends_def xyzModem_stream_read_def)
  then have x1: "xyz_ok x1" "packet_held x1 \<or> xyz_len x1 < 0" by (auto simp: read_post_def)
  show ?case
  proof (cases r)
    case Memcpy_overrun
    with r(1) x1 show ?thesis by (subst upload_loop.simps) simp
  next
    case (Read_bytes bs err)
    have again: "ends (upload_loop crc16 room buf' out' x1) (\<lambda>(r, x'). xyz_ok x')" if "bs \<noteq> []" for buf' out'
    proof (cases "xyz_at_eof x1")
      case True
      then show ?thesis using x1(1) by (rule upload_loop_eof)
    next
      case False
      then have "(x1, x) \<in> measures [backlog, \<lambda>x. nat (xyz_len x)]"
        using r(2) Read_bytes that by (auto simp: read_post_def read_progress_def)
      then show ?thesis using x1 by (rule 1(1))
    qed
    with r(1) Read_bytes x1 show ?thesis by (subst upload_loop.simps) (auto simp: Let_def)
  qed
qed

lemma ymodemUpload_ends:
  assumes "xyz_ok (b_xyz s)"
  shows "ends (ymodemUpload P name s) (\<lambda>(r, t). b_keys t = b_keys s \<and> xyz_ok (b_xyz t))"
proof -
  obtain r e x where x: "xyzModem_stream_open (p_crc16 P) (p_open_uart P) xyzModem_ymodem 0 (b_xyz s) = Some (r, e, x)"
      "xyz_ok x" "r = 0 \<longrightarrow> packet_held x"
    using stream_open_ends [OF assms, of "p_crc16 P" "p_open_uart P" 0] by (auto simp: ends_def)
  show ?thesis
  proof (cases "r = 0")
    case True
    obtain u x1 where u: "upload_loop (p_crc16 P) (tmp_room (b_files s)) [] [] x = Some (u, x1)" "xyz_ok x1"
      using upload_loop_ends [OF x(2), of "p_crc16 P" "tmp_room (b_files s)" "[]" "[]"] x(3) True
      by (auto simp: ends_def)
    with x True show ?thesis
      by (cases u) (auto simp: ymodemUpload_def Let_def reset_def IOWR_def set_file_def xyzModem_stream_close_def)
  next
    case False
    with x show ?thesis by (simp add: ymodemUpload_def Let_def reset_def IOWR_def)
  qed
qed

subsection \<open>The menu\<close>

text \<open>
  What the menu's operations may do to the reconfiguration registers: nothing, or, as their last
  action, trigger a reconfiguration with the image selected before. None of them jumps to the
  application.
\<close>

definition quiet_regs :: "'f boot \<Rightarrow> 'a outcome \<times> 'f boot \<Rightarrow> bool" where
  "quiet_regs s m \<longleftrightarrow> (\<forall>a. fst m \<noteq> Stop (Jump_to a)) \<and> (b_iowr (snd m) = b_iowr s \<or>
     fst m = Stop Reset_board \<and> b_iowr (snd m) = b_iowr s @ [(0x20, 1)])"

lemma quiet_regs_simps [simp]:
  "quiet_regs s (r, t) \<longleftrightarrow> (\<forall>a. r \<noteq> Stop (Jump_to a)) \<and>
     (b_iowr t = b_iowr s \<or> r = Stop Reset_board \<and> b_iowr t = b_iowr s @ [(0x20, 1)])"
  by (simp add: quiet_regs_def)

lemma quiet_reset: "b_iowr t = b_iowr s \<Longrightarrow> quiet_regs s (reset t)"
  by (simp add: reset_def IOWR_def)

lemma quiet_andthen:
  "quiet_regs s m \<Longrightarrow> (\<And>a t. m = (Val a, t) \<Longrightarrow> b_iowr t = b_iowr s \<Longrightarrow> quiet_regs s (k a t)) \<Longrightarrow>
   quiet_regs s (andthen m k)"
  by (cases m; cases "fst m") auto

lemma set_file_regs [simp]: "b_iowr (set_file n c s) = b_iowr s" "b_iowr (writeFile P n bs s) = b_iowr s"
  by (simp_all add: set_file_def writeFile_def)

lemma read_line_stops: "read_line maxLen buf ks = (Stop r, ks') \<Longrightarrow> r = Wait_forever \<or> r = Reset_board"
  by (induction maxLen buf ks rule: read_line.induct) (auto simp: Let_def split: if_splits)

lemma quiet_readLine: "quiet_regs s (readLine n s)"
  by (auto simp: readLine_def Let_def reset_def IOWR_def dest: read_line_stops
      split: prod.splits outcome.splits stop.splits)

lemma quiet_erase: "quiet_regs s (flash_erase_range P a n s)"
  by (auto simp: flash_erase_range_def Let_def reset_def IOWR_def split: prod.splits)

lemma quiet_changeMac: "quiet_regs s (changeMac P s)"
  unfolding changeMac_def
  by (rule quiet_andthen [OF quiet_readLine])
     (auto simp: Let_def reset_def IOWR_def split: option.splits prod.splits)

lemma quiet_leave: "quiet_regs s (leave_menu P s)"
  by (simp add: leave_menu_def quiet_reset)

lemma quiet_after_key: "quiet_regs s (after_key P k s)"
  unfolding after_key_def
  by (rule quiet_andthen) (auto simp: quiet_changeMac leave_menu_def quiet_reset)

lemma quiet_format: "quiet_regs s (format P s)"
  unfolding format_def by (rule quiet_andthen [OF quiet_erase]) (simp add: quiet_reset)

lemma quiet_parameters:
  fixes s :: "'f boot"
  shows "quiet_regs s (changeIP P s)" "quiet_regs s (enterParameter P s)" "quiet_regs s (showParameter s)"
proof -
  show "quiet_regs s (changeIP P s)"
    unfolding changeIP_def by (rule quiet_andthen [OF quiet_readLine]) (simp add: quiet_reset)
  show "quiet_regs s (showParameter s)"
    unfolding showParameter_def by (rule quiet_andthen [OF quiet_readLine]) (simp split: option.splits)
  show "quiet_regs s (enterParameter P s)"
    unfolding enterParameter_def
  proof (rule quiet_andthen [OF quiet_readLine])
    fix name and t :: "'f boot" assume "b_iowr t = b_iowr s"
    then show "quiet_regs s (andthen (readLine 128 t) (\<lambda>param s2. (Val (), writeFile P (str_of name) param s2)))"
      using quiet_readLine [of t 128] by (intro quiet_andthen) (auto simp: quiet_regs_def)
  qed
qed

lemma quiet_upload: "ymodemUpload P name s = Some m \<Longrightarrow> quiet_regs s m"
  by (auto simp: ymodemUpload_def Let_def reset_def IOWR_def split: option.splits upload.splits if_splits)

lemma quiet_upload_and_upgrade: "upload_and_upgrade P info s = Some m \<Longrightarrow> quiet_regs s m"
  using quiet_upload [of P "upg_file info" s]
  by (auto simp: upload_and_upgrade_def upgrade_def reset_def IOWR_def split: option.splits outcome.splits)

lemma quiet_runfile: "quiet_regs s (runfile P name s)"
  by (simp add: runfile_def quiet_reset split: option.splits)

lemma quiet_wait: "b_iowr (snd (waitChar n s)) = b_iowr s \<and> (\<forall>r. fst (waitChar n s) = Stop r \<longrightarrow> r = Wait_forever)"
  by (auto simp: waitChar_def split: list.splits key_event.splits option.splits)

text \<open>A menu result that is safe: the registers are quiet and the menu is left only with a MAC address.\<close>

definition menu_safe :: "('z, 'f) platform \<Rightarrow> 'f boot \<Rightarrow> unit outcome \<times> 'f boot \<Rightarrow> bool" where
  "menu_safe P s m \<longleftrightarrow> quiet_regs s m \<and> (fst m = Val () \<longrightarrow> hasMacAddress P (snd m))"

lemma menu_safe_leave: "menu_safe P s (leave_menu P s)" "menu_safe P s (after_key P k s)"
proof -
  show "menu_safe P s (leave_menu P s)"
    by (simp add: menu_safe_def leave_menu_def reset_def IOWR_def)
  have "fst (after_key P k s) = Val () \<longrightarrow> hasMacAddress P (snd (after_key P k s))"
    by (auto simp: after_key_def leave_menu_def andthen_def reset_def split: prod.splits outcome.splits)
  then show "menu_safe P s (after_key P k s)" using quiet_after_key by (simp add: menu_safe_def)
qed

lemma menu_safe_stops:
  "menu_safe P s (format P s)" "menu_safe P s (changeIP P s)" "menu_safe P s (reset s)"
  "menu_safe P s (runfile P name s)" "upload_and_upgrade P info s = Some m \<Longrightarrow> menu_safe P s m"
  using quiet_format [of s P] quiet_parameters(1) [of s P] quiet_reset [of s s] quiet_runfile [of s P name]
    quiet_upload_and_upgrade [of P info s m]
  by (auto simp: menu_safe_def format_def changeIP_def runfile_def andthen_def reset_def upload_and_upgrade_def
      split: prod.splits outcome.splits option.splits)

lemma menu_safe_same: "b_iowr t = b_iowr s \<Longrightarrow> menu_safe P t m \<Longrightarrow> menu_safe P s m"
  by (auto simp: menu_safe_def quiet_regs_def)

lemma quiet_upload_named: "upload_named P s = Some m \<Longrightarrow> quiet_regs s m"
  using quiet_readLine [of s 256]
  by (auto simp: upload_named_def quiet_regs_def split: prod.splits outcome.splits dest!: quiet_upload)

lemma menu_safe_run: "upload_and_run P s = Some m \<Longrightarrow> menu_safe P s m"
  using quiet_upload [of P "''/ram/run''" s]
  by (auto simp: upload_and_run_def menu_safe_def split: option.splits outcome.splits)
     (auto simp: runfile_def reset_def IOWR_def split: option.splits if_splits)

text \<open>One round of the menu keeps the registers quiet, and leaves only safely.\<close>

definition goto_safe :: "('z, 'f) platform \<Rightarrow> 'f boot \<Rightarrow> 'f menu_goto \<Rightarrow> bool" where
  "goto_safe P s g = (case g of Leave m \<Rightarrow> menu_safe P s m | Wait_more n t \<Rightarrow> b_iowr t = b_iowr s
     | Start_menu m \<Rightarrow> quiet_regs s m)"

lemma menu_key_safe: "menu_key P waiting k s = Some g \<Longrightarrow> goto_safe P s g"
proof -
  have "b_iowr (set115200 P s) = b_iowr s" by (simp add: set115200_def)
  then show "menu_key P waiting k s = Some g \<Longrightarrow> goto_safe P s g"
    unfolding menu_key_def goto_safe_def
    by (auto simp: menu_safe_stops menu_safe_run menu_safe_leave quiet_parameters quiet_erase quiet_upload_named
        simp del: quiet_regs_simps split: if_splits)
qed

text \<open>
  The menu ends, safely: every round uses up a key, none of its operations brings one back, and every
  upload and upgrade ends.
\<close>

definition keeps :: "'f boot \<Rightarrow> 'f boot \<Rightarrow> bool" where
  "keeps s t \<longleftrightarrow> length (b_keys t) \<le> length (b_keys s) \<and> (xyz_ok (b_xyz s) \<longrightarrow> xyz_ok (b_xyz t))"

lemma keeps_trans: "keeps s t \<Longrightarrow> keeps t u \<Longrightarrow> keeps s u"
  by (auto simp: keeps_def)

lemma read_line_keys: "length (snd (read_line maxLen buf ks)) \<le> length ks"
  by (induction maxLen buf ks rule: read_line.induct) (auto simp: Let_def)

lemma keeps_simps [simp]:
  "keeps s s" "keeps s (IOWR r v t) = keeps s t" "keeps s (set_file n c t) = keeps s t"
  "keeps s (writeFile P n bs t) = keeps s t" "keeps s (t\<lparr>b_shown := x\<rparr>) = keeps s t"
  "keeps s (t\<lparr>b_flash := f\<rparr>) = keeps s t" "keeps s (snd (reset t)) = keeps s t"
  "keeps s (set115200 P t) = keeps s t"
  by (simp_all add: keeps_def IOWR_def set_file_def writeFile_def reset_def set115200_def)

lemma keeps_readLine: "keeps s (snd (readLine n s))"
  using read_line_keys [of n "[]" "b_keys s"]
  by (auto simp: readLine_def Let_def reset_def keeps_def IOWR_def split: prod.splits outcome.splits stop.splits)

lemma keeps_andthen:
  "keeps s (snd m) \<Longrightarrow> (\<And>a t. keeps s t \<Longrightarrow> keeps s (snd (k a t))) \<Longrightarrow> keeps s (snd (andthen m k))"
  by (cases m; cases "fst m") auto

lemma keeps_operations:
  "keeps s (snd (enterParameter P s))" "keeps s (snd (showParameter s))"
  "keeps s (snd (flash_erase_range P a n s))"
proof -
  show "keeps s (snd (enterParameter P s))"
    unfolding enterParameter_def
    by (intro keeps_andthen keeps_readLine keeps_trans [OF _ keeps_readLine]) simp_all
  show "keeps s (snd (showParameter s))"
    unfolding showParameter_def
    by (intro keeps_andthen keeps_readLine) (simp split: option.splits)
  show "keeps s (snd (flash_erase_range P a n s))"
    by (auto simp: flash_erase_range_def Let_def split: prod.splits)
qed

lemma keeps_upload: "xyz_ok (b_xyz s) \<Longrightarrow> ends (ymodemUpload P name s) (\<lambda>m. keeps s (snd m))"
  by (rule ends_weaken [OF ymodemUpload_ends]) (auto simp: keeps_def)

lemma keeps_upload_named: "xyz_ok (b_xyz s) \<Longrightarrow> ends (upload_named P s) (\<lambda>m. keeps s (snd m))"
proof -
  assume "xyz_ok (b_xyz s)"
  obtain r t where r: "readLine 256 s = (r, t)" by force
  then have t: "keeps s t" using keeps_readLine [of s 256] by simp
  with \<open>xyz_ok (b_xyz s)\<close> have "xyz_ok (b_xyz t)" by (simp add: keeps_def)
  then have "ends (ymodemUpload P name t) (\<lambda>m. keeps s (snd m))" for name
    by (rule ends_weaken [OF keeps_upload]) (rule keeps_trans [OF t])
  with r t show ?thesis by (auto simp: upload_named_def split: outcome.splits)
qed

lemma upload_and_end:
  assumes "xyz_ok (b_xyz s)" "inflate_moves (p_inflate P)"
  shows "upload_and_upgrade P info s \<noteq> None" "upload_and_run P s \<noteq> None"
proof -
  have "upgrade P info t \<noteq> None" for t
    using firmware_upgrade_ends [OF assms(2), of "p_inflateInit P" "p_erase P" "p_program P" info "b_files t" "b_flash t"]
    by (auto simp: upgrade_def)
  then have up: "(case upgrade P info t of None \<Rightarrow> None | Some (_, s2) \<Rightarrow> Some (reset s2)) \<noteq> None" for t
    by (metis (no_types, lifting) option.case_eq_if option.distinct(1) prod.case_eq_if)
  obtain r t where "ymodemUpload P (upg_file info) s = Some (r, t)"
    using keeps_upload [OF assms(1), of P "upg_file info"] by (auto simp: ends_def)
  then show "upload_and_upgrade P info s \<noteq> None"
    using up [of t] by (cases r) (simp_all add: upload_and_upgrade_def)
  show "upload_and_run P s \<noteq> None"
    using keeps_upload [OF assms(1), of P "''/ram/run''"]
    by (auto simp: upload_and_run_def ends_def split: outcome.splits)
qed

lemma menu_key_ends:
  assumes "xyz_ok (b_xyz s)" "inflate_moves (p_inflate P)"
  shows "ends (menu_key P waiting k s) (\<lambda>g. case g of Start_menu m \<Rightarrow> keeps s (snd m)
    | Wait_more n t \<Rightarrow> keeps s t | Leave m \<Rightarrow> True)"
proof -
  obtain m where m: "upload_named P s = Some m" "keeps s (snd m)"
    using keeps_upload_named [OF assms(1), of P] by (auto simp: ends_def)
  obtain m1 m2 m3 where "upload_and_upgrade P (firmware_info P) s = Some m1"
    "upload_and_upgrade P (bootloader_info P) s = Some m2" "upload_and_run P s = Some m3"
    using upload_and_end [OF assms] by blast
  with m show ?thesis by (simp add: menu_key_def keeps_operations)
qed

lemma getChar_keys: "getChar ks = Some (k, ks') \<Longrightarrow> length ks' < length ks"
  by (induction ks rule: getChar.induct) auto

lemma waitChar_uses_key:
  assumes "waitChar n s = (Val (Some k), t)"
  shows "length (b_keys t) < length (b_keys s)" "b_xyz t = b_xyz s"
  using assms
  by (auto simp: waitChar_def dest: getChar_keys split: if_splits list.splits key_event.splits option.splits)

lemma menu_loop_ends:
  assumes "xyz_ok (b_xyz s)" "inflate_moves (p_inflate P)"
  shows "ends (menu_loop P waiting s) (menu_safe P s)"
  using assms(1)
proof (induction "length (b_keys s)" arbitrary: waiting s rule: less_induct)
  case less
  obtain wr s1 where w: "waitChar waiting s = (wr, s1)" by force
  have regs: "b_iowr s1 = b_iowr s" and wr: "wr = Stop r \<Longrightarrow> r = Wait_forever" for r
    using quiet_wait [of waiting s] w by simp_all
  consider (stop) r where "wr = Stop r" | (quiet) "wr = Val None" | (key) k where "wr = Val (Some k)"
    by (metis outcome.exhaust option.exhaust)
  then show ?case
  proof cases
    case stop
    then show ?thesis using w regs wr by (subst menu_loop.simps) (auto simp: menu_safe_def)
  next
    case quiet
    then show ?thesis
      using w menu_safe_same [OF regs menu_safe_leave(1)] by (subst menu_loop.simps) simp
  next
    case key
    have s1: "length (b_keys s1) < length (b_keys s)" "xyz_ok (b_xyz s1)"
      using waitChar_uses_key [of waiting s k s1] w key less.prems by simp_all
    obtain g where g: "menu_key P waiting k s1 = Some g" "case g of Start_menu m \<Rightarrow> keeps s1 (snd m)
        | Wait_more n t \<Rightarrow> keeps s1 t | Leave m \<Rightarrow> True"
      using menu_key_ends [OF s1(2) assms(2), of waiting k] by (auto simp: ends_def)
    have safe: "goto_safe P s1 g" using g(1) by (rule menu_key_safe)
    have IH: "ends (menu_loop P n t) (menu_safe P s)" if "keeps s1 t" "b_iowr t = b_iowr s" for n t
    proof (rule ends_weaken [OF less.hyps])
      show "length (b_keys t) < length (b_keys s)" "xyz_ok (b_xyz t)" using that(1) s1 by (auto simp: keeps_def)
    qed (rule menu_safe_same [OF that(2)])
    show ?thesis
    proof (cases g)
      case (Start_menu m)
      then show ?thesis
        using w key g safe regs IH [of "snd m" 5]
        by (subst menu_loop.simps) (cases m; cases "fst m"; auto simp: goto_safe_def menu_safe_def)
    next
      case (Wait_more n t)
      then show ?thesis
        using w key g safe regs IH [of t n] by (subst menu_loop.simps) (simp add: goto_safe_def)
    next
      case (Leave m)
      then show ?thesis
        using w key g safe menu_safe_same [OF regs, of P m] by (subst menu_loop.simps) (simp add: goto_safe_def)
    qed
  qed
qed

text \<open>
  C18: the bootloader and the MAC address. Whatever is typed and sent (as long as it is finite), the
  bootloader ends its work. On the path it takes after a power-up (\<^verbatim>\<open>needReset\<close>) it selects the
  application's FPGA image (register 4) only when a MAC address is in flash: if that register is
  written, the MAC address is set, the watchdog is off, the image is the one at the application's
  offset and the reconfiguration is triggered last. On the other path, after a reconfiguration, it jumps to
  the application at once, with no menu and without looking at the MAC address; nothing else jumps.
\<close>

theorem application_needs_mac:
  assumes "xyz_ok (b_xyz s)" "inflate_moves (p_inflate P)" "b_iowr s = []"
  shows "\<exists>r s'. boot_main P s = Some (Stop r, s') \<and>
    ((4, v) \<in> set (b_iowr s') \<longrightarrow> needReset P \<and> hasMacAddress P s' \<and>
       b_iowr s' = [(3, 0), (4, of_nat (APPLICATION_FPGA_OFFSET div 8)), (0x20, 1)]) \<and>
    (if 0 \<le> p_open_uart P \<and> \<not> needReset P
     then r = Jump_to (p_flash_base P + APPLICATION_OFFSET) \<and> s' = s else \<forall>a. r \<noteq> Jump_to a)"
proof (cases "0 \<le> p_open_uart P \<and> needReset P")
  case False
  then show ?thesis using assms(3) by (auto simp: boot_main_def reset_def IOWR_def)
next
  case True
  have start: "b_iowr (printMACAddress P s) = []" "xyz_ok (b_xyz (printMACAddress P s))"
    using assms(1,3) by (simp_all add: printMACAddress_def)
  obtain mr s1 where m: "menu P s = Some (mr, s1)" and safe: "menu_safe P (printMACAddress P s) (mr, s1)"
    using menu_loop_ends [OF start(2) assms(2), of 5] by (auto simp: menu_def ends_def)
  from safe have regs: "b_iowr s1 \<in> {[], [(0x20, 1)]}" and nojump: "\<forall>a. mr \<noteq> Stop (Jump_to a)"
    using start(1) by (auto simp: menu_safe_def)
  show ?thesis
  proof (cases mr)
    case (Val u)
    let ?s' = "CycloneIIIReconfig (int APPLICATION_FPGA_OFFSET) 0 16 s1"
    have s': "boot_main P s = Some (Stop Reset_board, ?s')" using True m Val by (simp add: boot_main_def)
    have "b_iowr s1 = []" "hasMacAddress P s1" using safe start Val by (auto simp: menu_safe_def)
    then have "hasMacAddress P ?s'"
      "b_iowr ?s' = [(3, 0), (4, of_nat (APPLICATION_FPGA_OFFSET div 8)), (0x20, 1)]"
      by (simp_all add: CycloneIIIReconfig_def IOWR_def hasMacAddress_iff mac_bytes_def APPLICATION_FPGA_OFFSET_def
          drop_bit_eq_div)
    with s' True show ?thesis by simp
  next
    case (Stop r)
    then have "boot_main P s = Some (Stop r, s1)" using True m by (simp add: boot_main_def)
    with True Stop regs nojump show ?thesis by auto
  qed
qed

text \<open>The stored inflater reports an empty input as an error, as zlib does.\<close>

definition moving_inflate :: "bytes inflate" where
  "moving_inflate z b n =
     (let (err, used, out, z') = stored_inflate z b n
      in (if err = Z_OK \<and> used = 0 then - 5 else err, used, out, z'))"

lemma moving_inflate_moves: "inflate_moves moving_inflate"
  by (auto simp: inflate_moves_def moving_inflate_def stored_inflate_def Let_def split: if_splits)

theorem application_needs_mac_witness:
  "\<exists>s'. boot_main (demo_platform\<lparr>p_inflate := moving_inflate\<rparr>) ((demo_boot [Quiet] [])\<lparr>b_flash := (\<lambda>_. 0)\<rparr>) =
       Some (Stop Reset_board, s') \<and>
     hasMacAddress demo_platform s' \<and> b_iowr s' = [(3, 0), (4, 0x60000), (0x20, 1)]"
proof -
  let ?P = "demo_platform\<lparr>p_inflate := moving_inflate\<rparr>"
  let ?s = "(demo_boot [Quiet] [])\<lparr>b_flash := (\<lambda>_. 0)\<rparr>"
  let ?t = "(printMACAddress ?P ?s)\<lparr>b_keys := []\<rparr>"
  have mac: "hasMacAddress ?P t" if "b_flash t = (\<lambda>_. 0)" for t
    using that by (simp add: hasMacAddress_def mac_bytes_def demo_platform_def upt_rec)
  have "menu ?P ?s = Some (Val (), ?t)"
    unfolding menu_def
    by (subst menu_loop.simps) (simp add: mac waitChar_def leave_menu_def printMACAddress_def demo_boot_def)
  then have b: "boot_main ?P ?s =
      Some (Stop Reset_board, CycloneIIIReconfig (int APPLICATION_FPGA_OFFSET) 0 16 ?t)"
    by (simp add: boot_main_def needReset_def demo_platform_def)
  have "b_iowr ?s = []" "xyz_ok (b_xyz ?s)" "inflate_moves (p_inflate ?P)"
    by (simp_all add: demo_boot_def moving_inflate_moves)
  moreover have "(4, 0x60000) \<in> set (b_iowr (CycloneIIIReconfig (int APPLICATION_FPGA_OFFSET) 0 16 ?t))"
    by (simp add: CycloneIIIReconfig_def IOWR_def APPLICATION_FPGA_OFFSET_def drop_bit_eq_div)
  moreover have "hasMacAddress ?P t = hasMacAddress demo_platform t" for t
    by (simp add: hasMacAddress_def mac_bytes_def macAddr_def)
  ultimately show ?thesis
    using application_needs_mac [of ?s ?P "0x60000"] b by (simp add: APPLICATION_FPGA_OFFSET_def)
qed

end
