(* ===== verification/Epcs_Spi.thy ===== *)
theory Epcs_Spi
  imports Nios_Prelude
begin

text \<open>
  The SPI master routine of the EPCS driver
  (\<^verbatim>\<open>packages/io/epcs/current/src/altera_avalon_spi.c\<close>) over a model of the Avalon SPI
  registers.

  The device on the bus is a parameter: how it reacts to being selected, to a byte (with the byte
  it answers) and to being released. The controller shifts one byte at a time; how many status
  reads a byte takes is \<open>hw_pace\<close>. The loop is a \<open>partial_function\<close>: \<open>None\<close> means that it
  never ends.
\<close>

unbundle bit_operations_syntax

subsection \<open>Bus and controller\<close>

record 'd slave =
  sl_select :: "'d \<Rightarrow> 'd"
  sl_byte :: "u8 \<Rightarrow> 'd \<Rightarrow> u8 \<times> 'd"
  sl_release :: "'d \<Rightarrow> 'd"

record 'd spi_hw =
  hw_dev :: 'd
  hw_slave_sel :: u32
  hw_sso :: bool
  hw_rrdy :: bool
  hw_rxdata :: u8
  hw_flight :: "(nat \<times> u8) option"
  hw_pace :: "nat list"

text \<open>Without \<^verbatim>\<open>SSO\<close> the controller selects the slave for each byte.\<close>

definition shift_byte :: "'d slave \<Rightarrow> bool \<Rightarrow> u8 \<Rightarrow> 'd \<Rightarrow> u8 \<times> 'd" where
  "shift_byte S sso b d =
     (if sso then sl_byte S b d
      else (let (r, d1) = sl_byte S b (sl_select S d) in (r, sl_release S d1)))"

definition write_txdata :: "'d slave \<Rightarrow> u8 \<Rightarrow> 'd spi_hw \<Rightarrow> 'd spi_hw" where
  "write_txdata S b hw =
     (let (r, d) = shift_byte S (hw_sso hw) b (hw_dev hw)
      in hw\<lparr>hw_dev := d, hw_flight := Some (case hw_pace hw of [] \<Rightarrow> 0 | n # _ \<Rightarrow> n, r),
            hw_pace := tl (hw_pace hw)\<rparr>)"

definition write_control :: "'d slave \<Rightarrow> bool \<Rightarrow> 'd spi_hw \<Rightarrow> 'd spi_hw" where
  "write_control S sso hw =
     hw\<lparr>hw_sso := sso,
        hw_dev := (if sso \<and> \<not> hw_sso hw then sl_select S (hw_dev hw)
                   else if \<not> sso \<and> hw_sso hw then sl_release S (hw_dev hw)
                   else hw_dev hw)\<rparr>"

text \<open>A read of the status register: what the controller has done by then, and its bits.\<close>

definition poll_status :: "'d spi_hw \<Rightarrow> 'd spi_hw" where
  "poll_status hw =
     (case hw_flight hw of
        None \<Rightarrow> hw
      | Some (0, r) \<Rightarrow> hw\<lparr>hw_flight := None, hw_rrdy := True, hw_rxdata := r\<rparr>
      | Some (Suc n, r) \<Rightarrow> hw\<lparr>hw_flight := Some (n, r)\<rparr>)"

abbreviation (input) TRDY :: "'d spi_hw \<Rightarrow> bool" where "TRDY hw \<equiv> hw_flight hw = None"
abbreviation (input) RRDY :: "'d spi_hw \<Rightarrow> bool" where "RRDY hw \<equiv> hw_rrdy hw"
abbreviation (input) TMT :: "'d spi_hw \<Rightarrow> bool" where "TMT hw \<equiv> hw_flight hw = None"

subsection \<open>A transaction\<close>

text \<open>
  The clocking loop. \<open>wr\<close> are the bytes left to write, \<open>zeros\<close> and \<open>ign\<close> are
  \<^verbatim>\<open>write_zeros\<close> and \<^verbatim>\<open>read_ignore\<close>, \<open>rd\<close> the bytes read so far, of \<open>rlen\<close>.
\<close>

definition spi_transmit ::
  "'d slave \<Rightarrow> int \<Rightarrow> bytes \<Rightarrow> nat \<Rightarrow> 'd spi_hw \<Rightarrow> int \<times> bytes \<times> nat \<times> 'd spi_hw" where
  "spi_transmit S credits wr zeros hw =
     (if TRDY hw \<and> credits > 0 then
        (case wr of
           b # bs \<Rightarrow> (credits - 1, bs, zeros, write_txdata S b hw)
         | [] \<Rightarrow> if zeros > 0 then (credits - 1, [], zeros - 1, write_txdata S 0 hw)
                 else (- 1024, [], zeros, hw))
      else (credits, wr, zeros, hw))"

partial_function (option) spi_loop ::
  "'d slave \<Rightarrow> nat \<Rightarrow> int \<Rightarrow> bytes \<Rightarrow> nat \<Rightarrow> nat \<Rightarrow> bytes \<Rightarrow> 'd spi_hw \<Rightarrow> (bytes \<times> 'd spi_hw) option" where
  "spi_loop S rlen credits wr zeros ign rd hw =
     (let hw1 = poll_status hw
      in if (\<not> TRDY hw1 \<or> credits = 0) \<and> \<not> RRDY hw1 then spi_loop S rlen credits wr zeros ign rd hw1
         else
           (let (credits1, wr1, zeros1, hw2) = spi_transmit S credits wr zeros hw1
            in if RRDY hw1 then
                 (let hw3 = hw2\<lparr>hw_rrdy := False\<rparr>;
                      ign1 = (if ign > 0 then ign - 1 else ign);
                      rd1 = (if ign > 0 then rd else rd @ [hw_rxdata hw1])
                  in if ign1 = 0 \<and> length rd1 = rlen then Some (rd1, hw3)
                     else spi_loop S rlen (credits1 + 1) wr1 zeros1 ign1 rd1 hw3)
               else spi_loop S rlen credits1 wr1 zeros1 ign rd hw2))"

partial_function (option) await_tmt :: "'d spi_hw \<Rightarrow> 'd spi_hw option" where
  "await_tmt hw = (let hw1 = poll_status hw in if TMT hw1 then Some hw1 else await_tmt hw1)"

definition ALT_AVALON_SPI_COMMAND_MERGE :: u32 where "ALT_AVALON_SPI_COMMAND_MERGE = 1"
definition ALT_AVALON_SPI_COMMAND_TOGGLE_SS_N :: u32 where "ALT_AVALON_SPI_COMMAND_TOGGLE_SS_N = 2"

definition alt_avalon_spi_command ::
  "'d slave \<Rightarrow> nat \<Rightarrow> bytes \<Rightarrow> nat \<Rightarrow> u32 \<Rightarrow> 'd spi_hw \<Rightarrow> (bytes \<times> 'd spi_hw) option" where
  "alt_avalon_spi_command S slave_no write_data read_length flags hw =
     (let hw1 = hw\<lparr>hw_slave_sel := push_bit slave_no 1\<rparr>;
          hw2 = (if flags AND ALT_AVALON_SPI_COMMAND_TOGGLE_SS_N = 0 then write_control S True hw1 else hw1);
          hw3 = hw2\<lparr>hw_rrdy := False\<rparr>
      in case spi_loop S read_length 1 write_data read_length (length write_data) [] hw3 of
           None \<Rightarrow> None
         | Some (rd, hw4) \<Rightarrow>
             (case await_tmt hw4 of
                None \<Rightarrow> None
              | Some hw5 \<Rightarrow>
                  Some (rd, if flags AND ALT_AVALON_SPI_COMMAND_MERGE = 0
                            then write_control S False hw5 else hw5)))"

subsection \<open>What a transaction does\<close>

text \<open>The reference: the bytes are exchanged one after the other.\<close>

fun exchange :: "'d slave \<Rightarrow> bool \<Rightarrow> bytes \<Rightarrow> 'd \<Rightarrow> bytes \<times> 'd" where
  "exchange S sso [] d = ([], d)"
| "exchange S sso (b # bs) d =
     (let (r, d1) = shift_byte S sso b d; (rs, d2) = exchange S sso bs d1 in (r # rs, d2))"

lemma length_exchange [simp]: "length (fst (exchange S sso bs d)) = length bs"
  by (induction bs arbitrary: d) (auto split: prod.splits, metis fst_conv)

lemma exchange_append:
  "exchange S sso (xs @ ys) d =
     (let (rs, d1) = exchange S sso xs d; (rs', d2) = exchange S sso ys d1 in (rs @ rs', d2))"
  by (induction xs arbitrary: d) (auto split: prod.splits)

text \<open>The controller at rest, with the device in the given state.\<close>

definition spi_at :: "bool \<Rightarrow> 'd \<Rightarrow> 'd spi_hw \<Rightarrow> bool" where
  "spi_at sso d hw \<longleftrightarrow> hw_flight hw = None \<and> hw_sso hw = sso \<and> hw_dev hw = d"

lemma spi_loop_wait:
  assumes "hw_flight hw = Some (n, r)" "\<not> hw_rrdy hw"
  shows "spi_loop S rlen 0 wr zeros ign rd hw =
    spi_loop S rlen 0 wr zeros ign rd (hw\<lparr>hw_flight := Some (0, r)\<rparr>)"
  using assms
proof (induction n arbitrary: hw)
  case 0
  then have "hw\<lparr>hw_flight := Some (0, r)\<rparr> = hw" by simp
  then show ?case by simp
next
  case (Suc n)
  have "spi_loop S rlen 0 wr zeros ign rd hw = spi_loop S rlen 0 wr zeros ign rd (hw\<lparr>hw_flight := Some (n, r)\<rparr>)"
    using Suc.prems by (subst spi_loop.simps) (simp add: poll_status_def)
  then show ?case using Suc.IH [of "hw\<lparr>hw_flight := Some (n, r)\<rparr>"] Suc.prems by simp
qed

text \<open>One byte: it is sent, and the answer is dropped or kept.\<close>

lemma spi_loop_byte:
  assumes "hw_flight hw = None" "\<not> hw_rrdy hw" "shift_byte S (hw_sso hw) b (hw_dev hw) = (r, d)"
    and "wr @ replicate zeros 0 = b # todo"
    and "ign1 = (if ign > 0 then ign - 1 else ign)" "rd1 = (if ign > 0 then rd else rd @ [r])"
  obtains hw1 wr1 zeros1 where "wr1 @ replicate zeros1 0 = todo" "spi_at (hw_sso hw) d hw1" "\<not> hw_rrdy hw1"
    "spi_loop S rlen 1 wr zeros ign rd hw =
       (if ign1 = 0 \<and> length rd1 = rlen then Some (rd1, hw1)
        else spi_loop S rlen 1 wr1 zeros1 ign1 rd1 hw1)"
proof -
  let ?t = "spi_transmit S 1 wr zeros hw"
  obtain wr1 zeros1 where t: "?t = (0, wr1, zeros1, write_txdata S b hw)" "wr1 @ replicate zeros1 0 = todo"
  proof (cases wr)
    case Nil
    then have "zeros > 0" "b = 0" "todo = replicate (zeros - 1) 0" using assms(4) by (cases zeros; auto)+
    then show thesis using Nil assms(1) that [of "[]" "zeros - 1"] by (simp add: spi_transmit_def)
  next
    case (Cons c cs)
    then show thesis using assms(1,4) that [of cs zeros] by (simp add: spi_transmit_def)
  qed
  obtain n where w: "hw_flight (write_txdata S b hw) = Some (n, r)" "\<not> hw_rrdy (write_txdata S b hw)"
      "hw_dev (write_txdata S b hw) = d" "hw_sso (write_txdata S b hw) = hw_sso hw"
    using assms(2,3) by (simp add: write_txdata_def)
  let ?w = "(write_txdata S b hw)\<lparr>hw_flight := Some (0, r)\<rparr>"
  let ?hw1 = "?w\<lparr>hw_flight := None, hw_rxdata := r, hw_rrdy := False\<rparr>"
  have "spi_loop S rlen 1 wr zeros ign rd hw = spi_loop S rlen 0 wr1 zeros1 ign rd (write_txdata S b hw)"
    using assms(1,2) t(1) by (subst spi_loop.simps) (simp add: poll_status_def)
  also have "\<dots> = spi_loop S rlen 0 wr1 zeros1 ign rd ?w" using w(1,2) by (rule spi_loop_wait)
  also have "\<dots> = (if ign1 = 0 \<and> length rd1 = rlen then Some (rd1, ?hw1)
        else spi_loop S rlen 1 wr1 zeros1 ign1 rd1 ?hw1)"
    using assms(5,6) by (subst spi_loop.simps) (simp add: poll_status_def spi_transmit_def Let_def)
  finally show thesis using t(2) w(3,4) by (intro that [of wr1 zeros1 ?hw1]) (auto simp: spi_at_def)
qed

lemma spi_loop_exchange:
  assumes "spi_at sso d hw" "\<not> hw_rrdy hw" "wr @ replicate zeros 0 = todo" "todo \<noteq> []"
    and "ign + (rlen - length rd) = length todo" "length rd \<le> rlen"
  shows "ends (spi_loop S rlen 1 wr zeros ign rd hw) (\<lambda>(rs, hw').
    rs = rd @ drop ign (fst (exchange S sso todo d)) \<and> spi_at sso (snd (exchange S sso todo d)) hw' \<and> \<not> hw_rrdy hw')"
  using assms
proof (induction todo arbitrary: d hw wr zeros ign rd)
  case (Cons b todo)
  obtain r d1 where sh: "shift_byte S sso b d = (r, d1)" by force
  define ign1 where "ign1 = (if ign > 0 then ign - 1 else ign)"
  define rd1 where "rd1 = (if ign > 0 then rd else rd @ [r])"
  have len: "ign1 + (rlen - length rd1) = length todo" "length rd1 \<le> rlen"
    using Cons.prems(5,6) by (auto simp: ign1_def rd1_def)
  have out: "rd1 @ drop ign1 rs = rd @ drop ign (r # rs)" for rs
    by (cases ign) (auto simp: ign1_def rd1_def)
  obtain hw1 wr1 zeros1 where w: "wr1 @ replicate zeros1 0 = todo" "spi_at sso d1 hw1" "\<not> hw_rrdy hw1"
    "spi_loop S rlen 1 wr zeros ign rd hw =
       (if ign1 = 0 \<and> length rd1 = rlen then Some (rd1, hw1) else spi_loop S rlen 1 wr1 zeros1 ign1 rd1 hw1)"
  proof (rule spi_loop_byte [where hw = hw and S = S and b = b and r = r and d = d1 and wr = wr and zeros = zeros
        and todo = todo and ign = ign and rd = rd and ?ign1.0 = ign1 and ?rd1.0 = rd1 and rlen = rlen])
    show "shift_byte S (hw_sso hw) b (hw_dev hw) = (r, d1)" using Cons.prems(1) sh by (simp add: spi_at_def)
  qed (use Cons.prems in \<open>auto simp: spi_at_def ign1_def rd1_def\<close>)
  show ?case
  proof (cases "todo = []")
    case True
    then have "ign1 = 0 \<and> length rd1 = rlen" using len by simp
    then show ?thesis using w True sh out [of "[]"] by simp
  next
    case False
    then have "\<not> (ign1 = 0 \<and> length rd1 = rlen)" using len by auto
    moreover have "ends (spi_loop S rlen 1 wr1 zeros1 ign1 rd1 hw1) (\<lambda>(rs, hw').
        rs = rd1 @ drop ign1 (fst (exchange S sso todo d1)) \<and>
        spi_at sso (snd (exchange S sso todo d1)) hw' \<and> \<not> hw_rrdy hw')"
      using w False len by (intro Cons.IH)
    ultimately show ?thesis using w(4) sh out by (auto simp: case_prod_unfold Let_def)
  qed
qed simp

lemma await_tmt_idle: "hw_flight hw = None \<Longrightarrow> await_tmt hw = Some hw"
  by (subst await_tmt.simps) (simp add: poll_status_def)

text \<open>The device before and after a transaction with the given flags.\<close>

definition before_command :: "'d slave \<Rightarrow> u32 \<Rightarrow> bool \<Rightarrow> 'd \<Rightarrow> bool \<times> 'd" where
  "before_command S flags sso d =
     (if flags AND ALT_AVALON_SPI_COMMAND_TOGGLE_SS_N = 0 then (True, if sso then d else sl_select S d) else (sso, d))"

definition after_command :: "'d slave \<Rightarrow> u32 \<Rightarrow> bool \<times> 'd \<Rightarrow> bool \<times> 'd" where
  "after_command S flags = (\<lambda>(sso, d).
     if flags AND ALT_AVALON_SPI_COMMAND_MERGE = 0 then (False, if sso then sl_release S d else d) else (sso, d))"

lemma spi_command_ends:
  assumes "spi_at sso d hw" "wd @ replicate n 0 \<noteq> []" "before_command S flags sso d = (sso1, d1)"
    and "exchange S sso1 (wd @ replicate n 0) d1 = (rs, d2)" "after_command S flags (sso1, d2) = (sso3, d3)"
  shows "ends (alt_avalon_spi_command S k wd n flags hw) (\<lambda>(rd, hw'). rd = drop (length wd) rs \<and> spi_at sso3 d3 hw')"
proof -
  define hw3 where "hw3 = (if flags AND ALT_AVALON_SPI_COMMAND_TOGGLE_SS_N = 0
    then write_control S True (hw\<lparr>hw_slave_sel := push_bit k 1\<rparr>)
    else hw\<lparr>hw_slave_sel := push_bit k 1\<rparr>)\<lparr>hw_rrdy := False\<rparr>"
  have at: "spi_at sso1 d1 hw3" "\<not> hw_rrdy hw3"
    using assms(1,3) by (auto simp: hw3_def before_command_def spi_at_def write_control_def split: if_splits)
  have "ends (spi_loop S n 1 wd n (length wd) [] hw3) (\<lambda>(rs', hw').
      rs' = [] @ drop (length wd) (fst (exchange S sso1 (wd @ replicate n 0) d1)) \<and>
      spi_at sso1 (snd (exchange S sso1 (wd @ replicate n 0) d1)) hw' \<and> \<not> hw_rrdy hw')"
    using at assms(2) by (intro spi_loop_exchange) auto
  then obtain hw4 where l: "spi_loop S n 1 wd n (length wd) [] hw3 = Some (drop (length wd) rs, hw4)"
      "spi_at sso1 d2 hw4"
    using assms(4) by (auto simp: ends_def)
  then have "await_tmt hw4 = Some hw4" by (simp add: await_tmt_idle spi_at_def)
  then have "alt_avalon_spi_command S k wd n flags hw = Some (drop (length wd) rs,
      if flags AND ALT_AVALON_SPI_COMMAND_MERGE = 0 then write_control S False hw4 else hw4)"
    by (simp only: alt_avalon_spi_command_def Let_def hw3_def [symmetric] l(1) option.case prod.case)
  with l(2) assms(5) show ?thesis
    by (auto simp: after_command_def spi_at_def write_control_def split: if_splits)
qed

text \<open>With nothing to write and nothing to read, no answer ever comes.\<close>

definition spi_stuck :: "int \<Rightarrow> bytes \<Rightarrow> nat \<Rightarrow> 'd spi_hw \<Rightarrow> bool" where
  "spi_stuck credits wr zeros hw \<longleftrightarrow>
     hw_flight hw = None \<and> \<not> hw_rrdy hw \<and> (credits < 0 \<or> credits > 0 \<and> wr = [] \<and> zeros = 0)"

lemma spi_loop_stuck:
  assumes "spi_loop S rlen credits wr zeros ign rd hw = Some res"
  shows "\<not> spi_stuck credits wr zeros hw"
proof (rule spi_loop.raw_induct [of "\<lambda>S rlen credits wr zeros ign rd hw res. \<not> spi_stuck credits wr zeros hw", OF _ assms])
  fix loop S rlen credits wr zeros ign rd hw res
  assume IH: "\<And>S rlen credits wr zeros ign rd hw res. loop S rlen credits wr zeros ign rd hw = Some res \<Longrightarrow>
      \<not> spi_stuck credits wr zeros hw"
    and run: "(let hw1 = poll_status hw
      in if (\<not> TRDY hw1 \<or> credits = 0) \<and> \<not> RRDY hw1 then loop S rlen credits wr zeros ign rd hw1
         else
           (let (credits1, wr1, zeros1, hw2) = spi_transmit S credits wr zeros hw1
            in if RRDY hw1 then
                 (let hw3 = hw2\<lparr>hw_rrdy := False\<rparr>;
                      ign1 = (if ign > 0 then ign - 1 else ign);
                      rd1 = (if ign > 0 then rd else rd @ [hw_rxdata hw1])
                  in if ign1 = 0 \<and> length rd1 = rlen then Some (rd1, hw3)
                     else loop S rlen (credits1 + 1) wr1 zeros1 ign1 rd1 hw3)
               else loop S rlen credits1 wr1 zeros1 ign rd hw2)) = Some res"
  show "\<not> spi_stuck credits wr zeros hw"
  proof
    assume stuck: "spi_stuck credits wr zeros hw"
    then have "poll_status hw = hw" by (simp add: spi_stuck_def poll_status_def)
    then have "loop S rlen (if credits > 0 then - 1024 else credits) wr zeros ign rd hw = Some res"
      using run stuck by (auto simp: spi_stuck_def spi_transmit_def split: if_splits)
    then show False using IH stuck by (fastforce simp: spi_stuck_def)
  qed
qed

lemma spi_command_empty:
  assumes "spi_at sso d hw"
  shows "alt_avalon_spi_command S k [] 0 flags hw = None"
proof -
  have "spi_loop S 0 1 [] 0 0 [] hw' = None" if "hw_flight hw' = None" "\<not> hw_rrdy hw'" for hw'
    using spi_loop_stuck [of S 0 1 "[]" 0 0 "[]" hw'] that unfolding spi_stuck_def by (cases "spi_loop S 0 1 [] 0 0 [] hw'") auto
  then show ?thesis using assms by (simp add: alt_avalon_spi_command_def Let_def spi_at_def write_control_def)
qed

end
