(* ===== verification/Epcs.thy ===== *)
theory Epcs
  imports Epcs_Spi
begin

text \<open>
  The EPCS serial flash driver: the commands of the chip
  (\<^verbatim>\<open>packages/io/epcs/current/src/epcs_commands.c\<close>), the flash controller
  (\<^verbatim>\<open>altera_avalon_epcs_flash_controller.c\<close>) and the eCos block device (\<^verbatim>\<open>epcs.c\<close>).

  Every operation takes the chip on the bus (\<open>S\<close>) and the controller's state, and returns its
  result and the new state; \<open>None\<close> means that it does not return. Buffers are byte lists whose
  length is the C length.
\<close>

unbundle bit_operations_syntax

subsection \<open>Commands\<close>

definition epcs_command ::
  "'d slave \<Rightarrow> bytes \<Rightarrow> nat \<Rightarrow> u32 \<Rightarrow> 'd spi_hw \<Rightarrow> (bytes \<times> 'd spi_hw) option" where
  "epcs_command S cmd n flags hw = alt_avalon_spi_command S 0 cmd n flags hw"

definition epcs_read_status_register :: "'d slave \<Rightarrow> 'd spi_hw \<Rightarrow> (u8 \<times> 'd spi_hw) option" where
  "epcs_read_status_register S hw =
     do { (rd, hw1) \<leftarrow> epcs_command S [0x05] 1 0 hw; Some (hd rd, hw1) }"

definition epcs_test_wip :: "'d slave \<Rightarrow> 'd spi_hw \<Rightarrow> (bool \<times> 'd spi_hw) option" where
  "epcs_test_wip S hw =
     do { (st, hw1) \<leftarrow> epcs_read_status_register S hw; Some (st AND 1 \<noteq> 0, hw1) }"

partial_function (option) epcs_await_wip_released :: "'d slave \<Rightarrow> 'd spi_hw \<Rightarrow> 'd spi_hw option" where
  "epcs_await_wip_released S hw =
     (case epcs_test_wip S hw of
        None \<Rightarrow> None
      | Some (wip, hw1) \<Rightarrow> if wip then epcs_await_wip_released S hw1 else Some hw1)"

text \<open>The three address bytes.\<close>

definition addr24 :: "int \<Rightarrow> bytes" where
  "addr24 offset = [of_int (drop_bit 16 offset), of_int (drop_bit 8 offset), of_int offset]"

definition epcs_sector_erase :: "'d slave \<Rightarrow> int \<Rightarrow> 'd spi_hw \<Rightarrow> 'd spi_hw option" where
  "epcs_sector_erase S offset hw =
     do { (_, hw1) \<leftarrow> epcs_command S (0xD8 # addr24 offset) 0 0 hw; epcs_await_wip_released S hw1 }"

definition epcs_read_buffer :: "'d slave \<Rightarrow> int \<Rightarrow> nat \<Rightarrow> 'd spi_hw \<Rightarrow> (int \<times> bytes \<times> 'd spi_hw) option" where
  "epcs_read_buffer S offset len hw =
     do { hw1 \<leftarrow> epcs_await_wip_released S hw;
          (rd, hw2) \<leftarrow> epcs_command S (0x03 # addr24 offset) len 0 hw1;
          Some (int len, rd, hw2) }"

definition epcs_write_enable :: "'d slave \<Rightarrow> 'd spi_hw \<Rightarrow> 'd spi_hw option" where
  "epcs_write_enable S hw = do { (_, hw1) \<leftarrow> epcs_command S [0x06] 0 0 hw; Some hw1 }"

definition epcs_write_status_register :: "'d slave \<Rightarrow> u8 \<Rightarrow> 'd spi_hw \<Rightarrow> 'd spi_hw option" where
  "epcs_write_status_register S v hw =
     do { (_, hw1) \<leftarrow> epcs_command S [0x01, v] 0 0 hw; epcs_await_wip_released S hw1 }"

definition epcs_write_buffer :: "'d slave \<Rightarrow> int \<Rightarrow> bytes \<Rightarrow> 'd spi_hw \<Rightarrow> (int \<times> 'd spi_hw) option" where
  "epcs_write_buffer S offset src hw =
     do { hw1 \<leftarrow> epcs_write_enable S hw;
          (_, hw2) \<leftarrow> epcs_command S (0x02 # addr24 offset) 0 ALT_AVALON_SPI_COMMAND_MERGE hw1;
          (_, hw3) \<leftarrow> epcs_command S src 0 0 hw2;
          hw4 \<leftarrow> epcs_await_wip_released S hw3;
          Some (int (length src), hw4) }"

definition epcs_read_electronic_signature :: "'d slave \<Rightarrow> 'd spi_hw \<Rightarrow> (u8 \<times> 'd spi_hw) option" where
  "epcs_read_electronic_signature S hw =
     do { (rd, hw1) \<leftarrow> epcs_command S [0xAB, 0, 0, 0] 1 0 hw; Some (hd rd, hw1) }"

definition epcs_read_device_id :: "'d slave \<Rightarrow> 'd spi_hw \<Rightarrow> (u8 \<times> 'd spi_hw) option" where
  "epcs_read_device_id S hw =
     do { (rd, hw1) \<leftarrow> epcs_command S [0x9F, 0, 0] 1 0 hw; Some (hd rd, hw1) }"

subsection \<open>The flash controller\<close>

abbreviation (input) ENOERR :: int where "ENOERR \<equiv> 0"
abbreviation (input) EIO :: int where "EIO \<equiv> 5"
abbreviation (input) ENOMEM :: int where "ENOMEM \<equiv> 12"
abbreviation (input) ENODEV :: int where "ENODEV \<equiv> 19"
abbreviation (input) EINVAL :: int where "EINVAL \<equiv> 22"

record flash_region =
  fr_offset :: int
  region_size :: int
  number_of_blocks :: int
  block_size :: int

record alt_flash_epcs_dev =
  number_of_regions :: int
  region_info :: "flash_region list"
  base_addr :: int
  size_in_bytes :: int
  silicon_id :: u8
  page_size :: int

text \<open>The geometry the driver knows for a silicon id.\<close>

definition epcs_geometry :: "u8 \<Rightarrow> (int \<times> int \<times> int) option" where
  "epcs_geometry sid =
     (if sid = 0x16 then Some (64 * 1024 * 1024 div 8, 128, 65536)
      else if sid = 0x14 then Some (16 * 1024 * 1024 div 8, 32, 65536)
      else if sid = 0x13 then Some (8 * 1024 * 1024 div 8, 16, 65536)
      else if sid = 0x12 then Some (4 * 1024 * 1024 div 8, 8, 65536)
      else if sid = 0x10 then Some (1 * 1024 * 1024 div 8, 4, 32768)
      else None)"

definition set_geometry :: "int \<times> int \<times> int \<Rightarrow> alt_flash_epcs_dev \<Rightarrow> alt_flash_epcs_dev" where
  "set_geometry g f =
     (case g of (rs, nb, bs) \<Rightarrow>
        f\<lparr>region_info := (region_info f)[0 := (region_info f ! 0)\<lparr>region_size := rs, number_of_blocks := nb, block_size := bs\<rparr>]\<rparr>)"

definition finish_query :: "alt_flash_epcs_dev \<Rightarrow> alt_flash_epcs_dev" where
  "finish_query f =
     f\<lparr>size_in_bytes := region_size (region_info f ! 0), number_of_regions := 1,
       region_info := (region_info f)[0 := (region_info f ! 0)\<lparr>fr_offset := 0\<rparr>], page_size := 256\<rparr>"

definition alt_epcs_flash_query ::
  "'d slave \<Rightarrow> alt_flash_epcs_dev \<Rightarrow> 'd spi_hw \<Rightarrow> (int \<times> alt_flash_epcs_dev \<times> 'd spi_hw) option" where
  "alt_epcs_flash_query S f hw =
     do { (sid, hw1) \<leftarrow> epcs_read_electronic_signature S hw;
          (case epcs_geometry sid of
             Some g \<Rightarrow> Some (0, finish_query (set_geometry g (f\<lparr>silicon_id := sid\<rparr>)), hw1)
           | None \<Rightarrow>
               do { (sid, hw2) \<leftarrow> epcs_read_device_id S hw1;
                    let f1 = f\<lparr>silicon_id := sid\<rparr>;
                    Some (if sid = 0x18
                          then (0, finish_query (set_geometry (128 * 1024 * 1024 div 8, 64, 262144) f1), hw2)
                          else (- ENODEV, finish_query f1, hw2)) }) }"

text \<open>\<^verbatim>\<open>alt_epcs_flash_init\<close>; \<open>register\<close> is the result of \<^verbatim>\<open>alt_flash_device_register\<close>.\<close>

definition alt_epcs_flash_init ::
  "'d slave \<Rightarrow> int \<Rightarrow> alt_flash_epcs_dev \<Rightarrow> 'd spi_hw \<Rightarrow> (int \<times> alt_flash_epcs_dev \<times> 'd spi_hw) option" where
  "alt_epcs_flash_init S register f hw =
     do { (ret_code, f1, hw1) \<leftarrow> alt_epcs_flash_query S f hw;
          Some (if ret_code = 0 then register else ret_code, f1, hw1) }"

text \<open>\<^verbatim>\<open>offset > last_device_address\<close> compares as unsigned.\<close>

definition alt_epcs_test_address :: "alt_flash_epcs_dev \<Rightarrow> int \<Rightarrow> int" where
  "alt_epcs_test_address f offset =
     (let r = region_info f ! nat (number_of_regions f - 1);
          last_device_address = (of_int (- 1 + fr_offset r + region_size r) :: u32)
      in if (of_int offset :: u32) > last_device_address then - EIO else 0)"

definition alt_epcs_flash_read ::
  "'d slave \<Rightarrow> alt_flash_epcs_dev \<Rightarrow> int \<Rightarrow> nat \<Rightarrow> 'd spi_hw \<Rightarrow> (int \<times> bytes \<times> 'd spi_hw) option" where
  "alt_epcs_flash_read S f offset len hw =
     (let ret_code = alt_epcs_test_address f offset
      in if ret_code \<ge> 0 then
           do { (ret_code, rd, hw1) \<leftarrow> epcs_read_buffer S offset len hw;
                Some (if ret_code = int len then 0 else ret_code, rd, hw1) }
         else Some (ret_code, [], hw))"

fun memcmp :: "bytes \<Rightarrow> bytes \<Rightarrow> int" where
  "memcmp (x # xs) (y # ys) = (if x = y then memcmp xs ys else int (unat x) - int (unat y))"
| "memcmp _ _ = 0"

text \<open>The loop of \<^verbatim>\<open>alt_epcs_flash_memcmp\<close>: \<open>n\<close> bytes are left, from \<open>cur\<close> on.\<close>

function memcmp_loop ::
  "'d slave \<Rightarrow> alt_flash_epcs_dev \<Rightarrow> bytes \<Rightarrow> int \<Rightarrow> nat \<Rightarrow> nat \<Rightarrow> 'd spi_hw \<Rightarrow> (int \<times> 'd spi_hw) option" where
  "memcmp_loop S f src offset n cur hw =
     (if n = 0 then Some (0, hw)
      else
        (let k = (if n > 32 then 32 else n)
         in case alt_epcs_flash_read S f (offset + int cur) k hw of
              None \<Rightarrow> None
            | Some (ret, chunk, hw1) \<Rightarrow>
                (if ret < 0 then Some (- 1, hw1)
                 else
                   (let cmp = memcmp (take k (drop cur src)) chunk
                    in if cmp \<noteq> 0 then Some (cmp, hw1)
                       else memcmp_loop S f src offset (n - k) (cur + k) hw1))))"
  by auto
termination
  by (relation "measure (\<lambda>(S, f, src, offset, n, cur, hw). n)") auto

declare memcmp_loop.simps [simp del]

definition alt_epcs_flash_memcmp ::
  "'d slave \<Rightarrow> alt_flash_epcs_dev \<Rightarrow> bytes \<Rightarrow> int \<Rightarrow> nat \<Rightarrow> 'd spi_hw \<Rightarrow> (int \<times> 'd spi_hw) option" where
  "alt_epcs_flash_memcmp S f src offset n hw = memcmp_loop S f src offset n 0 hw"

definition alt_epcs_flash_erase_block ::
  "'d slave \<Rightarrow> alt_flash_epcs_dev \<Rightarrow> int \<Rightarrow> 'd spi_hw \<Rightarrow> (int \<times> 'd spi_hw) option" where
  "alt_epcs_flash_erase_block S f block_offset hw =
     (let ret_code = alt_epcs_test_address f block_offset
      in if ret_code \<ge> 0 then
           do { hw1 \<leftarrow> epcs_write_enable S hw;
                hw2 \<leftarrow> epcs_sector_erase S block_offset hw1;
                Some (ret_code, hw2) }
         else Some (ret_code, hw))"

text \<open>The page loop of \<^verbatim>\<open>alt_epcs_flash_write_block\<close>.\<close>

partial_function (option) write_pages ::
  "'d slave \<Rightarrow> int \<Rightarrow> int \<Rightarrow> bytes \<Rightarrow> 'd spi_hw \<Rightarrow> 'd spi_hw option" where
  "write_pages S page data_offset data hw =
     (if data = [] then Some hw
      else
        (let next_page_start = (data_offset + page) AND NOT (page - 1);
             k = nat (min (int (length data)) (next_page_start - data_offset))
         in case epcs_write_buffer S data_offset (take k data) hw of
              None \<Rightarrow> None
            | Some (_, hw1) \<Rightarrow> write_pages S page next_page_start (drop k data) hw1))"

definition alt_epcs_flash_write_block ::
  "'d slave \<Rightarrow> alt_flash_epcs_dev \<Rightarrow> int \<Rightarrow> int \<Rightarrow> bytes \<Rightarrow> 'd spi_hw \<Rightarrow> (int \<times> 'd spi_hw) option" where
  "alt_epcs_flash_write_block S f block_offset data_offset data hw =
     (let ret_code = alt_epcs_test_address f data_offset
      in if ret_code \<ge> 0 then do { hw1 \<leftarrow> write_pages S (page_size f) data_offset data hw; Some (ret_code, hw1) }
         else Some (ret_code, hw))"

text \<open>
  The loops over regions and blocks that \<^verbatim>\<open>alt_epcs_flash_write\<close> and \<^verbatim>\<open>epcs_flash_write\<close>
  have in common; \<open>act\<close> is what they do with the part of the data that falls into the block.
\<close>

datatype block_loop = Finished int | Goes_on int bytes

fun write_blocks ::
  "(int \<Rightarrow> int \<Rightarrow> bytes \<Rightarrow> 'h \<Rightarrow> (int \<times> 'h) option) \<Rightarrow> int \<Rightarrow> nat \<Rightarrow> int \<Rightarrow> int \<Rightarrow> bytes \<Rightarrow> 'h \<Rightarrow>
   (block_loop \<times> 'h) option" where
  "write_blocks act bs 0 current_offset offset data hw = Some (Goes_on offset data, hw)"
| "write_blocks act bs (Suc j) current_offset offset data hw =
     (if offset \<ge> current_offset \<and> offset < current_offset + bs then
        (let data_to_write = nat (min (current_offset + bs - offset) (int (length data)))
         in case act current_offset offset (take data_to_write data) hw of
              None \<Rightarrow> None
            | Some (ret_code, hw1) \<Rightarrow>
                (if length data = data_to_write \<or> ret_code \<noteq> 0 then Some (Finished ret_code, hw1)
                 else write_blocks act bs j (current_offset + bs) (current_offset + bs)
                        (drop data_to_write data) hw1))
      else write_blocks act bs j (current_offset + bs) offset data hw)"

fun write_regions ::
  "(int \<Rightarrow> int \<Rightarrow> bytes \<Rightarrow> 'h \<Rightarrow> (int \<times> 'h) option) \<Rightarrow> flash_region list \<Rightarrow> int \<Rightarrow> bytes \<Rightarrow> 'h \<Rightarrow>
   (int \<times> 'h) option" where
  "write_regions act [] offset data hw = Some (0, hw)"
| "write_regions act (r # rs) offset data hw =
     (if offset \<ge> fr_offset r \<and> offset < fr_offset r + region_size r then
        (case write_blocks act (block_size r) (nat (number_of_blocks r)) (fr_offset r) offset data hw of
           None \<Rightarrow> None
         | Some (Finished ret_code, hw1) \<Rightarrow> Some (ret_code, hw1)
         | Some (Goes_on offset1 data1, hw1) \<Rightarrow> write_regions act rs offset1 data1 hw1)
      else write_regions act rs offset data hw)"

definition regions :: "alt_flash_epcs_dev \<Rightarrow> flash_region list" where
  "regions f = take (nat (number_of_regions f)) (region_info f)"

definition erase_and_write ::
  "'d slave \<Rightarrow> alt_flash_epcs_dev \<Rightarrow> int \<Rightarrow> int \<Rightarrow> bytes \<Rightarrow> 'd spi_hw \<Rightarrow> (int \<times> 'd spi_hw) option" where
  "erase_and_write S f current_offset offset data hw =
     do { (cmp, hw1) \<leftarrow> alt_epcs_flash_memcmp S f data offset (length data) hw;
          if cmp \<noteq> 0 then
            do { (ret_code, hw2) \<leftarrow> alt_epcs_flash_erase_block S f current_offset hw1;
                 if ret_code = 0 then alt_epcs_flash_write_block S f current_offset offset data hw2
                 else Some (ret_code, hw2) }
          else Some (0, hw1) }"

definition alt_epcs_flash_write ::
  "'d slave \<Rightarrow> alt_flash_epcs_dev \<Rightarrow> int \<Rightarrow> bytes \<Rightarrow> 'd spi_hw \<Rightarrow> (int \<times> 'd spi_hw) option" where
  "alt_epcs_flash_write S f offset data hw = write_regions (erase_and_write S f) (regions f) offset data hw"

text \<open>\<^verbatim>\<open>alt_epcs_flash_get_info\<close>: the return code, the regions (if any) and their number.\<close>

definition alt_epcs_flash_get_info :: "int \<Rightarrow> alt_flash_epcs_dev \<Rightarrow> int \<times> flash_region list option \<times> int" where
  "alt_epcs_flash_get_info max_regions f =
     (if number_of_regions f = 0 then (- EIO, None, number_of_regions f)
      else if number_of_regions f > max_regions then (- ENOMEM, None, number_of_regions f)
      else (0, Some (region_info f), number_of_regions f))"

subsection \<open>The block device\<close>

definition write_if_different ::
  "'d slave \<Rightarrow> alt_flash_epcs_dev \<Rightarrow> int \<Rightarrow> int \<Rightarrow> bytes \<Rightarrow> 'd spi_hw \<Rightarrow> (int \<times> 'd spi_hw) option" where
  "write_if_different S f current_offset offset data hw =
     do { (cmp, hw1) \<leftarrow> alt_epcs_flash_memcmp S f data offset (length data) hw;
          if cmp \<noteq> 0 then alt_epcs_flash_write_block S f current_offset offset data hw1 else Some (0, hw1) }"

definition epcs_flash_write ::
  "'d slave \<Rightarrow> alt_flash_epcs_dev \<Rightarrow> int \<Rightarrow> bytes \<Rightarrow> 'd spi_hw \<Rightarrow> (int \<times> 'd spi_hw) option" where
  "epcs_flash_write S f offset data hw = write_regions (write_if_different S f) (regions f) offset data hw"

definition epcs_bread ::
  "'d slave \<Rightarrow> alt_flash_epcs_dev \<Rightarrow> u32 \<Rightarrow> u32 \<Rightarrow> 'd spi_hw \<Rightarrow> (int \<times> bytes \<times> 'd spi_hw) option" where
  "epcs_bread S f pos len hw = alt_epcs_flash_read S f (sint pos) (unat len) hw"

definition epcs_bwrite ::
  "'d slave \<Rightarrow> alt_flash_epcs_dev \<Rightarrow> u32 \<Rightarrow> bytes \<Rightarrow> 'd spi_hw \<Rightarrow> (int \<times> 'd spi_hw) option" where
  "epcs_bwrite S f pos buf hw =
     do { (ret, hw1) \<leftarrow> epcs_flash_write S f (sint pos) buf hw;
          if ret = 0 then alt_epcs_flash_memcmp S f buf (sint pos) (length buf) hw1 else Some (ret, hw1) }"

text \<open>Is the block erased? Eight bytes are compared at a time.\<close>

function check_erased ::
  "'d slave \<Rightarrow> alt_flash_epcs_dev \<Rightarrow> int \<Rightarrow> int \<Rightarrow> int \<Rightarrow> 'd spi_hw \<Rightarrow> (bool \<times> 'd spi_hw) option" where
  "check_erased S f current_offset bs j hw =
     (if j < bs then
        (case alt_epcs_flash_memcmp S f (replicate 8 0xFF) (current_offset + j) 8 hw of
           None \<Rightarrow> None
         | Some (cmp, hw1) \<Rightarrow>
             if cmp \<noteq> 0 then Some (False, hw1) else check_erased S f current_offset bs (j + 8) hw1)
      else Some (True, hw))"
  by auto
termination
  by (relation "measure (\<lambda>(S, f, c, bs, j, hw). nat (bs - j))") auto

declare check_erased.simps [simp del]

text \<open>The \<^verbatim>\<open>while (len > 0)\<close> of \<^verbatim>\<open>cyg_epcs_erase_blocks\<close>; \<^verbatim>\<open>len\<close> is unsigned.\<close>

partial_function (option) erase_loop ::
  "'d slave \<Rightarrow> alt_flash_epcs_dev \<Rightarrow> int \<Rightarrow> int \<Rightarrow> int \<Rightarrow> u32 \<Rightarrow> 'd spi_hw \<Rightarrow> (int \<times> 'd spi_hw) option" where
  "erase_loop S f bs current_offset offset len hw =
     (if len > 0 then
        (if offset \<ge> current_offset \<and> offset < current_offset + bs then
           (case check_erased S f current_offset bs 0 hw of
              None \<Rightarrow> None
            | Some (erased, hw1) \<Rightarrow>
                (case (if \<not> erased then alt_epcs_flash_erase_block S f current_offset hw1 else Some (0, hw1)) of
                   None \<Rightarrow> None
                 | Some (ret_code, hw2) \<Rightarrow>
                     erase_loop S f bs (current_offset + bs) (current_offset + bs) (len - of_int bs) hw2))
         else erase_loop S f bs (current_offset + bs) offset len hw)
      else Some (offset, hw))"

fun erase_regions ::
  "'d slave \<Rightarrow> alt_flash_epcs_dev \<Rightarrow> flash_region list \<Rightarrow> int \<Rightarrow> u32 \<Rightarrow> 'd spi_hw \<Rightarrow> 'd spi_hw option" where
  "erase_regions S f [] offset len hw = Some hw"
| "erase_regions S f (r # rs) offset len hw =
     (if offset \<ge> fr_offset r \<and> offset < fr_offset r + region_size r then
        (case erase_loop S f (block_size r) (fr_offset r) offset len hw of
           None \<Rightarrow> None
         | Some (offset1, hw1) \<Rightarrow> erase_regions S f rs offset1 0 hw1)
      else erase_regions S f rs offset len hw)"

definition cyg_epcs_erase_blocks ::
  "'d slave \<Rightarrow> alt_flash_epcs_dev \<Rightarrow> u32 \<Rightarrow> u32 \<Rightarrow> 'd spi_hw \<Rightarrow> (int \<times> 'd spi_hw) option" where
  "cyg_epcs_erase_blocks S f offset len hw =
     do { hw1 \<leftarrow> erase_regions S f (regions f) (uint offset) len hw; Some (- ENOERR, hw1) }"

datatype config_key = FLASH_ERASE u32 u32 | FLASH_DEVSIZE | FLASH_DEVADDR | FLASH_BLOCKSIZE | Other_key

datatype config_value = Flasherr int | Dev_size int | Dev_addr int | Block_size int | No_value

definition epcs_get_config ::
  "'d slave \<Rightarrow> alt_flash_epcs_dev \<Rightarrow> config_key \<Rightarrow> 'd spi_hw \<Rightarrow> (int \<times> config_value \<times> 'd spi_hw) option" where
  "epcs_get_config S f key hw =
     (case key of
        FLASH_ERASE offset len \<Rightarrow>
          do { (err, hw1) \<leftarrow> cyg_epcs_erase_blocks S f offset len hw; Some (err, Flasherr err, hw1) }
      | FLASH_DEVSIZE \<Rightarrow> Some (- ENOERR, Dev_size (sum_list (map region_size (regions f))), hw)
      | FLASH_DEVADDR \<Rightarrow> Some (- ENOERR, Dev_addr (base_addr f), hw)
      | FLASH_BLOCKSIZE \<Rightarrow> Some (- ENOERR, Block_size (block_size (region_info f ! 0)), hw)
      | Other_key \<Rightarrow> Some (- EINVAL, No_value, hw))"

definition epcs_set_config :: "bool \<Rightarrow> int" where
  "epcs_set_config close = (if close then - ENOERR else - EINVAL)"

definition epcs_init :: "'d slave \<Rightarrow> int \<Rightarrow> alt_flash_epcs_dev \<Rightarrow> 'd spi_hw \<Rightarrow> (bool \<times> alt_flash_epcs_dev \<times> 'd spi_hw) option" where
  "epcs_init S register f hw =
     do { (ret, f1, hw1) \<leftarrow> alt_epcs_flash_init S register f hw; Some (ret = - ENOERR, f1, hw1) }"

end
