(* ===== verification/Epcs_Correct.thy ===== *)
theory Epcs_Correct
  imports Epcs
begin

text \<open>
  What the EPCS driver does to the memory of the chip, for every chip that behaves as its data sheet
  says: reads return the memory, writes and erases change exactly the bytes they should, for every
  length of the busy phases and every pace of the bus.
\<close>

unbundle bit_operations_syntax

subsection \<open>The chip\<close>

text \<open>
  A frame: the chip is selected, bytes are exchanged, the chip is released.
\<close>

definition frame :: "'d slave \<Rightarrow> bytes \<Rightarrow> 'd \<Rightarrow> bytes \<times> 'd" where
  "frame S bs d = (let (rs, d1) = exchange S True bs (sl_select S d) in (rs, sl_release S d1))"

definition addr_of :: "u8 \<Rightarrow> u8 \<Rightarrow> u8 \<Rightarrow> int" where
  "addr_of a2 a1 a0 = uint a2 * 65536 + uint a1 * 256 + uint a0"

text \<open>A chip: its bus interface, and how its memory, its write-enable latch and the number of status
  reads for which it stays busy are read off its state.\<close>

record 'd chip =
  ch_bus :: "'d slave"
  ch_mem :: "'d \<Rightarrow> int \<Rightarrow> u8"
  ch_busy :: "'d \<Rightarrow> nat"
  ch_wel :: "'d \<Rightarrow> bool"
  ch_size :: int
  ch_sector :: int

definition program_mem :: "int \<Rightarrow> bytes \<Rightarrow> (int \<Rightarrow> u8) \<Rightarrow> int \<Rightarrow> u8" where
  "program_mem a bs m x = (if a \<le> x \<and> x < a + int (length bs) then m x AND bs ! nat (x - a) else m x)"

definition erase_mem :: "int \<Rightarrow> int \<Rightarrow> (int \<Rightarrow> u8) \<Rightarrow> int \<Rightarrow> u8" where
  "erase_mem sector a m x = (if x div sector = a div sector then 0xFF else m x)"

definition read_mem :: "(int \<Rightarrow> u8) \<Rightarrow> int \<Rightarrow> nat \<Rightarrow> bytes" where
  "read_mem m a n = map (\<lambda>i. m (a + int i)) [0..<n]"

text \<open>
  What the data sheet says of the frames the driver sends: read status, write enable, sector erase,
  page program (within a page) and read bytes.
\<close>

definition status_ok :: "'d chip \<Rightarrow> u8 \<Rightarrow> 'd \<Rightarrow> bytes \<times> 'd \<Rightarrow> bool" where
  "status_ok C x d = (\<lambda>(rs, d'). (rs ! 1 AND 1 \<noteq> 0) = (0 < ch_busy C d) \<and> ch_mem C d' = ch_mem C d \<and>
     ch_busy C d' = ch_busy C d - 1 \<and> ch_wel C d' = ch_wel C d)"

definition write_enable_ok :: "'d chip \<Rightarrow> 'd \<Rightarrow> bytes \<times> 'd \<Rightarrow> bool" where
  "write_enable_ok C d = (\<lambda>(rs, d'). ch_busy C d = 0 \<longrightarrow>
     ch_mem C d' = ch_mem C d \<and> ch_busy C d' = 0 \<and> ch_wel C d')"

definition sector_erase_ok :: "'d chip \<Rightarrow> int \<Rightarrow> 'd \<Rightarrow> bytes \<times> 'd \<Rightarrow> bool" where
  "sector_erase_ok C a d = (\<lambda>(rs, d'). ch_busy C d = 0 \<and> ch_wel C d \<and> a < ch_size C \<longrightarrow>
     ch_mem C d' = erase_mem (ch_sector C) a (ch_mem C d))"

definition page_program_ok :: "'d chip \<Rightarrow> int \<Rightarrow> bytes \<Rightarrow> 'd \<Rightarrow> bytes \<times> 'd \<Rightarrow> bool" where
  "page_program_ok C a bs d = (\<lambda>(rs, d'). ch_busy C d = 0 \<and> ch_wel C d \<and> bs \<noteq> [] \<and>
     a mod 256 + int (length bs) \<le> 256 \<and> a + int (length bs) \<le> ch_size C \<longrightarrow>
     ch_mem C d' = program_mem a bs (ch_mem C d))"

definition read_bytes_ok :: "'d chip \<Rightarrow> int \<Rightarrow> nat \<Rightarrow> 'd \<Rightarrow> bytes \<times> 'd \<Rightarrow> bool" where
  "read_bytes_ok C a n d = (\<lambda>(rs, d'). ch_busy C d = 0 \<and> a + int n \<le> ch_size C \<longrightarrow>
     drop 4 rs = read_mem (ch_mem C d) a n \<and> ch_mem C d' = ch_mem C d \<and> ch_busy C d' = 0)"

definition epcs_chip :: "'d chip \<Rightarrow> bool" where
  "epcs_chip C \<longleftrightarrow>
     (\<forall>x d. status_ok C x d (frame (ch_bus C) [0x05, x] d)) \<and>
     (\<forall>d. write_enable_ok C d (frame (ch_bus C) [0x06] d)) \<and>
     (\<forall>a2 a1 a0 d. sector_erase_ok C (addr_of a2 a1 a0) d (frame (ch_bus C) [0xD8, a2, a1, a0] d)) \<and>
     (\<forall>a2 a1 a0 bs d. page_program_ok C (addr_of a2 a1 a0) bs d (frame (ch_bus C) ([0x02, a2, a1, a0] @ bs) d)) \<and>
     (\<forall>a2 a1 a0 n d. read_bytes_ok C (addr_of a2 a1 a0) n d (frame (ch_bus C) ([0x03, a2, a1, a0] @ replicate n 0) d))"

text \<open>Between the driver's operations the controller and the chip are at rest.\<close>

definition chip_at :: "'d chip \<Rightarrow> (int \<Rightarrow> u8) \<Rightarrow> 'd spi_hw \<Rightarrow> bool" where
  "chip_at C m hw \<longleftrightarrow> (\<exists>d. spi_at False d hw \<and> ch_mem C d = m \<and> ch_busy C d = 0)"

lemma addr24_split:
  assumes "0 \<le> (off :: int)" "off < 2 ^ 24"
  shows "off div 65536 mod 256 * 65536 + off div 256 mod 256 * 256 + off mod 256 = off"
proof -
  have "0 \<le> off div 65536" "off div 65536 < 256" using assms by auto
  then have m: "off div 65536 mod 256 = off div 65536" by (rule mod_pos_pos_trivial)
  have d: "off div 65536 = off div 256 div 256" by (simp add: zdiv_zmult2_eq [symmetric])
  have "off div 65536 mod 256 * 65536 = off div 256 div 256 * 256 * 256"
    unfolding m unfolding d by simp
  then have "off div 65536 mod 256 * 65536 + off div 256 mod 256 * 256 =
      (off div 256 div 256 * 256 + off div 256 mod 256) * 256" by (simp only: distrib_right)
  then show ?thesis by (simp only: div_mult_mod_eq)
qed

lemma addr24_addr:
  assumes "0 \<le> off" "off < 2 ^ 24"
  obtains a2 a1 a0 where "addr24 off = [a2, a1, a0]" "addr_of a2 a1 a0 = off"
proof
  have u: "uint (of_int k :: u8) = k mod 256" for k
    by (simp add: uint_word_of_int_eq take_bit_eq_mod)
  show "addr_of (of_int (off div 65536)) (of_int (off div 256)) (of_int off) = off"
    using addr24_split [OF assms] unfolding addr_of_def u .
  show "addr24 off = [of_int (off div 65536), of_int (off div 256), of_int off]"
    by (simp add: addr24_def drop_bit_eq_div)
qed

lemma length_frame:
  assumes "frame S bs d = (rs, d')"
  shows "length rs = length bs"
proof -
  have "rs = fst (exchange S True bs (sl_select S d))" using assms by (auto simp: frame_def split: prod.splits)
  then show ?thesis by simp
qed

lemma epcs_chipD:
  assumes "epcs_chip C"
  shows "status_ok C x d (frame (ch_bus C) [0x05, x] d)"
    "write_enable_ok C d (frame (ch_bus C) [0x06] d)"
    "sector_erase_ok C (addr_of a2 a1 a0) d (frame (ch_bus C) [0xD8, a2, a1, a0] d)"
    "page_program_ok C (addr_of a2 a1 a0) bs d (frame (ch_bus C) ([0x02, a2, a1, a0] @ bs) d)"
    "read_bytes_ok C (addr_of a2 a1 a0) n d (frame (ch_bus C) ([0x03, a2, a1, a0] @ replicate n 0) d)"
  using assms by (simp_all only: epcs_chip_def)

subsection \<open>Commands\<close>

lemma epcs_command_frame:
  assumes "spi_at False d hw" "cmd @ replicate n 0 \<noteq> []" "frame S (cmd @ replicate n 0) d = (rs, d')"
  shows "ends (epcs_command S cmd n 0 hw) (\<lambda>(rd, hw'). rd = drop (length cmd) rs \<and> spi_at False d' hw')"
proof -
  obtain d2 where x: "exchange S True (cmd @ replicate n 0) (sl_select S d) = (rs, d2)" "sl_release S d2 = d'"
    using assms(3) by (auto simp: frame_def split: prod.splits)
  have "before_command S 0 False d = (True, sl_select S d)" "after_command S 0 (True, d2) = (False, d')"
    using x(2) by (simp_all add: before_command_def after_command_def)
  from spi_command_ends [OF assms(1,2) this(1) x(1) this(2)] show ?thesis unfolding epcs_command_def .
qed

text \<open>Two transactions, the first of which keeps the chip selected, are one frame.\<close>

lemma epcs_command_merged:
  assumes "spi_at False d hw" "cmd \<noteq> []" "src \<noteq> []" "frame S (cmd @ src) d = (rs, d')"
  shows "ends (epcs_command S cmd 0 ALT_AVALON_SPI_COMMAND_MERGE hw) (\<lambda>(_, hw1).
    ends (epcs_command S src 0 0 hw1) (\<lambda>(_, hw2). spi_at False d' hw2))"
proof -
  obtain rs1 d1 where x1: "exchange S True (cmd @ replicate 0 0) (sl_select S d) = (rs1, d1)" by force
  obtain rs2 d2 where x2: "exchange S True (src @ replicate 0 0) d1 = (rs2, d2)" by force
  have d': "d' = sl_release S d2"
    using assms(4) x1 x2 by (auto simp: frame_def exchange_append split: prod.splits)
  have c: "before_command S ALT_AVALON_SPI_COMMAND_MERGE False d = (True, sl_select S d)"
      "after_command S ALT_AVALON_SPI_COMMAND_MERGE (True, d1) = (True, d1)"
      "before_command S 0 True d1 = (True, d1)" "after_command S 0 (True, d2) = (False, d')"
    by (simp_all add: before_command_def after_command_def d' ALT_AVALON_SPI_COMMAND_MERGE_def
        ALT_AVALON_SPI_COMMAND_TOGGLE_SS_N_def)
  have second: "ends (epcs_command S src 0 0 hw1) (\<lambda>(_, hw2). spi_at False d' hw2)" if "spi_at True d1 hw1" for hw1
    using spi_command_ends [OF that _ c(3) x2 c(4), of 0] assms(3) unfolding epcs_command_def
    by (auto elim!: ends_weaken)
  have "ends (epcs_command S cmd 0 ALT_AVALON_SPI_COMMAND_MERGE hw) (\<lambda>(rd, hw1). spi_at True d1 hw1)"
    using spi_command_ends [OF assms(1) _ c(1) x1 c(2), of 0] assms(2) unfolding epcs_command_def
    by (auto elim!: ends_weaken)
  then show ?thesis using second by (auto elim!: ends_weaken)
qed

lemma test_wip:
  assumes "epcs_chip C" "spi_at False d hw"
  shows "ends (epcs_test_wip (ch_bus C) hw) (\<lambda>(b, hw'). b = (0 < ch_busy C d) \<and>
    (\<exists>d'. spi_at False d' hw' \<and> ch_mem C d' = ch_mem C d \<and> ch_busy C d' = ch_busy C d - 1 \<and> ch_wel C d' = ch_wel C d))"
proof -
  obtain rs d' where f: "frame (ch_bus C) ([0x05] @ replicate 1 0) d = (rs, d')" by force
  then have d': "(rs ! 1 AND 1 \<noteq> 0) = (0 < ch_busy C d)" "ch_mem C d' = ch_mem C d"
      "ch_busy C d' = ch_busy C d - 1" "ch_wel C d' = ch_wel C d"
    using epcs_chipD(1) [OF assms(1), of 0 d] by (simp_all add: status_ok_def)
  obtain hw' where hw': "epcs_command (ch_bus C) [0x05] 1 0 hw = Some (drop 1 rs, hw')" "spi_at False d' hw'"
    using epcs_command_frame [OF assms(2) _ f] by (auto simp: ends_def)
  have "length rs = 2" using length_frame [OF f] by simp
  then have "hd (drop 1 rs) = rs ! 1" by (simp add: hd_drop_conv_nth)
  with hw' d' show ?thesis
    by (auto simp: epcs_test_wip_def epcs_read_status_register_def)
qed

lemma await_wip:
  assumes "epcs_chip C" "spi_at False d hw"
  shows "ends (epcs_await_wip_released (ch_bus C) hw) (\<lambda>hw'.
    \<exists>d'. spi_at False d' hw' \<and> ch_mem C d' = ch_mem C d \<and> ch_busy C d' = 0 \<and> ch_wel C d' = ch_wel C d)"
  using assms(2)
proof (induction "ch_busy C d" arbitrary: d hw)
  case 0
  then show ?case
    using test_wip [OF assms(1) 0(2)] by (subst epcs_await_wip_released.simps) (auto simp: ends_def)
next
  case (Suc n)
  obtain hw1 d1 where 1: "epcs_test_wip (ch_bus C) hw = Some (True, hw1)" "spi_at False d1 hw1"
      "ch_mem C d1 = ch_mem C d" "ch_busy C d1 = n" "ch_wel C d1 = ch_wel C d"
    using test_wip [OF assms(1) Suc.prems] Suc.hyps(2) [symmetric] by (auto simp: ends_def)
  show ?case
    using Suc.hyps(1) [OF 1(4) [symmetric] 1(2)] 1(1,3,5) by (subst epcs_await_wip_released.simps) simp
qed

lemma write_enable:
  assumes "epcs_chip C" "chip_at C m hw"
  shows "ends (epcs_write_enable (ch_bus C) hw) (\<lambda>hw'.
    \<exists>d. spi_at False d hw' \<and> ch_mem C d = m \<and> ch_busy C d = 0 \<and> ch_wel C d)"
proof -
  obtain d where d: "spi_at False d hw" "ch_mem C d = m" "ch_busy C d = 0" using assms(2) by (auto simp: chip_at_def)
  obtain rs d' where f: "frame (ch_bus C) ([0x06] @ replicate 0 0) d = (rs, d')" by force
  have "ends (epcs_command (ch_bus C) [0x06] 0 0 hw) (\<lambda>(rd, hw'). rd = drop (length [0x06 :: u8]) rs \<and> spi_at False d' hw')"
    using d(1) _ f by (rule epcs_command_frame) simp
  moreover have "ch_mem C d' = m \<and> ch_busy C d' = 0 \<and> ch_wel C d'"
    using epcs_chipD(2) [OF assms(1), of d] f d by (simp add: write_enable_ok_def)
  ultimately show ?thesis by (auto simp: epcs_write_enable_def ends_def)
qed

lemma await_rest:
  assumes "epcs_chip C" "spi_at False d hw"
  shows "ends (epcs_await_wip_released (ch_bus C) hw) (chip_at C (ch_mem C d))"
  using await_wip [OF assms] by (elim ends_weaken) (auto simp: chip_at_def)

lemma sector_erase:
  assumes "epcs_chip C" "spi_at False d hw" "ch_busy C d = 0" "ch_wel C d" "0 \<le> off" "off < ch_size C" "ch_size C \<le> 2 ^ 24"
  shows "ends (epcs_sector_erase (ch_bus C) off hw) (chip_at C (erase_mem (ch_sector C) off (ch_mem C d)))"
proof -
  have "off < 2 ^ 24" using assms(6,7) by simp
  then obtain a2 a1 a0 where a: "addr24 off = [a2, a1, a0]" "addr_of a2 a1 a0 = off"
    using addr24_addr [OF assms(5)] by blast
  obtain rs d' where f: "frame (ch_bus C) ((0xD8 # addr24 off) @ replicate 0 0) d = (rs, d')" by force
  have m: "ch_mem C d' = erase_mem (ch_sector C) off (ch_mem C d)"
    using epcs_chipD(3) [OF assms(1), of a2 a1 a0 d] f a assms by (simp add: sector_erase_ok_def)
  have "ends (epcs_command (ch_bus C) (0xD8 # addr24 off) 0 0 hw)
      (\<lambda>(rd, hw'). rd = drop (length (0xD8 # addr24 off)) rs \<and> spi_at False d' hw')"
    using assms(2) _ f by (rule epcs_command_frame) simp
  then obtain rd hw1 where "epcs_command (ch_bus C) (0xD8 # addr24 off) 0 0 hw = Some (rd, hw1)" "spi_at False d' hw1"
    by (auto simp: ends_def)
  with await_rest [OF assms(1), of d' hw1] m show ?thesis by (simp add: epcs_sector_erase_def)
qed

lemma read_buffer:
  assumes "epcs_chip C" "chip_at C m hw" "0 \<le> off" "off < ch_size C" "off + int n \<le> ch_size C" "ch_size C \<le> 2 ^ 24"
  shows "ends (epcs_read_buffer (ch_bus C) off n hw) (\<lambda>(r, rd, hw'). r = int n \<and> rd = read_mem m off n \<and> chip_at C m hw')"
proof -
  obtain d0 where d0: "spi_at False d0 hw" "ch_mem C d0 = m" using assms(2) by (auto simp: chip_at_def)
  then obtain hw1 d where d: "epcs_await_wip_released (ch_bus C) hw = Some hw1" "spi_at False d hw1" "ch_mem C d = m" "ch_busy C d = 0"
    using await_rest [OF assms(1) d0(1)] by (auto simp: ends_def chip_at_def)
  have "off < 2 ^ 24" using assms(4,6) by simp
  then obtain a2 a1 a0 where a: "addr24 off = [a2, a1, a0]" "addr_of a2 a1 a0 = off"
    using addr24_addr [OF assms(3)] by blast
  obtain rs d' where f: "frame (ch_bus C) ((0x03 # addr24 off) @ replicate n 0) d = (rs, d')" by force
  have m: "drop 4 rs = read_mem m off n" "ch_mem C d' = m" "ch_busy C d' = 0"
    using epcs_chipD(5) [OF assms(1), of a2 a1 a0 n d] f a assms(5) d by (simp_all add: read_bytes_ok_def)
  have "ends (epcs_command (ch_bus C) (0x03 # addr24 off) n 0 hw1)
      (\<lambda>(rd, hw'). rd = drop (length (0x03 # addr24 off)) rs \<and> spi_at False d' hw')"
    using d(2) _ f by (rule epcs_command_frame) simp
  then obtain hw2 where "epcs_command (ch_bus C) (0x03 # addr24 off) n 0 hw1 = Some (drop 4 rs, hw2)" "spi_at False d' hw2"
    by (auto simp: ends_def a numeral_eq_Suc)
  with d(1) m show ?thesis by (auto simp: epcs_read_buffer_def chip_at_def)
qed

lemma write_buffer:
  assumes "epcs_chip C" "chip_at C m hw" "0 \<le> off" "off + int (length src) \<le> ch_size C" "ch_size C \<le> 2 ^ 24"
    and "src \<noteq> []" "off mod 256 + int (length src) \<le> 256"
  shows "ends (epcs_write_buffer (ch_bus C) off src hw) (\<lambda>(r, hw'). chip_at C (program_mem off src m) hw')"
proof -
  obtain hw1 d where d: "epcs_write_enable (ch_bus C) hw = Some hw1" "spi_at False d hw1" "ch_mem C d = m" "ch_busy C d = 0" "ch_wel C d"
    using write_enable [OF assms(1,2)] by (auto simp: ends_def)
  have "off < 2 ^ 24" using assms(4-6) by (cases src) auto
  then obtain a2 a1 a0 where a: "addr24 off = [a2, a1, a0]" "addr_of a2 a1 a0 = off"
    using addr24_addr [OF assms(3)] by blast
  obtain rs d' where f: "frame (ch_bus C) ((0x02 # addr24 off) @ src) d = (rs, d')" by force
  have m: "ch_mem C d' = program_mem off src m"
    using epcs_chipD(4) [OF assms(1), of a2 a1 a0 src d] f a assms(4,6,7) d by (simp add: page_program_ok_def)
  have "ends (epcs_command (ch_bus C) (0x02 # addr24 off) 0 ALT_AVALON_SPI_COMMAND_MERGE hw1) (\<lambda>(_, hw1).
      ends (epcs_command (ch_bus C) src 0 0 hw1) (\<lambda>(_, hw2). spi_at False d' hw2))"
    using d(2) _ assms(6) f by (rule epcs_command_merged) simp
  then obtain rd2 hw2 rd3 hw3 where
    c: "epcs_command (ch_bus C) (0x02 # addr24 off) 0 ALT_AVALON_SPI_COMMAND_MERGE hw1 = Some (rd2, hw2)"
      "epcs_command (ch_bus C) src 0 0 hw2 = Some (rd3, hw3)" "spi_at False d' hw3"
    by (auto simp: ends_def)
  obtain hw4 where "epcs_await_wip_released (ch_bus C) hw3 = Some hw4" "chip_at C (program_mem off src m) hw4"
    using await_rest [OF assms(1) c(3)] m by (auto simp: ends_def)
  with d(1) c(1,2) show ?thesis by (simp add: epcs_write_buffer_def)
qed

subsection \<open>Reading and comparing\<close>

text \<open>The driver's idea of the geometry is the chip's.\<close>

definition geometry_ok :: "'d chip \<Rightarrow> alt_flash_epcs_dev \<Rightarrow> bool" where
  "geometry_ok C f \<longleftrightarrow> number_of_regions f = 1 \<and> region_info f \<noteq> [] \<and>
     fr_offset (hd (region_info f)) = 0 \<and> region_size (hd (region_info f)) = ch_size C \<and>
     block_size (hd (region_info f)) = ch_sector C \<and>
     number_of_blocks (hd (region_info f)) * ch_sector C = ch_size C \<and>
     page_size f = 256 \<and> 0 < ch_sector C \<and> 0 < ch_size C \<and> ch_size C \<le> 2 ^ 24"

lemma geometry_okD:
  assumes "geometry_ok C f"
  shows "ch_size C \<le> 2 ^ 24" "page_size f = 256" "0 < ch_sector C" "0 < ch_size C"
    "regions f = [hd (region_info f)]" "region_info f ! nat (number_of_regions f - 1) = hd (region_info f)"
  using assms by (cases "region_info f"; simp add: geometry_ok_def regions_def)+

lemma uint_of_int_u32: "0 \<le> k \<Longrightarrow> k < 2 ^ 32 \<Longrightarrow> uint (of_int k :: u32) = k"
  by (simp add: uint_word_of_int_eq take_bit_int_eq_self)

lemma test_address:
  assumes "geometry_ok C f" "0 \<le> off" "off < 2 ^ 31"
  shows "alt_epcs_test_address f off = (if off < ch_size C then 0 else - EIO)"
proof -
  have size: "0 < ch_size C" "ch_size C \<le> 2 ^ 24" and r: "fr_offset (hd (region_info f)) = 0" "region_size (hd (region_info f)) = ch_size C"
    using assms(1) by (simp_all add: geometry_ok_def)
  have "uint (of_int off :: u32) = off" using assms(2,3) by (intro uint_of_int_u32) auto
  moreover have "uint (of_int (ch_size C - 1) :: u32) = ch_size C - 1" by (rule uint_of_int_u32) (use size in auto)
  ultimately have "(of_int (ch_size C - 1) :: u32) < of_int off \<longleftrightarrow> \<not> off < ch_size C"
    by (simp only: word_less_def) linarith
  then show ?thesis
    using geometry_okD(6) [OF assms(1)] r
    by (simp only: alt_epcs_test_address_def Let_def add_0_right) simp
qed

lemma flash_read:
  assumes "epcs_chip C" "geometry_ok C f" "chip_at C m hw" "0 \<le> off" "off < ch_size C" "off + int n \<le> ch_size C"
  shows "ends (alt_epcs_flash_read (ch_bus C) f off n hw) (\<lambda>(r, rd, hw'). r = 0 \<and> rd = read_mem m off n \<and> chip_at C m hw')"
proof -
  have "off < 2 ^ 31" using assms(5) geometry_okD(1) [OF assms(2)] by simp
  then have t: "alt_epcs_test_address f off = 0" using test_address [OF assms(2,4)] assms(5) by simp
  show ?thesis
    using read_buffer [OF assms(1,3-6) geometry_okD(1) [OF assms(2)]]
    by (auto simp: alt_epcs_flash_read_def t ends_def)
qed

lemma memcmp_eq: "length xs = length ys \<Longrightarrow> memcmp xs ys = 0 \<longleftrightarrow> xs = ys"
  by (induction xs ys rule: list_induct2) (auto dest: unsigned_word_eqI)

lemma length_read_mem [simp]: "length (read_mem m a n) = n"
  by (simp add: read_mem_def)

lemma read_mem_add: "read_mem m a (j + k) = read_mem m a j @ read_mem m (a + int j) k"
proof -
  have "[0..<j + k] = [0..<j] @ map (\<lambda>i. i + j) [0..<k]"
    using upt_add_eq_append [of 0 j k] map_add_upt [of j k] by (simp add: add.commute)
  then show ?thesis by (simp add: read_mem_def o_def ac_simps)
qed

lemma take_drop_add: "take (j + k) (drop c xs) = take j (drop c xs) @ take k (drop (c + j) xs)"
  by (simp add: take_add add.commute)

lemma memcmp_loop_ends:
  assumes "epcs_chip C" "geometry_ok C f" "chip_at C m hw" "0 \<le> off" "off + int (cur + n) \<le> ch_size C" "cur + n \<le> length src"
  shows "ends (memcmp_loop (ch_bus C) f src off n cur hw) (\<lambda>(c, hw').
    (c = 0) = (take n (drop cur src) = read_mem m (off + int cur) n) \<and> chip_at C m hw')"
  using assms(3,5,6)
proof (induction n arbitrary: cur hw rule: less_induct)
  case (less n)
  show ?case
  proof (cases "n = 0")
    case True
    then show ?thesis using less.prems by (subst memcmp_loop.simps) (simp add: read_mem_def)
  next
    case False
    define k where "k = (if n > 32 then 32 else n)"
    have k: "0 < k" "k \<le> n" using False by (auto simp: k_def)
    then obtain j where j: "n = k + j" using le_Suc_ex by blast
    obtain hw1 where r: "alt_epcs_flash_read (ch_bus C) f (off + int cur) k hw = Some (0, read_mem m (off + int cur) k, hw1)"
        "chip_at C m hw1"
      using flash_read [OF assms(1,2) less.prems(1), of "off + int cur" k] assms(4) less.prems(2) k
      by (auto simp: ends_def)
    let ?chunk = "take k (drop cur src)"
    have cmp: "memcmp ?chunk (read_mem m (off + int cur) k) = 0 \<longleftrightarrow> ?chunk = read_mem m (off + int cur) k"
      using less.prems(3) k by (intro memcmp_eq) simp
    have all: "take n (drop cur src) = read_mem m (off + int cur) n \<longleftrightarrow>
        ?chunk = read_mem m (off + int cur) k \<and> take j (drop (cur + k) src) = read_mem m (off + int (cur + k)) j"
      unfolding j take_drop_add read_mem_add using less.prems(3) k j by (simp add: add.assoc)
    have step: "memcmp_loop (ch_bus C) f src off n cur hw =
        (if memcmp ?chunk (read_mem m (off + int cur) k) \<noteq> 0
         then Some (memcmp ?chunk (read_mem m (off + int cur) k), hw1)
         else memcmp_loop (ch_bus C) f src off j (cur + k) hw1)"
    proof -
      have "n - k = j" using j by simp
      then show ?thesis
        using False r(1) by (simp only: memcmp_loop.simps [of "ch_bus C" f src off n] k_def [symmetric] Let_def) simp
    qed
    have "ends (memcmp_loop (ch_bus C) f src off j (cur + k) hw1) (\<lambda>(c, hw').
        (c = 0) = (take j (drop (cur + k) src) = read_mem m (off + int (cur + k)) j) \<and> chip_at C m hw')"
      using j k r(2) less.prems(2,3) by (intro less.IH) auto
    then show ?thesis
      unfolding step all by (auto simp: cmp r(2) elim!: ends_weaken)
  qed
qed

lemma flash_memcmp:
  assumes "epcs_chip C" "geometry_ok C f" "chip_at C m hw" "0 \<le> off" "off + int (length src) \<le> ch_size C"
  shows "ends (alt_epcs_flash_memcmp (ch_bus C) f src off (length src) hw) (\<lambda>(c, hw').
    (c = 0) = (src = read_mem m off (length src)) \<and> chip_at C m hw')"
  using memcmp_loop_ends [OF assms(1-4), of 0 "length src" src] assms(5) by (simp add: alt_epcs_flash_memcmp_def)

subsection \<open>Writing\<close>

lemma program_mem_append:
  "program_mem (a + int (length xs)) ys (program_mem a xs m) = program_mem a (xs @ ys) m"
proof (rule ext)
  fix x
  have "nat (x - (a + int (length xs))) = nat (x - a) - length xs" by simp
  then show "program_mem (a + int (length xs)) ys (program_mem a xs m) x = program_mem a (xs @ ys) m x"
    by (auto simp: program_mem_def nth_append nat_less_iff)
qed

lemma program_mem_Nil [simp]: "program_mem a [] m = m"
  by (rule ext) (auto simp: program_mem_def)

lemma program_mem_same: "bs = read_mem m a (length bs) \<Longrightarrow> program_mem a bs m = m"
proof (rule ext)
  fix x assume bs: "bs = read_mem m a (length bs)"
  have "bs ! nat (x - a) = m x" if "a \<le> x" "x < a + int (length bs)"
  proof -
    have "nat (x - a) < length bs" "a + int (nat (x - a)) = x" using that by auto
    then show ?thesis by (subst bs) (simp add: read_mem_def)
  qed
  then show "program_mem a bs m x = m x" by (simp add: program_mem_def)
qed

lemma read_program_mem: "read_mem (program_mem a bs m) a (length bs) = map2 (AND) (read_mem m a (length bs)) bs"
  by (rule nth_equalityI) (auto simp: read_mem_def program_mem_def)

lemma page_start: "(x :: int) AND NOT 255 = x div 256 * 256"
proof -
  have "x AND NOT (mask 8) = push_bit 8 (drop_bit 8 x)"
    by (rule bit_eqI) (auto simp: bit_simps)
  then show ?thesis by (simp add: mask_numeral push_bit_eq_mult drop_bit_eq_div)
qed

lemma write_pages_ends:
  assumes "epcs_chip C" "ch_size C \<le> 2 ^ 24" "chip_at C m hw" "0 \<le> off" "off + int (length data) \<le> ch_size C"
  shows "ends (write_pages (ch_bus C) 256 off data hw) (chip_at C (program_mem off data m))"
  using assms(3-5)
proof (induction "length data" arbitrary: data off m hw rule: less_induct)
  case less
  show ?case
  proof (cases "data = []")
    case True
    then show ?thesis using less.prems by (subst write_pages.simps) simp
  next
    case False
    define nxt where "nxt = (off + 256) AND NOT (256 - 1)"
    define k where "k = nat (min (int (length data)) (nxt - off))"
    have nxt: "nxt = off + (256 - off mod 256)"
    proof -
      have "(off + 256) div 256 = off div 256 + 1" by simp
      then have "(off + 256) div 256 * 256 = off div 256 * 256 + 256" by linarith
      moreover have "nxt = (off + 256) div 256 * 256" using page_start [of "off + 256"] by (simp add: nxt_def)
      ultimately show ?thesis using minus_mod_eq_div_mult [of off 256] by linarith
    qed
    have m: "0 \<le> off mod 256" "off mod 256 < 256" by simp_all
    have k: "0 < k" "k \<le> length data" "off mod 256 + int k \<le> 256" "k < length data \<longrightarrow> nxt = off + int k"
      using False m nxt by (auto simp: k_def)
    let ?piece = "take k data"
    have len: "length ?piece = k" using k(2) by simp
    obtain r hw1 where w: "epcs_write_buffer (ch_bus C) off ?piece hw = Some (r, hw1)"
        "chip_at C (program_mem off ?piece m) hw1"
      using write_buffer [OF assms(1) less.prems(1,2) _ assms(2), of ?piece] less.prems(3) k False
      by (auto simp: ends_def)
    have step: "write_pages (ch_bus C) 256 off data hw = write_pages (ch_bus C) 256 nxt (drop k data) hw1"
      using False w(1) by (subst write_pages.simps) (simp only: nxt_def [symmetric] k_def [symmetric] Let_def, simp)
    show ?thesis
    proof (cases "k = length data")
      case True
      then show ?thesis using w(2) unfolding step by (subst write_pages.simps) simp
    next
      case False
      then have n: "nxt = off + int k" using k by simp
      have "ends (write_pages (ch_bus C) 256 nxt (drop k data) hw1)
          (chip_at C (program_mem nxt (drop k data) (program_mem off ?piece m)))"
        using k n less.prems w(2) by (intro less.hyps) auto
      moreover have "program_mem nxt (drop k data) (program_mem off ?piece m) = program_mem off data m"
        using program_mem_append [of off ?piece "drop k data" m] len by (simp add: n)
      ultimately show ?thesis unfolding step by simp
    qed
  qed
qed

lemma write_block:
  assumes "epcs_chip C" "geometry_ok C f" "chip_at C m hw" "0 \<le> off" "off < ch_size C" "off + int (length data) \<le> ch_size C"
  shows "ends (alt_epcs_flash_write_block (ch_bus C) f b off data hw) (\<lambda>(r, hw'). r = 0 \<and> chip_at C (program_mem off data m) hw')"
proof -
  have "off < 2 ^ 31" using assms(5) geometry_okD(1) [OF assms(2)] by simp
  then have t: "alt_epcs_test_address f off = 0" using test_address [OF assms(2,4)] assms(5) by simp
  show ?thesis
    using write_pages_ends [OF assms(1) geometry_okD(1) [OF assms(2)] assms(3,4,6)] geometry_okD(2) [OF assms(2)]
    by (auto simp: alt_epcs_flash_write_block_def t ends_def)
qed

lemma erase_block:
  assumes "epcs_chip C" "geometry_ok C f" "chip_at C m hw" "0 \<le> off" "off < ch_size C"
  shows "ends (alt_epcs_flash_erase_block (ch_bus C) f off hw) (\<lambda>(r, hw'). r = 0 \<and> chip_at C (erase_mem (ch_sector C) off m) hw')"
proof -
  have "off < 2 ^ 31" using assms(5) geometry_okD(1) [OF assms(2)] by simp
  then have t: "alt_epcs_test_address f off = 0" using test_address [OF assms(2,4)] assms(5) by simp
  obtain hw1 d where d: "epcs_write_enable (ch_bus C) hw = Some hw1" "spi_at False d hw1" "ch_mem C d = m" "ch_busy C d = 0" "ch_wel C d"
    using write_enable [OF assms(1,3)] by (auto simp: ends_def)
  show ?thesis
    using sector_erase [OF assms(1) d(2,4,5) assms(4,5) geometry_okD(1) [OF assms(2)]] d(1,3)
    by (auto simp: alt_epcs_flash_erase_block_def t ends_def)
qed

lemma write_if_different_ends:
  assumes "epcs_chip C" "geometry_ok C f" "chip_at C m hw" "0 \<le> off" "off < ch_size C" "off + int (length data) \<le> ch_size C"
  shows "ends (write_if_different (ch_bus C) f b off data hw) (\<lambda>(r, hw'). r = 0 \<and> chip_at C (program_mem off data m) hw')"
proof -
  obtain c hw1 where c: "alt_epcs_flash_memcmp (ch_bus C) f data off (length data) hw = Some (c, hw1)"
      "(c = 0) = (data = read_mem m off (length data))" "chip_at C m hw1"
    using flash_memcmp [OF assms(1-4,6)] by (auto simp: ends_def)
  show ?thesis
  proof (cases "c = 0")
    case True
    then have "program_mem off data m = m" using c(2) by (intro program_mem_same) simp
    then show ?thesis using True c by (simp add: write_if_different_def)
  next
    case False
    then show ?thesis using write_block [OF assms(1,2) c(3) assms(4-6)] c(1) by (simp add: write_if_different_def)
  qed
qed

subsection \<open>Blocks\<close>

text \<open>
  The loop over the blocks, for any action on a block whose effect \<open>T\<close> on the memory composes at
  block boundaries.
\<close>

lemma write_blocks_ends:
  assumes act: "\<And>cur off data m hw. at m hw \<Longrightarrow> 0 \<le> cur \<Longrightarrow> cur mod bs = 0 \<Longrightarrow> cur \<le> off \<Longrightarrow> data \<noteq> [] \<Longrightarrow>
      off + int (length data) \<le> cur + bs \<Longrightarrow> off + int (length data) \<le> sz \<Longrightarrow>
      ends (act cur off data hw) (\<lambda>(r, hw'). r = 0 \<and> (\<exists>m'. T off data m m' \<and> at m' hw'))"
    and comp: "\<And>off xs ys m m1 m2. T off xs m m1 \<Longrightarrow> T (off + int (length xs)) ys m1 m2 \<Longrightarrow> xs \<noteq> [] \<Longrightarrow> ys \<noteq> [] \<Longrightarrow>
      (off + int (length xs)) mod bs = 0 \<Longrightarrow> T off (xs @ ys) m m2"
    and "0 < bs" "at m hw" "0 \<le> cur" "cur mod bs = 0" "cur \<le> off" "data \<noteq> []"
    and "off + int (length data) \<le> sz" "sz = cur + int j * bs"
  shows "ends (write_blocks act bs j cur off data hw) (\<lambda>(r, hw'). r = Finished 0 \<and> (\<exists>m'. T off data m m' \<and> at m' hw'))"
  using assms(4-10)
proof (induction j arbitrary: cur off data m hw)
  case 0
  then show ?case by (cases data) auto
next
  case (Suc j)
  note prems = Suc.prems
  have nxt: "sz = (cur + bs) + int j * bs" "(cur + bs) mod bs = 0" "0 \<le> cur + bs"
    using prems(2,3,7) assms(3) by (simp_all add: algebra_simps)
  show ?case
  proof (cases "off < cur + bs")
    case False
    then have "ends (write_blocks act bs j (cur + bs) off data hw) (\<lambda>(r, hw'). r = Finished 0 \<and> (\<exists>m'. T off data m m' \<and> at m' hw'))"
      using prems nxt by (intro Suc.IH) auto
    then show ?thesis using False by simp
  next
    case True
    define k where "k = nat (min (cur + bs - off) (int (length data)))"
    have k: "0 < k" "k \<le> length data" "off + int k \<le> cur + bs" "k < length data \<longrightarrow> off + int k = cur + bs"
      using True prems(5) by (auto simp: k_def)
    have len: "length (take k data) = k" using k by simp
    have ends: "ends (act cur off (take k data) hw) (\<lambda>(r, hw'). r = 0 \<and> (\<exists>m'. T off (take k data) m m' \<and> at m' hw'))"
      using prems k by (intro act) auto
    then obtain m1 hw1 where a: "act cur off (take k data) hw = Some (0, hw1)" "T off (take k data) m m1" "at m1 hw1"
      by (auto simp: ends_def)
    have step: "write_blocks act bs (Suc j) cur off data hw =
        (if length data = k then Some (Finished 0, hw1)
         else write_blocks act bs j (cur + bs) (cur + bs) (drop k data) hw1)"
      using True prems(4) a(1) by (simp add: k_def [symmetric] Let_def)
    show ?thesis
    proof (cases "length data = k")
      case True
      then show ?thesis using a step by auto
    next
      case False
      then have eq: "off + int (length (take k data)) = cur + bs" using k len by simp
      have "ends (write_blocks act bs j (cur + bs) (cur + bs) (drop k data) hw1)
          (\<lambda>(r, hw'). r = Finished 0 \<and> (\<exists>m'. T (cur + bs) (drop k data) m1 m' \<and> at m' hw'))"
        using prems nxt k False a(3) by (intro Suc.IH) auto
      moreover have "T off data m m'" if "T (cur + bs) (drop k data) m1 m'" for m'
        using comp [OF a(2), of "drop k data" m'] that eq nxt(2) k False prems(5) by simp
      ultimately show ?thesis unfolding step using False by (auto elim!: ends_weaken)
    qed
  qed
qed

lemma write_regions_ends:
  assumes "geometry_ok C f"
    and "ends (write_blocks act (ch_sector C) (nat (number_of_blocks (hd (region_info f)))) 0 off data hw) (\<lambda>(r, hw'). r = Finished 0 \<and> Q hw')"
    and "0 \<le> off" "off < ch_size C"
  shows "ends (write_regions act (regions f) off data hw) (\<lambda>(r, hw'). r = 0 \<and> Q hw')"
proof -
  have "fr_offset (hd (region_info f)) = 0" "region_size (hd (region_info f)) = ch_size C" "block_size (hd (region_info f)) = ch_sector C"
    using assms(1) by (simp_all add: geometry_ok_def)
  with assms(2-4) show ?thesis unfolding geometry_okD(5) [OF assms(1)] by (auto simp: ends_def)
qed

lemma geometry_blocks:
  assumes "geometry_ok C f"
  shows "ch_size C = 0 + int (nat (number_of_blocks (hd (region_info f)))) * ch_sector C"
proof -
  have "number_of_blocks (hd (region_info f)) * ch_sector C = ch_size C" "0 < ch_sector C" "0 < ch_size C"
    using assms by (simp_all add: geometry_ok_def)
  then have "0 < number_of_blocks (hd (region_info f))" by (metis zero_less_mult_pos2)
  with assms show ?thesis by (simp add: geometry_ok_def)
qed

lemma epcs_flash_write_ends:
  fixes hw :: "'a spi_hw"
  assumes "epcs_chip C" "geometry_ok C f" "chip_at C m hw" "0 \<le> off" "data \<noteq> []" "off + int (length data) \<le> ch_size C"
  shows "ends (epcs_flash_write (ch_bus C) f off data hw) (\<lambda>(r, hw'). r = 0 \<and> chip_at C (program_mem off data m) hw')"
proof -
  define T where "T off data m m' \<longleftrightarrow> m' = program_mem off data m" for off data and m m' :: "int \<Rightarrow> u8"
  have lt: "off < ch_size C" using assms(5,6) by (cases data) auto
  have "ends (write_blocks (write_if_different (ch_bus C) f) (ch_sector C) (nat (number_of_blocks (hd (region_info f)))) 0 off data hw)
      (\<lambda>(r, hw'). r = Finished 0 \<and> (\<exists>m'. T off data m m' \<and> chip_at C m' hw'))"
  proof (rule write_blocks_ends [where at = "chip_at C" and sz = "ch_size C"])
    fix cur off' and data' :: bytes and m' and hw' :: "'a spi_hw"
    assume "chip_at C m' hw'" "0 \<le> cur" "cur \<le> off'" "data' \<noteq> []" "off' + int (length data') \<le> ch_size C"
    then show "ends (write_if_different (ch_bus C) f cur off' data' hw') (\<lambda>(r, hw'). r = 0 \<and> (\<exists>m''. T off' data' m' m'' \<and> chip_at C m'' hw'))"
      using write_if_different_ends [OF assms(1,2), of m' hw' off' data' cur] by (cases data') (auto simp: T_def ends_def)
  next
    fix off' xs ys and m' m1 m2 :: "int \<Rightarrow> u8"
    assume "T off' xs m' m1" "T (off' + int (length xs)) ys m1 m2"
    then show "T off' (xs @ ys) m' m2" by (simp add: T_def program_mem_append)
  qed (use assms geometry_okD [OF assms(2)] geometry_blocks [OF assms(2)] in auto)
  from write_regions_ends [OF assms(2) this assms(4) lt] show ?thesis
    unfolding epcs_flash_write_def by (auto simp: T_def elim!: ends_weaken)
qed

text \<open>
  The effect of \<^verbatim>\<open>alt_epcs_flash_write\<close>: the data is in place; sectors that the data does not
  touch are as before; in the sectors it touches, a byte beside the data is as before or erased.
\<close>

definition rewritten :: "int \<Rightarrow> int \<Rightarrow> bytes \<Rightarrow> (int \<Rightarrow> u8) \<Rightarrow> (int \<Rightarrow> u8) \<Rightarrow> bool" where
  "rewritten sector off data m m' \<longleftrightarrow>
     (\<forall>x. if off \<le> x \<and> x < off + int (length data) then m' x = data ! nat (x - off)
          else if off div sector \<le> x div sector \<and> x div sector \<le> (off + int (length data) - 1) div sector
          then m' x = m x \<or> m' x = 0xFF else m' x = m x)"

lemma rewritten_append:
  assumes "rewritten sec off xs m m1" "rewritten sec (off + int (length xs)) ys m1 m2" "xs \<noteq> []" "ys \<noteq> []"
    and "(off + int (length xs)) mod sec = 0" "0 < sec"
  shows "rewritten sec off (xs @ ys) m m2"
proof -
  let ?mid = "off + int (length xs)"
  have q: "(?mid - 1) div sec = ?mid div sec - 1"
  proof -
    obtain q where "?mid = sec * q" using assms(5) by auto
    moreover from this have "(?mid - 1) div sec = q - 1"
      using assms(6) by (intro int_div_pos_eq [where r = "sec - 1"]) (auto simp: algebra_simps)
    ultimately show ?thesis using assms(6) by simp
  qed
  have below: "x < ?mid \<Longrightarrow> x div sec < ?mid div sec" for x
    using q zdiv_mono1 [of x "?mid - 1" sec] assms(6) by simp
  have above: "?mid \<le> x \<Longrightarrow> ?mid div sec \<le> x div sec" for x
    using zdiv_mono1 [of ?mid x sec] assms(6) by simp
  show ?thesis
    unfolding rewritten_def
  proof
    fix x
    have 1: "if off \<le> x \<and> x < ?mid then m1 x = xs ! nat (x - off)
          else if off div sec \<le> x div sec \<and> x div sec \<le> (?mid - 1) div sec
          then m1 x = m x \<or> m1 x = 0xFF else m1 x = m x"
      using assms(1) unfolding rewritten_def by (rule spec)
    have 2: "if ?mid \<le> x \<and> x < ?mid + int (length ys) then m2 x = ys ! nat (x - ?mid)
          else if ?mid div sec \<le> x div sec \<and> x div sec \<le> (?mid + int (length ys) - 1) div sec
          then m2 x = m1 x \<or> m2 x = 0xFF else m2 x = m1 x"
      using assms(2) unfolding rewritten_def by (rule spec)
    have len: "off + int (length (xs @ ys)) = ?mid + int (length ys)" by simp
    have order: "off \<le> ?mid - 1" "off div sec \<le> ?mid div sec" "?mid div sec \<le> (?mid + int (length ys) - 1) div sec"
      using assms(3,4,6) by (auto simp: Suc_le_eq zdiv_mono1 neq_Nil_conv)
    show "if off \<le> x \<and> x < off + int (length (xs @ ys)) then m2 x = (xs @ ys) ! nat (x - off)
          else if off div sec \<le> x div sec \<and> x div sec \<le> (off + int (length (xs @ ys)) - 1) div sec
          then m2 x = m x \<or> m2 x = 0xFF else m2 x = m x"
    proof (cases "x < ?mid")
      case True
      then have "m2 x = m1 x" using 2 below [of x] by (auto split: if_splits)
      then show ?thesis
        using 1 True below [of x] order q unfolding len by (auto simp: nth_append nat_less_iff split: if_splits)
    next
      case False
      then have "x div sec > (?mid - 1) div sec" using above [of x] q by simp
      then have "m1 x = m x" using 1 False by (auto split: if_splits)
      moreover have "nat (x - off) - length xs = nat (x - ?mid)" by simp
      ultimately show ?thesis
        using 2 False order above [of x] unfolding len by (auto simp: nth_append nat_less_iff split: if_splits)
    qed
  qed
qed

lemma in_block: "0 < sec \<Longrightarrow> cur mod sec = 0 \<Longrightarrow> x div sec = cur div sec \<longleftrightarrow> cur \<le> x \<and> x < cur + (sec :: int)"
proof -
  assume s: "0 < sec" "cur mod sec = 0"
  then obtain q where q: "cur = sec * q" by auto
  have "x div sec = q \<longleftrightarrow> sec * q \<le> x \<and> x < sec * q + sec"
  proof
    assume "x div sec = q"
    then show "sec * q \<le> x \<and> x < sec * q + sec"
      using mult_div_mod_eq [of sec x] pos_mod_bound [OF s(1), of x] pos_mod_sign [OF s(1), of x] by simp
  next
    assume "sec * q \<le> x \<and> x < sec * q + sec"
    then show "x div sec = q" by (intro int_div_pos_eq [where r = "x - sec * q"]) auto
  qed
  then show ?thesis using s q by simp
qed

lemma ones_and: "(0xFF :: u8) AND b = b"
proof -
  have "(0xFF :: u8) = - 1" by simp
  then show ?thesis by (simp only: and.left_neutral)
qed

lemma rewritten_same: "data = read_mem m off (length data) \<Longrightarrow> rewritten sec off data m m"
proof -
  assume d: "data = read_mem m off (length data)"
  have "m x = data ! nat (x - off)" if "off \<le> x" "x < off + int (length data)" for x
  proof -
    have "nat (x - off) < length data" "off + int (nat (x - off)) = x" using that by auto
    then show ?thesis by (subst d) (simp add: read_mem_def)
  qed
  then show ?thesis by (auto simp: rewritten_def)
qed

lemma rewritten_erased:
  assumes "0 < sec" "cur mod sec = 0" "cur \<le> off" "off + int (length data) \<le> cur + sec" "data \<noteq> []"
  shows "rewritten sec off data m (program_mem off data (erase_mem sec cur m))"
proof -
  have "0 < int (length data)" using assms(5) by simp
  then have "cur \<le> off \<and> off < cur + sec" "cur \<le> off + int (length data) - 1 \<and> off + int (length data) - 1 < cur + sec"
    using assms(3,4) by linarith+
  then have e: "off div sec = cur div sec" "(off + int (length data) - 1) div sec = cur div sec"
    unfolding in_block [OF assms(1,2)] by blast+
  have "if off \<le> x \<and> x < off + int (length data) then program_mem off data (erase_mem sec cur m) x = data ! nat (x - off)
      else if x div sec = cur div sec then program_mem off data (erase_mem sec cur m) x = 0xFF
      else program_mem off data (erase_mem sec cur m) x = m x" for x
  proof (cases "off \<le> x \<and> x < off + int (length data)")
    case True
    then have "x div sec = cur div sec" unfolding in_block [OF assms(1,2)] using assms(3,4) by linarith
    then show ?thesis using True by (simp add: program_mem_def erase_mem_def ones_and)
  next
    case False
    then show ?thesis by (simp only: program_mem_def erase_mem_def if_False) simp
  qed
  moreover have "cur div sec \<le> x div sec \<and> x div sec \<le> cur div sec \<longleftrightarrow> x div sec = cur div sec" for x by auto
  ultimately show ?thesis unfolding rewritten_def e by (simp only:) presburger
qed

lemma erase_and_write_ends:
  assumes "epcs_chip C" "geometry_ok C f" "chip_at C m hw" "0 \<le> cur" "cur mod ch_sector C = 0" "cur \<le> off" "data \<noteq> []"
    and "off + int (length data) \<le> cur + ch_sector C" "off + int (length data) \<le> ch_size C"
  shows "ends (erase_and_write (ch_bus C) f cur off data hw) (\<lambda>(r, hw'). r = 0 \<and>
    (\<exists>m'. rewritten (ch_sector C) off data m m' \<and> chip_at C m' hw'))"
proof -
  have off: "0 \<le> off" "off < ch_size C" "cur < ch_size C" using assms(4,6,7,9) by (cases data; simp)+
  obtain c hw1 where c: "alt_epcs_flash_memcmp (ch_bus C) f data off (length data) hw = Some (c, hw1)"
      "(c = 0) = (data = read_mem m off (length data))" "chip_at C m hw1"
    using flash_memcmp [OF assms(1-3) off(1) assms(9)] by (auto simp: ends_def)
  show ?thesis
  proof (cases "c = 0")
    case True
    then show ?thesis using c rewritten_same [of data m off] by (auto simp: erase_and_write_def)
  next
    case False
    obtain hw2 where e: "alt_epcs_flash_erase_block (ch_bus C) f cur hw1 = Some (0, hw2)"
        "chip_at C (erase_mem (ch_sector C) cur m) hw2"
      using erase_block [OF assms(1,2) c(3) assms(4) off(3)] by (auto simp: ends_def)
    have "rewritten (ch_sector C) off data m (program_mem off data (erase_mem (ch_sector C) cur m))"
      using geometry_okD(3) [OF assms(2)] assms(5-8) by (intro rewritten_erased)
    then show ?thesis
      using write_block [OF assms(1,2) e(2) off(1,2) assms(9), of cur] False c(1) e(1)
      by (auto simp: erase_and_write_def ends_def)
  qed
qed

lemma alt_epcs_flash_write_ends:
  assumes "epcs_chip C" "geometry_ok C f" "chip_at C m hw" "0 \<le> off" "data \<noteq> []" "off + int (length data) \<le> ch_size C"
  shows "ends (alt_epcs_flash_write (ch_bus C) f off data hw) (\<lambda>(r, hw'). r = 0 \<and>
    (\<exists>m'. rewritten (ch_sector C) off data m m' \<and> chip_at C m' hw'))"
proof -
  have lt: "off < ch_size C" using assms(5,6) by (cases data) auto
  note sec = geometry_okD(3) [OF assms(2)]
  have "ends (write_blocks (erase_and_write (ch_bus C) f) (ch_sector C) (nat (number_of_blocks (hd (region_info f)))) 0 off data hw)
      (\<lambda>(r, hw'). r = Finished 0 \<and> (\<exists>m'. rewritten (ch_sector C) off data m m' \<and> chip_at C m' hw'))"
    by (rule write_blocks_ends [where at = "chip_at C" and sz = "ch_size C" and bs = "ch_sector C"])
       (use assms sec geometry_blocks [OF assms(2)] in \<open>auto intro: erase_and_write_ends [OF assms(1,2)] rewritten_append\<close>)
  from write_regions_ends [OF assms(2) this assms(4) lt] show ?thesis unfolding alt_epcs_flash_write_def .
qed

subsection \<open>Erasing\<close>

lemma check_erased_ends:
  assumes "epcs_chip C" "geometry_ok C f" "chip_at C m hw" "0 \<le> cur" "cur + bs \<le> ch_size C" "bs mod 8 = 0" "0 \<le> j" "j mod 8 = 0"
  shows "ends (check_erased (ch_bus C) f cur bs j hw) (\<lambda>(e, hw').
    (e \<longrightarrow> (\<forall>x. cur + j \<le> x \<and> x < cur + bs \<longrightarrow> m x = 0xFF)) \<and> chip_at C m hw')"
  using assms(3,7,8)
proof (induction "nat (bs - j)" arbitrary: j hw rule: less_induct)
  case less
  show ?case
  proof (cases "j < bs")
    case False
    then show ?thesis using less.prems by (subst check_erased.simps) auto
  next
    case True
    have "j + 8 \<le> bs" using True less.prems(3) assms(6) by presburger
    then have fits: "cur + j + int (length (replicate 8 (0xFF :: u8))) \<le> ch_size C" using assms(5) by simp
    obtain c hw1 where c: "alt_epcs_flash_memcmp (ch_bus C) f (replicate 8 0xFF) (cur + j) 8 hw = Some (c, hw1)"
        "(c = 0) = (replicate 8 0xFF = read_mem m (cur + j) 8)" "chip_at C m hw1"
      using flash_memcmp [OF assms(1,2) less.prems(1) _ fits] assms(4) less.prems(2) by (auto simp: ends_def)
    show ?thesis
    proof (cases "c = 0")
      case False
      then show ?thesis using True c by (subst check_erased.simps) simp
    next
      case eq: True
      have here: "m x = 0xFF" if "cur + j \<le> x" "x < cur + j + 8" for x
      proof -
        have "nat (x - (cur + j)) < 8" "cur + j + int (nat (x - (cur + j))) = x" using that by auto
        moreover have "read_mem m (cur + j) 8 ! nat (x - (cur + j)) = 0xFF"
          using c(2) eq calculation(1) by (metis nth_replicate)
        ultimately show ?thesis by (simp add: read_mem_def)
      qed
      have "ends (check_erased (ch_bus C) f cur bs (j + 8) hw1) (\<lambda>(e, hw').
          (e \<longrightarrow> (\<forall>x. cur + (j + 8) \<le> x \<and> x < cur + bs \<longrightarrow> m x = 0xFF)) \<and> chip_at C m hw')"
        using True less.prems c(3) by (intro less.hyps) auto
      moreover have "check_erased (ch_bus C) f cur bs j hw = check_erased (ch_bus C) f cur bs (j + 8) hw1"
        using True c(1) eq by (subst check_erased.simps) simp
      ultimately show ?thesis
        using here by (auto elim!: ends_weaken) (metis add.assoc linorder_not_less)
    qed
  qed
qed

text \<open>The memory with \<open>n\<close> bytes from \<open>a\<close> on erased.\<close>

definition erased_mem :: "int \<Rightarrow> int \<Rightarrow> (int \<Rightarrow> u8) \<Rightarrow> int \<Rightarrow> u8" where
  "erased_mem a n m x = (if a \<le> x \<and> x < a + n then 0xFF else m x)"

lemma erase_step:
  assumes "epcs_chip C" "geometry_ok C f" "chip_at C m hw" "ch_sector C mod 8 = 0" "0 \<le> cur" "cur mod ch_sector C = 0"
    and "cur + ch_sector C \<le> ch_size C" "0 < len"
  obtains hw1 where "chip_at C (erased_mem cur (ch_sector C) m) hw1"
    "erase_loop (ch_bus C) f (ch_sector C) cur cur len hw =
     erase_loop (ch_bus C) f (ch_sector C) (cur + ch_sector C) (cur + ch_sector C) (len - of_int (ch_sector C)) hw1"
proof -
  note sec = geometry_okD(3) [OF assms(2)]
  have e: "erase_mem (ch_sector C) cur m = erased_mem cur (ch_sector C) m"
    by (rule ext) (simp only: erase_mem_def erased_mem_def in_block [OF sec assms(6)])
  obtain b hw1 where b: "check_erased (ch_bus C) f cur (ch_sector C) 0 hw = Some (b, hw1)" "chip_at C m hw1"
      "b \<longrightarrow> (\<forall>x. cur \<le> x \<and> x < cur + ch_sector C \<longrightarrow> m x = 0xFF)"
    using check_erased_ends [OF assms(1-3,5,7,4), of 0] by (auto simp: ends_def)
  have step: "erase_loop (ch_bus C) f (ch_sector C) cur cur len hw =
      (case (if \<not> b then alt_epcs_flash_erase_block (ch_bus C) f cur hw1 else Some (0, hw1)) of
         None \<Rightarrow> None
       | Some (ret_code, hw2) \<Rightarrow>
           erase_loop (ch_bus C) f (ch_sector C) (cur + ch_sector C) (cur + ch_sector C) (len - of_int (ch_sector C)) hw2)"
    using b(1) sec assms(8) by (subst erase_loop.simps) simp
  show thesis
  proof (cases b)
    case True
    then have "erased_mem cur (ch_sector C) m = m" using b(3) by (auto simp: erased_mem_def)
    then show thesis using True step b(2) by (intro that [of hw1]) simp_all
  next
    case False
    obtain hw2 where "alt_epcs_flash_erase_block (ch_bus C) f cur hw1 = Some (0, hw2)" "chip_at C (erased_mem cur (ch_sector C) m) hw2"
      using erase_block [OF assms(1,2) b(2) assms(5)] assms(7) sec e by (auto simp: ends_def)
    then show thesis using False step by (intro that [of hw2]) simp_all
  qed
qed

lemma erased_mem_0 [simp]: "erased_mem a 0 m = m"
  by (rule ext) (auto simp: erased_mem_def)

lemma erased_mem_append: "0 \<le> n \<Longrightarrow> 0 \<le> k \<Longrightarrow> erased_mem (a + n) k (erased_mem a n m) = erased_mem a (n + k) m"
  by (rule ext) (auto simp: erased_mem_def)

lemma erase_loop_ends:
  assumes "epcs_chip C" "geometry_ok C f" "chip_at C m hw" "ch_sector C mod 8 = 0" "0 \<le> cur" "cur mod ch_sector C = 0"
    and "off mod ch_sector C = 0" "cur \<le> off" "off + int k * ch_sector C \<le> ch_size C"
  shows "ends (erase_loop (ch_bus C) f (ch_sector C) cur off (of_int (int k * ch_sector C)) hw) (\<lambda>(off', hw').
    chip_at C (erased_mem off (int k * ch_sector C) m) hw')"
  using assms(3,5-9)
proof (induction "nat (off + int k * ch_sector C - cur)" arbitrary: cur off k m hw rule: less_induct)
  case less
  note sec = geometry_okD(3) [OF assms(2)] and size = geometry_okD(1) [OF assms(2)]
  show ?case
  proof (cases k)
    case 0
    then show ?thesis using less.prems by (subst erase_loop.simps) simp
  next
    case (Suc j)
    have k: "int k * ch_sector C = ch_sector C + int j * ch_sector C" by (simp add: Suc algebra_simps)
    have j: "0 \<le> int j * ch_sector C" using sec by simp
    have pos: "0 < int k * ch_sector C" "int k * ch_sector C < 2 ^ 32"
      unfolding k using less.prems(2,5,6) size sec k j by (linarith, simp)
    then have len: "(of_int (int k * ch_sector C) :: u32) > 0"
      using uint_of_int_u32 [of "int k * ch_sector C"] by (simp only: word_less_def) simp
    show ?thesis
    proof (cases "off < cur + ch_sector C")
      case False
      then have "(cur + ch_sector C) \<le> off" by simp
      then have "ends (erase_loop (ch_bus C) f (ch_sector C) (cur + ch_sector C) off (of_int (int k * ch_sector C)) hw)
          (\<lambda>(off', hw'). chip_at C (erased_mem off (int k * ch_sector C) m) hw')"
        using less.prems sec pos by (intro less.hyps) auto
      then show ?thesis using False len by (subst erase_loop.simps) simp
    next
      case True
      have "off div ch_sector C = cur div ch_sector C"
        unfolding in_block [OF sec less.prems(3)] using True less.prems(5) by simp
      then have off: "off = cur" using less.prems(3,4) by (metis div_mult_mod_eq)
      obtain hw1 where hw1: "chip_at C (erased_mem cur (ch_sector C) m) hw1"
        "erase_loop (ch_bus C) f (ch_sector C) cur cur (of_int (int k * ch_sector C)) hw =
         erase_loop (ch_bus C) f (ch_sector C) (cur + ch_sector C) (cur + ch_sector C)
           (of_int (int k * ch_sector C) - of_int (ch_sector C)) hw1"
        using erase_step [OF assms(1,2) less.prems(1) assms(4) less.prems(2,3) _ len] less.prems(6) off k j by auto
      have "ends (erase_loop (ch_bus C) f (ch_sector C) (cur + ch_sector C) (cur + ch_sector C) (of_int (int j * ch_sector C)) hw1)
          (\<lambda>(off', hw'). chip_at C (erased_mem (cur + ch_sector C) (int j * ch_sector C) (erased_mem cur (ch_sector C) m)) hw')"
        using less.prems sec k j pos(1) off hw1(1) by (intro less.hyps) auto
      moreover have "(of_int (int k * ch_sector C) :: u32) - of_int (ch_sector C) = of_int (int j * ch_sector C)"
        unfolding k of_int_add by simp
      ultimately show ?thesis using hw1(2) sec j unfolding off by (simp only: erased_mem_append k less_imp_le)
    qed
  qed
qed

text \<open>The length only ever shrinks by whole blocks, so that the loop ends only at a multiple of the block size.\<close>

lemma dvd_uint_sub:
  assumes "n \<le> 32" "2 ^ n dvd uint ((len :: u32) - of_int (2 ^ n))"
  shows "2 ^ n dvd uint len"
proof -
  have p: "(2 :: int) ^ n dvd 2 ^ 32" using assms(1) by (rule le_imp_power_dvd)
  have "uint (of_int (2 ^ n) :: u32) = 2 ^ n mod 2 ^ 32"
    unfolding uint_word_of_int_eq take_bit_eq_mod by simp
  then have "uint (len - of_int (2 ^ n)) = (uint len - 2 ^ n) mod 2 ^ 32"
    unfolding uint_word_ariths(2) by (simp add: mod_diff_right_eq del: of_int_power)
  then have "2 ^ n dvd uint len - 2 ^ n" using assms(2) p by (simp add: dvd_mod_iff)
  then have "2 ^ n dvd uint len - 2 ^ n + 2 ^ n" by (rule dvd_add) simp
  then show ?thesis by simp
qed

lemma erase_loop_returns:
  assumes "erase_loop S f bs cur off len hw = Some res" "bs = 2 ^ n" "n \<le> 32"
  shows "2 ^ n dvd uint len"
proof (rule erase_loop.raw_induct [of "\<lambda>S f bs cur off len hw res. bs = 2 ^ n \<longrightarrow> 2 ^ n dvd uint len",
      OF _ assms(1), THEN mp, OF _ assms(2)])
  fix loop S f bs cur off and len :: u32 and hw :: "'a spi_hw" and res
  assume IH: "\<And>S f bs cur off len hw res. loop S f bs cur off len hw = Some res \<Longrightarrow> bs = 2 ^ n \<longrightarrow> 2 ^ n dvd uint len"
    and run: "(if len > 0 then
        (if off \<ge> cur \<and> off < cur + bs then
           (case check_erased S f cur bs 0 hw of
              None \<Rightarrow> None
            | Some (erased, hw1) \<Rightarrow>
                (case (if \<not> erased then alt_epcs_flash_erase_block S f cur hw1 else Some (0, hw1)) of
                   None \<Rightarrow> None
                 | Some (ret_code, hw2) \<Rightarrow> loop S f bs (cur + bs) (cur + bs) (len - of_int bs) hw2))
         else loop S f bs (cur + bs) off len hw)
      else Some (off, hw)) = Some res"
  show "bs = 2 ^ n \<longrightarrow> 2 ^ n dvd uint len"
  proof
    assume bs: "bs = 2 ^ n"
    consider "len = 0" | hw2 where "loop S f bs (cur + bs) (cur + bs) (len - of_int bs) hw2 = Some res"
      | "loop S f bs (cur + bs) off len hw = Some res"
      using run by (auto simp: word_gt_0 split: if_splits option.splits prod.splits)
    then show "2 ^ n dvd uint len"
    proof cases
      case (2 hw2)
      then have "2 ^ n dvd uint (len - of_int (2 ^ n))" using IH bs by blast
      with assms(3) show ?thesis by (rule dvd_uint_sub)
    qed (use IH bs in auto)
  qed
qed

end
