(* ===== verification/Epcs_Props.thy ===== *)
theory Epcs_Props
  imports Epcs_Correct
begin

text \<open>
  The properties of the EPCS driver, and a simulated chip on which they are run: it collects the bytes
  of a frame and acts on them when it is released.
\<close>

unbundle bit_operations_syntax

subsection \<open>A simulated chip\<close>

record sim =
  sim_mem :: "int \<Rightarrow> u8"
  sim_wel :: bool
  sim_wip :: nat
  sim_in :: bytes

definition sim_answer :: "sim \<Rightarrow> bytes \<Rightarrow> u8" where
  "sim_answer d bs =
     (case bs of
        [] \<Rightarrow> 0
      | c # as \<Rightarrow>
          (if c = 0x05 then (if 0 < sim_wip d then 1 else 0)
           else if c = 0x03 \<and> 3 \<le> length as then
             sim_mem d (addr_of (as ! 0) (as ! 1) (as ! 2) + int (length as - 3))
           else if c = 0xAB then 0x10
           else 0))"

definition sim_finish :: "sim \<Rightarrow> sim" where
  "sim_finish d =
     (case sim_in d of
        [] \<Rightarrow> d
      | c # as \<Rightarrow>
          (if c = 0x05 then d\<lparr>sim_wip := sim_wip d - 1\<rparr>
           else if 0 < sim_wip d then d
           else if c = 0x06 then d\<lparr>sim_wel := True\<rparr>
           else if c = 0xD8 \<and> sim_wel d \<and> length as = 3 then
             d\<lparr>sim_mem := erase_mem 32768 (addr_of (as ! 0) (as ! 1) (as ! 2)) (sim_mem d), sim_wel := False, sim_wip := 3\<rparr>
           else if c = 0x02 \<and> sim_wel d \<and> 3 < length as then
             d\<lparr>sim_mem := program_mem (addr_of (as ! 0) (as ! 1) (as ! 2)) (drop 3 as) (sim_mem d), sim_wel := False, sim_wip := 2\<rparr>
           else d))"

definition sim_bus :: "sim slave" where
  "sim_bus = \<lparr>sl_select = (\<lambda>d. d\<lparr>sim_in := []\<rparr>),
     sl_byte = (\<lambda>b d. (sim_answer d (sim_in d), d\<lparr>sim_in := sim_in d @ [b]\<rparr>)),
     sl_release = sim_finish\<rparr>"

definition sim_chip :: "sim chip" where
  "sim_chip = \<lparr>ch_bus = sim_bus, ch_mem = sim_mem, ch_busy = sim_wip, ch_wel = sim_wel, ch_size = 131072, ch_sector = 32768\<rparr>"

lemma sim_answer_in [simp]: "sim_answer (d\<lparr>sim_in := x\<rparr>) bs = sim_answer d bs"
  by (simp add: sim_answer_def split: list.splits)

lemma sim_shift: "shift_byte sim_bus True b d = (sim_answer d (sim_in d), d\<lparr>sim_in := sim_in d @ [b]\<rparr>)"
  by (simp add: shift_byte_def sim_bus_def)

lemma sim_exchange:
  "exchange sim_bus True bs d =
     (map (\<lambda>i. sim_answer d (sim_in d @ take i bs)) [0..<length bs], d\<lparr>sim_in := sim_in d @ bs\<rparr>)"
proof (induction bs arbitrary: d)
  case (Cons b bs)
  have "[0..<length (b # bs)] = 0 # map Suc [0..<length bs]"
    using upt_conv_Cons [of 0 "Suc (length bs)"] map_Suc_upt [of 0 "length bs"] by simp
  then show ?case by (simp add: Cons.IH sim_shift del: upt_Suc)
qed simp

lemma sim_frame:
  "frame sim_bus bs d = (map (\<lambda>i. sim_answer d (take i bs)) [0..<length bs], sim_finish (d\<lparr>sim_in := bs\<rparr>))"
  unfolding frame_def sim_bus_def [THEN arg_cong [where f = sl_select]]
  by (simp add: sim_exchange) (simp add: sim_bus_def)

lemma sim_epcs_chip: "epcs_chip sim_chip"
  unfolding epcs_chip_def
proof (intro conjI allI)
  fix x d show "status_ok sim_chip x d (frame (ch_bus sim_chip) [0x05, x] d)"
    by (simp add: sim_chip_def sim_frame status_ok_def sim_finish_def sim_answer_def)
next
  fix d show "write_enable_ok sim_chip d (frame (ch_bus sim_chip) [0x06] d)"
    by (simp add: sim_chip_def sim_frame write_enable_ok_def sim_finish_def)
next
  fix a2 a1 a0 d
  show "sector_erase_ok sim_chip (addr_of a2 a1 a0) d (frame (ch_bus sim_chip) [0xD8, a2, a1, a0] d)"
    by (simp add: sim_chip_def sim_frame sector_erase_ok_def sim_finish_def)
next
  fix a2 a1 a0 bs d
  show "page_program_ok sim_chip (addr_of a2 a1 a0) bs d (frame (ch_bus sim_chip) ([0x02, a2, a1, a0] @ bs) d)"
    by (simp add: sim_chip_def sim_frame page_program_ok_def sim_finish_def)
next
  fix a2 a1 a0 :: u8 and n and d :: sim
  have "take (4 + i) ([0x03, a2, a1, a0] @ replicate n 0) = [0x03, a2, a1, a0] @ replicate i 0" if "i < n" for i
    using that by (simp add: numeral_eq_Suc min_def)
  then have "drop 4 (map (\<lambda>i. sim_answer d (take i ([0x03, a2, a1, a0] @ replicate n 0))) [0..<4 + n]) = read_mem (sim_mem d) (addr_of a2 a1 a0) n"
    by (intro nth_equalityI) (simp_all add: read_mem_def sim_answer_def)
  moreover have len: "length ([0x03, a2, a1, a0] @ replicate n 0) = 4 + n" by simp
  have "frame (ch_bus sim_chip) ([0x03, a2, a1, a0] @ replicate n 0) d =
      (map (\<lambda>i. sim_answer d (take i ([0x03, a2, a1, a0] @ replicate n 0))) [0..<4 + n],
       sim_finish (d\<lparr>sim_in := [0x03, a2, a1, a0] @ replicate n 0\<rparr>))"
    unfolding sim_chip_def by (simp only: chip.simps sim_frame len)
  ultimately show "read_bytes_ok sim_chip (addr_of a2 a1 a0) n d (frame (ch_bus sim_chip) ([0x03, a2, a1, a0] @ replicate n 0) d)"
    by (simp only: read_bytes_ok_def prod.case) (simp add: sim_chip_def sim_finish_def)
qed

text \<open>A driver and a controller for the simulated chip.\<close>

definition sim_dev :: alt_flash_epcs_dev where
  "sim_dev = \<lparr>number_of_regions = 1,
     region_info = [\<lparr>fr_offset = 0, region_size = 131072, number_of_blocks = 4, block_size = 32768\<rparr>],
     base_addr = 0, size_in_bytes = 131072, silicon_id = 0x10, page_size = 256\<rparr>"

definition sim_hw :: "(int \<Rightarrow> u8) \<Rightarrow> sim spi_hw" where
  "sim_hw m = \<lparr>hw_dev = \<lparr>sim_mem = m, sim_wel = False, sim_wip = 0, sim_in = []\<rparr>, hw_slave_sel = 0, hw_sso = False,
     hw_rrdy = False, hw_rxdata = 0, hw_flight = None, hw_pace = [3, 0, 7]\<rparr>"

lemma sim_ready: "geometry_ok sim_chip sim_dev" "chip_at sim_chip m (sim_hw m)"
  by (simp_all add: geometry_ok_def sim_chip_def sim_dev_def chip_at_def spi_at_def sim_hw_def)

subsection \<open>Properties\<close>

lemma sint_small: "uint (pos :: u32) < 2 ^ 31 \<Longrightarrow> sint pos = uint pos"
  by (auto simp: sint_uint signed_take_bit_int_eq_self_iff intro: order_trans [of _ 0])

text \<open>
  An SPI transaction exchanges exactly the bytes to be written and then one zero for every byte to
  be read, in order, with the chip selected throughout (for the given flags), and returns the answers
  to the zeros, however long the controller takes for each byte. With nothing to write and nothing to
  read it never ends.
\<close>

theorem spi_command_exchanges:
  assumes "spi_at sso d hw" "before_command S flags sso d = (sso1, d1)"
    and "exchange S sso1 (wd @ replicate n 0) d1 = (rs, d2)" "after_command S flags (sso1, d2) = (sso3, d3)"
  shows "if wd = [] \<and> n = 0 then alt_avalon_spi_command S k wd n flags hw = None
    else \<exists>hw'. alt_avalon_spi_command S k wd n flags hw = Some (drop (length wd) rs, hw') \<and> spi_at sso3 d3 hw'"
  using spi_command_ends [OF assms(1) _ assms(2-4), of k] spi_command_empty [OF assms(1), of S k flags]
  by (auto simp: ends_def)

theorem spi_command_exchanges_witness:
  "\<exists>hw'. alt_avalon_spi_command sim_bus 0 [0x03, 0, 1, 0] 2 0 (sim_hw (\<lambda>x. if x = 256 then 7 else 9)) = Some ([7, 9], hw') \<and>
     hw_flight hw' = None \<and> \<not> hw_sso hw'"
proof -
  let ?d = "hw_dev (sim_hw (\<lambda>x. if x = 256 then 7 else 9))"
  have at: "spi_at False ?d (sim_hw (\<lambda>x. if x = 256 then 7 else 9))" by (simp add: spi_at_def sim_hw_def)
  have b: "before_command sim_bus 0 False ?d = (True, ?d)" by (simp add: before_command_def sim_bus_def sim_hw_def)
  obtain rs d2 where x: "exchange sim_bus True ([0x03, 0, 1, 0] @ replicate 2 0) ?d = (rs, d2)" "drop 4 rs = [7, 9]"
    by (simp add: sim_shift sim_hw_def sim_answer_def addr_of_def numeral_eq_Suc)
  obtain d3 where "after_command sim_bus 0 (True, d2) = (False, d3)" by (simp add: after_command_def)
  from spi_command_exchanges [OF at b x(1) this, of 0] x(2) show ?thesis by (auto simp: spi_at_def numeral_eq_Suc)
qed


text \<open>
  C20: writing to the block device. On any chip that behaves as its data sheet says, a write of a buffer
  that fits ends, programs exactly the buffer's bits into the bytes from the position on (page by page
  and block by block) and changes nothing else; it reports success exactly if every byte now is the
  buffer's, which is the case on erased bytes, and then a read returns the buffer.
\<close>

theorem epcs_write_then_read:
  assumes "epcs_chip C" "geometry_ok C f" "chip_at C m hw" "buf \<noteq> []" "uint pos + int (length buf) \<le> ch_size C"
  shows "\<exists>r hw'. epcs_bwrite (ch_bus C) f pos buf hw = Some (r, hw') \<and>
    chip_at C (program_mem (uint pos) buf m) hw' \<and>
    (r = 0 \<longleftrightarrow> (\<forall>i < length buf. m (uint pos + int i) AND buf ! i = buf ! i)) \<and>
    (r = 0 \<longrightarrow> (\<exists>hw''. epcs_bread (ch_bus C) f pos (of_nat (length buf)) hw' = Some (0, buf, hw'')))"
proof -
  note size = geometry_okD(1) [OF assms(2)]
  have lt: "uint pos < ch_size C" using assms(4,5) by (cases buf) auto
  then have pos: "sint pos = uint pos" using size by (intro sint_small) simp
  have len: "unat (of_nat (length buf) :: u32) = length buf"
  proof (rule unat_of_nat_u32)
    have "0 \<le> uint pos" by simp
    then have "int (length buf) \<le> 2 ^ 24" using assms(5) size by linarith
    then show "length buf < 2 ^ 32" by simp
  qed
  let ?m = "program_mem (uint pos) buf m"
  obtain hw1 where w: "epcs_flash_write (ch_bus C) f (uint pos) buf hw = Some (0, hw1)" "chip_at C ?m hw1"
    using epcs_flash_write_ends [OF assms(1-3) _ assms(4,5)] by (auto simp: ends_def)
  obtain r hw2 where c: "alt_epcs_flash_memcmp (ch_bus C) f buf (uint pos) (length buf) hw1 = Some (r, hw2)"
      "(r = 0) = (buf = read_mem ?m (uint pos) (length buf))" "chip_at C ?m hw2"
    using flash_memcmp [OF assms(1,2) w(2) _ assms(5)] by (auto simp: ends_def)
  have "buf = read_mem ?m (uint pos) (length buf) \<longleftrightarrow> (\<forall>i < length buf. m (uint pos + int i) AND buf ! i = buf ! i)"
    unfolding list_eq_iff_nth_eq by (auto simp: read_mem_def program_mem_def)
  moreover have "ends (alt_epcs_flash_read (ch_bus C) f (uint pos) (length buf) hw2)
      (\<lambda>(r, rd, hw'). r = 0 \<and> rd = read_mem ?m (uint pos) (length buf) \<and> chip_at C ?m hw')"
    using flash_read [OF assms(1,2) c(3) _ lt assms(5)] by simp
  ultimately show ?thesis
    using w(1) c by (auto simp: epcs_bwrite_def epcs_bread_def pos len ends_def)
qed

theorem epcs_write_then_read_witness:
  "\<exists>hw'. epcs_bwrite sim_bus sim_dev 250 [1, 2, 3, 4, 5, 6, 7, 8] (sim_hw (\<lambda>_. 0xFF)) = Some (0, hw') \<and>
     (\<exists>hw''. epcs_bread sim_bus sim_dev 250 8 hw' = Some (0, [1, 2, 3, 4, 5, 6, 7, 8], hw''))"
proof -
  have "ch_bus sim_chip = sim_bus" "ch_size sim_chip = 131072" by (simp_all add: sim_chip_def)
  then show ?thesis
    using epcs_write_then_read [OF sim_epcs_chip sim_ready, of "[1, 2, 3, 4, 5, 6, 7, 8]" 250 "\<lambda>_. 0xFF"]
    by (simp add: ones_and del: ex_simps) blast
qed

text \<open>
  Writing with erase. \<^verbatim>\<open>alt_epcs_flash_write\<close> of a buffer that fits ends and returns 0; then the
  buffer's bytes are in place whatever was there before, every sector the buffer does not touch is as
  it was, and in the sectors it touches the other bytes are as they were or erased.
\<close>

theorem epcs_rewrite:
  assumes "epcs_chip C" "geometry_ok C f" "chip_at C m hw" "0 \<le> off" "data \<noteq> []" "off + int (length data) \<le> ch_size C"
  shows "\<exists>m' hw'. alt_epcs_flash_write (ch_bus C) f off data hw = Some (0, hw') \<and> chip_at C m' hw' \<and>
    rewritten (ch_sector C) off data m m'"
  using alt_epcs_flash_write_ends [OF assms] by (auto simp: ends_def)

theorem epcs_rewrite_witness:
  "\<exists>m' hw'. alt_epcs_flash_write sim_bus sim_dev 32766 [1, 2, 3] (sim_hw (\<lambda>_. 0)) = Some (0, hw') \<and> chip_at sim_chip m' hw' \<and>
     m' 32766 = 1 \<and> m' 32767 = 2 \<and> m' 32768 = 3 \<and> m' 70000 = 0"
proof -
  have c: "ch_bus sim_chip = sim_bus" "ch_size sim_chip = 131072" "ch_sector sim_chip = 32768" by (simp_all add: sim_chip_def)
  obtain m' hw' where m': "alt_epcs_flash_write sim_bus sim_dev 32766 [1, 2, 3] (sim_hw (\<lambda>_. 0)) = Some (0, hw')"
      "chip_at sim_chip m' hw'" "rewritten 32768 32766 [1, 2, 3] (\<lambda>_. 0) m'"
    using epcs_rewrite [OF sim_epcs_chip sim_ready, of 32766 "[1, 2, 3]" "\<lambda>_. 0"] c by auto
  have "m' 32766 = 1" "m' 32767 = 2" "m' 32768 = 3" "m' 70000 = 0"
    using m'(3) [unfolded rewritten_def, rule_format, of 32766] m'(3) [unfolded rewritten_def, rule_format, of 32767]
      m'(3) [unfolded rewritten_def, rule_format, of 32768] m'(3) [unfolded rewritten_def, rule_format, of 70000] by simp_all
  with m'(1,2) show ?thesis by blast
qed


text \<open>
  C21: erasing whole blocks. For a position and a length that are multiples of the block size and lie on
  the chip, the erase ends and returns 0, all bytes of the range are 0xFF and no other byte has changed.
\<close>

theorem epcs_erase_erases:
  assumes "epcs_chip C" "geometry_ok C f" "chip_at C m hw" "ch_sector C mod 8 = 0" "uint off mod ch_sector C = 0"
    and "uint len = int k * ch_sector C" "uint off < ch_size C" "uint off + uint len \<le> ch_size C"
  shows "\<exists>hw'. cyg_epcs_erase_blocks (ch_bus C) f off len hw = Some (0, hw') \<and>
    chip_at C (erased_mem (uint off) (uint len) m) hw'"
proof -
  have r: "fr_offset (hd (region_info f)) = 0" "region_size (hd (region_info f)) = ch_size C" "block_size (hd (region_info f)) = ch_sector C"
    using assms(2) by (simp_all add: geometry_ok_def)
  have len: "len = of_int (int k * ch_sector C)" using assms(6) by (metis word_of_int_uint)
  have "ends (erase_loop (ch_bus C) f (ch_sector C) 0 (uint off) len hw) (\<lambda>(off', hw'). chip_at C (erased_mem (uint off) (uint len) m) hw')"
    using erase_loop_ends [OF assms(1-4), of 0 "uint off" k] assms(5,6,8) unfolding len [symmetric] by simp
  then obtain off' hw' where "erase_loop (ch_bus C) f (ch_sector C) 0 (uint off) len hw = Some (off', hw')"
      "chip_at C (erased_mem (uint off) (uint len) m) hw'"
    by (auto simp: ends_def)
  with assms(7) r show ?thesis
    unfolding cyg_epcs_erase_blocks_def geometry_okD(5) [OF assms(2)] by simp
qed

theorem epcs_erase_erases_witness:
  "\<exists>hw'. cyg_epcs_erase_blocks sim_bus sim_dev 32768 65536 (sim_hw (\<lambda>_. 0)) = Some (0, hw') \<and>
     chip_at sim_chip (erased_mem 32768 65536 (\<lambda>_. 0)) hw'"
proof -
  have "ch_bus sim_chip = sim_bus" "ch_size sim_chip = 131072" "ch_sector sim_chip = 32768" by (simp_all add: sim_chip_def)
  then show ?thesis using epcs_erase_erases [OF sim_epcs_chip sim_ready, of 32768 65536 2] by simp
qed

text \<open>
  An erase whose length is not a multiple of the block size never ends: the unsigned length jumps
  over zero, and the loop goes on over the following blocks. (On a chip of one region with a block size
  that is a power of two, as all known chips have.)
\<close>

theorem epcs_erase_partial_block_diverges:
  assumes "geometry_ok C f" "ch_sector C = 2 ^ n" "n \<le> 32" "uint off < ch_size C" "\<not> ch_sector C dvd uint len"
  shows "cyg_epcs_erase_blocks S f off len hw = None"
proof -
  have r: "fr_offset (hd (region_info f)) = 0" "region_size (hd (region_info f)) = ch_size C" "block_size (hd (region_info f)) = ch_sector C"
    using assms(1) by (simp_all add: geometry_ok_def)
  have "erase_loop S f (ch_sector C) 0 (uint off) len hw = None"
    using erase_loop_returns [of S f "ch_sector C" 0 "uint off" len hw _ n] assms(2,3,5) by (metis not_None_eq)
  then show ?thesis
    using assms(4) r unfolding cyg_epcs_erase_blocks_def geometry_okD(5) [OF assms(1)] by simp
qed

theorem epcs_erase_partial_block_diverges_witness:
  "cyg_epcs_erase_blocks sim_bus sim_dev 32768 100 (sim_hw (\<lambda>_. 0)) = None"
proof -
  have "ch_size sim_chip = 131072" "ch_sector sim_chip = 2 ^ 15" by (simp_all add: sim_chip_def)
  then show ?thesis using epcs_erase_partial_block_diverges [OF sim_ready(1), of 15 32768 100] by simp
qed

text \<open>
  What the query finds out. If it succeeds, the driver's geometry is consistent: one region from 0
  on, made of whole blocks, whose size is a power of two of at least 4 pages, addressable with 24 bits,
  and pages of 256 bytes; it fails with \<^verbatim>\<open>-ENODEV\<close> exactly for an unknown chip.
\<close>

theorem epcs_query_geometry:
  assumes "alt_epcs_flash_query S f hw = Some (ret, f', hw')" "region_info f \<noteq> []"
  shows "(ret = 0 \<and> number_of_regions f' = 1 \<and> page_size f' = 256 \<and>
      (\<exists>n. block_size (hd (region_info f')) = 2 ^ n \<and> 10 \<le> n \<and> n \<le> 32) \<and> fr_offset (hd (region_info f')) = 0 \<and>
      number_of_blocks (hd (region_info f')) * block_size (hd (region_info f')) = region_size (hd (region_info f')) \<and>
      size_in_bytes f' = region_size (hd (region_info f')) \<and>
      0 < region_size (hd (region_info f')) \<and> region_size (hd (region_info f')) \<le> 2 ^ 24 \<and>
      silicon_id f' \<in> {0x10, 0x12, 0x13, 0x14, 0x16, 0x18}) \<or>
    (ret = - ENODEV \<and> silicon_id f' \<noteq> 0x18)"
proof -
  have hd0: "region_info f ! 0 = hd (region_info f)" and hd_upd: "hd ((region_info f)[0 := x]) = x" for x
    using assms(2) by (cases "region_info f"; simp)+
  have good: "number_of_regions g = 1 \<and> page_size g = 256 \<and> block_size (hd (region_info g)) = bs \<and> fr_offset (hd (region_info g)) = 0 \<and>
      number_of_blocks (hd (region_info g)) = nb \<and> region_size (hd (region_info g)) = rs \<and> size_in_bytes g = rs \<and> silicon_id g = sid"
    if "g = finish_query (set_geometry (rs, nb, bs) (f\<lparr>silicon_id := sid\<rparr>))" for g rs nb bs sid
    using assms(2) that by (cases "region_info f") (simp_all add: finish_query_def set_geometry_def)
  have pow: "(65536 :: int) = 2 ^ 16" "(32768 :: int) = 2 ^ 15" "(262144 :: int) = 2 ^ 18" by simp_all
  have known: "\<exists>n. bs = 2 ^ n \<and> 10 \<le> n \<and> n \<le> 32" "nb * bs = rs" "0 < rs" "rs \<le> 2 ^ 24" "sid \<in> {0x10, 0x12, 0x13, 0x14, 0x16, 0x18}"
    if "epcs_geometry sid = Some (rs, nb, bs) \<or> sid = 0x18 \<and> (rs, nb, bs) = (128 * 1024 * 1024 div 8, 64, 262144)" for sid rs nb bs
  proof -
    have "bs \<in> {2 ^ 15, 2 ^ 16, 2 ^ 18}" using that by (auto simp: epcs_geometry_def split: if_splits)
    then show "\<exists>n. bs = 2 ^ n \<and> 10 \<le> n \<and> n \<le> 32"
      by (elim insertE emptyE) (rule exI [of _ 15], simp, rule exI [of _ 16], simp, rule exI [of _ 18], simp)
  qed (use that in \<open>auto simp: epcs_geometry_def split: if_splits\<close>)
  consider sid rs nb bs where "ret = 0" "f' = finish_query (set_geometry (rs, nb, bs) (f\<lparr>silicon_id := sid\<rparr>))"
      "epcs_geometry sid = Some (rs, nb, bs) \<or> sid = 0x18 \<and> (rs, nb, bs) = (128 * 1024 * 1024 div 8, 64, 262144)"
    | sid where "ret = - ENODEV" "sid \<noteq> 0x18" "f' = finish_query (f\<lparr>silicon_id := sid\<rparr>)"
    using assms(1) unfolding alt_epcs_flash_query_def
    by (auto simp: bind_eq_Some_conv Let_def split: option.splits if_splits prod.splits)
  then show ?thesis
  proof cases
    case (1 sid rs nb bs)
    from good [OF 1(2)] known [OF 1(3)] 1(1) show ?thesis by simp
  next
    case (2 sid)
    then show ?thesis by (simp add: finish_query_def)
  qed
qed

theorem epcs_query_geometry_witness:
  "\<exists>f' hw'. alt_epcs_flash_query sim_bus sim_dev (sim_hw (\<lambda>_. 0)) = Some (0, f', hw') \<and>
     number_of_blocks (hd (region_info f')) * block_size (hd (region_info f')) = region_size (hd (region_info f'))"
proof -
  let ?hw = "sim_hw (\<lambda>_. 0)"
  have at: "spi_at False (hw_dev ?hw) ?hw" by (simp add: spi_at_def sim_hw_def)
  obtain rs d' where fr: "frame sim_bus ([0xAB, 0, 0, 0] @ replicate 1 0) (hw_dev ?hw) = (rs, d')"
      "hd (drop (length [0xAB, 0, 0, 0 :: u8]) rs) = 0x10"
    by (simp add: sim_frame sim_answer_def upt_rec)
  have "ends (epcs_command sim_bus [0xAB, 0, 0, 0] 1 0 ?hw)
      (\<lambda>(rd, hw'). rd = drop (length [0xAB, 0, 0, 0 :: u8]) rs \<and> spi_at False d' hw')"
    using at _ fr(1) by (rule epcs_command_frame) simp
  then obtain hw' where "epcs_read_electronic_signature sim_bus ?hw = Some (0x10, hw')"
    using fr(2) by (auto simp: ends_def epcs_read_electronic_signature_def)
  then obtain f' where q: "alt_epcs_flash_query sim_bus sim_dev ?hw = Some (0, f', hw')"
    by (simp add: alt_epcs_flash_query_def epcs_geometry_def)
  have "region_info sim_dev \<noteq> []" by (simp add: sim_dev_def)
  from epcs_query_geometry [OF q this] q show ?thesis by auto
qed

end
