(* ===== verification/Cf_Disk.thy ===== *)
theory Cf_Disk
  imports Nios_Prelude
begin

text \<open>
  The CompactFlash driver
  (\<^verbatim>\<open>packages/devs/disk/sopc/altera_avalon_cf/current/src/altera_avalon_cf.c\<close>): identifying the
  card, reading and writing sectors, and hot plugging.

  The card is a model of the ATA task file as the driver uses it: eight registers, a status that is
  busy for a number of reads (\<open>cd_pace\<close> gives them in turn), and a data port for a sector. Sectors
  are 256 words of 16 bits. Delays have no other effect and are left out. The callbacks of the eCos
  disk layer are parameters.
\<close>

unbundle bit_operations_syntax

subsection \<open>The card\<close>

datatype phase = Ready | Data_in "u16 list" | Data_out nat "u16 list"

record card =
  cd_sectors :: "nat \<Rightarrow> u16 list"
  cd_size :: nat
  cd_ident :: "u16 list"
  cd_chan :: nat
  cd_there :: bool
  cd_regs :: "nat \<Rightarrow> u8"
  cd_phase :: phase
  cd_busy :: nat
  cd_pace :: "nat list"

abbreviation (input) IDE_REG_DATA :: nat where "IDE_REG_DATA \<equiv> 0"
abbreviation (input) IDE_REG_COUNT :: nat where "IDE_REG_COUNT \<equiv> 2"
abbreviation (input) IDE_REG_LBALOW :: nat where "IDE_REG_LBALOW \<equiv> 3"
abbreviation (input) IDE_REG_LBAMID :: nat where "IDE_REG_LBAMID \<equiv> 4"
abbreviation (input) IDE_REG_LBAHI :: nat where "IDE_REG_LBAHI \<equiv> 5"
abbreviation (input) IDE_REG_DEVICE :: nat where "IDE_REG_DEVICE \<equiv> 6"
abbreviation (input) IDE_REG_STATUS :: nat where "IDE_REG_STATUS \<equiv> 7"
abbreviation (input) IDE_REG_COMMAND :: nat where "IDE_REG_COMMAND \<equiv> 7"
abbreviation (input) IDE_STAT_BSY :: u8 where "IDE_STAT_BSY \<equiv> 0x80"
abbreviation (input) IDE_STAT_DRQ :: u8 where "IDE_STAT_DRQ \<equiv> 0x08"

definition lba :: "card \<Rightarrow> nat" where
  "lba c = unat (cd_regs c IDE_REG_DEVICE AND 0xF) * 2 ^ 24 + unat (cd_regs c IDE_REG_LBAHI) * 2 ^ 16 +
     unat (cd_regs c IDE_REG_LBAMID) * 2 ^ 8 + unat (cd_regs c IDE_REG_LBALOW)"

text \<open>Is the card the selected one?\<close>

definition selected :: "card \<Rightarrow> bool" where
  "selected c \<longleftrightarrow> cd_there c \<and> unat (drop_bit 4 (cd_regs c IDE_REG_DEVICE) AND 1) = cd_chan c"

definition work :: "phase \<Rightarrow> card \<Rightarrow> card" where
  "work ph c = c\<lparr>cd_phase := ph, cd_busy := (case cd_pace c of [] \<Rightarrow> 0 | n # _ \<Rightarrow> n), cd_pace := tl (cd_pace c)\<rparr>"

definition command :: "u8 \<Rightarrow> card \<Rightarrow> card" where
  "command v c =
     (if \<not> selected c then c
      else if v = 0x20 then work (if lba c < cd_size c then Data_in (cd_sectors c (lba c)) else Ready) c
      else if v = 0x30 then work (if lba c < cd_size c then Data_out (lba c) [] else Ready) c
      else if v = 0xEC then work (Data_in (cd_ident c)) c
      else c)"

definition read_status :: "card \<Rightarrow> u8 \<times> card" where
  "read_status c =
     (if cd_busy c > 0 then (IDE_STAT_BSY, c\<lparr>cd_busy := cd_busy c - 1\<rparr>)
      else (if selected c \<and> cd_phase c \<noteq> Ready then 0x40 OR IDE_STAT_DRQ else 0x40, c))"

definition write_reg :: "nat \<Rightarrow> u8 \<Rightarrow> card \<Rightarrow> card" where
  "write_reg r v c = (if r = IDE_REG_COMMAND then command v c else c\<lparr>cd_regs := (cd_regs c)(r := v)\<rparr>)"

definition read_word :: "card \<Rightarrow> u16 \<times> card" where
  "read_word c =
     (case cd_phase c of
        Data_in (w # ws) \<Rightarrow> (w, c\<lparr>cd_phase := (if ws = [] then Ready else Data_in ws)\<rparr>)
      | _ \<Rightarrow> (0, c))"

definition write_word :: "u16 \<Rightarrow> card \<Rightarrow> card" where
  "write_word w c =
     (case cd_phase c of
        Data_out n ws \<Rightarrow>
          (if length ws = 255
           then work Ready (c\<lparr>cd_sectors := (cd_sectors c)(n := ws @ [w])\<rparr>)
           else c\<lparr>cd_phase := Data_out n (ws @ [w])\<rparr>)
      | _ \<Rightarrow> c)"

subsection \<open>Waiting\<close>

fun poll_idle :: "nat \<Rightarrow> card \<Rightarrow> bool \<times> card" where
  "poll_idle 0 c = (False, c)"
| "poll_idle (Suc tries) c =
     (let (status, c1) = read_status c
      in if status AND IDE_STAT_BSY = 0 then (True, c1) else poll_idle tries c1)"

definition wait_for_idle :: "card \<Rightarrow> bool \<times> card" where
  "wait_for_idle c = poll_idle 1000000 c"

fun poll_drq :: "nat \<Rightarrow> card \<Rightarrow> bool \<times> card" where
  "poll_drq 0 c = (False, c)"
| "poll_drq (Suc tries) c =
     (let (status, c1) = read_status c
      in if status AND IDE_STAT_BSY = 0 then (status AND IDE_STAT_DRQ \<noteq> 0, c1) else poll_drq tries c1)"

definition wait_for_drq :: "card \<Rightarrow> bool \<times> card" where
  "wait_for_drq c = poll_drq 1000000 c"

subsection \<open>Identification\<close>

text \<open>\<^verbatim>\<open>id_strcpy\<close>: the high byte of each word comes first, a NUL ends the string.\<close>

fun id_strcpy :: "u16 list \<Rightarrow> nat \<Rightarrow> bytes" where
  "id_strcpy (w # ws) (Suc (Suc n)) = ucast (drop_bit 8 w) # ucast (w AND 0xFF) # id_strcpy ws n"
| "id_strcpy (w # ws) (Suc 0) = [ucast (drop_bit 8 w), ucast (w AND 0xFF), 0]"
| "id_strcpy _ _ = [0]"

text \<open>The device register reads back while a card of that channel is there.\<close>

definition ide_presence_detect :: "nat \<Rightarrow> card \<Rightarrow> bool \<times> card" where
  "ide_presence_detect chan c =
     (let sel = (push_bit 4 (of_nat chan) OR 0xA0 :: u8);
          c1 = write_reg IDE_REG_DEVICE sel c;
          val = (if selected c1 then cd_regs c1 IDE_REG_DEVICE else 0)
      in (val = sel, c1))"

fun read_words :: "nat \<Rightarrow> card \<Rightarrow> u16 list \<times> card" where
  "read_words 0 c = ([], c)"
| "read_words (Suc n) c = (let (w, c1) = read_word c; (ws, c2) = read_words n c1 in (w # ws, c2))"

definition ide_ident :: "nat \<Rightarrow> card \<Rightarrow> u16 list option \<times> card" where
  "ide_ident dev c =
     (let (_, c1) = wait_for_drq c;
          c2 = write_reg IDE_REG_DEVICE (push_bit 4 (of_nat dev)) c1;
          c3 = write_reg IDE_REG_COMMAND 0xEC c2;
          (ok, c4) = wait_for_drq c3
      in if ok then (let (ws, c5) = read_words 256 c4 in (Some ws, c5)) else (None, c4))"

subsection \<open>Sectors\<close>

definition set_lba :: "nat \<Rightarrow> u32 \<Rightarrow> card \<Rightarrow> card" where
  "set_lba dev start c =
     write_reg IDE_REG_DEVICE (ucast (drop_bit 24 start AND 0xF) OR push_bit 4 (of_nat dev) OR 0x40)
      (write_reg IDE_REG_LBAHI (ucast (drop_bit 16 start AND 0xFF))
      (write_reg IDE_REG_LBAMID (ucast (drop_bit 8 start AND 0xFF))
      (write_reg IDE_REG_LBALOW (ucast (start AND 0xFF))
      (write_reg IDE_REG_COUNT 1 c))))"

text \<open>
  The copying loops: \<open>j\<close> words are left, \<open>k\<close> is \<^verbatim>\<open>c\<close>, the number of bytes passed.
\<close>

fun copy_in :: "nat \<Rightarrow> nat \<Rightarrow> nat \<Rightarrow> card \<Rightarrow> bytes \<times> card" where
  "copy_in 0 k len c = ([], c)"
| "copy_in (Suc j) k len c =
     (let (p, c1) = read_word c;
          (rest, c2) = copy_in j (k + 2) len c1
      in ((if k < len then [ucast (p AND 0xFF)] else []) @
          (if k + 1 < len then [ucast (drop_bit 8 p AND 0xFF)] else []) @ rest, c2))"

definition ide_read_sector :: "nat \<Rightarrow> u32 \<Rightarrow> nat \<Rightarrow> card \<Rightarrow> bytes option \<times> card" where
  "ide_read_sector dev start len c =
     (let (ok, c1) = wait_for_idle c
      in if \<not> ok then (None, c1)
         else
           (let c2 = write_reg IDE_REG_COMMAND 0x20 (set_lba dev start c1);
                (ok, c3) = wait_for_drq c2
            in if \<not> ok then (None, c3)
               else (let (b, c4) = copy_in 256 0 len c3 in (Some b, c4))))"

fun copy_out :: "nat \<Rightarrow> nat \<Rightarrow> nat \<Rightarrow> bytes \<Rightarrow> card \<Rightarrow> card" where
  "copy_out 0 k len buf c = c"
| "copy_out (Suc j) k len buf c =
     (let p = (if k < len then ucast (buf ! k) else 0) OR (if k + 1 < len then push_bit 8 (ucast (buf ! (k + 1))) else 0)
      in copy_out j (k + 2) len buf (write_word p c))"

definition ide_write_sector :: "nat \<Rightarrow> u32 \<Rightarrow> bytes \<Rightarrow> nat \<Rightarrow> card \<Rightarrow> bool \<times> card" where
  "ide_write_sector dev start buf len c =
     (let (ok, c1) = wait_for_idle c
      in if \<not> ok then (False, c1)
         else
           (let c2 = write_reg IDE_REG_COMMAND 0x30 (set_lba dev start c1);
                (ok, c3) = wait_for_drq c2
            in if \<not> ok then (False, c3) else (True, copy_out 256 0 len buf c3)))"

text \<open>The disk functions; \<open>len\<close> counts blocks of \<open>block_size\<close> bytes. The results are the error code and the data.\<close>

definition alt_avalon_cf_read :: "nat \<Rightarrow> u32 \<Rightarrow> u32 \<Rightarrow> u32 \<Rightarrow> card \<Rightarrow> int \<times> bytes \<times> card" where
  "alt_avalon_cf_read chan block_size len block_num c =
     (case ide_read_sector chan block_num (unat (len * block_size)) c of
        (None, c1) \<Rightarrow> (- 5, [], c1)
      | (Some b, c1) \<Rightarrow> (0, b, c1))"

definition alt_avalon_cf_write :: "nat \<Rightarrow> u32 \<Rightarrow> u32 \<Rightarrow> u32 \<Rightarrow> bytes \<Rightarrow> card \<Rightarrow> int \<times> card" where
  "alt_avalon_cf_write chan block_size len block_num buf c =
     (case ide_write_sector chan block_num buf (unat (len * block_size)) c of
        (False, c1) \<Rightarrow> (- 5, c1)
      | (True, c1) \<Rightarrow> (0, c1))"

definition alt_avalon_cf_get_config :: int where "alt_avalon_cf_get_config = - 22"
definition alt_avalon_cf_set_config :: int where "alt_avalon_cf_set_config = - 22"

subsection \<open>Hot plugging\<close>

record cyg_disk_identify =
  serial :: bytes
  firmware_rev :: bytes
  model_num :: bytes
  cylinders_num :: u16
  heads_num :: u16
  sectors_num :: u16
  lba_sectors_num :: u32
  phys_block_size :: u32

definition disk_ident :: "u16 list \<Rightarrow> cyg_disk_identify" where
  "disk_ident id_buf =
     \<lparr>serial = id_strcpy (drop 10 id_buf) 20, firmware_rev = id_strcpy (drop 23 id_buf) 8,
      model_num = id_strcpy (drop 27 id_buf) 40, cylinders_num = id_buf ! 1, heads_num = id_buf ! 3,
      sectors_num = id_buf ! 6,
      lba_sectors_num = push_bit 16 (ucast (id_buf ! 61)) OR ucast (id_buf ! 60),
      phys_block_size = 512\<rparr>"

text \<open>
  The interface: the card, the registered channels, what the disk layer has been told of each
  channel, the writes to the control register and whether the interrupt is masked. The callbacks:
  \<open>disk_init chan\<close> succeeds or not (and then marks the channel initialised);
  \<open>disk_connected chan ident\<close> is an error code.
\<close>

record cf =
  cf_card :: card
  init_done :: bool
  registered :: "nat set"
  chan_init :: "nat set"
  connected :: "nat \<Rightarrow> cyg_disk_identify option"
  ctl_writes :: "u32 list"
  irq_masked :: bool

record disk_layer =
  disk_init :: "nat \<Rightarrow> bool"
  disk_connected :: "nat \<Rightarrow> cyg_disk_identify \<Rightarrow> int"

abbreviation (input) POWER_MSK :: u32 where "POWER_MSK \<equiv> 2"
abbreviation (input) RESET_MSK :: u32 where "RESET_MSK \<equiv> 4"
abbreviation (input) IRQ_EN_MSK :: u32 where "IRQ_EN_MSK \<equiv> 8"

definition alt_avalon_cf_insert :: "disk_layer \<Rightarrow> nat \<Rightarrow> cf \<Rightarrow> bool \<times> cf" where
  "alt_avalon_cf_insert L chan s =
     (let (there, c1) = ide_presence_detect chan (cf_card s); s1 = s\<lparr>cf_card := c1\<rparr>
      in if \<not> there then (False, s1)
         else
           (let (id_buf, c2) = ide_ident chan c1; s2 = s1\<lparr>cf_card := c2\<rparr>
            in case id_buf of
                 None \<Rightarrow> (False, s2)
               | Some ws \<Rightarrow>
                   (if \<not> disk_init L chan then (False, s2)
                    else
                      (let s3 = s2\<lparr>chan_init := insert chan (chan_init s2)\<rparr>
                       in if disk_connected L chan (disk_ident ws) \<noteq> 0 then (False, s3)
                          else (True, s3\<lparr>connected := (connected s3)(chan := Some (disk_ident ws))\<rparr>)))))"

definition ctl_write :: "u32 \<Rightarrow> cf \<Rightarrow> cf" where
  "ctl_write v s = s\<lparr>ctl_writes := ctl_writes s @ [v]\<rparr>"

definition alt_avalon_cf_reset :: "cf \<Rightarrow> cf" where
  "alt_avalon_cf_reset s = ctl_write POWER_MSK (ctl_write (POWER_MSK OR RESET_MSK) s)"

definition disk_disconnected :: "nat \<Rightarrow> cf \<Rightarrow> cf" where
  "disk_disconnected chan s = s\<lparr>connected := (connected s)(chan := None)\<rparr>"

definition altera_avalon_cf_ISR :: "cf \<Rightarrow> cf" where
  "altera_avalon_cf_ISR s = s\<lparr>irq_masked := True\<rparr>"

definition insert_or_drop :: "disk_layer \<Rightarrow> nat \<Rightarrow> cf \<Rightarrow> cf" where
  "insert_or_drop L chan s =
     (if chan \<in> registered s then
        (let (ok, s1) = alt_avalon_cf_insert L chan s in if ok then s1 else disk_disconnected chan s1)
      else s)"

definition drop_channel :: "nat \<Rightarrow> cf \<Rightarrow> cf" where
  "drop_channel chan s = (if chan \<in> registered s then disk_disconnected chan s else s)"

text \<open>\<open>present\<close> is the present bit of the control interface.\<close>

definition altera_avalon_cf_DSR :: "disk_layer \<Rightarrow> bool \<Rightarrow> cf \<Rightarrow> cf" where
  "altera_avalon_cf_DSR L present s =
     (let s1 = (if present then fold (insert_or_drop L) [0, 1] (alt_avalon_cf_reset s)
                else fold drop_channel [0, 1] s)
      in s1\<lparr>irq_masked := False\<rparr>)"

definition alt_avalon_cf_init :: "disk_layer \<Rightarrow> nat \<Rightarrow> cf \<Rightarrow> bool \<times> cf" where
  "alt_avalon_cf_init L chan s =
     (if chan \<in> chan_init s then (True, s)
      else
        (let s1 = ctl_write POWER_MSK s;
             s2 = (if \<not> init_done s1 then alt_avalon_cf_reset s1 else s1);
             s3 = s2\<lparr>registered := insert chan (registered s2)\<rparr>;
             (rval, s4) = alt_avalon_cf_insert L chan s3
         in (rval, if \<not> init_done s4
                   then (ctl_write (POWER_MSK + IRQ_EN_MSK) s4)\<lparr>irq_masked := False, init_done := True\<rparr>
                   else s4)))"

end
