(* ===== verification/Cf_Correct.thy ===== *)
theory Cf_Correct
  imports Cf_Disk
begin

text \<open>
  What the CompactFlash driver achieves: a sector that was written is read back, other sectors stay,
  and after an insert or remove interrupt the disk layer knows exactly the cards that are there.
\<close>

unbundle bit_operations_syntax

subsection \<open>Waiting\<close>

text \<open>A card between commands, that never stays busy for as long as the driver polls.\<close>

definition card_ok :: "card \<Rightarrow> bool" where
  "card_ok c \<longleftrightarrow> (\<forall>n. length (cd_sectors c n) = 256) \<and> length (cd_ident c) = 256 \<and> cd_phase c = Ready \<and>
     cd_busy c < 1000000 \<and> (\<forall>n \<in> set (cd_pace c). n < 1000000) \<and> cd_chan c < 2"

lemma poll_idle: "cd_busy c < n \<Longrightarrow> poll_idle n c = (True, c\<lparr>cd_busy := 0\<rparr>)"
  by (induction n arbitrary: c) (auto simp: read_status_def)

lemma poll_drq: "cd_busy c < n \<Longrightarrow> poll_drq n c = (selected c \<and> cd_phase c \<noteq> Ready, c\<lparr>cd_busy := 0\<rparr>)"
  by (induction n arbitrary: c) (auto simp: read_status_def selected_def)

lemma wait_for_idle: "cd_busy c < 1000000 \<Longrightarrow> wait_for_idle c = (True, c\<lparr>cd_busy := 0\<rparr>)"
  unfolding wait_for_idle_def by (rule poll_idle)

lemma wait_for_drq: "cd_busy c < 1000000 \<Longrightarrow> wait_for_drq c = (selected c \<and> cd_phase c \<noteq> Ready, c\<lparr>cd_busy := 0\<rparr>)"
  unfolding wait_for_drq_def by (rule poll_drq)

lemma work_simps [simp]:
  "cd_sectors (work ph c) = cd_sectors c" "cd_size (work ph c) = cd_size c" "cd_ident (work ph c) = cd_ident c"
  "cd_chan (work ph c) = cd_chan c" "cd_there (work ph c) = cd_there c" "cd_regs (work ph c) = cd_regs c"
  "cd_phase (work ph c) = ph" "selected (work ph c) = selected c"
  by (simp_all add: work_def selected_def)

lemma work_busy: "\<forall>n \<in> set (cd_pace c). n < 1000000 \<Longrightarrow> cd_busy (work ph c) < 1000000 \<and> (\<forall>n \<in> set (cd_pace (work ph c)). n < 1000000)"
  by (auto simp: work_def split: list.splits dest: list.set_sel(2))

subsection \<open>Addressing\<close>

lemma write_reg_simps [simp]:
  "r \<noteq> 7 \<Longrightarrow> write_reg r v c = c\<lparr>cd_regs := (cd_regs c)(r := v)\<rparr>"
  "write_reg 7 v c = command v c"
  by (simp_all add: write_reg_def)

definition lba_regs :: "nat \<Rightarrow> u32 \<Rightarrow> (nat \<Rightarrow> u8) \<Rightarrow> nat \<Rightarrow> u8" where
  "lba_regs dev start regs = regs(2 := 1, 3 := ucast (start AND 0xFF), 4 := ucast (drop_bit 8 start AND 0xFF),
     5 := ucast (drop_bit 16 start AND 0xFF),
     6 := ucast (drop_bit 24 start AND 0xF) OR push_bit 4 (of_nat dev) OR 0x40)"

lemma set_lba_eq: "set_lba dev start c = c\<lparr>cd_regs := lba_regs dev start (cd_regs c)\<rparr>"
  by (simp add: set_lba_def lba_regs_def)

lemma unat_take_field: "n \<le> 8 \<Longrightarrow> unat (ucast (take_bit n (drop_bit k (start :: u32))) :: u8) = unat start div 2 ^ k mod 2 ^ n"
proof -
  assume n: "n \<le> 8"
  have "take_bit 32 (unat start) = unat start" using unsigned_less [of start, where 'a = nat] by (simp add: take_bit_nat_eq_self_iff)
  with n have "unat (ucast (take_bit n (drop_bit k start)) :: u8) = take_bit n (drop_bit k (unat start))"
    by (simp add: unsigned_ucast_eq unsigned_take_bit_eq unsigned_drop_bit_eq min_def)
  then show ?thesis by (simp only: take_bit_eq_mod drop_bit_eq_div)
qed

lemma unat_byte_field: "unat (ucast (drop_bit k (start :: u32) AND 0xFF) :: u8) = unat start div 2 ^ k mod 256"
proof -
  have "(0xFF :: u32) = mask 8" by (simp add: mask_numeral)
  then have "drop_bit k start AND 0xFF = take_bit 8 (drop_bit k start)" by (simp only: take_bit_eq_mask)
  then show ?thesis using unat_take_field [of 8 k start] by simp
qed

lemma unat_nibble_field: "unat (ucast (drop_bit k (start :: u32) AND 0xF) :: u8) = unat start div 2 ^ k mod 16"
proof -
  have "(0xF :: u32) = mask 4" by (simp add: mask_numeral)
  then have "drop_bit k start AND 0xF = take_bit 4 (drop_bit k start)" by (simp only: take_bit_eq_mask)
  then show ?thesis using unat_take_field [of 4 k start] by simp
qed

lemma low_nibble_or:
  fixes d u :: u8
  assumes "d = 0x40 \<or> d = 0x50" "unat u < 16"
  shows "(u OR d) AND 0xF = u" "drop_bit 4 (u OR d) AND 1 = (if d = 0x40 then 0 else 1)"
proof -
  have "(0xF :: u8) = mask 4" by (simp add: mask_numeral)
  moreover have "take_bit 4 u = u"
    using assms(2) by (intro word_unat_eq_iff [THEN iffD2]) (simp add: unsigned_take_bit_eq take_bit_nat_eq_self_iff flip: take_bit_eq_mod)
  ultimately have u: "u AND 0xF = u" by (metis take_bit_eq_mask)
  show "(u OR d) AND 0xF = u"
    using assms(1) u by (auto simp: bit.conj_disj_distrib2)
  have "drop_bit 4 u = 0"
    using assms(2) by (intro word_unat_eq_iff [THEN iffD2]) (simp only: unsigned_drop_bit_eq, simp add: drop_bit_eq_div take_bit_eq_mod)
  then show "drop_bit 4 (u OR d) AND 1 = (if d = 0x40 then 0 else 1)"
    using assms(1) by (auto simp: drop_bit_or)
qed

lemma device_reg:
  assumes "dev < 2"
  shows "unat ((ucast (drop_bit 24 (start :: u32) AND 0xF) OR push_bit 4 (of_nat dev) OR 0x40 :: u8) AND 0xF) = unat start div 2 ^ 24 mod 16"
    "unat (drop_bit 4 (ucast (drop_bit 24 (start :: u32) AND 0xF) OR push_bit 4 (of_nat dev) OR 0x40 :: u8) AND 1) = dev"
proof -
  let ?u = "ucast (drop_bit 24 start AND 0xF) :: u8"
  have u: "unat ?u = unat start div 2 ^ 24 mod 16" by (rule unat_nibble_field)
  then have small: "unat ?u < 16" by simp
  have dev: "dev = 0 \<or> dev = 1" using assms by auto
  have d: "push_bit 4 (of_nat dev :: u8) OR 0x40 = (if dev = 0 then 0x40 else 0x50)" using dev by auto
  show "unat ((?u OR push_bit 4 (of_nat dev) OR 0x40) AND 0xF) = unat start div 2 ^ 24 mod 16"
    unfolding or.assoc d by (subst low_nibble_or(1) [OF _ small]) (simp_all only: u split: if_splits, simp)
  show "unat (drop_bit 4 (?u OR push_bit 4 (of_nat dev) OR 0x40) AND 1) = dev"
    unfolding or.assoc d by (subst low_nibble_or(2) [OF _ small]) (use dev in auto)
qed

lemma lba_regs_at:
  "lba_regs dev start r 3 = ucast (drop_bit 0 start AND 0xFF)" "lba_regs dev start r 4 = ucast (drop_bit 8 start AND 0xFF)"
  "lba_regs dev start r 5 = ucast (drop_bit 16 start AND 0xFF)"
  "lba_regs dev start r 6 = ucast (drop_bit 24 start AND 0xF) OR push_bit 4 (of_nat dev) OR 0x40"
  by (simp_all add: lba_regs_def)

lemma set_regs:
  "cd_regs (c\<lparr>cd_regs := f\<rparr>) = f" "cd_there (c\<lparr>cd_regs := f\<rparr>) = cd_there c" "cd_chan (c\<lparr>cd_regs := f\<rparr>) = cd_chan c"
  by simp_all

lemma join_fields: "(x :: nat) div 2 ^ 24 mod 16 * 2 ^ 24 + x div 2 ^ 16 mod 256 * 2 ^ 16 + x div 2 ^ 8 mod 256 * 2 ^ 8 + x div 2 ^ 0 mod 256 = x mod 2 ^ 28"
proof -
  have "x mod 2 ^ 28 = x mod 2 ^ 24 + 2 ^ 24 * (x div 2 ^ 24 mod 16)" using mod_mult2_eq [of x "2 ^ 24" 16] by simp
  moreover have "x mod 2 ^ 24 = x mod 2 ^ 16 + 2 ^ 16 * (x div 2 ^ 16 mod 256)" using mod_mult2_eq [of x "2 ^ 16" 256] by simp
  moreover have "x mod 2 ^ 16 = x mod 256 + 2 ^ 8 * (x div 2 ^ 8 mod 256)" using mod_mult2_eq [of x 256 256] by simp
  ultimately show ?thesis by simp
qed

lemma lba_lba_regs: "dev < 2 \<Longrightarrow> lba (c\<lparr>cd_regs := lba_regs dev start r\<rparr>) = unat start mod 2 ^ 28"
  unfolding lba_def by (simp only: set_regs lba_regs_at device_reg unat_byte_field join_fields)

lemma selected_lba_regs: "dev < 2 \<Longrightarrow> selected (c\<lparr>cd_regs := lba_regs dev start r\<rparr>) \<longleftrightarrow> cd_there c \<and> dev = cd_chan c"
  unfolding selected_def by (simp only: set_regs lba_regs_at device_reg)

subsection \<open>The data port\<close>

definition word_bytes :: "u16 \<Rightarrow> bytes" where
  "word_bytes p = [ucast (p AND 0xFF), ucast (drop_bit 8 p AND 0xFF)]"

definition bytes_of :: "u16 list \<Rightarrow> bytes" where
  "bytes_of ws = concat (map word_bytes ws)"

lemma bytes_of_simps [simp]: "bytes_of [] = []" "bytes_of (w # ws) = word_bytes w @ bytes_of ws"
  by (simp_all add: bytes_of_def)

lemma take_word_bytes:
  "take (len - k) (word_bytes w @ xs) =
     (if k < len then [ucast (w AND 0xFF)] else []) @ (if k + 1 < len then [ucast (drop_bit 8 w AND 0xFF)] else []) @
     take (len - (k + 2)) xs"
proof -
  have "len - k = (if k < len then Suc (if k + 1 < len then Suc (len - (k + 2)) else 0) else 0)" by auto
  then show ?thesis by (simp add: word_bytes_def)
qed

lemma copy_in:
  "cd_phase c = (if ws = [] then Ready else Data_in ws) \<Longrightarrow>
     copy_in (length ws) k len c = (take (len - k) (bytes_of ws), c\<lparr>cd_phase := Ready\<rparr>)"
proof (induction ws arbitrary: c k)
  case Nil
  then show ?case by (cases c) simp
next
  case (Cons w ws)
  let ?c = "c\<lparr>cd_phase := (if ws = [] then Ready else Data_in ws)\<rparr>"
  have "read_word c = (w, ?c)" using Cons.prems by (simp add: read_word_def)
  moreover have "copy_in (length ws) (k + 2) len ?c = (take (len - (k + 2)) (bytes_of ws), c\<lparr>cd_phase := Ready\<rparr>)"
    using Cons.IH [of ?c "k + 2"] by simp
  ultimately have "copy_in (length (w # ws)) k len c =
      ((if k < len then [ucast (w AND 0xFF)] else []) @ (if k + 1 < len then [ucast (drop_bit 8 w AND 0xFF)] else []) @
       take (len - (k + 2)) (bytes_of ws), c\<lparr>cd_phase := Ready\<rparr>)"
    by (simp only: length_Cons copy_in.simps Let_def prod.case)
  then show ?case by (simp only: bytes_of_simps take_word_bytes)
qed

definition out_word :: "nat \<Rightarrow> bytes \<Rightarrow> nat \<Rightarrow> u16" where
  "out_word len buf k =
     (if k < len then ucast (buf ! k) else 0) OR (if k + 1 < len then push_bit 8 (ucast (buf ! (k + 1))) else 0)"

lemma copy_out_step: "copy_out (Suc j) k len buf c = copy_out j (k + 2) len buf (write_word (out_word len buf k) c)"
  by (simp only: copy_out.simps Let_def out_word_def)

lemma copy_out:
  assumes "cd_phase c = Data_out n ws" "length ws + Suc j = 256"
  shows "copy_out (Suc j) k len buf c =
     work Ready (c\<lparr>cd_sectors := (cd_sectors c)(n := ws @ map (\<lambda>i. out_word len buf (k + 2 * i)) [0..<Suc j])\<rparr>)"
  using assms
proof (induction j arbitrary: c ws k)
  case 0
  then show ?case by (simp add: copy_out_step write_word_def fun_upd_def del: copy_out.simps(2))
next
  case (Suc j)
  let ?c = "c\<lparr>cd_phase := Data_out n (ws @ [out_word len buf k])\<rparr>"
  have "copy_out (Suc (Suc j)) k len buf c = copy_out (Suc j) (k + 2) len buf ?c"
    using Suc.prems by (simp add: copy_out_step [of "Suc j"] write_word_def del: copy_out.simps)
  also have "\<dots> = work Ready (?c\<lparr>cd_sectors := (cd_sectors ?c)(n := (ws @ [out_word len buf k]) @
      map (\<lambda>i. out_word len buf (k + 2 + 2 * i)) [0..<Suc j])\<rparr>)"
    by (rule Suc.IH) (use Suc.prems in auto)
  also have "(ws @ [out_word len buf k]) @ map (\<lambda>i. out_word len buf (k + 2 + 2 * i)) [0..<Suc j] =
      ws @ map (\<lambda>i. out_word len buf (k + 2 * i)) [0..<Suc (Suc j)]"
    by (simp add: upt_conv_Cons map_Suc_upt [symmetric] del: upt_Suc)
  finally show ?case by (simp add: work_def)
qed

definition sector_byte :: "nat \<Rightarrow> bytes \<Rightarrow> nat \<Rightarrow> u8" where
  "sector_byte len buf k = (if k < len then buf ! k else 0)"

lemma split_word:
  fixes a b :: u8
  shows "ucast ((ucast a OR push_bit 8 (ucast b) :: u16) AND 0xFF) = a" "ucast (drop_bit 8 (ucast a OR push_bit 8 (ucast b) :: u16) AND 0xFF) = b"
proof -
  have m: "(0xFF :: u16) = mask 8" by (simp add: mask_numeral)
  have hi: "bit a n \<Longrightarrow> n < 8" for a :: u8 and n using bit_imp_le_length [of a n] by simp
  show "ucast ((ucast a OR push_bit 8 (ucast b) :: u16) AND 0xFF) = a"
    unfolding m by (rule bit_word_eqI) (auto simp: bit_simps simp del: mask_numeral)
  show "ucast (drop_bit 8 (ucast a OR push_bit 8 (ucast b) :: u16) AND 0xFF) = b"
    unfolding m by (rule bit_word_eqI) (auto simp: bit_simps simp del: mask_numeral dest: hi)
qed

lemma word_bytes_out_word: "word_bytes (out_word len buf k) = [sector_byte len buf k, sector_byte len buf (k + 1)]"
  using split_word [of "sector_byte len buf k" "sector_byte len buf (k + 1)"]
  by (simp add: word_bytes_def out_word_def sector_byte_def if_distrib [of ucast] if_distrib [of "push_bit 8"] cong: if_cong)

lemma bytes_of_out: "bytes_of (map (\<lambda>i. out_word len buf (2 * i)) [0..<n]) = map (sector_byte len buf) [0..<2 * n]"
  by (induction n) (simp_all add: bytes_of_def word_bytes_out_word)


subsection \<open>Sectors\<close>

definition sector :: "u32 \<Rightarrow> nat" where
  "sector start = unat start mod 2 ^ 28"

definition addressed :: "nat \<Rightarrow> u32 \<Rightarrow> card \<Rightarrow> bool" where
  "addressed dev start c \<longleftrightarrow> cd_there c \<and> dev = cd_chan c \<and> sector start < cd_size c"

definition same_card :: "card \<Rightarrow> card \<Rightarrow> bool" where
  "same_card c c' \<longleftrightarrow> cd_size c' = cd_size c \<and> cd_ident c' = cd_ident c \<and> cd_chan c' = cd_chan c \<and> cd_there c' = cd_there c"

lemma same_card_trans: "same_card c c' \<Longrightarrow> same_card c' c'' \<Longrightarrow> same_card c c''"
  by (simp add: same_card_def)

lemma same_card_refl [simp]: "same_card c c"
  by (simp add: same_card_def)

text \<open>A card that waits for the driver.\<close>

definition idle :: "card \<Rightarrow> card" where
  "idle c = c\<lparr>cd_busy := 0\<rparr>"

lemma idle_simps [simp]:
  "cd_sectors (idle c) = cd_sectors c" "cd_size (idle c) = cd_size c" "cd_ident (idle c) = cd_ident c"
  "cd_chan (idle c) = cd_chan c" "cd_there (idle c) = cd_there c" "cd_regs (idle c) = cd_regs c"
  "cd_phase (idle c) = cd_phase c" "cd_pace (idle c) = cd_pace c" "cd_busy (idle c) = 0" "selected (idle c) = selected c"
  by (simp_all add: idle_def selected_def)

text \<open>The start of a sector command: registers, command, and the wait for data.\<close>

definition started :: "nat \<Rightarrow> u32 \<Rightarrow> u8 \<Rightarrow> card \<Rightarrow> card" where
  "started dev start v c = idle (write_reg 7 v (set_lba dev start (idle c)))"

lemma card_okD:
  assumes "card_ok c"
  shows "length (cd_sectors c n) = 256" "length (cd_ident c) = 256" "cd_phase c = Ready" "cd_busy c < 1000000"
    "\<forall>n \<in> set (cd_pace c). n < 1000000" "cd_chan c < 2"
  using assms unfolding card_ok_def by simp_all

lemma start_command:
  assumes c: "card_ok c" and dev: "dev < 2" and v: "v = 0x20 \<or> v = 0x30"
  shows "wait_for_drq (write_reg 7 v (set_lba dev start (idle c))) = (addressed dev start c, started dev start v c)"
    and "addressed dev start c \<Longrightarrow> cd_phase (started dev start v c) =
      (if v = 0x20 then Data_in (cd_sectors c (sector start)) else Data_out (sector start) [])"
    and "\<not> addressed dev start c \<Longrightarrow> cd_phase (started dev start v c) = Ready"
    and "cd_sectors (started dev start v c) = cd_sectors c" "same_card c (started dev start v c)"
    and "cd_busy (started dev start v c) = 0" "\<forall>n \<in> set (cd_pace (started dev start v c)). n < 1000000"
proof -
  define r where "r = set_lba dev start (idle c)"
  have sel: "selected r \<longleftrightarrow> cd_there c \<and> dev = cd_chan c" and lba: "lba r = sector start"
    using selected_lba_regs [OF dev, where c = "idle c"] lba_lba_regs [OF dev, where c = "idle c"]
    by (simp_all add: r_def set_lba_eq sector_def)
  have r: "cd_sectors r = cd_sectors c" "cd_size r = cd_size c" "cd_ident r = cd_ident c" "cd_chan r = cd_chan c"
      "cd_there r = cd_there c" "cd_phase r = Ready" "cd_busy r = 0" "cd_pace r = cd_pace c"
    using card_okD(3) [OF c] by (simp_all add: r_def set_lba_eq)
  define ph where "ph = (if sector start < cd_size c
      then (if v = 0x20 then Data_in (cd_sectors c (sector start)) else Data_out (sector start) []) else Ready)"
  have w: "write_reg 7 v r = (if selected r then work ph r else r)"
    using v by (auto simp: command_def ph_def lba r)
  have busy: "cd_busy (write_reg 7 v r) < 1000000" "\<forall>n \<in> set (cd_pace (write_reg 7 v r)). n < 1000000"
    using work_busy [of r ph] card_okD(5) [OF c] by (simp_all add: w r del: write_reg_simps)
  have ph: "ph \<noteq> Ready \<longleftrightarrow> sector start < cd_size c" by (simp add: ph_def)
  have d: "started dev start v c = idle (write_reg 7 v r)" by (simp add: started_def r_def)
  show "wait_for_drq (write_reg 7 v (set_lba dev start (idle c))) = (addressed dev start c, started dev start v c)"
    unfolding d r_def [symmetric] wait_for_drq [OF busy(1)] idle_def [symmetric]
    by (auto simp: w sel r ph addressed_def simp del: write_reg_simps)
  show "addressed dev start c \<Longrightarrow> cd_phase (started dev start v c) =
      (if v = 0x20 then Data_in (cd_sectors c (sector start)) else Data_out (sector start) [])"
    "\<not> addressed dev start c \<Longrightarrow> cd_phase (started dev start v c) = Ready"
    unfolding d by (auto simp: w sel r ph_def addressed_def simp del: write_reg_simps)
  show "cd_sectors (started dev start v c) = cd_sectors c" "same_card c (started dev start v c)"
    "cd_busy (started dev start v c) = 0" "\<forall>n \<in> set (cd_pace (started dev start v c)). n < 1000000"
    using busy(2) unfolding d by (simp_all add: w r same_card_def del: write_reg_simps)
qed

lemma card_ok_after:
  assumes "card_ok c" "same_card c c'" "cd_phase c' = Ready" "cd_busy c' < 1000000" "\<forall>n \<in> set (cd_pace c'). n < 1000000"
    "\<And>n. length (cd_sectors c' n) = 256"
  shows "card_ok c'"
  using assms unfolding card_ok_def same_card_def by simp

lemma ide_read_sector:
  assumes c: "card_ok c" and dev: "dev < 2"
  shows "\<exists>c'. ide_read_sector dev start len c =
      (if addressed dev start c then Some (take len (bytes_of (cd_sectors c (sector start)))) else None, c') \<and>
      card_ok c' \<and> same_card c c' \<and> cd_sectors c' = cd_sectors c"
proof -
  note st = start_command [OF c dev, of "0x20" start, simplified]
  let ?d = "started dev start 0x20 c"
  let ?c = "if addressed dev start c then ?d\<lparr>cd_phase := Ready\<rparr> else ?d"
  have "ide_read_sector dev start len c =
      (if addressed dev start c then Some (take len (bytes_of (cd_sectors c (sector start)))) else None, ?c)"
  proof (cases "addressed dev start c")
    case True
    have "cd_sectors c (sector start) \<noteq> []" using card_okD(1) [OF c, of "sector start"] by auto
    then have "copy_in 256 0 len ?d = (take len (bytes_of (cd_sectors c (sector start))), ?d\<lparr>cd_phase := Ready\<rparr>)"
      using copy_in [of ?d "cd_sectors c (sector start)" 0 len] st(2) True card_okD(1) [OF c, of "sector start"] by simp
    then show ?thesis using True c st(1)
      by (simp add: ide_read_sector_def wait_for_idle card_okD flip: idle_def)
  next
    case False
    then show ?thesis using c st(1) by (simp add: ide_read_sector_def wait_for_idle card_okD flip: idle_def)
  qed
  moreover have "same_card c ?c" "cd_sectors ?c = cd_sectors c"
    using st(4,5) by (simp_all add: same_card_def)
  moreover have "card_ok ?c"
    by (rule card_ok_after [OF c \<open>same_card c ?c\<close>]) (use st c in \<open>simp_all add: card_okD\<close>)
  ultimately show ?thesis by blast
qed

lemma ide_write_sector:
  assumes c: "card_ok c" and dev: "dev < 2"
  shows "\<exists>c'. ide_write_sector dev start buf len c = (addressed dev start c, c') \<and> card_ok c' \<and> same_card c c' \<and>
      cd_sectors c' = (if addressed dev start c
        then (cd_sectors c)(sector start := map (\<lambda>i. out_word len buf (2 * i)) [0..<256]) else cd_sectors c)"
proof -
  note st = start_command [OF c dev, of "0x30" start, simplified]
  let ?d = "started dev start 0x30 c"
  let ?w = "map (\<lambda>i. out_word len buf (2 * i)) [0..<256]"
  let ?c = "if addressed dev start c then work Ready (?d\<lparr>cd_sectors := (cd_sectors ?d)(sector start := ?w)\<rparr>) else ?d"
  have "ide_write_sector dev start buf len c = (addressed dev start c, ?c)"
  proof (cases "addressed dev start c")
    case True
    have "copy_out 256 0 len buf ?d = ?c"
      using copy_out [of ?d "sector start" "[]" 255 0 len buf] st(2) True by simp
    then show ?thesis using True c st(1)
      by (simp add: ide_write_sector_def wait_for_idle card_okD flip: idle_def)
  next
    case False
    then show ?thesis using c st(1) by (simp add: ide_write_sector_def wait_for_idle card_okD flip: idle_def)
  qed
  moreover have "same_card c ?c" "cd_sectors ?c = (if addressed dev start c then (cd_sectors c)(sector start := ?w) else cd_sectors c)"
    using st(4,5) by (simp_all add: same_card_def)
  moreover have "card_ok ?c"
    by (rule card_ok_after [OF c \<open>same_card c ?c\<close>])
      (use st c work_busy [of "?d\<lparr>cd_sectors := (cd_sectors ?d)(sector start := ?w)\<rparr>" Ready] in \<open>simp_all add: card_okD\<close>)
  ultimately show ?thesis by blast
qed


subsection \<open>The disk functions\<close>

lemma bytes_of_written:
  assumes "len \<le> length buf"
  shows "take len (bytes_of (map (\<lambda>i. out_word len buf (2 * i)) [0..<256])) = take 512 (take len buf)"
  unfolding bytes_of_out using assms by (intro nth_equalityI) (auto simp: sector_byte_def)

lemma cf_write:
  assumes "card_ok c" "dev < 2"
  shows "\<exists>c'. alt_avalon_cf_write dev bs n start buf c = (if addressed dev start c then 0 else - 5, c') \<and>
      card_ok c' \<and> same_card c c' \<and> cd_sectors c' = (if addressed dev start c
        then (cd_sectors c)(sector start := map (\<lambda>i. out_word (unat (n * bs)) buf (2 * i)) [0..<256]) else cd_sectors c)"
  using ide_write_sector [OF assms, of start buf "unat (n * bs)"] by (auto simp: alt_avalon_cf_write_def split: prod.splits bool.splits)

lemma cf_read:
  assumes "card_ok c" "dev < 2"
  shows "\<exists>c'. alt_avalon_cf_read dev bs n start c =
      (if addressed dev start c then (0, take (unat (n * bs)) (bytes_of (cd_sectors c (sector start))), c') else (- 5, [], c')) \<and>
      card_ok c' \<and> same_card c c' \<and> cd_sectors c' = cd_sectors c"
  using ide_read_sector [OF assms, of start "unat (n * bs)"] by (auto simp: alt_avalon_cf_read_def split: prod.splits option.splits if_splits)

definition blank_card :: card where
  "blank_card = \<lparr>cd_sectors = (\<lambda>_. replicate 256 0), cd_size = 8, cd_ident = replicate 256 0x4142, cd_chan = 0,
     cd_there = True, cd_regs = (\<lambda>_. 0), cd_phase = Ready, cd_busy = 3, cd_pace = [5, 7]\<rparr>"

lemma blank_card: "card_ok blank_card" "addressed 0 5 blank_card" "\<not> addressed 0 9 blank_card"
  by (simp_all add: card_ok_def addressed_def blank_card_def sector_def)

text \<open>
  C22: a sector written is read back. For a card that is there and a sector of it, writing \<open>n\<close>
  blocks succeeds, and reading them then returns what was written, as far as it fits into one sector:
  the driver moves at most 512 bytes whatever the number of blocks, yet reports success. All
  other sectors keep their contents. Sector numbers are taken modulo 2 to the 28.
\<close>

theorem cf_write_then_read:
  assumes "card_ok c" "addressed dev start c" "unat (n * bs) \<le> length buf"
  shows "\<exists>c' c''. alt_avalon_cf_write dev bs n start buf c = (0, c') \<and>
      alt_avalon_cf_read dev bs n start c' = (0, take 512 (take (unat (n * bs)) buf), c'') \<and>
      (\<forall>k. k \<noteq> sector start \<longrightarrow> cd_sectors c'' k = cd_sectors c k) \<and> card_ok c''"
proof -
  have dev: "dev < 2" using assms(1,2) by (simp add: card_ok_def addressed_def)
  let ?w = "map (\<lambda>i. out_word (unat (n * bs)) buf (2 * i)) [0..<256]"
  obtain c' where w: "alt_avalon_cf_write dev bs n start buf c = (0, c')" and c': "card_ok c'" "same_card c c'"
      and s: "cd_sectors c' = (cd_sectors c)(sector start := ?w)"
    using cf_write [OF assms(1) dev, of bs n start buf] assms(2) by auto
  have "addressed dev start c'" using assms(2) c'(2) by (simp add: addressed_def same_card_def)
  then obtain c'' where r: "alt_avalon_cf_read dev bs n start c' = (0, take (unat (n * bs)) (bytes_of (cd_sectors c' (sector start))), c'')"
      and c'': "card_ok c''" "cd_sectors c'' = cd_sectors c'"
    using cf_read [OF c'(1) dev, of bs n start] by auto
  have "take (unat (n * bs)) (bytes_of (cd_sectors c' (sector start))) = take 512 (take (unat (n * bs)) buf)"
    unfolding s using bytes_of_written [OF assms(3)] by simp
  then show ?thesis using w r c'' s by auto
qed

theorem cf_write_then_read_witness:
  "\<exists>c' c''. alt_avalon_cf_write 0 512 1 5 (replicate 512 7) blank_card = (0, c') \<and>
     alt_avalon_cf_read 0 512 1 5 c' = (0, replicate 512 7, c'')"
  using cf_write_then_read [OF blank_card(1,2), of 1 512 "replicate 512 7"] by auto

text \<open>
  The error behaviour of the disk functions: on a working or absent card, both end, with
  \<^verbatim>\<open>-EIO\<close> exactly when no card answers on the channel or the sector does not exist, and
  then nothing of the card has changed.
\<close>

theorem cf_io_error:
  assumes "card_ok c" "dev < 2" "\<not> addressed dev start c"
  shows "fst (alt_avalon_cf_write dev bs n start buf c) = - 5 \<and>
      fst (alt_avalon_cf_read dev bs n start c) = - 5 \<and>
      cd_sectors (snd (alt_avalon_cf_write dev bs n start buf c)) = cd_sectors c \<and>
      card_ok (snd (alt_avalon_cf_write dev bs n start buf c))"
  using cf_write [OF assms(1,2), of bs n start buf] cf_read [OF assms(1,2), of bs n start] assms(3) by auto


theorem cf_io_error_witness: "fst (alt_avalon_cf_read 0 512 1 9 blank_card) = - 5"
  using cf_io_error [OF blank_card(1) _ blank_card(3), of 512 1 "[]"] by simp

subsection \<open>Hot plugging\<close>

lemma read_words:
  "cd_phase c = (if ws = [] then Ready else Data_in ws) \<Longrightarrow> read_words (length ws) c = (ws, c\<lparr>cd_phase := Ready\<rparr>)"
proof (induction ws arbitrary: c)
  case Nil
  then show ?case by (cases c) simp
next
  case (Cons w ws)
  let ?c = "c\<lparr>cd_phase := (if ws = [] then Ready else Data_in ws)\<rparr>"
  have "read_word c = (w, ?c)" using Cons.prems by (simp add: read_word_def)
  then show ?case using Cons.IH [of ?c] by simp
qed

lemma channel_bit:
  assumes "dev < 2"
  shows "unat (drop_bit 4 (push_bit 4 (of_nat dev) :: u8) AND 1) = dev"
    "unat (drop_bit 4 (push_bit 4 (of_nat dev) OR 0xA0 :: u8) AND 1) = dev" "(push_bit 4 (of_nat dev) OR 0xA0 :: u8) \<noteq> 0"
proof -
  have "dev = 0 \<or> dev = 1" using assms by auto
  then show "unat (drop_bit 4 (push_bit 4 (of_nat dev) :: u8) AND 1) = dev"
    "unat (drop_bit 4 (push_bit 4 (of_nat dev) OR 0xA0 :: u8) AND 1) = dev" "(push_bit 4 (of_nat dev) OR 0xA0 :: u8) \<noteq> 0"
    by auto
qed

lemma ide_presence_detect:
  assumes "card_ok c" "dev < 2"
  shows "\<exists>c'. ide_presence_detect dev c = (cd_there c \<and> dev = cd_chan c, c') \<and> card_ok c' \<and> same_card c c' \<and> cd_sectors c' = cd_sectors c"
  using assms channel_bit [OF assms(2)]
  by (auto simp: ide_presence_detect_def selected_def Let_def card_ok_def same_card_def simp del: drop_bit_or)

lemma ide_ident:
  assumes c: "card_ok c" and dev: "dev < 2"
  shows "\<exists>c'. ide_ident dev c = (if cd_there c \<and> dev = cd_chan c then Some (cd_ident c) else None, c') \<and>
      card_ok c' \<and> same_card c c' \<and> cd_sectors c' = cd_sectors c"
proof -
  define r where "r = write_reg 6 (push_bit 4 (of_nat dev)) (idle c)"
  have sel: "selected r \<longleftrightarrow> cd_there c \<and> dev = cd_chan c"
    using channel_bit(1) [OF dev] by (auto simp: r_def selected_def simp del: drop_bit_push_bit)
  have r: "cd_sectors r = cd_sectors c" "same_card c r" "cd_phase r = Ready" "cd_busy r = 0" "cd_pace r = cd_pace c" "cd_ident r = cd_ident c"
    using card_okD(3) [OF c] by (simp_all add: r_def same_card_def)
  define w where "w = write_reg 7 0xEC r"
  have w: "w = (if selected r then work (Data_in (cd_ident c)) r else r)"
    by (simp add: w_def command_def r)
  have busy: "cd_busy w < 1000000" "\<forall>n \<in> set (cd_pace w). n < 1000000"
    using work_busy [of r "Data_in (cd_ident c)"] card_okD(5) [OF c] by (simp_all add: w r)
  let ?c = "(idle w)\<lparr>cd_phase := Ready\<rparr>"
  have same: "same_card c ?c" "cd_sectors ?c = cd_sectors c"
    using r(1,2) by (simp_all add: w same_card_def)
  have ok: "card_ok ?c"
    by (rule card_ok_after [OF c same(1)]) (use busy(2) same(2) card_okD(1) [OF c] in simp_all)
  have sw: "(selected w \<and> cd_phase w \<noteq> Ready) = selected r" by (simp add: w r(3))
  have "ide_ident dev c = (if selected r then Some (cd_ident c) else None, ?c)"
  proof (cases "selected r")
    case True
    have "cd_ident c \<noteq> []" using card_okD(2) [OF c] by auto
    then have "read_words 256 (idle w) = (cd_ident c, ?c)"
      using read_words [of "idle w" "cd_ident c"] card_okD(2) [OF c] True by (simp add: w)
    then show ?thesis
      using True sw unfolding ide_ident_def wait_for_drq [OF card_okD(4) [OF c]] idle_def [symmetric]
      by (simp add: wait_for_drq [OF busy(1)] del: write_reg_simps flip: idle_def r_def w_def)
  next
    case False
    moreover have "?c = idle w" using False r(3) by (cases w) (simp add: w idle_def)
    ultimately show ?thesis
      using False sw unfolding ide_ident_def wait_for_drq [OF card_okD(4) [OF c]] idle_def [symmetric]
      by (simp add: wait_for_drq [OF busy(1)] del: write_reg_simps de_Morgan_conj not_imp flip: idle_def r_def w_def)
  qed
  then show ?thesis using sel ok same by auto
qed


text \<open>A card on channel \<open>chan\<close> that answers and that the disk layer takes.\<close>

definition plugged :: "disk_layer \<Rightarrow> nat \<Rightarrow> card \<Rightarrow> bool" where
  "plugged L chan c \<longleftrightarrow> cd_there c \<and> chan = cd_chan c \<and> disk_init L chan \<and> disk_connected L chan (disk_ident (cd_ident c)) = 0"

definition same_cf :: "cf \<Rightarrow> cf \<Rightarrow> bool" where
  "same_cf s s' \<longleftrightarrow> card_ok (cf_card s') \<and> same_card (cf_card s) (cf_card s') \<and>
     cd_sectors (cf_card s') = cd_sectors (cf_card s) \<and> registered s' = registered s \<and> init_done s' = init_done s"

lemma same_cf_trans: "same_cf s s' \<Longrightarrow> same_cf s' s'' \<Longrightarrow> same_cf s s''"
  by (simp add: same_cf_def same_card_def)

lemma plugged_same: "same_cf s s' \<Longrightarrow> plugged L chan (cf_card s') = plugged L chan (cf_card s)"
  "same_cf s s' \<Longrightarrow> cd_ident (cf_card s') = cd_ident (cf_card s)"
  by (simp_all add: same_cf_def same_card_def plugged_def)

lemma alt_avalon_cf_insert:
  assumes "card_ok (cf_card s)" "chan < 2"
  shows "\<exists>s'. alt_avalon_cf_insert L chan s = (plugged L chan (cf_card s), s') \<and> same_cf s s' \<and>
      connected s' = (if plugged L chan (cf_card s)
        then (connected s)(chan := Some (disk_ident (cd_ident (cf_card s)))) else connected s) \<and>
      ctl_writes s' = ctl_writes s"
proof -
  define t where "t \<longleftrightarrow> cd_there (cf_card s) \<and> chan = cd_chan (cf_card s)"
  obtain c1 where c1: "ide_presence_detect chan (cf_card s) = (t, c1)" "card_ok c1" "same_card (cf_card s) c1"
      "cd_sectors c1 = cd_sectors (cf_card s)"
    using ide_presence_detect [OF assms] unfolding t_def by blast
  then obtain c2 where c2: "ide_ident chan c1 = (if t then Some (cd_ident (cf_card s)) else None, c2)" "card_ok c2"
      "same_card c1 c2" "cd_sectors c2 = cd_sectors c1"
    using ide_ident [OF c1(2) assms(2)] unfolding t_def by (auto simp: same_card_def)
  have "same_card (cf_card s) c2" using same_card_trans c1(3) c2(3) by blast
  moreover have "plugged L chan (cf_card s) \<longleftrightarrow> t \<and> disk_init L chan \<and> disk_connected L chan (disk_ident (cd_ident (cf_card s))) = 0"
    by (simp add: plugged_def t_def)
  ultimately show ?thesis using c1 c2
    by (cases t; cases "disk_init L chan"; cases "disk_connected L chan (disk_ident (cd_ident (cf_card s))) = 0")
      (simp_all add: alt_avalon_cf_insert_def Let_def same_cf_def)
qed

lemma insert_or_drop:
  assumes "card_ok (cf_card s)" "chan < 2"
  shows "same_cf s (insert_or_drop L chan s) \<and> connected (insert_or_drop L chan s) =
      (if chan \<in> registered s then (connected s)(chan :=
         if plugged L chan (cf_card s) then Some (disk_ident (cd_ident (cf_card s))) else None) else connected s)"
proof -
  obtain s' where s': "alt_avalon_cf_insert L chan s = (plugged L chan (cf_card s), s')" "same_cf s s'"
      "connected s' = (if plugged L chan (cf_card s)
        then (connected s)(chan := Some (disk_ident (cd_ident (cf_card s)))) else connected s)"
    using alt_avalon_cf_insert [OF assms, of L] by blast
  have "same_cf s (disk_disconnected chan s')" "same_cf s s"
    using s'(2) assms by (simp_all add: same_cf_def disk_disconnected_def)
  then show ?thesis using s'
    by (cases "plugged L chan (cf_card s)") (simp_all add: insert_or_drop_def disk_disconnected_def)
qed

lemma drop_channel:
  "card_ok (cf_card s) \<Longrightarrow> same_cf s (drop_channel chan s) \<and>
     connected (drop_channel chan s) = (if chan \<in> registered s then (connected s)(chan := None) else connected s)"
  by (simp add: drop_channel_def disk_disconnected_def same_cf_def)

lemma cf_reset: "card_ok (cf_card s) \<Longrightarrow> same_cf s (alt_avalon_cf_reset s) \<and> connected (alt_avalon_cf_reset s) = connected s"
  by (simp add: alt_avalon_cf_reset_def ctl_write_def same_cf_def)

text \<open>What the disk layer knows after the two channels have been visited.\<close>

definition plug_state :: "disk_layer \<Rightarrow> bool \<Rightarrow> cf \<Rightarrow> nat \<Rightarrow> cyg_disk_identify option" where
  "plug_state L present s chan =
     (if chan \<in> registered s \<and> chan < 2 then
        (if present \<and> plugged L chan (cf_card s) then Some (disk_ident (cd_ident (cf_card s))) else None)
      else connected s chan)"

lemma insert_channels:
  assumes "card_ok (cf_card s)"
  shows "same_cf s (fold (insert_or_drop L) [0, 1] s) \<and> connected (fold (insert_or_drop L) [0, 1] s) = plug_state L True s"
proof -
  let ?s0 = "insert_or_drop L 0 s"
  have s0: "same_cf s ?s0" using insert_or_drop [OF assms, of 0 L] by simp
  then have ok: "card_ok (cf_card ?s0)" "registered ?s0 = registered s" by (simp_all add: same_cf_def)
  have s1: "same_cf ?s0 (insert_or_drop L 1 ?s0)" using insert_or_drop [OF ok(1), of 1 L] by simp
  have "connected (insert_or_drop L 1 ?s0) = plug_state L True s"
    using insert_or_drop [OF assms, of 0 L] insert_or_drop [OF ok(1), of 1 L] ok(2) plugged_same [OF s0]
    by (auto simp: plug_state_def fun_eq_iff less_2_cases_iff)
  then show ?thesis using same_cf_trans [OF s0 s1] by simp
qed

lemma drop_channels:
  assumes "card_ok (cf_card s)"
  shows "same_cf s (fold drop_channel [0, 1] s) \<and> connected (fold drop_channel [0, 1] s) = plug_state L False s"
proof -
  have s0: "same_cf s (drop_channel 0 s)" using drop_channel [OF assms, of 0] by simp
  then have ok: "card_ok (cf_card (drop_channel 0 s))" "registered (drop_channel 0 s) = registered s" by (simp_all add: same_cf_def)
  show ?thesis
    using drop_channel [OF assms, of 0] drop_channel [OF ok(1), of 1] ok(2) same_cf_trans [OF s0]
    by (auto simp: plug_state_def fun_eq_iff less_2_cases_iff)
qed

text \<open>
  Hot plugging. After an insert or remove interrupt has been served (the ISR masks it, the DSR
  runs), the disk layer has of every registered channel exactly the identity of the card there, when the
  slot reports a card, one answers on that channel, and the disk layer accepted it; otherwise it has
  been told the channel is disconnected. Unregistered channels are left alone, the card's contents are
  untouched and the interrupt is unmasked again.
\<close>

theorem cf_hot_plug:
  assumes "card_ok (cf_card s)"
  shows "connected (altera_avalon_cf_DSR L present (altera_avalon_cf_ISR s)) = plug_state L present s \<and>
      \<not> irq_masked (altera_avalon_cf_DSR L present (altera_avalon_cf_ISR s)) \<and>
      cd_sectors (cf_card (altera_avalon_cf_DSR L present (altera_avalon_cf_ISR s))) = cd_sectors (cf_card s) \<and>
      card_ok (cf_card (altera_avalon_cf_DSR L present (altera_avalon_cf_ISR s)))"
proof (cases present)
  case True
  let ?s = "alt_avalon_cf_reset (altera_avalon_cf_ISR s)"
  have "card_ok (cf_card ?s)" "cd_sectors (cf_card ?s) = cd_sectors (cf_card s)" "plug_state L True ?s = plug_state L True s"
    using assms by (simp_all add: alt_avalon_cf_reset_def ctl_write_def altera_avalon_cf_ISR_def plug_state_def fun_eq_iff)
  then show ?thesis using insert_channels [of ?s L] True by (simp add: altera_avalon_cf_DSR_def same_cf_def)
next
  case False
  let ?s = "altera_avalon_cf_ISR s"
  have "card_ok (cf_card ?s)" "cd_sectors (cf_card ?s) = cd_sectors (cf_card s)" "plug_state L False ?s = plug_state L False s"
    using assms by (simp_all add: altera_avalon_cf_ISR_def plug_state_def fun_eq_iff)
  then show ?thesis using drop_channels [of ?s L] False by (simp add: altera_avalon_cf_DSR_def same_cf_def)
qed

theorem cf_hot_plug_witness:
  "connected (altera_avalon_cf_DSR \<lparr>disk_init = (\<lambda>_. True), disk_connected = (\<lambda>_ _. 0)\<rparr> True (altera_avalon_cf_ISR
     \<lparr>cf_card = blank_card, init_done = True, registered = {0, 1}, chan_init = {}, connected = Map.empty, ctl_writes = [],
      irq_masked = False\<rparr>)) 0 = Some (disk_ident (replicate 256 0x4142))"
  using cf_hot_plug [of "\<lparr>cf_card = blank_card, init_done = True, registered = {0, 1}, chan_init = {}, connected = Map.empty,
     ctl_writes = [], irq_masked = False\<rparr>" "\<lparr>disk_init = (\<lambda>_. True), disk_connected = (\<lambda>_ _. 0)\<rparr>" True] blank_card(1)
  by (simp add: plug_state_def plugged_def blank_card_def)

end
