(* ===== verification/Console.thy ===== *)
theory Console
  imports Nios_Prelude
begin

text \<open>
  The loops that the two console drivers
  (\<^verbatim>\<open>packages/hal/sopc/altera_avalon_uart_comm\<close> and \<^verbatim>\<open>altera_avalon_jtag_uart_comm\<close>) share.

  Both drivers build their blocking input, block transfers and timed input in the same way from a
  routine that polls for a character and one that sends one. The loops are therefore functions of these
  routines, and what they achieve is proved once, in the locales \<open>console\<close> and \<open>console_out\<close>.
\<close>

subsection \<open>The shared loops\<close>

partial_function (option) console_getc_loop :: "('s \<Rightarrow> u8 option \<times> 's) \<Rightarrow> 's \<Rightarrow> (u8 \<times> 's) option" where
  "console_getc_loop nonblock s =
     (case nonblock s of (Some c, s1) \<Rightarrow> Some (c, s1) | (None, s1) \<Rightarrow> console_getc_loop nonblock s1)"

fun console_read_loop :: "('s \<Rightarrow> (u8 \<times> 's) option) \<Rightarrow> nat \<Rightarrow> 's \<Rightarrow> (bytes \<times> 's) option" where
  "console_read_loop getc 0 s = Some ([], s)"
| "console_read_loop getc (Suc len) s =
     (case getc s of
        None \<Rightarrow> None
      | Some (c, s1) \<Rightarrow> (case console_read_loop getc len s1 of None \<Rightarrow> None | Some (cs, s2) \<Rightarrow> Some (c # cs, s2)))"

fun console_write_loop :: "(u8 \<Rightarrow> 's \<Rightarrow> 's option) \<Rightarrow> bytes \<Rightarrow> 's \<Rightarrow> 's option" where
  "console_write_loop putc [] s = Some s"
| "console_write_loop putc (c # buf) s = (case putc c s of None \<Rightarrow> None | Some s1 \<Rightarrow> console_write_loop putc buf s1)"

fun console_timeout_loop :: "('s \<Rightarrow> u8 option \<times> 's) \<Rightarrow> nat \<Rightarrow> 's \<Rightarrow> u8 option \<times> 's" where
  "console_timeout_loop nonblock delay_count s =
     (case nonblock s of
        (Some c, s1) \<Rightarrow> (Some c, s1)
      | (None, s1) \<Rightarrow> (case delay_count of 0 \<Rightarrow> (None, s1) | Suc n \<Rightarrow> console_timeout_loop nonblock n s1))"

declare console_timeout_loop.simps [simp del]

text \<open>
  A source of characters: \<open>input\<close> are those that will come, \<open>wait\<close> bounds the polls until the next of them.
\<close>

locale console =
  fixes nonblock :: "'s \<Rightarrow> u8 option \<times> 's"
    and input :: "'s \<Rightarrow> bytes"
    and wait :: "'s \<Rightarrow> nat"
  assumes hit: "nonblock s = (Some c, s') \<Longrightarrow> input s = c # input s'"
    and miss: "nonblock s = (None, s') \<Longrightarrow> input s' = input s"
    and progress: "nonblock s = (None, s') \<Longrightarrow> input s \<noteq> [] \<Longrightarrow> wait s' < wait s"
begin

lemma getc:
  "input s = c # cs \<Longrightarrow> \<exists>s'. console_getc_loop nonblock s = Some (c, s') \<and> input s' = cs"
proof (induction "wait s" arbitrary: s rule: less_induct)
  case less
  show ?case
  proof (cases "nonblock s")
    case (Pair r s1)
    show ?thesis
    proof (cases r)
      case None
      then have "wait s1 < wait s" "input s1 = c # cs" using Pair progress [of s s1] miss [of s s1] less.prems by simp_all
      then show ?thesis using less.hyps [of s1] Pair None by (subst console_getc_loop.simps) simp
    next
      case (Some c')
      then show ?thesis using Pair hit [of s c' s1] less.prems by (subst console_getc_loop.simps) simp
    qed
  qed
qed

lemma getc_blocks:
  assumes "input s = []"
  shows "console_getc_loop nonblock s = None"
proof (rule ccontr)
  assume "console_getc_loop nonblock s \<noteq> None"
  then obtain r where r: "console_getc_loop nonblock s = Some r" by blast
  have "nb = nonblock \<longrightarrow> input s \<noteq> []" if "console_getc_loop nb s = Some r" for nb s r
    using that
  proof (rule console_getc_loop.raw_induct [rotated])
    fix f :: "('s \<Rightarrow> u8 option \<times> 's) \<Rightarrow> 's \<Rightarrow> (u8 \<times> 's) option" and nb s y
    assume ih: "\<And>nb s y. f nb s = Some y \<Longrightarrow> nb = nonblock \<longrightarrow> input s \<noteq> []"
      and step: "(case nb s of (Some c, s1) \<Rightarrow> Some (c, s1) | (None, s1) \<Rightarrow> f nb s1) = Some y"
    show "nb = nonblock \<longrightarrow> input s \<noteq> []"
    proof
      assume nb: "nb = nonblock"
      obtain p s1 where p: "nonblock s = (p, s1)" by fastforce
      then show "input s \<noteq> []"
        using step ih [of nb s1 y] hit [of s _ s1] miss [of s s1] nb by (cases p) auto
    qed
  qed
  from this [OF r] assms show False by simp
qed

lemma read_all:
  "n \<le> length (input s) \<Longrightarrow>
     \<exists>s'. console_read_loop (console_getc_loop nonblock) n s = Some (take n (input s), s') \<and> input s' = drop n (input s)"
proof (induction n arbitrary: s)
  case (Suc n)
  then obtain c cs where i: "input s = c # cs" by (cases "input s") auto
  then obtain s1 where s1: "console_getc_loop nonblock s = Some (c, s1)" "input s1 = cs" using getc by blast
  then show ?case using Suc.IH [of s1] Suc.prems i by auto
qed simp

lemma read_blocks:
  "length (input s) < n \<Longrightarrow> console_read_loop (console_getc_loop nonblock) n s = None"
proof (induction n arbitrary: s)
  case (Suc n)
  show ?case
  proof (cases "input s")
    case Nil
    then show ?thesis using getc_blocks by simp
  next
    case (Cons c cs)
    then obtain s1 where "console_getc_loop nonblock s = Some (c, s1)" "input s1 = cs" using getc by blast
    then show ?thesis using Suc.IH [of s1] Suc.prems Cons by simp
  qed
qed simp

lemma timeout:
  "console_timeout_loop nonblock n s = (r, s') \<Longrightarrow> input s = (case r of None \<Rightarrow> [] | Some c \<Rightarrow> [c]) @ input s'"
proof (induction n arbitrary: s)
  case 0
  then show ?case using hit miss by (subst (asm) console_timeout_loop.simps) (auto split: prod.splits option.splits)
next
  case (Suc n)
  obtain p s1 where p: "nonblock s = (p, s1)" by fastforce
  then show ?case using Suc hit [of s _ s1] miss [of s s1]
    by (subst (asm) (2) console_timeout_loop.simps) (auto split: option.splits)
qed

end

text \<open>A sink: \<open>sent\<close> is what went out, \<open>room\<close> how many more characters will.\<close>

locale console_out =
  fixes putc :: "u8 \<Rightarrow> 's \<Rightarrow> 's option"
    and sent :: "'s \<Rightarrow> bytes"
    and room :: "'s \<Rightarrow> nat"
  assumes putc: "0 < room s \<Longrightarrow> \<exists>s'. putc c s = Some s' \<and> sent s' = sent s @ [c] \<and> room s = Suc (room s')"
    and putc_blocks: "room s = 0 \<Longrightarrow> putc c s = None"
begin

lemma write_all:
  "length buf \<le> room s \<Longrightarrow> \<exists>s'. console_write_loop putc buf s = Some s' \<and> sent s' = sent s @ buf \<and> room s = length buf + room s'"
proof (induction buf arbitrary: s)
  case (Cons c buf)
  then obtain s1 where "putc c s = Some s1" "sent s1 = sent s @ [c]" "room s = Suc (room s1)" using putc [of s c] by auto
  then show ?case using Cons.IH [of s1] Cons.prems by auto
qed simp

lemma write_blocks: "room s < length buf \<Longrightarrow> console_write_loop putc buf s = None"
proof (induction buf arbitrary: s)
  case (Cons c buf)
  then show ?case using putc [of s c] putc_blocks [of s c] by (cases "room s") fastforce+
qed simp

end

end
