(* ===== verification/Uart.thy ===== *)
theory Uart
  imports Nios_Prelude
begin

text \<open>
  The UART driver (\<^verbatim>\<open>packages/devs/serial/sopc/altera_avalon_uart/current/src/altera_avalon_uart.c\<close>).

  The device is what the driver sees of it: \<open>polls\<close> are the values the next reads of the status register
  return, with the character in the receive register at that time (after them the line is idle for ever);
  \<open>txdata\<close> is all that was written to the transmit register. Status and control are sets of flags. The
  callbacks of the eCos serial layer, which owns the state \<open>'u\<close>, and the eCos flag for transmit flow control
  are parameters.
\<close>

unbundle bit_operations_syntax

datatype uflag = PE | FE | TRDY | RRDY | DCTS | CTS | RTS

record poll =
  p_status :: "uflag set"
  p_data :: u8

record avalon_uart =
  polls :: "poll list"
  rxdata :: u8
  txdata :: bytes
  u_divisor :: u32
  u_control :: "uflag set"
  u_masked :: bool

record cyg_serial_info =
  baud :: u32
  stop :: u32
  parity :: u32
  word_length :: u32
  si_flags :: u32

record 'u uart_chan =
  config :: cyg_serial_info
  freq :: u32
  uc_flags :: u32
  dev :: avalon_uart
  upper :: 'u

abbreviation (input) ALT_AVALON_UART_FB :: u32 where "ALT_AVALON_UART_FB \<equiv> 1"
abbreviation (input) ALT_AVALON_UART_FC :: u32 where "ALT_AVALON_UART_FC \<equiv> 2"

definition read_uart_status :: "avalon_uart \<Rightarrow> uflag set \<times> avalon_uart" where
  "read_uart_status u =
     (case polls u of [] \<Rightarrow> ({}, u) | p # ps \<Rightarrow> (p_status p, u\<lparr>polls := ps, rxdata := p_data p\<rparr>))"

lemma read_uart_status_polls: "(st, u') = read_uart_status u \<Longrightarrow> RRDY \<in> st \<Longrightarrow> length (polls u') < length (polls u)"
  by (auto simp: read_uart_status_def split: list.splits)

subsection \<open>Polled input and output\<close>

definition altera_avalon_uart_putc :: "u32 \<Rightarrow> 'u uart_chan \<Rightarrow> u8 \<Rightarrow> bool \<times> 'u uart_chan" where
  "altera_avalon_uart_putc RTSCTS_TX ch c =
     (let (status, u) = read_uart_status (dev ch)
      in if (uc_flags ch AND ALT_AVALON_UART_FC = 0 \<or> si_flags (config ch) AND RTSCTS_TX = 0 \<or> CTS \<in> status) \<and> TRDY \<in> status
         then (True, ch\<lparr>dev := u\<lparr>txdata := txdata u @ [c]\<rparr>\<rparr>)
         else (False, ch\<lparr>dev := u\<rparr>))"

text \<open>\<^verbatim>\<open>altera_avalon_uart_getc\<close> waits for ever on a silent line.\<close>

partial_function (option) uart_getc_loop :: "avalon_uart \<Rightarrow> (u8 \<times> avalon_uart) option" where
  "uart_getc_loop u =
     (let (status, u1) = read_uart_status u
      in if RRDY \<notin> status then uart_getc_loop u1
         else if status \<inter> {PE, FE} \<noteq> {} then uart_getc_loop u1
         else Some (rxdata u1, u1))"

definition altera_avalon_uart_getc :: "'u uart_chan \<Rightarrow> (u8 \<times> 'u uart_chan) option" where
  "altera_avalon_uart_getc ch =
     (case uart_getc_loop (dev ch) of None \<Rightarrow> None | Some (c, u) \<Rightarrow> Some (c, ch\<lparr>dev := u\<rparr>))"

subsection \<open>Configuration\<close>

definition altera_avalon_uart_speed :: "u32 list" where
  "altera_avalon_uart_speed =
     [50, 75, 110, 134, 150, 200, 300, 600, 1200, 1800, 2400, 3600, 4800, 7200, 9600, 14400, 19200, 38400, 57600,
      115200, 230400]"

text \<open>
  The result \<open>None\<close> is a rate outside the table, where the C code reads beyond the array.
\<close>

definition altera_avalon_uart_config_port :: "u32 \<Rightarrow> 'u uart_chan \<Rightarrow> cyg_serial_info \<Rightarrow> (bool \<times> 'u uart_chan) option" where
  "altera_avalon_uart_config_port RTSCTS_TX ch new_config =
     (if stop new_config \<noteq> stop (config ch) \<or> parity new_config \<noteq> parity (config ch) \<or>
         word_length new_config \<noteq> word_length (config ch) then Some (False, ch)
      else if uc_flags ch AND ALT_AVALON_UART_FB \<noteq> 0 \<and> baud new_config \<noteq> baud (config ch) then Some (False, ch)
      else if uc_flags ch AND ALT_AVALON_UART_FC = 0 \<and> si_flags new_config \<noteq> si_flags (config ch) \<or>
              si_flags new_config AND NOT RTSCTS_TX \<noteq> si_flags (config ch) AND NOT RTSCTS_TX then Some (False, ch)
      else let i = unat (baud new_config - 1)
           in if i < length altera_avalon_uart_speed
              then Some (True, ch\<lparr>dev := (dev ch)\<lparr>u_divisor := freq ch div altera_avalon_uart_speed ! i - 1\<rparr>,
                                  config := new_config\<rparr>)
              else None)"

text \<open>\<open>key\<close> says whether the key is \<^verbatim>\<open>CYG_IO_SET_CONFIG_SERIAL_INFO\<close>, \<open>info_size\<close> is the size of the structure.\<close>

definition altera_avalon_uart_set_config ::
  "u32 \<Rightarrow> u32 \<Rightarrow> 'u uart_chan \<Rightarrow> bool \<Rightarrow> cyg_serial_info \<Rightarrow> u32 \<Rightarrow> (int \<times> u32 \<times> 'u uart_chan) option" where
  "altera_avalon_uart_set_config RTSCTS_TX info_size ch key cfg len =
     (if \<not> key then Some (- 22, len, ch)
      else if len < info_size then Some (- 22, len, ch)
      else
        (case altera_avalon_uart_config_port RTSCTS_TX ch cfg of
           None \<Rightarrow> None
         | Some (ok, ch1) \<Rightarrow> Some (if ok then 0 else - 22, info_size, ch1)))"

subsection \<open>Interrupts\<close>

text \<open>
  The serial layer. \<^verbatim>\<open>data_rcv_req\<close> offers room for a number of characters or refuses (\<open>None\<close>);
  \<^verbatim>\<open>data_rcv_done\<close> is given the characters that were put there; \<^verbatim>\<open>xmt_char\<close> hands out characters through
  \<^verbatim>\<open>putc\<close>.
\<close>

record 'u callbacks =
  data_rcv_req :: "nat \<Rightarrow> 'u \<Rightarrow> nat option \<times> 'u"
  data_rcv_done :: "bytes \<Rightarrow> 'u \<Rightarrow> 'u"
  xmt_char :: "'u uart_chan \<Rightarrow> 'u uart_chan"
  serial_init :: "'u uart_chan \<Rightarrow> 'u uart_chan"

definition altera_avalon_uart_start_xmit :: "'u callbacks \<Rightarrow> 'u uart_chan \<Rightarrow> 'u uart_chan" where
  "altera_avalon_uart_start_xmit cb ch =
     (let ch1 = xmt_char cb ch in ch1\<lparr>dev := (dev ch1)\<lparr>u_control := u_control (dev ch1) \<union> {TRDY, DCTS}\<rparr>\<rparr>)"

definition altera_avalon_uart_stop_xmit :: "'u uart_chan \<Rightarrow> 'u uart_chan" where
  "altera_avalon_uart_stop_xmit ch = ch\<lparr>dev := (dev ch)\<lparr>u_control := u_control (dev ch) - {TRDY, DCTS}\<rparr>\<rparr>"

definition altera_avalon_uart_ISR :: "'u uart_chan \<Rightarrow> 'u uart_chan" where
  "altera_avalon_uart_ISR ch = ch\<lparr>dev := (dev ch)\<lparr>u_masked := True\<rparr>\<rparr>"

text \<open>Dropping what cannot be kept.\<close>

function drop_loop :: "uflag set \<Rightarrow> avalon_uart \<Rightarrow> uflag set \<times> avalon_uart" where
  "drop_loop save_status u =
     (let (status, u1) = read_uart_status u
      in if RRDY \<notin> status then (save_status \<union> status, u1) else drop_loop (save_status \<union> status) u1)"
  by auto
termination
  by (relation "measure (\<lambda>(_, u). length (polls u))") (auto intro: read_uart_status_polls)

text \<open>
  Filling the room that was offered; the first result says whether the receiver had nothing more.
\<close>

function fill_loop :: "nat \<Rightarrow> bytes \<Rightarrow> uflag set \<Rightarrow> avalon_uart \<Rightarrow> bool \<times> bytes \<times> uflag set \<times> avalon_uart" where
  "fill_loop space_avail space save_status u =
     (if space_avail = 0 then (False, space, save_status, u)
      else
        (let (status, u1) = read_uart_status u; save1 = save_status \<union> status
         in if RRDY \<in> status
            then (if status \<inter> {PE, FE} = {} then fill_loop (space_avail - 1) (space @ [rxdata u1]) save1 u1
                  else fill_loop space_avail space save1 u1)
            else (True, space, save1, u1)))"
  by auto
termination
  by (relation "measure (\<lambda>(_, _, _, u). length (polls u))") (auto intro: read_uart_status_polls)

declare drop_loop.simps [simp del] fill_loop.simps [simp del]

partial_function (option) receive_loop :: "'u callbacks \<Rightarrow> uflag set \<Rightarrow> 'u uart_chan \<Rightarrow> (uflag set \<times> 'u uart_chan) option" where
  "receive_loop cb save_status ch =
     (case data_rcv_req cb 4096 (upper ch) of
        (None, up) \<Rightarrow>
          (let (save1, u) = drop_loop save_status (dev ch) in Some (save1, ch\<lparr>dev := u, upper := up\<rparr>))
      | (Some space_avail, up) \<Rightarrow>
          (let (exit, space, save1, u) = fill_loop space_avail [] save_status (dev ch);
               ch1 = ch\<lparr>dev := u, upper := data_rcv_done cb space up\<rparr>
           in if exit then Some (save1, ch1) else receive_loop cb save1 ch1))"

definition altera_avalon_uart_DSR :: "'u callbacks \<Rightarrow> 'u uart_chan \<Rightarrow> 'u uart_chan option" where
  "altera_avalon_uart_DSR cb ch =
     (case receive_loop cb {} ch of
        None \<Rightarrow> None
      | Some (save_status, ch1) \<Rightarrow>
          (let ch2 = (if save_status \<inter> {TRDY, DCTS} \<noteq> {} then xmt_char cb ch1 else ch1)
           in Some (ch2\<lparr>dev := (dev ch2)\<lparr>u_masked := False\<rparr>\<rparr>)))"

text \<open>\<open>out_len\<close> is the size of the output buffer of the channel.\<close>

definition altera_avalon_uart_init :: "'u callbacks \<Rightarrow> nat \<Rightarrow> 'u uart_chan \<Rightarrow> 'u uart_chan" where
  "altera_avalon_uart_init cb out_len ch =
     (let ch1 = serial_init cb ch
      in if out_len \<noteq> 0 then ch1\<lparr>dev := (dev ch1)\<lparr>u_control := {RTS, RRDY, DCTS}, u_masked := False\<rparr>\<rparr> else ch1)"

text \<open>
  The flags of a channel as the device table sets them up (\<^verbatim>\<open>ALTERA_AVALON_UART_INSTANCE\<close>): in C the
  conditional binds weaker than the bitwise or, so that the whole left side is its condition.
\<close>

definition instance_flags :: "u32 \<Rightarrow> u32 \<Rightarrow> bool \<Rightarrow> u32" where
  "instance_flags FLAGS_DEFAULT RTSCTS use_cts_rts =
     (if (FLAGS_DEFAULT AND NOT RTSCTS) OR (if use_cts_rts then 1 else 0) \<noteq> 0 then 0 else RTSCTS)"

definition instance_hw_flags :: "bool \<Rightarrow> bool \<Rightarrow> u32" where
  "instance_hw_flags fixed_baud use_cts_rts =
     (if fixed_baud then ALT_AVALON_UART_FB else 0) OR (if use_cts_rts then ALT_AVALON_UART_FC else 0)"

end
