(* ===== verification/Uart_Correct.thy ===== *)
theory Uart_Correct
  imports Uart
begin

text \<open>
  What the UART driver achieves: the interrupt handler takes everything the receiver has, passes on the
  intact characters in order as long as the serial layer offers room, and ends; a configuration request is
  accepted exactly when the hardware can do it.
\<close>

unbundle bit_operations_syntax

subsection \<open>The line\<close>

definition ready :: "poll \<Rightarrow> bool" where
  "ready p \<longleftrightarrow> RRDY \<in> p_status p"

definition good :: "poll \<Rightarrow> bool" where
  "good p \<longleftrightarrow> ready p \<and> p_status p \<inter> {PE, FE} = {}"

text \<open>The intact characters, the polls of one visit, and the flags seen during it.\<close>

definition chars :: "poll list \<Rightarrow> bytes" where
  "chars ps = map p_data (filter good ps)"

definition burst :: "poll list \<Rightarrow> poll list" where
  "burst ps = takeWhile ready ps"

definition after :: "poll list \<Rightarrow> poll list" where
  "after ps = drop (Suc (length (burst ps))) ps"

definition seen :: "poll list \<Rightarrow> uflag set" where
  "seen ps = (\<Union>p \<in> set (take (Suc (length (burst ps))) ps). p_status p)"

lemma read_uart_status_simps:
  "polls u = [] \<Longrightarrow> read_uart_status u = ({}, u)"
  "polls u = p # ps \<Longrightarrow> read_uart_status u = (p_status p, u\<lparr>polls := ps, rxdata := p_data p\<rparr>)"
  by (simp_all add: read_uart_status_def)

lemma line_simps [simp]:
  "chars [] = []" "burst [] = []" "after [] = []" "seen [] = {}"
  "chars (p # ps) = (if good p then p_data p # chars ps else chars ps)"
  "burst (p # ps) = (if ready p then p # burst ps else [])"
  "after (p # ps) = (if ready p then after ps else ps)"
  "seen (p # ps) = (if ready p then p_status p \<union> seen ps else p_status p)"
  by (simp_all add: chars_def burst_def after_def seen_def)

lemma drop_loop:
  "\<exists>u'. drop_loop save u = (save \<union> seen (polls u), u') \<and> polls u' = after (polls u) \<and> txdata u' = txdata u"
proof (induction "polls u" arbitrary: save u)
  case Nil
  then show ?case by (simp add: drop_loop.simps [of save u] read_uart_status_simps)
next
  case (Cons p ps)
  note st = read_uart_status_simps(2) [OF Cons.hyps(2) [symmetric]]
  show ?case
    using Cons.hyps(1) [of "u\<lparr>polls := ps, rxdata := p_data p\<rparr>" "save \<union> p_status p"] Cons.hyps(2) [symmetric]
    by (auto simp: drop_loop.simps [of save u] st ready_def Un_assoc)
qed

text \<open>Polled input gives the next intact character.\<close>

lemma uart_getc_loop:
  "chars (polls u) = c # cs \<Longrightarrow> \<exists>u'. uart_getc_loop u = Some (c, u') \<and> chars (polls u') = cs"
proof (induction "polls u" arbitrary: u)
  case (Cons p ps)
  let ?u = "u\<lparr>polls := ps, rxdata := p_data p\<rparr>"
  have p: "polls u = p # ps" using Cons.hyps(2) by simp
  have "uart_getc_loop u = (if good p then Some (p_data p, ?u) else uart_getc_loop ?u)"
    by (subst uart_getc_loop.simps) (simp add: read_uart_status_simps(2) [OF p] good_def ready_def)
  then show ?case using Cons.hyps(1) [of ?u] Cons.prems p by (auto split: if_splits)
qed simp

text \<open>
  A visit with room for \<open>n\<close> characters: either all the rest of the burst was taken, or \<open>n\<close> characters of it.
\<close>

lemma fill_loop:
  "\<exists>exit bs save' u'. fill_loop n acc save u = (exit, acc @ bs, save', u') \<and> length bs \<le> n \<and> txdata u' = txdata u \<and>
     chars (burst (polls u)) = bs @ (if exit then [] else chars (burst (polls u'))) \<and>
     (if exit then polls u' = after (polls u) \<and> save' = save \<union> seen (polls u)
      else after (polls u') = after (polls u) \<and> save' \<union> seen (polls u') = save \<union> seen (polls u) \<and>
           length bs = n \<and> length (polls u') + n \<le> length (polls u))"
proof (induction "polls u" arbitrary: n acc save u)
  case Nil
  then show ?case by (auto simp: fill_loop.simps [of n acc save u] read_uart_status_simps)
next
  case (Cons p ps)
  note st = read_uart_status_simps(2) [OF Cons.hyps(2) [symmetric]]
  let ?u = "u\<lparr>polls := ps, rxdata := p_data p\<rparr>"
  have ps: "polls ?u = ps" "polls u = p # ps" "txdata ?u = txdata u" using Cons.hyps(2) by simp_all
  show ?case
  proof (cases "n = 0 \<or> \<not> ready p")
    case True
    then show ?thesis using ps(2) by (auto simp: fill_loop.simps [of n acc save u] st ready_def good_def)
  next
    case False
    let ?m = "if good p then n - 1 else n" and ?a = "if good p then acc @ [p_data p] else acc"
    have step: "fill_loop n acc save u = fill_loop ?m ?a (save \<union> p_status p) ?u"
      using False by (simp add: fill_loop.simps [of n acc save u] st ready_def good_def)
    obtain exit bs save' u' where ih: "fill_loop ?m ?a (save \<union> p_status p) ?u = (exit, ?a @ bs, save', u')" "length bs \<le> ?m"
        "txdata u' = txdata u" "chars (burst ps) = bs @ (if exit then [] else chars (burst (polls u')))"
        "if exit then polls u' = after ps \<and> save' = save \<union> p_status p \<union> seen ps
         else after (polls u') = after ps \<and> save' \<union> seen (polls u') = save \<union> p_status p \<union> seen ps \<and>
           length bs = ?m \<and> length (polls u') + ?m \<le> length ps"
      using Cons.hyps(1) [OF ps(1) [symmetric], of ?m ?a "save \<union> p_status p"] unfolding ps(1,3) by blast
    let ?bs = "if good p then p_data p # bs else bs"
    have "fill_loop n acc save u = (exit, acc @ ?bs, save', u')" using step ih(1) by simp
    moreover have "length ?bs \<le> n" using ih(2) False by auto
    moreover have "chars (burst (polls u)) = ?bs @ (if exit then [] else chars (burst (polls u')))"
      using ih(4) False ps(2) by simp
    moreover have "if exit then polls u' = after (polls u) \<and> save' = save \<union> seen (polls u)
      else after (polls u') = after (polls u) \<and> save' \<union> seen (polls u') = save \<union> seen (polls u) \<and>
           length ?bs = n \<and> length (polls u') + n \<le> length (polls u)"
      using ih(5) False ps(2) by (auto simp: Un_assoc split: if_splits)
    ultimately show ?thesis using ih(3) by blast
  qed
qed

subsection \<open>The interrupt handler\<close>

text \<open>
  What the driver relies on: when the serial layer offers room, there is some, and the characters that
  are put there are added to what it received; asking alone changes nothing. \<open>rcvd\<close> are the characters the
  layer has received.
\<close>

definition layer_ok :: "'u callbacks \<Rightarrow> ('u \<Rightarrow> bytes) \<Rightarrow> bool" where
  "layer_ok cb rcvd \<longleftrightarrow> (\<forall>up r up'. data_rcv_req cb 4096 up = (r, up') \<longrightarrow> rcvd up' = rcvd up \<and>
     (\<forall>n. r = Some n \<longrightarrow> 0 < n \<and> (\<forall>bs. length bs \<le> n \<longrightarrow> rcvd (data_rcv_done cb bs up') = rcvd up' @ bs)))"

lemma layer_okD:
  assumes "layer_ok cb rcvd" "data_rcv_req cb 4096 up = (r, up')"
  shows "rcvd up' = rcvd up" "r = Some n \<Longrightarrow> 0 < n"
    "r = Some n \<Longrightarrow> length bs \<le> n \<Longrightarrow> rcvd (data_rcv_done cb bs up') = rcvd up @ bs"
  using assms unfolding layer_ok_def by auto

text \<open>The layer never refuses.\<close>

definition always_room :: "'u callbacks \<Rightarrow> bool" where
  "always_room cb \<longleftrightarrow> (\<forall>up. fst (data_rcv_req cb 4096 up) \<noteq> None)"

lemma receive_loop:
  assumes "layer_ok cb rcvd"
  shows "\<exists>bs rest ch'. receive_loop cb save ch = Some (save \<union> seen (polls (dev ch)), ch') \<and>
     rcvd (upper ch') = rcvd (upper ch) @ bs \<and> chars (burst (polls (dev ch))) = bs @ rest \<and> (always_room cb \<longrightarrow> rest = []) \<and>
     polls (dev ch') = after (polls (dev ch)) \<and> txdata (dev ch') = txdata (dev ch)"
proof (induction "length (polls (dev ch))" arbitrary: save ch rule: less_induct)
  case less
  obtain r up where req: "data_rcv_req cb 4096 (upper ch) = (r, up)" by (cases "data_rcv_req cb 4096 (upper ch)")
  note ok = layer_okD [OF assms req]
  show ?case
  proof (cases r)
    case None
    obtain u' where "drop_loop save (dev ch) = (save \<union> seen (polls (dev ch)), u')" "polls u' = after (polls (dev ch))"
        "txdata u' = txdata (dev ch)"
      using drop_loop [of save "dev ch"] by blast
    moreover have "\<not> always_room cb" using None req unfolding always_room_def by (metis fst_conv)
    ultimately show ?thesis using None req ok(1) by (subst receive_loop.simps) simp
  next
    case (Some n)
    obtain exit bs save' u' where f: "fill_loop n [] save (dev ch) = (exit, bs, save', u')" "length bs \<le> n" "txdata u' = txdata (dev ch)"
        "chars (burst (polls (dev ch))) = bs @ (if exit then [] else chars (burst (polls u')))"
        "if exit then polls u' = after (polls (dev ch)) \<and> save' = save \<union> seen (polls (dev ch))
         else after (polls u') = after (polls (dev ch)) \<and> save' \<union> seen (polls u') = save \<union> seen (polls (dev ch)) \<and>
           length bs = n \<and> length (polls u') + n \<le> length (polls (dev ch))"
      using fill_loop [of n "[]" save "dev ch"] by auto
    let ?ch = "ch\<lparr>dev := u', upper := data_rcv_done cb bs up\<rparr>"
    have up: "rcvd (data_rcv_done cb bs up) = rcvd (upper ch) @ bs" using ok(3) [OF Some f(2)] .
    have step: "receive_loop cb save ch = (if exit then Some (save', ?ch) else receive_loop cb save' ?ch)"
      using Some req f(1) by (subst receive_loop.simps) simp
    show ?thesis
    proof (cases exit)
      case True
      then show ?thesis using step up f(3,4,5) by simp
    next
      case False
      then have "length (polls (dev ?ch)) < length (polls (dev ch))" using f(5) ok(2) [OF Some] by simp
      from less [OF this, of save'] obtain bs' rest ch' where
          ih: "receive_loop cb save' ?ch = Some (save' \<union> seen (polls u'), ch')" "rcvd (upper ch') = rcvd (upper ch) @ bs @ bs'"
          "chars (burst (polls u')) = bs' @ rest" "always_room cb \<longrightarrow> rest = []" "polls (dev ch') = after (polls u')"
          "txdata (dev ch') = txdata u'"
        using up by auto
      have "chars (burst (polls (dev ch))) = (bs @ bs') @ rest" using f(4) ih(3) False by simp
      then show ?thesis using step ih f(3,5) False by auto
    qed
  qed
qed

text \<open>
  C23: the interrupt handler of the UART. For a serial layer that keeps its contract and a transmit
  callback that leaves the received characters and the masking alone, the handler ends, whatever the line
  does. It empties the receiver; the serial layer gets the intact characters in order, all of them if it
  always has room, and otherwise all up to the first that did not fit; the characters with a parity or
  framing error are left out. The transmitter is fed exactly when it became ready or the clear-to-send
  line changed during the visit; the interrupt is unmasked.
\<close>

theorem uart_DSR_delivers:
  assumes "layer_ok cb rcvd" "\<And>c. rcvd (upper (xmt_char cb c)) = rcvd (upper c) \<and> polls (dev (xmt_char cb c)) = polls (dev c)"
  shows "\<exists>bs rest ch'. altera_avalon_uart_DSR cb ch = Some ch' \<and>
     rcvd (upper ch') = rcvd (upper ch) @ bs \<and> chars (burst (polls (dev ch))) = bs @ rest \<and> (always_room cb \<longrightarrow> rest = []) \<and>
     polls (dev ch') = after (polls (dev ch)) \<and> \<not> u_masked (dev ch') \<and>
     (seen (polls (dev ch)) \<inter> {TRDY, DCTS} = {} \<longrightarrow> txdata (dev ch') = txdata (dev ch))"
proof -
  obtain bs rest ch' where r: "receive_loop cb {} ch = Some (seen (polls (dev ch)), ch')" "rcvd (upper ch') = rcvd (upper ch) @ bs"
      "chars (burst (polls (dev ch))) = bs @ rest" "always_room cb \<longrightarrow> rest = []" "polls (dev ch') = after (polls (dev ch))"
      "txdata (dev ch') = txdata (dev ch)"
    using receive_loop [OF assms(1), of "{}" ch] by auto
  show ?thesis using r assms(2) [of ch'] by (auto simp: altera_avalon_uart_DSR_def Let_def)
qed

text \<open>A serial layer with a buffer of 8 characters and nothing to send.\<close>

definition small_layer :: "bytes callbacks" where
  "small_layer = \<lparr>data_rcv_req = (\<lambda>n b. (if length b < 8 then Some (min n (8 - length b)) else None, b)),
     data_rcv_done = (\<lambda>bs b. b @ bs), xmt_char = (\<lambda>c. c), serial_init = (\<lambda>c. c)\<rparr>"

definition sample_chan :: "bytes uart_chan" where
  "sample_chan = \<lparr>config = \<lparr>baud = 20, stop = 1, parity = 0, word_length = 8, si_flags = 0\<rparr>, freq = 50000000, uc_flags = 0,
     dev = \<lparr>polls = [\<lparr>p_status = {RRDY}, p_data = 0x61\<rparr>, \<lparr>p_status = {RRDY, PE}, p_data = 0xFF\<rparr>, \<lparr>p_status = {RRDY}, p_data = 0x62\<rparr>],
       rxdata = 0, txdata = [], u_divisor = 0, u_control = {RRDY}, u_masked = True\<rparr>, upper = [0x60]\<rparr>"

lemma small_layer: "layer_ok small_layer (\<lambda>b. b)"
  by (auto simp: layer_ok_def small_layer_def)

theorem uart_DSR_delivers_witness:
  "\<exists>bs rest ch'. altera_avalon_uart_DSR small_layer sample_chan = Some ch' \<and> upper ch' = 0x60 # bs \<and> [0x61, 0x62] = bs @ rest"
proof -
  have "upper (xmt_char small_layer c) = upper c \<and> polls (dev (xmt_char small_layer c)) = polls (dev c)" for c
    by (simp add: small_layer_def)
  from uart_DSR_delivers [OF small_layer this, of sample_chan] show ?thesis
    by (auto simp: sample_chan_def ready_def good_def)
qed

subsection \<open>Configuration\<close>

definition acceptable :: "u32 \<Rightarrow> 'u uart_chan \<Rightarrow> cyg_serial_info \<Rightarrow> bool" where
  "acceptable RTSCTS_TX ch cfg \<longleftrightarrow>
     stop cfg = stop (config ch) \<and> parity cfg = parity (config ch) \<and> word_length cfg = word_length (config ch) \<and>
     (uc_flags ch AND 1 \<noteq> 0 \<longrightarrow> baud cfg = baud (config ch)) \<and>
     (uc_flags ch AND 2 = 0 \<longrightarrow> si_flags cfg = si_flags (config ch)) \<and>
     si_flags cfg AND NOT RTSCTS_TX = si_flags (config ch) AND NOT RTSCTS_TX"

definition rate :: "cyg_serial_info \<Rightarrow> nat" where
  "rate cfg = unat (altera_avalon_uart_speed ! (unat (baud cfg) - 1))"

lemma baud_index: "1 \<le> unat (b :: u32) \<Longrightarrow> unat (b - 1) = unat b - 1"
  by (metis One_nat_def less_eq_Suc_le unat_gt_0 unat_minus_one word_neq_0_conv)

lemma config_port:
  assumes "1 \<le> unat (baud cfg)" "unat (baud cfg) \<le> 21"
  shows "altera_avalon_uart_config_port RTSCTS_TX ch cfg =
      Some (if acceptable RTSCTS_TX ch cfg
        then (True, ch\<lparr>dev := (dev ch)\<lparr>u_divisor := freq ch div altera_avalon_uart_speed ! (unat (baud cfg) - 1) - 1\<rparr>, config := cfg\<rparr>)
        else (False, ch))"
proof -
  have len: "length altera_avalon_uart_speed = 21" by (simp add: altera_avalon_uart_speed_def)
  have i: "unat (baud cfg - 1) = unat (baud cfg) - 1" using baud_index [OF assms(1)] .
  have "unat (baud cfg) - 1 < 21" using assms by simp
  then show ?thesis unfolding altera_avalon_uart_config_port_def acceptable_def Let_def i len by auto
qed

lemma speed_positive:
  assumes "i < 21"
  shows "0 < unat (altera_avalon_uart_speed ! i)"
proof -
  have "\<forall>x \<in> set altera_avalon_uart_speed. 0 < unat x" "length altera_avalon_uart_speed = 21"
    by (simp_all add: altera_avalon_uart_speed_def)
  then show ?thesis using assms by (metis nth_mem)
qed

lemma divisor_bounds:
  assumes "0 < unat s" "unat s \<le> unat f"
  shows "(unat (f div s - 1 :: u32) + 1) * unat s \<le> unat f" "unat f < (unat (f div s - 1) + 2) * unat s"
proof -
  have "unat (f div s) = unat f div unat s" by (rule unat_div)
  moreover have "1 \<le> unat f div unat s" using assms by (simp add: Suc_le_eq div_greater_zero_iff)
  ultimately have "unat (f div s - 1) + 1 = unat f div unat s" using baud_index [of "f div s"] by simp
  then have q: "unat (f div s - 1) + 1 = unat f div unat s" "unat (f div s - 1) + 2 = Suc (unat f div unat s)" by simp_all
  show "(unat (f div s - 1 :: u32) + 1) * unat s \<le> unat f" unfolding q by simp
  show "unat f < (unat (f div s - 1) + 2) * unat s" unfolding q using dividend_less_div_times [OF assms(1), of "unat f"] by simp
qed

text \<open>
  Configuring the UART. A request with a rate of the table is accepted exactly when stop bits,
  parity and word length stay as they are, the rate changes only if it is not fixed in hardware, and of the
  flags only transmit flow control changes, if the hardware has it. A refused request, one with another
  key or a short structure changes nothing and gives \<^verbatim>\<open>-EINVAL\<close>. After an accepted one the configuration is
  the new one and, if the clock is at least as fast as the rate, the divisor is the best that does
  not go below the rate: the clock divided by it is at least the rate, divided by one more it is less.
\<close>

theorem uart_set_config:
  assumes "1 \<le> unat (baud cfg)" "unat (baud cfg) \<le> 21"
  shows "\<exists>r len' ch'. altera_avalon_uart_set_config RTSCTS_TX info_size ch key cfg len = Some (r, len', ch') \<and>
     (r = 0 \<or> r = - 22) \<and> (r = 0 \<longleftrightarrow> key \<and> info_size \<le> len \<and> acceptable RTSCTS_TX ch cfg) \<and>
     (r \<noteq> 0 \<longrightarrow> ch' = ch) \<and>
     (r = 0 \<longrightarrow> config ch' = cfg \<and> upper ch' = upper ch \<and>
       (rate cfg \<le> unat (freq ch) \<longrightarrow>
          (unat (u_divisor (dev ch')) + 1) * rate cfg \<le> unat (freq ch) \<and>
          unat (freq ch) < (unat (u_divisor (dev ch')) + 2) * rate cfg))"
proof (cases "key \<and> info_size \<le> len")
  case False
  then show ?thesis by (auto simp: altera_avalon_uart_set_config_def not_le)
next
  case True
  have "0 < rate cfg" using assms speed_positive [of "unat (baud cfg) - 1"] by (simp add: rate_def)
  then show ?thesis
    using True config_port [OF assms, of RTSCTS_TX ch] divisor_bounds [of "altera_avalon_uart_speed ! (unat (baud cfg) - 1)" "freq ch"]
    by (auto simp: altera_avalon_uart_set_config_def rate_def not_less)
qed

theorem uart_set_config_witness:
  "\<exists>len' ch'. altera_avalon_uart_set_config 16 20 sample_chan True \<lparr>baud = 15, stop = 1, parity = 0, word_length = 8, si_flags = 0\<rparr> 20 =
     Some (0, len', ch') \<and> (unat (u_divisor (dev ch')) + 1) * 9600 \<le> 50000000"
  using uart_set_config [of "\<lparr>baud = 15, stop = 1, parity = 0, word_length = 8, si_flags = 0\<rparr>" 16 20 sample_chan True 20]
  by (auto simp: acceptable_def sample_chan_def rate_def altera_avalon_uart_speed_def)

text \<open>
  Flow control as the device table sets it up: with hardware flow control the flag for it is off, so that
  \<^verbatim>\<open>putc\<close> does not look at clear-to-send until the channel is configured again.
\<close>

lemma instance_ignores_cts:
  assumes "si_flags (config ch) = instance_flags d m True" "read_uart_status (dev ch) = (st, u)" "TRDY \<in> st"
  shows "fst (altera_avalon_uart_putc t ch c)"
  using assms by (simp add: altera_avalon_uart_putc_def instance_flags_def or_eq_0_iff)

end
