(* ===== verification/Uart_Console.thy ===== *)
theory Uart_Console
  imports Console Uart_Correct
begin

text \<open>
  The console on the UART
  (\<^verbatim>\<open>packages/hal/sopc/altera_avalon_uart_comm/current/src/altera_avalon_uart_comm.c\<close>), over the device
  model of \<open>Uart\<close>; it keeps the contracts of \<open>Console\<close>.
\<close>

subsection \<open>The driver\<close>

partial_function (option) altera_avalon_uart_diag_putc :: "u8 \<Rightarrow> avalon_uart \<Rightarrow> avalon_uart option" where
  "altera_avalon_uart_diag_putc c u =
     (let (status, u1) = read_uart_status u
      in if TRDY \<in> status then Some (u1\<lparr>txdata := txdata u1 @ [c]\<rparr>) else altera_avalon_uart_diag_putc c u1)"

definition altera_avalon_uart_diag_getc_nonblock :: "avalon_uart \<Rightarrow> u8 option \<times> avalon_uart" where
  "altera_avalon_uart_diag_getc_nonblock u =
     (let (status, u1) = read_uart_status u
      in (if RRDY \<in> status \<and> status \<inter> {PE, FE} = {} then Some (rxdata u1) else None, u1))"

definition altera_avalon_uart_diag_getc :: "avalon_uart \<Rightarrow> (u8 \<times> avalon_uart) option" where
  "altera_avalon_uart_diag_getc = console_getc_loop altera_avalon_uart_diag_getc_nonblock"

definition altera_avalon_uart_diag_write :: "bytes \<Rightarrow> avalon_uart \<Rightarrow> avalon_uart option" where
  "altera_avalon_uart_diag_write = console_write_loop altera_avalon_uart_diag_putc"

definition altera_avalon_uart_diag_read :: "nat \<Rightarrow> avalon_uart \<Rightarrow> (bytes \<times> avalon_uart) option" where
  "altera_avalon_uart_diag_read = console_read_loop altera_avalon_uart_diag_getc"

definition altera_avalon_uart_diag_getc_timeout :: "avalon_uart \<Rightarrow> u8 option \<times> avalon_uart" where
  "altera_avalon_uart_diag_getc_timeout = console_timeout_loop altera_avalon_uart_diag_getc_nonblock 10"

text \<open>
  Control of the channel for the debugger. The static variable \<^verbatim>\<open>irq_state\<close> is one for all channels.
\<close>

datatype comm_control = IRQ_ENABLE | IRQ_DISABLE | DBG_ISR_VECTOR | OTHER_CONTROL

record diag_uart =
  du_dev :: avalon_uart
  du_irq :: u32
  irq_state :: int

definition altera_avalon_uart_diag_control :: "comm_control \<Rightarrow> diag_uart \<Rightarrow> int \<times> diag_uart" where
  "altera_avalon_uart_diag_control func d =
     (case func of
        IRQ_ENABLE \<Rightarrow>
          (0, d\<lparr>irq_state := 1,
              du_dev := (du_dev d)\<lparr>u_control := u_control (du_dev d) \<union> {RRDY}, u_masked := False\<rparr>\<rparr>)
      | IRQ_DISABLE \<Rightarrow>
          (irq_state d, d\<lparr>irq_state := 0,
              du_dev := (du_dev d)\<lparr>u_control := u_control (du_dev d) - {RRDY}, u_masked := True\<rparr>\<rparr>)
      | DBG_ISR_VECTOR \<Rightarrow> (sint (du_irq d), d)
      | OTHER_CONTROL \<Rightarrow> (0, d))"

text \<open>
  The interrupt of the debugger; \<open>is_break\<close> is \<^verbatim>\<open>cyg_hal_is_break\<close> on one character. The results are whether the
  interrupt was handled and the flag \<^verbatim>\<open>__ctrlc\<close>.
\<close>

definition altera_avalon_uart_diag_isr :: "(bytes \<Rightarrow> bool) \<Rightarrow> avalon_uart \<Rightarrow> bool \<times> bool \<times> avalon_uart" where
  "altera_avalon_uart_diag_isr is_break u =
     (let (status, u1) = read_uart_status u
      in if RRDY \<in> status \<and> status \<inter> {PE, FE} = {} then (True, is_break [rxdata u1], u1) else (False, False, u1))"

subsection \<open>The contracts\<close>

definition tx_room :: "avalon_uart \<Rightarrow> nat" where
  "tx_room u = length (filter (\<lambda>p. TRDY \<in> p_status p) (polls u))"

lemma putc_simps:
  "polls u = p # ps \<Longrightarrow> altera_avalon_uart_diag_putc c u =
     (if TRDY \<in> p_status p then Some (u\<lparr>polls := ps, rxdata := p_data p, txdata := txdata u @ [c]\<rparr>)
      else altera_avalon_uart_diag_putc c (u\<lparr>polls := ps, rxdata := p_data p\<rparr>))"
  by (subst altera_avalon_uart_diag_putc.simps) (simp add: read_uart_status_def)

lemma putc_idle:
  assumes "polls u = []"
  shows "altera_avalon_uart_diag_putc c u = None"
proof (rule ccontr)
  assume "altera_avalon_uart_diag_putc c u \<noteq> None"
  then obtain r where r: "altera_avalon_uart_diag_putc c u = Some r" by blast
  from altera_avalon_uart_diag_putc.raw_induct [of "\<lambda>c u r. polls u \<noteq> []", OF _ r] assms
  show False by (fastforce simp: read_uart_status_def split: list.splits)
qed

interpretation uart_in: console altera_avalon_uart_diag_getc_nonblock "\<lambda>u. chars (polls u)" "\<lambda>u. length (polls u)"
  by unfold_locales
    (auto simp: altera_avalon_uart_diag_getc_nonblock_def read_uart_status_def good_def ready_def split: list.splits if_splits)

interpretation uart_out: console_out altera_avalon_uart_diag_putc txdata tx_room
proof
  fix u c
  show "0 < tx_room u \<Longrightarrow> \<exists>u'. altera_avalon_uart_diag_putc c u = Some u' \<and> txdata u' = txdata u @ [c] \<and> tx_room u = Suc (tx_room u')"
  proof (induction "polls u" arbitrary: u)
    case Nil
    then show ?case by (simp add: tx_room_def)
  next
    case (Cons p ps)
    note step = putc_simps [OF Cons.hyps(2) [symmetric], of c]
    show ?case
      using Cons.hyps(1) [of "u\<lparr>polls := ps, rxdata := p_data p\<rparr>"] Cons.prems Cons.hyps(2) [symmetric]
      by (auto simp: step tx_room_def)
  qed
  show "tx_room u = 0 \<Longrightarrow> altera_avalon_uart_diag_putc c u = None"
  proof (induction "polls u" arbitrary: u)
    case Nil
    then show ?case using putc_idle by simp
  next
    case (Cons p ps)
    show ?case
      using Cons.hyps(1) [of "u\<lparr>polls := ps, rxdata := p_data p\<rparr>"] Cons.prems Cons.hyps(2) [symmetric]
      by (simp add: putc_simps [OF Cons.hyps(2) [symmetric]] tx_room_def split: if_splits)
  qed
qed

text \<open>
  The UART console. Reading \<open>n\<close> characters gives the first \<open>n\<close> intact ones the line brings and
  leaves the others; it waits for ever exactly when fewer come. Writing sends exactly the buffer, in order,
  if the transmitter becomes ready often enough, and waits for ever otherwise. Timed input always ends, and
  gives the next intact character or leaves all of them to come.
\<close>

theorem uart_console_transfers:
  "(if n \<le> length (chars (polls u))
    then \<exists>u'. altera_avalon_uart_diag_read n u = Some (take n (chars (polls u)), u') \<and> chars (polls u') = drop n (chars (polls u))
    else altera_avalon_uart_diag_read n u = None) \<and>
   (if length buf \<le> tx_room u
    then \<exists>u'. altera_avalon_uart_diag_write buf u = Some u' \<and> txdata u' = txdata u @ buf
    else altera_avalon_uart_diag_write buf u = None) \<and>
   (let (r, u') = altera_avalon_uart_diag_getc_timeout u
    in chars (polls u) = (case r of None \<Rightarrow> [] | Some c \<Rightarrow> [c]) @ chars (polls u'))"
proof (intro conjI)
  show "if n \<le> length (chars (polls u))
      then \<exists>u'. altera_avalon_uart_diag_read n u = Some (take n (chars (polls u)), u') \<and> chars (polls u') = drop n (chars (polls u))
      else altera_avalon_uart_diag_read n u = None"
    using uart_in.read_all [of n u] uart_in.read_blocks [of u n]
    by (simp add: altera_avalon_uart_diag_read_def altera_avalon_uart_diag_getc_def)
  show "if length buf \<le> tx_room u
      then \<exists>u'. altera_avalon_uart_diag_write buf u = Some u' \<and> txdata u' = txdata u @ buf
      else altera_avalon_uart_diag_write buf u = None"
    using uart_out.write_all [of buf u] uart_out.write_blocks [of u buf] by (auto simp: altera_avalon_uart_diag_write_def)
  show "let (r, u') = altera_avalon_uart_diag_getc_timeout u
      in chars (polls u) = (case r of None \<Rightarrow> [] | Some c \<Rightarrow> [c]) @ chars (polls u')"
    using uart_in.timeout [of 10 u] by (simp add: altera_avalon_uart_diag_getc_timeout_def Let_def split: prod.splits)
qed

end
