(* ===== verification/Jtag_Uart.thy ===== *)
theory Jtag_Uart
  imports Console
begin

text \<open>
  The JTAG UART: its driver
  (\<^verbatim>\<open>packages/devs/serial/sopc/altera_avalon_jtag_uart/current/src/altera_avalon_jtag_uart.c\<close>) and the console on it
  (\<^verbatim>\<open>packages/hal/sopc/altera_avalon_jtag_uart_comm/current/src/altera_avalon_jtag_uart_comm.c\<close>).

  The device has a receive FIFO. \<open>arrivals\<close> are the characters that come in before each of the next reads of
  the data register. A read takes a character if there is one and tells how many are left. \<open>j_control\<close> are
  the values the next reads of the control register show. \<open>j_tx\<close> is what was written to the data register,
  \<open>j_enable\<close> the enable bits of the control register.
\<close>

datatype jflag = RE | WE

record jctl =
  wi :: bool
  ri :: bool
  wspace :: nat

record jtag =
  fifo :: bytes
  arrivals :: "bytes list"
  j_control :: "jctl list"
  j_enable :: "jflag set"
  j_tx :: bytes
  j_masked :: bool

text \<open>A value of the data register: valid, the character, how many are left.\<close>

definition read_jtag_data :: "jtag \<Rightarrow> (bool \<times> u8 \<times> nat) \<times> jtag" where
  "read_jtag_data j =
     (let q = fifo j @ (case arrivals j of [] \<Rightarrow> [] | a # _ \<Rightarrow> a)
      in ((q \<noteq> [], (case q of [] \<Rightarrow> 0 | c # _ \<Rightarrow> c), length (tl q)), j\<lparr>fifo := tl q, arrivals := tl (arrivals j)\<rparr>))"

definition read_jtag_control :: "jtag \<Rightarrow> jctl \<times> jtag" where
  "read_jtag_control j =
     (case j_control j of
        [] \<Rightarrow> (\<lparr>wi = False, ri = False, wspace = 0\<rparr>, j)
      | c # cs \<Rightarrow> (c, j\<lparr>j_control := cs\<rparr>))"

definition write_jtag_data :: "u8 \<Rightarrow> jtag \<Rightarrow> jtag" where
  "write_jtag_data c j = j\<lparr>j_tx := j_tx j @ [c]\<rparr>"

subsection \<open>The driver\<close>

record 'u jtag_chan =
  jdev :: jtag
  jupper :: 'u

record 'u jcallbacks =
  data_xmt_req :: "nat \<Rightarrow> 'u \<Rightarrow> bytes \<times> 'u"
  data_xmt_done :: "nat \<Rightarrow> 'u \<Rightarrow> 'u"
  rcv_char :: "u8 \<Rightarrow> 'u \<Rightarrow> 'u"
  jdata_rcv_req :: "nat \<Rightarrow> 'u \<Rightarrow> (bool \<times> nat) \<times> 'u"
  jdata_rcv_done :: "nat \<Rightarrow> bytes \<Rightarrow> 'u \<Rightarrow> 'u"
  jserial_init :: "'u jtag_chan \<Rightarrow> 'u jtag_chan"

definition altera_avalon_jtag_uart_putc :: "'u jtag_chan \<Rightarrow> u8 \<Rightarrow> bool \<times> 'u jtag_chan" where
  "altera_avalon_jtag_uart_putc ch c =
     (let (control, j) = read_jtag_control (jdev ch)
      in if wspace control \<noteq> 0 then (True, ch\<lparr>jdev := write_jtag_data c j\<rparr>) else (False, ch\<lparr>jdev := j\<rparr>))"

definition altera_avalon_jtag_uart_getc_nonblock :: "jtag \<Rightarrow> u8 option \<times> jtag" where
  "altera_avalon_jtag_uart_getc_nonblock j =
     (let ((rvalid, c, _), j1) = read_jtag_data j in (if rvalid then Some c else None, j1))"

definition altera_avalon_jtag_uart_getc :: "'u jtag_chan \<Rightarrow> (u8 \<times> 'u jtag_chan) option" where
  "altera_avalon_jtag_uart_getc ch =
     (case console_getc_loop altera_avalon_jtag_uart_getc_nonblock (jdev ch) of
        None \<Rightarrow> None
      | Some (c, j) \<Rightarrow> Some (c, ch\<lparr>jdev := j\<rparr>))"

definition altera_avalon_jtag_uart_start_xmit :: "'u jtag_chan \<Rightarrow> 'u jtag_chan" where
  "altera_avalon_jtag_uart_start_xmit ch = ch\<lparr>jdev := (jdev ch)\<lparr>j_enable := j_enable (jdev ch) \<union> {WE}\<rparr>\<rparr>"

definition altera_avalon_jtag_uart_stop_xmit :: "'u jtag_chan \<Rightarrow> 'u jtag_chan" where
  "altera_avalon_jtag_uart_stop_xmit ch = ch\<lparr>jdev := (jdev ch)\<lparr>j_enable := j_enable (jdev ch) - {WE}\<rparr>\<rparr>"

text \<open>\<open>throttle\<close> says whether the key is \<^verbatim>\<open>CYG_IO_SET_CONFIG_SERIAL_HW_RX_FLOW_THROTTLE\<close>; \<open>x\<close> is the first byte of the buffer.\<close>

definition altera_avalon_jtag_uart_set_config :: "'u jtag_chan \<Rightarrow> bool \<Rightarrow> u8 \<Rightarrow> u32 \<Rightarrow> int \<times> 'u jtag_chan" where
  "altera_avalon_jtag_uart_set_config ch throttle x len =
     (if \<not> throttle then (- 22, ch)
      else if len \<noteq> 4 then (- 22, ch)
      else if x = 1 then (0, ch\<lparr>jdev := (jdev ch)\<lparr>j_enable := j_enable (jdev ch) - {RE}\<rparr>\<rparr>)
      else if x = 0 then (0, ch\<lparr>jdev := (jdev ch)\<lparr>j_enable := j_enable (jdev ch) \<union> {RE}\<rparr>\<rparr>)
      else (- 22, ch))"

definition altera_avalon_jtag_uart_ISR :: "'u jtag_chan \<Rightarrow> 'u jtag_chan" where
  "altera_avalon_jtag_uart_ISR ch = ch\<lparr>jdev := (jdev ch)\<lparr>j_masked := True\<rparr>\<rparr>"

fun pass_chars :: "'u jcallbacks \<Rightarrow> nat \<Rightarrow> 'u jtag_chan \<Rightarrow> 'u jtag_chan" where
  "pass_chars cb 0 ch = ch"
| "pass_chars cb (Suc n) ch =
     (let ((_, c, _), j) = read_jtag_data (jdev ch)
      in pass_chars cb n (ch\<lparr>jdev := j, jupper := rcv_char cb c (jupper ch)\<rparr>))"

fun take_chars :: "nat \<Rightarrow> jtag \<Rightarrow> bytes \<times> jtag" where
  "take_chars 0 j = ([], j)"
| "take_chars (Suc n) j = (let ((_, c, _), j1) = read_jtag_data j; (cs, j2) = take_chars n j1 in (c # cs, j2))"

definition transmit :: "'u jcallbacks \<Rightarrow> nat \<Rightarrow> 'u jtag_chan \<Rightarrow> 'u jtag_chan" where
  "transmit cb space_avail ch =
     (let (cs, up) = data_xmt_req cb space_avail (jupper ch)
      in ch\<lparr>jdev := fold write_jtag_data cs (jdev ch), jupper := data_xmt_done cb (length cs) up\<rparr>)"

text \<open>
  Reception; \<open>flow_hw\<close> is the configuration option \<^verbatim>\<open>CYGOPT_IO_SERIAL_FLOW_CONTROL_HW\<close>.
\<close>

definition receive :: "bool \<Rightarrow> 'u jcallbacks \<Rightarrow> 'u jtag_chan \<Rightarrow> 'u jtag_chan" where
  "receive flow_hw cb ch =
     (let ((_, c, chars_avail), j) = read_jtag_data (jdev ch);
          ch1 = ch\<lparr>jdev := j, jupper := rcv_char cb c (jupper ch)\<rparr>
      in if chars_avail = 0 then ch1
         else if \<not> flow_hw then pass_chars cb chars_avail ch1
         else
           (let ((ok, n), up) = jdata_rcv_req cb chars_avail (jupper ch1);
                (cs, j2) = (if ok then take_chars n (jdev ch1) else ([], jdev ch1))
            in ch1\<lparr>jdev := j2, jupper := jdata_rcv_done cb n cs up\<rparr>))"

definition altera_avalon_jtag_uart_DSR :: "bool \<Rightarrow> 'u jcallbacks \<Rightarrow> 'u jtag_chan \<Rightarrow> 'u jtag_chan" where
  "altera_avalon_jtag_uart_DSR flow_hw cb ch =
     (let (control, j) = read_jtag_control (jdev ch);
          ch1 = ch\<lparr>jdev := j\<rparr>;
          ch2 = (if wi control then transmit cb (wspace control) ch1 else ch1);
          ch3 = (if ri control then receive flow_hw cb ch2 else ch2)
      in ch3\<lparr>jdev := (jdev ch3)\<lparr>j_masked := False\<rparr>\<rparr>)"

definition altera_avalon_jtag_uart_init :: "'u jcallbacks \<Rightarrow> 'u jtag_chan \<Rightarrow> 'u jtag_chan" where
  "altera_avalon_jtag_uart_init cb ch = jserial_init cb ch"

text \<open>The device is refused while it serves as console or debug channel; the names are strings.\<close>

definition altera_avalon_jtag_uart_lookup ::
  "'u jcallbacks \<Rightarrow> string \<Rightarrow> string \<Rightarrow> string \<Rightarrow> 'u jtag_chan \<Rightarrow> int \<times> 'u jtag_chan" where
  "altera_avalon_jtag_uart_lookup cb debug_dev console_dev name ch =
     (if name \<noteq> debug_dev \<and> name \<noteq> console_dev
      then (0, let ch1 = jserial_init cb ch in ch1\<lparr>jdev := (jdev ch1)\<lparr>j_enable := {RE}, j_masked := False\<rparr>\<rparr>)
      else (- 1, ch))"

subsection \<open>The console\<close>

partial_function (option) altera_avalon_jtag_uart_diag_putc :: "u8 \<Rightarrow> jtag \<Rightarrow> jtag option" where
  "altera_avalon_jtag_uart_diag_putc c j =
     (let (control, j1) = read_jtag_control j
      in if wspace control \<noteq> 0 then Some (write_jtag_data c j1) else altera_avalon_jtag_uart_diag_putc c j1)"

definition altera_avalon_jtag_uart_diag_getc_nonblock :: "jtag \<Rightarrow> u8 option \<times> jtag" where
  "altera_avalon_jtag_uart_diag_getc_nonblock j =
     (let ((rvalid, c, _), j1) = read_jtag_data j in (if rvalid then Some c else None, j1))"

definition altera_avalon_jtag_uart_diag_getc :: "jtag \<Rightarrow> (u8 \<times> jtag) option" where
  "altera_avalon_jtag_uart_diag_getc = console_getc_loop altera_avalon_jtag_uart_diag_getc_nonblock"

definition altera_avalon_jtag_uart_diag_write :: "bytes \<Rightarrow> jtag \<Rightarrow> jtag option" where
  "altera_avalon_jtag_uart_diag_write = console_write_loop altera_avalon_jtag_uart_diag_putc"

definition altera_avalon_jtag_uart_diag_read :: "nat \<Rightarrow> jtag \<Rightarrow> (bytes \<times> jtag) option" where
  "altera_avalon_jtag_uart_diag_read = console_read_loop altera_avalon_jtag_uart_diag_getc"

definition altera_avalon_jtag_uart_diag_getc_timeout :: "jtag \<Rightarrow> u8 option \<times> jtag" where
  "altera_avalon_jtag_uart_diag_getc_timeout = console_timeout_loop altera_avalon_jtag_uart_diag_getc_nonblock 10"

definition altera_avalon_jtag_uart_diag_control :: int where
  "altera_avalon_jtag_uart_diag_control = 1"

definition altera_avalon_jtag_uart_diag_isr :: int where
  "altera_avalon_jtag_uart_diag_isr = 0"

end
