(* ===== verification/Jtag_Correct.thy ===== *)
theory Jtag_Correct
  imports Jtag_Uart
begin

text \<open>
  What the JTAG UART driver and its console achieve: no character is lost, repeated or out of order.
\<close>

subsection \<open>The console\<close>

definition to_come :: "jtag \<Rightarrow> bytes" where
  "to_come j = fifo j @ concat (arrivals j)"

definition jtx_room :: "jtag \<Rightarrow> nat" where
  "jtx_room j = length (filter (\<lambda>c. wspace c \<noteq> 0) (j_control j))"

lemma jtag_putc_simps:
  "j_control j = k # ks \<Longrightarrow> altera_avalon_jtag_uart_diag_putc c j =
     (if wspace k \<noteq> 0 then Some (j\<lparr>j_control := ks, j_tx := j_tx j @ [c]\<rparr>)
      else altera_avalon_jtag_uart_diag_putc c (j\<lparr>j_control := ks\<rparr>))"
  by (subst altera_avalon_jtag_uart_diag_putc.simps) (simp add: read_jtag_control_def write_jtag_data_def)

lemma jtag_putc_idle:
  assumes "j_control j = []"
  shows "altera_avalon_jtag_uart_diag_putc c j = None"
proof (rule ccontr)
  assume "altera_avalon_jtag_uart_diag_putc c j \<noteq> None"
  then obtain r where r: "altera_avalon_jtag_uart_diag_putc c j = Some r" by blast
  from altera_avalon_jtag_uart_diag_putc.raw_induct [of "\<lambda>c j r. j_control j \<noteq> []", OF _ r] assms
  show False by (fastforce simp: read_jtag_control_def split: list.splits)
qed

interpretation jtag_in: console altera_avalon_jtag_uart_diag_getc_nonblock to_come "\<lambda>j. length (arrivals j)"
  by unfold_locales
    (auto simp: altera_avalon_jtag_uart_diag_getc_nonblock_def read_jtag_data_def to_come_def Let_def split: list.splits if_splits)

interpretation jtag_out: console_out altera_avalon_jtag_uart_diag_putc j_tx jtx_room
proof
  fix j c
  show "0 < jtx_room j \<Longrightarrow> \<exists>j'. altera_avalon_jtag_uart_diag_putc c j = Some j' \<and> j_tx j' = j_tx j @ [c] \<and> jtx_room j = Suc (jtx_room j')"
  proof (induction "j_control j" arbitrary: j)
    case Nil
    then show ?case by (simp add: jtx_room_def)
  next
    case (Cons k ks)
    then show ?case
      using Cons.hyps(1) [of "j\<lparr>j_control := ks\<rparr>"] Cons.hyps(2) [symmetric]
      by (auto simp: jtag_putc_simps [OF Cons.hyps(2) [symmetric], of c] jtx_room_def)
  qed
  show "jtx_room j = 0 \<Longrightarrow> altera_avalon_jtag_uart_diag_putc c j = None"
  proof (induction "j_control j" arbitrary: j)
    case Nil
    then show ?case using jtag_putc_idle by simp
  next
    case (Cons k ks)
    then show ?case
      using Cons.hyps(1) [of "j\<lparr>j_control := ks\<rparr>"] Cons.hyps(2) [symmetric]
      by (simp add: jtag_putc_simps [OF Cons.hyps(2) [symmetric]] jtx_room_def split: if_splits)
  qed
qed

text \<open>
  The JTAG console. Reading gives the next characters from the host in order and leaves the
  others, and waits for ever exactly when too few come; writing sends exactly the buffer if there is
  room often enough; timed input always ends and loses nothing.
\<close>

theorem jtag_console_transfers:
  "(if n \<le> length (to_come j)
    then \<exists>j'. altera_avalon_jtag_uart_diag_read n j = Some (take n (to_come j), j') \<and> to_come j' = drop n (to_come j)
    else altera_avalon_jtag_uart_diag_read n j = None) \<and>
   (if length buf \<le> jtx_room j
    then \<exists>j'. altera_avalon_jtag_uart_diag_write buf j = Some j' \<and> j_tx j' = j_tx j @ buf
    else altera_avalon_jtag_uart_diag_write buf j = None) \<and>
   (let (r, j') = altera_avalon_jtag_uart_diag_getc_timeout j
    in to_come j = (case r of None \<Rightarrow> [] | Some c \<Rightarrow> [c]) @ to_come j')"
proof (intro conjI)
  show "if n \<le> length (to_come j)
      then \<exists>j'. altera_avalon_jtag_uart_diag_read n j = Some (take n (to_come j), j') \<and> to_come j' = drop n (to_come j)
      else altera_avalon_jtag_uart_diag_read n j = None"
    using jtag_in.read_all [of n j] jtag_in.read_blocks [of j n]
    by (simp add: altera_avalon_jtag_uart_diag_read_def altera_avalon_jtag_uart_diag_getc_def)
  show "if length buf \<le> jtx_room j
      then \<exists>j'. altera_avalon_jtag_uart_diag_write buf j = Some j' \<and> j_tx j' = j_tx j @ buf
      else altera_avalon_jtag_uart_diag_write buf j = None"
    using jtag_out.write_all [of buf j] jtag_out.write_blocks [of j buf] by (auto simp: altera_avalon_jtag_uart_diag_write_def)
  show "let (r, j') = altera_avalon_jtag_uart_diag_getc_timeout j
      in to_come j = (case r of None \<Rightarrow> [] | Some c \<Rightarrow> [c]) @ to_come j'"
    using jtag_in.timeout [of 10 j] by (simp add: altera_avalon_jtag_uart_diag_getc_timeout_def Let_def split: prod.splits)
qed

subsection \<open>The interrupt handler\<close>

text \<open>
  What the driver relies on: received characters are added to \<open>rcvd\<close>; the layer hands out a first part of
  the characters it has \<open>queued\<close>, no more than there is room for, and takes them off when told they are gone.
\<close>

definition jlayer_ok :: "'u jcallbacks \<Rightarrow> ('u \<Rightarrow> bytes) \<Rightarrow> ('u \<Rightarrow> bytes) \<Rightarrow> bool" where
  "jlayer_ok cb rcvd queued \<longleftrightarrow>
     (\<forall>c up. rcvd (rcv_char cb c up) = rcvd up @ [c] \<and> queued (rcv_char cb c up) = queued up) \<and>
     (\<forall>n up cs up'. data_xmt_req cb n up = (cs, up') \<longrightarrow> length cs \<le> n \<and>
        queued up = cs @ queued (data_xmt_done cb (length cs) up') \<and> rcvd (data_xmt_done cb (length cs) up') = rcvd up)"

lemma jlayer_okD:
  assumes "jlayer_ok cb rcvd queued"
  shows "rcvd (rcv_char cb c up) = rcvd up @ [c]" "queued (rcv_char cb c up) = queued up"
    "data_xmt_req cb n up = (cs, up') \<Longrightarrow> length cs \<le> n"
    "data_xmt_req cb n up = (cs, up') \<Longrightarrow> queued up = cs @ queued (data_xmt_done cb (length cs) up')"
    "data_xmt_req cb n up = (cs, up') \<Longrightarrow> rcvd (data_xmt_done cb (length cs) up') = rcvd up"
  using assms unfolding jlayer_ok_def by auto

text \<open>The characters in the FIFO at the next read.\<close>

definition present :: "jtag \<Rightarrow> bytes" where
  "present j = fifo j @ concat (take 1 (arrivals j))"

lemma read_jtag_present:
  assumes "present j = c # q"
  shows "read_jtag_data j = ((True, c, length q), j\<lparr>fifo := q, arrivals := tl (arrivals j)\<rparr>)"
proof -
  have "fifo j @ (case arrivals j of [] \<Rightarrow> [] | a # _ \<Rightarrow> a) = c # q"
    using assms by (cases "arrivals j") (simp_all add: present_def)
  then show ?thesis by (simp add: read_jtag_data_def Let_def)
qed

lemma pass_chars:
  assumes "jlayer_ok cb rcvd queued"
  shows "n \<le> length (fifo (jdev ch)) \<Longrightarrow> \<exists>ch'. pass_chars cb n ch = ch' \<and>
     rcvd (jupper ch') = rcvd (jupper ch) @ take n (fifo (jdev ch)) \<and> queued (jupper ch') = queued (jupper ch) \<and>
     fifo (jdev ch') = drop n (fifo (jdev ch)) @ concat (take n (arrivals (jdev ch))) \<and>
     arrivals (jdev ch') = drop n (arrivals (jdev ch)) \<and> j_tx (jdev ch') = j_tx (jdev ch)"
proof (induction n arbitrary: ch)
  case (Suc n)
  then obtain c q where f: "fifo (jdev ch) = c # q" by (cases "fifo (jdev ch)") auto
  let ?q = "q @ concat (take 1 (arrivals (jdev ch)))"
  let ?ch = "ch\<lparr>jdev := (jdev ch)\<lparr>fifo := ?q, arrivals := tl (arrivals (jdev ch))\<rparr>, jupper := rcv_char cb c (jupper ch)\<rparr>"
  have step: "pass_chars cb (Suc n) ch = pass_chars cb n ?ch"
    using read_jtag_present [of "jdev ch" c ?q] f by (simp add: present_def)
  have "n \<le> length (fifo (jdev ?ch))" using Suc.prems f by simp
  then have ih: "rcvd (jupper (pass_chars cb n ?ch)) = rcvd (jupper ?ch) @ take n (fifo (jdev ?ch)) \<and>
      queued (jupper (pass_chars cb n ?ch)) = queued (jupper ?ch) \<and>
      fifo (jdev (pass_chars cb n ?ch)) = drop n (fifo (jdev ?ch)) @ concat (take n (arrivals (jdev ?ch))) \<and>
      arrivals (jdev (pass_chars cb n ?ch)) = drop n (arrivals (jdev ?ch)) \<and> j_tx (jdev (pass_chars cb n ?ch)) = j_tx (jdev ?ch)"
    using Suc.IH [of ?ch] by blast
  have "n \<le> length q" using Suc.prems f by simp
  then show ?case unfolding step
    using ih f jlayer_okD(1,2) [OF assms] by (cases "arrivals (jdev ch)") (simp_all add: drop_Suc)
qed simp

lemma fold_write_jtag: "fold write_jtag_data cs j = j\<lparr>j_tx := j_tx j @ cs\<rparr>"
  by (induction cs arbitrary: j) (simp_all add: write_jtag_data_def)

lemma receive:
  assumes "jlayer_ok cb rcvd queued" "present (jdev ch) \<noteq> []"
  shows "rcvd (jupper (receive False cb ch)) = rcvd (jupper ch) @ present (jdev ch) \<and>
     queued (jupper (receive False cb ch)) = queued (jupper ch) \<and>
     to_come (jdev ch) = present (jdev ch) @ to_come (jdev (receive False cb ch)) \<and>
     j_tx (jdev (receive False cb ch)) = j_tx (jdev ch)"
proof -
  obtain c q where p: "present (jdev ch) = c # q" using assms(2) by (cases "present (jdev ch)") auto
  let ?ch = "ch\<lparr>jdev := (jdev ch)\<lparr>fifo := q, arrivals := tl (arrivals (jdev ch))\<rparr>, jupper := rcv_char cb c (jupper ch)\<rparr>"
  have r: "receive False cb ch = pass_chars cb (length q) ?ch"
    unfolding receive_def read_jtag_present [OF p] by (simp add: Let_def)
  have all: "to_come (jdev ch) = c # q @ concat (tl (arrivals (jdev ch)))"
    using p by (cases "arrivals (jdev ch)") (simp_all add: to_come_def present_def)
  show ?thesis
    unfolding r using pass_chars [OF assms(1), of "length q" ?ch] jlayer_okD(1,2) [OF assms(1)] p all
    by (simp add: to_come_def flip: concat_append)
qed

text \<open>
  The interrupt handler of the JTAG UART. For a serial layer that keeps its contract, the
  handler sends a first part of the queued characters, no more than the device has room for, and takes exactly
  those off the queue; on a receive interrupt the layer gets all characters that are in the FIFO at the first
  read, in order, and none is lost: what was received and what is still to come stay together the same.
\<close>

theorem jtag_DSR_transfers:
  assumes "jlayer_ok cb rcvd queued" "j_control (jdev ch) = k # ks" "present (jdev ch) \<noteq> []"
  defines "ch' \<equiv> altera_avalon_jtag_uart_DSR False cb ch"
  shows "\<exists>cs. j_tx (jdev ch') = j_tx (jdev ch) @ cs \<and> queued (jupper ch) = cs @ queued (jupper ch') \<and>
     length cs \<le> (if wi k then wspace k else 0) \<and>
     rcvd (jupper ch') = rcvd (jupper ch) @ (if ri k then present (jdev ch) else []) \<and>
     rcvd (jupper ch') @ to_come (jdev ch') = rcvd (jupper ch) @ to_come (jdev ch) \<and> \<not> j_masked (jdev ch')"
proof -
  define ch1 where "ch1 = ch\<lparr>jdev := (jdev ch)\<lparr>j_control := ks\<rparr>\<rparr>"
  define ch2 where "ch2 = (if wi k then transmit cb (wspace k) ch1 else ch1)"
  define ch3 where "ch3 = (if ri k then receive False cb ch2 else ch2)"
  have ch': "ch' = ch3\<lparr>jdev := (jdev ch3)\<lparr>j_masked := False\<rparr>\<rparr>"
    by (simp add: ch'_def altera_avalon_jtag_uart_DSR_def read_jtag_control_def assms(2) ch1_def ch2_def ch3_def Let_def)
  obtain cs up where x: "data_xmt_req cb (wspace k) (jupper ch) = (cs, up)" by fastforce
  let ?cs = "if wi k then cs else []"
  have two: "j_tx (jdev ch2) = j_tx (jdev ch) @ ?cs" "queued (jupper ch) = ?cs @ queued (jupper ch2)"
      "length ?cs \<le> (if wi k then wspace k else 0)" "rcvd (jupper ch2) = rcvd (jupper ch)"
      "present (jdev ch2) = present (jdev ch)" "to_come (jdev ch2) = to_come (jdev ch)"
    using jlayer_okD(3-5) [OF assms(1) x] x
    by (simp_all add: ch2_def ch1_def transmit_def fold_write_jtag present_def to_come_def)
  have three: "rcvd (jupper ch3) = rcvd (jupper ch) @ (if ri k then present (jdev ch) else [])"
      "rcvd (jupper ch3) @ to_come (jdev ch3) = rcvd (jupper ch) @ to_come (jdev ch)" "j_tx (jdev ch3) = j_tx (jdev ch2)"
      "queued (jupper ch3) = queued (jupper ch2)"
    using receive [OF assms(1), of ch2] two(4-6) assms(3) by (auto simp: ch3_def)
  show ?thesis using two three by (intro exI [of _ ?cs]) (simp add: ch' to_come_def)
qed

definition queue_layer :: "(bytes \<times> bytes) jcallbacks" where
  "queue_layer = \<lparr>data_xmt_req = (\<lambda>n (r, q). (take n q, (r, q))), data_xmt_done = (\<lambda>n (r, q). (r, drop n q)),
     rcv_char = (\<lambda>c (r, q). (r @ [c], q)), jdata_rcv_req = (\<lambda>n u. ((True, n), u)),
     jdata_rcv_done = (\<lambda>n cs (r, q). (r @ cs, q)), jserial_init = (\<lambda>c. c)\<rparr>"

lemma queue_layer: "jlayer_ok queue_layer fst snd"
  by (auto simp: jlayer_ok_def queue_layer_def min_def split: prod.splits)

definition sample_jtag :: "(bytes \<times> bytes) jtag_chan" where
  "sample_jtag = \<lparr>jdev = \<lparr>fifo = [1, 2], arrivals = [[3]], j_control = [\<lparr>wi = True, ri = True, wspace = 1\<rparr>], j_enable = {RE, WE},
     j_tx = [], j_masked = True\<rparr>, jupper = ([], [7, 8])\<rparr>"

theorem jtag_DSR_transfers_witness:
  "fst (jupper (altera_avalon_jtag_uart_DSR False queue_layer sample_jtag)) = [1, 2, 3]"
  using jtag_DSR_transfers [OF queue_layer, of sample_jtag "\<lparr>wi = True, ri = True, wspace = 1\<rparr>" "[]"]
  by (simp add: sample_jtag_def present_def)

text \<open>
  With hardware flow control, the layer is told that characters were delivered even when it refused
  them and none were read.
\<close>

lemma refused_still_reported:
  assumes "present (jdev ch) = c # q" "q \<noteq> []" "jdata_rcv_req cb (length q) (rcv_char cb c (jupper ch)) = ((False, n), up)"
  shows "jupper (receive True cb ch) = jdata_rcv_done cb n [] up \<and> fifo (jdev (receive True cb ch)) = q"
  using assms read_jtag_present [OF assms(1)] by (simp add: receive_def)

end
