(* ===== verification/Byte_Memory.thy ===== *)
theory Byte_Memory
  imports Nios_Prelude
begin

text \<open>
  Memory as the DMA controllers and the Ethernet drivers share it: a byte at every address, read and written
  in runs of bytes.
\<close>

definition load :: "(nat \<Rightarrow> u8) \<Rightarrow> nat \<Rightarrow> nat \<Rightarrow> bytes" where
  "load m a n = map (\<lambda>i. m (a + i)) [0..<n]"

definition store :: "nat \<Rightarrow> bytes \<Rightarrow> (nat \<Rightarrow> u8) \<Rightarrow> nat \<Rightarrow> u8" where
  "store a bs m = (\<lambda>x. if a \<le> x \<and> x < a + length bs then bs ! (x - a) else m x)"

lemma length_load [simp]: "length (load m a n) = n"
  by (simp add: load_def)

lemma store_Nil [simp]: "store a [] m = m"
  by (auto simp: store_def fun_eq_iff)

lemma store_append: "store (a + length xs) ys (store a xs m) = store a (xs @ ys) m"
  by (auto simp: store_def fun_eq_iff nth_append)

lemma load_add: "load m a (n + k) = load m a n @ load m (a + n) k"
  by (rule nth_equalityI) (auto simp: load_def nth_append)

lemma load_store [simp]: "load (store a bs m) a (length bs) = bs"
  by (rule nth_equalityI) (auto simp: load_def store_def)

lemma load_store_other: "a + n \<le> b \<or> b + length bs \<le> a \<Longrightarrow> load (store b bs m) a n = load m a n"
  by (auto simp: load_def store_def)

end
