(* ===== verification/Sgdma.thy ===== *)
theory Sgdma
  imports Byte_Memory
begin

text \<open>
  The scatter-gather DMA driver
  (\<^verbatim>\<open>packages/devs/dma/sopc/altera_avalon_sgdma/current/src/altera_avalon_sgdma.c\<close>).

  The first part models the controller as its data sheet describes it: memory, a table of descriptors, the
  status, control and next-descriptor registers, and the streams it is connected to. A step of the controller
  processes the descriptor that the next pointer names, if the controller runs and owns it. Descriptors
  are named by their number in descriptor memory; the cached and the uncached view of memory are the same, and
  flushing the cache has no effect. The second part is the driver.
\<close>

unbundle bit_operations_syntax

subsection \<open>Descriptors and registers\<close>

record alt_sgdma_descriptor =
  read_addr :: nat
  read_addr_pad :: u32
  write_addr :: nat
  write_addr_pad :: u32
  next_desc :: nat
  next_pad :: u32
  bytes_to_transfer :: u16
  read_burst :: u8
  write_burst :: u8
  actual_bytes_transferred :: u16
  d_status :: u8
  d_control :: u8

abbreviation (input) GENERATE_EOP_MSK :: u8 where "GENERATE_EOP_MSK \<equiv> 0x1"
abbreviation (input) READ_FIXED_ADDRESS_MSK :: u8 where "READ_FIXED_ADDRESS_MSK \<equiv> 0x2"
abbreviation (input) WRITE_FIXED_ADDRESS_MSK :: u8 where "WRITE_FIXED_ADDRESS_MSK \<equiv> 0x4"
abbreviation (input) OWNED_BY_HW_MSK :: u8 where "OWNED_BY_HW_MSK \<equiv> 0x80"
abbreviation (input) TERMINATED_BY_EOP_MSK :: u8 where "TERMINATED_BY_EOP_MSK \<equiv> 0x80"

abbreviation (input) STATUS_DESC_COMPLETED_MSK :: u32 where "STATUS_DESC_COMPLETED_MSK \<equiv> 0x4"
abbreviation (input) STATUS_CHAIN_COMPLETED_MSK :: u32 where "STATUS_CHAIN_COMPLETED_MSK \<equiv> 0x8"
abbreviation (input) STATUS_BUSY_MSK :: u32 where "STATUS_BUSY_MSK \<equiv> 0x10"

abbreviation (input) CONTROL_IE_GLOBAL_MSK :: u32 where "CONTROL_IE_GLOBAL_MSK \<equiv> 0x10"
abbreviation (input) CONTROL_RUN_MSK :: u32 where "CONTROL_RUN_MSK \<equiv> 0x20"
abbreviation (input) CONTROL_STOP_DMA_ER_MSK :: u32 where "CONTROL_STOP_DMA_ER_MSK \<equiv> 0x40"
abbreviation (input) CONTROL_SOFTWARERESET_MSK :: u32 where "CONTROL_SOFTWARERESET_MSK \<equiv> 0x10000"
abbreviation (input) CONTROL_PARK_MSK :: u32 where "CONTROL_PARK_MSK \<equiv> 0x20000"
abbreviation (input) CONTROL_CLEAR_INTERRUPT_MSK :: u32 where "CONTROL_CLEAR_INTERRUPT_MSK \<equiv> 0x80000000"

subsection \<open>The controller\<close>

text \<open>
  \<open>incoming\<close> are the packets waiting on the streaming input, \<open>outgoing\<close> those sent, \<open>partial\<close> the
  beginning of one. \<open>sg_mode\<close> is how the controller was generated.
\<close>

datatype sgdma_mode = Mem_to_mem | Mem_to_stream | Stream_to_mem

record sgdma =
  sg_mode :: sgdma_mode
  descs :: "nat \<Rightarrow> alt_sgdma_descriptor"
  mem :: "nat \<Rightarrow> u8"
  sg_control :: u32
  sg_sticky :: u32
  sg_next :: nat
  incoming :: "bytes list"
  outgoing :: "bytes list"
  partial :: bytes

definition owned :: "alt_sgdma_descriptor \<Rightarrow> bool" where
  "owned d \<longleftrightarrow> d_control d AND OWNED_BY_HW_MSK \<noteq> 0"

definition busy :: "sgdma \<Rightarrow> bool" where
  "busy s \<longleftrightarrow> sg_control s AND CONTROL_RUN_MSK \<noteq> 0 \<and> owned (descs s (sg_next s))"

definition IORD_STATUS :: "sgdma \<Rightarrow> u32" where
  "IORD_STATUS s = sg_sticky s OR (if busy s then STATUS_BUSY_MSK else 0)"

definition IOWR_STATUS :: "u32 \<Rightarrow> sgdma \<Rightarrow> sgdma" where
  "IOWR_STATUS v s = s\<lparr>sg_sticky := sg_sticky s AND NOT v\<rparr>"

definition IOWR_CONTROL :: "u32 \<Rightarrow> sgdma \<Rightarrow> sgdma" where
  "IOWR_CONTROL v s = s\<lparr>sg_control := v AND NOT CONTROL_CLEAR_INTERRUPT_MSK\<rparr>"

text \<open>Finishing the current descriptor after \<open>n\<close> bytes, with status \<open>st\<close>.\<close>

definition complete :: "nat \<Rightarrow> u8 \<Rightarrow> sgdma \<Rightarrow> sgdma" where
  "complete n st s =
     (let d = descs s (sg_next s)
      in s\<lparr>descs := (descs s)(sg_next s := d\<lparr>actual_bytes_transferred := of_nat n, d_status := st,
             d_control := d_control d AND NOT OWNED_BY_HW_MSK\<rparr>),
           sg_next := next_desc d,
           sg_sticky := sg_sticky s OR STATUS_DESC_COMPLETED_MSK OR
             (if owned (descs s (next_desc d)) then 0 else STATUS_CHAIN_COMPLETED_MSK)\<rparr>)"

definition sgdma_step :: "sgdma \<Rightarrow> sgdma" where
  "sgdma_step s =
     (if \<not> busy s then s
      else
        (let d = descs s (sg_next s); n = unat (bytes_to_transfer d)
         in case sg_mode s of
              Mem_to_mem \<Rightarrow> complete n 0 (s\<lparr>mem := store (write_addr d) (load (mem s) (read_addr d) n) (mem s)\<rparr>)
            | Mem_to_stream \<Rightarrow>
                (let p = (if d_control d AND WRITE_FIXED_ADDRESS_MSK \<noteq> 0 then [] else partial s) @ load (mem s) (read_addr d) n
                 in if d_control d AND GENERATE_EOP_MSK \<noteq> 0
                    then complete n 0 (s\<lparr>outgoing := outgoing s @ [p], partial := []\<rparr>)
                    else complete n 0 (s\<lparr>partial := p\<rparr>))
            | Stream_to_mem \<Rightarrow>
                (case incoming s of
                   [] \<Rightarrow> s
                 | p # ps \<Rightarrow>
                     (if n = 0 \<or> length p \<le> n
                      then complete (length p) TERMINATED_BY_EOP_MSK (s\<lparr>mem := store (write_addr d) p (mem s), incoming := ps\<rparr>)
                      else complete n 0 (s\<lparr>mem := store (write_addr d) (take n p) (mem s), incoming := drop n p # ps\<rparr>)))))"

subsection \<open>The driver\<close>

text \<open>
  \<open>isr\<close> is whether \<^verbatim>\<open>dev->isr\<close> is set, \<open>callback\<close> whether a callback is registered. The error codes \<open>EBUSY\<close> and
  \<open>EINPROGRESS\<close> are those of the C library.
\<close>

record alt_sgdma_dev =
  ctlr :: sgdma
  isr :: bool
  callback :: bool
  chain_control :: u32
  irq_unmasked :: bool

definition alt_avalon_sgdma_do_async_transfer :: "int \<Rightarrow> nat \<Rightarrow> alt_sgdma_dev \<Rightarrow> int \<times> alt_sgdma_dev" where
  "alt_avalon_sgdma_do_async_transfer EBUSY desc dev =
     (if IORD_STATUS (ctlr dev) AND STATUS_BUSY_MSK \<noteq> 0 then (- EBUSY, dev)
      else
        (let s1 = (IOWR_STATUS 0xFF (ctlr dev))\<lparr>sg_next := desc\<rparr>;
             control = (if isr dev
               then sg_control s1 OR (chain_control dev OR CONTROL_RUN_MSK OR CONTROL_STOP_DMA_ER_MSK)
               else (sg_control s1 OR (CONTROL_RUN_MSK OR CONTROL_STOP_DMA_ER_MSK)) AND NOT CONTROL_IE_GLOBAL_MSK)
         in (0, dev\<lparr>ctlr := IOWR_CONTROL control s1\<rparr>)))"

text \<open>The controller works between two reads of its status.\<close>

partial_function (option) await_idle :: "sgdma \<Rightarrow> sgdma option" where
  "await_idle s = (if IORD_STATUS s AND STATUS_BUSY_MSK \<noteq> 0 then await_idle (sgdma_step s) else Some s)"

definition alt_avalon_sgdma_do_sync_transfer :: "nat \<Rightarrow> alt_sgdma_dev \<Rightarrow> (u8 \<times> alt_sgdma_dev) option" where
  "alt_avalon_sgdma_do_sync_transfer desc dev =
     (case await_idle (ctlr dev) of
        None \<Rightarrow> None
      | Some s1 \<Rightarrow>
          (let s2 = (IOWR_STATUS 0xFF s1)\<lparr>sg_next := desc\<rparr>;
               s3 = IOWR_CONTROL (CONTROL_RUN_MSK OR CONTROL_STOP_DMA_ER_MSK OR sg_control s2) s2
           in case await_idle s3 of
                None \<Rightarrow> None
              | Some s4 \<Rightarrow>
                  (let s5 = IOWR_CONTROL (sg_control s4 AND NOT CONTROL_RUN_MSK) s4
                   in Some (ucast (IORD_STATUS s5), dev\<lparr>ctlr := IOWR_STATUS 0xFF s5\<rparr>))))"

definition alt_avalon_sgdma_construct_descriptor ::
  "nat \<Rightarrow> nat \<Rightarrow> nat \<Rightarrow> nat \<Rightarrow> u16 \<Rightarrow> bool \<Rightarrow> bool \<Rightarrow> bool \<Rightarrow> u8 \<Rightarrow> sgdma \<Rightarrow> sgdma" where
  "alt_avalon_sgdma_construct_descriptor desc nxt raddr waddr length_or_eop generate_eop read_fixed write_fixed_or_sop
     atlantic_channel s =
     (let t = (descs s)(nxt := (descs s nxt)\<lparr>d_control := d_control (descs s nxt) AND NOT OWNED_BY_HW_MSK\<rparr>)
      in s\<lparr>descs := t(desc :=
         \<lparr>read_addr = raddr, read_addr_pad = 0, write_addr = waddr, write_addr_pad = 0, next_desc = nxt, next_pad = 0,
          bytes_to_transfer = length_or_eop, read_burst = 0, write_burst = 0, actual_bytes_transferred = 0, d_status = 0,
          d_control = OWNED_BY_HW_MSK OR (if generate_eop then GENERATE_EOP_MSK else 0) OR
            (if read_fixed then READ_FIXED_ADDRESS_MSK else 0) OR
            (if write_fixed_or_sop then WRITE_FIXED_ADDRESS_MSK else 0) OR
            (if atlantic_channel \<noteq> 0 then push_bit 3 (atlantic_channel AND 0x0F) else 0)\<rparr>)\<rparr>)"

definition alt_avalon_sgdma_construct_mem_to_mem_desc ::
  "nat \<Rightarrow> nat \<Rightarrow> nat \<Rightarrow> nat \<Rightarrow> u16 \<Rightarrow> bool \<Rightarrow> bool \<Rightarrow> sgdma \<Rightarrow> sgdma" where
  "alt_avalon_sgdma_construct_mem_to_mem_desc desc nxt raddr waddr len read_fixed write_fixed =
     alt_avalon_sgdma_construct_descriptor desc nxt raddr waddr len False read_fixed write_fixed 0"

definition alt_avalon_sgdma_construct_stream_to_mem_desc :: "nat \<Rightarrow> nat \<Rightarrow> nat \<Rightarrow> u16 \<Rightarrow> bool \<Rightarrow> sgdma \<Rightarrow> sgdma" where
  "alt_avalon_sgdma_construct_stream_to_mem_desc desc nxt waddr length_or_eop write_fixed =
     alt_avalon_sgdma_construct_descriptor desc nxt 0 waddr length_or_eop False False write_fixed 0"

definition alt_avalon_sgdma_construct_mem_to_stream_desc ::
  "nat \<Rightarrow> nat \<Rightarrow> nat \<Rightarrow> u16 \<Rightarrow> bool \<Rightarrow> bool \<Rightarrow> bool \<Rightarrow> u8 \<Rightarrow> sgdma \<Rightarrow> sgdma" where
  "alt_avalon_sgdma_construct_mem_to_stream_desc desc nxt raddr len read_fixed generate_sop generate_eop atlantic_channel =
     alt_avalon_sgdma_construct_descriptor desc nxt raddr 0 len generate_eop read_fixed generate_sop atlantic_channel"

definition alt_avalon_sgdma_register_callback :: "bool \<Rightarrow> u32 \<Rightarrow> alt_sgdma_dev \<Rightarrow> alt_sgdma_dev" where
  "alt_avalon_sgdma_register_callback cb control dev = dev\<lparr>callback := cb, chain_control := control\<rparr>"

definition alt_avalon_sgdma_start :: "alt_sgdma_dev \<Rightarrow> alt_sgdma_dev" where
  "alt_avalon_sgdma_start dev = dev\<lparr>ctlr := IOWR_CONTROL (sg_control (ctlr dev) OR CONTROL_RUN_MSK) (ctlr dev)\<rparr>"

definition alt_avalon_sgdma_stop :: "alt_sgdma_dev \<Rightarrow> alt_sgdma_dev" where
  "alt_avalon_sgdma_stop dev = dev\<lparr>ctlr := IOWR_CONTROL (sg_control (ctlr dev) AND NOT CONTROL_RUN_MSK) (ctlr dev)\<rparr>"

definition alt_avalon_sgdma_park :: "alt_sgdma_dev \<Rightarrow> alt_sgdma_dev" where
  "alt_avalon_sgdma_park dev = dev\<lparr>ctlr := IOWR_CONTROL (sg_control (ctlr dev) OR CONTROL_PARK_MSK) (ctlr dev)\<rparr>"

definition alt_avalon_sgdma_status :: "alt_sgdma_dev \<Rightarrow> u32 \<times> alt_sgdma_dev" where
  "alt_avalon_sgdma_status dev = (IORD_STATUS (ctlr dev), dev\<lparr>ctlr := IOWR_STATUS 0xFF (ctlr dev)\<rparr>)"

definition alt_avalon_sgdma_get_control :: "alt_sgdma_dev \<Rightarrow> u32" where
  "alt_avalon_sgdma_get_control dev = sg_control (ctlr dev)"

definition alt_avalon_sgdma_set_control :: "u32 \<Rightarrow> alt_sgdma_dev \<Rightarrow> alt_sgdma_dev" where
  "alt_avalon_sgdma_set_control v dev = dev\<lparr>ctlr := IOWR_CONTROL v (ctlr dev)\<rparr>"

definition alt_avalon_sgdma_check_descriptor_status :: "int \<Rightarrow> alt_sgdma_descriptor \<Rightarrow> int" where
  "alt_avalon_sgdma_check_descriptor_status EINPROGRESS d =
     (if d_status d AND (0x1 OR 0x2 OR 0x4 OR 0x8 OR 0x10 OR 0x20 OR 0x40) \<noteq> 0 then - 5
      else if d_control d AND OWNED_BY_HW_MSK \<noteq> 0 then - EINPROGRESS
      else 0)"

text \<open>The interrupt handler; \<open>user\<close> is the registered callback.\<close>

definition alt_avalon_sgdma_irq :: "(alt_sgdma_dev \<Rightarrow> alt_sgdma_dev) \<Rightarrow> alt_sgdma_dev \<Rightarrow> alt_sgdma_dev" where
  "alt_avalon_sgdma_irq user dev =
     (let dev1 = dev\<lparr>ctlr := IOWR_CONTROL (sg_control (ctlr dev) OR 0x80000000) (ctlr dev)\<rparr>
      in if callback dev1 then user dev1 else dev1)"

definition alt_avalon_sgdma_reset :: "alt_sgdma_dev \<Rightarrow> alt_sgdma_dev" where
  "alt_avalon_sgdma_reset dev =
     dev\<lparr>ctlr := IOWR_STATUS 0xFF (IOWR_CONTROL 0
       (IOWR_CONTROL (CONTROL_SOFTWARERESET_MSK OR CONTROL_CLEAR_INTERRUPT_MSK) (ctlr dev)))\<rparr>"

definition alt_avalon_sgdma_init :: "alt_sgdma_dev \<Rightarrow> alt_sgdma_dev" where
  "alt_avalon_sgdma_init dev =
     dev\<lparr>ctlr := IOWR_STATUS 0xFF (IOWR_CONTROL 0 (IOWR_CONTROL CONTROL_SOFTWARERESET_MSK (ctlr dev))), irq_unmasked := True\<rparr>"

definition alt_avalon_sgdma_init2 :: "alt_sgdma_dev \<Rightarrow> alt_sgdma_dev" where
  "alt_avalon_sgdma_init2 dev = alt_avalon_sgdma_reset dev"

definition alt_avalon_sgdma_descpt_bytes_xfered :: "alt_sgdma_descriptor \<Rightarrow> u32" where
  "alt_avalon_sgdma_descpt_bytes_xfered d = ucast (actual_bytes_transferred d)"

end
