(* ===== verification/Tse.thy ===== *)
theory Tse
  imports Sgdma
begin

text \<open>
  The Ethernet driver for the Triple-Speed Ethernet MAC
  (\<^verbatim>\<open>packages/devs/eth/sopc/altera_avalon_tse/current/src/if_tse.c\<close>), over the DMA controllers of \<open>Sgdma\<close>.

  The state holds the driver's private data, the two DMA controllers with their part of descriptor
  memory (receive descriptors from number 0, transmit descriptors from number \<open>BUFFER_NO\<close>), the registers of the MAC
  by word number, and what the network stack was told: the packets it received and the keys of
  those it may release. The buffers the stack offers for a packet (\<open>alloc\<close>: for each buffer whether it is null,
  and its length) and the constants of the generated system are parameters (\<open>tse_cfg\<close>). The PHY is in \<open>Tse_Phy\<close>.
\<close>

unbundle bit_operations_syntax

record tse_cfg =
  BUFFER_NO :: nat
  TX_FIFO_DEPTH :: u32
  RX_FIFO_DEPTH :: u32
  EBUSY :: int
  EINPROGRESS :: int
  alloc :: "nat \<Rightarrow> (bool \<times> int) list"

definition BUFFER_SIZE :: nat where
  "BUFFER_SIZE = 1528 + 16 + 8"

record tse =
  rx_buffer :: nat
  tx_buffer :: nat
  txbusy :: int
  txkey :: u32
  enaddr :: bytes
  within_send :: int
  tx_sgdma :: alt_sgdma_dev
  rx_sgdma :: alt_sgdma_dev
  rx_current_index :: nat
  bytesReceived :: int
  speed :: u32
  mac :: "nat \<Rightarrow> u32"
  reset_reads :: nat
  clocks_ok :: bool
  rx_masked :: bool
  tx_masked :: bool
  delivered :: "bytes list"
  released :: "u32 list"

subsection \<open>The registers of the MAC\<close>

text \<open>\<^verbatim>\<open>IOWR_32DIRECT\<close> takes an offset in bytes; the bus addresses words.\<close>

definition mac_write :: "nat \<Rightarrow> u32 \<Rightarrow> tse \<Rightarrow> tse" where
  "mac_write offset v t = t\<lparr>mac := (mac t)(offset div 4 := v)\<rparr>"

abbreviation (input) CMD_CONFIG :: nat where "CMD_CONFIG \<equiv> 0x8"
abbreviation (input) CMD_TX_ENA_MSK :: u32 where "CMD_TX_ENA_MSK \<equiv> 0x1"
abbreviation (input) CMD_RX_ENA_MSK :: u32 where "CMD_RX_ENA_MSK \<equiv> 0x2"
abbreviation (input) CMD_ETH_SPEED_MSK :: u32 where "CMD_ETH_SPEED_MSK \<equiv> 0x8"
abbreviation (input) CMD_HD_ENA_MSK :: u32 where "CMD_HD_ENA_MSK \<equiv> 0x400"
abbreviation (input) CMD_SW_RESET_MSK :: u32 where "CMD_SW_RESET_MSK \<equiv> 0x2000"
abbreviation (input) CMD_RX_ERR_DISC_MSK :: u32 where "CMD_RX_ERR_DISC_MSK \<equiv> 0x4000000"
abbreviation (input) TXSHIFT16_MSK :: u32 where "TXSHIFT16_MSK \<equiv> 0x40000"

text \<open>
  The command register: a software reset takes \<open>reset_reads\<close> reads, then its bit and, if the PHY clocks run, the
  enable bits are cleared.
\<close>

definition read_cmd :: "tse \<Rightarrow> u32 \<times> tse" where
  "read_cmd t =
     (let v = mac t (CMD_CONFIG div 4)
      in if v AND CMD_SW_RESET_MSK = 0 then (v, t)
         else if reset_reads t > 0 then (v, t\<lparr>reset_reads := reset_reads t - 1\<rparr>)
         else (let v1 = (if clocks_ok t then v AND NOT (CMD_SW_RESET_MSK OR CMD_TX_ENA_MSK OR CMD_RX_ENA_MSK)
                         else v AND NOT CMD_SW_RESET_MSK)
               in (v1, mac_write CMD_CONFIG v1 t)))"

text \<open>\<^verbatim>\<open>IOWR_ALTERA_TSEMAC_HASH_TABLE\<close> adds the number of the entry to the byte offset of the table.\<close>

definition write_hash_table :: "nat \<Rightarrow> u32 \<Rightarrow> tse \<Rightarrow> tse" where
  "write_hash_table offset v = mac_write (0x100 + offset) v"

definition mac_low :: "bytes \<Rightarrow> u32" where
  "mac_low e = ucast (e ! 0) OR push_bit 8 (ucast (e ! 1)) OR push_bit 16 (ucast (e ! 2)) OR push_bit 24 (ucast (e ! 3))"

definition mac_high :: "bytes \<Rightarrow> u32" where
  "mac_high e = ucast (e ! 4) OR (push_bit 8 (ucast (e ! 5)) AND 0xFFFF)"

subsection \<open>Interrupts\<close>

definition tse_rxd_isr :: "tse \<Rightarrow> tse" where
  "tse_rxd_isr t =
     t\<lparr>rx_sgdma := alt_avalon_sgdma_set_control 0 (alt_avalon_sgdma_set_control CONTROL_CLEAR_INTERRUPT_MSK (rx_sgdma t)),
       rx_masked := True\<rparr>"

definition tse_TxDone :: "tse_cfg \<Rightarrow> tse \<Rightarrow> tse" where
  "tse_TxDone cfg t =
     (let stat = alt_avalon_sgdma_check_descriptor_status (EINPROGRESS cfg) (descs (ctlr (tx_sgdma t)) (BUFFER_NO cfg))
      in if stat AND 0x10 = 0 \<and> txkey t \<noteq> 0 then t\<lparr>released := released t @ [txkey t], txkey := 0\<rparr> else t)"

subsection \<open>Reception\<close>

fun copy_packet :: "(nat \<Rightarrow> u8) \<Rightarrow> nat \<Rightarrow> (bool \<times> int) list \<Rightarrow> bytes" where
  "copy_packet m from_addr [] = []"
| "copy_packet m from_addr ((null, len) # sg_list) =
     (if null \<or> len \<le> 0 then []
      else load m from_addr (nat len) @ copy_packet m (from_addr + nat len) sg_list)"

definition set_rx_desc :: "nat \<Rightarrow> (alt_sgdma_descriptor \<Rightarrow> alt_sgdma_descriptor) \<Rightarrow> tse \<Rightarrow> tse" where
  "set_rx_desc i f t =
     t\<lparr>rx_sgdma := (rx_sgdma t)\<lparr>ctlr := (ctlr (rx_sgdma t))\<lparr>descs := (descs (ctlr (rx_sgdma t)))(i := f (descs (ctlr (rx_sgdma t)) i))\<rparr>\<rparr>\<rparr>"

definition tse_recv :: "(bool \<times> int) list \<Rightarrow> tse \<Rightarrow> tse" where
  "tse_recv sg_list t =
     (let i = rx_current_index t;
          from_addr = rx_buffer t + i * BUFFER_SIZE + 2;
          t1 = t\<lparr>delivered := delivered t @ [copy_packet (mem (ctlr (rx_sgdma t))) from_addr sg_list]\<rparr>
      in set_rx_desc i (\<lambda>d. d\<lparr>d_control := d_control d OR OWNED_BY_HW_MSK\<rparr>) t1)"

text \<open>The stack answers \<^verbatim>\<open>recv\<close> by calling \<^verbatim>\<open>tse_recv\<close> with its buffers.\<close>

definition eth_drv_recv :: "tse_cfg \<Rightarrow> int \<Rightarrow> tse \<Rightarrow> tse" where
  "eth_drv_recv cfg len t = tse_recv (alloc cfg (nat len)) t"

function deliver_loop :: "tse_cfg \<Rightarrow> tse \<Rightarrow> tse" where
  "deliver_loop cfg t =
     (let i = rx_current_index t; d = descs (ctlr (rx_sgdma t)) i
      in if i \<ge> BUFFER_NO cfg then t
         else if d_control d = 0 then
           (let t1 = t\<lparr>bytesReceived := sint (alt_avalon_sgdma_descpt_bytes_xfered d - 2)\<rparr>;
                t2 = (if bytesReceived t1 > 0 then eth_drv_recv cfg (bytesReceived t1) t1 else t1);
                t3 = set_rx_desc i (\<lambda>d. d\<lparr>d_status := 0, actual_bytes_transferred := 0\<rparr>) t2
            in deliver_loop cfg (t3\<lparr>rx_current_index := i + 1\<rparr>))
         else t\<lparr>rx_current_index := 0\<rparr>)"
  by auto
termination
  by (relation "measure (\<lambda>(cfg, t). BUFFER_NO cfg - rx_current_index t)")
    (auto simp: Let_def eth_drv_recv_def tse_recv_def set_rx_desc_def)

declare deliver_loop.simps [simp del]

text \<open>The receive descriptors, each with its buffer, in a chain that ends before the last one.\<close>

definition construct_rx :: "tse_cfg \<Rightarrow> nat \<Rightarrow> sgdma \<Rightarrow> sgdma" where
  "construct_rx cfg buf s =
     fold (\<lambda>i. alt_avalon_sgdma_construct_stream_to_mem_desc i (i + 1) (buf + i * BUFFER_SIZE) 0 False) [0..<BUFFER_NO cfg - 1] s"

definition start_rx :: "tse_cfg \<Rightarrow> tse \<Rightarrow> tse" where
  "start_rx cfg t = t\<lparr>rx_sgdma := snd (alt_avalon_sgdma_do_async_transfer (EBUSY cfg) 0 (rx_sgdma t))\<rparr>"

definition tse_deliver :: "tse_cfg \<Rightarrow> tse \<Rightarrow> tse" where
  "tse_deliver cfg t =
     (let t1 = deliver_loop cfg ((tse_TxDone cfg t)\<lparr>rx_current_index := 0\<rparr>);
          t2 = t1\<lparr>rx_sgdma := alt_avalon_sgdma_reset (rx_sgdma t1)\<rparr>;
          t3 = t2\<lparr>rx_sgdma := (rx_sgdma t2)\<lparr>ctlr := construct_rx cfg (rx_buffer t2) (ctlr (rx_sgdma t2)), chain_control := 0x1A\<rparr>\<rparr>;
          stat = IORD_STATUS (ctlr (rx_sgdma t3));
          t4 = (if stat AND STATUS_CHAIN_COMPLETED_MSK \<noteq> 0 \<or> stat AND STATUS_BUSY_MSK = 0 then start_rx cfg t3 else t3)
      in t4\<lparr>rx_masked := False\<rparr>)"

subsection \<open>Starting and stopping\<close>

definition tse_start :: "tse_cfg \<Rightarrow> tse \<Rightarrow> tse" where
  "tse_start cfg t =
     (let (cmd, t1) = read_cmd t;
          dat = cmd OR (CMD_TX_ENA_MSK OR CMD_RX_ENA_MSK OR CMD_RX_ERR_DISC_MSK);
          dat = (if drop_bit 1 (speed t1) AND 1 \<noteq> 0 then dat OR CMD_ETH_SPEED_MSK else dat AND NOT CMD_ETH_SPEED_MSK);
          dat = (if speed t1 AND 1 \<noteq> 0 then dat AND NOT CMD_HD_ENA_MSK else dat OR CMD_HD_ENA_MSK);
          t2 = mac_write CMD_CONFIG dat t1;
          t3 = t2\<lparr>rx_sgdma := (rx_sgdma t2)\<lparr>ctlr := construct_rx cfg (rx_buffer t2) (ctlr (rx_sgdma t2)), chain_control := 0x1A\<rparr>,
                  rx_masked := False\<rparr>
      in start_rx cfg t3)"

definition tse_stop :: "tse \<Rightarrow> tse" where
  "tse_stop t =
     (let (state, t1) = read_cmd (t\<lparr>rx_masked := True, tx_masked := True, txkey := 0\<rparr>)
      in mac_write CMD_CONFIG (state AND NOT (CMD_RX_ENA_MSK OR CMD_TX_ENA_MSK)) t1)"

subsection \<open>Control\<close>

definition octet_parity :: "u8 \<Rightarrow> u32" where
  "octet_parity octet = fold (\<lambda>bitshift xor_bit. xor_bit XOR (ucast (drop_bit bitshift octet) AND 1)) [0..<8] 0"

definition address_hash :: "bytes \<Rightarrow> u32" where
  "address_hash a = fold (\<lambda>mac_octet hash. push_bit 1 hash OR octet_parity (a ! mac_octet)) [5, 4, 3, 2, 1, 0] 0"

definition tse_set_hash_table :: "bytes list \<Rightarrow> tse \<Rightarrow> tse" where
  "tse_set_hash_table addrs =
     fold (\<lambda>a t. if a ! 0 AND 1 = 0 then t else write_hash_table (unat (address_hash a)) 1 t) addrs"

datatype eth_control = SET_MAC_ADDRESS bytes | SET_MC_LIST "bytes list" | SET_MC_ALL | OTHER_KEY

definition set_mac :: "bytes \<Rightarrow> tse \<Rightarrow> tse" where
  "set_mac e t = mac_write 0x10 (mac_high e) (mac_write 0xC (mac_low e) t)"

definition tse_control :: "eth_control \<Rightarrow> tse \<Rightarrow> int \<times> tse" where
  "tse_control key t =
     (case key of
        SET_MAC_ADDRESS e \<Rightarrow> (0, set_mac e (t\<lparr>enaddr := e\<rparr>))
      | SET_MC_LIST addrs \<Rightarrow> (0, tse_set_hash_table addrs (fold (\<lambda>i. write_hash_table i 0) [0..<64] t))
      | SET_MC_ALL \<Rightarrow> (0, fold (\<lambda>i. write_hash_table i 1) [0..<64] t)
      | OTHER_KEY \<Rightarrow> (1, t))"

subsection \<open>Transmission\<close>

definition tse_can_send :: "tse_cfg \<Rightarrow> tse \<Rightarrow> bool" where
  "tse_can_send cfg t \<longleftrightarrow>
     alt_avalon_sgdma_check_descriptor_status (EINPROGRESS cfg) (descs (ctlr (tx_sgdma t)) (BUFFER_NO cfg)) AND 0x10 = 0"

text \<open>A scatter-gather list of the stack: \<open>None\<close> is a null buffer.\<close>

fun gather :: "nat \<Rightarrow> bytes option list \<Rightarrow> nat \<Rightarrow> (nat \<Rightarrow> u8) \<Rightarrow> nat \<times> (nat \<Rightarrow> u8)" where
  "gather dest [] len m = (len, m)"
| "gather dest (b # sg_list) len m =
     (case b of
        None \<Rightarrow> gather dest sg_list len m
      | Some bs \<Rightarrow> if bs = [] then gather dest sg_list len m
                   else gather dest sg_list (len + length bs) (store (dest + len) bs m))"

definition tse_send :: "tse_cfg \<Rightarrow> bytes option list \<Rightarrow> u32 \<Rightarrow> tse \<Rightarrow> tse" where
  "tse_send cfg sg_list key t =
     (let (len, m) = gather (tx_buffer t + 2) sg_list 0 (mem (ctlr (tx_sgdma t)));
          s1 = (ctlr (tx_sgdma t))\<lparr>mem := m\<rparr>;
          s2 = alt_avalon_sgdma_construct_mem_to_stream_desc (BUFFER_NO cfg) (BUFFER_NO cfg + 1) (tx_buffer t) (of_nat (len + 2))
                 False True True 0 s1;
          s3 = IOWR_STATUS 0xFF (IOWR_CONTROL 0 s2);
          dev = snd (alt_avalon_sgdma_do_async_transfer (EBUSY cfg) (BUFFER_NO cfg) ((tx_sgdma t)\<lparr>ctlr := s3\<rparr>));
          t1 = mac_write 0xE8 TXSHIFT16_MSK (t\<lparr>txbusy := 1, txkey := key, tx_sgdma := dev, within_send := 0\<rparr>)
      in tse_TxDone cfg t1)"

end
