(* ===== verification/Sgdma_Correct.thy ===== *)
theory Sgdma_Correct
  imports Sgdma
begin

text \<open>
  What the DMA driver achieves: a chain of descriptors built with it and handed to a blocking transfer is
  processed completely, in order, and the transfer returns.
\<close>

unbundle bit_operations_syntax

subsection \<open>The registers\<close>

lemma status_busy [simp]: "IORD_STATUS (IOWR_STATUS 0xFF s) AND 0x10 = (if busy s then 0x10 else 0)"
proof -
  have "busy (IOWR_STATUS 0xFF s) = busy s" by (simp add: busy_def IOWR_STATUS_def)
  moreover have "(sg_sticky s AND NOT 0xFF) AND 0x10 = 0" by (simp add: and.assoc)
  ultimately show ?thesis by (simp add: IORD_STATUS_def bit.conj_disj_distrib2) (simp add: IOWR_STATUS_def)
qed

lemma IOWR_STATUS_control [simp]: "sg_control (IOWR_STATUS v s) = sg_control s"
  by (simp add: IOWR_STATUS_def)

text \<open>The sticky bits are those below the busy bit.\<close>

definition sticky_ok :: "sgdma \<Rightarrow> bool" where
  "sticky_ok s \<longleftrightarrow> sg_sticky s AND 0x10 = 0"

lemma sticky_busy: "sticky_ok s \<Longrightarrow> IORD_STATUS s AND 0x10 \<noteq> 0 \<longleftrightarrow> busy s"
  by (simp add: sticky_ok_def IORD_STATUS_def bit.conj_disj_distrib2)

lemma owned_set: "owned (d\<lparr>d_control := 0x80 OR v\<rparr>)"
  by (simp add: owned_def bit.conj_disj_distrib2 or_eq_0_iff)

lemma not_owned_clear: "\<not> owned (d\<lparr>d_control := v AND NOT 0x80\<rparr>)"
  by (simp add: owned_def and.assoc)

subsection \<open>Chains\<close>

text \<open>Descriptors \<open>i\<close> to \<open>i + k - 1\<close> follow one another and are owned by the controller, the one after is not.\<close>

definition chain :: "(nat \<Rightarrow> alt_sgdma_descriptor) \<Rightarrow> nat \<Rightarrow> nat \<Rightarrow> bool" where
  "chain ds i k \<longleftrightarrow> (\<forall>j<k. owned (ds (i + j)) \<and> next_desc (ds (i + j)) = Suc (i + j)) \<and> \<not> owned (ds (i + k))"

lemma chain_0: "chain ds i 0 \<longleftrightarrow> \<not> owned (ds i)"
  by (simp add: chain_def)

lemma chain_Suc: "chain ds i (Suc k) \<longleftrightarrow> owned (ds i) \<and> next_desc (ds i) = Suc i \<and> chain ds (Suc i) k"
  unfolding chain_def by (auto simp: less_Suc_eq_0_disj)

lemma chain_upd: "n < i \<Longrightarrow> chain (ds(n := d)) i k = chain ds i k"
  by (simp add: chain_def)

lemma complete_simps:
  "sg_mode (complete n st s) = sg_mode s" "sg_control (complete n st s) = sg_control s" "mem (complete n st s) = mem s"
  "incoming (complete n st s) = incoming s" "outgoing (complete n st s) = outgoing s" "partial (complete n st s) = partial s"
  "sg_next (complete n st s) = next_desc (descs s (sg_next s))"
  "descs (complete n st s) = (descs s)(sg_next s := (descs s (sg_next s))\<lparr>actual_bytes_transferred := of_nat n, d_status := st,
     d_control := d_control (descs s (sg_next s)) AND NOT 0x80\<rparr>)"
  by (simp_all add: complete_def Let_def)

lemma complete_sticky: "sticky_ok s \<Longrightarrow> sticky_ok (complete n st s)"
  by (simp add: sticky_ok_def complete_def Let_def bit.conj_disj_distrib2)

lemma complete_chain:
  assumes "chain (descs s) (sg_next s) (Suc k)"
  shows "chain (descs (complete n st s)) (sg_next (complete n st s)) k" "sg_next (complete n st s) = Suc (sg_next s)"
  using assms by (simp_all add: complete_simps chain_Suc chain_upd)

subsection \<open>Copying\<close>

text \<open>A list of regions to copy, each with source, destination and length, and what copying it does.\<close>

definition copy_all :: "(nat \<times> nat \<times> u16) list \<Rightarrow> (nat \<Rightarrow> u8) \<Rightarrow> nat \<Rightarrow> u8" where
  "copy_all rs = fold (\<lambda>(r, w, n) m. store w (load m r (unat n)) m) rs"

fun describes :: "(nat \<Rightarrow> alt_sgdma_descriptor) \<Rightarrow> nat \<Rightarrow> (nat \<times> nat \<times> u16) list \<Rightarrow> bool" where
  "describes ds i [] = True"
| "describes ds i ((r, w, n) # rs) =
     (read_addr (ds i) = r \<and> write_addr (ds i) = w \<and> bytes_to_transfer (ds i) = n \<and> describes ds (Suc i) rs)"

lemma describes_upd: "n < i \<Longrightarrow> describes (ds(n := d)) i rs = describes ds i rs"
  by (induction ds i rs rule: describes.induct) auto

text \<open>Building the chain with the driver, as its clients do.\<close>

fun build_copies :: "(nat \<times> nat \<times> u16) list \<Rightarrow> nat \<Rightarrow> sgdma \<Rightarrow> sgdma" where
  "build_copies [] i s = s"
| "build_copies ((r, w, n) # rs) i s =
     build_copies rs (Suc i) (alt_avalon_sgdma_construct_mem_to_mem_desc i (Suc i) r w n False False s)"

lemma construct_simps:
  "sg_mode (alt_avalon_sgdma_construct_descriptor i nxt r w n eop rf sop ch s) = sg_mode s"
  "sg_control (alt_avalon_sgdma_construct_descriptor i nxt r w n eop rf sop ch s) = sg_control s"
  "sg_sticky (alt_avalon_sgdma_construct_descriptor i nxt r w n eop rf sop ch s) = sg_sticky s"
  "sg_next (alt_avalon_sgdma_construct_descriptor i nxt r w n eop rf sop ch s) = sg_next s"
  "mem (alt_avalon_sgdma_construct_descriptor i nxt r w n eop rf sop ch s) = mem s"
  "incoming (alt_avalon_sgdma_construct_descriptor i nxt r w n eop rf sop ch s) = incoming s"
  "outgoing (alt_avalon_sgdma_construct_descriptor i nxt r w n eop rf sop ch s) = outgoing s"
  "partial (alt_avalon_sgdma_construct_descriptor i nxt r w n eop rf sop ch s) = partial s"
  by (simp_all add: alt_avalon_sgdma_construct_descriptor_def)

lemma construct_desc:
  fixes s :: sgdma and i nxt r w :: nat and n :: u16 and eop rf sop :: bool and ch :: u8
  assumes "nxt \<noteq> i"
  defines "s' \<equiv> alt_avalon_sgdma_construct_descriptor i nxt r w n eop rf sop ch s"
  shows "owned (descs s' i)" "next_desc (descs s' i) = nxt" "read_addr (descs s' i) = r" "write_addr (descs s' i) = w"
    "bytes_to_transfer (descs s' i) = n" "\<not> owned (descs s' nxt)"
    "j \<noteq> i \<Longrightarrow> j \<noteq> nxt \<Longrightarrow> descs s' j = descs s j"
    "d_control (descs s' i) AND 1 \<noteq> 0 \<longleftrightarrow> eop" "d_control (descs s' i) AND 4 \<noteq> 0 \<longleftrightarrow> sop"
proof -
  have bits: "x AND 1 \<noteq> 0 \<longleftrightarrow> bit x 0" "x AND 4 \<noteq> 0 \<longleftrightarrow> bit x 2" "x AND 0x80 \<noteq> 0 \<longleftrightarrow> bit x 7" for x :: u8
    using and_exp_eq_0_iff_not_bit [of x 0] and_exp_eq_0_iff_not_bit [of x 2] and_exp_eq_0_iff_not_bit [of x 7] by simp_all
  define v where "v = (if ch \<noteq> 0 then push_bit 3 (ch AND 0x0F) else (0 :: u8))"
  have v: "\<not> bit v 0" "\<not> bit v 2" by (simp_all add: v_def bit_push_bit_iff bit_and_iff)
  have d: "descs s' i = \<lparr>read_addr = r, read_addr_pad = 0, write_addr = w, write_addr_pad = 0, next_desc = nxt, next_pad = 0,
      bytes_to_transfer = n, read_burst = 0, write_burst = 0, actual_bytes_transferred = 0, d_status = 0,
      d_control = 0x80 OR (if eop then 1 else 0) OR (if rf then 2 else 0) OR (if sop then 4 else 0) OR v\<rparr>"
    by (simp add: s'_def alt_avalon_sgdma_construct_descriptor_def v_def)
  show "next_desc (descs s' i) = nxt" "read_addr (descs s' i) = r" "write_addr (descs s' i) = w" "bytes_to_transfer (descs s' i) = n"
    by (simp_all add: d)
  have c: "d_control (descs s' i) = 0x80 OR (if eop then 1 else 0) OR (if rf then 2 else 0) OR (if sop then 4 else 0) OR v" by (simp add: d)
  show "owned (descs s' i)" unfolding owned_def bits c by (simp add: bit_or_iff)
  show "d_control (descs s' i) AND 1 \<noteq> 0 \<longleftrightarrow> eop" "d_control (descs s' i) AND 4 \<noteq> 0 \<longleftrightarrow> sop"
    unfolding bits c using v by (simp_all add: bit_or_iff)
  show "\<not> owned (descs s' nxt)" "j \<noteq> i \<Longrightarrow> j \<noteq> nxt \<Longrightarrow> descs s' j = descs s j"
    using assms by (simp_all add: alt_avalon_sgdma_construct_descriptor_def owned_def and.assoc)
qed

lemma build_copies:
  "rs \<noteq> [] \<Longrightarrow> chain (descs (build_copies rs i s)) i (length rs) \<and> describes (descs (build_copies rs i s)) i rs \<and>
     (\<forall>j<i. descs (build_copies rs i s) j = descs s j) \<and> sg_mode (build_copies rs i s) = sg_mode s \<and>
     sg_control (build_copies rs i s) = sg_control s \<and> sg_sticky (build_copies rs i s) = sg_sticky s \<and>
     mem (build_copies rs i s) = mem s"
proof (induction rs arbitrary: i s)
  case (Cons rwn rs)
  obtain r w n where rwn: "rwn = (r, w, n)" by (cases rwn)
  let ?s = "alt_avalon_sgdma_construct_mem_to_mem_desc i (Suc i) r w n False False s"
  note c = alt_avalon_sgdma_construct_mem_to_mem_desc_def
  have d: "owned (descs ?s i)" "next_desc (descs ?s i) = Suc i" "read_addr (descs ?s i) = r" "write_addr (descs ?s i) = w"
      "bytes_to_transfer (descs ?s i) = n" "\<not> owned (descs ?s (Suc i))" "\<forall>j<i. descs ?s j = descs s j"
    unfolding c by (simp_all add: construct_desc)
  show ?case
  proof (cases "rs = []")
    case True
    then show ?thesis using d rwn by (simp add: chain_Suc chain_0 c construct_simps)
  next
    case False
    then show ?thesis using Cons.IH [OF False, of "Suc i" ?s] d rwn
      by (simp add: chain_Suc c construct_simps)
  qed
qed simp

lemma await_copies:
  "sg_mode s = Mem_to_mem \<Longrightarrow> sg_control s AND 0x20 \<noteq> 0 \<Longrightarrow> sticky_ok s \<Longrightarrow> chain (descs s) (sg_next s) (length rs) \<Longrightarrow>
   describes (descs s) (sg_next s) rs \<Longrightarrow>
   \<exists>s'. await_idle s = Some s' \<and> mem s' = copy_all rs (mem s) \<and> sg_control s' = sg_control s \<and> \<not> busy s' \<and>
     sg_sticky s' = (if rs = [] then sg_sticky s else sg_sticky s OR 0xC) \<and>
     (\<forall>j < sg_next s. descs s' j = descs s j) \<and>
     (\<forall>j<length rs. \<not> owned (descs s' (sg_next s + j)) \<and> d_status (descs s' (sg_next s + j)) = 0)"
proof (induction rs arbitrary: s)
  case Nil
  then have "\<not> busy s" by (simp add: chain_0 busy_def)
  then show ?case using Nil sticky_busy [of s] by (subst await_idle.simps) (simp add: copy_all_def)
next
  case (Cons rwn rs)
  obtain r w n where rwn: "rwn = (r, w, n)" by (cases rwn)
  let ?i = "sg_next s"
  have own: "owned (descs s ?i)" "next_desc (descs s ?i) = Suc ?i" using Cons.prems(4) by (simp_all add: chain_Suc)
  have d: "read_addr (descs s ?i) = r" "write_addr (descs s ?i) = w" "bytes_to_transfer (descs s ?i) = n"
    using Cons.prems(5) rwn by simp_all
  have busy: "busy s" using own(1) Cons.prems(2) by (simp add: busy_def)
  let ?m = "store w (load (mem s) r (unat n)) (mem s)"
  let ?t = "s\<lparr>mem := ?m\<rparr>"
  define s1 where "s1 = complete (unat n) 0 ?t"
  have step: "sgdma_step s = s1" using busy Cons.prems(1) d by (simp add: sgdma_step_def Let_def s1_def)
  have s1: "sg_mode s1 = Mem_to_mem" "sg_control s1 = sg_control s" "mem s1 = ?m" "sg_next s1 = Suc ?i" "sticky_ok s1"
      "chain (descs s1) (sg_next s1) (length rs)" "describes (descs s1) (sg_next s1) rs"
      "\<forall>j < ?i. descs s1 j = descs s j" "\<not> owned (descs s1 ?i)" "d_status (descs s1 ?i) = 0"
      "sg_sticky s1 = sg_sticky s OR 4 OR (if rs = [] then 8 else 0)"
  proof -
    have nx: "owned (descs s (Suc ?i)) \<longleftrightarrow> rs \<noteq> []"
      using Cons.prems(4) by (cases rs) (simp_all add: chain_Suc chain_0)
    show "sg_sticky s1 = sg_sticky s OR 4 OR (if rs = [] then 8 else 0)"
      by (simp add: s1_def complete_def Let_def own nx)
    show "\<not> owned (descs s1 ?i)" by (simp add: s1_def complete_simps owned_def and.assoc)
    show "sticky_ok s1" using complete_sticky [of ?t] Cons.prems(3) by (simp add: s1_def sticky_ok_def)
    show "chain (descs s1) (sg_next s1) (length rs)" using complete_chain(1) [of ?t] Cons.prems(4) by (simp add: s1_def)
    show "sg_mode s1 = Mem_to_mem" "sg_control s1 = sg_control s" "mem s1 = ?m" "sg_next s1 = Suc ?i"
      "describes (descs s1) (sg_next s1) rs" "\<forall>j < ?i. descs s1 j = descs s j" "d_status (descs s1 ?i) = 0"
      using Cons.prems(1,5) rwn own by (simp_all add: s1_def complete_simps describes_upd)
  qed
  obtain s' where s': "await_idle s1 = Some s'" "mem s' = copy_all rs ?m" "sg_control s' = sg_control s" "\<not> busy s'"
      "sg_sticky s' = (if rs = [] then sg_sticky s1 else sg_sticky s1 OR 0xC)" "\<forall>j < Suc ?i. descs s' j = descs s1 j"
      "\<forall>j<length rs. \<not> owned (descs s' (Suc ?i + j)) \<and> d_status (descs s' (Suc ?i + j)) = 0"
    using Cons.IH [OF s1(1) _ s1(5-7)] s1(2-4) Cons.prems(2) by auto
  have "await_idle s = Some s'"
    using busy sticky_busy [OF Cons.prems(3)] step s'(1) by (subst await_idle.simps) simp
  moreover have "sg_sticky s' = sg_sticky s OR 0xC"
    using s'(5) s1(11) by (cases "rs = []") (simp_all add: or.assoc)
  moreover have "\<forall>j<length (rwn # rs). \<not> owned (descs s' (?i + j)) \<and> d_status (descs s' (?i + j)) = 0"
  proof (intro allI impI)
    fix j assume j: "j < length (rwn # rs)"
    have "descs s' ?i = descs s1 ?i" using s'(6) by simp
    then show "\<not> owned (descs s' (?i + j)) \<and> d_status (descs s' (?i + j)) = 0"
      using s'(7) s1(9,10) j by (cases j) auto
  qed
  ultimately show ?case using s' s1(3,8) rwn by (simp add: copy_all_def)
qed

text \<open>
  Blocking transfers. For a controller that is idle, building a chain of memory copies with the
  driver and handing it to a blocking transfer returns (the wait ends), with exactly the copies done, in
  order; the result says that the chain is complete, every descriptor reports success, and the controller
  no longer runs.
\<close>

theorem sgdma_sync_copies:
  assumes "sg_mode (ctlr dev) = Mem_to_mem" "\<not> busy (ctlr dev)" "sticky_ok (ctlr dev)" "sg_control (ctlr dev) = 0" "rs \<noteq> []"
  shows "\<exists>dev'. alt_avalon_sgdma_do_sync_transfer i (dev\<lparr>ctlr := build_copies rs i (ctlr dev)\<rparr>) = Some (0xC, dev') \<and>
     mem (ctlr dev') = copy_all rs (mem (ctlr dev)) \<and> \<not> busy (ctlr dev') \<and>
     (\<forall>j<length rs. alt_avalon_sgdma_check_descriptor_status e (descs (ctlr dev') (i + j)) = 0)"
proof -
  let ?b = "build_copies rs i (ctlr dev)"
  note b = build_copies [OF assms(5), of i "ctlr dev"]
  have idle: "\<not> busy ?b" "sticky_ok ?b" using b assms(3,4) by (simp_all add: busy_def sticky_ok_def)
  then have first: "await_idle ?b = Some ?b" using sticky_busy [of ?b] by (subst await_idle.simps) simp
  define s3 where "s3 = IOWR_CONTROL (0x20 OR 0x40 OR sg_control ?b) ((IOWR_STATUS 0xFF ?b)\<lparr>sg_next := i\<rparr>)"
  have s3: "sg_mode s3 = Mem_to_mem" "sg_control s3 = 0x60" "sg_sticky s3 = sg_sticky (ctlr dev) AND NOT 0xFF"
      "sticky_ok s3" "sg_next s3 = i" "descs s3 = descs ?b" "mem s3 = mem (ctlr dev)"
    using b assms(1,4) by (simp_all add: s3_def IOWR_CONTROL_def IOWR_STATUS_def sticky_ok_def and.assoc)
  have run: "sg_control s3 AND 0x20 \<noteq> 0" using s3(2) by simp
  have ch: "chain (descs s3) (sg_next s3) (length rs)" "describes (descs s3) (sg_next s3) rs" using b s3(5,6) by simp_all
  obtain s4 where s4: "await_idle s3 = Some s4" "mem s4 = copy_all rs (mem (ctlr dev))" "sg_control s4 = 0x60" "\<not> busy s4"
      "sg_sticky s4 = (sg_sticky (ctlr dev) AND NOT 0xFF) OR 0xC"
      "\<forall>j<length rs. \<not> owned (descs s4 (i + j)) \<and> d_status (descs s4 (i + j)) = 0"
    using await_copies [OF s3(1) run s3(4) ch] s3(2,3,5,7) assms(5) by auto
  define s5 where "s5 = IOWR_CONTROL (sg_control s4 AND - 33) s4"
  have nb: "\<not> busy s5" by (simp add: s5_def busy_def IOWR_CONTROL_def and.assoc)
  have z: "(4294967040 :: u8) = 0" by simp
  have "(ucast ((sg_sticky (ctlr dev) AND NOT 0xFF) OR 0xC) :: u8) = 0xC"
    by (simp add: unsigned_or_eq unsigned_and_eq unsigned_not_eq, subst z, simp)
  then have res: "(ucast (IORD_STATUS s5) :: u8) = 0xC"
    using nb s4(5) by (simp add: IORD_STATUS_def) (simp add: s5_def IOWR_CONTROL_def)
  have "alt_avalon_sgdma_do_sync_transfer i (dev\<lparr>ctlr := ?b\<rparr>) = Some (0xC, dev\<lparr>ctlr := IOWR_STATUS 0xFF s5\<rparr>)"
    unfolding alt_avalon_sgdma_do_sync_transfer_def using first s4(1) res by (simp add: Let_def flip: s3_def s5_def)
  moreover have "mem (IOWR_STATUS 0xFF s5) = copy_all rs (mem (ctlr dev))" "\<not> busy (IOWR_STATUS 0xFF s5)"
      "descs (IOWR_STATUS 0xFF s5) = descs s4"
    using nb s4(2) by (simp_all add: IOWR_STATUS_def s5_def IOWR_CONTROL_def busy_def)
  moreover have "\<forall>j<length rs. alt_avalon_sgdma_check_descriptor_status e (descs s4 (i + j)) = 0"
    using s4(6) by (simp add: alt_avalon_sgdma_check_descriptor_status_def owned_def)
  ultimately show ?thesis by simp
qed

definition idle_sgdma :: sgdma where
  "idle_sgdma = \<lparr>sg_mode = Mem_to_mem, descs = (\<lambda>_. \<lparr>read_addr = 0, read_addr_pad = 0, write_addr = 0, write_addr_pad = 0, next_desc = 0,
     next_pad = 0, bytes_to_transfer = 0, read_burst = 0, write_burst = 0, actual_bytes_transferred = 0, d_status = 0, d_control = 0\<rparr>),
     mem = of_nat, sg_control = 0, sg_sticky = 0, sg_next = 0, incoming = [], outgoing = [], partial = []\<rparr>"

definition idle_dev :: alt_sgdma_dev where
  "idle_dev = \<lparr>ctlr = idle_sgdma, isr = False, callback = False, chain_control = 0, irq_unmasked = False\<rparr>"

theorem sgdma_sync_copies_witness:
  "\<exists>dev'. alt_avalon_sgdma_do_sync_transfer 0 (idle_dev\<lparr>ctlr := build_copies [(3, 100, 2), (100, 200, 2)] 0 idle_sgdma\<rparr>) = Some (0xC, dev') \<and>
     mem (ctlr dev') 201 = 4"
proof -
  have "\<not> busy idle_sgdma" "sticky_ok idle_sgdma" by (simp_all add: busy_def sticky_ok_def idle_sgdma_def)
  then obtain dev' where "alt_avalon_sgdma_do_sync_transfer 0 (idle_dev\<lparr>ctlr := build_copies [(3, 100, 2), (100, 200, 2)] 0 idle_sgdma\<rparr>) = Some (0xC, dev')"
      "mem (ctlr dev') = copy_all [(3, 100, 2), (100, 200, 2)] of_nat"
    using sgdma_sync_copies [of idle_dev "[(3, 100, 2), (100, 200, 2)]" 0 0] by (auto simp: idle_dev_def idle_sgdma_def)
  moreover have "copy_all [(3, 100, 2), (100, 200, 2)] of_nat 201 = 4"
    by (simp add: copy_all_def store_def load_def)
  ultimately show ?thesis by auto
qed

end
