(* ===== verification/Tse_Correct.thy ===== *)
theory Tse_Correct
  imports Tse Sgdma_Correct
begin

text \<open>
  What the Ethernet driver achieves, together with the DMA controllers: packets handed to it go out
  unchanged, packets that come in reach the stack unchanged and in order.
\<close>

unbundle bit_operations_syntax

subsection \<open>Transmission\<close>

text \<open>The data of a scatter-gather list.\<close>

definition sg_data :: "bytes option list \<Rightarrow> bytes" where
  "sg_data sg = concat (map (case_option [] (\<lambda>b. b)) sg)"

lemma gather: "gather dest sg len m = (len + length (sg_data sg), store (dest + len) (sg_data sg) m)"
proof (induction sg arbitrary: len m)
  case (Cons b sg)
  show ?case
  proof (cases b)
    case (Some bs)
    then show ?thesis using Cons store_append [of "dest + len" bs "sg_data sg" m] by (auto simp: sg_data_def add.assoc)
  qed (use Cons in \<open>simp add: sg_data_def\<close>)
qed (simp add: sg_data_def)

lemma async_idle:
  assumes "sg_control s = 0" "\<not> isr dev"
  shows "alt_avalon_sgdma_do_async_transfer e i (dev\<lparr>ctlr := IOWR_STATUS 0xFF s\<rparr>) =
     (0, dev\<lparr>ctlr := (IOWR_STATUS 0xFF (IOWR_STATUS 0xFF s))\<lparr>sg_next := i, sg_control := 0x60\<rparr>\<rparr>)"
proof -
  have "\<not> busy s" using assms(1) by (simp add: busy_def)
  then show ?thesis using assms
    by (simp add: alt_avalon_sgdma_do_async_transfer_def Let_def IOWR_CONTROL_def)
qed

text \<open>The transmitter is set up as \<^verbatim>\<open>tse_init\<close> does it, and the code for \<^verbatim>\<open>EINPROGRESS\<close> has the bit that the driver looks at.\<close>

definition tx_ready :: "tse_cfg \<Rightarrow> tse \<Rightarrow> bool" where
  "tx_ready cfg t \<longleftrightarrow> sg_mode (ctlr (tx_sgdma t)) = Mem_to_stream \<and> \<not> isr (tx_sgdma t) \<and> (- EINPROGRESS cfg) AND 0x10 \<noteq> 0"

text \<open>The controller of the transmitter makes a step.\<close>

definition tx_step :: "tse \<Rightarrow> tse" where
  "tx_step t = t\<lparr>tx_sgdma := (tx_sgdma t)\<lparr>ctlr := sgdma_step (ctlr (tx_sgdma t))\<rparr>\<rparr>"

definition sent_ctlr :: "tse_cfg \<Rightarrow> bytes option list \<Rightarrow> tse \<Rightarrow> sgdma" where
  "sent_ctlr cfg sg t =
     (IOWR_STATUS 0xFF (IOWR_STATUS 0xFF (IOWR_CONTROL 0 (alt_avalon_sgdma_construct_descriptor (BUFFER_NO cfg) (Suc (BUFFER_NO cfg))
        (tx_buffer t) 0 (of_nat (length (sg_data sg) + 2)) True False True 0
        ((ctlr (tx_sgdma t))\<lparr>mem := store (tx_buffer t + 2) (sg_data sg) (mem (ctlr (tx_sgdma t)))\<rparr>)))))
      \<lparr>sg_next := BUFFER_NO cfg, sg_control := 0x60\<rparr>"

lemma IOWR_simps [simp]:
  "descs (IOWR_STATUS v s) = descs s" "mem (IOWR_STATUS v s) = mem s" "sg_mode (IOWR_STATUS v s) = sg_mode s"
  "outgoing (IOWR_STATUS v s) = outgoing s" "partial (IOWR_STATUS v s) = partial s" "incoming (IOWR_STATUS v s) = incoming s"
  "sg_next (IOWR_STATUS v s) = sg_next s"
  "descs (IOWR_CONTROL v s) = descs s" "mem (IOWR_CONTROL v s) = mem s" "sg_mode (IOWR_CONTROL v s) = sg_mode s"
  "outgoing (IOWR_CONTROL v s) = outgoing s" "partial (IOWR_CONTROL v s) = partial s" "incoming (IOWR_CONTROL v s) = incoming s"
  "sg_next (IOWR_CONTROL v s) = sg_next s" "sg_sticky (IOWR_CONTROL v s) = sg_sticky s"
  by (simp_all add: IOWR_STATUS_def IOWR_CONTROL_def)

lemma tx_status:
  assumes "tx_ready cfg t" "d_status d = 0"
  shows "alt_avalon_sgdma_check_descriptor_status (EINPROGRESS cfg) d AND 0x10 = 0 \<longleftrightarrow> \<not> owned d"
  using assms by (simp add: alt_avalon_sgdma_check_descriptor_status_def owned_def tx_ready_def)

lemma constructed_status: "d_status (descs (alt_avalon_sgdma_construct_descriptor i nxt r w n eop rf sop ch s) i) = 0"
  by (simp add: alt_avalon_sgdma_construct_descriptor_def)

lemma tse_send:
  assumes "tx_ready cfg t"
  shows "tse_send cfg sg key t = mac_write 0xE8 0x40000
     (t\<lparr>txbusy := 1, txkey := key, tx_sgdma := (tx_sgdma t)\<lparr>ctlr := sent_ctlr cfg sg t\<rparr>, within_send := 0\<rparr>)"
    (is "_ = ?t")
proof -
  let ?N = "BUFFER_NO cfg"
  have "d_status (descs (sent_ctlr cfg sg t) ?N) = 0" "owned (descs (sent_ctlr cfg sg t) ?N)"
    by (simp_all add: sent_ctlr_def constructed_status construct_desc(1))
  then have "tse_TxDone cfg ?t = ?t"
    using tx_status [OF assms, of "descs (sent_ctlr cfg sg t) ?N"] by (simp add: tse_TxDone_def mac_write_def)
  moreover have "\<not> isr (tx_sgdma t)" using assms by (simp add: tx_ready_def)
  ultimately show ?thesis
    using async_idle [of "IOWR_CONTROL 0 (alt_avalon_sgdma_construct_descriptor ?N (Suc ?N)
        (tx_buffer t) 0 (of_nat (length (sg_data sg) + 2)) True False True 0
        ((ctlr (tx_sgdma t))\<lparr>mem := store (tx_buffer t + 2) (sg_data sg) (mem (ctlr (tx_sgdma t)))\<rparr>))" "tx_sgdma t" "EBUSY cfg" ?N]
    by (simp add: tse_send_def gather Let_def alt_avalon_sgdma_construct_mem_to_stream_desc_def sent_ctlr_def IOWR_CONTROL_def)
qed

text \<open>The step of the controller that sends the packet.\<close>

lemma sent_step:
  assumes "tx_ready cfg t" "length (sg_data sg) + 2 < 65536"
  defines "s \<equiv> sgdma_step (sent_ctlr cfg sg t)"
  shows "outgoing s = outgoing (ctlr (tx_sgdma t)) @ [load (mem (ctlr (tx_sgdma t))) (tx_buffer t) 2 @ sg_data sg]"
    "d_status (descs s (BUFFER_NO cfg)) = 0" "\<not> owned (descs s (BUFFER_NO cfg))"
proof -
  let ?N = "BUFFER_NO cfg" and ?c = "sent_ctlr cfg sg t" and ?n = "length (sg_data sg) + 2"
  let ?m = "store (tx_buffer t + 2) (sg_data sg) (mem (ctlr (tx_sgdma t)))"
  have d: "owned (descs ?c ?N)" "read_addr (descs ?c ?N) = tx_buffer t" "bytes_to_transfer (descs ?c ?N) = of_nat ?n"
      "d_control (descs ?c ?N) AND 1 \<noteq> 0" "d_control (descs ?c ?N) AND 4 \<noteq> 0"
    by (simp_all add: sent_ctlr_def construct_desc)
  have c: "sg_mode ?c = Mem_to_stream" "sg_next ?c = ?N" "mem ?c = ?m" "outgoing ?c = outgoing (ctlr (tx_sgdma t))"
      "sg_control ?c = 0x60"
    using assms(1) by (simp_all add: sent_ctlr_def construct_simps tx_ready_def)
  have n: "unat (bytes_to_transfer (descs ?c ?N)) = ?n"
    unfolding d(3) using assms(2) by (simp only: unsigned_of_nat, simp add: take_bit_nat_eq_self_iff)
  have "load ?m (tx_buffer t) ?n = load (mem (ctlr (tx_sgdma t))) (tx_buffer t) 2 @ sg_data sg"
    using load_add [of ?m "tx_buffer t" 2 "length (sg_data sg)"]
    by (simp add: load_store_other add.commute [of 2])
  moreover have "busy ?c" using d(1) c(2,5) by (simp add: busy_def)
  ultimately have "s = complete ?n 0 (?c\<lparr>outgoing := outgoing ?c @ [load (mem (ctlr (tx_sgdma t))) (tx_buffer t) 2 @ sg_data sg], partial := []\<rparr>)"
    unfolding s_def sgdma_step_def Let_def using c d n by simp
  then show "outgoing s = outgoing (ctlr (tx_sgdma t)) @ [load (mem (ctlr (tx_sgdma t))) (tx_buffer t) 2 @ sg_data sg]"
    "d_status (descs s ?N) = 0" "\<not> owned (descs s ?N)"
    using c by (simp_all add: complete_simps owned_def and.assoc)
qed

text \<open>
  C26: sending a packet. For a packet that fits the descriptor, the driver starts the transfer, refuses
  further packets and keeps the buffers; when the controller has made its step, exactly the data of the
  scatter-gather list has gone out after the two bytes of padding that the MAC is told to drop, the driver takes
  packets again, and the next check releases exactly this packet.
\<close>

theorem tse_sends_packet:
  assumes "tx_ready cfg t" "length (sg_data sg) + 2 < 65536" "key \<noteq> 0"
  defines "t1 \<equiv> tse_send cfg sg key t"
  shows "\<not> tse_can_send cfg t1 \<and> released t1 = released t \<and>
     outgoing (ctlr (tx_sgdma (tx_step t1))) =
       outgoing (ctlr (tx_sgdma t)) @ [load (mem (ctlr (tx_sgdma t))) (tx_buffer t) 2 @ sg_data sg] \<and>
     tse_can_send cfg (tx_step t1) \<and>
     released (tse_TxDone cfg (tx_step t1)) = released t @ [key] \<and> txkey (tse_TxDone cfg (tx_step t1)) = 0"
proof -
  let ?N = "BUFFER_NO cfg" and ?c = "sent_ctlr cfg sg t"
  have t1: "t1 = mac_write 0xE8 0x40000
      (t\<lparr>txbusy := 1, txkey := key, tx_sgdma := (tx_sgdma t)\<lparr>ctlr := ?c\<rparr>, within_send := 0\<rparr>)"
    unfolding t1_def by (rule tse_send [OF assms(1)])
  have c: "ctlr (tx_sgdma t1) = ?c" "txkey t1 = key" "released t1 = released t" by (simp_all add: t1 mac_write_def)
  have own: "owned (descs ?c ?N)" "d_status (descs ?c ?N) = 0"
    by (simp_all add: sent_ctlr_def construct_desc constructed_status)
  have s: "ctlr (tx_sgdma (tx_step t1)) = sgdma_step ?c" "txkey (tx_step t1) = key" "released (tx_step t1) = released t"
    using c by (simp_all add: tx_step_def)
  note step = sent_step [OF assms(1,2)]
  show ?thesis
    using step own tx_status [OF assms(1)] assms(3) c s by (simp add: tse_can_send_def tse_TxDone_def Let_def)
qed

text \<open>
  The driver tests the error code of the descriptor check as if it were a status word: a descriptor with an
  error looks busy, so that the interface never sends again and never releases the packet.
\<close>

lemma tx_error_blocks:
  assumes "d_status (descs (ctlr (tx_sgdma t)) (BUFFER_NO cfg)) AND 0x7F \<noteq> 0"
  shows "\<not> tse_can_send cfg t \<and> tse_TxDone cfg t = t"
  using assms by (simp add: tse_can_send_def tse_TxDone_def alt_avalon_sgdma_check_descriptor_status_def)

subsection \<open>The receive descriptors\<close>

definition rx_desc :: "nat \<Rightarrow> nat \<Rightarrow> alt_sgdma_descriptor" where
  "rx_desc buf i = \<lparr>read_addr = 0, read_addr_pad = 0, write_addr = buf + i * BUFFER_SIZE, write_addr_pad = 0, next_desc = Suc i,
     next_pad = 0, bytes_to_transfer = 0, read_burst = 0, write_burst = 0, actual_bytes_transferred = 0, d_status = 0,
     d_control = 0x80\<rparr>"

definition disown :: "alt_sgdma_descriptor \<Rightarrow> alt_sgdma_descriptor" where
  "disown d = d\<lparr>d_control := d_control d AND NOT 0x80\<rparr>"

lemma construct_rx_one:
  "alt_avalon_sgdma_construct_stream_to_mem_desc i (Suc i) (buf + i * BUFFER_SIZE) 0 False s =
     s\<lparr>descs := (descs s)(Suc i := disown (descs s (Suc i)), i := rx_desc buf i)\<rparr>"
  by (simp add: alt_avalon_sgdma_construct_stream_to_mem_desc_def alt_avalon_sgdma_construct_descriptor_def rx_desc_def disown_def)

lemma construct_rx_fold:
  "fold (\<lambda>i. alt_avalon_sgdma_construct_stream_to_mem_desc i (i + 1) (buf + i * BUFFER_SIZE) 0 False) [0..<k] s =
     s\<lparr>descs := (\<lambda>j. if j < k then rx_desc buf j else if j = k \<and> 0 < k then disown (descs s j) else descs s j)\<rparr>"
proof (induction k)
  case (Suc k)
  then show ?case by (auto simp: construct_rx_one fun_eq_iff less_Suc_eq intro!: arg_cong [where f = "\<lambda>d. s\<lparr>descs := d\<rparr>"])
qed simp

lemma construct_rx:
  "construct_rx cfg buf s = s\<lparr>descs := (\<lambda>j. if j < BUFFER_NO cfg - 1 then rx_desc buf j
     else if j = BUFFER_NO cfg - 1 \<and> 0 < BUFFER_NO cfg - 1 then disown (descs s j) else descs s j)\<rparr>"
  unfolding construct_rx_def construct_rx_fold by (rule refl)

text \<open>
  The receiver waits for packets: all descriptors but the last are the controller's, in a chain from the first,
  each with its buffer.
\<close>

definition armed :: "tse_cfg \<Rightarrow> nat \<Rightarrow> alt_sgdma_dev \<Rightarrow> bool" where
  "armed cfg buf dev \<longleftrightarrow>
     isr dev \<and> sg_mode (ctlr dev) = Stream_to_mem \<and> sg_control (ctlr dev) AND 0x20 \<noteq> 0 \<and> sg_next (ctlr dev) = 0 \<and>
     incoming (ctlr dev) = [] \<and> (\<forall>i < BUFFER_NO cfg - 1. descs (ctlr dev) i = rx_desc buf i) \<and>
     d_control (descs (ctlr dev) (BUFFER_NO cfg - 1)) = 0 \<and> actual_bytes_transferred (descs (ctlr dev) (BUFFER_NO cfg - 1)) = 0"

text \<open>Packets arrive: the controller makes a step for each.\<close>

definition arrive :: "bytes list \<Rightarrow> sgdma \<Rightarrow> sgdma" where
  "arrive ps s = (sgdma_step ^^ length ps) (s\<lparr>incoming := ps\<rparr>)"

definition rx_done :: "nat \<Rightarrow> nat \<Rightarrow> bytes \<Rightarrow> alt_sgdma_descriptor" where
  "rx_done buf i p = (rx_desc buf i)\<lparr>actual_bytes_transferred := of_nat (length p), d_status := 0x80, d_control := 0\<rparr>"

lemma rx_step:
  assumes "sg_mode s = Stream_to_mem" "sg_control s AND 0x20 \<noteq> 0" "incoming s = p # ps" "descs s (sg_next s) = rx_desc buf (sg_next s)"
  shows "descs (sgdma_step s) = (descs s)(sg_next s := rx_done buf (sg_next s) p)"
    "mem (sgdma_step s) = store (buf + sg_next s * BUFFER_SIZE) p (mem s)" "sg_next (sgdma_step s) = Suc (sg_next s)"
    "sg_mode (sgdma_step s) = Stream_to_mem" "sg_control (sgdma_step s) = sg_control s" "incoming (sgdma_step s) = ps"
proof -
  have "busy s" using assms(2,4) by (simp add: busy_def owned_def rx_desc_def)
  then have "sgdma_step s = complete (length p) 0x80 (s\<lparr>mem := store (buf + sg_next s * BUFFER_SIZE) p (mem s), incoming := ps\<rparr>)"
    using assms by (simp add: sgdma_step_def Let_def rx_desc_def)
  then show "descs (sgdma_step s) = (descs s)(sg_next s := rx_done buf (sg_next s) p)"
    "mem (sgdma_step s) = store (buf + sg_next s * BUFFER_SIZE) p (mem s)" "sg_next (sgdma_step s) = Suc (sg_next s)"
    "sg_mode (sgdma_step s) = Stream_to_mem" "sg_control (sgdma_step s) = sg_control s" "incoming (sgdma_step s) = ps"
    using assms by (simp_all add: complete_simps rx_done_def) (simp_all add: rx_desc_def)
qed

lemma rx_steps:
  assumes "sg_mode s = Stream_to_mem" "sg_control s AND 0x20 \<noteq> 0" "incoming s = ps" "sg_next s = i"
    "\<forall>j < length ps. descs s (i + j) = rx_desc buf (i + j)" "\<forall>p \<in> set ps. length p \<le> BUFFER_SIZE"
  defines "s' \<equiv> (sgdma_step ^^ length ps) s"
  shows "(\<forall>j < length ps. descs s' (i + j) = rx_done buf (i + j) (ps ! j) \<and>
       load (mem s') (buf + (i + j) * BUFFER_SIZE) (length (ps ! j)) = ps ! j) \<and>
     (\<forall>j. j < i \<or> i + length ps \<le> j \<longrightarrow> descs s' j = descs s j) \<and>
     (\<forall>j n. j < i \<longrightarrow> n \<le> BUFFER_SIZE \<longrightarrow> load (mem s') (buf + j * BUFFER_SIZE) n = load (mem s) (buf + j * BUFFER_SIZE) n) \<and>
     sg_mode s' = Stream_to_mem \<and> sg_control s' = sg_control s \<and> incoming s' = []"
  using assms(1-6) unfolding s'_def
proof (induction ps arbitrary: s i)
  case (Cons p ps)
  have d0: "descs s (sg_next s) = rx_desc buf (sg_next s)" using Cons.prems(4,5) by fastforce
  note st = rx_step [OF Cons.prems(1,2,3) d0]
  let ?s = "sgdma_step s"
  let ?e = "(sgdma_step ^^ length ps) ?s"
  have e: "(sgdma_step ^^ length (p # ps)) s = ?e" by (simp add: funpow_swap1)
  have later: "\<forall>j < length ps. descs ?s (Suc i + j) = rx_desc buf (Suc i + j)"
    using Cons.prems(4,5) by (auto simp: st(1) dest: spec [of _ "Suc _"])
  have ctl: "sg_control ?s AND 0x20 \<noteq> 0" "sg_next ?s = Suc i" "\<forall>p \<in> set ps. length p \<le> BUFFER_SIZE"
    using Cons.prems(2,4,6) st(3,5) by simp_all
  note ih = Cons.IH [OF st(4) ctl(1) st(6) ctl(2) later ctl(3)]
  have out: "j < Suc i \<or> Suc i + length ps \<le> j \<Longrightarrow> descs ?e j = descs ?s j" for j using ih by blast
  have here: "descs ?e i = rx_done buf i p" using out [of i] Cons.prems(4) by (simp add: st(1))
  have buffers: "j * BUFFER_SIZE + n \<le> i * BUFFER_SIZE" if "j < i" "n \<le> BUFFER_SIZE" for j n
    using mult_le_mono1 [of "Suc j" i BUFFER_SIZE] that by simp
  have "load (mem ?e) (buf + i * BUFFER_SIZE) (length p) = load (mem ?s) (buf + i * BUFFER_SIZE) (length p)"
    using ih Cons.prems(6) by simp
  then have data: "load (mem ?e) (buf + i * BUFFER_SIZE) (length p) = p" using Cons.prems(4) by (simp add: st(2))
  have each: "\<forall>j < length (p # ps). descs ?e (i + j) = rx_done buf (i + j) ((p # ps) ! j) \<and>
      load (mem ?e) (buf + (i + j) * BUFFER_SIZE) (length ((p # ps) ! j)) = (p # ps) ! j"
  proof (intro allI impI)
    fix j assume "j < length (p # ps)"
    then show "descs ?e (i + j) = rx_done buf (i + j) ((p # ps) ! j) \<and>
        load (mem ?e) (buf + (i + j) * BUFFER_SIZE) (length ((p # ps) ! j)) = (p # ps) ! j"
      using ih here data by (cases j) auto
  qed
  have others: "\<forall>j. j < i \<or> i + length (p # ps) \<le> j \<longrightarrow> descs ?e j = descs s j"
  proof (intro allI impI)
    fix j assume "j < i \<or> i + length (p # ps) \<le> j"
    then have "j < Suc i \<or> Suc i + length ps \<le> j" "j \<noteq> i" by auto
    then have "descs ?e j = descs ?s j" using out by blast
    then show "descs ?e j = descs s j" unfolding st(1) Cons.prems(4) using \<open>j \<noteq> i\<close> by (simp only: fun_upd_apply if_False)
  qed
  have below: "\<forall>j n. j < i \<longrightarrow> n \<le> BUFFER_SIZE \<longrightarrow>
      load (mem ?e) (buf + j * BUFFER_SIZE) n = load (mem s) (buf + j * BUFFER_SIZE) n"
  proof (intro allI impI)
    fix j n assume jn: "j < i" "n \<le> BUFFER_SIZE"
    then have "load (mem ?e) (buf + j * BUFFER_SIZE) n = load (mem ?s) (buf + j * BUFFER_SIZE) n" using ih by simp
    then show "load (mem ?e) (buf + j * BUFFER_SIZE) n = load (mem s) (buf + j * BUFFER_SIZE) n"
      using buffers [OF jn] Cons.prems(4) by (simp add: st(2) load_store_other)
  qed
  have rest: "sg_mode ?e = Stream_to_mem" "sg_control ?e = sg_control s" "incoming ?e = []" using ih st(5) by simp_all
  show ?case unfolding e by (intro conjI each others below rest)
qed simp

subsection \<open>Reception\<close>

text \<open>The stack offers buffers of exactly the length asked for.\<close>

definition alloc_ok :: "tse_cfg \<Rightarrow> bool" where
  "alloc_ok cfg \<longleftrightarrow> (\<forall>n > 0. (\<forall>(null, len) \<in> set (alloc cfg n). \<not> null \<and> 0 < len) \<and> (\<Sum>(null, len) \<leftarrow> alloc cfg n. nat len) = n)"

lemma copy_packet:
  "\<forall>(null, len) \<in> set sg. \<not> null \<and> 0 < len \<Longrightarrow> copy_packet m a sg = load m a (\<Sum>(null, len) \<leftarrow> sg. nat len)"
proof (induction sg arbitrary: a)
  case (Cons x sg)
  obtain null len where x: "x = (null, len)" by (cases x)
  then show ?case using Cons by (simp add: load_add)
qed (simp add: load_def)

lemma copy_alloc: "alloc_ok cfg \<Longrightarrow> 0 < n \<Longrightarrow> copy_packet m a (alloc cfg n) = load m a n"
  unfolding alloc_ok_def using copy_packet [of "alloc cfg n" m a] by simp

lemma received_length:
  assumes "k < 65536"
  shows "sint (ucast (of_nat k :: u16) - 2 :: u32) = int k - 2"
proof -
  have "take_bit 16 k = k" "take_bit 32 k = k" using assms by (simp_all add: take_bit_nat_eq_self_iff)
  then have "(ucast (of_nat k :: u16) :: u32) = of_nat k"
    by (simp add: unsigned_of_nat word_unat_eq_iff unsigned_ucast_eq)
  then have "(ucast (of_nat k :: u16) - 2 :: u32) = word_of_int (int k - 2)" by simp
  then show ?thesis using assms by (simp only: signed_of_int) (simp add: signed_take_bit_int_eq_self)
qed

text \<open>What the loop leaves alone.\<close>

definition rx_same :: "tse_cfg \<Rightarrow> tse \<Rightarrow> tse \<Rightarrow> bool" where
  "rx_same cfg t t' \<longleftrightarrow> rx_buffer t' = rx_buffer t \<and> tx_sgdma t' = tx_sgdma t \<and> released t' = released t \<and> txkey t' = txkey t \<and>
     isr (rx_sgdma t') = isr (rx_sgdma t) \<and> sg_mode (ctlr (rx_sgdma t')) = sg_mode (ctlr (rx_sgdma t)) \<and>
     mem (ctlr (rx_sgdma t')) = mem (ctlr (rx_sgdma t)) \<and> incoming (ctlr (rx_sgdma t')) = incoming (ctlr (rx_sgdma t))"

lemma rx_same_trans: "rx_same cfg t t' \<Longrightarrow> rx_same cfg t' t'' \<Longrightarrow> rx_same cfg t t''"
  by (simp add: rx_same_def)

definition deliver_one :: "tse_cfg \<Rightarrow> tse \<Rightarrow> tse" where
  "deliver_one cfg t =
     (let i = rx_current_index t;
          t1 = t\<lparr>bytesReceived := sint (alt_avalon_sgdma_descpt_bytes_xfered (descs (ctlr (rx_sgdma t)) i) - 2)\<rparr>;
          t2 = (if bytesReceived t1 > 0 then eth_drv_recv cfg (bytesReceived t1) t1 else t1);
          t3 = set_rx_desc i (\<lambda>d. d\<lparr>d_status := 0, actual_bytes_transferred := 0\<rparr>) t2
      in t3\<lparr>rx_current_index := i + 1\<rparr>)"

lemma deliver_loop_step:
  "deliver_loop cfg t =
     (if BUFFER_NO cfg \<le> rx_current_index t then t
      else if d_control (descs (ctlr (rx_sgdma t)) (rx_current_index t)) = 0 then deliver_loop cfg (deliver_one cfg t)
      else t\<lparr>rx_current_index := 0\<rparr>)"
  by (subst deliver_loop.simps) (simp add: deliver_one_def Let_def)

lemma deliver_one_same: "rx_same cfg t (deliver_one cfg t)" "rx_current_index (deliver_one cfg t) = Suc (rx_current_index t)"
  "j \<noteq> rx_current_index t \<Longrightarrow> descs (ctlr (rx_sgdma (deliver_one cfg t))) j = descs (ctlr (rx_sgdma t)) j"
  by (simp_all add: deliver_one_def rx_same_def Let_def eth_drv_recv_def tse_recv_def set_rx_desc_def)

lemma deliver_one_packet:
  assumes "alloc_ok cfg" "descs (ctlr (rx_sgdma t)) i = rx_done buf i p" "rx_current_index t = i" "rx_buffer t = buf"
    "load (mem (ctlr (rx_sgdma t))) (buf + i * BUFFER_SIZE) (length p) = p" "length p \<le> BUFFER_SIZE"
  shows "delivered (deliver_one cfg t) = delivered t @ (if 2 < length p then [drop 2 p] else [])"
proof -
  have small: "length p < 65536" using assms(6) by (simp add: BUFFER_SIZE_def)
  have n: "sint (alt_avalon_sgdma_descpt_bytes_xfered (descs (ctlr (rx_sgdma t)) i) - 2) = int (length p) - 2"
    unfolding alt_avalon_sgdma_descpt_bytes_xfered_def assms(2) rx_done_def by (simp add: received_length [OF small])
  show ?thesis
  proof (cases "2 < length p")
    case True
    let ?m = "mem (ctlr (rx_sgdma t))" and ?a = "buf + i * BUFFER_SIZE"
    have "load ?m (?a + 2) (length p - 2) = drop 2 (load ?m ?a (2 + (length p - 2)))"
      unfolding load_add by simp
    also have "2 + (length p - 2) = length p" using True by simp
    also have "drop 2 (load ?m ?a (length p)) = drop 2 p" using assms(5) by simp
    finally have "copy_packet ?m (?a + 2) (alloc cfg (length p - 2)) = drop 2 p"
      using copy_alloc [OF assms(1), of "length p - 2"] True by simp
    moreover have "nat (int (length p) - 2) = length p - 2" by simp
    ultimately show ?thesis
      using True n assms(3,4) by (simp add: deliver_one_def Let_def eth_drv_recv_def tse_recv_def set_rx_desc_def)
  next
    case False
    then show ?thesis using n assms(3) by (simp add: deliver_one_def Let_def set_rx_desc_def)
  qed
qed

lemma deliver_loop_stops:
  assumes "rx_current_index t \<le> BUFFER_NO cfg - 1" "0 < BUFFER_NO cfg"
    "rx_current_index t < BUFFER_NO cfg - 1 \<Longrightarrow> d_control (descs (ctlr (rx_sgdma t)) (rx_current_index t)) \<noteq> 0"
    "d_control (descs (ctlr (rx_sgdma t)) (BUFFER_NO cfg - 1)) = 0"
    "actual_bytes_transferred (descs (ctlr (rx_sgdma t)) (BUFFER_NO cfg - 1)) = 0"
  shows "rx_same cfg t (deliver_loop cfg t) \<and> delivered (deliver_loop cfg t) = delivered t \<and>
     d_control (descs (ctlr (rx_sgdma (deliver_loop cfg t))) (BUFFER_NO cfg - 1)) = 0 \<and>
     actual_bytes_transferred (descs (ctlr (rx_sgdma (deliver_loop cfg t))) (BUFFER_NO cfg - 1)) = 0"
proof (cases "rx_current_index t < BUFFER_NO cfg - 1")
  case True
  then have "deliver_loop cfg t = t\<lparr>rx_current_index := 0\<rparr>" using assms(2,3) by (simp add: deliver_loop_step [of cfg t])
  then show ?thesis using assms by (simp add: rx_same_def)
next
  case False
  then have i: "rx_current_index t = BUFFER_NO cfg - 1" using assms(1) by simp
  have "deliver_loop cfg t = deliver_loop cfg (deliver_one cfg t)" using i assms(2,4) by (simp add: deliver_loop_step [of cfg t])
  also have "\<dots> = deliver_one cfg t"
    using i assms(2) deliver_one_same(2) [of cfg t] by (simp add: deliver_loop_step [of cfg "deliver_one cfg t"])
  finally have e: "deliver_loop cfg t = deliver_one cfg t" .
  have "sint (alt_avalon_sgdma_descpt_bytes_xfered (descs (ctlr (rx_sgdma t)) (rx_current_index t)) - 2) = - 2"
    using assms(5) i received_length [of 0] by (simp add: alt_avalon_sgdma_descpt_bytes_xfered_def)
  then show ?thesis unfolding e
    using deliver_one_same(1) [of cfg t] i assms(4) by (simp add: deliver_one_def Let_def set_rx_desc_def)
qed

lemma deliver_loop_packets:
  assumes "alloc_ok cfg" "0 < BUFFER_NO cfg"
  shows "rx_current_index t + length ps \<le> BUFFER_NO cfg - 1 \<Longrightarrow> rx_buffer t = buf \<Longrightarrow>
     \<forall>j < length ps. descs (ctlr (rx_sgdma t)) (rx_current_index t + j) = rx_done buf (rx_current_index t + j) (ps ! j) \<and>
       load (mem (ctlr (rx_sgdma t))) (buf + (rx_current_index t + j) * BUFFER_SIZE) (length (ps ! j)) = ps ! j \<Longrightarrow>
     \<forall>p \<in> set ps. length p \<le> BUFFER_SIZE \<Longrightarrow>
     (rx_current_index t + length ps < BUFFER_NO cfg - 1 \<Longrightarrow>
        d_control (descs (ctlr (rx_sgdma t)) (rx_current_index t + length ps)) \<noteq> 0) \<Longrightarrow>
     d_control (descs (ctlr (rx_sgdma t)) (BUFFER_NO cfg - 1)) = 0 \<Longrightarrow>
     actual_bytes_transferred (descs (ctlr (rx_sgdma t)) (BUFFER_NO cfg - 1)) = 0 \<Longrightarrow>
     rx_same cfg t (deliver_loop cfg t) \<and>
     delivered (deliver_loop cfg t) = delivered t @ map (drop 2) (filter (\<lambda>p. 2 < length p) ps) \<and>
     d_control (descs (ctlr (rx_sgdma (deliver_loop cfg t))) (BUFFER_NO cfg - 1)) = 0 \<and>
     actual_bytes_transferred (descs (ctlr (rx_sgdma (deliver_loop cfg t))) (BUFFER_NO cfg - 1)) = 0"
proof (induction ps arbitrary: t)
  case Nil
  then show ?case using deliver_loop_stops [of t cfg] assms(2) by simp
next
  case (Cons p ps)
  let ?i = "rx_current_index t" and ?t = "deliver_one cfg t"
  have d: "descs (ctlr (rx_sgdma t)) ?i = rx_done buf ?i p" "load (mem (ctlr (rx_sgdma t))) (buf + ?i * BUFFER_SIZE) (length p) = p"
    using Cons.prems(3) by fastforce+
  have step: "deliver_loop cfg t = deliver_loop cfg ?t"
    using Cons.prems(1) d(1) by (simp add: deliver_loop_step [of cfg t] rx_done_def)
  note same = deliver_one_same [where cfg = cfg and t = t]
  have one: "delivered ?t = delivered t @ (if 2 < length p then [drop 2 p] else [])"
    using deliver_one_packet [OF assms(1) d(1) _ Cons.prems(2) d(2)] Cons.prems(4) by simp
  have m: "mem (ctlr (rx_sgdma ?t)) = mem (ctlr (rx_sgdma t))" "rx_buffer ?t = buf"
    using same(1) Cons.prems(2) by (simp_all add: rx_same_def)
  have "rx_same cfg ?t (deliver_loop cfg ?t) \<and>
      delivered (deliver_loop cfg ?t) = delivered ?t @ map (drop 2) (filter (\<lambda>p. 2 < length p) ps) \<and>
      d_control (descs (ctlr (rx_sgdma (deliver_loop cfg ?t))) (BUFFER_NO cfg - 1)) = 0 \<and>
      actual_bytes_transferred (descs (ctlr (rx_sgdma (deliver_loop cfg ?t))) (BUFFER_NO cfg - 1)) = 0"
  proof (rule Cons.IH)
    show "\<forall>j < length ps. descs (ctlr (rx_sgdma ?t)) (rx_current_index ?t + j) = rx_done buf (rx_current_index ?t + j) (ps ! j) \<and>
       load (mem (ctlr (rx_sgdma ?t))) (buf + (rx_current_index ?t + j) * BUFFER_SIZE) (length (ps ! j)) = ps ! j"
      using Cons.prems(3) by (fastforce simp: same(2,3) m(1) dest: spec [of _ "Suc _"])
  qed (use Cons.prems same m in \<open>simp_all\<close>)
  then show ?case unfolding step using same(1) one by (auto intro: rx_same_trans)
qed

text \<open>Arming the receiver again, from any state of its descriptors but the last.\<close>

lemma start_rx_armed:
  assumes "isr (rx_sgdma t)" "sg_mode (ctlr (rx_sgdma t)) = Stream_to_mem" "sg_control (ctlr (rx_sgdma t)) = 0" "sticky_ok (ctlr (rx_sgdma t))"
    "incoming (ctlr (rx_sgdma t)) = []" "d_control (descs (ctlr (rx_sgdma t)) (BUFFER_NO cfg - 1)) = 0"
    "actual_bytes_transferred (descs (ctlr (rx_sgdma t)) (BUFFER_NO cfg - 1)) = 0"
  shows "armed cfg (rx_buffer t) (rx_sgdma (start_rx cfg (t\<lparr>rx_sgdma :=
     (rx_sgdma t)\<lparr>ctlr := construct_rx cfg (rx_buffer t) (ctlr (rx_sgdma t)), chain_control := 0x1A\<rparr>\<rparr>)))"
proof -
  let ?s = "construct_rx cfg (rx_buffer t) (ctlr (rx_sgdma t))"
  have c: "sg_control ?s = 0" "sg_mode ?s = Stream_to_mem" "incoming ?s = []" "sg_sticky ?s = sg_sticky (ctlr (rx_sgdma t))"
    and d: "\<forall>i < BUFFER_NO cfg - 1. descs ?s i = rx_desc (rx_buffer t) i"
      "d_control (descs ?s (BUFFER_NO cfg - 1)) = 0" "actual_bytes_transferred (descs ?s (BUFFER_NO cfg - 1)) = 0"
    using assms by (cases "BUFFER_NO cfg - 1 = 0"; simp add: construct_rx disown_def)+
  have "sticky_ok ?s" "\<not> busy ?s" using assms(4) c(1,4) by (simp_all add: sticky_ok_def busy_def)
  then have "IORD_STATUS ?s AND 0x10 = 0" using sticky_busy by blast
  then show ?thesis using assms(1) c d
    by (simp add: start_rx_def alt_avalon_sgdma_do_async_transfer_def Let_def armed_def IOWR_CONTROL_def)
qed

lemma TxDone_rx: "rx_sgdma (tse_TxDone cfg t) = rx_sgdma t" "rx_buffer (tse_TxDone cfg t) = rx_buffer t"
  "delivered (tse_TxDone cfg t) = delivered t"
  by (simp_all add: tse_TxDone_def Let_def)

text \<open>
  C27: receiving frames. When the receiver is armed and fewer frames come in than there are descriptors (the last
  one of the chain takes none), none longer than a buffer, the interrupt handlers (the service routine and the
  delivery) hand each of them to the network stack, in the order of arrival, without its first two bytes, which the
  driver takes for alignment padding; frames of at most two bytes are dropped. The receiver is then armed again with
  its interrupt enabled. By repetition this holds for every sequence of such bursts. The MAC is not told to insert
  padding (\<^verbatim>\<open>RXSHIFT16\<close> is commented out in \<^verbatim>\<open>tse_init\<close>), so that the two bytes belong to the frame that came in.
\<close>

theorem tse_receives_packets:
  assumes "armed cfg (rx_buffer t) (rx_sgdma t)" "alloc_ok cfg" "length ps < BUFFER_NO cfg" "\<forall>p \<in> set ps. length p \<le> BUFFER_SIZE"
  defines "t' \<equiv> tse_deliver cfg (tse_rxd_isr (t\<lparr>rx_sgdma := (rx_sgdma t)\<lparr>ctlr := arrive ps (ctlr (rx_sgdma t))\<rparr>\<rparr>))"
  shows "delivered t' = delivered t @ map (drop 2) (filter (\<lambda>p. 2 < length p) ps) \<and>
     armed cfg (rx_buffer t') (rx_sgdma t') \<and> rx_buffer t' = rx_buffer t \<and> \<not> rx_masked t'"
proof -
  let ?s = "ctlr (rx_sgdma t)" and ?N = "BUFFER_NO cfg" and ?buf = "rx_buffer t"
  note ar = assms(1) [unfolded armed_def]
  have N: "0 < ?N" "length ps \<le> ?N - 1" using assms(3) by simp_all
  define a where "a = arrive ps ?s"
  have ds: "\<forall>j < length ps. descs (?s\<lparr>incoming := ps\<rparr>) (0 + j) = rx_desc ?buf (0 + j)" using ar N by simp
  have a: "\<forall>j < length ps. descs a j = rx_done ?buf j (ps ! j) \<and> load (mem a) (?buf + j * BUFFER_SIZE) (length (ps ! j)) = ps ! j"
      "\<forall>j. length ps \<le> j \<longrightarrow> descs a j = descs ?s j" "sg_mode a = Stream_to_mem" "incoming a = []"
    using rx_steps [OF _ _ _ _ ds assms(4)] ar unfolding a_def arrive_def by simp_all
  define t0 where "t0 = (tse_TxDone cfg (tse_rxd_isr (t\<lparr>rx_sgdma := (rx_sgdma t)\<lparr>ctlr := a\<rparr>\<rparr>)))\<lparr>rx_current_index := 0\<rparr>"
  have c0: "descs (ctlr (rx_sgdma t0)) = descs a" "mem (ctlr (rx_sgdma t0)) = mem a" "sg_mode (ctlr (rx_sgdma t0)) = Stream_to_mem"
      "incoming (ctlr (rx_sgdma t0)) = []" "isr (rx_sgdma t0)" "rx_buffer t0 = ?buf" "rx_current_index t0 = 0" "delivered t0 = delivered t"
    using ar a(3,4) by (simp_all add: t0_def TxDone_rx tse_rxd_isr_def alt_avalon_sgdma_set_control_def)
  have last: "d_control (descs a (?N - 1)) = 0" "actual_bytes_transferred (descs a (?N - 1)) = 0" using ar a(2) N by simp_all
  have stop: "length ps < ?N - 1 \<Longrightarrow> d_control (descs a (length ps)) \<noteq> 0" using a(2) ar by (simp add: rx_desc_def)
  define t1 where "t1 = deliver_loop cfg t0"
  have t1: "rx_same cfg t0 t1" "delivered t1 = delivered t @ map (drop 2) (filter (\<lambda>p. 2 < length p) ps)"
      "d_control (descs (ctlr (rx_sgdma t1)) (?N - 1)) = 0" "actual_bytes_transferred (descs (ctlr (rx_sgdma t1)) (?N - 1)) = 0"
    using deliver_loop_packets [OF assms(2) N(1), of t0 ps ?buf] a(1) c0 N(2) assms(4) last stop unfolding t1_def by simp_all
  define t2 where "t2 = t1\<lparr>rx_sgdma := alt_avalon_sgdma_reset (rx_sgdma t1)\<rparr>"
  have t2: "isr (rx_sgdma t2)" "sg_mode (ctlr (rx_sgdma t2)) = Stream_to_mem" "sg_control (ctlr (rx_sgdma t2)) = 0"
      "sticky_ok (ctlr (rx_sgdma t2))" "incoming (ctlr (rx_sgdma t2)) = []" "d_control (descs (ctlr (rx_sgdma t2)) (?N - 1)) = 0"
      "actual_bytes_transferred (descs (ctlr (rx_sgdma t2)) (?N - 1)) = 0" "rx_buffer t2 = ?buf" "delivered t2 = delivered t1"
    using t1 c0 by (simp_all add: t2_def alt_avalon_sgdma_reset_def rx_same_def sticky_ok_def IOWR_STATUS_def IOWR_CONTROL_def and.assoc)
  define t3 where "t3 = t2\<lparr>rx_sgdma := (rx_sgdma t2)\<lparr>ctlr := construct_rx cfg (rx_buffer t2) (ctlr (rx_sgdma t2)), chain_control := 0x1A\<rparr>\<rparr>"
  have "IORD_STATUS (ctlr (rx_sgdma t3)) AND 0x10 = 0"
    using t2(3,4) by (simp add: t3_def construct_rx IORD_STATUS_def sticky_ok_def busy_def)
  then have "t' = (start_rx cfg t3)\<lparr>rx_masked := False\<rparr>"
    unfolding t'_def tse_deliver_def Let_def a_def [symmetric] t0_def [symmetric] t1_def [symmetric] t2_def [symmetric] t3_def [symmetric]
    by simp
  moreover have "armed cfg ?buf (rx_sgdma (start_rx cfg t3))"
    using start_rx_armed [of t2 cfg] t2 unfolding t3_def by simp
  moreover have "delivered (start_rx cfg t3) = delivered t1" "rx_buffer (start_rx cfg t3) = ?buf"
    using t2(8,9) by (simp_all add: start_rx_def t3_def)
  ultimately show ?thesis using t1(2) by simp
qed

lemma read_cmd_keeps: "read_cmd t = (v, t') \<Longrightarrow> rx_sgdma t' = rx_sgdma t \<and> rx_buffer t' = rx_buffer t"
  by (auto simp: read_cmd_def Let_def mac_write_def split: if_splits)

text \<open>Starting the interface arms the receiver.\<close>

lemma tse_start_arms:
  assumes "isr (rx_sgdma t)" "sg_mode (ctlr (rx_sgdma t)) = Stream_to_mem" "sg_control (ctlr (rx_sgdma t)) = 0" "sticky_ok (ctlr (rx_sgdma t))"
    "incoming (ctlr (rx_sgdma t)) = []" "d_control (descs (ctlr (rx_sgdma t)) (BUFFER_NO cfg - 1)) = 0"
    "actual_bytes_transferred (descs (ctlr (rx_sgdma t)) (BUFFER_NO cfg - 1)) = 0"
  shows "armed cfg (rx_buffer t) (rx_sgdma (tse_start cfg t))"
proof -
  obtain v t1 where r: "read_cmd t = (v, t1)" by fastforce
  note k = read_cmd_keeps [OF r]
  have "rx_sgdma (tse_start cfg t) = rx_sgdma (start_rx cfg (t\<lparr>rx_sgdma :=
      (rx_sgdma t)\<lparr>ctlr := construct_rx cfg (rx_buffer t) (ctlr (rx_sgdma t)), chain_control := 0x1A\<rparr>\<rparr>))"
    using k by (simp add: tse_start_def r Let_def start_rx_def mac_write_def)
  then show ?thesis using start_rx_armed [OF assms] by simp
qed

definition sample_cfg :: tse_cfg where
  "sample_cfg = \<lparr>BUFFER_NO = 4, TX_FIFO_DEPTH = 256, RX_FIFO_DEPTH = 256, EBUSY = 16, EINPROGRESS = 236, alloc = (\<lambda>n. [(False, int n)])\<rparr>"

definition sample_tse :: tse where
  "sample_tse = \<lparr>rx_buffer = 0x1000, tx_buffer = 0x10000, txbusy = 0, txkey = 0, enaddr = [0, 7, 0xED, 1, 2, 3], within_send = 0,
     tx_sgdma = idle_dev\<lparr>ctlr := idle_sgdma\<lparr>sg_mode := Mem_to_stream\<rparr>\<rparr>,
     rx_sgdma = idle_dev\<lparr>isr := True, ctlr := idle_sgdma\<lparr>sg_mode := Stream_to_mem\<rparr>\<rparr>,
     rx_current_index = 0, bytesReceived = 0, speed = 3, mac = (\<lambda>_. 0), reset_reads = 0, clocks_ok = True, rx_masked = True,
     tx_masked = True, delivered = [], released = []\<rparr>"

theorem tse_sends_packet_witness:
  "outgoing (ctlr (tx_sgdma (tx_step (tse_send sample_cfg [Some [1, 2], None, Some [3]] 77 sample_tse)))) = [[0, 1, 1, 2, 3]]"
proof -
  have "tx_ready sample_cfg sample_tse" by (simp add: tx_ready_def sample_cfg_def sample_tse_def idle_dev_def)
  moreover have "sg_data [Some [1, 2], None, Some [3]] = [1, 2, 3]" by (simp add: sg_data_def)
  moreover have "outgoing (ctlr (tx_sgdma sample_tse)) = []" "load (mem (ctlr (tx_sgdma sample_tse))) (tx_buffer sample_tse) 2 = [0, 1]"
    by (simp_all add: sample_tse_def idle_sgdma_def load_def upt_rec)
  ultimately show ?thesis
    using tse_sends_packet [of sample_cfg sample_tse "[Some [1, 2], None, Some [3]]" 77] by simp
qed

theorem tse_receives_packets_witness:
  "delivered (tse_deliver sample_cfg (tse_rxd_isr ((tse_start sample_cfg sample_tse)\<lparr>rx_sgdma :=
     (rx_sgdma (tse_start sample_cfg sample_tse))\<lparr>ctlr := arrive [[9, 9, 1, 2], [9, 9, 3]] (ctlr (rx_sgdma (tse_start sample_cfg sample_tse)))\<rparr>\<rparr>))) =
   [[1, 2], [3]]"
proof -
  let ?t = "tse_start sample_cfg sample_tse"
  have "armed sample_cfg (rx_buffer sample_tse) (rx_sgdma ?t)"
    by (rule tse_start_arms) (simp_all add: sample_tse_def sample_cfg_def idle_dev_def idle_sgdma_def sticky_ok_def)
  moreover have "rx_buffer ?t = rx_buffer sample_tse" "delivered ?t = []"
    by (simp_all add: tse_start_def read_cmd_def mac_write_def start_rx_def sample_tse_def Let_def)
  moreover have "alloc_ok sample_cfg" by (simp add: alloc_ok_def sample_cfg_def)
  ultimately show ?thesis
    using tse_receives_packets [of sample_cfg ?t "[[9, 9, 1, 2], [9, 9, 3]]"] by (simp add: sample_cfg_def BUFFER_SIZE_def)
qed

subsection \<open>Multicast\<close>

text \<open>The number of ones in an octet, and the hash that the MAC is documented to use: a bit per octet, its parity.\<close>

definition odd_ones :: "u8 \<Rightarrow> bool" where
  "odd_ones x = odd (length (filter (bit x) [0..<8]))"

lemma fold_xor_parity:
  "fold (\<lambda>i acc. acc XOR of_bool (P i)) xs (of_bool b :: u32) = of_bool (b \<noteq> odd (length (filter P xs)))"
proof (induction xs arbitrary: b)
  case (Cons x xs)
  have "(of_bool b XOR of_bool (P x) :: u32) = of_bool (b \<noteq> P x)" by (cases b; cases "P x") simp_all
  then show ?case using Cons [of "b \<noteq> P x"] by auto
qed simp

lemma octet_parity: "octet_parity x = of_bool (odd_ones x)"
proof -
  have "(ucast (drop_bit i x) AND 1 :: u32) = of_bool (bit x i)" for i
    by (rule bit_word_eqI) (auto simp: bit_and_iff bit_unsigned_iff bit_drop_bit_eq bit_1_iff bit_of_bool_iff)
  then show ?thesis
    using fold_xor_parity [of "bit x" "[0..<8]" False] by (simp add: octet_parity_def odd_ones_def)
qed

definition mac_hash :: "bytes \<Rightarrow> nat" where
  "mac_hash a = of_bool (odd_ones (a ! 0)) + 2 * of_bool (odd_ones (a ! 1)) + 4 * of_bool (odd_ones (a ! 2)) +
     8 * of_bool (odd_ones (a ! 3)) + 16 * of_bool (odd_ones (a ! 4)) + 32 * of_bool (odd_ones (a ! 5))"

lemma hash_bits:
  "push_bit 1 (push_bit 1 (push_bit 1 (push_bit 1 (push_bit 1 (push_bit 1 0 OR of_bool p5) OR of_bool p4) OR of_bool p3) OR
     of_bool p2) OR of_bool p1) OR of_bool p0 =
   (of_nat (of_bool p0 + 2 * of_bool p1 + 4 * of_bool p2 + 8 * of_bool p3 + 16 * of_bool p4 + 32 * of_bool p5) :: u32)"
  by (cases p0; cases p1; cases p2; cases p3; cases p4; cases p5) simp_all

lemma mac_hash_less: "mac_hash a < 64"
  unfolding mac_hash_def by (auto simp: of_bool_def)

lemma address_hash: "unat (address_hash a) = mac_hash a"
proof -
  have "address_hash a = of_nat (mac_hash a)"
    unfolding address_hash_def mac_hash_def octet_parity
    using hash_bits [of "odd_ones (a ! 5)" "odd_ones (a ! 4)" "odd_ones (a ! 3)" "odd_ones (a ! 2)" "odd_ones (a ! 1)" "odd_ones (a ! 0)"]
    by (simp only: fold_simps id_apply comp_def)
  then show ?thesis using mac_hash_less [of a] by (simp add: unat_of_nat_u32)
qed

lemma mac_write_hash: "mac (write_hash_table i v t) = (mac t)(0x40 + i div 4 := v)"
proof -
  have "(256 + i) div 4 = 64 + i div 4" using div_mult_self4 [of 4 64 i] by simp
  then show ?thesis by (simp add: write_hash_table_def mac_write_def)
qed

lemma fold_write_hash:
  "mac (fold (\<lambda>i. write_hash_table i v) [0..<n] t) w = (if \<exists>i<n. w = 0x40 + i div 4 then v else mac t w)"
  by (induction n) (auto simp: mac_write_hash less_Suc_eq)

lemma set_hash_table:
  "mac (tse_set_hash_table addrs t) w = (if \<exists>a \<in> set addrs. a ! 0 AND 1 \<noteq> 0 \<and> w = 0x40 + mac_hash a div 4 then 1 else mac t w)"
  unfolding tse_set_hash_table_def
  by (induction addrs arbitrary: t) (auto simp: mac_write_hash address_hash)

text \<open>
  The multicast filter. The driver computes the hash of an address as the MAC does (a bit per
  octet, the parity of the octet), but writes entry \<open>h\<close> of the table at byte offset \<open>h\<close> instead of word \<open>h\<close>: after
  setting a list of multicast addresses, entry \<open>h\<close> of the table is set exactly if the hash of one of them divided by
  four is \<open>h\<close>, for \<open>h < 16\<close>; the other 48 entries are neither set nor cleared. A multicast address whose hash is not
  0, 1, 2 or 3 and no other address falls on its place is therefore filtered out.
\<close>

theorem tse_multicast_table:
  assumes "h < 64"
  shows "mac (snd (tse_control (SET_MC_LIST addrs) t)) (0x40 + h) =
     (if h < 16 then (if \<exists>a \<in> set addrs. a ! 0 AND 1 \<noteq> 0 \<and> mac_hash a div 4 = h then 1 else 0) else mac t (0x40 + h))"
proof -
  have "(\<exists>i<64. 0x40 + h = 0x40 + i div 4) \<longleftrightarrow> h < (16 :: nat)"
  proof
    assume "h < 16"
    then show "\<exists>i<64. 0x40 + h = 0x40 + i div 4" by (intro exI [of _ "4 * h"]) simp
  qed auto
  moreover have "mac_hash a div 4 < 16" for a using mac_hash_less [of a] by simp
  ultimately show ?thesis by (auto simp: tse_control_def set_hash_table fold_write_hash)
qed

theorem tse_multicast_table_witness:
  "mac (snd (tse_control (SET_MC_LIST [[1, 0, 0x5E, 0, 0, 1]]) sample_tse)) 0x49 = 1"
proof -
  have "mac_hash [1, 0, 0x5E, 0, 0, 1] = 37"
    by (simp add: mac_hash_def odd_ones_def upt_rec)
  then show ?thesis using tse_multicast_table [of 9 "[[1, 0, 0x5E, 0, 0, 1]]" sample_tse] by simp
qed

end
