(* ===== verification/Tse_Phy.thy ===== *)
theory Tse_Phy
  imports Tse_Correct
begin

text \<open>
  Bringing up the Ethernet interface: the PHY (\<^verbatim>\<open>getPHYSpeed\<close>, \<^verbatim>\<open>marvell_cfg_sgmii\<close> and its sisters) and
  \<^verbatim>\<open>tse_init\<close> of \<^verbatim>\<open>if_tse.c\<close>.

  The PHYs are registers by MDIO address and register number; the link of the selected one comes up after
  \<open>link_reads\<close> more reads of its status. What depends on the generated system is the record \<open>phy_cfg\<close>.
\<close>

unbundle bit_operations_syntax

record phy =
  mdio_addr :: u32
  phy_regs :: "u32 \<Rightarrow> nat \<Rightarrow> u32"
  link_reads :: nat

record phy_cfg =
  USE_MDIO :: bool
  ENABLE_MACLITE :: bool
  MACLITE_GIGE :: bool

abbreviation (input) PCS_CTL_an_enable :: u32 where "PCS_CTL_an_enable \<equiv> 0x1000"
abbreviation (input) PCS_CTL_rx_slpbk :: u32 where "PCS_CTL_rx_slpbk \<equiv> 0x4000"
abbreviation (input) PCS_CTL_sw_reset :: u32 where "PCS_CTL_sw_reset \<equiv> 0x8000"
abbreviation (input) PCS_ST_an_done :: u32 where "PCS_ST_an_done \<equiv> 0x20"

definition phy_write :: "nat \<Rightarrow> u32 \<Rightarrow> phy \<Rightarrow> phy" where
  "phy_write r v p = p\<lparr>phy_regs := (phy_regs p)(mdio_addr p := (phy_regs p (mdio_addr p))(r := v))\<rparr>"

definition phy_read :: "nat \<Rightarrow> phy \<Rightarrow> u32" where
  "phy_read r p = phy_regs p (mdio_addr p) r"

definition phy_status :: "phy \<Rightarrow> u32 \<times> phy" where
  "phy_status p =
     (if link_reads p > 0 then (phy_read 1 p AND NOT PCS_ST_an_done, p\<lparr>link_reads := link_reads p - 1\<rparr>)
      else (phy_read 1 p OR PCS_ST_an_done, p))"

subsection \<open>Operating modes\<close>

text \<open>The three routines differ in the mode bits and in the timing control; \<open>dat\<close> is a 16 bit variable.\<close>

definition marvell_reset :: "phy \<Rightarrow> phy" where
  "marvell_reset p = phy_write 0 (ucast (ucast (phy_read 0 p) :: u16) OR PCS_CTL_sw_reset) p"

definition marvell_cfg_gmii :: "phy \<Rightarrow> phy" where
  "marvell_cfg_gmii p =
     (let dat = (ucast (phy_read 0x1B p) :: u16) AND 0xFFF0;
          p1 = phy_write 0x1B (ucast (dat OR 0xF)) p;
          dat = (ucast (phy_read 0x14 p1) :: u16) AND NOT 0x82
      in marvell_reset (phy_write 0x14 (ucast dat) p1))"

definition marvell_cfg_sgmii :: "phy \<Rightarrow> phy" where
  "marvell_cfg_sgmii p =
     (let dat = (ucast (phy_read 0x1B p) :: u16) AND 0xFFF0;
          p1 = phy_write 0x1B (ucast (dat OR 0x4)) p;
          dat = (ucast (phy_read 0x14 p1) :: u16) AND NOT 0x82
      in marvell_reset (phy_write 0x14 (ucast dat) p1))"

definition marvell_cfg_rgmii :: "phy \<Rightarrow> phy" where
  "marvell_cfg_rgmii p =
     (let dat = ((ucast (phy_read 0x1B p) :: u16) AND 0xFFF0) OR 0x000B;
          p1 = phy_write 0x1B (ucast dat) p;
          dat = ((ucast (phy_read 0x14 p1) :: u16) AND NOT 0x82) OR 0x82
      in marvell_reset (phy_write 0x14 (ucast dat) p1))"

subsection \<open>Link speed\<close>

text \<open>Looking for a PHY: the first address at which the two identifiers differ; \<open>n\<close> addresses are left.\<close>

fun phy_scan :: "nat \<Rightarrow> u32 \<Rightarrow> phy \<Rightarrow> u32 \<times> u32 \<times> phy" where
  "phy_scan n phyadd p =
     (let p1 = p\<lparr>mdio_addr := phyadd\<rparr>; phyid = phy_read 2 p1; phyid2 = phy_read 3 p1
      in if phyid \<noteq> phyid2 then (phyid, phyid2, p1)
         else (case n of 0 \<Rightarrow> (phyid, phyid2, p1) | Suc m \<Rightarrow> phy_scan m (phyadd + 1) p1))"

declare phy_scan.simps [simp del]

fun await_link :: "nat \<Rightarrow> phy \<Rightarrow> phy" where
  "await_link tries p =
     (let (st, p1) = phy_status p
      in if st AND PCS_ST_an_done \<noteq> 0 then p1 else (case tries of 0 \<Rightarrow> p1 | Suc m \<Rightarrow> await_link m p1))"

declare await_link.simps [simp del]

definition is_national :: "u32 \<Rightarrow> u32 \<Rightarrow> bool" where "is_national phyid phyid2 \<longleftrightarrow> phyid = 0x2000 \<and> phyid2 = 0x5C7A"
definition is_marvell :: "u32 \<Rightarrow> bool" where "is_marvell phyid \<longleftrightarrow> phyid = 0x0141"
definition is_national848 :: "u32 \<Rightarrow> u32 \<Rightarrow> bool" where "is_national848 phyid phyid2 \<longleftrightarrow> phyid = 0x2000 \<and> phyid2 = 0x5C90"

definition speed_result :: "u32 \<Rightarrow> u32 \<Rightarrow> u32" where
  "speed_result is1000 duplex = push_bit 1 (is1000 AND 1) OR (duplex AND 1)"

text \<open>The link speed as the vendor's status register gives it; the defaults are 100 Mb/s and full duplex.\<close>

definition decode_speed :: "u32 \<Rightarrow> u32 \<Rightarrow> phy \<Rightarrow> u32" where
  "decode_speed phyid phyid2 p =
     (if is_national phyid phyid2 then
        speed_result (if drop_bit 3 (phy_read 0x11 p) AND 3 = 2 then 1 else 0) (drop_bit 1 (phy_read 0x11 p) AND 1)
      else if is_marvell phyid then
        speed_result (if drop_bit 14 (phy_read 0x11 p) AND 3 = 2 then 1 else 0) (drop_bit 13 (phy_read 0x11 p) AND 1)
      else if is_national848 phyid phyid2 then speed_result 0 (drop_bit 2 (phy_read 0x10 p) AND 1)
      else speed_result 0 1)"

definition getPHYSpeed :: "phy_cfg \<Rightarrow> phy \<Rightarrow> u32 \<times> phy" where
  "getPHYSpeed pc p =
     (if \<not> USE_MDIO pc then (speed_result 0 1, p)
      else
        (let (phyid, phyid2, p1) = phy_scan 254 0 p;
             known1 = is_national phyid phyid2;
             mvl = \<not> known1 \<and> is_marvell phyid;
             p2 = (if mvl then (let (st, q) = phy_status p1 in if st AND PCS_ST_an_done = 0 then phy_write 0x10 0x0078 q else q) else p1);
             known = known1 \<or> mvl \<or> is_national848 phyid phyid2
         in if \<not> known then (speed_result 0 1, p2)
            else
              (let ctl = phy_read 0 p2;
                   (reset, p3) = (if ctl AND PCS_CTL_rx_slpbk \<noteq> 0 then (True, p2)
                                  else (let (st, q) = phy_status p2 in (st AND PCS_ST_an_done = 0, q)));
                   p4 = (if reset then phy_write 0 (PCS_CTL_an_enable OR PCS_CTL_sw_reset) p3 else p3);
                   p5 = (if ENABLE_MACLITE pc \<and> \<not> MACLITE_GIGE pc
                         then (let q = phy_write 9 (phy_read 9 p4 AND 0xFCFF) p4 in phy_write 0 (phy_read 0 q OR 0x200) q)
                         else p4);
                   (st, p6) = phy_status p5;
                   p7 = (if st AND PCS_ST_an_done = 0 then await_link 7000001 p6 else p6)
               in (decode_speed phyid phyid2 p7, p7))))"

subsection \<open>Initialisation\<close>

definition zero_desc :: alt_sgdma_descriptor where
  "zero_desc = \<lparr>read_addr = 0, read_addr_pad = 0, write_addr = 0, write_addr_pad = 0, next_desc = 0, next_pad = 0,
     bytes_to_transfer = 0, read_burst = 0, write_burst = 0, actual_bytes_transferred = 0, d_status = 0, d_control = 0\<rparr>"

text \<open>
  Clearing 256 words of descriptor memory: the descriptors 0 to 31, which both devices number from its start.
\<close>

definition clear_descs :: "alt_sgdma_dev \<Rightarrow> alt_sgdma_dev" where
  "clear_descs dev = dev\<lparr>ctlr := (ctlr dev)\<lparr>descs := (\<lambda>i. if i < 32 then zero_desc else descs (ctlr dev) i)\<rparr>\<rparr>"

definition write_supplemental :: "bytes \<Rightarrow> tse \<Rightarrow> tse" where
  "write_supplemental e =
     fold (\<lambda>k t. mac_write (0x304 + 8 * k) (mac_high e) (mac_write (0x300 + 8 * k) (mac_low e) t)) [0, 1, 2, 3]"

text \<open>Waiting for the reset; \<open>n\<close> more reads may still show the reset bit.\<close>

fun await_reset :: "nat \<Rightarrow> tse \<Rightarrow> bool \<times> tse" where
  "await_reset n t =
     (let (v, t1) = read_cmd t
      in if v AND CMD_SW_RESET_MSK = 0 then (True, t1) else (case n of 0 \<Rightarrow> (False, t1) | Suc m \<Rightarrow> await_reset m t1))"

declare await_reset.simps [simp del]

definition init_mac_regs :: "tse_cfg \<Rightarrow> tse \<Rightarrow> tse" where
  "init_mac_regs cfg t =
     fold (\<lambda>(r, v). mac_write r v)
       [(0x14, 1518), (0x2C, 8), (0x30, 8), (0x34, 8), (0x38, 3), (0x24, TX_FIFO_DEPTH cfg - 16), (0x28, 0),
        (0x1C, RX_FIFO_DEPTH cfg - 16), (0x20, 0), (0xE8, TXSHIFT16_MSK)] t"

text \<open>\<open>esa\<close> is the address that \<^verbatim>\<open>config_enaddr\<close> provides; \<open>rx_addr\<close> and \<open>tx_addr\<close> are the places of the buffers.\<close>

definition tse_init :: "tse_cfg \<Rightarrow> phy_cfg \<Rightarrow> bytes option \<Rightarrow> nat \<Rightarrow> nat \<Rightarrow> phy \<Rightarrow> tse \<Rightarrow> bool \<times> phy \<times> tse" where
  "tse_init cfg pc esa rx_addr tx_addr p t =
     (let t1 = t\<lparr>txbusy := 0, within_send := 0, rx_buffer := rx_addr, tx_buffer := tx_addr, txkey := 0,
            rx_sgdma := alt_avalon_sgdma_init2 (clear_descs ((rx_sgdma t)\<lparr>isr := True, chain_control := 0\<rparr>)),
            tx_sgdma := alt_avalon_sgdma_init2 (clear_descs ((tx_sgdma t)\<lparr>isr := False, chain_control := 0\<rparr>))\<rparr>;
          (result, p1) = getPHYSpeed pc (marvell_cfg_sgmii p);
          t2 = t1\<lparr>speed := result, enaddr := (case esa of None \<Rightarrow> enaddr t1 | Some e \<Rightarrow> e)\<rparr>;
          t3 = write_supplemental (enaddr t2) (set_mac (enaddr t2) t2);
          t4 = mac_write CMD_CONFIG (CMD_SW_RESET_MSK OR CMD_TX_ENA_MSK OR CMD_RX_ENA_MSK OR CMD_ETH_SPEED_MSK) t3
      in case await_reset 10001 t4 of
           (False, t5) \<Rightarrow> (False, p1, t5)
         | (True, t5) \<Rightarrow>
             (let (dat, t6) = read_cmd t5
              in if dat AND 3 \<noteq> 0 then (False, p1, t6) else (True, p1, init_mac_regs cfg t6)))"

subsection \<open>What bringing up achieves\<close>

text \<open>The speed that is reported is one of four, and for a known PHY it is what the PHY negotiated.\<close>

lemma speed_result: "speed_result (of_bool g) (of_bool d) = of_bool d + 2 * of_bool g"
  by (cases g; cases d) (simp_all add: speed_result_def)

lemma read_cmd_reset:
  assumes "mac t 2 = 0x200B"
  shows "0 < reset_reads t \<Longrightarrow> read_cmd t = (0x200B, t\<lparr>reset_reads := reset_reads t - 1\<rparr>)"
    "reset_reads t = 0 \<Longrightarrow> read_cmd t = (if clocks_ok t then 8 else 0xB, t\<lparr>mac := (mac t)(2 := if clocks_ok t then 8 else 0xB)\<rparr>)"
  using assms by (simp_all add: read_cmd_def Let_def mac_write_def)

lemma await_reset:
  "mac t 2 = 0x200B \<Longrightarrow> \<exists>v r. await_reset n t = (reset_reads t \<le> n, t\<lparr>mac := (mac t)(2 := v), reset_reads := r\<rparr>) \<and>
     (reset_reads t \<le> n \<longrightarrow> v = (if clocks_ok t then 8 else 0xB))"
proof (induction n arbitrary: t)
  case 0
  show ?case
  proof (cases "reset_reads t = 0")
    case True
    let ?v = "if clocks_ok t then 8 else 0xB :: u32"
    have "await_reset 0 t = (True, t\<lparr>mac := (mac t)(2 := ?v)\<rparr>)"
      by (subst await_reset.simps) (simp add: read_cmd_reset(2) [OF 0 True])
    also have "t\<lparr>mac := (mac t)(2 := ?v)\<rparr> = t\<lparr>mac := (mac t)(2 := ?v), reset_reads := 0\<rparr>" using True by simp
    finally show ?thesis using True by (intro exI [of _ ?v] exI [of _ 0]) (simp add: fun_upd_def)
  next
    case False
    have "await_reset 0 t = (False, t\<lparr>reset_reads := reset_reads t - 1\<rparr>)"
      using False by (subst await_reset.simps) (simp add: read_cmd_reset(1) [OF 0])
    moreover have "(mac t)(2 := 0x200B) = mac t" using 0 by (simp add: fun_upd_idem)
    ultimately show ?thesis using False by (intro exI [of _ "0x200B"] exI [of _ "reset_reads t - 1"]) simp
  qed
next
  case (Suc n)
  show ?case
  proof (cases "reset_reads t = 0")
    case True
    let ?v = "if clocks_ok t then 8 else 0xB :: u32"
    have "await_reset (Suc n) t = (True, t\<lparr>mac := (mac t)(2 := ?v)\<rparr>)"
      by (subst await_reset.simps) (simp add: read_cmd_reset(2) [OF Suc.prems True])
    also have "t\<lparr>mac := (mac t)(2 := ?v)\<rparr> = t\<lparr>mac := (mac t)(2 := ?v), reset_reads := 0\<rparr>" using True by simp
    finally show ?thesis using True by (intro exI [of _ ?v] exI [of _ 0]) (simp add: fun_upd_def)
  next
    case False
    let ?t = "t\<lparr>reset_reads := reset_reads t - 1\<rparr>"
    have step: "await_reset (Suc n) t = await_reset n ?t"
      using False by (subst await_reset.simps) (simp add: read_cmd_reset(1) [OF Suc.prems])
    have le: "reset_reads t - 1 \<le> n \<longleftrightarrow> reset_reads t \<le> Suc n" by auto
    have "mac ?t 2 = 0x200B" using Suc.prems by simp
    from Suc.IH [OF this] obtain v r where ih: "await_reset n ?t = (reset_reads ?t \<le> n, ?t\<lparr>mac := (mac ?t)(2 := v), reset_reads := r\<rparr>)"
        "reset_reads ?t \<le> n \<longrightarrow> v = (if clocks_ok ?t then 8 else 0xB)" by (elim exE conjE)
    show ?thesis
    proof (intro exI conjI)
      show "await_reset (Suc n) t = (reset_reads t \<le> Suc n, t\<lparr>mac := (mac t)(2 := v), reset_reads := r\<rparr>)"
        unfolding step ih(1) using le by simp
      show "reset_reads t \<le> Suc n \<longrightarrow> v = (if clocks_ok t then 8 else 0xB)" using ih(2) le by simp
    qed
  qed
qed

lemma mac_bytes:
  "ucast (mac_low e) = e ! 0" "ucast (drop_bit 8 (mac_low e)) = e ! 1" "ucast (drop_bit 16 (mac_low e)) = e ! 2"
  "ucast (drop_bit 24 (mac_low e)) = e ! 3" "ucast (mac_high e) = e ! 4" "ucast (drop_bit 8 (mac_high e)) = e ! 5"
proof -
  have m: "(0xFFFF :: u32) = mask 16" by (simp add: mask_numeral)
  have hi: "bit (b :: u8) n \<Longrightarrow> n < 8" for b n using bit_imp_le_length [of b n] by simp
  show "ucast (mac_low e) = e ! 0" "ucast (drop_bit 8 (mac_low e)) = e ! 1" "ucast (drop_bit 16 (mac_low e)) = e ! 2"
    "ucast (drop_bit 24 (mac_low e)) = e ! 3" "ucast (mac_high e) = e ! 4" "ucast (drop_bit 8 (mac_high e)) = e ! 5"
    unfolding mac_low_def mac_high_def m
    by (rule bit_word_eqI; auto simp: bit_simps simp del: mask_numeral dest: hi)+
qed

definition init_ready :: "tse_cfg \<Rightarrow> tse \<Rightarrow> bool" where
  "init_ready cfg t \<longleftrightarrow> 0 < BUFFER_NO cfg \<and> BUFFER_NO cfg \<le> 32 \<and> sg_mode (ctlr (rx_sgdma t)) = Stream_to_mem \<and>
     sg_mode (ctlr (tx_sgdma t)) = Mem_to_stream \<and> incoming (ctlr (rx_sgdma t)) = [] \<and> (- EINPROGRESS cfg) AND 0x10 \<noteq> 0"

lemma init_dev:
  "isr (alt_avalon_sgdma_init2 (clear_descs dev)) = isr dev" "sg_mode (ctlr (alt_avalon_sgdma_init2 (clear_descs dev))) = sg_mode (ctlr dev)"
  "sg_control (ctlr (alt_avalon_sgdma_init2 (clear_descs dev))) = 0" "sticky_ok (ctlr (alt_avalon_sgdma_init2 (clear_descs dev)))"
  "incoming (ctlr (alt_avalon_sgdma_init2 (clear_descs dev))) = incoming (ctlr dev)"
  "i < 32 \<Longrightarrow> descs (ctlr (alt_avalon_sgdma_init2 (clear_descs dev))) i = zero_desc"
  by (simp_all add: alt_avalon_sgdma_init2_def alt_avalon_sgdma_reset_def clear_descs_def sticky_ok_def IOWR_STATUS_def IOWR_CONTROL_def and.assoc)

lemma mac_write_keeps [simp]:
  "rx_sgdma (mac_write r v t) = rx_sgdma t" "tx_sgdma (mac_write r v t) = tx_sgdma t" "rx_buffer (mac_write r v t) = rx_buffer t"
  "reset_reads (mac_write r v t) = reset_reads t" "clocks_ok (mac_write r v t) = clocks_ok t"
  "mac (mac_write r v t) = (mac t)(r div 4 := v)" "enaddr (mac_write r v t) = enaddr t"
  by (simp_all add: mac_write_def)

lemma init_mac_regs_keeps:
  "rx_sgdma (init_mac_regs cfg t) = rx_sgdma t" "tx_sgdma (init_mac_regs cfg t) = tx_sgdma t" "rx_buffer (init_mac_regs cfg t) = rx_buffer t"
  "enaddr (init_mac_regs cfg t) = enaddr t"
  "r \<in> {3, 4} \<or> 0xC0 \<le> r \<Longrightarrow> mac (init_mac_regs cfg t) r = mac t r"
  by (auto simp: init_mac_regs_def)

text \<open>The state before the reset of the MAC.\<close>

definition before_reset :: "u32 \<Rightarrow> bytes \<Rightarrow> nat \<Rightarrow> nat \<Rightarrow> tse \<Rightarrow> tse" where
  "before_reset result e rx_addr tx_addr t =
     mac_write 8 0x200B (write_supplemental e (set_mac e (t\<lparr>txbusy := 0, within_send := 0, rx_buffer := rx_addr, tx_buffer := tx_addr, txkey := 0,
       rx_sgdma := alt_avalon_sgdma_init2 (clear_descs ((rx_sgdma t)\<lparr>isr := True, chain_control := 0\<rparr>)),
       tx_sgdma := alt_avalon_sgdma_init2 (clear_descs ((tx_sgdma t)\<lparr>isr := False, chain_control := 0\<rparr>)),
       speed := result, enaddr := e\<rparr>)))"

lemma before_reset:
  "rx_sgdma (before_reset result e ra ta t) = alt_avalon_sgdma_init2 (clear_descs ((rx_sgdma t)\<lparr>isr := True, chain_control := 0\<rparr>))"
  "tx_sgdma (before_reset result e ra ta t) = alt_avalon_sgdma_init2 (clear_descs ((tx_sgdma t)\<lparr>isr := False, chain_control := 0\<rparr>))"
  "rx_buffer (before_reset result e ra ta t) = ra" "enaddr (before_reset result e ra ta t) = e" "mac (before_reset result e ra ta t) 2 = 0x200B"
  "reset_reads (before_reset result e ra ta t) = reset_reads t" "clocks_ok (before_reset result e ra ta t) = clocks_ok t"
  "r \<in> {3, 0xC0, 0xC2, 0xC4, 0xC6} \<Longrightarrow> mac (before_reset result e ra ta t) r = mac_low e \<and> mac (before_reset result e ra ta t) (r + 1) = mac_high e"
  by (auto simp: before_reset_def write_supplemental_def set_mac_def)

lemma tse_init_parts:
  "\<exists>result p1. tse_init cfg pc (Some e) ra ta p t =
     (case await_reset 10001 (before_reset result e ra ta t) of
        (False, t5) \<Rightarrow> (False, p1, t5)
      | (True, t5) \<Rightarrow> (let (dat, t6) = read_cmd t5 in if dat AND 3 \<noteq> 0 then (False, p1, t6) else (True, p1, init_mac_regs cfg t6)))"
proof -
  obtain result p1 where "getPHYSpeed pc (marvell_cfg_sgmii p) = (result, p1)" by fastforce
  then show ?thesis by (intro exI [of _ result] exI [of _ p1]) (simp add: tse_init_def before_reset_def Let_def)
qed

text \<open>
  Bringing up the interface. Initialisation succeeds exactly when the MAC finishes its reset
  within the polls the driver grants it and has its clocks. Then the station address is in the address registers and
  in all four supplemental ones, byte for byte; the transmitter is ready, and starting the interface arms the
  receiver, so that packets can be sent and received as shown for them.
\<close>

theorem tse_bring_up:
  assumes "init_ready cfg t"
  shows "\<exists>ok p' t'. tse_init cfg pc (Some e) rx_addr tx_addr p t = (ok, p', t') \<and>
     (ok \<longleftrightarrow> clocks_ok t \<and> reset_reads t \<le> 10001) \<and>
     (ok \<longrightarrow> tx_ready cfg t' \<and> armed cfg rx_addr (rx_sgdma (tse_start cfg t')) \<and> enaddr t' = e \<and>
       (\<forall>r \<in> {3, 0xC0, 0xC2, 0xC4, 0xC6}.
          [ucast (mac t' r), ucast (drop_bit 8 (mac t' r)), ucast (drop_bit 16 (mac t' r)), ucast (drop_bit 24 (mac t' r)),
           ucast (mac t' (r + 1)), ucast (drop_bit 8 (mac t' (r + 1)))] = [e ! 0, e ! 1, e ! 2, e ! 3, e ! 4, e ! 5]))"
proof -
  obtain result p1 where i: "tse_init cfg pc (Some e) rx_addr tx_addr p t =
     (case await_reset 10001 (before_reset result e rx_addr tx_addr t) of
        (False, t5) \<Rightarrow> (False, p1, t5)
      | (True, t5) \<Rightarrow> (let (dat, t6) = read_cmd t5 in if dat AND 3 \<noteq> 0 then (False, p1, t6) else (True, p1, init_mac_regs cfg t6)))"
    using tse_init_parts by blast
  define t4 where "t4 = before_reset result e rx_addr tx_addr t"
  note b = before_reset [where result = result and e = e and ra = rx_addr and ta = tx_addr and t = t, folded t4_def]
  obtain v r where w: "await_reset 10001 t4 = (reset_reads t \<le> 10001, t4\<lparr>mac := (mac t4)(2 := v), reset_reads := r\<rparr>)"
      "reset_reads t \<le> 10001 \<longrightarrow> v = (if clocks_ok t then 8 else 0xB)"
    using await_reset [OF b(5), of 10001] b(6,7) by auto
  define t5 where "t5 = t4\<lparr>mac := (mac t4)(2 := v), reset_reads := r\<rparr>"
  have w1: "await_reset 10001 t4 = (reset_reads t \<le> 10001, t5)" unfolding t5_def by (rule w(1))
  have rd: "v AND 0x2000 = 0 \<Longrightarrow> read_cmd t5 = (v, t5)" by (simp add: read_cmd_def t5_def)
  show ?thesis
  proof (cases "clocks_ok t \<and> reset_reads t \<le> 10001")
    case False
    have "\<exists>p' t'. tse_init cfg pc (Some e) rx_addr tx_addr p t = (False, p', t')"
    proof (cases "reset_reads t \<le> 10001")
      case True
      then show ?thesis using False w1 w(2) rd by (simp add: i t4_def [symmetric])
    qed (simp add: i t4_def [symmetric] w1)
    then show ?thesis using False by auto
  next
    case True
    let ?t = "init_mac_regs cfg t5"
    have init: "tse_init cfg pc (Some e) rx_addr tx_addr p t = (True, p1, ?t)"
      using True w1 w(2) rd by (simp add: i t4_def [symmetric])
    have keep: "rx_sgdma ?t = rx_sgdma t4" "tx_sgdma ?t = tx_sgdma t4" "rx_buffer ?t = rx_addr" "enaddr ?t = e"
      using b by (simp_all add: init_mac_regs_keeps t5_def)
    have n: "BUFFER_NO cfg - 1 < 32" using assms unfolding init_ready_def by linarith
    have "armed cfg (rx_buffer ?t) (rx_sgdma (tse_start cfg ?t))"
      by (rule tse_start_arms)
        (use assms n in \<open>simp_all add: keep b(1) init_dev init_ready_def\<close>, simp_all add: zero_desc_def)
    moreover have "tx_ready cfg ?t" using assms by (simp add: tx_ready_def keep b(2) init_dev init_ready_def)
    moreover have regs: "\<forall>r \<in> {3, 0xC0, 0xC2, 0xC4, 0xC6}. mac ?t r = mac_low e \<and> mac ?t (r + 1) = mac_high e"
    proof
      fix r :: nat
      assume r: "r \<in> {3, 0xC0, 0xC2, 0xC4, 0xC6}"
      then have "mac ?t r = mac t5 r" "mac ?t (r + 1) = mac t5 (r + 1)" by (auto intro!: init_mac_regs_keeps(5))
      moreover have "mac t5 r = mac t4 r" "mac t5 (r + 1) = mac t4 (r + 1)" using r by (auto simp: t5_def)
      ultimately show "mac ?t r = mac_low e \<and> mac ?t (r + 1) = mac_high e" using b(8) [OF r] by simp
    qed
    ultimately show ?thesis
      using init True keep(3,4)
      by (intro exI [of _ True] exI [of _ p1] exI [of _ ?t] conjI impI ballI) (simp_all only: mac_bytes simp_thms)
  qed
qed

text \<open>The sample interface with a silent PHY and without MDIO, whose reset takes three polls.\<close>

theorem tse_bring_up_witness:
  "fst (tse_init sample_cfg \<lparr>USE_MDIO = False, ENABLE_MACLITE = False, MACLITE_GIGE = False\<rparr> (Some [0, 7, 0xED, 1, 2, 3]) 0x1000 0x10000
     \<lparr>mdio_addr = 0, phy_regs = (\<lambda>_ _. 0), link_reads = 0\<rparr> (sample_tse\<lparr>reset_reads := 3\<rparr>))"
proof -
  have r: "init_ready sample_cfg (sample_tse\<lparr>reset_reads := 3\<rparr>)"
    by (simp add: init_ready_def sample_cfg_def sample_tse_def idle_dev_def idle_sgdma_def)
  have "clocks_ok (sample_tse\<lparr>reset_reads := 3\<rparr>)" by (simp add: sample_tse_def)
  then show ?thesis
    using tse_bring_up [OF r, where e = "[0, 7, 0xED, 1, 2, 3]" and rx_addr = "0x1000" and tx_addr = "0x10000"
        and pc = "\<lparr>USE_MDIO = False, ENABLE_MACLITE = False, MACLITE_GIGE = False\<rparr>"
        and p = "\<lparr>mdio_addr = 0, phy_regs = (\<lambda>_ _. 0), link_reads = 0\<rparr>"]
    by auto
qed

end
