(* ===== verification/Ethermac.thy ===== *)
theory Ethermac
  imports Byte_Memory
begin

text \<open>
  The OpenCores Ethernet MAC as its drivers see it: registers, a table of buffer descriptors (the first
  \<open>tx_bd_num\<close> for transmission, the others for reception), main memory, and the management interface to
  the PHYs. The MAC goes through the descriptors in order and returns to the first after the one with the wrap flag;
  clearing an enable bit sends it back to the first descriptor (\<^verbatim>\<open>eth_avalon_txdma.v\<close>, \<^verbatim>\<open>eth_avalon_rxdma.v\<close>).

  \<open>sent\<close> is what was put on the wire. A command on the management interface keeps it busy for \<open>mii_time\<close> reads of the
  status register. The PHYs are registers by address and number; the link comes up after \<open>phy_link\<close> more reads of a
  PHY's status register, which is number 1.
\<close>

unbundle bit_operations_syntax

record oeth_bd =
  len_status :: u32
  bd_addr :: nat

record ethermac =
  moder :: u32
  int_src :: u32
  int_mask :: u32
  ipgt :: u32
  ipgr1 :: u32
  ipgr2 :: u32
  packet_len :: u32
  collconf :: u32
  tx_bd_num :: u32
  ctrlmoder :: u32
  miimoder :: u32
  miicommand :: u32
  miiaddress :: u32
  miitx_data :: u32
  miirx_data :: u32
  mac_addr0 :: u32
  mac_addr1 :: u32
  hash_addr0 :: u32
  hash_addr1 :: u32
  bds :: "nat \<Rightarrow> oeth_bd"
  ram :: "nat \<Rightarrow> u8"
  hw_tx :: nat
  hw_rx :: nat
  sent :: "bytes list"
  phys :: "nat \<Rightarrow> nat \<Rightarrow> u32"
  mii_busy :: nat
  mii_time :: nat
  mii_invalid :: bool
  phy_link :: nat

abbreviation (input) TX_BD_READY :: u32 where "TX_BD_READY \<equiv> 0x8000"
abbreviation (input) TX_BD_IRQ :: u32 where "TX_BD_IRQ \<equiv> 0x4000"
abbreviation (input) TX_BD_WRAP :: u32 where "TX_BD_WRAP \<equiv> 0x2000"
abbreviation (input) TX_BD_PAD :: u32 where "TX_BD_PAD \<equiv> 0x1000"
abbreviation (input) TX_BD_CRC :: u32 where "TX_BD_CRC \<equiv> 0x0800"
abbreviation (input) TX_BD_UNDERRUN :: u32 where "TX_BD_UNDERRUN \<equiv> 0x0100"
abbreviation (input) TX_BD_RETLIM :: u32 where "TX_BD_RETLIM \<equiv> 0x0008"
abbreviation (input) TX_BD_LATECOL :: u32 where "TX_BD_LATECOL \<equiv> 0x0004"
abbreviation (input) TX_BD_CARRIER :: u32 where "TX_BD_CARRIER \<equiv> 0x0001"
abbreviation (input) TX_BD_STATS :: u32 where "TX_BD_STATS \<equiv> 0x01FF"

abbreviation (input) RX_BD_EMPTY :: u32 where "RX_BD_EMPTY \<equiv> 0x8000"
abbreviation (input) RX_BD_IRQ :: u32 where "RX_BD_IRQ \<equiv> 0x4000"
abbreviation (input) RX_BD_WRAP :: u32 where "RX_BD_WRAP \<equiv> 0x2000"
abbreviation (input) RX_BD_MISS :: u32 where "RX_BD_MISS \<equiv> 0x0080"
abbreviation (input) RX_BD_OVERRUN :: u32 where "RX_BD_OVERRUN \<equiv> 0x0040"
abbreviation (input) RX_BD_DRIBBLE :: u32 where "RX_BD_DRIBBLE \<equiv> 0x0010"
abbreviation (input) RX_BD_TOOLONG :: u32 where "RX_BD_TOOLONG \<equiv> 0x0008"
abbreviation (input) RX_BD_SHORT :: u32 where "RX_BD_SHORT \<equiv> 0x0004"
abbreviation (input) RX_BD_CRCERR :: u32 where "RX_BD_CRCERR \<equiv> 0x0002"
abbreviation (input) RX_BD_LATECOL :: u32 where "RX_BD_LATECOL \<equiv> 0x0001"
abbreviation (input) RX_BD_STATS :: u32 where "RX_BD_STATS \<equiv> 0x00FF"

abbreviation (input) MODER_RXEN :: u32 where "MODER_RXEN \<equiv> 0x1"
abbreviation (input) MODER_TXEN :: u32 where "MODER_TXEN \<equiv> 0x2"
abbreviation (input) MODER_IAM :: u32 where "MODER_IAM \<equiv> 0x10"
abbreviation (input) MODER_PRO :: u32 where "MODER_PRO \<equiv> 0x20"

abbreviation (input) INT_TXB :: u32 where "INT_TXB \<equiv> 0x1"
abbreviation (input) INT_TXE :: u32 where "INT_TXE \<equiv> 0x2"
abbreviation (input) INT_RXF :: u32 where "INT_RXF \<equiv> 0x4"
abbreviation (input) INT_RXE :: u32 where "INT_RXE \<equiv> 0x8"
abbreviation (input) INT_BUSY :: u32 where "INT_BUSY \<equiv> 0x10"

abbreviation (input) MIICOMMAND_RSTAT :: u32 where "MIICOMMAND_RSTAT \<equiv> 0x2"
abbreviation (input) MIICOMMAND_WCTRLDATA :: u32 where "MIICOMMAND_WCTRLDATA \<equiv> 0x4"
abbreviation (input) MIISTATUS_BUSY :: u32 where "MIISTATUS_BUSY \<equiv> 0x2"
abbreviation (input) MIISTATUS_NVALID :: u32 where "MIISTATUS_NVALID \<equiv> 0x4"

subsection \<open>Register accesses\<close>

definition write_moder :: "u32 \<Rightarrow> ethermac \<Rightarrow> ethermac" where
  "write_moder v m =
     m\<lparr>moder := v, hw_tx := (if v AND MODER_TXEN = 0 then 0 else hw_tx m), hw_rx := (if v AND MODER_RXEN = 0 then 0 else hw_rx m)\<rparr>"

text \<open>Interrupt flags are cleared by writing ones.\<close>

definition write_int_src :: "u32 \<Rightarrow> ethermac \<Rightarrow> ethermac" where
  "write_int_src v m = m\<lparr>int_src := int_src m AND NOT v\<rparr>"

definition status :: "nat \<Rightarrow> ethermac \<Rightarrow> u32" where
  "status k m = len_status (bds m k)"

definition write_status :: "nat \<Rightarrow> u32 \<Rightarrow> ethermac \<Rightarrow> ethermac" where
  "write_status k v m = m\<lparr>bds := (bds m)(k := (bds m k)\<lparr>len_status := v\<rparr>)\<rparr>"

definition write_addr :: "nat \<Rightarrow> nat \<Rightarrow> ethermac \<Rightarrow> ethermac" where
  "write_addr k a m = m\<lparr>bds := (bds m)(k := (bds m k)\<lparr>bd_addr := a\<rparr>)\<rparr>"

definition read_miistatus :: "ethermac \<Rightarrow> u32 \<times> ethermac" where
  "read_miistatus m =
     ((if 0 < mii_busy m then MIISTATUS_BUSY else 0) OR (if mii_invalid m then MIISTATUS_NVALID else 0), m\<lparr>mii_busy := mii_busy m - 1\<rparr>)"

text \<open>The PHY and the register that the address register selects.\<close>

definition mii_fiad :: "ethermac \<Rightarrow> nat" where
  "mii_fiad m = unat (miiaddress m AND 0x1F)"

definition mii_rgad :: "ethermac \<Rightarrow> nat" where
  "mii_rgad m = unat (drop_bit 8 (miiaddress m) AND 0x1F)"

definition phy_value :: "ethermac \<Rightarrow> u32" where
  "phy_value m =
     (let v = phys m (mii_fiad m) (mii_rgad m)
      in if mii_rgad m = 1 then (if 0 < phy_link m then v AND NOT 0x20 else v OR 0x20) else v)"

definition write_miicommand :: "u32 \<Rightarrow> ethermac \<Rightarrow> ethermac" where
  "write_miicommand v m =
     (let m1 = m\<lparr>miicommand := v, mii_busy := mii_time m\<rparr>
      in if v = MIICOMMAND_RSTAT
           then m1\<lparr>miirx_data := phy_value m, phy_link := (if mii_rgad m = 1 then phy_link m - 1 else phy_link m)\<rparr>
         else if v = MIICOMMAND_WCTRLDATA
           then m1\<lparr>phys := (phys m)(mii_fiad m := (phys m (mii_fiad m))(mii_rgad m := miitx_data m))\<rparr>
         else m\<lparr>miicommand := v\<rparr>)"

subsection \<open>What the MAC does\<close>

text \<open>Where a ring goes on after a descriptor.\<close>

definition ring_next :: "u32 \<Rightarrow> nat \<Rightarrow> nat" where
  "ring_next st i = (if st AND TX_BD_WRAP \<noteq> 0 then 0 else Suc i)"

text \<open>Sending the frame of the current descriptor, if there is one; \<open>st\<close> is the outcome.\<close>

definition mac_transmit :: "u32 \<Rightarrow> ethermac \<Rightarrow> ethermac" where
  "mac_transmit st m =
     (let k = hw_tx m; d = bds m k
      in if moder m AND MODER_TXEN = 0 \<or> len_status d AND TX_BD_READY = 0 then m
         else (write_status k ((len_status d AND NOT TX_BD_READY) OR (st AND TX_BD_STATS)) m)
           \<lparr>sent := sent m @ [load (ram m) (bd_addr d) (unat (drop_bit 16 (len_status d)))],
            hw_tx := ring_next (len_status d) k,
            int_src := int_src m OR (if len_status d AND TX_BD_IRQ = 0 then 0
              else if st AND (TX_BD_UNDERRUN OR 0xF) = 0 then INT_TXB else INT_TXE)\<rparr>)"

text \<open>A frame arrives (with its checksum): it goes into the current descriptor's buffer, or is dropped.\<close>

definition mac_receive :: "bytes \<Rightarrow> u32 \<Rightarrow> ethermac \<Rightarrow> ethermac" where
  "mac_receive frame st m =
     (let k = unat (tx_bd_num m) + hw_rx m; d = bds m k
      in if moder m AND MODER_RXEN = 0 then m
         else if len_status d AND RX_BD_EMPTY = 0 then m\<lparr>int_src := int_src m OR INT_BUSY\<rparr>
         else (write_status k (push_bit 16 (of_nat (length frame)) OR (len_status d AND (RX_BD_IRQ OR RX_BD_WRAP)) OR (st AND RX_BD_STATS)) m)
           \<lparr>ram := store (bd_addr d) frame (ram m), hw_rx := ring_next (len_status d) (hw_rx m),
            int_src := int_src m OR (if len_status d AND RX_BD_IRQ = 0 then 0 else if st AND 0xFB = 0 then INT_RXF else INT_RXE)\<rparr>)"

subsection \<open>Addresses of PHY registers\<close>

lemma small_bits: "w < 32 \<Longrightarrow> bit (w :: u32) n \<Longrightarrow> n < 5"
proof -
  assume "w < 32" "bit w n"
  then have "take_bit 5 w = w" by (simp add: take_bit_eq_mod word_arith_nat_mod mod_less word_less_nat_alt)
  then show "n < 5" using \<open>bit w n\<close> by (metis bit_take_bit_iff)
qed

lemma mii_select:
  assumes "phy < 32" "reg < 32"
  shows "mii_fiad (m\<lparr>miiaddress := push_bit 8 reg OR phy\<rparr>) = unat phy" "mii_rgad (m\<lparr>miiaddress := push_bit 8 reg OR phy\<rparr>) = unat reg"
proof -
  have m: "(0x1F :: u32) = mask 5" by (simp add: mask_numeral)
  have "(push_bit 8 reg OR phy) AND mask 5 = phy" "drop_bit 8 (push_bit 8 reg OR phy) AND mask 5 = reg"
    by (rule bit_word_eqI; auto simp: bit_simps dest: small_bits [OF assms(1)] small_bits [OF assms(2)])+
  then show "mii_fiad (m\<lparr>miiaddress := push_bit 8 reg OR phy\<rparr>) = unat phy" "mii_rgad (m\<lparr>miiaddress := push_bit 8 reg OR phy\<rparr>) = unat reg"
    unfolding mii_fiad_def mii_rgad_def m by simp_all
qed

end
