(* ===== verification/Oeth.thy ===== *)
theory Oeth
  imports Ethermac
begin

text \<open>
  The eCos driver for the OpenCores Ethernet MAC (\<^verbatim>\<open>packages/devs/eth/opencores/ethermac/current/src/if_oeth.c\<close>,
  private data in \<^verbatim>\<open>oeth_info.h\<close>).

  The state holds the private data of the driver, the MAC (\<open>Ethermac\<close>) and what the network stack was told: the
  packets it received and the keys of the packets it may release. The numbers of descriptors, the place of the packet
  buffers and the buffers the stack offers for a received packet (\<open>oalloc\<close>: for each buffer whether it is null, and its
  length) are parameters (\<open>oeth_cfg\<close>). \<^verbatim>\<open>tx_full\<close> is only used as a truth value. Every driver routine runs
  without the MAC changing a descriptor meanwhile; what the MAC does comes between two routines.
\<close>

unbundle bit_operations_syntax

record net_device_stats =
  rx_packets :: u32
  tx_packets :: u32
  tx_errors :: u32
  collisions :: u32
  rx_length_errors :: u32
  rx_crc_errors :: u32
  rx_frame_errors :: u32
  tx_aborted_errors :: u32
  tx_carrier_errors :: u32
  tx_fifo_errors :: u32
  tx_window_errors :: u32

record oeth =
  tx_next :: nat
  tx_last :: nat
  tx_full :: bool
  rx_cur :: nat
  tx_keys :: "nat \<Rightarrow> u32"
  stats :: net_device_stats
  found :: bool
  active :: bool
  multicast_all :: bool
  promisc :: bool
  dev_addr :: bytes
  irq_masked :: bool
  regs :: ethermac
  delivered :: "bytes list"
  released :: "u32 list"

record oeth_cfg =
  OETH_RXBD_NUM :: nat
  OETH_TXBD_NUM :: nat
  rxbuff :: nat
  txbuff :: nat
  slot_size :: nat
  oalloc :: "nat \<Rightarrow> (bool \<times> int) list"

abbreviation (input) ETH_ZLEN :: int where "ETH_ZLEN \<equiv> 60"

definition OETH_MAX_FRAME_SIZE :: nat where
  "OETH_MAX_FRAME_SIZE = unat ((1518 + 7 :: u32) AND NOT 7)"

abbreviation (input) on_regs :: "(ethermac \<Rightarrow> ethermac) \<Rightarrow> oeth \<Rightarrow> oeth" where
  "on_regs f e \<equiv> e\<lparr>regs := f (regs e)\<rparr>"

definition status_or :: "nat \<Rightarrow> u32 \<Rightarrow> ethermac \<Rightarrow> ethermac" where
  "status_or k v m = write_status k (status k m OR v) m"

definition status_and :: "nat \<Rightarrow> u32 \<Rightarrow> ethermac \<Rightarrow> ethermac" where
  "status_and k v m = write_status k (status k m AND v) m"

subsection \<open>Starting and stopping\<close>

definition openeth_stop :: "oeth_cfg \<Rightarrow> oeth \<Rightarrow> oeth" where
  "openeth_stop cfg e =
     (let m1 = write_moder (moder (regs e) AND NOT (MODER_RXEN OR MODER_TXEN)) (regs e);
          m2 = fold (\<lambda>i. status_and (OETH_TXBD_NUM cfg + i) (NOT (RX_BD_STATS OR RX_BD_EMPTY))) [0..<OETH_RXBD_NUM cfg] m1;
          m3 = fold (\<lambda>i. status_and i (NOT (TX_BD_STATS OR TX_BD_READY))) [0..<OETH_TXBD_NUM cfg] m2
      in e\<lparr>regs := m3, tx_keys := (\<lambda>i. if i < OETH_TXBD_NUM cfg then 0 else tx_keys e i), active := False\<rparr>)"

definition openeth_start :: "oeth_cfg \<Rightarrow> oeth \<Rightarrow> oeth" where
  "openeth_start cfg e =
     (let o1 = (if active e then openeth_stop cfg e else e);
          m1 = fold (\<lambda>i. status_or (OETH_TXBD_NUM cfg + i) RX_BD_EMPTY) [0..<OETH_RXBD_NUM cfg] (regs o1);
          m2 = write_moder (moder m1 OR MODER_RXEN OR (if OETH_TXBD_NUM cfg > 1 then MODER_TXEN else 0)) m1
      in o1\<lparr>irq_masked := False, active := True, rx_cur := 0, tx_next := 0, tx_last := 0, tx_full := False, regs := m2\<rparr>)"

subsection \<open>Transmission\<close>

text \<open>Statistics of a transmitted packet.\<close>

definition tx_stats :: "u32 \<Rightarrow> net_device_stats \<Rightarrow> net_device_stats" where
  "tx_stats st s =
     (let s = (if st AND TX_BD_LATECOL \<noteq> 0 then s\<lparr>tx_window_errors := tx_window_errors s + 1\<rparr> else s);
          s = (if st AND TX_BD_RETLIM \<noteq> 0 then s\<lparr>tx_aborted_errors := tx_aborted_errors s + 1\<rparr> else s);
          s = (if st AND TX_BD_UNDERRUN \<noteq> 0 then s\<lparr>tx_fifo_errors := tx_fifo_errors s + 1\<rparr> else s);
          s = (if st AND TX_BD_CARRIER \<noteq> 0 then s\<lparr>tx_carrier_errors := tx_carrier_errors s + 1\<rparr> else s);
          s = (if st AND (TX_BD_LATECOL OR TX_BD_RETLIM OR TX_BD_UNDERRUN) \<noteq> 0 then s\<lparr>tx_errors := tx_errors s + 1\<rparr> else s)
      in s\<lparr>tx_packets := tx_packets s + 1, collisions := collisions s + (drop_bit 4 st AND 0xF)\<rparr>)"

text \<open>The loop ends at a descriptor that is not yet sent or at the next free one.\<close>

partial_function (option) oeth_tx :: "oeth_cfg \<Rightarrow> oeth \<Rightarrow> oeth option" where
  "oeth_tx cfg e =
     (let st = status (tx_last e) (regs e)
      in if st AND TX_BD_READY \<noteq> 0 \<or> tx_last e = tx_next e \<and> \<not> tx_full e then Some e
         else oeth_tx cfg (e\<lparr>stats := tx_stats st (stats e), tx_full := False, tx_last := (tx_last e + 1) mod OETH_TXBD_NUM cfg\<rparr>))"

text \<open>The keys of the packets that are sent go back to the stack.\<close>

definition release_key :: "nat \<Rightarrow> oeth \<Rightarrow> oeth" where
  "release_key i e =
     (if tx_keys e i \<noteq> 0 \<and> status i (regs e) AND TX_BD_READY = 0
      then e\<lparr>tx_keys := (tx_keys e)(i := 0), released := released e @ [tx_keys e i]\<rparr> else e)"

definition oeth_txdone :: "oeth_cfg \<Rightarrow> oeth \<Rightarrow> oeth option" where
  "oeth_txdone cfg e = map_option (fold release_key [0..<OETH_TXBD_NUM cfg]) (oeth_tx cfg e)"

definition openeth_can_send :: "oeth \<Rightarrow> bool" where
  "openeth_can_send e \<longleftrightarrow> \<not> tx_full e"

fun copy_sg :: "nat \<Rightarrow> bytes list \<Rightarrow> (nat \<Rightarrow> u8) \<Rightarrow> nat \<Rightarrow> u8" where
  "copy_sg to_addr [] m = m"
| "copy_sg to_addr (b # sg_list) m = copy_sg (to_addr + length b) sg_list (store to_addr b m)"

definition openeth_send :: "oeth_cfg \<Rightarrow> bytes list \<Rightarrow> int \<Rightarrow> u32 \<Rightarrow> oeth \<Rightarrow> oeth" where
  "openeth_send cfg sg_list total_len key e =
     (let k = tx_next e;
          o1 = e\<lparr>tx_keys := (tx_keys e)(k := key)\<rparr>
      in if TX_BD_READY AND status k (regs o1) \<noteq> 0 then o1
         else if tx_full o1 then o1
         else
           (let m2 = status_and k (NOT TX_BD_STATS) (regs o1);
                m3 = (if total_len \<le> ETH_ZLEN then status_or k TX_BD_PAD m2 else status_and k (NOT TX_BD_PAD) m2)
            in if total_len > int OETH_MAX_FRAME_SIZE then o1\<lparr>regs := m3\<rparr>
               else
                 (let m4 = m3\<lparr>ram := copy_sg (bd_addr (bds m3 k)) sg_list (ram m3)\<rparr>;
                      m5 = write_status k ((status k m4 AND 0xFFFF) OR push_bit 16 (word_of_int total_len)) m4;
                      nxt = (if k + 1 \<ge> OETH_TXBD_NUM cfg then 0 else k + 1);
                      m6 = (if OETH_TXBD_NUM cfg = 1 then write_moder (moder m5 AND NOT MODER_TXEN) m5 else m5);
                      m7 = status_or k (TX_BD_READY OR TX_BD_IRQ OR TX_BD_CRC) m6;
                      m8 = (if OETH_TXBD_NUM cfg = 1 then write_moder (moder m7 OR MODER_TXEN) m7 else m7)
                  in o1\<lparr>regs := m8, tx_next := nxt, tx_full := (if nxt = tx_last o1 then True else tx_full o1)\<rparr>)))"

subsection \<open>Reception\<close>

definition packetLength :: "u32 \<Rightarrow> int" where
  "packetLength st = sint st div 2 ^ 16"

text \<open>Copying a packet into the stack's buffers; the first component is whether the routine got to its end.\<close>

fun recv_copy :: "(nat \<Rightarrow> u8) \<Rightarrow> nat \<Rightarrow> int \<Rightarrow> (bool \<times> int) list \<Rightarrow> bool \<times> bytes" where
  "recv_copy m from_addr pkt_len [] = (True, [])"
| "recv_copy m from_addr pkt_len ((null, len) # sg_list) =
     (if null \<or> len \<le> 0 then (False, [])
      else
        (let len = min len pkt_len;
             (fin, rest) = recv_copy m (from_addr + nat len) (pkt_len - len) sg_list
         in (fin, load m from_addr (nat len) @ rest)))"

definition openeth_recv :: "oeth_cfg \<Rightarrow> (bool \<times> int) list \<Rightarrow> oeth \<Rightarrow> oeth" where
  "openeth_recv cfg sg_list e =
     (let k = OETH_TXBD_NUM cfg + rx_cur e;
          (fin, data) = recv_copy (ram (regs e)) (bd_addr (bds (regs e) k)) (packetLength (status k (regs e))) sg_list;
          o1 = e\<lparr>delivered := delivered e @ [data]\<rparr>
      in if fin then o1\<lparr>stats := (stats o1)\<lparr>rx_packets := rx_packets (stats o1) + 1\<rparr>\<rparr> else o1)"

text \<open>The checks of a received packet; \<open>bad\<close> is set by them and never reset.\<close>

definition rx_check :: "u32 \<Rightarrow> bool \<Rightarrow> net_device_stats \<Rightarrow> bool \<times> net_device_stats" where
  "rx_check st bad s =
     (let (bad, s) = (if st AND (RX_BD_TOOLONG OR RX_BD_SHORT) \<noteq> 0 then (True, s\<lparr>rx_length_errors := rx_length_errors s + 1\<rparr>) else (bad, s));
          (bad, s) = (if st AND RX_BD_DRIBBLE \<noteq> 0 then (True, s\<lparr>rx_frame_errors := rx_frame_errors s + 1\<rparr>) else (bad, s));
          (bad, s) = (if st AND RX_BD_CRCERR \<noteq> 0 then (True, s\<lparr>rx_crc_errors := rx_crc_errors s + 1\<rparr>) else (bad, s));
          (bad, s) = (if st AND RX_BD_OVERRUN \<noteq> 0 then (True, s\<lparr>rx_crc_errors := rx_crc_errors s + 1\<rparr>) else (bad, s));
          (bad, s) = (if st AND RX_BD_LATECOL \<noteq> 0 then (True, s\<lparr>rx_frame_errors := rx_frame_errors s + 1\<rparr>) else (bad, s));
          (bad, s) = (if \<not> bad \<and> packetLength st < 64 then (True, s\<lparr>rx_crc_errors := rx_crc_errors s + 1\<rparr>) else (bad, s))
      in if st AND RX_BD_MISS \<noteq> 0 then (True, s\<lparr>rx_crc_errors := rx_crc_errors s + 1\<rparr>) else (bad, s))"

text \<open>One round of the receive loop: the packet of the current descriptor, which then goes back to the MAC.\<close>

definition rx_round :: "oeth_cfg \<Rightarrow> bool \<Rightarrow> oeth \<Rightarrow> bool \<times> oeth" where
  "rx_round cfg bad e =
     (let k = OETH_TXBD_NUM cfg + rx_cur e;
          st = status k (regs e);
          (bad1, s1) = rx_check st bad (stats e);
          o1 = e\<lparr>stats := s1\<rparr>;
          o2 = (if \<not> bad1 then openeth_recv cfg (oalloc cfg (nat (packetLength st))) o1 else o1);
          nxt = (if rx_cur o2 + 1 \<ge> OETH_RXBD_NUM cfg then 0 else rx_cur o2 + 1);
          o3 = o2\<lparr>rx_cur := nxt\<rparr>
      in (bad1, on_regs (write_status k (RX_BD_EMPTY OR RX_BD_IRQ OR (if nxt = 0 then RX_BD_WRAP else 0))) o3))"

lemma rx_round_regs:
  "regs (snd (rx_round cfg bad e)) =
     write_status (OETH_TXBD_NUM cfg + rx_cur e)
       (RX_BD_EMPTY OR RX_BD_IRQ OR (if rx_cur e + 1 \<ge> OETH_RXBD_NUM cfg then RX_BD_WRAP else 0)) (regs e)"
  "rx_cur (snd (rx_round cfg bad e)) = (if rx_cur e + 1 \<ge> OETH_RXBD_NUM cfg then 0 else rx_cur e + 1)"
  by (simp_all add: rx_round_def openeth_recv_def Let_def split: prod.split)

text \<open>The descriptors that still hold a packet; every round empties one.\<close>

definition rx_filled :: "oeth_cfg \<Rightarrow> oeth \<Rightarrow> nat set" where
  "rx_filled cfg e =
     {i. (i < max 1 (OETH_RXBD_NUM cfg) \<or> i = rx_cur e) \<and> status (OETH_TXBD_NUM cfg + i) (regs e) AND RX_BD_EMPTY = 0}"

lemma rx_round_empties:
  assumes "status (OETH_TXBD_NUM cfg + rx_cur e) (regs e) AND RX_BD_EMPTY = 0"
  shows "card (rx_filled cfg (snd (rx_round cfg bad e))) < card (rx_filled cfg e)"
proof (rule psubset_card_mono)
  let ?e = "snd (rx_round cfg bad e)"
  have "{i. i < max 1 (OETH_RXBD_NUM cfg) \<or> i = rx_cur e} = {..<max 1 (OETH_RXBD_NUM cfg)} \<union> {rx_cur e}" by auto
  then show "finite (rx_filled cfg e)" unfolding rx_filled_def by (simp add: finite_Collect_conjI)
  have "rx_cur e \<notin> rx_filled cfg ?e"
    by (auto simp: rx_filled_def rx_round_regs status_def write_status_def and.assoc)
  moreover have "rx_cur e \<in> rx_filled cfg e" using assms by (simp add: rx_filled_def)
  moreover have "rx_filled cfg ?e \<subseteq> rx_filled cfg e"
    by (auto simp: rx_filled_def rx_round_regs status_def write_status_def split: if_splits)
  ultimately show "rx_filled cfg ?e \<subset> rx_filled cfg e" by blast
qed

function rx_loop :: "oeth_cfg \<Rightarrow> bool \<Rightarrow> oeth \<Rightarrow> oeth" where
  "rx_loop cfg bad e =
     (if status (OETH_TXBD_NUM cfg + rx_cur e) (regs e) AND RX_BD_EMPTY \<noteq> 0 then e
      else rx_loop cfg (fst (rx_round cfg bad e)) (snd (rx_round cfg bad e)))"
  by auto
termination
  by (relation "measure (\<lambda>(cfg, bad, e). card (rx_filled cfg e))") (auto simp: rx_round_empties case_prod_beta)

declare rx_loop.simps [simp del]

definition openeth_rxready :: "oeth_cfg \<Rightarrow> oeth \<Rightarrow> oeth" where
  "openeth_rxready cfg e = rx_loop cfg False e"

subsection \<open>Interrupts\<close>

text \<open>The handler returns whether the deferred part is to run.\<close>

definition eth_isr :: "oeth \<Rightarrow> bool \<times> oeth" where
  "eth_isr e =
     (let int_events = int_src (regs e);
          o1 = on_regs (write_int_src int_events) e;
          calldsr = int_events AND (INT_RXF OR INT_RXE) \<noteq> 0 \<or> int_events AND (INT_TXB OR INT_TXE) \<noteq> 0 \<or> int_events AND INT_BUSY \<noteq> 0
      in (calldsr, if calldsr then o1\<lparr>irq_masked := True\<rparr> else o1))"

definition openeth_deliver :: "oeth_cfg \<Rightarrow> oeth \<Rightarrow> oeth option" where
  "openeth_deliver cfg e = map_option (\<lambda>o1. o1\<lparr>irq_masked := False\<rparr>) (oeth_txdone cfg (openeth_rxready cfg e))"

definition openeth_poll :: "oeth_cfg \<Rightarrow> oeth \<Rightarrow> oeth option" where
  "openeth_poll cfg e = openeth_deliver cfg (snd (eth_isr e))"

subsection \<open>Control\<close>

definition eth_get_mac_address :: "oeth \<Rightarrow> bytes" where
  "eth_get_mac_address e =
     (let m1 = mac_addr1 (regs e); m0 = mac_addr0 (regs e)
      in [ucast (drop_bit 8 m1), ucast m1, ucast (drop_bit 24 m0), ucast (drop_bit 16 m0), ucast (drop_bit 8 m0), ucast m0])"

definition addr_high :: "bytes \<Rightarrow> u32" where
  "addr_high a = push_bit 8 (ucast (a ! 0)) OR ucast (a ! 1)"

definition addr_low :: "bytes \<Rightarrow> u32" where
  "addr_low a = push_bit 24 (ucast (a ! 2)) OR push_bit 16 (ucast (a ! 3)) OR push_bit 8 (ucast (a ! 4)) OR ucast (a ! 5)"

definition eth_set_mac_address :: "bytes \<Rightarrow> oeth \<Rightarrow> int \<times> oeth" where
  "eth_set_mac_address addr e =
     (1, on_regs (\<lambda>m. m\<lparr>mac_addr1 := addr_high addr, mac_addr0 := addr_low addr\<rparr>) (e\<lparr>dev_addr := map (\<lambda>i. addr ! i) [0..<6]\<rparr>))"

definition calc_crc :: "bytes \<Rightarrow> nat" where
  "calc_crc mac_addr = 0"

text \<open>\<open>None\<close> is the null pointer that stands for no list.\<close>

definition add_multicast :: "bytes \<Rightarrow> ethermac \<Rightarrow> ethermac" where
  "add_multicast a m =
     (if a ! 0 AND 1 = 0 then m
      else if calc_crc a \<ge> 32 then m\<lparr>hash_addr1 := hash_addr1 m OR push_bit (calc_crc a - 32) 1\<rparr>
      else m\<lparr>hash_addr0 := hash_addr0 m OR push_bit (calc_crc a) 1\<rparr>)"

definition oeth_set_multicast_list :: "bytes list option \<Rightarrow> oeth \<Rightarrow> oeth" where
  "oeth_set_multicast_list mcl e =
     (if promisc e then on_regs (\<lambda>m. write_moder (moder m OR MODER_PRO) m) e
      else
        (let o1 = on_regs (\<lambda>m. write_moder (moder m AND NOT MODER_PRO) m) e
         in if multicast_all o1 then on_regs (\<lambda>m. m\<lparr>hash_addr0 := 0xFFFFFFFF, hash_addr1 := 0xFFFFFFFF\<rparr>) o1
            else case mcl of
                None \<Rightarrow> o1
              | Some addrs \<Rightarrow>
                  (if addrs = [] then o1
                   else on_regs (\<lambda>m. fold add_multicast addrs ((write_moder (moder m OR MODER_IAM) m)\<lparr>hash_addr0 := 0\<rparr>)) o1)))"

datatype oeth_key = OSET_MC_LIST "bytes list" | OSET_MC_ALL | OSET_MAC_ADDRESS bytes | OGET_MAC_ADDRESS | OUNKNOWN

text \<open>The result code, and the address that is read.\<close>

definition openeth_ioctl :: "oeth_key \<Rightarrow> oeth \<Rightarrow> (int \<times> bytes option) \<times> oeth" where
  "openeth_ioctl key e =
     (case key of
        OSET_MC_LIST addrs \<Rightarrow> ((0, None), oeth_set_multicast_list (Some addrs) (e\<lparr>multicast_all := False\<rparr>))
      | OSET_MC_ALL \<Rightarrow> ((0, None), oeth_set_multicast_list None (e\<lparr>multicast_all := True\<rparr>))
      | OSET_MAC_ADDRESS addr \<Rightarrow>
          (if length addr \<noteq> 6 then ((-2, None), e)
           else (let (r, o1) = eth_set_mac_address addr e in ((r, None), o1)))
      | OGET_MAC_ADDRESS \<Rightarrow> ((0, Some (eth_get_mac_address e)), e)
      | OUNKNOWN \<Rightarrow> ((-1, None), e))"

subsection \<open>The management interface\<close>

partial_function (option) mii_wait :: "ethermac \<Rightarrow> ethermac option" where
  "mii_wait m = (let (tmp, m1) = read_miistatus m in if tmp AND MIISTATUS_BUSY \<noteq> 0 then mii_wait m1 else Some m1)"

definition read_mii :: "u32 \<Rightarrow> u32 \<Rightarrow> ethermac \<Rightarrow> (u32 \<times> ethermac) option" where
  "read_mii phy addr m =
     do {
       m1 \<leftarrow> mii_wait m;
       m2 \<leftarrow> mii_wait (write_miicommand MIICOMMAND_RSTAT (m1\<lparr>miiaddress := push_bit 8 addr OR phy\<rparr>));
       let (tmp, m3) = read_miistatus m2;
       Some (if tmp AND MIISTATUS_NVALID = 0 then miirx_data m3 else 0, m3)
     }"

definition write_mii :: "u32 \<Rightarrow> u32 \<Rightarrow> u32 \<Rightarrow> ethermac \<Rightarrow> ethermac option" where
  "write_mii phy addr data m =
     do {
       m1 \<leftarrow> mii_wait m;
       mii_wait (write_miicommand MIICOMMAND_WCTRLDATA (m1\<lparr>miiaddress := push_bit 8 addr OR phy, miitx_data := data\<rparr>))
     }"

subsection \<open>Initialisation\<close>

text \<open>\<open>macstart\<close> is the station address in flash; neither erased flash nor zeros are one.\<close>

definition got_mac :: "bytes \<Rightarrow> bool" where
  "got_mac macstart \<longleftrightarrow> (\<exists>i \<in> {0..<6}. macstart ! i \<noteq> 0xFF) \<and> (\<exists>i \<in> {0..<6}. macstart ! i \<noteq> 0)"

definition init_bds :: "oeth_cfg \<Rightarrow> ethermac \<Rightarrow> ethermac" where
  "init_bds cfg m =
     (let nt = OETH_TXBD_NUM cfg; nr = OETH_RXBD_NUM cfg;
          m1 = fold (\<lambda>i m. write_addr i (txbuff cfg + i * slot_size cfg) (write_status i (TX_BD_PAD OR TX_BD_CRC OR TX_BD_IRQ) m)) [0..<nt] m;
          m2 = status_or (nt - 1) TX_BD_WRAP m1;
          m3 = fold (\<lambda>i m. write_addr (nt + i) (rxbuff cfg + i * slot_size cfg) (write_status (nt + i) (RX_BD_EMPTY OR RX_BD_IRQ) m)) [0..<nr] m2
      in status_or (nt + nr - 1) RX_BD_WRAP m3)"

definition openeth_device_init :: "oeth_cfg \<Rightarrow> bytes \<Rightarrow> oeth \<Rightarrow> bool \<times> oeth" where
  "openeth_device_init cfg macstart e =
     (let o1 = e\<lparr>found := True\<rparr>
      in if \<not> got_mac macstart then (False, o1)
         else
           (let m1 = write_moder 0 (write_moder 0x800 ((regs o1)\<lparr>ctrlmoder := 0\<rparr>));
                m2 = m1\<lparr>tx_bd_num := of_nat (OETH_TXBD_NUM cfg), packet_len := 0x00400600, ipgt := 0x12, ipgr1 := 0xC, ipgr2 := 0x12,
                       collconf := 0x000F003F, ctrlmoder := 0\<rparr>;
                m3 = (init_bds cfg m2)\<lparr>mac_addr1 := addr_high macstart, mac_addr0 := addr_low macstart\<rparr>;
                m4 = write_moder 0xE440 (write_int_src 0xFFFFFFFF m3)
            in (True, o1\<lparr>dev_addr := map (\<lambda>i. macstart ! i) [0..<6], rx_cur := 0, tx_next := 0, tx_last := 0, tx_full := False,
                  regs := m4\<lparr>int_mask := 0x7F\<rparr>\<rparr>)))"

end
