(* ===== verification/Mac_Ring.thy ===== *)
theory Mac_Ring
  imports Ethermac
begin

text \<open>
  The two descriptor rings of the OpenCores MAC as queues: \<open>tx_ring\<close> says which frames wait for transmission,
  \<open>rx_ring\<close> which received frames wait for the driver, and every action of the MAC, and what a driver
  does to a descriptor, is shown to act on these queues. The theory also carries the facts about positions in a ring.
\<close>

unbundle bit_operations_syntax

named_theorems mac_simps "register and descriptor accesses"

subsection \<open>Flags\<close>

lemma flag_bits [mac_simps]:
  "st AND 0x8000 = 0 \<longleftrightarrow> \<not> bit (st :: u32) 15" "st AND 0x2000 = 0 \<longleftrightarrow> \<not> bit st 13" "st AND 2 = 0 \<longleftrightarrow> \<not> bit st 1" "st AND 1 = 0 \<longleftrightarrow> \<not> bit st 0"
  using and_exp_eq_0_iff_not_bit [of st 15] and_exp_eq_0_iff_not_bit [of st 13] and_exp_eq_0_iff_not_bit [of st 1]
    and_exp_eq_0_iff_not_bit [of st 0]
  by simp_all

lemma status_write [mac_simps]: "status k (write_status k' v m) = (if k = k' then v else status k m)"
  by (simp add: status_def write_status_def)

lemma write_status_keeps [mac_simps]:
  "bd_addr (bds (write_status k v m) i) = bd_addr (bds m i)" "ram (write_status k v m) = ram m" "hw_tx (write_status k v m) = hw_tx m"
  "hw_rx (write_status k v m) = hw_rx m" "sent (write_status k v m) = sent m" "moder (write_status k v m) = moder m"
  "tx_bd_num (write_status k v m) = tx_bd_num m"
  by (simp_all add: write_status_def)

lemma status_update [mac_simps]:
  "status k (m\<lparr>ram := x\<rparr>) = status k m" "status k (m\<lparr>int_src := w\<rparr>) = status k m" "status k (m\<lparr>moder := w\<rparr>) = status k m"
  "status k (m\<lparr>hw_tx := n\<rparr>) = status k m" "status k (m\<lparr>hw_rx := n\<rparr>) = status k m" "status k (m\<lparr>sent := fs\<rparr>) = status k m"
  by (simp_all add: status_def)

lemma write_moder_keeps [mac_simps]:
  "status k (write_moder v m) = status k m" "bds (write_moder v m) = bds m" "ram (write_moder v m) = ram m" "sent (write_moder v m) = sent m"
  "moder (write_moder v m) = v" "tx_bd_num (write_moder v m) = tx_bd_num m"
  "hw_tx (write_moder v m) = (if bit v 1 then hw_tx m else 0)" "hw_rx (write_moder v m) = (if bit v 0 then hw_rx m else 0)"
  by (simp_all add: write_moder_def status_def flag_bits)

subsection \<open>Positions in a ring\<close>

lemma ring_inj_le:
  assumes "(l + i) mod n = (l + j) mod n" "i \<le> j" "j < (n :: nat)"
  shows "i = j"
proof -
  have "n dvd (l + j) - (l + i)" using assms(1,2) mod_eq_dvd_iff_nat [of "l + i" "l + j" n] by simp
  then have "n dvd j - i" by simp
  then show ?thesis using assms(2,3) dvd_imp_le [of n "j - i"] by (cases "j - i = 0") auto
qed

lemma ring_inj:
  assumes "i < n" "j < (n :: nat)"
  shows "(l + i) mod n = (l + j) mod n \<longleftrightarrow> i = j"
  using assms ring_inj_le [of l i n j] ring_inj_le [of l j n i] by (cases "i \<le> j") auto

lemma ring_cover:
  assumes "i < n" "l < (n :: nat)"
  shows "\<exists>j<n. i = (l + j) mod n"
proof (cases "l \<le> i")
  case True
  then show ?thesis using assms by (intro exI [of _ "i - l"]) auto
next
  case False
  then have "(l + (n - l + i)) mod n = i" using assms by simp
  then show ?thesis using False assms by (intro exI [of _ "n - l + i"]) auto
qed

subsection \<open>Frames waiting for transmission\<close>

text \<open>
  Of \<open>N\<close> descriptors, starting from the driver's position \<open>l\<close>, the first \<open>a\<close> are sent and not yet collected, the
  following ones hold the frames \<open>fs\<close> in order, the rest are free. The MAC is at the first frame.
\<close>

definition tx_slot :: "nat \<Rightarrow> ethermac \<Rightarrow> nat \<Rightarrow> bytes \<Rightarrow> bool" where
  "tx_slot N m i f \<longleftrightarrow> (bit (status i m) 13 \<longleftrightarrow> i = N - 1) \<and> load (ram m) (bd_addr (bds m i)) (unat (drop_bit 16 (status i m))) = f"

definition tx_ring :: "nat \<Rightarrow> nat \<Rightarrow> nat \<Rightarrow> bytes list \<Rightarrow> ethermac \<Rightarrow> bool" where
  "tx_ring N l a fs m \<longleftrightarrow>
     l < N \<and> a + length fs \<le> N \<and> hw_tx m = (l + a) mod N \<and> (fs \<noteq> [] \<longrightarrow> bit (moder m) 1) \<and>
     (\<forall>j<N. bit (status ((l + j) mod N) m) 15 \<longleftrightarrow> a \<le> j \<and> j < a + length fs) \<and>
     (\<forall>j<length fs. tx_slot N m ((l + a + j) mod N) (fs ! j))"

lemma tx_ringD:
  assumes "tx_ring N l a fs m"
  shows "l < N" "a + length fs \<le> N" "hw_tx m = (l + a) mod N" "fs \<noteq> [] \<Longrightarrow> bit (moder m) 1"
    "j < N \<Longrightarrow> bit (status ((l + j) mod N) m) 15 \<longleftrightarrow> a \<le> j \<and> j < a + length fs"
    "j < length fs \<Longrightarrow> tx_slot N m ((l + a + j) mod N) (fs ! j)"
  using assms by (auto simp: tx_ring_def)

lemma ring_next_mod: "(bit st 13 \<longleftrightarrow> k mod N = N - 1) \<Longrightarrow> 0 < N \<Longrightarrow> ring_next st (k mod N) = Suc k mod N"
  using mod_less_divisor [of N k] by (auto simp: ring_next_def flag_bits mod_Suc)

lemma tx_ring_idle: "tx_ring N l a [] m \<Longrightarrow> mac_transmit st m = m"
proof -
  assume t: "tx_ring N l a [] m"
  have "\<not> bit (status ((l + a) mod N) m) 15"
  proof (cases "a < N")
    case True
    then show ?thesis using t by (simp add: tx_ring_def)
  next
    case False
    then have "a = N" using t by (simp add: tx_ring_def)
    then have "(l + a) mod N = (l + 0) mod N" by simp
    then show ?thesis using t \<open>a = N\<close> unfolding tx_ring_def by (metis le_zero_eq less_nat_zero_code not_less_zero gr_zeroI add_0_right)
  qed
  then show ?thesis using t by (simp add: mac_transmit_def tx_ring_def status_def [symmetric] flag_bits Let_def)
qed

lemma tx_ring_transmit:
  assumes "tx_ring N l a (f # fs) m"
  shows "tx_ring N l (Suc a) fs (mac_transmit st m)" "sent (mac_transmit st m) = sent m @ [f]"
proof -
  let ?k = "(l + a) mod N" and ?m = "mac_transmit st m"
  have N: "0 < N" "a < N" "a + Suc (length fs) \<le> N" using assms by (auto simp: tx_ring_def)
  have k: "hw_tx m = ?k" "bit (status ?k m) 15" "bit (moder m) 1" "bit (status ?k m) 13 \<longleftrightarrow> ?k = N - 1"
      "load (ram m) (bd_addr (bds m ?k)) (unat (drop_bit 16 (status ?k m))) = f"
    using tx_ringD(3,4) [OF assms] tx_ringD(5) [OF assms N(2)] tx_ringD(6) [OF assms, of 0] by (auto simp: tx_slot_def)
  define v where "v = (status ?k m AND NOT TX_BD_READY) OR (st AND TX_BD_STATS)"
  have m: "?m = (write_status ?k v m)\<lparr>sent := sent m @ [f], hw_tx := Suc (l + a) mod N, int_src := int_src ?m\<rparr>"
    using k ring_next_mod [OF k(4) N(1)]
    by (simp add: mac_transmit_def v_def Let_def flag_bits status_def [symmetric] k(1) [symmetric])
  have v: "\<not> bit v 15" by (simp add: v_def bit_simps)
  have st: "status i ?m = (if i = ?k then v else status i m)" for i
    by (subst m) (simp add: mac_simps)
  show "sent ?m = sent m @ [f]" by (subst m) simp
  have other: "(l + Suc a + j) mod N \<noteq> ?k" if "j < length fs" for j
    using ring_inj [of "Suc a + j" N a l] that N(3) by (simp add: add.assoc)
  have ready: "bit (status ((l + j) mod N) ?m) 15 \<longleftrightarrow> Suc a \<le> j \<and> j < Suc a + length fs" if "j < N" for j
  proof (cases "j = a")
    case True
    then show ?thesis by (simp add: st v)
  next
    case False
    then have "(l + j) mod N \<noteq> ?k" using ring_inj [of j N a l] that N by simp
    moreover have "bit (status ((l + j) mod N) m) 15 \<longleftrightarrow> a \<le> j \<and> j < a + length (f # fs)"
      using assms that by (simp add: tx_ring_def)
    ultimately show ?thesis using False by (auto simp: st)
  qed
  have frames: "tx_slot N ?m ((l + Suc a + j) mod N) (fs ! j)" if "j < length fs" for j
  proof -
    have "ram ?m = ram m" "bd_addr (bds ?m i) = bd_addr (bds m i)" for i by (subst m, simp add: mac_simps)+
    then show ?thesis using tx_ringD(6) [OF assms, of "Suc j"] that other [OF that] by (simp add: st tx_slot_def)
  qed
  have "hw_tx ?m = (l + Suc a) mod N" "moder ?m = moder m" by (subst m, simp add: mac_simps)+
  then show "tx_ring N l (Suc a) fs ?m"
    unfolding tx_ring_def using assms N ready frames k(3) by (auto simp: tx_ring_def)
qed

lemma tx_ring_collect:
  assumes "tx_ring N l (Suc a) fs m"
  shows "tx_ring N (Suc l mod N) a fs m"
proof -
  have N: "0 < N" "Suc a + length fs \<le> N" using tx_ringD(1,2) [OF assms] by auto
  have shift: "(Suc l mod N + j) mod N = (l + Suc j) mod N" for j by (simp add: mod_add_left_eq)
  have "bit (status ((l + Suc j) mod N) m) 15 \<longleftrightarrow> a \<le> j \<and> j < a + length fs" if "j < N" for j
  proof (cases "Suc j < N")
    case True
    then show ?thesis using tx_ringD(5) [OF assms, of "Suc j"] by auto
  next
    case False
    then have "Suc j = N" using that by simp
    then have "(l + Suc j) mod N = (l + 0) mod N" by simp
    then have "\<not> bit (status ((l + Suc j) mod N) m) 15" using tx_ringD(5) [OF assms N(1)] by simp
    then show ?thesis using N(2) \<open>Suc j = N\<close> by auto
  qed
  moreover have "tx_slot N m ((Suc l mod N + a + j) mod N) (fs ! j)" if "j < length fs" for j
    using tx_ringD(6) [OF assms that] shift [of "a + j"] by (simp add: add.assoc)
  moreover have "hw_tx m = (Suc l mod N + a) mod N" using tx_ringD(3) [OF assms] shift [of a] by simp
  ultimately show ?thesis using N tx_ringD(4) [OF assms] by (simp add: tx_ring_def shift)
qed

lemma tx_ring_put:
  assumes "tx_ring N l a fs m" "a + length fs < N" "k = (l + a + length fs) mod N"
    and "hw_tx m' = hw_tx m" "bit (moder m') 1" "bit (status k m') 15" "tx_slot N m' k f"
    and "\<And>i. i < N \<Longrightarrow> i \<noteq> k \<Longrightarrow> status i m' = status i m"
    and "\<And>i g. i < N \<Longrightarrow> i \<noteq> k \<Longrightarrow> g \<in> set fs \<Longrightarrow> tx_slot N m i g \<Longrightarrow> tx_slot N m' i g"
  shows "tx_ring N l a (fs @ [f]) m'"
proof -
  have N: "0 < N" using assms(2) by simp
  have neq: "(l + j) mod N \<noteq> k" if "j < N" "j \<noteq> a + length fs" for j
    using ring_inj [of j N "a + length fs" l] that assms(2,3) by (simp add: add.assoc)
  have "bit (status ((l + j) mod N) m') 15 \<longleftrightarrow> a \<le> j \<and> j < Suc (a + length fs)" if "j < N" for j
  proof (cases "j = a + length fs")
    case True
    then show ?thesis using assms(3,6) by (simp add: add.assoc)
  next
    case False
    then show ?thesis using assms(8) [of "(l + j) mod N"] neq [OF that False] tx_ringD(5) [OF assms(1) that] N by auto
  qed
  moreover have "tx_slot N m' ((l + a + j) mod N) ((fs @ [f]) ! j)" if "j < Suc (length fs)" for j
  proof (cases "j < length fs")
    case True
    then have "(l + a + j) mod N \<noteq> k" using neq [of "a + j"] assms(2) by (simp add: add.assoc)
    then show ?thesis using assms(9) [of "(l + a + j) mod N"] tx_ringD(6) [OF assms(1) True] True N by (simp add: nth_append)
  next
    case False
    then have "j = length fs" using that by simp
    then show ?thesis using assms(3,7) by simp
  qed
  ultimately show ?thesis using assms(2,4,5) tx_ringD(1,3) [OF assms(1)] by (simp add: tx_ring_def)
qed

lemma tx_ring_keep:
  assumes "tx_ring N l a fs m" "hw_tx m' = hw_tx m" "bit (moder m) 1 \<Longrightarrow> bit (moder m') 1"
    and "\<And>i. i < N \<Longrightarrow> status i m' = status i m"
    and "\<And>j. j < length fs \<Longrightarrow> tx_slot N m' ((l + a + j) mod N) (fs ! j)"
  shows "tx_ring N l a fs m'"
  using assms tx_ringD(1) [OF assms(1)] by (auto simp: tx_ring_def)

lemma tx_ring_same:
  assumes "tx_ring N l a fs m" "hw_tx m' = hw_tx m" "bit (moder m) 1 \<Longrightarrow> bit (moder m') 1"
    and "\<And>i. i < N \<Longrightarrow> status i m' = status i m"
    and "\<And>i g. i < N \<Longrightarrow> g \<in> set fs \<Longrightarrow> tx_slot N m i g \<Longrightarrow> tx_slot N m' i g"
  shows "tx_ring N l a fs m'"
proof (rule tx_ring_keep [OF assms(1-4)])
  have N: "0 < N" using tx_ringD(1) [OF assms(1)] by simp
  show "tx_slot N m' ((l + a + j) mod N) (fs ! j)" if "j < length fs" for j
    using assms(5) [of "(l + a + j) mod N" "fs ! j"] tx_ringD(6) [OF assms(1) that] that N by simp
qed

subsection \<open>Frames waiting for the driver\<close>

text \<open>
  Of the \<open>R\<close> receive descriptors behind the first \<open>N\<close>, those from the driver's position \<open>c\<close> on hold the received
  frames \<open>ps\<close>, with the status of their reception; the others are empty. The MAC is behind the last frame.
\<close>

definition rx_slot :: "ethermac \<Rightarrow> nat \<Rightarrow> bytes \<times> u32 \<Rightarrow> bool" where
  "rx_slot m i p \<longleftrightarrow> load (ram m) (bd_addr (bds m i)) (length (fst p)) = fst p \<and> unat (drop_bit 16 (status i m)) = length (fst p) \<and>
     status i m AND RX_BD_STATS = snd p AND RX_BD_STATS"

definition far :: "nat \<Rightarrow> nat \<Rightarrow> nat \<Rightarrow> bool" where
  "far cap a b \<longleftrightarrow> a + cap \<le> b \<or> b + cap \<le> a"

definition rx_ring :: "nat \<Rightarrow> nat \<Rightarrow> nat \<Rightarrow> nat \<Rightarrow> (bytes \<times> u32) list \<Rightarrow> ethermac \<Rightarrow> bool" where
  "rx_ring cap N R c ps m \<longleftrightarrow>
     tx_bd_num m = of_nat N \<and> N < 2 ^ 32 \<and> c < R \<and> length ps \<le> R \<and> cap < 2 ^ 15 \<and> hw_rx m = (c + length ps) mod R \<and> bit (moder m) 0 \<and>
     (\<forall>j<R. bit (status (N + (c + j) mod R) m) 15 \<longleftrightarrow> length ps \<le> j) \<and>
     (\<forall>j<length ps. rx_slot m (N + (c + j) mod R) (ps ! j) \<and> length (fst (ps ! j)) \<le> cap) \<and>
     (\<forall>i<R. bit (status (N + i) m) 13 \<longleftrightarrow> i = R - 1) \<and>
     (\<forall>i<R. \<forall>j<R. i \<noteq> j \<longrightarrow> far cap (bd_addr (bds m (N + i))) (bd_addr (bds m (N + j))))"

lemma rx_ringD:
  assumes "rx_ring cap N R c ps m"
  shows "unat (tx_bd_num m) = N" "c < R" "length ps \<le> R" "hw_rx m = (c + length ps) mod R" "bit (moder m) 0" "cap < 2 ^ 15"
    "j < R \<Longrightarrow> bit (status (N + (c + j) mod R) m) 15 \<longleftrightarrow> length ps \<le> j"
    "j < length ps \<Longrightarrow> rx_slot m (N + (c + j) mod R) (ps ! j)" "j < length ps \<Longrightarrow> length (fst (ps ! j)) \<le> cap"
    "i < R \<Longrightarrow> bit (status (N + i) m) 13 \<longleftrightarrow> i = R - 1"
    "i < R \<Longrightarrow> i' < R \<Longrightarrow> i \<noteq> i' \<Longrightarrow> far cap (bd_addr (bds m (N + i))) (bd_addr (bds m (N + i')))"
  using assms by (auto simp: rx_ring_def unat_of_nat take_bit_nat_eq_self)

lemma load_store_far: "far cap a b \<Longrightarrow> length bs \<le> cap \<Longrightarrow> n \<le> cap \<Longrightarrow> load (store b bs m) a n = load m a n"
  by (rule load_store_other) (auto simp: far_def)

text \<open>The status word that the MAC writes.\<close>

definition rx_word :: "u32 \<Rightarrow> bytes \<Rightarrow> u32 \<Rightarrow> u32" where
  "rx_word old f st = push_bit 16 (of_nat (length f)) OR (old AND (RX_BD_IRQ OR RX_BD_WRAP)) OR (st AND RX_BD_STATS)"

lemma rx_word:
  assumes "length f < 2 ^ 16"
  shows "\<not> bit (rx_word old f st) 15" "bit (rx_word old f st) 13 \<longleftrightarrow> bit old 13" "rx_word old f st AND RX_BD_STATS = st AND RX_BD_STATS"
    "unat (drop_bit 16 (rx_word old f st)) = length f"
proof -
  have s: "(0xFF :: u32) = mask 8" "(0x4000 :: u32) = push_bit 14 1" "(0x2000 :: u32) = push_bit 13 1" by (simp_all add: mask_numeral)
  show "\<not> bit (rx_word old f st) 15" "bit (rx_word old f st) 13 \<longleftrightarrow> bit old 13"
    by (simp_all add: rx_word_def bit_simps)
  show "rx_word old f st AND RX_BD_STATS = st AND RX_BD_STATS"
    unfolding rx_word_def s by (rule bit_word_eqI) (auto simp: bit_simps simp del: mask_numeral push_bit_of_1)
  have "drop_bit 16 (rx_word old f st) = of_nat (length f)"
  proof (rule bit_word_eqI)
    fix n assume "n < LENGTH(32)"
    have "(of_nat (length f) :: u32) = take_bit 16 (of_nat (length f))"
      using assms by (simp add: take_bit_of_nat take_bit_nat_eq_self)
    then have "bit (of_nat (length f) :: u32) n \<Longrightarrow> n < 16" by (metis bit_take_bit_iff)
    then show "bit (drop_bit 16 (rx_word old f st)) n = bit (of_nat (length f) :: u32) n"
      unfolding rx_word_def s by (auto simp: bit_simps simp del: mask_numeral push_bit_of_1)
  qed
  then show "unat (drop_bit 16 (rx_word old f st)) = length f"
    using assms by (simp only: unsigned_of_nat) (simp add: take_bit_nat_eq_self)
qed

lemma rx_ring_receive:
  assumes "rx_ring cap N R c ps m" "length f \<le> cap" "length ps < R"
  shows "rx_ring cap N R c (ps @ [(f, st)]) (mac_receive f st m)"
proof -
  let ?i = "(c + length ps) mod R" and ?m = "mac_receive f st m"
  let ?k = "N + ?i"
  have R: "0 < R" using assms(3) by simp
  then have i: "?i < R" by simp
  note d = rx_ringD [OF assms(1)]
  have len: "length f < 2 ^ 16" using assms(2) d(6) by simp
  have e: "bit (status ?k m) 15" using d(7) [OF assms(3)] by simp
  have wrap: "bit (status ?k m) 13 \<longleftrightarrow> ?i = R - 1" using d(10) [OF i] .
  have m: "?m = (write_status ?k (rx_word (status ?k m) f st) m)\<lparr>ram := store (bd_addr (bds m ?k)) f (ram m),
      hw_rx := Suc (c + length ps) mod R, int_src := int_src ?m\<rparr>"
    using d(5) e ring_next_mod [OF wrap R]
    by (simp add: mac_receive_def Let_def d(1,4) flag_bits status_def [symmetric] rx_word_def)
  have st: "status i ?m = (if i = ?k then rx_word (status ?k m) f st else status i m)" for i by (subst m) (simp add: mac_simps)
  have ad: "bd_addr (bds ?m i) = bd_addr (bds m i)" for i by (subst m) (simp add: mac_simps)
  have rm: "ram ?m = store (bd_addr (bds m ?k)) f (ram m)" by (subst m) simp
  have rest: "hw_rx ?m = (c + length (ps @ [(f, st)])) mod R" "moder ?m = moder m" "tx_bd_num ?m = tx_bd_num m"
    by (subst m, simp add: mac_simps)+
  have neq: "(c + j) mod R \<noteq> ?i" if "j < R" "j \<noteq> length ps" for j
    using ring_inj [of j R "length ps" c] that assms(3) by simp
  have empty: "bit (status (N + (c + j) mod R) ?m) 15 \<longleftrightarrow> Suc (length ps) \<le> j" if "j < R" for j
    using d(7) [OF that] neq [OF that] rx_word(1) [OF len] by (cases "j = length ps") (auto simp: st)
  have frames: "rx_slot ?m (N + (c + j) mod R) ((ps @ [(f, st)]) ! j) \<and> length (fst ((ps @ [(f, st)]) ! j)) \<le> cap"
    if "j < Suc (length ps)" for j
  proof (cases "j < length ps")
    case True
    have n: "(c + j) mod R \<noteq> ?i" using neq [of j] True assms(3) by simp
    have "far cap (bd_addr (bds m (N + (c + j) mod R))) (bd_addr (bds m ?k))" using d(11) [OF _ i n] R by simp
    then have "load (ram ?m) (bd_addr (bds m (N + (c + j) mod R))) (length (fst (ps ! j))) =
        load (ram m) (bd_addr (bds m (N + (c + j) mod R))) (length (fst (ps ! j)))"
      unfolding rm using load_store_far d(9) [OF True] assms(2) by blast
    then show ?thesis using d(8,9) [OF True] True n by (simp add: rx_slot_def st ad nth_append)
  next
    case False
    then have "j = length ps" using that by simp
    then show ?thesis using rx_word [OF len] assms(2) by (simp add: rx_slot_def st ad rm)
  qed
  have "bit (status (N + i) ?m) 13 \<longleftrightarrow> i = R - 1" if "i < R" for i
    using d(10) [OF that] wrap rx_word(2) [OF len] by (auto simp: st)
  then show ?thesis
    using assms(1,3) rest empty frames d(11) unfolding rx_ring_def by (simp add: ad)
qed

lemma rx_ring_full:
  assumes "rx_ring cap N R c ps m" "length ps = R"
  shows "mac_receive f st m = m\<lparr>int_src := int_src m OR INT_BUSY\<rparr>"
proof -
  note d = rx_ringD [OF assms(1)]
  have "0 < R" using d(2) by simp
  then have "\<not> bit (status (N + (c + 0) mod R) m) 15" using d(7) [of 0] assms(2) by simp
  then show ?thesis using d(5) assms(2) by (simp add: mac_receive_def Let_def d(1,4) flag_bits status_def [symmetric])
qed

lemma rx_ring_take:
  assumes "rx_ring cap N R c (p # ps) m" "hw_rx m' = hw_rx m" "moder m' = moder m" "tx_bd_num m' = tx_bd_num m" "ram m' = ram m"
    and "bit (status (N + c) m') 15" "bit (status (N + c) m') 13 \<longleftrightarrow> c = R - 1"
    and "\<And>i. i \<noteq> N + c \<Longrightarrow> bds m' i = bds m i"
    and "\<And>i. i < R \<Longrightarrow> i \<noteq> c \<Longrightarrow> far cap (bd_addr (bds m' (N + c))) (bd_addr (bds m (N + i)))"
  shows "rx_ring cap N R (Suc c mod R) ps m'"
proof -
  note d = rx_ringD [OF assms(1)]
  have R: "0 < R" using d(2) by simp
  have shift: "(Suc c mod R + j) mod R = (c + Suc j) mod R" for j by (simp add: mod_add_left_eq)
  have st: "status i m' = status i m" if "i \<noteq> N + c" for i using assms(8) [OF that] by (simp add: status_def)
  have neq: "(c + j) mod R \<noteq> c" if "0 < j" "j < R" for j
    using ring_inj [of j R 0 c] that d(2) by simp
  have empty: "bit (status (N + (c + Suc j) mod R) m') 15 \<longleftrightarrow> length ps \<le> j" if "j < R" for j
  proof (cases "Suc j < R")
    case True
    then show ?thesis using neq [of "Suc j"] d(7) [of "Suc j"] st by auto
  next
    case False
    then have j: "Suc j = R" using that by simp
    then have "(c + Suc j) mod R = c" using d(2) by simp
    then show ?thesis using assms(6) d(3) j by simp
  qed
  have frames: "rx_slot m' (N + (c + Suc j) mod R) (ps ! j) \<and> length (fst (ps ! j)) \<le> cap" if "j < length ps" for j
  proof -
    have "(c + Suc j) mod R \<noteq> c" using neq [of "Suc j"] that d(3) by simp
    then show ?thesis using d(8,9) [of "Suc j"] that st assms(5,8) by (simp add: rx_slot_def)
  qed
  have wrap: "bit (status (N + i) m') 13 \<longleftrightarrow> i = R - 1" if "i < R" for i
    using d(10) [OF that] assms(7) st [of "N + i"] by (cases "i = c") auto
  have apart: "far cap (bd_addr (bds m' (N + i))) (bd_addr (bds m' (N + j)))" if "i < R" "j < R" "i \<noteq> j" for i j
    using assms(8) [of "N + i"] assms(8) [of "N + j"] assms(9) [of i] assms(9) [of j] d(11) [OF that] that
    by (cases "i = c"; cases "j = c") (auto simp: far_def)
  have "hw_rx m' = (c + Suc (length ps)) mod R" using assms(2) d(4) by simp
  then show ?thesis
    using assms(1,3,4) R empty frames wrap apart unfolding rx_ring_def shift by simp
qed

lemma rx_ring_same:
  assumes "rx_ring cap N R c ps m" "hw_rx m' = hw_rx m" "bit (moder m') 0" "tx_bd_num m' = tx_bd_num m"
    and "\<And>i. i < R \<Longrightarrow> bds m' (N + i) = bds m (N + i)"
    and "\<And>i p. i < R \<Longrightarrow> p \<in> set ps \<Longrightarrow> rx_slot m (N + i) p \<Longrightarrow> length (fst p) \<le> cap \<Longrightarrow> rx_slot m' (N + i) p"
  shows "rx_ring cap N R c ps m'"
proof -
  note d = rx_ringD [OF assms(1)]
  have R: "0 < R" using d(2) by simp
  have "rx_slot m' (N + (c + j) mod R) (ps ! j)" if "j < length ps" for j
    using assms(6) [OF _ nth_mem [OF that] d(8) [OF that] d(9) [OF that]] R by simp
  then show ?thesis using assms(1-5) R unfolding rx_ring_def by (simp add: status_def)
qed

subsection \<open>What the MAC leaves alone\<close>

lemma transmit_other:
  "k \<noteq> hw_tx m \<Longrightarrow> bds (mac_transmit st m) k = bds m k" "bd_addr (bds (mac_transmit st m) k) = bd_addr (bds m k)"
  "ram (mac_transmit st m) = ram m" "moder (mac_transmit st m) = moder m" "hw_rx (mac_transmit st m) = hw_rx m"
  "tx_bd_num (mac_transmit st m) = tx_bd_num m" "bit (status k (mac_transmit st m)) 13 \<longleftrightarrow> bit (status k m) 13"
  by (auto simp: mac_transmit_def Let_def write_status_def status_def bit_simps)

lemma receive_other:
  "k \<noteq> unat (tx_bd_num m) + hw_rx m \<Longrightarrow> bds (mac_receive f st m) k = bds m k" "bd_addr (bds (mac_receive f st m) k) = bd_addr (bds m k)"
  "moder (mac_receive f st m) = moder m" "hw_tx (mac_receive f st m) = hw_tx m" "tx_bd_num (mac_receive f st m) = tx_bd_num m"
  "sent (mac_receive f st m) = sent m"
  "ram (mac_receive f st m) = ram m \<or> ram (mac_receive f st m) = store (bd_addr (bds m (unat (tx_bd_num m) + hw_rx m))) f (ram m)"
  by (auto simp: mac_receive_def Let_def write_status_def status_def)

lemma tx_slot_len: "tx_slot N m i g \<Longrightarrow> unat (drop_bit 16 (status i m)) = length g"
  by (auto simp: tx_slot_def)

end
