(* ===== verification/Oeth_Correct.thy ===== *)
theory Oeth_Correct
  imports Oeth Mac_Ring "HOL-Library.Multiset"
begin

text \<open>
  What the OpenCores Ethernet driver achieves: under every interleaving of its routines with the actions of the MAC
  no packet is lost, duplicated or reordered on the way out; what happens to received packets; the keys
  of the stack; configuration.
\<close>

unbundle bit_operations_syntax

text \<open>The configurations that the driver is built for; the stack offers buffers of the length asked for.\<close>

definition oeth_ok :: "oeth_cfg \<Rightarrow> bool" where
  "oeth_ok cfg \<longleftrightarrow>
     0 < OETH_TXBD_NUM cfg \<and> 0 < OETH_RXBD_NUM cfg \<and> OETH_TXBD_NUM cfg + OETH_RXBD_NUM cfg \<le> 128 \<and>
     OETH_MAX_FRAME_SIZE \<le> slot_size cfg \<and> slot_size cfg < 2 ^ 15 \<and>
     (txbuff cfg + OETH_TXBD_NUM cfg * slot_size cfg \<le> rxbuff cfg \<or> rxbuff cfg + OETH_RXBD_NUM cfg * slot_size cfg \<le> txbuff cfg) \<and>
     (\<forall>n > 0. (\<forall>(null, len) \<in> set (oalloc cfg n). \<not> null \<and> 0 < len) \<and> (\<Sum>(null, len) \<leftarrow> oalloc cfg n. nat len) = n)"

lemma max_frame: "OETH_MAX_FRAME_SIZE = 1520"
  by (simp add: OETH_MAX_FRAME_SIZE_def)

definition oeth_inv :: "oeth_cfg \<Rightarrow> nat \<Rightarrow> bytes list \<Rightarrow> (bytes \<times> u32) list \<Rightarrow> oeth \<Rightarrow> bool" where
  "oeth_inv cfg a fs ps e \<longleftrightarrow>
     tx_ring (OETH_TXBD_NUM cfg) (tx_last e) a fs (regs e) \<and> rx_ring (slot_size cfg) (OETH_TXBD_NUM cfg) (OETH_RXBD_NUM cfg) (rx_cur e) ps (regs e) \<and>
     tx_next e = (tx_last e + a + length fs) mod OETH_TXBD_NUM cfg \<and> (tx_full e \<longleftrightarrow> a + length fs = OETH_TXBD_NUM cfg) \<and>
     (\<forall>i<OETH_TXBD_NUM cfg. (bit (status i (regs e)) 13 \<longleftrightarrow> i = OETH_TXBD_NUM cfg - 1) \<and> bd_addr (bds (regs e) i) = txbuff cfg + i * slot_size cfg) \<and>
     (\<forall>i<OETH_RXBD_NUM cfg. bd_addr (bds (regs e) (OETH_TXBD_NUM cfg + i)) = rxbuff cfg + i * slot_size cfg) \<and>
     (\<forall>f \<in> set fs. length f \<le> slot_size cfg) \<and> (1 < OETH_TXBD_NUM cfg \<longrightarrow> bit (moder (regs e)) 1)"

lemma oeth_invD:
  assumes "oeth_inv cfg a fs ps e"
  shows "tx_ring (OETH_TXBD_NUM cfg) (tx_last e) a fs (regs e)"
    "rx_ring (slot_size cfg) (OETH_TXBD_NUM cfg) (OETH_RXBD_NUM cfg) (rx_cur e) ps (regs e)"
    "tx_next e = (tx_last e + a + length fs) mod OETH_TXBD_NUM cfg" "tx_full e \<longleftrightarrow> a + length fs = OETH_TXBD_NUM cfg"
    "i < OETH_TXBD_NUM cfg \<Longrightarrow> bit (status i (regs e)) 13 \<longleftrightarrow> i = OETH_TXBD_NUM cfg - 1"
    "i < OETH_TXBD_NUM cfg \<Longrightarrow> bd_addr (bds (regs e) i) = txbuff cfg + i * slot_size cfg"
    "i < OETH_RXBD_NUM cfg \<Longrightarrow> bd_addr (bds (regs e) (OETH_TXBD_NUM cfg + i)) = rxbuff cfg + i * slot_size cfg"
    "f \<in> set fs \<Longrightarrow> length f \<le> slot_size cfg" "1 < OETH_TXBD_NUM cfg \<Longrightarrow> bit (moder (regs e)) 1"
  using assms by (auto simp: oeth_inv_def)

text \<open>The buffers do not overlap.\<close>

lemma slots_far: "i \<noteq> j \<Longrightarrow> far s (b + i * s) (b + j * s)"
proof -
  have "i < j \<Longrightarrow> i * s + s \<le> j * s" for i j :: nat
    using mult_le_mono1 [of "Suc i" j s] by simp
  then show "i \<noteq> j \<Longrightarrow> ?thesis" by (cases "i < j") (auto simp: far_def linorder_neq_iff add.assoc)
qed

lemma tx_rx_far:
  assumes "oeth_ok cfg" "i < OETH_TXBD_NUM cfg" "j < OETH_RXBD_NUM cfg"
  shows "far (slot_size cfg) (txbuff cfg + i * slot_size cfg) (rxbuff cfg + j * slot_size cfg)"
proof -
  have "i * slot_size cfg + slot_size cfg \<le> OETH_TXBD_NUM cfg * slot_size cfg" "j * slot_size cfg + slot_size cfg \<le> OETH_RXBD_NUM cfg * slot_size cfg"
    using mult_le_mono1 [of "Suc i" "OETH_TXBD_NUM cfg" "slot_size cfg"] mult_le_mono1 [of "Suc j" "OETH_RXBD_NUM cfg" "slot_size cfg"] assms(2,3)
    by simp_all
  then show ?thesis using assms(1) unfolding oeth_ok_def far_def by linarith
qed

subsection \<open>The MAC\<close>

lemma oeth_inv_transmit:
  assumes "oeth_inv cfg a (f # fs) ps e"
  shows "oeth_inv cfg (Suc a) fs ps (e\<lparr>regs := mac_transmit st (regs e)\<rparr>)" "sent (mac_transmit st (regs e)) = sent (regs e) @ [f]"
proof -
  note d = oeth_invD [OF assms]
  note t = tx_ring_transmit [OF d(1), of st]
  show "sent (mac_transmit st (regs e)) = sent (regs e) @ [f]" by (rule t(2))
  have "hw_tx (regs e) < OETH_TXBD_NUM cfg" using tx_ringD(1,3) [OF d(1)] by simp
  then have b: "bds (mac_transmit st (regs e)) (OETH_TXBD_NUM cfg + i) = bds (regs e) (OETH_TXBD_NUM cfg + i)" for i
    by (simp add: transmit_other(1))
  have "rx_ring (slot_size cfg) (OETH_TXBD_NUM cfg) (OETH_RXBD_NUM cfg) (rx_cur e) ps (mac_transmit st (regs e))"
    by (rule rx_ring_same [OF d(2)]) (use rx_ringD(5) [OF d(2)] b in \<open>simp_all add: transmit_other rx_slot_def status_def\<close>)
  then show "oeth_inv cfg (Suc a) fs ps (e\<lparr>regs := mac_transmit st (regs e)\<rparr>)"
    using assms t(1) by (simp add: oeth_inv_def transmit_other)
qed

lemma oeth_inv_receive:
  assumes "oeth_ok cfg" "oeth_inv cfg a fs ps e" "length f \<le> slot_size cfg" "length ps < OETH_RXBD_NUM cfg"
  shows "oeth_inv cfg a fs (ps @ [(f, st)]) (e\<lparr>regs := mac_receive f st (regs e)\<rparr>)"
proof -
  note d = oeth_invD [OF assms(2)]
  note r = rx_ringD [OF d(2)]
  let ?m = "mac_receive f st (regs e)" and ?N = "OETH_TXBD_NUM cfg" and ?j = "hw_rx (regs e)"
  have j: "?j < OETH_RXBD_NUM cfg" using assms(4) r(4) by simp
  have st: "status i ?m = status i (regs e)" if "i < ?N" for i using that by (simp add: status_def receive_other(1) r(1))
  have slot: "tx_slot ?N ?m i g" if i: "i < ?N" and g: "g \<in> set fs" "tx_slot ?N (regs e) i g" for i g
  proof -
    have "far (slot_size cfg) (bd_addr (bds (regs e) i)) (bd_addr (bds (regs e) (?N + ?j)))"
      using tx_rx_far [OF assms(1) i j] d(6) [OF i] d(7) [OF j] by simp
    then have "load (ram ?m) (bd_addr (bds (regs e) i)) (length g) = load (ram (regs e)) (bd_addr (bds (regs e) i)) (length g)"
      using receive_other(7) [of f st "regs e"] load_store_far d(8) [OF g(1)] assms(3) by (auto simp: r(1))
    then show ?thesis using g(2) tx_slot_len [OF g(2)] by (simp add: tx_slot_def st [OF i] receive_other(2))
  qed
  have "tx_ring ?N (tx_last e) a fs ?m"
    by (rule tx_ring_same [OF d(1)]) (use st slot in \<open>simp_all add: receive_other\<close>)
  then show ?thesis
    using assms(2) rx_ring_receive [OF d(2) assms(3,4), of st] st by (simp add: oeth_inv_def receive_other)
qed

subsection \<open>Sending\<close>

lemma copy_sg: "copy_sg a sg m = store a (concat sg) m"
proof (induction sg arbitrary: a m)
  case (Cons b sg)
  then show ?case using store_append [of a b "concat sg" m] by simp
qed simp

text \<open>The status word of a packet that is handed to the MAC.\<close>

definition send_word :: "int \<Rightarrow> u32 \<Rightarrow> u32" where
  "send_word total_len st =
     (((if total_len \<le> ETH_ZLEN then (st AND NOT TX_BD_STATS) OR TX_BD_PAD else st AND NOT TX_BD_STATS AND NOT TX_BD_PAD) AND 0xFFFF)
        OR push_bit 16 (word_of_int total_len)) OR (TX_BD_READY OR TX_BD_IRQ OR TX_BD_CRC)"

lemma send_word:
  assumes "n < 2 ^ 16"
  shows "bit (send_word (int n) st) 15" "bit (send_word (int n) st) 13 \<longleftrightarrow> bit st 13" "unat (drop_bit 16 (send_word (int n) st)) = n"
proof -
  show "bit (send_word (int n) st) 15" "bit (send_word (int n) st) 13 \<longleftrightarrow> bit st 13"
    by (simp_all add: send_word_def bit_simps)
  have m: "(0xFFFF :: u32) = mask 16" by (simp add: mask_numeral)
  have t: "drop_bit 16 (x AND mask 16) = 0" for x :: u32 by (rule bit_word_eqI) (simp add: bit_simps)
  have "(of_nat n :: u32) = take_bit 16 (of_nat n)"
    using assms by (simp add: take_bit_of_nat take_bit_nat_eq_self)
  then have "bit (of_nat n :: u32) i \<Longrightarrow> i < 16" for i by (metis bit_take_bit_iff)
  then have p: "drop_bit 16 (push_bit 16 (of_nat n :: u32)) = of_nat n"
    by (intro bit_word_eqI) (auto simp: bit_simps)
  define x where "x = (if int n \<le> ETH_ZLEN then (st AND NOT TX_BD_STATS) OR TX_BD_PAD else st AND NOT TX_BD_STATS AND NOT TX_BD_PAD)"
  have "send_word (int n) st = (x AND mask 16) OR push_bit 16 (of_nat n) OR 0xC800"
    unfolding send_word_def x_def [symmetric] m by (simp add: or.assoc del: mask_numeral)
  then have "drop_bit 16 (send_word (int n) st) = of_nat n OR drop_bit 16 0xC800"
    by (simp only: drop_bit_or t p or.left_neutral)
  then have "drop_bit 16 (send_word (int n) st) = of_nat n" by simp
  then show "unat (drop_bit 16 (send_word (int n) st)) = n"
    using assms by (simp only: unsigned_of_nat) (simp add: take_bit_nat_eq_self)
qed

lemma status_updates:
  "write_status k v (write_status k w m) = write_status k v m" "write_status k v (m\<lparr>ram := r\<rparr>) = (write_status k v m)\<lparr>ram := r\<rparr>"
  "write_status k v (write_moder x m) = write_moder x (write_status k v m)"
  "status_and k v m = write_status k (status k m AND v) m" "status_or k v m = write_status k (status k m OR v) m"
  "status k (write_status k v m) = v" "status k (m\<lparr>ram := r\<rparr>) = status k m" "status k (write_moder x m) = status k m"
  "moder (write_status k v m) = moder m" "moder (m\<lparr>ram := r\<rparr>) = moder m" "bd_addr (bds (write_status k v m) i) = bd_addr (bds m i)"
  "ram (write_status k v m) = ram m"
  by (simp_all add: write_status_def write_moder_def status_and_def status_or_def status_def)

definition handed_over :: "nat \<Rightarrow> bytes \<Rightarrow> ethermac \<Rightarrow> ethermac" where
  "handed_over k f m = (write_status k (send_word (int (length f)) (status k m)) m)\<lparr>ram := store (bd_addr (bds m k)) f (ram m)\<rparr>"

definition toggle_txen :: "ethermac \<Rightarrow> ethermac" where
  "toggle_txen m = (let m1 = write_moder (moder m AND NOT MODER_TXEN) m in write_moder (moder m1 OR MODER_TXEN) m1)"

lemma openeth_send_effect:
  fixes cfg :: oeth_cfg and e :: oeth and sg :: "bytes list" and key :: u32
  assumes "\<not> bit (status (tx_next e) (regs e)) 15" "\<not> tx_full e" "length (concat sg) \<le> 1520"
  defines "nxt \<equiv> if tx_next e + 1 \<ge> OETH_TXBD_NUM cfg then 0 else tx_next e + 1"
  defines "m \<equiv> handed_over (tx_next e) (concat sg) (regs e)"
  shows "openeth_send cfg sg (int (length (concat sg))) key e =
     e\<lparr>tx_keys := (tx_keys e)(tx_next e := key), tx_next := nxt, tx_full := (nxt = tx_last e),
       regs := if OETH_TXBD_NUM cfg = 1 then toggle_txen m else m\<rparr>"
proof -
  have c: "0x8000 AND status (tx_next e) (regs e) = 0" using assms(1) flag_bits(1) by (simp add: and.commute)
  have l: "\<not> int OETH_MAX_FRAME_SIZE < int (length (concat sg))" using assms(3) by (simp add: max_frame)
  have r: "regs (e\<lparr>tx_keys := x\<rparr>) = regs e" "tx_full (e\<lparr>tx_keys := x\<rparr>) = tx_full e" "tx_last (e\<lparr>tx_keys := x\<rparr>) = tx_last e"
      "e\<lparr>tx_keys := x, regs := b, tx_next := c, tx_full := d\<rparr> = e\<lparr>tx_keys := x, tx_next := c, tx_full := d, regs := b\<rparr>" for x b c d
    by simp_all
  have b: "(if x then True else False) = x" for x by simp
  show ?thesis
    unfolding openeth_send_def Let_def nxt_def m_def handed_over_def send_word_def toggle_txen_def
    by (cases "int (length (concat sg)) \<le> 60"; cases "OETH_TXBD_NUM cfg = 1")
      (simp_all only: c l assms(2) r b status_updates copy_sg if_True if_False simp_thms and.assoc)
qed

lemma handed_over:
  "status i (handed_over k f m) = (if i = k then send_word (int (length f)) (status k m) else status i m)"
  "i \<noteq> k \<Longrightarrow> bds (handed_over k f m) i = bds m i" "bd_addr (bds (handed_over k f m) i) = bd_addr (bds m i)"
  "ram (handed_over k f m) = store (bd_addr (bds m k)) f (ram m)" "moder (handed_over k f m) = moder m" "hw_tx (handed_over k f m) = hw_tx m"
  "hw_rx (handed_over k f m) = hw_rx m" "tx_bd_num (handed_over k f m) = tx_bd_num m" "sent (handed_over k f m) = sent m"
  by (simp_all add: handed_over_def mac_simps) (simp add: write_status_def)

lemma toggle_txen:
  "status i (toggle_txen m) = status i m" "bds (toggle_txen m) = bds m" "ram (toggle_txen m) = ram m" "hw_tx (toggle_txen m) = 0"
  "bit (moder m) 0 \<Longrightarrow> hw_rx (toggle_txen m) = hw_rx m" "tx_bd_num (toggle_txen m) = tx_bd_num m" "bit (moder (toggle_txen m)) 1"
  "bit (moder (toggle_txen m)) 0 \<longleftrightarrow> bit (moder m) 0" "sent (toggle_txen m) = sent m"
  by (simp_all add: toggle_txen_def Let_def mac_simps bit_simps)

lemma oeth_inv_send:
  assumes "oeth_ok cfg" "oeth_inv cfg a fs ps e" "openeth_can_send e" "length (concat sg) \<le> 1520"
  shows "\<exists>m. openeth_send cfg sg (int (length (concat sg))) key e =
       e\<lparr>tx_keys := (tx_keys e)(tx_next e := key), tx_next := (tx_next e + 1) mod OETH_TXBD_NUM cfg,
         tx_full := (a + length fs + 1 = OETH_TXBD_NUM cfg), regs := m\<rparr> \<and>
     oeth_inv cfg a (fs @ [concat sg]) ps (openeth_send cfg sg (int (length (concat sg))) key e) \<and> sent m = sent (regs e)"
proof -
  let ?N = "OETH_TXBD_NUM cfg" and ?R = "OETH_RXBD_NUM cfg" and ?k = "tx_next e" and ?f = "concat sg"
  note d = oeth_invD [OF assms(2)]
  note t = tx_ringD [OF d(1)] and r = rx_ringD [OF d(2)]
  have free: "a + length fs < ?N" using assms(3) d(4) t(2) by (simp add: openeth_can_send_def)
  have N: "0 < ?N" "?k < ?N" using free d(3) by simp_all
  have slot: "1520 \<le> slot_size cfg" "length ?f < 2 ^ 16" "length ?f \<le> slot_size cfg"
    using assms(1,4) by (simp_all add: oeth_ok_def max_frame)
  have nready: "\<not> bit (status ?k (regs e)) 15" using t(5) [OF free] d(3) by (simp add: add.assoc)
  define m where "m = (if ?N = 1 then toggle_txen (handed_over ?k ?f (regs e)) else handed_over ?k ?f (regs e))"
  have nxt: "(if ?k + 1 \<ge> ?N then 0 else ?k + 1) = (?k + 1) mod ?N"
    using N by (cases "?k + 1 = ?N") auto
  have full: "(?k + 1) mod ?N = tx_last e \<longleftrightarrow> a + length fs + 1 = ?N"
  proof -
    have "(?k + 1) mod ?N = (tx_last e + (a + length fs + 1) mod ?N) mod ?N" by (simp add: d(3) mod_simps add.assoc)
    moreover have "tx_last e = (tx_last e + 0) mod ?N" using t(1) by simp
    ultimately have "(?k + 1) mod ?N = tx_last e \<longleftrightarrow> (a + length fs + 1) mod ?N = 0"
      using ring_inj [of "(a + length fs + 1) mod ?N" ?N 0 "tx_last e"] N by simp
    then show ?thesis using free by (cases "a + length fs + 1 = ?N") auto
  qed
  have eff: "openeth_send cfg sg (int (length ?f)) key e =
      e\<lparr>tx_keys := (tx_keys e)(?k := key), tx_next := (?k + 1) mod ?N, tx_full := (a + length fs + 1 = ?N), regs := m\<rparr>"
    using openeth_send_effect [OF nready _ assms(4), of cfg key] assms(3)
    unfolding nxt full m_def [symmetric] openeth_can_send_def by simp
  have st: "status i m = (if i = ?k then send_word (int (length ?f)) (status ?k (regs e)) else status i (regs e))" for i
    by (simp add: m_def toggle_txen handed_over)
  have ad: "bd_addr (bds m i) = bd_addr (bds (regs e) i)" "i \<noteq> ?k \<Longrightarrow> bds m i = bds (regs e) i"
      "ram m = store (bd_addr (bds (regs e) ?k)) ?f (ram (regs e))" "sent m = sent (regs e)" "tx_bd_num m = tx_bd_num (regs e)" for i
    by (simp_all add: m_def toggle_txen handed_over)
  have mo: "bit (moder m) 1" "bit (moder m) 0" using d(9) N r(5) by (auto simp: m_def toggle_txen handed_over simp del: One_nat_def)
  have hw: "hw_tx m = hw_tx (regs e)" "hw_rx m = hw_rx (regs e)"
    using t(3) r(5) by (simp_all add: m_def toggle_txen handed_over)
  have w13: "bit (status i m) 13 \<longleftrightarrow> i = ?N - 1" if "i < ?N" for i
    using d(5) [OF that] d(5) [OF N(2)] send_word(2) [OF slot(2)] by (auto simp: st)
  have tx: "tx_ring ?N (tx_last e) a (fs @ [?f]) m"
  proof (rule tx_ring_put [OF d(1) free d(3) hw(1) mo(1)])
    show "bit (status ?k m) 15" using send_word(1) [OF slot(2)] by (simp add: st)
    show "tx_slot ?N m ?k ?f" using w13 [OF N(2)] send_word(3) [OF slot(2)] by (simp add: tx_slot_def st ad)
    show "status i m = status i (regs e)" if "i \<noteq> ?k" for i using that by (simp add: st)
    fix i g
    assume i: "i < ?N" "i \<noteq> ?k" and g: "g \<in> set fs" "tx_slot ?N (regs e) i g"
    have "far (slot_size cfg) (bd_addr (bds (regs e) i)) (bd_addr (bds (regs e) ?k))"
      using slots_far [OF i(2)] d(6) [OF i(1)] d(6) [OF N(2)] by simp
    then have "load (ram m) (bd_addr (bds (regs e) i)) (length g) = load (ram (regs e)) (bd_addr (bds (regs e) i)) (length g)"
      using load_store_far slot(3) d(8) [OF g(1)] by (simp add: ad)
    then show "tx_slot ?N m i g" using g(2) tx_slot_len [OF g(2)] i by (simp add: tx_slot_def st ad)
  qed
  have rx: "rx_ring (slot_size cfg) ?N ?R (rx_cur e) ps m"
  proof (rule rx_ring_same [OF d(2) hw(2) mo(2) ad(5)])
    show "bds m (?N + i) = bds (regs e) (?N + i)" for i using N(2) by (intro ad(2)) simp
    fix i p
    assume i: "i < ?R" and p: "rx_slot (regs e) (?N + i) p" "length (fst p) \<le> slot_size cfg"
    have "far (slot_size cfg) (bd_addr (bds (regs e) (?N + i))) (bd_addr (bds (regs e) ?k))"
      using tx_rx_far [OF assms(1) N(2) i] d(6) [OF N(2)] d(7) [OF i] by (auto simp: far_def)
    then have "load (ram m) (bd_addr (bds (regs e) (?N + i))) (length (fst p)) = load (ram (regs e)) (bd_addr (bds (regs e) (?N + i))) (length (fst p))"
      using load_store_far slot(3) p(2) by (simp add: ad)
    then show "rx_slot m (?N + i) p" using p(1) N(2) by (simp add: rx_slot_def st ad)
  qed
  have "(?k + 1) mod ?N = (tx_last e + a + length (fs @ [?f])) mod ?N" by (simp add: d(3) mod_simps add.assoc)
  then have "oeth_inv cfg a (fs @ [?f]) ps (openeth_send cfg sg (int (length ?f)) key e)"
    using tx rx w13 ad d(6-8) slot(3) mo by (auto simp: oeth_inv_def eff)
  then show ?thesis using eff ad(4) by blast
qed

subsection \<open>Collecting what was sent\<close>

lemma oeth_tx_collects:
  "oeth_inv cfg a fs ps e \<Longrightarrow> \<exists>s b l. oeth_tx cfg e = Some (e\<lparr>stats := s, tx_full := b, tx_last := l\<rparr>) \<and>
     oeth_inv cfg 0 fs ps (e\<lparr>stats := s, tx_full := b, tx_last := l\<rparr>)"
proof (induction a arbitrary: e)
  case 0
  note d = oeth_invD [OF 0]
  note t = tx_ringD [OF d(1)]
  have "bit (status (tx_last e) (regs e)) 15 \<or> tx_last e = tx_next e \<and> \<not> tx_full e"
    using t(1) t(5) [of 0] d(3,4) by (cases fs) auto
  then have "oeth_tx cfg e = Some (e\<lparr>stats := stats e, tx_full := tx_full e, tx_last := tx_last e\<rparr>)"
    by (subst oeth_tx.simps) (auto simp: Let_def flag_bits)
  then show ?case using 0 by (intro exI [of _ "stats e"] exI [of _ "tx_full e"] exI [of _ "tx_last e"]) simp
next
  case (Suc a)
  let ?N = "OETH_TXBD_NUM cfg"
  note d = oeth_invD [OF Suc.prems]
  note t = tx_ringD [OF d(1)]
  have N: "0 < ?N" using t(1) by simp
  have nready: "\<not> bit (status (tx_last e) (regs e)) 15" using t(1) t(5) [OF N] by simp
  have "tx_next e = tx_last e \<longrightarrow> tx_full e"
  proof
    assume "tx_next e = tx_last e"
    then have "(tx_last e + (Suc a + length fs) mod ?N) mod ?N = (tx_last e + 0) mod ?N"
      using d(3) t(1) by (simp add: mod_simps add.assoc)
    then have "(Suc a + length fs) mod ?N = 0" using ring_inj [of "(Suc a + length fs) mod ?N" ?N 0 "tx_last e"] N by simp
    then show "tx_full e" using d(4) t(2) N by (metis add_Suc le_neq_implies_less mod_less nat.simps(3))
  qed
  then have step: "oeth_tx cfg e =
      oeth_tx cfg (e\<lparr>stats := tx_stats (status (tx_last e) (regs e)) (stats e), tx_full := False, tx_last := (tx_last e + 1) mod ?N\<rparr>)"
    using nready by (subst oeth_tx.simps) (auto simp: Let_def flag_bits)
  let ?e = "e\<lparr>stats := tx_stats (status (tx_last e) (regs e)) (stats e), tx_full := False, tx_last := (tx_last e + 1) mod ?N\<rparr>"
  have "((tx_last e + 1) mod ?N + a + length fs) mod ?N = (tx_last e + Suc a + length fs) mod ?N" by (simp add: mod_simps add.assoc)
  then have "oeth_inv cfg a fs ps ?e"
    using Suc.prems tx_ring_collect [OF d(1)] t(2) by (simp add: oeth_inv_def)
  from Suc.IH [OF this] show ?case unfolding step by simp
qed

lemma release_keys:
  "fold release_key [0..<n] e =
     e\<lparr>tx_keys := (\<lambda>i. if i < n \<and> \<not> bit (status i (regs e)) 15 then 0 else tx_keys e i),
       released := released e @ filter (\<lambda>k. k \<noteq> 0) (map (tx_keys e) (filter (\<lambda>i. \<not> bit (status i (regs e)) 15) [0..<n]))\<rparr>"
proof (induction n)
  case (Suc n)
  then show ?case
    by (cases "tx_keys e n = 0"; cases "bit (status n (regs e)) 15")
      (auto simp: release_key_def flag_bits less_Suc_eq fun_eq_iff intro!: oeth.equality)
qed simp

text \<open>The keys that the stack waits for.\<close>

definition outstanding :: "oeth_cfg \<Rightarrow> oeth \<Rightarrow> u32 list" where
  "outstanding cfg e = filter (\<lambda>k. k \<noteq> 0) (map (tx_keys e) [0..<OETH_TXBD_NUM cfg])"

lemma release_outstanding:
  fixes st :: "nat \<Rightarrow> bool" and keys :: "nat \<Rightarrow> u32"
  shows "mset (filter (\<lambda>k. k \<noteq> 0) (map keys (filter (\<lambda>i. \<not> st i) xs))) + mset (filter (\<lambda>k. k \<noteq> 0) (map (\<lambda>i. if \<not> st i then 0 else keys i) xs)) =
     mset (filter (\<lambda>k. k \<noteq> 0) (map keys xs))"
  by (induction xs) auto

lemma oeth_txdone_effect:
  assumes "oeth_inv cfg a fs ps e"
  shows "\<exists>e'. oeth_txdone cfg e = Some e' \<and> oeth_inv cfg 0 fs ps e' \<and> regs e' = regs e \<and> delivered e' = delivered e \<and>
     tx_keys e' = (\<lambda>i. if i < OETH_TXBD_NUM cfg \<and> \<not> bit (status i (regs e)) 15 then 0 else tx_keys e i) \<and>
     mset (released e') + mset (outstanding cfg e') = mset (released e) + mset (outstanding cfg e)"
proof -
  from oeth_tx_collects [OF assms] obtain s b l where tx: "oeth_tx cfg e = Some (e\<lparr>stats := s, tx_full := b, tx_last := l\<rparr>)"
      and inv: "oeth_inv cfg 0 fs ps (e\<lparr>stats := s, tx_full := b, tx_last := l\<rparr>)"
    by blast
  define e' where "e' = fold release_key [0..<OETH_TXBD_NUM cfg] (e\<lparr>stats := s, tx_full := b, tx_last := l\<rparr>)"
  have e: "e' = e\<lparr>stats := s, tx_full := b, tx_last := l,
      tx_keys := (\<lambda>i. if i < OETH_TXBD_NUM cfg \<and> \<not> bit (status i (regs e)) 15 then 0 else tx_keys e i),
      released := released e @ filter (\<lambda>k. k \<noteq> 0) (map (tx_keys e) (filter (\<lambda>i. \<not> bit (status i (regs e)) 15) [0..<OETH_TXBD_NUM cfg]))\<rparr>"
    unfolding e'_def release_keys by (simp cong: if_cong)
  have "outstanding cfg e' = filter (\<lambda>k. k \<noteq> 0) (map (\<lambda>i. if \<not> bit (status i (regs e)) 15 then 0 else tx_keys e i) [0..<OETH_TXBD_NUM cfg])"
    unfolding outstanding_def e by (intro arg_cong [of _ _ "filter (\<lambda>k. k \<noteq> 0)"] map_cong) auto
  then have "mset (released e') + mset (outstanding cfg e') = mset (released e) + mset (outstanding cfg e)"
    using release_outstanding [of "tx_keys e" "\<lambda>i. bit (status i (regs e)) 15" "[0..<OETH_TXBD_NUM cfg]"]
    by (simp add: e outstanding_def add.assoc)
  moreover have "oeth_inv cfg 0 fs ps e'" using inv by (simp add: e oeth_inv_def)
  moreover have "oeth_txdone cfg e = Some e'" by (simp add: oeth_txdone_def tx e'_def)
  ultimately show ?thesis by (intro exI [of _ e'] conjI) (simp_all add: e)
qed

subsection \<open>Receiving\<close>

text \<open>The packets that the driver accepts: no error that it looks at, and at least 64 bytes.\<close>

definition good_packet :: "bytes \<times> u32 \<Rightarrow> bool" where
  "good_packet p \<longleftrightarrow> snd p AND 0xDF = 0 \<and> 64 \<le> length (fst p)"

lemma and_or_eq_0: "w AND (x OR y) = 0 \<longleftrightarrow> w AND x = 0 \<and> w AND y = (0 :: 'a :: len word)"
  by (simp add: bit.conj_disj_distrib or_eq_0_iff)

lemma rx_check_bad: "fst (rx_check w bad s) \<longleftrightarrow> bad \<or> w AND 0xDF \<noteq> 0 \<or> packetLength w < 64"
proof -
  have "(0xDF :: u32) = 0xC OR 0x10 OR 2 OR 0x40 OR 1 OR 0x80" by simp
  then have "w AND 0xDF = 0 \<longleftrightarrow> w AND 0xC = 0 \<and> w AND 0x10 = 0 \<and> w AND 2 = 0 \<and> w AND 0x40 = 0 \<and> w AND 1 = 0 \<and> w AND 0x80 = 0"
    by (simp only: and_or_eq_0)
  then show ?thesis by (auto simp: rx_check_def Let_def)
qed

lemma packetLength_small:
  assumes "unat (drop_bit 16 w) = n" "n < 2 ^ 15"
  shows "packetLength w = int n"
proof -
  have u: "uint w div 2 ^ 16 = int n"
    using arg_cong [OF assms(1), of int] by (simp add: drop_bit_eq_div uint_div)
  then have "uint w < 2 ^ 31" using assms(2) by simp
  then have "sint w = uint w" by (auto simp: sint_uint signed_take_bit_int_eq_self_iff intro: order_trans [of _ 0])
  then show ?thesis using u by (simp add: packetLength_def)
qed

lemma recv_copy_exact:
  "\<forall>(null, len) \<in> set sg. \<not> null \<and> 0 < len \<Longrightarrow> (\<Sum>(null, len) \<leftarrow> sg. nat len) = n \<Longrightarrow> recv_copy m a (int n) sg = (True, load m a n)"
proof (induction sg arbitrary: a n)
  case (Cons x sg)
  obtain null len where x: "x = (null, len)" by (cases x)
  define k where "k = (\<Sum>(null, len) \<leftarrow> sg. nat len)"
  have n: "n = nat len + k" "0 < len" "\<not> null" using Cons.prems x by (auto simp: k_def)
  have "recv_copy m (a + nat len) (int k) sg = (True, load m (a + nat len) k)"
    using Cons.prems(1) by (intro Cons.IH) (auto simp: k_def)
  then show ?case using n by (simp add: x min_def load_add)
qed (simp add: load_def)

lemma oalloc_copy: "oeth_ok cfg \<Longrightarrow> 0 < n \<Longrightarrow> recv_copy m a (int n) (oalloc cfg n) = (True, load m a n)"
  unfolding oeth_ok_def by (intro recv_copy_exact) blast+

lemma oeth_inv_rx_round:
  assumes "oeth_ok cfg" "oeth_inv cfg a fs (p # ps) e"
  shows "\<exists>e'. rx_round cfg bad e = (bad \<or> \<not> good_packet p, e') \<and> oeth_inv cfg a fs ps e' \<and>
     delivered e' = delivered e @ (if bad \<or> \<not> good_packet p then [] else [fst p]) \<and>
     tx_keys e' = tx_keys e \<and> released e' = released e \<and> sent (regs e') = sent (regs e)"
proof -
  let ?N = "OETH_TXBD_NUM cfg" and ?R = "OETH_RXBD_NUM cfg"
  let ?k = "?N + rx_cur e" and ?e = "snd (rx_round cfg bad e)"
  note d = oeth_invD [OF assms(2)]
  note r = rx_ringD [OF d(2)]
  define w where "w = status ?k (regs e)"
  have slot: "rx_slot (regs e) ?k p" using r(2) r(8) [of 0] by simp
  have len: "length (fst p) < 2 ^ 15" using r(6) r(9) [of 0] by simp
  have pl: "packetLength w = int (length (fst p))"
    using packetLength_small [of w "length (fst p)"] slot len by (simp add: rx_slot_def w_def)
  have "w AND 0xFF = snd p AND 0xFF" using slot by (simp add: rx_slot_def w_def)
  then have "(w AND 0xFF) AND 0xDF = (snd p AND 0xFF) AND 0xDF" by simp
  then have "w AND 0xDF = snd p AND 0xDF" by (simp add: and.assoc)
  then have bad: "fst (rx_check w bad (stats e)) \<longleftrightarrow> bad \<or> \<not> good_packet p"
    using rx_check_bad [of w bad "stats e"] pl by (auto simp: good_packet_def)
  have copy: "recv_copy (ram (regs e)) (bd_addr (bds (regs e) ?k)) (packetLength w) (oalloc cfg (nat (packetLength w))) = (True, fst p)" if "good_packet p"
  proof -
    have "0 < length (fst p)" using that unfolding good_packet_def by linarith
    from oalloc_copy [OF assms(1) this] show ?thesis using slot by (simp add: pl rx_slot_def)
  qed
  have fields: "fst (rx_round cfg bad e) = (bad \<or> \<not> good_packet p)"
      "delivered ?e = delivered e @ (if bad \<or> \<not> good_packet p then [] else [fst p])" "tx_keys ?e = tx_keys e" "released ?e = released e"
      "tx_next ?e = tx_next e" "tx_last ?e = tx_last e" "tx_full ?e = tx_full e"
    using bad copy by (auto simp: rx_round_def openeth_recv_def Let_def w_def split: prod.splits)
  define v :: u32 where "v = RX_BD_EMPTY OR RX_BD_IRQ OR (if rx_cur e + 1 \<ge> ?R then RX_BD_WRAP else 0)"
  have m: "regs ?e = write_status ?k v (regs e)" by (simp add: rx_round_regs v_def)
  have c: "rx_cur ?e = Suc (rx_cur e) mod ?R" using r(2) by (auto simp: rx_round_regs mod_Suc)
  have v: "bit v 15" "bit v 13 \<longleftrightarrow> rx_cur e = ?R - 1" using r(2) by (auto simp: v_def)
  have rx: "rx_ring (slot_size cfg) ?N ?R (Suc (rx_cur e) mod ?R) ps (regs ?e)"
  proof (rule rx_ring_take [OF d(2)])
    fix i assume "i < ?R" "i \<noteq> rx_cur e"
    then show "far (slot_size cfg) (bd_addr (bds (regs ?e) ?k)) (bd_addr (bds (regs e) (?N + i)))"
      using r(11) [of "rx_cur e" i] r(2) by (simp add: m mac_simps)
  qed (use v in \<open>simp_all add: m mac_simps, simp_all add: write_status_def\<close>)
  have "tx_ring ?N (tx_last e) a fs (regs ?e)"
    by (rule tx_ring_same [OF d(1)]) (simp_all add: m mac_simps tx_slot_def)
  then have "oeth_inv cfg a fs ps ?e"
    using rx assms(2) fields(5-7) unfolding oeth_inv_def by (simp add: c m mac_simps)
  then show ?thesis using fields m by (intro exI [of _ ?e]) (auto simp: mac_simps prod_eq_iff)
qed

lemma rx_loop_delivers:
  assumes "oeth_ok cfg"
  shows "oeth_inv cfg a fs ps e \<Longrightarrow> oeth_inv cfg a fs [] (rx_loop cfg bad e) \<and>
     delivered (rx_loop cfg bad e) = delivered e @ (if bad then [] else map fst (takeWhile good_packet ps)) \<and>
     tx_keys (rx_loop cfg bad e) = tx_keys e \<and> released (rx_loop cfg bad e) = released e \<and> sent (regs (rx_loop cfg bad e)) = sent (regs e)"
proof (induction ps arbitrary: bad e)
  case Nil
  note r = rx_ringD [OF oeth_invD(2) [OF Nil]]
  have "bit (status (OETH_TXBD_NUM cfg + rx_cur e) (regs e)) 15" using r(2) r(7) [of 0] by simp
  then have "rx_loop cfg bad e = e" by (subst rx_loop.simps) (simp add: flag_bits)
  then show ?case using Nil by simp
next
  case (Cons p ps)
  note r = rx_ringD [OF oeth_invD(2) [OF Cons.prems]]
  have "\<not> bit (status (OETH_TXBD_NUM cfg + rx_cur e) (regs e)) 15" using r(2) r(7) [of 0] by simp
  moreover from oeth_inv_rx_round [OF assms Cons.prems, of bad] obtain e' where e':
      "rx_round cfg bad e = (bad \<or> \<not> good_packet p, e')" "oeth_inv cfg a fs ps e'"
      "delivered e' = delivered e @ (if bad \<or> \<not> good_packet p then [] else [fst p])"
      "tx_keys e' = tx_keys e" "released e' = released e" "sent (regs e') = sent (regs e)"
    by blast
  ultimately have step: "rx_loop cfg bad e = rx_loop cfg (bad \<or> \<not> good_packet p) e'" by (subst rx_loop.simps) (simp add: flag_bits)
  show ?case unfolding step using Cons.IH [OF e'(2), of "bad \<or> \<not> good_packet p"] e'(3-6) by auto
qed

end
