(* ===== verification/Oeth_Props.thy ===== *)
theory Oeth_Props
  imports Oeth_Correct
begin

text \<open>
  The OpenCores Ethernet driver from initialisation on: its states under every interleaving of the driver's
  routines with the actions of the MAC, and the properties of all of them.
\<close>

unbundle bit_operations_syntax

subsection \<open>Initialisation\<close>

text \<open>Between two resets the descriptors are as initialisation leaves them.\<close>

lemma fold_tx_bds:
  "bds (fold (\<lambda>i m. write_addr (b + i) (buf + i * s) (write_status (b + i) v m)) [0..<n] m) k =
     (if b \<le> k \<and> k < b + n then \<lparr>len_status = v, bd_addr = buf + (k - b) * s\<rparr> else bds m k)"
  by (induction n) (auto simp: write_addr_def write_status_def)

lemma fold_write_keeps:
  "moder (fold (\<lambda>i m. write_addr (b + i) (buf + i * s) (write_status (b + i) v m)) [0..<n] m) = moder m"
  "hw_tx (fold (\<lambda>i m. write_addr (b + i) (buf + i * s) (write_status (b + i) v m)) [0..<n] m) = hw_tx m"
  "hw_rx (fold (\<lambda>i m. write_addr (b + i) (buf + i * s) (write_status (b + i) v m)) [0..<n] m) = hw_rx m"
  "sent (fold (\<lambda>i m. write_addr (b + i) (buf + i * s) (write_status (b + i) v m)) [0..<n] m) = sent m"
  "tx_bd_num (fold (\<lambda>i m. write_addr (b + i) (buf + i * s) (write_status (b + i) v m)) [0..<n] m) = tx_bd_num m"
  by (induction n) (auto simp: write_addr_def write_status_def)

lemma status_or_bds:
  "bds (status_or k v m) i = (if i = k then (bds m k)\<lparr>len_status := len_status (bds m k) OR v\<rparr> else bds m i)"
  "moder (status_or k v m) = moder m" "hw_tx (status_or k v m) = hw_tx m" "hw_rx (status_or k v m) = hw_rx m" "sent (status_or k v m) = sent m"
  "tx_bd_num (status_or k v m) = tx_bd_num m"
  by (simp_all add: status_or_def write_status_def status_def)

lemma init_bds:
  assumes "0 < OETH_TXBD_NUM cfg" "0 < OETH_RXBD_NUM cfg"
  shows "i < OETH_TXBD_NUM cfg \<Longrightarrow> bds (init_bds cfg m) i =
       \<lparr>len_status = 0x5800 OR (if i = OETH_TXBD_NUM cfg - 1 then TX_BD_WRAP else 0), bd_addr = txbuff cfg + i * slot_size cfg\<rparr>"
    "i < OETH_RXBD_NUM cfg \<Longrightarrow> bds (init_bds cfg m) (OETH_TXBD_NUM cfg + i) =
       \<lparr>len_status = 0xC000 OR (if i = OETH_RXBD_NUM cfg - 1 then RX_BD_WRAP else 0), bd_addr = rxbuff cfg + i * slot_size cfg\<rparr>"
    "moder (init_bds cfg m) = moder m" "hw_tx (init_bds cfg m) = hw_tx m" "hw_rx (init_bds cfg m) = hw_rx m" "sent (init_bds cfg m) = sent m"
    "tx_bd_num (init_bds cfg m) = tx_bd_num m"
  using assms fold_tx_bds [of 0 "txbuff cfg" "slot_size cfg"] fold_write_keeps [of 0 "txbuff cfg" "slot_size cfg"]
  by (auto simp: init_bds_def Let_def status_or_bds fold_tx_bds fold_write_keeps)

lemma fold_or_bds:
  "bds (fold (\<lambda>i. status_or (b + i) v) [0..<n] m) k =
     (if b \<le> k \<and> k < b + n then (bds m k)\<lparr>len_status := len_status (bds m k) OR v\<rparr> else bds m k)"
  "moder (fold (\<lambda>i. status_or (b + i) v) [0..<n] m) = moder m" "hw_tx (fold (\<lambda>i. status_or (b + i) v) [0..<n] m) = hw_tx m"
  "hw_rx (fold (\<lambda>i. status_or (b + i) v) [0..<n] m) = hw_rx m" "sent (fold (\<lambda>i. status_or (b + i) v) [0..<n] m) = sent m"
  "tx_bd_num (fold (\<lambda>i. status_or (b + i) v) [0..<n] m) = tx_bd_num m"
  by (induction n) (auto simp: status_or_bds)

text \<open>An interface whose rings are empty and whose descriptors are in place.\<close>

definition rings_empty :: "oeth_cfg \<Rightarrow> ethermac \<Rightarrow> bool" where
  "rings_empty cfg m \<longleftrightarrow> tx_bd_num m = of_nat (OETH_TXBD_NUM cfg) \<and> hw_tx m = 0 \<and> hw_rx m = 0 \<and>
     (\<forall>i<OETH_TXBD_NUM cfg. \<not> bit (status i m) 15 \<and> (bit (status i m) 13 \<longleftrightarrow> i = OETH_TXBD_NUM cfg - 1) \<and>
        bd_addr (bds m i) = txbuff cfg + i * slot_size cfg) \<and>
     (\<forall>i<OETH_RXBD_NUM cfg. (bit (status (OETH_TXBD_NUM cfg + i) m) 13 \<longleftrightarrow> i = OETH_RXBD_NUM cfg - 1) \<and>
        bd_addr (bds m (OETH_TXBD_NUM cfg + i)) = rxbuff cfg + i * slot_size cfg)"

lemma start_inv:
  assumes "oeth_ok cfg" "rings_empty cfg (regs e)"
  shows "oeth_inv cfg 0 [] [] (openeth_start cfg (e\<lparr>active := False\<rparr>))"
proof -
  let ?N = "OETH_TXBD_NUM cfg" and ?R = "OETH_RXBD_NUM cfg"
  have NR: "0 < ?N" "0 < ?R" "?N < 2 ^ 32" "slot_size cfg < 2 ^ 15" using assms(1) by (simp_all add: oeth_ok_def)
  define m where "m = regs (openeth_start cfg (e\<lparr>active := False\<rparr>))"
  have eff: "tx_last (openeth_start cfg (e\<lparr>active := False\<rparr>)) = 0" "tx_next (openeth_start cfg (e\<lparr>active := False\<rparr>)) = 0"
      "\<not> tx_full (openeth_start cfg (e\<lparr>active := False\<rparr>))" "rx_cur (openeth_start cfg (e\<lparr>active := False\<rparr>)) = 0"
    by (simp_all add: openeth_start_def Let_def)
  have m: "m = write_moder (moder (regs e) OR 1 OR (if 1 < ?N then 2 else 0)) (fold (\<lambda>i. status_or (?N + i) RX_BD_EMPTY) [0..<?R] (regs e))"
    by (simp add: m_def openeth_start_def Let_def fold_or_bds)
  have st: "status i m = (if ?N \<le> i \<and> i < ?N + ?R then status i (regs e) OR RX_BD_EMPTY else status i (regs e))"
      "bd_addr (bds m i) = bd_addr (bds (regs e) i)" for i
    by (simp_all add: m write_moder_keeps fold_or_bds status_def)
  have hw: "hw_tx m = 0" "hw_rx m = 0" "tx_bd_num m = of_nat ?N" "bit (moder m) 0" "1 < ?N \<Longrightarrow> bit (moder m) 1"
    using assms(2) by (simp_all add: m write_moder_keeps fold_or_bds rings_empty_def bit_simps)
  have "tx_ring ?N 0 0 [] m"
    using NR assms(2) hw by (simp add: tx_ring_def st rings_empty_def)
  moreover have "rx_ring (slot_size cfg) ?N ?R 0 [] m"
    using NR assms(2) hw slots_far by (auto simp: rx_ring_def st rings_empty_def bit_simps)
  ultimately show ?thesis
    using assms(2) eff hw NR by (simp add: oeth_inv_def m_def [symmetric] st rings_empty_def)
qed

lemma device_init:
  assumes "oeth_ok cfg" "got_mac mac"
  shows "fst (openeth_device_init cfg mac e)" "rings_empty cfg (regs (snd (openeth_device_init cfg mac e)))"
    "active (snd (openeth_device_init cfg mac e)) = active e" "tx_keys (snd (openeth_device_init cfg mac e)) = tx_keys e"
    "released (snd (openeth_device_init cfg mac e)) = released e" "delivered (snd (openeth_device_init cfg mac e)) = delivered e"
    "sent (regs (snd (openeth_device_init cfg mac e))) = sent (regs e)"
  using assms
  by (auto simp: openeth_device_init_def Let_def rings_empty_def init_bds oeth_ok_def write_moder_keeps write_int_src_def status_def bit_simps)

subsection \<open>All the states of the interface\<close>

text \<open>
  What can happen between the driver, the stack and the MAC, in any order. Along with the state the relation keeps the
  packets that the stack handed over (with their keys) and the frames that the MAC has stored since the
  driver last collected them. The stack sends only when it may, non-zero keys, and no packet that is too long.
\<close>

definition fresh :: "oeth \<Rightarrow> bool" where
  "fresh e \<longleftrightarrow> \<not> active e \<and> tx_keys e = (\<lambda>_. 0) \<and> released e = [] \<and> delivered e = [] \<and> sent (regs e) = []"

inductive oeth_reach :: "oeth_cfg \<Rightarrow> oeth \<Rightarrow> (u32 \<times> bytes) list \<Rightarrow> (bytes \<times> u32) list \<Rightarrow> bool" for cfg where
  up: "fresh e \<Longrightarrow> got_mac mac \<Longrightarrow> oeth_reach cfg (openeth_start cfg (snd (openeth_device_init cfg mac e))) [] []"
| send: "oeth_reach cfg e sub ps \<Longrightarrow> openeth_can_send e \<Longrightarrow> key \<noteq> 0 \<Longrightarrow> length (concat sg) \<le> 1520 \<Longrightarrow>
     oeth_reach cfg (openeth_send cfg sg (int (length (concat sg))) key e) (sub @ [(key, concat sg)]) ps"
| transmit: "oeth_reach cfg e sub ps \<Longrightarrow> oeth_reach cfg (e\<lparr>regs := mac_transmit st (regs e)\<rparr>) sub ps"
| receive: "oeth_reach cfg e sub ps \<Longrightarrow> length f \<le> slot_size cfg \<Longrightarrow>
     oeth_reach cfg (e\<lparr>regs := mac_receive f st (regs e)\<rparr>) sub (if length ps < OETH_RXBD_NUM cfg then ps @ [(f, st)] else ps)"
| interrupt: "oeth_reach cfg e sub ps \<Longrightarrow> oeth_reach cfg (snd (eth_isr e)) sub ps"
| control: "oeth_reach cfg e sub ps \<Longrightarrow> oeth_reach cfg (snd (openeth_ioctl key e)) sub ps"
| deliver: "oeth_reach cfg e sub ps \<Longrightarrow> openeth_deliver cfg e = Some e' \<Longrightarrow> oeth_reach cfg e' sub []"

text \<open>Steps that only touch other registers.\<close>

definition same_rings :: "oeth \<Rightarrow> oeth \<Rightarrow> bool" where
  "same_rings e e' \<longleftrightarrow> tx_last e' = tx_last e \<and> tx_next e' = tx_next e \<and> tx_full e' = tx_full e \<and> rx_cur e' = rx_cur e \<and> tx_keys e' = tx_keys e \<and>
     released e' = released e \<and> delivered e' = delivered e \<and> bds (regs e') = bds (regs e) \<and> ram (regs e') = ram (regs e) \<and> sent (regs e') = sent (regs e) \<and>
     hw_tx (regs e') = hw_tx (regs e) \<and> hw_rx (regs e') = hw_rx (regs e) \<and> tx_bd_num (regs e') = tx_bd_num (regs e) \<and>
     (bit (moder (regs e')) 0 \<longleftrightarrow> bit (moder (regs e)) 0) \<and> (bit (moder (regs e')) 1 \<longleftrightarrow> bit (moder (regs e)) 1)"

lemma same_rings_inv:
  assumes "oeth_inv cfg a fs ps e" "same_rings e e'"
  shows "oeth_inv cfg a fs ps e'"
proof -
  note d = oeth_invD [OF assms(1)]
  have "tx_ring (OETH_TXBD_NUM cfg) (tx_last e) a fs (regs e')"
    by (rule tx_ring_same [OF d(1)]) (use assms(2) in \<open>simp_all add: same_rings_def status_def tx_slot_def\<close>)
  moreover have "rx_ring (slot_size cfg) (OETH_TXBD_NUM cfg) (OETH_RXBD_NUM cfg) (rx_cur e) ps (regs e')"
    by (rule rx_ring_same [OF d(2)]) (use assms(2) rx_ringD(5) [OF d(2)] in \<open>simp_all add: same_rings_def status_def rx_slot_def\<close>)
  ultimately show ?thesis using assms unfolding oeth_inv_def same_rings_def status_def by simp
qed

lemma same_rings_isr: "same_rings e (snd (eth_isr e))"
  by (simp add: same_rings_def eth_isr_def Let_def write_int_src_def)

lemma fold_add_multicast:
  "bds (fold add_multicast as m) = bds m" "ram (fold add_multicast as m) = ram m" "sent (fold add_multicast as m) = sent m"
  "hw_tx (fold add_multicast as m) = hw_tx m" "hw_rx (fold add_multicast as m) = hw_rx m" "tx_bd_num (fold add_multicast as m) = tx_bd_num m"
  "moder (fold add_multicast as m) = moder m"
  by (induction as arbitrary: m) (simp_all add: add_multicast_def)

lemma same_rings_ioctl:
  assumes "oeth_inv cfg a fs ps e"
  shows "same_rings e (snd (openeth_ioctl key e))"
proof -
  note d = oeth_invD [OF assms]
  have r: "bit (moder (regs e)) 0" using rx_ringD(5) [OF d(2)] .
  have t: "bit (moder (regs e)) 1 \<or> hw_tx (regs e) = 0"
  proof (cases "1 < OETH_TXBD_NUM cfg")
    case False
    then have "OETH_TXBD_NUM cfg = 1" using tx_ringD(1) [OF d(1)] by simp
    then show ?thesis using tx_ringD(3) [OF d(1)] by simp
  qed (use d(9) in simp)
  have mc: "same_rings e (oeth_set_multicast_list mcl (e\<lparr>multicast_all := b\<rparr>))" for mcl b
    using r t by (auto simp: same_rings_def oeth_set_multicast_list_def Let_def write_moder_def flag_bits fold_add_multicast bit_simps split: option.split)
  show ?thesis
    using mc by (cases key) (simp_all add: openeth_ioctl_def eth_set_mac_address_def same_rings_def)
qed

definition oeth_state :: "oeth_cfg \<Rightarrow> (u32 \<times> bytes) list \<Rightarrow> (bytes \<times> u32) list \<Rightarrow> nat \<Rightarrow> bytes list \<Rightarrow> oeth \<Rightarrow> bool" where
  "oeth_state cfg sub ps a fs e \<longleftrightarrow> oeth_inv cfg a fs ps e \<and> map snd sub = sent (regs e) @ fs \<and>
     mset (released e) + mset (outstanding cfg e) = mset (map fst sub) \<and>
     (\<forall>j<OETH_TXBD_NUM cfg. a + length fs \<le> j \<longrightarrow> tx_keys e ((tx_last e + j) mod OETH_TXBD_NUM cfg) = 0)"

lemma outstanding_same: "tx_keys e' = tx_keys e \<Longrightarrow> outstanding cfg e' = outstanding cfg e"
  by (simp add: outstanding_def)

lemma state_up:
  assumes "oeth_ok cfg" "fresh e" "got_mac mac"
  shows "oeth_state cfg [] [] 0 [] (openeth_start cfg (snd (openeth_device_init cfg mac e)))"
proof -
  let ?e = "snd (openeth_device_init cfg mac e)"
  note i = device_init [OF assms(1,3), of e]
  have a: "?e\<lparr>active := False\<rparr> = ?e" using i(3) assms(2) by (simp add: fresh_def)
  have "oeth_inv cfg 0 [] [] (openeth_start cfg ?e)" using start_inv [OF assms(1) i(2)] by (simp add: a)
  moreover have "tx_keys (openeth_start cfg ?e) = (\<lambda>_. 0)" "released (openeth_start cfg ?e) = []" "sent (regs (openeth_start cfg ?e)) = []"
    using i assms(2) by (simp_all add: openeth_start_def Let_def fresh_def write_moder_keeps fold_or_bds)
  ultimately show ?thesis by (simp add: oeth_state_def outstanding_def)
qed

lemma outstanding_add:
  assumes "k < n" "f k = 0" "key \<noteq> (0 :: u32)"
  shows "mset (filter (\<lambda>k. k \<noteq> 0) (map (f(k := key)) [0..<n])) = add_mset key (mset (filter (\<lambda>k. k \<noteq> 0) (map f [0..<n])))"
proof -
  have "[0..<n] = [0..<k] @ k # [Suc k..<n]" using assms(1) by (metis le_add_same_cancel1 less_imp_add_positive upt_add_eq_append upt_conv_Cons zero_le)
  moreover have "map (f(k := key)) [0..<k] = map f [0..<k]" "map (f(k := key)) [Suc k..<n] = map f [Suc k..<n]" by auto
  ultimately show ?thesis using assms(2,3) by simp
qed

lemma state_send:
  assumes "oeth_ok cfg" "oeth_state cfg sub ps a fs e" "openeth_can_send e" "key \<noteq> 0" "length (concat sg) \<le> 1520"
  shows "oeth_state cfg (sub @ [(key, concat sg)]) ps a (fs @ [concat sg]) (openeth_send cfg sg (int (length (concat sg))) key e)"
proof -
  let ?N = "OETH_TXBD_NUM cfg" and ?k = "tx_next e" and ?e = "openeth_send cfg sg (int (length (concat sg))) key e"
  have inv: "oeth_inv cfg a fs ps e" using assms(2) by (simp add: oeth_state_def)
  note d = oeth_invD [OF inv]
  from oeth_inv_send [OF assms(1) inv assms(3,5), of key] obtain m where s:
      "?e = e\<lparr>tx_keys := (tx_keys e)(?k := key), tx_next := (?k + 1) mod ?N, tx_full := (a + length fs + 1 = ?N), regs := m\<rparr>"
      "oeth_inv cfg a (fs @ [concat sg]) ps ?e" "sent m = sent (regs e)"
    by blast
  have free: "a + length fs < ?N" using assms(3) d(4) tx_ringD(2) [OF d(1)] by (simp add: openeth_can_send_def)
  then have k: "?k < ?N" "?k = (tx_last e + (a + length fs)) mod ?N" using d(3) by (simp_all add: add.assoc)
  have "tx_keys e ?k = 0" using assms(2) free k(2) by (simp add: oeth_state_def)
  then have "mset (outstanding cfg ?e) = add_mset key (mset (outstanding cfg e))"
    using outstanding_add [OF k(1) _ assms(4)] by (simp add: outstanding_def s(1))
  moreover have "tx_keys ?e ((tx_last ?e + j) mod ?N) = 0" if "j < ?N" "a + length (fs @ [concat sg]) \<le> j" for j
    using that assms(2) ring_inj [of j ?N "a + length fs" "tx_last e"] free k(2) by (simp add: s(1) oeth_state_def)
  ultimately show ?thesis
    using assms(2) s by (simp add: oeth_state_def)
qed

lemma state_transmit:
  assumes "oeth_state cfg sub ps a fs e"
  shows "\<exists>a' fs'. oeth_state cfg sub ps a' fs' (e\<lparr>regs := mac_transmit st (regs e)\<rparr>) \<and> fs' = tl fs"
proof (cases fs)
  case Nil
  then have "mac_transmit st (regs e) = regs e"
    using assms oeth_invD(1) tx_ring_idle unfolding oeth_state_def by blast
  then show ?thesis using assms Nil by auto
next
  case (Cons f fs')
  have inv: "oeth_inv cfg a (f # fs') ps e" using assms Cons by (simp add: oeth_state_def)
  have "oeth_state cfg sub ps (Suc a) fs' (e\<lparr>regs := mac_transmit st (regs e)\<rparr>)"
    using assms oeth_inv_transmit [OF inv, of st] Cons by (simp add: oeth_state_def outstanding_def)
  then show ?thesis using Cons by auto
qed

lemma state_receive:
  assumes "oeth_ok cfg" "oeth_state cfg sub ps a fs e" "length f \<le> slot_size cfg"
  shows "oeth_state cfg sub (if length ps < OETH_RXBD_NUM cfg then ps @ [(f, st)] else ps) a fs (e\<lparr>regs := mac_receive f st (regs e)\<rparr>)"
proof (cases "length ps < OETH_RXBD_NUM cfg")
  case True
  then show ?thesis
    using assms(2) oeth_inv_receive [OF assms(1) _ assms(3) True, of a fs e st] by (simp add: oeth_state_def outstanding_def receive_other(6))
next
  case False
  have inv: "oeth_inv cfg a fs ps e" using assms(2) by (simp add: oeth_state_def)
  then have "length ps = OETH_RXBD_NUM cfg" using False rx_ringD(3) [OF oeth_invD(2)] by force
  from rx_ring_full [OF oeth_invD(2) [OF inv] this]
  have "same_rings e (e\<lparr>regs := mac_receive f st (regs e)\<rparr>)" by (simp add: same_rings_def)
  then show ?thesis using assms(2) False same_rings_inv [OF inv] by (simp add: oeth_state_def outstanding_def same_rings_def)
qed

lemma state_same: "oeth_state cfg sub ps a fs e \<Longrightarrow> same_rings e e' \<Longrightarrow> oeth_state cfg sub ps a fs e'"
  using same_rings_inv [of cfg a fs ps e e'] by (simp add: oeth_state_def same_rings_def outstanding_def)

text \<open>Delivery ends, empties the receive ring, and leaves only the keys of packets that still wait.\<close>

lemma state_deliver:
  assumes "oeth_ok cfg" "oeth_state cfg sub ps a fs e"
  shows "\<exists>e'. openeth_deliver cfg e = Some e' \<and> oeth_state cfg sub [] 0 fs e' \<and> sent (regs e') = sent (regs e) \<and>
     delivered e' = delivered e @ map fst (takeWhile good_packet ps) \<and> (fs = [] \<longrightarrow> outstanding cfg e' = []) \<and> \<not> irq_masked e'"
proof -
  let ?N = "OETH_TXBD_NUM cfg" and ?r = "rx_loop cfg False e"
  have inv: "oeth_inv cfg a fs ps e" using assms(2) by (simp add: oeth_state_def)
  from rx_loop_delivers [OF assms(1) inv, of False] have r: "oeth_inv cfg a fs [] ?r"
      "delivered ?r = delivered e @ map fst (takeWhile good_packet ps)" "tx_keys ?r = tx_keys e" "released ?r = released e" "sent (regs ?r) = sent (regs e)"
    by auto
  from oeth_txdone_effect [OF r(1)] obtain e1 where t: "oeth_txdone cfg ?r = Some e1" "oeth_inv cfg 0 fs [] e1" "regs e1 = regs ?r"
      "delivered e1 = delivered ?r" "tx_keys e1 = (\<lambda>i. if i < ?N \<and> \<not> bit (status i (regs ?r)) 15 then 0 else tx_keys ?r i)"
      "mset (released e1) + mset (outstanding cfg e1) = mset (released ?r) + mset (outstanding cfg ?r)"
    by blast
  define e' where "e' = e1\<lparr>irq_masked := False\<rparr>"
  have del: "openeth_deliver cfg e = Some e'" by (simp add: openeth_deliver_def openeth_rxready_def t(1) e'_def)
  have "same_rings e1 e'" by (simp add: same_rings_def e'_def)
  then have inv': "oeth_inv cfg 0 fs [] e'" using t(2) same_rings_inv by blast
  note tx = tx_ringD [OF oeth_invD(1) [OF t(2)]]
  have N: "0 < ?N" using tx(1) by simp
  have zero: "tx_keys e1 ((tx_last e1 + j) mod ?N) = 0" if "j < ?N" "length fs \<le> j" for j
    using tx(5) [OF that(1)] that N by (simp add: t(3,5))
  have "outstanding cfg e1 = []" if "fs = []"
  proof -
    have "tx_keys e1 i = 0" if "i < ?N" for i
      using ring_cover [OF that tx(1)] zero \<open>fs = []\<close> by auto
    then show ?thesis by (simp add: outstanding_def filter_empty_conv)
  qed
  moreover have "mset (released e') + mset (outstanding cfg e') = mset (map fst sub)"
    using assms(2) t(6) r(3,4) outstanding_same [of ?r e cfg] by (simp add: oeth_state_def e'_def outstanding_def)
  moreover have "oeth_state cfg sub [] 0 fs e'"
    using calculation(2) inv' assms(2) zero t(3) r(5) by (simp add: oeth_state_def e'_def)
  ultimately show ?thesis using del t(3,4) r(2,5) by (simp add: e'_def outstanding_def)
qed

lemma reach_state: "oeth_reach cfg e sub ps \<Longrightarrow> oeth_ok cfg \<Longrightarrow> \<exists>a fs. oeth_state cfg sub ps a fs e"
proof (induction rule: oeth_reach.induct)
  case (up e mac)
  then show ?case using state_up by blast
next
  case (send e sub ps key sg)
  then show ?case using state_send by blast
next
  case (transmit e sub ps st)
  then show ?case using state_transmit by blast
next
  case (receive e sub ps f st)
  then show ?case using state_receive by blast
next
  case (interrupt e sub ps)
  then show ?case using state_same same_rings_isr by blast
next
  case (control e sub ps key)
  then obtain a fs where s: "oeth_state cfg sub ps a fs e" by blast
  then have "oeth_inv cfg a fs ps e" by (simp add: oeth_state_def)
  then show ?case using state_same [OF s same_rings_ioctl] by blast
next
  case (deliver e sub ps e')
  then show ?case using state_deliver by (metis option.inject)
qed

subsection \<open>Properties\<close>

text \<open>
  C24: the transmit ring is a queue. After any interleaving of sending, transmission, reception, interrupts,
  control operations and delivery, what went out on the wire is a prefix of the packets that the stack handed over, unchanged
  and in order, and at most as many as there are descriptors are still waiting; the MAC sends the next of them. No key is
  released twice or before its packet was handed over. Delivery always ends; afterwards another packet can be sent exactly if a
  descriptor is free, and when nothing waits, every key has been released.
\<close>

theorem oeth_transmits:
  assumes "oeth_ok cfg" "oeth_reach cfg e sub ps"
  shows "\<exists>fs e'. map snd sub = sent (regs e) @ fs \<and> length fs \<le> OETH_TXBD_NUM cfg \<and> sent (mac_transmit st (regs e)) = sent (regs e) @ take 1 fs \<and>
     mset (released e) \<subseteq># mset (map fst sub) \<and> openeth_deliver cfg e = Some e' \<and> (openeth_can_send e' \<longleftrightarrow> length fs < OETH_TXBD_NUM cfg) \<and>
     (fs = [] \<longrightarrow> mset (released e') = mset (map fst sub))"
proof -
  from reach_state [OF assms(2,1)] obtain a fs where s: "oeth_state cfg sub ps a fs e" by blast
  then have inv: "oeth_inv cfg a fs ps e" by (simp add: oeth_state_def)
  note t = oeth_invD(1) [OF inv]
  from state_deliver [OF assms(1) s] obtain e' where d: "openeth_deliver cfg e = Some e'" "oeth_state cfg sub [] 0 fs e'"
      "fs = [] \<longrightarrow> outstanding cfg e' = []" by blast
  have len: "length fs \<le> OETH_TXBD_NUM cfg" using tx_ringD(2) [OF t] by simp
  have "sent (mac_transmit st (regs e)) = sent (regs e) @ take 1 fs"
  proof (cases fs)
    case Nil
    then show ?thesis using tx_ring_idle t by simp
  next
    case (Cons f fs')
    then show ?thesis using tx_ring_transmit(2) [of _ _ a f fs' _ st] t by simp
  qed
  moreover have "mset (released e) \<subseteq># mset (map fst sub)" using s unfolding oeth_state_def by (metis mset_subset_eq_add_left)
  moreover have "openeth_can_send e' \<longleftrightarrow> length fs < OETH_TXBD_NUM cfg"
    using d(2) len oeth_invD(4) [of cfg 0 fs "[]" e'] by (auto simp: oeth_state_def openeth_can_send_def)
  moreover have "fs = [] \<longrightarrow> mset (released e') = mset (map fst sub)" using d(2,3) by (auto simp: oeth_state_def)
  ultimately show ?thesis using s d(1) len by (intro exI [of _ fs] exI [of _ e'] conjI) (simp_all add: oeth_state_def)
qed

text \<open>
  C25: received packets. In every state of the interface delivery hands the stack the packets that the MAC stored, unchanged and in
  order, up to the first one that is faulty; that one and all the packets behind it are dropped, also the intact ones. All
  descriptors are then free again.
\<close>

theorem oeth_receives:
  assumes "oeth_ok cfg" "oeth_reach cfg e sub ps"
  shows "\<exists>e'. openeth_deliver cfg e = Some e' \<and> delivered e' = delivered e @ map fst (takeWhile good_packet ps) \<and>
     (\<forall>i < OETH_RXBD_NUM cfg. status (OETH_TXBD_NUM cfg + i) (regs e') AND RX_BD_EMPTY \<noteq> 0)"
proof -
  from reach_state [OF assms(2,1)] obtain a fs where s: "oeth_state cfg sub ps a fs e" by blast
  from state_deliver [OF assms(1) s] obtain e' where d: "openeth_deliver cfg e = Some e'" "oeth_state cfg sub [] 0 fs e'"
      "delivered e' = delivered e @ map fst (takeWhile good_packet ps)" by blast
  then have "oeth_inv cfg 0 fs [] e'" by (simp add: oeth_state_def)
  note r = rx_ringD [OF oeth_invD(2) [OF this]]
  have "bit (status (OETH_TXBD_NUM cfg + i) (regs e')) 15" if "i < OETH_RXBD_NUM cfg" for i
    using ring_cover [OF that r(2)] r(7) by auto
  then show ?thesis using d by (auto simp: flag_bits)
qed

text \<open>A configuration with two descriptors each, and the state of the hardware after power-up.\<close>

definition sample_oeth_cfg :: oeth_cfg where
  "sample_oeth_cfg = \<lparr>OETH_RXBD_NUM = 2, OETH_TXBD_NUM = 2, rxbuff = 0, txbuff = 4096, slot_size = 1536, oalloc = (\<lambda>n. [(False, int n)])\<rparr>"

definition sample_mac :: ethermac where
  "sample_mac = \<lparr>moder = 0, int_src = 0, int_mask = 0, ipgt = 0, ipgr1 = 0, ipgr2 = 0, packet_len = 0, collconf = 0, tx_bd_num = 0x40, ctrlmoder = 0,
     miimoder = 0, miicommand = 0, miiaddress = 0, miitx_data = 0, miirx_data = 0, mac_addr0 = 0, mac_addr1 = 0, hash_addr0 = 0, hash_addr1 = 0,
     bds = (\<lambda>_. \<lparr>len_status = 0, bd_addr = 0\<rparr>), ram = (\<lambda>_. 0), hw_tx = 0, hw_rx = 0, sent = [], phys = (\<lambda>_ _. 0), mii_busy = 0, mii_time = 3,
     mii_invalid = False, phy_link = 0\<rparr>"

definition sample_oeth :: oeth where
  "sample_oeth = \<lparr>tx_next = 0, tx_last = 0, tx_full = False, rx_cur = 0, tx_keys = (\<lambda>_. 0),
     stats = \<lparr>rx_packets = 0, tx_packets = 0, tx_errors = 0, collisions = 0, rx_length_errors = 0, rx_crc_errors = 0, rx_frame_errors = 0,
       tx_aborted_errors = 0, tx_carrier_errors = 0, tx_fifo_errors = 0, tx_window_errors = 0\<rparr>,
     found = False, active = False, multicast_all = False, promisc = False, dev_addr = [], irq_masked = True, regs = sample_mac, delivered = [], released = []\<rparr>"

definition sample_up :: oeth where
  "sample_up = openeth_start sample_oeth_cfg (snd (openeth_device_init sample_oeth_cfg [0, 7, 0xED, 1, 2, 3] sample_oeth))"

lemma sample_ok: "oeth_ok sample_oeth_cfg"
  by (simp add: oeth_ok_def sample_oeth_cfg_def max_frame)

lemma sample_reach: "oeth_reach sample_oeth_cfg sample_up [] []"
  unfolding sample_up_def by (rule oeth_reach.up) (simp_all add: fresh_def sample_oeth_def sample_mac_def got_mac_def, simp add: upt_rec atLeastLessThan_upt)

lemma sample_fields: "delivered sample_up = []" "\<not> tx_full sample_up"
  by (simp_all add: sample_up_def openeth_start_def openeth_device_init_def Let_def sample_oeth_def)

theorem oeth_transmits_witness:
  "sent (mac_transmit 0 (regs (openeth_send sample_oeth_cfg [[1, 2], [3]] 3 7 sample_up))) = [[1, 2, 3]]"
proof -
  have "oeth_reach sample_oeth_cfg (openeth_send sample_oeth_cfg [[1, 2], [3]] (int (length (concat [[1, 2], [3 :: u8]]))) 7 sample_up)
      ([] @ [(7, concat [[1, 2], [3]])]) []"
    by (rule oeth_reach.send [OF sample_reach]) (simp_all add: openeth_can_send_def sample_fields)
  then have r: "oeth_reach sample_oeth_cfg (openeth_send sample_oeth_cfg [[1, 2], [3]] 3 7 sample_up) [(7, [1, 2, 3])] []" by simp
  then show ?thesis using oeth_transmits [OF sample_ok r, of 0] by (auto simp: append_eq_Cons_conv Cons_eq_append_conv)
qed

theorem oeth_receives_witness:
  "\<exists>e'. openeth_deliver sample_oeth_cfg (sample_up\<lparr>regs := mac_receive (replicate 64 5) 0 (regs sample_up)\<rparr>) = Some e' \<and> delivered e' = [replicate 64 5]"
proof -
  have "oeth_reach sample_oeth_cfg (sample_up\<lparr>regs := mac_receive (replicate 64 5) 0 (regs sample_up)\<rparr>) [] [(replicate 64 5, 0)]"
    using oeth_reach.receive [OF sample_reach, of "replicate 64 5" 0] by (simp add: sample_oeth_cfg_def)
  from oeth_receives [OF sample_ok this] show ?thesis by (auto simp: sample_fields good_packet_def)
qed

subsection \<open>Configuration\<close>

lemma address_bytes:
  "ucast (drop_bit 8 (addr_high a)) = a ! 0" "ucast (addr_high a) = a ! 1" "ucast (drop_bit 24 (addr_low a)) = a ! 2"
  "ucast (drop_bit 16 (addr_low a)) = a ! 3" "ucast (drop_bit 8 (addr_low a)) = a ! 4" "ucast (addr_low a) = a ! 5"
proof -
  have hi: "bit (b :: u8) n \<Longrightarrow> n < 8" for b n using bit_imp_le_length [of b n] by simp
  show "ucast (drop_bit 8 (addr_high a)) = a ! 0" "ucast (addr_high a) = a ! 1" "ucast (drop_bit 24 (addr_low a)) = a ! 2"
    "ucast (drop_bit 16 (addr_low a)) = a ! 3" "ucast (drop_bit 8 (addr_low a)) = a ! 4" "ucast (addr_low a) = a ! 5"
    unfolding addr_high_def addr_low_def by (rule bit_word_eqI; auto simp: bit_simps dest: hi)+
qed

lemma six_bytes: "length a = 6 \<Longrightarrow> [a ! 0, a ! 1, a ! 2, a ! 3, a ! 4, a ! 5] = a"
  by (rule nth_equalityI) (auto simp: less_Suc_eq numeral_eq_Suc)

lemma oeth_wrong_length: "length addr \<noteq> 6 \<Longrightarrow> openeth_ioctl (OSET_MAC_ADDRESS addr) e = ((-2, None), e)"
  by (simp add: openeth_ioctl_def)

text \<open>
  The station address. An address that is set by a control operation is read back unchanged. The interface comes
  up exactly if the flash holds an address, that is neither erased nor all zero, and this address is then the one that is
  read back.
\<close>

theorem oeth_station_address:
  assumes "length addr = 6"
  shows "fst (openeth_ioctl OGET_MAC_ADDRESS (snd (openeth_ioctl (OSET_MAC_ADDRESS addr) e))) = (0, Some addr) \<and>
     (fst (openeth_device_init cfg addr e) \<longleftrightarrow> addr \<noteq> replicate 6 0xFF \<and> addr \<noteq> replicate 6 0) \<and>
     (fst (openeth_device_init cfg addr e) \<longrightarrow>
        fst (openeth_ioctl OGET_MAC_ADDRESS (snd (openeth_device_init cfg addr e))) = (0, Some addr))"
proof (intro conjI impI)
  note six = six_bytes [OF assms] six_bytes [OF assms, simplified]
  show "fst (openeth_ioctl OGET_MAC_ADDRESS (snd (openeth_ioctl (OSET_MAC_ADDRESS addr) e))) = (0, Some addr)"
    using assms by (simp add: openeth_ioctl_def eth_set_mac_address_def eth_get_mac_address_def Let_def address_bytes six)
  have "(\<exists>i \<in> {0..<6}. addr ! i \<noteq> b) \<longleftrightarrow> addr \<noteq> replicate 6 b" for b using assms by (auto simp: list_eq_iff_nth_eq)
  then show "fst (openeth_device_init cfg addr e) \<longleftrightarrow> addr \<noteq> replicate 6 0xFF \<and> addr \<noteq> replicate 6 0"
    by (auto simp: openeth_device_init_def got_mac_def Let_def)
  show "fst (openeth_ioctl OGET_MAC_ADDRESS (snd (openeth_device_init cfg addr e))) = (0, Some addr)" if "fst (openeth_device_init cfg addr e)"
    using that by (auto simp: openeth_device_init_def openeth_ioctl_def eth_get_mac_address_def Let_def address_bytes six
        write_moder_def write_int_src_def split: if_splits)
qed

theorem oeth_station_address_witness:
  "fst (openeth_device_init sample_oeth_cfg [0, 7, 0xED, 1, 2, 3] sample_oeth) \<and> \<not> fst (openeth_device_init sample_oeth_cfg (replicate 6 0xFF) sample_oeth)"
proof -
  have "[0, 7, 0xED, 1, 2, 3] ! 0 \<noteq> replicate 6 (0xFF :: u8) ! 0" "[0, 7, 0xED, 1, 2, 3] ! 1 \<noteq> replicate 6 (0 :: u8) ! 1" by simp_all
  then have "[0, 7, 0xED, 1, 2, 3] \<noteq> replicate 6 (0xFF :: u8)" "[0, 7, 0xED, 1, 2, 3] \<noteq> replicate 6 (0 :: u8)" by metis+
  then show ?thesis
    using oeth_station_address [of "[0, 7, 0xED, 1, 2, 3]" sample_oeth sample_oeth_cfg] oeth_station_address [of "replicate 6 0xFF" sample_oeth sample_oeth_cfg]
    by simp
qed

text \<open>
  The multicast filter: the hash of every address is 0, so any list with a group address sets the first bit only; the second half
  of the filter is never cleared once all multicast packets were asked for.
\<close>

lemma oeth_multicast_list:
  assumes "\<not> promisc e" "addrs \<noteq> []"
  shows "hash_addr0 (regs (snd (openeth_ioctl (OSET_MC_LIST addrs) e))) = of_bool (\<exists>a \<in> set addrs. a ! 0 AND 1 \<noteq> 0)"
    "hash_addr1 (regs (snd (openeth_ioctl (OSET_MC_LIST addrs) e))) = hash_addr1 (regs e)"
proof -
  have "hash_addr0 (fold add_multicast as m) = hash_addr0 m OR of_bool (\<exists>a \<in> set as. a ! 0 AND 1 \<noteq> 0)" "hash_addr1 (fold add_multicast as m) = hash_addr1 m" for as m
    by (induction as arbitrary: m) (auto simp: add_multicast_def calc_crc_def or.assoc)
  then show "hash_addr0 (regs (snd (openeth_ioctl (OSET_MC_LIST addrs) e))) = of_bool (\<exists>a \<in> set addrs. a ! 0 AND 1 \<noteq> 0)"
      "hash_addr1 (regs (snd (openeth_ioctl (OSET_MC_LIST addrs) e))) = hash_addr1 (regs e)"
    using assms by (auto simp: openeth_ioctl_def oeth_set_multicast_list_def Let_def write_moder_def)
qed

text \<open>A send that is refused because the ring is full replaces the key of the packet that waits there.\<close>

lemma refused_send_loses_key:
  "tx_full e \<Longrightarrow> openeth_send cfg sg n key e = e\<lparr>tx_keys := (tx_keys e)(tx_next e := key)\<rparr>"
  by (simp add: openeth_send_def Let_def)

subsection \<open>Restarting\<close>

lemma fold_and_bds:
  "bds (fold (\<lambda>i. status_and (b + i) v) [0..<n] m) k =
     (if b \<le> k \<and> k < b + n then (bds m k)\<lparr>len_status := len_status (bds m k) AND v\<rparr> else bds m k)"
  "moder (fold (\<lambda>i. status_and (b + i) v) [0..<n] m) = moder m" "hw_tx (fold (\<lambda>i. status_and (b + i) v) [0..<n] m) = hw_tx m"
  "hw_rx (fold (\<lambda>i. status_and (b + i) v) [0..<n] m) = hw_rx m" "sent (fold (\<lambda>i. status_and (b + i) v) [0..<n] m) = sent m"
  "tx_bd_num (fold (\<lambda>i. status_and (b + i) v) [0..<n] m) = tx_bd_num m"
  by (induction n) (auto simp: status_and_def write_status_def status_def)

lemma stop_rings_empty:
  assumes "oeth_inv cfg a fs ps e"
  shows "rings_empty cfg (regs (openeth_stop cfg e))"
proof -
  note d = oeth_invD [OF assms]
  note r = rx_ringD [OF d(2)]
  have n: "tx_bd_num (regs e) = of_nat (OETH_TXBD_NUM cfg)" using d(2) by (simp add: rx_ring_def)
  show ?thesis
    using d(5-7) r(10) fold_and_bds [of 0] n
    by (auto simp: openeth_stop_def Let_def rings_empty_def fold_and_bds write_moder_keeps status_def bit_simps)
qed

text \<open>
  Restarting an interface that is up empties both rings: the frames that still waited are dropped, and the keys of these packets are
  forgotten without being released.
\<close>

lemma restart_drops:
  assumes "oeth_ok cfg" "oeth_inv cfg a fs ps e" "active e"
  shows "oeth_inv cfg 0 [] [] (openeth_start cfg e)" "outstanding cfg (openeth_start cfg e) = []" "released (openeth_start cfg e) = released e"
proof -
  have "openeth_start cfg e = openeth_start cfg ((openeth_stop cfg e)\<lparr>active := False\<rparr>)"
    using assms(3) by (simp add: openeth_start_def Let_def openeth_stop_def)
  then show "oeth_inv cfg 0 [] [] (openeth_start cfg e)" using start_inv [OF assms(1) stop_rings_empty [OF assms(2)]] by simp
  show "outstanding cfg (openeth_start cfg e) = []" "released (openeth_start cfg e) = released e"
    using assms(3) by (simp_all add: openeth_start_def openeth_stop_def outstanding_def Let_def filter_empty_conv)
qed

subsection \<open>The management interface\<close>

lemma mii_wait_ends: "mii_wait m = Some (m\<lparr>mii_busy := 0\<rparr>)"
proof (induction "mii_busy m" arbitrary: m)
  case 0
  then show ?case by (subst mii_wait.simps) (auto simp: read_miistatus_def)
next
  case (Suc n)
  have "mii_wait m = mii_wait (m\<lparr>mii_busy := n\<rparr>)"
    by (subst mii_wait.simps) (simp add: read_miistatus_def Suc.hyps(2) [symmetric])
  then show ?case using Suc.hyps(1) [of "m\<lparr>mii_busy := n\<rparr>"] by simp
qed

text \<open>What is written to a register of a PHY is read back, however long the interface is busy.\<close>

lemma mii_roundtrip:
  assumes "phy < 32" "reg < 32" "reg \<noteq> 1" "\<not> mii_invalid m"
  shows "Option.bind (write_mii phy reg v m) (\<lambda>m1. map_option fst (read_mii phy reg m1)) = Some v"
proof -
  have "unat reg \<noteq> 1" using assms(3) by (metis unat_1 word_unat_eq_iff)
  then have "mii_rgad (m\<lparr>miiaddress := push_bit 8 reg OR phy\<rparr>) \<noteq> 1" for m :: ethermac using mii_select(2) [OF assms(1,2)] by simp
  then show ?thesis
    using assms by (simp add: write_mii_def read_mii_def mii_wait_ends write_miicommand_def Let_def read_miistatus_def phy_value_def mii_fiad_def mii_rgad_def)
qed

end
