(* ===== verification/Ocm_Phy.thy ===== *)
theory Ocm_Phy
  imports Ethermac
begin

text \<open>
  The PHY of the OpenCores MAC under Altera's HAL (\<^verbatim>\<open>eth_ocm/HAL/src/eth_ocm_phy.c\<close>): access to its registers through
  the management interface, and \<^verbatim>\<open>eth_ocm_phy_init\<close>, which looks for a PHY, prepares it and reports whether
  the link is full duplex. The header enables all four kinds of PHY.
\<close>

unbundle bit_operations_syntax

subsection \<open>Register access\<close>

definition eth_ocm_set_phy_addr :: "u32 \<Rightarrow> u32 \<Rightarrow> ethermac \<Rightarrow> ethermac" where
  "eth_ocm_set_phy_addr phyad reg m = m\<lparr>miiaddress := (phyad AND 0x1F) OR (push_bit 8 reg AND 0x1F00)\<rparr>"

text \<open>The interface is polled at most \<open>n\<close> times.\<close>

fun ocm_wait :: "nat \<Rightarrow> ethermac \<Rightarrow> ethermac" where
  "ocm_wait 0 m = m"
| "ocm_wait (Suc n) m = (let (temp, m1) = read_miistatus m in if temp AND MIISTATUS_BUSY \<noteq> 0 then ocm_wait n m1 else m1)"

definition eth_ocm_wait :: "ethermac \<Rightarrow> ethermac" where
  "eth_ocm_wait m = ocm_wait 1000 m"

definition eth_ocm_write_phy_reg :: "u32 \<Rightarrow> u32 \<Rightarrow> u32 \<Rightarrow> ethermac \<Rightarrow> ethermac" where
  "eth_ocm_write_phy_reg phyad reg data m =
     eth_ocm_wait (write_miicommand MIICOMMAND_WCTRLDATA ((eth_ocm_set_phy_addr phyad reg m)\<lparr>miitx_data := data\<rparr>))"

definition eth_ocm_read_phy_reg :: "u32 \<Rightarrow> u32 \<Rightarrow> ethermac \<Rightarrow> u32 \<times> ethermac" where
  "eth_ocm_read_phy_reg phyad reg m =
     (let m1 = eth_ocm_wait (write_miicommand MIICOMMAND_RSTAT (eth_ocm_set_phy_addr phyad reg m)) in (miirx_data m1, m1))"

subsection \<open>Detection\<close>

text \<open>Addresses from \<open>dat\<close> on, \<open>n\<close> of them; the result has the two identifiers last read and the address found, or 0.\<close>

fun ocm_scan :: "nat \<Rightarrow> u32 \<Rightarrow> u32 \<times> u32 \<Rightarrow> ethermac \<Rightarrow> u32 \<times> u32 \<times> u32 \<times> ethermac" where
  "ocm_scan 0 dat (phyid, phyid2) m = (phyid, phyid2, 0, m)"
| "ocm_scan (Suc n) dat _ m =
     (let (phyid, m1) = eth_ocm_read_phy_reg dat 2 m;
          (phyid2, m2) = eth_ocm_read_phy_reg dat 3 m1
      in if phyid \<noteq> phyid2 \<and> phyid2 \<noteq> 0xFFFF then (phyid, phyid2, dat, m2) else ocm_scan n (dat + 1) (phyid, phyid2) m2)"

definition is_LXT972A :: "u32 \<Rightarrow> u32 \<Rightarrow> bool" where "is_LXT972A phyid phyid2 \<longleftrightarrow> phyid = 0x0013 \<and> phyid2 = 0x78E2"
definition is_MVL :: "u32 \<Rightarrow> bool" where "is_MVL phyid \<longleftrightarrow> phyid = 0x0141"
definition is_DP83848C :: "u32 \<Rightarrow> u32 \<Rightarrow> bool" where "is_DP83848C phyid phyid2 \<longleftrightarrow> phyid = 0x2000 \<and> phyid2 = 0x5C90"
definition is_VCS8641 :: "u32 \<Rightarrow> u32 \<Rightarrow> bool" where "is_VCS8641 phyid phyid2 \<longleftrightarrow> phyid = 0x0007 \<and> phyid2 = 0x0431"

subsection \<open>Preparation\<close>

text \<open>Changing a register: reading it, then writing the new value.\<close>

definition phy_modify :: "u32 \<Rightarrow> u32 \<Rightarrow> (u32 \<Rightarrow> u32) \<Rightarrow> ethermac \<Rightarrow> ethermac" where
  "phy_modify phyadd reg f m = (let (dat, m1) = eth_ocm_read_phy_reg phyadd reg m in eth_ocm_write_phy_reg phyadd reg (f dat) m1)"

text \<open>No gigabit autonegotiation, and a restart of autonegotiation.\<close>

definition restart_autoneg :: "u32 \<Rightarrow> ethermac \<Rightarrow> ethermac" where
  "restart_autoneg phyadd m = phy_modify phyadd 0 (\<lambda>dat. dat OR 0x200) (phy_modify phyadd 9 (\<lambda>dat. dat AND 0xFCFF) m)"

definition vitesse_script :: "u32 \<Rightarrow> ethermac \<Rightarrow> ethermac" where
  "vitesse_script phyadd m =
     (let w = eth_ocm_write_phy_reg phyadd;
          m1 = w 18 0x0000 (w 16 0xAF8A (w 31 0x52B5 m));
          m2 = phy_modify phyadd 17 (\<lambda>dat. (dat AND NOT 0x000C) OR 0x0008) m1;
          m3 = w 16 0xAF86 (w 16 0x8F8A m2);
          m4 = phy_modify phyadd 18 (\<lambda>dat. (dat AND NOT 0x000C) OR 0x0008) m3;
          m5 = w 18 0x0000 (w 16 0xAF82 (w 16 0x8F86 (w 17 0x0000 m4)));
          m6 = phy_modify phyadd 17 (\<lambda>dat. (dat AND NOT 0x0180) OR 0x0100) m5
      in w 31 0x0000 (w 16 0x8F82 m6))"

definition phy_prepare :: "u32 \<Rightarrow> u32 \<Rightarrow> u32 \<Rightarrow> ethermac \<Rightarrow> ethermac" where
  "phy_prepare phyid phyid2 phyadd m =
     (let m1 = (if is_LXT972A phyid phyid2 then snd (eth_ocm_read_phy_reg phyadd 4 m) else m);
          m2 = (if is_MVL phyid then restart_autoneg phyadd m1 else m1);
          m3 = (if is_DP83848C phyid phyid2 then snd (eth_ocm_read_phy_reg phyadd 4 m2) else m2)
      in if is_VCS8641 phyid phyid2 then restart_autoneg phyadd (vitesse_script phyadd m3) else m3)"

subsection \<open>Waiting for the link\<close>

text \<open>\<open>n\<close> more reads may still show that negotiation is not finished.\<close>

fun await_autoneg :: "nat \<Rightarrow> u32 \<Rightarrow> ethermac \<Rightarrow> ethermac" where
  "await_autoneg n phyadd m =
     (let (st, m1) = eth_ocm_read_phy_reg phyadd 1 m
      in if st AND 0x20 \<noteq> 0 then m1 else (case n of 0 \<Rightarrow> m1 | Suc k \<Rightarrow> await_autoneg k phyadd m1))"

declare await_autoneg.simps [simp del]

text \<open>The duplex mode; the last condition compares the second identifier with that of another PHY.\<close>

definition read_duplex :: "u32 \<Rightarrow> u32 \<Rightarrow> u32 \<Rightarrow> ethermac \<Rightarrow> u32 \<times> ethermac" where
  "read_duplex phyid phyid2 phyadd m =
     (let (duplex, m1) = (if is_LXT972A phyid phyid2
            then (let (dat, m') = eth_ocm_read_phy_reg phyadd 0x11 m in (drop_bit 9 dat AND 1, m')) else (1, m));
          (duplex, m2) = (if is_MVL phyid
            then (let (dat, m') = eth_ocm_read_phy_reg phyadd 0x11 (snd (eth_ocm_read_phy_reg phyadd 0x11 m1)) in (drop_bit 13 dat AND 1, m'))
            else (duplex, m1));
          (duplex, m3) = (if is_DP83848C phyid phyid2
            then (let (dat, m') = eth_ocm_read_phy_reg phyadd 0x10 m2 in (drop_bit 2 dat AND 1, m')) else (duplex, m2))
      in if phyid = 0x0007 \<and> phyid2 = 0x5C90
         then (let (dat, m') = eth_ocm_read_phy_reg phyadd 0x1C m3 in (drop_bit 5 dat AND 1, m')) else (duplex, m3))"

definition eth_ocm_phy_init :: "ethermac \<Rightarrow> u32 \<times> ethermac" where
  "eth_ocm_phy_init m =
     (let (phyid0, m0) = eth_ocm_read_phy_reg 0 2 m;
          (phyid, phyid2, phyadd, m1) = ocm_scan 255 0 (phyid0, 0) m0;
          m2 = phy_prepare phyid phyid2 phyadd m1
      in if \<not> (is_LXT972A phyid phyid2 \<or> is_MVL phyid \<or> is_DP83848C phyid phyid2 \<or> is_VCS8641 phyid phyid2) then (0, m2)
         else
           (let (st, m3) = eth_ocm_read_phy_reg phyadd 1 m2;
                m4 = (if st AND 0x20 = 0 then await_autoneg 100001 phyadd m3 else m3)
            in read_duplex phyid phyid2 phyadd m4))"

end
