(* ===== verification/Ocm_Phy_Correct.thy ===== *)
theory Ocm_Phy_Correct
  imports Ocm_Phy
begin

text \<open>What the PHY code achieves: the duplex mode that it reports is that of the first PHY that answers.\<close>

unbundle bit_operations_syntax

subsection \<open>Register access\<close>

lemma ocm_wait: "mii_busy m < n \<Longrightarrow> ocm_wait n m = m\<lparr>mii_busy := 0\<rparr>"
proof (induction n arbitrary: m)
  case (Suc n)
  show ?case
  proof (cases "mii_busy m")
    case 0
    then show ?thesis by (simp add: read_miistatus_def)
  next
    case (Suc k)
    then show ?thesis using Suc.prems Suc.IH [of "m\<lparr>mii_busy := k\<rparr>"] by (simp add: read_miistatus_def)
  qed
qed simp

text \<open>The registers of the PHYs, and a management interface that answers in time.\<close>

definition phy_state :: "(nat \<Rightarrow> nat \<Rightarrow> u32) \<Rightarrow> ethermac \<Rightarrow> bool" where
  "phy_state p m \<longleftrightarrow> phys m = p \<and> mii_time m < 1000"

lemma phy_address: "(phyad AND 0x1F) OR (push_bit 8 reg AND 0x1F00) = push_bit 8 (reg AND 0x1F) OR (phyad AND 0x1F :: u32)"
proof -
  have "(0x1F00 :: u32) = push_bit 8 0x1F" by simp
  then have "push_bit 8 reg AND 0x1F00 = push_bit 8 (reg AND 0x1F)" by (simp only: push_bit_and)
  then show ?thesis by (simp add: or.commute)
qed

lemma low5: "x AND 0x1F < (32 :: u32)" "unat (x AND 0x1F :: u32) = unat x mod 32"
proof -
  have m: "(0x1F :: u32) = mask 5" by (simp add: mask_numeral)
  have "x AND mask 5 = take_bit 5 x" by (simp add: take_bit_eq_mask)
  then show l: "unat (x AND 0x1F :: u32) = unat x mod 32" unfolding m by (simp add: take_bit_eq_mod unat_mod)
  show "x AND 0x1F < (32 :: u32)" unfolding word_less_nat_alt l by simp
qed

lemma phy_selected [simp]:
  "mii_fiad (eth_ocm_set_phy_addr phyad reg m) = unat phyad mod 32" "mii_rgad (eth_ocm_set_phy_addr phyad reg m) = unat reg mod 32"
  "phys (eth_ocm_set_phy_addr phyad reg m) = phys m" "mii_time (eth_ocm_set_phy_addr phyad reg m) = mii_time m"
  using mii_select [where m = m, OF low5(1) low5(1), of reg phyad] by (simp_all add: eth_ocm_set_phy_addr_def phy_address low5(2))

lemma command_wait: "mii_time m < 1000 \<Longrightarrow> v \<in> {2, 4} \<Longrightarrow> eth_ocm_wait (write_miicommand v m) = (write_miicommand v m)\<lparr>mii_busy := 0\<rparr>"
  unfolding eth_ocm_wait_def by (rule ocm_wait) (auto simp: write_miicommand_def Let_def)

lemma read_phy:
  assumes "phy_state p m"
  shows "phy_state p (snd (eth_ocm_read_phy_reg phyad reg m))"
    "unat reg mod 32 \<noteq> 1 \<Longrightarrow> fst (eth_ocm_read_phy_reg phyad reg m) = p (unat phyad mod 32) (unat reg mod 32)"
  using assms command_wait [of "eth_ocm_set_phy_addr phyad reg m" 2]
  by (simp_all add: eth_ocm_read_phy_reg_def phy_state_def Let_def, simp_all add: write_miicommand_def phy_value_def Let_def)

lemma write_phy:
  assumes "phy_state p m"
  shows "phy_state (p(unat phyad mod 32 := (p (unat phyad mod 32))(unat reg mod 32 := v))) (eth_ocm_write_phy_reg phyad reg v m)"
proof -
  have s: "mii_fiad (m\<lparr>miitx_data := v\<rparr>) = mii_fiad m" "mii_rgad (m\<lparr>miitx_data := v\<rparr>) = mii_rgad m" for m :: ethermac
    by (simp_all add: mii_fiad_def mii_rgad_def)
  show ?thesis
    using assms command_wait [of "(eth_ocm_set_phy_addr phyad reg m)\<lparr>miitx_data := v\<rparr>" 4]
    by (simp add: eth_ocm_write_phy_reg_def phy_state_def Let_def) (simp add: write_miicommand_def Let_def s)
qed

subsection \<open>Preparation\<close>

text \<open>The registers of the PHY at \<open>a\<close> that are not in \<open>R\<close>, and those of all the others, are not changed.\<close>

definition keeps_regs :: "nat \<Rightarrow> nat set \<Rightarrow> (nat \<Rightarrow> nat \<Rightarrow> u32) \<Rightarrow> ethermac \<Rightarrow> bool" where
  "keeps_regs a R p m \<longleftrightarrow> (\<exists>q. phy_state q m \<and> (\<forall>r. r \<notin> R \<longrightarrow> q a r = p a r))"

lemma keeps_read: "keeps_regs a R p m \<Longrightarrow> keeps_regs a R p (snd (eth_ocm_read_phy_reg phyad reg m))"
  using read_phy(1) unfolding keeps_regs_def by blast

lemma keeps_write: "keeps_regs a R p m \<Longrightarrow> unat reg mod 32 \<in> R \<Longrightarrow> keeps_regs a R p (eth_ocm_write_phy_reg phyad reg v m)"
  unfolding keeps_regs_def by (metis (no_types, lifting) fun_upd_apply write_phy)

lemma keeps_modify: "keeps_regs a R p m \<Longrightarrow> unat reg mod 32 \<in> R \<Longrightarrow> keeps_regs a R p (phy_modify phyad reg f m)"
  by (auto simp: phy_modify_def case_prod_beta Let_def intro!: keeps_write keeps_read)

lemma keeps_value:
  "keeps_regs a R p m \<Longrightarrow> unat phyad mod 32 = a \<Longrightarrow> unat reg mod 32 \<notin> R \<Longrightarrow> unat reg mod 32 \<noteq> 1 \<Longrightarrow> fst (eth_ocm_read_phy_reg phyad reg m) = p a (unat reg mod 32)"
  using read_phy(2) by (auto simp: keeps_regs_def)

lemma keeps_autoneg: "keeps_regs a R p m \<Longrightarrow> keeps_regs a R p (await_autoneg n phyad m)"
proof (induction n arbitrary: m)
  case 0
  then show ?case by (subst await_autoneg.simps) (simp add: case_prod_beta Let_def keeps_read)
next
  case (Suc n)
  then show ?case by (subst await_autoneg.simps) (simp add: case_prod_beta Let_def keeps_read)
qed

lemma keeps_prepare:
  "keeps_regs a {0, 9, 16, 17, 18, 31} p m \<Longrightarrow> keeps_regs a {0, 9, 16, 17, 18, 31} p (phy_prepare phyid phyid2 phyad m)"
  by (auto simp: phy_prepare_def restart_autoneg_def vitesse_script_def Let_def intro!: keeps_write keeps_read keeps_modify)

lemma keeps_prepare_few:
  "keeps_regs a {0, 9} p m \<Longrightarrow> \<not> is_VCS8641 phyid phyid2 \<Longrightarrow> keeps_regs a {0, 9} p (phy_prepare phyid phyid2 phyad m)"
  by (auto simp: phy_prepare_def restart_autoneg_def Let_def intro!: keeps_write keeps_read keeps_modify)

subsection \<open>Detection\<close>

definition answers :: "(nat \<Rightarrow> nat \<Rightarrow> u32) \<Rightarrow> nat \<Rightarrow> bool" where
  "answers p k \<longleftrightarrow> p k 2 \<noteq> p k 3 \<and> p k 3 \<noteq> 0xFFFF"

lemma unat_small: "k < 32 \<Longrightarrow> unat (of_nat k :: u32) = k"
  by (simp only: unsigned_of_nat) (simp add: take_bit_nat_eq_self)

lemma ocm_scan_finds:
  assumes "a < 32" "answers p a" "\<forall>k<a. \<not> answers p k"
  shows "phy_state p m \<Longrightarrow> k \<le> a \<Longrightarrow> a - k < n \<Longrightarrow> \<exists>m'. ocm_scan n (of_nat k) ids m = (p a 2, p a 3, of_nat a, m') \<and> phy_state p m'"
proof (induction n arbitrary: k ids m)
  case (Suc n)
  have k: "unat (of_nat k :: u32) mod 32 = k" using Suc.prems(2) assms(1) by (simp add: unat_small)
  obtain v1 m1 where r1: "eth_ocm_read_phy_reg (of_nat k) 2 m = (v1, m1)" by fastforce
  then have 1: "v1 = p k 2" "phy_state p m1" using read_phy [OF Suc.prems(1), where reg = 2 and phyad = "of_nat k"] k by simp_all
  obtain v2 m2 where r2: "eth_ocm_read_phy_reg (of_nat k) 3 m1 = (v2, m2)" by fastforce
  then have 2: "v2 = p k 3" "phy_state p m2" using read_phy [OF 1(2), where reg = 3 and phyad = "of_nat k"] k by simp_all
  show ?case
  proof (cases "k = a")
    case True
    then show ?thesis using assms(2) r1 r2 1 2 by (cases ids) (simp add: answers_def)
  next
    case False
    then have "\<not> answers p k" "Suc k \<le> a" "a - Suc k < n" using assms(3) Suc.prems by auto
    then show ?thesis
      using Suc.IH [OF 2(2), of "Suc k" "(v1, v2)"] r1 r2 1(1) 2(1) by (cases ids) (auto simp: answers_def add.commute)
  qed
qed simp

text \<open>
  The duplex mode. Initialisation ends, also when the link never comes up, and reports the duplex mode of the first PHY
  that answers, as its vendor's status register gives it. An unknown PHY is reported as half duplex; the Vitesse PHY
  is always reported as full duplex, because its second identifier is compared with that of another PHY.
\<close>

theorem ocm_phy_duplex:
  assumes "phy_state p m" "a < 32" "answers p a" "\<forall>k<a. \<not> answers p k"
  shows "fst (eth_ocm_phy_init m) =
     (if is_LXT972A (p a 2) (p a 3) then drop_bit 9 (p a 0x11) AND 1
      else if is_MVL (p a 2) then drop_bit 13 (p a 0x11) AND 1
      else if is_DP83848C (p a 2) (p a 3) then drop_bit 2 (p a 0x10) AND 1
      else if is_VCS8641 (p a 2) (p a 3) then 1 else 0)"
proof -
  let ?i = "p a 2" and ?j = "p a 3" and ?a = "of_nat a :: u32"
  obtain v0 m0 where r0: "eth_ocm_read_phy_reg 0 2 m = (v0, m0)" by fastforce
  have p0: "phy_state p m0" using read_phy(1) [OF assms(1), of 0 2] r0 by simp
  from ocm_scan_finds [OF assms(2-4) p0, of 0 255 "(v0, 0)"] assms(2)
  obtain m1 where sc: "ocm_scan 255 0 (v0, 0) m0 = (?i, ?j, ?a, m1)" "phy_state p m1" by auto
  have ad: "unat ?a mod 32 = a" using assms(2) by (simp add: unat_small)
  define m2 where "m2 = phy_prepare ?i ?j ?a m1"
  obtain st m3 where r3: "eth_ocm_read_phy_reg ?a 1 m2 = (st, m3)" by fastforce
  define m4 where "m4 = (if st AND 0x20 = 0 then await_autoneg 100001 ?a m3 else m3)"
  have i: "eth_ocm_phy_init m =
      (if \<not> (is_LXT972A ?i ?j \<or> is_MVL ?i \<or> is_DP83848C ?i ?j \<or> is_VCS8641 ?i ?j) then (0, m2) else read_duplex ?i ?j ?a m4)"
    unfolding eth_ocm_phy_init_def r0 sc(1) Let_def prod.case m2_def [symmetric] r3 m4_def ..
  have keeps: "keeps_regs a {0, 9} p m4" if "\<not> is_VCS8641 ?i ?j"
  proof -
    have "keeps_regs a {0, 9} p m1" using sc(2) by (auto simp: keeps_regs_def)
    then have "keeps_regs a {0, 9} p m2" unfolding m2_def using that by (rule keeps_prepare_few)
    then have "keeps_regs a {0, 9} p m3" using keeps_read [of a "{0, 9}" p m2 ?a 1] r3 by simp
    then show ?thesis by (simp add: m4_def keeps_autoneg)
  qed
  have k11: "fst (eth_ocm_read_phy_reg ?a 0x11 x) = p a 0x11" "fst (eth_ocm_read_phy_reg ?a 0x10 x) = p a 0x10" if "keeps_regs a {0, 9} p x" for x
    using keeps_value [OF that ad, where reg = 17] keeps_value [OF that ad, where reg = 16] by simp_all
  show ?thesis
  proof (cases "is_VCS8641 ?i ?j")
    case True
    then show ?thesis by (simp add: i read_duplex_def is_VCS8641_def is_LXT972A_def is_MVL_def is_DP83848C_def)
  next
    case False
    show ?thesis
      using k11 [OF keeps [OF False]] k11 [OF keeps_read [OF keeps [OF False]]] False
      by (auto simp: i read_duplex_def case_prod_beta Let_def is_LXT972A_def is_MVL_def is_DP83848C_def)
  qed
qed

theorem ocm_phy_duplex_witness:
  "\<forall>m. fst (eth_ocm_phy_init (m\<lparr>phys := (\<lambda>k r. if k = 7 then (if r = 2 then 0x0141 else if r = 3 then 0x0CC2 else 0x2000) else 0xFFFF), mii_time := 5\<rparr>)) = 1"
proof
  fix m :: ethermac
  let ?p = "\<lambda>k r. if k = 7 then (if r = 2 then 0x0141 else if r = 3 then 0x0CC2 else 0x2000) else (0xFFFF :: u32)"
  have "phy_state ?p (m\<lparr>phys := ?p, mii_time := 5\<rparr>)" by (simp add: phy_state_def)
  then show "fst (eth_ocm_phy_init (m\<lparr>phys := ?p, mii_time := 5\<rparr>)) = 1"
    using ocm_phy_duplex [of ?p "m\<lparr>phys := ?p, mii_time := 5\<rparr>" 7] by (simp add: answers_def is_LXT972A_def is_MVL_def)
qed

end
