(* ===== verification/Eth_Ocm.thy ===== *)
theory Eth_Ocm
  imports Ocm_Phy
begin

text \<open>
  The OpenCores MAC under Altera's HAL and the InterNiche stack (\<^verbatim>\<open>eth_ocm/HAL/src/ins_eth_ocm.c\<close>): packets are not
  copied, the MAC reads and writes the buffers of the stack.

  The state \<open>ocm\<close> has the driver's \<^verbatim>\<open>eth_ocm_info\<close>, the MAC, the interface's counters and what the driver exchanges
  with the stack: the queue of received packets \<open>rcvdq\<close>, the packets given back with \<^verbatim>\<open>pk_free\<close> (\<open>freed\<close>), and what
  successive calls of \<^verbatim>\<open>pk_alloc\<close> return (\<open>allocs\<close>, \<open>None\<close> when no buffer is free). The stack, the numbers of
  descriptors, the sizes the stack's headers define and the HAL's functions are parameters (\<open>ocm_cfg\<close>). The counts are
  below 128, so the driver's 8-bit indices do not wrap. Time stamps, the high-water marks of the queues and messages
  are left out.
\<close>

unbundle bit_operations_syntax

record packet =
  nb_buff :: nat
  nb_prot :: nat
  nb_plen :: u32
  pk_type :: bytes

record ocm_mib =
  ifAdminStatus :: nat
  ifOperStatus :: nat
  ifInOctets :: u32
  ifInDiscards :: u32
  ifOutOctets :: u32
  ifOutUcastPkts :: u32
  ifOutDiscards :: u32

record ocm =
  info_mac :: bytes
  sem :: bool
  cur_tx_desc :: nat
  cur_rx_desc :: nat
  rx_pkts :: "nat \<Rightarrow> packet"
  tosend :: "packet list"
  sending :: "packet list"
  next_tx_desc :: nat
  next_tx_desc_rdy :: bool
  hw :: ethermac
  mib :: ocm_mib
  rcvdq :: "packet list"
  freed :: "packet list"
  allocs :: "nat option list"
  isr_registered :: bool
  signals :: nat

record ocm_cfg =
  ETH_OCM_TX_DESC_COUNT :: nat
  ETH_OCM_RX_DESC_COUNT :: nat
  ETH_OCM_SYNC_TX :: bool
  ETHHDR_SIZE :: nat
  ETHHDR_BIAS :: nat
  ALT_CPU_FREQ :: nat
  alt_remap_cached :: "nat \<Rightarrow> nat"
  get_mac_addr :: bytes
  alt_irq_register :: int

datatype ocm_result = SUCCESS | TOO_SMALL | EFBIG | EBUSY | EIO | ETIMEDOUT | ENP_RESOURCE | ENP_NOBUFFER | SEND_DROPPED | IRQ_error int

abbreviation (input) ETH_OCM_MIN_MTU :: u32 where "ETH_OCM_MIN_MTU \<equiv> 4"
abbreviation (input) ETH_OCM_MAX_MTU :: u32 where "ETH_OCM_MAX_MTU \<equiv> 1518"
abbreviation (input) ETH_OCM_TRANSMIT_TIMEOUT :: nat where "ETH_OCM_TRANSMIT_TIMEOUT \<equiv> 1000000"
abbreviation (input) ETH_OCM_STATUS_UP :: nat where "ETH_OCM_STATUS_UP \<equiv> 1"
abbreviation (input) ETH_OCM_STATUS_DOWN :: nat where "ETH_OCM_STATUS_DOWN \<equiv> 2"

text \<open>The errors of a transmit descriptor (underrun, retransmission limit, late collision, carrier) and of a receive descriptor.\<close>

abbreviation (input) TXDESC_ERRORS :: u32 where "TXDESC_ERRORS \<equiv> 0x10D"
abbreviation (input) ETH_OCM_RXDESC_ERROR_MSK :: u32 where "ETH_OCM_RXDESC_ERROR_MSK \<equiv> 0x7F"

definition discard_out :: "ocm_mib \<Rightarrow> ocm_mib" where
  "discard_out c = c\<lparr>ifOutDiscards := ifOutDiscards c + 1\<rparr>"

definition discard_in :: "ocm_mib \<Rightarrow> ocm_mib" where
  "discard_in c = c\<lparr>ifInDiscards := ifInDiscards c + 1\<rparr>"

definition count_out :: "u32 \<Rightarrow> ocm_mib \<Rightarrow> ocm_mib" where
  "count_out n c = c\<lparr>ifOutOctets := ifOutOctets c + n, ifOutUcastPkts := ifOutUcastPkts c + 1\<rparr>"

definition pk_alloc :: "ocm \<Rightarrow> nat option \<times> ocm" where
  "pk_alloc s = (case allocs s of [] \<Rightarrow> (None, s) | r # rs \<Rightarrow> (r, s\<lparr>allocs := rs\<rparr>))"

text \<open>An index in a ring of \<open>n\<close> descriptors.\<close>

definition desc_next :: "nat \<Rightarrow> nat \<Rightarrow> nat" where
  "desc_next n i = (if i + 1 = n then 0 else i + 1)"

subsection \<open>Transmission\<close>

definition dma_ptr :: "ocm_cfg \<Rightarrow> nat \<Rightarrow> nat" where
  "dma_ptr c p = alt_remap_cached c p + ETHHDR_BIAS c"

definition low_send_check :: "u32 \<Rightarrow> u32 \<Rightarrow> ocm_result" where
  "low_send_check len ctrl =
     (let result = SUCCESS;
          result = (if len < ETH_OCM_MIN_MTU then TOO_SMALL else result);
          result = (if len > ETH_OCM_MAX_MTU then EFBIG else result)
      in if ctrl AND TX_BD_READY \<noteq> 0 then EBUSY else result)"

definition eth_ocm_low_send :: "ocm_cfg \<Rightarrow> nat \<Rightarrow> u32 \<Rightarrow> ocm \<Rightarrow> ocm_result \<times> ocm" where
  "eth_ocm_low_send c data data_bytes s =
     (let len = data_bytes - of_nat (ETHHDR_BIAS c); k = next_tx_desc s
      in if sem s then (ENP_RESOURCE, s)
         else
           (let s1 = s\<lparr>sem := True\<rparr>; result = low_send_check len (status k (hw s1))
            in if result = SUCCESS
               then
                 (let m1 = write_addr k (dma_ptr c data) (hw s1);
                      ctrl = push_bit 16 len OR TX_BD_READY OR TX_BD_IRQ OR TX_BD_PAD OR TX_BD_CRC;
                      ctrl = (if k = ETH_OCM_TX_DESC_COUNT c - 1 then ctrl OR TX_BD_WRAP else ctrl)
                  in (SUCCESS, s1\<lparr>hw := write_status k ctrl m1, sem := False\<rparr>))
               else (result, s1\<lparr>sem := False\<rparr>)))"

text \<open>The two loops of the transmit service: finished descriptors, then queued packets.\<close>

definition reap_one :: "ocm_cfg \<Rightarrow> packet \<Rightarrow> packet list \<Rightarrow> ocm \<Rightarrow> ocm" where
  "reap_one c pkt rest s =
     (let result = status (cur_tx_desc s) (hw s)
      in s\<lparr>sending := rest,
           mib := (if result AND TXDESC_ERRORS \<noteq> 0 then discard_out (mib s) else count_out (nb_plen pkt) (mib s)),
           freed := freed s @ [pkt], cur_tx_desc := desc_next (ETH_OCM_TX_DESC_COUNT c) (cur_tx_desc s), next_tx_desc_rdy := True\<rparr>)"

function tx_reap :: "ocm_cfg \<Rightarrow> ocm \<Rightarrow> ocm" where
  "tx_reap c s =
     (case sending s of [] \<Rightarrow> s
      | pkt # rest \<Rightarrow>
          if (cur_tx_desc s \<noteq> next_tx_desc s \<or> \<not> next_tx_desc_rdy s) \<and> status (cur_tx_desc s) (hw s) AND TX_BD_READY = 0
          then tx_reap c (reap_one c pkt rest s) else s)"
  by pat_completeness auto
termination by (relation "measure (\<lambda>(c, s). length (sending s))") (auto simp: reap_one_def Let_def)

declare tx_reap.simps [simp del]

definition fill_one :: "ocm_cfg \<Rightarrow> packet \<Rightarrow> packet list \<Rightarrow> ocm \<Rightarrow> ocm" where
  "fill_one c pkt rest s =
     (let (result, s1) = eth_ocm_low_send c (nb_prot pkt) (nb_plen pkt) (s\<lparr>tosend := rest\<rparr>)
      in if result \<noteq> SUCCESS then s1\<lparr>mib := discard_out (mib s1), freed := freed s1 @ [pkt]\<rparr>
         else
           (let k = desc_next (ETH_OCM_TX_DESC_COUNT c) (next_tx_desc s1)
            in s1\<lparr>next_tx_desc := k, next_tx_desc_rdy := (if k = cur_tx_desc s1 then False else next_tx_desc_rdy s1),
                  sending := sending s1 @ [pkt]\<rparr>))"

lemma low_send_queue: "tosend (snd (eth_ocm_low_send c d n s)) = tosend s"
  by (simp add: eth_ocm_low_send_def Let_def)

lemma fill_one_queue: "tosend (fill_one c pkt rest s) = rest"
  using low_send_queue [of c "nb_prot pkt" "nb_plen pkt" "s\<lparr>tosend := rest\<rparr>"] by (simp add: fill_one_def case_prod_beta Let_def)

function tx_fill :: "ocm_cfg \<Rightarrow> ocm \<Rightarrow> ocm" where
  "tx_fill c s =
     (case tosend s of [] \<Rightarrow> s
      | pkt # rest \<Rightarrow>
          if next_tx_desc_rdy s \<and> status (next_tx_desc s) (hw s) AND TX_BD_READY = 0 then tx_fill c (fill_one c pkt rest s) else s)"
  by pat_completeness auto
termination by (relation "measure (\<lambda>(c, s). length (tosend s))") (auto simp: fill_one_queue)

declare tx_fill.simps [simp del]

definition eth_ocm_tx_isr :: "ocm_cfg \<Rightarrow> ocm \<Rightarrow> ocm" where
  "eth_ocm_tx_isr c s = tx_fill c (tx_reap c s)"

definition eth_ocm_pkt_send :: "ocm_cfg \<Rightarrow> packet \<Rightarrow> ocm \<Rightarrow> ocm_result \<times> ocm" where
  "eth_ocm_pkt_send c pkt s = (SUCCESS, eth_ocm_tx_isr c (s\<lparr>tosend := tosend s @ [pkt]\<rparr>))"

subsection \<open>Synchronous transmission\<close>

text \<open>\<open>env i\<close> is what the MAC does before the descriptor is read for the \<open>i\<close>th time.\<close>

function raw_poll :: "(nat \<Rightarrow> ethermac \<Rightarrow> ethermac) \<Rightarrow> nat \<Rightarrow> ethermac \<Rightarrow> u32 \<times> nat \<times> ethermac" where
  "raw_poll env i m =
     (let m1 = env i m; result = status 0 m1
      in if result AND TX_BD_READY \<noteq> 0 \<and> i + 1 < ETH_OCM_TRANSMIT_TIMEOUT then raw_poll env (i + 1) m1 else (result, i + 1, m1))"
  by pat_completeness auto
termination by (relation "measure (\<lambda>(env, i, m). ETH_OCM_TRANSMIT_TIMEOUT - i)") auto

declare raw_poll.simps [simp del]

definition eth_ocm_raw_send :: "ocm_cfg \<Rightarrow> (nat \<Rightarrow> ethermac \<Rightarrow> ethermac) \<Rightarrow> nat \<Rightarrow> u32 \<Rightarrow> ocm \<Rightarrow> ocm_result \<times> ocm" where
  "eth_ocm_raw_send c env data data_bytes s =
     (let len = data_bytes - of_nat (ETHHDR_BIAS c)
      in if sem s then (ENP_RESOURCE, s)
         else
           (let s1 = s\<lparr>sem := True\<rparr>;
                (result, s2) =
                  (case low_send_check len (status 0 (hw s1)) of
                     SUCCESS \<Rightarrow>
                       (let m1 = write_addr 0 (dma_ptr c data) (hw s1);
                            m2 = write_status 0 (push_bit 16 len OR TX_BD_READY OR TX_BD_WRAP OR TX_BD_PAD OR TX_BD_CRC) m1;
                            (ctrl, i, m3) = raw_poll env 0 m2;
                            result = (if i < ETH_OCM_TRANSMIT_TIMEOUT then (if ctrl AND TXDESC_ERRORS \<noteq> 0 then EIO else SUCCESS) else ETIMEDOUT)
                        in (result, s1\<lparr>hw := m3\<rparr>))
                   | e \<Rightarrow> (e, s1))
            in if result = SUCCESS then (SUCCESS, s2\<lparr>mib := count_out data_bytes (mib s2), sem := False\<rparr>)
               else (SEND_DROPPED, s2\<lparr>mib := discard_out (mib s2), sem := False\<rparr>)))"

subsection \<open>Reception\<close>

definition rx_ctrl :: "ocm_cfg \<Rightarrow> nat \<Rightarrow> u32" where
  "rx_ctrl c i = (let temp = RX_BD_EMPTY OR RX_BD_IRQ in if i = ETH_OCM_RX_DESC_COUNT c - 1 then temp OR RX_BD_WRAP else temp)"

text \<open>A receive descriptor is handed to the MAC with the buffer of a packet.\<close>

definition arm_rx :: "ocm_cfg \<Rightarrow> nat \<Rightarrow> packet \<Rightarrow> ethermac \<Rightarrow> ethermac" where
  "arm_rx c i pkt m =
     (let k = ETH_OCM_TX_DESC_COUNT c + i in write_status k (rx_ctrl c i) (write_addr k (dma_ptr c (nb_buff pkt)) m))"

text \<open>A packet from the allocator; the driver sets every field but the buffer before it uses one.\<close>

definition new_packet :: "nat \<Rightarrow> packet" where
  "new_packet b = \<lparr>nb_buff = b, nb_prot = b, nb_plen = 0, pk_type = []\<rparr>"

definition ocm_rx_round :: "ocm_cfg \<Rightarrow> nat \<Rightarrow> u32 \<Rightarrow> ocm \<Rightarrow> ocm" where
  "ocm_rx_round c cur stat s =
     (let pklen = signed_drop_bit 16 (stat AND 0xFFFF0000);
          mib1 = (mib s)\<lparr>ifInOctets := ifInOctets (mib s) + pklen\<rparr>;
          b = nb_buff (rx_pkts s cur);
          pkt = \<lparr>nb_buff = b, nb_prot = b + ETHHDR_SIZE c, nb_plen = pklen - (14 + 4),
                 pk_type = load (ram (hw s)) (b + ETHHDR_BIAS c + 12) 2\<rparr>;
          s1 = s\<lparr>mib := mib1, rx_pkts := (rx_pkts s)(cur := pkt)\<rparr>;
          s2 = (if stat AND ETH_OCM_RXDESC_ERROR_MSK = 0
                then (case pk_alloc s1 of
                        (None, s') \<Rightarrow> s'\<lparr>mib := discard_in (mib s')\<rparr>
                      | (Some b', s') \<Rightarrow> s'\<lparr>rcvdq := rcvdq s' @ [pkt], rx_pkts := (rx_pkts s')(cur := new_packet b')\<rparr>)
                else s1\<lparr>mib := discard_in (mib s1)\<rparr>)
      in s2\<lparr>hw := arm_rx c cur (rx_pkts s2 cur) (hw s2)\<rparr>)"

partial_function (option) ocm_rx_loop :: "ocm_cfg \<Rightarrow> nat \<Rightarrow> ocm \<Rightarrow> ocm option" where
  "ocm_rx_loop c cur s =
     (let stat = status (ETH_OCM_TX_DESC_COUNT c + cur) (hw s)
      in if stat AND RX_BD_EMPTY = 0 then ocm_rx_loop c (desc_next (ETH_OCM_RX_DESC_COUNT c) cur) (ocm_rx_round c cur stat s)
         else Some (s\<lparr>cur_rx_desc := cur\<rparr>))"

definition eth_ocm_rx_isr :: "ocm_cfg \<Rightarrow> ocm \<Rightarrow> ocm option" where
  "eth_ocm_rx_isr c s = ocm_rx_loop c (cur_rx_desc s) s"

subsection \<open>The interrupt service\<close>

text \<open>One pass of the loop, for the flags \<open>result\<close>.\<close>

definition isr_pass :: "ocm_cfg \<Rightarrow> u32 \<Rightarrow> ocm \<Rightarrow> ocm option" where
  "isr_pass c result s =
     do { let s0 = s\<lparr>hw := write_int_src result (hw s)\<rparr>;
          s1 \<leftarrow> (if result AND (INT_RXF OR INT_RXE) \<noteq> 0
                 then do { s' \<leftarrow> eth_ocm_rx_isr c s0; Some (if rcvdq s' \<noteq> [] then s'\<lparr>signals := signals s' + 1\<rparr> else s') }
                 else Some s0);
          let s2 = (if result AND INT_BUSY \<noteq> 0 then s1\<lparr>mib := discard_in (mib s1)\<rparr> else s1);
          Some (if \<not> ETH_OCM_SYNC_TX c \<and> result AND (INT_TXE OR INT_TXB) \<noteq> 0 then eth_ocm_tx_isr c s2 else s2) }"

text \<open>\<open>envs\<close> is what the MAC does before each of the following reads of the flags; when it is empty, it does nothing.\<close>

fun eth_ocm_isr :: "ocm_cfg \<Rightarrow> (ethermac \<Rightarrow> ethermac) list \<Rightarrow> ocm \<Rightarrow> ocm option" where
  "eth_ocm_isr c envs s =
     (let result = int_src (hw s)
      in if result = 0 then Some s
         else do { s1 \<leftarrow> isr_pass c result s;
                   (case envs of [] \<Rightarrow> Some s1 | env # rest \<Rightarrow> eth_ocm_isr c rest (s1\<lparr>hw := env (hw s1)\<rparr>)) })"

declare eth_ocm_isr.simps [simp del]

subsection \<open>Initialisation\<close>

text \<open>A word of the descriptor table.\<close>

definition write_bd_word :: "nat \<Rightarrow> u32 \<Rightarrow> ethermac \<Rightarrow> ethermac" where
  "write_bd_word w v m = (let k = (w - 0x100) div 2 in if even w then write_status k v m else write_addr k (unat v) m)"

fun ocm_read_init :: "ocm_cfg \<Rightarrow> nat \<Rightarrow> nat \<Rightarrow> ocm \<Rightarrow> ocm_result \<times> ocm" where
  "ocm_read_init c 0 i s = (SUCCESS, s)"
| "ocm_read_init c (Suc n) i s =
     (case pk_alloc s of
        (None, s1) \<Rightarrow> (ENP_NOBUFFER, s1)
      | (Some b, s1) \<Rightarrow>
          let s2 = s1\<lparr>rx_pkts := (rx_pkts s1)(i := new_packet b)\<rparr>
          in if status (ETH_OCM_TX_DESC_COUNT c + i) (hw s2) AND RX_BD_EMPTY = 0
             then ocm_read_init c n (i + 1) (s2\<lparr>hw := arm_rx c i (rx_pkts s2 i) (hw s2)\<rparr>)
             else (ENP_RESOURCE, s2))"

definition eth_ocm_read_init :: "ocm_cfg \<Rightarrow> ocm \<Rightarrow> ocm_result \<times> ocm" where
  "eth_ocm_read_init c s = ocm_read_init c (ETH_OCM_RX_DESC_COUNT c) 0 s"

definition mac_word0 :: "bytes \<Rightarrow> u32" where
  "mac_word0 a = ucast (a ! 5) OR push_bit 8 (ucast (a ! 4)) OR push_bit 16 (ucast (a ! 3)) OR push_bit 24 (ucast (a ! 2))"

definition mac_word1 :: "bytes \<Rightarrow> u32" where
  "mac_word1 a = ucast (a ! 1) OR push_bit 8 (ucast (a ! 0))"

definition ocm_configure :: "ocm_cfg \<Rightarrow> bytes \<Rightarrow> ethermac \<Rightarrow> ethermac" where
  "ocm_configure c addr m =
     (let m1 = write_moder 0 (fold (\<lambda>w. write_bd_word w 0) [0x100..<0x1FF] m);
          m2 = m1\<lparr>tx_bd_num := of_nat (ETH_OCM_TX_DESC_COUNT c), miimoder := (of_nat (ALT_CPU_FREQ c div 1000000) + 2) AND 0xFFFFFFFE\<rparr>;
          (dx, m3) = eth_ocm_phy_init (write_miicommand 0 m2);
          duplex = (if dx \<noteq> 0 then 0x400 else 0);
          m4 = write_int_src 0xFFFFFFFF (m3\<lparr>int_mask := INT_BUSY OR INT_TXE OR INT_TXB OR INT_RXE OR INT_RXF\<rparr>);
          m5 = m4\<lparr>ipgt := (if duplex \<noteq> 0 then 0x15 else 0x12)\<rparr>;
          m6 = m5\<lparr>ipgr2 := 0xC\<rparr>;
          m7 = m6\<lparr>ipgr2 := 0x12, packet_len := 0x00400600, collconf := 0x000F003F, ctrlmoder := 0,
                  mac_addr0 := mac_word0 addr, mac_addr1 := mac_word1 addr\<rparr>
      in write_moder (0x8000 OR 0x2000 OR MODER_RXEN OR MODER_TXEN OR duplex) m7)"

definition eth_ocm_init :: "ocm_cfg \<Rightarrow> ocm \<Rightarrow> ocm_result \<times> ocm" where
  "eth_ocm_init c s =
     (let s1 = s\<lparr>hw := ocm_configure c (info_mac s) (hw s), cur_tx_desc := 0, cur_rx_desc := 0\<rparr>;
          s2 = (if ETH_OCM_SYNC_TX c then s1 else s1\<lparr>next_tx_desc := 0, next_tx_desc_rdy := True, tosend := [], sending := []\<rparr>);
          s3 = s2\<lparr>mib := (mib s2)\<lparr>ifAdminStatus := ETH_OCM_STATUS_UP, ifOperStatus := ETH_OCM_STATUS_UP\<rparr>\<rparr>;
          s4 = (if alt_irq_register c = 0 then s3\<lparr>isr_registered := True\<rparr> else s3)
      in (SUCCESS, snd (eth_ocm_read_init c s4)))"

definition eth_ocm_prep :: "ocm_cfg \<Rightarrow> nat \<Rightarrow> ocm \<Rightarrow> nat \<times> ocm" where
  "eth_ocm_prep c if_num s =
     (if_num + 1, s\<lparr>sem := False, mib := (mib s)\<lparr>ifAdminStatus := ETH_OCM_STATUS_DOWN, ifOperStatus := ETH_OCM_STATUS_DOWN\<rparr>,
                    info_mac := get_mac_addr c\<rparr>)"

definition eth_ocm_close :: "ocm_cfg \<Rightarrow> ocm \<Rightarrow> ocm_result \<times> ocm" where
  "eth_ocm_close c s =
     (let s1 = s\<lparr>mib := (mib s)\<lparr>ifAdminStatus := ETH_OCM_STATUS_DOWN\<rparr>\<rparr>
      in if alt_irq_register c \<noteq> 0 then (IRQ_error (alt_irq_register c), s1)
         else (SUCCESS, s1\<lparr>isr_registered := False, hw := write_moder 0 (hw s1), mib := (mib s1)\<lparr>ifOperStatus := ETH_OCM_STATUS_DOWN\<rparr>\<rparr>))"

end
