(* ===== verification/Eth_Ocm_Correct.thy ===== *)
theory Eth_Ocm_Correct
  imports Eth_Ocm Mac_Ring "HOL-Library.Multiset" "HOL-Library.Sublist"
begin

text \<open>
  Correctness of the OpenCores driver under the InterNiche stack. The invariant \<open>ocm_inv\<close> ties the driver's queues to
  the descriptor rings of the MAC (\<open>Mac_Ring\<close>) and says that no buffer is used twice; every routine of the driver and
  every action of the MAC preserves it.
\<close>

unbundle bit_operations_syntax

definition ocm_ok :: "ocm_cfg \<Rightarrow> bool" where
  "ocm_ok c \<longleftrightarrow> 0 < ETH_OCM_TX_DESC_COUNT c \<and> 0 < ETH_OCM_RX_DESC_COUNT c \<and> ETH_OCM_TX_DESC_COUNT c + ETH_OCM_RX_DESC_COUNT c \<le> 128 \<and>
     ETHHDR_SIZE c = ETHHDR_BIAS c + 14"

abbreviation (input) TXN :: "ocm_cfg \<Rightarrow> nat" where "TXN c \<equiv> ETH_OCM_TX_DESC_COUNT c"
abbreviation (input) RXN :: "ocm_cfg \<Rightarrow> nat" where "RXN c \<equiv> ETH_OCM_RX_DESC_COUNT c"

text \<open>The room of a receive buffer behind the bias.\<close>

definition room :: "ocm_cfg \<Rightarrow> nat" where
  "room c = 1536 - ETHHDR_BIAS c"

subsection \<open>Packets and buffers\<close>

definition pkt_addr :: "ocm_cfg \<Rightarrow> packet \<Rightarrow> nat" where
  "pkt_addr c p = dma_ptr c (nb_prot p)"

definition pkt_len :: "ocm_cfg \<Rightarrow> packet \<Rightarrow> nat" where
  "pkt_len c p = unat (nb_plen p - of_nat (ETHHDR_BIAS c))"

definition fits :: "ocm_cfg \<Rightarrow> packet \<Rightarrow> bool" where
  "fits c p \<longleftrightarrow> 4 \<le> pkt_len c p \<and> pkt_len c p \<le> 1518"

definition pkt_frame :: "ocm_cfg \<Rightarrow> (nat \<Rightarrow> u8) \<Rightarrow> packet \<Rightarrow> bytes" where
  "pkt_frame c r p = load r (pkt_addr c p) (pkt_len c p)"

text \<open>A receive buffer at \<open>x\<close> and the frame of a packet have no byte in common.\<close>

definition clear_of :: "ocm_cfg \<Rightarrow> nat \<Rightarrow> packet \<Rightarrow> bool" where
  "clear_of c x p \<longleftrightarrow> pkt_addr c p + pkt_len c p \<le> x \<or> x + room c \<le> pkt_addr c p"

definition spare :: "ocm_cfg \<Rightarrow> nat option list \<Rightarrow> nat multiset" where
  "spare c rs = mset (List.map_filter (map_option (dma_ptr c)) rs)"

text \<open>All the buffers for reception: those of the descriptors, of the received packets and of the allocator.\<close>

definition rx_bufs :: "ocm_cfg \<Rightarrow> ocm \<Rightarrow> nat multiset" where
  "rx_bufs c s =
     image_mset (\<lambda>i. dma_ptr c (nb_buff (rx_pkts s i))) (mset_set {..<RXN c}) + image_mset (\<lambda>p. dma_ptr c (nb_buff p)) (mset (rcvdq s)) +
     spare c (allocs s)"

definition apart :: "nat \<Rightarrow> nat multiset \<Rightarrow> bool" where
  "apart cap M \<longleftrightarrow> (\<forall>x y. {#x, y#} \<subseteq># M \<longrightarrow> far cap x y)"

definition bufs_ok :: "ocm_cfg \<Rightarrow> ocm \<Rightarrow> bool" where
  "bufs_ok c s \<longleftrightarrow> apart (room c) (rx_bufs c s) \<and> (\<forall>x \<in># rx_bufs c s. \<forall>p \<in> set (sending s) \<union> set (tosend s). clear_of c x p)"

definition ocm_inv :: "ocm_cfg \<Rightarrow> nat \<Rightarrow> bytes list \<Rightarrow> (bytes \<times> u32) list \<Rightarrow> ocm \<Rightarrow> bool" where
  "ocm_inv c a fs ps s \<longleftrightarrow>
     tx_ring (TXN c) (cur_tx_desc s) a fs (hw s) \<and> rx_ring (room c) (TXN c) (RXN c) (cur_rx_desc s) ps (hw s) \<and>
     next_tx_desc s = (cur_tx_desc s + a + length fs) mod TXN c \<and> (next_tx_desc_rdy s \<longleftrightarrow> a + length fs < TXN c) \<and>
     length (sending s) = a + length fs \<and> map (pkt_frame c (ram (hw s))) (drop a (sending s)) = fs \<and>
     (\<forall>j<length fs. bd_addr (bds (hw s) ((cur_tx_desc s + a + j) mod TXN c)) = pkt_addr c (sending s ! (a + j))) \<and>
     bit (moder (hw s)) 1 \<and> \<not> sem s \<and> (\<forall>i<RXN c. bd_addr (bds (hw s) (TXN c + i)) = dma_ptr c (nb_buff (rx_pkts s i))) \<and> bufs_ok c s"

lemma ocm_invD:
  assumes "ocm_inv c a fs ps s"
  shows "tx_ring (TXN c) (cur_tx_desc s) a fs (hw s)" "rx_ring (room c) (TXN c) (RXN c) (cur_rx_desc s) ps (hw s)"
    "next_tx_desc s = (cur_tx_desc s + a + length fs) mod TXN c" "next_tx_desc_rdy s \<longleftrightarrow> a + length fs < TXN c"
    "length (sending s) = a + length fs" "map (pkt_frame c (ram (hw s))) (drop a (sending s)) = fs"
    "j < length fs \<Longrightarrow> bd_addr (bds (hw s) ((cur_tx_desc s + a + j) mod TXN c)) = pkt_addr c (sending s ! (a + j))"
    "bit (moder (hw s)) 1" "\<not> sem s" "i < RXN c \<Longrightarrow> bd_addr (bds (hw s) (TXN c + i)) = dma_ptr c (nb_buff (rx_pkts s i))" "bufs_ok c s"
  using assms by (auto simp: ocm_inv_def)

lemma desc_next: "i < n \<Longrightarrow> desc_next n i = Suc i mod n"
  by (auto simp: desc_next_def)

subsection \<open>Collecting sent packets\<close>

text \<open>The guard of the loop: there is something to collect, and its descriptor is finished.\<close>

lemma reap_guard:
  assumes "ocm_inv c a fs ps s"
  shows "sending s \<noteq> [] \<and> (cur_tx_desc s \<noteq> next_tx_desc s \<or> \<not> next_tx_desc_rdy s) \<and> status (cur_tx_desc s) (hw s) AND 0x8000 = 0 \<longleftrightarrow> 0 < a"
proof -
  note d = ocm_invD [OF assms]
  note t = tx_ringD [OF d(1)]
  have r: "bit (status (cur_tx_desc s) (hw s)) 15 \<longleftrightarrow> a = 0 \<and> fs \<noteq> []" using t(5) [of 0] t(1) by auto
  have "cur_tx_desc s \<noteq> next_tx_desc s \<or> \<not> next_tx_desc_rdy s" if "0 < a"
  proof (cases "a + length fs < TXN c")
    case True
    then show ?thesis using d(3) ring_inj [of 0 "TXN c" "a + length fs" "cur_tx_desc s"] t(1) that by (simp add: add.assoc)
  next
    case False
    then show ?thesis using d(4) by simp
  qed
  moreover have "sending s \<noteq> []" if "0 < a" using d(5) that by auto
  moreover have "bit (status (cur_tx_desc s) (hw s)) 15" if "a = 0" "sending s \<noteq> []" using r d(5) that by auto
  ultimately show ?thesis using r by (auto simp: flag_bits)
qed

lemma ocm_inv_reap_one:
  assumes "ocm_inv c (Suc a) fs ps s" "sending s = p # rest"
  shows "ocm_inv c a fs ps (reap_one c p rest s)"
proof -
  note d = ocm_invD [OF assms(1)]
  note t = tx_ringD [OF d(1)]
  have n: "desc_next (TXN c) (cur_tx_desc s) = Suc (cur_tx_desc s) mod TXN c" by (rule desc_next [OF t(1)])
  have sh: "(Suc (cur_tx_desc s) mod TXN c + x) mod TXN c = (cur_tx_desc s + Suc x) mod TXN c" for x by (simp add: mod_add_left_eq)
  have "bd_addr (bds (hw s) ((Suc (cur_tx_desc s) mod TXN c + a + j) mod TXN c)) = pkt_addr c (rest ! (a + j))" if "j < length fs" for j
    using d(7) [OF that] assms(2) sh [of "a + j"] by (simp add: add.assoc)
  moreover have "(cur_tx_desc s + Suc a + length fs) mod TXN c = (Suc (cur_tx_desc s) mod TXN c + a + length fs) mod TXN c"
    using sh [of "a + length fs"] by (simp add: add.assoc)
  moreover have "bufs_ok c (reap_one c p rest s)"
    using d(11) assms(2) by (simp add: bufs_ok_def rx_bufs_def reap_one_def Let_def)
  ultimately show ?thesis
    using tx_ring_collect [OF d(1)] d(2,3,5,6,8,9,10) t(2) assms(2) by (simp add: ocm_inv_def reap_one_def Let_def n)
qed

lemma tx_reap:
  assumes "ocm_inv c a fs ps s"
  shows "\<exists>mb k r. tx_reap c s = s\<lparr>sending := drop a (sending s), mib := mb, freed := freed s @ take a (sending s),
      cur_tx_desc := k, next_tx_desc_rdy := r\<rparr> \<and> ocm_inv c 0 fs ps (tx_reap c s)"
  using assms
proof (induction a arbitrary: s)
  case 0
  then have "tx_reap c s = s" using reap_guard [OF 0] by (subst tx_reap.simps) (auto split: list.split)
  then show ?case using 0 by (intro exI [of _ "mib s"] exI [of _ "cur_tx_desc s"] exI [of _ "next_tx_desc_rdy s"]) simp
next
  case (Suc a)
  obtain p rest where q: "sending s = p # rest" using ocm_invD(5) [OF Suc.prems] by (cases "sending s") auto
  have step: "tx_reap c s = tx_reap c (reap_one c p rest s)"
    using reap_guard [OF Suc.prems] q by (subst tx_reap.simps) simp
  have u: "sending (reap_one c p rest s) = rest" "freed (reap_one c p rest s) = freed s @ [p]" by (simp_all add: reap_one_def Let_def)
  from Suc.IH [OF ocm_inv_reap_one [OF Suc.prems q]] obtain mb k r where
    e: "tx_reap c s = (reap_one c p rest s)\<lparr>sending := drop a rest, mib := mb, freed := freed s @ p # take a rest,
      cur_tx_desc := k, next_tx_desc_rdy := r\<rparr>" and i: "ocm_inv c 0 fs ps (tx_reap c s)"
    unfolding step u by auto
  have "tx_reap c s = s\<lparr>sending := drop (Suc a) (sending s), mib := mb, freed := freed s @ take (Suc a) (sending s), cur_tx_desc := k, next_tx_desc_rdy := r\<rparr>"
    using e by (simp add: reap_one_def Let_def q)
  then show ?case using i by blast
qed


subsection \<open>Handing packets to the MAC\<close>

definition tx_ctrl :: "ocm_cfg \<Rightarrow> nat \<Rightarrow> u32 \<Rightarrow> u32" where
  "tx_ctrl c k len =
     (if k = TXN c - 1 then (push_bit 16 len OR 0x8000 OR 0x4000 OR 0x1000 OR 0x0800) OR 0x2000 else push_bit 16 len OR 0x8000 OR 0x4000 OR 0x1000 OR 0x0800)"

text \<open>A length in the upper half of a word, flags in the lower half.\<close>

lemma len_word:
  fixes len f :: u32
  assumes "take_bit 16 f = f"
  shows "unat len < 2 ^ 16 \<Longrightarrow> drop_bit 16 (push_bit 16 len OR f) = len" "push_bit 16 len AND f = 0"
proof -
  have f: "bit f n \<Longrightarrow> n < 16" for n by (metis assms bit_take_bit_iff)
  show "push_bit 16 len AND f = 0" by (rule bit_word_eqI) (auto simp: bit_simps dest: f)
  assume "unat len < 2 ^ 16"
  then have "take_bit 16 len = len" by (simp add: take_bit_eq_mod word_arith_nat_mod mod_less unat_of_nat)
  then have "bit len n \<Longrightarrow> n < 16" for n by (metis bit_take_bit_iff)
  then show "drop_bit 16 (push_bit 16 len OR f) = len" by (intro bit_word_eqI) (auto simp: bit_simps dest: f)
qed

lemma tx_ctrl:
  assumes "unat len < 2 ^ 16"
  shows "bit (tx_ctrl c k len) 15" "bit (tx_ctrl c k len) 13 \<longleftrightarrow> k = TXN c - 1" "unat (drop_bit 16 (tx_ctrl c k len)) = unat len"
proof -
  have e: "tx_ctrl c k len = push_bit 16 len OR (if k = TXN c - 1 then 0xF800 else 0xD800)" by (simp add: tx_ctrl_def or.assoc)
  show "bit (tx_ctrl c k len) 15" "bit (tx_ctrl c k len) 13 \<longleftrightarrow> k = TXN c - 1" by (simp_all add: e bit_simps)
  show "unat (drop_bit 16 (tx_ctrl c k len)) = unat len" unfolding e by (subst len_word(1) [OF _ assms]) simp_all
qed

lemma write_addr_keeps [mac_simps]:
  "status i (write_addr k x m) = status i m" "ram (write_addr k x m) = ram m" "hw_tx (write_addr k x m) = hw_tx m"
  "hw_rx (write_addr k x m) = hw_rx m" "sent (write_addr k x m) = sent m" "moder (write_addr k x m) = moder m"
  "tx_bd_num (write_addr k x m) = tx_bd_num m" "int_src (write_addr k x m) = int_src m"
  "bd_addr (bds (write_addr k x m) i) = (if i = k then x else bd_addr (bds m i))"
  by (simp_all add: write_addr_def status_def)

text \<open>A descriptor gets an address and a control word.\<close>

definition put_bd :: "nat \<Rightarrow> nat \<Rightarrow> u32 \<Rightarrow> ethermac \<Rightarrow> ethermac" where
  "put_bd k x v m = write_status k v (write_addr k x m)"

lemma put_bd [simp]:
  "status i (put_bd k x v m) = (if i = k then v else status i m)" "ram (put_bd k x v m) = ram m" "hw_tx (put_bd k x v m) = hw_tx m"
  "hw_rx (put_bd k x v m) = hw_rx m" "sent (put_bd k x v m) = sent m" "moder (put_bd k x v m) = moder m"
  "tx_bd_num (put_bd k x v m) = tx_bd_num m" "int_src (put_bd k x v m) = int_src m"
  "bd_addr (bds (put_bd k x v m) i) = (if i = k then x else bd_addr (bds m i))"
  "i \<noteq> k \<Longrightarrow> bds (put_bd k x v m) i = bds m i"
  by (simp_all add: put_bd_def mac_simps) (simp_all add: write_status_def write_addr_def)

lemma low_send_check:
  "low_send_check len ctrl = SUCCESS \<longleftrightarrow> \<not> bit ctrl 15 \<and> 4 \<le> unat len \<and> unat len \<le> 1518"
  by (auto simp: low_send_check_def Let_def flag_bits word_less_nat_alt word_le_nat_alt)

lemma low_send:
  assumes "\<not> sem s" "\<not> bit (status (next_tx_desc s) (hw s)) 15"
  shows "fits c p \<Longrightarrow> eth_ocm_low_send c (nb_prot p) (nb_plen p) s = (SUCCESS, s\<lparr>hw := put_bd (next_tx_desc s) (pkt_addr c p)
        (tx_ctrl c (next_tx_desc s) (nb_plen p - of_nat (ETHHDR_BIAS c))) (hw s)\<rparr>)"
    "\<not> fits c p \<Longrightarrow> \<exists>e. e \<noteq> SUCCESS \<and> eth_ocm_low_send c (nb_prot p) (nb_plen p) s = (e, s)"
proof -
  have sem: "s\<lparr>sem := True, sem := False\<rparr> = s" "s\<lparr>sem := True, hw := m, sem := False\<rparr> = s\<lparr>hw := m\<rparr>" for m
    using assms(1) by simp_all
  have k: "low_send_check (nb_plen p - of_nat (ETHHDR_BIAS c)) (status (next_tx_desc s) (hw s)) = SUCCESS \<longleftrightarrow> fits c p"
    using assms(2) by (simp add: low_send_check fits_def pkt_len_def)
  show "fits c p \<Longrightarrow> eth_ocm_low_send c (nb_prot p) (nb_plen p) s = (SUCCESS, s\<lparr>hw := put_bd (next_tx_desc s) (pkt_addr c p)
        (tx_ctrl c (next_tx_desc s) (nb_plen p - of_nat (ETHHDR_BIAS c))) (hw s)\<rparr>)"
    using assms k by (simp add: eth_ocm_low_send_def Let_def put_bd_def pkt_addr_def tx_ctrl_def)
  show "\<not> fits c p \<Longrightarrow> \<exists>e. e \<noteq> SUCCESS \<and> eth_ocm_low_send c (nb_prot p) (nb_plen p) s = (e, s)"
    using assms k by (simp add: eth_ocm_low_send_def Let_def)
qed


text \<open>What the transmit side does not touch.\<close>

definition rx_same :: "ocm \<Rightarrow> ocm \<Rightarrow> bool" where
  "rx_same s s' \<longleftrightarrow> rx_pkts s' = rx_pkts s \<and> rcvdq s' = rcvdq s \<and> allocs s' = allocs s \<and> cur_rx_desc s' = cur_rx_desc s \<and>
     ram (hw s') = ram (hw s) \<and> sent (hw s') = sent (hw s) \<and> int_src (hw s') = int_src (hw s)"

lemma fill_one_refused:
  assumes "ocm_inv c 0 fs ps s" "length fs < TXN c" "tosend s = p # rest" "\<not> fits c p"
  shows "fill_one c p rest s = s\<lparr>tosend := rest, mib := discard_out (mib s), freed := freed s @ [p]\<rparr>" "ocm_inv c 0 fs ps (fill_one c p rest s)"
proof -
  note d = ocm_invD [OF assms(1)]
  have "\<not> bit (status (next_tx_desc s) (hw s)) 15" using tx_ringD(5) [OF d(1) assms(2)] d(3) by simp
  then show e: "fill_one c p rest s = s\<lparr>tosend := rest, mib := discard_out (mib s), freed := freed s @ [p]\<rparr>"
    using low_send(2) [of "s\<lparr>tosend := rest\<rparr>" c p] assms(4) d(9) by (auto simp: fill_one_def)
  show "ocm_inv c 0 fs ps (fill_one c p rest s)"
    using assms(1,3) unfolding e by (simp add: ocm_inv_def bufs_ok_def rx_bufs_def)
qed

lemma fill_one_sent:
  assumes "ocm_inv c 0 fs ps s" "length fs < TXN c" "tosend s = p # rest" "fits c p"
  shows "ocm_inv c 0 (fs @ [pkt_frame c (ram (hw s)) p]) ps (fill_one c p rest s)"
    and "sending (fill_one c p rest s) = sending s @ [p]" "freed (fill_one c p rest s) = freed s" "rx_same s (fill_one c p rest s)"
proof -
  let ?f = "pkt_frame c (ram (hw s)) p" and ?s = "fill_one c p rest s"
  note d = ocm_invD [OF assms(1)]
  note t = tx_ringD [OF d(1)]
  let ?k = "next_tx_desc s" and ?N = "TXN c" and ?l = "cur_tx_desc s"
  have k: "?k = (?l + 0 + length fs) mod ?N" "?k < ?N" using d(3) t(1) by simp_all
  define m where "m = put_bd ?k (pkt_addr c p) (tx_ctrl c ?k (nb_plen p - of_nat (ETHHDR_BIAS c))) (hw s)"
  have "\<not> bit (status ?k (hw s)) 15" using t(5) [OF assms(2)] d(3) by simp
  then have low: "eth_ocm_low_send c (nb_prot p) (nb_plen p) (s\<lparr>tosend := rest\<rparr>) = (SUCCESS, s\<lparr>tosend := rest, hw := m\<rparr>)"
    using low_send(1) [of "s\<lparr>tosend := rest\<rparr>" c p] assms(4) d(9) by (simp add: m_def)
  have nx: "desc_next ?N ?k = Suc ?k mod ?N" by (rule desc_next [OF k(2)])
  have nx': "Suc ?k mod ?N = (?l + length (fs @ [?f])) mod ?N" by (simp add: k(1) mod_Suc_eq)
  have rdy: "(if Suc ?k mod ?N = ?l then False else next_tx_desc_rdy s) \<longleftrightarrow> length (fs @ [?f]) < ?N"
  proof (cases "Suc (length fs) < ?N")
    case True
    then have "Suc ?k mod ?N \<noteq> ?l" using ring_inj [of "Suc (length fs)" ?N 0 ?l] t(1) nx' by simp
    then show ?thesis using d(4) True by simp
  next
    case False
    then have "Suc (length fs) = ?N" using assms(2) by simp
    then have "Suc ?k mod ?N = ?l" using nx' t(1) by simp
    then show ?thesis using False by simp
  qed
  have s: "?s = s\<lparr>tosend := rest, hw := m, next_tx_desc := Suc ?k mod ?N,
      next_tx_desc_rdy := (if Suc ?k mod ?N = ?l then False else next_tx_desc_rdy s), sending := sending s @ [p]\<rparr>"
    by (simp add: fill_one_def low nx)
  show "sending ?s = sending s @ [p]" "freed ?s = freed s" "rx_same s ?s" by (simp_all add: s rx_same_def m_def)
  have len: "unat (nb_plen p - of_nat (ETHHDR_BIAS c) :: u32) < 2 ^ 16" using assms(4) by (simp add: fits_def pkt_len_def)
  note w = tx_ctrl [OF len, of c ?k]
  have tx: "tx_ring ?N ?l 0 (fs @ [?f]) m"
  proof (rule tx_ring_put [OF d(1) _ k(1)])
    show "tx_slot ?N m ?k ?f" using w(2,3) by (simp add: tx_slot_def m_def pkt_frame_def pkt_len_def)
    show "tx_slot ?N m i g" if "i < ?N" "i \<noteq> ?k" "g \<in> set fs" "tx_slot ?N (hw s) i g" for i g
      using that by (simp add: tx_slot_def m_def)
  qed (use assms(2) d(8) w(1) in \<open>simp_all add: m_def\<close>)
  have rx: "rx_ring (room c) ?N (RXN c) (cur_rx_desc s) ps m"
    by (rule rx_ring_same [OF d(2)]) (use rx_ringD(5) [OF d(2)] k(2) in \<open>simp_all add: m_def rx_slot_def\<close>)
  have ad: "bd_addr (bds m ((?l + j) mod ?N)) = pkt_addr c ((sending s @ [p]) ! j)" if "j < length (fs @ [?f])" for j
  proof (cases "j = length fs")
    case True
    then show ?thesis using k d(5) by (simp add: m_def nth_append)
  next
    case False
    then have j: "j < length fs" using that by simp
    then have "(?l + j) mod ?N \<noteq> ?k" using ring_inj [of j ?N "length fs" ?l] assms(2) k(1) by simp
    then show ?thesis using d(7) [OF j] d(5) j by (simp add: m_def nth_append)
  qed
  have "bufs_ok c ?s" using d(11) assms(3) by (simp add: s bufs_ok_def rx_bufs_def)
  then show "ocm_inv c 0 (fs @ [?f]) ps ?s"
    using tx rx ad rdy nx' d(5,6,8,9,10) k(2) by (simp add: ocm_inv_def s) (simp add: m_def)
qed


lemma rx_side_same_trans: "rx_same s t \<Longrightarrow> rx_same t u \<Longrightarrow> rx_same s u"
  by (simp add: rx_same_def)

text \<open>Of the queue the first \<open>n\<close> packets are taken: those that fit go to the MAC, the others back to the stack.\<close>

definition took :: "ocm_cfg \<Rightarrow> nat \<Rightarrow> ocm \<Rightarrow> ocm \<Rightarrow> bool" where
  "took c n s s' \<longleftrightarrow> tosend s' = drop n (tosend s) \<and> sending s' = sending s @ filter (fits c) (take n (tosend s)) \<and>
     freed s' = freed s @ filter (\<lambda>p. \<not> fits c p) (take n (tosend s)) \<and> rx_same s s'"

lemma tx_fill:
  assumes "ocm_inv c 0 fs ps s"
  shows "\<exists>n fs'. took c n s (tx_fill c s) \<and> fs' = map (pkt_frame c (ram (hw s))) (filter (fits c) (take n (tosend s))) \<and>
    ocm_inv c 0 (fs @ fs') ps (tx_fill c s) \<and> (tosend (tx_fill c s) = [] \<or> length (fs @ fs') = TXN c)"
  using assms
proof (induction "tosend s" arbitrary: s fs)
  case Nil
  then have "tx_fill c s = s" by (subst tx_fill.simps) (simp split: list.split)
  then show ?case using Nil by (intro exI [of _ 0] exI [of _ "[]"]) (simp add: took_def rx_same_def)
next
  case (Cons p rest)
  note q = Cons.hyps(2) [symmetric]
  note d = ocm_invD [OF Cons.prems]
  show ?case
  proof (cases "length fs < TXN c")
    case False
    then have "length fs = TXN c" "\<not> next_tx_desc_rdy s" using tx_ringD(2) [OF d(1)] d(4) by simp_all
    moreover have "tx_fill c s = s" using q \<open>\<not> next_tx_desc_rdy s\<close> by (subst tx_fill.simps) simp
    ultimately show ?thesis using Cons.prems by (intro exI [of _ 0] exI [of _ "[]"]) (simp add: took_def rx_same_def)
  next
    case True
    have "\<not> bit (status (next_tx_desc s) (hw s)) 15" using tx_ringD(5) [OF d(1) True] d(3) by simp
    then have step: "tx_fill c s = tx_fill c (fill_one c p rest s)"
      using q d(4) True by (subst tx_fill.simps) (simp add: flag_bits)
    have rest: "rest = tosend (fill_one c p rest s)" by (simp add: fill_one_queue)
    show ?thesis
    proof (cases "fits c p")
      case fit: True
      note f = fill_one_sent [OF Cons.prems True q fit]
      from Cons.hyps(1) [OF rest f(1)] obtain n fs' where
        r: "took c n (fill_one c p rest s) (tx_fill c s)" "fs' = map (pkt_frame c (ram (hw s))) (filter (fits c) (take n rest))"
          "ocm_inv c 0 (fs @ pkt_frame c (ram (hw s)) p # fs') ps (tx_fill c s)"
          "tosend (tx_fill c s) = [] \<or> length (fs @ pkt_frame c (ram (hw s)) p # fs') = TXN c"
        using f(4) by (auto simp: step [symmetric] fill_one_queue rx_same_def)
      have "took c (Suc n) s (tx_fill c s)"
        using r(1) f(2,3) fit rx_side_same_trans [OF f(4)] by (simp add: took_def fill_one_queue q)
      then show ?thesis using r(2-4) fit q by (intro exI [of _ "Suc n"]) simp
    next
      case fit: False
      note f = fill_one_refused [OF Cons.prems True q fit]
      have same: "rx_same s (fill_one c p rest s)" by (simp add: f(1) rx_same_def)
      from Cons.hyps(1) [OF rest f(2)] obtain n fs' where
        r: "took c n (fill_one c p rest s) (tx_fill c s)" "fs' = map (pkt_frame c (ram (hw s))) (filter (fits c) (take n rest))"
          "ocm_inv c 0 (fs @ fs') ps (tx_fill c s)" "tosend (tx_fill c s) = [] \<or> length (fs @ fs') = TXN c"
        using same by (auto simp: step [symmetric] fill_one_queue rx_same_def)
      have "took c (Suc n) s (tx_fill c s)"
        using r(1) fit rx_side_same_trans [OF same] by (simp add: took_def fill_one_queue q) (simp add: f(1))
      then show ?thesis using r(2-4) fit q by (intro exI [of _ "Suc n"]) simp
    qed
  qed
qed

text \<open>The transmit service as a whole.\<close>

lemma eth_ocm_tx_isr:
  assumes "ocm_inv c a fs ps s"
  shows "\<exists>n fs'. fs' = map (pkt_frame c (ram (hw s))) (filter (fits c) (take n (tosend s))) \<and>
    ocm_inv c 0 (fs @ fs') ps (eth_ocm_tx_isr c s) \<and> (tosend (eth_ocm_tx_isr c s) = [] \<or> length (fs @ fs') = TXN c) \<and>
    tosend (eth_ocm_tx_isr c s) = drop n (tosend s) \<and> sending (eth_ocm_tx_isr c s) = drop a (sending s) @ filter (fits c) (take n (tosend s)) \<and>
    freed (eth_ocm_tx_isr c s) = freed s @ take a (sending s) @ filter (\<lambda>p. \<not> fits c p) (take n (tosend s)) \<and> rx_same s (eth_ocm_tx_isr c s)"
proof -
  from tx_reap [OF assms] obtain mb k r where
    e: "tx_reap c s = s\<lparr>sending := drop a (sending s), mib := mb, freed := freed s @ take a (sending s), cur_tx_desc := k, next_tx_desc_rdy := r\<rparr>"
    and i: "ocm_inv c 0 fs ps (tx_reap c s)" by blast
  have u: "sending (tx_reap c s) = drop a (sending s)" "freed (tx_reap c s) = freed s @ take a (sending s)" "tosend (tx_reap c s) = tosend s"
      "hw (tx_reap c s) = hw s" "rx_same s (tx_reap c s)"
    by (simp_all add: e rx_same_def)
  from tx_fill [OF i] obtain n fs' where
    f: "took c n (tx_reap c s) (eth_ocm_tx_isr c s)" "fs' = map (pkt_frame c (ram (hw s))) (filter (fits c) (take n (tosend s)))"
      "ocm_inv c 0 (fs @ fs') ps (eth_ocm_tx_isr c s)" "tosend (eth_ocm_tx_isr c s) = [] \<or> length (fs @ fs') = TXN c"
    by (auto simp: eth_ocm_tx_isr_def u)
  have "rx_same s (eth_ocm_tx_isr c s)" using f(1) u(5) rx_side_same_trans by (auto simp: took_def)
  then show ?thesis using f by (intro exI [of _ n] exI [of _ fs']) (simp add: took_def u)
qed

subsection \<open>The MAC\<close>

lemma ocm_inv_transmit:
  assumes "ocm_inv c a (f # fs) ps s"
  shows "ocm_inv c (Suc a) fs ps (s\<lparr>hw := mac_transmit st (hw s)\<rparr>)" "sent (mac_transmit st (hw s)) = sent (hw s) @ [f]"
proof -
  note d = ocm_invD [OF assms]
  note t = tx_ring_transmit [OF d(1), of st] and ring = tx_ringD [OF d(1)]
  show "sent (mac_transmit st (hw s)) = sent (hw s) @ [f]" by (rule t(2))
  have "hw_tx (hw s) < TXN c" using ring(1,3) by simp
  then have b: "bds (mac_transmit st (hw s)) (TXN c + i) = bds (hw s) (TXN c + i)" for i by (simp add: transmit_other(1))
  have "rx_ring (room c) (TXN c) (RXN c) (cur_rx_desc s) ps (mac_transmit st (hw s))"
    by (rule rx_ring_same [OF d(2)]) (use rx_ringD(5) [OF d(2)] b in \<open>simp_all add: transmit_other rx_slot_def status_def\<close>)
  moreover have "map (pkt_frame c (ram (hw s))) (drop (Suc a) (sending s)) = fs"
    using d(6) by (metis drop_Suc drop_map list.sel(3) tl_drop)
  moreover have "bd_addr (bds (hw s) ((cur_tx_desc s + Suc a + j) mod TXN c)) = pkt_addr c (sending s ! (Suc a + j))" if "j < length fs" for j
    using d(7) [of "Suc j"] that by simp
  ultimately show "ocm_inv c (Suc a) fs ps (s\<lparr>hw := mac_transmit st (hw s)\<rparr>)"
    using t(1) d(3-5,8-11) by (simp add: ocm_inv_def transmit_other bufs_ok_def rx_bufs_def)
qed

lemma ocm_inv_idle: "ocm_inv c a [] ps s \<Longrightarrow> mac_transmit st (hw s) = hw s"
  using ocm_invD(1) tx_ring_idle by blast

text \<open>Two buffers of the driver: of two descriptors, or of a descriptor and a received packet.\<close>

lemma rx_buf_in: "i < RXN c \<Longrightarrow> dma_ptr c (nb_buff (rx_pkts s i)) \<in># rx_bufs c s"
  by (simp add: rx_bufs_def)

lemma apart_cross:
  assumes "apart cap (M + N)" "x \<in># M" "y \<in># N"
  shows "far cap x y"
proof -
  have "{#x#} + {#y#} \<subseteq># M + N" using assms(2,3) by (intro subset_mset.add_mono) simp_all
  moreover have "{#x#} + {#y#} = {#x, y#}" by simp
  ultimately show ?thesis using assms(1) unfolding apart_def by metis
qed

lemma apart_left: "apart cap (M + N) \<Longrightarrow> apart cap M"
  unfolding apart_def by (meson mset_subset_eq_add_left subset_mset.order_trans)

lemma rx_buf_far:
  assumes "bufs_ok c s" "i < RXN c" "q \<in> set (rcvdq s)"
  shows "far (room c) (dma_ptr c (nb_buff (rx_pkts s i))) (dma_ptr c (nb_buff q))"
proof (rule apart_cross [OF apart_left])
  show "apart (room c) ((image_mset (\<lambda>i. dma_ptr c (nb_buff (rx_pkts s i))) (mset_set {..<RXN c}) +
      image_mset (\<lambda>p. dma_ptr c (nb_buff p)) (mset (rcvdq s))) + spare c (allocs s))"
    using assms(1) by (simp add: bufs_ok_def rx_bufs_def)
qed (use assms(2,3) in simp_all)

lemma far_sym: "far cap x y \<Longrightarrow> far cap y x"
  by (auto simp: far_def)

lemma ocm_inv_receive:
  assumes "ocm_inv c a fs ps s" "length f \<le> room c" "length ps < RXN c"
  shows "ocm_inv c a fs (ps @ [(f, st)]) (s\<lparr>hw := mac_receive f st (hw s)\<rparr>)"
    and "p \<in> set (sending s) \<union> set (tosend s) \<Longrightarrow> pkt_frame c (ram (mac_receive f st (hw s))) p = pkt_frame c (ram (hw s)) p"
    and "q \<in> set (rcvdq s) \<Longrightarrow> n \<le> room c \<Longrightarrow> load (ram (mac_receive f st (hw s))) (dma_ptr c (nb_buff q)) n = load (ram (hw s)) (dma_ptr c (nb_buff q)) n"
proof -
  let ?m = "mac_receive f st (hw s)" and ?i = "hw_rx (hw s)"
  note d = ocm_invD [OF assms(1)]
  note t = tx_ringD [OF d(1)] and r = rx_ringD [OF d(2)]
  have i: "?i < RXN c" using assms(3) r(4) by simp
  let ?x = "dma_ptr c (nb_buff (rx_pkts s ?i))"
  have rm: "ram ?m = ram (hw s) \<or> ram ?m = store ?x f (ram (hw s))" using receive_other(7) [of f st "hw s"] d(10) [OF i] by (simp add: r(1))
  have frame: "pkt_frame c (ram ?m) p = pkt_frame c (ram (hw s)) p" if "p \<in> set (sending s) \<union> set (tosend s)" for p
  proof -
    have "clear_of c ?x p" using d(11) rx_buf_in [OF i] that unfolding bufs_ok_def by blast
    then have "load (store ?x f (ram (hw s))) (pkt_addr c p) (pkt_len c p) = load (ram (hw s)) (pkt_addr c p) (pkt_len c p)"
      using assms(2) by (intro load_store_other) (auto simp: clear_of_def)
    then show ?thesis using rm by (auto simp: pkt_frame_def)
  qed
  then show "p \<in> set (sending s) \<union> set (tosend s) \<Longrightarrow> pkt_frame c (ram ?m) p = pkt_frame c (ram (hw s)) p" .
  show "q \<in> set (rcvdq s) \<Longrightarrow> n \<le> room c \<Longrightarrow> load (ram ?m) (dma_ptr c (nb_buff q)) n = load (ram (hw s)) (dma_ptr c (nb_buff q)) n"
    using rm load_store_far [OF far_sym [OF rx_buf_far [OF d(11) i]] assms(2)] by auto
  have st: "status i ?m = status i (hw s)" if "i < TXN c" for i using that by (simp add: status_def receive_other(1) r(1))
  have sn: "sending s ! (a + j) \<in> set (sending s)" "fs ! j = pkt_frame c (ram (hw s)) (sending s ! (a + j))" if "j < length fs" for j
    using d(5) that nth_map [of j "drop a (sending s)" "pkt_frame c (ram (hw s))"] by (simp_all add: d(6))
  have slot: "tx_slot (TXN c) ?m ((cur_tx_desc s + a + j) mod TXN c) (fs ! j)" if "j < length fs" for j
  proof -
    let ?k = "(cur_tx_desc s + a + j) mod TXN c"
    have k: "?k < TXN c" using t(1) by simp
    have "unat (drop_bit 16 (status ?k (hw s))) = pkt_len c (sending s ! (a + j))"
      using tx_slot_len [OF t(6) [OF that]] sn(2) [OF that] by (simp add: pkt_frame_def)
    then show ?thesis
      using t(6) [OF that] frame [of "sending s ! (a + j)"] sn [OF that] d(7) [OF that]
      by (simp add: tx_slot_def st [OF k] receive_other(2) pkt_frame_def)
  qed
  have "tx_ring (TXN c) (cur_tx_desc s) a fs ?m"
    by (rule tx_ring_keep [OF d(1)]) (use st slot in \<open>simp_all add: receive_other\<close>)
  moreover have "map (pkt_frame c (ram ?m)) (drop a (sending s)) = fs"
    unfolding d(6) [symmetric] using frame by (auto intro!: map_cong dest: in_set_dropD)
  ultimately show "ocm_inv c a fs (ps @ [(f, st)]) (s\<lparr>hw := ?m\<rparr>)"
    using rx_ring_receive [OF d(2) assms(2,3), of st] d(3-5,7-11) by (simp add: ocm_inv_def receive_other bufs_ok_def rx_bufs_def)
qed


subsection \<open>Collecting received packets\<close>

lemma rx_buf_pair:
  assumes "apart (room c) (rx_bufs c s)" "i < RXN c" "j < RXN c" "i \<noteq> j"
  shows "far (room c) (dma_ptr c (nb_buff (rx_pkts s i))) (dma_ptr c (nb_buff (rx_pkts s j)))"
proof -
  let ?f = "\<lambda>i. dma_ptr c (nb_buff (rx_pkts s i))"
  have "mset_set {i, j} \<subseteq># mset_set {..<RXN c}" using assms(2,3) by (intro subset_imp_msubset_mset_set) auto
  then have "image_mset ?f {#i, j#} \<subseteq># image_mset ?f (mset_set {..<RXN c})" using assms(4) by (intro image_mset_subseteq_mono) simp
  then have "{#?f i, ?f j#} \<subseteq># rx_bufs c s"
    unfolding rx_bufs_def add.assoc by (simp add: subset_mset.add_increasing2)
  then show ?thesis using assms(1) by (simp add: apart_def)
qed

lemma pklen_value:
  fixes stat :: u32
  assumes "unat (drop_bit 16 stat) = n" "n < 2 ^ 15"
  shows "signed_drop_bit 16 (stat AND 0xFFFF0000) = of_nat n"
proof -
  have m: "(0xFFFF0000 :: u32) = push_bit 16 (mask 16)" by (simp add: mask_numeral)
  have "drop_bit 16 stat = of_nat n" using assms(1) by (metis of_nat_unat ucast_id)
  moreover have "take_bit 15 (of_nat n :: u32) = of_nat n" using assms(2) by (simp add: take_bit_of_nat take_bit_nat_eq_self)
  ultimately have "take_bit 15 (drop_bit 16 stat) = drop_bit 16 stat" by simp
  then have "\<not> bit (drop_bit 16 stat) 15" by (metis bit_take_bit_iff less_irrefl)
  then have "\<not> bit stat 31" by (simp add: bit_simps)
  then have "signed_drop_bit 16 (stat AND push_bit 16 (mask 16)) = drop_bit 16 stat"
    by (intro bit_word_eqI) (auto simp: bit_simps bit_signed_drop_bit_iff dest: bit_imp_le_length)
  then show ?thesis using \<open>drop_bit 16 stat = of_nat n\<close> by (simp add: m)
qed

definition good_rx :: "bytes \<times> u32 \<Rightarrow> bool" where
  "good_rx p \<longleftrightarrow> snd p AND 0x7F = 0"

text \<open>Which of the waiting frames are handed over, what is left of the allocator's answers, and how many frames are discarded.\<close>

fun rx_accept :: "(bytes \<times> u32) list \<Rightarrow> nat option list \<Rightarrow> bytes list \<times> nat option list \<times> nat" where
  "rx_accept [] al = ([], al, 0)"
| "rx_accept (p # ps) al =
     (if good_rx p \<and> al \<noteq> [] \<and> hd al \<noteq> None
      then (let (fs, al', n) = rx_accept ps (tl al) in (fst p # fs, al', n))
      else (let (fs, al', n) = rx_accept ps (if good_rx p then tl al else al) in (fs, al', Suc n)))"

text \<open>What the stack finds in a received packet: the frame, and where the data begin.\<close>

definition rx_view :: "ocm_cfg \<Rightarrow> (nat \<Rightarrow> u8) \<Rightarrow> packet \<Rightarrow> bytes \<times> nat" where
  "rx_view c r q = (load r (dma_ptr c (nb_buff q)) (unat (nb_plen q + 18)), nb_prot q - nb_buff q)"

lemma arm_rx: "arm_rx c i pkt m = put_bd (TXN c + i) (dma_ptr c (nb_buff pkt)) (rx_ctrl c i) m"
  by (simp add: arm_rx_def put_bd_def Let_def)

lemma rx_ctrl: "bit (rx_ctrl c i) 15" "bit (rx_ctrl c i) 13 \<longleftrightarrow> i = RXN c - 1"
  by (simp_all add: rx_ctrl_def bit_simps Let_def)

lemma pk_alloc: "pk_alloc s = (if allocs s = [] then None else hd (allocs s), s\<lparr>allocs := tl (allocs s)\<rparr>)"
  by (cases "allocs s") (simp_all add: pk_alloc_def)


text \<open>One round of the loop, for the first waiting frame.\<close>

definition rx_packet :: "ocm_cfg \<Rightarrow> nat \<Rightarrow> bytes \<Rightarrow> ocm \<Rightarrow> packet" where
  "rx_packet c cur f s =
     \<lparr>nb_buff = nb_buff (rx_pkts s cur), nb_prot = nb_buff (rx_pkts s cur) + ETHHDR_SIZE c, nb_plen = of_nat (length f) - 18,
      pk_type = load (ram (hw s)) (nb_buff (rx_pkts s cur) + ETHHDR_BIAS c + 12) 2\<rparr>"

definition taken_rx :: "bytes \<times> u32 \<Rightarrow> ocm \<Rightarrow> bool" where
  "taken_rx p s \<longleftrightarrow> good_rx p \<and> allocs s \<noteq> [] \<and> hd (allocs s) \<noteq> None"

lemma rx_round_effect:
  assumes "stat AND 0xFF = snd p AND 0xFF" "unat (drop_bit 16 stat) = length (fst p)" "length (fst p) < 2 ^ 15"
  shows "ocm_rx_round c cur stat s =
     (let mib1 = (mib s)\<lparr>ifInOctets := ifInOctets (mib s) + of_nat (length (fst p))\<rparr>;
          pkt = rx_packet c cur (fst p) s;
          pkt' = (if taken_rx p s then new_packet (the (hd (allocs s))) else pkt)
      in s\<lparr>mib := (if taken_rx p s then mib1 else discard_in mib1), rx_pkts := (rx_pkts s)(cur := pkt'),
           rcvdq := (if taken_rx p s then rcvdq s @ [pkt] else rcvdq s), allocs := (if good_rx p then tl (allocs s) else allocs s),
           hw := put_bd (TXN c + cur) (dma_ptr c (nb_buff pkt')) (rx_ctrl c cur) (hw s)\<rparr>)"
proof -
  have "(stat AND 0xFF) AND 0x7F = (snd p AND 0xFF) AND 0x7F" using assms(1) by simp
  then have "stat AND 0x7F = snd p AND 0x7F" by (simp add: and.assoc)
  then have g: "stat AND 0x7F = 0 \<longleftrightarrow> good_rx p" by (simp add: good_rx_def)
  show ?thesis
    unfolding ocm_rx_round_def g pklen_value [OF assms(2,3)] Let_def arm_rx
    by (cases "allocs s"; cases "hd (allocs s)") (auto simp: pk_alloc_def taken_rx_def rx_packet_def)
qed


lemma rx_bufs_swap:
  assumes "cur < RXN c" "rx_pkts s' = (rx_pkts s)(cur := new_packet b)" "nb_buff q = nb_buff (rx_pkts s cur)"
    and "rcvdq s' = rcvdq s @ [q]" "allocs s = Some b # allocs s'"
  shows "rx_bufs c s' = rx_bufs c s"
proof -
  have A: "mset_set {..<RXN c} = add_mset cur (mset_set ({..<RXN c} - {cur}))" using assms(1) by (simp add: mset_set.remove)
  have "image_mset (\<lambda>i. dma_ptr c (nb_buff (rx_pkts s' i))) (mset_set ({..<RXN c} - {cur})) =
      image_mset (\<lambda>i. dma_ptr c (nb_buff (rx_pkts s i))) (mset_set ({..<RXN c} - {cur}))"
    by (rule image_mset_cong) (simp add: assms(2))
  then show ?thesis
    unfolding rx_bufs_def A using assms(3-5) by (simp add: assms(2) new_packet_def spare_def List.map_filter_simps)
qed

lemma rx_bufs_same:
  assumes "\<And>i. i < RXN c \<Longrightarrow> nb_buff (rx_pkts s' i) = nb_buff (rx_pkts s i)" "rcvdq s' = rcvdq s" "spare c (allocs s') = spare c (allocs s)"
  shows "rx_bufs c s' = rx_bufs c s"
proof -
  have "image_mset (\<lambda>i. dma_ptr c (nb_buff (rx_pkts s' i))) (mset_set {..<RXN c}) = image_mset (\<lambda>i. dma_ptr c (nb_buff (rx_pkts s i))) (mset_set {..<RXN c})"
    by (rule image_mset_cong) (simp add: assms(1))
  then show ?thesis by (simp add: rx_bufs_def assms(2,3))
qed

lemma ocm_inv_rx_round:
  fixes s :: ocm and c :: ocm_cfg and cur :: nat
  defines "stat \<equiv> status (TXN c + cur) (hw s)"
  defines "s' \<equiv> ocm_rx_round c cur stat s"
  assumes inv: "ocm_inv c a fs (p # ps) (s\<lparr>cur_rx_desc := cur\<rparr>)"
  shows "ocm_inv c a fs ps (s'\<lparr>cur_rx_desc := desc_next (RXN c) cur\<rparr>)"
    and "allocs s' = (if good_rx p then tl (allocs s) else allocs s)"
    and "rcvdq s' = rcvdq s @ (if taken_rx p s then [rx_packet c cur (fst p) s] else [])"
    and "rx_view c (ram (hw s)) (rx_packet c cur (fst p) s) = (fst p, ETHHDR_SIZE c)"
    and "ifInDiscards (mib s') = ifInDiscards (mib s) + (if taken_rx p s then 0 else 1)"
    and "tosend s' = tosend s \<and> sending s' = sending s \<and> freed s' = freed s \<and> ram (hw s') = ram (hw s) \<and> sent (hw s') = sent (hw s)"
    and "int_src (hw s') = int_src (hw s)" "stat AND 0x8000 = 0"
proof -
  let ?N = "TXN c" and ?R = "RXN c" and ?t = "s\<lparr>cur_rx_desc := cur\<rparr>"
  note d = ocm_invD [OF inv, simplified]
  note r = rx_ringD [OF d(2)]
  have cur: "cur < ?R" by (rule r(2))
  have slot: "rx_slot (hw s) (?N + cur) p" using r(8) [of 0] cur by simp
  have len: "length (fst p) \<le> room c" "length (fst p) < 2 ^ 15" using r(9) [of 0] r(6) by simp_all
  have stat: "stat AND 0xFF = snd p AND 0xFF" "unat (drop_bit 16 stat) = length (fst p)"
      "load (ram (hw s)) (bd_addr (bds (hw s) (?N + cur))) (length (fst p)) = fst p"
    using slot by (simp_all add: rx_slot_def stat_def)
  show "stat AND 0x8000 = 0" using r(7) [of 0] cur by (simp add: stat_def flag_bits)
  define pkt where "pkt = rx_packet c cur (fst p) s"
  define pkt' where "pkt' = (if taken_rx p s then new_packet (the (hd (allocs s))) else pkt)"
  define m where "m = put_bd (?N + cur) (dma_ptr c (nb_buff pkt')) (rx_ctrl c cur) (hw s)"
  define mb where "mb = (let mib1 = (mib s)\<lparr>ifInOctets := ifInOctets (mib s) + of_nat (length (fst p))\<rparr> in if taken_rx p s then mib1 else discard_in mib1)"
  have s': "s' = s\<lparr>mib := mb, rx_pkts := (rx_pkts s)(cur := pkt'), rcvdq := (if taken_rx p s then rcvdq s @ [pkt] else rcvdq s),
      allocs := (if good_rx p then tl (allocs s) else allocs s), hw := m\<rparr>"
    unfolding s'_def rx_round_effect [OF stat(1,2) len(2), of c cur s] by (simp add: Let_def pkt_def pkt'_def m_def mb_def)
  show "allocs s' = (if good_rx p then tl (allocs s) else allocs s)" "int_src (hw s') = int_src (hw s)"
      "rcvdq s' = rcvdq s @ (if taken_rx p s then [rx_packet c cur (fst p) s] else [])"
      "tosend s' = tosend s \<and> sending s' = sending s \<and> freed s' = freed s \<and> ram (hw s') = ram (hw s) \<and> sent (hw s') = sent (hw s)"
    by (simp_all add: s' pkt_def m_def)
  show "ifInDiscards (mib s') = ifInDiscards (mib s) + (if taken_rx p s then 0 else 1)"
    by (simp add: s' mb_def Let_def discard_in_def)
  show "rx_view c (ram (hw s)) (rx_packet c cur (fst p) s) = (fst p, ETHHDR_SIZE c)"
    using stat(3) d(10) [OF cur] len(2) by (simp add: rx_view_def rx_packet_def unsigned_of_nat take_bit_nat_eq_self)
  have nb: "nb_buff pkt = nb_buff (rx_pkts s cur)" by (simp add: pkt_def rx_packet_def)
  have bufs: "rx_bufs c s' = rx_bufs c s"
  proof (cases "taken_rx p s")
    case True
    then obtain b where "allocs s = Some b # tl (allocs s)" by (cases "allocs s") (auto simp: taken_rx_def)
    then have "allocs s = Some b # allocs s'" "pkt' = new_packet b"
      using True by (simp_all add: s' taken_rx_def pkt'_def) (metis list.sel(1) option.sel)
    then show ?thesis using True by (intro rx_bufs_swap [OF cur _ nb]) (simp_all add: s')
  next
    case False
    then have "spare c (allocs s') = spare c (allocs s)"
      by (cases "allocs s") (auto simp: s' taken_rx_def spare_def List.map_filter_simps)
    then show ?thesis using False by (intro rx_bufs_same) (auto simp: s' pkt'_def nb)
  qed
  have ok: "bufs_ok c s'" using d(11) bufs by (simp add: bufs_ok_def rx_bufs_def s')
  have addr: "bd_addr (bds m (?N + i)) = dma_ptr c (nb_buff (rx_pkts s' i))" if "i < ?R" for i
    using d(10) [OF that] by (simp add: m_def s')
  have rx: "rx_ring (room c) ?N ?R (Suc cur mod ?R) ps m"
  proof (rule rx_ring_take [OF d(2)])
    show "far (room c) (bd_addr (bds m (?N + cur))) (bd_addr (bds (hw s) (?N + i)))" if i: "i < ?R" "i \<noteq> cur" for i
    proof -
      have "far (room c) (dma_ptr c (nb_buff (rx_pkts s' cur))) (dma_ptr c (nb_buff (rx_pkts s' i)))"
        using rx_buf_pair [OF _ cur i(1)] ok i(2) by (simp add: bufs_ok_def)
      then show ?thesis using addr [OF cur] d(10) [OF i(1)] i(2) by (simp add: s')
    qed
  qed (simp_all add: m_def rx_ctrl)
  have tx: "tx_ring ?N (cur_tx_desc s) a fs m"
    by (rule tx_ring_same [OF d(1)]) (simp_all add: m_def tx_slot_def)
  have lt: "(cur_tx_desc s + a + j) mod ?N < ?N" for j using tx_ringD(1) [OF d(1)] by simp
  have "bd_addr (bds m ((cur_tx_desc s + a + j) mod ?N)) = pkt_addr c (sending s ! (a + j))" if "j < length fs" for j
    using d(7) [OF that] lt [of j] by (simp add: m_def)
  then show "ocm_inv c a fs ps (s'\<lparr>cur_rx_desc := desc_next ?R cur\<rparr>)"
    using rx tx addr ok d(3-6,8,9) unfolding ocm_inv_def desc_next [OF cur]
    by (simp add: s' bufs_ok_def rx_bufs_def) (simp add: m_def)
qed

end
