(* ===== verification/Eth_Ocm_Props.thy ===== *)
theory Eth_Ocm_Props
  imports Eth_Ocm_Correct
begin

text \<open>
  The driver, the stack and the MAC together: the step relation \<open>ocm_reach\<close> interleaves them, and the properties of
  transmission, reception and initialisation hold in every state it reaches.
\<close>

unbundle bit_operations_syntax

subsection \<open>The receive service\<close>

lemma ocm_rx_loop:
  assumes "ocm_inv c a fs ps (s\<lparr>cur_rx_desc := cur\<rparr>)"
  shows "\<exists>s'. ocm_rx_loop c cur s = Some s' \<and> ocm_inv c a fs [] s' \<and>
     map (rx_view c (ram (hw s'))) (rcvdq s') = map (rx_view c (ram (hw s))) (rcvdq s) @ map (\<lambda>f. (f, ETHHDR_SIZE c)) (fst (rx_accept ps (allocs s))) \<and>
     allocs s' = fst (snd (rx_accept ps (allocs s))) \<and> ifInDiscards (mib s') = ifInDiscards (mib s) + of_nat (snd (snd (rx_accept ps (allocs s)))) \<and>
     tosend s' = tosend s \<and> sending s' = sending s \<and> freed s' = freed s \<and> ram (hw s') = ram (hw s) \<and> sent (hw s') = sent (hw s) \<and> int_src (hw s') = int_src (hw s)"
  using assms
proof (induction ps arbitrary: s cur)
  case Nil
  have "bit (status (TXN c + cur) (hw s)) 15"
    using rx_ringD(2) [OF ocm_invD(2) [OF Nil]] rx_ringD(7) [OF ocm_invD(2) [OF Nil], of 0] by simp
  then have "ocm_rx_loop c cur s = Some (s\<lparr>cur_rx_desc := cur\<rparr>)" by (subst ocm_rx_loop.simps) (simp add: flag_bits)
  then show ?case using Nil by simp
next
  case (Cons p ps)
  let ?s = "ocm_rx_round c cur (status (TXN c + cur) (hw s)) s"
  note r = ocm_inv_rx_round [OF Cons.prems]
  have step: "ocm_rx_loop c cur s = ocm_rx_loop c (desc_next (RXN c) cur) ?s"
    using r(8) by (subst ocm_rx_loop.simps) simp
  from Cons.IH [OF r(1)] obtain s' where
    i: "ocm_rx_loop c cur s = Some s'" "ocm_inv c a fs [] s'" and
    v: "map (rx_view c (ram (hw s'))) (rcvdq s') = map (rx_view c (ram (hw ?s))) (rcvdq ?s) @ map (\<lambda>f. (f, ETHHDR_SIZE c)) (fst (rx_accept ps (allocs ?s)))"
      "allocs s' = fst (snd (rx_accept ps (allocs ?s)))" "ifInDiscards (mib s') = ifInDiscards (mib ?s) + of_nat (snd (snd (rx_accept ps (allocs ?s))))" and
    k: "tosend s' = tosend ?s" "sending s' = sending ?s" "freed s' = freed ?s" "ram (hw s') = ram (hw ?s)" "sent (hw s') = sent (hw ?s)"
      "int_src (hw s') = int_src (hw ?s)"
    unfolding step by (elim exE conjE) blast
  have q: "map (rx_view c (ram (hw s'))) (rcvdq s') =
      map (rx_view c (ram (hw s))) (rcvdq s) @ map (\<lambda>f. (f, ETHHDR_SIZE c)) (fst (rx_accept (p # ps) (allocs s)))"
    using v(1) r(2,3,4,6) by (auto simp: taken_rx_def case_prod_beta)
  have al: "allocs s' = fst (snd (rx_accept (p # ps) (allocs s)))"
    using v(2) r(2) by (auto simp: case_prod_beta)
  have n: "ifInDiscards (mib s') = ifInDiscards (mib s) + of_nat (snd (snd (rx_accept (p # ps) (allocs s))))"
    using v(3) r(2,5) by (auto simp: taken_rx_def case_prod_beta)
  show ?case using i q al n k r(6,7) by (intro exI [of _ s']) simp
qed

lemmas eth_ocm_rx_isr = ocm_rx_loop [where s = s and cur = "cur_rx_desc s" for s, simplified]


subsection \<open>The whole state\<close>

text \<open>
  The invariant together with the history: \<open>sp\<close> are the packets handed to the driver, \<open>sb\<close> the frames of those that
  fit, \<open>ar\<close> what arrived, \<open>dl\<close> the frames that the stack has taken.
\<close>

definition rx_data :: "ocm_cfg \<Rightarrow> (nat \<Rightarrow> u8) \<Rightarrow> packet \<Rightarrow> bytes" where
  "rx_data c r q = fst (rx_view c r q)"

definition tx_hist :: "ocm_cfg \<Rightarrow> packet list \<Rightarrow> bytes list \<Rightarrow> bytes list \<Rightarrow> ocm \<Rightarrow> bool" where
  "tx_hist c sp sb fs s \<longleftrightarrow>
     sent (hw s) @ fs @ map (pkt_frame c (ram (hw s))) (filter (fits c) (tosend s)) = sb \<and>
     mset (freed s) + mset (sending s) + mset (tosend s) = mset sp"

definition rx_hist :: "ocm_cfg \<Rightarrow> (bytes \<times> u32) list \<Rightarrow> bytes list \<Rightarrow> (bytes \<times> u32) list \<Rightarrow> ocm \<Rightarrow> bool" where
  "rx_hist c ar dl ps s \<longleftrightarrow>
     subseq (dl @ map (rx_data c (ram (hw s))) (rcvdq s) @ map fst (filter good_rx ps)) (map fst (filter good_rx ar)) \<and>
     (\<forall>q \<in> set (rcvdq s). length (rx_data c (ram (hw s)) q) \<le> room c)"

lemma tx_hist_tx_isr:
  assumes "ocm_inv c a fs ps s" "tx_hist c sp sb fs s"
  shows "\<exists>fs'. ocm_inv c 0 fs' ps (eth_ocm_tx_isr c s) \<and> tx_hist c sp sb fs' (eth_ocm_tx_isr c s) \<and> rx_same s (eth_ocm_tx_isr c s) \<and>
    (tosend (eth_ocm_tx_isr c s) = [] \<or> length fs' = TXN c)"
proof -
  let ?s = "eth_ocm_tx_isr c s"
  from eth_ocm_tx_isr [OF assms(1)] obtain n fs' where
    f: "fs' = map (pkt_frame c (ram (hw s))) (filter (fits c) (take n (tosend s)))" and i: "ocm_inv c 0 (fs @ fs') ps ?s" and
    full: "tosend ?s = [] \<or> length (fs @ fs') = TXN c" and
    q: "tosend ?s = drop n (tosend s)" "sending ?s = drop a (sending s) @ filter (fits c) (take n (tosend s))"
      "freed ?s = freed s @ take a (sending s) @ filter (\<lambda>p. \<not> fits c p) (take n (tosend s))" and same: "rx_same s ?s"
    by blast
  have "map (pkt_frame c (ram (hw s))) (filter (fits c) (tosend s)) = fs' @ map (pkt_frame c (ram (hw s))) (filter (fits c) (drop n (tosend s)))"
    unfolding f map_append [symmetric] filter_append [symmetric] append_take_drop_id ..
  then have frames: "sent (hw ?s) @ (fs @ fs') @ map (pkt_frame c (ram (hw ?s))) (filter (fits c) (tosend ?s)) = sb"
    using assms(2) same q(1) by (simp add: tx_hist_def rx_same_def)
  have "mset (sending s) = mset (take a (sending s)) + mset (drop a (sending s))"
    by (metis append_take_drop_id mset_append)
  moreover have "mset (tosend s) = mset (take n (tosend s)) + mset (drop n (tosend s))" by (metis append_take_drop_id mset_append)
  moreover have "mset (take n (tosend s)) = mset (filter (fits c) (take n (tosend s))) + mset (filter (\<lambda>p. \<not> fits c p) (take n (tosend s)))"
    using multiset_partition [of "mset (take n (tosend s))" "fits c"] by simp
  ultimately have "mset (freed ?s) + mset (sending ?s) + mset (tosend ?s) = mset (freed s) + mset (sending s) + mset (tosend s)"
    unfolding q mset_append by (simp only: ac_simps)
  then show ?thesis using i frames full same assms(2) by (intro exI [of _ "fs @ fs'"]) (simp add: tx_hist_def)
qed

lemma rx_hist_same: "rx_same s s' \<Longrightarrow> rx_hist c ar dl ps s' = rx_hist c ar dl ps s"
  by (simp add: rx_hist_def rx_same_def)

lemma ocm_inv_int: "ocm_inv c a fs ps (s\<lparr>hw := (hw s)\<lparr>int_src := w\<rparr>\<rparr>) = ocm_inv c a fs ps s"
  by (simp add: ocm_inv_def tx_ring_def rx_ring_def tx_slot_def rx_slot_def status_def bufs_ok_def rx_bufs_def)

lemma rx_accept_good: "subseq (fst (rx_accept ps al)) (map fst (filter good_rx ps))"
  by (induction ps al rule: rx_accept.induct) (auto simp: case_prod_beta)

lemma hist_rx_isr:
  assumes "ocm_inv c a fs ps s" "tx_hist c sp sb fs s" "rx_hist c ar dl ps s"
  shows "\<exists>s'. eth_ocm_rx_isr c s = Some s' \<and> ocm_inv c a fs [] s' \<and> tx_hist c sp sb fs s' \<and> rx_hist c ar dl [] s' \<and> int_src (hw s') = int_src (hw s)"
proof -
  from eth_ocm_rx_isr [OF assms(1)] obtain s' where
    r: "eth_ocm_rx_isr c s = Some s'" "ocm_inv c a fs [] s'"
      "map (rx_view c (ram (hw s'))) (rcvdq s') = map (rx_view c (ram (hw s))) (rcvdq s) @ map (\<lambda>f. (f, ETHHDR_SIZE c)) (fst (rx_accept ps (allocs s)))"
      "tosend s' = tosend s" "sending s' = sending s" "freed s' = freed s" "ram (hw s') = ram (hw s)" "sent (hw s') = sent (hw s)"
      "int_src (hw s') = int_src (hw s)"
    unfolding eth_ocm_rx_isr_def by (elim exE conjE) blast
  have "map (rx_data c (ram (hw s'))) (rcvdq s') = map fst (map (rx_view c (ram (hw s'))) (rcvdq s'))" by (simp add: rx_data_def)
  also have "\<dots> = map (rx_data c (ram (hw s))) (rcvdq s) @ fst (rx_accept ps (allocs s))" unfolding r(3) by (simp add: rx_data_def comp_def)
  finally have data: "map (rx_data c (ram (hw s'))) (rcvdq s') = map (rx_data c (ram (hw s))) (rcvdq s) @ fst (rx_accept ps (allocs s))" .
  have "subseq (dl @ map (rx_data c (ram (hw s'))) (rcvdq s')) (dl @ map (rx_data c (ram (hw s))) (rcvdq s) @ map fst (filter good_rx ps))"
    using list_emb_append_mono [OF subseq_order.order_refl rx_accept_good [of ps "allocs s"], of "dl @ map (rx_data c (ram (hw s))) (rcvdq s)"] data by simp
  then have sub: "subseq (dl @ map (rx_data c (ram (hw s'))) (rcvdq s')) (map fst (filter good_rx ar))"
    using assms(3) subseq_order.order_trans by (auto simp: rx_hist_def)
  have short: "length f \<le> room c" if "f \<in> set (fst (rx_accept ps (allocs s)))" for f
  proof -
    have "f \<in> set (map fst (filter good_rx ps))" by (rule list_emb_set [OF rx_accept_good that]) simp
    then obtain j where "j < length ps" "f = fst (ps ! j)" by (auto simp: in_set_conv_nth)
    then show ?thesis using rx_ringD(9) [OF ocm_invD(2) [OF assms(1)]] by simp
  qed
  have "length f \<le> room c" if "f \<in> set (map (rx_data c (ram (hw s'))) (rcvdq s'))" for f
    using that short assms(3) unfolding data by (auto simp: rx_hist_def)
  then have "rx_hist c ar dl [] s'" using sub by (simp add: rx_hist_def)
  moreover have "tx_hist c sp sb fs s'" using assms(2) r(4-8) by (simp add: tx_hist_def)
  ultimately show ?thesis using r(1,2,9) by blast
qed

text \<open>One pass of the interrupt service.\<close>

lemma hist_isr_pass:
  assumes "ocm_inv c a fs ps s" "tx_hist c sp sb fs s" "rx_hist c ar dl ps s"
  shows "\<exists>s' a' fs' ps'. isr_pass c fl s = Some s' \<and> ocm_inv c a' fs' ps' s' \<and> tx_hist c sp sb fs' s' \<and> rx_hist c ar dl ps' s' \<and>
    int_src (hw s') = int_src (hw s) AND NOT fl"
proof -
  define s0 where "s0 = s\<lparr>hw := write_int_src fl (hw s)\<rparr>"
  have 0: "ocm_inv c a fs ps s0" "tx_hist c sp sb fs s0" "rx_hist c ar dl ps s0"
    using assms by (simp_all add: s0_def write_int_src_def ocm_inv_int) (simp_all add: tx_hist_def rx_hist_def)
  define rx where "rx = (if fl AND (INT_RXF OR INT_RXE) \<noteq> 0
    then eth_ocm_rx_isr c s0 \<bind> (\<lambda>s'. Some (if rcvdq s' \<noteq> [] then s'\<lparr>signals := signals s' + 1\<rparr> else s')) else Some s0)"
  have keep: "ocm_inv c a fs ps (s\<lparr>signals := n\<rparr>) = ocm_inv c a fs ps s" "ocm_inv c a fs ps (s\<lparr>mib := mb\<rparr>) = ocm_inv c a fs ps s" for a fs ps n mb and s
    by (simp_all add: ocm_inv_def bufs_ok_def rx_bufs_def)
  have "\<exists>s1 ps'. rx = Some s1 \<and> ocm_inv c a fs ps' s1 \<and> tx_hist c sp sb fs s1 \<and> rx_hist c ar dl ps' s1 \<and> int_src (hw s1) = int_src (hw s0)"
  proof (cases "fl AND (INT_RXF OR INT_RXE) \<noteq> 0")
    case True
    from hist_rx_isr [OF 0] obtain t where
      t: "eth_ocm_rx_isr c s0 = Some t" "ocm_inv c a fs [] t" "tx_hist c sp sb fs t" "rx_hist c ar dl [] t" "int_src (hw t) = int_src (hw s0)" by blast
    have "rx = Some (if rcvdq t \<noteq> [] then t\<lparr>signals := signals t + 1\<rparr> else t)" using True t(1) by (simp add: rx_def)
    then show ?thesis using t(2-5) by (intro exI [of _ "if rcvdq t \<noteq> [] then t\<lparr>signals := signals t + 1\<rparr> else t"] exI [of _ "[]"])
      (auto simp: keep tx_hist_def rx_hist_def)
  next
    case False
    then show ?thesis using 0 by (auto simp: rx_def)
  qed
  then obtain s1 ps' where 1: "rx = Some s1" "ocm_inv c a fs ps' s1" "tx_hist c sp sb fs s1" "rx_hist c ar dl ps' s1" "int_src (hw s1) = int_src (hw s0)" by blast
  define s2 where "s2 = (if fl AND INT_BUSY \<noteq> 0 then s1\<lparr>mib := discard_in (mib s1)\<rparr> else s1)"
  have 2: "ocm_inv c a fs ps' s2" "tx_hist c sp sb fs s2" "rx_hist c ar dl ps' s2" "int_src (hw s2) = int_src (hw s) AND NOT fl"
    using 1 by (simp_all add: s2_def keep tx_hist_def rx_hist_def) (simp add: s0_def write_int_src_def)
  have p: "isr_pass c fl s = Some (if \<not> ETH_OCM_SYNC_TX c \<and> fl AND (INT_TXE OR INT_TXB) \<noteq> 0 then eth_ocm_tx_isr c s2 else s2)"
    unfolding isr_pass_def Let_def s0_def [symmetric] rx_def [symmetric] 1(1) by (simp add: s2_def)
  show ?thesis
  proof (cases "\<not> ETH_OCM_SYNC_TX c \<and> fl AND (INT_TXE OR INT_TXB) \<noteq> 0")
    case True
    from tx_hist_tx_isr [OF 2(1,2)] obtain fs' where
      t: "ocm_inv c 0 fs' ps' (eth_ocm_tx_isr c s2)" "tx_hist c sp sb fs' (eth_ocm_tx_isr c s2)" "rx_same s2 (eth_ocm_tx_isr c s2)" by blast
    then have "rx_hist c ar dl ps' (eth_ocm_tx_isr c s2)" using 2(3) rx_hist_same by blast
    moreover have "isr_pass c fl s = Some (eth_ocm_tx_isr c s2)" using True p by simp
    moreover have "int_src (hw (eth_ocm_tx_isr c s2)) = int_src (hw s) AND NOT fl" using t(3) 2(4) by (simp add: rx_same_def)
    ultimately show ?thesis using t(1,2) by blast
  next
    case False
    then have "isr_pass c fl s = Some s2" using p by auto
    then show ?thesis using 2 by blast
  qed
qed

text \<open>The interrupt service ends when the MAC does nothing more, with all flags cleared.\<close>

lemma isr_settles:
  assumes "ocm_inv c a fs ps s" "tx_hist c sp sb fs s" "rx_hist c ar dl ps s"
  shows "\<exists>s'. eth_ocm_isr c [] s = Some s' \<and> int_src (hw s') = 0"
proof -
  from hist_isr_pass [OF assms, of "int_src (hw s)"] obtain s' where
    "isr_pass c (int_src (hw s)) s = Some s'" "int_src (hw s') = int_src (hw s) AND NOT (int_src (hw s))" by blast
  then show ?thesis by (simp add: eth_ocm_isr.simps Let_def)
qed

subsection \<open>Steps\<close>

text \<open>
  The stack hands over a packet whose frame does not lie in a receive buffer; the MAC sends a frame, or a frame arrives;
  the interrupt service makes a pass; the stack takes received packets off the queue, writes to memory and decides
  which buffers the allocator will give out. It leaves alone the memory that driver and MAC use.
\<close>

definition stack_turn :: "nat \<Rightarrow> nat option list \<Rightarrow> (nat \<Rightarrow> u8) \<Rightarrow> ocm \<Rightarrow> ocm" where
  "stack_turn n al r s = s\<lparr>rcvdq := drop n (rcvdq s), allocs := al, hw := (hw s)\<lparr>ram := r\<rparr>\<rparr>"

definition leaves_alone :: "ocm_cfg \<Rightarrow> nat \<Rightarrow> (nat \<Rightarrow> u8) \<Rightarrow> ocm \<Rightarrow> bool" where
  "leaves_alone c n r s \<longleftrightarrow>
     (\<forall>p \<in> set (sending s) \<union> set (tosend s). pkt_frame c r p = pkt_frame c (ram (hw s)) p) \<and>
     (\<forall>q \<in> set (drop n (rcvdq s)). rx_data c r q = rx_data c (ram (hw s)) q) \<and>
     (\<forall>i<RXN c. \<forall>k\<le>room c. load r (dma_ptr c (nb_buff (rx_pkts s i))) k = load (ram (hw s)) (dma_ptr c (nb_buff (rx_pkts s i))) k)"

inductive ocm_reach :: "ocm_cfg \<Rightarrow> ocm \<Rightarrow> packet list \<Rightarrow> bytes list \<Rightarrow> (bytes \<times> u32) list \<Rightarrow> bytes list \<Rightarrow> ocm \<Rightarrow> bool" for c s0 where
  start: "ocm_reach c s0 [] [] [] [] s0"
| send: "ocm_reach c s0 sp sb ar dl s \<Longrightarrow> \<forall>x \<in># rx_bufs c s. clear_of c x p \<Longrightarrow>
    ocm_reach c s0 (sp @ [p]) (sb @ (if fits c p then [pkt_frame c (ram (hw s)) p] else [])) ar dl (snd (eth_ocm_pkt_send c p s))"
| transmit: "ocm_reach c s0 sp sb ar dl s \<Longrightarrow> ocm_reach c s0 sp sb ar dl (s\<lparr>hw := mac_transmit st (hw s)\<rparr>)"
| receive: "ocm_reach c s0 sp sb ar dl s \<Longrightarrow> length f \<le> room c \<Longrightarrow> ocm_reach c s0 sp sb (ar @ [(f, st)]) dl (s\<lparr>hw := mac_receive f st (hw s)\<rparr>)"
| isr: "ocm_reach c s0 sp sb ar dl s \<Longrightarrow> isr_pass c fl s = Some s' \<Longrightarrow> ocm_reach c s0 sp sb ar dl s'"
| stack: "ocm_reach c s0 sp sb ar dl s \<Longrightarrow> leaves_alone c n r s \<Longrightarrow> bufs_ok c (stack_turn n al r s) \<Longrightarrow>
    ocm_reach c s0 sp sb ar (dl @ map (rx_data c (ram (hw s))) (take n (rcvdq s))) (stack_turn n al r s)"

lemma ocm_inv_stack:
  assumes "ocm_inv c a fs ps s" "leaves_alone c n r s" "bufs_ok c (stack_turn n al r s)"
  shows "ocm_inv c a fs ps (stack_turn n al r s)"
proof -
  let ?m = "(hw s)\<lparr>ram := r\<rparr>"
  note d = ocm_invD [OF assms(1)]
  note t = tx_ringD [OF d(1)]
  have sn: "sending s ! (a + j) \<in> set (sending s)" "fs ! j = pkt_frame c (ram (hw s)) (sending s ! (a + j))" if "j < length fs" for j
    using d(5) that nth_map [of j "drop a (sending s)" "pkt_frame c (ram (hw s))"] by (simp_all add: d(6))
  have "tx_slot (TXN c) ?m ((cur_tx_desc s + a + j) mod TXN c) (fs ! j)" if "j < length fs" for j
  proof -
    have "unat (drop_bit 16 (status ((cur_tx_desc s + a + j) mod TXN c) (hw s))) = pkt_len c (sending s ! (a + j))"
      using tx_slot_len [OF t(6) [OF that]] sn(2) [OF that] by (simp add: pkt_frame_def)
    moreover have "pkt_frame c r (sending s ! (a + j)) = fs ! j" using assms(2) sn [OF that] by (simp add: leaves_alone_def)
    ultimately show ?thesis using t(6) [OF that] d(7) [OF that] by (simp add: tx_slot_def pkt_frame_def mac_simps)
  qed
  then have "tx_ring (TXN c) (cur_tx_desc s) a fs ?m" by (intro tx_ring_keep [OF d(1)]) (simp_all add: mac_simps)
  moreover have "rx_ring (room c) (TXN c) (RXN c) (cur_rx_desc s) ps ?m"
    by (rule rx_ring_same [OF d(2)]) (use rx_ringD(5) [OF d(2)] d(10) assms(2) in \<open>simp_all add: rx_slot_def leaves_alone_def mac_simps\<close>)
  moreover have "map (pkt_frame c r) (drop a (sending s)) = fs"
    unfolding d(6) [symmetric] using assms(2) by (auto simp: leaves_alone_def intro!: map_cong dest: in_set_dropD)
  ultimately show ?thesis using assms(3) d(3-5,7-10) by (simp add: ocm_inv_def stack_turn_def)
qed


definition ocm_started :: "ocm_cfg \<Rightarrow> ocm \<Rightarrow> bool" where
  "ocm_started c s \<longleftrightarrow> ocm_inv c 0 [] [] s \<and> tosend s = [] \<and> rcvdq s = [] \<and> freed s = [] \<and> sent (hw s) = []"

lemma ocm_reach_inv:
  assumes "ocm_reach c s0 sp sb ar dl s" "ocm_started c s0"
  shows "\<exists>a fs ps. ocm_inv c a fs ps s \<and> tx_hist c sp sb fs s \<and> rx_hist c ar dl ps s"
  using assms
proof (induction rule: ocm_reach.induct)
  case start
  then have "ocm_inv c 0 [] [] s0 \<and> tx_hist c [] [] [] s0 \<and> rx_hist c [] [] [] s0"
    using ocm_invD(5) [of c 0 "[]" "[]" s0] by (simp add: ocm_started_def tx_hist_def rx_hist_def)
  then show ?case by blast
next
  case (send sp sb ar dl s p)
  then obtain a fs ps where i: "ocm_inv c a fs ps s" "tx_hist c sp sb fs s" "rx_hist c ar dl ps s" by blast
  let ?s = "s\<lparr>tosend := tosend s @ [p]\<rparr>"
  have "ocm_inv c a fs ps ?s" using i(1) send.hyps(2) by (auto simp: ocm_inv_def bufs_ok_def rx_bufs_def)
  moreover have "tx_hist c (sp @ [p]) (sb @ (if fits c p then [pkt_frame c (ram (hw s)) p] else [])) fs ?s" using i(2) by (auto simp: tx_hist_def)
  ultimately obtain fs' where t: "ocm_inv c 0 fs' ps (eth_ocm_tx_isr c ?s)"
      "tx_hist c (sp @ [p]) (sb @ (if fits c p then [pkt_frame c (ram (hw s)) p] else [])) fs' (eth_ocm_tx_isr c ?s)" "rx_same ?s (eth_ocm_tx_isr c ?s)"
    using tx_hist_tx_isr by blast
  have "rx_hist c ar dl ps ?s" using i(3) by (simp add: rx_hist_def)
  then have "rx_hist c ar dl ps (eth_ocm_tx_isr c ?s)" using rx_hist_same [OF t(3)] by simp
  then show ?case using t(1,2) unfolding eth_ocm_pkt_send_def snd_conv by blast
next
  case (transmit sp sb ar dl s st)
  then obtain a fs ps where i: "ocm_inv c a fs ps s" "tx_hist c sp sb fs s" "rx_hist c ar dl ps s" by blast
  show ?case
  proof (cases fs)
    case Nil
    then show ?thesis using ocm_inv_idle [of c a ps s st] i by auto
  next
    case (Cons f rest)
    note t = ocm_inv_transmit [OF i(1) [unfolded Cons], of st]
    have "tx_hist c sp sb rest (s\<lparr>hw := mac_transmit st (hw s)\<rparr>)" using i(2) t(2) by (simp add: tx_hist_def Cons transmit_other)
    moreover have "rx_hist c ar dl ps (s\<lparr>hw := mac_transmit st (hw s)\<rparr>)" using i(3) by (simp add: rx_hist_def transmit_other)
    ultimately show ?thesis using t(1) by blast
  qed
next
  case (receive sp sb ar dl s f st)
  then obtain a fs ps where i: "ocm_inv c a fs ps s" "tx_hist c sp sb fs s" "rx_hist c ar dl ps s" by blast
  show ?case
  proof (cases "length ps < RXN c")
    case True
    let ?m = "mac_receive f st (hw s)"
    note r = ocm_inv_receive [OF i(1) receive.hyps(2) True, where st = st]
    have "map (pkt_frame c (ram ?m)) (filter (fits c) (tosend s)) = map (pkt_frame c (ram (hw s))) (filter (fits c) (tosend s))"
      by (rule map_cong [OF refl]) (simp add: r(2))
    then have "tx_hist c sp sb fs (s\<lparr>hw := ?m\<rparr>)" using i(2) by (simp add: tx_hist_def receive_other del: map_eq_conv)
    moreover have "rx_data c (ram ?m) q = rx_data c (ram (hw s)) q" if "q \<in> set (rcvdq s)" for q
      using i(3) r(3) [OF that] that by (simp add: rx_hist_def rx_data_def rx_view_def)
    then have "rx_hist c (ar @ [(f, st)]) dl (ps @ [(f, st)]) (s\<lparr>hw := ?m\<rparr>)"
      using i(3) by (simp add: rx_hist_def cong: map_cong) (simp add: list_emb_append_mono flip: append_assoc)
    ultimately show ?thesis using r(1) by blast
  next
    case False
    then have "length ps = RXN c" using rx_ringD(3) [OF ocm_invD(2) [OF i(1)]] by simp
    then have m: "mac_receive f st (hw s) = (hw s)\<lparr>int_src := int_src (hw s) OR INT_BUSY\<rparr>" by (rule rx_ring_full [OF ocm_invD(2) [OF i(1)]])
    have "ocm_inv c a fs ps (s\<lparr>hw := mac_receive f st (hw s)\<rparr>)" "tx_hist c sp sb fs (s\<lparr>hw := mac_receive f st (hw s)\<rparr>)"
      using i(1,2) unfolding m by (simp_all add: ocm_inv_int) (simp add: tx_hist_def)
    moreover have "rx_hist c (ar @ [(f, st)]) dl ps (s\<lparr>hw := mac_receive f st (hw s)\<rparr>)"
      using i(3) list_emb_append2 unfolding m rx_hist_def by auto
    ultimately show ?thesis by blast
  qed
next
  case (isr sp sb ar dl s fl s')
  then show ?case using hist_isr_pass by (metis option.inject)
next
  case (stack sp sb ar dl s n r al)
  then obtain a fs ps where i: "ocm_inv c a fs ps s" "tx_hist c sp sb fs s" "rx_hist c ar dl ps s" by blast
  have "map (pkt_frame c r) (filter (fits c) (tosend s)) = map (pkt_frame c (ram (hw s))) (filter (fits c) (tosend s))"
    using stack.hyps(2) by (auto simp: leaves_alone_def)
  then have "tx_hist c sp sb fs (stack_turn n al r s)" using i(2) by (simp add: tx_hist_def stack_turn_def del: map_eq_conv)
  moreover have q: "rx_data c r q = rx_data c (ram (hw s)) q" if "q \<in> set (drop n (rcvdq s))" for q
    using stack.hyps(2) that by (simp add: leaves_alone_def)
  then have "map (rx_data c r) (drop n (rcvdq s)) = map (rx_data c (ram (hw s))) (drop n (rcvdq s))" by (rule map_cong [OF refl])
  then have "map (rx_data c (ram (hw s))) (take n (rcvdq s)) @ map (rx_data c r) (drop n (rcvdq s)) = map (rx_data c (ram (hw s))) (rcvdq s)"
    by (metis append_take_drop_id map_append)
  then have "rx_hist c ar (dl @ map (rx_data c (ram (hw s))) (take n (rcvdq s))) ps (stack_turn n al r s)"
    using i(3) q by (auto simp: rx_hist_def stack_turn_def dest: in_set_dropD) (metis append_assoc)
  ultimately show ?case using ocm_inv_stack [OF i(1) stack.hyps(2,3)] by blast
qed

end
