(* ===== verification/Eth_Ocm_Init.thy ===== *)
theory Eth_Ocm_Init
  imports Eth_Ocm_Props
begin

text \<open>
  Initialisation of the OpenCores driver under the InterNiche stack establishes the invariant; with it the properties
  of transmission and reception, and the synchronous variant of transmission.
\<close>

unbundle bit_operations_syntax

subsection \<open>The PHY does not disturb the MAC\<close>

definition mac_part :: "ethermac \<Rightarrow> u32 \<times> u32 \<times> (nat \<Rightarrow> oeth_bd) \<times> (nat \<Rightarrow> u8) \<times> nat \<times> nat \<times> bytes list" where
  "mac_part m = (moder m, tx_bd_num m, bds m, ram m, hw_tx m, hw_rx m, sent m)"

named_theorems phy_part "accesses to the PHY keep the registers and descriptors of the MAC"

lemma wait_part [phy_part]: "mac_part (ocm_wait n m) = mac_part m"
  by (induction n arbitrary: m) (simp_all add: mac_part_def read_miistatus_def Let_def)

lemma access_part [phy_part]:
  "mac_part (write_miicommand v m) = mac_part m" "mac_part (eth_ocm_write_phy_reg a g v m) = mac_part m"
  "mac_part (snd (eth_ocm_read_phy_reg a g m)) = mac_part m"
proof -
  show c: "mac_part (write_miicommand v m) = mac_part m" for v m by (simp add: write_miicommand_def Let_def mac_part_def)
  have "mac_part (eth_ocm_set_phy_addr a g m) = mac_part m" "mac_part ((eth_ocm_set_phy_addr a g m)\<lparr>miitx_data := v\<rparr>) = mac_part m"
    by (simp_all add: eth_ocm_set_phy_addr_def mac_part_def)
  then show "mac_part (eth_ocm_write_phy_reg a g v m) = mac_part m" "mac_part (snd (eth_ocm_read_phy_reg a g m)) = mac_part m"
    by (simp_all add: eth_ocm_write_phy_reg_def eth_ocm_read_phy_reg_def eth_ocm_wait_def Let_def wait_part c)
qed

lemma scan_part [phy_part]: "mac_part (snd (snd (snd (ocm_scan n k ids m)))) = mac_part m"
proof (induction n arbitrary: k ids m)
  case 0
  then show ?case by (cases ids) simp
next
  case (Suc n)
  then show ?case by (cases ids) (simp add: case_prod_beta Let_def phy_part)
qed

lemma await_part [phy_part]: "mac_part (await_autoneg n a m) = mac_part m"
proof (induction n arbitrary: m)
  case 0
  then show ?case by (subst await_autoneg.simps) (simp add: case_prod_beta Let_def phy_part)
next
  case (Suc n)
  then show ?case by (subst await_autoneg.simps) (simp add: case_prod_beta Let_def phy_part)
qed

lemma modify_part [phy_part]: "mac_part (phy_modify a g f m) = mac_part m"
  by (simp add: phy_modify_def case_prod_beta phy_part)

lemma prepare_part [phy_part]: "mac_part (phy_prepare i j a m) = mac_part m" "mac_part (snd (read_duplex i j a m)) = mac_part m"
  by (simp_all add: phy_prepare_def vitesse_script_def restart_autoneg_def read_duplex_def case_prod_beta Let_def phy_part)

lemma phy_init_part: "mac_part (snd (eth_ocm_phy_init m)) = mac_part m"
  by (simp add: eth_ocm_phy_init_def case_prod_beta Let_def phy_part)

subsection \<open>The descriptor table\<close>

lemma clear_status:
  assumes "\<forall>w \<in> set ws. 0x100 \<le> w"
  shows "status k (fold (\<lambda>w. write_bd_word w 0) ws m) = (if 0x100 + 2 * k \<in> set ws then 0 else status k m)"
  using assms
proof (induction ws arbitrary: m)
  case (Cons w ws)
  have "status k (write_bd_word w 0 m) = (if w = 0x100 + 2 * k then 0 else status k m)"
    using Cons.prems by (auto simp: write_bd_word_def Let_def mac_simps elim!: evenE)
  then show ?case using Cons by auto
qed simp

lemma clear_range: "0x100 \<le> a \<Longrightarrow> a \<le> 0x100 + 2 * k \<Longrightarrow> 0x100 + 2 * k < b \<Longrightarrow> status k (fold (\<lambda>w. write_bd_word w 0) [a..<b] m) = 0"
  by (subst clear_status) auto

lemma clear_keeps: "(ram (fold (\<lambda>w. write_bd_word w 0) ws m), sent (fold (\<lambda>w. write_bd_word w 0) ws m)) = (ram m, sent m)"
  by (induction ws arbitrary: m) (simp_all add: write_bd_word_def Let_def mac_simps)

text \<open>What configuration leaves: an enabled MAC at its first descriptors, all descriptors cleared.\<close>

lemma ocm_configure:
  fixes m :: ethermac and c :: ocm_cfg and addr :: bytes
  defines "m' \<equiv> ocm_configure c addr m"
  assumes "ocm_ok c"
  shows "k < 128 \<Longrightarrow> status k m' = 0" "bit (moder m') 0" "bit (moder m') 1" "hw_tx m' = 0" "hw_rx m' = 0" "ram m' = ram m" "sent m' = sent m"
    "tx_bd_num m' = of_nat (TXN c)" "mac_addr0 m' = mac_word0 addr" "mac_addr1 m' = mac_word1 addr"
proof -
  define mc where "mc = fold (\<lambda>w. write_bd_word w 0) [0x100..<0x1FF] m"
  define m1 where "m1 = write_moder 0 mc"
  define m2 where "m2 = m1\<lparr>tx_bd_num := of_nat (TXN c), miimoder := (of_nat (ALT_CPU_FREQ c div 1000000) + 2) AND 0xFFFFFFFE\<rparr>"
  define r where "r = eth_ocm_phy_init (write_miicommand 0 m2)"
  have p: "mac_part (snd r) = mac_part m2" by (simp add: r_def phy_init_part access_part)
  have 1: "status k m1 = 0" if "k < 128" for k
  proof -
    have "status k mc = 0" unfolding mc_def by (rule clear_range) (use that in simp_all)
    then show ?thesis by (simp add: m1_def mac_simps)
  qed
  have mc: "ram mc = ram m" "sent mc = sent m" using clear_keeps [of "[0x100..<0x1FF]" m] unfolding mc_def by blast+
  have 2: "bds m2 = bds m1" "hw_tx m2 = 0" "hw_rx m2 = 0" "ram m2 = ram m" "sent m2 = sent m" "tx_bd_num m2 = of_nat (TXN c)"
    by (simp_all add: m2_def m1_def mac_simps mc)
  define v where "v = (0x8000 :: u32) OR 0x2000 OR 1 OR 2 OR (if fst r \<noteq> 0 then 0x400 else 0)"
  have b: "bit v 0" "bit v 1" by (simp_all add: v_def bit_simps)
  have m': "\<exists>im ip i2 pl cc cm. m' = write_moder v (snd r\<lparr>int_mask := im, int_src := int_src (snd r) AND NOT 0xFFFFFFFF, ipgt := ip, ipgr2 := i2, packet_len := pl, collconf := cc, ctrlmoder := cm,
      mac_addr0 := mac_word0 addr, mac_addr1 := mac_word1 addr\<rparr>)"
    unfolding m'_def ocm_configure_def Let_def mc_def [symmetric] m1_def [symmetric] m2_def [symmetric] r_def [symmetric] case_prod_beta v_def write_int_src_def
    by simp blast
  then obtain im ip i2 pl cc cm where m': "m' = write_moder v (snd r\<lparr>int_mask := im, int_src := int_src (snd r) AND NOT 0xFFFFFFFF, ipgt := ip, ipgr2 := i2, packet_len := pl,
      collconf := cc, ctrlmoder := cm, mac_addr0 := mac_word0 addr, mac_addr1 := mac_word1 addr\<rparr>)" by blast
  have q: "bds (snd r) = bds m1" "hw_tx (snd r) = 0" "hw_rx (snd r) = 0" "ram (snd r) = ram m" "sent (snd r) = sent m" "tx_bd_num (snd r) = of_nat (TXN c)"
    using p 2 by (simp_all add: mac_part_def)
  show "k < 128 \<Longrightarrow> status k m' = 0" using 1 q(1) by (simp add: m' mac_simps) (simp add: status_def)
  show "bit (moder m') 0" "bit (moder m') 1" "hw_tx m' = 0" "hw_rx m' = 0" "ram m' = ram m" "sent m' = sent m"
      "tx_bd_num m' = of_nat (TXN c)" "mac_addr0 m' = mac_word0 addr" "mac_addr1 m' = mac_word1 addr"
    using b q by (simp_all add: m' mac_simps) (simp_all add: write_moder_def)
qed


subsection \<open>The first receive buffers\<close>

lemma ocm_read_init:
  assumes "allocs s = map Some bs @ al" "\<forall>k<length bs. \<not> bit (status (TXN c + i + k) (hw s)) 15"
  shows "\<exists>m. ocm_read_init c (length bs) i s =
      (SUCCESS, s\<lparr>allocs := al, rx_pkts := (\<lambda>k. if i \<le> k \<and> k < i + length bs then new_packet (bs ! (k - i)) else rx_pkts s k), hw := m\<rparr>) \<and>
    (\<forall>k. i \<le> k \<and> k < i + length bs \<longrightarrow> status (TXN c + k) m = rx_ctrl c k \<and> bd_addr (bds m (TXN c + k)) = dma_ptr c (bs ! (k - i))) \<and>
    (\<forall>j. j < TXN c + i \<longrightarrow> bds m j = bds (hw s) j) \<and> ram m = ram (hw s) \<and> sent m = sent (hw s) \<and> moder m = moder (hw s) \<and>
    tx_bd_num m = tx_bd_num (hw s) \<and> hw_tx m = hw_tx (hw s) \<and> hw_rx m = hw_rx (hw s)"
  using assms
proof (induction bs arbitrary: i s)
  case Nil
  have e: "(i \<le> k \<and> k < i) = False" for k by auto
  show ?case using Nil by (intro exI [of _ "hw s"]) (simp add: e)
next
  case (Cons b bs)
  let ?P = "(rx_pkts s)(i := new_packet b)" and ?m = "put_bd (TXN c + i) (dma_ptr c b) (rx_ctrl c i) (hw s)"
  define t where "t = s\<lparr>allocs := map Some bs @ al, rx_pkts := ?P, hw := ?m\<rparr>"
  have t: "allocs t = map Some bs @ al" "hw t = ?m" "rx_pkts t = ?P" by (simp_all add: t_def)
  have step: "ocm_read_init c (length (b # bs)) i s = ocm_read_init c (length bs) (Suc i) t"
    using Cons.prems(1) spec [OF Cons.prems(2), of 0] by (simp add: t_def pk_alloc arm_rx flag_bits new_packet_def Let_def)
  have "\<forall>k<length bs. \<not> bit (status (TXN c + Suc i + k) (hw t)) 15"
  proof (intro allI impI)
    fix k assume "k < length bs"
    then show "\<not> bit (status (TXN c + Suc i + k) (hw t)) 15" using spec [OF Cons.prems(2), of "Suc k"] by (simp add: t(2))
  qed
  from Cons.IH [OF t(1) this] obtain m where
    e: "ocm_read_init c (length bs) (Suc i) t = (SUCCESS, t\<lparr>allocs := al,
        rx_pkts := (\<lambda>k. if Suc i \<le> k \<and> k < Suc i + length bs then new_packet (bs ! (k - Suc i)) else rx_pkts t k), hw := m\<rparr>)" and
    rx: "\<forall>k. Suc i \<le> k \<and> k < Suc i + length bs \<longrightarrow> status (TXN c + k) m = rx_ctrl c k \<and> bd_addr (bds m (TXN c + k)) = dma_ptr c (bs ! (k - Suc i))" and
    old: "\<forall>j. j < TXN c + Suc i \<longrightarrow> bds m j = bds (hw t) j" and
    rest: "ram m = ram (hw t)" "sent m = sent (hw t)" "moder m = moder (hw t)" "tx_bd_num m = tx_bd_num (hw t)" "hw_tx m = hw_tx (hw t)" "hw_rx m = hw_rx (hw t)"
    by (elim exE conjE) blast
  have P: "(\<lambda>k. if Suc i \<le> k \<and> k < Suc i + length bs then new_packet (bs ! (k - Suc i)) else rx_pkts t k) =
      (\<lambda>k. if i \<le> k \<and> k < i + length (b # bs) then new_packet ((b # bs) ! (k - i)) else rx_pkts s k)"
    by (auto simp: fun_eq_iff nth_Cons' t(3))
  have "status (TXN c + k) m = rx_ctrl c k \<and> bd_addr (bds m (TXN c + k)) = dma_ptr c ((b # bs) ! (k - i))" if "i \<le> k" "k < i + length (b # bs)" for k
  proof (cases "k = i")
    case True
    then have "bds m (TXN c + k) = bds ?m (TXN c + k)" using old by (simp add: t(2))
    then show ?thesis using True put_bd(1,9) [where i = "TXN c + i" and k = "TXN c + i"] by (simp add: status_def)
  next
    case False
    then show ?thesis using rx that by (auto simp: nth_Cons')
  qed
  moreover have "bds m j = bds (hw s) j" if "j < TXN c + i" for j using old that by (simp add: t(2))
  ultimately show ?case unfolding step e P using rest by (intro exI [of _ m]) (simp add: t(2) t_def)
qed

lemma image_nth: "image_mset (\<lambda>i. f (xs ! i)) (mset_set {..<length xs}) = mset (map f xs)"
proof -
  have "map f xs = map (\<lambda>i. f (xs ! i)) [0..<length xs]" by (rule nth_equalityI) simp_all
  then show ?thesis by (simp only: mset_map mset_upt lessThan_atLeast0)
qed

text \<open>Before initialisation: the stack holds no packet of the driver, and the allocator has a buffer for each receive descriptor.\<close>

definition ocm_fresh :: "ocm_cfg \<Rightarrow> ocm \<Rightarrow> bool" where
  "ocm_fresh c s \<longleftrightarrow> \<not> ETH_OCM_SYNC_TX c \<and> \<not> sem s \<and> rcvdq s = [] \<and> freed s = [] \<and> sent (hw s) = [] \<and> RXN c \<le> length (allocs s) \<and>
     None \<notin> set (take (RXN c) (allocs s)) \<and> apart (room c) (spare c (allocs s))"

lemma ocm_init_started:
  assumes "ocm_ok c" "ocm_fresh c s"
  shows "ocm_started c (snd (eth_ocm_init c s))" "rx_bufs c (snd (eth_ocm_init c s)) = spare c (allocs s)"
    "ram (hw (snd (eth_ocm_init c s))) = ram (hw s)"
proof -
  define bs where "bs = map the (take (RXN c) (allocs s))"
  define al where "al = drop (RXN c) (allocs s)"
  have "map Some bs = take (RXN c) (allocs s)"
    using assms(2) unfolding bs_def map_map by (intro map_idI) (metis comp_apply ocm_fresh_def option.collapse)
  then have allocs: "allocs s = map Some bs @ al" by (simp add: al_def)
  have len: "length bs = RXN c" using assms(2) by (simp add: bs_def ocm_fresh_def)
  let ?m = "ocm_configure c (info_mac s) (hw s)"
  note cf = ocm_configure [OF assms(1), where addr = "info_mac s" and m = "hw s"]
  obtain s4 where s4: "eth_ocm_init c s = (SUCCESS, snd (eth_ocm_read_init c s4))" "hw s4 = ?m" "allocs s4 = allocs s" "cur_tx_desc s4 = 0" "cur_rx_desc s4 = 0"
      "next_tx_desc s4 = 0" "next_tx_desc_rdy s4" "tosend s4 = []" "sending s4 = []" "rcvdq s4 = []" "freed s4 = []" "\<not> sem s4"
    using assms(2) unfolding eth_ocm_init_def Let_def ocm_fresh_def by (auto split: if_splits)
  have ok: "0 < TXN c" "0 < RXN c" "TXN c + RXN c \<le> 128" using assms(1) by (simp_all add: ocm_ok_def)
  have "\<not> bit (status (TXN c + 0 + k) (hw s4)) 15" if "k < length bs" for k using cf(1) [of "TXN c + k"] ok that len by (simp add: s4(2))
  then have "\<forall>k<length bs. \<not> bit (status (TXN c + 0 + k) (hw s4)) 15" by blast
  from ocm_read_init [OF trans [OF s4(3) allocs] this, unfolded s4(2)] obtain m where
    e: "ocm_read_init c (length bs) 0 s4 = (SUCCESS, s4\<lparr>allocs := al, rx_pkts := (\<lambda>k. if 0 \<le> k \<and> k < 0 + length bs then new_packet (bs ! (k - 0)) else rx_pkts s4 k), hw := m\<rparr>)" and
    rx: "\<forall>k. 0 \<le> k \<and> k < 0 + length bs \<longrightarrow> status (TXN c + k) m = rx_ctrl c k \<and> bd_addr (bds m (TXN c + k)) = dma_ptr c (bs ! (k - 0))" and
    tx: "\<forall>j. j < TXN c + 0 \<longrightarrow> bds m j = bds ?m j" and
    k: "ram m = ram ?m" "sent m = sent ?m" "moder m = moder ?m" "tx_bd_num m = tx_bd_num ?m" "hw_tx m = hw_tx ?m" "hw_rx m = hw_rx ?m"
    by (elim exE conjE) blast
  define t where "t = s4\<lparr>allocs := al, rx_pkts := (\<lambda>k. if k < length bs then new_packet (bs ! k) else rx_pkts s4 k), hw := m\<rparr>"
  have t: "snd (eth_ocm_init c s) = t" using e len by (simp add: s4(1) eth_ocm_read_init_def t_def cong: if_cong)
  have "image_mset (\<lambda>i. dma_ptr c (nb_buff (rx_pkts t i))) (mset_set {..<RXN c}) = image_mset (\<lambda>i. dma_ptr c (bs ! i)) (mset_set {..<RXN c})"
    by (rule image_mset_cong) (simp add: t_def len new_packet_def)
  also have "\<dots> = mset (map (dma_ptr c) bs)"
    unfolding len [symmetric] by (rule image_nth)
  finally have bufs: "rx_bufs c t = spare c (allocs s)"
    unfolding rx_bufs_def allocs by (simp add: t_def s4 spare_def List.map_filter_def comp_def)
  have bok: "bufs_ok c t" using assms(2) bufs by (simp add: bufs_ok_def ocm_fresh_def t_def s4)
  have st0: "status j m = 0" if "j < TXN c" for j using tx cf(1) [of j] that ok by (simp add: status_def)
  have tr: "tx_ring (TXN c) 0 0 [] m" using ok st0 cf by (simp add: tx_ring_def k)
  have addr: "bd_addr (bds m (TXN c + i)) = dma_ptr c (nb_buff (rx_pkts t i))" if "i < RXN c" for i
    using rx that len by (simp add: t_def new_packet_def)
  have far: "far (room c) (bd_addr (bds m (TXN c + i))) (bd_addr (bds m (TXN c + j)))" if "i < RXN c" "j < RXN c" "i \<noteq> j" for i j
    using rx_buf_pair [OF _ that] bok addr [OF that(1)] addr [OF that(2)] by (simp add: bufs_ok_def)
  have rr: "rx_ring (room c) (TXN c) (RXN c) 0 [] m"
    using ok rx len cf far by (simp add: rx_ring_def k rx_ctrl room_def)
  have "ocm_inv c 0 [] [] t"
    unfolding ocm_inv_def using tr rr addr bok ok cf(3) by (simp add: t_def s4 k)
  then show "ocm_started c (snd (eth_ocm_init c s))"
    using assms(2) unfolding t ocm_started_def by (simp add: t_def s4 k cf(7) ocm_fresh_def)
  show "rx_bufs c (snd (eth_ocm_init c s)) = spare c (allocs s)" "ram (hw (snd (eth_ocm_init c s))) = ram (hw s)"
    using bufs cf(6) unfolding t by (simp_all add: t_def k)
qed


subsection \<open>Everything is sent\<close>

text \<open>The MAC sends a frame and the transmit service runs.\<close>

definition tx_round :: "ocm_cfg \<Rightarrow> u32 \<Rightarrow> ocm \<Rightarrow> ocm" where
  "tx_round c st s = eth_ocm_tx_isr c (s\<lparr>hw := mac_transmit st (hw s)\<rparr>)"

lemma tx_round:
  assumes "ocm_inv c a fs ps s" "tx_hist c sp sb fs s"
  shows "\<exists>fs'. ocm_inv c 0 fs' ps (tx_round c st s) \<and> tx_hist c sp sb fs' (tx_round c st s) \<and> (tosend (tx_round c st s) = [] \<or> length fs' = TXN c) \<and>
    length (sent (hw (tx_round c st s))) = length (sent (hw s)) + (if fs = [] then 0 else 1)"
proof -
  define t where "t = s\<lparr>hw := mac_transmit st (hw s)\<rparr>"
  have "\<exists>a' fs'. ocm_inv c a' fs' ps t \<and> tx_hist c sp sb fs' t \<and> length (sent (hw t)) = length (sent (hw s)) + (if fs = [] then 0 else 1)"
  proof (cases fs)
    case Nil
    then have "t = s" using ocm_inv_idle [of c a ps s st] assms(1) by (simp add: t_def)
    then show ?thesis using Nil assms by auto
  next
    case (Cons f rest)
    note u = ocm_inv_transmit [OF assms(1) [unfolded Cons], of st]
    have "tx_hist c sp sb rest t" using assms(2) u(2) by (simp add: tx_hist_def t_def Cons transmit_other)
    then show ?thesis using u Cons by (auto simp: t_def)
  qed
  then obtain a' fs1 where u: "ocm_inv c a' fs1 ps t" "tx_hist c sp sb fs1 t" "length (sent (hw t)) = length (sent (hw s)) + (if fs = [] then 0 else 1)" by blast
  from tx_hist_tx_isr [OF u(1,2)] obtain fs' where
    r: "ocm_inv c 0 fs' ps (eth_ocm_tx_isr c t)" "tx_hist c sp sb fs' (eth_ocm_tx_isr c t)" "rx_same t (eth_ocm_tx_isr c t)"
      "tosend (eth_ocm_tx_isr c t) = [] \<or> length fs' = TXN c" by blast
  then show ?thesis using u(3) by (auto simp: tx_round_def t_def [symmetric] rx_same_def)
qed

text \<open>From a state in which the ring is only empty if nothing waits, \<open>n\<close> rounds send \<open>n\<close> frames or all there are.\<close>

lemma tx_rounds:
  assumes "0 < TXN c" "ocm_inv c 0 fs ps s" "tx_hist c sp sb fs s" "tosend s = [] \<or> length fs = TXN c"
  shows "\<exists>fs'. ocm_inv c 0 fs' ps ((tx_round c st ^^ n) s) \<and> tx_hist c sp sb fs' ((tx_round c st ^^ n) s) \<and>
    (tosend ((tx_round c st ^^ n) s) = [] \<or> length fs' = TXN c) \<and> min (length sb) n \<le> length (sent (hw ((tx_round c st ^^ n) s)))"
  using assms
proof (induction n)
  case 0
  then show ?case by auto
next
  case (Suc n)
  let ?t = "(tx_round c st ^^ n) s"
  from Suc obtain fs1 where
    t: "ocm_inv c 0 fs1 ps ?t" "tx_hist c sp sb fs1 ?t" "tosend ?t = [] \<or> length fs1 = TXN c" "min (length sb) n \<le> length (sent (hw ?t))" by blast
  have stop: "length (sent (hw ?t)) = length sb" if "fs1 = []"
    using t(2,3) that assms(1) by (auto simp: tx_hist_def)
  from tx_round [OF t(1,2), of st] obtain fs' where
    r: "ocm_inv c 0 fs' ps (tx_round c st ?t)" "tx_hist c sp sb fs' (tx_round c st ?t)" "tosend (tx_round c st ?t) = [] \<or> length fs' = TXN c"
      "length (sent (hw (tx_round c st ?t))) = length (sent (hw ?t)) + (if fs1 = [] then 0 else 1)" by blast
  have "min (length sb) (Suc n) \<le> length (sent (hw (tx_round c st ?t)))" using r(4) t(4) stop by auto
  then show ?case using r(1-3) by auto
qed

lemma tx_all_sent:
  assumes "0 < TXN c" "ocm_inv c 0 fs ps s" "tx_hist c sp sb fs s" "tosend s = [] \<or> length fs = TXN c" "length sb \<le> length (sent (hw s))"
  shows "sent (hw s) = sb \<and> mset (freed s) = mset sp"
proof -
  have l: "length (sent (hw s)) + length fs + length (filter (fits c) (tosend s)) = length sb"
    using assms(3) by (auto simp: tx_hist_def)
  then have "length fs = 0" using assms(5) by linarith
  then have "fs = []" by simp
  then have "tosend s = []" "sending s = []" using assms(1,4) ocm_invD(5) [OF assms(2)] by auto
  then show ?thesis using assms(3) \<open>fs = []\<close> by (simp add: tx_hist_def)
qed

lemma tx_drains:
  assumes "0 < TXN c" "ocm_inv c a fs ps s" "tx_hist c sp sb fs s" "length sb < n"
  shows "sent (hw ((tx_round c st ^^ n) s)) = sb \<and> mset (freed ((tx_round c st ^^ n) s)) = mset sp"
proof -
  obtain k where k: "n = Suc k" "length sb \<le> k" using assms(4) by (cases n) auto
  from tx_round [OF assms(2,3), of st] obtain fs1 where
    "ocm_inv c 0 fs1 ps (tx_round c st s)" "tx_hist c sp sb fs1 (tx_round c st s)" "tosend (tx_round c st s) = [] \<or> length fs1 = TXN c" by blast
  from tx_rounds [OF assms(1) this, where st = st and n = k] obtain fs' where
    "ocm_inv c 0 fs' ps ((tx_round c st ^^ k) (tx_round c st s))" "tx_hist c sp sb fs' ((tx_round c st ^^ k) (tx_round c st s))"
      "tosend ((tx_round c st ^^ k) (tx_round c st s)) = [] \<or> length fs' = TXN c"
      "min (length sb) k \<le> length (sent (hw ((tx_round c st ^^ k) (tx_round c st s))))" by blast
  then show ?thesis using tx_all_sent [OF assms(1)] k by (simp add: funpow_Suc_right del: funpow.simps)
qed


subsection \<open>Properties\<close>

text \<open>
  C28: transmission. After initialisation, in every state that driver, stack and MAC reach together, the frames on the
  wire followed by those in the ring and those of the queue are the frames handed over, in order and unchanged; every
  packet is freed once, is being sent or waits. However the MAC reports the frames, as many rounds of sending as there
  are frames, and one more, send everything that fits and free every packet.
\<close>

theorem ocm_transmits:
  assumes "ocm_ok c" "ocm_fresh c s0" "ocm_reach c (snd (eth_ocm_init c s0)) sp sb ar dl s"
  shows "(\<exists>w. length w \<le> ETH_OCM_TX_DESC_COUNT c \<and> sent (hw s) @ w @ map (pkt_frame c (ram (hw s))) (filter (fits c) (tosend s)) = sb) \<and>
    mset (freed s) + mset (sending s) + mset (tosend s) = mset sp \<and>
    (\<forall>n > length sb. sent (hw ((tx_round c st ^^ n) s)) = sb \<and> mset (freed ((tx_round c st ^^ n) s)) = mset sp)"
proof -
  from ocm_reach_inv [OF assms(3) ocm_init_started(1) [OF assms(1,2)]] obtain a fs ps where
    i: "ocm_inv c a fs ps s" "tx_hist c sp sb fs s" by blast
  have "length fs \<le> TXN c" "0 < TXN c" using tx_ringD(1,2) [OF ocm_invD(1) [OF i(1)]] by simp_all
  then show ?thesis using i(2) tx_drains [OF _ i] by (auto simp: tx_hist_def)
qed

text \<open>
  C29: reception. In every state that is reached, what the stack has taken and what is queued for it are, in order and
  unchanged, frames that arrived without error. The receive service ends, empties the ring and queues of the
  frames in it exactly those without an error for which the allocator gives a new buffer; it counts the others as discarded.
\<close>

theorem ocm_receives:
  assumes "ocm_ok c" "ocm_fresh c s0" "ocm_reach c (snd (eth_ocm_init c s0)) sp sb ar dl s"
  shows "subseq (dl @ map (rx_data c (ram (hw s))) (rcvdq s)) (map fst (filter good_rx ar)) \<and>
    (\<exists>ps s'. rx_ring (room c) (ETH_OCM_TX_DESC_COUNT c) (ETH_OCM_RX_DESC_COUNT c) (cur_rx_desc s) ps (hw s) \<and> eth_ocm_rx_isr c s = Some s' \<and>
       rx_ring (room c) (ETH_OCM_TX_DESC_COUNT c) (ETH_OCM_RX_DESC_COUNT c) (cur_rx_desc s') [] (hw s') \<and>
       map (rx_view c (ram (hw s'))) (rcvdq s') = map (rx_view c (ram (hw s))) (rcvdq s) @ map (\<lambda>f. (f, ETHHDR_SIZE c)) (fst (rx_accept ps (allocs s))) \<and>
       ifInDiscards (mib s') = ifInDiscards (mib s) + of_nat (snd (snd (rx_accept ps (allocs s)))))"
proof -
  from ocm_reach_inv [OF assms(3) ocm_init_started(1) [OF assms(1,2)]] obtain a fs ps where
    i: "ocm_inv c a fs ps s" "rx_hist c ar dl ps s" by blast
  from eth_ocm_rx_isr [OF i(1)] obtain s' where
    r: "eth_ocm_rx_isr c s = Some s'" "ocm_inv c a fs [] s'"
      "map (rx_view c (ram (hw s'))) (rcvdq s') = map (rx_view c (ram (hw s))) (rcvdq s) @ map (\<lambda>f. (f, ETHHDR_SIZE c)) (fst (rx_accept ps (allocs s)))"
      "ifInDiscards (mib s') = ifInDiscards (mib s) + of_nat (snd (snd (rx_accept ps (allocs s))))"
    unfolding eth_ocm_rx_isr_def by (elim exE conjE) blast
  have "subseq (dl @ map (rx_data c (ram (hw s))) (rcvdq s)) (map fst (filter good_rx ar))"
  proof (rule subseq_order.order_trans)
    show "subseq (dl @ map (rx_data c (ram (hw s))) (rcvdq s)) ((dl @ map (rx_data c (ram (hw s))) (rcvdq s)) @ map fst (filter good_rx ps))"
      by (rule prefix_imp_subseq) simp
    show "subseq ((dl @ map (rx_data c (ram (hw s))) (rcvdq s)) @ map fst (filter good_rx ps)) (map fst (filter good_rx ar))"
      using i(2) by (simp add: rx_hist_def)
  qed
  then show ?thesis using r ocm_invD(2) [OF i(1)] ocm_invD(2) [OF r(2)] by blast
qed


text \<open>One descriptor for each direction, two free buffers, and a memory that holds the number of each byte.\<close>

definition sample_ocm_cfg :: ocm_cfg where
  "sample_ocm_cfg = \<lparr>ETH_OCM_TX_DESC_COUNT = 1, ETH_OCM_RX_DESC_COUNT = 1, ETH_OCM_SYNC_TX = False, ETHHDR_SIZE = 16, ETHHDR_BIAS = 2,
     ALT_CPU_FREQ = 50000000, alt_remap_cached = (\<lambda>p. p), get_mac_addr = [0, 7, 0xED, 1, 2, 3], alt_irq_register = 0\<rparr>"

definition sample_ocm_mac :: ethermac where
  "sample_ocm_mac = \<lparr>moder = 0, int_src = 0, int_mask = 0, ipgt = 0, ipgr1 = 0, ipgr2 = 0, packet_len = 0, collconf = 0, tx_bd_num = 0, ctrlmoder = 0,
     miimoder = 0, miicommand = 0, miiaddress = 0, miitx_data = 0, miirx_data = 0, mac_addr0 = 0, mac_addr1 = 0, hash_addr0 = 0, hash_addr1 = 0,
     bds = (\<lambda>_. \<lparr>len_status = 0, bd_addr = 0\<rparr>), ram = of_nat, hw_tx = 0, hw_rx = 0, sent = [], phys = (\<lambda>_ _. 0xFFFF), mii_busy = 0, mii_time = 3,
     mii_invalid = False, phy_link = 0\<rparr>"

definition sample_ocm :: ocm where
  "sample_ocm = \<lparr>info_mac = [0, 7, 0xED, 1, 2, 3], sem = False, cur_tx_desc = 0, cur_rx_desc = 0, rx_pkts = (\<lambda>_. new_packet 0), tosend = [], sending = [],
     next_tx_desc = 0, next_tx_desc_rdy = False, hw = sample_ocm_mac,
     mib = \<lparr>ifAdminStatus = 2, ifOperStatus = 2, ifInOctets = 0, ifInDiscards = 0, ifOutOctets = 0, ifOutUcastPkts = 0, ifOutDiscards = 0\<rparr>,
     rcvdq = [], freed = [], allocs = [Some 0x1000, Some 0x2000], isr_registered = False, signals = 0\<rparr>"

lemma sample_ocm_ok: "ocm_ok sample_ocm_cfg" "ocm_fresh sample_ocm_cfg sample_ocm" "spare sample_ocm_cfg (allocs sample_ocm) = {#0x1002, 0x2002#}"
    "room sample_ocm_cfg = 1534"
proof -
  show "ocm_ok sample_ocm_cfg" by (simp add: ocm_ok_def sample_ocm_cfg_def)
  show r: "room sample_ocm_cfg = 1534" by (simp add: room_def sample_ocm_cfg_def)
  show s: "spare sample_ocm_cfg (allocs sample_ocm) = {#0x1002, 0x2002#}"
    by (simp add: spare_def sample_ocm_def sample_ocm_cfg_def dma_ptr_def List.map_filter_simps)
  have "far 1534 x y" if pair: "{#x, y#} \<subseteq># {#0x1002, 0x2002#}" for x y
  proof -
    obtain C where C: "{#0x1002, 0x2002#} = {#x, y#} + C" using pair unfolding subset_mset.le_iff_add by blast
    then have "size {#0x1002, 0x2002 :: nat#} = size ({#x, y#} + C)" by simp
    then have "C = {#}" by simp
    then have "{#x, y#} = {#0x1002, 0x2002#}" using C by simp
    then show ?thesis by (auto simp: far_def add_eq_conv_ex)
  qed
  then have "apart (room sample_ocm_cfg) (spare sample_ocm_cfg (allocs sample_ocm))" unfolding s r apart_def by blast
  then show "ocm_fresh sample_ocm_cfg sample_ocm" by (simp add: ocm_fresh_def) (simp add: sample_ocm_def sample_ocm_cfg_def sample_ocm_mac_def)
qed


theorem ocm_transmits_witness:
  "\<exists>s. mset (freed s) + mset (sending s) + mset (tosend s) = {#\<lparr>nb_buff = 0x5000, nb_prot = 0x5000, nb_plen = 62, pk_type = []\<rparr>#} \<and>
     sent (hw ((tx_round sample_ocm_cfg 0 ^^ 2) s)) = [load of_nat 0x5002 60]"
proof -
  let ?p = "\<lparr>nb_buff = 0x5000, nb_prot = 0x5000, nb_plen = 62, pk_type = []\<rparr>" and ?c = sample_ocm_cfg
  let ?s = "snd (eth_ocm_init ?c sample_ocm)"
  note i = ocm_init_started [OF sample_ocm_ok(1,2)]
  have p: "pkt_len ?c ?p = 60" "pkt_addr ?c ?p = 0x5002" by (simp_all add: pkt_len_def pkt_addr_def dma_ptr_def sample_ocm_cfg_def)
  have "\<forall>x \<in># rx_bufs ?c ?s. clear_of ?c x ?p" unfolding i(2) sample_ocm_ok(3) by (simp add: clear_of_def p sample_ocm_ok(4))
  then have "ocm_reach ?c ?s ([] @ [?p]) ([] @ (if fits ?c ?p then [pkt_frame ?c (ram (hw ?s)) ?p] else [])) [] [] (snd (eth_ocm_pkt_send ?c ?p ?s))"
    by (rule ocm_reach.send [OF ocm_reach.start])
  moreover have "pkt_frame ?c (ram (hw ?s)) ?p = load of_nat 0x5002 60"
    unfolding i(3) pkt_frame_def p by (simp add: sample_ocm_def sample_ocm_mac_def)
  ultimately have "ocm_reach ?c ?s [?p] [load of_nat 0x5002 60] [] [] (snd (eth_ocm_pkt_send ?c ?p ?s))" by (simp add: fits_def p)
  from ocm_transmits [OF sample_ocm_ok(1,2) this, of 0] show ?thesis
    by (intro exI [of _ "snd (eth_ocm_pkt_send ?c ?p ?s)"]) simp
qed

theorem ocm_receives_witness:
  "\<exists>s s'. subseq (map (rx_data sample_ocm_cfg (ram (hw s))) (rcvdq s)) [replicate 64 7] \<and> eth_ocm_rx_isr sample_ocm_cfg s = Some s'"
proof -
  let ?c = sample_ocm_cfg
  let ?s = "snd (eth_ocm_init ?c sample_ocm)"
  have "length (replicate 64 (7 :: u8)) \<le> room ?c" by (simp add: sample_ocm_ok(4))
  then have "ocm_reach ?c ?s [] [] ([] @ [(replicate 64 7, 0)]) [] (?s\<lparr>hw := mac_receive (replicate 64 7) 0 (hw ?s)\<rparr>)"
    by (rule ocm_reach.receive [OF ocm_reach.start])
  from ocm_receives [OF sample_ocm_ok(1,2) this] obtain s' where
    "subseq ([] @ map (rx_data ?c (ram (hw (?s\<lparr>hw := mac_receive (replicate 64 7) 0 (hw ?s)\<rparr>)))) (rcvdq (?s\<lparr>hw := mac_receive (replicate 64 7) 0 (hw ?s)\<rparr>)))
       (map fst (filter good_rx ([] @ [(replicate 64 7, 0)])))" "eth_ocm_rx_isr ?c (?s\<lparr>hw := mac_receive (replicate 64 7) 0 (hw ?s)\<rparr>) = Some s'"
    by (elim conjE exE) blast
  moreover have "map fst (filter good_rx ([] @ [(replicate 64 7, 0)])) = [replicate 64 7]" by (simp add: good_rx_def)
  ultimately show ?thesis unfolding append_Nil by metis
qed


subsection \<open>Synchronous transmission\<close>

text \<open>The MAC sends the frame before the descriptor is read for the \<open>t\<close>th time; the polls before find it ready.\<close>

definition sends_at :: "nat \<Rightarrow> u32 \<Rightarrow> nat \<Rightarrow> ethermac \<Rightarrow> ethermac" where
  "sends_at t st i m = (if i = t then mac_transmit st m else m)"

lemma raw_poll_sent:
  assumes "bit (status 0 m) 15" "\<not> bit (status 0 (mac_transmit st m)) 15" "i \<le> t" "t < 1000000"
  shows "raw_poll (sends_at t st) i m = (status 0 (mac_transmit st m), Suc t, mac_transmit st m)"
  using assms(3)
proof (induction "t - i" arbitrary: i)
  case 0
  then show ?case using assms(2) by (subst raw_poll.simps) (simp add: sends_at_def flag_bits Let_def)
next
  case (Suc d)
  then have "i \<noteq> t" "Suc i < 1000000" "d = t - Suc i" "Suc i \<le> t" using assms(4) by simp_all
  then show ?case using Suc(1) [of "Suc i"] assms(1) by (subst raw_poll.simps) (simp add: sends_at_def flag_bits Let_def)
qed

lemma raw_poll_timeout:
  assumes "bit (status 0 m) 15" "i < 1000000" "1000000 \<le> t"
  shows "raw_poll (sends_at t st) i m = (status 0 m, 1000000, m)"
  using assms(2)
proof (induction "999999 - i" arbitrary: i)
  case 0
  then have "i = 999999" by simp
  then show ?case using assms(3) by (subst raw_poll.simps) (simp add: sends_at_def Let_def)
next
  case (Suc d)
  then have "i \<noteq> t" "Suc i < 1000000" "d = 999999 - Suc i" using assms(3) by simp_all
  then show ?case using Suc(1) [of "Suc i"] assms(1) by (subst raw_poll.simps) (simp add: sends_at_def flag_bits Let_def)
qed

text \<open>
  The synchronous variant. If the MAC is idle and sends the frame in time, the call ends with the frame on the wire, and
  with success exactly if the MAC reports no error. If it does not send within a million polls, the packet is
  reported as dropped although its descriptor is still ready: the MAC may send it later from a buffer that
  the stack has taken back, and until then every call is refused.
\<close>

theorem ocm_raw_send:
  assumes "\<not> sem s" "\<not> bit (status 0 (hw s)) 15" "hw_tx (hw s) = 0" "bit (moder (hw s)) 1" "fits c p"
  shows "(t < 999999 \<longrightarrow> (\<exists>m mb. eth_ocm_raw_send c (sends_at t st) (nb_prot p) (nb_plen p) s =
            (if st AND 0x10D = 0 then SUCCESS else SEND_DROPPED, s\<lparr>hw := m, mib := mb\<rparr>) \<and>
          sent m = sent (hw s) @ [pkt_frame c (ram (hw s)) p] \<and> \<not> bit (status 0 m) 15)) \<and>
    (1000000 \<le> t \<longrightarrow> (\<exists>m. eth_ocm_raw_send c (sends_at t st) (nb_prot p) (nb_plen p) s = (SEND_DROPPED, s\<lparr>hw := m, mib := discard_out (mib s)\<rparr>) \<and>
          sent m = sent (hw s) \<and> sent (mac_transmit st m) = sent (hw s) @ [pkt_frame c (ram (hw s)) p] \<and>
          (\<forall>env q. eth_ocm_raw_send c env (nb_prot q) (nb_plen q) (s\<lparr>hw := m\<rparr>) = (SEND_DROPPED, s\<lparr>hw := m, mib := discard_out (mib s)\<rparr>))))"
proof -
  define len where "len = nb_plen p - of_nat (ETHHDR_BIAS c)"
  define w where "w = push_bit 16 len OR 0x8000 OR 0x2000 OR 0x1000 OR 0x0800"
  define m2 where "m2 = put_bd 0 (pkt_addr c p) w (hw s)"
  have chk: "low_send_check len (status 0 (hw s)) = SUCCESS"
    using assms(2,5) by (simp add: low_send_check fits_def pkt_len_def len_def)
  have l16: "unat len < 2 ^ 16" using assms(5) by (simp add: fits_def pkt_len_def len_def)
  have wf: "w = push_bit 16 len OR 0xB800" by (simp add: w_def)
  have w: "unat (drop_bit 16 w) = pkt_len c p" "bit w 15" unfolding wf
    by (subst len_word(1) [OF _ l16]) (simp_all add: len_def pkt_len_def bit_simps)
  have m2: "status 0 m2 = w" "bd_addr (bds m2 0) = pkt_addr c p" "ram m2 = ram (hw s)" "sent m2 = sent (hw s)" "hw_tx m2 = 0" "bit (moder m2) 1"
    using assms(3,4) by (simp_all add: m2_def)
  have tr: "sent (mac_transmit st m2) = sent (hw s) @ [pkt_frame c (ram (hw s)) p]" "status 0 (mac_transmit st m2) = (w AND NOT 0x8000) OR (st AND 0x1FF)"
    using m2 w by (simp_all add: mac_transmit_def Let_def flag_bits pkt_frame_def status_def write_status_def)
  have nr: "\<not> bit (status 0 (mac_transmit st m2)) 15" unfolding tr(2) by (simp add: bit_simps)
  have "w AND 0x10D = 0" unfolding wf bit.conj_disj_distrib2 using len_word(2) [of "0x10D" len] by simp
  then have "((w AND NOT 0x8000) OR (st AND 0x1FF)) AND 0x10D = st AND 0x10D"
    by (simp add: bit.conj_disj_distrib2 and.assoc)
  then have er: "status 0 (mac_transmit st m2) AND 0x10D = st AND 0x10D" by (simp only: tr(2))
  have call: "eth_ocm_raw_send c env (nb_prot p) (nb_plen p) s =
      (let (ctrl, i, m3) = raw_poll env 0 m2;
           result = (if i < 1000000 then (if ctrl AND 0x10D \<noteq> 0 then EIO else SUCCESS) else ETIMEDOUT)
       in if result = SUCCESS then (SUCCESS, s\<lparr>hw := m3, mib := count_out (nb_plen p) (mib s)\<rparr>) else (SEND_DROPPED, s\<lparr>hw := m3, mib := discard_out (mib s)\<rparr>))" for env
    using assms(1) chk unfolding eth_ocm_raw_send_def Let_def len_def [symmetric]
    by (simp add: m2_def put_bd_def w_def pkt_addr_def case_prod_beta)
  show ?thesis
  proof (intro conjI impI)
    assume "t < 999999"
    then have "raw_poll (sends_at t st) 0 m2 = (status 0 (mac_transmit st m2), Suc t, mac_transmit st m2)"
      by (intro raw_poll_sent) (use m2 w nr in simp_all)
    then show "\<exists>m mb. eth_ocm_raw_send c (sends_at t st) (nb_prot p) (nb_plen p) s =
            (if st AND 0x10D = 0 then SUCCESS else SEND_DROPPED, s\<lparr>hw := m, mib := mb\<rparr>) \<and>
          sent m = sent (hw s) @ [pkt_frame c (ram (hw s)) p] \<and> \<not> bit (status 0 m) 15"
      using \<open>t < 999999\<close> er tr(1) nr by (auto simp: call)
  next
    assume "1000000 \<le> t"
    then have "raw_poll (sends_at t st) 0 m2 = (status 0 m2, 1000000, m2)" by (intro raw_poll_timeout) (use m2 w in simp_all)
    then have r: "eth_ocm_raw_send c (sends_at t st) (nb_prot p) (nb_plen p) s = (SEND_DROPPED, s\<lparr>hw := m2, mib := discard_out (mib s)\<rparr>)" by (simp add: call)
    have "low_send_check l w = EBUSY" for l using w(2) by (simp add: low_send_check_def Let_def flag_bits)
    then have "eth_ocm_raw_send c env (nb_prot q) (nb_plen q) (s\<lparr>hw := m2\<rparr>) = (SEND_DROPPED, s\<lparr>hw := m2, mib := discard_out (mib s)\<rparr>)" for env q
      using assms(1) m2(1) by (simp add: eth_ocm_raw_send_def Let_def)
    then show "\<exists>m. eth_ocm_raw_send c (sends_at t st) (nb_prot p) (nb_plen p) s = (SEND_DROPPED, s\<lparr>hw := m, mib := discard_out (mib s)\<rparr>) \<and>
          sent m = sent (hw s) \<and> sent (mac_transmit st m) = sent (hw s) @ [pkt_frame c (ram (hw s)) p] \<and>
          (\<forall>env q. eth_ocm_raw_send c env (nb_prot q) (nb_plen q) (s\<lparr>hw := m\<rparr>) = (SEND_DROPPED, s\<lparr>hw := m, mib := discard_out (mib s)\<rparr>))"
      using r m2(4) tr(1) by blast
  qed
qed


theorem ocm_raw_send_witness:
  "\<exists>m mb. eth_ocm_raw_send sample_ocm_cfg (sends_at 7 0) 0x5000 62 (sample_ocm\<lparr>hw := sample_ocm_mac\<lparr>moder := 3\<rparr>\<rparr>) =
     (SUCCESS, sample_ocm\<lparr>hw := m, mib := mb\<rparr>) \<and> sent m = [load of_nat 0x5002 60]"
proof -
  let ?p = "\<lparr>nb_buff = 0x5000, nb_prot = 0x5000, nb_plen = 62, pk_type = []\<rparr>" and ?c = sample_ocm_cfg
  let ?s = "sample_ocm\<lparr>hw := sample_ocm_mac\<lparr>moder := 3\<rparr>\<rparr>"
  have p: "pkt_len ?c ?p = 60" "pkt_addr ?c ?p = 0x5002" by (simp_all add: pkt_len_def pkt_addr_def dma_ptr_def sample_ocm_cfg_def)
  have "\<not> sem ?s" "\<not> bit (status 0 (hw ?s)) 15" "hw_tx (hw ?s) = 0" "bit (moder (hw ?s)) 1" "fits ?c ?p"
    by (simp_all add: sample_ocm_def sample_ocm_mac_def status_def fits_def p)
  from ocm_raw_send [OF this, of 7 0] show ?thesis by (simp add: pkt_frame_def p sample_ocm_mac_def) blast
qed

end
