(* ===== verification/Spi_Bus.thy ===== *)
theory Spi_Bus
  imports Epcs_Spi
begin

text \<open>
  The SPI bus driver (\<^verbatim>\<open>packages/devs/spi/sopc/altera_avalon_spi/current/src/altera_avalon_spi.c\<close>), which serves the SPI
  layer of eCos. Several devices share the bus: the select register picks device \<open>k\<close> if it has bit \<open>k\<close> alone. The device
  is selected as long as the chip-select output is forced (\<open>sso\<close>), otherwise for each byte. While none is picked, the
  controller shifts bytes that no device sees and receives \<open>miso\<close>. As in \<open>Epcs_Spi\<close>, \<open>flight\<close> is the byte being shifted with the number of
  status reads it still takes.
\<close>

unbundle bit_operations_syntax

record 'd spi_bus =
  cs_up :: bool
  slave_sel :: u32
  sso :: bool
  rrdy :: bool
  rxdata :: u8
  flight :: "(nat \<times> u8) option"
  pace :: "nat list"
  miso :: u8
  devs :: "nat \<Rightarrow> 'd"

record spi_sopc_device =
  dev_num :: nat
  dev_init :: bool

subsection \<open>The controller\<close>

definition picked :: "u32 \<Rightarrow> nat option" where
  "picked sel = find (\<lambda>k. sel = push_bit k 1) [0..<32]"

definition selected :: "bool \<Rightarrow> u32 \<Rightarrow> nat option" where
  "selected o' sel = (if o' then picked sel else None)"

definition set_select :: "(nat \<Rightarrow> 'd slave) \<Rightarrow> u32 \<Rightarrow> bool \<Rightarrow> 'd spi_bus \<Rightarrow> 'd spi_bus" where
  "set_select S sel o' b =
     (let old = selected (sso b) (slave_sel b); new = selected o' sel;
          d0 = devs b;
          d1 = (case old of None \<Rightarrow> d0 | Some k \<Rightarrow> if old = new then d0 else d0(k := sl_release (S k) (d0 k)));
          d2 = (case new of None \<Rightarrow> d1 | Some k \<Rightarrow> if old = new then d1 else d1(k := sl_select (S k) (d1 k)))
      in b\<lparr>slave_sel := sel, sso := o', devs := d2\<rparr>)"

definition bus_txdata :: "(nat \<Rightarrow> 'd slave) \<Rightarrow> u8 \<Rightarrow> 'd spi_bus \<Rightarrow> 'd spi_bus" where
  "bus_txdata S v b =
     (let (r, ds) = (case picked (slave_sel b) of
                       None \<Rightarrow> (miso b, devs b)
                     | Some k \<Rightarrow> (let (r, d) = shift_byte (S k) (sso b) v (devs b k) in (r, (devs b)(k := d))))
      in b\<lparr>devs := ds, flight := Some (case pace b of [] \<Rightarrow> 0 | n # _ \<Rightarrow> n, r), pace := tl (pace b)\<rparr>)"

text \<open>A read of the status register: what the controller has done by then.\<close>

definition bus_status :: "'d spi_bus \<Rightarrow> 'd spi_bus" where
  "bus_status b =
     (case flight b of
        None \<Rightarrow> b
      | Some (0, r) \<Rightarrow> b\<lparr>flight := None, rrdy := True, rxdata := r\<rparr>
      | Some (Suc n, r) \<Rightarrow> b\<lparr>flight := Some (n, r)\<rparr>)"

subsection \<open>The driver\<close>

definition spi_sopc_start_transfer :: "(nat \<Rightarrow> 'd slave) \<Rightarrow> spi_sopc_device \<Rightarrow> 'd spi_bus \<Rightarrow> 'd spi_bus" where
  "spi_sopc_start_transfer S dev b =
     (if cs_up b then b
      else (let b1 = set_select S (push_bit (dev_num dev) 1) (sso b) b; b2 = set_select S (slave_sel b1) True b1 in b2\<lparr>cs_up := True\<rparr>))"

definition spi_sopc_drop_cs :: "(nat \<Rightarrow> 'd slave) \<Rightarrow> 'd spi_bus \<Rightarrow> 'd spi_bus" where
  "spi_sopc_drop_cs S b =
     (if \<not> cs_up b then b
      else (let b1 = set_select S 0 (sso b) b; b2 = set_select S (slave_sel b1) False b1 in b2\<lparr>cs_up := False\<rparr>))"

text \<open>The three waiting loops: for the transmitter to be ready, for it to be empty, for a byte received.\<close>

partial_function (option) wait_trdy :: "'d spi_bus \<Rightarrow> 'd spi_bus option" where
  "wait_trdy b = (let b1 = bus_status b in if flight b1 = None then Some b1 else wait_trdy b1)"

partial_function (option) wait_tmt :: "'d spi_bus \<Rightarrow> 'd spi_bus option" where
  "wait_tmt b = (let b1 = bus_status b in if flight b1 = None then Some b1 else wait_tmt b1)"

partial_function (option) wait_rrdy :: "'d spi_bus \<Rightarrow> 'd spi_bus option" where
  "wait_rrdy b = (let b1 = bus_status b in if rrdy b1 then Some b1 else wait_rrdy b1)"

fun polled_loop :: "(nat \<Rightarrow> 'd slave) \<Rightarrow> bytes \<Rightarrow> 'd spi_bus \<Rightarrow> (bytes \<times> 'd spi_bus) option" where
  "polled_loop S [] b = Some ([], b)"
| "polled_loop S (v # vs) b =
     do { b1 \<leftarrow> wait_trdy b;
          b2 \<leftarrow> wait_tmt (bus_txdata S v b1);
          b3 \<leftarrow> wait_rrdy b2;
          (rs, b4) \<leftarrow> polled_loop S vs (b3\<lparr>rrdy := False\<rparr>);
          Some (rxdata b3 # rs, b4) }"

text \<open>The bytes received are stored only if there is a place for them (\<open>store_rx\<close>).\<close>

definition spi_sopc_transfer_polled :: "(nat \<Rightarrow> 'd slave) \<Rightarrow> bytes \<Rightarrow> bool \<Rightarrow> 'd spi_bus \<Rightarrow> (bytes \<times> 'd spi_bus) option" where
  "spi_sopc_transfer_polled S tx_data store_rx b =
     do { (rs, b1) \<leftarrow> polled_loop S tx_data (b\<lparr>rrdy := False\<rparr>); Some (if store_rx then rs else [], b1) }"

definition spi_sopc_transaction_begin :: "spi_sopc_device \<Rightarrow> spi_sopc_device" where
  "spi_sopc_transaction_begin dev = (if \<not> dev_init dev then dev\<lparr>dev_init := True\<rparr> else dev)"

definition spi_sopc_transaction_transfer ::
  "(nat \<Rightarrow> 'd slave) \<Rightarrow> spi_sopc_device \<Rightarrow> bytes \<Rightarrow> bool \<Rightarrow> bool \<Rightarrow> 'd spi_bus \<Rightarrow> (bytes \<times> 'd spi_bus) option" where
  "spi_sopc_transaction_transfer S dev tx_data store_rx drop_cs b =
     do { (rs, b1) \<leftarrow> spi_sopc_transfer_polled S tx_data store_rx (spi_sopc_start_transfer S dev b);
          Some (rs, if drop_cs then spi_sopc_drop_cs S b1 else b1) }"

function tick_loop :: "(nat \<Rightarrow> 'd slave) \<Rightarrow> nat \<Rightarrow> 'd spi_bus \<Rightarrow> 'd spi_bus option" where
  "tick_loop S count b =
     (if count > 0
      then (let tcnt = (if count > 40 then 40 else count)
            in do { (rs, b1) \<leftarrow> spi_sopc_transfer_polled S (replicate tcnt 0) False b; tick_loop S (count - tcnt) b1 })
      else Some b)"
  by pat_completeness auto
termination by (relation "measure (\<lambda>(S, count, b). count)") auto

declare tick_loop.simps [simp del]

definition spi_sopc_transaction_tick :: "(nat \<Rightarrow> 'd slave) \<Rightarrow> u32 \<Rightarrow> 'd spi_bus \<Rightarrow> 'd spi_bus option" where
  "spi_sopc_transaction_tick S count b = tick_loop S (unat count) b"

definition spi_sopc_transaction_end :: "(nat \<Rightarrow> 'd slave) \<Rightarrow> 'd spi_bus \<Rightarrow> 'd spi_bus" where
  "spi_sopc_transaction_end S b = spi_sopc_drop_cs S b"

text \<open>The configuration calls know one key and neither read nor write the clock rate; the result is whether they succeed.\<close>

definition spi_sopc_get_config :: "bool \<Rightarrow> u32 \<Rightarrow> bytes \<Rightarrow> bool \<times> bytes" where
  "spi_sopc_get_config is_clockrate len buf = (if is_clockrate then (if len \<noteq> 4 then (False, buf) else (True, buf)) else (False, buf))"

definition spi_sopc_set_config :: "bool \<Rightarrow> u32 \<Rightarrow> 'd spi_bus \<Rightarrow> bool \<times> 'd spi_bus" where
  "spi_sopc_set_config is_clockrate len b = (if is_clockrate then (if len \<noteq> 4 then (False, b) else (True, b)) else (False, b))"


subsection \<open>Waiting\<close>

lemma bus_status_idle: "flight b = None \<Longrightarrow> bus_status b = b"
  by (simp add: bus_status_def)

lemma wait_trdy_idle: "flight b = None \<Longrightarrow> wait_trdy b = Some b"
  by (subst wait_trdy.simps) (simp add: bus_status_idle)

lemma wait_rrdy_ready: "flight b = None \<Longrightarrow> rrdy b \<Longrightarrow> wait_rrdy b = Some b"
  by (subst wait_rrdy.simps) (simp add: bus_status_idle)

lemma wait_tmt_flight: "flight b = Some (n, r) \<Longrightarrow> wait_tmt b = Some (b\<lparr>flight := None, rrdy := True, rxdata := r\<rparr>)"
proof (induction n arbitrary: b)
  case 0
  then show ?case by (subst wait_tmt.simps) (simp add: bus_status_def)
next
  case (Suc n)
  have "wait_tmt b = wait_tmt (b\<lparr>flight := Some (n, r)\<rparr>)" using Suc.prems by (subst wait_tmt.simps) (simp add: bus_status_def)
  then show ?case using Suc.IH [of "b\<lparr>flight := Some (n, r)\<rparr>"] by simp
qed

subsection \<open>Transfers are exchanges\<close>

text \<open>The reference: the picked device, if there is one, exchanges the bytes.\<close>

definition bus_exchange :: "(nat \<Rightarrow> 'd slave) \<Rightarrow> bytes \<Rightarrow> 'd spi_bus \<Rightarrow> bytes \<times> (nat \<Rightarrow> 'd)" where
  "bus_exchange S vs b =
     (case picked (slave_sel b) of
        None \<Rightarrow> (replicate (length vs) (miso b), devs b)
      | Some k \<Rightarrow> (let (rs, d) = exchange (S k) (sso b) vs (devs b k) in (rs, (devs b)(k := d))))"

definition bus_rest :: "'d spi_bus \<Rightarrow> 'd spi_bus \<Rightarrow> bool" where
  "bus_rest b b' \<longleftrightarrow> flight b' = None \<and> cs_up b' = cs_up b \<and> slave_sel b' = slave_sel b \<and> sso b' = sso b \<and> miso b' = miso b"

lemma bus_exchange_Cons:
  assumes "slave_sel b1 = slave_sel b" "sso b1 = sso b" "miso b1 = miso b" "devs b1 = snd (bus_exchange S [v] b)"
  shows "bus_exchange S (v # vs) b = (let (rs, ds) = bus_exchange S vs b1 in (fst (bus_exchange S [v] b) @ rs, ds))"
  using assms by (cases "picked (slave_sel b)") (auto simp: bus_exchange_def case_prod_unfold Let_def)

lemma polled_loop:
  assumes "flight b = None"
  shows "\<exists>b'. polled_loop S vs b = Some (fst (bus_exchange S vs b), b') \<and> devs b' = snd (bus_exchange S vs b) \<and> bus_rest b b'"
  using assms
proof (induction vs arbitrary: b)
  case Nil
  then show ?case by (auto simp: bus_exchange_def bus_rest_def split: option.split)
next
  case (Cons v vs)
  obtain r ds where e: "bus_exchange S [v] b = ([r], ds)"
    by (cases "picked (slave_sel b)") (auto simp: bus_exchange_def case_prod_unfold Let_def)
  obtain n where t: "flight (bus_txdata S v b) = Some (n, r)" "devs (bus_txdata S v b) = ds" "slave_sel (bus_txdata S v b) = slave_sel b"
      "sso (bus_txdata S v b) = sso b" "miso (bus_txdata S v b) = miso b" "cs_up (bus_txdata S v b) = cs_up b"
    using e by (cases "picked (slave_sel b)") (auto simp: bus_exchange_def bus_txdata_def case_prod_unfold Let_def)
  define b3 where "b3 = (bus_txdata S v b)\<lparr>flight := None, rrdy := True, rxdata := r\<rparr>"
  have w: "wait_trdy b = Some b" "wait_tmt (bus_txdata S v b) = Some b3" "wait_rrdy b3 = Some b3"
    using wait_trdy_idle [OF Cons.prems] wait_tmt_flight [OF t(1)] wait_rrdy_ready [of b3] by (simp_all add: b3_def)
  have b4: "flight (b3\<lparr>rrdy := False\<rparr>) = None" "rxdata b3 = r" by (simp_all add: b3_def)
  have ex: "bus_exchange S (v # vs) b = (let (rs, ds') = bus_exchange S vs (b3\<lparr>rrdy := False\<rparr>) in (r # rs, ds'))"
    using bus_exchange_Cons [of "b3\<lparr>rrdy := False\<rparr>" b S v vs] by (simp add: b3_def t e)
  from Cons.IH [OF b4(1)] obtain b' where
    "polled_loop S vs (b3\<lparr>rrdy := False\<rparr>) = Some (fst (bus_exchange S vs (b3\<lparr>rrdy := False\<rparr>)), b')"
      "devs b' = snd (bus_exchange S vs (b3\<lparr>rrdy := False\<rparr>))" "bus_rest (b3\<lparr>rrdy := False\<rparr>) b'" by blast
  then show ?case using w b4(2) ex t by (auto simp: case_prod_unfold Let_def bus_rest_def b3_def)
qed

lemma transfer_polled:
  assumes "flight b = None"
  shows "\<exists>b'. spi_sopc_transfer_polled S vs st b = Some (if st then fst (bus_exchange S vs b) else [], b') \<and>
    devs b' = snd (bus_exchange S vs b) \<and> bus_rest b b'"
proof -
  have "bus_exchange S vs (b\<lparr>rrdy := False\<rparr>) = bus_exchange S vs b" by (simp add: bus_exchange_def split: option.split)
  then show ?thesis using polled_loop [of "b\<lparr>rrdy := False\<rparr>" S vs] assms by (auto simp: spi_sopc_transfer_polled_def bus_rest_def)
qed

subsection \<open>Chip select\<close>

lemma bit_single: "j < 32 \<Longrightarrow> k < 32 \<Longrightarrow> bit (push_bit j (1 :: u32)) k \<longleftrightarrow> j = k"
  by (auto simp: bit_simps)

lemma picked_single: "k < 32 \<Longrightarrow> picked (push_bit k 1) = Some k"
proof -
  assume k: "k < 32"
  have "push_bit k (1 :: u32) \<noteq> push_bit j 1" if "j < k" for j
    using bit_single [of j k] bit_single [of k k] k that by auto
  then show ?thesis using k unfolding picked_def find_Some_iff by (intro exI [of _ k]) simp
qed

lemma picked_zero: "picked 0 = None"
proof -
  have "(0 :: u32) \<noteq> push_bit k 1" if "k < 32" for k using bit_single [of k k] that by (metis bit_0_eq bot_apply bot_bool_def)
  then show ?thesis by (simp add: picked_def find_None_iff del: upt_rec_numeral)
qed

text \<open>Either no chip select is up and none is forced, or that of device \<open>k\<close>.\<close>

definition cs_ok :: "nat \<Rightarrow> 'd spi_bus \<Rightarrow> bool" where
  "cs_ok k b \<longleftrightarrow> (if cs_up b then sso b \<and> slave_sel b = push_bit k 1 else \<not> sso b)"

lemma start_transfer:
  assumes "cs_ok (dev_num dev) b" "dev_num dev < 32"
  shows "spi_sopc_start_transfer S dev b = b\<lparr>cs_up := True, sso := True, slave_sel := push_bit (dev_num dev) 1,
    devs := (if cs_up b then devs b else (devs b)(dev_num dev := sl_select (S (dev_num dev)) (devs b (dev_num dev))))\<rparr>"
  using assms picked_single [OF assms(2)]
  by (cases "cs_up b") (simp_all add: spi_sopc_start_transfer_def set_select_def selected_def cs_ok_def Let_def)

lemma drop_cs:
  assumes "cs_up b" "sso b" "slave_sel b = push_bit k 1" "k < 32"
  shows "spi_sopc_drop_cs S b = b\<lparr>cs_up := False, sso := False, slave_sel := 0, devs := (devs b)(k := sl_release (S k) (devs b k))\<rparr>"
  using assms picked_single [OF assms(4)] picked_zero
  by (simp add: spi_sopc_drop_cs_def set_select_def selected_def Let_def)

text \<open>
  C30: a transfer. It ends; the device exchanges exactly the bytes given, selected first unless it already is and released
  afterwards if asked for; the bytes it answers are returned; no other device notices.
\<close>

theorem spi_sopc_transfer:
  assumes "flight b = None" "cs_ok k b" "k < 32" "dev_num dev = k"
    and "exchange (S k) True vs (if cs_up b then devs b k else sl_select (S k) (devs b k)) = (rs, d)"
  shows "\<exists>b'. spi_sopc_transaction_transfer S dev vs True dropped b = Some (rs, b') \<and> flight b' = None \<and> cs_ok k b' \<and> (cs_up b' \<longleftrightarrow> \<not> dropped) \<and>
    devs b' = (devs b)(k := if dropped then sl_release (S k) d else d)"
proof -
  define b1 where "b1 = spi_sopc_start_transfer S dev b"
  have b1: "flight b1 = None" "cs_up b1" "sso b1" "slave_sel b1 = push_bit k 1"
      "devs b1 = (devs b)(k := if cs_up b then devs b k else sl_select (S k) (devs b k))"
    using start_transfer [of dev b S] assms(1-4) by (simp_all add: b1_def)
  have ex: "bus_exchange S vs b1 = (rs, (devs b)(k := d))" using b1 assms(5) picked_single [OF assms(3)] by (simp add: bus_exchange_def)
  from transfer_polled [OF b1(1), of S vs True] obtain b2 where
    b2: "spi_sopc_transfer_polled S vs True b1 = Some (rs, b2)" "devs b2 = (devs b)(k := d)" "bus_rest b1 b2" by (auto simp: ex)
  then have "cs_up b2" "sso b2" "slave_sel b2 = push_bit k 1" "flight b2 = None" using b1 by (simp_all add: bus_rest_def)
  then show ?thesis
    using b2(1,2) drop_cs [of b2 k S] assms(3) by (simp add: spi_sopc_transaction_transfer_def b1_def [symmetric] cs_ok_def)
qed

theorem spi_sopc_transfer_witness:
  "\<exists>b'. spi_sopc_transaction_transfer (\<lambda>_. \<lparr>sl_select = (\<lambda>d. 0), sl_byte = (\<lambda>v d. (v + of_nat d, d + 1)), sl_release = (\<lambda>d. 100 + d)\<rparr>)
       \<lparr>dev_num = 3, dev_init = True\<rparr> [5, 6] True True
       \<lparr>cs_up = False, slave_sel = 1, sso = False, rrdy = True, rxdata = 9, flight = None, pace = [4, 2], miso = 255, devs = (\<lambda>_. 7 :: nat)\<rparr> = Some ([5, 7], b') \<and>
     devs b' = (\<lambda>_. 7)(3 := 102)"
  using spi_sopc_transfer [of "\<lparr>cs_up = False, slave_sel = 1, sso = False, rrdy = True, rxdata = 9, flight = None, pace = [4, 2], miso = 255, devs = (\<lambda>_. 7 :: nat)\<rparr>"
      3 "\<lparr>dev_num = 3, dev_init = True\<rparr>" "\<lambda>_. \<lparr>sl_select = (\<lambda>d. 0), sl_byte = (\<lambda>v d. (v + of_nat d, d + 1)), sl_release = (\<lambda>d. 100 + d)\<rparr>" "[5, 6]" "[5, 7]" 2 True]
  by (auto simp: cs_ok_def shift_byte_def)

text \<open>A tick shifts that many zeros; it selects no device on its own, and leaves the chip select as it is.\<close>

lemma tick_ends:
  assumes "flight b = None"
  shows "\<exists>b'. tick_loop S n b = Some b' \<and> devs b' = snd (bus_exchange S (replicate n 0) b) \<and> bus_rest b b'"
  using assms
proof (induction n arbitrary: b rule: less_induct)
  case (less n)
  show ?case
  proof (cases "n = 0")
    case True
    then show ?thesis using less.prems by (subst tick_loop.simps) (auto simp: bus_rest_def bus_exchange_def split: option.split)
  next
    case False
    define t where "t = (if n > 40 then 40 else n)"
    have t: "0 < t" "t \<le> n" using False by (auto simp: t_def)
    from transfer_polled [OF less.prems, of S "replicate t 0" False] obtain b1 where
      b1: "spi_sopc_transfer_polled S (replicate t 0) False b = Some ([], b1)" "devs b1 = snd (bus_exchange S (replicate t 0) b)" "bus_rest b b1" by auto
    have "flight b1 = None" "n - t < n" using b1(3) t by (simp_all add: bus_rest_def)
    from less.IH [OF this(2,1)] obtain b2 where
      b2: "tick_loop S (n - t) b1 = Some b2" "devs b2 = snd (bus_exchange S (replicate (n - t) 0) b1)" "bus_rest b1 b2" by blast
    have "replicate n (0 :: u8) = replicate t 0 @ replicate (n - t) 0" using t by (simp flip: replicate_add)
    then have "snd (bus_exchange S (replicate (n - t) 0) b1) = snd (bus_exchange S (replicate n 0) b)"
      using b1(2,3) by (simp add: bus_exchange_def bus_rest_def exchange_append case_prod_unfold Let_def split: option.split)
    moreover have "tick_loop S n b = Some b2" using b1(1) b2(1) False by (subst tick_loop.simps) (simp add: t_def Let_def)
    ultimately show ?thesis using b2 b1(3) by (auto simp: bus_rest_def)
  qed
qed


theorem spi_sopc_tick:
  assumes "flight b = None"
  shows "\<exists>b'. spi_sopc_transaction_tick S count b = Some b' \<and> devs b' = snd (bus_exchange S (replicate (unat count) 0) b) \<and> bus_rest b b'"
  using tick_ends [OF assms] by (simp add: spi_sopc_transaction_tick_def)

end
