(* ===== verification/Alt_Dev.thy ===== *)
theory Alt_Dev
  imports Nios_Prelude
begin

text \<open>
  Device lists (\<^verbatim>\<open>packages/io/epcs/current/src/alt_find_dev.c\<close>, \<^verbatim>\<open>alt_flash_dev.c\<close>, \<^verbatim>\<open>alt_dev_llist_insert.c\<close>).
  A list is circular: its head and the devices are nodes in memory, each with the address of the next; names are
  bytes in memory that end with a zero. Linking a node into a list is code outside the repository, a parameter that
  keeps the contract \<open>links\<close>; the address 0 is the null pointer.
\<close>

record alt_node =
  nx :: nat
  nm :: nat
  opener :: bool

record alt_mem =
  nodes :: "nat \<Rightarrow> alt_node"
  chars :: "nat \<Rightarrow> u8"

definition bytes_at :: "alt_mem \<Rightarrow> nat \<Rightarrow> nat \<Rightarrow> bytes" where
  "bytes_at m a n = map (\<lambda>i. chars m (a + i)) [0..<n]"

subsection \<open>Operations\<close>

text \<open>The search from the node \<open>next\<close> in the list with the head \<open>llist\<close>; \<open>name\<close> has no zero byte.\<close>

partial_function (option) find_from :: "alt_mem \<Rightarrow> bytes \<Rightarrow> nat \<Rightarrow> nat \<Rightarrow> nat option" where
  "find_from m name llist next =
     (if next = llist then Some 0
      else if bytes_at m (nm (nodes m next)) (length name + 1) = name @ [0] then Some next
      else find_from m name llist (nx (nodes m next)))"

definition alt_find_dev :: "alt_mem \<Rightarrow> bytes \<Rightarrow> nat \<Rightarrow> nat option" where
  "alt_find_dev m name llist = find_from m name llist (nx (nodes m llist))"

text \<open>\<open>open_dev\<close> is the device's own function.\<close>

definition alt_flash_open_dev :: "(nat \<Rightarrow> bytes \<Rightarrow> nat) \<Rightarrow> alt_mem \<Rightarrow> bytes \<Rightarrow> nat \<Rightarrow> nat option" where
  "alt_flash_open_dev open_dev m name flash_list =
     do { dev \<leftarrow> alt_find_dev m name flash_list;
          Some (if dev \<noteq> 0 \<and> opener (nodes m dev) then open_dev dev name else dev) }"

definition alt_dev_llist_insert :: "(nat \<Rightarrow> nat \<Rightarrow> alt_mem \<Rightarrow> alt_mem) \<Rightarrow> nat \<Rightarrow> nat \<Rightarrow> alt_mem \<Rightarrow> int \<times> alt_mem" where
  "alt_dev_llist_insert alt_llist_insert dev list m =
     (if dev = 0 \<or> nm (nodes m dev) = 0 then (- 1, m) else (0, alt_llist_insert list dev m))"

subsection \<open>Lists in memory\<close>

fun chain :: "alt_mem \<Rightarrow> nat \<Rightarrow> nat list \<Rightarrow> nat \<Rightarrow> bool" where
  "chain m a [] z \<longleftrightarrow> nx (nodes m a) = z"
| "chain m a (x # xs) z \<longleftrightarrow> nx (nodes m a) = x \<and> chain m x xs z"

definition dev_list :: "alt_mem \<Rightarrow> nat \<Rightarrow> nat list \<Rightarrow> bool" where
  "dev_list m h xs \<longleftrightarrow> chain m h xs h \<and> h \<notin> set xs \<and> 0 \<notin> set xs"

text \<open>The node has the given name.\<close>

definition named :: "alt_mem \<Rightarrow> nat \<Rightarrow> bytes \<Rightarrow> bool" where
  "named m x s \<longleftrightarrow> 0 \<notin> set s \<and> bytes_at m (nm (nodes m x)) (length s + 1) = s @ [0]"

lemma named_unique:
  assumes "named m x s" "0 \<notin> set t"
  shows "bytes_at m (nm (nodes m x)) (length t + 1) = t @ [0] \<longleftrightarrow> s = t"
proof
  let ?f = "\<lambda>i. chars m (nm (nodes m x) + i)"
  assume t: "bytes_at m (nm (nodes m x)) (length t + 1) = t @ [0]"
  have s: "map ?f [0..<length s + 1] = s @ [0]" using assms(1) by (simp add: named_def bytes_at_def)
  have t': "map ?f [0..<length t + 1] = t @ [0]" using t by (simp add: bytes_at_def)
  have at: "?f i = (s @ [0]) ! i" if "i < length s + 1" for i using that arg_cong [OF s, of "\<lambda>l. l ! i"] by (simp del: upt_Suc)
  have bt: "?f i = (t @ [0]) ! i" if "i < length t + 1" for i using that arg_cong [OF t', of "\<lambda>l. l ! i"] by (simp del: upt_Suc)
  have z: "?f (length s) = 0" "?f (length t) = 0" using at [of "length s"] bt [of "length t"] by simp_all
  have "?f i \<noteq> 0" if "i < length s" for i using at [of i] that assms(1) by (auto simp: nth_append named_def in_set_conv_nth)
  moreover have "?f i \<noteq> 0" if "i < length t" for i using bt [of i] that assms(2) by (auto simp: nth_append in_set_conv_nth)
  ultimately have len: "length s = length t" using z by (metis linorder_neqE_nat)
  have "s ! i = t ! i" if "i < length s" for i using at [of i] bt [of i] that len by (simp add: nth_append)
  then show "s = t" using len by (intro nth_equalityI)
qed (use assms(1) in \<open>simp add: named_def\<close>)

text \<open>The search goes through the list and stops at the first device of that name.\<close>

definition first_named :: "(nat \<Rightarrow> bytes) \<Rightarrow> bytes \<Rightarrow> nat list \<Rightarrow> nat" where
  "first_named f name xs = (case find (\<lambda>x. f x = name) xs of None \<Rightarrow> 0 | Some x \<Rightarrow> x)"

lemma find_from_list:
  assumes "chain m a xs h" "h \<notin> set xs" "\<forall>x \<in> set xs. named m x (f x)" "0 \<notin> set name"
  shows "find_from m name h (nx (nodes m a)) = Some (first_named f name xs)"
  using assms(1-3)
proof (induction xs arbitrary: a)
  case Nil
  then show ?case by (subst find_from.simps) (simp add: first_named_def)
next
  case (Cons x xs)
  then have "named m x (f x)" "nx (nodes m a) = x" "x \<noteq> h" by auto
  then show ?case using Cons named_unique [of m x "f x" name] assms(4) by (subst find_from.simps) (auto simp: first_named_def)
qed

lemma alt_find_dev:
  "dev_list m h xs \<Longrightarrow> \<forall>x \<in> set xs. named m x (f x) \<Longrightarrow> 0 \<notin> set name \<Longrightarrow> alt_find_dev m name h = Some (first_named f name xs)"
  unfolding alt_find_dev_def dev_list_def by (elim conjE) (rule find_from_list)

text \<open>Linking a node into a list: it comes first, and neither names nor the list are disturbed otherwise.\<close>

definition links :: "(nat \<Rightarrow> nat \<Rightarrow> alt_mem \<Rightarrow> alt_mem) \<Rightarrow> bool" where
  "links ins \<longleftrightarrow> (\<forall>m h x xs. dev_list m h xs \<and> x \<noteq> h \<and> x \<notin> set xs \<and> x \<noteq> 0 \<longrightarrow>
     dev_list (ins h x m) h (x # xs) \<and> chars (ins h x m) = chars m \<and> (\<forall>y. nm (nodes (ins h x m) y) = nm (nodes m y)))"

text \<open>
  A device that is registered is found under its name, before any other of the same name; a search for another name
  finds what it found before. A device without a name is refused. The search always ends.
\<close>

theorem registered_is_found:
  assumes "links ins" "dev_list m h xs" "\<forall>y \<in> set (x # xs). named m y (f y)" "x \<noteq> h" "x \<notin> set xs" "0 \<notin> set name"
  shows "(x = 0 \<or> nm (nodes m x) = 0 \<longrightarrow> alt_dev_llist_insert ins x h m = (- 1, m)) \<and>
    (x \<noteq> 0 \<and> nm (nodes m x) \<noteq> 0 \<longrightarrow>
       fst (alt_dev_llist_insert ins x h m) = 0 \<and>
       alt_find_dev (snd (alt_dev_llist_insert ins x h m)) name h = (if name = f x then Some x else alt_find_dev m name h))"
proof -
  have old: "alt_find_dev m name h = Some (first_named f name xs)" using alt_find_dev [OF assms(2)] assms(3,6) by simp
  have "alt_find_dev (ins h x m) name h = Some (first_named f name (x # xs))" if "x \<noteq> 0"
  proof -
    have l: "dev_list (ins h x m) h (x # xs)" "chars (ins h x m) = chars m" "nm (nodes (ins h x m) y) = nm (nodes m y)" for y
      using assms(1,2,4,5) that unfolding links_def by blast+
    then have "\<forall>y \<in> set (x # xs). named (ins h x m) y (f y)" using assms(3) by (simp add: named_def bytes_at_def)
    then show ?thesis by (rule alt_find_dev [OF l(1) _ assms(6)])
  qed
  then show ?thesis using old by (auto simp: alt_dev_llist_insert_def first_named_def)
qed

text \<open>A linking function that keeps the contract, and an empty list with a device at address 8.\<close>

definition link_first :: "nat \<Rightarrow> nat \<Rightarrow> alt_mem \<Rightarrow> alt_mem" where
  "link_first h x m = m\<lparr>nodes := (nodes m)(x := (nodes m x)\<lparr>nx := nx (nodes m h)\<rparr>, h := (nodes m h)\<lparr>nx := x\<rparr>)\<rparr>"

lemma chain_other: "\<forall>y \<in> set (a # xs). nx (nodes m' y) = nx (nodes m y) \<Longrightarrow> chain m' a xs z = chain m a xs z"
  by (induction xs arbitrary: a) auto

lemma link_first: "links link_first"
proof -
  have "chain (link_first h x m) h (x # xs) h" if "dev_list m h xs" "x \<noteq> h" "x \<notin> set xs" for m h x xs
  proof (cases xs)
    case Nil
    then show ?thesis using that by (simp add: dev_list_def link_first_def)
  next
    case (Cons y ys)
    have "chain (link_first h x m) y ys h = chain m y ys h"
      by (rule chain_other) (use that Cons in \<open>auto simp: link_first_def dev_list_def\<close>)
    then show ?thesis using that Cons by (simp add: dev_list_def) (simp add: link_first_def)
  qed
  then show ?thesis unfolding links_def by (auto simp: dev_list_def) (auto simp: link_first_def)
qed

theorem registered_is_found_witness:
  "alt_find_dev (snd (alt_dev_llist_insert link_first 8 4 \<lparr>nodes = (\<lambda>_. \<lparr>nx = 4, nm = 16, opener = False\<rparr>), chars = (\<lambda>a. if a = 16 then 65 else 0)\<rparr>)) [65] 4 = Some 8"
  using registered_is_found [OF link_first, of "\<lparr>nodes = (\<lambda>_. \<lparr>nx = 4, nm = 16, opener = False\<rparr>), chars = (\<lambda>a. if a = 16 then 65 else 0)\<rparr>" 4 "[]" 8 "\<lambda>_. [65]" "[65]"]
  by (simp add: dev_list_def named_def bytes_at_def)

end
