(* ===== verification/Avalon_Timer.thy ===== *)
theory Avalon_Timer
  imports Nios_Prelude
begin

text \<open>
  The system clock (\<^verbatim>\<open>packages/hal/sopc/altera_avalon_timer/current/src/altera_avalon_timer.c\<close>, constants in
  \<^verbatim>\<open>altera_avalon_timer.h\<close>). The timer counts down; writing a snapshot register copies the counter into both. Between two
  accesses the counter may change in any way, and the timer may request an interrupt.
\<close>

unbundle bit_operations_syntax

record timer =
  tm_control :: u32
  tm_timeout :: bool
  tm_counter :: u32
  tm_snapl :: u32
  tm_snaph :: u32

definition write_snapl :: "timer \<Rightarrow> timer" where
  "write_snapl t = t\<lparr>tm_snapl := tm_counter t AND 0xFFFF, tm_snaph := drop_bit 16 (tm_counter t) AND 0xFFFF\<rparr>"

text \<open>What happens between two accesses: a new counter and perhaps a timeout.\<close>

definition timer_runs :: "u32 \<times> bool \<Rightarrow> timer \<Rightarrow> timer" where
  "timer_runs e t = t\<lparr>tm_counter := fst e, tm_timeout := (tm_timeout t \<or> snd e)\<rparr>"

subsection \<open>Constants\<close>

datatype period_units = UNITS_S | UNITS_MS | UNITS_US | UNITS_CLOCKS

record timer_cfg =
  ALT_SYS_CLK_PERIOD :: nat
  ALT_SYS_CLK_PERIOD_UNITS :: period_units
  ALT_SYS_CLK_FREQ :: nat

definition CYGNUM_HAL_RTC_DENOMINATOR :: "timer_cfg \<Rightarrow> nat" where
  "CYGNUM_HAL_RTC_DENOMINATOR c =
     (case ALT_SYS_CLK_PERIOD_UNITS c of UNITS_S \<Rightarrow> 1 | UNITS_MS \<Rightarrow> 1000 | UNITS_US \<Rightarrow> 1000000 | UNITS_CLOCKS \<Rightarrow> ALT_SYS_CLK_FREQ c) div ALT_SYS_CLK_PERIOD c"

definition CYGNUM_HAL_RTC_PERIOD :: "timer_cfg \<Rightarrow> nat" where
  "CYGNUM_HAL_RTC_PERIOD c = ALT_SYS_CLK_FREQ c div CYGNUM_HAL_RTC_DENOMINATOR c"

subsection \<open>Operations\<close>

definition hal_clock_initialize :: "timer \<Rightarrow> timer" where
  "hal_clock_initialize t = t\<lparr>tm_control := 0x1 OR 0x2 OR 0x4\<rparr>"

definition hal_clock_reset :: "timer \<Rightarrow> timer" where
  "hal_clock_reset t = t\<lparr>tm_timeout := False\<rparr>"

definition hal_clock_read :: "timer_cfg \<Rightarrow> u32 \<times> bool \<Rightarrow> u32 \<times> bool \<Rightarrow> timer \<Rightarrow> u32 \<times> timer" where
  "hal_clock_read c e1 e2 t =
     (let t1 = timer_runs e1 (write_snapl t); lower = tm_snapl t1; t2 = timer_runs e2 t1; upper = tm_snaph t2
      in (of_nat (CYGNUM_HAL_RTC_PERIOD c) - (push_bit 16 upper OR lower), t2))"

subsection \<open>Reading the clock\<close>

lemma halves: "push_bit 16 (drop_bit 16 w AND 0xFFFF) OR (w AND 0xFFFF) = (w :: u32)"
proof -
  have m: "(0xFFFF :: u32) = mask 16" by (simp add: mask_numeral)
  show ?thesis unfolding m by (rule bit_word_eqI) (auto simp: bit_simps)
qed

text \<open>
  The value read is that of one moment, however the counter goes on meanwhile; and it is the number of
  counts since the counter had its period.
\<close>

theorem clock_read:
  "fst (hal_clock_read c e1 e2 t) = of_nat (CYGNUM_HAL_RTC_PERIOD c) - tm_counter t"
  using halves [of "tm_counter t"] by (simp add: hal_clock_read_def write_snapl_def timer_runs_def Let_def)

text \<open>A period in whole clocks of which the frequency is a multiple gives the period itself.\<close>

lemma period_in_clocks:
  "ALT_SYS_CLK_PERIOD_UNITS c = UNITS_CLOCKS \<Longrightarrow> ALT_SYS_CLK_PERIOD c dvd ALT_SYS_CLK_FREQ c \<Longrightarrow> 0 < ALT_SYS_CLK_FREQ c \<Longrightarrow>
   CYGNUM_HAL_RTC_PERIOD c = ALT_SYS_CLK_PERIOD c"
  by (auto simp: CYGNUM_HAL_RTC_PERIOD_def CYGNUM_HAL_RTC_DENOMINATOR_def elim!: dvdE)

text \<open>A period of a second or more that is not the unit itself has no denominator: the division by it is undefined.\<close>

lemma long_period: "ALT_SYS_CLK_PERIOD_UNITS c = UNITS_S \<Longrightarrow> 1 < ALT_SYS_CLK_PERIOD c \<Longrightarrow> CYGNUM_HAL_RTC_DENOMINATOR c = 0"
  by (simp add: CYGNUM_HAL_RTC_DENOMINATOR_def)

end
