(* ===== verification/Posix_Base.thy ===== *)
theory Posix_Base
  imports Nios_Prelude
begin

text \<open>
  What the parts of the POSIX layer (\<^verbatim>\<open>tools/gcc4libstdxx/ecos/compat/posix\<close>) share: error codes, results of calls, and the
  search for a free slot that threads and timers have in common.
\<close>

datatype errno =
    EINVAL | EEXIST | ENOENT | ENFILE | ENOSPC | EBADF | EMSGSIZE | EINTR | EAGAIN | ETIMEDOUT | EBUSY | ESRCH | EDEADLK | ENOMEM
  | ENOTSUP | ENOSYS | UNCHANGED

text \<open>
  A call returns a value or an error code. \<open>Undefined\<close> is a use of memory that holds no object; \<open>Cancelled\<close>: the
  calling thread ended inside the call. Where a call may block for ever, its result is an option.
\<close>

datatype 'a outcome = Ret 'a | Err errno | Undefined | Cancelled

subsection \<open>Searching a table in a circle\<close>

text \<open>
  Both \<^verbatim>\<open>pthread_create\<close> and \<^verbatim>\<open>timer_create\<close> look for an unused slot from the one used last, and give up when they
  come round to it: the inner result is \<open>None\<close> then.
\<close>

partial_function (option) slot_search :: "(nat \<Rightarrow> bool) \<Rightarrow> nat \<Rightarrow> nat \<Rightarrow> nat \<Rightarrow> nat option option" where
  "slot_search used mx start nxt =
     (if used nxt then
        (let n1 = nxt + 1; n2 = (if mx \<le> n1 then 0 else n1)
         in if n2 = start then Some None else slot_search used mx start n2)
      else Some (Some nxt))"

lemma slot_search_step:
  "used nxt \<Longrightarrow> nxt < mx \<Longrightarrow> slot_search used mx start nxt =
     (if (nxt + 1) mod mx = start then Some None else slot_search used mx start ((nxt + 1) mod mx))"
  by (subst slot_search.simps) (auto simp: Let_def mod_if)

lemma slot_search_from:
  assumes "start < mx" "k < mx" "\<And>j. j < k \<Longrightarrow> used ((start + j) mod mx)"
  shows "slot_search used mx start ((start + k) mod mx) =
    Some (find (\<lambda>i. \<not> used i) (map (\<lambda>j. (start + j) mod mx) [k..<mx]))"
  using assms(2,3)
proof (induction "mx - k" arbitrary: k)
  case (Suc n)
  let ?i = "(start + k) mod mx"
  have upt: "[k..<mx] = k # [Suc k..<mx]" using Suc.prems(1) by (simp add: upt_conv_Cons)
  have step: "(?i + 1) mod mx = (start + Suc k) mod mx" by (simp add: mod_Suc_eq)
  have wrap: "(start + Suc k) mod mx = start \<longleftrightarrow> Suc k = mx"
  proof
    assume e: "(start + Suc k) mod mx = start"
    show "Suc k = mx"
    proof (rule ccontr)
      assume "Suc k \<noteq> mx"
      with Suc.prems(1) have l: "Suc k < mx" by simp
      show False
      proof (cases "start + Suc k < mx")
        case True
        with e show False by simp
      next
        case False
        then have "(start + Suc k) mod mx = start + Suc k - mx" using l assms(1) by (simp add: mod_if)
        with e l False show False by simp
      qed
    qed
  qed (use assms(1) in \<open>simp add: mod_if\<close>)
  show ?case
  proof (cases "used ?i")
    case False
    then show ?thesis by (subst slot_search.simps) (simp add: upt)
  next
    case True
    have i: "?i < mx" using assms(1) by simp
    note s = slot_search_step [of used ?i mx start, OF True i, unfolded step wrap]
    show ?thesis
    proof (cases "Suc k = mx")
      case True
      then show ?thesis using s \<open>used ?i\<close> by (simp add: upt)
    next
      case False
      have "slot_search used mx start ((start + Suc k) mod mx) = Some (find (\<lambda>i. \<not> used i) (map (\<lambda>j. (start + j) mod mx) [Suc k..<mx]))"
        using Suc.hyps(2) Suc.prems \<open>used ?i\<close> False by (intro Suc.hyps(1)) (auto simp: less_Suc_eq)
      then show ?thesis using s False \<open>used ?i\<close> by (simp add: upt)
    qed
  qed
qed simp

text \<open>The search ends with a free slot if there is one.\<close>

lemma slot_search_finds:
  assumes "start < mx"
  shows "(\<exists>i<mx. \<not> used i \<and> slot_search used mx start start = Some (Some i)) \<or> ((\<forall>i<mx. used i) \<and> slot_search used mx start start = Some None)"
proof -
  let ?l = "map (\<lambda>j. (start + j) mod mx) [0..<mx]"
  have e: "slot_search used mx start start = Some (find (\<lambda>i. \<not> used i) ?l)"
    using slot_search_from [OF assms, of 0 used] assms by simp
  have "i \<in> set ?l" if "i < mx" for i
  proof -
    have "(start + (i + mx - start) mod mx) mod mx = (start + (i + mx - start)) mod mx" by (simp add: mod_add_right_eq)
    also have "\<dots> = i" using that assms by simp
    finally have "i = (start + (i + mx - start) mod mx) mod mx" by simp
    moreover have "(i + mx - start) mod mx \<in> set [0..<mx]" using assms by simp
    ultimately show ?thesis unfolding set_map by (rule image_eqI)
  qed
  moreover have "i < mx" if "i \<in> set ?l" for i using that assms unfolding set_map by (elim imageE) simp
  ultimately have s: "set ?l = {..<mx}" by blast
  show ?thesis
  proof (cases "find (\<lambda>i. \<not> used i) ?l")
    case None
    then have "\<forall>i \<in> set ?l. used i" unfolding find_None_iff by blast
    then show ?thesis using e None unfolding s by simp
  next
    case (Some i)
    then have "i \<in> set ?l" "\<not> used i" unfolding find_Some_iff by (auto simp: in_set_conv_nth)
    then have "i < mx" unfolding s by simp
    then show ?thesis using e Some \<open>\<not> used i\<close> by auto
  qed
qed

end
