(* ===== verification/Posix_Mq.thy ===== *)
theory Posix_Mq
  imports Posix_Base
begin

text \<open>
  POSIX message queues (\<^verbatim>\<open>tools/gcc4libstdxx/ecos/compat/posix/current/src/mqueue.cxx\<close>): a table of named queues, each
  with the descriptors that are open on it. Opening, closing and unlinking hold the lock of the table; the other calls use
  one descriptor and the queue it belongs to. A step of the model is a whole call.

  The queue itself is the kernel's class \<^verbatim>\<open>Cyg_Mqueue\<close>, which is outside the repository: a record of operations
  on a type \<open>'q\<close>. What successive calls of \<^verbatim>\<open>malloc\<close> return (0 is the null pointer) and what fresh memory holds are parts of the
  state. An open flag is represented by what the masks of the code find in it. Descriptors are validated, and
  notification and timeouts are configured. Linked lists of users are lists; \<open>Undefined\<close> is the use of a queue
  object that does not exist.
\<close>

datatype qerr = OK | NOMEM | WOULDBLOCK | INTR | TIMEOUT

text \<open>The kernel's queue: constructor (\<open>maxmsg\<close>, \<open>msgsize\<close>), \<open>put\<close> and \<open>get\<close> (whether to block, and until when), \<open>count\<close>.\<close>

record 'q cyg_mqueue =
  q_new :: "int \<Rightarrow> int \<Rightarrow> qerr \<times> 'q"
  q_put :: "bytes \<Rightarrow> u32 \<Rightarrow> bool \<Rightarrow> nat option \<Rightarrow> 'q \<Rightarrow> qerr \<times> 'q"
  q_get :: "bool \<Rightarrow> nat option \<Rightarrow> 'q \<Rightarrow> qerr \<times> bytes \<times> u32 \<times> 'q"
  q_count :: "'q \<Rightarrow> int"

record mq_cfg =
  PATH_MAX :: nat
  MQ_OPEN_MAX :: int
  MQ_PRIO_MAX :: u32

record oflags =
  has_rdonly :: bool
  has_wronly :: bool
  has_rdwr :: bool
  has_creat :: bool
  has_excl :: bool
  has_nonblock :: bool

record mq_attr =
  mq_nonblock :: bool
  mq_maxmsg :: int
  mq_msgsize :: int

datatype 'q mqref = NoQueue | Queue 'q | Dangling

record mquser =
  flags :: oflags
  tabent :: nat
  notifieruser :: bool

record 'q mqtabent =
  mq_name :: bytes
  mq_obj :: "'q mqref"
  maxmsg :: int
  msgsize :: int
  unlinkme :: bool
  users :: "nat list"
  sigev :: "nat option"
  notify :: "nat option"

record 'q mqstate =
  mqtab :: "'q mqtabent list"
  mqusers :: "nat \<Rightarrow> mquser option"
  mallocs :: "nat list"
  stale :: "nat \<Rightarrow> bool"
  queued :: "nat list"

abbreviation (input) upd_ent :: "nat \<Rightarrow> ('q mqtabent \<Rightarrow> 'q mqtabent) \<Rightarrow> 'q mqstate \<Rightarrow> 'q mqstate" where
  "upd_ent i f s \<equiv> s\<lparr>mqtab := (mqtab s)[i := f (mqtab s ! i)]\<rparr>"

definition mq_malloc :: "'q mqstate \<Rightarrow> nat \<times> 'q mqstate" where
  "mq_malloc s = (case mallocs s of [] \<Rightarrow> (0, s) | p # ps \<Rightarrow> (p, s\<lparr>mallocs := ps\<rparr>))"

subsection \<open>The table\<close>

text \<open>Names are compared and stored up to \<^verbatim>\<open>PATH_MAX\<close> characters.\<close>

definition find_name :: "mq_cfg \<Rightarrow> bytes \<Rightarrow> 'q mqtabent list \<Rightarrow> nat option" where
  "find_name c name tab = find (\<lambda>i. take (PATH_MAX c) name = take (PATH_MAX c) (mq_name (tab ! i))) [0..<length tab]"

definition find_free :: "'q mqtabent list \<Rightarrow> nat option" where
  "find_free tab = find (\<lambda>i. mq_obj (tab ! i) = NoQueue) [0..<length tab]"

definition has_queue :: "nat \<Rightarrow> 'q mqstate \<Rightarrow> bool" where
  "has_queue i s \<longleftrightarrow> (case mq_obj (mqtab s ! i) of Queue _ \<Rightarrow> True | _ \<Rightarrow> False)"

definition do_mq_unlink :: "nat \<Rightarrow> 'q mqstate \<Rightarrow> unit outcome \<times> 'q mqstate" where
  "do_mq_unlink i s =
     (case mq_obj (mqtab s ! i) of
        Queue q \<Rightarrow> (Ret (), upd_ent i (\<lambda>e. e\<lparr>mq_name := [], mq_obj := NoQueue\<rparr>) s)
      | _ \<Rightarrow> (Undefined, upd_ent i (\<lambda>e. e\<lparr>mq_name := []\<rparr>) s))"

subsection \<open>Opening\<close>

definition mq_create :: "'q cyg_mqueue \<Rightarrow> mq_cfg \<Rightarrow> bytes \<Rightarrow> oflags \<Rightarrow> mq_attr option \<Rightarrow> 'q mqstate \<Rightarrow> nat outcome \<times> 'q mqstate" where
  "mq_create K c name oflag attr s =
     (case find_free (mqtab s) of
        None \<Rightarrow> (Err ENFILE, s)
      | Some i \<Rightarrow>
          if (case attr of None \<Rightarrow> False | Some a \<Rightarrow> mq_maxmsg a \<le> 0 \<or> mq_msgsize a \<le> 0) then (Err EINVAL, s)
          else
            (let a = (case attr of None \<Rightarrow> \<lparr>mq_nonblock = False, mq_maxmsg = MQ_OPEN_MAX c, mq_msgsize = 128\<rparr> | Some a \<Rightarrow> a);
                 (mqholder, s1) = mq_malloc s
             in if mqholder = 0 then (Err ENOSPC, s1)
                else
                  (let (qerr, q) = q_new K (mq_maxmsg a) (mq_msgsize a);
                       s2 = upd_ent i (\<lambda>e. e\<lparr>mq_obj := Queue q, notify := None\<rparr>) s1
                   in if qerr = NOMEM then (Err ENOSPC, upd_ent i (\<lambda>e. e\<lparr>mq_obj := Dangling\<rparr>) s2)
                      else
                        (let (u, s3) = mq_malloc s2
                         in if u = 0 then (Err ENOSPC, upd_ent i (\<lambda>e. e\<lparr>users := [], mq_obj := Dangling\<rparr>) s3)
                            else
                              (let s4 = upd_ent i (\<lambda>e. e\<lparr>users := [u], maxmsg := mq_maxmsg a, msgsize := mq_msgsize a, unlinkme := False, sigev := None,
                                                        mq_name := take (PATH_MAX c) name\<rparr>) s3;
                                   usr = \<lparr>flags = oflag\<lparr>has_nonblock := has_nonblock oflag \<or> mq_nonblock a\<rparr>, tabent = i, notifieruser = False\<rparr>
                               in (Ret u, s4\<lparr>mqusers := (mqusers s4)(u := Some usr)\<rparr>))))))"

definition mq_open :: "'q cyg_mqueue \<Rightarrow> mq_cfg \<Rightarrow> bytes \<Rightarrow> oflags \<Rightarrow> mq_attr option \<Rightarrow> 'q mqstate \<Rightarrow> nat outcome \<times> 'q mqstate" where
  "mq_open K c name oflag attr s =
     (if \<not> has_rdonly oflag \<and> \<not> has_wronly oflag \<and> \<not> has_rdwr oflag then (Err EINVAL, s)
      else
        (let qtabent = find_name c name (mqtab s)
         in if qtabent \<noteq> None \<and> has_excl oflag then (Err EEXIST, s)
            else if qtabent = None \<and> \<not> has_creat oflag then (Err ENOENT, s)
            else
              (case qtabent of
                 None \<Rightarrow> mq_create K c name oflag attr s
               | Some i \<Rightarrow>
                   if unlinkme (mqtab s ! i) then (Err EINVAL, s)
                   else
                     (let (u, s1) = mq_malloc s
                      in if u = 0 then (Err ENOSPC, s1)
                         else
                           (let s2 = upd_ent i (\<lambda>e. e\<lparr>users := u # users e\<rparr>) s1;
                                usr = \<lparr>flags = oflag, tabent = i, notifieruser = stale s1 u\<rparr>
                            in (Ret u, s2\<lparr>mqusers := (mqusers s2)(u := Some usr)\<rparr>))))))"

subsection \<open>Closing and unlinking\<close>

text \<open>Removing a user from its list; \<open>None\<close> if it is not there.\<close>

fun remove_user :: "nat \<Rightarrow> nat list \<Rightarrow> nat list option" where
  "remove_user u [] = None"
| "remove_user u (v # vs) = (if v = u then Some vs else map_option ((#) v) (remove_user u vs))"

definition mq_close :: "nat \<Rightarrow> 'q mqstate \<Rightarrow> unit outcome \<times> 'q mqstate" where
  "mq_close u s =
     (case mqusers s u of
        None \<Rightarrow> (Err EBADF, s)
      | Some usr \<Rightarrow>
          (let i = tabent usr;
               s1 = (if notifieruser usr then upd_ent i (\<lambda>e. e\<lparr>notify := None, sigev := None\<rparr>) s else s)
           in if notifieruser usr \<and> \<not> has_queue i s then (Undefined, s)
              else
                (case remove_user u (users (mqtab s1 ! i)) of
                   None \<Rightarrow> (Undefined, s1)
                 | Some us \<Rightarrow>
                     (let s2 = upd_ent i (\<lambda>e. e\<lparr>users := us\<rparr>) s1;
                          s3 = s2\<lparr>mqusers := (mqusers s2)(u := None)\<rparr>
                      in if unlinkme (mqtab s3 ! i) \<and> users (mqtab s3 ! i) = [] then do_mq_unlink i s3 else (Ret (), s3)))))"

definition mq_unlink :: "mq_cfg \<Rightarrow> bytes \<Rightarrow> 'q mqstate \<Rightarrow> unit outcome \<times> 'q mqstate" where
  "mq_unlink c name s =
     (case find_name c name (mqtab s) of
        None \<Rightarrow> (Err ENOENT, s)
      | Some i \<Rightarrow>
          if users (mqtab s ! i) \<noteq> [] then (Ret (), upd_ent i (\<lambda>e. e\<lparr>unlinkme := True\<rparr>) s)
          else do_mq_unlink i s)"

subsection \<open>Messages\<close>

text \<open>The queue of a descriptor, with what a call does to it.\<close>

definition on_queue :: "nat \<Rightarrow> ('q \<Rightarrow> 'a outcome \<times> 'q) \<Rightarrow> 'q mqstate \<Rightarrow> 'a outcome \<times> 'q mqstate" where
  "on_queue i f s =
     (case mq_obj (mqtab s ! i) of
        Queue q \<Rightarrow> (let (r, q') = f q in (r, upd_ent i (\<lambda>e. e\<lparr>mq_obj := Queue q'\<rparr>) s))
      | _ \<Rightarrow> (Undefined, s))"

definition put_result :: "bool \<Rightarrow> qerr \<Rightarrow> unit outcome" where
  "put_result badtimespec e =
     (case e of INTR \<Rightarrow> Err EINTR | WOULDBLOCK \<Rightarrow> (if badtimespec then Err EINVAL else Err EAGAIN) | OK \<Rightarrow> Ret () | _ \<Rightarrow> Err UNCHANGED)"

definition send_check :: "mq_cfg \<Rightarrow> bytes \<Rightarrow> u32 \<Rightarrow> mquser \<Rightarrow> 'q mqtabent \<Rightarrow> errno option" where
  "send_check c msg prio usr e =
     (if int (length msg) > msgsize e then Some EMSGSIZE
      else if prio > MQ_PRIO_MAX c then Some EINVAL
      else if \<not> has_wronly (flags usr) \<and> \<not> has_rdwr (flags usr) then Some EBADF else None)"

definition mq_send :: "'q cyg_mqueue \<Rightarrow> mq_cfg \<Rightarrow> nat \<Rightarrow> bytes \<Rightarrow> u32 \<Rightarrow> 'q mqstate \<Rightarrow> unit outcome \<times> 'q mqstate" where
  "mq_send K c u msg prio s =
     (case mqusers s u of
        None \<Rightarrow> (Err EBADF, s)
      | Some usr \<Rightarrow>
          (case send_check c msg prio usr (mqtab s ! tabent usr) of
             Some e \<Rightarrow> (Err e, s)
           | None \<Rightarrow>
               on_queue (tabent usr)
                 (\<lambda>q. let (e, q') = q_put K msg prio (\<not> has_nonblock (flags usr)) None q in (put_result False e, q')) s))"

text \<open>The absolute time is given by whether its nanoseconds are out of range, and by its ticks.\<close>

definition mq_timedsend :: "'q cyg_mqueue \<Rightarrow> mq_cfg \<Rightarrow> nat \<Rightarrow> bytes \<Rightarrow> u32 \<Rightarrow> bool \<Rightarrow> nat \<Rightarrow> 'q mqstate \<Rightarrow> unit outcome \<times> 'q mqstate" where
  "mq_timedsend K c u msg prio badtimespec abs_ticks s =
     (case mqusers s u of
        None \<Rightarrow> (Err EBADF, s)
      | Some usr \<Rightarrow>
          (case send_check c msg prio usr (mqtab s ! tabent usr) of
             Some e \<Rightarrow> (Err e, s)
           | None \<Rightarrow>
               on_queue (tabent usr)
                 (\<lambda>q. let (e, q1) = q_put K msg prio False (Some abs_ticks) q;
                          (e2, q2) = (if e = WOULDBLOCK \<and> \<not> has_nonblock (flags usr) \<and> \<not> badtimespec
                                      then q_put K msg prio True (Some abs_ticks) q1 else (e, q1))
                      in (if e2 = TIMEOUT then Err ETIMEDOUT else put_result badtimespec e2, q2)) s))"

definition receive_check :: "nat \<Rightarrow> mquser \<Rightarrow> 'q mqtabent \<Rightarrow> errno option" where
  "receive_check len usr e =
     (if \<not> has_rdonly (flags usr) \<and> \<not> has_rdwr (flags usr) then Some EBADF
      else if int len < msgsize e then Some EMSGSIZE else None)"

definition get_result :: "bool \<Rightarrow> qerr \<Rightarrow> bytes \<Rightarrow> u32 \<Rightarrow> (bytes \<times> u32) outcome" where
  "get_result badtimespec e msg prio =
     (case put_result badtimespec e of Ret _ \<Rightarrow> Ret (msg, prio) | Err x \<Rightarrow> Err x | Undefined \<Rightarrow> Undefined | Cancelled \<Rightarrow> Cancelled)"

definition mq_receive :: "'q cyg_mqueue \<Rightarrow> nat \<Rightarrow> nat \<Rightarrow> 'q mqstate \<Rightarrow> (bytes \<times> u32) outcome \<times> 'q mqstate" where
  "mq_receive K u len s =
     (case mqusers s u of
        None \<Rightarrow> (Err EBADF, s)
      | Some usr \<Rightarrow>
          (case receive_check len usr (mqtab s ! tabent usr) of
             Some e \<Rightarrow> (Err e, s)
           | None \<Rightarrow>
               on_queue (tabent usr)
                 (\<lambda>q. let (e, msg, prio, q') = q_get K (\<not> has_nonblock (flags usr)) None q in (get_result False e msg prio, q')) s))"

definition mq_timedreceive :: "'q cyg_mqueue \<Rightarrow> nat \<Rightarrow> nat \<Rightarrow> bool \<Rightarrow> nat \<Rightarrow> 'q mqstate \<Rightarrow> (bytes \<times> u32) outcome \<times> 'q mqstate" where
  "mq_timedreceive K u len badtimespec abs_ticks s =
     (case mqusers s u of
        None \<Rightarrow> (Err EBADF, s)
      | Some usr \<Rightarrow>
          (case receive_check len usr (mqtab s ! tabent usr) of
             Some e \<Rightarrow> (Err e, s)
           | None \<Rightarrow>
               on_queue (tabent usr)
                 (\<lambda>q. let (e, msg, prio, q1) = q_get K False (Some abs_ticks) q;
                          (e2, msg2, prio2, q2) = (if e = WOULDBLOCK \<and> \<not> has_nonblock (flags usr) \<and> \<not> badtimespec
                                                   then q_get K True (Some abs_ticks) q1 else (e, msg, prio, q1))
                      in (if e2 = TIMEOUT then Err ETIMEDOUT else get_result badtimespec e2 msg2 prio2, q2)) s))"

subsection \<open>Notification and attributes\<close>

definition mq_notify :: "nat \<Rightarrow> nat option \<Rightarrow> 'q mqstate \<Rightarrow> unit outcome \<times> 'q mqstate" where
  "mq_notify u notification s =
     (case mqusers s u of
        None \<Rightarrow> (Err EBADF, s)
      | Some usr \<Rightarrow>
          (let i = tabent usr
           in case notification of
                None \<Rightarrow> if has_queue i s then (Ret (), upd_ent i (\<lambda>e. e\<lparr>notify := None, sigev := None\<rparr>) s) else (Undefined, s)
              | Some ev \<Rightarrow>
                  if sigev (mqtab s ! i) \<noteq> None then (Err EBUSY, s)
                  else if has_queue i s then
                    (Ret (), (upd_ent i (\<lambda>e. e\<lparr>sigev := Some ev, notify := Some u\<rparr>) s)
                               \<lparr>mqusers := (mqusers s)(u := Some (usr\<lparr>notifieruser := True\<rparr>))\<rparr>)
                  else (Undefined, s)))"

text \<open>The kernel's call when a message arrives for the descriptor \<open>u\<close> that registered and is still open.\<close>

definition notifyme :: "nat \<Rightarrow> 'q mqstate \<Rightarrow> 'q mqstate" where
  "notifyme u s =
     (case mqusers s u of
        None \<Rightarrow> s
      | Some usr \<Rightarrow>
          (case sigev (mqtab s ! tabent usr) of
             None \<Rightarrow> s
           | Some ev \<Rightarrow> (upd_ent (tabent usr) (\<lambda>e. e\<lparr>notify := None, sigev := None\<rparr>) s)
               \<lparr>mqusers := (mqusers s)(u := Some (usr\<lparr>notifieruser := False\<rparr>)), queued := queued s @ [ev]\<rparr>))"

definition mq_getattr :: "'q cyg_mqueue \<Rightarrow> nat \<Rightarrow> 'q mqstate \<Rightarrow> (oflags \<times> int \<times> int \<times> int) outcome" where
  "mq_getattr K u s =
     (case mqusers s u of
        None \<Rightarrow> Err EBADF
      | Some usr \<Rightarrow>
          (let e = mqtab s ! tabent usr
           in case mq_obj e of Queue q \<Rightarrow> Ret (flags usr, maxmsg e, msgsize e, q_count K q) | _ \<Rightarrow> Undefined))"

text \<open>\<open>want_old\<close> says that \<^verbatim>\<open>omqstat\<close> is not null; the old attributes, read before the change, are then part of the result.\<close>

definition mq_setattr :: "'q cyg_mqueue \<Rightarrow> nat \<Rightarrow> bool \<Rightarrow> bool \<Rightarrow> 'q mqstate \<Rightarrow> (oflags \<times> int \<times> int \<times> int) option outcome \<times> 'q mqstate" where
  "mq_setattr K u nonblock want_old s =
     (case mqusers s u of
        None \<Rightarrow> (Err EBADF, s)
      | Some usr \<Rightarrow>
          (let s1 = s\<lparr>mqusers := (mqusers s)(u := Some (usr\<lparr>flags := (flags usr)\<lparr>has_nonblock := nonblock\<rparr>\<rparr>))\<rparr>
           in if want_old then (case mq_getattr K u s of Ret old \<Rightarrow> (Ret (Some old), s1) | _ \<Rightarrow> (Undefined, s))
              else (Ret None, s1)))"

end
