(* ===== verification/Posix_Mq_Correct.thy ===== *)
theory Posix_Mq_Correct
  imports Posix_Mq
begin

text \<open>
  Correctness of the message queues. The invariant ties the table of queues to the open descriptors; it rests on
  a part of the table only (\<open>qcore\<close>) and on the entry that each descriptor belongs to, so that calls which touch neither
  preserve it at once.
\<close>

subsection \<open>The table as the invariant sees it\<close>

record qcore =
  k_name :: bytes
  k_kind :: nat
  k_unlink :: bool
  k_users :: "nat list"

definition core :: "'q mqtabent \<Rightarrow> qcore" where
  "core e = \<lparr>k_name = mq_name e, k_kind = (case mq_obj e of NoQueue \<Rightarrow> 0 | Queue _ \<Rightarrow> 1 | Dangling \<Rightarrow> 2), k_unlink = unlinkme e, k_users = users e\<rparr>"

definition owner :: "'q mqstate \<Rightarrow> nat \<Rightarrow> nat option" where
  "owner s u = map_option tabent (mqusers s u)"

definition core_ok :: "mq_cfg \<Rightarrow> nat \<Rightarrow> qcore \<Rightarrow> (nat \<Rightarrow> nat option) \<Rightarrow> bool" where
  "core_ok c i k ow \<longleftrightarrow>
     k_kind k \<le> 1 \<and> (k_kind k = 0 \<longrightarrow> k_name k = [] \<and> k_users k = []) \<and> (k_kind k = 1 \<longrightarrow> k_name k \<noteq> []) \<and>
     length (k_name k) \<le> PATH_MAX c \<and> distinct (k_users k) \<and> (\<forall>u \<in> set (k_users k). ow u = Some i) \<and>
     (k_unlink k \<and> k_kind k = 1 \<longrightarrow> k_users k \<noteq> [])"

definition tab_inv :: "mq_cfg \<Rightarrow> qcore list \<Rightarrow> (nat \<Rightarrow> nat option) \<Rightarrow> bool" where
  "tab_inv c ks ow \<longleftrightarrow>
     0 < PATH_MAX c \<and> (\<forall>i<length ks. core_ok c i (ks ! i) ow) \<and>
     (\<forall>u i. ow u = Some i \<longrightarrow> i < length ks \<and> u \<in> set (k_users (ks ! i))) \<and>
     (\<forall>i<length ks. \<forall>j<length ks. k_name (ks ! i) = k_name (ks ! j) \<and> k_name (ks ! i) \<noteq> [] \<longrightarrow> i = j)"

definition mq_inv :: "mq_cfg \<Rightarrow> 'q mqstate \<Rightarrow> bool" where
  "mq_inv c s \<longleftrightarrow> tab_inv c (map core (mqtab s)) (owner s)"

lemma tab_invD:
  assumes "tab_inv c ks ow"
  shows "0 < PATH_MAX c" "i < length ks \<Longrightarrow> core_ok c i (ks ! i) ow" "ow u = Some i \<Longrightarrow> i < length ks" "ow u = Some i \<Longrightarrow> u \<in> set (k_users (ks ! i))"
    "i < length ks \<Longrightarrow> j < length ks \<Longrightarrow> k_name (ks ! i) = k_name (ks ! j) \<Longrightarrow> k_name (ks ! i) \<noteq> [] \<Longrightarrow> i = j"
  using assms by (auto simp: tab_inv_def)

lemma core_okD:
  assumes "core_ok c i k ow"
  shows "k_kind k = 0 \<or> k_kind k = 1" "k_kind k = 0 \<Longrightarrow> k_name k = [] \<and> k_users k = []" "k_kind k = 1 \<Longrightarrow> k_name k \<noteq> []"
    "distinct (k_users k)" "u \<in> set (k_users k) \<Longrightarrow> ow u = Some i" "length (k_name k) \<le> PATH_MAX c"
  using assms by (auto simp: core_ok_def)

text \<open>Changes of one entry, with the descriptor \<open>u\<close> that comes or goes.\<close>

lemma tab_inv_update:
  assumes "tab_inv c ks ow" "i < length ks" "core_ok c i k ow'"
    and "k_name k = [] \<or> k_name k = k_name (ks ! i) \<or> (\<forall>j<length ks. k_name (ks ! j) \<noteq> k_name k)"
    and "\<And>v. v \<in> set (k_users (ks ! i)) \<union> set (k_users k) \<or> ow' v = ow v"
    and "\<And>v. ow' v = Some i \<Longrightarrow> v \<in> set (k_users k)" "\<And>v j. ow' v = Some j \<Longrightarrow> j \<noteq> i \<Longrightarrow> ow v = Some j"
    and "\<And>v. v \<in> set (k_users k) \<Longrightarrow> ow v = None \<or> ow v = Some i"
  shows "tab_inv c (ks[i := k]) ow'"
proof -
  have A: "core_ok c j (ks[i := k] ! j) ow'" if "j < length ks" for j
  proof (cases "j = i")
    case True
    then show ?thesis using assms(2,3) by simp
  next
    case False
    have old: "core_ok c j (ks ! j) ow" using tab_invD(2) [OF assms(1) that] .
    have "ow' u = Some j" if u: "u \<in> set (k_users (ks ! j))" for u
    proof -
      have "ow u = Some j" using core_okD(5) [OF old u] .
      then have "u \<notin> set (k_users (ks ! i))" "u \<notin> set (k_users k)"
        using core_okD(5) [OF tab_invD(2) [OF assms(1,2)]] assms(8) [of u] False by auto
      then show ?thesis using assms(5) [of u] \<open>ow u = Some j\<close> by auto
    qed
    then show ?thesis using old False by (simp add: core_ok_def)
  qed
  have B: "j < length ks \<and> u \<in> set (k_users (ks[i := k] ! j))" if "ow' u = Some j" for u j
    using assms(2) assms(6) [of u] assms(7) [OF that] tab_invD(3,4) [OF assms(1)] that by (cases "j = i") auto
  have C: "j = l" if "j < length ks" "l < length ks" "k_name (ks[i := k] ! j) = k_name (ks[i := k] ! l)" "k_name (ks[i := k] ! j) \<noteq> []" for j l
    using that assms(2,4) tab_invD(5) [OF assms(1), of j l] tab_invD(5) [OF assms(1), of i l] tab_invD(5) [OF assms(1), of j i]
    by (cases "j = i"; cases "l = i") auto
  show ?thesis unfolding tab_inv_def length_list_update
  proof (intro conjI allI impI)
    show "0 < PATH_MAX c" by (rule tab_invD(1) [OF assms(1)])
  qed (use A B C in auto)
qed

lemma tab_inv_add_user:
  assumes "tab_inv c ks ow" "i < length ks" "k_kind (ks ! i) = 1" "ow u = None"
  shows "tab_inv c (ks[i := (ks ! i)\<lparr>k_users := u # k_users (ks ! i)\<rparr>]) (ow(u := Some i))"
proof (rule tab_inv_update [OF assms(1,2)])
  note ok = tab_invD(2) [OF assms(1,2)]
  show "core_ok c i ((ks ! i)\<lparr>k_users := u # k_users (ks ! i)\<rparr>) (ow(u := Some i))"
    using ok assms(3,4) by (auto simp: core_ok_def)
qed (use assms tab_invD(4) [OF assms(1)] core_okD(5) [OF tab_invD(2) [OF assms(1,2)]] in \<open>auto split: if_splits\<close>)

lemma tab_inv_create:
  assumes "tab_inv c ks ow" "i < length ks" "k_kind (ks ! i) = 0" "ow u = None" "n \<noteq> []" "length n \<le> PATH_MAX c" "\<forall>j<length ks. k_name (ks ! j) \<noteq> n"
  shows "tab_inv c (ks[i := \<lparr>k_name = n, k_kind = 1, k_unlink = False, k_users = [u]\<rparr>]) (ow(u := Some i))"
proof (rule tab_inv_update [OF assms(1,2)])
  have "k_users (ks ! i) = []" using core_okD(2) [OF tab_invD(2) [OF assms(1,2)] assms(3)] by simp
  then show "\<And>v. (ow(u := Some i)) v = Some i \<Longrightarrow> v \<in> set (k_users \<lparr>k_name = n, k_kind = 1, k_unlink = False, k_users = [u]\<rparr>)"
    using tab_invD(4) [OF assms(1)] by (force split: if_splits)
qed (use assms in \<open>auto simp: core_ok_def split: if_splits\<close>)

lemma tab_inv_remove:
  assumes "tab_inv c ks ow" "ow u = Some i" "k_kind (ks ! i) = 1"
    and "us = remove1 u (k_users (ks ! i))"
    and "k = (if k_unlink (ks ! i) \<and> us = [] then (ks ! i)\<lparr>k_users := [], k_name := [], k_kind := 0\<rparr> else (ks ! i)\<lparr>k_users := us\<rparr>)"
  shows "tab_inv c (ks[i := k]) (ow(u := None))"
proof -
  note i = tab_invD(3) [OF assms(1,2)]
  note ok = tab_invD(2) [OF assms(1) i]
  have us: "set us = set (k_users (ks ! i)) - {u}" "distinct us" using core_okD(4) [OF ok] by (simp_all add: assms(4))
  have ku: "k_users k = us" "k_name k = [] \<or> k_name k = k_name (ks ! i)" by (simp_all add: assms(5))
  have mem: "ow v = Some i \<Longrightarrow> v \<in> set (k_users (ks ! i))" for v using tab_invD(4) [OF assms(1)] by blast
  show ?thesis
  proof (rule tab_inv_update [OF assms(1) i])
    show "core_ok c i k (ow(u := None))" using ok us assms(3) by (auto simp: core_ok_def assms(5))
  qed (use us ku mem core_okD(5) [OF ok] assms(2) in \<open>auto split: if_splits\<close>)
qed

lemma tab_inv_unlink:
  assumes "tab_inv c ks ow" "i < length ks"
  shows "k_users (ks ! i) \<noteq> [] \<Longrightarrow> tab_inv c (ks[i := (ks ! i)\<lparr>k_unlink := True\<rparr>]) ow"
    "k_users (ks ! i) = [] \<Longrightarrow> tab_inv c (ks[i := (ks ! i)\<lparr>k_name := [], k_kind := 0\<rparr>]) ow"
proof -
  note ok = tab_invD(2) [OF assms]
  have mem: "ow v = Some i \<Longrightarrow> v \<in> set (k_users (ks ! i))" for v using tab_invD(4) [OF assms(1)] by blast
  show "k_users (ks ! i) \<noteq> [] \<Longrightarrow> tab_inv c (ks[i := (ks ! i)\<lparr>k_unlink := True\<rparr>]) ow"
    by (rule tab_inv_update [OF assms]) (use ok mem in \<open>auto simp: core_ok_def\<close>)
  show "k_users (ks ! i) = [] \<Longrightarrow> tab_inv c (ks[i := (ks ! i)\<lparr>k_name := [], k_kind := 0\<rparr>]) ow"
    by (rule tab_inv_update [OF assms]) (use ok mem in \<open>auto simp: core_ok_def\<close>)
qed


subsection \<open>The calls\<close>

lemma mq_invD:
  assumes "mq_inv c s"
  shows "i < length (mqtab s) \<Longrightarrow> core_ok c i (core (mqtab s ! i)) (owner s)" "mqusers s u = Some usr \<Longrightarrow> tabent usr < length (mqtab s)"
    "mqusers s u = Some usr \<Longrightarrow> u \<in> set (users (mqtab s ! tabent usr))" "mqusers s u = Some usr \<Longrightarrow> has_queue (tabent usr) s" "0 < PATH_MAX c"
proof -
  note t = assms [unfolded mq_inv_def]
  show ok: "i < length (mqtab s) \<Longrightarrow> core_ok c i (core (mqtab s ! i)) (owner s)" for i using tab_invD(2) [OF t, of i] by simp
  assume u: "mqusers s u = Some usr"
  then have "owner s u = Some (tabent usr)" by (simp add: owner_def)
  then show i: "tabent usr < length (mqtab s)" and m: "u \<in> set (users (mqtab s ! tabent usr))"
    using tab_invD(3,4) [OF t, of u "tabent usr"] by (simp_all add: core_def)
  show "has_queue (tabent usr) s"
    using core_okD(1,2) [OF ok [OF i]] m by (cases "mq_obj (mqtab s ! tabent usr)") (auto simp: core_def has_queue_def)
qed (use assms in \<open>simp add: mq_inv_def tab_inv_def\<close>)

lemma mq_inv_same:
  assumes "mq_inv c s" "map core (mqtab s') = map core (mqtab s)" "\<And>u. owner s' u = owner s u"
  shows "mq_inv c s'"
proof -
  have "owner s' = owner s" using assms(3) by (rule ext)
  then show ?thesis using assms(1,2) by (simp add: mq_inv_def)
qed

lemma core_update: "i < length tab \<Longrightarrow> core (f (tab ! i)) = core (tab ! i) \<Longrightarrow> map core (tab[i := f (tab ! i)]) = map core tab"
  by (simp add: map_update list_update_same_conv)

lemma find_name_Some:
  assumes "find_name c name tab = Some i"
  shows "i < length tab" "take (PATH_MAX c) name = take (PATH_MAX c) (mq_name (tab ! i))"
  using assms by (auto simp: find_name_def find_Some_iff simp del: upt_Suc)

lemma find_name_None: "find_name c name tab = None \<Longrightarrow> i < length tab \<Longrightarrow> take (PATH_MAX c) name \<noteq> take (PATH_MAX c) (mq_name (tab ! i))"
  by (auto simp: find_name_def find_None_iff)

lemma remove_user: "u \<in> set us \<Longrightarrow> remove_user u us = Some (remove1 u us)"
  by (induction us) auto

lemma owner_update: "owner (s\<lparr>mqusers := (mqusers s)(u := x)\<rparr>) = (owner s)(u := map_option tabent x)"
  by (auto simp: owner_def fun_eq_iff)

text \<open>Memory is not exhausted, and what the allocator gives out is not a descriptor in use.\<close>

definition mem_ok :: "'q cyg_mqueue \<Rightarrow> 'q mqstate \<Rightarrow> bool" where
  "mem_ok K s \<longleftrightarrow> (\<exists>p u ps. mallocs s = p # u # ps \<and> p \<noteq> 0 \<and> u \<noteq> 0 \<and> mqusers s p = None \<and> mqusers s u = None) \<and> (\<forall>m n. fst (q_new K m n) \<noteq> NOMEM)"

lemma find_free_Some:
  assumes "find_free tab = Some i"
  shows "i < length tab" "mq_obj (tab ! i) = NoQueue"
  using assms by (auto simp: find_free_def find_Some_iff simp del: upt_Suc)

text \<open>A queue is created, or the call fails without effect.\<close>

lemma mq_create_effect:
  assumes "mem_ok K s"
  shows "(\<exists>e. mq_create K c name oflag attr s = (Err e, s)) \<or>
    (\<exists>i u ent usr ps. mq_create K c name oflag attr s = (Ret u, s\<lparr>mqtab := (mqtab s)[i := ent], mallocs := ps, mqusers := (mqusers s)(u := Some usr)\<rparr>) \<and>
       find_free (mqtab s) = Some i \<and> mqusers s u = None \<and> u \<noteq> 0 \<and> tabent usr = i \<and>
       core ent = \<lparr>k_name = take (PATH_MAX c) name, k_kind = 1, k_unlink = False, k_users = [u]\<rparr>)"
proof (cases "find_free (mqtab s)")
  case None
  then show ?thesis by (simp add: mq_create_def)
next
  case (Some i)
  note free = find_free_Some [OF Some]
  obtain p u ps where m: "mallocs s = p # u # ps" "p \<noteq> 0" "u \<noteq> 0" "mqusers s u = None" using assms by (auto simp: mem_ok_def)
  define a where "a = (case attr of None \<Rightarrow> \<lparr>mq_nonblock = False, mq_maxmsg = MQ_OPEN_MAX c, mq_msgsize = 128\<rparr> | Some a \<Rightarrow> a)"
  obtain e q where q: "q_new K (mq_maxmsg a) (mq_msgsize a) = (e, q)" "e \<noteq> NOMEM" using assms by (metis mem_ok_def surj_pair fst_conv)
  let ?ent = "(mqtab s ! i)\<lparr>mq_obj := Queue q, notify := None, users := [u], maxmsg := mq_maxmsg a, msgsize := mq_msgsize a, unlinkme := False, sigev := None, mq_name := take (PATH_MAX c) name\<rparr>"
  let ?usr = "\<lparr>flags = oflag\<lparr>has_nonblock := has_nonblock oflag \<or> mq_nonblock a\<rparr>, tabent = i, notifieruser = False\<rparr>"
  show ?thesis
  proof (cases "case attr of None \<Rightarrow> False | Some a \<Rightarrow> mq_maxmsg a \<le> 0 \<or> mq_msgsize a \<le> 0")
    case True
    then show ?thesis using Some by (simp add: mq_create_def)
  next
    case False
    have "mq_create K c name oflag attr s = (Ret u, s\<lparr>mqtab := (mqtab s)[i := ?ent], mallocs := ps, mqusers := (mqusers s)(u := Some ?usr)\<rparr>)"
      using free(1) m q False unfolding mq_create_def Some option.case a_def [symmetric] Let_def by (simp add: mq_malloc_def)
    then show ?thesis using Some m by (intro disjI2 exI [of _ i] exI [of _ u] exI [of _ ?ent] exI [of _ ?usr] exI [of _ ps]) (simp add: core_def)
  qed
qed

lemma mq_create_inv:
  assumes "mq_inv c s" "mem_ok K s" "find_name c name (mqtab s) = None" "name \<noteq> []"
  shows "mq_inv c (snd (mq_create K c name oflag attr s)) \<and> fst (mq_create K c name oflag attr s) \<noteq> Undefined"
  using mq_create_effect [OF assms(2), of c name oflag attr]
proof (elim disjE exE conjE)
  fix i u ent usr ps
  assume e: "mq_create K c name oflag attr s = (Ret u, s\<lparr>mqtab := (mqtab s)[i := ent], mallocs := ps, mqusers := (mqusers s)(u := Some usr)\<rparr>)"
    and f: "find_free (mqtab s) = Some i" and u: "mqusers s u = None" and t: "tabent usr = i"
    and k: "core ent = \<lparr>k_name = take (PATH_MAX c) name, k_kind = 1, k_unlink = False, k_users = [u]\<rparr>"
  note free = find_free_Some [OF f]
  have "k_name (map core (mqtab s) ! j) \<noteq> take (PATH_MAX c) name" if "j < length (map core (mqtab s))" for j
  proof -
    have "length (mq_name (mqtab s ! j)) \<le> PATH_MAX c" using core_okD(6) [OF mq_invD(1) [OF assms(1)]] that by (simp add: core_def)
    then show ?thesis using find_name_None [OF assms(3), of j] that by (auto simp: core_def)
  qed
  then have "tab_inv c ((map core (mqtab s))[i := \<lparr>k_name = take (PATH_MAX c) name, k_kind = 1, k_unlink = False, k_users = [u]\<rparr>]) ((owner s)(u := Some i))"
    using assms(1,4) free u mq_invD(5) [OF assms(1)] by (intro tab_inv_create) (auto simp: mq_inv_def owner_def core_def)
  moreover have "owner (s\<lparr>mqtab := (mqtab s)[i := ent], mallocs := ps, mqusers := (mqusers s)(u := Some usr)\<rparr>) = (owner s)(u := Some i)"
    by (auto simp: owner_def fun_eq_iff t)
  ultimately show ?thesis by (simp add: mq_inv_def e map_update k)
qed (use assms(1) in simp)

lemma mq_open_inv:
  assumes "mq_inv c s" "mem_ok K s" "name \<noteq> []"
  shows "mq_inv c (snd (mq_open K c name oflag attr s)) \<and> fst (mq_open K c name oflag attr s) \<noteq> Undefined"
proof (cases "find_name c name (mqtab s)")
  case None
  then show ?thesis using mq_create_inv [OF assms(1,2) None assms(3)] assms(1) by (simp add: mq_open_def)
next
  case (Some i)
  note f = find_name_Some [OF Some]
  obtain p ps where m: "mallocs s = p # ps" "p \<noteq> 0" "mqusers s p = None" using assms(2) by (auto simp: mem_ok_def)
  have "mq_name (mqtab s ! i) \<noteq> []" using f(2) assms(3) mq_invD(5) [OF assms(1)] by auto
  then have kind: "k_kind (map core (mqtab s) ! i) = 1" using core_okD(1,2) [OF mq_invD(1) [OF assms(1) f(1)]] f(1) by (auto simp: core_def)
  let ?ent = "(mqtab s ! i)\<lparr>users := p # users (mqtab s ! i)\<rparr>" and ?usr = "\<lparr>flags = oflag, tabent = i, notifieruser = stale s p\<rparr>"
  let ?s = "s\<lparr>mqtab := (mqtab s)[i := ?ent], mallocs := ps, mqusers := (mqusers s)(p := Some ?usr)\<rparr>"
  have "tab_inv c ((map core (mqtab s))[i := (map core (mqtab s) ! i)\<lparr>k_users := p # k_users (map core (mqtab s) ! i)\<rparr>]) ((owner s)(p := Some i))"
    using assms(1) f(1) kind m(3) by (intro tab_inv_add_user) (auto simp: mq_inv_def owner_def)
  moreover have "owner ?s = (owner s)(p := Some i)" by (auto simp: owner_def fun_eq_iff)
  moreover have "core ?ent = (map core (mqtab s) ! i)\<lparr>k_users := p # k_users (map core (mqtab s) ! i)\<rparr>" using f(1) by (simp add: core_def)
  ultimately have inv: "mq_inv c ?s" by (simp add: mq_inv_def map_update)
  have "mq_open K c name oflag attr s = (Ret p, ?s) \<or> (\<exists>e. mq_open K c name oflag attr s = (Err e, s))"
    using m f(1) by (simp add: mq_open_def Some mq_malloc_def Let_def)
  then show ?thesis using inv assms(1) by auto
qed


text \<open>Closing removes the descriptor; if it was the last one of a queue to be unlinked, the queue goes too.\<close>

definition closed_core :: "nat \<Rightarrow> qcore \<Rightarrow> qcore" where
  "closed_core u k =
     (if k_unlink k \<and> remove1 u (k_users k) = [] then k\<lparr>k_users := [], k_name := [], k_kind := 0\<rparr> else k\<lparr>k_users := remove1 u (k_users k)\<rparr>)"

lemma mq_close_effect:
  assumes "mq_inv c s" "mqusers s u = Some usr"
  shows "\<exists>ent. mq_close u s = (Ret (), s\<lparr>mqtab := (mqtab s)[tabent usr := ent], mqusers := (mqusers s)(u := None)\<rparr>) \<and>
    core ent = closed_core u (core (mqtab s ! tabent usr))"
proof -
  let ?i = "tabent usr"
  note i = mq_invD(2) [OF assms] and m = mq_invD(3) [OF assms] and h = mq_invD(4) [OF assms]
  obtain q where q: "mq_obj (mqtab s ! ?i) = Queue q" using h by (auto simp: has_queue_def split: mqref.splits)
  define e1 where "e1 = (if notifieruser usr then (mqtab s ! ?i)\<lparr>notify := None, sigev := None\<rparr> else mqtab s ! ?i)"
  have e1: "users e1 = users (mqtab s ! ?i)" "mq_obj e1 = Queue q" "unlinkme e1 = unlinkme (mqtab s ! ?i)" "mq_name e1 = mq_name (mqtab s ! ?i)"
    using q by (simp_all add: e1_def)
  define us where "us = remove1 u (users (mqtab s ! ?i))"
  define ent where "ent = (if unlinkme e1 \<and> us = [] then e1\<lparr>users := us, mq_name := [], mq_obj := NoQueue\<rparr> else e1\<lparr>users := us\<rparr>)"
  have tab: "(if notifieruser usr then s\<lparr>mqtab := (mqtab s)[?i := (mqtab s ! ?i)\<lparr>notify := None, sigev := None\<rparr>]\<rparr> else s) = s\<lparr>mqtab := (mqtab s)[?i := e1]\<rparr>"
    by (simp add: e1_def)
  have "mq_close u s = (Ret (), s\<lparr>mqtab := (mqtab s)[?i := ent], mqusers := (mqusers s)(u := None)\<rparr>)"
    using i h remove_user [OF m] e1 unfolding mq_close_def assms(2) option.case Let_def tab
    by (simp add: do_mq_unlink_def us_def ent_def)
  moreover have "core ent = closed_core u (core (mqtab s ! ?i))"
    using q by (simp add: core_def closed_core_def ent_def e1 us_def)
  ultimately show ?thesis by blast
qed

lemma mq_close_inv:
  assumes "mq_inv c s"
  shows "mq_inv c (snd (mq_close u s)) \<and> fst (mq_close u s) \<noteq> Undefined"
proof (cases "mqusers s u")
  case None
  then show ?thesis using assms by (simp add: mq_close_def)
next
  case (Some usr)
  let ?i = "tabent usr"
  note i = mq_invD(2) [OF assms Some]
  from mq_close_effect [OF assms Some] obtain ent where
    e: "mq_close u s = (Ret (), s\<lparr>mqtab := (mqtab s)[?i := ent], mqusers := (mqusers s)(u := None)\<rparr>)"
      "core ent = closed_core u (core (mqtab s ! ?i))" by blast
  have "k_kind (map core (mqtab s) ! ?i) = 1"
    using mq_invD(4) [OF assms Some] i by (auto simp: core_def has_queue_def split: mqref.splits)
  then have "tab_inv c ((map core (mqtab s))[?i := closed_core u (map core (mqtab s) ! ?i)]) ((owner s)(u := None))"
    using assms Some i by (intro tab_inv_remove) (auto simp: mq_inv_def owner_def closed_core_def)
  moreover have "owner (s\<lparr>mqtab := (mqtab s)[?i := ent], mqusers := (mqusers s)(u := None)\<rparr>) = (owner s)(u := None)"
    by (auto simp: owner_def fun_eq_iff)
  ultimately show ?thesis using e i by (simp add: mq_inv_def map_update)
qed

lemma mq_unlink_inv:
  assumes "mq_inv c s" "name \<noteq> []"
  shows "mq_inv c (snd (mq_unlink c name s)) \<and> fst (mq_unlink c name s) \<noteq> Undefined"
proof (cases "find_name c name (mqtab s)")
  case None
  then show ?thesis using assms(1) by (simp add: mq_unlink_def)
next
  case (Some i)
  note f = find_name_Some [OF Some]
  have "mq_name (mqtab s ! i) \<noteq> []" using f(2) assms(2) mq_invD(5) [OF assms(1)] by auto
  then obtain q where q: "mq_obj (mqtab s ! i) = Queue q"
    using core_okD(1,2) [OF mq_invD(1) [OF assms(1) f(1)]] by (cases "mq_obj (mqtab s ! i)") (auto simp: core_def)
  have t: "tab_inv c (map core (mqtab s)) (owner s)" "i < length (map core (mqtab s))" using assms(1) f(1) by (simp_all add: mq_inv_def)
  have ow: "owner (s\<lparr>mqtab := x\<rparr>) = owner s" for x by (simp add: owner_def fun_eq_iff)
  show ?thesis
  proof (cases "users (mqtab s ! i) = []")
    case True
    have "core ((mqtab s ! i)\<lparr>mq_name := [], mq_obj := NoQueue\<rparr>) = (map core (mqtab s) ! i)\<lparr>k_name := [], k_kind := 0\<rparr>"
      using f(1) by (simp add: core_def)
    then show ?thesis using tab_inv_unlink(2) [OF t] f(1) True q
      by (simp add: mq_unlink_def Some do_mq_unlink_def mq_inv_def ow map_update) (simp add: core_def)
  next
    case False
    have "core ((mqtab s ! i)\<lparr>unlinkme := True\<rparr>) = (map core (mqtab s) ! i)\<lparr>k_unlink := True\<rparr>" using f(1) by (simp add: core_def)
    then show ?thesis using tab_inv_unlink(1) [OF t] f(1) False
      by (simp add: mq_unlink_def Some mq_inv_def ow map_update) (simp add: core_def)
  qed
qed

text \<open>The other calls touch neither names nor users.\<close>

lemma on_queue_inv:
  assumes "mq_inv c s" "mqusers s u = Some usr" "\<And>q. fst (f q) \<noteq> Undefined"
  shows "mq_inv c (snd (on_queue (tabent usr) f s)) \<and> fst (on_queue (tabent usr) f s) \<noteq> Undefined"
proof -
  let ?i = "tabent usr"
  obtain q where q: "mq_obj (mqtab s ! ?i) = Queue q" using mq_invD(4) [OF assms(1,2)] by (auto simp: has_queue_def split: mqref.splits)
  obtain r q' where f: "f q = (r, q')" by fastforce
  have "map core ((mqtab s)[?i := (mqtab s ! ?i)\<lparr>mq_obj := Queue q'\<rparr>]) = map core (mqtab s)"
    using mq_invD(2) [OF assms(1,2)] q by (intro core_update) (simp_all add: core_def)
  then have "mq_inv c (s\<lparr>mqtab := (mqtab s)[?i := (mqtab s ! ?i)\<lparr>mq_obj := Queue q'\<rparr>]\<rparr>)"
    by (intro mq_inv_same [OF assms(1)]) (simp_all add: owner_def)
  then show ?thesis using assms(3) [of q] by (simp add: on_queue_def q f)
qed

lemma put_result_defined: "put_result b e \<noteq> Undefined" "get_result b e m p \<noteq> Undefined"
  by (auto simp: put_result_def get_result_def split: qerr.splits)

lemma checked_inv:
  assumes "mq_inv c s" "\<And>usr q. fst (f usr q) \<noteq> Undefined"
  shows "mq_inv c (snd (case mqusers s u of None \<Rightarrow> (Err EBADF, s) | Some usr \<Rightarrow>
      (case chk usr of Some e \<Rightarrow> (Err e, s) | None \<Rightarrow> on_queue (tabent usr) (f usr) s))) \<and>
    fst (case mqusers s u of None \<Rightarrow> (Err EBADF, s) | Some usr \<Rightarrow> (case chk usr of Some e \<Rightarrow> (Err e, s) | None \<Rightarrow> on_queue (tabent usr) (f usr) s)) \<noteq> Undefined"
proof (cases "mqusers s u")
  case None
  then show ?thesis using assms(1) by simp
next
  case (Some usr)
  show ?thesis
  proof (cases "chk usr")
    case None
    then show ?thesis using on_queue_inv [OF assms(1) Some, where f = "f usr"] assms(2) Some by simp
  qed (use assms(1) Some in simp)
qed

lemma message_inv:
  assumes "mq_inv c s"
  shows "mq_inv c (snd (mq_send K c u msg prio s)) \<and> fst (mq_send K c u msg prio s) \<noteq> Undefined"
    "mq_inv c (snd (mq_timedsend K c u msg prio b t s)) \<and> fst (mq_timedsend K c u msg prio b t s) \<noteq> Undefined"
    "mq_inv c (snd (mq_receive K u len s)) \<and> fst (mq_receive K u len s) \<noteq> Undefined"
    "mq_inv c (snd (mq_timedreceive K u len b t s)) \<and> fst (mq_timedreceive K u len b t s) \<noteq> Undefined"
  unfolding mq_send_def mq_timedsend_def mq_receive_def mq_timedreceive_def
  by (rule checked_inv [OF assms]; simp add: case_prod_beta Let_def put_result_defined)+

lemma upd_inv:
  assumes "mq_inv c s" "i < length (mqtab s)" "\<And>e. core (f e) = core e" "\<And>v. map_option tabent (us v) = owner s v"
  shows "mq_inv c (s\<lparr>mqtab := (mqtab s)[i := f (mqtab s ! i)], mqusers := us, queued := qs\<rparr>)"
  by (rule mq_inv_same [OF assms(1)]) (use assms(2-4) core_update [of i "mqtab s" f] in \<open>simp_all add: owner_def\<close>)

lemma notify_inv:
  assumes "mq_inv c s"
  shows "mq_inv c (snd (mq_notify u ev s)) \<and> fst (mq_notify u ev s) \<noteq> Undefined" "mq_inv c (notifyme u s)"
    "mq_getattr K u s \<noteq> Undefined" "mq_inv c (snd (mq_setattr K u nb old s)) \<and> fst (mq_setattr K u nb old s) \<noteq> Undefined"
proof -
  have c: "core (e\<lparr>notify := x, sigev := y\<rparr>) = core e" "core (e\<lparr>sigev := y, notify := x\<rparr>) = core e" for e x y by (simp_all add: core_def)
  show "mq_inv c (snd (mq_notify u ev s)) \<and> fst (mq_notify u ev s) \<noteq> Undefined"
  proof (cases "mqusers s u")
    case None
    then show ?thesis using assms by (simp add: mq_notify_def)
  next
    case (Some usr)
    note i = mq_invD(2) [OF assms Some] and h = mq_invD(4) [OF assms Some]
    have ow: "map_option tabent (((mqusers s)(u := Some (usr\<lparr>notifieruser := True\<rparr>))) v) = owner s v" for v using Some by (simp add: owner_def)
    have "mq_inv c (s\<lparr>mqtab := (mqtab s)[tabent usr := (mqtab s ! tabent usr)\<lparr>notify := None, sigev := None\<rparr>]\<rparr>)"
      using upd_inv [OF assms i, of "\<lambda>e. e\<lparr>notify := None, sigev := None\<rparr>" "mqusers s" "queued s"] by (simp add: c owner_def)
    moreover have "mq_inv c (s\<lparr>mqtab := (mqtab s)[tabent usr := (mqtab s ! tabent usr)\<lparr>sigev := Some x, notify := Some u\<rparr>],
        mqusers := (mqusers s)(u := Some (usr\<lparr>notifieruser := True\<rparr>))\<rparr>)" for x
      using upd_inv [OF assms i _ ow, of "\<lambda>e. e\<lparr>sigev := Some x, notify := Some u\<rparr>" "queued s"] by (simp add: c fun_upd_def)
    ultimately show ?thesis using Some h assms by (simp add: mq_notify_def Let_def split: option.split)
  qed
  show "mq_inv c (notifyme u s)"
  proof (cases "mqusers s u")
    case None
    then show ?thesis using assms by (simp add: notifyme_def)
  next
    case (Some usr)
    note i = mq_invD(2) [OF assms Some]
    have ow: "map_option tabent (((mqusers s)(u := Some (usr\<lparr>notifieruser := False\<rparr>))) v) = owner s v" for v using Some by (simp add: owner_def)
    have "mq_inv c (s\<lparr>mqtab := (mqtab s)[tabent usr := (mqtab s ! tabent usr)\<lparr>notify := None, sigev := None\<rparr>],
        mqusers := (mqusers s)(u := Some (usr\<lparr>notifieruser := False\<rparr>)), queued := queued s @ [x]\<rparr>)" for x
      by (rule upd_inv [OF assms i _ ow]) (simp add: c)
    then show ?thesis using Some assms by (simp add: notifyme_def split: option.split)
  qed
  show get: "mq_getattr K u s \<noteq> Undefined"
    using mq_invD(4) [OF assms, of u] by (auto simp: mq_getattr_def has_queue_def Let_def split: option.split mqref.splits)
  show "mq_inv c (snd (mq_setattr K u nb old s)) \<and> fst (mq_setattr K u nb old s) \<noteq> Undefined"
  proof (cases "mqusers s u")
    case None
    then show ?thesis using assms by (simp add: mq_setattr_def)
  next
    case (Some usr)
    have inv: "mq_inv c (s\<lparr>mqusers := (mqusers s)(u := Some (usr\<lparr>flags := fl\<rparr>))\<rparr>)" for fl
      by (rule mq_inv_same [OF assms]) (use Some in \<open>simp_all add: owner_def\<close>)
    obtain a where "mq_getattr K u s = Ret a"
      using get Some by (auto simp: mq_getattr_def Let_def split: mqref.splits)
    with Some inv show ?thesis by (simp add: mq_setattr_def Let_def)
  qed
qed

subsection \<open>Runs of a program\<close>

text \<open>
  A program's calls, in any order and by any threads. Between calls the allocator
  and the contents of free memory may change. \<open>CNotify\<close> is the kernel's callback.
\<close>

datatype call =
    COpen bytes oflags "mq_attr option" | CClose nat | CUnlink bytes | CSend nat bytes u32 | CTimedsend nat bytes u32 bool nat
  | CReceive nat nat | CTimedreceive nat nat bool nat | CNotify nat "nat option" | CNotifyme nat | CGetattr nat | CSetattr nat bool bool

definition lift_out :: "'a outcome \<times> 'q mqstate \<Rightarrow> bool \<times> 'q mqstate" where
  "lift_out r = (fst r \<noteq> Undefined, snd r)"

text \<open>Whether the behaviour of a call is defined, and the state it leaves.\<close>

definition mq_call :: "'q cyg_mqueue \<Rightarrow> mq_cfg \<Rightarrow> call \<Rightarrow> 'q mqstate \<Rightarrow> bool \<times> 'q mqstate" where
  "mq_call K c x s =
     (case x of
        COpen n fl a \<Rightarrow> lift_out (mq_open K c n fl a s) | CClose u \<Rightarrow> lift_out (mq_close u s) | CUnlink n \<Rightarrow> lift_out (mq_unlink c n s)
      | CSend u m p \<Rightarrow> lift_out (mq_send K c u m p s) | CTimedsend u m p b t \<Rightarrow> lift_out (mq_timedsend K c u m p b t s)
      | CReceive u l \<Rightarrow> lift_out (mq_receive K u l s) | CTimedreceive u l b t \<Rightarrow> lift_out (mq_timedreceive K u l b t s)
      | CNotify u ev \<Rightarrow> lift_out (mq_notify u ev s) | CNotifyme u \<Rightarrow> (True, notifyme u s)
      | CGetattr u \<Rightarrow> (mq_getattr K u s \<noteq> Undefined, s) | CSetattr u b old \<Rightarrow> lift_out (mq_setattr K u b old s))"

text \<open>What is asked of the caller: names are not empty, and memory suffices when a queue is opened.\<close>

definition call_ok :: "'q cyg_mqueue \<Rightarrow> call \<Rightarrow> 'q mqstate \<Rightarrow> bool" where
  "call_ok K x s = (case x of COpen n _ _ \<Rightarrow> n \<noteq> [] \<and> mem_ok K s | CUnlink n \<Rightarrow> n \<noteq> [] | _ \<Rightarrow> True)"

definition empty_ent :: "'q mqtabent" where
  "empty_ent = \<lparr>mq_name = [], mq_obj = NoQueue, maxmsg = 0, msgsize = 0, unlinkme = False, users = [], sigev = None, notify = None\<rparr>"

inductive mq_reach :: "'q cyg_mqueue \<Rightarrow> mq_cfg \<Rightarrow> 'q mqstate \<Rightarrow> bool" for K :: "'q cyg_mqueue" and c :: mq_cfg where
  start: "0 < PATH_MAX c \<Longrightarrow> mq_reach K c \<lparr>mqtab = replicate n empty_ent, mqusers = (\<lambda>_. None), mallocs = ms, stale = st, queued = []\<rparr>"
| call: "mq_reach K c s \<Longrightarrow> call_ok K x s \<Longrightarrow> mq_reach K c (snd (mq_call K c x s))"
| memory: "mq_reach K c s \<Longrightarrow> mq_reach K c (s\<lparr>mallocs := ms, stale := st\<rparr>)"

lemma mq_call_inv:
  assumes "mq_inv c s" "call_ok K x s"
  shows "mq_inv c (snd (mq_call K c x s)) \<and> fst (mq_call K c x s)"
  using assms mq_open_inv [OF assms(1)] mq_close_inv [OF assms(1)] mq_unlink_inv [OF assms(1)] message_inv [OF assms(1)] notify_inv [OF assms(1)]
  by (cases x) (simp_all add: mq_call_def lift_out_def call_ok_def)

lemma mq_reach_inv: "mq_reach K c s \<Longrightarrow> mq_inv c s"
proof (induction rule: mq_reach.induct)
  case (start n ms st)
  then show ?case by (auto simp: mq_inv_def tab_inv_def core_ok_def core_def empty_ent_def owner_def)
next
  case (call s x)
  then show ?case using mq_call_inv by blast
next
  case memory
  then show ?case by (intro mq_inv_same [OF memory.IH]) (simp_all add: owner_def)
qed


text \<open>
  C31: in every state a program can reach, every call with a non-empty name and enough memory keeps the invariant of the
  table (names are unique, each descriptor belongs to exactly one live queue, and a queue that waits for its deletion still
  has users) and never uses a queue that does not exist.
\<close>

theorem mq_calls_safe:
  assumes "mq_reach K c s" "call_ok K x s"
  shows "fst (mq_call K c x s) \<and> mq_inv c (snd (mq_call K c x s))"
  using mq_call_inv [OF mq_reach_inv [OF assms(1)] assms(2)] by simp

definition list_queue :: "(bytes \<times> u32) list cyg_mqueue" where
  "list_queue = \<lparr>q_new = (\<lambda>_ _. (OK, [])), q_put = (\<lambda>m p _ _ q. (OK, q @ [(m, p)])),
     q_get = (\<lambda>_ _ q. case q of [] \<Rightarrow> (WOULDBLOCK, [], 0, []) | (m, p) # r \<Rightarrow> (OK, m, p, r)), q_count = int \<circ> length\<rparr>"

definition demo_cfg :: mq_cfg where
  "demo_cfg = \<lparr>PATH_MAX = 8, MQ_OPEN_MAX = 4, MQ_PRIO_MAX = 31\<rparr>"

definition demo_start :: "(bytes \<times> u32) list mqstate" where
  "demo_start = \<lparr>mqtab = replicate 2 empty_ent, mqusers = (\<lambda>_. None), mallocs = [1, 2], stale = (\<lambda>_. False), queued = []\<rparr>"

definition rw_create :: oflags where
  "rw_create = \<lparr>has_rdonly = True, has_wronly = False, has_rdwr = True, has_creat = True, has_excl = False, has_nonblock = False\<rparr>"

lemma demo_reach: "mq_reach list_queue demo_cfg demo_start"
  unfolding demo_start_def by (rule mq_reach.start) (simp add: demo_cfg_def)

lemma demo_mem: "mem_ok list_queue demo_start"
  by (simp add: mem_ok_def demo_start_def list_queue_def)

theorem mq_calls_safe_witness:
  "fst (mq_call list_queue demo_cfg (COpen [113] rw_create None) demo_start) \<and>
   mq_inv demo_cfg (snd (mq_call list_queue demo_cfg (COpen [113] rw_create None) demo_start))"
  using mq_calls_safe [OF demo_reach, of "COpen [113] rw_create None"] demo_mem by (simp add: call_ok_def)

end
