(* ===== verification/Posix_Mq_Props.thy ===== *)
theory Posix_Mq_Props
  imports Posix_Mq_Correct
begin

text \<open>
  The life of a message queue: unlinking while it is in use, notification, and the states in which the calls go wrong.
\<close>

subsection \<open>Unlinking\<close>

definition close_all :: "nat list \<Rightarrow> 'q mqstate \<Rightarrow> 'q mqstate" where
  "close_all us s = fold (\<lambda>u s. snd (mq_close u s)) us s"

text \<open>Closing one of several users leaves the rest of the table; closing the last one frees the entry.\<close>

lemma close_step:
  assumes "mq_inv c s" "i < length (mqtab s)" "u \<in> set (users (mqtab s ! i))" "unlinkme (mqtab s ! i)"
  shows "users (mqtab (snd (mq_close u s)) ! i) = remove1 u (users (mqtab s ! i))"
    "remove1 u (users (mqtab s ! i)) \<noteq> [] \<Longrightarrow> unlinkme (mqtab (snd (mq_close u s)) ! i)"
    "remove1 u (users (mqtab s ! i)) = [] \<Longrightarrow> mq_obj (mqtab (snd (mq_close u s)) ! i) = NoQueue \<and> mq_name (mqtab (snd (mq_close u s)) ! i) = []"
    "length (mqtab (snd (mq_close u s))) = length (mqtab s)" "j \<noteq> i \<Longrightarrow> mqtab (snd (mq_close u s)) ! j = mqtab s ! j"
    "fst (mq_close u s) = Ret ()"
proof -
  have "owner s u = Some i" using core_okD(5) [OF mq_invD(1) [OF assms(1,2)]] assms(3) by (simp add: core_def)
  then obtain usr where u: "mqusers s u = Some usr" "tabent usr = i" by (auto simp: owner_def)
  from mq_close_effect [OF assms(1) u(1)] obtain ent where
    e: "mq_close u s = (Ret (), s\<lparr>mqtab := (mqtab s)[i := ent], mqusers := (mqusers s)(u := None)\<rparr>)"
      and k: "core ent = closed_core u (core (mqtab s ! i))" unfolding u(2) by blast
  have ent: "users ent = remove1 u (users (mqtab s ! i))" "remove1 u (users (mqtab s ! i)) \<noteq> [] \<Longrightarrow> unlinkme ent"
    "remove1 u (users (mqtab s ! i)) = [] \<Longrightarrow> mq_obj ent = NoQueue \<and> mq_name ent = []"
    using k assms(4) by (auto simp: core_def closed_core_def split: if_splits mqref.splits)
  show "users (mqtab (snd (mq_close u s)) ! i) = remove1 u (users (mqtab s ! i))"
    "remove1 u (users (mqtab s ! i)) \<noteq> [] \<Longrightarrow> unlinkme (mqtab (snd (mq_close u s)) ! i)"
    "remove1 u (users (mqtab s ! i)) = [] \<Longrightarrow> mq_obj (mqtab (snd (mq_close u s)) ! i) = NoQueue \<and> mq_name (mqtab (snd (mq_close u s)) ! i) = []"
    "length (mqtab (snd (mq_close u s))) = length (mqtab s)" "j \<noteq> i \<Longrightarrow> mqtab (snd (mq_close u s)) ! j = mqtab s ! j"
    "fst (mq_close u s) = Ret ()"
    using ent assms(2) by (simp_all add: e)
qed

lemma close_all_frees:
  assumes "mq_inv c s" "i < length (mqtab s)" "distinct us" "set us = set (users (mqtab s ! i))" "us \<noteq> []" "unlinkme (mqtab s ! i)"
  shows "mq_inv c (close_all us s) \<and> length (mqtab (close_all us s)) = length (mqtab s) \<and>
    mq_obj (mqtab (close_all us s) ! i) = NoQueue \<and> mq_name (mqtab (close_all us s) ! i) = [] \<and> (\<forall>j. j \<noteq> i \<longrightarrow> mqtab (close_all us s) ! j = mqtab s ! j)"
  using assms
proof (induction us arbitrary: s)
  case (Cons u us)
  let ?s = "snd (mq_close u s)" and ?r = "remove1 u (users (mqtab s ! i))"
  have m: "u \<in> set (users (mqtab s ! i))" using Cons.prems(4) by auto
  have d: "distinct (users (mqtab s ! i))" using core_okD(4) [OF mq_invD(1) [OF Cons.prems(1,2)]] by (simp add: core_def)
  note st = close_step [OF Cons.prems(1,2) m Cons.prems(6)]
  have inv: "mq_inv c ?s" using mq_close_inv [OF Cons.prems(1)] by blast
  have set: "set us = set ?r" using Cons.prems(3,4) d by auto
  show ?case
  proof (cases "us = []")
    case True
    then have "?r = []" using set by simp
    then show ?thesis using True inv st by (simp add: close_all_def)
  next
    case False
    then have "?r \<noteq> []" using set by auto
    then show ?thesis using Cons.IH [OF inv, simplified st] Cons.prems(2,3) set False st by (simp add: close_all_def)
  qed
qed simp

text \<open>The name of a queue is found nowhere but at its own entry.\<close>

lemma name_gone:
  assumes "mq_inv c s" "find_name c name (mqtab s) = Some i" "name \<noteq> []"
    and "length tab = length (mqtab s)" "mq_name (tab ! i) = []" "\<And>j. j \<noteq> i \<Longrightarrow> mq_name (tab ! j) = mq_name (mqtab s ! j)"
  shows "find_name c name tab = None"
proof -
  note f = find_name_Some [OF assms(2)] and P = mq_invD(5) [OF assms(1)]
  have short: "take (PATH_MAX c) (mq_name (mqtab s ! j)) = mq_name (mqtab s ! j)" if "j < length (mqtab s)" for j
    using core_okD(6) [OF mq_invD(1) [OF assms(1) that]] by (simp add: core_def)
  have ne: "mq_name (mqtab s ! i) \<noteq> []" using f(2) assms(3) P by auto
  have "take (PATH_MAX c) name \<noteq> take (PATH_MAX c) (mq_name (tab ! j))" if j: "j < length tab" for j
  proof (cases "j = i")
    case False
    have "mq_name (mqtab s ! i) \<noteq> mq_name (mqtab s ! j)"
      using tab_invD(5) [OF assms(1) [unfolded mq_inv_def], of i j] f(1) j False ne assms(4) by (auto simp: core_def)
    then show ?thesis using f short [OF f(1)] short [of j] j assms(4) assms(6) [OF False] by simp
  qed (use assms(3,5) P in simp)
  then show ?thesis by (auto simp: find_name_def find_None_iff)
qed

lemma unlink_in_use:
  assumes "mq_reach K c s" "find_name c name (mqtab s) = Some i" "name \<noteq> []" "users (mqtab s ! i) \<noteq> []"
    and "distinct us" "set us = set (users (mqtab s ! i))" "has_rdonly fl" "\<not> has_creat fl"
    and "s1 = snd (mq_unlink c name s)" "s2 = close_all us s1"
  shows "fst (mq_unlink c name s) = Ret ()" "mq_obj (mqtab s1 ! i) = mq_obj (mqtab s ! i)" "users (mqtab s1 ! i) = users (mqtab s ! i)"
    "mq_open K' c name fl attr s1 = (Err (if has_excl fl then EEXIST else EINVAL), s1)"
    "mq_obj (mqtab s2 ! i) = NoQueue" "\<forall>j. j \<noteq> i \<longrightarrow> mqtab s2 ! j = mqtab s ! j"
    "mq_open K' c name fl attr s2 = (Err ENOENT, s2)"
proof -
  note inv = mq_reach_inv [OF assms(1)] and f = find_name_Some [OF assms(2)]
  have e: "mq_unlink c name s = (Ret (), s\<lparr>mqtab := (mqtab s)[i := (mqtab s ! i)\<lparr>unlinkme := True\<rparr>]\<rparr>)"
    using assms(2,4) by (simp add: mq_unlink_def)
  have s1: "mqtab s1 = (mqtab s)[i := (mqtab s ! i)\<lparr>unlinkme := True\<rparr>]" by (simp add: assms(9) e)
  show "fst (mq_unlink c name s) = Ret ()" "mq_obj (mqtab s1 ! i) = mq_obj (mqtab s ! i)" "users (mqtab s1 ! i) = users (mqtab s ! i)"
    using f(1) by (simp_all add: e s1)
  have nm: "mq_name (mqtab s1 ! j) = mq_name (mqtab s ! j)" for j using f(1) by (cases "j = i") (simp_all add: s1)
  then have fn: "find_name c name (mqtab s1) = Some i" using assms(2) by (simp add: find_name_def s1)
  then show "mq_open K' c name fl attr s1 = (Err (if has_excl fl then EEXIST else EINVAL), s1)"
    using assms(7) f(1) by (simp add: mq_open_def s1)
  have inv1: "mq_inv c s1" using mq_unlink_inv [OF inv assms(3)] by (simp add: assms(9))
  have "us \<noteq> []" using assms(4,6) by auto
  then have c: "length (mqtab s2) = length (mqtab s1)" "mq_obj (mqtab s2 ! i) = NoQueue" "mq_name (mqtab s2 ! i) = []" "\<And>j. j \<noteq> i \<Longrightarrow> mqtab s2 ! j = mqtab s1 ! j"
    using close_all_frees [OF inv1, of i us] f(1) assms(5,6,10) by (simp_all add: s1)
  then show "mq_obj (mqtab s2 ! i) = NoQueue" "\<forall>j. j \<noteq> i \<longrightarrow> mqtab s2 ! j = mqtab s ! j" by (simp_all add: s1)
  have "find_name c name (mqtab s2) = None" by (rule name_gone [OF inv1 fn assms(3) c(1,3)]) (simp add: c(4))
  then show "mq_open K' c name fl attr s2 = (Err ENOENT, s2)" using assms(7,8) by (simp add: mq_open_def)
qed

text \<open>
  C32: unlinking a queue that is in use succeeds and leaves it to its users, while its name can no longer be opened
  (\<^verbatim>\<open>EINVAL\<close>, or \<^verbatim>\<open>EEXIST\<close> for an exclusive open); once all its users have closed it, in any order, its entry is
  free again, the entries of all other queues are as before, and the name is unknown (\<^verbatim>\<open>ENOENT\<close> unless the open creates it).
\<close>

theorem mq_unlink_life:
  assumes "mq_reach K c s" "find_name c name (mqtab s) = Some i" "name \<noteq> []" "users (mqtab s ! i) \<noteq> []"
    and "distinct us" "set us = set (users (mqtab s ! i))" "has_rdonly fl" "\<not> has_creat fl"
    and "s1 = snd (mq_unlink c name s)" "s2 = close_all us s1"
  shows "fst (mq_unlink c name s) = Ret () \<and> mq_obj (mqtab s1 ! i) = mq_obj (mqtab s ! i) \<and> users (mqtab s1 ! i) = users (mqtab s ! i) \<and>
    mq_open K' c name fl attr s1 = (Err (if has_excl fl then EEXIST else EINVAL), s1) \<and>
    mq_obj (mqtab s2 ! i) = NoQueue \<and> (\<forall>j. j \<noteq> i \<longrightarrow> mqtab s2 ! j = mqtab s ! j) \<and> mq_open K' c name fl attr s2 = (Err ENOENT, s2)"
  using unlink_in_use [OF assms] by blast

definition demo_open :: "(bytes \<times> u32) list mqstate" where
  "demo_open = snd (mq_call list_queue demo_cfg (COpen [113] rw_create None) demo_start)"

lemma demo_open_reach: "mq_reach list_queue demo_cfg demo_open"
  unfolding demo_open_def by (rule mq_reach.call [OF demo_reach]) (use demo_mem in \<open>simp add: call_ok_def\<close>)

lemma demo_open_tab: "mqtab demo_open = [\<lparr>mq_name = [113], mq_obj = Queue [], maxmsg = 4, msgsize = 128, unlinkme = False, users = [2], sigev = None, notify = None\<rparr>, empty_ent]"
  by (simp add: demo_open_def mq_call_def lift_out_def mq_open_def mq_create_def demo_start_def demo_cfg_def rw_create_def find_name_def
      find_free_def empty_ent_def mq_malloc_def list_queue_def numeral_2_eq_2)

theorem mq_unlink_life_witness:
  "fst (mq_unlink demo_cfg [113] demo_open) = Ret () \<and> mq_obj (mqtab (close_all [2] (snd (mq_unlink demo_cfg [113] demo_open))) ! 0) = NoQueue"
  using mq_unlink_life [OF demo_open_reach, of "[113]" 0 "[2]" "rw_create\<lparr>has_creat := False\<rparr>" "snd (mq_unlink demo_cfg [113] demo_open)"
      "close_all [2] (snd (mq_unlink demo_cfg [113] demo_open))"]
  by (simp add: demo_open_tab find_name_def rw_create_def demo_cfg_def)

subsection \<open>Notification\<close>

text \<open>
  A registration is for one event: no other can be made before it fires, the event is queued once, a second arrival queues
  nothing, and afterwards a new registration is possible.
\<close>

theorem mq_notify_once:
  assumes "mq_inv c s" "mqusers s u = Some usr" "mqusers s v = Some usr'" "tabent usr' = tabent usr" "sigev (mqtab s ! tabent usr) = None"
    and "s1 = snd (mq_notify u (Some ev) s)" "s2 = notifyme u s1"
  shows "fst (mq_notify u (Some ev) s) = Ret ()" "mq_notify v (Some ev') s1 = (Err EBUSY, s1)" "queued s2 = queued s @ [ev]"
    "notifyme u s2 = s2" "fst (mq_notify v (Some ev') s2) = Ret ()"
proof -
  let ?i = "tabent usr"
  note i = mq_invD(2) [OF assms(1,2)] and h = mq_invD(4) [OF assms(1,2)]
  have s1: "mq_notify u (Some ev) s = (Ret (), s1)"
    "s1 = s\<lparr>mqtab := (mqtab s)[?i := (mqtab s ! ?i)\<lparr>sigev := Some ev, notify := Some u\<rparr>], mqusers := (mqusers s)(u := Some (usr\<lparr>notifieruser := True\<rparr>))\<rparr>"
    using assms(2,5) h by (simp_all add: assms(6) mq_notify_def Let_def)
  have s2: "s2 = s1\<lparr>mqtab := (mqtab s1)[?i := (mqtab s1 ! ?i)\<lparr>notify := None, sigev := None\<rparr>], mqusers := (mqusers s1)(u := Some (usr\<lparr>notifieruser := False\<rparr>)), queued := queued s @ [ev]\<rparr>"
    using i by (simp add: assms(7) notifyme_def s1(2))
  have v: "\<exists>w. mqusers s1 v = Some w \<and> tabent w = ?i" "\<exists>w. mqusers s2 v = Some w \<and> tabent w = ?i" using assms(2-4) by (simp_all add: s2 s1(2))
  show "fst (mq_notify u (Some ev) s) = Ret ()" by (simp add: s1(1))
  show "mq_notify v (Some ev') s1 = (Err EBUSY, s1)" using v(1) i by (auto simp: mq_notify_def Let_def s1(2))
  show "queued s2 = queued s @ [ev]" by (simp add: s2)
  show "notifyme u s2 = s2" using i by (simp add: notifyme_def s2 s1(2))
  have "has_queue ?i s2" using h i by (simp add: has_queue_def s2 s1(2))
  then show "fst (mq_notify v (Some ev') s2) = Ret ()" using v(2) i by (auto simp: mq_notify_def Let_def s2 s1(2))
qed

subsection \<open>Defects\<close>

text \<open>
  The field \<^verbatim>\<open>notifieruser\<close> of a descriptor is set when the queue is created, but not by an open of an existing queue. If the
  fresh memory happens to hold a true value there, closing the descriptor removes a registration that another one made.
\<close>

lemma stale_notifier_deregisters:
  assumes "mq_inv c s" "find_name c name (mqtab s) = Some i" "\<not> unlinkme (mqtab s ! i)" "name \<noteq> []" "has_rdonly fl" "\<not> has_excl fl"
    and "mallocs s = p # ps" "p \<noteq> 0" "stale s p"
  shows "sigev (mqtab (snd (mq_close p (snd (mq_open K c name fl attr s)))) ! i) = None"
proof -
  note f = find_name_Some [OF assms(2)]
  have ne: "mq_name (mqtab s ! i) \<noteq> []" using f(2) assms(4) mq_invD(5) [OF assms(1)] by auto
  then have "has_queue i s" using core_okD(1,2) [OF mq_invD(1) [OF assms(1) f(1)]] by (cases "mq_obj (mqtab s ! i)") (auto simp: core_def has_queue_def)
  then show ?thesis using assms f(1) by (simp add: mq_open_def mq_malloc_def mq_close_def has_queue_def)
qed

text \<open>
  The comment at the deletion of a queue says that its emptied name matches nothing the user sends. The empty name matches
  it, and unlinking it then destroys a queue that does not exist.
\<close>

lemma unlink_empty_name:
  assumes "mqtab s \<noteq> []" "mq_name (mqtab s ! 0) = []" "mq_obj (mqtab s ! 0) = NoQueue" "users (mqtab s ! 0) = []"
  shows "fst (mq_unlink c [] s) = Undefined"
proof -
  have "find_name c [] (mqtab s) = Some 0" using assms(1,2) by (simp add: find_name_def upt_conv_Cons)
  then show ?thesis using assms by (simp add: mq_unlink_def do_mq_unlink_def)
qed

text \<open>When the kernel's queue finds no memory, the entry keeps a pointer to the freed queue and is never found free again.\<close>

lemma failed_create_loses_entry:
  assumes "find_free (mqtab s) = Some i" "mallocs s = p # ps" "p \<noteq> 0" "\<And>m n. fst (q_new K m n) = NOMEM"
    and "s' = snd (mq_create K c name fl None s)"
  shows "fst (mq_create K c name fl None s) = Err ENOSPC" "mq_obj (mqtab s' ! i) = Dangling" "find_free (mqtab s') \<noteq> Some i"
proof -
  note free = find_free_Some [OF assms(1)]
  have "mq_create K c name fl None s = (Err ENOSPC, s\<lparr>mallocs := ps, mqtab := (mqtab s)[i := (mqtab s ! i)\<lparr>notify := None, mq_obj := Dangling\<rparr>]\<rparr>)"
    using assms(1-4) free(1) by (simp add: mq_create_def mq_malloc_def case_prod_beta Let_def)
  then show e: "fst (mq_create K c name fl None s) = Err ENOSPC" "mq_obj (mqtab s' ! i) = Dangling" using free(1) by (simp_all add: assms(5))
  show "find_free (mqtab s') \<noteq> Some i" using e(2) find_free_Some(2) [of "mqtab s'" i] by auto
qed

end
