(* ===== verification/Posix_Thread.thy ===== *)
theory Posix_Thread
  imports Posix_Base Nios2_Hal
begin

text \<open>
  POSIX threads (\<^verbatim>\<open>tools/gcc4libstdxx/ecos/compat/posix/current/src/pthread.cxx\<close>): the table of threads, their creation, end,
  joining and detaching, attributes, thread-specific data, cancellation.

  A pointer to a \<^verbatim>\<open>pthread_info\<close> is its index in the table; the calling thread is an argument (\<open>None\<close>: not
  a POSIX thread). The state is extensible, signals and timers add to it. What is asked of the kernel is a list of calls
  (\<open>klog\<close>). Thread stacks come from \<open>pmallocs\<close>, the results of successive allocations. \<open>lag\<close> tells how often the reaper has to yield until
  a thread that ended has left the kernel too (\<open>None\<close>: it never does). Functions of the program (clean-up routines,
  destructors) are a parameter \<open>run\<close> that changes the state or does not return.
\<close>

subsection \<open>Data\<close>

record pcfg =
  PTHREAD_KEYS_MAX :: nat
  PTHREAD_STACK_MIN :: u32
  PTHREAD_DESTRUCTOR_ITERATIONS :: nat
  INFO_SIZE :: u32
  CYG_THREAD_MIN_PRIORITY :: int
  CYG_THREAD_MAX_PRIORITY :: int
  SCHED_OTHER :: int
  SCHED_FIFO :: int
  SCHED_RR :: int

definition PTHREAD_CREATE_JOINABLE :: int where "PTHREAD_CREATE_JOINABLE = 1"
definition PTHREAD_CREATE_DETACHED :: int where "PTHREAD_CREATE_DETACHED = 2"
definition PTHREAD_SCOPE_SYSTEM :: int where "PTHREAD_SCOPE_SYSTEM = 1"
definition PTHREAD_SCOPE_PROCESS :: int where "PTHREAD_SCOPE_PROCESS = 2"
definition PTHREAD_INHERIT_SCHED :: int where "PTHREAD_INHERIT_SCHED = 1"
definition PTHREAD_EXPLICIT_SCHED :: int where "PTHREAD_EXPLICIT_SCHED = 2"
definition PTHREAD_CANCEL_ENABLE :: int where "PTHREAD_CANCEL_ENABLE = 1"
definition PTHREAD_CANCEL_DISABLE :: int where "PTHREAD_CANCEL_DISABLE = 2"
definition PTHREAD_CANCEL_ASYNCHRONOUS :: int where "PTHREAD_CANCEL_ASYNCHRONOUS = 1"
definition PTHREAD_CANCEL_DEFERRED :: int where "PTHREAD_CANCEL_DEFERRED = 2"

lemmas pthread_constants [simp] =
  PTHREAD_CREATE_JOINABLE_def PTHREAD_CREATE_DETACHED_def PTHREAD_SCOPE_SYSTEM_def PTHREAD_SCOPE_PROCESS_def
  PTHREAD_INHERIT_SCHED_def PTHREAD_EXPLICIT_SCHED_def PTHREAD_CANCEL_ENABLE_def PTHREAD_CANCEL_DISABLE_def
  PTHREAD_CANCEL_ASYNCHRONOUS_def PTHREAD_CANCEL_DEFERRED_def

record pthread_attr =
  detachstate :: int
  scope :: int
  inheritsched :: int
  schedpolicy :: int
  sched_priority :: int
  stackaddr_valid :: bool
  stackaddr :: u32
  stacksize_valid :: bool
  stacksize :: u32

datatype tstate = FREE | DETACHED | RUNNING | JOIN | EXITED

record pthread_info =
  state :: tstate
  cancelstate :: int
  canceltype :: int
  cancelpending :: bool
  freestack :: bool
  tid :: u32
  tattr :: pthread_attr
  retval :: nat
  start_routine :: nat
  start_arg :: nat
  tname :: string
  stackmem :: u32
  cancelbuffer :: "(nat \<times> nat \<times> nat) list"
  sigpending :: u32
  sigmask :: u32
  thread_data :: "nat list option"

datatype kcall =
    KCreate u32 int u32 u32 | KDestroy u32 | KResume u32 | KPriority u32 int | KYield | KRelease u32 | KAsr u32 | KTimeslice u32 bool
  | KBroadcast u32 | KFree u32 | KExit u32 | KExitProcess

record pthreads =
  thread_table :: "pthread_info option list"
  pthread_count :: int
  pthreads_exited :: int
  pthreads_tobejoined :: int
  thread_key :: "u32 list"
  key_destructor :: "nat list"
  thread_info_next :: nat
  thread_id_cookie :: u32
  pmallocs :: "u32 list"
  lag :: "u32 \<Rightarrow> nat option"
  klog :: "kcall list"

abbreviation info :: "nat \<Rightarrow> 'a pthreads_scheme \<Rightarrow> pthread_info" where
  "info i s \<equiv> the (thread_table s ! i)"

abbreviation (input) upd_thread :: "nat \<Rightarrow> (pthread_info \<Rightarrow> pthread_info) \<Rightarrow> 'a pthreads_scheme \<Rightarrow> 'a pthreads_scheme" where
  "upd_thread i f s \<equiv> s\<lparr>thread_table := (thread_table s)[i := Some (f (info i s))]\<rparr>"

abbreviation (input) kcalls :: "kcall list \<Rightarrow> 'a pthreads_scheme \<Rightarrow> 'a pthreads_scheme" where
  "kcalls ks s \<equiv> s\<lparr>klog := klog s @ ks\<rparr>"

subsection \<open>Identifiers\<close>

definition THREAD_ID_COOKIE_INC :: u32 where
  "THREAD_ID_COOKIE_INC = 0x400"

definition THREAD_ID_COOKIE_MASK :: u32 where
  "THREAD_ID_COOKIE_MASK = THREAD_ID_COOKIE_INC - 1"

text \<open>The thread of an identifier; an index beyond the table reads foreign memory. No thread is \<open>ESRCH\<close> in every caller.\<close>

definition pthread_info_id :: "u32 \<Rightarrow> 'a pthreads_scheme \<Rightarrow> nat outcome" where
  "pthread_info_id th s =
     (let index = unat (th AND THREAD_ID_COOKIE_MASK)
      in if length (thread_table s) \<le> index then Undefined
         else
           (case thread_table s ! index of
              None \<Rightarrow> Err ESRCH
            | Some t \<Rightarrow>
                if state t = FREE \<or> state t = EXITED then Err ESRCH
                else if tid t \<noteq> th then Err ESRCH
                else Ret index))"

definition checkforcancel :: "nat option \<Rightarrow> 'a pthreads_scheme \<Rightarrow> bool" where
  "checkforcancel self s =
     (case self of
        None \<Rightarrow> False
      | Some i \<Rightarrow> cancelpending (info i s) \<and> cancelstate (info i s) = PTHREAD_CANCEL_ENABLE)"

definition pthread_self :: "nat \<Rightarrow> 'a pthreads_scheme \<Rightarrow> u32" where
  "pthread_self i s = tid (info i s)"

definition pthread_equal :: "u32 \<Rightarrow> u32 \<Rightarrow> bool" where
  "pthread_equal t1 t2 = (t1 = t2)"

subsection \<open>The reaper\<close>

definition reap_thread :: "int \<Rightarrow> nat \<Rightarrow> nat \<Rightarrow> 'a pthreads_scheme \<Rightarrow> 'a pthreads_scheme" where
  "reap_thread prio yields i s =
     (let t = info i s;
          ks = concat (replicate yields [KPriority (tid t) prio, KYield]) @ [KDestroy (tid t)] @ (if freestack t then [KFree (stackmem t)] else [])
      in s\<lparr>klog := klog s @ ks, thread_table := (thread_table s)[i := None],
           pthread_count := pthread_count s - 1, pthreads_exited := pthreads_exited s - 1\<rparr>)"

fun reap_loop :: "int \<Rightarrow> nat list \<Rightarrow> 'a pthreads_scheme \<Rightarrow> 'a pthreads_scheme option" where
  "reap_loop prio [] s = Some s"
| "reap_loop prio (i # is) s =
     (if pthreads_exited s = 0 then Some s
      else
        (case thread_table s ! i of
           None \<Rightarrow> reap_loop prio is s
         | Some t \<Rightarrow>
             if state t = EXITED then
               (case lag s (tid t) of None \<Rightarrow> None | Some n \<Rightarrow> reap_loop prio is (reap_thread prio n i s))
             else reap_loop prio is s))"

definition pthread_reap :: "int \<Rightarrow> 'a pthreads_scheme \<Rightarrow> 'a pthreads_scheme option" where
  "pthread_reap prio s = reap_loop prio [0..<length (thread_table s)] s"

subsection \<open>Attributes\<close>

definition attr_default :: "pcfg \<Rightarrow> pthread_attr" where
  "attr_default c =
     \<lparr>detachstate = PTHREAD_CREATE_JOINABLE, scope = PTHREAD_SCOPE_SYSTEM, inheritsched = PTHREAD_INHERIT_SCHED, schedpolicy = SCHED_OTHER c,
      sched_priority = 0, stackaddr_valid = False, stackaddr = 0, stacksize_valid = False, stacksize = 0\<rparr>"

definition pthread_attr_setdetachstate :: "int \<Rightarrow> pthread_attr \<Rightarrow> unit outcome \<times> pthread_attr" where
  "pthread_attr_setdetachstate d a =
     (if d = PTHREAD_CREATE_JOINABLE \<or> d = PTHREAD_CREATE_DETACHED then (Ret (), a\<lparr>detachstate := d\<rparr>) else (Err EINVAL, a))"

definition pthread_attr_setscope :: "int \<Rightarrow> pthread_attr \<Rightarrow> unit outcome \<times> pthread_attr" where
  "pthread_attr_setscope x a =
     (if x = PTHREAD_SCOPE_SYSTEM \<or> x = PTHREAD_SCOPE_PROCESS then
        if x = PTHREAD_SCOPE_PROCESS then (Err ENOTSUP, a) else (Ret (), a\<lparr>scope := x\<rparr>)
      else (Err EINVAL, a))"

definition pthread_attr_setinheritsched :: "int \<Rightarrow> pthread_attr \<Rightarrow> unit outcome \<times> pthread_attr" where
  "pthread_attr_setinheritsched x a =
     (if x = PTHREAD_INHERIT_SCHED \<or> x = PTHREAD_EXPLICIT_SCHED then (Ret (), a\<lparr>inheritsched := x\<rparr>) else (Err EINVAL, a))"

definition policy_ok :: "pcfg \<Rightarrow> int \<Rightarrow> bool" where
  "policy_ok c p \<longleftrightarrow> p = SCHED_OTHER c \<or> p = SCHED_FIFO c \<or> p = SCHED_RR c"

definition pthread_attr_setschedpolicy :: "pcfg \<Rightarrow> int \<Rightarrow> pthread_attr \<Rightarrow> unit outcome \<times> pthread_attr" where
  "pthread_attr_setschedpolicy c p a = (if policy_ok c p then (Ret (), a\<lparr>schedpolicy := p\<rparr>) else (Err EINVAL, a))"

definition pthread_attr_setschedparam :: "int \<Rightarrow> pthread_attr \<Rightarrow> unit outcome \<times> pthread_attr" where
  "pthread_attr_setschedparam p a = (Ret (), a\<lparr>sched_priority := p\<rparr>)"

definition pthread_attr_setstackaddr :: "u32 \<Rightarrow> pthread_attr \<Rightarrow> unit outcome \<times> pthread_attr" where
  "pthread_attr_setstackaddr x a = (Ret (), a\<lparr>stackaddr := x, stackaddr_valid := True\<rparr>)"

definition pthread_attr_getstackaddr :: "pthread_attr \<Rightarrow> u32 outcome" where
  "pthread_attr_getstackaddr a = (if stackaddr_valid a then Ret (stackaddr a) else Err EINVAL)"

definition pthread_attr_setstacksize :: "pcfg \<Rightarrow> u32 \<Rightarrow> pthread_attr \<Rightarrow> unit outcome \<times> pthread_attr" where
  "pthread_attr_setstacksize c x a =
     (if x < PTHREAD_STACK_MIN c then (Err EINVAL, a) else (Ret (), a\<lparr>stacksize_valid := True, stacksize := x\<rparr>))"

definition pthread_attr_getstacksize :: "pthread_attr \<Rightarrow> u32 outcome" where
  "pthread_attr_getstacksize a = (if \<not> stacksize_valid a then Err EINVAL else Ret (stacksize a))"

text \<open>The other attributes are always valid.\<close>

definition pthread_attr_getdetachstate :: "pthread_attr \<Rightarrow> int outcome" where
  "pthread_attr_getdetachstate a = Ret (detachstate a)"

definition pthread_attr_getscope :: "pthread_attr \<Rightarrow> int outcome" where
  "pthread_attr_getscope a = Ret (scope a)"

definition pthread_attr_getinheritsched :: "pthread_attr \<Rightarrow> int outcome" where
  "pthread_attr_getinheritsched a = Ret (inheritsched a)"

definition pthread_attr_getschedpolicy :: "pthread_attr \<Rightarrow> int outcome" where
  "pthread_attr_getschedpolicy a = Ret (schedpolicy a)"

definition pthread_attr_getschedparam :: "pthread_attr \<Rightarrow> int outcome" where
  "pthread_attr_getschedparam a = Ret (sched_priority a)"

subsection \<open>Creation\<close>

fun name_digits :: "nat \<Rightarrow> u32 \<Rightarrow> string \<Rightarrow> string" where
  "name_digits 0 th acc = acc"
| "name_digits (Suc k) th acc = name_digits k (drop_bit 4 th) (hexdigit (unat (th AND 0xF)) # acc)"

definition thread_name :: "u32 \<Rightarrow> string" where
  "thread_name th = ''pthread.'' @ name_digits 8 th []"

definition PTHREAD_ECOS_PRIORITY :: "pcfg \<Rightarrow> int \<Rightarrow> int" where
  "PTHREAD_ECOS_PRIORITY c pri = CYG_THREAD_MIN_PRIORITY c - pri"

definition pthread_malloc :: "'a pthreads_scheme \<Rightarrow> u32 \<times> 'a pthreads_scheme" where
  "pthread_malloc s = (case pmallocs s of [] \<Rightarrow> (0, s) | p # ps \<Rightarrow> (p, s\<lparr>pmallocs := ps\<rparr>))"

text \<open>Signal fields of a new thread; the mask is its creator's.\<close>

definition cyg_posix_thread_siginit :: "pthread_info option \<Rightarrow> pthread_info \<Rightarrow> pthread_info" where
  "cyg_posix_thread_siginit parent t =
     t\<lparr>sigpending := 0, sigmask := (case parent of None \<Rightarrow> 0 | Some p \<Rightarrow> sigmask p)\<rparr>"

definition install_thread :: "pcfg \<Rightarrow> nat option \<Rightarrow> pthread_attr \<Rightarrow> bool \<Rightarrow> u32 \<Rightarrow> u32 \<Rightarrow> nat \<Rightarrow> nat \<Rightarrow> nat \<Rightarrow> 'a pthreads_scheme \<Rightarrow> u32 \<times> 'a pthreads_scheme" where
  "install_thread c self a fs sm ssize start arg i s =
     (let stackbase = sm + INFO_SIZE c;
          ssize1 = ssize - INFO_SIZE c;
          cookie = thread_id_cookie s + THREAD_ID_COOKIE_INC;
          th = of_nat i + cookie;
          t = \<lparr>state = (if detachstate a = PTHREAD_CREATE_JOINABLE then RUNNING else DETACHED), cancelstate = PTHREAD_CANCEL_ENABLE,
               canceltype = PTHREAD_CANCEL_DEFERRED, cancelpending = False, freestack = fs, tid = th, tattr = a, retval = 0, start_routine = start,
               start_arg = arg, tname = thread_name th, stackmem = sm, cancelbuffer = [], sigpending = 0, sigmask = 0, thread_data = None\<rparr>;
          t1 = cyg_posix_thread_siginit (map_option (\<lambda>j. info j s) self) t;
          ks = [KCreate th (PTHREAD_ECOS_PRIORITY c (sched_priority a)) stackbase ssize1, KTimeslice th (schedpolicy a \<noteq> SCHED_FIFO c), KResume th]
      in (th, s\<lparr>thread_table := (thread_table s)[i := Some t1], thread_info_next := i, thread_id_cookie := cookie,
                pthread_count := pthread_count s + 1, klog := klog s @ ks\<rparr>))"

definition pthread_create :: "pcfg \<Rightarrow> int \<Rightarrow> nat option \<Rightarrow> bool \<Rightarrow> pthread_attr option \<Rightarrow> nat \<Rightarrow> nat \<Rightarrow> 'a pthreads_scheme \<Rightarrow> (u32 outcome \<times> 'a pthreads_scheme) option" where
  "pthread_create c prio self has_thread attr start arg s =
     (if \<not> has_thread \<or> start = 0 then Some (Err EINVAL, s)
      else
        (let a0 = (case attr of None \<Rightarrow> attr_default c | Some a \<Rightarrow> a)
         in if inheritsched a0 = PTHREAD_INHERIT_SCHED \<and> self = None then Some (Undefined, s)
            else
              (let a = (if inheritsched a0 = PTHREAD_INHERIT_SCHED
                        then a0\<lparr>schedpolicy := schedpolicy (tattr (info (the self) s)), sched_priority := sched_priority (tattr (info (the self) s))\<rparr>
                        else a0);
                   ssize = (if stacksize_valid a then stacksize a else PTHREAD_STACK_MIN c);
                   fs = (\<not> stackaddr_valid a);
                   (sm, s1) = (if stackaddr_valid a then (stackaddr a - ssize, s) else pthread_malloc s)
               in if fs \<and> sm = 0 then Some (Err EAGAIN, s1)
                  else
                    do {
                      s2 \<leftarrow> pthread_reap prio s1;
                      slot \<leftarrow> slot_search (\<lambda>i. thread_table s2 ! i \<noteq> None) (length (thread_table s2)) (thread_info_next s2) (thread_info_next s2);
                      case slot of
                        None \<Rightarrow> Some (Err ENOMEM, if fs then kcalls [KFree sm] s2 else s2)
                      | Some i \<Rightarrow> (let (th, s3) = install_thread c self a fs sm ssize start arg i s2 in Some (Ret th, s3))
                    })))"

subsection \<open>Cancellation\<close>

definition pthread_setcancelstate :: "int \<Rightarrow> nat \<Rightarrow> 'a pthreads_scheme \<Rightarrow> int outcome \<times> 'a pthreads_scheme" where
  "pthread_setcancelstate st i s =
     (if st \<noteq> PTHREAD_CANCEL_ENABLE \<and> st \<noteq> PTHREAD_CANCEL_DISABLE then (Err EINVAL, s)
      else (Ret (cancelstate (info i s)), upd_thread i (\<lambda>t. t\<lparr>cancelstate := st\<rparr>) s))"

definition pthread_setcanceltype :: "int \<Rightarrow> nat \<Rightarrow> 'a pthreads_scheme \<Rightarrow> int outcome \<times> 'a pthreads_scheme" where
  "pthread_setcanceltype ty i s =
     (if ty \<noteq> PTHREAD_CANCEL_ASYNCHRONOUS \<and> ty \<noteq> PTHREAD_CANCEL_DEFERRED then (Err EINVAL, s)
      else (Ret (canceltype (info i s)), upd_thread i (\<lambda>t. t\<lparr>canceltype := ty\<rparr>) s))"

definition pthread_cancel :: "u32 \<Rightarrow> 'a pthreads_scheme \<Rightarrow> unit outcome \<times> 'a pthreads_scheme" where
  "pthread_cancel th s =
     (case pthread_info_id th s of
        Ret i \<Rightarrow>
          (let s1 = upd_thread i (\<lambda>t. t\<lparr>cancelpending := True\<rparr>) s;
               t = info i s1;
               ks = (if cancelstate t = PTHREAD_CANCEL_ENABLE then
                       if canceltype t = PTHREAD_CANCEL_ASYNCHRONOUS then [KAsr (tid t), KRelease (tid t)]
                       else if canceltype t = PTHREAD_CANCEL_DEFERRED then [KRelease (tid t)] else []
                     else [])
           in (Ret (), kcalls ks s1))
      | Err e \<Rightarrow> (Err e, s) | Undefined \<Rightarrow> (Undefined, s) | Cancelled \<Rightarrow> (Cancelled, s))"

definition pthread_cleanup_push_inner :: "nat \<Rightarrow> nat \<Rightarrow> nat \<Rightarrow> nat \<Rightarrow> 'a pthreads_scheme \<Rightarrow> 'a pthreads_scheme" where
  "pthread_cleanup_push_inner buf routine arg i s = upd_thread i (\<lambda>t. t\<lparr>cancelbuffer := (buf, routine, arg) # cancelbuffer t\<rparr>) s"

definition pthread_cleanup_pop_inner :: "(nat \<Rightarrow> nat \<Rightarrow> 'a pthreads_scheme \<Rightarrow> 'a pthreads_scheme option) \<Rightarrow> nat \<Rightarrow> bool \<Rightarrow> nat \<Rightarrow> 'a pthreads_scheme \<Rightarrow> 'a pthreads_scheme option" where
  "pthread_cleanup_pop_inner run buf execute i s =
     (case cancelbuffer (info i s) of
        (b, routine, arg) # bs \<Rightarrow>
          if b = buf then
            (let s1 = upd_thread i (\<lambda>t. t\<lparr>cancelbuffer := bs\<rparr>) s in if execute then run routine arg s1 else Some s1)
          else Some s
      | [] \<Rightarrow> Some s)"

subsection \<open>Thread-specific data\<close>

definition key_free :: "nat \<Rightarrow> 'a pthreads_scheme \<Rightarrow> bool" where
  "key_free key s = bit (thread_key s ! (key div 32)) (key mod 32)"

definition key_in_map :: "nat \<Rightarrow> 'a pthreads_scheme \<Rightarrow> bool" where
  "key_in_map key s \<longleftrightarrow> key div 32 < length (thread_key s)"

definition clear_key_data :: "nat \<Rightarrow> pthread_info option \<Rightarrow> pthread_info option" where
  "clear_key_data k = map_option (\<lambda>t. t\<lparr>thread_data := map_option (\<lambda>d. d[k := 0]) (thread_data t)\<rparr>)"

definition pthread_key_create :: "nat \<Rightarrow> 'a pthreads_scheme \<Rightarrow> nat outcome \<times> 'a pthreads_scheme" where
  "pthread_key_create destructor s =
     (case find (\<lambda>i. thread_key s ! i \<noteq> 0) [0..<length (thread_key s)] of
        None \<Rightarrow> (Err EAGAIN, s)
      | Some i \<Rightarrow>
          (let b = unat (hal_lsbit_index (thread_key s ! i));
               k = b + i * 32
           in (Ret k, s\<lparr>thread_key := (thread_key s)[i := thread_key s ! i AND NOT (push_bit b 1)],
                        key_destructor := (key_destructor s)[k := destructor],
                        thread_table := map (clear_key_data k) (thread_table s)\<rparr>)))"

definition pthread_key_delete :: "nat \<Rightarrow> 'a pthreads_scheme \<Rightarrow> unit outcome \<times> 'a pthreads_scheme" where
  "pthread_key_delete key s =
     (if \<not> key_in_map key s then (Undefined, s)
      else (Ret (), s\<lparr>thread_key := (thread_key s)[key div 32 := thread_key s ! (key div 32) OR push_bit (key mod 32) 1]\<rparr>))"

definition pthread_setspecific :: "pcfg \<Rightarrow> nat \<Rightarrow> nat \<Rightarrow> nat \<Rightarrow> 'a pthreads_scheme \<Rightarrow> unit outcome \<times> 'a pthreads_scheme" where
  "pthread_setspecific c key ptr i s =
     (if \<not> key_in_map key s then (Undefined, s)
      else if key_free key s then (Err EINVAL, s)
      else
        (let d = (case thread_data (info i s) of None \<Rightarrow> replicate (PTHREAD_KEYS_MAX c) 0 | Some d \<Rightarrow> d)
         in (Ret (), upd_thread i (\<lambda>t. t\<lparr>thread_data := Some (d[key := ptr])\<rparr>) s)))"

definition pthread_getspecific :: "nat \<Rightarrow> nat \<Rightarrow> 'a pthreads_scheme \<Rightarrow> nat outcome" where
  "pthread_getspecific key i s =
     (if \<not> key_in_map key s then Undefined
      else if key_free key s then Ret 0
      else (case thread_data (info i s) of None \<Rightarrow> Ret 0 | Some d \<Rightarrow> Ret (d ! key)))"

subsection \<open>The end of a thread\<close>

partial_function (option) run_cleanup :: "(nat \<Rightarrow> nat \<Rightarrow> 'a pthreads_scheme \<Rightarrow> 'a pthreads_scheme option) \<Rightarrow> nat \<Rightarrow> 'a pthreads_scheme \<Rightarrow> 'a pthreads_scheme option" where
  "run_cleanup run i s =
     (case cancelbuffer (info i s) of
        [] \<Rightarrow> Some s
      | (b, routine, arg) # bs \<Rightarrow>
          do {
            s1 \<leftarrow> run routine arg (upd_thread i (\<lambda>t. t\<lparr>cancelbuffer := bs\<rparr>) s);
            run_cleanup run i s1
          })"

fun destructor_pass :: "(nat \<Rightarrow> nat \<Rightarrow> 'a pthreads_scheme \<Rightarrow> 'a pthreads_scheme option) \<Rightarrow> nat \<Rightarrow> nat list \<Rightarrow> bool \<Rightarrow> 'a pthreads_scheme \<Rightarrow> (bool \<times> 'a pthreads_scheme) option" where
  "destructor_pass run i [] called s = Some (called, s)"
| "destructor_pass run i (key # keys) called s =
     (let d = the (thread_data (info i s))
      in if key_free key s then destructor_pass run i keys called s
         else if key_destructor s ! key = 0 then destructor_pass run i keys called s
         else if d ! key = 0 then destructor_pass run i keys called s
         else
           do {
             s1 \<leftarrow> run (key_destructor s ! key) (d ! key) (upd_thread i (\<lambda>t. t\<lparr>thread_data := Some (d[key := 0])\<rparr>) s);
             destructor_pass run i keys True s1
           })"

text \<open>The rounds that are left; \<^verbatim>\<open>destructor_iterations <= PTHREAD_DESTRUCTOR_ITERATIONS\<close> allows one more than the constant.\<close>

fun destructor_rounds :: "(nat \<Rightarrow> nat \<Rightarrow> 'a pthreads_scheme \<Rightarrow> 'a pthreads_scheme option) \<Rightarrow> nat \<Rightarrow> nat \<Rightarrow> nat \<Rightarrow> 'a pthreads_scheme \<Rightarrow> 'a pthreads_scheme option" where
  "destructor_rounds run kmax i 0 s = Some s"
| "destructor_rounds run kmax i (Suc n) s =
     do {
       (called, s1) \<leftarrow> destructor_pass run i [0..<kmax] False s;
       if called then destructor_rounds run kmax i n s1 else Some s1
     }"

definition thread_finish :: "nat \<Rightarrow> nat \<Rightarrow> 'a pthreads_scheme \<Rightarrow> 'a pthreads_scheme" where
  "thread_finish rv i s =
     (let s1 = upd_thread i (\<lambda>t. t\<lparr>retval := rv\<rparr>) s;
          s2 = (if state (info i s1) = DETACHED
                then (upd_thread i (\<lambda>t. t\<lparr>state := EXITED\<rparr>) s1)\<lparr>pthreads_exited := pthreads_exited s1 + 1\<rparr>
                else (upd_thread i (\<lambda>t. t\<lparr>state := JOIN\<rparr>) s1)\<lparr>pthreads_tobejoined := pthreads_tobejoined s1 + 1\<rparr>);
          call_exit = (pthreads_exited s2 + pthreads_tobejoined s2 = pthread_count s2)
      in kcalls [KBroadcast (tid (info i s2)), if call_exit then KExitProcess else KExit (tid (info i s2))] s2)"

text \<open>The state in which the thread \<open>i\<close> stops.\<close>

definition pthread_exit :: "pcfg \<Rightarrow> (nat \<Rightarrow> nat \<Rightarrow> 'a pthreads_scheme \<Rightarrow> 'a pthreads_scheme option) \<Rightarrow> nat \<Rightarrow> nat \<Rightarrow> 'a pthreads_scheme \<Rightarrow> 'a pthreads_scheme option" where
  "pthread_exit c run rv i s =
     do {
       s1 \<leftarrow> run_cleanup run i (snd (pthread_setcancelstate PTHREAD_CANCEL_DISABLE i s));
       s2 \<leftarrow> (if thread_data (info i s1) \<noteq> None
              then destructor_rounds run (PTHREAD_KEYS_MAX c) i (Suc (PTHREAD_DESTRUCTOR_ITERATIONS c)) s1 else Some s1);
       Some (thread_finish rv i s2)
     }"

text \<open>\<open>canceled\<close> is \<^verbatim>\<open>PTHREAD_CANCELED\<close>. The result tells whether the thread ended.\<close>

definition pthread_testcancel :: "pcfg \<Rightarrow> (nat \<Rightarrow> nat \<Rightarrow> 'a pthreads_scheme \<Rightarrow> 'a pthreads_scheme option) \<Rightarrow> nat \<Rightarrow> nat option \<Rightarrow> 'a pthreads_scheme \<Rightarrow> (bool \<times> 'a pthreads_scheme) option" where
  "pthread_testcancel c run canceled self s =
     (if checkforcancel self s then do { s1 \<leftarrow> pthread_exit c run canceled (the self) s; Some (True, s1) } else Some (False, s))"

definition pthread_entry :: "pcfg \<Rightarrow> (nat \<Rightarrow> nat \<Rightarrow> 'a pthreads_scheme \<Rightarrow> 'a pthreads_scheme option) \<Rightarrow> (nat \<Rightarrow> nat \<Rightarrow> 'a pthreads_scheme \<Rightarrow> (nat \<times> 'a pthreads_scheme) option) \<Rightarrow> nat \<Rightarrow> 'a pthreads_scheme \<Rightarrow> 'a pthreads_scheme option" where
  "pthread_entry c run start i s =
     do {
       (rv, s1) \<leftarrow> start (start_routine (info i s)) (start_arg (info i s)) s;
       pthread_exit c run rv i s1
     }"

subsection \<open>Joining and detaching\<close>

text \<open>
  While a thread waits on a condition variable the others run. What they do is an argument: each wait takes the next of
  a list of functions, which give the result of the wait and the state after it; when none is left the
  wait does not end. The joined thread is known by its table entry and identifier; if that is gone the code
  goes on with freed memory.
\<close>

fun join_wait :: "nat option \<Rightarrow> nat \<Rightarrow> u32 \<Rightarrow> ('a pthreads_scheme \<Rightarrow> bool \<times> 'a pthreads_scheme) list \<Rightarrow> 'a pthreads_scheme \<Rightarrow> (unit outcome \<times> 'a pthreads_scheme) option" where
  "join_wait self j th [] s =
     (case thread_table s ! j of
        None \<Rightarrow> Some (Undefined, s)
      | Some t \<Rightarrow> if tid t \<noteq> th then Some (Undefined, s) else if state t = RUNNING then None else Some (Ret (), s))"
| "join_wait self j th (w # ws) s =
     (case thread_table s ! j of
        None \<Rightarrow> Some (Undefined, s)
      | Some t \<Rightarrow>
          if tid t \<noteq> th then Some (Undefined, s)
          else if state t = RUNNING then
            (let (ok, s1) = w s in if \<not> ok \<and> checkforcancel self s1 then Some (Err EAGAIN, s1) else join_wait self j th ws s1)
          else Some (Ret (), s))"

text \<open>The switch on the state of the thread to be joined.\<close>

definition join_switch :: "nat option \<Rightarrow> nat \<Rightarrow> u32 \<Rightarrow> ('a pthreads_scheme \<Rightarrow> bool \<times> 'a pthreads_scheme) list \<Rightarrow> 'a pthreads_scheme \<Rightarrow> (unit outcome \<times> 'a pthreads_scheme) option" where
  "join_switch self j th ws s =
     (if state (info j s) = RUNNING then
        do {
          (r, s1) \<leftarrow> join_wait self j th ws s;
          Some (if r = Undefined then Undefined else if state (info j s1) = JOIN then r else Err EINVAL, s1)
        }
      else if state (info j s) = JOIN then Some (Ret (), s)
      else Some (Err EINVAL, s))"

definition join_collect :: "int \<Rightarrow> nat \<Rightarrow> 'a pthreads_scheme \<Rightarrow> (nat outcome \<times> 'a pthreads_scheme) option" where
  "join_collect prio j s =
     (let rv = retval (info j s);
          s1 = (upd_thread j (\<lambda>t. t\<lparr>state := EXITED\<rparr>) s)\<lparr>pthreads_exited := pthreads_exited s + 1, pthreads_tobejoined := pthreads_tobejoined s - 1\<rparr>
      in do { s2 \<leftarrow> pthread_reap prio s1; Some (Ret rv, s2) })"

definition pthread_join_locked :: "int \<Rightarrow> nat option \<Rightarrow> u32 \<Rightarrow> ('a pthreads_scheme \<Rightarrow> bool \<times> 'a pthreads_scheme) list \<Rightarrow> 'a pthreads_scheme \<Rightarrow> (nat outcome \<times> 'a pthreads_scheme) option" where
  "pthread_join_locked prio self th ws s =
     do {
       s1 \<leftarrow> pthread_reap prio s;
       case pthread_info_id th s1 of
         Ret j \<Rightarrow>
           if self = Some j then Some (Err EDEADLK, s1)
           else
             do {
               (r, s2) \<leftarrow> join_switch self j th ws s1;
               case r of
                 Ret _ \<Rightarrow> join_collect prio j s2
               | Err e \<Rightarrow> Some (Err e, s2) | Undefined \<Rightarrow> Some (Undefined, s2) | Cancelled \<Rightarrow> Some (Cancelled, s2)
             }
       | Err e \<Rightarrow> Some (Err e, s1) | Undefined \<Rightarrow> Some (Undefined, s1) | Cancelled \<Rightarrow> Some (Cancelled, s1)
     }"

definition pthread_join :: "pcfg \<Rightarrow> (nat \<Rightarrow> nat \<Rightarrow> 'a pthreads_scheme \<Rightarrow> 'a pthreads_scheme option) \<Rightarrow> nat \<Rightarrow> int \<Rightarrow> nat option \<Rightarrow> u32 \<Rightarrow>
    ('a pthreads_scheme \<Rightarrow> bool \<times> 'a pthreads_scheme) list \<Rightarrow> 'a pthreads_scheme \<Rightarrow> (nat outcome \<times> 'a pthreads_scheme) option" where
  "pthread_join c run canceled prio self th ws s =
     do {
       (ended, s1) \<leftarrow> pthread_testcancel c run canceled self s;
       if ended then Some (Cancelled, s1)
       else
         do {
           (r, s2) \<leftarrow> pthread_join_locked prio self th ws s1;
           (ended2, s3) \<leftarrow> pthread_testcancel c run canceled self s2;
           Some (if ended2 then Cancelled else r, s3)
         }
     }"

definition pthread_detach :: "int \<Rightarrow> u32 \<Rightarrow> 'a pthreads_scheme \<Rightarrow> (unit outcome \<times> 'a pthreads_scheme) option" where
  "pthread_detach prio th s =
     (let (ret, s1) =
        (case pthread_info_id th s of
           Ret j \<Rightarrow>
             if state (info j s) = DETACHED then (Err EINVAL, s)
             else (Ret (), kcalls [KBroadcast (tid (info j s))] (upd_thread j (\<lambda>t. t\<lparr>state := DETACHED\<rparr>) s))
         | Err e \<Rightarrow> (Err e, s) | Undefined \<Rightarrow> (Undefined, s) | Cancelled \<Rightarrow> (Cancelled, s))
      in do { s2 \<leftarrow> pthread_reap prio s1; Some (ret, s2) })"

subsection \<open>Scheduling, initialisation\<close>

definition pthread_setschedparam :: "pcfg \<Rightarrow> u32 \<Rightarrow> int \<Rightarrow> int option \<Rightarrow> 'a pthreads_scheme \<Rightarrow> unit outcome \<times> 'a pthreads_scheme" where
  "pthread_setschedparam c th policy param s =
     (if \<not> policy_ok c policy then (Err EINVAL, s)
      else
        (case param of
           None \<Rightarrow> (Err EINVAL, s)
         | Some p \<Rightarrow>
             (case pthread_info_id th s of
                Ret i \<Rightarrow>
                  (Ret (), kcalls [KTimeslice (tid (info i s)) (policy \<noteq> SCHED_FIFO c), KPriority (tid (info i s)) (PTHREAD_ECOS_PRIORITY c p)]
                             (upd_thread i (\<lambda>t. t\<lparr>tattr := (tattr t)\<lparr>schedpolicy := policy, sched_priority := p\<rparr>\<rparr>) s))
              | Err e \<Rightarrow> (Err e, s) | Undefined \<Rightarrow> (Undefined, s) | Cancelled \<Rightarrow> (Cancelled, s))))"

definition pthread_getschedparam :: "u32 \<Rightarrow> 'a pthreads_scheme \<Rightarrow> (int \<times> int) outcome" where
  "pthread_getschedparam th s =
     (case pthread_info_id th s of
        Ret i \<Rightarrow> Ret (schedpolicy (tattr (info i s)), sched_priority (tattr (info i s)))
      | Err e \<Rightarrow> Err e | Undefined \<Rightarrow> Undefined | Cancelled \<Rightarrow> Cancelled)"

text \<open>\<^verbatim>\<open>pthread_once\<close>: the new value of the control variable, and whether the routine is called.\<close>

definition pthread_once :: "int \<Rightarrow> int \<times> bool" where
  "pthread_once once_control = (1, once_control = 0)"

text \<open>
  Releasing a thread that can take one of the signals in \<open>m\<close>. The count of threads left to look at
  stops the search.
\<close>

fun release_loop :: "u32 \<Rightarrow> nat list \<Rightarrow> int \<Rightarrow> 'a pthreads_scheme \<Rightarrow> 'a pthreads_scheme" where
  "release_loop m [] cnt s = s"
| "release_loop m (i # is) cnt s =
     (if cnt \<le> 0 then s
      else
        (case thread_table s ! i of
           None \<Rightarrow> release_loop m is cnt s
         | Some t \<Rightarrow>
             if (state t = FREE \<or> state t = DETACHED \<or> state t = RUNNING) \<and> m AND NOT (sigmask t) \<noteq> 0
             then kcalls [KAsr (tid t), KRelease (tid t)] s
             else release_loop m is (if state t \<noteq> FREE then cnt - 1 else cnt) s))"

definition cyg_posix_pthread_release_thread :: "u32 \<Rightarrow> 'a pthreads_scheme \<Rightarrow> 'a pthreads_scheme" where
  "cyg_posix_pthread_release_thread m s = release_loop m [0..<length (thread_table s)] (pthread_count s) s"

text \<open>Startup: all keys are free, and the main thread is created on its own stack.\<close>

definition main_attr :: "pcfg \<Rightarrow> int \<Rightarrow> u32 \<Rightarrow> u32 \<Rightarrow> pthread_attr" where
  "main_attr c main_priority main_stack main_size =
     snd (pthread_attr_setschedparam main_priority
       (snd (pthread_attr_setschedpolicy c (SCHED_RR c)
         (snd (pthread_attr_setstacksize c main_size
           (snd (pthread_attr_setstackaddr (main_stack + main_size)
             (snd (pthread_attr_setinheritsched PTHREAD_EXPLICIT_SCHED (attr_default c))))))))))"

definition cyg_posix_pthread_start :: "pcfg \<Rightarrow> int \<Rightarrow> int \<Rightarrow> u32 \<Rightarrow> u32 \<Rightarrow> nat \<Rightarrow> 'a pthreads_scheme \<Rightarrow> (u32 outcome \<times> 'a pthreads_scheme) option" where
  "cyg_posix_pthread_start c prio main_priority main_stack main_size call_main s =
     pthread_create c prio None True (Some (main_attr c main_priority main_stack main_size)) call_main 0
       (s\<lparr>thread_key := map (\<lambda>_. NOT 0) (thread_key s)\<rparr>)"

end
