(* ===== verification/Posix_Signal.thy ===== *)
theory Posix_Signal
  imports Posix_Thread
begin

text \<open>
  POSIX signals (\<^verbatim>\<open>tools/gcc4libstdxx/ecos/compat/posix/current/src/signal.cxx\<close>): sets of signals, their generation and
  delivery, handlers and masks. The functions that wait are in \<open>Posix_Wait\<close>.

  The circular list of queued signals is a list from its head, with the pool object of each; the pool of free objects is a list.
  The mutex of the package is its owner: \<open>Some (Some i)\<close> is the POSIX thread \<open>i\<close>, \<open>Some None\<close> another thread. Between
  locking and unlocking no other thread is in the package, so a lock that is taken can only be the caller's own, and
  locking it again blocks for ever (\<open>None\<close>). The handlers of the program are a parameter \<open>H\<close>; calls of handlers, the
  end of the process and broadcasts to waiting threads are recorded in \<open>slog\<close>. Handlers return.
\<close>

definition SIG_DFL :: nat where "SIG_DFL = 1"
definition SIG_IGN :: nat where "SIG_IGN = 2"
definition SI_USER :: int where "SI_USER = 1"
definition SI_QUEUE :: int where "SI_QUEUE = 2"
definition SI_TIMER :: int where "SI_TIMER = 3"
definition SI_EXCEPT :: int where "SI_EXCEPT = 6"
definition SIGALRM :: nat where "SIGALRM = 14"
definition SIGEV_NONE :: int where "SIGEV_NONE = 1"
definition SIGEV_SIGNAL :: int where "SIGEV_SIGNAL = 2"
definition SIGEV_THREAD :: int where "SIGEV_THREAD = 3"

lemmas signal_constants [simp] =
  SIG_DFL_def SIG_IGN_def SI_USER_def SI_QUEUE_def SI_TIMER_def SI_EXCEPT_def SIGALRM_def SIGEV_NONE_def SIGEV_SIGNAL_def SIGEV_THREAD_def

record siginfo =
  si_signo :: nat
  si_code :: int
  si_value :: nat

record sig_action =
  sa_mask :: u32
  sa_siginfo :: bool
  sa_handler :: nat

record signal_state =
  sa :: sig_action
  pending :: "(nat \<times> siginfo) list"

record sigevent =
  sigev_notify :: int
  sigev_signo :: nat
  sigev_value :: nat

datatype scall = SHandler nat siginfo | SExit nat | SBroadcast

record signals = pthreads +
  sig_pending :: u32
  sigstate :: "signal_state list"
  siginfo_next :: "nat list"
  sig_mutex :: "nat option option"
  sigwait_queue :: "nat list"
  sigalrm_armed :: bool
  sigalrm_pending :: bool
  slog :: "scall list"

type_synonym 'a handlers = "nat \<Rightarrow> bool \<Rightarrow> siginfo \<Rightarrow> 'a signals_scheme \<Rightarrow> 'a signals_scheme option"

subsection \<open>Sets of signals\<close>

definition SIGNAL_VALID :: "nat \<Rightarrow> bool" where
  "SIGNAL_VALID sig \<longleftrightarrow> 0 < sig \<and> sig < 32"

definition sigbit :: "nat \<Rightarrow> u32" where
  "sigbit signo = push_bit signo 1"

definition sigemptyset :: u32 where
  "sigemptyset = 0"

definition sigfillset :: u32 where
  "sigfillset = NOT 0"

definition sigaddset :: "nat \<Rightarrow> u32 \<Rightarrow> unit outcome \<times> u32" where
  "sigaddset signo s = (if \<not> SIGNAL_VALID signo then (Err EINVAL, s) else (Ret (), s OR sigbit signo))"

definition sigdelset :: "nat \<Rightarrow> u32 \<Rightarrow> unit outcome \<times> u32" where
  "sigdelset signo s = (if \<not> SIGNAL_VALID signo then (Err EINVAL, s) else (Ret (), s AND NOT (sigbit signo)))"

definition sigismember :: "nat \<Rightarrow> u32 \<Rightarrow> bool outcome" where
  "sigismember signo s = (if \<not> SIGNAL_VALID signo then Err EINVAL else Ret (s AND sigbit signo \<noteq> 0))"

subsection \<open>The package's mutex\<close>

definition signal_lock :: "nat option \<Rightarrow> 'a signals_scheme \<Rightarrow> 'a signals_scheme option" where
  "signal_lock self s = (if sig_mutex s = None then Some (s\<lparr>sig_mutex := Some self\<rparr>) else None)"

abbreviation (input) signal_unlock :: "'a signals_scheme \<Rightarrow> 'a signals_scheme" where
  "signal_unlock s \<equiv> s\<lparr>sig_mutex := None\<rparr>"

definition lock_unless :: "bool \<Rightarrow> nat option \<Rightarrow> 'a signals_scheme \<Rightarrow> 'a signals_scheme option" where
  "lock_unless locked self s = (if locked then Some s else signal_lock self s)"

definition unlock_unless :: "bool \<Rightarrow> 'a signals_scheme \<Rightarrow> 'a signals_scheme" where
  "unlock_unless locked s = (if locked then s else signal_unlock s)"

subsection \<open>Startup\<close>

definition cyg_posix_signal_start :: "nat \<Rightarrow> 'a signals_scheme \<Rightarrow> 'a signals_scheme" where
  "cyg_posix_signal_start SIGQUEUE_MAX s =
     s\<lparr>siginfo_next := rev [0..<SIGQUEUE_MAX] @ siginfo_next s,
       sigstate := map (\<lambda>ss. ss\<lparr>sa := (sa ss)\<lparr>sa_handler := SIG_DFL\<rparr>\<rparr>) (sigstate s),
       sig_pending := sigemptyset\<rparr>"

subsection \<open>Generating a signal\<close>

definition signal_broadcast :: "'a signals_scheme \<Rightarrow> 'a signals_scheme" where
  "signal_broadcast s = s\<lparr>sigwait_queue := [], slog := slog s @ [SBroadcast]\<rparr>"

definition enqueue_signal :: "nat \<Rightarrow> siginfo \<Rightarrow> 'a signals_scheme \<Rightarrow> 'a signals_scheme option" where
  "enqueue_signal signo si s =
     (case siginfo_next s of
        [] \<Rightarrow> None
      | p # ps \<Rightarrow>
          Some (s\<lparr>siginfo_next := ps, sigstate := (sigstate s)[signo := (sigstate s ! signo)\<lparr>pending := pending (sigstate s ! signo) @ [(p, si)]\<rparr>]\<rparr>))"

definition mark_pending :: "nat \<Rightarrow> nat option \<Rightarrow> 'a signals_scheme \<Rightarrow> 'a signals_scheme" where
  "mark_pending signo thread s =
     (case thread of
        Some j \<Rightarrow>
          (let s1 = upd_thread j (\<lambda>t. t\<lparr>sigpending := snd (sigaddset signo (sigpending t))\<rparr>) s;
               t = info j s1
           in if sigpending t AND NOT (sigmask t) \<noteq> 0 then kcalls [KAsr (tid t), KRelease (tid t)] s1 else s1)
      | None \<Rightarrow>
          (let s1 = s\<lparr>sig_pending := snd (sigaddset signo (sig_pending s))\<rparr>
           in if sigwait_queue s1 \<noteq> [] then signal_broadcast s1 else cyg_posix_pthread_release_thread (sig_pending s1) s1))"

definition cyg_sigqueue :: "nat option \<Rightarrow> sigevent \<Rightarrow> int \<Rightarrow> nat option \<Rightarrow> 'a signals_scheme \<Rightarrow> (bool outcome \<times> 'a signals_scheme) option" where
  "cyg_sigqueue self sev code thread s =
     (if sigev_notify sev = SIGEV_NONE then Some (Ret True, s)
      else if sigev_notify sev = SIGEV_THREAD then Some (Ret True, s)
      else
        (let locked = (self \<noteq> None \<and> sig_mutex s = Some self)
         in do {
              s1 \<leftarrow> lock_unless locked self s;
              let signo = sigev_signo sev in
              if length (sigstate s1) \<le> signo then Some (Undefined, s1)
              else if sa_siginfo (sa (sigstate s1 ! signo)) then
                (case enqueue_signal signo \<lparr>si_signo = signo, si_code = code, si_value = sigev_value sev\<rparr> s1 of
                   None \<Rightarrow> Some (Ret False, unlock_unless locked s1)
                 | Some s2 \<Rightarrow> Some (Ret True, unlock_unless locked (mark_pending signo thread s2)))
              else Some (Ret True, unlock_unless locked (mark_pending signo thread s1))
            }))"

subsection \<open>Delivering signals\<close>

definition deliverable :: "nat \<Rightarrow> 'a signals_scheme \<Rightarrow> u32" where
  "deliverable i s = (sig_pending s OR sigpending (info i s)) AND NOT (sigmask (info i s))"

text \<open>Taking one signal: the first queued one, or default information. The pending bits go when nothing is queued any more.\<close>

definition dequeue_signal :: "nat \<Rightarrow> 'a signals_scheme \<Rightarrow> siginfo \<times> 'a signals_scheme" where
  "dequeue_signal signo s =
     (case pending (sigstate s ! signo) of
        (p, si) # q \<Rightarrow> (si, s\<lparr>sigstate := (sigstate s)[signo := (sigstate s ! signo)\<lparr>pending := q\<rparr>], siginfo_next := p # siginfo_next s\<rparr>)
      | [] \<Rightarrow> (\<lparr>si_signo = signo, si_code = SI_USER, si_value = 0\<rparr>, s))"

definition clear_pending :: "nat \<Rightarrow> nat \<Rightarrow> 'a signals_scheme \<Rightarrow> 'a signals_scheme" where
  "clear_pending i signo s =
     (if pending (sigstate s ! signo) = []
      then (upd_thread i (\<lambda>t. t\<lparr>sigpending := sigpending t AND NOT (sigbit signo)\<rparr>) s)\<lparr>sig_pending := sig_pending s AND NOT (sigbit signo)\<rparr>
      else s)"

partial_function (option) deliver_loop :: "'a handlers \<Rightarrow> nat \<Rightarrow> bool \<Rightarrow> 'a signals_scheme \<Rightarrow> (bool outcome \<times> 'a signals_scheme) option" where
  "deliver_loop H i res s =
     (let todo = deliverable i s
      in if todo = 0 then Some (Ret res, s)
         else
           (let signo = unat (hal_lsbit_index todo);
                act = sa (sigstate s ! signo)
            in if sa_handler act \<noteq> SIG_IGN then
                 (let oldmask = sigmask (info i s);
                      (lsi, s1) = dequeue_signal signo s;
                      s2 = clear_pending i signo s1;
                      s3 = signal_unlock (upd_thread i (\<lambda>t. t\<lparr>sigmask := oldmask OR sa_mask act OR sigbit signo\<rparr>) s2)
                  in if \<not> sa_siginfo act \<and> sa_handler act = SIG_DFL then Some (Cancelled, s3\<lparr>slog := slog s3 @ [SExit signo]\<rparr>)
                     else
                       do {
                         s4 \<leftarrow> H (sa_handler act) (sa_siginfo act) lsi (s3\<lparr>slog := slog s3 @ [SHandler signo lsi]\<rparr>);
                         s5 \<leftarrow> signal_lock (Some i) s4;
                         deliver_loop H i True (upd_thread i (\<lambda>t. t\<lparr>sigmask := oldmask\<rparr>) s5)
                       })
               else deliver_loop H i res s))"

definition cyg_deliver_signals :: "'a handlers \<Rightarrow> nat option \<Rightarrow> 'a signals_scheme \<Rightarrow> (bool outcome \<times> 'a signals_scheme) option" where
  "cyg_deliver_signals H self s =
     (case self of
        None \<Rightarrow> Some (Ret False, s)
      | Some i \<Rightarrow>
          if sig_pending s = 0 \<and> sigpending (info i s) = 0 then Some (Ret False, s)
          else if deliverable i s = 0 then Some (Ret False, s)
          else
            (let locked = (sig_mutex s = Some self)
             in do {
                  s1 \<leftarrow> lock_unless locked self s;
                  (r, s2) \<leftarrow> deliver_loop H i False s1;
                  Some (r, if r = Cancelled then s2 else unlock_unless locked s2)
                }))"

subsection \<open>The functions of the interface\<close>

text \<open>Most functions end by delivering signals; the value is returned unless the process ended in a handler.\<close>

definition deliver_then :: "'a handlers \<Rightarrow> nat option \<Rightarrow> 'b outcome \<Rightarrow> 'a signals_scheme \<Rightarrow> ('b outcome \<times> 'a signals_scheme) option" where
  "deliver_then H self r s =
     do {
       (d, s1) \<leftarrow> cyg_deliver_signals H self s;
       Some (if d = Cancelled then Cancelled else r, s1)
     }"

definition generate :: "'a handlers \<Rightarrow> nat option \<Rightarrow> sigevent \<Rightarrow> int \<Rightarrow> nat option \<Rightarrow> 'a signals_scheme \<Rightarrow> (unit outcome \<times> 'a signals_scheme) option" where
  "generate H self sev code thread s =
     do {
       (r, s1) \<leftarrow> cyg_sigqueue self sev code thread s;
       if r = Undefined then Some (Undefined, s1) else deliver_then H self (Ret ()) s1
     }"

definition user_event :: "nat \<Rightarrow> nat \<Rightarrow> sigevent" where
  "user_event sig val = \<lparr>sigev_notify = SIGEV_SIGNAL, sigev_signo = sig, sigev_value = val\<rparr>"

definition kill :: "'a handlers \<Rightarrow> nat option \<Rightarrow> int \<Rightarrow> nat \<Rightarrow> 'a signals_scheme \<Rightarrow> (unit outcome \<times> 'a signals_scheme) option" where
  "kill H self pid sig s =
     (if \<not> SIGNAL_VALID sig then Some (Err EINVAL, s)
      else if pid \<noteq> 0 then Some (Err ESRCH, s)
      else generate H self (user_event sig 0) SI_USER None s)"

definition pthread_kill :: "'a handlers \<Rightarrow> nat option \<Rightarrow> u32 \<Rightarrow> nat \<Rightarrow> 'a signals_scheme \<Rightarrow> (unit outcome \<times> 'a signals_scheme) option" where
  "pthread_kill H self threadid sig s =
     (if \<not> SIGNAL_VALID sig then Some (Err EINVAL, s)
      else
        (case pthread_info_id threadid s of
           Ret j \<Rightarrow> generate H self (user_event sig 0) SI_USER (Some j) s
         | Err e \<Rightarrow> Some (Err e, s) | Undefined \<Rightarrow> Some (Undefined, s) | Cancelled \<Rightarrow> Some (Cancelled, s)))"

definition sigqueue :: "'a handlers \<Rightarrow> nat option \<Rightarrow> nat \<Rightarrow> nat \<Rightarrow> 'a signals_scheme \<Rightarrow> (unit outcome \<times> 'a signals_scheme) option" where
  "sigqueue H self sig val s =
     (if \<not> SIGNAL_VALID sig then Some (Err EINVAL, s) else generate H self (user_event sig val) SI_QUEUE None s)"

definition raise_sig :: "'a handlers \<Rightarrow> nat option \<Rightarrow> nat \<Rightarrow> 'a signals_scheme \<Rightarrow> (unit outcome \<times> 'a signals_scheme) option" where
  "raise_sig H self sig s = kill H self 0 sig s"

text \<open>
  \<^verbatim>\<open>sigaction\<close>: the result is the old action. Ignoring a signal discards it if it is pending; a thread that is not a POSIX
  thread then uses a null pointer. The delivery runs with the mutex held.
\<close>

definition discard_pending :: "nat \<Rightarrow> nat \<Rightarrow> 'a signals_scheme \<Rightarrow> 'a signals_scheme" where
  "discard_pending i sig s =
     (if (sig_pending s OR sigpending (info i s)) AND sigbit sig \<noteq> 0 then
        (let s1 = (upd_thread i (\<lambda>t. t\<lparr>sigpending := sigpending t AND NOT (sigbit sig)\<rparr>) s)\<lparr>sig_pending := sig_pending s AND NOT (sigbit sig)\<rparr>;
             q = pending (sigstate s1 ! sig)
         in s1\<lparr>sigstate := (sigstate s1)[sig := (sigstate s1 ! sig)\<lparr>pending := []\<rparr>], siginfo_next := rev (map fst q) @ siginfo_next s1\<rparr>)
      else s)"

definition sigaction :: "'a handlers \<Rightarrow> nat option \<Rightarrow> nat \<Rightarrow> sig_action \<Rightarrow> 'a signals_scheme \<Rightarrow> (sig_action outcome \<times> 'a signals_scheme) option" where
  "sigaction H self sig act s =
     (if \<not> SIGNAL_VALID sig then Some (Err EINVAL, s)
      else
        do {
          s1 \<leftarrow> signal_lock self s;
          let oact = sa (sigstate s1 ! sig);
              s2 = s1\<lparr>sigstate := (sigstate s1)[sig := (sigstate s1 ! sig)\<lparr>sa := act\<rparr>]\<rparr>
          in if sa_handler act = SIG_IGN \<and> self = None then Some (Undefined, s2)
             else
               do {
                 (r, s4) \<leftarrow> deliver_then H self (Ret oact) (if sa_handler act = SIG_IGN then discard_pending (the self) sig s2 else s2);
                 Some (r, if r = Cancelled then s4 else signal_unlock s4)
               }
        })"

definition signal :: "'a handlers \<Rightarrow> nat option \<Rightarrow> nat \<Rightarrow> nat \<Rightarrow> 'a signals_scheme \<Rightarrow> (nat outcome \<times> 'a signals_scheme) option" where
  "signal H self sig handler s =
     do {
       (r, s1) \<leftarrow> sigaction H self sig \<lparr>sa_mask = sigemptyset, sa_siginfo = False, sa_handler = handler\<rparr> s;
       Some (case r of Ret a \<Rightarrow> Ret (sa_handler a) | Err e \<Rightarrow> Err e | Undefined \<Rightarrow> Undefined | Cancelled \<Rightarrow> Cancelled, s1)
     }"

datatype how = SIG_BLOCK | SIG_UNBLOCK | SIG_SETMASK | SIG_OTHER_HOW

definition new_mask :: "how \<Rightarrow> u32 \<Rightarrow> u32 \<Rightarrow> u32" where
  "new_mask h m old = (case h of SIG_BLOCK \<Rightarrow> old OR m | SIG_UNBLOCK \<Rightarrow> old AND NOT m | SIG_SETMASK \<Rightarrow> m | SIG_OTHER_HOW \<Rightarrow> old)"

definition pthread_sigmask :: "'a handlers \<Rightarrow> nat \<Rightarrow> how \<Rightarrow> u32 option \<Rightarrow> 'a signals_scheme \<Rightarrow> (u32 outcome \<times> 'a signals_scheme) option" where
  "pthread_sigmask H i h st s =
     (let oset = sigmask (info i s);
          s1 = (case st of None \<Rightarrow> s | Some m \<Rightarrow> upd_thread i (\<lambda>t. t\<lparr>sigmask := new_mask h m (sigmask t)\<rparr>) s);
          r = (if st \<noteq> None \<and> h = SIG_OTHER_HOW then Err EINVAL else Ret oset)
      in deliver_then H (Some i) r s1)"

definition sigprocmask :: "'a handlers \<Rightarrow> nat \<Rightarrow> how \<Rightarrow> u32 option \<Rightarrow> 'a signals_scheme \<Rightarrow> (u32 outcome \<times> 'a signals_scheme) option" where
  "sigprocmask H i h st s = pthread_sigmask H i h st s"

definition cyg_pthread_sigmask_set :: "nat option \<Rightarrow> u32 option \<Rightarrow> 'a signals_scheme \<Rightarrow> u32 option \<times> 'a signals_scheme" where
  "cyg_pthread_sigmask_set self st s =
     (case self of
        None \<Rightarrow> (None, s)
      | Some i \<Rightarrow> (Some (sigmask (info i s)), case st of None \<Rightarrow> s | Some m \<Rightarrow> upd_thread i (\<lambda>t. t\<lparr>sigmask := m\<rparr>) s))"

definition cyg_posix_sigpending :: "nat option \<Rightarrow> 'a signals_scheme \<Rightarrow> bool" where
  "cyg_posix_sigpending self s = (case self of None \<Rightarrow> False | Some i \<Rightarrow> deliverable i s \<noteq> 0)"

definition cyg_posix_deliver_signals :: "'a handlers \<Rightarrow> nat option \<Rightarrow> u32 option \<Rightarrow> 'a signals_scheme \<Rightarrow> (unit outcome \<times> 'a signals_scheme) option" where
  "cyg_posix_deliver_signals H self m s =
     (case self of
        None \<Rightarrow> Some (Ret (), s)
      | Some i \<Rightarrow>
          (let oldmask = sigmask (info i s);
               s1 = (case m of None \<Rightarrow> s | Some x \<Rightarrow> upd_thread i (\<lambda>t. t\<lparr>sigmask := x\<rparr>) s)
           in do {
                (r, s2) \<leftarrow> deliver_then H self (Ret ()) s1;
                Some (r, if r = Cancelled \<or> m = None then s2 else upd_thread i (\<lambda>t. t\<lparr>sigmask := oldmask\<rparr>) s2)
              }))"

text \<open>\<^verbatim>\<open>sigpending(2)\<close>; the field of a thread has the same name. \<open>given\<close>: the pointer for the result is not null.\<close>

definition sigpending_set :: "nat \<Rightarrow> bool \<Rightarrow> 'a signals_scheme \<Rightarrow> u32 outcome" where
  "sigpending_set i given s = (if \<not> given then Err EINVAL else Ret (sigpending (info i s) OR sig_pending s))"

subsection \<open>Alarms and the ASR\<close>

definition sigalrm_action :: "'a signals_scheme \<Rightarrow> 'a signals_scheme" where
  "sigalrm_action s =
     cyg_posix_pthread_release_thread (snd (sigaddset SIGALRM sigemptyset))
       (signal_broadcast (s\<lparr>sigalrm_armed := False, sigalrm_pending := True\<rparr>))"

definition check_sigalarm :: "nat option \<Rightarrow> 'a signals_scheme \<Rightarrow> 'a signals_scheme option" where
  "check_sigalarm self s =
     (if sigalrm_pending s
      then map_option snd (cyg_sigqueue self (user_event SIGALRM 0) SI_USER None (s\<lparr>sigalrm_pending := False\<rparr>))
      else Some s)"

definition cyg_posix_signal_asr :: "'a handlers \<Rightarrow> nat \<Rightarrow> 'a signals_scheme \<Rightarrow> (bool outcome \<times> 'a signals_scheme) option" where
  "cyg_posix_signal_asr H i s =
     do {
       s1 \<leftarrow> check_sigalarm (Some i) s;
       cyg_deliver_signals H (Some i) s1
     }"

end
