(* ===== verification/Posix_Time.thy ===== *)
theory Posix_Time
  imports Posix_Signal
begin

text \<open>
  POSIX clocks and timers (\<^verbatim>\<open>tools/gcc4libstdxx/ecos/compat/posix/current/src/time.cxx\<close>). The kernel's converters between ticks and
  nanoseconds or seconds are the parameter \<open>kclock\<close>, its alarm objects a type \<open>'al\<close> with the operations \<open>kalarm\<close>. A timer slot
  whose alarm was never constructed, or has been destroyed, has none; using it is \<open>Undefined\<close>. The state of the
  threads and signals is extended by the timer table and the clock.
\<close>

type_synonym u64 = "64 word"

subsection \<open>Conversions\<close>

record timespec =
  tv_sec :: int
  tv_nsec :: int

record kclock =
  ns_convert :: "u64 \<Rightarrow> u64"
  sec_convert :: "u64 \<Rightarrow> u64"
  ns_invert :: "u64 \<Rightarrow> u64"

definition tickns :: "kclock \<Rightarrow> u64" where
  "tickns k = ns_invert k 1"

definition valid_timespec :: "timespec option \<Rightarrow> bool" where
  "valid_timespec tp =
     (case tp of None \<Rightarrow> False | Some t \<Rightarrow> \<not> (tv_nsec t < 0 \<or> tv_nsec t > 1000000000))"

definition cyg_timespec_to_ticks :: "kclock \<Rightarrow> timespec \<Rightarrow> bool \<Rightarrow> u64" where
  "cyg_timespec_to_ticks k tp roundup =
     (if tv_sec tp = 0 \<and> tv_nsec tp = 0 then 0
      else
        sec_convert k (of_int (tv_sec tp)) +
        (if roundup then ns_convert k (of_int (tv_nsec tp) + tickns k - 1) else ns_convert k (of_int (tv_nsec tp))))"

text \<open>The casts to \<^verbatim>\<open>long\<close> keep 32 bits.\<close>

definition to_long :: "u64 \<Rightarrow> int" where
  "to_long x = sint (ucast x :: u32)"

definition cyg_ticks_to_timespec :: "kclock \<Rightarrow> u64 \<Rightarrow> timespec" where
  "cyg_ticks_to_timespec k ticks =
     (if ticks = 0 then \<lparr>tv_sec = 0, tv_nsec = 0\<rparr>
      else (let nsecs = ns_invert k ticks in \<lparr>tv_sec = to_long (nsecs div 1000000000), tv_nsec = to_long (nsecs mod 1000000000)\<rparr>))"

subsection \<open>State\<close>

record 'al kalarm =
  al_new :: 'al
  al_initialize :: "u64 \<Rightarrow> u64 \<Rightarrow> 'al \<Rightarrow> 'al"
  al_disable :: "'al \<Rightarrow> 'al"
  al_get_times :: "'al \<Rightarrow> u64 \<times> u64"

text \<open>The overrun count is an \<^verbatim>\<open>int\<close>: 32 bits, read as a signed number, which an increment may wrap.\<close>

record 'al posix_timer =
  timer_id :: u32
  alarm :: "'al option"
  armed :: bool
  tpending :: bool
  overrun :: u32
  tsigev :: sigevent

record 'al timers = signals +
  timer_table :: "'al posix_timer list"
  timer_next :: nat
  timer_id_cookie :: u32
  clock_now :: u64

abbreviation (input) upd_timer :: "nat \<Rightarrow> ('al posix_timer \<Rightarrow> 'al posix_timer) \<Rightarrow> ('al, 'b) timers_scheme \<Rightarrow> ('al, 'b) timers_scheme" where
  "upd_timer n f s \<equiv> s\<lparr>timer_table := (timer_table s)[n := f (timer_table s ! n)]\<rparr>"

subsection \<open>Clocks\<close>

text \<open>Where a result is stored through a pointer, \<open>given\<close> says that the pointer is not null.\<close>

definition CLOCK_REALTIME :: int where
  "CLOCK_REALTIME = 0"

definition clock_settime :: "kclock \<Rightarrow> int \<Rightarrow> timespec option \<Rightarrow> ('al, 'b) timers_scheme \<Rightarrow> unit outcome \<times> ('al, 'b) timers_scheme" where
  "clock_settime k clock_id tp s =
     (if clock_id \<noteq> CLOCK_REALTIME then (Err EINVAL, s)
      else if \<not> valid_timespec tp then (Err EINVAL, s)
      else (Ret (), s\<lparr>clock_now := cyg_timespec_to_ticks k (the tp) False\<rparr>))"

definition clock_gettime :: "kclock \<Rightarrow> int \<Rightarrow> bool \<Rightarrow> ('al, 'b) timers_scheme \<Rightarrow> timespec outcome" where
  "clock_gettime k clock_id given s =
     (if clock_id \<noteq> CLOCK_REALTIME then Err EINVAL
      else if \<not> given then Err EINVAL
      else Ret (cyg_ticks_to_timespec k (clock_now s)))"

definition clock_getres :: "kclock \<Rightarrow> int \<Rightarrow> bool \<Rightarrow> timespec outcome" where
  "clock_getres k clock_id given =
     (if clock_id \<noteq> CLOCK_REALTIME then Err EINVAL
      else if \<not> given then Err EINVAL
      else Ret (cyg_ticks_to_timespec k 1))"

text \<open>The time of day; the products fit in an \<^verbatim>\<open>int\<close> for up to two thousand ticks per second.\<close>

definition gettimeofday :: "int \<Rightarrow> int \<Rightarrow> nat \<Rightarrow> nat \<times> nat" where
  "gettimeofday rtc_num rtc_den cur_time =
     (let ticks_per_second = nat (1000000000 div (rtc_num div rtc_den));
          tix = cur_time mod ticks_per_second
      in (cur_time div ticks_per_second, tix * 1000000 div ticks_per_second))"

subsection \<open>Timers\<close>

definition TIMER_ID_COOKIE_INC :: u32 where
  "TIMER_ID_COOKIE_INC = 0x400"

definition TIMER_ID_COOKIE_MASK :: u32 where
  "TIMER_ID_COOKIE_MASK = TIMER_ID_COOKIE_INC - 1"

partial_function (option) alloc_timer_id :: "nat \<Rightarrow> u32 \<Rightarrow> (u32 \<times> u32) option" where
  "alloc_timer_id nxt cookie =
     (let cookie1 = cookie + TIMER_ID_COOKIE_INC;
          i = of_nat nxt + cookie1
      in if i = 0 then alloc_timer_id nxt cookie1 else Some (i, cookie1))"

definition timer_create :: "'al kalarm \<Rightarrow> int \<Rightarrow> sigevent option \<Rightarrow> ('al, 'b) timers_scheme \<Rightarrow> (u32 outcome \<times> ('al, 'b) timers_scheme) option" where
  "timer_create A clock_id evp s =
     (if clock_id \<noteq> CLOCK_REALTIME then Some (Err EINVAL, s)
      else
        do {
          slot \<leftarrow> slot_search (\<lambda>n. timer_id (timer_table s ! n) \<noteq> 0) (length (timer_table s)) (timer_next s) (timer_next s);
          case slot of
            None \<Rightarrow> Some (Err EAGAIN, s)
          | Some n \<Rightarrow>
              do {
                (i, cookie) \<leftarrow> alloc_timer_id n (timer_id_cookie s);
                let sev = (case evp of None \<Rightarrow> \<lparr>sigev_notify = SIGEV_SIGNAL, sigev_signo = SIGALRM, sigev_value = unat i\<rparr> | Some e \<Rightarrow> e)
                in Some (Ret i, (upd_timer n (\<lambda>t. t\<lparr>timer_id := i, tsigev := sev, alarm := Some (al_new A), armed := False, overrun := 0\<rparr>) s)
                                  \<lparr>timer_next := n, timer_id_cookie := cookie\<rparr>)
              }
        })"

text \<open>The slot of an identifier, which is used without checking that it is in the table.\<close>

definition timer_slot :: "u32 \<Rightarrow> nat" where
  "timer_slot timerid = unat (timerid AND TIMER_ID_COOKIE_MASK)"

definition with_timer :: "u32 \<Rightarrow> ('al, 'b) timers_scheme \<Rightarrow> 'c \<Rightarrow> (nat \<Rightarrow> 'c) \<Rightarrow> 'c \<Rightarrow> 'c" where
  "with_timer timerid s undef found missing =
     (if length (timer_table s) \<le> timer_slot timerid then undef
      else if timer_id (timer_table s ! timer_slot timerid) = timerid then found (timer_slot timerid)
      else missing)"

definition timer_delete :: "'al kalarm \<Rightarrow> u32 \<Rightarrow> ('al, 'b) timers_scheme \<Rightarrow> unit outcome \<times> ('al, 'b) timers_scheme" where
  "timer_delete A timerid s =
     with_timer timerid s (Undefined, s)
       (\<lambda>n. case alarm (timer_table s ! n) of
              None \<Rightarrow> (Undefined, s)
            | Some a \<Rightarrow> (Ret (), upd_timer n (\<lambda>t. t\<lparr>alarm := None, timer_id := 0\<rparr>) s))
       (Err EINVAL, s)"

definition times_left :: "'al kalarm \<Rightarrow> kclock \<Rightarrow> 'al \<Rightarrow> bool \<Rightarrow> u64 \<Rightarrow> timespec \<times> timespec" where
  "times_left A k a is_armed now =
     (let (trigger, interval) = al_get_times A a;
          left = (if is_armed then trigger - now else 0)
      in (cyg_ticks_to_timespec k left, cyg_ticks_to_timespec k interval))"

definition timer_settime :: "'al kalarm \<Rightarrow> kclock \<Rightarrow> u32 \<Rightarrow> bool \<Rightarrow> (timespec \<times> timespec) option \<Rightarrow> ('al, 'b) timers_scheme \<Rightarrow>
    (timespec \<times> timespec) outcome \<times> ('al, 'b) timers_scheme" where
  "timer_settime A k timerid abstime val s =
     (case val of
        None \<Rightarrow> (Err EINVAL, s)
      | Some (it_value, it_interval) \<Rightarrow>
          (let trigger = cyg_timespec_to_ticks k it_value True;
               interval = cyg_timespec_to_ticks k it_interval True
           in with_timer timerid s (Undefined, s)
                (\<lambda>n. case alarm (timer_table s ! n) of
                       None \<Rightarrow> (Undefined, s)
                     | Some a0 \<Rightarrow>
                         (let a = al_disable A a0;
                              ovalue = times_left A k a (armed (timer_table s ! n)) (clock_now s)
                          in if trigger = 0 then (Ret ovalue, upd_timer n (\<lambda>t. t\<lparr>alarm := Some a, armed := False\<rparr>) s)
                             else
                               (let at = (if abstime then trigger else trigger + clock_now s)
                                in (Ret ovalue, upd_timer n (\<lambda>t. t\<lparr>alarm := Some (al_initialize A at interval a), armed := True\<rparr>) s))))
                (Err EINVAL, s)))"

definition timer_gettime :: "'al kalarm \<Rightarrow> kclock \<Rightarrow> u32 \<Rightarrow> bool \<Rightarrow> ('al, 'b) timers_scheme \<Rightarrow> (timespec \<times> timespec) outcome" where
  "timer_gettime A k timerid given s =
     (if \<not> given then Err EINVAL
      else
        with_timer timerid s Undefined
          (\<lambda>n. case alarm (timer_table s ! n) of
                 None \<Rightarrow> Undefined
               | Some a \<Rightarrow> Ret (times_left A k a (armed (timer_table s ! n)) (clock_now s)))
          (Err EINVAL))"

definition timer_getoverrun :: "u32 \<Rightarrow> ('al, 'b) timers_scheme \<Rightarrow> int outcome" where
  "timer_getoverrun timerid s = with_timer timerid s Undefined (\<lambda>n. Ret (sint (overrun (timer_table s ! n)))) (Ret 0)"

subsection \<open>Expiry\<close>

definition alarm_action :: "nat \<Rightarrow> ('al, 'b) timers_scheme \<Rightarrow> ('al, 'b) timers_scheme" where
  "alarm_action n s =
     (let t = timer_table s ! n
      in if tpending t then upd_timer n (\<lambda>t. t\<lparr>overrun := overrun t + 1\<rparr>) s
         else if sigev_notify (tsigev t) = SIGEV_SIGNAL then
           (let s1 = upd_timer n (\<lambda>t. t\<lparr>tpending := True\<rparr>) s
            in cyg_posix_pthread_release_thread (snd (sigaddset (sigev_signo (tsigev t)) sigemptyset)) (signal_broadcast s1))
         else s)"

fun timer_asr_loop :: "nat option \<Rightarrow> nat list \<Rightarrow> ('al, 'b) timers_scheme \<Rightarrow> (bool outcome \<times> ('al, 'b) timers_scheme) option" where
  "timer_asr_loop self [] s = Some (Ret True, s)"
| "timer_asr_loop self (n # ns) s =
     (if timer_id (timer_table s ! n) \<noteq> 0 \<and> tpending (timer_table s ! n) then
        do {
          (r, s1) \<leftarrow> cyg_sigqueue self (tsigev (timer_table s ! n)) SI_TIMER None (upd_timer n (\<lambda>t. t\<lparr>tpending := False\<rparr>) s);
          if r = Undefined then Some (Undefined, s1)
          else timer_asr_loop self ns (upd_timer n (\<lambda>t. t\<lparr>overrun := 0\<rparr>) s1)
        }
      else timer_asr_loop self ns s)"

definition cyg_posix_timer_asr :: "nat option \<Rightarrow> ('al, 'b) timers_scheme \<Rightarrow> (bool outcome \<times> ('al, 'b) timers_scheme) option" where
  "cyg_posix_timer_asr self s = timer_asr_loop self [0..<length (timer_table s)] s"

subsection \<open>Sleeping\<close>

text \<open>
  \<open>slp\<close> is the kernel's delay by some ticks, with what other threads do meanwhile. The second component of a result is the remaining
  time, when it is written.
\<close>

definition nanosleep :: "pcfg \<Rightarrow> (nat \<Rightarrow> nat \<Rightarrow> ('al, 'b) timers_scheme \<Rightarrow> ('al, 'b) timers_scheme option) \<Rightarrow> nat \<Rightarrow> kclock \<Rightarrow> nat option \<Rightarrow>
    (u64 \<Rightarrow> ('al, 'b) timers_scheme \<Rightarrow> ('al, 'b) timers_scheme) \<Rightarrow> timespec option \<Rightarrow> bool \<Rightarrow> ('al, 'b) timers_scheme \<Rightarrow>
    ((unit outcome \<times> timespec option) \<times> ('al, 'b) timers_scheme) option" where
  "nanosleep c run canceled k self slp rqtp want_rest s =
     do {
       (ended, s1) \<leftarrow> pthread_testcancel c run canceled self s;
       if ended then Some ((Cancelled, None), s1)
       else if \<not> valid_timespec rqtp then Some ((Err EINVAL, None), s1)
       else if tv_sec (the rqtp) = 0 \<and> tv_nsec (the rqtp) = 0 then Some ((Ret (), None), s1)
       else
         (let ticks = cyg_timespec_to_ticks k (the rqtp) True;
              before = clock_now s1;
              s2 = slp ticks s1;
              now = clock_now s2
          in if want_rest \<and> before + ticks > now then
               do {
                 (ended2, s3) \<leftarrow> pthread_testcancel c run canceled self s2;
                 Some ((if ended2 then Cancelled else Err EINTR, Some (cyg_ticks_to_timespec k (ticks - (now - before)))), s3)
               }
             else
               do {
                 (ended2, s3) \<leftarrow> pthread_testcancel c run canceled self s2;
                 Some ((if ended2 then Cancelled else Ret (), None), s3)
               })
     }"

text \<open>\<^verbatim>\<open>sleep\<close> gives the seconds that are left.\<close>

definition sleep :: "pcfg \<Rightarrow> (nat \<Rightarrow> nat \<Rightarrow> ('al, 'b) timers_scheme \<Rightarrow> ('al, 'b) timers_scheme option) \<Rightarrow> nat \<Rightarrow> kclock \<Rightarrow> nat option \<Rightarrow>
    (u64 \<Rightarrow> ('al, 'b) timers_scheme \<Rightarrow> ('al, 'b) timers_scheme) \<Rightarrow> int \<Rightarrow> ('al, 'b) timers_scheme \<Rightarrow> (int outcome \<times> ('al, 'b) timers_scheme) option" where
  "sleep c run canceled k self slp seconds s =
     do {
       ((r, rest), s1) \<leftarrow> nanosleep c run canceled k self slp (Some \<lparr>tv_sec = seconds, tv_nsec = 0\<rparr>) True s;
       Some (case r of
               Ret _ \<Rightarrow> Ret 0
             | Err _ \<Rightarrow> Ret (case rest of None \<Rightarrow> seconds | Some t \<Rightarrow> tv_sec t)
             | Undefined \<Rightarrow> Undefined | Cancelled \<Rightarrow> Cancelled, s1)
     }"

end
