(* ===== verification/Posix_Thread_Correct.thy ===== *)
theory Posix_Thread_Correct
  imports Posix_Thread
begin

text \<open>
  Correctness of the thread table: its invariant, what the reaper does, and the life of a thread from its creation to
  its joining. The invariant sees of a thread only its identifier and state (\<open>tcore\<close>). It is \<open>zinv Z\<close>, where the set \<open>Z\<close> says what
  is known of the surplus of one counter; \<open>thread_inv\<close> is the case of no surplus.
\<close>

subsection \<open>The invariant\<close>

definition tcore :: "'a pthreads_scheme \<Rightarrow> (u32 \<times> tstate) option list" where
  "tcore s = map (map_option (\<lambda>t. (tid t, state t))) (thread_table s)"

definition in_state :: "tstate set \<Rightarrow> (u32 \<times> tstate) option \<Rightarrow> bool" where
  "in_state S x = (case x of None \<Rightarrow> False | Some (_, st) \<Rightarrow> st \<in> S)"

definition cnt :: "tstate set \<Rightarrow> (u32 \<times> tstate) option list \<Rightarrow> int" where
  "cnt S l = int (length (filter (in_state S) l))"

text \<open>
  The number by which \<^verbatim>\<open>pthreads_tobejoined\<close> exceeds the number of threads that wait to be joined: a thread that is
  detached after it has ended stays counted there.
\<close>

definition surplus :: "'a pthreads_scheme \<Rightarrow> int" where
  "surplus s = pthreads_tobejoined s - cnt {JOIN} (tcore s)"

definition zinv :: "int set \<Rightarrow> 'a pthreads_scheme \<Rightarrow> bool" where
  "zinv Z s \<longleftrightarrow>
     thread_info_next s < length (thread_table s) \<and> length (thread_table s) \<le> 1024 \<and> thread_id_cookie s AND THREAD_ID_COOKIE_MASK = 0 \<and>
     (\<forall>i<length (tcore s). \<forall>th st. tcore s ! i = Some (th, st) \<longrightarrow> unat (th AND THREAD_ID_COOKIE_MASK) = i \<and> st \<noteq> FREE) \<and>
     pthread_count s = cnt UNIV (tcore s) \<and> pthreads_exited s = cnt {EXITED} (tcore s) \<and> surplus s \<in> Z"

text \<open>The invariant of a program that does not detach threads that have ended: all three counters are exact.\<close>

abbreviation thread_inv :: "'a pthreads_scheme \<Rightarrow> bool" where
  "thread_inv s \<equiv> zinv {0} s"

lemma zinvD:
  assumes "zinv Z s"
  shows "thread_info_next s < length (thread_table s)" "length (thread_table s) \<le> 1024" "thread_id_cookie s AND THREAD_ID_COOKIE_MASK = 0"
    "i < length (thread_table s) \<Longrightarrow> thread_table s ! i = Some t \<Longrightarrow> unat (tid t AND THREAD_ID_COOKIE_MASK) = i \<and> state t \<noteq> FREE"
    "pthread_count s = cnt UNIV (tcore s)" "pthreads_exited s = cnt {EXITED} (tcore s)" "surplus s \<in> Z"
  using assms by (auto simp: zinv_def tcore_def)

lemma zinv_surplus: "zinv Z s \<Longrightarrow> zinv Y s \<longleftrightarrow> surplus s \<in> Y"
  by (simp add: zinv_def)

lemma zinv_same:
  assumes "zinv Z s" "tcore s' = tcore s" "thread_info_next s' = thread_info_next s" "thread_id_cookie s' = thread_id_cookie s"
    "pthread_count s' = pthread_count s" "pthreads_exited s' = pthreads_exited s" "pthreads_tobejoined s' = pthreads_tobejoined s"
  shows "zinv Z s'"
proof -
  have "length (thread_table s') = length (thread_table s)" using assms(2) by (metis length_map tcore_def)
  then show ?thesis using assms by (simp add: zinv_def surplus_def)
qed

lemma cnt_update:
  assumes "i < length l"
  shows "cnt S (l[i := x]) = cnt S l - (if in_state S (l ! i) then 1 else 0) + (if in_state S x then 1 else 0)"
proof -
  have app: "cnt S (a @ y # b) = cnt S (a @ b) + (if in_state S y then 1 else 0)" for a b y by (simp add: cnt_def)
  have "l = take i l @ l ! i # drop (Suc i) l" using assms by (rule id_take_nth_drop)
  then have "cnt S l = cnt S (take i l @ drop (Suc i) l) + (if in_state S (l ! i) then 1 else 0)" using app by metis
  then show ?thesis using assms by (simp add: upd_conv_take_nth_drop app)
qed

lemma zinv_update:
  assumes inv: "zinv Z s" and i: "i < length (thread_table s)" and t: "tcore s' = (tcore s)[i := x]"
    and x: "\<And>th st. x = Some (th, st) \<Longrightarrow> unat (th AND THREAD_ID_COOKIE_MASK) = i \<and> st \<noteq> FREE"
    and "thread_info_next s' < length (thread_table s)" "thread_id_cookie s' AND THREAD_ID_COOKIE_MASK = 0"
    and "pthread_count s' = pthread_count s - of_bool (in_state UNIV (tcore s ! i)) + of_bool (in_state UNIV x)"
    and "pthreads_exited s' = pthreads_exited s - of_bool (in_state {EXITED} (tcore s ! i)) + of_bool (in_state {EXITED} x)"
    and "pthreads_tobejoined s' = pthreads_tobejoined s - of_bool (in_state {JOIN} (tcore s ! i)) + of_bool (in_state {JOIN} x)"
  shows "zinv Z s'"
proof -
  have il: "i < length (tcore s)" using i by (simp add: tcore_def)
  have len: "length (thread_table s') = length (thread_table s)" using t by (metis length_list_update length_map tcore_def)
  have "unat (th AND THREAD_ID_COOKIE_MASK) = j \<and> st \<noteq> FREE" if "j < length (tcore s)" "(tcore s)[i := x] ! j = Some (th, st)" for j th st
    using that x inv il by (cases "j = i") (auto simp: zinv_def surplus_def)
  moreover have "surplus s' = surplus s" using assms(9) il by (simp add: surplus_def t cnt_update of_bool_def)
  ultimately show ?thesis using inv assms(5-8) len il by (simp add: zinv_def t cnt_update of_bool_def)
qed

lemma in_state_simps [simp]:
  "in_state S None = False" "in_state S (Some (th, st)) = (st \<in> S)"
  by (simp_all add: in_state_def)

lemma tcore_nth [simp]: "i < length (thread_table s) \<Longrightarrow> tcore s ! i = map_option (\<lambda>t. (tid t, state t)) (thread_table s ! i)"
  by (simp add: tcore_def)

subsection \<open>The reaper\<close>

definition clean_exited :: "pthread_info option \<Rightarrow> pthread_info option" where
  "clean_exited x = (case x of None \<Rightarrow> None | Some t \<Rightarrow> if state t = EXITED then None else Some t)"

definition lags_end :: "'a pthreads_scheme \<Rightarrow> bool" where
  "lags_end s \<longleftrightarrow> (\<forall>th. lag s th \<noteq> None)"

abbreviation (input) core_of :: "pthread_info option \<Rightarrow> (u32 \<times> tstate) option" where
  "core_of \<equiv> map_option (\<lambda>t. (tid t, state t))"

lemma no_exited_clean: "cnt {EXITED} (map core_of l) = 0 \<Longrightarrow> map clean_exited l = l"
  by (induction l) (auto simp: cnt_def clean_exited_def filter_map split: option.splits if_splits)

lemma reap_loop_effect:
  fixes s :: "'a pthreads_scheme"
  assumes "thread_table s = pre @ rest" "pthreads_exited s = cnt {EXITED} (map core_of rest)" "lags_end s"
  shows "\<exists>ks. reap_loop prio [length pre..<length pre + length rest] s =
    Some (s\<lparr>klog := klog s @ ks, thread_table := pre @ map clean_exited rest, pthread_count := pthread_count s - pthreads_exited s, pthreads_exited := 0\<rparr>)"
  using assms
proof (induction rest arbitrary: pre s)
  case Nil
  then have "s = s\<lparr>klog := klog s @ [], thread_table := pre @ map clean_exited [], pthread_count := pthread_count s - pthreads_exited s, pthreads_exited := 0\<rparr>"
    by (simp add: cnt_def)
  then show ?case by (intro exI [of _ "[]"]) simp
next
  case (Cons x rest)
  have upt: "[length pre..<length pre + length (x # rest)] = length pre # [length (pre @ [x])..<length (pre @ [x]) + length rest]"
    using upt_conv_Cons [of "length pre" "length pre + length (x # rest)"] by simp
  have nth: "thread_table s ! length pre = x" using Cons.prems(1) by simp
  show ?case
  proof (cases "pthreads_exited s = 0")
    case True
    then have "map clean_exited (x # rest) = x # rest" using no_exited_clean [of "x # rest"] Cons.prems(2) by simp
    then have "s = s\<lparr>klog := klog s @ [], thread_table := pre @ map clean_exited (x # rest), pthread_count := pthread_count s - pthreads_exited s, pthreads_exited := 0\<rparr>"
      using True Cons.prems(1) by simp
    then show ?thesis unfolding upt reap_loop.simps using True by (intro exI [of _ "[]"]) simp
  next
    case False
    show ?thesis
    proof (cases "\<exists>t. x = Some t \<and> state t = EXITED")
      case True
      then obtain t where t: "x = Some t" "state t = EXITED" by blast
      obtain n where n: "lag s (tid t) = Some n" using Cons.prems(3) by (auto simp: lags_end_def)
      let ?s = "reap_thread prio n (length pre) s"
      have "thread_table ?s = (pre @ [None]) @ rest" "pthreads_exited ?s = cnt {EXITED} (map core_of rest)" "lags_end ?s"
        using Cons.prems t by (simp_all add: reap_thread_def Let_def list_update_append cnt_def lags_end_def)
      from Cons.IH [OF this] obtain ks where
        "reap_loop prio [length (pre @ [None])..<length (pre @ [None]) + length rest] ?s =
          Some (?s\<lparr>klog := klog ?s @ ks, thread_table := (pre @ [None]) @ map clean_exited rest, pthread_count := pthread_count ?s - pthreads_exited ?s, pthreads_exited := 0\<rparr>)"
        by blast
      moreover obtain ks0 where "?s = s\<lparr>klog := klog s @ ks0, thread_table := (thread_table s)[length pre := None],
          pthread_count := pthread_count s - 1, pthreads_exited := pthreads_exited s - 1\<rparr>" by (auto simp: reap_thread_def Let_def)
      moreover have "clean_exited x = None" using t by (simp add: clean_exited_def)
      ultimately show ?thesis unfolding upt reap_loop.simps using False nth t n by (intro exI [of _ "ks0 @ ks"]) simp
    next
      case noex: False
      have "thread_table s = (pre @ [x]) @ rest" "pthreads_exited s = cnt {EXITED} (map core_of rest)"
        using Cons.prems noex by (auto simp: cnt_def in_state_def split: option.splits)
      from Cons.IH [OF this Cons.prems(3)] obtain ks where
        "reap_loop prio [length (pre @ [x])..<length (pre @ [x]) + length rest] s =
          Some (s\<lparr>klog := klog s @ ks, thread_table := (pre @ [x]) @ map clean_exited rest, pthread_count := pthread_count s - pthreads_exited s, pthreads_exited := 0\<rparr>)"
        by blast
      moreover have "clean_exited x = x" using noex by (auto simp: clean_exited_def split: option.splits)
      ultimately show ?thesis unfolding upt reap_loop.simps using False nth noex by (cases x) auto
    qed
  qed
qed

text \<open>The reaper ends, and takes exactly the threads that have exited out of the table.\<close>

lemma pthread_reap_effect:
  assumes "zinv Z s" "lags_end s"
  obtains ks where "pthread_reap prio s =
    Some (s\<lparr>klog := klog s @ ks, thread_table := map clean_exited (thread_table s), pthread_count := pthread_count s - pthreads_exited s, pthreads_exited := 0\<rparr>)"
  using reap_loop_effect [of s "[]" "thread_table s" prio] zinvD(6) [OF assms(1)] assms(2)
  by (auto simp: pthread_reap_def tcore_def)

lemma cnt_clean:
  "cnt {EXITED} (map core_of (map clean_exited l)) = 0" "cnt {JOIN} (map core_of (map clean_exited l)) = cnt {JOIN} (map core_of l)"
  "cnt UNIV (map core_of (map clean_exited l)) = cnt UNIV (map core_of l) - cnt {EXITED} (map core_of l)"
  by (induction l) (auto simp: cnt_def clean_exited_def split: option.splits)

lemma clean_exited_Some: "clean_exited x = Some t \<longleftrightarrow> x = Some t \<and> state t \<noteq> EXITED"
  by (auto simp: clean_exited_def split: option.splits if_splits)

lemma pthread_reap_inv:
  assumes "zinv Z s" "lags_end s"
  shows "\<exists>s'. pthread_reap prio s = Some s' \<and> zinv Z s' \<and> lags_end s' \<and> pthreads_exited s' = 0 \<and> thread_table s' = map clean_exited (thread_table s) \<and>
    thread_info_next s' = thread_info_next s \<and> thread_id_cookie s' = thread_id_cookie s \<and> pmallocs s' = pmallocs s"
proof -
  obtain ks where e: "pthread_reap prio s =
    Some (s\<lparr>klog := klog s @ ks, thread_table := map clean_exited (thread_table s), pthread_count := pthread_count s - pthreads_exited s, pthreads_exited := 0\<rparr>)"
    using pthread_reap_effect [OF assms] by blast
  let ?s = "s\<lparr>klog := klog s @ ks, thread_table := map clean_exited (thread_table s), pthread_count := pthread_count s - pthreads_exited s, pthreads_exited := 0\<rparr>"
  have "zinv Z ?s"
    using zinvD [OF assms(1)] unfolding zinv_def surplus_def tcore_def by (auto simp: cnt_clean [unfolded map_map] clean_exited_Some)
  then show ?thesis using e assms(2) by (simp add: lags_end_def)
qed

subsection \<open>Identifiers\<close>

lemma index_mod: "unat (x AND THREAD_ID_COOKIE_MASK) = unat x mod 1024"
proof -
  have "THREAD_ID_COOKIE_MASK = mask 10" by (simp add: THREAD_ID_COOKIE_MASK_def THREAD_ID_COOKIE_INC_def mask_eq_exp_minus_1)
  then have "x AND THREAD_ID_COOKIE_MASK = take_bit 10 x" by (simp only: take_bit_eq_mask)
  moreover have "unat (take_bit 10 x) = take_bit 10 (unat x)" by (simp add: unsigned_take_bit_eq)
  ultimately show ?thesis by (simp add: take_bit_eq_mod [of 10 "unat x"])
qed

lemma unat_sum_mod: "unat (x + y :: u32) mod 1024 = (unat x mod 1024 + unat y mod 1024) mod 1024"
  by (simp add: unat_word_ariths mod_mod_cancel mod_simps)

lemma no_index_iff: "(x::u32) AND THREAD_ID_COOKIE_MASK = 0 \<longleftrightarrow> unat x mod 1024 = 0"
  unfolding index_mod [symmetric] by (simp only: unat_eq_0)

lemma new_id_index:
  assumes "i < 1024" "cookie AND THREAD_ID_COOKIE_MASK = 0"
  shows "unat ((of_nat i + cookie) AND THREAD_ID_COOKIE_MASK) = i"
  using assms unfolding index_mod no_index_iff unat_sum_mod by (simp add: unat_of_nat)

lemma cookie_step: "cookie AND THREAD_ID_COOKIE_MASK = 0 \<Longrightarrow> (cookie + THREAD_ID_COOKIE_INC) AND THREAD_ID_COOKIE_MASK = 0"
  unfolding no_index_iff unat_sum_mod by (simp add: THREAD_ID_COOKIE_INC_def)

lemma info_id_Ret:
  "pthread_info_id th s = Ret i \<longleftrightarrow>
     i = unat (th AND THREAD_ID_COOKIE_MASK) \<and> i < length (thread_table s) \<and> (\<exists>t. thread_table s ! i = Some t \<and> tid t = th \<and> state t \<noteq> EXITED \<and> state t \<noteq> FREE)"
  by (auto simp: pthread_info_id_def Let_def split: option.splits)

lemma info_id_local:
  assumes "length (thread_table s') = length (thread_table s)"
    "clean_exited (thread_table s' ! unat (th AND THREAD_ID_COOKIE_MASK)) = clean_exited (thread_table s ! unat (th AND THREAD_ID_COOKIE_MASK))"
  shows "pthread_info_id th s' = pthread_info_id th s"
  using assms by (auto simp: pthread_info_id_def Let_def clean_exited_def split: option.splits if_splits)

lemma clean_clean [simp]: "clean_exited (clean_exited x) = clean_exited x"
  by (simp add: clean_exited_def split: option.split)

lemma info_id_clean:
  assumes "thread_table s' = map clean_exited (thread_table s)"
  shows "pthread_info_id th s' = pthread_info_id th s"
proof (cases "unat (th AND THREAD_ID_COOKIE_MASK) < length (thread_table s)")
  case True
  then show ?thesis by (intro info_id_local) (simp_all add: assms)
qed (simp add: pthread_info_id_def assms Let_def)

subsection \<open>Creation\<close>

definition live :: "pthread_info option \<Rightarrow> bool" where
  "live x \<longleftrightarrow> clean_exited x \<noteq> None"

text \<open>The attributes a new thread gets, and where its stack comes from.\<close>

definition create_attr :: "pcfg \<Rightarrow> nat option \<Rightarrow> pthread_attr option \<Rightarrow> 'a pthreads_scheme \<Rightarrow> pthread_attr" where
  "create_attr c self attr s =
     (let a = (case attr of None \<Rightarrow> attr_default c | Some a \<Rightarrow> a)
      in if inheritsched a = PTHREAD_INHERIT_SCHED
         then a\<lparr>schedpolicy := schedpolicy (tattr (info (the self) s)), sched_priority := sched_priority (tattr (info (the self) s))\<rparr> else a)"

definition create_args_ok :: "pcfg \<Rightarrow> nat option \<Rightarrow> pthread_attr option \<Rightarrow> nat \<Rightarrow> 'a pthreads_scheme \<Rightarrow> bool" where
  "create_args_ok c self attr start s \<longleftrightarrow>
     start \<noteq> 0 \<and> (self = None \<longrightarrow> (\<exists>a. attr = Some a \<and> inheritsched a \<noteq> PTHREAD_INHERIT_SCHED)) \<and>
     (stackaddr_valid (create_attr c self attr s) \<or> (\<exists>p ps. pmallocs s = p # ps \<and> p \<noteq> 0))"

lemma create_unfold:
  assumes "create_args_ok c self attr start s"
  obtains fs sm ssize ps where
    "pthread_create c prio self True attr start arg s =
       do {
         s2 \<leftarrow> pthread_reap prio (s\<lparr>pmallocs := ps\<rparr>);
         slot \<leftarrow> slot_search (\<lambda>i. thread_table s2 ! i \<noteq> None) (length (thread_table s2)) (thread_info_next s2) (thread_info_next s2);
         case slot of
           None \<Rightarrow> Some (Err ENOMEM, if fs then kcalls [KFree sm] s2 else s2)
         | Some i \<Rightarrow> (let (th, s3) = install_thread c self (create_attr c self attr s) fs sm ssize start arg i s2 in Some (Ret th, s3))
       }"
proof -
  let ?a = "create_attr c self attr s"
  let ?ssize = "if stacksize_valid ?a then stacksize ?a else PTHREAD_STACK_MIN c"
  define r where "r = (if stackaddr_valid ?a then (stackaddr ?a - ?ssize, s) else pthread_malloc s)"
  have ps: "\<exists>ps. snd r = s\<lparr>pmallocs := ps\<rparr>" by (auto simp: r_def pthread_malloc_def split: list.split intro: exI [of _ "pmallocs s"])
  then obtain ps where ps: "snd r = s\<lparr>pmallocs := ps\<rparr>" by blast
  have sm: "\<not> (\<not> stackaddr_valid ?a \<and> fst r = 0)" using assms by (auto simp: r_def create_args_ok_def pthread_malloc_def)
  have self: "\<not> (inheritsched (case attr of None \<Rightarrow> attr_default c | Some a \<Rightarrow> a) = PTHREAD_INHERIT_SCHED \<and> self = None)"
    using assms by (auto simp: create_args_ok_def)
  have start: "\<not> (\<not> True \<or> start = 0)" using assms by (simp add: create_args_ok_def)
  show thesis
  proof (rule that [of ps "\<not> stackaddr_valid ?a" "fst r" ?ssize])
    show "pthread_create c prio self True attr start arg s =
       do {
         s2 \<leftarrow> pthread_reap prio (s\<lparr>pmallocs := ps\<rparr>);
         slot \<leftarrow> slot_search (\<lambda>i. thread_table s2 ! i \<noteq> None) (length (thread_table s2)) (thread_info_next s2) (thread_info_next s2);
         case slot of
           None \<Rightarrow> Some (Err ENOMEM, if \<not> stackaddr_valid ?a then kcalls [KFree (fst r)] s2 else s2)
         | Some i \<Rightarrow> (let (th, s3) = install_thread c self ?a (\<not> stackaddr_valid ?a) (fst r) ?ssize start arg i s2 in Some (Ret th, s3))
       }"
      unfolding pthread_create_def Let_def if_not_P [OF start] if_not_P [OF self] create_attr_def [symmetric, unfolded Let_def] r_def [symmetric]
        case_prod_beta if_not_P [OF sm] ps ..
  qed
qed

lemma tcore_update: "thread_table s' = (thread_table s)[i := x] \<Longrightarrow> tcore s' = (tcore s)[i := core_of x]"
  by (simp add: tcore_def map_update)

lemma install_thread_effect:
  assumes "zinv Z s" "i < length (thread_table s)" "thread_table s ! i = None"
  shows "\<exists>th t. fst (install_thread c self a fs sm ssize start arg i s) = th \<and> zinv Z (snd (install_thread c self a fs sm ssize start arg i s)) \<and>
    thread_table (snd (install_thread c self a fs sm ssize start arg i s)) = (thread_table s)[i := Some t] \<and>
    lag (snd (install_thread c self a fs sm ssize start arg i s)) = lag s \<and>
    unat (th AND THREAD_ID_COOKIE_MASK) = i \<and> tid t = th \<and> state t = (if detachstate a = PTHREAD_CREATE_JOINABLE then RUNNING else DETACHED) \<and>
    start_routine t = start \<and> start_arg t = arg \<and> tattr t = a \<and> sigmask t = (case self of None \<Rightarrow> 0 | Some j \<Rightarrow> sigmask (info j s)) \<and>
    sigpending t = 0 \<and> \<not> cancelpending t"
proof -
  let ?r = "install_thread c self a fs sm ssize start arg i s" and ?th = "of_nat i + (thread_id_cookie s + THREAD_ID_COOKIE_INC)"
  note D = zinvD [OF assms(1)]
  obtain t where t: "thread_table (snd ?r) = (thread_table s)[i := Some t]" "tid t = ?th"
    "state t = (if detachstate a = PTHREAD_CREATE_JOINABLE then RUNNING else DETACHED)" "start_routine t = start" "start_arg t = arg" "tattr t = a"
    "sigmask t = (case self of None \<Rightarrow> 0 | Some j \<Rightarrow> sigmask (info j s))" "sigpending t = 0" "\<not> cancelpending t"
    by (auto simp: install_thread_def Let_def cyg_posix_thread_siginit_def split: option.split)
  have ix: "unat (?th AND THREAD_ID_COOKIE_MASK) = i" using assms(2) D(2) by (intro new_id_index cookie_step D(3)) simp
  have "zinv Z (snd ?r)"
  proof (rule zinv_update [OF assms(1,2) tcore_update [OF t(1)]])
    show "thread_info_next (snd ?r) < length (thread_table s)" "thread_id_cookie (snd ?r) AND THREAD_ID_COOKIE_MASK = 0"
      using assms(2) cookie_step [OF D(3)] by (simp_all add: install_thread_def Let_def)
  qed (use assms(2,3) t(2,3) ix in \<open>auto simp: install_thread_def Let_def split: if_splits\<close>)
  moreover have "fst ?r = ?th" "lag (snd ?r) = lag s" by (simp_all add: install_thread_def Let_def)
  ultimately show ?thesis using t ix by (intro exI [of _ ?th] exI [of _ t]) blast
qed

text \<open>
  Creating a thread ends. Unless every slot holds a thread that has not exited (\<open>ENOMEM\<close>), the new thread gets a free slot
  and an identifier that leads to it; the threads in the other slots, and what all other identifiers lead to, are unchanged.
\<close>

lemma create_effect:
  assumes "zinv Z s" "lags_end s" "create_args_ok c self attr start s"
  shows "\<exists>r s'. pthread_create c prio self True attr start arg s = Some (r, s') \<and> zinv Z s' \<and> lags_end s' \<and>
    ((r = Err ENOMEM \<and> (\<forall>i<length (thread_table s). live (thread_table s ! i)) \<and> thread_table s' = map clean_exited (thread_table s)) \<or>
     (\<exists>th i t. r = Ret th \<and> i < length (thread_table s) \<and> \<not> live (thread_table s ! i) \<and> thread_table s' = (map clean_exited (thread_table s))[i := Some t] \<and>
        unat (th AND THREAD_ID_COOKIE_MASK) = i \<and> tid t = th \<and> state t = (if detachstate (create_attr c self attr s) = PTHREAD_CREATE_JOINABLE then RUNNING else DETACHED) \<and>
        start_routine t = start \<and> start_arg t = arg \<and> tattr t = create_attr c self attr s))"
proof -
  obtain fs sm ssize ps where e: "pthread_create c prio self True attr start arg s =
       do {
         s2 \<leftarrow> pthread_reap prio (s\<lparr>pmallocs := ps\<rparr>);
         slot \<leftarrow> slot_search (\<lambda>i. thread_table s2 ! i \<noteq> None) (length (thread_table s2)) (thread_info_next s2) (thread_info_next s2);
         case slot of
           None \<Rightarrow> Some (Err ENOMEM, if fs then kcalls [KFree sm] s2 else s2)
         | Some i \<Rightarrow> (let (th, s3) = install_thread c self (create_attr c self attr s) fs sm ssize start arg i s2 in Some (Ret th, s3))
       }" by (rule create_unfold [OF assms(3)])
  have i0: "zinv Z (s\<lparr>pmallocs := ps\<rparr>)" by (rule zinv_same [OF assms(1)]) (simp_all add: tcore_def)
  have l0: "lags_end (s\<lparr>pmallocs := ps\<rparr>)" using assms(2) by (simp add: lags_end_def)
  from pthread_reap_inv [OF i0 l0] obtain s2 where r: "pthread_reap prio (s\<lparr>pmallocs := ps\<rparr>) = Some s2" "zinv Z s2" "lags_end s2"
    "thread_table s2 = map clean_exited (thread_table s)" by auto
  let ?n = "length (thread_table s2)" and ?used = "\<lambda>i. thread_table s2 ! i \<noteq> None"
  have len: "?n = length (thread_table s)" by (simp add: r(4))
  have ent: "thread_table s2 ! i = clean_exited (thread_table s ! i)" if "i < length (thread_table s)" for i using that by (simp add: r(4))
  from slot_search_finds [OF zinvD(1) [OF r(2)], of ?used] show ?thesis
  proof (elim disjE exE conjE)
    fix i
    assume i: "i < ?n" "\<not> ?used i" "slot_search ?used ?n (thread_info_next s2) (thread_info_next s2) = Some (Some i)"
    let ?r = "install_thread c self (create_attr c self attr s) fs sm ssize start arg i s2"
    have c: "pthread_create c prio self True attr start arg s = Some (Ret (fst ?r), snd ?r)" using r(1) i(3) unfolding e by (simp add: case_prod_beta Let_def)
    from install_thread_effect [OF r(2) i(1), of c self "create_attr c self attr s" fs sm ssize start arg] i(2)
    obtain th t where "fst ?r = th" "zinv Z (snd ?r)" "thread_table (snd ?r) = (thread_table s2)[i := Some t]" "lag (snd ?r) = lag s2"
      "unat (th AND THREAD_ID_COOKIE_MASK) = i" "tid t = th" "state t = (if detachstate (create_attr c self attr s) = PTHREAD_CREATE_JOINABLE then RUNNING else DETACHED)"
      "start_routine t = start" "start_arg t = arg" "tattr t = create_attr c self attr s" by blast
    moreover have "\<not> live (thread_table s ! i)" using i(1,2) ent len by (simp add: live_def)
    moreover have "lags_end (snd ?r)" using r(3) \<open>lag (snd ?r) = lag s2\<close> by (simp add: lags_end_def)
    ultimately show ?thesis using c i(1) len r(4)
      by (intro exI [of _ "Ret th"] exI [of _ "snd ?r"] conjI disjI2 exI [of _ th] exI [of _ i] exI [of _ t]) simp_all
  next
    assume all: "\<forall>i<?n. ?used i" and "slot_search ?used ?n (thread_info_next s2) (thread_info_next s2) = Some None"
    then have c: "pthread_create c prio self True attr start arg s = Some (Err ENOMEM, if fs then kcalls [KFree sm] s2 else s2)"
      using r(1) unfolding e by simp
    have "zinv Z (if fs then kcalls [KFree sm] s2 else s2)" by (rule zinv_same [OF r(2)]) (simp_all add: tcore_def)
    moreover have "\<forall>i<length (thread_table s). live (thread_table s ! i)" using all ent len by (simp add: live_def)
    ultimately show ?thesis using c r(3,4) by (auto simp: lags_end_def)
  qed
qed

subsection \<open>The end of a thread\<close>

lemma state_update_inv:
  assumes inv: "zinv Z s" and i: "i < length (thread_table s)" and t: "thread_table s ! i = Some t"
    and tab: "thread_table s' = (thread_table s)[i := Some t']" and t': "tid t' = tid t" "state t' \<noteq> FREE"
    and "thread_info_next s' = thread_info_next s" "thread_id_cookie s' = thread_id_cookie s" "pthread_count s' = pthread_count s"
    and "pthreads_exited s' = pthreads_exited s - of_bool (state t = EXITED) + of_bool (state t' = EXITED)"
    and "pthreads_tobejoined s' = pthreads_tobejoined s - of_bool (state t = JOIN) + of_bool (state t' = JOIN)"
  shows "zinv Z s'"
proof (rule zinv_update [OF inv i tcore_update [OF tab]])
  show "\<And>th st. core_of (Some t') = Some (th, st) \<Longrightarrow> unat (th AND THREAD_ID_COOKIE_MASK) = i \<and> st \<noteq> FREE"
    using zinvD(4) [OF inv i t] t' by auto
qed (use assms zinvD(1,3) [OF inv] in simp_all)

definition alive :: "pthread_info option \<Rightarrow> bool" where
  "alive x = (case x of None \<Rightarrow> False | Some t \<Rightarrow> state t = RUNNING \<or> state t = DETACHED)"

lemma thread_finish_effect:
  assumes "zinv Z s" "i < length (thread_table s)" "thread_table s ! i = Some t" "alive (Some t)"
  shows "zinv Z (thread_finish rv i s)"
    "thread_table (thread_finish rv i s) = (thread_table s)[i := Some (t\<lparr>retval := rv, state := if state t = DETACHED then EXITED else JOIN\<rparr>)]"
    "lag (thread_finish rv i s) = lag s"
proof -
  show tab: "thread_table (thread_finish rv i s) = (thread_table s)[i := Some (t\<lparr>retval := rv, state := if state t = DETACHED then EXITED else JOIN\<rparr>)]"
    using assms(2,3) by (simp add: thread_finish_def Let_def)
  show "lag (thread_finish rv i s) = lag s" by (simp add: thread_finish_def Let_def)
  show "zinv Z (thread_finish rv i s)"
    by (rule state_update_inv [OF assms(1-3) tab]) (use assms(2-4) in \<open>auto simp: thread_finish_def Let_def alive_def\<close>)
qed

lemma cnt_total:
  assumes "\<forall>x \<in> set l. \<not> in_state {FREE} x"
  shows "cnt UNIV l = cnt {EXITED} l + cnt {JOIN} l + cnt {RUNNING, DETACHED} l"
  using assms
proof (induction l)
  case (Cons x l)
  then show ?case by (cases x; cases "snd (the x)") (auto simp: cnt_def in_state_def split: prod.splits)
qed (simp add: cnt_def)

lemma cnt_zero: "cnt S l = 0 \<longleftrightarrow> (\<forall>x \<in> set l. \<not> in_state S x)"
  by (auto simp: cnt_def filter_empty_conv)

lemma all_ended_iff:
  assumes "thread_inv s"
  shows "pthreads_exited s + pthreads_tobejoined s = pthread_count s \<longleftrightarrow> (\<forall>x \<in> set (thread_table s). \<not> alive x)"
proof -
  have "\<not> in_state {FREE} x" if "x \<in> set (tcore s)" for x
  proof -
    obtain i where "i < length (thread_table s)" "x = core_of (thread_table s ! i)" using \<open>x \<in> set (tcore s)\<close> by (auto simp: tcore_def in_set_conv_nth)
    then show ?thesis using zinvD(4) [OF assms, of i] by (cases "thread_table s ! i") auto
  qed
  then have "pthreads_exited s + pthreads_tobejoined s = pthread_count s \<longleftrightarrow> cnt {RUNNING, DETACHED} (tcore s) = 0"
    using cnt_total zinvD(5-7) [OF assms] by (simp add: surplus_def)
  also have "\<dots> \<longleftrightarrow> (\<forall>x \<in> set (thread_table s). \<not> alive x)"
    by (force simp: cnt_zero tcore_def alive_def in_state_def split: option.splits)
  finally show ?thesis .
qed

subsection \<open>Joining and detaching\<close>

lemma join_collect_effect:
  assumes "zinv Z s" "lags_end s" "j < length (thread_table s)" "thread_table s ! j = Some t" "state t = JOIN"
  shows "\<exists>s'. join_collect prio j s = Some (Ret (retval t), s') \<and> zinv Z s' \<and> lags_end s' \<and> thread_table s' = (map clean_exited (thread_table s))[j := None]"
proof -
  let ?s1 = "(upd_thread j (\<lambda>t. t\<lparr>state := EXITED\<rparr>) s)\<lparr>pthreads_exited := pthreads_exited s + 1, pthreads_tobejoined := pthreads_tobejoined s - 1\<rparr>"
  have tab: "thread_table ?s1 = (thread_table s)[j := Some (t\<lparr>state := EXITED\<rparr>)]" using assms(4) by simp
  have "zinv Z ?s1" by (rule state_update_inv [OF assms(1,3,4) tab]) (simp_all add: assms(5))
  moreover have "lags_end ?s1" using assms(2) by (simp add: lags_end_def)
  ultimately obtain s' where "pthread_reap prio ?s1 = Some s'" "zinv Z s'" "lags_end s'" "thread_table s' = map clean_exited (thread_table ?s1)"
    using pthread_reap_inv [of Z ?s1 prio] by blast
  then show ?thesis using assms(4) by (simp add: join_collect_def Let_def map_update clean_exited_def [of "Some (t\<lparr>state := EXITED\<rparr>)"])
qed

lemma clean_alive: "alive x \<Longrightarrow> clean_exited x = x" "state t = JOIN \<Longrightarrow> clean_exited (Some t) = Some t"
  by (auto simp: alive_def clean_exited_def split: option.splits)

text \<open>A thread that waits to be joined is collected: its value is returned, and it is gone.\<close>

lemma join_locked_effect:
  assumes "zinv Z s" "lags_end s" "pthread_info_id th s = Ret j" "self \<noteq> Some j" "state (info j s) = JOIN"
  shows "\<exists>s'. pthread_join_locked prio self th ws s = Some (Ret (retval (info j s)), s') \<and> zinv Z s' \<and> lags_end s' \<and>
    thread_table s' = (map clean_exited (thread_table s))[j := None]"
proof -
  obtain t where t: "j < length (thread_table s)" "thread_table s ! j = Some t" "state t = JOIN" using assms(3,5) by (auto simp: info_id_Ret)
  from pthread_reap_inv [OF assms(1,2), of prio] obtain s1 where r: "pthread_reap prio s = Some s1" "zinv Z s1" "lags_end s1" "thread_table s1 = map clean_exited (thread_table s)"
    by blast
  have id: "pthread_info_id th s1 = Ret j" using info_id_clean [OF r(4)] assms(3) by simp
  have t1: "j < length (thread_table s1)" "thread_table s1 ! j = Some t" using t by (simp_all add: r(4) clean_alive(2))
  from join_collect_effect [OF r(2,3) t1 t(3), of prio] obtain s' where
    "join_collect prio j s1 = Some (Ret (retval t), s')" "zinv Z s'" "lags_end s'" "thread_table s' = (map clean_exited (thread_table s1))[j := None]" by blast
  then show ?thesis using r(1,4) id assms(4) t(2,3) t1 by (simp add: pthread_join_locked_def join_switch_def comp_def)
qed

text \<open>A thread that is still running is waited for; \<open>w\<close> is what the others do until it has ended.\<close>

lemma join_locked_waits:
  assumes "zinv Z s" "lags_end s" "pthread_info_id th s = Ret j" "self \<noteq> Some j" "state (info j s) = RUNNING"
    and s1: "s1 = the (pthread_reap prio s)" and w: "w s1 = (True, s2)" "zinv Z s2" "lags_end s2" "pthread_info_id th s2 = Ret j" "state (info j s2) = JOIN"
  shows "\<exists>s'. pthread_join_locked prio self th (w # ws) s = Some (Ret (retval (info j s2)), s') \<and> zinv Z s' \<and> lags_end s' \<and>
    thread_table s' = (map clean_exited (thread_table s2))[j := None]"
proof -
  obtain t where t: "j < length (thread_table s)" "thread_table s ! j = Some t" "state t = RUNNING" "tid t = th" using assms(3,5) by (auto simp: info_id_Ret)
  from pthread_reap_inv [OF assms(1,2), of prio] have r: "pthread_reap prio s = Some s1" "thread_table s1 = map clean_exited (thread_table s)"
    by (auto simp: s1)
  have id: "pthread_info_id th s1 = Ret j" using info_id_clean [OF r(2)] assms(3) by simp
  have t1: "thread_table s1 ! j = Some t" using t clean_alive(1) [of "Some t"] by (simp add: r(2) alive_def)
  obtain t2 where t2: "j < length (thread_table s2)" "thread_table s2 ! j = Some t2" "state t2 = JOIN" "tid t2 = th" using w(4,5) by (auto simp: info_id_Ret)
  have "join_wait self j th ws s2 = Some (Ret (), s2)" using t2 by (cases ws) simp_all
  then have "join_switch self j th (w # ws) s1 = Some (Ret (), s2)" using t1 t t2 w(1) by (simp add: join_switch_def)
  moreover from join_collect_effect [OF w(2,3) t2(1-3), of prio] obtain s' where
    "join_collect prio j s2 = Some (Ret (retval t2), s')" "zinv Z s'" "lags_end s'" "thread_table s' = (map clean_exited (thread_table s2))[j := None]" by blast
  ultimately show ?thesis using r(1) id assms(4) t2(2) by (simp add: pthread_join_locked_def)
qed

end
