(* ===== verification/Posix_Signal_Correct.thy ===== *)
theory Posix_Signal_Correct
  imports Posix_Signal Posix_Thread_Correct "HOL-Library.Multiset"
begin

text \<open>
  Correctness of signals: what a delivery calls and in which order, that nothing queued is lost, and where the delivery never
  ends.
\<close>

subsection \<open>Sets\<close>

lemma bit_sigbit: "bit (sigbit n) m \<longleftrightarrow> n = m \<and> m < 32"
  by (auto simp: sigbit_def bit_simps)

lemma and_sigbit: "(x AND sigbit n \<noteq> 0) = bit x n"
  by (simp add: sigbit_def bit_iff_and_push_bit_not_eq_0)

text \<open>The three operations on sets agree with those on sets of numbers.\<close>

definition sig_elems :: "u32 \<Rightarrow> nat set" where
  "sig_elems x = {n. 0 < n \<and> bit x n}"

theorem sigset_operations:
  assumes "SIGNAL_VALID n"
  shows "sigismember n x = Ret (n \<in> sig_elems x)" "sig_elems (snd (sigaddset n x)) = insert n (sig_elems x)"
    "sig_elems (snd (sigdelset n x)) = sig_elems x - {n}" "sig_elems sigemptyset = {}" "n \<in> sig_elems sigfillset"
proof -
  have n: "0 < n" "n < 32" using assms by (simp_all add: SIGNAL_VALID_def)
  show "sigismember n x = Ret (n \<in> sig_elems x)" using n by (simp add: sigismember_def assms and_sigbit sig_elems_def)
  show "sig_elems (snd (sigaddset n x)) = insert n (sig_elems x)" "sig_elems (snd (sigdelset n x)) = sig_elems x - {n}"
    using n by (auto simp: sigaddset_def sigdelset_def assms sig_elems_def bit_simps bit_sigbit dest: bit_imp_le_length)
  show "sig_elems sigemptyset = {}" "n \<in> sig_elems sigfillset" using n by (simp_all add: sig_elems_def sigemptyset_def sigfillset_def bit_simps)
qed

subsection \<open>Delivery\<close>

definition sig_ok :: "nat \<Rightarrow> 'a signals_scheme \<Rightarrow> bool" where
  "sig_ok i s \<longleftrightarrow> length (sigstate s) = 32 \<and> i < length (thread_table s) \<and> thread_table s ! i \<noteq> None"

text \<open>Handlers that return and do not use the signal functions themselves.\<close>

definition quiet :: "'a handlers \<Rightarrow> bool" where
  "quiet H \<longleftrightarrow>
     (\<forall>h b lsi s. \<exists>s'. H h b lsi s = Some s' \<and> thread_table s' = thread_table s \<and> sig_pending s' = sig_pending s \<and> sigstate s' = sigstate s \<and>
        siginfo_next s' = siginfo_next s \<and> sig_mutex s' = sig_mutex s \<and> slog s' = slog s)"

definition caught :: "sig_action \<Rightarrow> bool" where
  "caught a \<longleftrightarrow> sa_handler a \<noteq> SIG_IGN \<and> (sa_siginfo a \<or> sa_handler a \<noteq> SIG_DFL)"

definition catches :: "nat \<Rightarrow> 'a signals_scheme \<Rightarrow> bool" where
  "catches i s \<longleftrightarrow> (\<forall>n. bit (deliverable i s) n \<longrightarrow> caught (sa (sigstate s ! n)))"

text \<open>What is passed to the handler of a pending signal, and the calls that a delivery should make: lowest signal first, queued values in order.\<close>

definition infos :: "nat \<Rightarrow> 'a signals_scheme \<Rightarrow> siginfo list" where
  "infos n s = (if pending (sigstate s ! n) = [] then [\<lparr>si_signo = n, si_code = SI_USER, si_value = 0\<rparr>] else map snd (pending (sigstate s ! n)))"

definition sig_calls :: "nat \<Rightarrow> 'a signals_scheme \<Rightarrow> nat \<Rightarrow> scall list" where
  "sig_calls i s n = (if bit (deliverable i s) n then map (SHandler n) (infos n s) else [])"

definition expected :: "nat \<Rightarrow> 'a signals_scheme \<Rightarrow> scall list" where
  "expected i s = concat (map (sig_calls i s) [0..<32])"

lemma expected_lowest:
  assumes "n < 32" "\<And>j. j < n \<Longrightarrow> sig_calls i s j = []"
  shows "expected i s = sig_calls i s n @ concat (map (sig_calls i s) [Suc n..<32])"
proof -
  have "[0..<32] = [0..<n] @ n # [Suc n..<32]" using assms(1) by (metis le_add_same_cancel1 less_imp_le_nat upt_add_eq_append upt_conv_Cons zero_le le_add_diff_inverse plus_nat.add_0)
  moreover have "concat (map (sig_calls i s) [0..<n]) = []" using assms(2) by auto
  ultimately show ?thesis by (simp add: expected_def del: upt_Suc)
qed

lemma expected_single:
  assumes "deliverable i s = sigbit n" "n < 32"
  shows "expected i s = map (SHandler n) (infos n s)"
proof -
  have calls: "sig_calls i s j = (if j = n then map (SHandler n) (infos n s) else [])" for j using assms by (auto simp: sig_calls_def bit_sigbit)
  have "concat (map (sig_calls i s) [Suc n..<32]) = []" by (simp add: calls)
  then show ?thesis using expected_lowest [OF assms(2), of i s] by (simp add: calls)
qed

text \<open>One round: the state from which the loop goes on after the handler of the lowest signal \<open>n\<close> has returned.\<close>

definition after_round :: "nat \<Rightarrow> nat \<Rightarrow> 'a signals_scheme \<Rightarrow> 'a signals_scheme \<Rightarrow> bool" where
  "after_round i n s s' \<longleftrightarrow>
     sig_ok i s' \<and> sig_mutex s' = Some (Some i) \<and> sigmask (info i s') = sigmask (info i s) \<and> cancelpending (info i s') = cancelpending (info i s) \<and>
     sigstate s' = (sigstate s)[n := (sigstate s ! n)\<lparr>pending := tl (pending (sigstate s ! n))\<rparr>] \<and>
     siginfo_next s' = map fst (take 1 (pending (sigstate s ! n))) @ siginfo_next s \<and>
     slog s' = slog s @ [SHandler n (hd (infos n s))] \<and>
     (if length (pending (sigstate s ! n)) \<le> 1
      then sig_pending s' = sig_pending s AND NOT (sigbit n) \<and> sigpending (info i s') = sigpending (info i s) AND NOT (sigbit n)
      else sig_pending s' = sig_pending s \<and> sigpending (info i s') = sigpending (info i s)) \<and>
     (\<forall>j. j \<noteq> i \<longrightarrow> thread_table s' ! j = thread_table s ! j)"

lemma no_pending: "pending x = [] \<Longrightarrow> x\<lparr>pending := []\<rparr> = x"
  by (cases x) simp

lemma dequeue_effect:
  assumes "sig_ok i s"
  shows "fst (dequeue_signal n s) = hd (infos n s)"
    "sigstate (snd (dequeue_signal n s)) = (sigstate s)[n := (sigstate s ! n)\<lparr>pending := tl (pending (sigstate s ! n))\<rparr>]"
    "siginfo_next (snd (dequeue_signal n s)) = map fst (take 1 (pending (sigstate s ! n))) @ siginfo_next s"
    "thread_table (snd (dequeue_signal n s)) = thread_table s" "sig_pending (snd (dequeue_signal n s)) = sig_pending s"
    "slog (snd (dequeue_signal n s)) = slog s"
  by (auto simp: dequeue_signal_def infos_def no_pending split: list.split)

lemma clear_effect:
  assumes "sig_ok i s"
  shows "sigstate (clear_pending i n s) = sigstate s" "siginfo_next (clear_pending i n s) = siginfo_next s" "slog (clear_pending i n s) = slog s"
    "sigmask (info i (clear_pending i n s)) = sigmask (info i s)" "cancelpending (info i (clear_pending i n s)) = cancelpending (info i s)" "j \<noteq> i \<Longrightarrow> thread_table (clear_pending i n s) ! j = thread_table s ! j"
    "sig_pending (clear_pending i n s) = (if pending (sigstate s ! n) = [] then sig_pending s AND NOT (sigbit n) else sig_pending s)"
    "sigpending (info i (clear_pending i n s)) = (if pending (sigstate s ! n) = [] then sigpending (info i s) AND NOT (sigbit n) else sigpending (info i s))"
    "sig_ok i (clear_pending i n s)"
  using assms by (auto simp: clear_pending_def sig_ok_def)

lemma deliver_round:
  assumes "quiet H" "sig_ok i s" "sig_mutex s = Some (Some i)" "deliverable i s \<noteq> 0" "n = unat (hal_lsbit_index (deliverable i s))" "n < 32" "caught (sa (sigstate s ! n))"
  shows "\<exists>s'. deliver_loop H i res s = deliver_loop H i True s' \<and> after_round i n s s'"
proof -
  let ?act = "sa (sigstate s ! n)"
  define s1 where "s1 = snd (dequeue_signal n s)"
  define lsi where "lsi = fst (dequeue_signal n s)"
  define s2 where "s2 = clear_pending i n s1"
  define s3 where "s3 = signal_unlock (upd_thread i (\<lambda>t. t\<lparr>sigmask := sigmask (info i s) OR sa_mask ?act OR sigbit n\<rparr>) s2)"
  define s3' where "s3' = s3\<lparr>slog := slog s3 @ [SHandler n lsi]\<rparr>"
  obtain s4 where s4: "H (sa_handler ?act) (sa_siginfo ?act) lsi s3' = Some s4" "thread_table s4 = thread_table s3'" "sig_pending s4 = sig_pending s3'"
    "sigstate s4 = sigstate s3'" "siginfo_next s4 = siginfo_next s3'" "sig_mutex s4 = sig_mutex s3'" "slog s4 = slog s3'"
    using assms(1) unfolding quiet_def by meson
  define s5 where "s5 = s4\<lparr>sig_mutex := Some (Some i)\<rparr>"
  define s6 where "s6 = upd_thread i (\<lambda>t. t\<lparr>sigmask := sigmask (info i s)\<rparr>) s5"
  have m4: "sig_mutex s4 = None" by (simp add: s4(6) s3'_def s3_def)
  have "deliver_loop H i res s = deliver_loop H i True s6"
    using assms(4,7) s4(1) m4 unfolding caught_def
    by (subst deliver_loop.simps) (auto simp add: Let_def case_prod_beta signal_lock_def simp flip: assms(5) lsi_def s1_def s2_def s3_def s3'_def s5_def s6_def)
  moreover have "after_round i n s s6"
  proof -
    note d = dequeue_effect [OF assms(2), of n, folded s1_def lsi_def]
    have ok1: "sig_ok i s1" using assms(2,6) d by (simp add: sig_ok_def)
    note c = clear_effect [OF ok1, where n = n, folded s2_def]
    have i2: "i < length (thread_table s2)" using c(9) by (simp add: sig_ok_def)
    have p1: "pending (sigstate s1 ! n) = tl (pending (sigstate s ! n))" using assms(2,6) d(2) by (simp add: sig_ok_def)
    have len: "(tl (pending (sigstate s ! n)) = []) = (length (pending (sigstate s ! n)) \<le> 1)" by (cases "pending (sigstate s ! n)") auto
    have "thread_table s6 ! i = Some ((info i s2)\<lparr>sigmask := sigmask (info i s)\<rparr>)" "j \<noteq> i \<Longrightarrow> thread_table s6 ! j = thread_table s2 ! j"
      "length (thread_table s6) = length (thread_table s2)" for j
      using i2 by (simp_all add: s6_def s5_def s4(2) s3'_def s3_def)
    moreover have "sig_pending s6 = sig_pending s2" "sigstate s6 = sigstate s2" "siginfo_next s6 = siginfo_next s2" "sig_mutex s6 = Some (Some i)"
      "slog s6 = slog s2 @ [SHandler n lsi]"
      by (simp_all add: s6_def s5_def s4 s3'_def s3_def)
    ultimately show ?thesis using c d p1 len i2 unfolding after_round_def sig_ok_def by simp
  qed
  ultimately show ?thesis by blast
qed

lemma lsb_lowest:
  assumes "(x::u32) \<noteq> 0"
  shows "unat (hal_lsbit_index x) < 32" "bit x (unat (hal_lsbit_index x))" "j < unat (hal_lsbit_index x) \<Longrightarrow> \<not> bit x j"
proof -
  obtain k where k: "k < 32" "bit x k" "\<forall>j<k. \<not> bit x j" using lowest_bit_exists [OF assms] by blast
  have "unat (hal_lsbit_index x) = k" using hal_lsbit_index_lowest [OF k] k(1) by (simp add: unat_of_nat)
  then show "unat (hal_lsbit_index x) < 32" "bit x (unat (hal_lsbit_index x))" "j < unat (hal_lsbit_index x) \<Longrightarrow> \<not> bit x j" using k by auto
qed

lemma round_bits:
  assumes "after_round i n s s'"
  shows "bit (deliverable i s') m = (bit (deliverable i s) m \<and> (m = n \<longrightarrow> 1 < length (pending (sigstate s ! n))))"
  using assms by (auto simp: after_round_def deliverable_def bit_simps bit_sigbit dest: bit_imp_le_length split: if_splits)

lemma round_expected:
  assumes "after_round i n s s'" "length (sigstate s) = 32" "n < 32" "bit (deliverable i s) n" "\<And>j. j < n \<Longrightarrow> \<not> bit (deliverable i s) j"
  shows "expected i s = SHandler n (hd (infos n s)) # expected i s'"
proof -
  note b = round_bits [OF assms(1)]
  have st: "sigstate s' = (sigstate s)[n := (sigstate s ! n)\<lparr>pending := tl (pending (sigstate s ! n))\<rparr>]" using assms(1) by (simp add: after_round_def)
  have other: "sig_calls i s' m = sig_calls i s m" if "m \<noteq> n" for m using that b [of m] by (simp add: sig_calls_def infos_def st)
  have low: "sig_calls i s j = []" "sig_calls i s' j = []" if "j < n" for j using that other [of j] assms(5) by (simp_all add: sig_calls_def)
  have "sig_calls i s n = SHandler n (hd (infos n s)) # sig_calls i s' n"
    using assms(2,3,4) b [of n] by (cases "pending (sigstate s ! n)") (auto simp: sig_calls_def infos_def st)
  moreover have "map (sig_calls i s') [Suc n..<32] = map (sig_calls i s) [Suc n..<32]" by (rule map_cong [OF refl]) (simp add: other)
  ultimately show ?thesis using expected_lowest [OF assms(3) low(1)] expected_lowest [OF assms(3) low(2)] by (simp del: map_eq_conv)
qed

lemma expected_empty: "deliverable i s = 0 \<Longrightarrow> expected i s = []"
  by (simp add: expected_def sig_calls_def)

text \<open>The state after a delivery: nothing deliverable is left, what was masked is still pending, and the queues of the delivered signals are empty.\<close>

definition delivered :: "nat \<Rightarrow> 'a signals_scheme \<Rightarrow> 'a signals_scheme \<Rightarrow> bool" where
  "delivered i s s' \<longleftrightarrow>
     deliverable i s' = 0 \<and> slog s' = slog s @ expected i s \<and> sigmask (info i s') = sigmask (info i s) \<and> sig_mutex s' = sig_mutex s \<and> sig_ok i s' \<and>
     cancelpending (info i s') = cancelpending (info i s) \<and>
     sig_pending s' = sig_pending s AND NOT (deliverable i s) \<and> sigpending (info i s') = sigpending (info i s) AND NOT (deliverable i s) \<and>
     (\<forall>n<32. sigstate s' ! n = (if bit (deliverable i s) n then (sigstate s ! n)\<lparr>pending := []\<rparr> else sigstate s ! n)) \<and>
     mset (siginfo_next s') + mset (concat (map (\<lambda>ss. map fst (pending ss)) (sigstate s'))) =
       mset (siginfo_next s) + mset (concat (map (\<lambda>ss. map fst (pending ss)) (sigstate s)))"

lemma pool_update:
  assumes "n < length l"
  shows "mset (concat (map f (l[n := x]))) + mset (f (l ! n)) = mset (concat (map f l)) + mset (f x)"
proof -
  have "l = take n l @ l ! n # drop (Suc n) l" using assms by (rule id_take_nth_drop)
  then have "mset (concat (map f l)) = mset (concat (map f (take n l))) + mset (f (l ! n)) + mset (concat (map f (drop (Suc n) l)))"
    by (metis (no_types, lifting) add.assoc concat.simps(2) concat_append list.simps(9) map_append mset_append)
  then show ?thesis using assms by (simp add: upd_conv_take_nth_drop)
qed

lemma round_pool:
  assumes "after_round i n s s'" "n < length (sigstate s)"
  shows "mset (siginfo_next s') + mset (concat (map (\<lambda>ss. map fst (pending ss)) (sigstate s'))) =
    mset (siginfo_next s) + mset (concat (map (\<lambda>ss. map fst (pending ss)) (sigstate s)))"
proof -
  let ?x = "(sigstate s ! n)\<lparr>pending := tl (pending (sigstate s ! n))\<rparr>"
  have e: "sigstate s' = (sigstate s)[n := ?x]" "siginfo_next s' = map fst (take 1 (pending (sigstate s ! n))) @ siginfo_next s"
    using assms(1) by (simp_all add: after_round_def)
  have "mset (map fst (pending (sigstate s ! n))) = mset (map fst (take 1 (pending (sigstate s ! n)))) + mset (map fst (pending ?x))"
    by (cases "pending (sigstate s ! n)") simp_all
  then show ?thesis using pool_update [OF assms(2), of "\<lambda>ss. map fst (pending ss)" ?x] unfolding e by (simp add: add.commute)
qed

lemma round_delivered:
  assumes r: "after_round i n s s1" and d: "delivered i s1 s'" and ok: "length (sigstate s) = 32" "n < 32" "bit (deliverable i s) n" "\<And>j. j < n \<Longrightarrow> \<not> bit (deliverable i s) j"
    and m: "sig_mutex s = Some (Some i)"
  shows "delivered i s s'"
proof -
  note b = round_bits [OF r] and e = round_expected [OF r ok]
  have st: "sigstate s1 = (sigstate s)[n := (sigstate s ! n)\<lparr>pending := tl (pending (sigstate s ! n))\<rparr>]" using r by (simp add: after_round_def)
  have sub: "x1 AND NOT (deliverable i s1) = x AND NOT (deliverable i s)"
    if "x1 = (if length (pending (sigstate s ! n)) \<le> 1 then x AND NOT (sigbit n) else x)" for x x1
    by (rule bit_word_eqI) (use b ok(3) in \<open>auto simp: that bit_simps bit_sigbit\<close>)
  have nth: "sigstate s' ! k = (if bit (deliverable i s) k then (sigstate s ! k)\<lparr>pending := []\<rparr> else sigstate s ! k)" if "k < 32" for k
  proof (cases "k = n")
    case True
    have "sigstate s' ! n = (if bit (deliverable i s1) n then (sigstate s1 ! n)\<lparr>pending := []\<rparr> else sigstate s1 ! n)" using d ok(2) by (simp add: delivered_def)
    moreover have "tl (pending (sigstate s ! n)) = []" if "\<not> 1 < length (pending (sigstate s ! n))" using that by (cases "pending (sigstate s ! n)") auto
    ultimately show ?thesis using True ok b [of n] by (auto simp: st)
  next
    case False
    then show ?thesis using d that b [of k] by (simp add: delivered_def st)
  qed
  have "mset (siginfo_next s') + mset (concat (map (\<lambda>ss. map fst (pending ss)) (sigstate s'))) =
       mset (siginfo_next s) + mset (concat (map (\<lambda>ss. map fst (pending ss)) (sigstate s)))"
    using d round_pool [OF r] ok(1,2) by (simp add: delivered_def)
  then show ?thesis using r d e m nth sub [of "sig_pending s1" "sig_pending s"] sub [of "sigpending (info i s1)" "sigpending (info i s)"]
    by (auto simp: delivered_def after_round_def)
qed

lemma round_catches:
  assumes "catches i s" "after_round i n s s1" "length (sigstate s) = 32"
  shows "catches i s1"
proof -
  have st: "sigstate s1 = (sigstate s)[n := (sigstate s ! n)\<lparr>pending := tl (pending (sigstate s ! n))\<rparr>]" using assms(2) by (simp add: after_round_def)
  have "sa (sigstate s1 ! m) = sa (sigstate s ! m)" if "m < 32" for m using that assms(3) by (cases "m = n") (simp_all add: st)
  moreover have "m < 32" "bit (deliverable i s) m" if "bit (deliverable i s1) m" for m
    using that bit_imp_le_length [OF that] round_bits [OF assms(2), of m] by simp_all
  ultimately show ?thesis using assms(1) by (simp add: catches_def)
qed

lemma deliver_loop_effect:
  assumes "quiet H" "sig_ok i s" "sig_mutex s = Some (Some i)" "catches i s"
  shows "\<exists>s'. deliver_loop H i res s = Some (Ret (res \<or> deliverable i s \<noteq> 0), s') \<and> delivered i s s'"
  using assms(2-4)
proof (induction "length (expected i s)" arbitrary: s res)
  case less_or_zero: 0
  have "deliverable i s = 0"
  proof (rule ccontr)
    assume nz: "deliverable i s \<noteq> 0"
    note l = lsb_lowest [OF nz]
    have "sig_calls i s (unat (hal_lsbit_index (deliverable i s))) \<noteq> []" using l(2) by (simp add: sig_calls_def infos_def)
    moreover have "expected i s = []" using less_or_zero.hyps by simp
    ultimately show False using expected_lowest [OF l(1), of i s] l(3) by (auto simp: sig_calls_def)
  qed
  then have "deliver_loop H i res s = Some (Ret (res \<or> deliverable i s \<noteq> 0), s)" by (subst deliver_loop.simps) simp
  then show ?case using less_or_zero.prems \<open>deliverable i s = 0\<close> by (auto simp: delivered_def expected_empty)
next
  case (Suc k)
  have nz: "deliverable i s \<noteq> 0" using Suc.hyps(2) expected_empty [of i s] by auto
  define n where "n = unat (hal_lsbit_index (deliverable i s))"
  note l = lsb_lowest [OF nz, folded n_def]
  have len: "length (sigstate s) = 32" using Suc.prems(1) by (simp add: sig_ok_def)
  have "caught (sa (sigstate s ! n))" using Suc.prems(3) l(2) by (simp add: catches_def)
  from deliver_round [OF assms(1) Suc.prems(1,2) nz n_def l(1) this] obtain s1 where
    s1: "deliver_loop H i res s = deliver_loop H i True s1" "after_round i n s s1" by blast
  have "k = length (expected i s1)" using Suc.hyps(2) round_expected [OF s1(2) len l] by simp
  moreover have "sig_ok i s1" "sig_mutex s1 = Some (Some i)" using s1(2) by (simp_all add: after_round_def)
  ultimately obtain s' where "deliver_loop H i True s1 = Some (Ret True, s')" "delivered i s1 s'"
    using Suc.hyps(1) [of s1 True] round_catches [OF Suc.prems(3) s1(2) len] by auto
  then show ?case using s1(1) nz round_delivered [OF s1(2) _ len l Suc.prems(2)] by auto
qed

end
