(* ===== verification/Posix_Thread_Props.thy ===== *)
theory Posix_Thread_Props
  imports Posix_Thread_Correct
begin

text \<open>
  What programs see of the threads: creation, end and joining, the invariant over all calls, thread-specific data; and
  where the code goes wrong.
\<close>

subsection \<open>Creation and joining\<close>

lemma info_id_gone:
  assumes "thread_table s' = (map clean_exited (thread_table s))[j := None]" "pthread_info_id th s = Ret j"
  shows "pthread_info_id th s' = Err ESRCH" "th' \<noteq> th \<Longrightarrow> pthread_info_id th' s' = pthread_info_id th' s"
proof -
  note j = assms(2) [unfolded info_id_Ret]
  show "pthread_info_id th s' = Err ESRCH" using j by (simp add: pthread_info_id_def assms(1) Let_def)
  assume "th' \<noteq> th"
  show "pthread_info_id th' s' = pthread_info_id th' s"
  proof (cases "unat (th' AND THREAD_ID_COOKIE_MASK) = j")
    case True
    then show ?thesis using j \<open>th' \<noteq> th\<close> by (auto simp: pthread_info_id_def assms(1) Let_def)
  next
    case other: False
    show ?thesis
    proof (cases "unat (th' AND THREAD_ID_COOKIE_MASK) < length (thread_table s)")
      case True
      then show ?thesis using other by (intro info_id_local) (simp_all add: assms(1))
    qed (simp add: pthread_info_id_def assms(1) Let_def)
  qed
qed



definition demo_pcfg :: pcfg where
  "demo_pcfg = \<lparr>PTHREAD_KEYS_MAX = 32, PTHREAD_STACK_MIN = 0x1000, PTHREAD_DESTRUCTOR_ITERATIONS = 4, INFO_SIZE = 0x200,
     CYG_THREAD_MIN_PRIORITY = 31, CYG_THREAD_MAX_PRIORITY = 0, SCHED_OTHER = 3, SCHED_FIFO = 1, SCHED_RR = 2\<rparr>"

definition demo_threads :: pthreads where
  "demo_threads = \<lparr>thread_table = [None, None], pthread_count = 0, pthreads_exited = 0, pthreads_tobejoined = 0, thread_key = [NOT 0],
     key_destructor = replicate 32 0, thread_info_next = 0, thread_id_cookie = 0x400, pmallocs = [0x8000], lag = (\<lambda>_. Some 1), klog = []\<rparr>"

definition explicit_attr :: pthread_attr where
  "explicit_attr = (attr_default demo_pcfg)\<lparr>inheritsched := PTHREAD_EXPLICIT_SCHED\<rparr>"

lemma demo_threads_ok: "thread_inv demo_threads" "lags_end demo_threads" "create_args_ok demo_pcfg None (Some explicit_attr) 7 demo_threads"
  by (auto simp: zinv_def surplus_def demo_threads_def tcore_def cnt_def lags_end_def create_args_ok_def explicit_attr_def nth_Cons' THREAD_ID_COOKIE_MASK_def
      THREAD_ID_COOKIE_INC_def)


subsection \<open>Ending a thread\<close>

text \<open>Functions of the program are expected to return, and to leave the identity and the clean-up stack of the ending thread alone.\<close>

definition zowns :: "int set \<Rightarrow> nat \<Rightarrow> u32 \<Rightarrow> tstate \<Rightarrow> 'a pthreads_scheme \<Rightarrow> bool" where
  "zowns Z i th st s \<longleftrightarrow> zinv Z s \<and> lags_end s \<and> i < length (thread_table s) \<and> (\<exists>t. thread_table s ! i = Some t \<and> tid t = th \<and> state t = st)"

definition zuser_ok :: "int set \<Rightarrow> (nat \<Rightarrow> nat \<Rightarrow> 'a pthreads_scheme \<Rightarrow> 'a pthreads_scheme option) \<Rightarrow> nat \<Rightarrow> bool" where
  "zuser_ok Z run i \<longleftrightarrow>
     (\<forall>r a s th st. zowns Z i th st s \<longrightarrow> (\<exists>s'. run r a s = Some s' \<and> zowns Z i th st s' \<and> cancelbuffer (info i s') = cancelbuffer (info i s)))"

abbreviation owns :: "nat \<Rightarrow> u32 \<Rightarrow> tstate \<Rightarrow> 'a pthreads_scheme \<Rightarrow> bool" where
  "owns i th st s \<equiv> zowns {0} i th st s"

abbreviation user_ok :: "(nat \<Rightarrow> nat \<Rightarrow> 'a pthreads_scheme \<Rightarrow> 'a pthreads_scheme option) \<Rightarrow> nat \<Rightarrow> bool" where
  "user_ok run i \<equiv> zuser_ok {0} run i"

lemma zowns_upd:
  assumes "zowns Z i th st s" "\<And>t. tid (f t) = tid t" "\<And>t. state (f t) = state t"
  shows "zowns Z i th st (upd_thread i f s)"
proof -
  obtain t where t: "zinv Z s" "i < length (thread_table s)" "thread_table s ! i = Some t" "tid t = th" "state t = st" "lags_end s"
    using assms(1) by (auto simp: zowns_def)
  have "zinv Z (upd_thread i f s)"
    by (rule state_update_inv [OF t(1-3), of _ "f t"]) (use t assms(2,3) zinvD(4) [OF t(1-3)] in \<open>simp_all add: lags_end_def\<close>)
  then show ?thesis using t assms(2,3) by (simp add: zowns_def lags_end_def)
qed

lemma run_cleanup_ends:
  assumes "zuser_ok Z run i" "zowns Z i th st s"
  shows "\<exists>s'. run_cleanup run i s = Some s' \<and> zowns Z i th st s' \<and> cancelbuffer (info i s') = []"
  using assms(2)
proof (induction "cancelbuffer (info i s)" arbitrary: s)
  case Nil
  have "run_cleanup run i s = Some s" by (subst run_cleanup.simps) (simp flip: Nil.hyps)
  then show ?case using Nil by auto
next
  case (Cons b bs)
  obtain buf routine arg where b: "b = (buf, routine, arg)" by (cases b)
  let ?s = "upd_thread i (\<lambda>t. t\<lparr>cancelbuffer := bs\<rparr>) s"
  have len: "i < length (thread_table s)" using Cons.prems by (simp add: zowns_def)
  have "zowns Z i th st ?s" by (rule zowns_upd [OF Cons.prems]) simp_all
  then obtain s1 where s1: "run routine arg ?s = Some s1" "zowns Z i th st s1" "cancelbuffer (info i s1) = bs"
    using assms(1) len unfolding zuser_ok_def by fastforce
  from Cons.hyps(1) [OF s1(3) [symmetric] s1(2)] obtain s' where
    "run_cleanup run i s1 = Some s'" "zowns Z i th st s'" "cancelbuffer (info i s') = []" by blast
  then show ?case using s1(1) b by (subst run_cleanup.simps) (simp flip: Cons.hyps(2))
qed

lemma destructor_pass_ends:
  assumes "zuser_ok Z run i" "zowns Z i th st s"
  shows "\<exists>called' s'. destructor_pass run i keys called s = Some (called', s') \<and> zowns Z i th st s'"
  using assms(2)
proof (induction keys arbitrary: called s)
  case (Cons key keys)
  let ?d = "the (thread_data (info i s))"
  show ?case
  proof (cases "key_free key s \<or> key_destructor s ! key = 0 \<or> ?d ! key = 0")
    case True
    then have "destructor_pass run i (key # keys) called s = destructor_pass run i keys called s" by (auto simp: Let_def)
    then show ?thesis using Cons.IH [OF Cons.prems] by simp
  next
    case False
    let ?s = "upd_thread i (\<lambda>t. t\<lparr>thread_data := Some (?d[key := 0])\<rparr>) s"
    have "zowns Z i th st ?s" by (rule zowns_upd [OF Cons.prems]) simp_all
    then obtain s1 where s1: "run (key_destructor s ! key) (?d ! key) ?s = Some s1" "zowns Z i th st s1" using assms(1) unfolding zuser_ok_def by blast
    have "destructor_pass run i (key # keys) called s = destructor_pass run i keys True s1" using False s1(1) by (simp add: Let_def)
    then show ?thesis using Cons.IH [OF s1(2)] by simp
  qed
qed simp

lemma destructor_rounds_end:
  assumes "zuser_ok Z run i" "zowns Z i th st s"
  shows "\<exists>s'. destructor_rounds run kmax i n s = Some s' \<and> zowns Z i th st s'"
  using assms(2)
proof (induction n arbitrary: s)
  case (Suc n)
  from destructor_pass_ends [OF assms(1) Suc.prems] obtain called s1 where "destructor_pass run i [0..<kmax] False s = Some (called, s1)" "zowns Z i th st s1" by blast
  then show ?case using Suc.IH [of s1] by auto
qed simp

lemma pthread_exit_effect:
  assumes "zuser_ok Z run i" "zowns Z i th st s" "st = RUNNING \<or> st = DETACHED"
  shows "\<exists>s'. pthread_exit c run rv i s = Some s' \<and> zowns Z i th (if st = DETACHED then EXITED else JOIN) s' \<and> retval (info i s') = rv"
proof -
  have "zowns Z i th st (snd (pthread_setcancelstate PTHREAD_CANCEL_DISABLE i s))"
    unfolding pthread_setcancelstate_def using zowns_upd [OF assms(2), of "\<lambda>t. t\<lparr>cancelstate := PTHREAD_CANCEL_DISABLE\<rparr>"] assms(2) by simp
  from run_cleanup_ends [OF assms(1) this] obtain s1 where s1: "run_cleanup run i (snd (pthread_setcancelstate PTHREAD_CANCEL_DISABLE i s)) = Some s1" "zowns Z i th st s1"
    by blast
  obtain s2 where s2: "(if thread_data (info i s1) \<noteq> None then destructor_rounds run (PTHREAD_KEYS_MAX c) i (Suc (PTHREAD_DESTRUCTOR_ITERATIONS c)) s1 else Some s1) = Some s2"
    "zowns Z i th st s2" using destructor_rounds_end [OF assms(1) s1(2)] s1(2) by (metis (full_types))
  obtain t where t: "zinv Z s2" "i < length (thread_table s2)" "thread_table s2 ! i = Some t" "alive (Some t)" "tid t = th" "state t = st" "lags_end s2"
    using s2(2) assms(3) by (auto simp: zowns_def alive_def)
  note f = thread_finish_effect [OF t(1-4), of rv]
  have "zowns Z i th (if st = DETACHED then EXITED else JOIN) (thread_finish rv i s2)" "retval (info i (thread_finish rv i s2)) = rv"
    using f t by (simp_all add: zowns_def lags_end_def)
  moreover have "pthread_exit c run rv i s = Some (thread_finish rv i s2)" unfolding pthread_exit_def s1(1) bind.bind_lunit s2(1) ..
  ultimately show ?thesis by blast
qed

text \<open>
  C6: a joinable thread that ends with a value is collected by the next join, which returns that value and removes the
  thread: its identifier is unknown from then on, and all other identifiers lead where they led before. The clean-up
  routines and destructors that run in between end, however many values destructors set anew.
\<close>

theorem exit_then_join:
  assumes "user_ok run j" "owns j th RUNNING s" "self \<noteq> Some j"
  shows "\<exists>s1 s2. pthread_exit c run rv j s = Some s1 \<and> pthread_join_locked prio self th ws s1 = Some (Ret rv, s2) \<and> thread_inv s2 \<and>
    pthread_info_id th s2 = Err ESRCH \<and> (\<forall>th'. th' \<noteq> th \<longrightarrow> pthread_info_id th' s2 = pthread_info_id th' s1)"
proof -
  from pthread_exit_effect [OF assms(1,2), of c rv] obtain s1 where s1: "pthread_exit c run rv j s = Some s1" "owns j th JOIN s1" "retval (info j s1) = rv" by auto
  then have o1: "thread_inv s1" "lags_end s1" "state (info j s1) = JOIN" by (auto simp: zowns_def)
  have id: "pthread_info_id th s1 = Ret j" using s1(2) zinvD(4) [OF o1(1)] by (auto simp: zowns_def info_id_Ret)
  from join_locked_effect [OF o1(1,2) id assms(3) o1(3), of prio ws] obtain s2 where
    s2: "pthread_join_locked prio self th ws s1 = Some (Ret rv, s2)" "thread_inv s2" "thread_table s2 = (map clean_exited (thread_table s1))[j := None]"
    unfolding s1(3) by blast
  show ?thesis using s1(1) s2(1,2) info_id_gone [OF s2(3) id] by blast
qed

definition demo_thread :: pthread_info where
  "demo_thread = \<lparr>state = RUNNING, cancelstate = PTHREAD_CANCEL_ENABLE, canceltype = PTHREAD_CANCEL_DEFERRED, cancelpending = False, freestack = False,
     tid = 0x800, tattr = explicit_attr, retval = 0, start_routine = 7, start_arg = 5, tname = thread_name 0x800, stackmem = 0, cancelbuffer = [(1, 2, 3)],
     sigpending = 0, sigmask = 0, thread_data = None\<rparr>"

definition demo_running :: pthreads where
  "demo_running = demo_threads\<lparr>thread_table := [Some demo_thread, None], pthread_count := 1\<rparr>"

lemma demo_owns: "owns 0 0x800 RUNNING demo_running"
  by (auto simp: zowns_def demo_running_def demo_threads_def demo_thread_def zinv_def surplus_def tcore_def cnt_def lags_end_def nth_Cons' THREAD_ID_COOKIE_MASK_def
      THREAD_ID_COOKIE_INC_def)

theorem exit_then_join_witness:
  "\<exists>s1 s2. pthread_exit demo_pcfg (\<lambda>_ _ s. Some s) 42 0 demo_running = Some s1 \<and> pthread_join_locked 10 None 0x800 [] s1 = Some (Ret 42, s2) \<and>
     pthread_info_id 0x800 s2 = Err ESRCH"
  using exit_then_join [OF _ demo_owns, of "\<lambda>_ _ s. Some s" None demo_pcfg 42 10 "[]"] by (auto simp: zuser_ok_def)

text \<open>The process ends with a thread exactly if no other thread is alive.\<close>

theorem last_thread_ends_process:
  assumes "thread_inv s" "i < length (thread_table s)" "thread_table s ! i = Some t" "alive (Some t)"
  shows "last (klog (thread_finish rv i s)) = KExitProcess \<longleftrightarrow> (\<forall>j<length (thread_table s). j \<noteq> i \<longrightarrow> \<not> alive (thread_table s ! j))"
proof -
  let ?s = "thread_finish rv i s"
  note f = thread_finish_effect [OF assms, of rv]
  have "last (klog ?s) = KExitProcess \<longleftrightarrow> pthreads_exited ?s + pthreads_tobejoined ?s = pthread_count ?s" by (simp add: thread_finish_def Let_def)
  also have "\<dots> \<longleftrightarrow> (\<forall>x \<in> set (thread_table ?s). \<not> alive x)" by (rule all_ended_iff [OF f(1)])
  also have "\<dots> \<longleftrightarrow> (\<forall>j<length (thread_table s). \<not> alive (thread_table ?s ! j))" unfolding f(2) by (metis in_set_conv_nth length_list_update)
  also have "\<dots> \<longleftrightarrow> (\<forall>j<length (thread_table s). j \<noteq> i \<longrightarrow> \<not> alive (thread_table s ! j))" using assms(2) unfolding f(2) by (auto simp: alive_def nth_list_update)
  finally show ?thesis .
qed

subsection \<open>All calls\<close>

text \<open>
  The calls of a program. \<open>TExit\<close> is the end of a thread, by \<^verbatim>\<open>pthread_exit\<close> or by returning from its routine; a thread may also end
  in \<open>TTestcancel\<close> and \<open>TJoin\<close>, which are cancellation points.
\<close>

datatype tcall =
    TCreate int "nat option" "pthread_attr option" nat nat | TExit nat nat | TTestcancel nat nat | TJoin nat int "nat option" u32 | TDetach int u32 | TCancel u32
  | TSetcancelstate int nat | TSetcanceltype int nat | TKeyCreate nat | TKeyDelete nat | TSetspecific nat nat nat | TPush nat nat nat nat
  | TSetsched u32 int int

text \<open>
  The state after a call; a join with no more waits blocks (\<open>None\<close>) while the thread runs, and is repeated when
  others have moved on.
\<close>

definition tstep :: "pcfg \<Rightarrow> (nat \<Rightarrow> nat \<Rightarrow> 'a pthreads_scheme \<Rightarrow> 'a pthreads_scheme option) \<Rightarrow> tcall \<Rightarrow> 'a pthreads_scheme \<Rightarrow> 'a pthreads_scheme option" where
  "tstep c run x s =
     (case x of
        TCreate prio self attr start arg \<Rightarrow> map_option snd (pthread_create c prio self True attr start arg s)
      | TExit rv i \<Rightarrow> pthread_exit c run rv i s
      | TTestcancel canceled i \<Rightarrow> map_option snd (pthread_testcancel c run canceled (Some i) s)
      | TJoin canceled prio self th \<Rightarrow> map_option snd (pthread_join c run canceled prio self th [] s)
      | TDetach prio th \<Rightarrow> map_option snd (pthread_detach prio th s)
      | TCancel th \<Rightarrow> Some (snd (pthread_cancel th s))
      | TSetcancelstate st i \<Rightarrow> Some (snd (pthread_setcancelstate st i s))
      | TSetcanceltype ty i \<Rightarrow> Some (snd (pthread_setcanceltype ty i s))
      | TKeyCreate d \<Rightarrow> Some (snd (pthread_key_create d s))
      | TKeyDelete k \<Rightarrow> Some (snd (pthread_key_delete k s))
      | TSetspecific k p i \<Rightarrow> Some (snd (pthread_setspecific c k p i s))
      | TPush b r a i \<Rightarrow> Some (pthread_cleanup_push_inner b r a i s)
      | TSetsched th pol p \<Rightarrow> Some (snd (pthread_setschedparam c th pol (Some p) s)))"

text \<open>A thread that runs: it is in the table, joinable or detached. (One that was detached after its end is not told apart.)\<close>

definition runs :: "nat \<Rightarrow> 'a pthreads_scheme \<Rightarrow> bool" where
  "runs i s \<longleftrightarrow> i < length (thread_table s) \<and> alive (thread_table s ! i)"

text \<open>Calls are made by running threads (or, where \<open>self\<close> is optional, by kernel threads).\<close>

definition tcall_ok :: "pcfg \<Rightarrow> tcall \<Rightarrow> 'a pthreads_scheme \<Rightarrow> bool" where
  "tcall_ok c x s =
     (case x of
        TCreate prio self attr start arg \<Rightarrow> create_args_ok c self attr start s
      | TExit rv i \<Rightarrow> runs i s
      | TTestcancel canceled i \<Rightarrow> runs i s
      | TJoin canceled prio self th \<Rightarrow> (\<forall>i. self = Some i \<longrightarrow> runs i s)
      | TSetcancelstate st i \<Rightarrow> runs i s
      | TSetcanceltype ty i \<Rightarrow> runs i s
      | TSetspecific k p i \<Rightarrow> runs i s
      | TPush b r a i \<Rightarrow> runs i s
      | _ \<Rightarrow> True)"

text \<open>The call that makes the third counter inexact, and the calls in which functions of the program run.\<close>

definition detaches_ended :: "tcall \<Rightarrow> 'a pthreads_scheme \<Rightarrow> bool" where
  "detaches_ended x s \<longleftrightarrow> (\<exists>prio th j. x = TDetach prio th \<and> pthread_info_id th s = Ret j \<and> state (info j s) = JOIN)"

definition ends_thread :: "tcall \<Rightarrow> bool" where
  "ends_thread x \<longleftrightarrow> (case x of TExit _ _ \<Rightarrow> True | TTestcancel _ _ \<Rightarrow> True | TJoin _ _ _ _ \<Rightarrow> True | _ \<Rightarrow> False)"

lemma upd_same_inv:
  assumes "zinv Z s" "thread_table s ! i = Some t" "\<And>t. tid (f t) = tid t" "\<And>t. state (f t) = state t"
  shows "zinv Z (upd_thread i f s)"
proof (rule zinv_same [OF assms(1)])
  show "tcore (upd_thread i f s) = tcore s"
    using assms(2-4) by (cases "i < length (thread_table s)") (simp_all add: tcore_def map_update list_update_same_conv list_update_beyond)
qed simp_all

lemma klog_inv: "zinv Z (s\<lparr>klog := ks\<rparr>) = zinv Z s" "lags_end (s\<lparr>klog := ks\<rparr>) = lags_end s"
  by (simp_all add: zinv_def surplus_def tcore_def lags_end_def)

lemma alive_Some: "alive x \<Longrightarrow> \<exists>t. x = Some t \<and> (state t = RUNNING \<or> state t = DETACHED)"
  by (auto simp: alive_def split: option.splits)

lemma runs_owns:
  assumes "zinv Z s" "lags_end s" "runs i s"
  obtains th st where "zowns Z i th st s" "st = RUNNING \<or> st = DETACHED"
  using assms alive_Some [of "thread_table s ! i"] by (fastforce simp: runs_def zowns_def)

lemma exit_inv:
  assumes "zinv Z s" "lags_end s" "runs i s" "zuser_ok Z run i"
  shows "\<exists>s'. pthread_exit c run rv i s = Some s' \<and> zinv Z s' \<and> lags_end s'"
proof -
  obtain th st where "zowns Z i th st s" "st = RUNNING \<or> st = DETACHED" by (rule runs_owns [OF assms(1-3)])
  from pthread_exit_effect [OF assms(4) this, of c rv] show ?thesis by (auto simp: zowns_def)
qed

lemma testcancel_inv:
  assumes "zinv Z s" "lags_end s" "\<forall>i. self = Some i \<longrightarrow> runs i s" "\<forall>i. zuser_ok Z run i"
  shows "\<exists>e s'. pthread_testcancel c run canceled self s = Some (e, s') \<and> zinv Z s' \<and> lags_end s' \<and> (\<not> e \<longrightarrow> s' = s)"
proof (cases "checkforcancel self s")
  case True
  then obtain i where i: "self = Some i" by (auto simp: checkforcancel_def split: option.splits)
  then show ?thesis using True exit_inv [OF assms(1,2), of i run c canceled] assms(3,4) by (auto simp: pthread_testcancel_def)
next
  case False
  then show ?thesis using assms(1,2) by (intro exI [of _ False]) (simp add: pthread_testcancel_def)
qed

text \<open>Detaching a thread that has ended and waits to be joined raises the surplus; any other detaching keeps it.\<close>

lemma detach_inv:
  assumes "zinv Y s" "lags_end s" "surplus s + of_bool (detaches_ended (TDetach prio th) s) \<in> Z"
  shows "\<exists>r s'. pthread_detach prio th s = Some (r, s') \<and> zinv Z s' \<and> lags_end s'"
proof -
  define p where "p = (case pthread_info_id th s of
           Ret j \<Rightarrow>
             if state (info j s) = DETACHED then (Err EINVAL, s)
             else (Ret (), kcalls [KBroadcast (tid (info j s))] (upd_thread j (\<lambda>t. t\<lparr>state := DETACHED\<rparr>) s))
         | Err e \<Rightarrow> (Err e, s) | Undefined \<Rightarrow> (Undefined, s) | Cancelled \<Rightarrow> (Cancelled, s))"
  have same: "zinv Z s" if "\<not> detaches_ended (TDetach prio th) s" using that assms(3) zinv_surplus [OF assms(1), of Z] by simp
  have "zinv Z (snd p) \<and> lags_end (snd p)"
  proof (cases "pthread_info_id th s")
    case (Ret j)
    then obtain t where t: "j < length (thread_table s)" "thread_table s ! j = Some t" "state t \<noteq> EXITED" by (auto simp: info_id_Ret)
    let ?s = "upd_thread j (\<lambda>t. t\<lparr>state := DETACHED\<rparr>) s"
    have tab: "thread_table ?s = (thread_table s)[j := Some (t\<lparr>state := DETACHED\<rparr>)]" using t(2) by simp
    have ended: "detaches_ended (TDetach prio th) s \<longleftrightarrow> state t = JOIN" using Ret t(2) by (simp add: detaches_ended_def)
    let ?q = "?s\<lparr>pthreads_tobejoined := pthreads_tobejoined s - of_bool (state t = JOIN)\<rparr>"
    have q: "zinv {surplus s} ?q"
      by (rule state_update_inv [of _ s j t, where t' = "t\<lparr>state := DETACHED\<rparr>"])
         (use t tab assms(1) zinv_surplus [OF assms(1), of "{surplus s}"] in simp_all)
    have "surplus ?s = surplus ?q + of_bool (state t = JOIN)" by (simp add: surplus_def tcore_def)
    moreover have "surplus ?q = surplus s" using zinvD(7) [OF q] by simp
    moreover have "zinv {surplus ?s} ?s" using q by (simp add: zinv_def tcore_def)
    ultimately have "zinv Z ?s" using zinv_surplus [of "{surplus ?s}" ?s Z] assms(3) ended by simp
    then show ?thesis using Ret same ended assms(2) t(2) by (simp add: p_def klog_inv lags_end_def)
  qed (use same assms(2) in \<open>simp_all add: p_def detaches_ended_def\<close>)
  then obtain s' where "pthread_reap prio (snd p) = Some s'" "zinv Z s'" "lags_end s'" using pthread_reap_inv [of Z "snd p" prio] by blast
  then show ?thesis by (simp add: pthread_detach_def p_def [symmetric] case_prod_beta Let_def)
qed

text \<open>A join that does not wait returns, unless the thread to be joined, another than the caller, is running.\<close>

lemma join_nowait_inv:
  assumes "zinv Z s" "lags_end s" "\<forall>i. self = Some i \<longrightarrow> runs i s"
    and "\<not> (\<exists>j. pthread_info_id th s = Ret j \<and> self \<noteq> Some j \<and> state (info j s) = RUNNING)"
  shows "\<exists>r s'. pthread_join_locked prio self th [] s = Some (r, s') \<and> zinv Z s' \<and> lags_end s' \<and> (\<forall>i. self = Some i \<longrightarrow> runs i s')"
proof -
  from pthread_reap_inv [OF assms(1,2), of prio] obtain s1 where s1: "pthread_reap prio s = Some s1" "zinv Z s1" "lags_end s1"
    "thread_table s1 = map clean_exited (thread_table s)" by blast
  have id: "pthread_info_id th s1 = pthread_info_id th s" by (rule info_id_clean [OF s1(4)])
  have runs1: "\<forall>i. self = Some i \<longrightarrow> runs i s1" using assms(3) clean_alive(1) by (auto simp: runs_def s1(4))
  show ?thesis
  proof (cases "pthread_info_id th s1")
    case (Ret j)
    then obtain t where t: "j < length (thread_table s1)" "thread_table s1 ! j = Some t" "tid t = th" by (auto simp: info_id_Ret)
    have tj: "thread_table s ! j = Some t" "j < length (thread_table s)" using t(1,2) by (auto simp: s1(4) clean_exited_Some)
    show ?thesis
    proof (cases "self = Some j \<or> state t \<noteq> JOIN")
      case True
      then have "\<exists>r. pthread_join_locked prio self th [] s = Some (r, s1)"
        using assms(4) s1(1) Ret id t tj by (auto simp: pthread_join_locked_def join_switch_def)
      then show ?thesis using s1 runs1 by blast
    next
      case False
      from join_collect_effect [OF s1(2,3) t(1,2), of prio] False obtain s' where
        s': "join_collect prio j s1 = Some (Ret (retval t), s')" "zinv Z s'" "lags_end s'" "thread_table s' = (map clean_exited (thread_table s1))[j := None]" by blast
      have "runs i s'" if "self = Some i" for i
      proof -
        have "runs i s1" "i \<noteq> j" using that runs1 False by auto
        then show ?thesis using clean_alive(1) [of "thread_table s1 ! i"] by (simp add: runs_def s'(4))
      qed
      moreover have "pthread_join_locked prio self th [] s = Some (Ret (retval t), s')"
        using s1(1) Ret False t s'(1) by (simp add: pthread_join_locked_def join_switch_def)
      ultimately show ?thesis using s' by blast
    qed
  qed (use s1 runs1 in \<open>auto simp: pthread_join_locked_def\<close>)
qed

lemma join_blocks:
  assumes "zinv Z s" "lags_end s" "pthread_info_id th s = Ret j" "self \<noteq> Some j" "state (info j s) = RUNNING"
  shows "pthread_join_locked prio self th [] s = None"
proof -
  from pthread_reap_inv [OF assms(1,2), of prio] obtain s1 where s1: "pthread_reap prio s = Some s1" "thread_table s1 = map clean_exited (thread_table s)" by blast
  have id: "pthread_info_id th s1 = Ret j" using info_id_clean [OF s1(2)] assms(3) by simp
  obtain t where t: "j < length (thread_table s)" "thread_table s ! j = Some t" "tid t = th" "state t = RUNNING" using assms(3,5) by (auto simp: info_id_Ret)
  then have "thread_table s1 ! j = Some t" by (simp add: s1(2) clean_exited_def)
  then show ?thesis using s1(1) id assms(4) t by (simp add: pthread_join_locked_def join_switch_def)
qed

lemma join_inv:
  assumes "zinv Z s" "lags_end s" "\<forall>i. self = Some i \<longrightarrow> runs i s" "\<forall>i. zuser_ok Z run i"
  shows "pthread_join c run canceled prio self th [] s = None \<Longrightarrow>
      \<exists>j. pthread_info_id th s = Ret j \<and> self \<noteq> Some j \<and> state (info j s) = RUNNING"
    "pthread_join c run canceled prio self th [] s = Some (r, s') \<Longrightarrow> zinv Z s' \<and> lags_end s'"
proof -
  obtain e s1 where e: "pthread_testcancel c run canceled self s = Some (e, s1)" "zinv Z s1" "lags_end s1" "\<not> e \<longrightarrow> s1 = s"
    using testcancel_inv [OF assms, of c canceled] by blast
  consider (ended) "e" | (blocked) j where "\<not> e" "pthread_info_id th s = Ret j" "self \<noteq> Some j" "state (info j s) = RUNNING"
    | (free) "\<not> e" "\<not> (\<exists>j. pthread_info_id th s = Ret j \<and> self \<noteq> Some j \<and> state (info j s) = RUNNING)" by blast
  then have "(\<exists>r s'. pthread_join c run canceled prio self th [] s = Some (r, s') \<and> zinv Z s' \<and> lags_end s') \<or>
      pthread_join c run canceled prio self th [] s = None \<and> (\<exists>j. pthread_info_id th s = Ret j \<and> self \<noteq> Some j \<and> state (info j s) = RUNNING)"
  proof cases
    case ended
    then show ?thesis using e by (simp add: pthread_join_def)
  next
    case blocked
    then show ?thesis using e join_blocks [OF assms(1,2) blocked(2-4), of prio] by (auto simp: pthread_join_def)
  next
    case free
    obtain r2 s2 where s2: "pthread_join_locked prio self th [] s = Some (r2, s2)" "zinv Z s2" "lags_end s2" "\<forall>i. self = Some i \<longrightarrow> runs i s2"
      using join_nowait_inv [OF assms(1-3) free(2), of prio] by blast
    obtain e3 s3 where "pthread_testcancel c run canceled self s2 = Some (e3, s3)" "zinv Z s3" "lags_end s3"
      using testcancel_inv [OF s2(2-4) assms(4), of c canceled] by blast
    then show ?thesis using e s2(1) free(1) by (simp add: pthread_join_def)
  qed
  then show "pthread_join c run canceled prio self th [] s = None \<Longrightarrow>
      \<exists>j. pthread_info_id th s = Ret j \<and> self \<noteq> Some j \<and> state (info j s) = RUNNING"
    "pthread_join c run canceled prio self th [] s = Some (r, s') \<Longrightarrow> zinv Z s' \<and> lags_end s'" by auto
qed

lemma key_calls_inv:
  assumes "zinv Z s" "lags_end s"
  shows "zinv Z (snd (pthread_key_create d s)) \<and> lags_end (snd (pthread_key_create d s))"
    "zinv Z (snd (pthread_key_delete k s)) \<and> lags_end (snd (pthread_key_delete k s))"
proof -
  have c: "core_of (clean (x :: pthread_info option)) = core_of x" if "clean = clear_key_data k" for clean k x
    by (cases x) (simp_all add: that clear_key_data_def)
  have "zinv Z (s\<lparr>thread_key := a, key_destructor := b, thread_table := map (clear_key_data k) (thread_table s)\<rparr>)" for a b k
    by (rule zinv_same [OF assms(1)]) (simp_all add: tcore_def c)
  then show "zinv Z (snd (pthread_key_create d s)) \<and> lags_end (snd (pthread_key_create d s))"
    using assms by (auto simp: pthread_key_create_def Let_def lags_end_def split: option.split)
  have "zinv Z (s\<lparr>thread_key := a\<rparr>)" for a by (rule zinv_same [OF assms(1)]) (simp_all add: tcore_def)
  then show "zinv Z (snd (pthread_key_delete k s)) \<and> lags_end (snd (pthread_key_delete k s))"
    using assms by (auto simp: pthread_key_delete_def lags_end_def)
qed

lemma own_calls_inv:
  assumes "zinv Z s" "lags_end s" "alive (thread_table s ! i)"
  shows "zinv Z (snd (pthread_setcancelstate st i s)) \<and> lags_end (snd (pthread_setcancelstate st i s))"
    "zinv Z (snd (pthread_setcanceltype ty i s)) \<and> lags_end (snd (pthread_setcanceltype ty i s))"
    "zinv Z (snd (pthread_setspecific c k p i s)) \<and> lags_end (snd (pthread_setspecific c k p i s))"
    "zinv Z (pthread_cleanup_push_inner b r a i s) \<and> lags_end (pthread_cleanup_push_inner b r a i s)"
proof -
  obtain t where t: "thread_table s ! i = Some t" using alive_Some [OF assms(3)] by blast
  note u = upd_same_inv [OF assms(1) t]
  show "zinv Z (snd (pthread_setcancelstate st i s)) \<and> lags_end (snd (pthread_setcancelstate st i s))"
    using u [of "\<lambda>t. t\<lparr>cancelstate := st\<rparr>"] assms(1,2) by (simp add: pthread_setcancelstate_def lags_end_def)
  show "zinv Z (snd (pthread_setcanceltype ty i s)) \<and> lags_end (snd (pthread_setcanceltype ty i s))"
    using u [of "\<lambda>t. t\<lparr>canceltype := ty\<rparr>"] assms(1,2) by (simp add: pthread_setcanceltype_def lags_end_def)
  show "zinv Z (snd (pthread_setspecific c k p i s)) \<and> lags_end (snd (pthread_setspecific c k p i s))"
    using u [of "\<lambda>t. t\<lparr>thread_data := d\<rparr>" for d] assms(1,2) by (simp add: pthread_setspecific_def lags_end_def Let_def)
  show "zinv Z (pthread_cleanup_push_inner b r a i s) \<and> lags_end (pthread_cleanup_push_inner b r a i s)"
    using u [of "\<lambda>t. t\<lparr>cancelbuffer := (b, r, a) # cancelbuffer t\<rparr>"] assms(1,2) by (simp add: pthread_cleanup_push_inner_def lags_end_def)
qed

lemma other_calls_inv:
  assumes "zinv Z s" "lags_end s"
  shows "zinv Z (snd (pthread_cancel th s)) \<and> lags_end (snd (pthread_cancel th s))"
    "zinv Z (snd (pthread_setschedparam c th pol pp s)) \<and> lags_end (snd (pthread_setschedparam c th pol pp s))"
proof -
  have ex: "\<exists>t. thread_table s ! j = Some t" if "pthread_info_id th s = Ret j" for j using that by (auto simp: info_id_Ret)
  have u: "zinv Z (upd_thread j f s)" if "pthread_info_id th s = Ret j" "\<And>t. tid (f t) = tid t" "\<And>t. state (f t) = state t" for j f
    using ex [OF that(1)] upd_same_inv [OF assms(1), of j _ f] that(2,3) by blast
  show "zinv Z (snd (pthread_cancel th s)) \<and> lags_end (snd (pthread_cancel th s))"
  proof (cases "pthread_info_id th s")
    case (Ret j)
    then show ?thesis using u [OF Ret, of "\<lambda>t. t\<lparr>cancelpending := True\<rparr>"] assms(2) by (simp add: pthread_cancel_def Let_def klog_inv lags_end_def)
  qed (simp_all add: pthread_cancel_def assms)
  show "zinv Z (snd (pthread_setschedparam c th pol pp s)) \<and> lags_end (snd (pthread_setschedparam c th pol pp s))"
  proof (cases "pthread_info_id th s")
    case (Ret j)
    then show ?thesis using u [OF Ret, of "\<lambda>t. t\<lparr>tattr := (tattr t)\<lparr>schedpolicy := pol, sched_priority := x\<rparr>\<rparr>" for x] assms
      by (simp add: pthread_setschedparam_def klog_inv lags_end_def split: option.split)
  qed (simp_all add: pthread_setschedparam_def assms split: option.split)
qed

lemma tstep_inv:
  assumes pre: "zinv Y s" "lags_end s" and ok: "tcall_ok c x s"
    and user: "ends_thread x \<longrightarrow> (\<forall>i. zuser_ok Z run i)" and sur: "surplus s + of_bool (detaches_ended x s) \<in> Z"
  shows "tstep c run x s = Some s' \<Longrightarrow> zinv Z s' \<and> lags_end s'"
    "tstep c run x s = None \<Longrightarrow> \<exists>canceled prio self th j. x = TJoin canceled prio self th \<and> pthread_info_id th s = Ret j \<and> self \<noteq> Some j \<and> state (info j s) = RUNNING"
proof -
  have inv: "zinv Z s" if "\<And>prio th. x \<noteq> TDetach prio th"
    using that sur zinv_surplus [OF pre(1), of Z] by (simp add: detaches_ended_def)
  have create: "\<exists>r s'. pthread_create c prio self True attr start arg s = Some (r, s') \<and> zinv Z s' \<and> lags_end s'"
    if "create_args_ok c self attr start s" "zinv Z s" for prio self attr start arg using create_effect [OF that(2) pre(2) that(1), of prio arg] by blast
  note own = own_calls_inv [OF _ pre(2)] and oth = other_calls_inv [OF _ pre(2)] key_calls_inv [OF _ pre(2)]
  have "(\<exists>s'. tstep c run x s = Some s' \<and> zinv Z s' \<and> lags_end s') \<or>
      tstep c run x s = None \<and> (\<exists>canceled prio self th j. x = TJoin canceled prio self th \<and> pthread_info_id th s = Ret j \<and> self \<noteq> Some j \<and> state (info j s) = RUNNING)"
  proof (cases x)
    case (TCreate prio self attr start arg)
    then show ?thesis using create [of self attr start prio arg] inv ok by (auto simp: tstep_def tcall_ok_def)
  next
    case (TExit rv i)
    then show ?thesis using exit_inv [OF inv pre(2), of i run c rv] ok user by (auto simp: tstep_def tcall_ok_def ends_thread_def)
  next
    case (TTestcancel canceled i)
    then show ?thesis using testcancel_inv [OF inv pre(2), of "Some i" run c canceled] ok user by (auto simp: tstep_def tcall_ok_def ends_thread_def)
  next
    case (TJoin canceled prio self th)
    then have z: "zinv Z s" using inv by simp
    from TJoin have self: "\<forall>i. self = Some i \<longrightarrow> runs i s" "\<forall>i. zuser_ok Z run i" using ok user by (simp_all add: tcall_ok_def ends_thread_def)
    note j = join_inv [OF z pre(2) self, of c canceled prio th]
    show ?thesis
    proof (cases "pthread_join c run canceled prio self th [] s")
      case None
      then show ?thesis using j(1) [OF None] TJoin by (simp add: tstep_def)
    next
      case (Some rs)
      then show ?thesis using j(2) [of "fst rs" "snd rs"] TJoin by (simp add: tstep_def)
    qed
  next
    case (TDetach prio th)
    then show ?thesis using detach_inv [OF pre, of prio th Z] sur by (auto simp: tstep_def)
  qed (use inv own oth ok in \<open>auto simp: tstep_def tcall_ok_def runs_def\<close>)
  then show "tstep c run x s = Some s' \<Longrightarrow> zinv Z s' \<and> lags_end s'"
    "tstep c run x s = None \<Longrightarrow> \<exists>canceled prio self th j. x = TJoin canceled prio self th \<and> pthread_info_id th s = Ret j \<and> self \<noteq> Some j \<and> state (info j s) = RUNNING"
    by auto
qed

text \<open>
  The functions of the program that run while a thread ends (clean-up routines and destructors), at any state of the table: they
  return, and may make calls of their own, which do not lower the surplus.
\<close>

definition users_ok :: "(nat \<Rightarrow> nat \<Rightarrow> 'a pthreads_scheme \<Rightarrow> 'a pthreads_scheme option) \<Rightarrow> bool" where
  "users_ok run \<longleftrightarrow> (\<forall>z i. 0 \<le> z \<longrightarrow> zuser_ok {z..} run i)"

inductive thread_reach :: "pcfg \<Rightarrow> (nat \<Rightarrow> nat \<Rightarrow> 'a pthreads_scheme \<Rightarrow> 'a pthreads_scheme option) \<Rightarrow> 'a pthreads_scheme \<Rightarrow> bool"
  for c :: pcfg and run :: "nat \<Rightarrow> nat \<Rightarrow> 'a pthreads_scheme \<Rightarrow> 'a pthreads_scheme option" where
  start: "thread_table s = replicate n None \<Longrightarrow> 0 < n \<Longrightarrow> n \<le> 1024 \<Longrightarrow> pthread_count s = 0 \<Longrightarrow> pthreads_exited s = 0 \<Longrightarrow> pthreads_tobejoined s = 0 \<Longrightarrow>
    thread_info_next s = 0 \<Longrightarrow> thread_id_cookie s = THREAD_ID_COOKIE_INC \<Longrightarrow> lags_end s \<Longrightarrow> thread_reach c run s"
| call: "thread_reach c run s \<Longrightarrow> tcall_ok c x s \<Longrightarrow> tstep c run x s = Some s' \<Longrightarrow> thread_reach c run s'"
| memory: "thread_reach c run s \<Longrightarrow> thread_reach c run (s\<lparr>pmallocs := ps\<rparr>)"

lemma users_from: "users_ok run \<Longrightarrow> zinv {0..} s \<Longrightarrow> zuser_ok {surplus s..} run i"
  by (auto simp: users_ok_def zinv_def)

lemma thread_reach_inv: "thread_reach c run s \<Longrightarrow> users_ok run \<Longrightarrow> zinv {0..} s \<and> lags_end s"
proof (induction rule: thread_reach.induct)
  case (start s n)
  then show ?case by (auto simp: zinv_def surplus_def tcore_def cnt_def THREAD_ID_COOKIE_MASK_def THREAD_ID_COOKIE_INC_def)
next
  case (call s x s')
  have "zinv {0..} s" "lags_end s" using call.IH [OF call.prems] by simp_all
  moreover have "0 \<le> surplus s" using zinvD(7) [OF \<open>zinv {0..} s\<close>] by simp
  moreover have "\<forall>i. zuser_ok {0..} run i" using call.prems by (simp add: users_ok_def)
  ultimately show ?case using tstep_inv(1) [of "{0..}" s c x "{0..}" run s'] call.hyps(2,3) by simp
next
  case (memory s ps)
  have "zinv {0..} (s\<lparr>pmallocs := ps\<rparr>)" by (rule zinv_same [OF conjunct1 [OF memory.IH [OF memory.prems]]]) (simp_all add: tcore_def)
  then show ?case using memory.IH [OF memory.prems] by (simp add: lags_end_def)
qed

text \<open>
  C5: in every state that the calls of running threads lead to, in any order and with any arguments, the table is consistent: an
  identifier's low bits are the index of its thread, so that no identifier occurs twice, \<^verbatim>\<open>pthread_count\<close> and
  \<^verbatim>\<open>pthreads_exited\<close> count the threads in the table and those of them that have exited, and \<^verbatim>\<open>pthreads_tobejoined\<close> counts those
  that wait to be joined and a surplus. The surplus is exact: it begins with 0, a call that detaches a thread that has ended and
  waits to be joined raises it by one, the calls in which a thread may end, which run the program's own functions, do not lower it, and no
  other call changes it. Every call returns, except a join for which the thread to be joined, another than the caller, is
  still running.
\<close>

theorem thread_calls_consistent:
  assumes "thread_reach c run s" "users_ok run" "tcall_ok c x s"
  shows "zinv {0..} s \<and>
    (case tstep c run x s of
       Some s' \<Rightarrow> zinv {0..} s' \<and> (if ends_thread x then surplus s \<le> surplus s' else surplus s' = surplus s + of_bool (detaches_ended x s))
     | None \<Rightarrow> \<exists>canceled prio self th j. x = TJoin canceled prio self th \<and> pthread_info_id th s = Ret j \<and> self \<noteq> Some j \<and> state (info j s) = RUNNING)"
proof -
  have inv: "zinv {0..} s" "lags_end s" using thread_reach_inv [OF assms(1,2)] by simp_all
  define d where "d = (of_bool (detaches_ended x s) :: int)"
  define Z where "Z = (if ends_thread x then {surplus s..} else {surplus s + d})"
  have nd: "d = 0" if "ends_thread x" using that by (auto simp: d_def detaches_ended_def ends_thread_def)
  have zZ: "surplus s + d \<in> Z" using nd by (auto simp: Z_def)
  have user: "ends_thread x \<longrightarrow> (\<forall>i. zuser_ok Z run i)" using users_from [OF assms(2) inv(1)] by (simp add: Z_def)
  note step = tstep_inv [OF inv assms(3) user zZ [unfolded d_def]]
  show ?thesis
  proof (cases "tstep c run x s")
    case None
    then show ?thesis using step(2) inv(1) by simp
  next
    case (Some s')
    have 0: "0 \<le> surplus s" using zinvD(7) [OF inv(1)] by simp
    have "zinv Z s'" using step(1) [OF Some] by simp
    then have "surplus s' \<in> Z" "zinv {0..} s' \<longleftrightarrow> 0 \<le> surplus s'" using zinvD(7) [of Z s'] zinv_surplus [of Z s' "{0..}"] by simp_all
    then show ?thesis using Some inv(1) 0 by (simp add: Z_def d_def split: if_splits)
  qed
qed

theorem thread_calls_consistent_witness:
  "\<exists>s'. tstep demo_pcfg (\<lambda>_ _ s. Some s) (TCreate 10 None (Some explicit_attr) 7 5) demo_threads = Some s' \<and> zinv {0..} s' \<and> surplus s' = 0"
proof -
  have "thread_reach demo_pcfg (\<lambda>_ _ s. Some s) demo_threads"
    by (rule thread_reach.start [where n = 2]) (simp_all add: demo_threads_def numeral_2_eq_2 THREAD_ID_COOKIE_INC_def lags_end_def)
  moreover have "users_ok (\<lambda>_ _ (s :: pthreads). Some s)" by (auto simp: users_ok_def zuser_ok_def)
  moreover have "tcall_ok demo_pcfg (TCreate 10 None (Some explicit_attr) 7 5) demo_threads" using demo_threads_ok(3) by (simp add: tcall_ok_def)
  moreover have "surplus demo_threads = 0" using zinvD(7) [OF demo_threads_ok(1)] by simp
  ultimately show ?thesis
    using thread_calls_consistent [of demo_pcfg "\<lambda>_ _ s. Some s" demo_threads "TCreate 10 None (Some explicit_attr) 7 5"]
    by (cases "tstep demo_pcfg (\<lambda>_ _ s. Some s) (TCreate 10 None (Some explicit_attr) 7 5) demo_threads")
       (simp_all add: ends_thread_def detaches_ended_def)
qed

subsection \<open>Thread-specific data\<close>

definition data_ok :: "pcfg \<Rightarrow> 'a pthreads_scheme \<Rightarrow> bool" where
  "data_ok c s \<longleftrightarrow>
     PTHREAD_KEYS_MAX c = 32 * length (thread_key s) \<and>
     (\<forall>i<length (thread_table s). \<forall>t d. thread_table s ! i = Some t \<and> thread_data t = Some d \<longrightarrow> length d = PTHREAD_KEYS_MAX c)"

lemma key_in_map_iff: "data_ok c s \<Longrightarrow> key_in_map k s \<longleftrightarrow> k < PTHREAD_KEYS_MAX c"
  by (auto simp: key_in_map_def data_ok_def)

text \<open>A new key was free, is taken, and reads as null in every thread; no other key changes hands.\<close>

lemma key_create_effect:
  assumes "pthread_key_create d s = (Ret k, s')"
  shows "key_in_map k s" "key_free k s" "\<not> key_free k s'" "k' \<noteq> k \<Longrightarrow> key_in_map k' s \<Longrightarrow> key_free k' s' = key_free k' s"
    "thread_table s' = map (clear_key_data k) (thread_table s)" "length (thread_key s') = length (thread_key s)"
proof -
  obtain i where i: "find (\<lambda>i. thread_key s ! i \<noteq> 0) [0..<length (thread_key s)] = Some i" using assms by (auto simp: pthread_key_create_def split: option.splits)
  then have il: "i < length (thread_key s)" and nz: "thread_key s ! i \<noteq> 0" by (auto simp: find_Some_iff simp del: upt_Suc)
  obtain b where b: "b < 32" "bit (thread_key s ! i) b" "\<forall>j<b. \<not> bit (thread_key s ! i) j" using lowest_bit_exists [OF nz] by blast
  have lsb: "unat (hal_lsbit_index (thread_key s ! i)) = b" using hal_lsbit_index_lowest [OF b] b(1) by (simp add: unat_of_nat)
  have k: "k = b + i * 32" and s': "s' = s\<lparr>thread_key := (thread_key s)[i := thread_key s ! i AND NOT (push_bit b 1)], key_destructor := (key_destructor s)[k := d],
      thread_table := map (clear_key_data k) (thread_table s)\<rparr>" using assms by (auto simp: pthread_key_create_def i lsb Let_def)
  have kd: "k div 32 = i" "k mod 32 = b" using b(1) by (simp_all add: k)
  show "key_in_map k s" "key_free k s" using il b(2) by (simp_all add: key_in_map_def key_free_def kd)
  show "\<not> key_free k s'" using il b(1) by (simp add: key_free_def kd s' bit_simps)
  show "thread_table s' = map (clear_key_data k) (thread_table s)" "length (thread_key s') = length (thread_key s)" by (simp_all add: s')
  assume k': "k' \<noteq> k" "key_in_map k' s"
  have "k' div 32 \<noteq> i \<or> k' mod 32 \<noteq> b" using k' kd by (metis div_mult_mod_eq)
  then show "key_free k' s' = key_free k' s" using il by (auto simp: key_free_def s' bit_simps nth_list_update)
qed

lemma setspecific_effect:
  assumes "data_ok c s" "key_in_map k s" "\<not> key_free k s" "i < length (thread_table s)" "thread_table s ! i = Some t"
  shows "\<exists>s'. pthread_setspecific c k p i s = (Ret (), s') \<and> pthread_getspecific k i s' = Ret p \<and>
    (\<forall>k' j. key_in_map k' s \<and> (k', j) \<noteq> (k, i) \<and> j < length (thread_table s) \<longrightarrow> pthread_getspecific k' j s' = pthread_getspecific k' j s)"
proof -
  define d where "d = (case thread_data t of None \<Rightarrow> replicate (PTHREAD_KEYS_MAX c) 0 | Some d \<Rightarrow> d)"
  have kl: "k < PTHREAD_KEYS_MAX c" using key_in_map_iff [OF assms(1)] assms(2) by simp
  have len: "length d = PTHREAD_KEYS_MAX c" using assms(1,4,5) by (auto simp: d_def data_ok_def split: option.splits)
  let ?s = "s\<lparr>thread_table := (thread_table s)[i := Some (t\<lparr>thread_data := Some (d[k := p])\<rparr>)]\<rparr>"
  have e: "pthread_setspecific c k p i s = (Ret (), ?s)" using assms(2,3,5) by (simp add: pthread_setspecific_def Let_def d_def)
  have f: "key_in_map k' (s\<lparr>thread_table := x\<rparr>) = key_in_map k' s" "key_free k' (s\<lparr>thread_table := x\<rparr>) = key_free k' s" for k' x by (simp_all add: key_in_map_def key_free_def)
  have "pthread_getspecific k i ?s = Ret p" using assms(2,3,4) kl len by (simp add: pthread_getspecific_def f)
  moreover have "pthread_getspecific k' j ?s = pthread_getspecific k' j s" if "key_in_map k' s" "(k', j) \<noteq> (k, i)" "j < length (thread_table s)" for k' j
  proof (cases "j = i")
    case True
    have "k' < PTHREAD_KEYS_MAX c" "k' \<noteq> k" using that True key_in_map_iff [OF assms(1)] by auto
    then show ?thesis using assms(4,5) True len by (simp add: pthread_getspecific_def f d_def split: option.split)
  qed (simp add: pthread_getspecific_def f)
  ultimately show ?thesis using e by blast
qed

text \<open>
  C34: a key that is created was not in use, and reads as null in every thread. What a thread then stores under it, that thread
  reads back, and no other thread and no other key is affected.
\<close>

theorem thread_specific_data:
  assumes "data_ok c s" "pthread_key_create d s = (Ret k, s1)" "i < length (thread_table s)" "thread_table s ! i = Some t"
  shows "key_free k s \<and> \<not> key_free k s1 \<and> (\<forall>j<length (thread_table s). thread_table s ! j \<noteq> None \<longrightarrow> pthread_getspecific k j s1 = Ret 0) \<and>
    (\<exists>s2. pthread_setspecific c k p i s1 = (Ret (), s2) \<and> pthread_getspecific k i s2 = Ret p \<and>
      (\<forall>k' j. key_in_map k' s1 \<and> (k', j) \<noteq> (k, i) \<and> j < length (thread_table s) \<longrightarrow> pthread_getspecific k' j s2 = pthread_getspecific k' j s1))"
proof -
  note e = key_create_effect [OF assms(2)]
  have len: "length (thread_table s1) = length (thread_table s)" by (simp add: e(5))
  have im: "key_in_map k s1" using e(1,6) by (simp add: key_in_map_def)
  have kl: "k < PTHREAD_KEYS_MAX c" using key_in_map_iff [OF assms(1)] e(1) by simp
  have ok: "data_ok c s1" using assms(1) unfolding data_ok_def e(5,6) by (auto simp: clear_key_data_def)
  have t1: "i < length (thread_table s1)" "thread_table s1 ! i = clear_key_data k (Some t)" using assms(3,4) by (simp_all add: e(5))
  have "pthread_getspecific k j s1 = Ret 0" if "j < length (thread_table s)" "thread_table s ! j \<noteq> None" for j
    using that im e(3) kl assms(1) by (auto simp: pthread_getspecific_def e(5) clear_key_data_def data_ok_def split: option.split)
  moreover from setspecific_effect [OF ok im e(3) t1(1), of _ p] t1(2) obtain s2 where
    "pthread_setspecific c k p i s1 = (Ret (), s2)" "pthread_getspecific k i s2 = Ret p"
    "\<forall>k' j. key_in_map k' s1 \<and> (k', j) \<noteq> (k, i) \<and> j < length (thread_table s1) \<longrightarrow> pthread_getspecific k' j s2 = pthread_getspecific k' j s1"
    unfolding clear_key_data_def by auto
  ultimately show ?thesis using e(2,3) len by auto
qed

lemma demo_key: "pthread_key_create 0 demo_running = (Ret 0, snd (pthread_key_create 0 demo_running))"
proof -
  have "hal_lsbit_index (NOT 0) = 0" using hal_lsbit_index_lowest [of 0 "NOT 0"] by simp
  then show ?thesis by (simp add: pthread_key_create_def demo_running_def demo_threads_def Let_def)
qed

theorem thread_specific_data_witness:
  "\<exists>s2. pthread_setspecific demo_pcfg 0 99 0 (snd (pthread_key_create 0 demo_running)) = (Ret (), s2) \<and> pthread_getspecific 0 0 s2 = Ret 99"
proof -
  have "data_ok demo_pcfg demo_running" "0 < length (thread_table demo_running)" "thread_table demo_running ! 0 = Some demo_thread"
    by (auto simp: data_ok_def demo_running_def demo_threads_def demo_pcfg_def demo_thread_def nth_Cons')
  from thread_specific_data [OF this(1) demo_key this(2,3), of 99] show ?thesis by blast
qed

subsection \<open>Attributes\<close>

text \<open>An attribute that was accepted is read back; one that was refused leaves the object as it was.\<close>

lemma attributes_read_back:
  "pthread_attr_setdetachstate x a = (r, a') \<Longrightarrow> if r = Ret () then pthread_attr_getdetachstate a' = Ret x else a' = a"
  "pthread_attr_setscope x a = (r, a') \<Longrightarrow> if r = Ret () then pthread_attr_getscope a' = Ret x else a' = a"
  "pthread_attr_setinheritsched x a = (r, a') \<Longrightarrow> if r = Ret () then pthread_attr_getinheritsched a' = Ret x else a' = a"
  "pthread_attr_setschedpolicy c x a = (r, a') \<Longrightarrow> if r = Ret () then pthread_attr_getschedpolicy a' = Ret x else a' = a"
  "pthread_attr_setschedparam x a = (r, a') \<Longrightarrow> pthread_attr_getschedparam a' = Ret x"
  "pthread_attr_setstackaddr y a = (r, a') \<Longrightarrow> pthread_attr_getstackaddr a' = Ret y"
  "pthread_attr_setstacksize c y a = (r, a') \<Longrightarrow> if r = Ret () then pthread_attr_getstacksize a' = Ret y else a' = a"
  by (auto simp: pthread_attr_setdetachstate_def pthread_attr_getdetachstate_def pthread_attr_setscope_def pthread_attr_getscope_def
      pthread_attr_setinheritsched_def pthread_attr_getinheritsched_def pthread_attr_setschedpolicy_def pthread_attr_getschedpolicy_def
      pthread_attr_setschedparam_def pthread_attr_getschedparam_def pthread_attr_setstackaddr_def pthread_attr_getstackaddr_def
      pthread_attr_setstacksize_def pthread_attr_getstacksize_def split: if_splits)

subsection \<open>Names, priorities\<close>

text \<open>The name of a thread is its identifier in eight hexadecimal digits; POSIX priorities run against those of the kernel.\<close>

lemma length_name_digits: "length (name_digits n th acc) = n + length acc"
  by (induction n arbitrary: th acc) simp_all

lemma thread_name_fits: "length (thread_name th) = 16"
  by (simp add: thread_name_def length_name_digits)

subsection \<open>Defects\<close>

text \<open>
  Detaching a thread that has ended and waits to be joined succeeds, but leaves it in the table as if it were running: it stays
  counted as one that waits to be joined, the reaper passes it by, and it can be neither joined nor detached any more.
\<close>

lemma detach_ended_thread:
  assumes "thread_inv s" "lags_end s" "pthread_info_id th s = Ret j" "state (info j s) = JOIN"
  shows "\<exists>s'. pthread_detach prio th s = Some (Ret (), s') \<and> pthread_info_id th s' = Ret j \<and> state (info j s') = DETACHED \<and>
    pthreads_tobejoined s' = pthreads_tobejoined s \<and> pthread_reap prio s' = Some s'"
proof -
  obtain t where t: "j < length (thread_table s)" "thread_table s ! j = Some t" "tid t = th" "state t = JOIN" "j = unat (th AND THREAD_ID_COOKIE_MASK)"
    using assms(3,4) by (auto simp: info_id_Ret)
  define s1 where "s1 = kcalls [KBroadcast th] (upd_thread j (\<lambda>t. t\<lparr>state := DETACHED\<rparr>) s)"
  have tab: "thread_table s1 = (thread_table s)[j := Some (t\<lparr>state := DETACHED\<rparr>)]" using t(2) by (simp add: s1_def)
  have "pthreads_exited s1 = cnt {EXITED} (map core_of (thread_table s1))"
    using zinvD(6) [OF assms(1)] t cnt_update [of j "tcore s" "{EXITED}" "Some (th, DETACHED)"] by (simp add: s1_def tcore_def map_update)
  moreover have "lags_end s1" using assms(2) by (simp add: s1_def lags_end_def)
  ultimately obtain ks where r: "pthread_reap prio s1 =
      Some (s1\<lparr>klog := klog s1 @ ks, thread_table := map clean_exited (thread_table s1), pthread_count := pthread_count s1 - pthreads_exited s1, pthreads_exited := 0\<rparr>)"
    using reap_loop_effect [of s1 "[]" "thread_table s1" prio] by (auto simp: pthread_reap_def)
  let ?s = "s1\<lparr>klog := klog s1 @ ks, thread_table := map clean_exited (thread_table s1), pthread_count := pthread_count s1 - pthreads_exited s1, pthreads_exited := 0\<rparr>"
  have d: "pthread_detach prio th s = Some (Ret (), ?s)" using t r by (simp add: pthread_detach_def assms(3) s1_def)
  have ent: "thread_table ?s ! j = Some (t\<lparr>state := DETACHED\<rparr>)" using t(1) by (simp add: tab clean_exited_def)
  have "pthread_reap prio ?s = Some ?s" unfolding pthread_reap_def by (cases "[0..<length (thread_table ?s)]") simp_all
  then show ?thesis using d ent t by (intro exI [of _ ?s]) (simp add: info_id_Ret s1_def)
qed

text \<open>Of two threads that wait for the same thread, the second goes on with memory that the first has freed.\<close>

lemma second_joiner_dangles:
  assumes "thread_table s ! j = Some t" "tid t = th" "state t = RUNNING" "w s = (True, s1)" "thread_table s1 ! j = None"
  shows "join_wait self j th (w # ws) s = Some (Undefined, s1)"
  using assms by (cases ws) simp_all

end
