(* ===== verification/Posix_Signal_Props.thy ===== *)
theory Posix_Signal_Props
  imports Posix_Signal_Correct Posix_Thread_Props
begin

text \<open>
  What programs see of signals: delivery in order, queued values, and the signal that is ignored and hangs its sender.
\<close>

lemma mutex_irrelevant:
  "deliverable i (s\<lparr>sig_mutex := m\<rparr>) = deliverable i s" "sig_ok i (s\<lparr>sig_mutex := m\<rparr>) = sig_ok i s" "catches i (s\<lparr>sig_mutex := m\<rparr>) = catches i s"
  "expected i (s\<lparr>sig_mutex := m\<rparr>) = expected i s"
proof -
  show d: "deliverable i (s\<lparr>sig_mutex := m\<rparr>) = deliverable i s" by (simp add: deliverable_def)
  then show "sig_ok i (s\<lparr>sig_mutex := m\<rparr>) = sig_ok i s" "catches i (s\<lparr>sig_mutex := m\<rparr>) = catches i s" by (simp_all add: sig_ok_def catches_def)
  have "sig_calls i (s\<lparr>sig_mutex := m\<rparr>) = sig_calls i s" by (simp add: fun_eq_iff sig_calls_def d infos_def)
  then show "expected i (s\<lparr>sig_mutex := m\<rparr>) = expected i s" by (simp add: expected_def)
qed

lemma delivered_mutex: "delivered i (s\<lparr>sig_mutex := m\<rparr>) s' \<Longrightarrow> delivered i s (s'\<lparr>sig_mutex := sig_mutex s\<rparr>)"
  by (simp add: delivered_def mutex_irrelevant)

lemma nothing_delivered: "deliverable i s = 0 \<Longrightarrow> sig_ok i s \<Longrightarrow> delivered i s s"
  by (simp add: delivered_def expected_empty)

lemma deliver_effect:
  assumes "quiet H" "sig_ok i s" "catches i s" "sig_mutex s = None \<or> sig_mutex s = Some (Some i)"
  shows "\<exists>s'. cyg_deliver_signals H (Some i) s = Some (Ret (deliverable i s \<noteq> 0), s') \<and> delivered i s s'"
proof (cases "deliverable i s = 0")
  case True
  then show ?thesis using nothing_delivered [OF True assms(2)] by (simp add: cyg_deliver_signals_def)
next
  case False
  then have p: "\<not> (sig_pending s = 0 \<and> sigpending (info i s) = 0)" by (auto simp: deliverable_def)
  let ?s = "s\<lparr>sig_mutex := Some (Some i)\<rparr>"
  from deliver_loop_effect [OF assms(1), of i ?s False] assms(2,3) False obtain s' where
    d: "deliver_loop H i False ?s = Some (Ret True, s')" "delivered i ?s s'" by (auto simp: mutex_irrelevant)
  show ?thesis
  proof (cases "sig_mutex s = None")
    case True
    have "cyg_deliver_signals H (Some i) s = Some (Ret True, s'\<lparr>sig_mutex := None\<rparr>)"
      using p False True d(1) by (simp add: cyg_deliver_signals_def lock_unless_def signal_lock_def unlock_unless_def)
    then show ?thesis using delivered_mutex [OF d(2)] True False by simp
  next
    case locked: False
    then have "sig_mutex s = Some (Some i)" using assms(4) by (elim disjE) simp_all
    then have e: "?s = s" by (simp flip: \<open>sig_mutex s = Some (Some i)\<close>)
    have "cyg_deliver_signals H (Some i) s = Some (Ret True, s')"
      using p False \<open>sig_mutex s = Some (Some i)\<close> d(1) [unfolded e] by (simp add: cyg_deliver_signals_def lock_unless_def unlock_unless_def)
    then show ?thesis using d(2) False unfolding e by simp
  qed
qed

text \<open>
  C7: a delivery to a thread, when every signal that is pending and not masked has a handler (none is ignored, which would make
  the delivery endless, or has the default action, which would end the process), the handlers return and do not use the signal functions
  themselves, and the mutex is free or held by the thread. It ends, and calls exactly the handlers of the pending signals that are not
  masked: the lowest-numbered signal first, each queued value once and in the order of queueing. Masked signals stay pending, the
  thread's mask and the mutex are as before, and the objects of the queue are all accounted for.
\<close>

theorem signals_delivered_in_order:
  assumes "quiet H" "sig_ok i s" "catches i s" "sig_mutex s = None \<or> sig_mutex s = Some (Some i)"
  shows "\<exists>s'. cyg_deliver_signals H (Some i) s = Some (Ret (deliverable i s \<noteq> 0), s') \<and> slog s' = slog s @ expected i s \<and> deliverable i s' = 0 \<and>
    sig_pending s' = sig_pending s AND NOT (deliverable i s) \<and> sigpending (info i s') = sigpending (info i s) AND NOT (deliverable i s) \<and>
    sigmask (info i s') = sigmask (info i s) \<and> sig_mutex s' = sig_mutex s \<and>
    mset (siginfo_next s') + mset (concat (map (\<lambda>ss. map fst (pending ss)) (sigstate s'))) =
      mset (siginfo_next s) + mset (concat (map (\<lambda>ss. map fst (pending ss)) (sigstate s)))"
  using deliver_effect [OF assms] unfolding delivered_def by blast

subsection \<open>Ignored signals\<close>

definition stuck :: "nat \<Rightarrow> 'a signals_scheme \<Rightarrow> bool" where
  "stuck i s \<longleftrightarrow> deliverable i s \<noteq> 0 \<and> sa_handler (sa (sigstate s ! unat (hal_lsbit_index (deliverable i s)))) = SIG_IGN"

text \<open>The loop does not take an ignored signal out of the set of pending ones, and finds it again and again.\<close>

lemma deliver_loop_stuck:
  assumes "stuck i s"
  shows "deliver_loop H i res s = None"
proof (rule ccontr)
  assume "deliver_loop H i res s \<noteq> None"
  then obtain r where r: "deliver_loop H i res s = Some r" by blast
  have "\<not> stuck i s"
  proof (rule deliver_loop.raw_induct [of "\<lambda>H i res s r. \<not> stuck i s", OF _ r], goal_cases)
    case (1 loop H i res s r)
    show ?case
    proof
      assume c: "stuck i s"
      then have "loop H i res s = Some r" using 1(2) by (simp add: stuck_def Let_def)
      then show False using 1(1) c by blast
    qed
  qed
  then show False using assms by blast
qed

lemma release_loop_effect: "\<exists>ks. release_loop m is n s = s\<lparr>klog := klog s @ ks\<rparr>"
proof (induction "is" arbitrary: n)
  case Nil
  have "s = s\<lparr>klog := klog s @ []\<rparr>" by simp
  then show ?case by (metis release_loop.simps(1))
next
  case (Cons i "is")
  have same: "\<exists>ks. s = s\<lparr>klog := klog s @ ks\<rparr>" by (rule exI [of _ "[]"]) simp
  show ?case using Cons same by (auto split: option.split)
qed

lemma mark_pending_global:
  assumes "SIGNAL_VALID n"
  shows "thread_table (mark_pending n None s) = thread_table s" "sigstate (mark_pending n None s) = sigstate s" "siginfo_next (mark_pending n None s) = siginfo_next s"
    "sig_mutex (mark_pending n None s) = sig_mutex s" "sig_pending (mark_pending n None s) = sig_pending s OR sigbit n"
    "sigalrm_pending (mark_pending n None s) = sigalrm_pending s"
    "sigwait_queue s = [] \<Longrightarrow> slog (mark_pending n None s) = slog s \<and> sigwait_queue (mark_pending n None s) = []"
proof -
  define s1 where "s1 = s\<lparr>sig_pending := sig_pending s OR sigbit n\<rparr>"
  obtain ks where ks: "cyg_posix_pthread_release_thread (sig_pending s1) s1 = s1\<lparr>klog := klog s1 @ ks\<rparr>"
    unfolding cyg_posix_pthread_release_thread_def using release_loop_effect by blast
  have "mark_pending n None s = (if sigwait_queue s \<noteq> [] then signal_broadcast s1 else s1\<lparr>klog := klog s1 @ ks\<rparr>)"
    using assms ks by (simp add: mark_pending_def sigaddset_def Let_def s1_def)
  then show "thread_table (mark_pending n None s) = thread_table s" "sigstate (mark_pending n None s) = sigstate s" "siginfo_next (mark_pending n None s) = siginfo_next s"
    "sig_mutex (mark_pending n None s) = sig_mutex s" "sig_pending (mark_pending n None s) = sig_pending s OR sigbit n"
    "sigalrm_pending (mark_pending n None s) = sigalrm_pending s"
    "sigwait_queue s = [] \<Longrightarrow> slog (mark_pending n None s) = slog s \<and> sigwait_queue (mark_pending n None s) = []"
    by (simp_all add: s1_def signal_broadcast_def)
qed

text \<open>Generating a signal: queued with its value if the action asks for that, and marked as pending for the process.\<close>

lemma sigqueue_effect:
  assumes "SIGNAL_VALID n" "sig_ok i s" "sig_mutex s = None \<or> sig_mutex s = Some (Some i)" "sa_siginfo (sa (sigstate s ! n)) \<Longrightarrow> siginfo_next s = p # ps"
  shows "\<exists>s'. cyg_sigqueue (Some i) (user_event n v) code None s = Some (Ret True, s') \<and> thread_table s' = thread_table s \<and> sig_mutex s' = sig_mutex s \<and>
    sig_pending s' = sig_pending s OR sigbit n \<and> sigalrm_pending s' = sigalrm_pending s \<and>
    (sigwait_queue s = [] \<longrightarrow> slog s' = slog s \<and> sigwait_queue s' = []) \<and>
    (if sa_siginfo (sa (sigstate s ! n))
     then siginfo_next s' = ps \<and> sigstate s' = (sigstate s)[n := (sigstate s ! n)\<lparr>pending := pending (sigstate s ! n) @ [(p, \<lparr>si_signo = n, si_code = code, si_value = v\<rparr>)]\<rparr>]
     else siginfo_next s' = siginfo_next s \<and> sigstate s' = sigstate s)"
proof -
  have n: "\<not> length (sigstate s) \<le> n" using assms(1,2) by (simp add: SIGNAL_VALID_def sig_ok_def)
  let ?l = "s\<lparr>sig_mutex := Some (Some i)\<rparr>" and ?si = "\<lparr>si_signo = n, si_code = code, si_value = v\<rparr>" and ?locked = "sig_mutex s = Some (Some i)"
  have lock: "lock_unless ?locked (Some i) s = Some ?l"
  proof (cases ?locked)
    case True
    then have "?l = s" by (simp flip: True)
    then show ?thesis using True by (simp add: lock_unless_def)
  qed (use assms(3) in \<open>simp add: lock_unless_def signal_lock_def\<close>)
  have mutex: "sig_mutex (unlock_unless ?locked x) = sig_mutex s" if "sig_mutex x = Some (Some i)" for x
    using that assms(3) by (auto simp: unlock_unless_def)
  have keep: "thread_table (unlock_unless ?locked x) = thread_table x" "sig_pending (unlock_unless ?locked x) = sig_pending x" "sigstate (unlock_unless ?locked x) = sigstate x"
    "siginfo_next (unlock_unless ?locked x) = siginfo_next x" "sigalrm_pending (unlock_unless ?locked x) = sigalrm_pending x" "slog (unlock_unless ?locked x) = slog x"
    "sigwait_queue (unlock_unless ?locked x) = sigwait_queue x" for x
    by (simp_all add: unlock_unless_def)
  show ?thesis
  proof (cases "sa_siginfo (sa (sigstate s ! n))")
    case True
    define s2 where "s2 = ?l\<lparr>siginfo_next := ps, sigstate := (sigstate s)[n := (sigstate s ! n)\<lparr>pending := pending (sigstate s ! n) @ [(p, ?si)]\<rparr>]\<rparr>"
    have "enqueue_signal n ?si ?l = Some s2" using assms(4) [OF True] by (simp add: enqueue_signal_def s2_def)
    then have "cyg_sigqueue (Some i) (user_event n v) code None s = Some (Ret True, unlock_unless ?locked (mark_pending n None s2))"
      using True n lock by (simp add: cyg_sigqueue_def user_event_def Let_def)
    then show ?thesis using True mark_pending_global [OF assms(1), of s2] mutex [of "mark_pending n None s2"] by (simp add: s2_def keep)
  next
    case False
    then have "cyg_sigqueue (Some i) (user_event n v) code None s = Some (Ret True, unlock_unless ?locked (mark_pending n None ?l))"
      using n lock by (simp add: cyg_sigqueue_def user_event_def Let_def)
    then show ?thesis using False mark_pending_global [OF assms(1), of ?l] mutex [of "mark_pending n None ?l"] by (simp add: keep)
  qed
qed

text \<open>
  C36: a program that ignores a signal hangs when it sends that signal to itself: with nothing else to deliver and the signal
  not masked, \<^verbatim>\<open>kill\<close> (and so \<^verbatim>\<open>raise\<close>) never returns.
\<close>

theorem kill_ignored_never_returns:
  assumes "SIGNAL_VALID n" "sig_ok i s" "sig_mutex s = None" "sa_handler (sa (sigstate s ! n)) = SIG_IGN" "\<not> sa_siginfo (sa (sigstate s ! n))"
    and "deliverable i s = 0" "\<not> bit (sigmask (info i s)) n"
  shows "raise_sig H (Some i) n s = None"
proof -
  from sigqueue_effect [OF assms(1,2) disjI1 [OF assms(3)], of p ps 0 SI_USER for p ps] assms(3,5) obtain s' where
    s': "cyg_sigqueue (Some i) (user_event n 0) SI_USER None s = Some (Ret True, s')" "thread_table s' = thread_table s" "sig_mutex s' = None"
      "sig_pending s' = sig_pending s OR sigbit n" "sigstate s' = sigstate s" by auto
  have n: "n < 32" using assms(1) by (simp add: SIGNAL_VALID_def)
  have d: "deliverable i s' = sigbit n"
  proof (rule bit_word_eqI)
    fix k
    have "\<not> bit (deliverable i s) k" using assms(6) by simp
    then show "bit (deliverable i s') k = bit (sigbit n) k" using assms(7) n by (auto simp: deliverable_def s'(2,4) bit_simps bit_sigbit)
  qed
  have nz: "deliverable i s' \<noteq> 0" unfolding d using bit_sigbit [of n n] n by auto
  have low: "unat (hal_lsbit_index (sigbit n)) = n" using lsb_lowest(2) [OF nz] by (simp add: d bit_sigbit)
  have "stuck i (s'\<lparr>sig_mutex := Some (Some i)\<rparr>)" using nz assms(4) by (simp add: stuck_def mutex_irrelevant d low s'(5))
  then have "cyg_deliver_signals H (Some i) s' = None"
    using nz deliver_loop_stuck [of i "s'\<lparr>sig_mutex := Some (Some i)\<rparr>" H False]
    by (auto simp: cyg_deliver_signals_def s'(3) lock_unless_def signal_lock_def deliverable_def)
  then show ?thesis using assms(1) s'(1) by (simp add: raise_sig_def kill_def generate_def deliver_then_def)
qed

lemma one_more_deliverable:
  assumes "deliverable i s = 0" "\<not> bit (sigmask (info i s)) n" "n < 32" "thread_table s' = thread_table s" "sig_pending s' = sig_pending s OR sigbit n"
  shows "deliverable i s' = sigbit n"
proof (rule bit_word_eqI)
  fix k
  have "\<not> bit (deliverable i s) k" using assms(1) by simp
  then show "bit (deliverable i s') k = bit (sigbit n) k" using assms(2-5) by (auto simp: deliverable_def bit_simps bit_sigbit)
qed

text \<open>Sending a signal that is caught, with nothing else to deliver, calls its handler once, with the code and value given.\<close>

lemma generate_calls_handler:
  assumes "SIGNAL_VALID sig" "sig_ok i s" "sig_mutex s = None" "siginfo_next s \<noteq> []" "quiet H"
    and "sa_siginfo (sa (sigstate s ! sig))" "caught (sa (sigstate s ! sig))" "pending (sigstate s ! sig) = []"
    and "deliverable i s = 0" "\<not> bit (sigmask (info i s)) sig" "sigwait_queue s = []"
  shows "\<exists>s'. generate H (Some i) (user_event sig v) code None s = Some (Ret (), s') \<and>
    slog s' = slog s @ [SHandler sig \<lparr>si_signo = sig, si_code = code, si_value = v\<rparr>] \<and> deliverable i s' = 0"
proof -
  obtain p ps where ps: "siginfo_next s = p # ps" using assms(4) by (cases "siginfo_next s") auto
  have sig: "sig < 32" "sig < length (sigstate s)" using assms(1,2) by (simp_all add: SIGNAL_VALID_def sig_ok_def)
  let ?si = "\<lparr>si_signo = sig, si_code = code, si_value = v\<rparr>"
  from sigqueue_effect [OF assms(1,2) disjI1 [OF assms(3)], of p ps v code] assms(3,6,11) ps obtain s1 where
    s1: "cyg_sigqueue (Some i) (user_event sig v) code None s = Some (Ret True, s1)" "thread_table s1 = thread_table s" "sig_mutex s1 = None"
      "sig_pending s1 = sig_pending s OR sigbit sig" "slog s1 = slog s"
      "sigstate s1 = (sigstate s)[sig := (sigstate s ! sig)\<lparr>pending := [(p, ?si)]\<rparr>]"
    using assms(8) by auto
  have ok: "sig_ok i s1" using assms(2) s1(2,6) by (simp add: sig_ok_def)
  have d: "deliverable i s1 = sigbit sig" by (rule one_more_deliverable [OF assms(9,10) sig(1) s1(2,4)])
  have "catches i s1" using assms(7) sig by (auto simp: catches_def d bit_sigbit s1(6))
  from deliver_effect [OF assms(5) ok this disjI1 [OF s1(3)]] obtain s2 where
    s2: "cyg_deliver_signals H (Some i) s1 = Some (Ret (deliverable i s1 \<noteq> 0), s2)" "delivered i s1 s2" by blast
  have "infos sig s1 = [?si]" using sig by (simp add: infos_def s1(6))
  then have "slog s2 = slog s @ [SHandler sig ?si]" using s2(2) s1(5) by (simp add: delivered_def expected_single [OF d sig(1)])
  moreover have "generate H (Some i) (user_event sig v) code None s = Some (Ret (), s2)" using s1(1) s2(1) by (simp add: generate_def deliver_then_def)
  ultimately show ?thesis using s2(2) by (auto simp: delivered_def)
qed

subsection \<open>Queued values\<close>

fun queue_all :: "'a handlers \<Rightarrow> nat \<Rightarrow> nat \<Rightarrow> nat list \<Rightarrow> 'a signals_scheme \<Rightarrow> 'a signals_scheme option" where
  "queue_all H i n [] s = Some s"
| "queue_all H i n (v # vs) s = do { (r, s1) \<leftarrow> sigqueue H (Some i) n v s; queue_all H i n vs s1 }"

definition queued_info :: "nat \<Rightarrow> nat \<Rightarrow> siginfo" where
  "queued_info n v = \<lparr>si_signo = n, si_code = SI_QUEUE, si_value = v\<rparr>"

definition can_queue :: "nat \<Rightarrow> nat \<Rightarrow> 'a signals_scheme \<Rightarrow> bool" where
  "can_queue i n s \<longleftrightarrow>
     SIGNAL_VALID n \<and> sig_ok i s \<and> sig_mutex s = None \<and> deliverable i s = 0 \<and> bit (sigmask (info i s)) n \<and> sa_siginfo (sa (sigstate s ! n)) \<and> sigwait_queue s = []"

lemma sigqueue_masked:
  assumes "can_queue i n s" "siginfo_next s = p # ps"
  shows "\<exists>s'. sigqueue H (Some i) n v s = Some (Ret (), s') \<and> can_queue i n s' \<and> thread_table s' = thread_table s \<and> slog s' = slog s \<and>
    sig_pending s' = sig_pending s OR sigbit n \<and> siginfo_next s' = ps \<and>
    sigstate s' = (sigstate s)[n := (sigstate s ! n)\<lparr>pending := pending (sigstate s ! n) @ [(p, queued_info n v)]\<rparr>]"
proof -
  note q = assms(1) [unfolded can_queue_def]
  have n: "n < 32" "n < length (sigstate s)" using q by (simp_all add: SIGNAL_VALID_def sig_ok_def)
  from sigqueue_effect [of n i s p ps v SI_QUEUE] q assms(2) obtain s' where
    s': "cyg_sigqueue (Some i) (user_event n v) SI_QUEUE None s = Some (Ret True, s')" "thread_table s' = thread_table s" "sig_mutex s' = None"
      "sig_pending s' = sig_pending s OR sigbit n" "slog s' = slog s" "sigwait_queue s' = []" "siginfo_next s' = ps"
      "sigstate s' = (sigstate s)[n := (sigstate s ! n)\<lparr>pending := pending (sigstate s ! n) @ [(p, queued_info n v)]\<rparr>]"
    by (auto simp: queued_info_def)
  have d: "deliverable i s' = 0"
  proof (rule bit_word_eqI)
    fix k
    have "\<not> bit (deliverable i s) k" using q by simp
    then show "bit (deliverable i s') k = bit (0::u32) k" using q by (auto simp: deliverable_def s'(2,4) bit_simps bit_sigbit)
  qed
  then have "cyg_deliver_signals H (Some i) s' = Some (Ret False, s')" by (simp add: cyg_deliver_signals_def)
  then have "sigqueue H (Some i) n v s = Some (Ret (), s')" using q s'(1) by (simp add: sigqueue_def generate_def deliver_then_def)
  moreover have "can_queue i n s'" using q d n s' by (simp add: can_queue_def sig_ok_def)
  ultimately show ?thesis using s' by blast
qed

lemma queue_all_effect:
  assumes "can_queue i n s" "length vs \<le> length (siginfo_next s)"
  shows "\<exists>s'. queue_all H i n vs s = Some s' \<and> can_queue i n s' \<and> thread_table s' = thread_table s \<and> slog s' = slog s \<and>
    sig_pending s' = (if vs = [] then sig_pending s else sig_pending s OR sigbit n) \<and>
    sigstate s' = (sigstate s)[n := (sigstate s ! n)\<lparr>pending := pending (sigstate s ! n) @ zip (siginfo_next s) (map (queued_info n) vs)\<rparr>]"
  using assms
proof (induction vs arbitrary: s)
  case Nil
  have "(sigstate s)[n := (sigstate s ! n)\<lparr>pending := pending (sigstate s ! n)\<rparr>] = sigstate s" by simp
  then show ?case using Nil by auto
next
  case (Cons v vs)
  obtain p ps where ps: "siginfo_next s = p # ps" using Cons.prems(2) by (cases "siginfo_next s") auto
  have n: "n < length (sigstate s)" using Cons.prems(1) by (simp add: can_queue_def SIGNAL_VALID_def sig_ok_def)
  from sigqueue_masked [OF Cons.prems(1) ps] obtain s1 where s1: "sigqueue H (Some i) n v s = Some (Ret (), s1)" "can_queue i n s1" "thread_table s1 = thread_table s"
    "slog s1 = slog s" "sig_pending s1 = sig_pending s OR sigbit n" "siginfo_next s1 = ps"
    "sigstate s1 = (sigstate s)[n := (sigstate s ! n)\<lparr>pending := pending (sigstate s ! n) @ [(p, queued_info n v)]\<rparr>]" by blast
  have "length vs \<le> length (siginfo_next s1)" using Cons.prems(2) ps s1(6) by simp
  from Cons.IH [OF s1(2) this] obtain s' where s': "queue_all H i n vs s1 = Some s'" "can_queue i n s'" "thread_table s' = thread_table s1" "slog s' = slog s1"
    "sig_pending s' = (if vs = [] then sig_pending s1 else sig_pending s1 OR sigbit n)"
    "sigstate s' = (sigstate s1)[n := (sigstate s1 ! n)\<lparr>pending := pending (sigstate s1 ! n) @ zip (siginfo_next s1) (map (queued_info n) vs)\<rparr>]" by blast
  have "sigstate s' = (sigstate s)[n := (sigstate s ! n)\<lparr>pending := pending (sigstate s ! n) @ zip (siginfo_next s) (map (queued_info n) (v # vs))\<rparr>]"
    using n by (simp add: s'(6) s1(6,7) ps)
  moreover have "sig_pending s' = sig_pending s OR sigbit n" by (simp add: s'(5) s1(5) or.assoc)
  ultimately show ?case using s1 s' by simp
qed

text \<open>
  C35: values that are queued for a masked signal, as long as there are free queue objects, reach its handler when the signal
  is unmasked: every value, once, in order.
\<close>

theorem queued_values_reach_handler:
  assumes "quiet H" "can_queue i n s" "caught (sa (sigstate s ! n))" "pending (sigstate s ! n) = []" "vs \<noteq> []" "length vs \<le> length (siginfo_next s)"
  shows "\<exists>s1 m s2. queue_all H i n vs s = Some s1 \<and> slog s1 = slog s \<and> pthread_sigmask H i SIG_UNBLOCK (Some (sigbit n)) s1 = Some (Ret m, s2) \<and>
    slog s2 = slog s @ map (\<lambda>v. SHandler n (queued_info n v)) vs"
proof -
  from queue_all_effect [OF assms(2,6), of H] obtain s1 where s1: "queue_all H i n vs s = Some s1" "can_queue i n s1" "slog s1 = slog s" "thread_table s1 = thread_table s"
    "sig_pending s1 = sig_pending s OR sigbit n" "sigstate s1 = (sigstate s)[n := (sigstate s ! n)\<lparr>pending := zip (siginfo_next s) (map (queued_info n) vs)\<rparr>]"
    using assms(4,5) by auto
  note q = s1(2) [unfolded can_queue_def]
  have n: "n < 32" "n < length (sigstate s)" "length (sigstate s) = 32" using assms(2) by (simp_all add: can_queue_def SIGNAL_VALID_def sig_ok_def)
  define s' where "s' = upd_thread i (\<lambda>t. t\<lparr>sigmask := new_mask SIG_UNBLOCK (sigbit n) (sigmask t)\<rparr>) s1"
  have ok: "sig_ok i s'" using q by (simp add: sig_ok_def s'_def)
  have d: "deliverable i s' = sigbit n"
  proof (rule bit_word_eqI)
    fix k
    have "\<not> bit (deliverable i s1) k" using q by simp
    then show "bit (deliverable i s') k = bit (sigbit n) k" using q n(1) by (auto simp: deliverable_def s'_def s1(5) sig_ok_def new_mask_def bit_simps bit_sigbit)
  qed
  have st: "sigstate s' = sigstate s1" "slog s' = slog s" "sig_mutex s' = None" using q by (simp_all add: s'_def s1(3))
  have "catches i s'" using assms(3) n by (auto simp: catches_def d bit_sigbit st s1(6))
  moreover have "sigbit n \<noteq> 0" using bit_sigbit [of n n] n(1) by auto
  ultimately obtain s2 where s2: "cyg_deliver_signals H (Some i) s' = Some (Ret True, s2)" "delivered i s' s2"
    using deliver_effect [OF assms(1) ok] st(3) d by auto
  have inf: "infos n s' = map (queued_info n) vs"
  proof -
    have p: "pending (sigstate s' ! n) = zip (siginfo_next s) (map (queued_info n) vs)" using n by (simp add: st s1(6))
    have "map snd (zip (siginfo_next s) (map (queued_info n) vs)) = map (queued_info n) vs"
      using assms(6) by (simp add: map_snd_zip_take)
    moreover have "zip (siginfo_next s) (map (queued_info n) vs) \<noteq> []" using assms(5,6) by (cases "siginfo_next s"; cases vs) auto
    ultimately show ?thesis by (simp add: infos_def p)
  qed
  have "expected i s' = map (SHandler n) (infos n s')" by (rule expected_single [OF d n(1)])
  then have "slog s2 = slog s @ map (\<lambda>v. SHandler n (queued_info n v)) vs" using s2(2) inf by (simp add: delivered_def st comp_def)
  moreover have "pthread_sigmask H i SIG_UNBLOCK (Some (sigbit n)) s1 = Some (Ret (sigmask (info i s1)), s2)"
    using s2(1) by (simp add: pthread_sigmask_def deliver_then_def Let_def s'_def)
  ultimately show ?thesis using s1(1,3) by blast
qed

subsection \<open>Concrete states\<close>

definition demo_signals :: "nat \<Rightarrow> bool \<Rightarrow> u32 \<Rightarrow> u32 \<Rightarrow> signals" where
  "demo_signals handler qs blocked pend =
     \<lparr>thread_table = [Some (demo_thread\<lparr>sigmask := blocked\<rparr>), None], pthread_count = 1, pthreads_exited = 0, pthreads_tobejoined = 0, thread_key = [NOT 0],
      key_destructor = [], thread_info_next = 0, thread_id_cookie = 0x800, pmallocs = [], lag = (\<lambda>_. Some 1), klog = [], sig_pending = pend,
      sigstate = replicate 32 \<lparr>sa = \<lparr>sa_mask = 0, sa_siginfo = qs, sa_handler = handler\<rparr>, pending = []\<rparr>, siginfo_next = [0, 1, 2], sig_mutex = None,
      sigwait_queue = [], sigalrm_armed = False, sigalrm_pending = False, slog = []\<rparr>"

lemma demo_signals_ok:
  "sig_ok 0 (demo_signals h q b p)" "sig_mutex (demo_signals h q b p) = None" "deliverable 0 (demo_signals h q b p) = p AND NOT b"
  "n < 32 \<Longrightarrow> sigstate (demo_signals h q b p) ! n = \<lparr>sa = \<lparr>sa_mask = 0, sa_siginfo = q, sa_handler = h\<rparr>, pending = []\<rparr>"
  "quiet (\<lambda>_ _ _ s. Some s)"
  by (simp_all add: sig_ok_def demo_signals_def deliverable_def demo_thread_def quiet_def)

theorem signals_delivered_in_order_witness:
  "\<exists>s'. cyg_deliver_signals (\<lambda>_ _ _ s. Some s) (Some 0) (demo_signals 100 False 0 5) = Some (Ret True, s') \<and> deliverable 0 s' = 0"
proof -
  have "catches 0 (demo_signals 100 False 0 5)"
    by (auto simp: catches_def caught_def demo_signals_ok dest: bit_imp_le_length)
  from signals_delivered_in_order [OF demo_signals_ok(5,1) this] show ?thesis by (auto simp: demo_signals_ok)
qed

theorem kill_ignored_never_returns_witness:
  "raise_sig (\<lambda>_ _ _ s. Some s) (Some 0) 16 (demo_signals 2 False 0 0) = None"
  using kill_ignored_never_returns [of 16 0 "demo_signals 2 False 0 0"] demo_signals_ok
  by (simp add: SIGNAL_VALID_def demo_signals_def demo_thread_def)

theorem queued_values_reach_handler_witness:
  "\<exists>s1 m s2. queue_all (\<lambda>_ _ _ s. Some s) 0 16 [7, 8] (demo_signals 100 True (sigbit 16) 0) = Some s1 \<and>
     pthread_sigmask (\<lambda>_ _ _ s. Some s) 0 SIG_UNBLOCK (Some (sigbit 16)) s1 = Some (Ret m, s2) \<and>
     slog s2 = [SHandler 16 (queued_info 16 7), SHandler 16 (queued_info 16 8)]"
proof -
  let ?s = "demo_signals 100 True (sigbit 16) 0"
  have "can_queue 0 16 ?s" using demo_signals_ok
    by (auto simp: can_queue_def SIGNAL_VALID_def bit_sigbit demo_signals_def demo_thread_def)
  moreover have "slog ?s = []" "length (siginfo_next ?s) = 3" by (simp_all add: demo_signals_def)
  ultimately show ?thesis using queued_values_reach_handler [OF demo_signals_ok(5), of 0 16 ?s "[7, 8]"]
    by (simp add: demo_signals_ok(4) caught_def del: queue_all.simps) blast
qed

end
