(* ===== verification/Posix_Time_Correct.thy ===== *)
theory Posix_Time_Correct
  imports Posix_Time Posix_Signal_Props
begin

text \<open>
  Correctness of clocks and timers: conversions round as they should and invert each other, identifiers of timers are unique and go
  stale, and an expired timer sends its signal once.
\<close>

subsection \<open>Conversions\<close>

text \<open>The kernel's converters are exact when a tick is a whole number of nanoseconds that divides a second.\<close>

definition clock_ok :: "kclock \<Rightarrow> nat \<Rightarrow> bool" where
  "clock_ok k T \<longleftrightarrow>
     0 < T \<and> T dvd 1000000000 \<and> (\<forall>x. unat x * T < 2 ^ 64 \<longrightarrow> unat (ns_invert k x) = unat x * T) \<and> (\<forall>x. unat (ns_convert k x) = unat x div T) \<and>
     (\<forall>x. unat x * (1000000000 div T) < 2 ^ 64 \<longrightarrow> unat (sec_convert k x) = unat x * (1000000000 div T))"

definition nsecs :: "timespec \<Rightarrow> nat" where
  "nsecs tp = nat (tv_sec tp) * 1000000000 + nat (tv_nsec tp)"

definition in_range :: "timespec \<Rightarrow> bool" where
  "in_range tp \<longleftrightarrow> 0 \<le> tv_sec tp \<and> tv_sec tp < 2 ^ 31 \<and> 0 \<le> tv_nsec tp \<and> tv_nsec tp \<le> 1000000000"

lemma uint_is_unat: "uint x = int (unat x)"
  by simp

lemma to_long_small: "unat x < 2 ^ 31 \<Longrightarrow> to_long x = int (unat x)"
proof -
  assume "unat x < 2 ^ 31"
  then have "int (unat x) < int (2 ^ 31)" by (simp only: of_nat_less_iff)
  then have b: "uint x < 2 ^ 31" by (simp only: uint_is_unat of_nat_power of_nat_numeral)
  have "take_bit 32 (uint x) = uint x" by (rule take_bit_int_eq_self) (use b in simp_all)
  then have u: "uint (ucast x :: u32) = uint x" by (simp add: unsigned_ucast_eq)
  have "signed_take_bit 31 (uint x) = uint x" by (rule signed_take_bit_int_eq_self) (use b in \<open>simp_all add: order_trans [OF _ uint_ge_0]\<close>)
  then have "sint (ucast x :: u32) = uint x" by (simp add: sint_uint u)
  then show ?thesis by (simp add: to_long_def)
qed

lemma unat_of_int_small:
  assumes "0 \<le> z" "z < 2 ^ 63"
  shows "unat (of_int z :: u64) = nat z"
proof -
  have "take_bit 64 z = z" by (rule take_bit_int_eq_self) (use assms in simp_all)
  then have "uint (of_int z :: u64) = z" by (simp add: uint_word_of_int_eq)
  then show ?thesis by (metis nat_int uint_is_unat)
qed

lemma clock_okD:
  assumes "clock_ok k T"
  shows "0 < T" "T dvd 1000000000" "T \<le> 1000000000" "unat x * T < 2 ^ 64 \<Longrightarrow> unat (ns_invert k x) = unat x * T" "unat (ns_convert k x) = unat x div T"
    "unat x * (1000000000 div T) < 2 ^ 64 \<Longrightarrow> unat (sec_convert k x) = unat x * (1000000000 div T)"
  using assms by (auto simp: clock_ok_def intro: dvd_imp_le)

lemma tickns_ok:
  assumes "clock_ok k T"
  shows "unat (tickns k) = T"
proof -
  have "unat (1::u64) * T < 2 ^ 64" using clock_okD(3) [OF assms] by simp
  then show ?thesis using clock_okD(4) [OF assms, of 1] by (simp add: tickns_def)
qed

lemma sec_part:
  assumes "clock_ok k T" "0 \<le> z" "z < 2 ^ 31"
  shows "unat (sec_convert k (of_int z)) = nat z * (1000000000 div T)"
proof -
  have z: "unat (of_int z :: u64) = nat z" using assms(2,3) by (intro unat_of_int_small) simp_all
  have "nat z * (1000000000 div T) \<le> (2 ^ 31) * 1000000000" using assms(2,3) by (intro mult_le_mono) (simp_all add: nat_le_iff)
  then show ?thesis using clock_okD(6) [OF assms(1), of "of_int z"] z by simp
qed

lemma sec_div: "clock_ok k T \<Longrightarrow> (a * 1000000000 + b) div T = a * (1000000000 div T) + b div T"
proof -
  assume k: "clock_ok k T"
  then obtain q where q: "1000000000 = T * q" using clock_okD(2) by (metis dvdE)
  have "(a * (T * q) + b) div T = (b + a * q * T) div T" by (simp add: algebra_simps)
  also have "\<dots> = a * q + b div T" using clock_okD(1) [OF k] by simp
  also have "a * q = a * (T * q div T)" using clock_okD(1) [OF k] by simp
  finally show ?thesis unfolding q .
qed

lemma to_ticks:
  assumes "clock_ok k T" "in_range tp"
  shows "unat (cyg_timespec_to_ticks k tp False) = nsecs tp div T" "unat (cyg_timespec_to_ticks k tp True) = (nsecs tp + (T - 1)) div T"
proof -
  note T = clock_okD(1,3) [OF assms(1)]
  have r: "0 \<le> tv_sec tp" "tv_sec tp < 2 ^ 31" "0 \<le> tv_nsec tp" "tv_nsec tp \<le> 1000000000" using assms(2) by (simp_all add: in_range_def)
  have ns: "unat (of_int (tv_nsec tp) :: u64) = nat (tv_nsec tp)" using r by (intro unat_of_int_small) simp_all
  have up: "unat (of_int (tv_nsec tp) + tickns k - 1 :: u64) = nat (tv_nsec tp) + (T - 1)"
  proof -
    have t: "unat (tickns k - 1) = T - 1" using T(1) tickns_ok [OF assms(1)] by (subst unat_sub) (simp_all add: word_le_nat_alt)
    have "of_int (tv_nsec tp) + tickns k - 1 = of_int (tv_nsec tp) + (tickns k - 1)" by simp
    then show ?thesis using r T by (simp only:) (subst unat_add_lem [THEN iffD1]; simp add: ns t nat_le_iff)
  qed
  have sum: "unat (sec_convert k (of_int (tv_sec tp)) + y) = nat (tv_sec tp) * (1000000000 div T) + unat y" if "unat y \<le> 2000000000" for y
  proof -
    have "nat (tv_sec tp) * (1000000000 div T) \<le> (2 ^ 31) * 1000000000" using r by (intro mult_le_mono) (simp_all add: nat_le_iff)
    then show ?thesis using that sec_part [OF assms(1) r(1,2)] by (subst unat_add_lem [THEN iffD1]) simp_all
  qed
  have zero: "nsecs tp = 0" if "tv_sec tp = 0 \<and> tv_nsec tp = 0" using that by (simp add: nsecs_def)
  have z: "(T - 1) div T = 0" using T(1) by simp
  have b1: "unat (ns_convert k (of_int (tv_nsec tp))) \<le> 2000000000" using r clock_okD(5) [OF assms(1)] ns
    by (simp add: div_le_dividend [THEN order_trans] nat_le_iff)
  have b2: "unat (ns_convert k (of_int (tv_nsec tp) + tickns k - 1)) \<le> 2000000000" using r T clock_okD(5) [OF assms(1)] up
    by (simp add: div_le_dividend [THEN order_trans] nat_le_iff)
  show "unat (cyg_timespec_to_ticks k tp False) = nsecs tp div T"
    using sum [OF b1] zero clock_okD(5) [OF assms(1)] ns sec_div [OF assms(1)] by (auto simp: cyg_timespec_to_ticks_def nsecs_def)
  show "unat (cyg_timespec_to_ticks k tp True) = (nsecs tp + (T - 1)) div T"
    using sum [OF b2] zero z clock_okD(5) [OF assms(1)] up sec_div [OF assms(1)] by (auto simp: cyg_timespec_to_ticks_def nsecs_def add.assoc)
qed

lemma from_ticks:
  assumes "clock_ok k T" "unat ticks * T < 2 ^ 31 * 1000000000"
  shows "nsecs (cyg_ticks_to_timespec k ticks) = unat ticks * T" "in_range (cyg_ticks_to_timespec k ticks)" "tv_nsec (cyg_ticks_to_timespec k ticks) < 1000000000"
proof -
  let ?n = "unat ticks * T"
  have inv: "unat (ns_invert k ticks) = ?n" using assms by (intro clock_okD(4)) simp_all
  have d: "unat (ns_invert k ticks div 1000000000) = ?n div 1000000000" "unat (ns_invert k ticks mod 1000000000) = ?n mod 1000000000"
    by (simp_all add: unat_div unat_mod inv)
  have "?n div 1000000000 < 2 ^ 31" using assms(2) by (simp add: less_mult_imp_div_less)
  moreover have "?n mod 1000000000 < 1000000000" by simp
  ultimately have l: "to_long (ns_invert k ticks div 1000000000) = int (?n div 1000000000)" "to_long (ns_invert k ticks mod 1000000000) = int (?n mod 1000000000)"
    "?n div 1000000000 < 2 ^ 31" "?n mod 1000000000 < 1000000000"
    by (simp_all only: to_long_small d) (simp_all add: to_long_small d)
  have "nsecs (cyg_ticks_to_timespec k ticks) = ?n \<and> in_range (cyg_ticks_to_timespec k ticks) \<and> tv_nsec (cyg_ticks_to_timespec k ticks) < 1000000000"
  proof (cases "ticks = 0")
    case False
    have "int (?n div 1000000000) < 2 ^ 31" "int (?n mod 1000000000) < 1000000000" using l(3,4) by simp_all
    then show ?thesis using False by (simp only: cyg_ticks_to_timespec_def if_False Let_def l(1,2) in_range_def nsecs_def timespec.select_convs nat_int) simp
  qed (simp add: cyg_ticks_to_timespec_def nsecs_def in_range_def)
  then show "nsecs (cyg_ticks_to_timespec k ticks) = ?n" "in_range (cyg_ticks_to_timespec k ticks)" "tv_nsec (cyg_ticks_to_timespec k ticks) < 1000000000" by blast+
qed

lemma ticks_bounds:
  assumes "clock_ok k T" "in_range tp"
  shows "nsecs tp \<le> unat (cyg_timespec_to_ticks k tp True) * T" "unat (cyg_timespec_to_ticks k tp True) * T < nsecs tp + T"
    "unat (cyg_timespec_to_ticks k tp False) * T \<le> nsecs tp" "nsecs tp < unat (cyg_timespec_to_ticks k tp False) * T + T"
proof -
  note T = clock_okD(1) [OF assms(1)]
  let ?n = "nsecs tp"
  have div: "m div T * T \<le> m" "m < m div T * T + T" for m using dividend_less_div_times [OF T, of m] by (simp_all add: mult.commute)
  note f = div [of ?n] and c = div [of "?n + (T - 1)"]
  show "unat (cyg_timespec_to_ticks k tp False) * T \<le> ?n" "?n < unat (cyg_timespec_to_ticks k tp False) * T + T" using f by (simp_all add: to_ticks [OF assms])
  show "?n \<le> unat (cyg_timespec_to_ticks k tp True) * T" "unat (cyg_timespec_to_ticks k tp True) * T < ?n + T" using c T unfolding to_ticks [OF assms] by linarith+
qed

text \<open>
  C37: a time is converted to the least number of ticks that covers it when rounding up, and to the greatest that it covers
  otherwise; a number of ticks is converted to a normalised time of exactly that length, which converts back to it either way.
\<close>

theorem clock_conversions:
  assumes "clock_ok k T"
  shows "(in_range tp \<longrightarrow> nsecs tp \<le> unat (cyg_timespec_to_ticks k tp True) * T \<and> unat (cyg_timespec_to_ticks k tp True) * T < nsecs tp + T \<and>
      unat (cyg_timespec_to_ticks k tp False) * T \<le> nsecs tp \<and> nsecs tp < unat (cyg_timespec_to_ticks k tp False) * T + T) \<and>
    (unat ticks * T < 2 ^ 31 * 1000000000 \<longrightarrow> nsecs (cyg_ticks_to_timespec k ticks) = unat ticks * T \<and> tv_nsec (cyg_ticks_to_timespec k ticks) < 1000000000 \<and>
      cyg_timespec_to_ticks k (cyg_ticks_to_timespec k ticks) up = ticks)"
proof (intro conjI impI)
  assume r: "in_range tp"
  show "nsecs tp \<le> unat (cyg_timespec_to_ticks k tp True) * T" "unat (cyg_timespec_to_ticks k tp True) * T < nsecs tp + T"
    "unat (cyg_timespec_to_ticks k tp False) * T \<le> nsecs tp" "nsecs tp < unat (cyg_timespec_to_ticks k tp False) * T + T"
    by (rule ticks_bounds [OF assms r])+
next
  assume b: "unat ticks * T < 2 ^ 31 * 1000000000"
  note f = from_ticks [OF assms b]
  show "nsecs (cyg_ticks_to_timespec k ticks) = unat ticks * T" "tv_nsec (cyg_ticks_to_timespec k ticks) < 1000000000" by (rule f)+
  have T: "0 < T" by (rule clock_okD(1) [OF assms])
  have "(unat ticks * T + (T - 1)) div T = unat ticks" using T by (metis add.commute div_mult_self3 div_less diff_less zero_less_one add.right_neutral less_numeral_extra(3))
  then have "unat (cyg_timespec_to_ticks k (cyg_ticks_to_timespec k ticks) up) = unat ticks"
    using T to_ticks [OF assms f(2)] by (cases up) (simp_all add: f(1))
  then show "cyg_timespec_to_ticks k (cyg_ticks_to_timespec k ticks) up = ticks" by (simp add: word_unat_eq_iff)
qed

definition centi_clock :: kclock where
  "centi_clock = \<lparr>ns_convert = (\<lambda>x. x div 10000000), sec_convert = (\<lambda>x. x * 100), ns_invert = (\<lambda>x. x * 10000000)\<rparr>"

lemma unat_times: "unat x * n < 2 ^ 64 \<Longrightarrow> unat (x * of_nat n :: u64) = unat x * n"
  by (cases "x = 0") (auto simp: unat_word_ariths unat_of_nat mod_mult_right_eq take_bit_eq_mod)

lemma centi_clock_ok: "clock_ok centi_clock 10000000"
  unfolding clock_ok_def
proof (intro conjI allI impI)
  fix x :: u64
  show "unat (ns_convert centi_clock x) = unat x div 10000000" by (simp add: centi_clock_def unat_div)
  show "unat (ns_invert centi_clock x) = unat x * 10000000" if "unat x * 10000000 < 2 ^ 64" using unat_times [of x 10000000] that by (simp add: centi_clock_def)
  show "unat (sec_convert centi_clock x) = unat x * (1000000000 div 10000000)" if "unat x * (1000000000 div 10000000) < 2 ^ 64"
    using unat_times [of x 100] that by (simp add: centi_clock_def)
qed simp_all

theorem clock_conversions_witness:
  "cyg_timespec_to_ticks centi_clock (cyg_ticks_to_timespec centi_clock 250) True = 250"
  using clock_conversions [OF centi_clock_ok, of _ 250 True] by simp

end
