(* ===== verification/Posix_Sync.thy ===== *)
theory Posix_Sync
  imports Posix_Time_Correct
begin

text \<open>
  POSIX mutexes and condition variables (\<^verbatim>\<open>mutex.cxx\<close>), semaphores (\<^verbatim>\<open>sem.cxx\<close>) and scheduling parameters (\<^verbatim>\<open>sched.cxx\<close>), all of
  them under \<^verbatim>\<open>tools/gcc4libstdxx/ecos/compat/posix/current/src\<close>, over the kernel's own objects, which are the parameters
  \<open>kmutex\<close>, \<open>kcond\<close> and \<open>ksem\<close>. A call of the kernel that may block is an argument: a function that gives its result and the state
  after it, with what other threads do meanwhile. A null pointer is \<open>None\<close>. Both priority protocols are configured.
\<close>

subsection \<open>Attributes of mutexes\<close>

record mutexattr =
  protocol :: int
  prioceiling :: int

definition PTHREAD_PRIO_NONE :: int where "PTHREAD_PRIO_NONE = 1"
definition PTHREAD_PRIO_INHERIT :: int where "PTHREAD_PRIO_INHERIT = 2"
definition PTHREAD_PRIO_PROTECT :: int where "PTHREAD_PRIO_PROTECT = 3"

lemmas prio_constants [simp] = PTHREAD_PRIO_NONE_def PTHREAD_PRIO_INHERIT_def PTHREAD_PRIO_PROTECT_def

definition pthread_mutexattr_init :: mutexattr where
  "pthread_mutexattr_init = \<lparr>protocol = PTHREAD_PRIO_NONE, prioceiling = 0\<rparr>"

definition pthread_mutexattr_setprotocol :: "int \<Rightarrow> mutexattr \<Rightarrow> unit outcome \<times> mutexattr" where
  "pthread_mutexattr_setprotocol p a =
     (if p = PTHREAD_PRIO_NONE \<or> p = PTHREAD_PRIO_INHERIT \<or> p = PTHREAD_PRIO_PROTECT then (Ret (), a\<lparr>protocol := p\<rparr>) else (Err EINVAL, a))"

definition pthread_mutexattr_setprioceiling :: "int \<Rightarrow> mutexattr \<Rightarrow> unit outcome \<times> mutexattr" where
  "pthread_mutexattr_setprioceiling p a = (Ret (), a\<lparr>prioceiling := p\<rparr>)"

definition pthread_mutexattr_getprotocol :: "mutexattr \<Rightarrow> int outcome" where
  "pthread_mutexattr_getprotocol a = Ret (protocol a)"

definition pthread_mutexattr_getprioceiling :: "mutexattr \<Rightarrow> int outcome" where
  "pthread_mutexattr_getprioceiling a = Ret (prioceiling a)"

text \<open>The type of a mutex is accepted and ignored.\<close>

definition pthread_mutexattr_settype :: "int \<Rightarrow> mutexattr \<Rightarrow> unit outcome \<times> mutexattr" where
  "pthread_mutexattr_settype ty a = (Ret (), a)"

subsection \<open>Mutexes\<close>

datatype kprotocol = NONE | INHERIT | CEILING

text \<open>Threads are numbers; the owner of a mutex is one of them. \<open>mx_unlock\<close> may pass the mutex on to a thread that waits.\<close>

record 'm kmutex =
  mx_new :: "kprotocol \<Rightarrow> 'm"
  mx_destroy :: "'m \<Rightarrow> 'm"
  mx_owner :: "'m \<Rightarrow> nat option"
  mx_trylock :: "nat \<Rightarrow> 'm \<Rightarrow> bool \<times> 'm"
  mx_unlock :: "'m \<Rightarrow> 'm"
  mx_ceiling :: "'m \<Rightarrow> int"
  mx_set_ceiling :: "int \<Rightarrow> 'm \<Rightarrow> 'm"

definition kernel_protocol :: "int \<Rightarrow> kprotocol option" where
  "kernel_protocol p =
     (if p = PTHREAD_PRIO_PROTECT then Some CEILING else if p = PTHREAD_PRIO_INHERIT then Some INHERIT
      else if p = PTHREAD_PRIO_NONE then Some NONE else None)"

definition pthread_mutex_init :: "'m kmutex \<Rightarrow> mutexattr option \<Rightarrow> 'm option \<Rightarrow> unit outcome \<times> 'm option" where
  "pthread_mutex_init K attr mutex =
     (case mutex of
        None \<Rightarrow> (Err EINVAL, None)
      | Some m \<Rightarrow>
          (let use_attr = (case attr of None \<Rightarrow> pthread_mutexattr_init | Some a \<Rightarrow> a)
           in case kernel_protocol (protocol use_attr) of
                None \<Rightarrow> (Err EINVAL, Some m)
              | Some p \<Rightarrow>
                  (let m1 = mx_new K p
                   in (Ret (), Some (if p = CEILING then mx_set_ceiling K (prioceiling use_attr) m1 else m1)))))"

definition pthread_mutex_destroy :: "'m kmutex \<Rightarrow> 'm option \<Rightarrow> unit outcome \<times> 'm option" where
  "pthread_mutex_destroy K mutex =
     (case mutex of
        None \<Rightarrow> (Err EINVAL, None)
      | Some m \<Rightarrow> if mx_owner K m \<noteq> None then (Err EBUSY, Some m) else (Ret (), Some (mx_destroy K m)))"

text \<open>Each attempt to lock takes the next of the functions \<open>ls\<close>; without one the call does not return.\<close>

fun lock_loop :: "('m \<Rightarrow> bool \<times> 'm) list \<Rightarrow> 'm \<Rightarrow> 'm option" where
  "lock_loop [] m = None"
| "lock_loop (l # ls) m = (let (ok, m1) = l m in if ok then Some m1 else lock_loop ls m1)"

definition pthread_mutex_lock :: "'m kmutex \<Rightarrow> nat \<Rightarrow> ('m \<Rightarrow> bool \<times> 'm) list \<Rightarrow> 'm option \<Rightarrow> (unit outcome \<times> 'm option) option" where
  "pthread_mutex_lock K self ls mutex =
     (case mutex of
        None \<Rightarrow> Some (Err EINVAL, None)
      | Some m \<Rightarrow>
          if mx_owner K m = Some self then Some (Err EDEADLK, Some m)
          else map_option (\<lambda>m1. (Ret (), Some m1)) (lock_loop ls m))"

definition pthread_mutex_trylock :: "'m kmutex \<Rightarrow> nat \<Rightarrow> 'm option \<Rightarrow> unit outcome \<times> 'm option" where
  "pthread_mutex_trylock K self mutex =
     (case mutex of
        None \<Rightarrow> (Err EINVAL, None)
      | Some m \<Rightarrow>
          if mx_owner K m = Some self then (Err EDEADLK, Some m)
          else (let (ok, m1) = mx_trylock K self m in (if ok then Ret () else Err EBUSY, Some m1)))"

definition pthread_mutex_unlock :: "'m kmutex \<Rightarrow> 'm option \<Rightarrow> unit outcome \<times> 'm option" where
  "pthread_mutex_unlock K mutex = (case mutex of None \<Rightarrow> (Err EINVAL, None) | Some m \<Rightarrow> (Ret (), Some (mx_unlock K m)))"

text \<open>The result of locking is not looked at. The value is the old ceiling.\<close>

definition pthread_mutex_setprioceiling :: "'m kmutex \<Rightarrow> nat \<Rightarrow> ('m \<Rightarrow> bool \<times> 'm) list \<Rightarrow> int \<Rightarrow> 'm option \<Rightarrow> (int outcome \<times> 'm option) option" where
  "pthread_mutex_setprioceiling K self ls p mutex =
     (case mutex of
        None \<Rightarrow> Some (Err EINVAL, None)
      | Some m \<Rightarrow>
          do {
            (_, m1) \<leftarrow> pthread_mutex_lock K self ls (Some m);
            let old = mx_ceiling K (the m1);
                m2 = mx_set_ceiling K p (the m1)
            in Some (Ret old, snd (pthread_mutex_unlock K (Some m2)))
          })"

definition pthread_mutex_getprioceiling :: "'m kmutex \<Rightarrow> 'm option \<Rightarrow> int outcome" where
  "pthread_mutex_getprioceiling K mutex = (case mutex of None \<Rightarrow> Err EINVAL | Some m \<Rightarrow> Ret (mx_ceiling K m))"

subsection \<open>Condition variables\<close>

record 'v kcond =
  cv_new :: 'v
  cv_destroy :: "'v \<Rightarrow> 'v"
  cv_signal :: "'v \<Rightarrow> 'v"
  cv_broadcast :: "'v \<Rightarrow> 'v"

definition pthread_cond_init :: "'v kcond \<Rightarrow> 'v option \<Rightarrow> unit outcome \<times> 'v option" where
  "pthread_cond_init C cond = (case cond of None \<Rightarrow> (Err EINVAL, None) | Some v \<Rightarrow> (Ret (), Some (cv_new C)))"

definition pthread_cond_destroy :: "'v kcond \<Rightarrow> 'v option \<Rightarrow> unit outcome \<times> 'v option" where
  "pthread_cond_destroy C cond = (case cond of None \<Rightarrow> (Err EINVAL, None) | Some v \<Rightarrow> (Ret (), Some (cv_destroy C v)))"

definition pthread_cond_signal :: "'v kcond \<Rightarrow> 'v option \<Rightarrow> unit outcome \<times> 'v option" where
  "pthread_cond_signal C cond = (case cond of None \<Rightarrow> (Err EINVAL, None) | Some v \<Rightarrow> (Ret (), Some (cv_signal C v)))"

definition pthread_cond_broadcast :: "'v kcond \<Rightarrow> 'v option \<Rightarrow> unit outcome \<times> 'v option" where
  "pthread_cond_broadcast C cond = (case cond of None \<Rightarrow> (Err EINVAL, None) | Some v \<Rightarrow> (Ret (), Some (cv_broadcast C v)))"

text \<open>
  The kernel's wait unlocks the mutex, waits and locks it again; it is the argument \<open>w\<close>, on the state of the threads. A timed wait tells
  whether it ended by its timeout.
\<close>

definition pthread_cond_wait :: "pcfg \<Rightarrow> (nat \<Rightarrow> nat \<Rightarrow> 'a pthreads_scheme \<Rightarrow> 'a pthreads_scheme option) \<Rightarrow> nat \<Rightarrow> nat option \<Rightarrow>
    ('a pthreads_scheme \<Rightarrow> 'a pthreads_scheme) \<Rightarrow> bool \<Rightarrow> 'a pthreads_scheme \<Rightarrow> (unit outcome \<times> 'a pthreads_scheme) option" where
  "pthread_cond_wait c run canceled self w given s =
     do {
       (ended, s1) \<leftarrow> pthread_testcancel c run canceled self s;
       if ended then Some (Cancelled, s1)
       else if \<not> given then Some (Err EINVAL, s1)
       else
         do {
           (ended2, s2) \<leftarrow> pthread_testcancel c run canceled self (w s1);
           Some (if ended2 then Cancelled else Ret (), s2)
         }
     }"

definition cond_ticks :: "kclock \<Rightarrow> timespec \<Rightarrow> u64" where
  "cond_ticks k abstime = sec_convert k (of_int (tv_sec abstime)) + ns_convert k (of_int (tv_nsec abstime))"

definition pthread_cond_timedwait :: "pcfg \<Rightarrow> (nat \<Rightarrow> nat \<Rightarrow> 'a pthreads_scheme \<Rightarrow> 'a pthreads_scheme option) \<Rightarrow> nat \<Rightarrow> kclock \<Rightarrow> nat option \<Rightarrow>
    (u64 \<Rightarrow> 'a pthreads_scheme \<Rightarrow> bool \<times> 'a pthreads_scheme) \<Rightarrow> bool \<Rightarrow> timespec option \<Rightarrow> 'a pthreads_scheme \<Rightarrow>
    (unit outcome \<times> 'a pthreads_scheme) option" where
  "pthread_cond_timedwait c run canceled k self w given abstime s =
     do {
       (ended, s1) \<leftarrow> pthread_testcancel c run canceled self s;
       if ended then Some (Cancelled, s1)
       else if \<not> given \<or> abstime = None then Some (Err EINVAL, s1)
       else
         (let (timed_out, s2) = w (cond_ticks k (the abstime)) s1
          in do {
               (ended2, s3) \<leftarrow> pthread_testcancel c run canceled self s2;
               Some (if ended2 then Cancelled else if timed_out then Err ETIMEDOUT else Ret (), s3)
             })
     }"

subsection \<open>Semaphores\<close>

record 'q ksem =
  sm_new :: "nat \<Rightarrow> 'q"
  sm_destroy :: "'q \<Rightarrow> 'q"
  sm_waiting :: "'q \<Rightarrow> bool"
  sm_trywait :: "'q \<Rightarrow> bool \<times> 'q"
  sm_post :: "'q \<Rightarrow> 'q"
  sm_peek :: "'q \<Rightarrow> nat"

definition sem_init :: "'q ksem \<Rightarrow> nat \<Rightarrow> nat \<Rightarrow> 'q \<Rightarrow> unit outcome \<times> 'q" where
  "sem_init Q SEM_VALUE_MAX v q = (if v > SEM_VALUE_MAX then (Err EINVAL, q) else (Ret (), sm_new Q v))"

definition sem_destroy :: "'q ksem \<Rightarrow> 'q \<Rightarrow> unit outcome \<times> 'q" where
  "sem_destroy Q q = (if sm_waiting Q q then (Err EBUSY, q) else (Ret (), sm_destroy Q q))"

definition sem_wait :: "pcfg \<Rightarrow> (nat \<Rightarrow> nat \<Rightarrow> 'a pthreads_scheme \<Rightarrow> 'a pthreads_scheme option) \<Rightarrow> nat \<Rightarrow> nat option \<Rightarrow>
    ('q \<Rightarrow> 'a pthreads_scheme \<Rightarrow> bool \<times> 'q \<times> 'a pthreads_scheme) \<Rightarrow> 'q \<Rightarrow> 'a pthreads_scheme \<Rightarrow> (unit outcome \<times> 'q \<times> 'a pthreads_scheme) option" where
  "sem_wait c run canceled self w q s =
     do {
       (ended, s1) \<leftarrow> pthread_testcancel c run canceled self s;
       if ended then Some (Cancelled, q, s1)
       else
         (let (ok, q1, s2) = w q s1
          in do {
               (ended2, s3) \<leftarrow> pthread_testcancel c run canceled self s2;
               Some (if ended2 then Cancelled else if ok then Ret () else Err EINTR, q1, s3)
             })
     }"

definition sem_trywait :: "'q ksem \<Rightarrow> 'q \<Rightarrow> unit outcome \<times> 'q" where
  "sem_trywait Q q = (let (ok, q1) = sm_trywait Q q in (if ok then Ret () else Err EAGAIN, q1))"

definition sem_post :: "'q ksem \<Rightarrow> 'q \<Rightarrow> unit outcome \<times> 'q" where
  "sem_post Q q = (Ret (), sm_post Q q)"

definition sem_getvalue :: "'q ksem \<Rightarrow> 'q \<Rightarrow> nat outcome" where
  "sem_getvalue Q q = Ret (sm_peek Q q)"

text \<open>Named semaphores do not exist.\<close>

definition sem_open :: "string \<Rightarrow> unit outcome" where "sem_open name = Err ENOSYS"
definition sem_close :: "'q \<Rightarrow> unit outcome" where "sem_close q = Err ENOSYS"
definition sem_unlink :: "string \<Rightarrow> unit outcome" where "sem_unlink name = Err ENOSYS"

subsection \<open>Scheduling\<close>

text \<open>\<^verbatim>\<open>sched_setparam\<close>, \<^verbatim>\<open>sched_getparam\<close>, \<^verbatim>\<open>sched_setscheduler\<close> and \<^verbatim>\<open>sched_getscheduler\<close> all do this.\<close>

definition sched_process :: "int \<Rightarrow> unit outcome" where
  "sched_process pid = (if pid \<noteq> 0 then Err ESRCH else Err ENOSYS)"

definition sched_yield :: "'a pthreads_scheme \<Rightarrow> unit outcome \<times> 'a pthreads_scheme" where
  "sched_yield s = (Ret (), kcalls [KYield] s)"

definition PTHREAD_POSIX_PRIORITY :: "pcfg \<Rightarrow> int \<Rightarrow> int" where
  "PTHREAD_POSIX_PRIORITY c pri = CYG_THREAD_MIN_PRIORITY c - pri"

definition sched_get_priority_max :: "pcfg \<Rightarrow> int \<Rightarrow> int outcome" where
  "sched_get_priority_max c policy =
     (if policy \<noteq> SCHED_FIFO c \<and> policy \<noteq> SCHED_RR c \<and> policy \<noteq> SCHED_OTHER c then Err EINVAL
      else Ret (PTHREAD_POSIX_PRIORITY c (CYG_THREAD_MAX_PRIORITY c)))"

definition sched_get_priority_min :: "pcfg \<Rightarrow> int \<Rightarrow> int outcome" where
  "sched_get_priority_min c policy =
     (if policy \<noteq> SCHED_FIFO c \<and> policy \<noteq> SCHED_RR c \<and> policy \<noteq> SCHED_OTHER c then Err EINVAL
      else Ret (PTHREAD_POSIX_PRIORITY c (CYG_THREAD_MIN_PRIORITY c - 1)))"

definition sched_rr_get_interval :: "kclock \<Rightarrow> u64 \<Rightarrow> int \<Rightarrow> timespec outcome" where
  "sched_rr_get_interval k TIMESLICE_TICKS pid = (if pid \<noteq> 0 then Err ESRCH else Ret (cyg_ticks_to_timespec k TIMESLICE_TICKS))"

subsection \<open>What mutexes guarantee\<close>

text \<open>
  The kernel's contract: a new mutex is free, a free mutex can be taken and one that is owned cannot, and its ceiling is kept. A
  blocking lock that succeeds makes the caller the owner.
\<close>

definition kmutex_ok :: "'m kmutex \<Rightarrow> bool" where
  "kmutex_ok K \<longleftrightarrow>
     (\<forall>p. mx_owner K (mx_new K p) = None) \<and> (\<forall>c m. mx_owner K (mx_set_ceiling K c m) = mx_owner K m \<and> mx_ceiling K (mx_set_ceiling K c m) = c) \<and>
     (\<forall>t m. mx_owner K m = None \<longrightarrow> fst (mx_trylock K t m) \<and> mx_owner K (snd (mx_trylock K t m)) = Some t) \<and>
     (\<forall>t m. mx_owner K m \<noteq> None \<longrightarrow> mx_trylock K t m = (False, m)) \<and> (\<forall>m. mx_ceiling K (mx_unlock K m) = mx_ceiling K m)"

definition locks_ok :: "'m kmutex \<Rightarrow> nat \<Rightarrow> ('m \<Rightarrow> bool \<times> 'm) list \<Rightarrow> bool" where
  "locks_ok K self ls \<longleftrightarrow> (\<forall>l \<in> set ls. \<forall>m. fst (l m) \<longrightarrow> mx_owner K (snd (l m)) = Some self)"

lemma lock_loop_owner:
  assumes "locks_ok K self ls" "lock_loop ls m = Some m1"
  shows "mx_owner K m1 = Some self"
  using assms
proof (induction ls arbitrary: m)
  case (Cons l ls)
  have l: "fst (l m) \<longrightarrow> mx_owner K (snd (l m)) = Some self" "locks_ok K self ls" using Cons.prems(1) by (simp_all add: locks_ok_def)
  show ?case using Cons.prems(2) Cons.IH [OF l(2)] l(1) by (simp add: case_prod_beta split: if_splits)
qed simp

lemma lock_loop_ends: "\<exists>l \<in> set ls. \<forall>m. fst (l m) \<Longrightarrow> \<exists>m1. lock_loop ls m = Some m1"
proof (induction ls arbitrary: m)
  case (Cons l ls)
  show ?case
  proof (cases "fst (l m)")
    case False
    then have "\<exists>l \<in> set ls. \<forall>m. fst (l m)" using Cons.prems by auto
    then show ?thesis using False Cons.IH by (simp add: case_prod_beta)
  qed (simp add: case_prod_beta)
qed simp

text \<open>
  Mutual exclusion: locking returns as soon as one attempt succeeds, and the caller owns the mutex then. While a thread owns it, every
  other thread's attempt fails with \<^verbatim>\<open>EBUSY\<close>, its own with \<^verbatim>\<open>EDEADLK\<close>, and it cannot be destroyed; a free mutex is
  taken by the first attempt.
\<close>

theorem mutex_excludes:
  assumes "kmutex_ok K" "locks_ok K t ls" "\<exists>l \<in> set ls. \<forall>m. fst (l m)" "mx_owner K m \<noteq> Some t"
  shows "\<exists>m1. pthread_mutex_lock K t ls (Some m) = Some (Ret (), Some m1) \<and> mx_owner K m1 = Some t \<and>
    (\<forall>t'. t' \<noteq> t \<longrightarrow> pthread_mutex_trylock K t' (Some m1) = (Err EBUSY, Some m1)) \<and>
    pthread_mutex_lock K t ls (Some m1) = Some (Err EDEADLK, Some m1) \<and> pthread_mutex_destroy K (Some m1) = (Err EBUSY, Some m1) \<and>
    (mx_owner K (mx_unlock K m1) = None \<longrightarrow>
       (\<forall>t'. \<exists>m2. pthread_mutex_trylock K t' (snd (pthread_mutex_unlock K (Some m1))) = (Ret (), Some m2) \<and> mx_owner K m2 = Some t'))"
proof -
  obtain m1 where m1: "lock_loop ls m = Some m1" using lock_loop_ends [OF assms(3)] by blast
  have own: "mx_owner K m1 = Some t" by (rule lock_loop_owner [OF assms(2) m1])
  have busy: "mx_trylock K t' m1 = (False, m1)" for t' using assms(1) own by (simp add: kmutex_ok_def)
  have free: "fst (mx_trylock K t' m2) \<and> mx_owner K (snd (mx_trylock K t' m2)) = Some t'" if "mx_owner K m2 = None" for t' m2
    using assms(1) that by (simp add: kmutex_ok_def)
  show ?thesis
  proof (intro exI conjI allI impI)
    show "pthread_mutex_lock K t ls (Some m) = Some (Ret (), Some m1)" using assms(4) m1 by (simp add: pthread_mutex_lock_def)
    show "pthread_mutex_trylock K t' (Some m1) = (Err EBUSY, Some m1)" if "t' \<noteq> t" for t' using that own busy by (simp add: pthread_mutex_trylock_def)
    show "pthread_mutex_trylock K t' (snd (pthread_mutex_unlock K (Some m1))) = (Ret (), Some (snd (mx_trylock K t' (mx_unlock K m1))))"
      if "mx_owner K (mx_unlock K m1) = None" for t'
      using free [OF that, of t'] that by (simp add: pthread_mutex_trylock_def pthread_mutex_unlock_def case_prod_beta)
    show "mx_owner K (snd (mx_trylock K t' (mx_unlock K m1))) = Some t'" if "mx_owner K (mx_unlock K m1) = None" for t' using free [OF that] by simp
  qed (use own in \<open>simp_all add: pthread_mutex_lock_def pthread_mutex_destroy_def\<close>)
qed

text \<open>Changing the ceiling of a mutex that the caller owns unlocks the mutex, because the refused attempt to lock it is not noticed.\<close>

lemma setprioceiling_releases_owner:
  assumes "mx_owner K m = Some t"
  shows "pthread_mutex_setprioceiling K t ls p (Some m) = Some (Ret (mx_ceiling K m), Some (mx_unlock K (mx_set_ceiling K p m)))"
  using assms by (simp add: pthread_mutex_setprioceiling_def pthread_mutex_lock_def pthread_mutex_unlock_def Let_def)

text \<open>The ceiling goes to the kernel as it is, although the kernel's priorities run the other way.\<close>

lemma ceiling_not_translated:
  assumes "kmutex_ok K"
  shows "\<exists>m1. pthread_mutex_init K (Some \<lparr>protocol = PTHREAD_PRIO_PROTECT, prioceiling = p\<rparr>) (Some m) = (Ret (), Some m1) \<and> mx_ceiling K m1 = p"
  using assms by (simp add: pthread_mutex_init_def kernel_protocol_def kmutex_ok_def Let_def)

text \<open>The timeout of a condition variable is rounded down, so that the wait may end before the time given.\<close>

lemma cond_ticks_round_down:
  assumes "clock_ok k T"
  shows "cond_ticks k tp = cyg_timespec_to_ticks k tp False"
proof -
  have "sec_convert k 0 = 0" "ns_convert k 0 = 0"
    using clock_okD(5) [OF assms, of 0] clock_okD(6) [OF assms, of 0] by (simp_all add: unat_eq_0)
  then show ?thesis by (simp add: cond_ticks_def cyg_timespec_to_ticks_def)
qed

subsection \<open>What semaphores count\<close>

definition ksem_ok :: "'q ksem \<Rightarrow> bool" where
  "ksem_ok Q \<longleftrightarrow>
     (\<forall>v. sm_peek Q (sm_new Q v) = v \<and> \<not> sm_waiting Q (sm_new Q v)) \<and>
     (\<forall>q. \<not> sm_waiting Q q \<longrightarrow> sm_peek Q (sm_post Q q) = Suc (sm_peek Q q) \<and> \<not> sm_waiting Q (sm_post Q q)) \<and>
     (\<forall>q. \<not> sm_waiting Q q \<longrightarrow>
        (if sm_peek Q q = 0 then sm_trywait Q q = (False, q)
         else fst (sm_trywait Q q) \<and> sm_peek Q (snd (sm_trywait Q q)) = sm_peek Q q - 1 \<and> \<not> sm_waiting Q (snd (sm_trywait Q q))))"

definition take_one :: "'q ksem \<Rightarrow> 'q \<Rightarrow> 'q" where
  "take_one Q q = snd (sem_trywait Q q)"

lemma posts_count: "ksem_ok Q \<Longrightarrow> \<not> sm_waiting Q q \<Longrightarrow> sm_peek Q ((sm_post Q ^^ n) q) = sm_peek Q q + n \<and> \<not> sm_waiting Q ((sm_post Q ^^ n) q)"
  by (induction n) (auto simp: ksem_ok_def)

lemma take_step:
  assumes "ksem_ok Q" "\<not> sm_waiting Q q" "sm_peek Q q \<noteq> 0"
  shows "sm_peek Q (take_one Q q) = sm_peek Q q - 1 \<and> \<not> sm_waiting Q (take_one Q q)"
  using assms by (simp add: take_one_def sem_trywait_def ksem_ok_def case_prod_beta)

lemma takes_count:
  assumes "ksem_ok Q" "\<not> sm_waiting Q q" "n \<le> sm_peek Q q"
  shows "sm_peek Q ((take_one Q ^^ n) q) = sm_peek Q q - n \<and> \<not> sm_waiting Q ((take_one Q ^^ n) q)"
  using assms(3)
proof (induction n)
  case (Suc n)
  then have "sm_peek Q ((take_one Q ^^ n) q) = sm_peek Q q - n" "\<not> sm_waiting Q ((take_one Q ^^ n) q)" "sm_peek Q q - n \<noteq> 0" by simp_all
  then show ?case using take_step [OF assms(1), of "(take_one Q ^^ n) q"] by simp
qed (use assms(2) in simp)

text \<open>A semaphore that starts with a value and is posted some times can be taken exactly that many times in all before \<^verbatim>\<open>EAGAIN\<close>.\<close>

theorem semaphore_counts:
  assumes "ksem_ok Q" "v \<le> mx" "sem_init Q mx v q0 = (r, q)"
  shows "r = Ret () \<and> (\<forall>k. fst (sem_trywait Q ((take_one Q ^^ k) ((sm_post Q ^^ p) q))) = (if k < v + p then Ret () else Err EAGAIN))"
proof -
  have q: "r = Ret ()" "sm_peek Q q = v" "\<not> sm_waiting Q q" using assms by (auto simp: sem_init_def ksem_ok_def)
  define q1 where "q1 = (sm_post Q ^^ p) q"
  have q1: "sm_peek Q q1 = v + p" "\<not> sm_waiting Q q1" using posts_count [OF assms(1) q(3)] q(2) by (simp_all add: q1_def)
  have one: "fst (sem_trywait Q x) = (if 0 < sm_peek Q x then Ret () else Err EAGAIN)" if "\<not> sm_waiting Q x" for x
    using assms(1) that by (cases "sm_peek Q x = 0") (auto simp: sem_trywait_def ksem_ok_def case_prod_beta)
  have stuck: "(take_one Q ^^ (v + p + j)) q1 = (take_one Q ^^ (v + p)) q1" for j
  proof (induction j)
    case (Suc j)
    have "sm_peek Q ((take_one Q ^^ (v + p)) q1) = 0" "\<not> sm_waiting Q ((take_one Q ^^ (v + p)) q1)" using takes_count [OF assms(1) q1(2), of "v + p"] q1(1) by simp_all
    then have "take_one Q ((take_one Q ^^ (v + p)) q1) = (take_one Q ^^ (v + p)) q1" using assms(1) by (auto simp: take_one_def sem_trywait_def ksem_ok_def)
    then show ?case using Suc by simp
  qed simp
  have "fst (sem_trywait Q ((take_one Q ^^ k) q1)) = (if k < v + p then Ret () else Err EAGAIN)" for k
  proof (cases "k < v + p")
    case True
    then show ?thesis using takes_count [OF assms(1) q1(2), of k] q1(1) by (simp add: one)
  next
    case False
    then obtain j where "k = v + p + j" using le_iff_add by (metis not_less)
    then show ?thesis using False stuck [of j] takes_count [OF assms(1) q1(2), of "v + p"] q1(1) by (simp add: one)
  qed
  then show ?thesis using q(1) by (simp add: q1_def)
qed

text \<open>The priorities between the two limits are those that the kernel has for threads other than the idle thread.\<close>

lemma priorities_in_range:
  assumes "policy_ok c p" "sched_get_priority_min c p = Ret lo" "sched_get_priority_max c p = Ret hi"
  shows "lo \<le> pri \<and> pri \<le> hi \<longleftrightarrow> CYG_THREAD_MAX_PRIORITY c \<le> PTHREAD_ECOS_PRIORITY c pri \<and> PTHREAD_ECOS_PRIORITY c pri < CYG_THREAD_MIN_PRIORITY c"
  using assms by (auto simp: policy_ok_def sched_get_priority_min_def sched_get_priority_max_def PTHREAD_POSIX_PRIORITY_def PTHREAD_ECOS_PRIORITY_def)

end
