(* ===== verification/Posix_Wait.thy ===== *)
theory Posix_Wait
  imports Posix_Time
begin

text \<open>
  Waiting for signals and alarms (\<^verbatim>\<open>signal.cxx\<close>, from \<^verbatim>\<open>sigsuspend\<close> to \<^verbatim>\<open>pause\<close>) and the asynchronous service
  routine of POSIX threads (\<^verbatim>\<open>posix_asr\<close> in \<^verbatim>\<open>pthread.cxx\<close>), which brings timers, signals and cancellation together.

  While a thread waits on \<^verbatim>\<open>signal_sigwait\<close> the others run: as for joining, each wait takes the next of a list of functions that
  give the state in which it ends, and does not end when none is left. Its result follows from that state: a broadcast takes the
  waiting threads out of the queue of the condition variable, and a thread that is still in it when its wait ends has been released or
  timed out. The callers are POSIX threads.
\<close>

record 'al alarms = "'al timers" +
  sigalrm_alarm :: 'al

subsection \<open>The ASR\<close>

definition posix_asr :: "pcfg \<Rightarrow> (nat \<Rightarrow> nat \<Rightarrow> ('al, 'b) timers_scheme \<Rightarrow> ('al, 'b) timers_scheme option) \<Rightarrow> nat \<Rightarrow>
    (('al, 'b) timers_ext) handlers \<Rightarrow> nat \<Rightarrow> ('al, 'b) timers_scheme \<Rightarrow> (unit outcome \<times> ('al, 'b) timers_scheme) option" where
  "posix_asr c run canceled H i s =
     do {
       (r1, s1) \<leftarrow> cyg_posix_timer_asr (Some i) s;
       if r1 = Undefined then Some (Undefined, s1)
       else
         do {
           (r2, s2) \<leftarrow> cyg_posix_signal_asr H i s1;
           if r2 = Cancelled then Some (Cancelled, s2)
           else if cancelpending (info i s2) \<and> cancelstate (info i s2) = PTHREAD_CANCEL_ENABLE \<and> canceltype (info i s2) = PTHREAD_CANCEL_ASYNCHRONOUS
           then do { s3 \<leftarrow> pthread_exit c run canceled i s2; Some (Cancelled, s3) }
           else Some (Ret (), s2)
         }
     }"

subsection \<open>Waiting\<close>

text \<open>
  One wait: the mutex is free meanwhile, and is taken again before it ends. It succeeds when the thread has been woken through the
  condition variable.
\<close>

definition signal_wait :: "nat \<Rightarrow> ('a signals_scheme \<Rightarrow> 'a signals_scheme) \<Rightarrow> 'a signals_scheme \<Rightarrow> bool \<times> 'a signals_scheme" where
  "signal_wait i w s =
     (let s1 = w (s\<lparr>sig_mutex := None, sigwait_queue := sigwait_queue s @ [i]\<rparr>)
      in (i \<notin> set (sigwait_queue s1), s1\<lparr>sig_mutex := Some (Some i), sigwait_queue := removeAll i (sigwait_queue s1)\<rparr>))"

fun sigsuspend_loop :: "'a handlers \<Rightarrow> nat \<Rightarrow> ('a signals_scheme \<Rightarrow> 'a signals_scheme) list \<Rightarrow> 'a signals_scheme \<Rightarrow> (bool outcome \<times> 'a signals_scheme) option" where
  "sigsuspend_loop H i [] s =
     do { (r, s1) \<leftarrow> cyg_deliver_signals H (Some i) s; if r = Ret False then None else Some (r, s1) }"
| "sigsuspend_loop H i (w # ws) s =
     do { (r, s1) \<leftarrow> cyg_deliver_signals H (Some i) s; if r = Ret False then sigsuspend_loop H i ws (snd (signal_wait i w s1)) else Some (r, s1) }"

definition sigsuspend :: "'a handlers \<Rightarrow> nat \<Rightarrow> u32 \<Rightarrow> ('a signals_scheme \<Rightarrow> 'a signals_scheme) list \<Rightarrow> 'a signals_scheme \<Rightarrow> (unit outcome \<times> 'a signals_scheme) option" where
  "sigsuspend H i st ws s =
     do {
       s1 \<leftarrow> signal_lock (Some i) s;
       let old = sigmask (info i s1) in
       do {
         (r, s2) \<leftarrow> sigsuspend_loop H i ws (upd_thread i (\<lambda>t. t\<lparr>sigmask := st\<rparr>) s1);
         Some (if r = Cancelled then (Cancelled, s2) else (Err EINTR, signal_unlock (upd_thread i (\<lambda>t. t\<lparr>sigmask := old\<rparr>) s2)))
       }
     }"

text \<open>The loop of \<^verbatim>\<open>sigtimedwait\<close>: its result tells whether a signal of the set is pending, or the wait failed.\<close>

fun sigtimedwait_loop :: "nat \<Rightarrow> u32 \<Rightarrow> u64 option \<Rightarrow> (('al, 'b) timers_scheme \<Rightarrow> ('al, 'b) timers_scheme) list \<Rightarrow> ('al, 'b) timers_scheme \<Rightarrow>
    (bool outcome \<times> ('al, 'b) timers_scheme) option" where
  "sigtimedwait_loop i st ticks ws s =
     (if st AND (sig_pending s OR sigpending (info i s)) \<noteq> 0 then Some (Ret True, s)
      else if ticks = Some 0 then Some (Ret False, s)
      else
        (case ws of
           [] \<Rightarrow> None
         | w # ws' \<Rightarrow>
             (let (ok, s1) = signal_wait i w s
              in if \<not> ok then Some (Ret False, s1)
                 else
                   do {
                     s2 \<leftarrow> check_sigalarm (Some i) s1;
                     (r, s3) \<leftarrow> cyg_posix_timer_asr (Some i) s2;
                     if r = Undefined then Some (Undefined, s3) else sigtimedwait_loop i st ticks ws' s3
                   })))"

definition accept_signal :: "nat \<Rightarrow> nat \<Rightarrow> 'a signals_scheme \<Rightarrow> siginfo \<times> 'a signals_scheme" where
  "accept_signal i signo s =
     (let (lsi, s1) = (if sa_siginfo (sa (sigstate s ! signo)) \<and> pending (sigstate s ! signo) \<noteq> [] then dequeue_signal signo s
                       else (\<lparr>si_signo = signo, si_code = SI_USER, si_value = 0\<rparr>, s))
      in (lsi, clear_pending i signo s1))"

text \<open>The value returned by \<^verbatim>\<open>sigtimedwait\<close> is the signal number of the information that it stores.\<close>

definition sigtimedwait :: "pcfg \<Rightarrow> (nat \<Rightarrow> nat \<Rightarrow> ('al, 'b) timers_scheme \<Rightarrow> ('al, 'b) timers_scheme option) \<Rightarrow> nat \<Rightarrow> kclock \<Rightarrow> nat \<Rightarrow> u32 \<Rightarrow> timespec option \<Rightarrow>
    (('al, 'b) timers_scheme \<Rightarrow> ('al, 'b) timers_scheme) list \<Rightarrow> ('al, 'b) timers_scheme \<Rightarrow> (siginfo outcome \<times> ('al, 'b) timers_scheme) option" where
  "sigtimedwait c run canceled k i st timeout ws s =
     do {
       (ended, s0) \<leftarrow> pthread_testcancel c run canceled (Some i) s;
       if ended then Some (Cancelled, s0)
       else
         do {
           s1 \<leftarrow> signal_lock (Some i) s0;
           (r, s2) \<leftarrow> sigtimedwait_loop i st (map_option (\<lambda>t. cyg_timespec_to_ticks k t False + clock_now s0) timeout) ws s1;
           if r = Undefined then Some (Undefined, s2)
           else
             (let todo = st AND (sig_pending s2 OR sigpending (info i s2));
                  (res, s3) = (if r = Ret True then (let (lsi, s') = accept_signal i (unat (hal_lsbit_index todo)) s2 in (Ret lsi, s')) else (Err EAGAIN, s2))
              in do {
                   (ended2, s4) \<leftarrow> pthread_testcancel c run canceled (Some i) (signal_unlock s3);
                   Some (if ended2 then Cancelled else res, s4)
                 })
         }
     }"

definition sigwaitinfo :: "pcfg \<Rightarrow> (nat \<Rightarrow> nat \<Rightarrow> ('al, 'b) timers_scheme \<Rightarrow> ('al, 'b) timers_scheme option) \<Rightarrow> nat \<Rightarrow> kclock \<Rightarrow> nat \<Rightarrow> u32 \<Rightarrow>
    (('al, 'b) timers_scheme \<Rightarrow> ('al, 'b) timers_scheme) list \<Rightarrow> ('al, 'b) timers_scheme \<Rightarrow> (siginfo outcome \<times> ('al, 'b) timers_scheme) option" where
  "sigwaitinfo c run canceled k i st ws s = sigtimedwait c run canceled k i st None ws s"

definition sigwait :: "pcfg \<Rightarrow> (nat \<Rightarrow> nat \<Rightarrow> ('al, 'b) timers_scheme \<Rightarrow> ('al, 'b) timers_scheme option) \<Rightarrow> nat \<Rightarrow> kclock \<Rightarrow> nat \<Rightarrow> u32 \<Rightarrow>
    (('al, 'b) timers_scheme \<Rightarrow> ('al, 'b) timers_scheme) list \<Rightarrow> ('al, 'b) timers_scheme \<Rightarrow> (nat outcome \<times> ('al, 'b) timers_scheme) option" where
  "sigwait c run canceled k i st ws s =
     do {
       (r, s1) \<leftarrow> sigtimedwait c run canceled k i st None ws s;
       Some (case r of Ret lsi \<Rightarrow> Ret (si_signo lsi) | Err e \<Rightarrow> Err e | Undefined \<Rightarrow> Undefined | Cancelled \<Rightarrow> Cancelled, s1)
     }"

subsection \<open>Alarms and pausing\<close>

text \<open>The function \<^verbatim>\<open>alarm\<close>; the field of a timer has that name.\<close>

definition alarm_seconds :: "'al kalarm \<Rightarrow> kclock \<Rightarrow> nat option \<Rightarrow> int \<Rightarrow> ('al, 'b) alarms_scheme \<Rightarrow> (int \<times> ('al, 'b) alarms_scheme) option" where
  "alarm_seconds A k self seconds s =
     do {
       s0 \<leftarrow> signal_lock self s;
       let (res, s1) = (if sigalrm_armed s0
                        then (let a = al_disable A (sigalrm_alarm s0);
                                  tv = cyg_ticks_to_timespec k (fst (al_get_times A a) - clock_now s0)
                              in (tv_sec tv, s0\<lparr>sigalrm_alarm := a, sigalrm_armed := False\<rparr>))
                        else (0, s0));
           s2 = (if seconds \<noteq> 0
                 then s1\<lparr>sigalrm_alarm := al_initialize A (cyg_timespec_to_ticks k \<lparr>tv_sec = seconds, tv_nsec = 0\<rparr> False + clock_now s1) 0 (sigalrm_alarm s1),
                         sigalrm_armed := True\<rparr>
                 else s1)
       in Some (res, signal_unlock s2)
     }"

definition pause :: "'a handlers \<Rightarrow> nat \<Rightarrow> ('a signals_scheme \<Rightarrow> 'a signals_scheme) list \<Rightarrow> 'a signals_scheme \<Rightarrow> (unit outcome \<times> 'a signals_scheme) option" where
  "pause H i ws s =
     do {
       s1 \<leftarrow> signal_lock (Some i) s;
       (r, s2) \<leftarrow> cyg_deliver_signals H (Some i) s1;
       if r = Cancelled then Some (Cancelled, s2)
       else
         do {
           s3 \<leftarrow> (if r = Ret False then (case ws of [] \<Rightarrow> None | w # _ \<Rightarrow> Some (snd (signal_wait i w s2))) else Some s2);
           (r2, s4) \<leftarrow> cyg_deliver_signals H (Some i) s3;
           Some (if r2 = Cancelled then (Cancelled, s4) else (Err EINTR, signal_unlock s4))
         }
     }"

end
