(* ===== verification/Posix_Timer_Correct.thy ===== *)
theory Posix_Timer_Correct
  imports Posix_Time_Correct
begin

text \<open>
  Correctness of timers: every identifier in use names its own slot, a deleted one is refused, a timer shows the time it was set to
  until it expires, and the expiries that come before a thread can run are one pending signal, with the others counted.
\<close>

subsection \<open>Identifiers\<close>

definition timers_ok :: "('al, 'b) timers_scheme \<Rightarrow> bool" where
  "timers_ok s \<longleftrightarrow>
     length (timer_table s) \<le> 1024 \<and> timer_next s < length (timer_table s) \<and> unat (timer_id_cookie s) mod 1024 = 0 \<and>
     (\<forall>n<length (timer_table s). timer_id (timer_table s ! n) \<noteq> 0 \<longrightarrow>
        timer_slot (timer_id (timer_table s ! n)) = n \<and> alarm (timer_table s ! n) \<noteq> None)"

definition timer_ids :: "('al, 'b) timers_scheme \<Rightarrow> u32 set" where
  "timer_ids s = timer_id ` set (timer_table s) - {0}"

lemma timer_slot_mod: "timer_slot x = unat x mod 1024"
  using index_mod [of x] by (simp add: timer_slot_def TIMER_ID_COOKIE_MASK_def TIMER_ID_COOKIE_INC_def THREAD_ID_COOKIE_MASK_def THREAD_ID_COOKIE_INC_def)

lemma timer_ids_iff:
  assumes "timers_ok s"
  shows "x \<in> timer_ids s \<longleftrightarrow> x \<noteq> 0 \<and> timer_slot x < length (timer_table s) \<and> timer_id (timer_table s ! timer_slot x) = x"
proof
  assume "x \<in> timer_ids s"
  then obtain n where n: "n < length (timer_table s)" "timer_id (timer_table s ! n) = x" "x \<noteq> 0" by (auto simp: timer_ids_def in_set_conv_nth)
  then have "timer_slot x = n" using assms by (auto simp: timers_ok_def)
  then show "x \<noteq> 0 \<and> timer_slot x < length (timer_table s) \<and> timer_id (timer_table s ! timer_slot x) = x" using n by simp
qed (auto simp: timer_ids_def image_iff in_set_conv_nth intro!: bexI [of _ "timer_table s ! timer_slot x"])

text \<open>The slot of an identifier in use.\<close>

lemma timer_in_use:
  assumes "timers_ok s" "x \<in> timer_ids s"
  obtains n a where "n < length (timer_table s)" "timer_slot x = n" "timer_id (timer_table s ! n) = x" "alarm (timer_table s ! n) = Some a"
    "\<And>u f m. with_timer x s u f m = f n"
proof -
  note x = timer_ids_iff [OF assms(1), THEN iffD1, OF assms(2)]
  then obtain a where "alarm (timer_table s ! timer_slot x) = Some a" using assms(1) by (auto simp: timers_ok_def)
  then show thesis using x by (intro that [of "timer_slot x"]) (simp_all add: with_timer_def)
qed

lemma with_timer_unused:
  assumes "timers_ok s" "timer_slot x < length (timer_table s)" "x \<notin> timer_ids s" "x \<noteq> 0"
  shows "with_timer x s u f m = m"
  using assms timer_ids_iff [OF assms(1), of x] by (simp add: with_timer_def)

lemma alloc_timer_id_effect:
  assumes "n < 1024" "unat cookie mod 1024 = 0"
  shows "\<exists>i cookie'. alloc_timer_id n cookie = Some (i, cookie') \<and> i \<noteq> 0 \<and> timer_slot i = n \<and> unat cookie' mod 1024 = 0"
proof -
  have inc: "unat TIMER_ID_COOKIE_INC mod 1024 = 0" by (simp add: TIMER_ID_COOKIE_INC_def)
  have c: "unat (c + TIMER_ID_COOKIE_INC) mod 1024 = 0" if "unat c mod 1024 = 0" for c
    using that inc unat_sum_mod [of c TIMER_ID_COOKIE_INC] by simp
  have un: "unat (of_nat n :: u32) = n" using assms(1) by (simp add: unat_of_nat)
  have slot: "timer_slot (of_nat n + c) = n" if "unat c mod 1024 = 0" for c
    using assms(1) that un unat_sum_mod [of "of_nat n" c] by (simp add: timer_slot_mod)
  let ?c1 = "cookie + TIMER_ID_COOKIE_INC" and ?c2 = "cookie + TIMER_ID_COOKIE_INC + TIMER_ID_COOKIE_INC"
  show ?thesis
  proof (cases "of_nat n + ?c1 = 0")
    case False
    then have "alloc_timer_id n cookie = Some (of_nat n + ?c1, ?c1)" by (subst alloc_timer_id.simps) (simp add: Let_def)
    then show ?thesis using False c [OF assms(2)] slot [OF c [OF assms(2)]] by simp
  next
    case True
    have e: "of_nat n + ?c2 = TIMER_ID_COOKIE_INC" using True by (metis add.assoc add_0)
    have "TIMER_ID_COOKIE_INC \<noteq> 0" by (simp add: TIMER_ID_COOKIE_INC_def)
    then have "of_nat n + ?c2 \<noteq> 0" unfolding e .
    then have "alloc_timer_id n cookie = Some (of_nat n + ?c2, ?c2)" using True
      by (subst alloc_timer_id.simps, simp add: Let_def, subst alloc_timer_id.simps) (simp add: Let_def)
    then show ?thesis using \<open>of_nat n + ?c2 \<noteq> 0\<close> c [OF c [OF assms(2)]] slot [OF c [OF c [OF assms(2)]]] by simp
  qed
qed

lemma timers_ok_update:
  assumes "timers_ok s" "n < length (timer_table s)" "timer_id t \<noteq> 0 \<longrightarrow> timer_slot (timer_id t) = n \<and> alarm t \<noteq> None"
    and "timer_table s' = (timer_table s)[n := t]" "timer_next s' < length (timer_table s)" "unat (timer_id_cookie s') mod 1024 = 0"
  shows "timers_ok s'"
  using assms by (auto simp: timers_ok_def nth_list_update)

lemma id_image_nth: "x \<in> timer_id ` set l \<longleftrightarrow> (\<exists>m<length l. timer_id (l ! m) = x)"
  by (auto simp: set_conv_nth)

lemma timer_ids_update:
  assumes "timers_ok s" "n < length (timer_table s)" "timer_table s' = (timer_table s)[n := t]"
  shows "timer_ids s' = (timer_ids s - {timer_id (timer_table s ! n)}) \<union> ({timer_id t} - {0})"
proof -
  have other: "timer_id (timer_table s ! m) \<noteq> timer_id (timer_table s ! n)" if "m < length (timer_table s)" "m \<noteq> n" "timer_id (timer_table s ! m) \<noteq> 0" for m
    using assms(1,2) that unfolding timers_ok_def by metis
  have "x \<in> timer_id ` set (timer_table s') \<longleftrightarrow> (\<exists>m<length (timer_table s). m \<noteq> n \<and> timer_id (timer_table s ! m) = x) \<or> x = timer_id t" for x
    using assms(2) by (auto simp: assms(3) id_image_nth nth_list_update split: if_splits)
  moreover have "x \<in> timer_id ` set (timer_table s) \<longleftrightarrow> (\<exists>m<length (timer_table s). m \<noteq> n \<and> timer_id (timer_table s ! m) = x) \<or> x = timer_id (timer_table s ! n)" for x
    using assms(2) by (auto simp: id_image_nth)
  ultimately have "x \<in> timer_ids s' \<longleftrightarrow> x \<in> (timer_ids s - {timer_id (timer_table s ! n)}) \<union> ({timer_id t} - {0})" for x
    using other by (simp only: timer_ids_def Diff_iff Un_iff singleton_iff) metis
  then show ?thesis by blast
qed

text \<open>
  C38: creating a timer always returns. It gives a new non-zero identifier, different from all those in use, and only fails, with
  \<^verbatim>\<open>EAGAIN\<close>, when all slots are taken; deleting a timer in use succeeds and frees its identifier: from then on reading, setting and
  deleting it are refused with \<^verbatim>\<open>EINVAL\<close>, while \<^verbatim>\<open>timer_getoverrun\<close> gives 0 for it, without an error.
\<close>

theorem timer_identifiers:
  assumes "timers_ok s"
  shows "(\<exists>r s'. timer_create A CLOCK_REALTIME ev s = Some (r, s') \<and> timers_ok s' \<and>
      (if \<exists>t \<in> set (timer_table s). timer_id t = 0
       then \<exists>i. r = Ret i \<and> i \<noteq> 0 \<and> i \<notin> timer_ids s \<and> timer_ids s' = insert i (timer_ids s)
       else r = Err EAGAIN \<and> s' = s)) \<and>
    (x \<in> timer_ids s \<longrightarrow> (\<exists>s'. timer_delete A x s = (Ret (), s') \<and> timers_ok s' \<and> timer_ids s' = timer_ids s - {x} \<and>
      timer_gettime A k x given s' = Err EINVAL \<and> timer_settime A k x ab v s' = (Err EINVAL, s') \<and> timer_delete A x s' = (Err EINVAL, s') \<and>
      timer_getoverrun x s' = Ret 0))"
proof (intro conjI impI)
  have nx: "timer_next s < length (timer_table s)" "length (timer_table s) \<le> 1024" "unat (timer_id_cookie s) mod 1024 = 0" using assms by (simp_all add: timers_ok_def)
  let ?used = "\<lambda>n. timer_id (timer_table s ! n) \<noteq> 0"
  consider n where "n < length (timer_table s)" "\<not> ?used n" "slot_search ?used (length (timer_table s)) (timer_next s) (timer_next s) = Some (Some n)"
    | "\<forall>i<length (timer_table s). ?used i" "slot_search ?used (length (timer_table s)) (timer_next s) (timer_next s) = Some None"
    using slot_search_finds [OF nx(1), of ?used] by blast
  then show "\<exists>r s'. timer_create A CLOCK_REALTIME ev s = Some (r, s') \<and> timers_ok s' \<and>
      (if \<exists>t \<in> set (timer_table s). timer_id t = 0
       then \<exists>i. r = Ret i \<and> i \<noteq> 0 \<and> i \<notin> timer_ids s \<and> timer_ids s' = insert i (timer_ids s)
       else r = Err EAGAIN \<and> s' = s)"
  proof cases
    case 1
    then have free: "\<exists>t \<in> set (timer_table s). timer_id t = 0" by (intro bexI [of _ "timer_table s ! n"]) simp_all
    have n: "n < 1024" using 1(1) nx(2) by simp
    obtain i cookie' where i: "alloc_timer_id n (timer_id_cookie s) = Some (i, cookie')" "i \<noteq> 0" "timer_slot i = n" "unat cookie' mod 1024 = 0"
      using alloc_timer_id_effect [OF n nx(3)] by (elim exE conjE)
    let ?sev = "case ev of None \<Rightarrow> \<lparr>sigev_notify = SIGEV_SIGNAL, sigev_signo = SIGALRM, sigev_value = unat i\<rparr> | Some e \<Rightarrow> e"
    define t where "t = (timer_table s ! n)\<lparr>timer_id := i, tsigev := ?sev, alarm := Some (al_new A), armed := False, overrun := 0\<rparr>"
    define s' where "s' = s\<lparr>timer_table := (timer_table s)[n := t], timer_next := n, timer_id_cookie := cookie'\<rparr>"
    have "timer_create A CLOCK_REALTIME ev s = Some (Ret i, s')" using 1(3) i(1) by (simp add: timer_create_def Let_def s'_def t_def)
    moreover have "timers_ok s'" by (rule timers_ok_update [OF assms 1(1), of t]) (use 1(1) i in \<open>simp_all add: s'_def t_def\<close>)
    moreover have "timer_ids s' = insert i (timer_ids s)"
      using timer_ids_update [OF assms 1(1), of s' t] 1(2) i(2) by (auto simp: s'_def t_def timer_ids_def)
    moreover have "i \<notin> timer_ids s" using timer_ids_iff [OF assms, of i] i 1(2) by simp
    ultimately show ?thesis using free i(2) by auto
  next
    case 2
    then show ?thesis using assms by (auto simp: timer_create_def in_set_conv_nth)
  qed
next
  assume x: "x \<in> timer_ids s"
  obtain n a where n: "n < length (timer_table s)" "timer_slot x = n" "timer_id (timer_table s ! n) = x" "alarm (timer_table s ! n) = Some a"
    by (rule timer_in_use [OF assms x])
  then have n5: "with_timer x s u f m = f n" for u f and m :: "unit outcome \<times> ('a, 'b) timers_scheme" by (simp add: with_timer_def)
  define t where "t = (timer_table s ! n)\<lparr>alarm := None, timer_id := 0\<rparr>"
  define s' where "s' = s\<lparr>timer_table := (timer_table s)[n := t]\<rparr>"
  have x0: "x \<noteq> 0" using x by (simp add: timer_ids_def)
  have ok: "timers_ok s'" by (rule timers_ok_update [OF assms n(1), of t]) (use assms n(1) in \<open>simp_all add: s'_def t_def timers_ok_def\<close>)
  have ids: "timer_ids s' = timer_ids s - {x}" using timer_ids_update [OF assms n(1), of s' t] n(3) by (simp add: s'_def t_def)
  have len: "timer_slot x < length (timer_table s')" using n by (simp add: s'_def)
  have "timer_delete A x s = (Ret (), s')" using n(4) n5 by (simp add: timer_delete_def s'_def t_def)
  moreover have "timer_gettime A k x given s' = Err EINVAL" "timer_settime A k x ab v s' = (Err EINVAL, s')" "timer_delete A x s' = (Err EINVAL, s')"
    "timer_getoverrun x s' = Ret 0"
    using x0
    by (simp_all add: with_timer_unused [OF ok len] ids timer_gettime_def timer_settime_def timer_delete_def timer_getoverrun_def Let_def
        split: option.split prod.split)
  ultimately show "\<exists>s'. timer_delete A x s = (Ret (), s') \<and> timers_ok s' \<and> timer_ids s' = timer_ids s - {x} \<and>
      timer_gettime A k x given s' = Err EINVAL \<and> timer_settime A k x ab v s' = (Err EINVAL, s') \<and> timer_delete A x s' = (Err EINVAL, s') \<and>
      timer_getoverrun x s' = Ret 0"
    using ok ids by blast
qed

subsection \<open>Setting and reading\<close>

text \<open>The kernel's alarm object keeps the times it is given, also when it is disabled.\<close>

definition alarm_ok :: "'al kalarm \<Rightarrow> bool" where
  "alarm_ok A \<longleftrightarrow>
     (\<forall>t i a. al_get_times A (al_initialize A t i a) = (t, i)) \<and> (\<forall>a. al_get_times A (al_disable A a) = al_get_times A a)"

lemma settime_effect:
  assumes "timers_ok s" "x \<in> timer_ids s" "cyg_timespec_to_ticks k v True \<noteq> 0"
  obtains ov n a where "timer_settime A k x False (Some (v, iv)) s =
      (Ret ov, upd_timer n (\<lambda>t. t\<lparr>alarm := Some (al_initialize A (cyg_timespec_to_ticks k v True + clock_now s) (cyg_timespec_to_ticks k iv True) a), armed := True\<rparr>) s)"
    "n < length (timer_table s)" "timer_slot x = n" "timer_id (timer_table s ! n) = x"
proof -
  obtain n a where n: "n < length (timer_table s)" "timer_slot x = n" "timer_id (timer_table s ! n) = x" "alarm (timer_table s ! n) = Some a"
    by (rule timer_in_use [OF assms(1,2)])
  show thesis by (rule that) (use n assms(3) in \<open>simp_all add: timer_settime_def with_timer_def Let_def\<close>)
qed

text \<open>
  C39: a timer in use that is set to a time from now shows that time, rounded up to a whole number \<open>n\<close> of ticks, and its interval; at
  every tick before it expires (\<open>d < n\<close> ticks later) it shows the time that is left until then. (What is shown from the expiry on is
  another matter: the kernel then moves the alarm of a periodic timer on by its interval, and for one without interval see
  \<open>expired_timer_reads_wrapped\<close>.)
\<close>

theorem timer_set_then_read:
  assumes "clock_ok k T" "alarm_ok A" "timers_ok s" "x \<in> timer_ids s" "in_range v" "in_range iv" "0 < nsecs v"
    and "nsecs v + T \<le> 2 ^ 31 * 1000000000" "nsecs iv + T \<le> 2 ^ 31 * 1000000000"
  shows "\<exists>ov s' n. timer_settime A k x False (Some (v, iv)) s = (Ret ov, s') \<and> timers_ok s' \<and> timer_ids s' = timer_ids s \<and> nsecs v \<le> n * T \<and> n * T < nsecs v + T \<and>
    (\<forall>d. unat d < n \<longrightarrow> (\<exists>v' i'. timer_gettime A k x True (s'\<lparr>clock_now := clock_now s + d\<rparr>) = Ret (v', i') \<and> nsecs v' = (n - unat d) * T \<and>
      nsecs iv \<le> nsecs i' \<and> nsecs i' < nsecs iv + T))"
proof -
  define tr where "tr = cyg_timespec_to_ticks k v True"
  define ti where "ti = cyg_timespec_to_ticks k iv True"
  note bv = ticks_bounds(1,2) [OF assms(1,5), folded tr_def] and bi = ticks_bounds(1,2) [OF assms(1,6), folded ti_def]
  have tr0: "tr \<noteq> 0" using bv(1) assms(7) by (metis not_le mult_0 unsigned_0)
  obtain ov m a where m: "timer_settime A k x False (Some (v, iv)) s =
      (Ret ov, upd_timer m (\<lambda>t. t\<lparr>alarm := Some (al_initialize A (tr + clock_now s) ti a), armed := True\<rparr>) s)"
    "m < length (timer_table s)" "timer_slot x = m" "timer_id (timer_table s ! m) = x"
    unfolding tr_def ti_def by (rule settime_effect [OF assms(3,4) tr0 [unfolded tr_def]])
  define t where "t = (timer_table s ! m)\<lparr>alarm := Some (al_initialize A (tr + clock_now s) ti a), armed := True\<rparr>"
  define s' where "s' = s\<lparr>timer_table := (timer_table s)[m := t]\<rparr>"
  have s': "timer_settime A k x False (Some (v, iv)) s = (Ret ov, s')" using m(1) by (simp add: s'_def t_def)
  have ok: "timers_ok s'" by (rule timers_ok_update [OF assms(3) m(2), of t]) (use assms(3) m in \<open>simp_all add: s'_def t_def timers_ok_def\<close>)
  have ids: "timer_ids s' = timer_ids s" using timer_ids_update [OF assms(3) m(2), of s' t] assms(4) m(4) by (auto simp: s'_def t_def timer_ids_def)
  have read: "timer_gettime A k x True (s'\<lparr>clock_now := clock_now s + d\<rparr>) = Ret (cyg_ticks_to_timespec k (tr - d), cyg_ticks_to_timespec k ti)" for d
    using m assms(2) by (simp add: timer_gettime_def with_timer_def s'_def t_def times_left_def alarm_ok_def)
  have "\<exists>v' i'. timer_gettime A k x True (s'\<lparr>clock_now := clock_now s + d\<rparr>) = Ret (v', i') \<and> nsecs v' = (unat tr - unat d) * T \<and>
      nsecs iv \<le> nsecs i' \<and> nsecs i' < nsecs iv + T" if "unat d < unat tr" for d
  proof -
    have u: "unat (tr - d) = unat tr - unat d" using that by (simp add: unat_sub word_le_nat_alt)
    have "unat (tr - d) * T \<le> unat tr * T" unfolding u by simp
    then have 1: "unat (tr - d) * T < 2 ^ 31 * 1000000000" using bv(2) assms(8) by linarith
    have 2: "unat ti * T < 2 ^ 31 * 1000000000" using bi(2) assms(9) by linarith
    show ?thesis using read [of d] from_ticks(1) [OF assms(1) 1] from_ticks(1) [OF assms(1) 2] bi by (simp add: u)
  qed
  then show ?thesis using s' ok ids bv by blast
qed

subsection \<open>Expiry\<close>

definition pending_timers :: "('al, 'b) timers_scheme \<Rightarrow> nat set" where
  "pending_timers s = {n. n < length (timer_table s) \<and> timer_id (timer_table s ! n) \<noteq> 0 \<and> tpending (timer_table s ! n)}"

text \<open>What the expiries of a timer leave alone: everything but the timer, the kernel's calls and the threads waiting for signals.\<close>

definition same_signals :: "('al, 'b) timers_scheme \<Rightarrow> ('al, 'b) timers_scheme \<Rightarrow> bool" where
  "same_signals s s' \<longleftrightarrow>
     thread_table s' = thread_table s \<and> sig_pending s' = sig_pending s \<and> sigstate s' = sigstate s \<and> siginfo_next s' = siginfo_next s \<and> sig_mutex s' = sig_mutex s"

lemma release_thread_effect: "\<exists>ks. cyg_posix_pthread_release_thread m s = s\<lparr>klog := klog s @ ks\<rparr>"
  unfolding cyg_posix_pthread_release_thread_def by (rule release_loop_effect)

lemma first_expiry:
  assumes "n < length (timer_table s)" "\<not> tpending (timer_table s ! n)" "sigev_notify (tsigev (timer_table s ! n)) = SIGEV_SIGNAL"
  shows "same_signals s (alarm_action n s) \<and> timer_table (alarm_action n s) = (timer_table s)[n := (timer_table s ! n)\<lparr>tpending := True\<rparr>] \<and>
    sigwait_queue (alarm_action n s) = [] \<and> slog (alarm_action n s) = slog s @ [SBroadcast]"
proof -
  let ?s1 = "signal_broadcast (upd_timer n (\<lambda>t. t\<lparr>tpending := True\<rparr>) s)"
  obtain ks where "alarm_action n s = ?s1\<lparr>klog := klog ?s1 @ ks\<rparr>"
    using release_thread_effect [of "snd (sigaddset (sigev_signo (tsigev (timer_table s ! n))) sigemptyset)" ?s1] assms(2,3) by (auto simp: alarm_action_def Let_def)
  then show ?thesis by (simp add: same_signals_def signal_broadcast_def)
qed

lemma more_expiries:
  assumes "n < length (timer_table s)" "tpending (timer_table s ! n)"
  shows "(alarm_action n ^^ m) s = upd_timer n (\<lambda>t. t\<lparr>overrun := overrun t + of_nat m\<rparr>) s"
proof (induction m)
  case 0
  then show ?case by simp
next
  case (Suc m)
  then show ?case using assms by (simp add: alarm_action_def Let_def ac_simps)
qed

text \<open>Queueing a signal does not touch the timers.\<close>

lemma sigqueue_timers:
  fixes s s' :: "('al, 'b) timers_scheme"
  assumes "cyg_sigqueue self sev code None s = Some (r, s')"
  shows "timer_table s' = timer_table s"
proof -
  have mark: "timer_table (mark_pending n None s1) = timer_table s1" for n and s1 :: "('al, 'b) timers_scheme"
  proof -
    let ?s2 = "s1\<lparr>sig_pending := snd (sigaddset n (sig_pending s1))\<rparr>"
    obtain ks where "cyg_posix_pthread_release_thread (sig_pending ?s2) ?s2 = ?s2\<lparr>klog := klog ?s2 @ ks\<rparr>" using release_thread_effect by blast
    then show ?thesis by (simp add: mark_pending_def Let_def signal_broadcast_def)
  qed
  show ?thesis using assms mark
    by (auto simp: cyg_sigqueue_def lock_unless_def signal_lock_def unlock_unless_def enqueue_signal_def Let_def split: if_splits list.splits)
qed

lemma timer_asr_none:
  assumes "set ns \<inter> pending_timers s = {}" "set ns \<subseteq> {..<length (timer_table s)}"
  shows "timer_asr_loop self ns s = Some (Ret True, s)"
  using assms by (induction ns) (auto simp: pending_timers_def)

lemma timer_asr_one:
  assumes "pending_timers s = {n}" "cyg_sigqueue self (tsigev (timer_table s ! n)) SI_TIMER None (upd_timer n (\<lambda>t. t\<lparr>tpending := False\<rparr>) s) = Some (Ret b, s1)"
  shows "cyg_posix_timer_asr self s = Some (Ret True, upd_timer n (\<lambda>t. t\<lparr>overrun := 0\<rparr>) s1)"
proof -
  let ?l = "length (timer_table s)" and ?s2 = "upd_timer n (\<lambda>t. t\<lparr>overrun := 0\<rparr>) s1"
  have n: "n < ?l" "timer_id (timer_table s ! n) \<noteq> 0" "tpending (timer_table s ! n)" using assms(1) by (auto simp: pending_timers_def)
  have split: "[0..<?l] = [0..<n] @ n # [Suc n..<?l]" using n(1) by (metis le_add_same_cancel1 less_imp_le_nat upt_add_eq_append upt_conv_Cons zero_le le_add_diff_inverse plus_nat.add_0)
  have t1: "timer_table s1 = (timer_table s)[n := (timer_table s ! n)\<lparr>tpending := False\<rparr>]" using sigqueue_timers [OF assms(2)] by simp
  have skip: "timer_asr_loop self (ns @ ms) s = timer_asr_loop self ms s" if "set ns \<inter> pending_timers s = {}" "set ns \<subseteq> {..<?l}" for ns ms
    using that by (induction ns) (auto simp: pending_timers_def)
  have "x \<notin> pending_timers ?s2" for x
  proof (cases "x = n")
    case False
    then have "x \<notin> pending_timers s" using assms(1) by simp
    then show ?thesis using False by (simp add: pending_timers_def t1)
  qed (simp add: pending_timers_def t1)
  then have "pending_timers ?s2 = {}" by blast
  then have rest: "timer_asr_loop self [Suc n..<?l] ?s2 = Some (Ret True, ?s2)" by (intro timer_asr_none) (auto simp: t1)
  have "cyg_posix_timer_asr self s = timer_asr_loop self (n # [Suc n..<?l]) s"
    unfolding cyg_posix_timer_asr_def split by (rule skip) (use assms(1) n(1) in auto)
  also have "\<dots> = Some (Ret True, ?s2)" using n assms(2) rest by simp
  finally show ?thesis .
qed

subsection \<open>What goes wrong\<close>

text \<open>
  A timer that is deleted between its expiry and the ASR leaves its mark in the slot: creating a timer does not reset it, so the new
  timer's signal is sent although that timer was never set.
\<close>

lemma stale_expiry:
  assumes "timers_ok s" "timer_create A CLOCK_REALTIME ev s = Some (Ret i, s')" "\<forall>t \<in> set (timer_table s). timer_id t = 0 \<longrightarrow> tpending t"
  shows "timer_next s' \<in> pending_timers s'"
proof -
  have nx: "timer_next s < length (timer_table s)" "length (timer_table s) \<le> 1024" "unat (timer_id_cookie s) mod 1024 = 0" using assms(1) by (simp_all add: timers_ok_def)
  let ?used = "\<lambda>n. timer_id (timer_table s ! n) \<noteq> 0"
  consider n where "n < length (timer_table s)" "\<not> ?used n" "slot_search ?used (length (timer_table s)) (timer_next s) (timer_next s) = Some (Some n)"
    | "slot_search ?used (length (timer_table s)) (timer_next s) (timer_next s) = Some None"
    using slot_search_finds [OF nx(1), of ?used] by blast
  then show ?thesis
  proof cases
    case 1
    then have n: "n < 1024" "tpending (timer_table s ! n)" using nx(2) assms(3) by simp_all
    obtain j cookie' where "alloc_timer_id n (timer_id_cookie s) = Some (j, cookie')" "j \<noteq> 0" using alloc_timer_id_effect [OF n(1) nx(3)] by (elim exE conjE)
    then show ?thesis using assms(2) 1 n(2) by (auto simp: timer_create_def pending_timers_def Let_def)
  next
    case 2
    then show ?thesis using assms(2) by (simp add: timer_create_def)
  qed
qed

text \<open>
  The mark of an armed timer is not removed when a timer without interval expires, so the time left that is read after that is the
  difference from a time in the past, wrapped around.
\<close>

lemma expired_timer_reads_wrapped:
  assumes "alarm (timer_table s ! n) = Some a" "armed (timer_table s ! n)" "timer_slot x = n" "timer_id (timer_table s ! n) = x" "n < length (timer_table s)"
    and "al_get_times A a = (trigger, 0)" "clock_now s = trigger + 1"
  shows "timer_gettime A k x True s = Ret (cyg_ticks_to_timespec k (NOT 0), cyg_ticks_to_timespec k 0)"
proof -
  have "trigger - (trigger + 1) = (NOT 0 :: u64)" by simp
  then show ?thesis using assms by (simp add: timer_gettime_def with_timer_def times_left_def)
qed

subsection \<open>Concrete timers\<close>

definition demo_alarm :: "(u64 \<times> u64) kalarm" where
  "demo_alarm = \<lparr>al_new = (0, 0), al_initialize = (\<lambda>t i a. (t, i)), al_disable = (\<lambda>a. a), al_get_times = (\<lambda>a. a)\<rparr>"

lemma demo_alarm_ok: "alarm_ok demo_alarm"
  by (simp add: alarm_ok_def demo_alarm_def)

definition demo_timer :: "u32 \<Rightarrow> (u64 \<times> u64) posix_timer" where
  "demo_timer x = \<lparr>timer_id = x, alarm = (if x = 0 then None else Some (0, 0)), armed = False, tpending = False, overrun = 0, tsigev = user_event 16 7\<rparr>"

definition demo_timers :: "u32 \<Rightarrow> (u64 \<times> u64) timers" where
  "demo_timers blocked = signals.extend (demo_signals 100 True blocked 0)
     \<lparr>timer_table = [demo_timer 0, demo_timer 0x801], timer_next = 0, timer_id_cookie = 0x800, clock_now = 42\<rparr>"

lemma demo_timers_fields:
  "timer_table (demo_timers b) = [demo_timer 0, demo_timer 0x801]" "timer_next (demo_timers b) = 0" "timer_id_cookie (demo_timers b) = 0x800" "clock_now (demo_timers b) = 42"
  "thread_table (demo_timers b) = thread_table (demo_signals 100 True b 0)" "sig_pending (demo_timers b) = 0" "sigstate (demo_timers b) = sigstate (demo_signals 100 True b 0)"
  "siginfo_next (demo_timers b) = [0, 1, 2]" "sig_mutex (demo_timers b) = None" "\<not> sigalrm_pending (demo_timers b)" "slog (demo_timers b) = []"
  by (simp_all add: demo_timers_def signals.defs timers.defs demo_signals_def)

lemma demo_timers_ok: "timers_ok (demo_timers b)" "0x801 \<in> timer_ids (demo_timers b)"
proof -
  have "timer_slot 0x801 = 1" by (simp add: timer_slot_mod)
  then show "timers_ok (demo_timers b)" by (simp add: timers_ok_def demo_timers_fields demo_timer_def less_Suc_eq)
  show "0x801 \<in> timer_ids (demo_timers b)" by (simp add: timer_ids_def demo_timers_fields demo_timer_def)
qed

theorem timer_identifiers_witness:
  "\<exists>i s'. timer_create demo_alarm CLOCK_REALTIME None (demo_timers 0) = Some (Ret i, s') \<and> timer_ids s' = insert i (timer_ids (demo_timers 0)) \<and> timers_ok s'"
  using conjunct1 [OF timer_identifiers [OF demo_timers_ok(1), of demo_alarm None 0]] by (auto simp: demo_timers_fields demo_timer_def)

theorem timer_set_then_read_witness:
  "\<exists>ov s' n. timer_settime demo_alarm centi_clock 0x801 False (Some (\<lparr>tv_sec = 1, tv_nsec = 5\<rparr>, \<lparr>tv_sec = 0, tv_nsec = 0\<rparr>)) (demo_timers 0) = (Ret ov, s') \<and> timers_ok s' \<and>
    1000000005 \<le> n * 10000000 \<and> n * 10000000 < 1010000005 \<and>
    (\<forall>d. unat d < n \<longrightarrow> (\<exists>v' i'. timer_gettime demo_alarm centi_clock 0x801 True (s'\<lparr>clock_now := 42 + d\<rparr>) = Ret (v', i') \<and> nsecs v' = (n - unat d) * 10000000))"
  using timer_set_then_read [OF centi_clock_ok demo_alarm_ok demo_timers_ok, of "\<lparr>tv_sec = 1, tv_nsec = 5\<rparr>" "\<lparr>tv_sec = 0, tv_nsec = 0\<rparr>" 0]
  by (force simp: in_range_def nsecs_def demo_timers_fields)

end
