(* ===== verification/Posix_Wait_Correct.thy ===== *)
theory Posix_Wait_Correct
  imports Posix_Wait Posix_Timer_Correct
begin

text \<open>
  Timers, signals and waiting together: an expired timer calls the handler of its signal once, through the ASR of a thread, or
  is accepted by a thread that waits for it, and \<^verbatim>\<open>alarm\<close> gives back the seconds that were left.
\<close>

subsection \<open>From the expiry of a timer to its signal\<close>

definition timer_event :: "nat \<Rightarrow> nat \<Rightarrow> nat \<Rightarrow> ('al, 'b) timers_scheme \<Rightarrow> bool" where
  "timer_event n sig v s \<longleftrightarrow>
     n < length (timer_table s) \<and> timer_id (timer_table s ! n) \<noteq> 0 \<and> timer_slot (timer_id (timer_table s ! n)) = n \<and> tsigev (timer_table s ! n) = user_event sig v \<and> pending_timers s = {}"

definition timer_info :: "nat \<Rightarrow> nat \<Rightarrow> siginfo" where
  "timer_info sig v = \<lparr>si_signo = sig, si_code = SI_TIMER, si_value = v\<rparr>"

text \<open>
  The information that comes with the signal of a timer: the timer's value for an action with \<^verbatim>\<open>SA_SIGINFO\<close>, which queues it, and
  otherwise the default.
\<close>

definition timer_seen :: "sig_action \<Rightarrow> nat \<Rightarrow> nat \<Rightarrow> siginfo" where
  "timer_seen a sig v = (if sa_siginfo a then timer_info sig v else \<lparr>si_signo = sig, si_code = SI_USER, si_value = 0\<rparr>)"

lemma expired:
  fixes m :: nat
  assumes "timer_event n sig v s"
  defines "s1 \<equiv> (alarm_action n ^^ Suc m) s"
  shows "same_signals s s1" "sigwait_queue s1 = []" "slog s1 = slog s @ [SBroadcast]" "pending_timers s1 = {n}" "tsigev (timer_table s1 ! n) = user_event sig v"
    "timer_id (timer_table s1 ! n) = timer_id (timer_table s ! n)" "overrun (timer_table s1 ! n) = overrun (timer_table s ! n) + of_nat m" "sigalrm_pending s1 = sigalrm_pending s"
proof -
  note t = assms(1) [unfolded timer_event_def]
  have np: "\<not> tpending (timer_table s ! n)" using t unfolding pending_timers_def by blast
  have ev: "sigev_notify (tsigev (timer_table s ! n)) = SIGEV_SIGNAL" using t by (simp add: user_event_def)
  let ?s = "alarm_action n s"
  have f: "same_signals s ?s" "timer_table ?s = (timer_table s)[n := (timer_table s ! n)\<lparr>tpending := True\<rparr>]" "sigwait_queue ?s = []" "slog ?s = slog s @ [SBroadcast]"
    using first_expiry [of n s] t np ev by simp_all
  have al: "sigalrm_pending ?s = sigalrm_pending s"
  proof -
    let ?b = "signal_broadcast (upd_timer n (\<lambda>t. t\<lparr>tpending := True\<rparr>) s)"
    obtain ks where "alarm_action n s = ?b\<lparr>klog := klog ?b @ ks\<rparr>"
      using release_thread_effect [of "snd (sigaddset (sigev_signo (tsigev (timer_table s ! n))) sigemptyset)" ?b] np ev by (auto simp: alarm_action_def Let_def)
    then show ?thesis by (simp add: signal_broadcast_def)
  qed
  have s1: "s1 = upd_timer n (\<lambda>t. t\<lparr>overrun := overrun t + of_nat m\<rparr>) ?s"
    unfolding s1_def funpow_Suc_right comp_apply by (rule more_expiries) (use t f(2) in simp_all)
  show "same_signals s s1" "sigwait_queue s1 = []" "slog s1 = slog s @ [SBroadcast]" "sigalrm_pending s1 = sigalrm_pending s"
    using f(1,3,4) al by (simp_all add: s1 same_signals_def)
  have tt: "timer_table s1 = (timer_table s)[n := (timer_table s ! n)\<lparr>tpending := True, overrun := overrun (timer_table s ! n) + of_nat m\<rparr>]"
    using t by (simp add: s1 f(2))
  show "tsigev (timer_table s1 ! n) = user_event sig v" "timer_id (timer_table s1 ! n) = timer_id (timer_table s ! n)"
    "overrun (timer_table s1 ! n) = overrun (timer_table s ! n) + of_nat m"
    using t by (simp_all add: tt)
  have "x \<in> pending_timers s1 \<longleftrightarrow> x = n" for x
  proof (cases "x = n")
    case False
    have "x \<notin> pending_timers s" using t by simp
    then show ?thesis using False by (simp add: pending_timers_def tt)
  qed (use t in \<open>simp add: pending_timers_def tt\<close>)
  then show "pending_timers s1 = {n}" by blast
qed

text \<open>The effect of the timer's ASR on the signals.\<close>

definition timer_queued :: "nat \<Rightarrow> nat \<Rightarrow> ('al, 'b) timers_scheme \<Rightarrow> ('al, 'b) timers_scheme \<Rightarrow> bool" where
  "timer_queued sig v s s' \<longleftrightarrow>
     thread_table s' = thread_table s \<and> sig_mutex s' = sig_mutex s \<and> sig_pending s' = sig_pending s OR sigbit sig \<and> sigalrm_pending s' = sigalrm_pending s \<and>
     slog s' = slog s \<and> (\<forall>k. sa (sigstate s' ! k) = sa (sigstate s ! k)) \<and> length (sigstate s') = length (sigstate s) \<and>
     map snd (pending (sigstate s' ! sig)) = map snd (pending (sigstate s ! sig)) @ (if sa_siginfo (sa (sigstate s ! sig)) then [timer_info sig v] else [])"

lemma asr_queues:
  assumes "pending_timers s = {n}" "tsigev (timer_table s ! n) = user_event sig v" "SIGNAL_VALID sig" "sig_ok i s"
    "sig_mutex s = None \<or> sig_mutex s = Some (Some i)" "sigwait_queue s = []" "sa_siginfo (sa (sigstate s ! sig)) \<longrightarrow> siginfo_next s \<noteq> []"
  shows "\<exists>s'. cyg_posix_timer_asr (Some i) s = Some (Ret True, s') \<and> timer_queued sig v s s' \<and>
    timer_table s' = (timer_table s)[n := (timer_table s ! n)\<lparr>tpending := False, overrun := 0\<rparr>]"
proof -
  obtain p ps where ps: "sa_siginfo (sa (sigstate s ! sig)) \<Longrightarrow> siginfo_next s = p # ps"
  proof (cases "siginfo_next s")
    case Nil
    then show ?thesis using that assms(7) by auto
  next
    case (Cons p ps)
    then show ?thesis using that by simp
  qed
  let ?s = "upd_timer n (\<lambda>t. t\<lparr>tpending := False\<rparr>) s"
  have ok: "sig_ok i ?s" using assms(4) by (simp add: sig_ok_def)
  have len: "sig < length (sigstate s)" using assms(3,4) by (simp add: SIGNAL_VALID_def sig_ok_def)
  from sigqueue_effect [OF assms(3) ok, of p ps v SI_TIMER] assms(5,6) ps obtain s1 where
    s1: "cyg_sigqueue (Some i) (user_event sig v) SI_TIMER None ?s = Some (Ret True, s1)" "thread_table s1 = thread_table s" "sig_mutex s1 = sig_mutex s"
      "sig_pending s1 = sig_pending s OR sigbit sig" "sigalrm_pending s1 = sigalrm_pending s" "slog s1 = slog s"
      "if sa_siginfo (sa (sigstate s ! sig))
       then sigstate s1 = (sigstate s)[sig := (sigstate s ! sig)\<lparr>pending := pending (sigstate s ! sig) @ [(p, timer_info sig v)]\<rparr>]
       else sigstate s1 = sigstate s"
    by (auto simp: timer_info_def)
  have "sa (sigstate s1 ! k) = sa (sigstate s ! k)" for k using s1(7) len by (cases "k = sig") (auto split: if_splits)
  moreover have "length (sigstate s1) = length (sigstate s)" using s1(7) by (auto split: if_splits)
  moreover have "map snd (pending (sigstate s1 ! sig)) =
      map snd (pending (sigstate s ! sig)) @ (if sa_siginfo (sa (sigstate s ! sig)) then [timer_info sig v] else [])"
    using s1(7) len by (simp split: if_splits)
  ultimately have "timer_queued sig v s (upd_timer n (\<lambda>t. t\<lparr>overrun := 0\<rparr>) s1)" using s1 by (simp add: timer_queued_def)
  moreover have "cyg_posix_timer_asr (Some i) s = Some (Ret True, upd_timer n (\<lambda>t. t\<lparr>overrun := 0\<rparr>) s1)"
    by (rule timer_asr_one [OF assms(1)]) (use s1(1) assms(2) in simp)
  moreover have "timer_table s1 = (timer_table s)[n := (timer_table s ! n)\<lparr>tpending := False\<rparr>]"
    using sigqueue_timers [OF s1(1)] by simp
  moreover have "n < length (timer_table s)" using assms(1) by (auto simp: pending_timers_def)
  ultimately show ?thesis by simp
qed

text \<open>
  The ASR does not look at the result of \<^verbatim>\<open>cyg_sigqueue\<close>: when the signal's action has \<^verbatim>\<open>SA_SIGINFO\<close> and no queue object is free, the
  expiry is lost, and no signal is ever sent for it.
\<close>

lemma timer_expiry_lost:
  assumes "pending_timers s = {n}" "tsigev (timer_table s ! n) = user_event sig v" "SIGNAL_VALID sig" "sig_ok i s" "sig_mutex s = None"
    and "sa_siginfo (sa (sigstate s ! sig))" "siginfo_next s = []"
  shows "\<exists>s'. cyg_posix_timer_asr (Some i) s = Some (Ret True, s') \<and> pending_timers s' = {} \<and> sig_pending s' = sig_pending s \<and> sigstate s' = sigstate s"
proof -
  let ?s = "upd_timer n (\<lambda>t. t\<lparr>tpending := False\<rparr>) s"
  have n: "n < length (timer_table s)" using assms(1) by (auto simp: pending_timers_def)
  have "\<not> length (sigstate s) \<le> sig" using assms(3,4) by (simp add: SIGNAL_VALID_def sig_ok_def)
  then have "cyg_sigqueue (Some i) (user_event sig v) SI_TIMER None ?s = Some (Ret False, ?s)"
    using assms(5-7) by (simp add: cyg_sigqueue_def user_event_def Let_def lock_unless_def signal_lock_def unlock_unless_def enqueue_signal_def)
  then have run: "cyg_posix_timer_asr (Some i) s = Some (Ret True, upd_timer n (\<lambda>t. t\<lparr>overrun := 0\<rparr>) ?s)"
    using assms(2) by (intro timer_asr_one [OF assms(1), where b = False]) simp
  have "x \<notin> pending_timers (upd_timer n (\<lambda>t. t\<lparr>overrun := 0\<rparr>) ?s)" for x
  proof (cases "x = n")
    case False
    then have "x \<notin> pending_timers s" using assms(1) by simp
    then show ?thesis using False by (simp add: pending_timers_def)
  qed (use n in \<open>simp add: pending_timers_def\<close>)
  with run show ?thesis by auto
qed

lemma sig_ok_same: "sig_ok i s \<Longrightarrow> thread_table s' = thread_table s \<Longrightarrow> length (sigstate s') = length (sigstate s) \<Longrightarrow> sig_ok i s'"
  by (simp add: sig_ok_def)

text \<open>
  C8: a timer whose signal has a handler and is not masked, while nothing else is pending. However many times it expires before the
  thread can run, the thread's ASR calls the handler of its signal once and returns. With \<^verbatim>\<open>SA_SIGINFO\<close> the handler gets the value of
  the timer, provided that a queue object is free (otherwise the expiry is lost, \<open>timer_expiry_lost\<close>). The expiries after the first
  are counted as overruns, modulo \<open>2 ^ 32\<close> and read as a signed number, until the ASR, which sets the count back to 0 before the handler
  runs.
\<close>

theorem expired_timer_signals_once:
  fixes m :: nat
  assumes "timer_event n sig v s" "SIGNAL_VALID sig" "sig_ok i s" "sig_mutex s = None" "quiet H"
    and "sa_siginfo (sa (sigstate s ! sig)) \<longrightarrow> siginfo_next s \<noteq> []" "caught (sa (sigstate s ! sig))" "pending (sigstate s ! sig) = []"
    and "deliverable i s = 0" "\<not> bit (sigmask (info i s)) sig" "\<not> sigalrm_pending s" "\<not> cancelpending (info i s)"
  shows "\<exists>s1 s' s2. (alarm_action n ^^ Suc m) s = s1 \<and>
    timer_getoverrun (timer_id (timer_table s ! n)) s1 = Ret (sint (overrun (timer_table s ! n) + of_nat m)) \<and>
    cyg_posix_timer_asr (Some i) s1 = Some (Ret True, s') \<and> timer_getoverrun (timer_id (timer_table s ! n)) s' = Ret 0 \<and>
    posix_asr c run canceled H i s1 = Some (Ret (), s2) \<and>
    slog s2 = slog s @ [SBroadcast, SHandler sig (timer_seen (sa (sigstate s ! sig)) sig v)] \<and> deliverable i s2 = 0"
proof -
  define s1 where "s1 = (alarm_action n ^^ Suc m) s"
  note e = expired [OF assms(1), of m, folded s1_def]
  note same = e(1) [unfolded same_signals_def]
  have ok1: "sig_ok i s1" using assms(3) same by (simp add: sig_ok_def)
  from asr_queues [OF e(4,5) assms(2) ok1 _ e(2)] same assms(4,6) obtain s' where
    s': "cyg_posix_timer_asr (Some i) s1 = Some (Ret True, s')" "timer_queued sig v s1 s'"
      "timer_table s' = (timer_table s1)[n := (timer_table s1 ! n)\<lparr>tpending := False, overrun := 0\<rparr>]" by auto
  note q = s'(2) [unfolded timer_queued_def]
  have sig: "sig < 32" using assms(2) by (simp add: SIGNAL_VALID_def)
  have ok': "sig_ok i s'" using ok1 q by (simp add: sig_ok_def)
  have d: "deliverable i s' = sigbit sig" using q same by (intro one_more_deliverable [OF assms(9,10) sig]) simp_all
  have "catches i s'" using assms(7) q same by (auto simp: catches_def d bit_sigbit)
  from deliver_effect [OF assms(5) ok' this] obtain s2 where
    s2: "cyg_deliver_signals H (Some i) s' = Some (Ret (deliverable i s' \<noteq> 0), s2)" "delivered i s' s2" using q same assms(4) by auto
  have "map snd (pending (sigstate s' ! sig)) = (if sa_siginfo (sa (sigstate s ! sig)) then [timer_info sig v] else [])" using q same assms(8) by simp
  then have "infos sig s' = [timer_seen (sa (sigstate s ! sig)) sig v]" by (auto simp: infos_def timer_seen_def split: if_splits)
  then have log: "slog s2 = slog s @ [SBroadcast, SHandler sig (timer_seen (sa (sigstate s ! sig)) sig v)]"
    using s2(2) q e(3) by (simp add: delivered_def expected_single [OF d sig])
  have "\<not> cancelpending (info i s2)" using s2(2) q same assms(12) by (simp add: delivered_def)
  then have "posix_asr c run canceled H i s1 = Some (Ret (), s2)"
    using s'(1) s2(1) q e(8) assms(11) by (simp add: posix_asr_def cyg_posix_signal_asr_def check_sigalarm_def)
  moreover have "timer_getoverrun (timer_id (timer_table s ! n)) s1 = Ret (sint (overrun (timer_table s ! n) + of_nat m))"
    "timer_getoverrun (timer_id (timer_table s ! n)) s' = Ret 0"
  proof -
    have "n \<in> pending_timers s1" unfolding e(4) by simp
    then have "n < length (timer_table s1)" by (simp add: pending_timers_def)
    then show "timer_getoverrun (timer_id (timer_table s ! n)) s1 = Ret (sint (overrun (timer_table s ! n) + of_nat m))"
      "timer_getoverrun (timer_id (timer_table s ! n)) s' = Ret 0"
      using e(6,7) assms(1) by (simp_all add: timer_getoverrun_def with_timer_def timer_event_def s'(3))
  qed
  ultimately show ?thesis using log s2(2) s'(1) by (auto simp: s1_def delivered_def)
qed

subsection \<open>Accepting a signal\<close>

declare sigtimedwait_loop.simps [simp del]

lemma accept_queued:
  assumes "sig_ok i s" "sig < 32"
    and "map snd (pending (sigstate s ! sig)) = (if sa_siginfo (sa (sigstate s ! sig)) then [timer_info sig v] else [])"
  shows "\<exists>s'. accept_signal i sig s = (timer_seen (sa (sigstate s ! sig)) sig v, s') \<and> slog s' = slog s \<and>
    sig_pending s' = sig_pending s AND NOT (sigbit sig) \<and> sigpending (info i s') = sigpending (info i s) AND NOT (sigbit sig) \<and>
    checkforcancel (Some i) s' = checkforcancel (Some i) s \<and> sig_ok i s'"
proof -
  have len: "sig < length (sigstate s)" "i < length (thread_table s)" using assms(1,2) by (simp_all add: sig_ok_def)
  show ?thesis
  proof (cases "sa_siginfo (sa (sigstate s ! sig))")
    case True
    then obtain p where p: "pending (sigstate s ! sig) = [(p, timer_info sig v)]" using assms(3) by (cases "pending (sigstate s ! sig)") auto
    show ?thesis using len assms(1) True
      by (simp add: accept_signal_def dequeue_signal_def p clear_pending_def checkforcancel_def sig_ok_def timer_seen_def)
  next
    case False
    then show ?thesis using len assms(1,3)
      by (simp add: accept_signal_def clear_pending_def checkforcancel_def sig_ok_def timer_seen_def)
  qed
qed

lemma wait_then_queued:
  fixes m :: nat
  assumes "timer_event n sig v s" "SIGNAL_VALID sig" "sig_ok i s" "sa_siginfo (sa (sigstate s ! sig)) \<longrightarrow> siginfo_next s \<noteq> []"
    and "st AND (sig_pending s OR sigpending (info i s)) = 0" "bit st sig" "\<not> sigalrm_pending s"
  shows "\<exists>s'. sigtimedwait_loop i st None ((alarm_action n ^^ Suc m) # ws) s = Some (Ret True, s') \<and> sig_mutex s' = Some (Some i) \<and>
    thread_table s' = thread_table s \<and> sig_pending s' = sig_pending s OR sigbit sig \<and> slog s' = slog s @ [SBroadcast] \<and> length (sigstate s') = length (sigstate s) \<and>
    (\<forall>k. sa (sigstate s' ! k) = sa (sigstate s ! k)) \<and>
    map snd (pending (sigstate s' ! sig)) = map snd (pending (sigstate s ! sig)) @ (if sa_siginfo (sa (sigstate s ! sig)) then [timer_info sig v] else [])"
proof -
  let ?w = "alarm_action n ^^ Suc m"
  define s0 where "s0 = s\<lparr>sig_mutex := None, sigwait_queue := sigwait_queue s @ [i]\<rparr>"
  define s1 where "s1 = (alarm_action n ^^ Suc m) s0"
  define s2 where "s2 = s1\<lparr>sig_mutex := Some (Some i), sigwait_queue := []\<rparr>"
  have ev: "timer_event n sig v s0" using assms(1) by (simp add: timer_event_def s0_def pending_timers_def)
  note e = expired [OF ev, of m, folded s1_def]
  note same = e(1) [unfolded same_signals_def]
  have w: "signal_wait i ?w s = (True, s2)" using e(2) unfolding signal_wait_def s2_def Let_def s0_def [symmetric] s1_def [symmetric] by simp
  have p2: "pending_timers s2 = {n}" "tsigev (timer_table s2 ! n) = user_event sig v" using e(4,5) by (simp_all add: s2_def pending_timers_def)
  have ok2: "sig_ok i s2" using assms(3) same by (simp add: sig_ok_def s2_def s0_def)
  from asr_queues [OF p2 assms(2) ok2] same assms(4) obtain s' where
    s': "cyg_posix_timer_asr (Some i) s2 = Some (Ret True, s')" "timer_queued sig v s2 s'" by (auto simp: s2_def s0_def)
  note q = s'(2) [unfolded timer_queued_def]
  have f: "thread_table s' = thread_table s" "sig_pending s' = sig_pending s OR sigbit sig" using q same by (simp_all add: s2_def s0_def)
  have sig: "sig < 32" using assms(2) by (simp add: SIGNAL_VALID_def)
  have "bit (st AND (sig_pending s' OR sigpending (info i s'))) sig" using assms(6) sig by (simp add: f bit_simps bit_sigbit)
  then have todo: "st AND (sig_pending s' OR sigpending (info i s')) \<noteq> 0" by auto
  have "check_sigalarm (Some i) s2 = Some s2" using assms(7) e(8) by (simp add: check_sigalarm_def s2_def s0_def)
  then have "sigtimedwait_loop i st None (?w # ws) s = sigtimedwait_loop i st None ws s'"
    using assms(5) w s'(1) by (subst sigtimedwait_loop.simps) simp
  also have "\<dots> = Some (Ret True, s')" using todo by (subst sigtimedwait_loop.simps) simp
  finally show ?thesis using q same f e(3) by (simp add: s2_def s0_def)
qed

text \<open>
  C40: a thread that waits for a set of signals, with the timer's signal in it and none pending, is woken by the expiry of the timer
  (its broadcast takes the thread out of the queue; more expiries may follow before the thread runs) and gets the signal: with the
  timer's value if the signal's action has \<^verbatim>\<open>SA_SIGINFO\<close> and a queue object is free, with the default information (\<^verbatim>\<open>SI_USER\<close>, value
  0) if it has not. No handler is called, and the signal is not pending any more.
\<close>

theorem waiting_thread_gets_timer:
  fixes m :: nat
  assumes "timer_event n sig v s" "SIGNAL_VALID sig" "sig_ok i s" "sig_mutex s = None" "sa_siginfo (sa (sigstate s ! sig)) \<longrightarrow> siginfo_next s \<noteq> []"
    and "pending (sigstate s ! sig) = []" "st AND (sig_pending s OR sigpending (info i s)) = 0" "bit st sig"
    and "\<not> sigalrm_pending s" "\<not> checkforcancel (Some i) s"
  shows "\<exists>s'. sigwaitinfo c run canceled k i st ((alarm_action n ^^ Suc m) # ws) s =
      Some (Ret (timer_seen (sa (sigstate s ! sig)) sig v), s') \<and>
    slog s' = slog s @ [SBroadcast] \<and> sig_mutex s' = None \<and> sig_pending s' = sig_pending s"
proof -
  let ?w = "alarm_action n ^^ Suc m"
  let ?l = "s\<lparr>sig_mutex := Some (Some i)\<rparr>"
  have sig: "sig < 32" using assms(2) by (simp add: SIGNAL_VALID_def)
  have pre: "timer_event n sig v ?l" "sig_ok i ?l" using assms(1,3) by (simp_all add: timer_event_def pending_timers_def sig_ok_def)
  from wait_then_queued [OF pre(1) assms(2) pre(2), of st m ws] assms(5-9) obtain s2 where
    s2: "sigtimedwait_loop i st None (?w # ws) ?l = Some (Ret True, s2)" "thread_table s2 = thread_table s" "sig_pending s2 = sig_pending s OR sigbit sig"
      "slog s2 = slog s @ [SBroadcast]" "length (sigstate s2) = length (sigstate s)" "\<forall>k. sa (sigstate s2 ! k) = sa (sigstate s ! k)"
      "map snd (pending (sigstate s2 ! sig)) = (if sa_siginfo (sa (sigstate s2 ! sig)) then [timer_info sig v] else [])"
    by (auto simp del: funpow.simps)
  have np: "\<not> (bit st b \<and> bit (sig_pending s OR sigpending (info i s)) b)" for b using assms(7) by (metis bit_and_iff bit_0_eq bot_apply bot_bool_def)
  have todo: "st AND (sig_pending s2 OR sigpending (info i s2)) = sigbit sig"
    by (rule bit_word_eqI) (use np assms(8) sig in \<open>auto simp: s2(2,3) bit_simps bit_sigbit\<close>)
  have low: "unat (hal_lsbit_index (sigbit sig)) = sig"
  proof -
    have "bit (sigbit sig) sig" using sig by (simp add: bit_sigbit)
    then have "sigbit sig \<noteq> 0" by auto
    from lsb_lowest(2) [OF this] show ?thesis by (simp add: bit_sigbit)
  qed
  have ok2: "sig_ok i s2" using assms(3) s2(2,5) by (simp add: sig_ok_def)
  from accept_queued [OF ok2 sig s2(7)] s2(6) obtain s3 where
    s3: "accept_signal i sig s2 = (timer_seen (sa (sigstate s ! sig)) sig v, s3)" "slog s3 = slog s2" "sig_pending s3 = sig_pending s2 AND NOT (sigbit sig)"
      "checkforcancel (Some i) s3 = checkforcancel (Some i) s2" by auto
  have nc: "\<not> checkforcancel (Some i) (signal_unlock s3)" using s3(4) s2(2) assms(10) by (simp add: checkforcancel_def)
  have "sigwaitinfo c run canceled k i st (?w # ws) s = Some (Ret (timer_seen (sa (sigstate s ! sig)) sig v), signal_unlock s3)"
    using assms(4,10) s2(1) s3(1) nc by (simp add: sigwaitinfo_def sigtimedwait_def pthread_testcancel_def signal_lock_def todo low)
  moreover have "sig_pending s3 = sig_pending s"
    by (rule bit_word_eqI) (use np [of sig] assms(8) in \<open>auto simp: s3(3) s2(3) bit_simps bit_sigbit\<close>)
  ultimately show ?thesis using s3(2) s2(4) by simp
qed

subsection \<open>Alarms\<close>

text \<open>\<^verbatim>\<open>alarm\<close> gives back the whole seconds that were left of the alarm that it replaces or cancels.\<close>

theorem alarm_gives_rest:
  assumes "clock_ok k T" "alarm_ok A" "sig_mutex s = None" "0 < secs" "secs < 2 ^ 31" "unat d * T \<le> nat secs * 1000000000"
  shows "\<exists>r s1 s2. alarm_seconds A k self secs s = Some (r, s1) \<and> sigalrm_armed s1 \<and>
    alarm_seconds A k self 0 (s1\<lparr>clock_now := clock_now s + d\<rparr>) = Some (int ((nat secs * 1000000000 - unat d * T) div 1000000000), s2) \<and> \<not> sigalrm_armed s2"
proof -
  let ?v = "\<lparr>tv_sec = secs, tv_nsec = 0\<rparr>"
  define tr where "tr = cyg_timespec_to_ticks k ?v False"
  have r: "in_range ?v" "nsecs ?v = nat secs * 1000000000" using assms(4,5) by (simp_all add: in_range_def nsecs_def)
  have "T dvd nsecs ?v" using clock_okD(2) [OF assms(1)] r(2) by simp
  then have tr: "unat tr * T = nat secs * 1000000000" using to_ticks(1) [OF assms(1) r(1)] r(2) by (simp add: tr_def)
  have "unat d \<le> unat tr" using assms(6) clock_okD(1) [OF assms(1)] unfolding tr [symmetric] by simp
  then have u: "unat (tr - d) = unat tr - unat d" by (simp add: unat_sub word_le_nat_alt)
  have left: "unat (tr - d) * T = nat secs * 1000000000 - unat d * T" unfolding u by (simp add: diff_mult_distrib tr)
  have "nat secs < 2 ^ 31" using assms(5) by simp
  then have b: "unat (tr - d) * T < 2 ^ 31 * 1000000000" unfolding left by simp
  let ?t = "cyg_ticks_to_timespec k (tr - d)"
  have "nat (tv_sec ?t) * 1000000000 + nat (tv_nsec ?t) = nat secs * 1000000000 - unat d * T" "0 \<le> tv_sec ?t" "0 \<le> tv_nsec ?t" "tv_nsec ?t < 1000000000"
    using from_ticks [OF assms(1) b] by (simp_all add: left nsecs_def in_range_def)
  then have res: "tv_sec ?t = int ((nat secs * 1000000000 - unat d * T) div 1000000000)" by linarith
  show ?thesis using assms(2,3,4) res
    by (auto simp: alarm_seconds_def signal_lock_def alarm_ok_def Let_def tr_def)
qed

subsection \<open>Concrete runs\<close>

lemma demo_event: "timer_event 1 16 7 (demo_timers b)"
proof -
  have "timer_slot 0x801 = 1" by (simp add: timer_slot_mod)
  moreover have "\<not> tpending (timer_table (demo_timers b) ! x)" if "x < 2" for x
    using less_2_cases [OF that] by (auto simp: demo_timers_fields demo_timer_def)
  then have "pending_timers (demo_timers b) = {}" by (auto simp: pending_timers_def demo_timers_fields(1) numeral_2_eq_2)
  ultimately show ?thesis by (simp add: timer_event_def demo_timers_fields demo_timer_def)
qed

lemma demo_state:
  "sig_ok 0 (demo_timers b)" "sigstate (demo_timers b) ! 16 = \<lparr>sa = \<lparr>sa_mask = 0, sa_siginfo = True, sa_handler = 100\<rparr>, pending = []\<rparr>" "deliverable 0 (demo_timers b) = 0"
  "sigmask (info 0 (demo_timers b)) = b" "sigpending (info 0 (demo_timers b)) = 0" "\<not> cancelpending (info 0 (demo_timers b))" "SIGNAL_VALID 16" "quiet (\<lambda>_ _ _ s. Some s)"
  using demo_signals_ok(1) [of 100 True b 0] demo_signals_ok(4) [of 16 100 True b 0]
  by (simp_all add: sig_ok_def demo_timers_fields deliverable_def demo_signals_def demo_thread_def SIGNAL_VALID_def quiet_def)

theorem expired_timer_signals_once_witness:
  "\<exists>s2. timer_getoverrun 0x801 ((alarm_action 1 ^^ 3) (demo_timers 0)) = Ret 2 \<and>
     posix_asr undefined (\<lambda>_ _. Some) 0 (\<lambda>_ _ _ s. Some s) 0 ((alarm_action 1 ^^ 3) (demo_timers 0)) = Some (Ret (), s2) \<and>
     slog s2 = [SBroadcast, SHandler 16 (timer_info 16 7)]"
  using expired_timer_signals_once [OF demo_event demo_state(7,1) _ demo_state(8), of 0 2 undefined "\<lambda>_ _. Some" 0] demo_state(2-6) [of 0]
  by (auto simp: demo_timers_fields demo_timer_def caught_def timer_seen_def numeral_3_eq_3 simp del: funpow.simps)

theorem waiting_thread_gets_timer_witness:
  "\<exists>s'. sigwaitinfo undefined (\<lambda>_ _. Some) 0 centi_clock 0 (sigbit 16) [alarm_action 1 ^^ Suc 0] (demo_timers (sigbit 16)) = Some (Ret (timer_info 16 7), s') \<and>
     slog s' = [SBroadcast]"
  using waiting_thread_gets_timer [OF demo_event demo_state(7,1), where b1 = "sigbit 16" and m = 0 and st = "sigbit 16" and ws = "[]" and c = undefined and run = "\<lambda>_ _. Some" and canceled = 0 and k = centi_clock]
    demo_state(2-6) [of "sigbit 16"]
  by (auto simp: demo_timers_fields bit_sigbit checkforcancel_def timer_seen_def simp del: funpow.simps)

end
