(* ===== verification/Posix_Except.thy ===== *)
theory Posix_Except
  imports Posix_Sync Posix_Wait_Correct
begin

text \<open>
  Exceptions as signals (\<^verbatim>\<open>tools/gcc4libstdxx/ecos/compat/posix/current/src/except.cxx\<close>) and the startup of the POSIX layer
  (\<^verbatim>\<open>startup.cxx\<close>). Which exceptions the HAL has, and their codes, are arguments; exceptions are not decoded by the kernel.
\<close>

definition SIGINT :: nat where "SIGINT = 2"
definition SIGILL :: nat where "SIGILL = 4"
definition SIGTRAP :: nat where "SIGTRAP = 5"
definition SIGFPE :: nat where "SIGFPE = 8"
definition SIGBUS :: nat where "SIGBUS = 10"
definition SIGSEGV :: nat where "SIGSEGV = 11"
definition SIGSYS :: nat where "SIGSYS = 12"

lemmas exception_signals [simp] = SIGINT_def SIGILL_def SIGTRAP_def SIGFPE_def SIGBUS_def SIGSEGV_def SIGSYS_def

text \<open>The exceptions \<^verbatim>\<open>CYGNUM_HAL_EXCEPTION_...\<close> that the table knows.\<close>

datatype hal_exception =
    X_DATA_ACCESS | X_DATA_WRITE | X_CODE_ACCESS | X_CODE_WRITE | X_CODE_EXECUTE | X_IO_ACCESS | X_IO_WRITE
  | X_DATA_TLBMISS_ACCESS | X_DATA_TLBMISS_WRITE | X_CODE_TLBMISS_ACCESS | X_CODE_TLBMISS_WRITE
  | X_DATA_TLBERROR_ACCESS | X_DATA_TLBERROR_WRITE | X_CODE_TLBERROR_ACCESS | X_CODE_TLBERROR_WRITE
  | X_DATA_UNALIGNED_ACCESS | X_DATA_UNALIGNED_WRITE | X_IO_UNALIGNED_ACCESS | X_IO_UNALIGNED_WRITE
  | X_ILLEGAL_INSTRUCTION | X_INTERRUPT | X_TRAP | X_DIV_BY_ZERO | X_OVERFLOW | X_BOUNDS | X_SINGLE_STEP
  | X_INSTRUCTION_BP | X_PERIPHERAL_BP | X_DATA_BP | X_DEVELOPMENT_BP | X_STACK_OVERFLOW | X_STACK_FAULT
  | X_PARITY | X_FPU | X_FPU_NOT_AVAIL | X_FPU_OVERFLOW | X_FPU_UNDERFLOW | X_FPU_DIV_BY_ZERO | X_SYSTEM_CALL

text \<open>The rows of the table: the exception whose macro guards the row, the exception whose code is in it, and the signal.\<close>

definition mapping_rows :: "(hal_exception \<times> hal_exception \<times> nat) list" where
  "mapping_rows =
     [(X_DATA_ACCESS, X_DATA_ACCESS, SIGBUS),
      (X_DATA_WRITE, X_DATA_WRITE, SIGBUS),
      (X_CODE_ACCESS, X_CODE_ACCESS, SIGBUS),
      (X_CODE_WRITE, X_CODE_WRITE, SIGBUS),
      (X_CODE_EXECUTE, X_CODE_EXECUTE, SIGBUS),
      (X_IO_ACCESS, X_IO_ACCESS, SIGBUS),
      (X_IO_WRITE, X_IO_ACCESS, SIGBUS),
      (X_DATA_TLBMISS_ACCESS, X_DATA_TLBMISS_ACCESS, SIGSEGV),
      (X_DATA_TLBMISS_WRITE, X_DATA_TLBMISS_WRITE, SIGSEGV),
      (X_CODE_TLBMISS_ACCESS, X_CODE_TLBMISS_ACCESS, SIGSEGV),
      (X_CODE_TLBMISS_WRITE, X_CODE_TLBMISS_WRITE, SIGSEGV),
      (X_DATA_TLBERROR_ACCESS, X_DATA_TLBERROR_ACCESS, SIGSEGV),
      (X_DATA_TLBERROR_WRITE, X_DATA_TLBERROR_WRITE, SIGSEGV),
      (X_CODE_TLBERROR_ACCESS, X_CODE_TLBERROR_ACCESS, SIGSEGV),
      (X_CODE_TLBERROR_WRITE, X_CODE_TLBERROR_WRITE, SIGSEGV),
      (X_DATA_UNALIGNED_ACCESS, X_DATA_UNALIGNED_ACCESS, SIGBUS),
      (X_DATA_UNALIGNED_WRITE, X_DATA_UNALIGNED_WRITE, SIGBUS),
      (X_IO_UNALIGNED_ACCESS, X_IO_UNALIGNED_ACCESS, SIGBUS),
      (X_IO_UNALIGNED_WRITE, X_IO_UNALIGNED_WRITE, SIGBUS),
      (X_ILLEGAL_INSTRUCTION, X_ILLEGAL_INSTRUCTION, SIGILL),
      (X_INTERRUPT, X_INTERRUPT, SIGINT),
      (X_TRAP, X_TRAP, SIGTRAP),
      (X_DIV_BY_ZERO, X_DIV_BY_ZERO, SIGFPE),
      (X_OVERFLOW, X_OVERFLOW, SIGFPE),
      (X_BOUNDS, X_BOUNDS, SIGSEGV),
      (X_SINGLE_STEP, X_SINGLE_STEP, SIGTRAP),
      (X_INSTRUCTION_BP, X_INSTRUCTION_BP, SIGTRAP),
      (X_PERIPHERAL_BP, X_PERIPHERAL_BP, SIGTRAP),
      (X_DATA_BP, X_DATA_BP, SIGTRAP),
      (X_DEVELOPMENT_BP, X_DEVELOPMENT_BP, SIGTRAP),
      (X_STACK_OVERFLOW, X_STACK_OVERFLOW, SIGSEGV),
      (X_STACK_FAULT, X_STACK_FAULT, SIGSEGV),
      (X_PARITY, X_PARITY, SIGBUS),
      (X_FPU, X_FPU, SIGFPE),
      (X_FPU_NOT_AVAIL, X_FPU_NOT_AVAIL, SIGFPE),
      (X_FPU_OVERFLOW, X_FPU_OVERFLOW, SIGFPE),
      (X_FPU_UNDERFLOW, X_FPU_UNDERFLOW, SIGFPE),
      (X_FPU_DIV_BY_ZERO, X_FPU_DIV_BY_ZERO, SIGFPE),
      (X_SYSTEM_CALL, X_SYSTEM_CALL, SIGSYS)]"

definition exception_signal_mapping :: "(hal_exception \<Rightarrow> bool) \<Rightarrow> (hal_exception \<Rightarrow> nat) \<Rightarrow> (nat \<times> nat) list" where
  "exception_signal_mapping defd code = map (\<lambda>(g, x, sig). (code x, sig)) (filter (\<lambda>(g, x, sig). defd g) mapping_rows)"

definition exception_signal :: "(nat \<times> nat) list \<Rightarrow> nat \<Rightarrow> nat" where
  "exception_signal tab num = (case find (\<lambda>(x, sig). x = num) tab of None \<Rightarrow> 0 | Some (x, sig) \<Rightarrow> sig)"

text \<open>The test for a masked signal also holds where \<^verbatim>\<open>sigismember\<close> fails, because it then returns -1.\<close>

definition cyg_posix_exception_handler :: "(nat \<times> nat) list \<Rightarrow> 'a handlers \<Rightarrow> nat option \<Rightarrow> nat \<Rightarrow> nat \<Rightarrow> 'a signals_scheme \<Rightarrow> (unit outcome \<times> 'a signals_scheme) option" where
  "cyg_posix_exception_handler tab H self num inform s =
     (case self of
        None \<Rightarrow> Some (Ret (), s)
      | Some i \<Rightarrow>
          (let signo = exception_signal tab num
           in if sigismember signo (sigmask (info i s)) \<noteq> Ret False then Some (Ret (), s)
              else generate H self (user_event signo inform) SI_EXCEPT None s))"

subsection \<open>Startup\<close>

text \<open>
  The constructor of \<^verbatim>\<open>startup.cxx\<close>. Registering the exception handler and setting up the converters of the clock only concern the
  kernel and have no part in the state.
\<close>

definition posix_startup :: "pcfg \<Rightarrow> int \<Rightarrow> int \<Rightarrow> u32 \<Rightarrow> u32 \<Rightarrow> nat \<Rightarrow> nat \<Rightarrow> 'a signals_scheme \<Rightarrow> (u32 outcome \<times> 'a signals_scheme) option" where
  "posix_startup c prio main_priority main_stack main_size call_main SIGQUEUE_MAX s =
     do {
       (r, s1) \<leftarrow> cyg_posix_pthread_start c prio main_priority main_stack main_size call_main s;
       Some (r, cyg_posix_signal_start SIGQUEUE_MAX s1)
     }"

text \<open>
  From the memory of a program that starts, the layer is ready: the main thread runs \<^verbatim>\<open>main\<close>, the thread table is consistent, every signal has its
  default action and none is pending.
\<close>

theorem startup_ready:
  assumes "thread_table s = replicate n None" "0 < n" "n \<le> 1024" "pthread_count s = 0" "pthreads_exited s = 0" "pthreads_tobejoined s = 0"
    and "thread_info_next s = 0" "thread_id_cookie s = THREAD_ID_COOKIE_INC" "lags_end s" "call_main \<noteq> 0" "PTHREAD_STACK_MIN c \<le> main_size"
  shows "\<exists>th s'. posix_startup c prio main_priority main_stack main_size call_main mx s = Some (Ret th, s') \<and> thread_inv s' \<and>
    (\<exists>i. pthread_info_id th s' = Ret i \<and> start_routine (info i s') = call_main \<and> stacksize (tattr (info i s')) = main_size) \<and>
    (\<forall>a \<in> set (sigstate s'). sa_handler (sa a) = SIG_DFL) \<and> sig_pending s' = 0"
proof -
  let ?a = "main_attr c main_priority main_stack main_size"
  let ?s = "s\<lparr>thread_key := map (\<lambda>_. NOT 0) (thread_key s)\<rparr>"
  have inv: "thread_inv ?s" using assms(1-8) by (auto simp: zinv_def surplus_def tcore_def cnt_def THREAD_ID_COOKIE_MASK_def THREAD_ID_COOKIE_INC_def)
  have lag: "lags_end ?s" using assms(9) by (simp add: lags_end_def)
  have attr: "inheritsched ?a = PTHREAD_EXPLICIT_SCHED" "stackaddr_valid ?a" "stacksize ?a = main_size" "detachstate ?a = PTHREAD_CREATE_JOINABLE"
    using assms(11) leD [OF assms(11)] by (simp_all add: main_attr_def pthread_attr_setschedparam_def pthread_attr_setschedpolicy_def policy_ok_def pthread_attr_setstacksize_def
      pthread_attr_setstackaddr_def pthread_attr_setinheritsched_def attr_default_def)
  have ca: "create_attr c None (Some ?a) ?s = ?a" using attr(1) by (simp add: create_attr_def)
  have args: "create_args_ok c None (Some ?a) call_main ?s" using assms(10) attr(1,2) ca by (simp add: create_args_ok_def)
  from create_effect [OF inv lag args, of prio 0] obtain r s1 where
    s1: "pthread_create c prio None True (Some ?a) call_main 0 ?s = Some (r, s1)" "thread_inv s1"
      and d: "(r = Err ENOMEM \<and> (\<forall>i<length (thread_table ?s). live (thread_table ?s ! i)) \<and> thread_table s1 = map clean_exited (thread_table ?s)) \<or>
        (\<exists>th i t. r = Ret th \<and> i < length (thread_table ?s) \<and> \<not> live (thread_table ?s ! i) \<and> thread_table s1 = (map clean_exited (thread_table ?s))[i := Some t] \<and>
          unat (th AND THREAD_ID_COOKIE_MASK) = i \<and> tid t = th \<and> state t = (if detachstate ?a = PTHREAD_CREATE_JOINABLE then RUNNING else DETACHED) \<and>
          start_routine t = call_main \<and> start_arg t = 0 \<and> tattr t = ?a)"
    unfolding ca by blast
  have "\<not> live (thread_table ?s ! 0)" using assms(1,2) by (simp add: live_def clean_exited_def)
  with d obtain th i t where t: "r = Ret th" "i < length (thread_table s)" "thread_table s1 = (map clean_exited (thread_table s))[i := Some t]"
    "unat (th AND THREAD_ID_COOKIE_MASK) = i" "tid t = th" "state t = RUNNING" "start_routine t = call_main" "tattr t = ?a" using assms(1,2) attr(4) by auto
  define s' where "s' = cyg_posix_signal_start mx s1"
  have tt: "thread_table s' = thread_table s1" by (simp add: s'_def cyg_posix_signal_start_def)
  have "thread_inv s'" by (rule zinv_same [OF s1(2)]) (simp_all add: s'_def cyg_posix_signal_start_def tcore_def)
  moreover have "pthread_info_id th s' = Ret i" "info i s' = t"
    using t tt by (auto simp: pthread_info_id_def Let_def)
  moreover have "\<forall>a \<in> set (sigstate s'). sa_handler (sa a) = SIG_DFL" "sig_pending s' = 0" by (auto simp: s'_def cyg_posix_signal_start_def sigemptyset_def)
  moreover have "posix_startup c prio main_priority main_stack main_size call_main mx s = Some (Ret th, s')"
    using s1(1) t(1) by (simp add: posix_startup_def cyg_posix_pthread_start_def s'_def)
  ultimately show ?thesis using t(7,8) attr(3) by auto
qed

subsection \<open>From an exception to its handler\<close>

text \<open>Exceptions without a row, and exceptions whose signal is masked, are ignored.\<close>

lemma unknown_exception_ignored:
  "exception_signal tab num = 0 \<or> bit (sigmask (info i s)) (exception_signal tab num) \<Longrightarrow> exception_signal tab num < 32 \<Longrightarrow>
     cyg_posix_exception_handler tab H (Some i) num inform s = Some (Ret (), s)"
  by (auto simp: cyg_posix_exception_handler_def sigismember_def SIGNAL_VALID_def and_sigbit Let_def)

text \<open>The row for writes to I/O space has the code for other accesses, so such a write is an unknown exception.\<close>

lemma io_write_unknown:
  assumes "inj code"
  shows "exception_signal (exception_signal_mapping (\<lambda>_. True) code) (code X_IO_WRITE) = 0"
  using assms by (simp add: exception_signal_def exception_signal_mapping_def mapping_rows_def inj_eq)

text \<open>
  An exception in a POSIX thread that catches its signal, with nothing else to deliver, calls the handler once, with the information that came
  with the exception, and the thread goes on.
\<close>

theorem exception_calls_handler:
  assumes "exception_signal tab num = sig" "SIGNAL_VALID sig" "sig_ok i s" "sig_mutex s = None" "siginfo_next s \<noteq> []" "quiet H"
    and "sa_siginfo (sa (sigstate s ! sig))" "caught (sa (sigstate s ! sig))" "pending (sigstate s ! sig) = []"
    and "deliverable i s = 0" "\<not> bit (sigmask (info i s)) sig" "sigwait_queue s = []"
  shows "\<exists>s'. cyg_posix_exception_handler tab H (Some i) num inform s = Some (Ret (), s') \<and>
    slog s' = slog s @ [SHandler sig \<lparr>si_signo = sig, si_code = SI_EXCEPT, si_value = inform\<rparr>] \<and> deliverable i s' = 0"
proof -
  have "sigismember sig (sigmask (info i s)) = Ret False" using assms(2,11) by (simp add: sigismember_def and_sigbit)
  then have "cyg_posix_exception_handler tab H (Some i) num inform s = generate H (Some i) (user_event sig inform) SI_EXCEPT None s"
    using assms(1) by (simp add: cyg_posix_exception_handler_def Let_def)
  then show ?thesis using generate_calls_handler [OF assms(2-12)] by simp
qed

end
