(* ===== verification/Posix_Notify.thy ===== *)
theory Posix_Notify
  imports Posix_Mq_Props Posix_Except
begin






end
