(* ===== verification/Spec2Isabelle.thy ===== *)
theory Spec2Isabelle
  imports Srec_Roundtrip Xyz_Transfer Nios2_Hal Nios2_Stub Lcd_Correct Bootloader_Correct Epcs_Props Cf_Correct Uart_Console Jtag_Correct Tse_Phy Oeth_Props Ocm_Phy_Correct Eth_Ocm_Init Spi_Bus Alt_Dev Avalon_Timer Posix_Notify
begin

text \<open>
  \<^bold>\<open>Verification of the eCos port to the Nios II\<close>

  The repository holds what a Nios II board needs to run eCos: a bootloader with its host tools, a
  firmware-upgrade service, the hardware abstraction layer with a GDB stub, and drivers for Altera's
  peripherals. This development models their C code as executable definitions and proves what they
  do. Each theory names the source files it translates.

  \<^bold>\<open>The parts and how they interact.\<close> At reset the bootloader (\<^verbatim>\<open>bootloader.c\<close>) offers a serial menu:
  lines and keys come from the serial port, files come over Y-modem (\<^verbatim>\<open>xyzModem.c\<close>), firmware files
  are decompressed and programmed into flash by the upgrade service (\<^verbatim>\<open>firmwareutil.c\<close>); then the
  FPGA is reconfigured with the application, which the loader (\<^verbatim>\<open>deflator.c\<close>) decompresses into RAM.
  \<^verbatim>\<open>bin2srec\<close> and \<^verbatim>\<open>srec2bin\<close> convert images on the host. The HAL (\<^verbatim>\<open>packages/hal/nios2\<close>) is under
  all of it, and the drivers under \<^verbatim>\<open>packages/devs\<close> and \<^verbatim>\<open>packages/io\<close> serve the applications.

  \<^bold>\<open>Theories.\<close>
  \<^item> \<open>Nios_Prelude\<close>: machine types, C idioms (files written at an offset, \<^verbatim>\<open>printf\<close> formats), the
    predicate \<open>ends\<close> for computations that may not end, shared lemmas.
  \<^item> \<open>Srec_Common\<close>, \<open>Bin2Srec\<close>, \<open>Srec2Bin\<close> (\<^verbatim>\<open>bootloader/bin2srec\<close>): the converters with their
    command lines; \<open>Srec_Lines\<close> and \<open>Srec_Roundtrip\<close> show that the text \<^verbatim>\<open>bin2srec\<close> writes is read back
    by \<^verbatim>\<open>srec2bin\<close> as the same image, and that an empty file is never converted.
  \<^item> \<open>Serial_Line\<close>: the circular buffer of \<^verbatim>\<open>getCharTimeout\<close>, which implements a queue of the bytes
    on the line (locale \<open>byte_source\<close>, interpreted on the buffer). \<open>XyzModem\<close> is the receiver,
    \<open>Xyz_Correct\<close> shows that all its loops end on a line that falls silent at last and that only intact
    packets are accepted, \<open>Xyz_Transfer\<close> that of a file sent with mishaps the packets' data is delivered,
    stripped of what the receiver takes for padding (\<open>strip_block\<close>), which is the file itself where the
    padding can be told from the data (\<open>padded_file\<close>), and what goes wrong after a
    failed read and with a block repeated twenty times.
  \<^item> \<open>Firmware\<close>: the upgrade service and the loader, for any decompressor and flash driver that keep
    the contracts \<open>inflater_ok\<close> and \<open>flash_ok\<close>. An upgrade ends on any data if \<open>inflate\<close> makes progress
    (\<open>inflate_moves\<close>). Files that exist can be opened and read, and the firmware is not read from the temporary file.
  \<^item> \<open>Bootloader\<close>, \<open>Bootloader_Correct\<close>: the menu with all its commands. The state is the record
    \<open>boot\<close> (keys to come, flash, files, receiver, reconfiguration registers written); what the
    board, eCos and zlib provide is the record \<open>platform\<close>; \<open>Stop\<close> is where the program does not
    come back. Uploads compose with the Y-modem theorems, upgrades with \<open>Firmware\<close>. The menu ends, and the
    application's image is selected only with a MAC address; the jump after a reconfiguration does not ask for one.
  \<^item> \<open>Nios2_Hal\<close> (\<^verbatim>\<open>hal_misc.c\<close>, \<^verbatim>\<open>hal_arch.h\<close>, \<^verbatim>\<open>hal_intr.h\<close>): bit indices, startup copying, delays,
    interrupt vectors, register sets. \<open>Nios2_Stub\<close> (\<^verbatim>\<open>nios2-stub.c\<close>): single stepping and
    breakpoints over a memory of words.
  \<^item> \<open>Lcd\<close>, \<open>Lcd_Correct\<close>: the character display driver: the panel always shows the selected window
    of the text, and where it stores outside its buffers.
  \<^item> \<open>Epcs_Spi\<close>, \<open>Epcs\<close>, \<open>Epcs_Correct\<close>, \<open>Epcs_Props\<close> (\<^verbatim>\<open>packages/io/epcs\<close>): the serial flash driver from
    the SPI registers up to the block device, for any chip that keeps the contract \<open>epcs_chip\<close>.
    \<open>Alt_Dev\<close>: the device lists of the same package, as linked nodes in memory.
  \<^item> \<open>Spi_Bus\<close> (\<^verbatim>\<open>devs/spi\<close>): the SPI driver for eCos's own SPI layer, with several devices on the bus.
    \<open>Avalon_Timer\<close>: the system clock.
  \<^item> \<open>Cf_Disk\<close>, \<open>Cf_Correct\<close> (\<^verbatim>\<open>altera_avalon_cf.c\<close>): the CompactFlash disk driver over a model of the
    card's task file: sectors written are read back, errors and removal of the card are reported.
  \<^item> \<open>Uart\<close>, \<open>Uart_Correct\<close> and \<open>Jtag_Uart\<close>, \<open>Jtag_Correct\<close>: the serial drivers. Their interrupt handlers
    pass characters between the hardware and the serial layer, whose callbacks are parameters with the
    contracts \<open>layer_ok\<close> and \<open>jlayer_ok\<close>. \<open>Console\<close> states once, in the locales \<open>console\<close> and \<open>console_out\<close>,
    what reading and writing a diagnostic console does; both drivers' polled consoles
    (\<^verbatim>\<open>altera_avalon_uart_comm.c\<close> in \<open>Uart_Console\<close>, \<^verbatim>\<open>altera_avalon_jtag_uart_comm.c\<close>) interpret them.
  \<^item> \<open>Sgdma\<close>, \<open>Sgdma_Correct\<close> (\<^verbatim>\<open>altera_avalon_sgdma.c\<close>): the scatter-gather DMA driver over a model of the
    controller. \<open>Tse\<close>, \<open>Tse_Correct\<close>, \<open>Tse_Phy\<close> (\<^verbatim>\<open>if_tse.c\<close>): the Ethernet driver on top of it: packets sent and
    received through descriptors, the multicast table, the PHY and initialisation. As the driver does, the model
    drops the first two bytes of every received frame, although the MAC is not told to put padding there. The network stack's
    buffers are a parameter with the contract \<open>alloc_ok\<close>.
  \<^item> \<open>Byte_Memory\<close> is the memory that DMA shares with the drivers. \<open>Ethermac\<close> models the OpenCores MAC after its
    Verilog (registers, descriptors, management interface); \<open>Mac_Ring\<close> shows its descriptor rings to be queues of frames.
    Two drivers rest on them. \<open>Oeth\<close>, \<open>Oeth_Correct\<close>, \<open>Oeth_Props\<close> (\<^verbatim>\<open>if_oeth.c\<close>): the eCos driver, with the contract
    \<open>oeth_ok\<close>, under which the stack has a buffer for every packet; the step relation \<open>oeth_reach\<close> interleaves driver and MAC,
    with received frames that fit their buffers. \<open>Eth_Ocm\<close>, \<open>Eth_Ocm_Correct\<close>,
    \<open>Eth_Ocm_Props\<close>, \<open>Eth_Ocm_Init\<close> (\<^verbatim>\<open>ins_eth_ocm.c\<close>): the driver for the InterNiche stack, which hands the stack's own buffers
    to the MAC; \<open>ocm_reach\<close> interleaves driver, stack and MAC. \<open>Ocm_Phy\<close>, \<open>Ocm_Phy_Correct\<close> (\<^verbatim>\<open>eth_ocm_phy.c\<close>): its PHY.

  \<^item> \<open>Posix_Base\<close>: error codes, results of calls and the search for a free slot that the parts of the POSIX layer
    (\<^verbatim>\<open>tools/gcc4libstdxx/ecos/compat/posix/current\<close>) share.
  \<^item> \<open>Posix_Thread\<close>, \<open>Posix_Thread_Correct\<close>, \<open>Posix_Thread_Props\<close> (\<^verbatim>\<open>pthread.cxx\<close>): threads. The record \<open>pthreads\<close> holds the table of
    threads, its counters, the map of keys and the calls made on kernel threads. \<open>thread_reach\<close> is the calls of a program in any
    order; the table stays consistent (but for a surplus of one counter, left by detaching ended threads), identifiers lead to their
    threads, a join collects the value a thread ended with, keys are private to each thread.
  \<^item> \<open>Posix_Signal\<close>, \<open>Posix_Signal_Correct\<close>, \<open>Posix_Signal_Props\<close> (\<^verbatim>\<open>signal.cxx\<close>): signals, in the record \<open>signals\<close> that extends
    \<open>pthreads\<close>. A delivery of signals that have handlers calls those that are due, in order, and loses no queued value; sending an
    ignored signal hangs.
  \<^item> \<open>Posix_Time\<close>, \<open>Posix_Time_Correct\<close>, \<open>Posix_Timer_Correct\<close> (\<^verbatim>\<open>time.cxx\<close>): conversions between times and ticks, for a kernel clock
    with the contract \<open>clock_ok\<close>, and timers, for alarms with the contract \<open>alarm_ok\<close>; the record \<open>timers\<close> extends \<open>signals\<close>.
  \<^item> \<open>Posix_Wait\<close>, \<open>Posix_Wait_Correct\<close>: the functions of \<^verbatim>\<open>signal.cxx\<close> that wait and the ASR of \<^verbatim>\<open>pthread.cxx\<close>, where timers,
    signals and cancellation meet: an expired timer calls its handler once, or wakes the thread that waits for it, if a queue object is
    free for its value.
  \<^item> \<open>Posix_Sync\<close> (\<^verbatim>\<open>mutex.cxx\<close>, \<^verbatim>\<open>sem.cxx\<close>, \<^verbatim>\<open>sched.cxx\<close>): mutexes, waits on condition variables, semaphores and priorities over the
    kernel's objects (\<open>kmutex_ok\<close>, \<open>ksem_ok\<close>). \<open>Posix_Except\<close> (\<^verbatim>\<open>except.cxx\<close>, \<^verbatim>\<open>startup.cxx\<close>): exceptions as signals,
    and that startup leaves a consistent state.
  \<^item> \<open>Posix_Mq\<close>, \<open>Posix_Mq_Correct\<close>, \<open>Posix_Mq_Props\<close> (\<^verbatim>\<open>tools/gcc4libstdxx/.../posix/current/src/mqueue.cxx\<close>): POSIX message
    queues over the kernel's queue class. \<open>mq_reach\<close> is the calls of a program in any order; the table of queues and open
    descriptors stays consistent, and a queue lives on after its unlinking until its last user closes it. \<open>Posix_Notify\<close> joins them to
    the signals: a registered process gets its signal once.

  \<^bold>\<open>Conventions.\<close> State is passed explicitly; errors are values. A loop whose end depends on the outside
  world is a \<open>partial_function\<close> in the option type, where \<open>None\<close> is a run that never ends; that such
  loops end is proved (\<open>ends\<close>), as is where they do not. The input of a run (keys, the serial line) is a
  finite list of events: the loops that wait for silence do not end without it (\<open>drain_endless\<close>). The loop
  of \<^verbatim>\<open>bin2srec\<close> (\<open>process_loop\<close>) is the only definition with fuel: every record uses up a byte of the file, so
  that one more than its length is enough (\<open>process_loop_records\<close>); an empty file is printed without end. Hardware,
  zlib, the CRC and eCos services are parameters; what the code relies on is a named predicate, and
  each property that uses one has a witness on a concrete instance. Where a POSIX call waits for other threads, what they do is an
  argument: a function from the state before the wait to the state after it, one for each wait; a list that is used up is a
  wait that does not end. Whether a wait for signals succeeded follows from the state after it.

  \<^bold>\<open>Not modelled.\<close> Assembly (\<^verbatim>\<open>vectors.S\<close>, \<^verbatim>\<open>context.S\<close>), the Verilog of the MAC, the tables of \<^verbatim>\<open>sysconf\<close> and
  \<^verbatim>\<open>siglongjmp\<close> in the POSIX layer, build and configuration files and tests; pure plumbing such as device tables and mounting; messages, except
  where they show data; delays, where they have no other effect.
\<close>

end
